(* ===== verification/Prelude.thy ===== *)
theory Prelude
  imports Main "HOL-Library.Word" "HOL-Library.Monad_Syntax"
begin

unbundle bit_operations_syntax

text \<open>
  Shared vocabulary of the development: the machine integer types of the C sources, the
  \<^verbatim>\<open>named_theorems\<close> collections the component proofs draw on, and generic lemmas on words,
  page alignment and memories that are functions of an address.

  A value of an option type is a computation that may hang: \<^term>\<open>None\<close> is a call that never
  returns (a spin lock that can never be taken, a traversal of a cyclic list).  Error codes the
  source returns are ordinary values.
\<close>

section \<open>Machine integers\<close>

type_synonym u8 = "8 word"
type_synonym u16 = "16 word"
type_synonym u32 = "32 word"
type_synonym u64 = "64 word"

text \<open>A memory of 64-bit cells, indexed by the address of the first byte of the cell.\<close>

type_synonym mem64 = "u64 \<Rightarrow> u64"

named_theorems rep_simps \<open>unfolding rules of representation predicates\<close>
named_theorems page_arith \<open>facts about page aligned addresses\<close>
named_theorems frame \<open>what an operation leaves unchanged\<close>

section \<open>Arithmetic on C integers\<close>

text \<open>The value an \<^verbatim>\<open>int\<close> receives: reduced to 32 bits, two's complement.\<close>

definition wrap_int :: "int \<Rightarrow> int" where
  "wrap_int x = sint (word_of_int x :: u32)"

lemma wrap_int_id:
  assumes "0 \<le> x" and "x < 2 ^ 31"
  shows "wrap_int x = x"
  unfolding wrap_int_def sint_uint using assms
  by (simp add: uint_word_of_int take_bit_int_eq_self signed_take_bit_int_eq_self)

section \<open>Words as naturals\<close>

lemma unat_less_pow64: "unat (x :: u64) < 2 ^ 64"
  using unsigned_less [of x] by simp

lemma unat_of_nat64: "n < 2 ^ 64 \<Longrightarrow> unat (of_nat n :: u64) = n"
  by (simp add: unat_of_nat)

lemma unat_add_nowrap:
  fixes a b :: u64
  assumes "unat a + unat b < 2 ^ 64"
  shows "unat (a + b) = unat a + unat b"
  using assms by (simp add: unat_word_ariths)

lemma unat_Suc_lt:
  fixes i n :: u64
  assumes "i < n"
  shows "unat (i + 1) = Suc (unat i)"
proof -
  have "unat i < unat n" using assms by (simp add: word_less_nat_alt)
  then have "unat i + unat (1 :: u64) < 2 ^ 64" using unat_less_pow64 [of n] by simp
  then show ?thesis by (subst unat_add_nowrap) simp_all
qed

lemma word_add_one_le:
  fixes i n :: u64
  assumes "i < n"
  shows "i + 1 \<le> n"
  using assms unat_Suc_lt [OF assms] by (simp add: word_less_nat_alt word_le_nat_alt)

section \<open>Page alignment\<close>

text \<open>The C expressions \<^verbatim>\<open>p & ~0xFFFULL\<close> and \<^verbatim>\<open>p & 0xFFF\<close>.\<close>

definition page_base :: "u64 \<Rightarrow> u64" where
  "page_base p = p AND NOT 0xFFF"

definition page_off :: "u64 \<Rightarrow> u64" where
  "page_off p = p AND 0xFFF"

definition page_aligned :: "u64 \<Rightarrow> bool" where
  "page_aligned p \<longleftrightarrow> page_off p = 0"

lemma unat_page_off [page_arith]: "unat (page_off p) = unat p mod 4096"
proof -
  have "page_off p = take_bit 12 p"
    by (simp add: page_off_def take_bit_eq_mask mask_eq_exp_minus_1)
  then show ?thesis by (simp add: unat_mod take_bit_eq_mod)
qed

lemma page_aligned_unat [page_arith]: "page_aligned p \<longleftrightarrow> 4096 dvd unat p"
  by (simp add: page_aligned_def unat_eq_0 [symmetric] unat_page_off mod_eq_0_iff_dvd)

lemma page_base_off: "page_base p + page_off p = p"
  unfolding page_base_def page_off_def
  by (subst disjunctive_add) (auto simp: bit_simps intro: bit_word_eqI)

lemma unat_page_base [page_arith]: "unat (page_base p) = unat p - unat p mod 4096"
proof -
  have "page_base p = p - page_off p" using page_base_off [of p] by (simp add: eq_diff_eq)
  moreover have "page_off p \<le> p" by (simp add: word_le_nat_alt unat_page_off)
  ultimately show ?thesis by (simp add: unat_sub unat_page_off)
qed

lemma page_aligned_base [simp]: "page_aligned (page_base p)"
  by (simp add: page_aligned_unat unat_page_base dvd_minus_mod)

lemma page_base_id: "page_aligned p \<Longrightarrow> page_base p = p"
  using page_base_off [of p] by (simp add: page_aligned_def)

lemma page_base_le: "page_base p \<le> p"
  by (simp add: word_le_nat_alt unat_page_base)

lemma page_aligned_max:
  assumes "page_aligned p"
  shows "unat p + 4096 \<le> 2 ^ 64"
proof -
  obtain k where k: "unat p = 4096 * k" using assms by (auto simp: page_aligned_unat)
  then have "4096 * k < 4096 * 2 ^ 52" using unat_less_pow64 [of p] by simp
  then have "Suc k \<le> 2 ^ 52" by simp
  then have "4096 * Suc k \<le> 4096 * 2 ^ 52" by (rule mult_le_mono2)
  then show ?thesis using k by simp
qed

lemma aligned_less_step:
  assumes "page_aligned p" and "page_aligned q" and "p < q"
  shows "unat p + 4096 \<le> unat q"
proof -
  obtain j k where "unat p = 4096 * j" "unat q = 4096 * k"
    using assms(1,2) unfolding page_aligned_unat dvd_def by blast
  moreover have "unat p < unat q" using assms(3) by (simp add: word_less_nat_alt)
  ultimately show ?thesis by simp
qed

section \<open>Little-endian fields\<close>

text \<open>A packed 16-bit or 32-bit field at an offset of a byte buffer.\<close>

type_synonym bytes = "u8 list"

definition le16 :: "bytes \<Rightarrow> nat \<Rightarrow> u16" where
  "le16 b i = ucast (b ! i) OR push_bit 8 (ucast (b ! (i + 1)))"

definition le32 :: "bytes \<Rightarrow> nat \<Rightarrow> u32" where
  "le32 b i = ucast (b ! i) OR push_bit 8 (ucast (b ! (i + 1))) OR
              push_bit 16 (ucast (b ! (i + 2))) OR push_bit 24 (ucast (b ! (i + 3)))"

definition put16 :: "bytes \<Rightarrow> nat \<Rightarrow> u16 \<Rightarrow> bytes" where
  "put16 b i v = b[i := ucast v, i + 1 := ucast (drop_bit 8 v)]"

definition put32 :: "bytes \<Rightarrow> nat \<Rightarrow> u32 \<Rightarrow> bytes" where
  "put32 b i v = b[i := ucast v, i + 1 := ucast (drop_bit 8 v), i + 2 := ucast (drop_bit 16 v),
                   i + 3 := ucast (drop_bit 24 v)]"

lemma length_put32 [simp]: "length (put32 b i v) = length b"
  by (simp add: put32_def)

lemma length_put16 [simp]: "length (put16 b i v) = length b"
  by (simp add: put16_def)

lemma le32_put32:
  assumes "i + 3 < length b"
  shows "le32 (put32 b i v) i = v"
proof (rule bit_word_eqI)
  fix n assume "n < LENGTH(32)"
  then show "bit (le32 (put32 b i v) i) n = bit v n"
    using assms by (cases "24 \<le> n"; cases "16 \<le> n"; cases "8 \<le> n") (auto simp: le32_def put32_def bit_simps nth_list_update)
qed

lemma le32_put32_other:
  assumes "j + 4 \<le> i \<or> i + 4 \<le> j"
  shows "le32 (put32 b i v) j = le32 b j"
  using assms by (auto simp: le32_def put32_def nth_list_update)

lemma unat_less_pow32: "unat (n :: u32) < 2 ^ 32"
  using unsigned_less [of n] by simp

lemma unat_less_pow8: "unat (n :: u8) < 256"
  using unsigned_less [of n] by simp

lemma unat_ucast_32_64: "unat (ucast (n :: u32) :: u64) = unat n"
proof -
  have "unat n < 2 ^ 64" using unat_less_pow32 [of n] by simp
  then show ?thesis by (simp add: unsigned_ucast_eq take_bit_nat_eq_self)
qed

lemma and_bit7: "w AND 0x80 \<noteq> 0 \<longleftrightarrow> bit (w :: u8) 7"
  by (simp add: bit_iff_and_push_bit_not_eq_0 push_bit_eq_mult)

lemma unat_ucast_8_64: "unat (ucast (n :: u8) :: u64) = unat n"
proof -
  have "unat n < 2 ^ 64" using unat_less_pow8 [of n] by simp
  then show ?thesis by (simp add: unsigned_ucast_eq take_bit_nat_eq_self)
qed

lemma unat_ucast_8_32: "unat (ucast (n :: u8) :: u32) = unat n"
proof -
  have "unat n < 2 ^ 32" using unat_less_pow8 [of n] by simp
  then show ?thesis by (simp add: unsigned_ucast_eq take_bit_nat_eq_self)
qed

lemma unat_ucast_16_32: "unat (ucast (n :: u16) :: u32) = unat n"
proof -
  have "unat n < 2 ^ 32" using unsigned_less [of n, where 'a = nat] by simp
  then show ?thesis by (simp add: unsigned_ucast_eq take_bit_nat_eq_self)
qed

section \<open>Postconditions of computations that may hang\<close>

text \<open>
  \<open>ensures x Q\<close>: when the computation \<open>x\<close> returns, its result satisfies \<open>Q\<close>.  The rules follow the
  structure of the computation.
\<close>

definition ensures :: "'a option \<Rightarrow> ('a \<Rightarrow> bool) \<Rightarrow> bool" where
  "ensures x Q \<longleftrightarrow> (\<forall>y. x = Some y \<longrightarrow> Q y)"

named_theorems wp \<open>rules for postconditions\<close>

lemma ensures_bind3 [wp]:
  "ensures x (\<lambda>(a, b, t). R a b t) \<Longrightarrow> (\<And>a b t. R a b t \<Longrightarrow> ensures (f a b t) Q) \<Longrightarrow> ensures (x \<bind> (\<lambda>(a, b, t). f a b t)) Q"
  by (cases x) (auto simp: ensures_def)

lemma ensures_bind2 [wp]:
  "ensures x (\<lambda>(a, t). R a t) \<Longrightarrow> (\<And>a t. R a t \<Longrightarrow> ensures (f a t) Q) \<Longrightarrow> ensures (x \<bind> (\<lambda>(a, t). f a t)) Q"
  by (cases x) (auto simp: ensures_def)

lemma ensures_bind [wp]:
  "ensures x R \<Longrightarrow> (\<And>t. R t \<Longrightarrow> ensures (f t) Q) \<Longrightarrow> ensures (x \<bind> f) Q"
  by (cases x) (auto simp: ensures_def)

lemma ensures_if [wp]:
  "(b \<Longrightarrow> ensures x Q) \<Longrightarrow> (\<not> b \<Longrightarrow> ensures y Q) \<Longrightarrow> ensures (if b then x else y) Q"
  by simp

lemma ensures_let [wp]: "(\<And>y. y = x \<Longrightarrow> ensures (f y) Q) \<Longrightarrow> ensures (let y = x in f y) Q"
  by simp

lemma ensures_let2 [wp]: "(\<And>a b. (a, b) = x \<Longrightarrow> ensures (f a b) Q) \<Longrightarrow> ensures (let (a, b) = x in f a b) Q"
  by (simp add: split_beta)

lemma ensures_option [wp]:
  "(x = None \<Longrightarrow> ensures a Q) \<Longrightarrow> (\<And>y. x = Some y \<Longrightarrow> ensures (f y) Q) \<Longrightarrow>
     ensures (case x of None \<Rightarrow> a | Some y \<Rightarrow> f y) Q"
  by (cases x) simp_all

lemma ensures_Some [wp]: "Q y \<Longrightarrow> ensures (Some y) Q"
  by (simp add: ensures_def)

lemma ensuresD: "ensures x Q \<Longrightarrow> x = Some y \<Longrightarrow> Q y"
  by (simp add: ensures_def)

lemma ensures_any: "ensures x (\<lambda>_. True)"
  by (simp add: ensures_def)

lemma ensures_any2: "ensures x (\<lambda>(a, t). True)"
  by (simp add: ensures_def)

lemma ensures_any3: "ensures x (\<lambda>(a, b, t). True)"
  by (simp add: ensures_def)

end
