(* ===== verification/Pmm.thy ===== *)
theory Pmm
  imports Prelude
begin

text \<open>
  The physical page allocator, \<^verbatim>\<open>kernel/mm/pmm.c\<close>.  A free page holds in its first word the
  address of the next free page of its zone, so the three free lists live in the memory they
  manage: the state has the memory itself (\<open>pmem\<close>) and the three list heads.  The lock of the
  allocator is a field too: taking a lock that is held never returns.
\<close>

section \<open>State and operations\<close>

record phys =
  pmem :: mem64
  dma_free_list :: u64
  dma32_free_list :: u64
  normal_free_list :: u64
  free_pages_total :: u64
  pmm_lock :: bool

record e820_entry =
  e820_base :: u64
  e820_length :: u64
  e820_type :: u32

datatype zone = DMA | DMA32 | NORMAL

definition MIN_ADDR :: u64 where "MIN_ADDR = 0x200000"
definition DMA_ZONE_LIMIT :: u64 where "DMA_ZONE_LIMIT = 0x1000000"
definition DMA32_ZONE_LIMIT :: u64 where "DMA32_ZONE_LIMIT = 0x100000000"
definition E820_AVAILABLE :: u32 where "E820_AVAILABLE = 1"

lemmas zone_limits = MIN_ADDR_def DMA_ZONE_LIMIT_def DMA32_ZONE_LIMIT_def

text \<open>The list head a \<^verbatim>\<open>struct free_page **list\<close> argument points to.\<close>

fun zone_head :: "zone \<Rightarrow> 'a phys_scheme \<Rightarrow> u64" where
  "zone_head DMA s = dma_free_list s"
| "zone_head DMA32 s = dma32_free_list s"
| "zone_head NORMAL s = normal_free_list s"

fun set_zone_head :: "zone \<Rightarrow> u64 \<Rightarrow> 'a phys_scheme \<Rightarrow> 'a phys_scheme" where
  "set_zone_head DMA p s = s\<lparr>dma_free_list := p\<rparr>"
| "set_zone_head DMA32 p s = s\<lparr>dma32_free_list := p\<rparr>"
| "set_zone_head NORMAL p s = s\<lparr>normal_free_list := p\<rparr>"

text \<open>
  The spin lock with interrupts off: a second \<^verbatim>\<open>spin_lock\<close> by the holder spins for ever, since
  nothing else runs on the processor that could release it.
\<close>

definition spin_lock_irqsave :: "'a phys_scheme \<Rightarrow> 'a phys_scheme option" where
  "spin_lock_irqsave s = (if pmm_lock s then None else Some (s\<lparr>pmm_lock := True\<rparr>))"

definition spin_unlock_irqrestore :: "'a phys_scheme \<Rightarrow> 'a phys_scheme" where
  "spin_unlock_irqrestore s = s\<lparr>pmm_lock := False\<rparr>"

definition page_free_internal :: "u64 \<Rightarrow> 'a phys_scheme \<Rightarrow> 'a phys_scheme" where
  "page_free_internal addr s =
     (let s' = (if addr < DMA32_ZONE_LIMIT then
                  if addr < DMA_ZONE_LIMIT then
                    s\<lparr>pmem := (pmem s)(addr := dma_free_list s), dma_free_list := addr\<rparr>
                  else
                    s\<lparr>pmem := (pmem s)(addr := dma32_free_list s), dma32_free_list := addr\<rparr>
                else
                  s\<lparr>pmem := (pmem s)(addr := normal_free_list s), normal_free_list := addr\<rparr>)
      in s'\<lparr>free_pages_total := free_pages_total s' + 1\<rparr>)"

lemma page_step_nowrap:
  assumes "addr < page_base e"
  shows "unat (addr + 0x1000) = unat addr + 4096"
proof -
  have "unat addr < unat (page_base e)" using assms by (simp add: word_less_nat_alt)
  moreover have "unat (page_base e) + 4096 \<le> 2 ^ 64" by (simp only: page_aligned_max page_aligned_base)
  ultimately show ?thesis by (subst unat_add_nowrap) simp_all
qed

text \<open>
  The loop of \<^verbatim>\<open>add_range\<close>.  Its bound is page aligned, so the loop variable never wraps.
\<close>

function add_range_loop :: "u64 \<Rightarrow> u64 \<Rightarrow> 'a phys_scheme \<Rightarrow> 'a phys_scheme" where
  "add_range_loop addr end_addr s =
     (if addr < page_base end_addr
      then add_range_loop (addr + 0x1000) end_addr (page_free_internal addr s)
      else s)"
  by pat_completeness auto

termination
proof (relation "measure (\<lambda>(addr, e, s). unat (page_base e) - unat addr)")
  show "wf (measure (\<lambda>(addr, e, s). unat (page_base e) - unat addr))" by simp
next
  fix addr e :: u64 and s :: "'a phys_scheme"
  assume "addr < page_base e"
  then show "((addr + 0x1000, e, page_free_internal addr s), addr, e, s)
      \<in> measure (\<lambda>(addr, e, s). unat (page_base e) - unat addr)"
    using page_step_nowrap [of addr e] by (simp add: word_less_nat_alt)
qed

declare add_range_loop.simps [simp del]

definition add_range :: "u64 \<Rightarrow> u64 \<Rightarrow> 'a phys_scheme \<Rightarrow> 'a phys_scheme" where
  "add_range start end_addr s = add_range_loop (page_base (start + 0xFFF)) end_addr s"

definition zone_alloc :: "zone \<Rightarrow> 'a phys_scheme \<Rightarrow> u64 \<times> 'a phys_scheme" where
  "zone_alloc z s =
     (if zone_head z s = 0 then (0, s)
      else let page = zone_head z s;
               s' = set_zone_head z (pmem s page) s
           in (page, s'\<lparr>free_pages_total := free_pages_total s' - 1\<rparr>))"

text \<open>One step of the loop of \<^verbatim>\<open>pmm_init\<close> over the E820 map the boot loader left in memory.\<close>

definition pmm_init_entry :: "e820_entry \<Rightarrow> 'a phys_scheme \<Rightarrow> 'a phys_scheme" where
  "pmm_init_entry e s =
     (if e820_type e \<noteq> E820_AVAILABLE then s
      else let start = e820_base e; end_addr = e820_base e + e820_length e in
        if end_addr \<le> MIN_ADDR then s
        else add_range (if start < MIN_ADDR then MIN_ADDR else start) end_addr s)"

definition pmm_init :: "u16 \<Rightarrow> (nat \<Rightarrow> e820_entry) \<Rightarrow> 'a phys_scheme \<Rightarrow> 'a phys_scheme" where
  "pmm_init count entries s =
     (let s0 = s\<lparr>dma_free_list := 0, dma32_free_list := 0, normal_free_list := 0,
                 free_pages_total := 0\<rparr>
      in if count = 0 \<or> 100 < count then add_range MIN_ADDR 0x400000 s0
         else let s1 = fold (\<lambda>i. pmm_init_entry (entries i)) [0..<unat count] s0
              in if free_pages_total s1 = 0 then add_range MIN_ADDR 0x400000 s1 else s1)"

text \<open>The three attempts, in the order normal, DMA32, DMA.\<close>

definition alloc_any :: "'a phys_scheme \<Rightarrow> u64 \<times> 'a phys_scheme" where
  "alloc_any s =
     (let (p, s) = zone_alloc NORMAL s in
      if p \<noteq> 0 then (p, s)
      else let (p, s) = zone_alloc DMA32 s in
        if p \<noteq> 0 then (p, s) else zone_alloc DMA s)"

definition pmm_alloc :: "'a phys_scheme \<Rightarrow> (u64 \<times> 'a phys_scheme) option" where
  "pmm_alloc s =
     do { s \<leftarrow> spin_lock_irqsave s;
          let (p, s) = alloc_any s;
          Some (p, spin_unlock_irqrestore s) }"

definition pmm_alloc_dma :: "'a phys_scheme \<Rightarrow> (u64 \<times> 'a phys_scheme) option" where
  "pmm_alloc_dma s =
     do { s \<leftarrow> spin_lock_irqsave s;
          let (p, s) = zone_alloc DMA s;
          Some (p, spin_unlock_irqrestore s) }"

definition pmm_alloc_below :: "u64 \<Rightarrow> 'a phys_scheme \<Rightarrow> (u64 \<times> 'a phys_scheme) option" where
  "pmm_alloc_below max_addr s =
     do { s \<leftarrow> spin_lock_irqsave s;
          (p, s) \<leftarrow>
            (if max_addr \<le> DMA_ZONE_LIMIT then Some (zone_alloc DMA s)
             else if max_addr \<le> DMA32_ZONE_LIMIT then
               Some (let (p, s) = zone_alloc DMA s in
                     if p = 0 then zone_alloc DMA32 s else (p, s))
             else pmm_alloc s);
          Some (p, spin_unlock_irqrestore s) }"

definition pmm_free :: "u64 \<Rightarrow> 'a phys_scheme \<Rightarrow> 'a phys_scheme option" where
  "pmm_free page s =
     (if page = 0 then Some s
      else do { s \<leftarrow> spin_lock_irqsave s;
                Some (spin_unlock_irqrestore (page_free_internal page s)) })"

text \<open>The loop of \<^verbatim>\<open>pmm_alloc_pages\<close>: \<open>Inl\<close> is its early return after the roll-back.\<close>

function alloc_pages_loop ::
  "u64 \<Rightarrow> u64 \<Rightarrow> u64 \<Rightarrow> 'a phys_scheme \<Rightarrow> 'a phys_scheme + 'a phys_scheme" where
  "alloc_pages_loop highest n i s =
     (if i < n then
        (let (page, s) = alloc_any s in
         if page = 0 then
           (let s = fold (\<lambda>j. page_free_internal (highest - of_nat j * 0x1000)) [0..<unat i] s
            in Inl (s\<lparr>free_pages_total := free_pages_total s + (n - 1)\<rparr>))
         else alloc_pages_loop highest n (i + 1) s)
      else Inr s)"
  by pat_completeness auto
termination
proof (relation "measure (\<lambda>(h, n, i, s). unat n - unat i)", simp)
  fix highest n i x y :: u64 and s t t' :: "'a phys_scheme"
  assume "i < n"
  then show "((highest, n, i + 1, t'), highest, n, i, s)
      \<in> measure (\<lambda>(h, n, i, s). unat n - unat i)"
    by (simp add: unat_Suc_lt word_less_nat_alt)
qed

declare alloc_pages_loop.simps [simp del]

definition pmm_alloc_pages :: "u64 \<Rightarrow> 'a phys_scheme \<Rightarrow> (u64 \<times> 'a phys_scheme) option" where
  "pmm_alloc_pages n s =
     (if n = 0 then Some (0, s)
      else do { s \<leftarrow> spin_lock_irqsave s;
                let (highest, s) = alloc_any s;
                if highest = 0 then Some (0, spin_unlock_irqrestore s)
                else let s = s\<lparr>free_pages_total := free_pages_total s - (n - 1)\<rparr> in
                  (case alloc_pages_loop highest n 1 s of
                     Inl s \<Rightarrow> Some (0, spin_unlock_irqrestore s)
                   | Inr s \<Rightarrow> Some (highest - (n - 1) * 0x1000, spin_unlock_irqrestore s)) })"

definition pmm_free_pages :: "u64 \<Rightarrow> u64 \<Rightarrow> 'a phys_scheme \<Rightarrow> 'a phys_scheme option" where
  "pmm_free_pages addr n s =
     (if addr = 0 then Some s
      else do { s \<leftarrow> spin_lock_irqsave s;
                let s = fold (\<lambda>i. page_free_internal (addr + of_nat i * 0x1000)) [0..<unat n] s;
                Some (spin_unlock_irqrestore s) })"

definition pmm_free_count :: "'a phys_scheme \<Rightarrow> (u64 \<times> 'a phys_scheme) option" where
  "pmm_free_count s =
     do { s \<leftarrow> spin_lock_irqsave s;
          let n = free_pages_total s;
          Some (n, spin_unlock_irqrestore s) }"

section \<open>Free lists in memory\<close>

text \<open>\<open>page_list m p xs\<close>: following first words from \<open>p\<close> in \<open>m\<close> visits \<open>xs\<close> and ends at NULL.\<close>

fun page_list :: "mem64 \<Rightarrow> u64 \<Rightarrow> u64 list \<Rightarrow> bool" where
  "page_list m p [] \<longleftrightarrow> p = 0"
| "page_list m p (x # xs) \<longleftrightarrow> p = x \<and> x \<noteq> 0 \<and> page_list m (m x) xs"

lemma page_list_null [simp]: "page_list m 0 xs \<longleftrightarrow> xs = []"
  by (cases xs) auto

lemma page_list_unique: "page_list m p xs \<Longrightarrow> page_list m p ys \<Longrightarrow> xs = ys"
proof (induction xs arbitrary: p ys)
  case (Cons x xs)
  then show ?case by (cases ys) auto
qed simp

lemma page_list_suffix:
  "page_list m p (xs @ x # ys) \<Longrightarrow> page_list m x (x # ys)"
  by (induction xs arbitrary: p) auto

text \<open>A list that ends cannot visit a page twice: the two visits would have equal tails.\<close>

lemma page_list_notin_tl:
  assumes "page_list m p (x # xs)"
  shows "x \<notin> set xs"
proof
  assume "x \<in> set xs"
  then obtain as bs where xs: "xs = as @ x # bs" by (auto simp: in_set_conv_decomp)
  with assms have "page_list m x (x # bs)" by (auto dest: page_list_suffix)
  with assms xs have "x # xs = x # bs" by (auto dest: page_list_unique)
  with xs show False by simp
qed

lemma page_list_distinct: "page_list m p xs \<Longrightarrow> distinct xs"
proof (induction xs arbitrary: p)
  case (Cons x xs)
  then have "x \<notin> set xs" by (metis page_list_notin_tl)
  with Cons show ?case by auto
qed simp

lemma page_list_frame [frame]:
  "(\<And>x. x \<in> set xs \<Longrightarrow> m' x = m x) \<Longrightarrow> page_list m' p xs = page_list m p xs"
  by (induction xs arbitrary: p) auto

lemma page_list_nonnull: "page_list m p xs \<Longrightarrow> 0 \<notin> set xs"
  by (induction xs arbitrary: p) auto

section \<open>Abstract allocator: one stack of pages per zone\<close>

type_synonym pools = "zone \<Rightarrow> u64 list"

definition zone_of :: "u64 \<Rightarrow> zone" where
  "zone_of p = (if p < DMA_ZONE_LIMIT then DMA else if p < DMA32_ZONE_LIMIT then DMA32 else NORMAL)"

definition pool_pages :: "pools \<Rightarrow> u64 set" where
  "pool_pages f = set (f NORMAL) \<union> set (f DMA32) \<union> set (f DMA)"

definition pool_size :: "pools \<Rightarrow> nat" where
  "pool_size f = length (f NORMAL) + length (f DMA32) + length (f DMA)"

definition pool_put :: "u64 \<Rightarrow> pools \<Rightarrow> pools" where
  "pool_put p f = f(zone_of p := p # f (zone_of p))"

definition pool_take :: "zone \<Rightarrow> pools \<Rightarrow> u64 \<times> pools" where
  "pool_take z f = (case f z of [] \<Rightarrow> (0, f) | p # ps \<Rightarrow> (p, f(z := ps)))"

definition pool_alloc :: "pools \<Rightarrow> u64 \<times> pools" where
  "pool_alloc f =
     (if f NORMAL \<noteq> [] then pool_take NORMAL f
      else if f DMA32 \<noteq> [] then pool_take DMA32 f else pool_take DMA f)"

text \<open>
  The representation relation: every zone's list is in memory, its pages are page aligned and
  belong to the zone, and the counter is the number of free pages.
\<close>

definition pmm_rep :: "'a phys_scheme \<Rightarrow> pools \<Rightarrow> bool" where
  "pmm_rep s f \<longleftrightarrow>
     (\<forall>z. page_list (pmem s) (zone_head z s) (f z)) \<and>
     (\<forall>z. \<forall>p \<in> set (f z). page_aligned p \<and> zone_of p = z) \<and>
     free_pages_total s = of_nat (pool_size f)"

lemma all_zones: "(\<forall>z. P z) \<longleftrightarrow> P DMA \<and> P DMA32 \<and> P NORMAL"
  by (metis zone.exhaust)

lemma zone_head_set [simp]:
  "zone_head z (set_zone_head z' p s) = (if z = z' then p else zone_head z s)"
  by (cases z; cases z') auto

lemma set_zone_head_fields [simp]:
  "pmem (set_zone_head z p s) = pmem s"
  "free_pages_total (set_zone_head z p s) = free_pages_total s"
  "pmm_lock (set_zone_head z p s) = pmm_lock s"
  "phys.more (set_zone_head z p s) = phys.more s"
  by (cases z; simp)+

lemma zone_head_upd [simp]:
  "zone_head z (s\<lparr>pmem := m\<rparr>) = zone_head z s"
  "zone_head z (s\<lparr>free_pages_total := n\<rparr>) = zone_head z s"
  "zone_head z (s\<lparr>pmm_lock := b\<rparr>) = zone_head z s"
  by (cases z; simp)+

lemma page_free_internal_eq:
  "page_free_internal p s =
     (set_zone_head (zone_of p) p (s\<lparr>pmem := (pmem s)(p := zone_head (zone_of p) s)\<rparr>))
       \<lparr>free_pages_total := free_pages_total s + 1\<rparr>"
proof -
  have "p < DMA_ZONE_LIMIT \<Longrightarrow> p < DMA32_ZONE_LIMIT"
    by (erule less_trans) (simp add: zone_limits)
  then show ?thesis by (auto simp: page_free_internal_def zone_of_def Let_def)
qed

lemma zone_UNIV: "UNIV = {DMA, DMA32, NORMAL}"
  using zone.exhaust by blast

lemma pool_pages_alt: "pool_pages f = (\<Union>z. set (f z))"
  by (auto simp: pool_pages_def zone_UNIV)

lemma pool_pages_put [simp]: "pool_pages (pool_put p f) = insert p (pool_pages f)"
  by (auto simp: pool_pages_alt pool_put_def split: if_splits)

lemma pool_size_put [simp]: "pool_size (pool_put p f) = Suc (pool_size f)"
  by (cases "zone_of p") (simp_all add: pool_size_def pool_put_def)

lemma pmm_rep_lock [simp]: "pmm_rep (s\<lparr>pmm_lock := b\<rparr>) f = pmm_rep s f"
  by (simp add: pmm_rep_def)

lemma pmm_rep_nonnull: "pmm_rep s f \<Longrightarrow> p \<in> pool_pages f \<Longrightarrow> p \<noteq> 0"
  by (auto simp: pmm_rep_def pool_pages_alt dest: page_list_nonnull)

lemma pmm_rep_aligned: "pmm_rep s f \<Longrightarrow> p \<in> pool_pages f \<Longrightarrow> page_aligned p"
  by (auto simp: pmm_rep_def pool_pages_alt)

lemma pmm_rep_unique: "pmm_rep s f \<Longrightarrow> pmm_rep s g \<Longrightarrow> f = g"
  unfolding pmm_rep_def by (meson ext page_list_unique)

text \<open>Writing words that are not the first word of a free page keeps the representation.\<close>

lemma pmm_rep_frame [frame]:
  assumes "pmm_rep s f" and "\<And>p. p \<in> pool_pages f \<Longrightarrow> m p = pmem s p"
  shows "pmm_rep (s\<lparr>pmem := m\<rparr>) f"
proof -
  have "page_list m h (f z) = page_list (pmem s) h (f z)" for h z
    by (rule page_list_frame, rule assms(2)) (auto simp: pool_pages_alt)
  with assms(1) show ?thesis by (simp add: pmm_rep_def)
qed

lemma pmm_rep_free:
  assumes rep: "pmm_rep s f" and p: "p \<noteq> 0" "page_aligned p" "p \<notin> pool_pages f"
  shows "pmm_rep (page_free_internal p s) (pool_put p f)"
proof -
  have "p \<notin> set (f z)" for z using p(3) by (auto simp: pool_pages_alt)
  then have "page_list ((pmem s)(p := q)) h (f z) = page_list (pmem s) h (f z)" for q h z
    by (intro page_list_frame) auto
  moreover have "of_nat (pool_size (pool_put p f)) = (of_nat (pool_size f) + 1 :: u64)"
    by simp
  ultimately show ?thesis using rep p
    by (simp add: pmm_rep_def page_free_internal_eq) (auto simp: pool_put_def)
qed

lemma pool_take_Cons: "f z = p # ps \<Longrightarrow> pool_take z f = (p, f(z := ps))"
  by (simp add: pool_take_def)

lemma pool_size_take: "f z = p # ps \<Longrightarrow> pool_size f = Suc (pool_size (f(z := ps)))"
  by (cases z) (simp_all add: pool_size_def)

lemma pool_pages_take:
  assumes "f z = p # ps" and "\<And>z. distinct (f z)" and "\<And>z q. q \<in> set (f z) \<Longrightarrow> zone_of q = z"
  shows "pool_pages (f(z := ps)) = pool_pages f - {p}"
proof -
  have "p \<notin> set ps" using assms(1) assms(2) [of z] by simp
  moreover have "p \<notin> set (f z')" if "z' \<noteq> z" for z'
    using assms(1) assms(3) [of p z] assms(3) [of p z'] that by auto
  ultimately show ?thesis using assms(1)
    by (cases z) (auto simp: pool_pages_def)
qed

lemma pmm_rep_distinct: "pmm_rep s f \<Longrightarrow> distinct (f z)"
  by (auto simp: pmm_rep_def intro: page_list_distinct)

lemma pmm_rep_zone: "pmm_rep s f \<Longrightarrow> q \<in> set (f z) \<Longrightarrow> zone_of q = z"
  by (auto simp: pmm_rep_def)

text \<open>What \<open>zone_alloc\<close> and \<open>alloc_any\<close> never touch.\<close>

lemma zone_alloc_frame [frame]:
  "zone_alloc z s = (p, s') \<Longrightarrow>
     pmem s' = pmem s \<and> pmm_lock s' = pmm_lock s \<and> phys.more s' = phys.more s"
  by (auto simp: zone_alloc_def Let_def split: if_splits)

lemma zone_alloc_refines:
  assumes rep: "pmm_rep s f" and "zone_alloc z s = (p, s')"
  shows "fst (pool_take z f) = p \<and> pmm_rep s' (snd (pool_take z f))"
proof (cases "f z")
  case Nil
  with rep have "zone_head z s = 0" by (metis pmm_rep_def page_list.simps(1))
  with assms Nil show ?thesis by (simp add: zone_alloc_def pool_take_def)
next
  case (Cons q qs)
  have h: "zone_head z s = q" "q \<noteq> 0" "page_list (pmem s) (pmem s q) qs"
    using rep Cons by (metis pmm_rep_def page_list.simps(2))+
  have "\<forall>x \<in> set qs. page_aligned x \<and> zone_of x = z" using rep Cons
    by (metis pmm_rep_def list.set_intros(2))
  moreover have "free_pages_total s - 1 = of_nat (pool_size (f(z := qs)))"
    using rep pool_size_take [of f z q qs] Cons by (simp add: pmm_rep_def)
  ultimately show ?thesis using rep h assms(2) Cons
    by (auto simp: zone_alloc_def pool_take_def pmm_rep_def)
qed

lemma pool_take_null:
  assumes "pmm_rep s f"
  shows "fst (pool_take z f) = 0 \<longleftrightarrow> f z = []"
  using assms page_list_nonnull [of "pmem s" "zone_head z s" "f z"]
  by (auto simp: pool_take_def pmm_rep_def split: list.splits)

lemma pool_take_empty: "f z = [] \<Longrightarrow> pool_take z f = (0, f)"
  by (simp add: pool_take_def)

lemma alloc_any_refines:
  assumes rep: "pmm_rep s f" and "alloc_any s = (p, s')"
  shows "fst (pool_alloc f) = p \<and> pmm_rep s' (snd (pool_alloc f))"
proof -
  obtain p1 s1 where z1: "zone_alloc NORMAL s = (p1, s1)" by (cases "zone_alloc NORMAL s")
  obtain p2 s2 where z2: "zone_alloc DMA32 s1 = (p2, s2)" by (cases "zone_alloc DMA32 s1")
  obtain p3 s3 where z3: "zone_alloc DMA s2 = (p3, s3)" by (cases "zone_alloc DMA s2")
  note r1 = zone_alloc_refines [OF rep z1]
  show ?thesis
  proof (cases "f NORMAL = []")
    case False
    with r1 have "p1 \<noteq> 0" using pool_take_null [OF rep, of NORMAL] by simp
    with r1 z1 assms(2) False show ?thesis by (simp add: alloc_any_def pool_alloc_def)
  next
    case True
    then have n: "p1 = 0" "pmm_rep s1 f" using r1 by (simp_all add: pool_take_empty)
    note r2 = zone_alloc_refines [OF n(2) z2]
    show ?thesis
    proof (cases "f DMA32 = []")
      case False
      with r2 have "p2 \<noteq> 0" using pool_take_null [OF rep, of DMA32] by simp
      with r2 z1 z2 n True assms(2) False show ?thesis by (simp add: alloc_any_def pool_alloc_def)
    next
      case empty32: True
      then have "p2 = 0" "pmm_rep s2 f" using r2 by (simp_all add: pool_take_empty)
      with z1 z2 z3 n True empty32 assms(2) zone_alloc_refines [OF \<open>pmm_rep s2 f\<close> z3]
      show ?thesis by (simp add: alloc_any_def pool_alloc_def)
    qed
  qed
qed

lemma alloc_any_frame [frame]:
  "alloc_any s = (p, s') \<Longrightarrow>
     pmem s' = pmem s \<and> pmm_lock s' = pmm_lock s \<and> phys.more s' = phys.more s"
  unfolding alloc_any_def
  by (auto simp: Let_def split: prod.splits if_splits dest!: zone_alloc_frame)

lemma pool_alloc_cases:
  "(\<exists>z q ps. f z = q # ps \<and> pool_alloc f = (q, f(z := ps))) \<or>
   (pool_pages f = {} \<and> pool_alloc f = (0, f))"
proof -
  have *: ?thesis if "f z = q # ps" "pool_alloc f = pool_take z f" for z q ps
    using that by (auto simp: pool_take_Cons)
  show ?thesis
  proof (cases "f NORMAL")
    case Cons
    then show ?thesis by (intro * [of NORMAL]) (auto simp: pool_alloc_def)
  next
    case N: Nil
    show ?thesis
    proof (cases "f DMA32")
      case Cons
      with N show ?thesis by (intro * [of DMA32]) (auto simp: pool_alloc_def)
    next
      case D: Nil
      show ?thesis
      proof (cases "f DMA")
        case Cons
        with N D show ?thesis by (intro * [of DMA]) (auto simp: pool_alloc_def)
      qed (use N D in \<open>simp add: pool_alloc_def pool_take_def pool_pages_def\<close>)
    qed
  qed
qed

lemma pool_alloc_pages:
  assumes rep: "pmm_rep s f" and "fst (pool_alloc f) = p"
  shows "if p = 0 then pool_pages f = {} \<and> snd (pool_alloc f) = f
         else p \<in> pool_pages f \<and> pool_pages (snd (pool_alloc f)) = pool_pages f - {p}"
  using pool_alloc_cases [of f]
proof (elim disjE exE conjE)
  fix z q ps assume z: "f z = q # ps" "pool_alloc f = (q, f(z := ps))"
  have "pool_pages (f(z := ps)) = pool_pages f - {q}"
    using z(1) pmm_rep_distinct [OF rep] pmm_rep_zone [OF rep] by (rule pool_pages_take)
  moreover have "q \<in> pool_pages f" using z(1) by (cases z) (auto simp: pool_pages_def)
  ultimately show ?thesis using z(2) assms by (auto dest: pmm_rep_nonnull)
qed (use assms(2) in simp)

section \<open>The contract of the allocator and its clients' lemmas\<close>

locale page_allocator =
  fixes alloc :: "'s \<Rightarrow> (u64 \<times> 's) option"
    and free :: "u64 \<Rightarrow> 's \<Rightarrow> 's option"
    and inv :: "'s \<Rightarrow> bool"
    and avail :: "'s \<Rightarrow> u64 set"
  assumes alloc_returns: "inv s \<Longrightarrow> \<exists>p s'. alloc s = Some (p, s')"
    and alloc_inv: "inv s \<Longrightarrow> alloc s = Some (p, s') \<Longrightarrow> inv s'"
    and alloc_null: "inv s \<Longrightarrow> alloc s = Some (0, s') \<Longrightarrow> avail s = {} \<and> avail s' = {}"
    and alloc_page: "inv s \<Longrightarrow> alloc s = Some (p, s') \<Longrightarrow> p \<noteq> 0 \<Longrightarrow>
          p \<in> avail s \<and> avail s' = avail s - {p}"
    and avail_page: "inv s \<Longrightarrow> p \<in> avail s \<Longrightarrow> p \<noteq> 0 \<and> page_aligned p"
    and free_page: "inv s \<Longrightarrow> p \<noteq> 0 \<Longrightarrow> page_aligned p \<Longrightarrow> p \<notin> avail s \<Longrightarrow>
          \<exists>s'. free p s = Some s' \<and> inv s' \<and> avail s' = insert p (avail s)"
begin

lemma alloc_twice_distinct:
  assumes "inv s" and "alloc s = Some (p, s1)" and "alloc s1 = Some (q, s2)" and "p \<noteq> 0"
  shows "q \<noteq> p"
proof (cases "q = 0")
  case False
  have "inv s1" using assms(1,2) by (rule alloc_inv)
  with assms False have "q \<in> avail s1" by (auto dest: alloc_page)
  then show ?thesis using assms by (auto dest: alloc_page)
qed (use assms in simp)

lemma alloc_then_free:
  assumes "inv s" and "alloc s = Some (p, s1)" and "p \<noteq> 0"
  shows "\<exists>s2. free p s1 = Some s2 \<and> inv s2 \<and> avail s2 = avail s"
proof -
  have p: "p \<in> avail s" "avail s1 = avail s - {p}" using assms by (auto dest: alloc_page)
  have "inv s1" using assms(1,2) by (rule alloc_inv)
  with p free_page [of s1 p] avail_page [OF assms(1) p(1)] show ?thesis
    by (auto simp: insert_absorb)
qed

lemma alloc_aligned:
  "inv s \<Longrightarrow> alloc s = Some (p, s') \<Longrightarrow> page_aligned p"
  using alloc_page [of s p s'] avail_page [of s p]
  by (cases "p = 0") (auto simp: page_aligned_unat)

end

text \<open>The two laws on the state of \<^verbatim>\<open>pmm.c\<close>: the lock is free and the lists are well formed.\<close>

definition pmm_inv :: "'a phys_scheme \<Rightarrow> bool" where
  "pmm_inv s \<longleftrightarrow> \<not> pmm_lock s \<and> (\<exists>f. pmm_rep s f)"

definition pmm_avail :: "'a phys_scheme \<Rightarrow> u64 set" where
  "pmm_avail s = {p. \<exists>f. pmm_rep s f \<and> p \<in> pool_pages f}"

lemma pmm_avail_rep: "pmm_rep s f \<Longrightarrow> pmm_avail s = pool_pages f"
  by (auto simp: pmm_avail_def dest: pmm_rep_unique)

lemma pmm_alloc_unlocked:
  "\<not> pmm_lock s \<Longrightarrow> pmm_alloc s = Some (map_prod id spin_unlock_irqrestore (alloc_any (s\<lparr>pmm_lock := True\<rparr>)))"
  by (simp add: pmm_alloc_def spin_lock_irqsave_def split: prod.splits)

lemma pmm_alloc_rep:
  assumes "pmm_inv s" and "pmm_alloc s = Some (p, s')" and "pmm_rep s f"
  shows "fst (pool_alloc f) = p \<and> pmm_rep s' (snd (pool_alloc f)) \<and> pmm_inv s'"
proof -
  obtain t where t: "alloc_any (s\<lparr>pmm_lock := True\<rparr>) = (p, t)" "s' = t\<lparr>pmm_lock := False\<rparr>"
    using assms(1,2)
    by (auto simp: pmm_alloc_unlocked pmm_inv_def spin_unlock_irqrestore_def
        map_prod_def split: prod.splits)
  have "pmm_rep (s\<lparr>pmm_lock := True\<rparr>) f" using assms(3) by simp
  from alloc_any_refines [OF this t(1)] t(2) show ?thesis by (auto simp: pmm_inv_def)
qed

lemma pmm_alloc_frame [frame]:
  "pmm_alloc s = Some (p, s') \<Longrightarrow> pmem s' = pmem s \<and> phys.more s' = phys.more s"
  by (auto simp: pmm_alloc_def spin_lock_irqsave_def spin_unlock_irqrestore_def
      split: if_splits prod.splits dest!: alloc_any_frame)

lemma pmm_free_rep:
  assumes "pmm_inv s" and "pmm_rep s f" and p: "p \<noteq> 0" "page_aligned p" "p \<notin> pool_pages f"
  shows "\<exists>s'. pmm_free p s = Some s' \<and> pmm_rep s' (pool_put p f) \<and> pmm_inv s'"
proof -
  have "pmm_rep (page_free_internal p (s\<lparr>pmm_lock := True\<rparr>)) (pool_put p f)"
    using assms by (intro pmm_rep_free) auto
  with assms show ?thesis
    by (auto simp: pmm_free_def spin_lock_irqsave_def spin_unlock_irqrestore_def pmm_inv_def)
qed

interpretation pmm: page_allocator pmm_alloc pmm_free pmm_inv pmm_avail
proof
  fix s s' :: "'a phys_scheme" and p :: u64
  assume inv: "pmm_inv s"
  then obtain f where rep: "pmm_rep s f" by (auto simp: pmm_inv_def)
  show "\<exists>p s'. pmm_alloc s = Some (p, s')"
    using inv by (auto simp: pmm_alloc_unlocked pmm_inv_def map_prod_def split: prod.splits)
  show "p \<noteq> 0 \<and> page_aligned p" if "p \<in> pmm_avail s"
    using that rep by (auto simp: pmm_avail_rep pmm_rep_nonnull pmm_rep_aligned)
  show "\<exists>s'. pmm_free p s = Some s' \<and> pmm_inv s' \<and> pmm_avail s' = insert p (pmm_avail s)"
    if "p \<noteq> 0" "page_aligned p" "p \<notin> pmm_avail s"
    using that pmm_free_rep [OF inv rep] rep by (metis pmm_avail_rep pool_pages_put)
  show "pmm_inv s'" if "pmm_alloc s = Some (p, s')"
    using pmm_alloc_rep [OF inv that rep] by simp
  have av: "pmm_avail s = pool_pages f" using rep by (rule pmm_avail_rep)
  have after: "fst (pool_alloc f) = p" "pmm_avail s' = pool_pages (snd (pool_alloc f))"
    if "pmm_alloc s = Some (p, s')" for p
    using pmm_alloc_rep [OF inv that rep] by (simp_all add: pmm_avail_rep)
  show "pmm_avail s = {} \<and> pmm_avail s' = {}" if "pmm_alloc s = Some (0, s')"
    using pool_alloc_pages [OF rep after(1) [OF that]] after(2) [OF that] av by simp
  show "p \<in> pmm_avail s \<and> pmm_avail s' = pmm_avail s - {p}"
    if "pmm_alloc s = Some (p, s')" and "p \<noteq> 0"
    using pool_alloc_pages [OF rep after(1) [OF that(1)]] after(2) [OF that(1)] av that(2) by simp
qed

section \<open>Building the free lists from the memory map\<close>

definition page_range :: "u64 \<Rightarrow> u64 \<Rightarrow> u64 set" where
  "page_range a b = {p. page_aligned p \<and> a \<le> p \<and> p < b}"

lemma page_free_internal_frame [frame]:
  "pmm_lock (page_free_internal p s) = pmm_lock s"
  "phys.more (page_free_internal p s) = phys.more s"
  by (simp_all add: page_free_internal_eq)

lemma page_aligned_next:
  assumes "page_aligned a" and "a < page_base e"
  shows "page_aligned (a + 0x1000)" and "a + 0x1000 \<noteq> 0"
  using assms page_step_nowrap [OF assms(2)]
  by (auto simp: page_aligned_unat dest: arg_cong [where f = unat])

lemma page_range_step:
  assumes "page_aligned a" and "a < page_base e"
  shows "page_range a (page_base e) = insert a (page_range (a + 0x1000) (page_base e))"
proof -
  note n = page_step_nowrap [OF assms(2)]
  have "a + 0x1000 \<le> p" if "page_aligned p" "a \<le> p" "p \<noteq> a" for p
  proof -
    have "a < p" using that(2,3) by simp
    then show ?thesis using aligned_less_step [OF assms(1) that(1)] n by (simp add: word_le_nat_alt)
  qed
  moreover have "a \<le> p" if "a + 0x1000 \<le> p" for p
    using that n by (simp add: word_le_nat_alt)
  ultimately show ?thesis using assms by (auto simp: page_range_def)
qed

lemma add_range_loop_rep:
  assumes "page_aligned a" and "a \<noteq> 0" and "pmm_rep s f"
    and "pool_pages f \<inter> page_range a (page_base e) = {}"
  shows "\<exists>g. pmm_rep (add_range_loop a e s) g \<and>
             pool_pages g = pool_pages f \<union> page_range a (page_base e)"
  using assms
proof (induction a e s arbitrary: f rule: add_range_loop.induct)
  case (1 a e s)
  show ?case
  proof (cases "a < page_base e")
    case False
    then have "page_range a (page_base e) = {}" by (auto simp: page_range_def)
    with False 1 show ?thesis by (auto simp: add_range_loop.simps [of a e s])
  next
    case True
    note r = page_range_step [OF 1(2) True]
    have a: "a \<notin> pool_pages f" using 1(5) r by auto
    then have rep: "pmm_rep (page_free_internal a s) (pool_put a f)"
      using 1 by (intro pmm_rep_free)
    have "a \<notin> page_range (a + 0x1000) (page_base e)"
      using page_step_nowrap [OF True] by (auto simp: page_range_def word_le_nat_alt)
    then have "pool_pages (pool_put a f) \<inter> page_range (a + 0x1000) (page_base e) = {}"
      using 1(5) r by auto
    then obtain g where "pmm_rep (add_range_loop (a + 0x1000) e (page_free_internal a s)) g"
      "pool_pages g = pool_pages (pool_put a f) \<union> page_range (a + 0x1000) (page_base e)"
      using 1(1) [OF True page_aligned_next [OF 1(2) True] rep] by blast
    with True r show ?thesis by (auto simp: add_range_loop.simps [of a e s])
  qed
qed

lemma add_range_loop_lock [frame]: "pmm_lock (add_range_loop a e s) = pmm_lock s"
proof (induction a e s rule: add_range_loop.induct)
  case (1 a e s)
  then show ?case by (simp add: add_range_loop.simps [of a e s] frame)
qed

text \<open>The pages an E820 entry contributes: whole pages of available memory from 2 MiB up.\<close>

definition e820_end :: "e820_entry \<Rightarrow> u64" where
  "e820_end e = e820_base e + e820_length e"

definition e820_pages :: "e820_entry \<Rightarrow> u64 set" where
  "e820_pages e =
     (if e820_type e = E820_AVAILABLE
      then {p. page_aligned p \<and> MIN_ADDR \<le> p \<and> e820_base e \<le> p \<and> unat p + 4096 \<le> unat (e820_end e)}
      else {})"

text \<open>An entry that does not run past the last page of the address space.\<close>

definition e820_fits :: "e820_entry \<Rightarrow> bool" where
  "e820_fits e \<longleftrightarrow> unat (e820_base e) + unat (e820_length e) + 4096 \<le> 2 ^ 64"

definition e820_apart :: "e820_entry \<Rightarrow> e820_entry \<Rightarrow> bool" where
  "e820_apart e e' \<longleftrightarrow> e820_end e \<le> e820_base e' \<or> e820_end e' \<le> e820_base e"

lemma unat_round_up:
  assumes "unat (a :: u64) + 4095 < 2 ^ 64"
  shows "unat (page_base (a + 0xFFF)) = (unat a + 4095) div 4096 * 4096"
proof -
  have "unat (a + 0xFFF) = unat a + 4095" using assms by (subst unat_add_nowrap) simp_all
  then show ?thesis by (simp add: unat_page_base minus_mod_eq_div_mult)
qed

lemma round_up_le:
  assumes "unat (a :: u64) + 4095 < 2 ^ 64" and "page_aligned p"
  shows "page_base (a + 0xFFF) \<le> p \<longleftrightarrow> a \<le> p"
proof -
  obtain k where k: "unat p = 4096 * k" using assms(2) by (auto simp: page_aligned_unat)
  have "(unat a + 4095) div 4096 \<le> k \<longleftrightarrow> unat a \<le> 4096 * k" by arith
  then show ?thesis using k by (simp add: word_le_nat_alt unat_round_up [OF assms(1)] mult.commute)
qed

lemma below_page_base:
  assumes "page_aligned p"
  shows "p < page_base e \<longleftrightarrow> unat p + 4096 \<le> unat e"
proof -
  obtain k where k: "unat p = 4096 * k" using assms by (auto simp: page_aligned_unat)
  have "k < unat e div 4096 \<longleftrightarrow> Suc k * 4096 \<le> unat e"
    by (simp only: Suc_le_eq [symmetric] less_eq_div_iff_mult_less_eq zero_less_numeral)
  then show ?thesis using k
    by (simp add: word_less_nat_alt unat_page_base minus_mod_eq_mult_div add.commute mult.commute)
qed

lemma pool_size_card:
  assumes "pmm_rep s f"
  shows "card (pool_pages f) = pool_size f"
proof -
  have "set (f z) \<inter> set (f z') = {}" if "z \<noteq> z'" for z z'
    using that pmm_rep_zone [OF assms] by blast
  then have "(set (f NORMAL) \<union> set (f DMA32)) \<inter> set (f DMA) = {}"
    "set (f NORMAL) \<inter> set (f DMA32) = {}" by auto
  then show ?thesis
    by (simp add: pool_pages_def pool_size_def card_Un_disjoint
        pmm_rep_distinct [OF assms] distinct_card)
qed

lemma pool_size_bound:
  assumes "pmm_rep s f"
  shows "pool_size f < 2 ^ 64"
proof -
  have "0 \<notin> pool_pages f" using assms by (auto dest: pmm_rep_nonnull)
  then have "pool_pages f \<subset> UNIV" by auto
  then have "card (pool_pages f) < CARD(u64)" by (simp only: psubset_card_mono finite_class.finite_UNIV)
  also have "CARD(u64) = 2 ^ 64" by (subst card_word) simp
  finally show ?thesis using pool_size_card [OF assms] by simp
qed

lemma free_pages_total_0:
  assumes "pmm_rep s f"
  shows "free_pages_total s = 0 \<longleftrightarrow> pool_pages f = {}"
proof -
  have "unat (of_nat (pool_size f) :: u64) = pool_size f"
    using pool_size_bound [OF assms] by (simp add: unat_of_nat)
  then have "free_pages_total s = 0 \<longleftrightarrow> pool_size f = 0"
    using assms by (metis pmm_rep_def unat_0 unat_eq_zero)
  then show ?thesis by (simp add: pool_size_def pool_pages_def)
qed

lemma add_range_rep:
  assumes "pmm_rep s f" and "unat a + 4095 < 2 ^ 64" and "a \<noteq> 0"
    and "pool_pages f \<inter> page_range a (page_base e) = {}"
  shows "\<exists>g. pmm_rep (add_range a e s) g \<and> pool_pages g = pool_pages f \<union> page_range a (page_base e)"
proof -
  let ?a = "page_base (a + 0xFFF)"
  have r: "page_range ?a (page_base e) = page_range a (page_base e)"
    using round_up_le [OF assms(2)] by (auto simp: page_range_def)
  have "a \<le> ?a" using round_up_le [OF assms(2), of ?a] by simp
  then have "?a \<noteq> 0" using assms(3) by (auto simp: word_le_nat_alt unat_eq_0)
  from add_range_loop_rep [OF page_aligned_base this assms(1), of e] assms(4) r show ?thesis
    by (simp add: add_range_def)
qed

lemma pmm_init_entry_rep:
  assumes rep: "pmm_rep s f" and fits: "e820_type e = E820_AVAILABLE \<Longrightarrow> e820_fits e"
    and disj: "pool_pages f \<inter> e820_pages e = {}"
  shows "\<exists>g. pmm_rep (pmm_init_entry e s) g \<and> pool_pages g = pool_pages f \<union> e820_pages e"
proof (cases "e820_type e = E820_AVAILABLE \<and> \<not> e820_end e \<le> MIN_ADDR")
  case False
  then have "e820_pages e = {}" by (auto simp: e820_pages_def word_le_nat_alt)
  moreover from False have "pmm_init_entry e s = s"
    by (auto simp: pmm_init_entry_def e820_end_def Let_def)
  ultimately show ?thesis using rep by auto
next
  case True
  define a where "a = (if e820_base e < MIN_ADDR then MIN_ADDR else e820_base e)"
  have "unat a + 4095 < 2 ^ 64"
    using True fits by (simp add: a_def e820_fits_def MIN_ADDR_def)
  moreover have "a \<noteq> 0" by (auto simp: a_def MIN_ADDR_def)
  moreover have "page_range a (page_base (e820_end e)) = e820_pages e"
    using True by (auto simp: page_range_def e820_pages_def below_page_base a_def)
  moreover have "pmm_init_entry e s = add_range a (e820_end e) s"
    using True by (simp add: pmm_init_entry_def e820_end_def a_def Let_def)
  ultimately show ?thesis using add_range_rep [OF rep, of a "e820_end e"] disj by simp
qed

definition e820_map_ok :: "(nat \<Rightarrow> e820_entry) \<Rightarrow> nat \<Rightarrow> bool" where
  "e820_map_ok entries n \<longleftrightarrow>
     (\<forall>i < n. e820_type (entries i) = E820_AVAILABLE \<longrightarrow>
        e820_fits (entries i) \<and>
        (\<forall>j < i. e820_type (entries j) = E820_AVAILABLE \<longrightarrow> e820_apart (entries j) (entries i)))"

lemma e820_pages_apart: "e820_apart e e' \<Longrightarrow> e820_pages e \<inter> e820_pages e' = {}"
  by (auto simp: e820_apart_def e820_pages_def word_le_nat_alt)

lemma fold_entries_rep:
  assumes "pmm_rep s (\<lambda>_. [])" and "e820_map_ok entries n"
  shows "\<exists>g. pmm_rep (fold (\<lambda>i. pmm_init_entry (entries i)) [0..<n] s) g \<and>
             pool_pages g = (\<Union>i < n. e820_pages (entries i))"
  using assms(2)
proof (induction n)
  case 0
  show ?case using assms(1) by (auto simp: pool_pages_def intro!: exI [of _ "\<lambda>_. []"])
next
  case (Suc n)
  let ?s = "fold (\<lambda>i. pmm_init_entry (entries i)) [0..<n] s"
  have "e820_map_ok entries n" using Suc.prems by (simp add: e820_map_ok_def)
  then obtain g where g: "pmm_rep ?s g" "pool_pages g = (\<Union>i < n. e820_pages (entries i))"
    using Suc.IH by blast
  have "e820_pages (entries i) \<inter> e820_pages (entries n) = {}" if "i < n" for i
    using Suc.prems that e820_pages_apart [of "entries i" "entries n"]
    by (cases "e820_type (entries i) = E820_AVAILABLE \<and> e820_type (entries n) = E820_AVAILABLE")
       (auto simp: e820_map_ok_def e820_pages_def)
  then have "pool_pages g \<inter> e820_pages (entries n) = {}" using g(2) by auto
  moreover have "e820_type (entries n) = E820_AVAILABLE \<Longrightarrow> e820_fits (entries n)"
    using Suc.prems by (simp add: e820_map_ok_def)
  ultimately obtain h where "pmm_rep (pmm_init_entry (entries n) ?s) h"
    "pool_pages h = pool_pages g \<union> e820_pages (entries n)"
    using pmm_init_entry_rep [OF g(1)] by blast
  then show ?case using g(2) by (auto simp: lessThan_Suc)
qed

lemma pmm_rep_empty: "pmm_rep (s\<lparr>dma_free_list := 0, dma32_free_list := 0,
    normal_free_list := 0, free_pages_total := 0\<rparr>) (\<lambda>_. [])"
  by (simp add: pmm_rep_def all_zones pool_size_def)

lemma boot_range_rep:
  assumes "pmm_rep s f" and "pool_pages f = {}"
  shows "\<exists>g. pmm_rep (add_range MIN_ADDR 0x400000 s) g \<and>
             pool_pages g = page_range MIN_ADDR 0x400000"
proof -
  have "page_base 0x400000 = 0x400000" by (simp add: page_base_def)
  then show ?thesis using add_range_rep [OF assms(1), of MIN_ADDR "0x400000"] assms(2)
    by (simp add: MIN_ADDR_def)
qed

section \<open>Properties\<close>

text \<open>
  C21 (functional): after \<^verbatim>\<open>pmm_init\<close> on a well-formed E820 map (at most 100 entries, available
  entries disjoint and inside the address space) the free lists hold exactly the whole pages of
  available memory from 2 MiB up, each page once, and the counter is their number; if there is no
  such page they hold the pages between 2 and 4 MiB.
\<close>

theorem pmm_init_free_pages:
  assumes "e820_map_ok entries (unat count)" and "count \<noteq> 0" and "count \<le> 100"
  shows "\<exists>f. pmm_rep (pmm_init count entries s) f \<and>
             pool_pages f = (let u = \<Union>i < unat count. e820_pages (entries i)
                             in if u = {} then page_range MIN_ADDR 0x400000 else u)"
proof -
  define s0 where "s0 = s\<lparr>dma_free_list := 0, dma32_free_list := 0, normal_free_list := 0,
    free_pages_total := 0\<rparr>"
  define s1 where "s1 = fold (\<lambda>i. pmm_init_entry (entries i)) [0..<unat count] s0"
  obtain g where g: "pmm_rep s1 g" "pool_pages g = (\<Union>i < unat count. e820_pages (entries i))"
    using fold_entries_rep [OF pmm_rep_empty assms(1)] unfolding s1_def s0_def by blast
  have "pmm_init count entries s =
      (if free_pages_total s1 = 0 then add_range MIN_ADDR 0x400000 s1 else s1)"
    using assms(2,3) by (simp add: pmm_init_def s1_def s0_def Let_def not_less)
  then show ?thesis
    using g boot_range_rep [OF g(1)] free_pages_total_0 [OF g(1)] by (auto simp: Let_def)
qed

definition pmm_boot :: phys where
  "pmm_boot = \<lparr>pmem = (\<lambda>_. 0), dma_free_list = 0, dma32_free_list = 0, normal_free_list = 0,
               free_pages_total = 0, pmm_lock = False\<rparr>"

definition e820_sample :: "nat \<Rightarrow> e820_entry" where
  "e820_sample i = (if i = 0 then \<lparr>e820_base = 0, e820_length = 0x9F000, e820_type = 1\<rparr>
                    else \<lparr>e820_base = 0x100000, e820_length = 0x300000, e820_type = 1\<rparr>)"

lemma e820_sample_ok: "e820_map_ok e820_sample (unat (2 :: u16))"
  by (auto simp: e820_map_ok_def e820_sample_def e820_fits_def e820_apart_def e820_end_def
      less_2_cases_iff)

theorem pmm_init_free_pages_witness:
  "\<exists>f. pmm_rep (pmm_init 2 e820_sample pmm_boot) f \<and>
       pool_pages f = (let u = \<Union>i < unat (2 :: u16). e820_pages (e820_sample i)
                       in if u = {} then page_range MIN_ADDR 0x400000 else u)"
  by (rule pmm_init_free_pages [OF e820_sample_ok]) simp_all

text \<open>
  C2 (refinement): on well-formed free lists with the lock free, \<^verbatim>\<open>pmm_alloc\<close> returns the page
  the abstract allocator returns (the top of the normal, else DMA32, else DMA stack; NULL if all
  are empty), leaves lists that represent the popped stacks, and changes no word of memory.
\<close>

theorem pmm_alloc_refines:
  assumes "pmm_rep s f" and "\<not> pmm_lock s"
  shows "\<exists>s'. pmm_alloc s = Some (fst (pool_alloc f), s') \<and> pmm_rep s' (snd (pool_alloc f)) \<and>
              \<not> pmm_lock s' \<and> pmem s' = pmem s"
proof -
  have inv: "pmm_inv s" using assms by (auto simp: pmm_inv_def)
  then obtain p s' where a: "pmm_alloc s = Some (p, s')" using pmm.alloc_returns by blast
  with pmm_alloc_rep [OF inv a assms(1)] pmm_alloc_frame [OF a] show ?thesis
    by (auto simp: pmm_inv_def)
qed

lemma pmm_boot_rep: "pmm_rep pmm_boot (\<lambda>_. [])" "\<not> pmm_lock pmm_boot"
  by (simp_all add: pmm_rep_def all_zones pool_size_def pmm_boot_def)

definition pmm_two_pages :: phys where
  "pmm_two_pages = page_free_internal 0x500000 (page_free_internal 0x300000 pmm_boot)"

lemma pmm_two_pages_rep: "pmm_rep pmm_two_pages (\<lambda>z. if z = DMA then [0x500000, 0x300000] else [])"
  by (auto simp: pmm_rep_def all_zones pmm_two_pages_def page_free_internal_def pmm_boot_def
      pool_size_def zone_limits zone_of_def page_aligned_def page_off_def)

lemma pmm_two_pages_alloc:
  "pmm_alloc pmm_two_pages = Some (0x500000, page_free_internal 0x300000
     (pmm_boot\<lparr>pmem := (\<lambda>_. 0)(0x500000 := 0x300000)\<rparr>))"
  by (simp add: pmm_alloc_def alloc_any_def zone_alloc_def pmm_two_pages_def pmm_boot_def
      spin_lock_irqsave_def spin_unlock_irqrestore_def page_free_internal_def zone_limits Let_def fun_eq_iff)

lemma pmm_two_pages_inv: "pmm_inv pmm_two_pages"
  using pmm_two_pages_rep
  by (auto simp: pmm_inv_def pmm_two_pages_def page_free_internal_frame pmm_boot_def)

theorem pmm_alloc_refines_witness:
  "\<exists>s'. pmm_alloc pmm_two_pages = Some (0x500000, s') \<and> pmm_rep s' (\<lambda>z. if z = DMA then [0x300000] else []) \<and>
        \<not> pmm_lock s' \<and> pmem s' = pmem pmm_two_pages"
proof -
  let ?f = "\<lambda>z. if z = DMA then [0x500000, 0x300000 :: u64] else []"
  have "pool_alloc ?f = (0x500000, \<lambda>z. if z = DMA then [0x300000] else [])" by (simp add: pool_alloc_def pool_take_def fun_eq_iff)
  then show ?thesis using pmm_alloc_refines [OF pmm_two_pages_rep] pmm_two_pages_inv by (simp add: pmm_inv_def)
qed

text \<open>
  A page that \<^verbatim>\<open>pmm_alloc\<close> handed out can be given back with \<^verbatim>\<open>pmm_free\<close>; the
  call returns and the set of free pages is what it was before the allocation.
\<close>

lemma pmm_alloc_free_roundtrip:
  assumes "pmm_inv s" and "pmm_alloc s = Some (p, s1)" and "p \<noteq> 0"
  shows "\<exists>s2. pmm_free p s1 = Some s2 \<and> pmm_inv s2 \<and> pmm_avail s2 = pmm_avail s"
  using assms by (rule pmm.alloc_then_free)

text \<open>
  \<^verbatim>\<open>pmm_alloc_below\<close> with a limit above 4 GiB never returns: it calls
  \<^verbatim>\<open>pmm_alloc\<close>, which takes the lock it already holds.
\<close>

lemma pmm_alloc_below_deadlock:
  assumes "DMA32_ZONE_LIMIT < max_addr"
  shows "pmm_alloc_below max_addr s = None"
proof -
  have "DMA_ZONE_LIMIT < max_addr" by (rule less_trans [OF _ assms]) (simp add: zone_limits)
  with assms show ?thesis
    by (auto simp: pmm_alloc_below_def pmm_alloc_def spin_lock_irqsave_def)
qed

text \<open>Shifting the counter commutes with taking pages: no decision reads it.\<close>

definition shift_total :: "u64 \<Rightarrow> 'a phys_scheme \<Rightarrow> 'a phys_scheme" where
  "shift_total d s = s\<lparr>free_pages_total := free_pages_total s + d\<rparr>"

lemma zone_alloc_shift:
  "zone_alloc z (shift_total d s) = map_prod id (shift_total d) (zone_alloc z s)"
  by (cases z) (simp_all add: zone_alloc_def shift_total_def Let_def)

lemma alloc_any_shift:
  "alloc_any (shift_total d s) = map_prod id (shift_total d) (alloc_any s)"
  by (simp add: alloc_any_def zone_alloc_shift Let_def split: prod.splits)

lemma pool_alloc_size:
  assumes "pmm_rep s f" and "pool_size f \<noteq> 0"
  shows "fst (pool_alloc f) \<noteq> 0 \<and> pool_size f = Suc (pool_size (snd (pool_alloc f)))"
  using pool_alloc_cases [of f]
proof (elim disjE exE conjE)
  fix z q ps assume z: "f z = q # ps" "pool_alloc f = (q, f(z := ps))"
  then have "q \<in> pool_pages f" by (cases z) (auto simp: pool_pages_def)
  then show ?thesis using z pool_size_take [of f z q ps] pmm_rep_nonnull [OF assms(1)] by simp
qed (use assms(2) in \<open>simp add: pool_pages_def pool_size_def\<close>)

lemma alloc_pages_loop_succeeds:
  assumes "pmm_rep s f" and "i \<le> n" and "unat n - unat i \<le> pool_size f"
  shows "\<exists>t g. alloc_pages_loop h n i (shift_total d s) = Inr (shift_total d t) \<and>
               pmm_rep t g \<and> pool_size g + (unat n - unat i) = pool_size f"
  using assms
proof (induction "unat n - unat i" arbitrary: i s f)
  case 0
  then have "\<not> i < n" by (simp add: word_le_nat_alt word_less_nat_alt)
  then have "alloc_pages_loop h n i (shift_total d s) = Inr (shift_total d s)"
    by (simp add: alloc_pages_loop.simps [of h n i])
  with 0 show ?case by auto
next
  case (Suc k)
  then have lt: "i < n" by (simp add: word_less_nat_alt)
  obtain p t where a: "alloc_any s = (p, t)" by (cases "alloc_any s")
  from alloc_any_refines [OF Suc.prems(1) a] have r: "fst (pool_alloc f) = p"
    "pmm_rep t (snd (pool_alloc f))" by auto
  have "pool_size f \<noteq> 0" using Suc.hyps(2) Suc.prems(3) by simp
  from pool_alloc_size [OF Suc.prems(1) this] r(1) have p: "p \<noteq> 0"
    and sz: "pool_size f = Suc (pool_size (snd (pool_alloc f)))" by auto
  have step: "unat n - unat (i + 1) = k" using Suc.hyps(2) lt by (simp add: unat_Suc_lt)
  have "i + 1 \<le> n" using lt by (rule word_add_one_le)
  then obtain t' g where "alloc_pages_loop h n (i + 1) (shift_total d t) = Inr (shift_total d t')"
    "pmm_rep t' g" "pool_size g + k = pool_size (snd (pool_alloc f))"
    using Suc.hyps(1) [of "i + 1" t, OF step [symmetric] r(2)] Suc.prems(3) sz step Suc.hyps(2)
    by auto
  moreover from this have "pool_size g + (unat n - unat i) = pool_size f"
    using sz Suc.hyps(2) by simp
  moreover have "alloc_pages_loop h n i (shift_total d s) =
      alloc_pages_loop h n (i + 1) (shift_total d t)"
    using lt a p by (simp add: alloc_pages_loop.simps [of h n i] alloc_any_shift)
  ultimately show ?case by metis
qed

text \<open>
  A successful \<^verbatim>\<open>pmm_alloc_pages n\<close> takes \<open>n\<close> pages off the lists but takes the
  other \<open>n - 1\<close> off the counter twice: the counter that \<^verbatim>\<open>pmm_free_count\<close> reports is then
  \<open>n - 1\<close> below the number of free pages (modulo \<open>2 ^ 64\<close>).
\<close>

lemma pmm_alloc_pages_counter_drift:
  assumes "pmm_rep s f" and "\<not> pmm_lock s" and "n \<noteq> 0" and "unat n \<le> pool_size f"
  shows "\<exists>p t g. pmm_alloc_pages n s = Some (p, shift_total (- (n - 1)) t) \<and>
                 pmm_rep t g \<and> pool_size g + unat n = pool_size f"
proof -
  obtain h s1 where a: "alloc_any (s\<lparr>pmm_lock := True\<rparr>) = (h, s1)"
    by (cases "alloc_any (s\<lparr>pmm_lock := True\<rparr>)")
  have rep: "pmm_rep (s\<lparr>pmm_lock := True\<rparr>) f" using assms(1) by simp
  note r = alloc_any_refines [OF rep a]
  have n0: "unat n \<noteq> 0" using assms(3) by (simp add: unat_eq_0)
  have "pool_size f \<noteq> 0" using assms(4) n0 by simp
  from pool_alloc_size [OF assms(1) this] r have h: "h \<noteq> 0"
    and sz: "pool_size f = Suc (pool_size (snd (pool_alloc f)))" by auto
  have le: "unat n - unat (1 :: u64) \<le> pool_size (snd (pool_alloc f))" using assms(4) sz by simp
  have "1 \<le> n" using n0 by (simp add: word_le_nat_alt)
  then obtain t g where l: "alloc_pages_loop h n 1 (shift_total (- (n - 1)) s1) =
      Inr (shift_total (- (n - 1)) t)" "pmm_rep t g"
      "pool_size g + (unat n - unat (1 :: u64)) = pool_size (snd (pool_alloc f))"
    using alloc_pages_loop_succeeds [of s1 "snd (pool_alloc f)" 1 n h "- (n - 1)"] r le by blast
  have sub: "x\<lparr>free_pages_total := free_pages_total x - (n - 1)\<rparr> = shift_total (- (n - 1)) x"
    for x :: "'a phys_scheme" by (simp add: shift_total_def)
  have "pmm_alloc_pages n s =
      Some (h - (n - 1) * 0x1000, shift_total (- (n - 1)) (t\<lparr>pmm_lock := False\<rparr>))"
    using assms(2,3) a h l(1)
    by (simp add: pmm_alloc_pages_def spin_lock_irqsave_def spin_unlock_irqrestore_def
        sub Let_def) (simp add: shift_total_def)
  moreover have "pool_size g + unat n = pool_size f" using l(3) sz n0 by simp
  ultimately show ?thesis using l(2) pmm_rep_lock [of False t g] by blast
qed

text \<open>
  \<^verbatim>\<open>pmm_alloc_pages\<close> does not check that the pages it pops are adjacent.  From a
  well-formed state it can return a range whose first page was never free: here the pages
  \<open>0x500000\<close> and \<open>0x300000\<close> are popped and the range that starts at \<open>0x4FF000\<close> is returned.
\<close>

lemma pmm_alloc_pages_not_contiguous:
  "pmm_inv pmm_two_pages \<and>
   (\<exists>s'. pmm_alloc_pages 2 pmm_two_pages = Some (0x4FF000, s') \<and>
         0x4FF000 \<notin> pmm_avail pmm_two_pages \<and> pmm_avail pmm_two_pages = {0x500000, 0x300000})"
proof -
  have "\<exists>s'. pmm_alloc_pages 2 pmm_two_pages = Some (0x4FF000, s')"
    by (simp add: pmm_alloc_pages_def alloc_any_def zone_alloc_def pmm_two_pages_def pmm_boot_def
        spin_lock_irqsave_def spin_unlock_irqrestore_def page_free_internal_def zone_limits Let_def
        alloc_pages_loop.simps)
  moreover have "pmm_avail pmm_two_pages = {0x500000, 0x300000}"
    using pmm_avail_rep [OF pmm_two_pages_rep] by (simp add: pool_pages_def)
  ultimately show ?thesis using pmm_two_pages_inv by simp
qed

end
