(* ===== verification/Kmalloc.thy ===== *)
theory Kmalloc
  imports Pmm
begin

text \<open>
  The kernel heap, \<^verbatim>\<open>kernel/mm/kmalloc.c\<close>: a singly linked list of blocks, each with a header
  that holds a magic number, the size of the block with its header, the next block and a flag.
  The headers are a store from block addresses to \<^verbatim>\<open>struct heap_block\<close> values; the list is
  followed through its addresses, and following a cyclic list never returns (\<open>None\<close>).
\<close>

section \<open>State and operations\<close>

record heap_block =
  hb_magic :: u32
  hb_size :: u32
  hb_next :: u64
  hb_free :: u8

type_synonym headers = "u64 \<Rightarrow> heap_block"

record kheap = phys +
  hblk :: headers
  heap_root :: u64

definition HEAP_ALIGN :: u64 where "HEAP_ALIGN = 16"
definition HEAP_MAGIC :: u32 where "HEAP_MAGIC = 0xDEADBEEF"

text \<open>\<^verbatim>\<open>sizeof(struct heap_block)\<close>: 4 + 4 + 8 + 1 bytes, padded to a multiple of 8.\<close>

definition HDR :: u64 where "HDR = 24"

text \<open>\<^verbatim>\<open>while (cur->next) cur = cur->next;\<close>\<close>

partial_function (option) last_block :: "headers \<Rightarrow> u64 \<Rightarrow> u64 option" where
  "last_block h cur = (if hb_next (h cur) = 0 then Some cur else last_block h (hb_next (h cur)))"

definition heap_add_pages :: "u64 \<Rightarrow> 'a kheap_scheme \<Rightarrow> 'a kheap_scheme option" where
  "heap_add_pages addr s =
     (let h = (hblk s)(addr := \<lparr>hb_magic = HEAP_MAGIC, hb_size = 0x1000, hb_next = 0, hb_free = 1\<rparr>)
      in if heap_root s = 0 then Some (s\<lparr>hblk := h, heap_root := addr\<rparr>)
         else do { cur \<leftarrow> last_block h (heap_root s);
                   Some (s\<lparr>hblk := h(cur := (h cur)\<lparr>hb_next := addr\<rparr>)\<rparr>) })"

primrec kmalloc_init_loop :: "nat \<Rightarrow> 'a kheap_scheme \<Rightarrow> 'a kheap_scheme option" where
  "kmalloc_init_loop 0 s = Some s"
| "kmalloc_init_loop (Suc n) s =
     do { (p, s) \<leftarrow> pmm_alloc s;
          if p = 0 then Some s
          else do { s \<leftarrow> heap_add_pages p s; kmalloc_init_loop n s } }"

definition kmalloc_init :: "'a kheap_scheme \<Rightarrow> 'a kheap_scheme option" where
  "kmalloc_init s = kmalloc_init_loop 64 s"

definition absorb_next :: "headers \<Rightarrow> u64 \<Rightarrow> headers" where
  "absorb_next h cur =
     h(cur := (h cur)\<lparr>hb_size := hb_size (h cur) + hb_size (h (hb_next (h cur))),
                      hb_next := hb_next (h (hb_next (h cur)))\<rparr>)"

partial_function (option) coalesce_loop :: "headers \<Rightarrow> u64 \<Rightarrow> headers option" where
  "coalesce_loop h cur =
     (if cur = 0 \<or> hb_next (h cur) = 0 then Some h
      else if hb_free (h cur) \<noteq> 0 \<and> hb_free (h (hb_next (h cur))) \<noteq> 0
           then coalesce_loop (absorb_next h cur) cur
           else coalesce_loop h (hb_next (h cur)))"

definition heap_coalesce :: "'a kheap_scheme \<Rightarrow> 'a kheap_scheme option" where
  "heap_coalesce s = do { h \<leftarrow> coalesce_loop (hblk s) (heap_root s); Some (s\<lparr>hblk := h\<rparr>) }"

text \<open>The search of \<^verbatim>\<open>kmalloc\<close>: the first free block that is large enough, split when the rest is.\<close>

definition take_block :: "headers \<Rightarrow> u64 \<Rightarrow> u64 \<Rightarrow> headers" where
  "take_block h cur needed =
     (let h' = (if needed + HDR + 16 \<le> ucast (hb_size (h cur))
                then let nb = cur + needed;
                         h1 = h(nb := \<lparr>hb_magic = HEAP_MAGIC,
                                       hb_size = ucast (ucast (hb_size (h cur)) - needed :: u64),
                                       hb_next = hb_next (h cur), hb_free = 1\<rparr>)
                     in h1(cur := (h1 cur)\<lparr>hb_next := nb, hb_size := ucast needed\<rparr>)
                else h)
      in h'(cur := (h' cur)\<lparr>hb_free := 0\<rparr>))"

partial_function (option) alloc_scan :: "headers \<Rightarrow> u64 \<Rightarrow> u64 \<Rightarrow> (u64 \<times> headers) option" where
  "alloc_scan h cur needed =
     (if cur = 0 then Some (0, h)
      else if hb_free (h cur) \<noteq> 0 \<and> needed \<le> ucast (hb_size (h cur))
           then Some (cur + HDR, take_block h cur needed)
           else alloc_scan h (hb_next (h cur)) needed)"

definition block_needed :: "u64 \<Rightarrow> u64" where
  "block_needed sz =
     (let needed = sz + HDR;
          needed = (if needed < 16 then 16 else needed)
      in (needed + HEAP_ALIGN - 1) AND NOT (HEAP_ALIGN - 1))"

definition kmalloc :: "u64 \<Rightarrow> 'a kheap_scheme \<Rightarrow> (u64 \<times> 'a kheap_scheme) option" where
  "kmalloc sz s =
     (if sz = 0 then Some (0, s)
      else do {
        let needed = block_needed sz;
        s \<leftarrow> heap_coalesce s;
        (p, h) \<leftarrow> alloc_scan (hblk s) (heap_root s) needed;
        if p \<noteq> 0 then Some (p, s\<lparr>hblk := h\<rparr>)
        else do {
          (page, s) \<leftarrow> pmm_alloc s;
          if page = 0 then Some (0, s)
          else do {
            s \<leftarrow> heap_add_pages page s;
            s \<leftarrow> heap_coalesce s;
            (p, h) \<leftarrow> alloc_scan (hblk s) (heap_root s) needed;
            Some (p, s\<lparr>hblk := h\<rparr>) } } })"

partial_function (option) kfree_merge_loop :: "headers \<Rightarrow> u64 \<Rightarrow> headers option" where
  "kfree_merge_loop h cur =
     (if cur = 0 then Some h
      else if hb_free (h cur) \<noteq> 0 \<and> hb_next (h cur) \<noteq> 0 \<and> hb_free (h (hb_next (h cur))) \<noteq> 0
           then kfree_merge_loop (absorb_next h cur) cur
           else kfree_merge_loop h (hb_next (h cur)))"

text \<open>\<^verbatim>\<open>while (prev && prev->next != cur) prev = prev->next;\<close>\<close>

partial_function (option) find_prev :: "headers \<Rightarrow> u64 \<Rightarrow> u64 \<Rightarrow> u64 option" where
  "find_prev h prev cur =
     (if prev = 0 \<or> hb_next (h prev) = cur then Some prev else find_prev h (hb_next (h prev)) cur)"

definition unlink_last :: "u64 \<Rightarrow> 'a kheap_scheme \<Rightarrow> 'a kheap_scheme option" where
  "unlink_last cur s =
     (if cur = heap_root s then Some (s\<lparr>heap_root := 0\<rparr>)
      else do { prev \<leftarrow> find_prev (hblk s) (heap_root s) cur;
                Some (if prev = 0 then s
                      else s\<lparr>hblk := (hblk s)(prev := (hblk s prev)\<lparr>hb_next := 0\<rparr>)\<rparr>) })"

partial_function (option) kfree_trim_loop :: "u64 \<Rightarrow> 'a kheap_scheme \<Rightarrow> 'a kheap_scheme option" where
  "kfree_trim_loop cur s =
     (if cur = 0 then Some s
      else if hb_free (hblk s cur) \<noteq> 0 \<and> hb_size (hblk s cur) = 0x1000 \<and> hb_next (hblk s cur) = 0
      then do { s \<leftarrow> unlink_last cur s; pmm_free cur s }
      else do {
        let h = hblk s;
        let h = (if hb_free (h cur) \<noteq> 0 \<and> hb_size (h cur) = 0x1000 \<and> hb_next (h cur) \<noteq> 0 \<and>
                    hb_free (h (hb_next (h cur))) \<noteq> 0 then absorb_next h cur else h);
        let s = s\<lparr>hblk := h\<rparr>;
        s \<leftarrow> (if hb_free (h cur) \<noteq> 0 \<and> 0x2000 \<le> hb_size (h cur) \<and>
                 (hb_next (h cur) = 0 \<or> hb_free (h (hb_next (h cur))) = 0)
              then let extra = page_base (ucast (hb_size (h cur) - 0x1000)) in
                if 0x1000 \<le> extra
                then let sz = ucast (ucast (hb_size (h cur)) - extra :: u64);
                         s = s\<lparr>hblk := h(cur := (h cur)\<lparr>hb_size := sz\<rparr>)\<rparr>
                     in pmm_free (cur + ucast sz) s
                else Some s
              else Some s);
        kfree_trim_loop (hb_next (hblk s cur)) s })"

definition kfree :: "u64 \<Rightarrow> 'a kheap_scheme \<Rightarrow> 'a kheap_scheme option" where
  "kfree ptr s =
     (if ptr = 0 then Some s
      else let block = ptr - HDR in
        if hb_magic (hblk s block) \<noteq> HEAP_MAGIC then Some s
        else do {
          let h = (hblk s)(block := (hblk s block)\<lparr>hb_free := 1\<rparr>);
          h \<leftarrow> kfree_merge_loop h (heap_root s);
          kfree_trim_loop (heap_root s) (s\<lparr>hblk := h\<rparr>) })"

section \<open>The heap as a list of blocks\<close>

type_synonym blk = "u64 \<times> u32 \<times> bool"

definition blist :: "headers \<Rightarrow> u64 \<Rightarrow> blk list \<Rightarrow> bool" where
  "blist h p xs \<longleftrightarrow>
     page_list (\<lambda>a. hb_next (h a)) p (map fst xs) \<and>
     (\<forall>(a, n, f) \<in> set xs. hb_size (h a) = n \<and> (hb_free (h a) \<noteq> 0) = f)"

lemma blist_Nil [simp]: "blist h p [] \<longleftrightarrow> p = 0"
  by (simp add: blist_def)

lemma blist_Cons [simp]:
  "blist h p ((a, n, f) # xs) \<longleftrightarrow>
     p = a \<and> a \<noteq> 0 \<and> hb_size (h a) = n \<and> (hb_free (h a) \<noteq> 0) = f \<and> blist h (hb_next (h a)) xs"
  by (auto simp: blist_def)

lemma blist_distinct: "blist h p xs \<Longrightarrow> distinct (map fst xs)"
  by (auto simp: blist_def dest: page_list_distinct)

lemma blist_frame [frame]:
  assumes "\<And>a. a \<in> fst ` set xs \<Longrightarrow> h' a = h a"
  shows "blist h' p xs = blist h p xs"
proof -
  have "page_list (\<lambda>a. hb_next (h' a)) p (map fst xs) = page_list (\<lambda>a. hb_next (h a)) p (map fst xs)"
    by (rule page_list_frame) (use assms in auto)
  moreover have "(\<forall>(a, n, f) \<in> set xs. hb_size (h' a) = n \<and> (hb_free (h' a) \<noteq> 0) = f) \<longleftrightarrow>
      (\<forall>(a, n, f) \<in> set xs. hb_size (h a) = n \<and> (hb_free (h a) \<noteq> 0) = f)"
    by (rule ball_cong [OF refl]) (use assms in force)
  ultimately show ?thesis by (simp add: blist_def)
qed

lemma blist_hd_notin: "blist h p ((a, n, f) # xs) \<Longrightarrow> a \<notin> fst ` set xs"
  using blist_distinct [of h p "(a, n, f) # xs"] by simp

text \<open>Merging runs of free blocks, and taking the first fit, on lists.\<close>

fun merge_free :: "blk list \<Rightarrow> blk list" where
  "merge_free [] = []"
| "merge_free [x] = [x]"
| "merge_free ((a, n, f) # (b, m, g) # xs) =
     (if f \<and> g then merge_free ((a, n + m, True) # xs) else (a, n, f) # merge_free ((b, m, g) # xs))"

fun no_free_pair :: "blk list \<Rightarrow> bool" where
  "no_free_pair ((a, n, f) # (b, m, g) # xs) \<longleftrightarrow> \<not> (f \<and> g) \<and> no_free_pair ((b, m, g) # xs)"
| "no_free_pair _ \<longleftrightarrow> True"

definition heap_bytes :: "blk list \<Rightarrow> u32" where
  "heap_bytes xs = (\<Sum>(a, n, f) \<leftarrow> xs. n)"

lemma merge_free_hd: "\<exists>n' ys. merge_free ((a, n, f) # xs) = (a, n', f) # ys"
  by (induction "(a, n, f) # xs" arbitrary: n xs rule: merge_free.induct) auto

lemma merge_free_no_pair: "no_free_pair (merge_free xs)"
proof (induction xs rule: merge_free.induct)
  case (3 a n f b m g xs)
  then show ?case using merge_free_hd [of b m g xs] by auto
qed auto

lemma merge_free_bytes: "heap_bytes (merge_free xs) = heap_bytes xs"
  by (induction xs rule: merge_free.induct) (auto simp: heap_bytes_def algebra_simps)

lemma merge_free_addrs: "fst ` set (merge_free xs) \<subseteq> fst ` set xs"
  by (induction xs rule: merge_free.induct) auto

text \<open>The loop of \<^verbatim>\<open>heap_coalesce\<close> ends on every well-formed list and computes \<open>merge_free\<close>.\<close>

lemma blist_absorb:
  assumes "blist h p ((a, n, True) # (b, m, True) # xs)"
  shows "blist (absorb_next h a) a ((a, n + m, True) # xs)"
proof -
  have "a \<notin> fst ` set ((b, m, True) # xs)" using assms by (rule blist_hd_notin)
  then have "a \<notin> fst ` set xs" by auto
  then have "blist (absorb_next h a) q xs = blist h q xs" for q
    by (intro blist_frame) (auto simp: absorb_next_def)
  with assms show ?thesis by (auto simp: absorb_next_def)
qed

lemma coalesce_loop_merges:
  "blist h cur xs \<Longrightarrow> \<exists>h'. coalesce_loop h cur = Some h' \<and> blist h' cur (merge_free xs) \<and>
     (\<forall>a. a \<notin> fst ` set xs \<longrightarrow> h' a = h a) \<and> (\<forall>a. hb_magic (h' a) = hb_magic (h a))"
proof (induction xs arbitrary: h cur rule: merge_free.induct)
  case (2 x)
  then show ?case by (cases x) (auto simp: coalesce_loop.simps)
next
  case (3 a n f b m g xs)
  have b: "hb_next (h cur) = b" "b \<noteq> 0" "cur = a" "a \<noteq> 0" using 3(3) by auto
  show ?case
  proof (cases "f \<and> g")
    case True
    then have bl: "blist (absorb_next h a) a ((a, n + m, True) # xs)"
      using 3(3) by (intro blist_absorb) auto
    obtain h' where h': "coalesce_loop (absorb_next h a) a = Some h'"
      "blist h' a (merge_free ((a, n + m, True) # xs))"
      "\<forall>c. c \<notin> fst ` set ((a, n + m, True) # xs) \<longrightarrow> h' c = absorb_next h a c"
      "\<forall>c. hb_magic (h' c) = hb_magic (absorb_next h a c)"
      using 3(1) [OF True bl] by blast
    have "coalesce_loop h cur = Some h'"
      using True b 3(3) h'(1) by (subst coalesce_loop.simps) auto
    with True b h'(2-4) show ?thesis by (auto simp: absorb_next_def)
  next
    case False
    have bl: "blist h b ((b, m, g) # xs)" using 3(3) by auto
    obtain h' where h': "coalesce_loop h b = Some h'" "blist h' b (merge_free ((b, m, g) # xs))"
      "\<forall>c. c \<notin> fst ` set ((b, m, g) # xs) \<longrightarrow> h' c = h c" "\<forall>c. hb_magic (h' c) = hb_magic (h c)"
      using 3(2) [OF False bl] by blast
    have "a \<notin> fst ` set ((b, m, g) # xs)" using 3(3) by (rule blist_hd_notin)
    then have "h' a = h a" using h'(3) by blast
    moreover have "coalesce_loop h cur = Some h'"
      using False b 3(3) h'(1) by (subst coalesce_loop.simps) auto
    ultimately show ?thesis using False b 3(3) h'(2-4) by auto
  qed
qed (simp add: coalesce_loop.simps)

lemma kfree_merge_loop_coalesces:
  "blist h cur xs \<Longrightarrow> kfree_merge_loop h cur = coalesce_loop h cur"
proof (induction xs arbitrary: h cur rule: merge_free.induct)
  case (2 x)
  then show ?case
    by (cases x) (auto simp: coalesce_loop.simps [of h cur] kfree_merge_loop.simps)
next
  case (3 a n f b m g xs)
  show ?case
  proof (cases "f \<and> g")
    case True
    then have "kfree_merge_loop (absorb_next h a) a = coalesce_loop (absorb_next h a) a"
      using 3(1,3) blist_absorb [of h cur a n b m xs] by auto
    with True 3(3) show ?thesis
      by (subst coalesce_loop.simps, subst kfree_merge_loop.simps) auto
  next
    case False
    then have "kfree_merge_loop h b = coalesce_loop h b" using 3(2,3) by auto
    with False 3(3) show ?thesis
      by (subst coalesce_loop.simps, subst kfree_merge_loop.simps) auto
  qed
qed (simp add: coalesce_loop.simps kfree_merge_loop.simps)

section \<open>First fit\<close>

definition split_block :: "u64 \<Rightarrow> u64 \<Rightarrow> u32 \<Rightarrow> blk list" where
  "split_block k a n =
     (if k + HDR + 16 \<le> ucast n then [(a, ucast k, False), (a + k, ucast (ucast n - k :: u64), True)]
      else [(a, n, False)])"

fun first_fit :: "u64 \<Rightarrow> blk list \<Rightarrow> u64 \<times> blk list" where
  "first_fit k [] = (0, [])"
| "first_fit k ((a, n, f) # xs) =
     (if f \<and> k \<le> ucast n then (a + HDR, split_block k a n @ xs)
      else (fst (first_fit k xs), (a, n, f) # snd (first_fit k xs)))"

text \<open>Blocks lie inside the address space and do not overlap.\<close>

fun heap_disjoint :: "blk list \<Rightarrow> bool" where
  "heap_disjoint [] \<longleftrightarrow> True"
| "heap_disjoint ((a, n, f) # xs) \<longleftrightarrow>
     unat a + unat n < 2 ^ 64 \<and>
     (\<forall>(b, m, g) \<in> set xs. unat a + unat n \<le> unat b \<or> unat b + unat m \<le> unat a) \<and>
     heap_disjoint xs"

text \<open>The part of a request that makes the search sound: positive, and far from wrapping.\<close>

definition request_ok :: "u64 \<Rightarrow> bool" where
  "request_ok k \<longleftrightarrow> 24 < unat k \<and> unat k + 40 < 2 ^ 64"

lemma split_sizes:
  assumes k: "request_ok k" and fit: "k \<le> ucast (n :: u32)" and a: "unat a + unat n < 2 ^ 64"
  shows "unat (ucast k :: u32) = unat k" and "unat (ucast (ucast n - k :: u64) :: u32) = unat n - unat k"
    and "unat (a + k) = unat a + unat k" and "a + HDR \<noteq> 0" and "unat k \<le> unat n"
proof -
  have kn: "unat k \<le> unat n" using fit by (simp add: word_le_nat_alt unat_ucast_32_64)
  then show "unat k \<le> unat n" .
  have n32: "unat n < 2 ^ 32" using unsigned_less [of n] by simp
  show "unat (ucast k :: u32) = unat k"
    using kn n32 by (simp add: take_bit_nat_eq_self unsigned_ucast_eq)
  have "unat (ucast n - k :: u64) = unat n - unat k"
    using fit by (simp add: unat_sub unat_ucast_32_64)
  then show "unat (ucast (ucast n - k :: u64) :: u32) = unat n - unat k"
    using n32 by (simp add: unsigned_ucast_eq take_bit_nat_eq_self)
  show "unat (a + k) = unat a + unat k" using a kn by (intro unat_add_nowrap) simp
  have "unat (a + HDR) = unat a + 24"
    using a kn k by (subst unat_add_nowrap) (simp_all add: HDR_def request_ok_def)
  then show "a + HDR \<noteq> 0" by (auto simp: unat_eq_0 [symmetric])
qed

lemma split_needed:
  assumes "request_ok k"
  shows "unat (k + HDR + 16) = unat k + 40"
  using assms by (simp add: add.assoc HDR_def request_ok_def unat_add_nowrap)

lemma split_fits:
  assumes "request_ok k" and "k + HDR + 16 \<le> ucast (n :: u32)"
  shows "unat k + 40 \<le> unat n"
  using assms(2) by (simp add: word_le_nat_alt split_needed [OF assms(1)] unat_ucast_32_64)

text \<open>Every block of the result lies inside a block of the list searched.\<close>

definition inside :: "blk \<Rightarrow> blk \<Rightarrow> bool" where
  "inside x y \<longleftrightarrow>
     (case (x, y) of ((c, m, _), (a, n, _)) \<Rightarrow>
        unat a \<le> unat c \<and> unat c + unat m \<le> unat a + unat n \<and> (c = a \<or> unat c < unat a + unat n))"

lemma split_inside:
  assumes k: "request_ok k" and fit: "k \<le> ucast n" and a: "unat a + unat n < 2 ^ 64"
    and x: "x \<in> set (split_block k a n)"
  shows "inside x (a, n, f)"
proof (cases "k + HDR + 16 \<le> ucast n")
  case True
  note s = split_sizes [OF k fit a] split_fits [OF k True]
  with x True show ?thesis by (auto simp: split_block_def inside_def)
qed (use x in \<open>auto simp: split_block_def inside_def\<close>)

lemma first_fit_inside:
  assumes k: "request_ok k" and "heap_disjoint xs" and "x \<in> set (snd (first_fit k xs))"
  shows "\<exists>y \<in> set xs. inside x y"
  using assms(2,3)
proof (induction xs)
  case (Cons y xs)
  obtain a n f where y: "y = (a, n, f)" by (cases y)
  have "inside x x" by (cases x) (simp add: inside_def)
  with Cons y show ?case using split_inside [OF k, of n a x f]
    by (auto split: if_splits intro: bexI [of _ x])
qed simp

text \<open>Splitting keeps the blocks apart and the number of bytes.\<close>

lemma heap_disjoint_split:
  assumes k: "request_ok k" and fit: "k \<le> ucast n" and dis: "heap_disjoint ((a, n, f) # xs)"
  shows "heap_disjoint (split_block k a n @ xs)"
proof (cases "k + HDR + 16 \<le> ucast n")
  case True
  have a: "unat a + unat n < 2 ^ 64" using dis by simp
  note s = split_sizes [OF k fit a] split_fits [OF k True]
  with dis True show ?thesis by (fastforce simp: split_block_def)
qed (use dis in \<open>simp add: split_block_def\<close>)

lemma first_fit_disjoint:
  assumes k: "request_ok k" and "heap_disjoint xs"
  shows "heap_disjoint (snd (first_fit k xs))"
  using assms(2)
proof (induction xs)
  case (Cons x xs)
  obtain a n f where x: "x = (a, n, f)" by (cases x)
  show ?case
  proof (cases "f \<and> k \<le> ucast n")
    case True
    with Cons.prems x show ?thesis using heap_disjoint_split [OF k] by simp
  next
    case False
    have "unat a + unat n \<le> unat c \<or> unat c + unat m \<le> unat a"
      if "(c, m, g) \<in> set (snd (first_fit k xs))" for c m g
    proof -
      have "heap_disjoint xs" using Cons.prems x by simp
      from first_fit_inside [OF k this that] obtain b l e
        where "(b, l, e) \<in> set xs" "inside (c, m, g) (b, l, e)" by auto
      with Cons.prems x show ?thesis by (fastforce simp: inside_def)
    qed
    with False Cons x show ?thesis by auto
  qed
qed simp

lemma first_fit_bytes:
  assumes k: "request_ok k" and "heap_disjoint xs"
  shows "heap_bytes (snd (first_fit k xs)) = heap_bytes xs"
  using assms(2)
proof (induction xs)
  case (Cons x xs)
  obtain a n f where x: "x = (a, n, f)" by (cases x)
  have "heap_bytes (split_block k a n) = n"
    if "k \<le> ucast n"
  proof (cases "k + HDR + 16 \<le> ucast n")
    case True
    have a: "unat a + unat n < 2 ^ 64" using Cons.prems x by simp
    note s = split_sizes [OF k that a] split_fits [OF k True]
    have "unat (ucast k + ucast (ucast n - k :: u64) :: u32) = unat n"
      using s unat_less_pow32 [of n] by (simp add: unat_word_ariths)
    then have "ucast k + ucast (ucast n - k :: u64) = n" by (simp add: word_unat_eq_iff)
    with True show ?thesis by (simp add: split_block_def heap_bytes_def)
  qed (simp add: split_block_def heap_bytes_def)
  with Cons x show ?case by (auto simp: heap_bytes_def)
qed simp

text \<open>The pointer found is the payload of a free block that is large enough, now taken.\<close>

lemma first_fit_block:
  assumes k: "request_ok k" and "heap_disjoint xs" and "fst (first_fit k xs) \<noteq> 0"
  shows "\<exists>n. (fst (first_fit k xs) - HDR, n, False) \<in> set (snd (first_fit k xs)) \<and> unat k \<le> unat n"
  using assms(2,3)
proof (induction xs)
  case (Cons x xs)
  obtain a n f where x: "x = (a, n, f)" by (cases x)
  show ?case
  proof (cases "f \<and> k \<le> ucast n")
    case True
    have a: "unat a + unat n < 2 ^ 64" using Cons.prems x by simp
    note s = split_sizes [OF k conjunct2 [OF True] a]
    with True x show ?thesis by (auto simp: split_block_def)
  next
    case False
    with Cons x show ?thesis by auto
  qed
qed simp

text \<open>The search of \<^verbatim>\<open>kmalloc\<close> over the headers implements first fit.\<close>

lemma take_block_blist:
  assumes k: "request_ok k" and bl: "blist h p ((a, n, f) # xs)" and fit: "k \<le> ucast n"
    and dis: "heap_disjoint ((a, n, f) # xs)"
  shows "blist (take_block h a k) a (split_block k a n @ xs)"
proof (cases "k + HDR + 16 \<le> ucast n")
  case True
  have a: "unat a + unat n < 2 ^ 64" using dis by simp
  note s = split_sizes [OF k fit a] split_fits [OF k True]
  have ak: "a + k \<notin> fst ` set xs" using dis s k by (fastforce simp: request_ok_def)
  have "a \<notin> fst ` set xs" using bl by (rule blist_hd_notin)
  with ak have fr: "blist (take_block h a k) q xs = blist h q xs" for q
    by (intro blist_frame) (auto simp: take_block_def Let_def image_iff)
  have ne: "a + k \<noteq> a" "a + k \<noteq> 0" using s(3) k by (auto simp: request_ok_def unat_eq_0 [symmetric])
  with True bl fr show ?thesis by (simp add: split_block_def take_block_def Let_def)
next
  case False
  have "a \<notin> fst ` set xs" using bl by (rule blist_hd_notin)
  then have "blist (take_block h a k) q xs = blist h q xs" for q
    by (intro blist_frame) (use False bl in \<open>auto simp: take_block_def Let_def\<close>)
  with False bl show ?thesis by (simp add: split_block_def take_block_def Let_def)
qed

lemma alloc_scan_first_fit:
  assumes k: "request_ok k" and "blist h p xs" and "heap_disjoint xs"
  shows "\<exists>h'. alloc_scan h p k = Some (fst (first_fit k xs), h') \<and>
              blist h' p (snd (first_fit k xs)) \<and>
              (\<forall>c. c \<notin> fst ` set (snd (first_fit k xs)) \<longrightarrow> h' c = h c)"
  using assms(2,3)
proof (induction xs arbitrary: p)
  case Nil
  then show ?case by (simp add: alloc_scan.simps)
next
  case (Cons x xs)
  obtain a n f where x: "x = (a, n, f)" by (cases x)
  have p: "p = a" "a \<noteq> 0" "hb_size (h a) = n" "(hb_free (h a) \<noteq> 0) = f" using Cons.prems x by auto
  show ?case
  proof (cases "f \<and> k \<le> ucast n")
    case True
    have "take_block h a k c = h c" if "c \<notin> fst ` set (split_block k a n @ xs)" for c
      using that p by (auto simp: take_block_def split_block_def Let_def split: if_splits)
    with True p x Cons.prems show ?thesis
      using take_block_blist [OF k, of h p a n f xs]
      by (subst alloc_scan.simps) simp
  next
    case False
    have dis: "heap_disjoint xs" using Cons.prems x by simp
    obtain h' where h': "alloc_scan h (hb_next (h a)) k = Some (fst (first_fit k xs), h')"
      "blist h' (hb_next (h a)) (snd (first_fit k xs))"
      "\<forall>c. c \<notin> fst ` set (snd (first_fit k xs)) \<longrightarrow> h' c = h c"
      using Cons.IH [OF _ dis, of "hb_next (h a)"] Cons.prems(1) x by force
    have "a \<notin> fst ` set (snd (first_fit k xs))"
    proof
      assume "a \<in> fst ` set (snd (first_fit k xs))"
      then obtain m g where "(a, m, g) \<in> set (snd (first_fit k xs))" by force
      from first_fit_inside [OF k dis this] obtain b l e
        where "(b, l, e) \<in> set xs" "inside (a, m, g) (b, l, e)" by auto
      moreover from this have "b \<noteq> a" using Cons.prems x blist_hd_notin [of h p a n f xs] by force
      moreover have "\<forall>(b, m, g) \<in> set xs. unat a + unat n \<le> unat b \<or> unat b + unat m \<le> unat a"
        using Cons.prems x by simp
      ultimately show False by (auto simp: inside_def word_unat_eq_iff)
    qed
    then have "h' a = h a" using h'(3) by blast
    with False p h' x show ?thesis by (subst alloc_scan.simps) auto
  qed
qed

section \<open>What the heap operations guarantee\<close>

lemma unat_round16: "unat (x AND NOT 15 :: u64) = unat x - unat x mod 16"
proof -
  have off: "unat (x AND 15) = unat x mod 16"
  proof -
    have "x AND 15 = take_bit 4 x" by (simp add: take_bit_eq_mask mask_eq_exp_minus_1)
    then show ?thesis by (simp add: unat_mod take_bit_eq_mod)
  qed
  have "(x AND NOT 15) + (x AND 15) = x"
    by (subst disjunctive_add) (auto simp: bit_simps intro: bit_word_eqI)
  then have "x AND NOT 15 = x - (x AND 15)" by (simp add: eq_diff_eq)
  moreover have "x AND 15 \<le> x" by (simp add: word_le_nat_alt off)
  ultimately show ?thesis by (simp only: unat_sub off)
qed

text \<open>The size rounded up with its header, for sizes that do not wrap.\<close>

lemma unat_block_needed:
  assumes "unat sz + 128 < 2 ^ 64"
  shows "unat (block_needed sz) = (unat sz + 39) div 16 * 16"
proof -
  have h: "unat (sz + HDR) = unat sz + 24" using assms by (simp add: HDR_def unat_add_nowrap)
  then have "\<not> sz + HDR < 16" by (simp add: word_less_nat_alt)
  then have "block_needed sz = (sz + HDR + 15) AND NOT 15"
    by (simp add: block_needed_def HEAP_ALIGN_def Let_def add.commute add.left_commute)
  moreover have "unat (sz + HDR + 15) = unat sz + 39" using assms h by (simp add: unat_add_nowrap)
  ultimately show ?thesis by (simp only: unat_round16) (simp add: minus_mod_eq_div_mult)
qed

lemma block_needed_ok:
  assumes "unat sz + 128 < 2 ^ 64" and "sz \<noteq> 0"
  shows "request_ok (block_needed sz)" and "unat sz + 24 \<le> unat (block_needed sz)"
proof -
  have n: "unat sz + 24 \<le> unat (block_needed sz)" "unat (block_needed sz) \<le> unat sz + 39"
    using unat_block_needed [OF assms(1)] by linarith+
  then show "unat sz + 24 \<le> unat (block_needed sz)" by simp
  have "0 < unat sz" using assms(2) by (simp add: unat_gt_0)
  with n assms(1) show "request_ok (block_needed sz)" by (simp add: request_ok_def)
qed

text \<open>
  On a well-formed block list \<^verbatim>\<open>heap_coalesce\<close> returns, and the list it leaves
  is the old one with every run of free blocks merged: no two neighbours are free, and no byte of
  the heap is lost (block sizes are 32-bit, so the sum is modulo $2^{32}$).
\<close>

lemma heap_coalesce_merges:
  assumes "blist (hblk s) (heap_root s) xs"
  shows "\<exists>s'. heap_coalesce s = Some s' \<and> heap_root s' = heap_root s \<and>
              blist (hblk s') (heap_root s') (merge_free xs) \<and>
              no_free_pair (merge_free xs) \<and> heap_bytes (merge_free xs) = heap_bytes xs"
  using coalesce_loop_merges [OF assms]
  by (auto simp: heap_coalesce_def merge_free_no_pair merge_free_bytes)

definition heap_of :: "headers \<Rightarrow> u64 \<Rightarrow> kheap" where
  "heap_of h r = phys.extend pmm_boot \<lparr>hblk = h, heap_root = r\<rparr>"

definition two_pages :: headers where
  "two_pages = (\<lambda>_. \<lparr>hb_magic = 0, hb_size = 0, hb_next = 0, hb_free = 0\<rparr>)
     (0x500000 := \<lparr>hb_magic = HEAP_MAGIC, hb_size = 0x1000, hb_next = 0x300000, hb_free = 1\<rparr>,
      0x300000 := \<lparr>hb_magic = HEAP_MAGIC, hb_size = 0x1000, hb_next = 0, hb_free = 1\<rparr>)"

lemma heap_of_sel [simp]: "hblk (heap_of h r) = h" "heap_root (heap_of h r) = r"
  by (simp_all add: heap_of_def phys.defs)

lemma two_pages_blist: "blist two_pages 0x500000 [(0x500000, 0x1000, True), (0x300000, 0x1000, True)]"
  by (simp add: two_pages_def)

text \<open>A request that the merged list can serve.\<close>

lemma kmalloc_serves:
  assumes bl: "blist (hblk s) (heap_root s) xs" and dis: "heap_disjoint (merge_free xs)"
    and sz: "sz \<noteq> 0" "unat sz + 128 < 2 ^ 64"
    and fit: "first_fit (block_needed sz) (merge_free xs) = (p, ys)" "p \<noteq> 0"
  shows "\<exists>s'. kmalloc sz s = Some (p, s') \<and> blist (hblk s') (heap_root s') ys \<and>
              phys.truncate s' = phys.truncate s"
proof -
  note k = block_needed_ok(1) [OF sz(2,1)]
  obtain h where h: "coalesce_loop (hblk s) (heap_root s) = Some h" "blist h (heap_root s) (merge_free xs)"
    using coalesce_loop_merges [OF bl] by blast
  obtain h' where "alloc_scan h (heap_root s) (block_needed sz) = Some (p, h')" "blist h' (heap_root s) ys"
    using alloc_scan_first_fit [OF k h(2) dis] fit by auto
  with h sz fit show ?thesis
    by (auto simp: kmalloc_def heap_coalesce_def Let_def phys.defs)
qed

text \<open>
  C4 (functional): when the blocks of the merged heap do not overlap and one of them can serve a
  request, \<^verbatim>\<open>kmalloc\<close> returns, its result is the first fit, and it is the payload of a block of at
  least the requested size that was free and is now taken; the blocks still do not overlap, no byte
  is lost, and no page is taken from the page allocator.
\<close>

theorem kmalloc_returns_block:
  assumes "blist (hblk s) (heap_root s) xs" and "heap_disjoint (merge_free xs)"
    and "sz \<noteq> 0" and "unat sz + 128 < 2 ^ 64"
    and "first_fit (block_needed sz) (merge_free xs) = (p, ys)" and "p \<noteq> 0"
  shows "\<exists>s' n. kmalloc sz s = Some (p, s') \<and> blist (hblk s') (heap_root s') ys \<and>
              heap_disjoint ys \<and> heap_bytes ys = heap_bytes xs \<and>
              (p - HDR, n, False) \<in> set ys \<and> unat sz + 24 \<le> unat n \<and>
              phys.truncate s' = phys.truncate s"
proof -
  note k = block_needed_ok [OF assms(4,3)]
  obtain s' where s': "kmalloc sz s = Some (p, s')" "blist (hblk s') (heap_root s') ys"
    "phys.truncate s' = phys.truncate s" using kmalloc_serves [OF assms] by blast
  obtain n where "(p - HDR, n, False) \<in> set ys" "unat (block_needed sz) \<le> unat n"
    using first_fit_block [OF k(1) assms(2)] assms(5,6) by auto
  moreover have "heap_disjoint ys" "heap_bytes ys = heap_bytes xs"
    using first_fit_disjoint [OF k(1) assms(2)] first_fit_bytes [OF k(1) assms(2)] assms(5)
    by (simp_all add: merge_free_bytes)
  ultimately show ?thesis using s' k(2) by (intro exI [of _ s'] exI [of _ n]) simp
qed

lemma block_needed_eval: "block_needed 100 = 128" "block_needed 5000 = 5024"
  by (simp_all add: block_needed_def HDR_def HEAP_ALIGN_def)

lemma two_pages_fit:
  "first_fit (block_needed 100) (merge_free [(0x500000, 0x1000, True), (0x300000, 0x1000, True)]) =
     (0x500018, [(0x500000, 128, False), (0x500080, 8064, True)])"
  "first_fit (block_needed 5000) (merge_free [(0x500000, 0x1000, True), (0x300000, 0x1000, True)]) =
     (0x500018, [(0x500000, 5024, False), (0x5013A0, 3168, True)])"
  by (simp_all add: block_needed_eval split_block_def HDR_def)

lemma two_pages_apart:
  "heap_disjoint (merge_free [(0x500000, 0x1000, True), (0x300000, 0x1000, True)])"
  by simp

theorem kmalloc_returns_block_witness:
  "\<exists>s' n. kmalloc 100 (heap_of two_pages 0x500000) = Some (0x500018, s') \<and>
     (0x500018 - HDR, n, False) \<in> set [(0x500000, 128, False), (0x500080, 8064, True)] \<and>
     unat (100 :: u64) + 24 \<le> unat (n :: u32)"
proof -
  have "blist (hblk (heap_of two_pages 0x500000)) (heap_root (heap_of two_pages 0x500000))
    [(0x500000, 0x1000, True), (0x300000, 0x1000, True)]" using two_pages_blist by simp
  note r = kmalloc_returns_block [OF this two_pages_apart _ _ two_pages_fit(1)]
  have "(100 :: u64) \<noteq> 0" "unat (100 :: u64) + 128 < 2 ^ 64" "(0x500018 :: u64) \<noteq> 0" by simp_all
  from r [OF this] show ?thesis by blast
qed

section \<open>The initial heap\<close>

text \<open>The pages that \<open>n\<close> calls of the page allocator return, in order, up to the first failure.\<close>

primrec pool_pops :: "nat \<Rightarrow> pools \<Rightarrow> u64 list" where
  "pool_pops 0 f = []"
| "pool_pops (Suc n) f =
     (let (p, g) = pool_alloc f in if p = 0 then [] else p # pool_pops n g)"

lemma blist_append_one:
  assumes "blist h p xs" and "a \<noteq> 0" and "a \<notin> fst ` set xs"
    and "hb_size (h a) = n" and "(hb_free (h a) \<noteq> 0) = f" and "hb_next (h a) = 0" and "xs \<noteq> []"
  shows "\<exists>cur. last_block h p = Some cur \<and> cur \<in> fst ` set xs \<and>
               blist (h(cur := (h cur)\<lparr>hb_next := a\<rparr>)) p (xs @ [(a, n, f)])"
  using assms(1,3,7)
proof (induction xs arbitrary: p)
  case (Cons x xs)
  obtain b m g where x: "x = (b, m, g)" by (cases x)
  have p: "p = b" "b \<noteq> 0" "b \<noteq> a" using Cons.prems x by auto
  show ?case
  proof (cases xs)
    case Nil
    with Cons.prems x assms p show ?thesis by (auto simp: last_block.simps)
  next
    case (Cons y ys)
    have "blist h (hb_next (h b)) xs" "a \<notin> fst ` set xs" "xs \<noteq> []"
      using Cons Cons.prems x by auto
    from Cons.IH [OF this] obtain cur
      where cur: "last_block h (hb_next (h b)) = Some cur" "cur \<in> fst ` set xs"
        "blist (h(cur := (h cur)\<lparr>hb_next := a\<rparr>)) (hb_next (h b)) (xs @ [(a, n, f)])" by blast
    have "hb_next (h b) \<noteq> 0" using Cons Cons.prems x by (cases y) auto
    then have "last_block h p = Some cur" using cur(1) p by (simp add: last_block.simps [of h b])
    moreover have "cur \<noteq> b" using cur(2) Cons.prems x blist_hd_notin [of h p b m g xs] by auto
    ultimately show ?thesis using cur p Cons.prems x by (intro exI [of _ cur]) (simp add: fun_upd_def)
  qed
qed simp

lemma heap_add_pages_appends:
  assumes "blist (hblk s) (heap_root s) xs" and "a \<noteq> 0" and "a \<notin> fst ` set xs"
  shows "\<exists>s'. heap_add_pages a s = Some s' \<and>
              blist (hblk s') (heap_root s') (xs @ [(a, 0x1000, True)]) \<and>
              phys.truncate s' = phys.truncate s"
proof -
  define h where "h = (hblk s)(a := \<lparr>hb_magic = HEAP_MAGIC, hb_size = 0x1000, hb_next = 0, hb_free = 1\<rparr>)"
  have bl: "blist h (heap_root s) xs" using assms(1,3) by (subst blist_frame) (auto simp: h_def)
  show ?thesis
  proof (cases "xs = []")
    case True
    with assms show ?thesis by (simp add: heap_add_pages_def phys.defs Let_def)
  next
    case False
    then have "heap_root s \<noteq> 0" using assms(1) by (cases xs) auto
    then show ?thesis
      using blist_append_one [OF bl assms(2,3) _ _ _ False, of "0x1000" True]
      by (auto simp: heap_add_pages_def h_def [symmetric] Let_def phys.defs simp del: blist_Cons)
         (auto simp: h_def)
  qed
qed

lemma pmm_rep_truncate: "phys.truncate s' = phys.truncate s \<Longrightarrow> pmm_rep s' f = pmm_rep s f"
  by (auto simp: phys.defs pmm_rep_def all_zones)

lemma pmm_inv_truncate: "phys.truncate s' = phys.truncate s \<Longrightarrow> pmm_inv s' = pmm_inv s"
  using pmm_rep_truncate [of s' s] by (auto simp: phys.defs pmm_inv_def)

lemma kmalloc_init_loop_pages:
  assumes "pmm_inv s" and "pmm_rep s f" and "blist (hblk s) (heap_root s) xs"
    and "fst ` set xs \<inter> pool_pages f = {}"
  shows "\<exists>s'. kmalloc_init_loop n s = Some s' \<and> pmm_inv s' \<and>
     blist (hblk s') (heap_root s') (xs @ map (\<lambda>p. (p, 0x1000, True)) (pool_pops n f))"
  using assms
proof (induction n arbitrary: s f xs)
  case (Suc n)
  obtain p s1 where a: "pmm_alloc s = Some (p, s1)" using pmm.alloc_returns Suc.prems(1) by blast
  note r = pmm_alloc_rep [OF Suc.prems(1) a Suc.prems(2)]
  have m: "hblk s1 = hblk s" "heap_root s1 = heap_root s"
    using pmm_alloc_frame [OF a] by (cases s1; cases s; simp)+
  obtain g where g: "pool_alloc f = (p, g)" using r by (metis prod.collapse)
  show ?case
  proof (cases "p = 0")
    case True
    with a m r g Suc.prems show ?thesis by simp
  next
    case False
    have pg: "p \<in> pool_pages f" "pool_pages g = pool_pages f - {p}"
      using pool_alloc_pages [OF Suc.prems(2)] g False by auto
    then have "p \<notin> fst ` set xs" using Suc.prems(4) by blast
    with False Suc.prems(3) m obtain s2 where s2: "heap_add_pages p s1 = Some s2"
      "blist (hblk s2) (heap_root s2) (xs @ [(p, 0x1000, True)])" "phys.truncate s2 = phys.truncate s1"
      using heap_add_pages_appends [of s1 xs p] by auto
    have "pmm_inv s2" "pmm_rep s2 g" 
      using r g pmm_inv_truncate [OF s2(3)] pmm_rep_truncate [OF s2(3)] by auto
    moreover have "fst ` set (xs @ [(p, 0x1000, True)]) \<inter> pool_pages g = {}"
      using pg Suc.prems(4) by auto
    ultimately obtain s3 where "kmalloc_init_loop n s2 = Some s3" "pmm_inv s3"
      "blist (hblk s3) (heap_root s3) ((xs @ [(p, 0x1000, True)]) @ map (\<lambda>p. (p, 0x1000, True)) (pool_pops n g))"
      using Suc.IH [OF _ _ s2(2)] by blast
    with a s2 False g show ?thesis by simp
  qed
qed simp

text \<open>
  \<^verbatim>\<open>kmalloc_init\<close> on an empty heap returns, and the heap is then the list of the
  first 64 pages (or of all, when there are fewer) in the order in which the page allocator hands
  them out, each one free block of 4096 bytes.
\<close>

lemma kmalloc_init_pages:
  assumes "pmm_rep s f" and "\<not> pmm_lock s" and "heap_root s = 0"
  shows "\<exists>s'. kmalloc_init s = Some s' \<and> pmm_inv s' \<and>
     blist (hblk s') (heap_root s') (map (\<lambda>p. (p, 0x1000, True)) (pool_pops 64 f))"
  using kmalloc_init_loop_pages [of s f "[]" 64] assms by (auto simp: kmalloc_init_def pmm_inv_def)

definition boot_heap :: kheap where
  "boot_heap = phys.extend pmm_two_pages \<lparr>hblk = (\<lambda>_. \<lparr>hb_magic = 0, hb_size = 0, hb_next = 0, hb_free = 0\<rparr>),
                                          heap_root = 0\<rparr>"

lemma boot_heap_init:
  "pmm_rep boot_heap (\<lambda>z. if z = DMA then [0x500000, 0x300000] else [])" "\<not> pmm_lock boot_heap"
  "heap_root boot_heap = 0"
proof -
  have "phys.truncate boot_heap = pmm_two_pages" by (simp add: boot_heap_def phys.defs)
  then have "phys.truncate boot_heap = phys.truncate pmm_two_pages" by (simp add: phys.defs)
  from pmm_rep_truncate [OF this] pmm_two_pages_rep
  show "pmm_rep boot_heap (\<lambda>z. if z = DMA then [0x500000, 0x300000] else [])" by blast
  show "\<not> pmm_lock boot_heap"
    using pmm_two_pages_inv by (simp add: boot_heap_def phys.defs pmm_inv_def)
qed (simp add: boot_heap_def phys.defs)

lemma boot_heap_pops:
  "pool_pops 64 (\<lambda>z. if z = DMA then [0x500000, 0x300000] else []) = [0x500000, 0x300000]"
proof -
  have "pool_pops (Suc (Suc (Suc n))) (\<lambda>z. if z = DMA then [0x500000, 0x300000] else []) =
      [0x500000, 0x300000]" for n
    by (simp add: pool_alloc_def pool_take_def)
  from this [of 61] show ?thesis by simp
qed

text \<open>
  \<^verbatim>\<open>heap_coalesce\<close> merges neighbours of the list without checking that they are
  neighbours in memory, and the page allocator hands out pages in descending order.  On a machine
  whose free pages are \<open>0x500000\<close> and \<open>0x300000\<close>, the first \<^verbatim>\<open>kmalloc(5000)\<close> after \<^verbatim>\<open>kmalloc_init\<close>
  returns a block of 5024 bytes at \<open>0x500000\<close>: its bytes from \<open>0x501000\<close> on are in no page the heap
  was ever given.
\<close>

lemma kmalloc_block_outside_heap:
  "\<exists>s s' xs. kmalloc_init boot_heap = Some s \<and> kmalloc 5000 s = Some (0x500018, s') \<and>
     blist (hblk s') (heap_root s') ((0x500000, 5024, False) # xs) \<and>
     0x501000 \<notin> pmm_avail boot_heap"
proof -
  obtain s where s: "kmalloc_init boot_heap = Some s"
    "blist (hblk s) (heap_root s) [(0x500000, 0x1000, True), (0x300000, 0x1000, True)]"
    using kmalloc_init_loop_pages [OF _ boot_heap_init(1), of "[]" 64] boot_heap_init
    by (auto simp: kmalloc_init_def pmm_inv_def boot_heap_pops simp del: blist_Cons)
  have "(5000 :: u64) \<noteq> 0" "unat (5000 :: u64) + 128 < 2 ^ 64" "(0x500018 :: u64) \<noteq> 0" by simp_all
  from kmalloc_serves [OF s(2) two_pages_apart this(1,2) two_pages_fit(2) this(3)]
  obtain s' where "kmalloc 5000 s = Some (0x500018, s')"
    "blist (hblk s') (heap_root s') [(0x500000, 5024, False), (0x5013A0, 3168, True)]" by blast
  moreover have "pmm_avail boot_heap = {0x500000, 0x300000}"
    using pmm_avail_rep [OF boot_heap_init(1)] by (simp add: pool_pages_def)
  then have "0x501000 \<notin> pmm_avail boot_heap" by simp
  ultimately show ?thesis using s(1) by blast
qed

text \<open>
  A size within 40 bytes of \<open>2 ^ 64\<close> wraps: the rounded size is 0, every free block
  is large enough for it, and the split makes the block its own successor, so that the next walk
  over the heap that does not stop there never ends.
\<close>

lemma kmalloc_wrap_cycle:
  assumes "blist (hblk s) (heap_root s) [(a, n, True)]" and "40 \<le> n" and "page_aligned a"
  shows "\<exists>s'. kmalloc (- 30) s = Some (a + HDR, s') \<and> heap_root s' = a \<and> hb_next (hblk s' a) = a"
proof -
  have k: "block_needed (- 30) = 0" by (simp add: block_needed_def HDR_def HEAP_ALIGN_def Let_def)
  have "unat (40 :: u32) \<le> unat n" using assms(2) by (simp only: word_le_nat_alt)
  then have "HDR + 16 \<le> ucast n" by (simp add: word_le_nat_alt unat_ucast_32_64 HDR_def)
  moreover have "unat (a + HDR) = unat a + 24"
    using page_aligned_max [OF assms(3)] by (simp add: unat_add_nowrap HDR_def)
  then have "a + HDR \<noteq> 0" by (auto simp: unat_eq_0 [symmetric])
  moreover have "heap_coalesce s = Some s" using assms(1) by (auto simp: heap_coalesce_def coalesce_loop.simps)
  ultimately show ?thesis using assms
    by (auto simp: kmalloc_def k alloc_scan.simps take_block_def Let_def)
qed

theorem kmalloc_wrap_cycle_witness:
  "\<exists>s'. kmalloc (- 30) (heap_of (two_pages(0x500000 := \<lparr>hb_magic = HEAP_MAGIC, hb_size = 0x1000,
     hb_next = 0, hb_free = 1\<rparr>)) 0x500000) = Some (0x500000 + HDR, s') \<and> heap_root s' = 0x500000 \<and>
     hb_next (hblk s' 0x500000) = 0x500000"
  by (rule kmalloc_wrap_cycle [of _ _ "0x1000"]) (simp_all add: page_aligned_def page_off_def)

section \<open>Freeing\<close>

definition set_free :: "u64 \<Rightarrow> blk list \<Rightarrow> blk list" where
  "set_free a = map (\<lambda>(b, m, g). (b, m, g \<or> b = a))"

lemma blist_set_free:
  "blist h p xs \<Longrightarrow> blist (h(a := (h a)\<lparr>hb_free := 1\<rparr>)) p (set_free a xs)"
proof (induction xs arbitrary: p)
  case (Cons x xs)
  then show ?case by (cases x) (auto simp: set_free_def)
qed (simp add: set_free_def)

text \<open>
  What the last loop of \<^verbatim>\<open>kfree\<close> gives back, on lists of merged blocks: a free block of one page at the end of the
  list goes altogether, and a free block of two or more pages keeps the first page and what does not fill
  a page; the page behind that is given back.
\<close>

fun trim_free :: "blk list \<Rightarrow> blk list \<times> u64 list" where
  "trim_free [] = ([], [])"
| "trim_free ((b, m, g) # ys) =
     (if g \<and> m = 0x1000 \<and> ys = [] then ([], [b])
      else case trim_free ys of (zs, ps) \<Rightarrow>
        if g \<and> 0x2000 \<le> m then let k = 0x1000 + m mod 0x1000 in ((b, k, g) # zs, (b + ucast k) # ps)
        else ((b, m, g) # zs, ps))"

text \<open>Pages given back to the page allocator one after the other.\<close>

fun release :: "u64 list \<Rightarrow> 'a phys_scheme \<Rightarrow> 'a phys_scheme option" where
  "release [] s = Some s"
| "release (p # ps) s = do { s \<leftarrow> pmm_free p s; release ps s }"

lemma pmm_free_heap:
  fixes s :: "'a kheap_scheme"
  assumes "\<not> pmm_lock s"
  obtains t where "pmm_free p s = Some t" "hblk t = hblk s" "heap_root t = heap_root s" "\<not> pmm_lock t"
    "pmm_free p (phys.truncate s) = Some (phys.truncate t)"
proof
  let ?t = "if p = 0 then s else spin_unlock_irqrestore (page_free_internal p (s\<lparr>pmm_lock := True\<rparr>))"
  show "pmm_free p s = Some ?t" using assms by (simp add: pmm_free_def spin_lock_irqsave_def)
  show "hblk ?t = hblk s" "heap_root ?t = heap_root s" "\<not> pmm_lock ?t"
    using assms by (simp_all add: spin_unlock_irqrestore_def page_free_internal_def Let_def)
  show "pmm_free p (phys.truncate s) = Some (phys.truncate ?t)"
    using assms by (simp add: pmm_free_def spin_lock_irqsave_def spin_unlock_irqrestore_def page_free_internal_def Let_def phys.defs)
qed

lemma blist_mem: "blist h p xs \<Longrightarrow> (a, n, f) \<in> set xs \<Longrightarrow> hb_size (h a) = n \<and> (hb_free (h a) \<noteq> 0) = f"
  unfolding blist_def by (drule conjunct2, drule (1) bspec) simp

lemma blist_resize:
  assumes "blist h p (xs @ (b, m, g) # ys)"
  shows "blist (h(b := (h b)\<lparr>hb_size := k\<rparr>)) p (xs @ (b, k, g) # ys)"
proof -
  have "(\<lambda>a. hb_next ((h(b := (h b)\<lparr>hb_size := k\<rparr>)) a)) = (\<lambda>a. hb_next (h a))" by auto
  then have "page_list (\<lambda>a. hb_next ((h(b := (h b)\<lparr>hb_size := k\<rparr>)) a)) p (map fst (xs @ (b, k, g) # ys))"
    using assms unfolding blist_def by simp
  moreover have "hb_size (h' a) = n \<and> (hb_free (h' a) \<noteq> 0) = f"
    if "h' = h(b := (h b)\<lparr>hb_size := k\<rparr>)" "(a, n, f) \<in> set (xs @ (b, k, g) # ys)" for a n f h'
  proof (cases "a = b")
    case True
    have "b \<notin> fst ` set (xs @ ys)" using blist_distinct [OF assms] by auto
    then have "(n, f) = (k, g)" using that(2) True by force
    then show ?thesis using blist_mem [OF assms, of b m g] that(1) True by simp
  next
    case False
    then show ?thesis using blist_mem [OF assms, of a n f] that by simp
  qed
  ultimately show ?thesis unfolding blist_def by blast
qed

lemma find_prev_last:
  assumes "blist h p (xs @ [(b, m, g)])" and "xs \<noteq> []"
  shows "\<exists>a. find_prev h p b = Some a \<and> a \<in> fst ` set xs \<and> blist (h(a := (h a)\<lparr>hb_next := 0\<rparr>)) p xs"
  using assms
proof (induction xs arbitrary: p)
  case (Cons x xs)
  obtain c n f where x: "x = (c, n, f)" by (cases x)
  have p: "p = c" "c \<noteq> 0" "c \<noteq> b" using Cons.prems(1) x blist_distinct [OF Cons.prems(1)] by auto
  show ?case
  proof (cases xs)
    case Nil
    then show ?thesis using Cons.prems(1) x p by (auto simp: find_prev.simps)
  next
    case (Cons y ys)
    have bl: "blist h (hb_next (h c)) (xs @ [(b, m, g)])" "xs \<noteq> []" using Cons Cons.prems x by auto
    from Cons.IH [OF this] obtain a where a: "find_prev h (hb_next (h c)) b = Some a" "a \<in> fst ` set xs"
      "blist (h(a := (h a)\<lparr>hb_next := 0\<rparr>)) (hb_next (h c)) xs" by blast
    have d: "c \<notin> fst ` set xs" "fst y \<noteq> b" using blist_distinct [OF Cons.prems(1)] Cons x by (auto simp: image_iff)
    have "hb_next (h c) = fst y" using bl(1) Cons by (cases y) simp
    with d(2) have "find_prev h p b = Some a" using a(1) p by (subst find_prev.simps) simp
    moreover have "a \<noteq> c" using a(2) d(1) by auto
    ultimately show ?thesis using a p Cons.prems(1) x by (intro exI [of _ a]) (simp add: fun_upd_def)
  qed
qed simp

lemma unlink_last_drops:
  assumes "blist (hblk s) (heap_root s) (xs @ [(b, m, g)])"
  shows "\<exists>t. unlink_last b s = Some t \<and> blist (hblk t) (heap_root t) xs \<and> phys.truncate t = phys.truncate s \<and> pmm_lock t = pmm_lock s"
proof (cases "xs = []")
  case True
  then show ?thesis using assms by (simp add: unlink_last_def phys.defs)
next
  case False
  from find_prev_last [OF assms False] obtain a where a: "find_prev (hblk s) (heap_root s) b = Some a" "a \<in> fst ` set xs"
    "blist ((hblk s)(a := (hblk s a)\<lparr>hb_next := 0\<rparr>)) (heap_root s) xs" by blast
  have "b \<noteq> heap_root s" using False assms blist_distinct [OF assms] by (cases xs) auto
  moreover have "a \<noteq> 0" using a(2) assms by (force simp: blist_def dest!: page_list_nonnull)
  ultimately show ?thesis using a by (simp add: unlink_last_def phys.defs)
qed

text \<open>The size kept of a large block, as the code computes it.\<close>

lemma trim_size:
  fixes m :: u32
  assumes "0x2000 \<le> m"
  shows "0x1000 \<le> page_base (ucast (m - 0x1000))"
    and "ucast (ucast m - page_base (ucast (m - 0x1000)) :: u64) = 0x1000 + m mod 0x1000"
proof -
  have n: "unat (0x2000 :: u32) \<le> unat m" using assms by (simp only: word_le_nat_alt)
  have d: "unat (m - 0x1000) = unat m - 4096" using n by (simp add: unat_sub word_le_nat_alt)
  have pb: "unat (page_base (ucast (m - 0x1000))) = (unat m - 4096) - (unat m - 4096) mod 4096"
    by (simp add: unat_page_base unat_ucast_32_64 d)
  have "1 \<le> (unat m - 4096) div 4096" using n by simp
  then show "0x1000 \<le> page_base (ucast (m - 0x1000))"
    by (simp add: word_le_nat_alt pb minus_mod_eq_div_mult)
  have mm: "(unat m - 4096) mod 4096 = unat m mod 4096" using n by (simp add: mod_if [of "unat m"])
  have lt: "unat m < 2 ^ 32" by (rule order_less_le_trans [OF unsigned_less]) simp
  have "unat (ucast m - page_base (ucast (m - 0x1000)) :: u64) = 4096 + unat m mod 4096"
    using n by (subst unat_sub) (simp_all add: word_le_nat_alt pb unat_ucast_32_64 mm)
  moreover have "unat (0x1000 + m mod 0x1000) = 4096 + unat m mod 4096"
    by (subst unat_add_lem [THEN iffD1]) (simp_all add: unat_mod)
  ultimately show "ucast (ucast m - page_base (ucast (m - 0x1000)) :: u64) = 0x1000 + m mod 0x1000"
    by (simp add: word_unat_eq_iff unsigned_ucast_eq take_bit_eq_mod)
qed

lemma kfree_trim_loop_trims:
  assumes "blist (hblk s) (heap_root s) (pre @ ys)" and "blist (hblk s) cur ys" and "no_free_pair ys" and "\<not> pmm_lock s"
    and "trim_free ys = (zs, ps)"
  shows "\<exists>s'. kfree_trim_loop cur s = Some s' \<and> blist (hblk s') (heap_root s') (pre @ zs) \<and>
    release ps (phys.truncate s) = Some (phys.truncate s')"
  using assms
proof (induction ys arbitrary: pre cur s zs ps)
  case Nil
  then show ?case by (simp add: kfree_trim_loop.simps)
next
  case (Cons y ys)
  obtain b m g where y: "y = (b, m, g)" by (cases y)
  have b: "cur = b" "b \<noteq> 0" "hb_size (hblk s b) = m" "(hb_free (hblk s b) \<noteq> 0) = g" "blist (hblk s) (hb_next (hblk s b)) ys"
    using Cons.prems(2) y by auto
  have nx: "hb_next (hblk s b) = 0 \<longleftrightarrow> ys = []" "ys \<noteq> [] \<Longrightarrow> g \<Longrightarrow> hb_free (hblk s (hb_next (hblk s b))) = 0"
    using b(5) Cons.prems(3) y by (cases ys; auto)+
  have np: "no_free_pair ys" using Cons.prems(3) y by (cases ys) auto
  obtain zs' ps' where t: "trim_free ys = (zs', ps')" by (cases "trim_free ys")
  consider "g \<and> m = 0x1000 \<and> ys = []" | "\<not> (g \<and> m = 0x1000 \<and> ys = [])" "g" "0x2000 \<le> m" | "\<not> (g \<and> m = 0x1000 \<and> ys = [])" "\<not> (g \<and> 0x2000 \<le> m)"
    by blast
  then show ?case
  proof cases
    case 1
    obtain u where u: "unlink_last b s = Some u" "blist (hblk u) (heap_root u) pre" "phys.truncate u = phys.truncate s" "\<not> pmm_lock u"
      using unlink_last_drops [of s pre b m g] Cons.prems(1,4) 1 y by auto
    obtain v where "pmm_free b u = Some v" "hblk v = hblk u" "heap_root v = heap_root u" "pmm_free b (phys.truncate u) = Some (phys.truncate v)"
      using pmm_free_heap [OF u(4)] by metis
    then show ?thesis using 1 u b nx(1) y Cons.prems(5) by (subst kfree_trim_loop.simps) auto
  next
    case 2
    let ?k = "0x1000 + m mod 0x1000" and ?u = "s\<lparr>hblk := (hblk s)(b := (hblk s b)\<lparr>hb_size := 0x1000 + m mod 0x1000\<rparr>)\<rparr>"
    obtain v where v: "pmm_free (b + ucast ?k) ?u = Some v" "hblk v = hblk ?u" "heap_root v = heap_root s" "\<not> pmm_lock v"
      "pmm_free (b + ucast ?k) (phys.truncate s) = Some (phys.truncate v)"
      using pmm_free_heap [of ?u "b + ucast ?k"] Cons.prems(4) by (auto simp: phys.defs)
    have "blist (hblk v) (heap_root v) ((pre @ [(b, ?k, g)]) @ ys)"
      using blist_resize [of "hblk s" "heap_root s" pre b m g ys ?k] Cons.prems(1) y v by simp
    moreover have "blist (hblk v) (hb_next (hblk s b)) ys"
      using b(5) blist_hd_notin [of "hblk s" cur b m g ys] Cons.prems(2) y v(2) by (subst blist_frame) auto
    ultimately obtain w where w: "kfree_trim_loop (hb_next (hblk s b)) v = Some w"
      "blist (hblk w) (heap_root w) ((pre @ [(b, ?k, g)]) @ zs')" "release ps' (phys.truncate v) = Some (phys.truncate w)"
      using Cons.IH [OF _ _ np v(4) t] by blast
    have "m \<noteq> 0x1000" using 2(3) by (auto simp: word_le_nat_alt)
    then have "kfree_trim_loop cur s = kfree_trim_loop (hb_next (hblk s b)) v"
      using 2 b nx(1) nx(2) [OF _ 2(2)] v trim_size [OF 2(3)] by (subst kfree_trim_loop.simps) (auto simp: Let_def)
    then show ?thesis using w v 2 t y Cons.prems(5) by (auto simp: Let_def)
  next
    case 3
    obtain w where w: "kfree_trim_loop (hb_next (hblk s b)) s = Some w"
      "blist (hblk w) (heap_root w) ((pre @ [y]) @ zs')" "release ps' (phys.truncate s) = Some (phys.truncate w)"
      using Cons.IH [OF _ b(5) np Cons.prems(4) t, of "pre @ [y]"] Cons.prems(1) by auto
    have "kfree_trim_loop cur s = kfree_trim_loop (hb_next (hblk s b)) s"
      using 3 b nx by (subst kfree_trim_loop.simps) (auto simp: Let_def)
    then show ?thesis using w 3 t y Cons.prems(5) by auto
  qed
qed

lemma kfree_trims:
  assumes "blist (hblk s) (heap_root s) xs" and "ptr \<noteq> 0"
    and "hb_magic (hblk s (ptr - HDR)) = HEAP_MAGIC" and "\<not> pmm_lock s"
    and "trim_free (merge_free (set_free (ptr - HDR) xs)) = (ys, ps)"
  shows "\<exists>s'. kfree ptr s = Some s' \<and> blist (hblk s') (heap_root s') ys \<and>
              release ps (phys.truncate s) = Some (phys.truncate s')"
proof -
  note bl = blist_set_free [OF assms(1), of "ptr - HDR"]
  from coalesce_loop_merges [OF bl] obtain h'
    where h': "coalesce_loop ((hblk s)(ptr - HDR := (hblk s (ptr - HDR))\<lparr>hb_free := 1\<rparr>)) (heap_root s) = Some h'"
      "blist h' (heap_root s) (merge_free (set_free (ptr - HDR) xs))" by blast
  then have "\<exists>s'. kfree_trim_loop (heap_root s) (s\<lparr>hblk := h'\<rparr>) = Some s' \<and> blist (hblk s') (heap_root s') ([] @ ys) \<and>
      release ps (phys.truncate (s\<lparr>hblk := h'\<rparr>)) = Some (phys.truncate s')"
    using assms(4,5) by (intro kfree_trim_loop_trims) (auto simp: merge_free_no_pair)
  with h' assms(2,3) kfree_merge_loop_coalesces [OF bl] show ?thesis
    by (simp add: kfree_def Let_def phys.defs)
qed





lemma pmm_free_hblk:
  assumes "pmm_free p s = Some t"
  shows "hblk t = hblk s"
proof -
  have "phys.more t = phys.more s"
    using assms by (auto simp: pmm_free_def spin_lock_irqsave_def spin_unlock_irqrestore_def
        page_free_internal_frame split: if_splits)
  then show ?thesis by (cases t; cases s) simp
qed

text \<open>
  When the freed block is the whole heap and spans at least two pages, \<^verbatim>\<open>kfree\<close>
  shrinks it to less than two pages but gives back only the one page that starts where the block
  now ends: the other pages cut off are in neither the heap nor the page allocator.
\<close>

lemma kfree_trim_one_page:
  assumes "blist (hblk s) (heap_root s) [(a, n, f)]" and "a + HDR \<noteq> 0"
    and "hb_magic (hblk s a) = HEAP_MAGIC" and "0x2000 \<le> n"
  defines "m \<equiv> ucast (ucast n - page_base (ucast (n - 0x1000)) :: u64) :: u32"
  shows "kfree (a + HDR) s =
     pmm_free (a + ucast m) (s\<lparr>hblk := (hblk s)(a := (hblk s a)\<lparr>hb_free := 1, hb_size := m\<rparr>)\<rparr>)"
proof -
  have n: "unat (0x2000 :: u32) \<le> unat n" using assms(4) by (simp only: word_le_nat_alt)
  have d: "unat (n - 0x1000) = unat n - 4096" using n by (simp add: unat_sub word_le_nat_alt)
  have "1 \<le> (unat n - 4096) div 4096" using n by simp
  then have ex: "0x1000 \<le> page_base (ucast (n - 0x1000))"
    by (simp add: word_le_nat_alt unat_page_base unat_ucast_32_64 d minus_mod_eq_div_mult)
  have n1: "n \<noteq> 0x1000" using n by auto
  define s1 where "s1 = s\<lparr>hblk := (hblk s)(a := (hblk s a)\<lparr>hb_free := 1\<rparr>)\<rparr>"
  define s2 where "s2 = s1\<lparr>hblk := (hblk s1)(a := (hblk s1 a)\<lparr>hb_size := m\<rparr>)\<rparr>"
  have a: "a \<noteq> 0" "heap_root s = a" "hb_size (hblk s a) = n" "hb_next (hblk s a) = 0"
    using assms(1) by auto
  have "kfree (a + HDR) s = kfree_trim_loop a s1"
    using a assms(2,3) by (simp add: kfree_def kfree_merge_loop.simps s1_def Let_def)
  also have "\<dots> = pmm_free (a + ucast m) s2 \<bind> (\<lambda>t. kfree_trim_loop (hb_next (hblk t a)) t)"
    using a n1 assms(4) ex
    by (subst kfree_trim_loop.simps) (simp add: s1_def s2_def m_def Let_def)
  also have "\<dots> = pmm_free (a + ucast m) s2"
  proof (cases "pmm_free (a + ucast m) s2")
    case (Some t)
    then have "hb_next (hblk t a) = 0"
      using a by (simp add: pmm_free_hblk [OF Some] s2_def s1_def)
    with Some show ?thesis by (simp add: kfree_trim_loop.simps)
  qed simp
  finally show ?thesis by (simp add: s1_def s2_def)
qed

theorem kfree_trim_one_page_witness:
  "kfree 0x500018 (heap_of (two_pages(0x500000 := \<lparr>hb_magic = HEAP_MAGIC, hb_size = 0x3000,
      hb_next = 0, hb_free = 0\<rparr>)) 0x500000) =
   pmm_free 0x501000 (heap_of (two_pages(0x500000 := \<lparr>hb_magic = HEAP_MAGIC, hb_size = 0x1000,
      hb_next = 0, hb_free = 1\<rparr>)) 0x500000)"
  using kfree_trim_one_page [of "heap_of (two_pages(0x500000 := \<lparr>hb_magic = HEAP_MAGIC, hb_size = 0x3000,
      hb_next = 0, hb_free = 0\<rparr>)) 0x500000" "0x500000" "0x3000" False]
  by (simp add: HDR_def page_base_def heap_of_def phys.defs)

section \<open>What a client of the heap may rely on\<close>

text \<open>
  The page the page allocator hands out next, and a heap that is ready to serve: its list is well formed, merging runs of free
  blocks leaves no overlap, and the same holds when the next page has been appended.
\<close>

definition next_page :: "'a phys_scheme \<Rightarrow> u64" where
  "next_page s = (if normal_free_list s \<noteq> 0 then normal_free_list s else if dma32_free_list s \<noteq> 0 then dma32_free_list s
     else dma_free_list s)"

definition heap_ready :: "blk list \<Rightarrow> 'a kheap_scheme \<Rightarrow> bool" where
  "heap_ready xs h \<longleftrightarrow>
     blist (hblk h) (heap_root h) xs \<and> heap_disjoint (merge_free xs) \<and> \<not> pmm_lock h \<and>
     (next_page h \<noteq> 0 \<longrightarrow> next_page h \<notin> fst ` set (merge_free xs) \<and>
        heap_disjoint (merge_free (merge_free xs @ [(next_page h, 0x1000, True)])))"

lemma pmm_alloc_heap:
  fixes s :: "'a kheap_scheme"
  assumes "\<not> pmm_lock s"
  obtains t where "pmm_alloc s = Some (next_page s, t)" "hblk t = hblk s" "heap_root t = heap_root s" "\<not> pmm_lock t"
proof
  let ?t = "spin_unlock_irqrestore (snd (alloc_any (s\<lparr>pmm_lock := True\<rparr>)))"
  show "pmm_alloc s = Some (next_page s, ?t)" using assms
    by (simp add: pmm_alloc_def spin_lock_irqsave_def alloc_any_def zone_alloc_def next_page_def Let_def)
  show "hblk ?t = hblk s" "heap_root ?t = heap_root s" "\<not> pmm_lock ?t"
    by (simp_all add: spin_unlock_irqrestore_def alloc_any_def zone_alloc_def Let_def)
qed

lemma merge_free_taken: "(a, n, False) \<in> set xs \<Longrightarrow> (a, n, False) \<in> set (merge_free xs)"
  by (induction xs rule: merge_free.induct) auto

lemma first_fit_payload:
  "fst (first_fit k xs) \<noteq> 0 \<Longrightarrow> \<exists>a n. (a, n, True) \<in> set xs \<and> fst (first_fit k xs) = a + HDR \<and> k \<le> ucast n"
  by (induction k xs rule: first_fit.induct) (auto split: if_splits)

lemma heap_disjoint_apart:
  assumes "heap_disjoint xs" and "(a, n, f) \<in> set xs" and "(b, m, g) \<in> set xs" and "(a, n, f) \<noteq> (b, m, g)"
  shows "unat a + unat n < 2 ^ 64 \<and> (unat a + unat n \<le> unat b \<or> unat b + unat m \<le> unat a)"
  using assms
proof (induction xs)
  case (Cons x xs)
  obtain c l e where x: "x = (c, l, e)" by (cases x)
  have ap: "unat c + unat l \<le> unat b' \<or> unat b' + unat m' \<le> unat c" if "(b', m', g') \<in> set xs" for b' m' g'
    using Cons.prems(1) x that by auto
  have c: "unat c + unat l < 2 ^ 64" "heap_disjoint xs" using Cons.prems(1) x by simp_all
  have lt: "unat b' + unat m' < 2 ^ 64" if "(b', m', g') \<in> set xs" for b' m' g'
    using c(2) that by (induction xs rule: heap_disjoint.induct) auto
  show ?case using Cons ap [of a n f] ap [of b m g] lt [of a n f] c x by auto
qed simp

text \<open>
  A request on such a heap returns.  The blocks that were searched do not overlap, those in use are among them, and the
  result is NULL or the payload of one that was free and is large enough.
\<close>

lemma kmalloc_ready:
  assumes "heap_ready xs h" and "n \<noteq> 0" and "unat n + 128 < 2 ^ 64"
  shows "\<exists>p h' ys zs. kmalloc n h = Some (p, h') \<and> blist (hblk h') (heap_root h') ys \<and> \<not> pmm_lock h' \<and> heap_disjoint zs \<and>
    (\<forall>b m. (b, m, False) \<in> set xs \<longrightarrow> (b, m, False) \<in> set zs) \<and>
    (p \<noteq> 0 \<longrightarrow> (\<exists>a m. (a, m, True) \<in> set zs \<and> p = a + HDR \<and> unat n + 24 \<le> unat m))"
proof -
  let ?k = "block_needed n"
  note k = block_needed_ok [OF assms(3,2)]
  note H = assms(1) [unfolded heap_ready_def]
  have pay: "\<exists>a m. (a, m, True) \<in> set zs \<and> p = a + HDR \<and> unat n + 24 \<le> unat m" if "p = fst (first_fit ?k zs)" "p \<noteq> 0" for p zs
    using first_fit_payload [of ?k zs] that k(2) by (fastforce simp: word_le_nat_alt unat_ucast_32_64)
  obtain h1 where h1: "coalesce_loop (hblk h) (heap_root h) = Some h1" "blist h1 (heap_root h) (merge_free xs)"
    using coalesce_loop_merges H by blast
  obtain h2 where h2: "alloc_scan h1 (heap_root h) ?k = Some (fst (first_fit ?k (merge_free xs)), h2)"
      "blist h2 (heap_root h) (snd (first_fit ?k (merge_free xs)))"
    using alloc_scan_first_fit [OF k(1) h1(2)] H by blast
  show ?thesis
  proof (cases "fst (first_fit ?k (merge_free xs)) = 0")
    case False
    then have "kmalloc n h = Some (fst (first_fit ?k (merge_free xs)), h\<lparr>hblk := h2\<rparr>)"
      using h1 h2 assms(2) by (simp add: kmalloc_def heap_coalesce_def Let_def)
    with False H h2(2) pay merge_free_taken show ?thesis
      by (intro exI [of _ "fst (first_fit ?k (merge_free xs))"] exI [of _ "h\<lparr>hblk := h2\<rparr>"]
          exI [of _ "snd (first_fit ?k (merge_free xs))"] exI [of _ "merge_free xs"]) auto
  next
    case True
    let ?g = "next_page h" and ?h = "h\<lparr>hblk := h1\<rparr>"
    have "next_page ?h = ?g" "\<not> pmm_lock ?h" using H by (simp_all add: next_page_def)
    then obtain t where t: "pmm_alloc ?h = Some (?g, t)" "hblk t = h1" "heap_root t = heap_root h" "\<not> pmm_lock t"
      using pmm_alloc_heap [of ?h] by (metis kheap.select_convs(1,2) kheap.update_convs(1) kheap.surjective)
    show ?thesis
    proof (cases "?g = 0")
      case True
      then have "kmalloc n h = Some (0, t)"
        using \<open>fst (first_fit ?k (merge_free xs)) = 0\<close> h1 h2 assms(2) t by (simp add: kmalloc_def heap_coalesce_def Let_def)
      then show ?thesis using t h1(2) H merge_free_taken
        by (intro exI [of _ 0] exI [of _ t] exI [of _ "merge_free xs"]) auto
    next
      case False
      define zs where "zs = merge_free (merge_free xs @ [(?g, 0x1000, True)])"
      obtain u where u: "heap_add_pages ?g t = Some u" "blist (hblk u) (heap_root u) (merge_free xs @ [(?g, 0x1000, True)])"
          "phys.truncate u = phys.truncate t"
        using heap_add_pages_appends [of t "merge_free xs" ?g] False H h1(2) t(2,3) by auto
      obtain h3 where h3: "coalesce_loop (hblk u) (heap_root u) = Some h3" "blist h3 (heap_root u) zs"
        using coalesce_loop_merges [OF u(2)] by (auto simp: zs_def)
      have dis: "heap_disjoint zs" using False H by (simp add: zs_def)
      obtain h4 where h4: "alloc_scan h3 (heap_root u) ?k = Some (fst (first_fit ?k zs), h4)"
          "blist h4 (heap_root u) (snd (first_fit ?k zs))"
        using alloc_scan_first_fit [OF k(1) h3(2) dis] by blast
      have "kmalloc n h = Some (fst (first_fit ?k zs), u\<lparr>hblk := h4\<rparr>)"
        using \<open>fst (first_fit ?k (merge_free xs)) = 0\<close> False h1 h2 assms(2) t(1) u(1) h3(1) h4(1)
        by (simp add: kmalloc_def heap_coalesce_def Let_def)
      moreover have "pmm_lock u = pmm_lock t" using u(3) by (simp add: phys.defs)
      moreover have "(b, m, False) \<in> set zs" if "(b, m, False) \<in> set xs" for b m
        using merge_free_taken [OF that] by (auto simp: zs_def intro!: merge_free_taken)
      ultimately show ?thesis using t(4) dis h4(2) pay
        by (intro exI [of _ "fst (first_fit ?k zs)"] exI [of _ "u\<lparr>hblk := h4\<rparr>"] exI [of _ "snd (first_fit ?k zs)"] exI [of _ zs]) auto
    qed
  qed
qed

lemma kfree_returns:
  assumes "blist (hblk h) (heap_root h) xs" and "\<not> pmm_lock h"
  shows "\<exists>h'. kfree p h = Some h'"
proof (cases "p = 0 \<or> hb_magic (hblk h (p - HDR)) \<noteq> HEAP_MAGIC")
  case True
  then show ?thesis by (auto simp: kfree_def Let_def)
next
  case False
  obtain ys ps where "trim_free (merge_free (set_free (p - HDR) xs)) = (ys, ps)" by fastforce
  then show ?thesis using kfree_trims [OF assms(1) _ _ assms(2)] False by blast
qed

end
