(* ===== verification/Libc_Mem.thy ===== *)
theory Libc_Mem
  imports Prelude
begin

text \<open>
  The memory functions of the C library, \<^verbatim>\<open>libc/src/string/mem.c\<close>, over a memory of bytes that
  both the byte and the eight-byte accesses of the source go through.  All pointer arithmetic is
  modulo \<open>2 ^ 64\<close>.
\<close>

section \<open>Byte memory\<close>

type_synonym mem8 = "u64 \<Rightarrow> u8"

definition byte_of :: "u64 \<Rightarrow> nat \<Rightarrow> u8" where
  "byte_of v i = ucast (drop_bit (8 * i) v)"

definition load64 :: "mem8 \<Rightarrow> u64 \<Rightarrow> u64" where
  "load64 m a =
     ucast (m a) OR push_bit 8 (ucast (m (a + 1))) OR push_bit 16 (ucast (m (a + 2))) OR
     push_bit 24 (ucast (m (a + 3))) OR push_bit 32 (ucast (m (a + 4))) OR
     push_bit 40 (ucast (m (a + 5))) OR push_bit 48 (ucast (m (a + 6))) OR
     push_bit 56 (ucast (m (a + 7)))"

definition store64 :: "mem8 \<Rightarrow> u64 \<Rightarrow> u64 \<Rightarrow> mem8" where
  "store64 m a v = (\<lambda>x. if x - a < 8 then byte_of v (unat (x - a)) else m x)"

text \<open>The bytes from \<open>a\<close> on, \<open>n\<close> of them (the range may wrap).\<close>

definition in_range :: "u64 \<Rightarrow> u64 \<Rightarrow> u64 \<Rightarrow> bool" where
  "in_range a n x \<longleftrightarrow> x - a < n"

section \<open>Operations\<close>

definition set_bytes :: "u64 \<Rightarrow> u8 \<Rightarrow> u64 \<Rightarrow> mem8 \<Rightarrow> mem8" where
  "set_bytes d c n m = fold (\<lambda>i m. m(d + of_nat i := c)) [0..<unat n] m"

function memset_words :: "u64 \<Rightarrow> u64 \<Rightarrow> u64 \<Rightarrow> mem8 \<Rightarrow> u64 \<times> u64 \<times> mem8" where
  "memset_words dp v n m =
     (if 8 \<le> n then memset_words (dp + 8) v (n - 8) (store64 m dp v) else (dp, n, m))"
  by pat_completeness auto
termination
  by (relation "measure (\<lambda>(dp, v, n, m). unat n)")
     (auto simp: unat_sub word_le_nat_alt)

text \<open>The byte replicated over a word by shifting.\<close>

definition memset_pattern :: "int \<Rightarrow> u64" where
  "memset_pattern c =
     (let v = ucast (word_of_int c :: u8);
          v = v OR push_bit 8 v;
          v = v OR push_bit 16 v
      in v OR push_bit 32 v)"

definition memset :: "u64 \<Rightarrow> int \<Rightarrow> u64 \<Rightarrow> mem8 \<Rightarrow> u64 \<times> mem8" where
  "memset dst c n m =
     (let d = dst;
          r = d AND 7;
          v = memset_pattern c;
          (d, n, m) =
            (if r \<noteq> 0 then
               let part = (if n < 8 - r then n else 8 - r)
               in (d + part, n - part, set_bytes d (word_of_int c) part m)
             else (d, n, m));
          (dp, n, m) = memset_words d v n m
      in (dst, set_bytes dp (word_of_int c) n m))"

function memcpy_words :: "u64 \<Rightarrow> u64 \<Rightarrow> u64 \<Rightarrow> mem8 \<Rightarrow> u64 \<times> u64 \<times> u64 \<times> mem8" where
  "memcpy_words ld ls n m =
     (if 8 \<le> n then memcpy_words (ld + 8) (ls + 8) (n - 8) (store64 m ld (load64 m ls))
      else (ld, ls, n, m))"
  by pat_completeness auto
termination
  by (relation "measure (\<lambda>(ld, ls, n, m). unat n)")
     (auto simp: unat_sub word_le_nat_alt)

text \<open>\<^verbatim>\<open>for (i = 0; i < n; i++) d[i] = s[i];\<close>\<close>

definition copy_up :: "u64 \<Rightarrow> u64 \<Rightarrow> u64 \<Rightarrow> mem8 \<Rightarrow> mem8" where
  "copy_up d s n m = fold (\<lambda>i m. m(d + of_nat i := m (s + of_nat i))) [0..<unat n] m"

text \<open>\<^verbatim>\<open>for (i = n; i > 0; i--) d[i - 1] = s[i - 1];\<close>\<close>

definition copy_down :: "u64 \<Rightarrow> u64 \<Rightarrow> u64 \<Rightarrow> mem8 \<Rightarrow> mem8" where
  "copy_down d s n m = fold (\<lambda>i m. m(d + of_nat i := m (s + of_nat i))) (rev [0..<unat n]) m"

definition memcpy :: "u64 \<Rightarrow> u64 \<Rightarrow> u64 \<Rightarrow> mem8 \<Rightarrow> u64 \<times> mem8" where
  "memcpy dst src n m =
     (let (d, s, n, m) =
            (if dst AND 7 = 0 \<and> src AND 7 = 0 then memcpy_words dst src n m else (dst, src, n, m))
      in (dst, copy_up d s n m))"

definition memmove :: "u64 \<Rightarrow> u64 \<Rightarrow> u64 \<Rightarrow> mem8 \<Rightarrow> u64 \<times> mem8" where
  "memmove dst src n m =
     (dst, if dst < src then copy_up dst src n m else copy_down dst src n m)"

fun memcmp_loop :: "u64 \<Rightarrow> u64 \<Rightarrow> nat list \<Rightarrow> mem8 \<Rightarrow> int" where
  "memcmp_loop a b [] m = 0"
| "memcmp_loop a b (i # is) m =
     (if m (a + of_nat i) \<noteq> m (b + of_nat i)
      then uint (m (a + of_nat i)) - uint (m (b + of_nat i))
      else memcmp_loop a b is m)"

definition memcmp :: "u64 \<Rightarrow> u64 \<Rightarrow> u64 \<Rightarrow> mem8 \<Rightarrow> int" where
  "memcmp a b n m = memcmp_loop a b [0..<unat n] m"

fun memchr_loop :: "u64 \<Rightarrow> u8 \<Rightarrow> nat list \<Rightarrow> mem8 \<Rightarrow> u64" where
  "memchr_loop s c [] m = 0"
| "memchr_loop s c (i # is) m = (if m (s + of_nat i) = c then s + of_nat i else memchr_loop s c is m)"

definition memchr :: "u64 \<Rightarrow> int \<Rightarrow> u64 \<Rightarrow> mem8 \<Rightarrow> u64" where
  "memchr s c n m = memchr_loop s (word_of_int c) [0..<unat n] m"

declare memset_words.simps [simp del] memcpy_words.simps [simp del]

section \<open>Word accesses as byte accesses\<close>

lemma less8_cases: "i < 8 \<Longrightarrow> i = 0 \<or> i = 1 \<or> i = 2 \<or> i = 3 \<or> i = 4 \<or> i = 5 \<or> i = 6 \<or> i = (7 :: nat)"
  by auto

lemma bit_u8: "8 \<le> n \<Longrightarrow> \<not> bit (x :: u8) n"
  using bit_imp_le_length [of x n] by auto

lemma byte_of_load64:
  assumes "i < 8"
  shows "byte_of (load64 m a) i = m (a + of_nat i)"
proof -
  have "bit (byte_of (load64 m a) i) k = bit (m (a + of_nat i)) k" if "k < 8" for k
    using less8_cases [OF assms] that
    by (elim disjE) (auto simp: byte_of_def load64_def bit_simps bit_u8)
  then show ?thesis by (intro bit_word_eqI) simp
qed

lemma byte_of_pattern:
  assumes "i < 8"
  shows "byte_of (memset_pattern c) i = word_of_int c"
proof -
  have "bit (byte_of (memset_pattern c) i) k = bit (word_of_int c :: u8) k" if "k < 8" for k
    using less8_cases [OF assms(1)] that
    by (elim disjE) (auto simp: byte_of_def memset_pattern_def Let_def bit_simps bit_u8)
  then show ?thesis by (intro bit_word_eqI) simp
qed

text \<open>Storing a word is storing its eight bytes.\<close>

lemma store64_rep:
  assumes "\<And>i. i < 8 \<Longrightarrow> byte_of v i = c"
  shows "store64 m a v = (\<lambda>x. if in_range a 8 x then c else m x)"
proof -
  have "unat (x - a) < 8" if "x - a < 8" for x using that by (simp add: word_less_nat_alt)
  with assms show ?thesis by (auto simp: store64_def in_range_def)
qed

lemma store64_load64: "store64 m a (load64 m b) = (\<lambda>x. if in_range a 8 x then m (b + (x - a)) else m x)"
proof -
  have "unat (x - a) < 8" if "x - a < 8" for x using that by (simp add: word_less_nat_alt)
  then show ?thesis by (auto simp: store64_def in_range_def byte_of_load64)
qed

text \<open>A range of \<open>k + n\<close> bytes is one of \<open>k\<close> bytes followed by one of \<open>n\<close>.\<close>

lemma range_split:
  assumes "k \<le> n"
  shows "in_range a n x \<longleftrightarrow> in_range a k x \<or> in_range (a + k) (n - k) x"
proof -
  define y where "y = x - a"
  have yk: "x - (a + k) = y - k" by (simp add: y_def)
  have "y < n \<longleftrightarrow> y < k \<or> y - k < n - k"
  proof (cases "y < k")
    case True
    with assms show ?thesis by auto
  next
    case False
    then have "k \<le> y" by simp
    then show ?thesis using assms by (auto simp: word_less_nat_alt word_le_nat_alt unat_sub)
  qed
  then show ?thesis by (simp add: in_range_def yk) (simp add: y_def)
qed

lemma range_disjoint:
  assumes "k \<le> n" and "in_range a k x"
  shows "\<not> in_range (a + k) (n - k) x"
proof -
  define y where "y = x - a"
  have "y < k" using assms(2) by (simp add: in_range_def y_def)
  then have "n - k \<le> y - k" using assms(1) unat_less_pow64 [of n]
    by (simp add: word_less_nat_alt word_le_nat_alt unat_sub unat_sub_if')
  then show ?thesis by (simp add: in_range_def y_def algebra_simps)
qed

lemma set_bytes_range: "set_bytes d c n m = (\<lambda>x. if in_range d n x then c else m x)"
proof -
  have "fold (\<lambda>i m. m(d + of_nat i := c)) [0..<k] m = (\<lambda>x. if unat (x - d) < k then c else m x)"
    if "k \<le> unat n" for k
    using that
  proof (induction k)
    case (Suc k)
    have "unat (x - d) = k \<longleftrightarrow> x = d + of_nat k" for x
    proof -
      have "k < 2 ^ 64" using Suc.prems unat_less_pow64 [of n] by linarith
      then have "unat (x - d) = k \<longleftrightarrow> x - d = of_nat k"
        by (auto simp: word_unat_eq_iff unat_of_nat64)
      then show ?thesis by (simp add: algebra_simps)
    qed
    with Suc show ?case by (auto simp: less_Suc_eq fun_eq_iff)
  qed simp
  from this [of "unat n"] show ?thesis by (simp add: set_bytes_def in_range_def word_less_nat_alt)
qed

lemma memset_words_range:
  assumes "\<And>i. i < 8 \<Longrightarrow> byte_of v i = c" and "memset_words d v n m = (dp, n', m')"
  shows "(\<lambda>x. if in_range dp n' x then c else m' x) = (\<lambda>x. if in_range d n x then c else m x)"
  using assms
proof (induction d v n m rule: memset_words.induct)
  case (1 d v n m)
  show ?case
  proof (cases "8 \<le> n")
    case True
    have "(\<lambda>x. if in_range dp n' x then c else m' x) =
        (\<lambda>x. if in_range (d + 8) (n - 8) x then c else store64 m d v x)"
      using 1 True by (simp add: memset_words.simps [of d])
    also have "\<dots> = (\<lambda>x. if in_range d n x then c else m x)"
      by (auto simp: store64_rep [OF 1(2)] range_split [OF True])
    finally show ?thesis .
  next
    case False
    then have "dp = d" "n' = n" "m' = m" using 1(3) by (simp_all add: memset_words.simps [of d])
    then show ?thesis by (intro ext) simp
  qed
qed

text \<open>
  \<^verbatim>\<open>memset\<close>, which writes bytes up to an 8-byte boundary, then whole words, then
  the remaining bytes, sets exactly the \<open>n\<close> bytes from \<open>dst\<close> on to \<^verbatim>\<open>(unsigned char)c\<close> and leaves
  every other byte as it was.
\<close>

lemma memset_sets_range:
  "memset dst c n m = (dst, \<lambda>x. if x - dst < n then word_of_int c else m x)"
proof -
  define b where "b = (word_of_int c :: u8)"
  define v where "v = memset_pattern c"
  define r where "r = dst AND 7"
  define part where "part = (if r = 0 then 0 else if n < 8 - r then n else 8 - r)"
  have v: "byte_of v i = b" if "i < 8" for i
    using byte_of_pattern [OF that, of c] by (simp add: v_def b_def)
  have le: "part \<le> n" by (auto simp: part_def)
  obtain dp n' m' where w: "memset_words (dst + part) v (n - part) (set_bytes dst b part m) = (dp, n', m')"
    by (cases "memset_words (dst + part) v (n - part) (set_bytes dst b part m)")
  have z: "set_bytes dst b 0 m = m" by (simp add: set_bytes_def)
  have "memset dst c n m = (dst, set_bytes dp b n' m')"
    using w z by (auto simp: memset_def Let_def b_def [symmetric] v_def [symmetric] r_def [symmetric]
        part_def split: if_splits)
  also have "set_bytes dp b n' m' = (\<lambda>x. if in_range (dst + part) (n - part) x then b else set_bytes dst b part m x)"
    using memset_words_range [OF v w] by (simp add: set_bytes_range)
  also have "\<dots> = (\<lambda>x. if in_range dst n x then b else m x)"
    by (auto simp: set_bytes_range range_split [OF le])
  finally show ?thesis unfolding in_range_def b_def .
qed

section \<open>Copying\<close>

definition ranges_apart :: "u64 \<Rightarrow> u64 \<Rightarrow> u64 \<Rightarrow> bool" where
  "ranges_apart d s n \<longleftrightarrow> (\<forall>x. \<not> (in_range d n x \<and> in_range s n x))"

definition copied :: "u64 \<Rightarrow> u64 \<Rightarrow> u64 \<Rightarrow> mem8 \<Rightarrow> mem8" where
  "copied d s n m = (\<lambda>x. if in_range d n x then m (s + (x - d)) else m x)"

lemma of_nat_diff_iff:
  assumes "k < 2 ^ 64"
  shows "unat (x - d :: u64) = k \<longleftrightarrow> x = d + of_nat k"
proof -
  have "unat (x - d) = k \<longleftrightarrow> x - d = of_nat k"
    using assms by (auto simp: word_unat_eq_iff unat_of_nat64)
  then show ?thesis by (simp add: algebra_simps)
qed

text \<open>
  Copying upwards works when no source byte that is still to be read has been overwritten, copying
  downwards under the mirrored condition.
\<close>

lemma copy_up_copies:
  assumes "\<And>i j. i < j \<Longrightarrow> j < unat n \<Longrightarrow> d + of_nat i \<noteq> s + of_nat j"
  shows "copy_up d s n m = copied d s n m"
proof -
  have "fold (\<lambda>i m. m(d + of_nat i := m (s + of_nat i))) [0..<k] m =
      (\<lambda>x. if unat (x - d) < k then m (s + (x - d)) else m x)" if "k \<le> unat n" for k
    using that
  proof (induction k)
    case (Suc k)
    have k: "k < 2 ^ 64" using Suc.prems unat_less_pow64 [of n] by linarith
    have "\<not> unat (s + of_nat k - d) < k"
    proof
      define i where "i = unat (s + of_nat k - d)"
      assume "unat (s + of_nat k - d) < k"
      then have "i < k" by (simp add: i_def)
      then have "s + of_nat k = d + of_nat i" using of_nat_diff_iff [of i "s + of_nat k" d] k by (simp add: i_def)
      with assms [of i k] \<open>i < k\<close> Suc.prems show False by simp
    qed
    with Suc of_nat_diff_iff [OF k] show ?case by (auto simp: less_Suc_eq fun_eq_iff)
  qed simp
  from this [of "unat n"] show ?thesis
    by (simp add: copy_up_def copied_def in_range_def word_less_nat_alt)
qed

lemma copy_down_copies:
  assumes "\<And>i j. i < j \<Longrightarrow> j < unat n \<Longrightarrow> d + of_nat j \<noteq> s + of_nat i"
  shows "copy_down d s n m = copied d s n m"
proof -
  have "fold (\<lambda>i m. m(d + of_nat i := m (s + of_nat i))) (rev [0..<k]) m =
      (\<lambda>x. if unat (x - d) < k then m (s + (x - d)) else m x)" if "k \<le> unat n" for k m
    using that
  proof (induction k arbitrary: m)
    case (Suc k)
    have k: "k < 2 ^ 64" using Suc.prems unat_less_pow64 [of n] by linarith
    have "s + of_nat i \<noteq> d + of_nat k" if "i < k" for i using assms [of i k] that Suc.prems by auto
    then have "s + (x - d) \<noteq> d + of_nat k" if "unat (x - d) < k" for x
      using that \<open>\<And>i. i < k \<Longrightarrow> s + of_nat i \<noteq> d + of_nat k\<close> [of "unat (x - d)"] by simp
    with Suc of_nat_diff_iff [OF k] show ?case by (auto simp: less_Suc_eq fun_eq_iff)
  qed simp
  from this [of "unat n"] show ?thesis
    by (simp add: copy_down_def copied_def in_range_def word_less_nat_alt)
qed

lemma memcpy_words_copies:
  assumes "ranges_apart d s n" and "memcpy_words d s n m = (d', s', n', m')"
  shows "ranges_apart d' s' n' \<and> copied d' s' n' m' = copied d s n m"
  using assms
proof (induction d s n m rule: memcpy_words.induct)
  case (1 d s n m)
  show ?case
  proof (cases "8 \<le> n")
    case True
    have ap: "ranges_apart (d + 8) (s + 8) (n - 8)"
      using 1(2) by (auto simp: ranges_apart_def range_split [OF True])
    define m1 where "m1 = store64 m d (load64 m s)"
    have "copied (d + 8) (s + 8) (n - 8) m1 x = copied d s n m x" for x
    proof -
      have "\<not> in_range d 8 (s + 8 + (x - (d + 8)))" if x: "in_range (d + 8) (n - 8) x"
      proof -
        have "in_range (s + 8) (n - 8) (s + 8 + (x - (d + 8)))"
          using x by (simp only: in_range_def add_diff_cancel_left')
        then have "in_range s n (s + 8 + (x - (d + 8)))" by (simp add: range_split [OF True])
        with 1(2) show ?thesis by (auto simp: ranges_apart_def range_split [OF True])
      qed
      then show ?thesis
        by (auto simp: copied_def m1_def store64_load64 range_split [OF True] algebra_simps)
    qed
    with 1 True ap show ?thesis by (auto simp: memcpy_words.simps [of d] m1_def [symmetric])
  next
    case False
    then have "d' = d" "s' = s" "n' = n" "m' = m" using 1(3) by (simp_all add: memcpy_words.simps [of d])
    then show ?thesis using 1(2) by simp
  qed
qed

lemma ranges_apart_nth:
  assumes "ranges_apart d s n" and "i < unat n" and "j < unat n"
  shows "d + of_nat i \<noteq> s + of_nat j"
proof
  assume e: "d + of_nat i = s + of_nat j"
  have "unat (of_nat k :: u64) = k" if "k < unat n" for k
    using that unat_less_pow64 [of n] by (intro unat_of_nat64) linarith
  with assms(2,3) have "in_range d n (d + of_nat i)" "in_range s n (s + of_nat j)"
    by (simp_all add: in_range_def word_less_nat_alt)
  with assms(1) e show False by (auto simp: ranges_apart_def)
qed

text \<open>
  C24 (functional): \<^verbatim>\<open>memcpy\<close>, by words when both pointers are 8-byte aligned and by bytes otherwise,
  copies exactly the \<open>n\<close> source bytes when the two ranges do not overlap; \<^verbatim>\<open>memmove\<close> does so for any
  two ranges that do not run past the end of the address space, overlapping or not.
\<close>

theorem memcpy_memmove_copy:
  "(ranges_apart d s n \<longrightarrow> memcpy d s n m = (d, \<lambda>x. if x - d < n then m (s + (x - d)) else m x)) \<and>
   (unat d + unat n \<le> 2 ^ 64 \<and> unat s + unat n \<le> 2 ^ 64 \<longrightarrow>
    memmove d s n m = (d, \<lambda>x. if x - d < n then m (s + (x - d)) else m x))"
proof (intro conjI impI)
  have c: "copied d s n m = (\<lambda>x. if x - d < n then m (s + (x - d)) else m x)"
    by (simp add: copied_def in_range_def)
  show "memcpy d s n m = (d, \<lambda>x. if x - d < n then m (s + (x - d)) else m x)" if ap: "ranges_apart d s n"
  proof -
    have up: "ranges_apart d' s' n' \<Longrightarrow> copy_up d' s' n' m' = copied d' s' n' m'" for d' s' n' m'
      by (rule copy_up_copies) (use ranges_apart_nth in auto)
    obtain d' s' n' m' where w: "memcpy_words d s n m = (d', s', n', m')" by (cases "memcpy_words d s n m")
    from memcpy_words_copies [OF ap w] up [of d' s' n' m'] up [OF ap] w
    show ?thesis by (simp add: memcpy_def c [symmetric])
  qed
  show "memmove d s n m = (d, \<lambda>x. if x - d < n then m (s + (x - d)) else m x)"
    if nw: "unat d + unat n \<le> 2 ^ 64 \<and> unat s + unat n \<le> 2 ^ 64"
  proof -
    have u: "unat (a + of_nat k) = unat a + k" if "k < unat n" "unat a + unat n \<le> 2 ^ 64" for a :: u64 and k
    proof -
      have "unat (of_nat k :: u64) = k" using that unat_less_pow64 [of n] by (intro unat_of_nat64) linarith
      with that show ?thesis by (simp add: unat_add_nowrap)
    qed
    have "copy_up d s n m = copied d s n m" if "d < s"
      using u nw that by (intro copy_up_copies) (auto simp: word_unat_eq_iff word_less_nat_alt)
    moreover have "copy_down d s n m = copied d s n m" if "\<not> d < s"
      using u nw that by (intro copy_down_copies) (auto simp: word_unat_eq_iff word_less_nat_alt)
    ultimately show ?thesis by (simp add: memmove_def c [symmetric])
  qed
qed

theorem memcpy_memmove_copy_witness:
  "snd (memcpy 0x1003 0x2000 5 (\<lambda>x. ucast x)) 0x1005 = 2 \<and>
   snd (memmove 0x1002 0x1000 8 (\<lambda>x. ucast x)) 0x1009 = 7"
proof -
  have "ranges_apart 0x1003 0x2000 5"
  proof -
    have "False" if a: "x - 0x1003 < 5" "x - 0x2000 < 5" for x :: u64
    proof -
      have "x - 0x2000 = 0 \<or> x - 0x2000 = 1 \<or> x - 0x2000 = 2 \<or> x - 0x2000 = 3 \<or> x - 0x2000 = 4"
        using a(2) unfolding word_less_nat_alt word_unat_eq_iff [of "x - 0x2000"] by simp linarith
      then have "x \<in> {0x2000, 0x2001, 0x2002, 0x2003, 0x2004}" by (auto simp: diff_eq_eq)
      with a(1) show False by auto
    qed
    then show ?thesis by (auto simp: ranges_apart_def in_range_def)
  qed
  then show ?thesis
    using memcpy_memmove_copy [of "0x1003" "0x2000" 5 "\<lambda>x. ucast x"]
      memcpy_memmove_copy [of "0x1002" "0x1000" 8 "\<lambda>x. ucast x"] by simp
qed

end
