(* ===== verification/Libc_String.thy ===== *)
theory Libc_String
  imports Libc_Mem
begin

text \<open>
  The string functions of the C library, \<^verbatim>\<open>libc/src/string/str.c\<close>, over the byte memory of
  \<open>Libc_Mem\<close>.  A scan for a NUL that is not there never ends, so the functions that scan return an
  option; \<open>cstr m p xs\<close> says that a NUL-terminated string with the bytes \<open>xs\<close> is at \<open>p\<close>.  A result
  pointer of 0 is NULL.
\<close>

section \<open>Operations\<close>

partial_function (option) strlen_loop :: "mem8 \<Rightarrow> u64 \<Rightarrow> u64 \<Rightarrow> u64 option" where
  "strlen_loop m s n = (if m (s + n) \<noteq> 0 then strlen_loop m s (n + 1) else Some n)"

definition strlen :: "mem8 \<Rightarrow> u64 \<Rightarrow> u64 option" where
  "strlen m s = strlen_loop m s 0"

partial_function (option) strcmp :: "mem8 \<Rightarrow> u64 \<Rightarrow> u64 \<Rightarrow> int option" where
  "strcmp m a b =
     (if m a \<noteq> 0 \<and> m b \<noteq> 0 \<and> m a = m b then strcmp m (a + 1) (b + 1)
      else Some (uint (m a) - uint (m b)))"

fun strncmp_loop :: "mem8 \<Rightarrow> u64 \<Rightarrow> u64 \<Rightarrow> nat list \<Rightarrow> int" where
  "strncmp_loop m a b [] = 0"
| "strncmp_loop m a b (i # is) =
     (if m (a + of_nat i) \<noteq> m (b + of_nat i) then uint (m (a + of_nat i)) - uint (m (b + of_nat i))
      else if m (a + of_nat i) = 0 then 0
      else strncmp_loop m a b is)"

definition strncmp :: "mem8 \<Rightarrow> u64 \<Rightarrow> u64 \<Rightarrow> u64 \<Rightarrow> int" where
  "strncmp m a b n = strncmp_loop m a b [0..<unat n]"

partial_function (option) strcpy_loop :: "mem8 \<Rightarrow> u64 \<Rightarrow> u64 \<Rightarrow> mem8 option" where
  "strcpy_loop m d s =
     (if m s \<noteq> 0 then strcpy_loop (m(d := m s)) (d + 1) (s + 1) else Some (m(d := m s)))"

definition strcpy :: "mem8 \<Rightarrow> u64 \<Rightarrow> u64 \<Rightarrow> (u64 \<times> mem8) option" where
  "strcpy m dst src = do { m \<leftarrow> strcpy_loop m dst src; Some (dst, m) }"

function copy_n_loop :: "u64 \<Rightarrow> u64 \<Rightarrow> u64 \<Rightarrow> u64 \<Rightarrow> mem8 \<Rightarrow> u64 \<times> mem8" where
  "copy_n_loop dst src i n m =
     (if i < n \<and> m (src + i) \<noteq> 0 then copy_n_loop dst src (i + 1) n (m(dst + i := m (src + i)))
      else (i, m))"
  by pat_completeness auto
termination
  by (relation "measure (\<lambda>(dst, src, i, n, m). unat n - unat i)")
     (auto simp: unat_Suc_lt word_less_nat_alt)

declare copy_n_loop.simps [simp del]

definition strncpy :: "mem8 \<Rightarrow> u64 \<Rightarrow> u64 \<Rightarrow> u64 \<Rightarrow> u64 \<times> mem8" where
  "strncpy m dst src n =
     (let (i, m) = copy_n_loop dst src 0 n m
      in (dst, fold (\<lambda>j m. m(dst + of_nat j := 0)) [unat i..<unat n] m))"

definition strcat :: "mem8 \<Rightarrow> u64 \<Rightarrow> u64 \<Rightarrow> (u64 \<times> mem8) option" where
  "strcat m dst src =
     do { n \<leftarrow> strlen m dst; (_, m) \<leftarrow> strcpy m (dst + n) src; Some (dst, m) }"

definition strncat :: "mem8 \<Rightarrow> u64 \<Rightarrow> u64 \<Rightarrow> u64 \<Rightarrow> (u64 \<times> mem8) option" where
  "strncat m dst src n =
     do { k \<leftarrow> strlen m dst;
          let d = dst + k;
          let (i, m) = copy_n_loop d src 0 n m;
          Some (dst, m(d + i := 0)) }"

partial_function (option) strchr :: "mem8 \<Rightarrow> u64 \<Rightarrow> int \<Rightarrow> u64 option" where
  "strchr m s c =
     (if m s \<noteq> 0 then if m s = word_of_int c then Some s else strchr m (s + 1) c
      else if c = 0 then Some s else Some 0)"

partial_function (option) strrchr_loop :: "mem8 \<Rightarrow> u64 \<Rightarrow> int \<Rightarrow> u64 \<Rightarrow> u64 option" where
  "strrchr_loop m s c found =
     (if m s \<noteq> 0 then strrchr_loop m (s + 1) c (if m s = word_of_int c then s else found)
      else if c = 0 then Some s else Some found)"

definition strrchr :: "mem8 \<Rightarrow> u64 \<Rightarrow> int \<Rightarrow> u64 option" where
  "strrchr m s c = strrchr_loop m s c 0"

text \<open>The inner loop of \<^verbatim>\<open>strstr\<close>; the result is \<^verbatim>\<open>!*n\<close> after it.\<close>

partial_function (option) strstr_match :: "mem8 \<Rightarrow> u64 \<Rightarrow> u64 \<Rightarrow> bool option" where
  "strstr_match m h n =
     (if m h \<noteq> 0 \<and> m n \<noteq> 0 \<and> m h = m n then strstr_match m (h + 1) (n + 1) else Some (m n = 0))"

partial_function (option) strstr_loop :: "mem8 \<Rightarrow> u64 \<Rightarrow> u64 \<Rightarrow> u64 option" where
  "strstr_loop m haystack needle =
     (if m haystack \<noteq> 0
      then do { found \<leftarrow> strstr_match m haystack needle;
                if found then Some haystack else strstr_loop m (haystack + 1) needle }
      else Some 0)"

definition strstr :: "mem8 \<Rightarrow> u64 \<Rightarrow> u64 \<Rightarrow> u64 option" where
  "strstr m haystack needle = (if m needle = 0 then Some haystack else strstr_loop m haystack needle)"

text \<open>The inner loops over a set of characters, \<^verbatim>\<open>while (*d) { if (c == *d) ...; d++; }\<close>.\<close>

partial_function (option) in_chars :: "mem8 \<Rightarrow> u8 \<Rightarrow> u64 \<Rightarrow> bool option" where
  "in_chars m c d = (if m d \<noteq> 0 then if c = m d then Some True else in_chars m c (d + 1) else Some False)"

partial_function (option) strtok_skip :: "mem8 \<Rightarrow> u64 \<Rightarrow> u64 \<Rightarrow> u64 option" where
  "strtok_skip m str delim =
     (if m str \<noteq> 0
      then do { is_delim \<leftarrow> in_chars m (m str) delim;
                if \<not> is_delim then Some str else strtok_skip m (str + 1) delim }
      else Some str)"

text \<open>The second loop: the address of the delimiter that ends the token, if there is one.\<close>

partial_function (option) strtok_scan :: "mem8 \<Rightarrow> u64 \<Rightarrow> u64 \<Rightarrow> u64 option option" where
  "strtok_scan m str delim =
     (if m str \<noteq> 0
      then do { is_delim \<leftarrow> in_chars m (m str) delim;
                if is_delim then Some (Some str) else strtok_scan m (str + 1) delim }
      else Some None)"

definition strtok_r :: "mem8 \<Rightarrow> u64 \<Rightarrow> u64 \<Rightarrow> u64 \<Rightarrow> (u64 \<times> u64 \<times> mem8) option" where
  "strtok_r m str delim saveptr =
     (let str = (if str = 0 then saveptr else str) in
      if str = 0 then Some (0, saveptr, m)
      else do {
        start \<leftarrow> strtok_skip m str delim;
        if m start = 0 then Some (0, 0, m)
        else do {
          e \<leftarrow> strtok_scan m start delim;
          (case e of Some e \<Rightarrow> Some (start, e + 1, m(e := 0)) | None \<Rightarrow> Some (start, 0, m)) } })"

text \<open>\<^verbatim>\<open>strtok\<close> keeps the pointer in a static variable, the second component of the result.\<close>

definition strtok :: "mem8 \<Rightarrow> u64 \<Rightarrow> u64 \<Rightarrow> u64 \<Rightarrow> (u64 \<times> u64 \<times> mem8) option" where
  "strtok m str delim save = strtok_r m str delim save"

definition to_lower :: "u8 \<Rightarrow> u8" where
  "to_lower c = (if 0x41 \<le> c \<and> c \<le> 0x5A then c + 0x20 else c)"

partial_function (option) strcasecmp :: "mem8 \<Rightarrow> u64 \<Rightarrow> u64 \<Rightarrow> int option" where
  "strcasecmp m a b =
     (if m a \<noteq> 0 \<and> m b \<noteq> 0
      then if to_lower (m a) \<noteq> to_lower (m b) then Some (uint (to_lower (m a)) - uint (to_lower (m b)))
           else strcasecmp m (a + 1) (b + 1)
      else Some (uint (m a) - uint (m b)))"

fun strncasecmp_loop :: "mem8 \<Rightarrow> u64 \<Rightarrow> u64 \<Rightarrow> nat list \<Rightarrow> int" where
  "strncasecmp_loop m a b [] = 0"
| "strncasecmp_loop m a b (i # is) =
     (let x = m (a + of_nat i); y = m (b + of_nat i) in
      if x = 0 \<and> y = 0 then 0
      else if to_lower x \<noteq> to_lower y then uint (to_lower x) - uint (to_lower y)
      else if x = 0 then 0
      else strncasecmp_loop m a b is)"

definition strncasecmp :: "mem8 \<Rightarrow> u64 \<Rightarrow> u64 \<Rightarrow> u64 \<Rightarrow> int" where
  "strncasecmp m a b n = strncasecmp_loop m a b [0..<unat n]"

partial_function (option) strpbrk :: "mem8 \<Rightarrow> u64 \<Rightarrow> u64 \<Rightarrow> u64 option" where
  "strpbrk m s accept =
     (if m s \<noteq> 0
      then do { found \<leftarrow> in_chars m (m s) accept;
                if found then Some s else strpbrk m (s + 1) accept }
      else Some 0)"

partial_function (option) strspn_loop :: "mem8 \<Rightarrow> u64 \<Rightarrow> u64 \<Rightarrow> u64 \<Rightarrow> u64 option" where
  "strspn_loop m s accept n =
     (if m (s + n) \<noteq> 0
      then do { found \<leftarrow> in_chars m (m (s + n)) accept;
                if found then strspn_loop m s accept (n + 1) else Some n }
      else Some n)"

definition strspn :: "mem8 \<Rightarrow> u64 \<Rightarrow> u64 \<Rightarrow> u64 option" where
  "strspn m s accept = strspn_loop m s accept 0"

partial_function (option) strcspn_loop :: "mem8 \<Rightarrow> u64 \<Rightarrow> u64 \<Rightarrow> u64 \<Rightarrow> u64 option" where
  "strcspn_loop m s reject n =
     (if m (s + n) \<noteq> 0
      then do { found \<leftarrow> in_chars m (m (s + n)) reject;
                if found then Some n else strcspn_loop m s reject (n + 1) }
      else Some n)"

definition strcspn :: "mem8 \<Rightarrow> u64 \<Rightarrow> u64 \<Rightarrow> u64 option" where
  "strcspn m s reject = strcspn_loop m s reject 0"

text \<open>The switch of \<^verbatim>\<open>strerror\<close>, with the numbers of \<^verbatim>\<open>libc/include/errno.h\<close>.\<close>

definition strerror_table :: "(int \<times> string) list" where
  "strerror_table =
     [(0, ''Success''),
      (1, ''Operation not permitted''),
      (2, ''No such file or directory''),
      (3, ''No such process''),
      (4, ''Interrupted system call''),
      (5, ''Input/output error''),
      (6, ''No such device or address''),
      (7, ''Argument list too long''),
      (8, ''Exec format error''),
      (9, ''Bad file descriptor''),
      (10, ''No child processes''),
      (11, ''Resource temporarily unavailable''),
      (12, ''Cannot allocate memory''),
      (13, ''Permission denied''),
      (14, ''Bad address''),
      (16, ''Device or resource busy''),
      (17, ''File exists''),
      (18, ''Invalid cross-device link''),
      (19, ''No such device''),
      (20, ''Not a directory''),
      (21, ''Is a directory''),
      (22, ''Invalid argument''),
      (23, ''File table overflow''),
      (24, ''Too many open files''),
      (25, ''Not a tty''),
      (27, ''File too large''),
      (28, ''No space left on device''),
      (29, ''Illegal seek''),
      (30, ''Read-only file system''),
      (32, ''Broken pipe''),
      (33, ''Numerical argument out of domain''),
      (34, ''Numerical result out of range''),
      (38, ''Function not implemented''),
      (40, ''Too many levels of symbolic links'')]"

definition strerror :: "int \<Rightarrow> string" where
  "strerror errnum = (case map_of strerror_table errnum of Some s \<Rightarrow> s | None \<Rightarrow> ''Unknown error'')"

section \<open>Strings in memory\<close>

fun cstr :: "mem8 \<Rightarrow> u64 \<Rightarrow> bytes \<Rightarrow> bool" where
  "cstr m p [] \<longleftrightarrow> m p = 0"
| "cstr m p (x # xs) \<longleftrightarrow> m p = x \<and> x \<noteq> 0 \<and> cstr m (p + 1) xs"

lemma cstr_nz: "cstr m p xs \<Longrightarrow> 0 \<notin> set xs"
  by (induction xs arbitrary: p) auto

lemma cstr_unique: "cstr m p xs \<Longrightarrow> cstr m p ys \<Longrightarrow> xs = ys"
proof (induction xs arbitrary: p ys)
  case Nil
  then show ?case by (cases ys) auto
next
  case (Cons x xs)
  then show ?case by (cases ys) auto
qed

lemma cstr_append: "cstr m p (xs @ ys) \<longleftrightarrow>
    (\<forall>i < length xs. m (p + of_nat i) = xs ! i) \<and> 0 \<notin> set xs \<and> cstr m (p + of_nat (length xs)) ys"
proof (induction xs arbitrary: p)
  case (Cons x xs)
  have "(\<forall>i < Suc (length xs). m (p + of_nat i) = (x # xs) ! i) \<longleftrightarrow>
      m p = x \<and> (\<forall>i < length xs. m (p + 1 + of_nat i) = xs ! i)"
    by (auto simp: less_Suc_eq_0_disj algebra_simps)
  with Cons show ?case by (auto simp: algebra_simps)
qed simp

text \<open>The bytes a string occupies, its NUL included.\<close>

lemma cstr_nth: "cstr m p xs \<longleftrightarrow>
    (\<forall>i < length xs. m (p + of_nat i) = xs ! i) \<and> 0 \<notin> set xs \<and> m (p + of_nat (length xs)) = 0"
  using cstr_append [of m p xs "[]"] by simp

lemma strlen_loop_cstr: "cstr m (s + n) xs \<Longrightarrow> strlen_loop m s n = Some (n + of_nat (length xs))"
proof (induction xs arbitrary: n)
  case Nil
  then show ?case by (simp add: strlen_loop.simps)
next
  case (Cons x xs)
  then have "strlen_loop m s (n + 1) = Some (n + 1 + of_nat (length xs))" by (simp add: algebra_simps)
  with Cons.prems show ?case by (subst strlen_loop.simps) (simp add: algebra_simps)
qed

lemma strlen_cstr: "cstr m s xs \<Longrightarrow> strlen m s = Some (of_nat (length xs))"
  using strlen_loop_cstr [of m s 0 xs] by (simp add: strlen_def)

text \<open>Comparison of strings: the difference of the first bytes that differ, NULs included.\<close>

fun bytes_diff :: "bytes \<Rightarrow> bytes \<Rightarrow> int" where
  "bytes_diff [] [] = 0"
| "bytes_diff [] (y # ys) = - uint y"
| "bytes_diff (x # xs) [] = uint x"
| "bytes_diff (x # xs) (y # ys) = (if x = y then bytes_diff xs ys else uint x - uint y)"

lemma strcmp_diff: "cstr m a xs \<Longrightarrow> cstr m b ys \<Longrightarrow> strcmp m a b = Some (bytes_diff xs ys)"
  by (induction xs ys arbitrary: a b rule: bytes_diff.induct) (auto simp: strcmp.simps)

lemma bytes_diff_sign:
  assumes "0 \<notin> set xs" and "0 \<notin> set ys"
  shows "(bytes_diff xs ys = 0 \<longleftrightarrow> xs = ys) \<and>
         (bytes_diff xs ys < 0 \<longleftrightarrow> (xs, ys) \<in> lexord {(x, y). x < y})"
  using assms
proof (induction xs ys rule: bytes_diff.induct)
  case (2 y ys)
  then have "uint y \<noteq> 0" by (auto simp: uint_0_iff)
  then have "0 < uint y" using uint_ge_0 [of y] by linarith
  then show ?case by simp
next
  case (3 x xs)
  then have "uint x \<noteq> 0" by (auto simp: uint_0_iff)
  then show ?case using uint_ge_0 [of x] by simp
next
  case (4 x xs y ys)
  then show ?case by (auto simp: word_less_def word_uint_eq_iff)
qed simp

text \<open>
  \<^verbatim>\<open>strcmp\<close> on two NUL-terminated strings returns; the result is zero exactly when
  they are equal, and negative exactly when the first precedes the second in the lexicographic
  order of unsigned bytes.
\<close>

lemma strcmp_lexicographic:
  assumes "cstr m a xs" and "cstr m b ys"
  shows "\<exists>r. strcmp m a b = Some r \<and> (r = 0 \<longleftrightarrow> xs = ys) \<and>
             (r < 0 \<longleftrightarrow> (xs, ys) \<in> lexord {(x, y). x < y})"
  using strcmp_diff [OF assms] bytes_diff_sign [of xs ys] cstr_nz [OF assms(1)] cstr_nz [OF assms(2)]
  by simp

definition mem_abc :: mem8 where
  "mem_abc = (\<lambda>_. 0)(0x1000 := 0x61, 0x1001 := 0x62, 0x2000 := 0x61, 0x2001 := 0x63)"

lemma mem_abc_strings: "cstr mem_abc 0x1000 [0x61, 0x62]" "cstr mem_abc 0x2000 [0x61, 0x63]"
  by (simp_all add: mem_abc_def)

section \<open>Copying and appending\<close>

lemma cstr_length: "cstr m p xs \<Longrightarrow> length xs < 2 ^ 64"
proof (rule ccontr)
  assume c: "cstr m p xs" and "\<not> length xs < 2 ^ 64"
  then have len: "2 ^ 64 \<le> length xs" by simp
  define k where "k = length xs mod 2 ^ 64"
  have k: "k < length xs" using len unfolding k_def by (metis mod_less_divisor less_le_trans zero_less_power zero_less_numeral)
  have "(of_nat (length xs) :: u64) = of_nat k"
    by (simp add: k_def word_unat_eq_iff unat_of_nat)
  then have "m (p + of_nat k) = 0" using c by (simp add: cstr_nth)
  moreover have "m (p + of_nat k) = xs ! k" using c k by (simp add: cstr_nth)
  moreover have "xs ! k \<in> set xs" using k by (rule nth_mem)
  ultimately show False using cstr_nz [OF c] by simp
qed

text \<open>The destination does not meet the source, up to the \<open>k\<close>-th byte of either.\<close>

definition apart :: "u64 \<Rightarrow> u64 \<Rightarrow> nat \<Rightarrow> bool" where
  "apart d s k \<longleftrightarrow> (\<forall>i \<le> k. \<forall>j \<le> k. d + of_nat i \<noteq> s + of_nat j)"

lemma apart_outside:
  assumes "apart d s k" and "j \<le> k" and "n \<le> Suc k" and "k < 2 ^ 64"
  shows "\<not> unat (s + of_nat j - d) < n"
proof
  define i where "i = unat (s + of_nat j - d)"
  assume "unat (s + of_nat j - d) < n"
  then have i: "i \<le> k" using assms(3) by (simp add: i_def)
  then have "s + of_nat j = d + of_nat i"
    using of_nat_diff_iff [of i "s + of_nat j" d] assms(4) by (simp add: i_def)
  moreover have "d + of_nat i \<noteq> s + of_nat j" using assms(1,2) i unfolding apart_def by blast
  ultimately show False by simp
qed

lemma copy_prefix:
  assumes "apart d s k" and "n \<le> Suc k" and "k < 2 ^ 64"
  shows "fold (\<lambda>i m. m(d + of_nat i := m (s + of_nat i))) [0..<n] m =
         (\<lambda>x. if unat (x - d) < n then m (s + (x - d)) else m x)"
  using assms(2)
proof (induction n)
  case (Suc n)
  have n: "n < 2 ^ 64" using Suc.prems assms(3) by simp
  have "\<not> unat (s + of_nat n - d) < n"
    using Suc.prems by (intro apart_outside [OF assms(1) _ _ assms(3)]) auto
  with Suc of_nat_diff_iff [OF n] show ?case by (auto simp: less_Suc_eq fun_eq_iff)
qed simp

lemma strcpy_loop_cstr:
  assumes c: "cstr m s xs" and ap: "apart d s (length xs)"
  shows "strcpy_loop m d s = Some (\<lambda>x. if unat (x - d) < Suc (length xs) then m (s + (x - d)) else m x)"
proof -
  define mk where "mk n = fold (\<lambda>i m. m(d + of_nat i := m (s + of_nat i))) [0..<n] m" for n
  have len: "length xs < 2 ^ 64" using cstr_length [OF c] .
  have src: "mk n (s + of_nat n) = m (s + of_nat n)" if "n \<le> length xs" for n
  proof -
    have "\<not> unat (s + of_nat n - d) < n"
      using that by (intro apart_outside [OF ap _ _ len]) auto
    then show ?thesis using copy_prefix [OF ap _ len, of n m] that by (simp add: mk_def)
  qed
  have step: "mk (Suc n) = (mk n)(d + of_nat n := mk n (s + of_nat n))" for n by (simp add: mk_def)
  have "strcpy_loop m d s = strcpy_loop (mk n) (d + of_nat n) (s + of_nat n)" if "n \<le> length xs" for n
    using that
  proof (induction n)
    case 0
    then show ?case by (simp add: mk_def)
  next
    case (Suc n)
    then have "mk n (s + of_nat n) \<noteq> 0" using src [of n] c by (auto simp: cstr_nth in_set_conv_nth)
    then have "strcpy_loop (mk n) (d + of_nat n) (s + of_nat n) =
        strcpy_loop (mk (Suc n)) (d + of_nat (Suc n)) (s + of_nat (Suc n))"
      by (subst strcpy_loop.simps) (simp add: step algebra_simps)
    with Suc show ?case by simp
  qed
  from this [of "length xs"] src [of "length xs"] c
  have "strcpy_loop m d s = Some (mk (Suc (length xs)))"
    by (simp add: cstr_nth strcpy_loop.simps step)
  then show ?thesis using copy_prefix [OF ap _ len, of "Suc (length xs)" m] by (simp add: mk_def)
qed

text \<open>
  Appending a string that the destination buffer does not meet makes the
  destination the concatenation of the two strings; bytes before its old end and after its new
  end keep their values, so in particular the source is unchanged.
\<close>

lemma strcat_concatenates:
  assumes "cstr m d xs" and "cstr m s ys" and "apart d s (length xs + length ys)"
    and "length xs + length ys < 2 ^ 64"
  shows "\<exists>m'. strcat m d s = Some (d, m') \<and> cstr m' d (xs @ ys) \<and> cstr m' s ys \<and>
     (\<forall>x. \<not> unat (x - (d + of_nat (length xs))) \<le> length ys \<longrightarrow> m' x = m x)"
proof -
  define e where "e = d + of_nat (length xs)"
  define m' where "m' = (\<lambda>x. if unat (x - e) < Suc (length ys) then m (s + (x - e)) else m x)"
  have ap: "apart e s (length ys)"
    unfolding apart_def
  proof (intro allI impI)
    fix i j assume "i \<le> length ys" "j \<le> length ys"
    then have "d + of_nat (length xs + i) \<noteq> s + of_nat j"
      using assms(3) unfolding apart_def by (meson add_le_cancel_left trans_le_add2)
    then show "e + of_nat i \<noteq> s + of_nat j" by (simp add: e_def algebra_simps)
  qed
  have "strcat m d s = Some (d, m')"
    using strlen_cstr [OF assms(1)] strcpy_loop_cstr [OF assms(2) ap]
    by (simp add: strcat_def strcpy_def e_def m'_def)
  moreover have u: "unat (of_nat k :: u64) = k" if "k \<le> length xs + length ys" for k
    using that assms(4) by (intro unat_of_nat64) linarith
  have "m' (d + of_nat i) = m (d + of_nat i)" if "i < length xs" for i
  proof -
    have "\<not> unat (d + of_nat i - e) < Suc (length ys)"
    proof
      define k where "k = unat (d + of_nat i - e)"
      assume "unat (d + of_nat i - e) < Suc (length ys)"
      then have k: "k \<le> length ys" by (simp add: k_def)
      then have "d + of_nat i = e + of_nat k"
        using of_nat_diff_iff [of k "d + of_nat i" e] assms(4) by (simp add: k_def)
      then have "(of_nat i :: u64) = of_nat (length xs + k)" by (simp add: e_def algebra_simps)
      then show False using u [of i] u [of "length xs + k"] that k by simp
    qed
    then show ?thesis by (simp add: m'_def)
  qed
  moreover have ys: "m' (e + of_nat i) = m (s + of_nat i)" if "i \<le> length ys" for i
    using that u [of i] by (simp add: m'_def)
  then have "cstr m' e ys" using assms(2) by (auto simp: cstr_nth)
  ultimately have "cstr m' d (xs @ ys)"
    using assms(1) by (auto simp: cstr_append cstr_nth [of m d] e_def)
  moreover have "m' (s + of_nat j) = m (s + of_nat j)" if "j \<le> length ys" for j
  proof -
    have "\<not> unat (s + of_nat j - e) < Suc (length ys)"
      using that assms(4) by (intro apart_outside [OF ap]) auto
    then show ?thesis by (simp add: m'_def)
  qed
  then have "cstr m' s ys" using assms(2) by (auto simp: cstr_nth)
  moreover have "\<forall>x. \<not> unat (x - e) \<le> length ys \<longrightarrow> m' x = m x" by (simp add: m'_def less_Suc_eq_le)
  ultimately show ?thesis using \<open>strcat m d s = Some (d, m')\<close> by (auto simp: e_def)
qed

section \<open>Searching\<close>

lemma strstr_match_cstr:
  "cstr m h xs \<Longrightarrow> cstr m n ys \<Longrightarrow> strstr_match m h n = Some (take (length ys) xs = ys)"
  by (induction xs ys arbitrary: h n rule: bytes_diff.induct) (auto simp: strstr_match.simps)

lemma strstr_loop_cstr:
  assumes "cstr m n ys" and "ys \<noteq> []"
  shows "cstr m h xs \<Longrightarrow> \<exists>r. strstr_loop m h n = Some r \<and>
     ((\<exists>i < length xs. take (length ys) (drop i xs) = ys \<and> r = h + of_nat i \<and>
         (\<forall>j < i. take (length ys) (drop j xs) \<noteq> ys)) \<or>
      r = 0 \<and> (\<forall>i < length xs. take (length ys) (drop i xs) \<noteq> ys))"
proof (induction xs arbitrary: h)
  case Nil
  then show ?case by (simp add: strstr_loop.simps)
next
  case (Cons x xs)
  note mt = strstr_match_cstr [OF Cons.prems assms(1)]
  show ?case
  proof (cases "take (length ys) (x # xs) = ys")
    case True
    with mt Cons.prems show ?thesis by (subst strstr_loop.simps) (auto intro: exI [of _ 0])
  next
    case False
    from Cons.prems have "cstr m (h + 1) xs" by simp
    from Cons.IH [OF this] obtain r where r: "strstr_loop m (h + 1) n = Some r"
      "(\<exists>i < length xs. take (length ys) (drop i xs) = ys \<and> r = h + 1 + of_nat i \<and>
         (\<forall>j < i. take (length ys) (drop j xs) \<noteq> ys)) \<or>
       r = 0 \<and> (\<forall>i < length xs. take (length ys) (drop i xs) \<noteq> ys)" by blast
    have "strstr_loop m h n = Some r" using mt False Cons.prems r(1) by (subst strstr_loop.simps) simp
    moreover from r(2) have "(\<exists>i < length (x # xs). take (length ys) (drop i (x # xs)) = ys \<and> r = h + of_nat i \<and>
         (\<forall>j < i. take (length ys) (drop j (x # xs)) \<noteq> ys)) \<or>
      r = 0 \<and> (\<forall>i < length (x # xs). take (length ys) (drop i (x # xs)) \<noteq> ys)"
    proof (elim disjE exE conjE)
      fix i assume i: "i < length xs" "take (length ys) (drop i xs) = ys" "r = h + 1 + of_nat i"
        "\<forall>j < i. take (length ys) (drop j xs) \<noteq> ys"
      with False have "\<forall>j < Suc i. take (length ys) (drop j (x # xs)) \<noteq> ys"
        by (auto simp: less_Suc_eq_0_disj)
      with i show ?thesis by (intro disjI1 exI [of _ "Suc i"]) (auto simp: algebra_simps)
    qed (use False in \<open>auto simp: less_Suc_eq_0_disj\<close>)
    ultimately show ?thesis by blast
  qed
qed

text \<open>
  \<^verbatim>\<open>strstr\<close> returns the address of the first occurrence of the needle in the
  haystack, and NULL exactly when there is none.
\<close>

lemma strstr_first_occurrence:
  assumes "cstr m h xs" and "cstr m n ys"
  shows "\<exists>r. strstr m h n = Some r \<and>
     ((\<exists>i. take (length ys) (drop i xs) = ys \<and> i \<le> length xs \<and> r = h + of_nat i \<and>
         (\<forall>j < i. take (length ys) (drop j xs) \<noteq> ys)) \<or>
      r = 0 \<and> (\<forall>i \<le> length xs. take (length ys) (drop i xs) \<noteq> ys))"
proof (cases "ys = []")
  case True
  with assms(2) show ?thesis by (auto simp: strstr_def intro: exI [of _ 0])
next
  case False
  then have "m n \<noteq> 0" using assms(2) by (cases ys) auto
  then have "strstr m h n = strstr_loop m h n" by (simp add: strstr_def)
  moreover have "take (length ys) (drop (length xs) xs) \<noteq> ys" using False by simp
  ultimately show ?thesis using strstr_loop_cstr [OF assms(2) False assms(1)]
    by (metis le_less less_imp_le)
qed

theorem strstr_first_occurrence_witness:
  "\<exists>r. strstr mem_abc 0x1000 0x1001 = Some r \<and>
     ((\<exists>i. take 1 (drop i [0x61, 0x62]) = [0x62 :: u8] \<and> i \<le> 2 \<and> r = 0x1000 + of_nat i \<and>
         (\<forall>j < i. take 1 (drop j [0x61, 0x62]) \<noteq> [0x62 :: u8])) \<or>
      r = 0 \<and> (\<forall>i \<le> 2. take 1 (drop i [0x61, 0x62]) \<noteq> [0x62 :: u8]))"
proof -
  have "cstr mem_abc 0x1001 [0x62]" by (simp add: mem_abc_def)
  from strstr_first_occurrence [OF mem_abc_strings(1) this] show ?thesis
    by (simp only: list.size numeral_2_eq_2 One_nat_def add_0 add_Suc)
qed

section \<open>Tokens\<close>

lemma in_chars_cstr: "cstr m d ds \<Longrightarrow> in_chars m c d = Some (c \<in> set ds)"
  by (induction ds arbitrary: d) (auto simp: in_chars.simps)

lemma strtok_skip_cstr:
  assumes d: "cstr m d ds"
  shows "cstr m s xs \<Longrightarrow>
     strtok_skip m s d = Some (s + of_nat (length (takeWhile (\<lambda>x. x \<in> set ds) xs))) \<and>
     cstr m (s + of_nat (length (takeWhile (\<lambda>x. x \<in> set ds) xs))) (dropWhile (\<lambda>x. x \<in> set ds) xs)"
proof (induction xs arbitrary: s)
  case Nil
  then show ?case by (simp add: strtok_skip.simps)
next
  case (Cons x xs)
  then have "cstr m (s + 1) xs" by simp
  from Cons.IH [OF this] Cons.prems show ?case
    by (subst strtok_skip.simps) (auto simp: in_chars_cstr [OF d] algebra_simps)
qed

lemma strtok_scan_cstr:
  assumes d: "cstr m d ds"
  shows "cstr m s xs \<Longrightarrow>
     strtok_scan m s d =
       Some (if dropWhile (\<lambda>x. x \<notin> set ds) xs = [] then None
             else Some (s + of_nat (length (takeWhile (\<lambda>x. x \<notin> set ds) xs))))"
proof (induction xs arbitrary: s)
  case Nil
  then show ?case by (simp add: strtok_scan.simps)
next
  case (Cons x xs)
  then have "cstr m (s + 1) xs" by simp
  from Cons.IH [OF this] Cons.prems show ?case
    by (subst strtok_scan.simps) (auto simp: in_chars_cstr [OF d] algebra_simps)
qed

text \<open>Writing a NUL over byte \<open>k\<close> of a string cuts it in two.\<close>

lemma cstr_cut:
  assumes c: "cstr m s (xs @ y # ys)"
  shows "cstr (m(s + of_nat (length xs) := 0)) s xs"
    and "cstr (m(s + of_nat (length xs) := 0)) (s + of_nat (length xs) + 1) ys"
proof -
  define e where "e = s + of_nat (length xs)"
  have len: "length xs + Suc (length ys) < 2 ^ 64" using cstr_length [OF c] by simp
  have ne: "s + of_nat i \<noteq> e" if "i \<le> length xs + Suc (length ys)" "i \<noteq> length xs" for i
  proof
    assume "s + of_nat i = e"
    then have "(of_nat i :: u64) = of_nat (length xs)" by (simp add: e_def)
    then have "unat (of_nat i :: u64) = unat (of_nat (length xs) :: u64)" by simp
    then show False using that len by (simp add: unat_of_nat64)
  qed
  have xs: "\<forall>i < length xs. m (s + of_nat i) = xs ! i" "0 \<notin> set xs"
    and ys: "cstr m (e + 1) ys" using c by (simp_all add: cstr_append e_def)
  show "cstr (m(s + of_nat (length xs) := 0)) s xs"
    using xs ne by (auto simp: cstr_nth e_def)
  have "e + 1 + of_nat j \<noteq> e" if "j \<le> length ys" for j
  proof -
    have "e + 1 + of_nat j = s + of_nat (length xs + Suc j)" by (simp add: e_def algebra_simps)
    moreover have "s + of_nat (length xs + Suc j) \<noteq> e" using that by (intro ne) simp_all
    ultimately show ?thesis by simp
  qed
  then show "cstr (m(s + of_nat (length xs) := 0)) (s + of_nat (length xs) + 1) ys"
    using ys by (auto simp: cstr_nth e_def)
qed

text \<open>
  \<^verbatim>\<open>strtok_r\<close> on a string skips the leading delimiters and returns the token up to
  the next delimiter, which it overwrites with a NUL: the token is then a string of its own, and
  the saved pointer is the rest of the string after that delimiter, or NULL at the end.
\<close>

lemma strtok_r_splits:
  assumes s: "cstr m s xs" "s \<noteq> 0" and d: "cstr m d ds"
  defines "ys \<equiv> dropWhile (\<lambda>x. x \<in> set ds) xs"
  defines "tok \<equiv> takeWhile (\<lambda>x. x \<notin> set ds) ys"
  defines "rest \<equiv> dropWhile (\<lambda>x. x \<notin> set ds) ys"
  defines "start \<equiv> s + of_nat (length xs - length ys)"
  shows "if ys = [] then strtok_r m s d save = Some (0, 0, m)
         else if rest = [] then strtok_r m s d save = Some (start, 0, m) \<and> cstr m start tok
         else \<exists>m'. strtok_r m s d save = Some (start, start + of_nat (length tok) + 1, m') \<and>
                   cstr m' start tok \<and> cstr m' (start + of_nat (length tok) + 1) (tl rest)"
proof -
  have len: "length (takeWhile (\<lambda>x. x \<in> set ds) xs) = length xs - length ys"
    unfolding ys_def by (metis add_diff_cancel_right' length_append takeWhile_dropWhile_id)
  have sk: "strtok_skip m s d = Some start" "cstr m start ys"
    using strtok_skip_cstr [OF d s(1)] by (simp_all add: len start_def ys_def)
  note sc = strtok_scan_cstr [OF d sk(2)]
  have nz: "m start = 0 \<longleftrightarrow> ys = []" using sk(2) by (cases ys) auto
  have ys: "ys = tok @ rest" by (simp add: tok_def rest_def)
  have res: "strtok_r m s d save =
      (if ys = [] then Some (0, 0, m)
       else if rest = [] then Some (start, 0, m)
       else Some (start, start + of_nat (length tok) + 1, m(start + of_nat (length tok) := 0)))"
    using s(2) sk(1) sc nz by (simp add: strtok_r_def tok_def rest_def)
  show ?thesis
  proof (cases rest)
    case Nil
    with ys sk(2) res show ?thesis by auto
  next
    case (Cons r rs)
    have "cstr m start (tok @ r # rs)" using sk(2) ys Cons by simp
    from cstr_cut [OF this] res Cons ys show ?thesis by auto
  qed
qed

end
