(* ===== verification/Libc_Stdlib.thy ===== *)
theory Libc_Stdlib
  imports Libc_String "HOL-Library.Multiset"
begin

text \<open>
  Number parsing, sorting and the small functions of \<^verbatim>\<open>libc/src/stdlib\<close> (\<^verbatim>\<open>strtol.c\<close>, \<^verbatim>\<open>qsort.c\<close>,
  \<^verbatim>\<open>abs.c\<close>, \<^verbatim>\<open>rand.c\<close>, \<^verbatim>\<open>atoi\<close> and the \<^verbatim>\<open>atexit\<close> table of \<^verbatim>\<open>exit.c\<close>), and the \<^verbatim>\<open>ctype.h\<close> predicates
  they use.  A \<^verbatim>\<open>long\<close> is an integer within its 64-bit range.
\<close>

section \<open>Character classes\<close>

definition isspace :: "u8 \<Rightarrow> bool" where
  "isspace c \<longleftrightarrow> c = 0x20 \<or> c = 0x09 \<or> c = 0x0A \<or> c = 0x0D \<or> c = 0x0C \<or> c = 0x0B"

definition LONG_MAX :: int where "LONG_MAX = 2 ^ 63 - 1"
definition LONG_MIN :: int where "LONG_MIN = - (2 ^ 63)"
definition ULONG_MAX :: int where "ULONG_MAX = 2 ^ 64 - 1"

text \<open>The value of a digit character, or \<open>None\<close> where the loop of \<^verbatim>\<open>strtol\<close> breaks.\<close>

definition digit_of :: "u8 \<Rightarrow> int option" where
  "digit_of c =
     (if 0x30 \<le> c \<and> c \<le> 0x39 then Some (uint c - 0x30)
      else if 0x61 \<le> c \<and> c \<le> 0x7A then Some (uint c - 0x61 + 10)
      else if 0x41 \<le> c \<and> c \<le> 0x5A then Some (uint c - 0x41 + 10)
      else None)"

section \<open>Number parsing\<close>

partial_function (option) skip_spaces :: "mem8 \<Rightarrow> u64 \<Rightarrow> u64 option" where
  "skip_spaces m p = (if isspace (m p) then skip_spaces m (p + 1) else Some p)"

definition take_sign :: "mem8 \<Rightarrow> u64 \<Rightarrow> bool \<times> u64" where
  "take_sign m p =
     (if m p = 0x2D then (True, p + 1) else if m p = 0x2B then (False, p + 1) else (False, p))"

definition take_prefix :: "mem8 \<Rightarrow> u64 \<Rightarrow> int \<Rightarrow> int \<times> u64" where
  "take_prefix m p base =
     (if (base = 0 \<or> base = 16) \<and> m p = 0x30 \<and> (m (p + 1) = 0x78 \<or> m (p + 1) = 0x58) then (16, p + 2)
      else if base = 0 \<and> m p = 0x30 then (8, p + 1)
      else if base = 0 then (10, p)
      else (base, p))"

partial_function (option) strtol_loop ::
  "mem8 \<Rightarrow> int \<Rightarrow> u64 \<Rightarrow> int \<Rightarrow> int \<Rightarrow> (u64 \<times> int \<times> int) option" where
  "strtol_loop m base p val any =
     (case digit_of (m p) of
        None \<Rightarrow> Some (p, val, any)
      | Some digit \<Rightarrow>
          if base \<le> digit then Some (p, val, any)
          else if any < 0 \<or> (LONG_MAX - digit) div base < val
               then strtol_loop m base (p + 1) val (- 1)
               else strtol_loop m base (p + 1) (val * base + digit) 1)"

text \<open>The results are the value, what \<^verbatim>\<open>*endptr\<close> receives and whether \<^verbatim>\<open>errno\<close> is set to \<^verbatim>\<open>ERANGE\<close>.\<close>

definition strtol :: "mem8 \<Rightarrow> u64 \<Rightarrow> int \<Rightarrow> (int \<times> u64 \<times> bool) option" where
  "strtol m s base =
     do { p \<leftarrow> skip_spaces m s;
          let (neg, p) = take_sign m p;
          let (base, p) = take_prefix m p base;
          (p, val, any) \<leftarrow> strtol_loop m base p 0 0;
          Some (if any < 0 then if neg then LONG_MIN else LONG_MAX
                else if any = 0 then 0
                else if neg then - val else val,
                if any \<noteq> 0 then p else s,
                any < 0) }"

partial_function (option) strtoul_loop ::
  "mem8 \<Rightarrow> int \<Rightarrow> u64 \<Rightarrow> int \<Rightarrow> int \<Rightarrow> (u64 \<times> int \<times> int) option" where
  "strtoul_loop m base p val any =
     (case digit_of (m p) of
        None \<Rightarrow> Some (p, val, any)
      | Some digit \<Rightarrow>
          if base \<le> digit then Some (p, val, any)
          else if (ULONG_MAX - digit) div base < val
               then strtoul_loop m base (p + 1) val (- 1)
               else strtoul_loop m base (p + 1) (val * base + digit) 1)"

definition strtoul :: "mem8 \<Rightarrow> u64 \<Rightarrow> int \<Rightarrow> (int \<times> u64 \<times> bool) option" where
  "strtoul m s base =
     do { p \<leftarrow> skip_spaces m s;
          let (neg, p) = take_sign m p;
          let (base, p) = take_prefix m p base;
          (p, val, any) \<leftarrow> strtoul_loop m base p 0 0;
          let val = (if any < 0 then ULONG_MAX else if any = 0 then 0 else val);
          Some (if neg \<and> 0 < any then (- val) mod 2 ^ 64 else val,
                if any \<noteq> 0 then p else s,
                any < 0) }"

text \<open>\<^verbatim>\<open>atoi\<close> in 32-bit arithmetic; it skips blanks only, and an overflow wraps.\<close>

partial_function (option) atoi_skip :: "mem8 \<Rightarrow> u64 \<Rightarrow> u64 option" where
  "atoi_skip m s = (if m s = 0x20 then atoi_skip m (s + 1) else Some s)"

partial_function (option) atoi_loop :: "mem8 \<Rightarrow> u64 \<Rightarrow> u32 \<Rightarrow> u32 option" where
  "atoi_loop m s n =
     (if 0x30 \<le> m s \<and> m s \<le> 0x39 then atoi_loop m (s + 1) (n * 10 + (ucast (m s) - 0x30)) else Some n)"

definition atoi :: "mem8 \<Rightarrow> u64 \<Rightarrow> int option" where
  "atoi m s =
     do { s \<leftarrow> atoi_skip m s;
          let (neg, s) = take_sign m s;
          n \<leftarrow> atoi_loop m s 0;
          Some (sint (if neg then - n else n)) }"

section \<open>Sorting\<close>

text \<open>
  The array is the list of its elements, each of \<^verbatim>\<open>size\<close> bytes; \<^verbatim>\<open>swap\<close> exchanges two of them byte
  by byte, and a recursive call works on a slice of the array.
\<close>

definition swap_elems :: "nat \<Rightarrow> nat \<Rightarrow> 'a list \<Rightarrow> 'a list" where
  "swap_elems i j xs = xs[i := xs ! j, j := xs ! i]"

fun partition_loop :: "('a \<Rightarrow> 'a \<Rightarrow> int) \<Rightarrow> nat \<Rightarrow> nat list \<Rightarrow> nat \<Rightarrow> 'a list \<Rightarrow> nat \<times> 'a list" where
  "partition_loop compar l [] pivot arr = (pivot, arr)"
| "partition_loop compar l (i # is) pivot arr =
     (if compar (arr ! i) (arr ! l) < 0
      then partition_loop compar l is (pivot + 1) (swap_elems pivot i arr)
      else partition_loop compar l is pivot arr)"

definition partition_array :: "('a \<Rightarrow> 'a \<Rightarrow> int) \<Rightarrow> 'a list \<Rightarrow> nat \<times> 'a list" where
  "partition_array compar arr =
     (let l = length arr - 1;
          (pivot, arr) = partition_loop compar l [0..<l] 0 arr
      in (pivot, swap_elems pivot l arr))"

lemma length_swap_elems [simp]: "length (swap_elems i j xs) = length xs"
  by (simp add: swap_elems_def)

lemma partition_loop_length:
  "partition_loop compar l is pivot arr = (p, arr') \<Longrightarrow>
     length arr' = length arr \<and> pivot \<le> p \<and> p \<le> pivot + length is"
  by (induction "is" arbitrary: pivot arr) (fastforce split: if_splits)+

lemma partition_array_length:
  "partition_array compar arr = (p, arr') \<Longrightarrow> arr \<noteq> [] \<Longrightarrow> length arr' = length arr \<and> p < length arr"
  by (auto simp: partition_array_def Let_def split: prod.splits dest!: partition_loop_length)
     (metis Suc_pred diff_zero le_imp_less_Suc length_greater_0_conv length_upt)

function qsort_array :: "('a \<Rightarrow> 'a \<Rightarrow> int) \<Rightarrow> 'a list \<Rightarrow> 'a list" where
  "qsort_array compar arr =
     (if length arr \<le> 1 then arr
      else let (pivot, arr') = partition_array compar arr;
               l = length arr - 1;
               left = take pivot arr';
               right = drop (pivot + 1) arr'
           in (if 1 < pivot then qsort_array compar left else left) @ arr' ! pivot #
              (if 1 < l - pivot then qsort_array compar right else right))"
  by pat_completeness auto
termination
  by (relation "measure (\<lambda>(compar, arr). length arr)")
     (auto simp: dest!: partition_array_length [OF sym])

declare qsort_array.simps [simp del]

section \<open>Other functions\<close>

definition abs_int :: "u32 \<Rightarrow> u32" where
  "abs_int n = (if sint n < 0 then - n else n)"

definition labs :: "u64 \<Rightarrow> u64" where
  "labs n = (if sint n < 0 then - n else n)"

text \<open>The generator keeps its state in the static \<^verbatim>\<open>next\<close>.\<close>

definition rand :: "u64 \<Rightarrow> int \<times> u64" where
  "rand st = (let st = st * 1103515245 + 12345
              in (uint (ucast (st div 65536) :: u32) mod 32768, st))"

definition srand :: "u32 \<Rightarrow> u64" where
  "srand seed = ucast seed"

definition ATEXIT_MAX :: nat where "ATEXIT_MAX = 32"

text \<open>The registered handlers, oldest first (\<open>None\<close> is NULL), and the calls \<^verbatim>\<open>exit\<close> makes, in order.\<close>

definition atexit :: "'f option \<Rightarrow> 'f option list \<Rightarrow> int \<times> 'f option list" where
  "atexit func handlers = (if ATEXIT_MAX \<le> length handlers then (-1, handlers) else (0, handlers @ [func]))"

definition exit_calls :: "'f option list \<Rightarrow> 'f list" where
  "exit_calls handlers = List.map_filter id (rev handlers)"

section \<open>Sorting is correct\<close>

lemma mset_swap_elems: "i < length xs \<Longrightarrow> j < length xs \<Longrightarrow> mset (swap_elems i j xs) = mset xs"
  by (simp add: swap_elems_def mset_swap)

text \<open>The elements before the split index are below the pivot, those from it on are not.\<close>

definition split_at :: "('a \<Rightarrow> 'a \<Rightarrow> int) \<Rightarrow> 'a \<Rightarrow> nat \<Rightarrow> nat \<Rightarrow> 'a list \<Rightarrow> bool" where
  "split_at compar v p k arr \<longleftrightarrow>
     p \<le> k \<and> (\<forall>j < p. compar (arr ! j) v < 0) \<and> (\<forall>j. p \<le> j \<and> j < k \<longrightarrow> \<not> compar (arr ! j) v < 0)"

lemma split_at_swap:
  assumes "split_at compar v p k arr" and "k < length arr" and "compar (arr ! k) v < 0"
  shows "split_at compar v (p + 1) (k + 1) (swap_elems p k arr)"
  using assms by (auto simp: split_at_def swap_elems_def nth_list_update less_Suc_eq)

lemma partition_loop_spec:
  assumes "split_at compar (arr ! l) p k arr" and "k \<le> l" and "l < length arr"
    and "partition_loop compar l [k..<l] p arr = (p', arr')"
  shows "split_at compar (arr ! l) p' l arr' \<and> arr' ! l = arr ! l \<and> mset arr' = mset arr"
  using assms
proof (induction "[k..<l]" arbitrary: k p arr)
  case Nil
  then have "k = l" by (metis le_antisym le_zero_eq upt_eq_Nil_conv)
  with Nil show ?case by simp
next
  case (Cons i "is")
  have i: "k < l" "i = k" "is = [Suc k..<l]"
    using Cons.hyps(2) [symmetric] by (auto simp: upt_eq_Cons_conv)
  show ?case
  proof (cases "compar (arr ! k) (arr ! l) < 0")
    case True
    define arr1 where "arr1 = swap_elems p k arr"
    have p: "p \<le> k" using Cons.prems(1) by (simp add: split_at_def)
    have l: "arr1 ! l = arr ! l" "length arr1 = length arr" using i(1) p by (auto simp: arr1_def swap_elems_def)
    have "split_at compar (arr1 ! l) (p + 1) (Suc k) arr1"
      using split_at_swap [OF Cons.prems(1) _ True] i(1) Cons.prems(3) l by (simp add: arr1_def)
    moreover have "partition_loop compar l [Suc k..<l] (p + 1) arr1 = (p', arr')"
      using Cons.prems(4) i True by (simp add: upt_conv_Cons arr1_def)
    moreover have "mset arr1 = mset arr" using p i(1) Cons.prems(3) by (simp add: arr1_def mset_swap_elems)
    ultimately show ?thesis using Cons.hyps(1) [OF i(3), of arr1 "p + 1"] i Cons.prems(3) l by simp
  next
    case False
    then have "split_at compar (arr ! l) p (Suc k) arr"
      using Cons.prems(1) by (auto simp: split_at_def less_Suc_eq)
    moreover have "partition_loop compar l [Suc k..<l] p arr = (p', arr')"
      using Cons.prems(4) i False by (simp add: upt_conv_Cons)
    ultimately show ?thesis using Cons.hyps(1) [OF i(3), of arr p] i Cons.prems(3) by simp
  qed
qed

lemma partition_array_spec:
  assumes "arr \<noteq> []" and "partition_array compar arr = (p, arr')"
  shows "mset arr' = mset arr" and "p < length arr" and "length arr' = length arr"
    and "\<And>x. x \<in> set (take p arr') \<Longrightarrow> compar x (arr' ! p) < 0"
    and "\<And>x. x \<in> set (drop (p + 1) arr') \<Longrightarrow> \<not> compar x (arr' ! p) < 0"
proof -
  define l where "l = length arr - 1"
  have l: "l < length arr" using assms(1) by (simp add: l_def)
  obtain arr1 where a: "partition_loop compar l [0..<l] 0 arr = (p, arr1)" "arr' = swap_elems p l arr1"
    using assms(2) by (auto simp: partition_array_def l_def Let_def split: prod.splits)
  have s: "split_at compar (arr ! l) p l arr1" "arr1 ! l = arr ! l" "mset arr1 = mset arr"
    using partition_loop_spec [OF _ _ l a(1)] by (auto simp: split_at_def)
  have len: "length arr1 = length arr" using s(3) by (rule mset_eq_length)
  have p: "p \<le> l" using s(1) by (simp add: split_at_def)
  show "mset arr' = mset arr" "p < length arr" "length arr' = length arr"
    using s(3) p l len by (auto simp: a(2) mset_swap_elems)
  have nth: "arr' ! j = (if j = p then arr ! l else if j = l then arr1 ! p else arr1 ! j)" if "j < length arr" for j
    using that p l len s(2) by (auto simp: a(2) swap_elems_def nth_list_update)
  have v: "arr' ! p = arr ! l" using nth [of p] p l by simp
  show "compar x (arr' ! p) < 0" if "x \<in> set (take p arr')" for x
    using that s(1) p l len nth unfolding v by (auto simp: in_set_conv_nth split_at_def a(2))
  show "\<not> compar x (arr' ! p) < 0" if "x \<in> set (drop (p + 1) arr')" for x
  proof -
    from that obtain k where "k < length (drop (p + 1) arr')" "x = drop (p + 1) arr' ! k"
      by (auto simp: in_set_conv_nth)
    then have "p < p + 1 + k" "p + 1 + k < length arr" "x = arr' ! (p + 1 + k)"
      using len by (auto simp: a(2))
    then obtain j where j: "p < j" "j < length arr" "x = arr' ! j" by blast
    with s(1) l p nth [of j] show ?thesis unfolding v
      by (auto simp: split_at_def l_def split: if_splits)
  qed
qed

locale comparator =
  fixes compar :: "'a \<Rightarrow> 'a \<Rightarrow> int" and dom :: "'a set"
  assumes asym: "x \<in> dom \<Longrightarrow> y \<in> dom \<Longrightarrow> compar x y < 0 \<Longrightarrow> \<not> compar y x < 0"
    and neg_trans: "x \<in> dom \<Longrightarrow> y \<in> dom \<Longrightarrow> z \<in> dom \<Longrightarrow>
          \<not> compar x y < 0 \<Longrightarrow> \<not> compar y z < 0 \<Longrightarrow> \<not> compar x z < 0"
begin

lemma join_sorted:
  assumes "set (xs @ v # ys) \<subseteq> dom"
    and "sorted_wrt (\<lambda>x y. \<not> compar y x < 0) xs" and "sorted_wrt (\<lambda>x y. \<not> compar y x < 0) ys"
    and "\<And>x. x \<in> set xs \<Longrightarrow> compar x v < 0" and "\<And>y. y \<in> set ys \<Longrightarrow> \<not> compar y v < 0"
  shows "sorted_wrt (\<lambda>x y. \<not> compar y x < 0) (xs @ v # ys)"
proof -
  have "\<not> compar v x < 0" if "x \<in> set xs" for x using asym [of x v] assms(1,4) that by auto
  moreover have "\<not> compar y x < 0" if "x \<in> set xs" "y \<in> set ys" for x y
    using neg_trans [of y v x] calculation that assms(1,5) by auto
  ultimately show ?thesis using assms(2,3,5) by (auto simp: sorted_wrt_append)
qed

lemma qsort_array_sorts:
  "set arr \<subseteq> dom \<Longrightarrow>
     mset (qsort_array compar arr) = mset arr \<and>
     sorted_wrt (\<lambda>x y. \<not> compar y x < 0) (qsort_array compar arr)"
proof (induction "length arr" arbitrary: arr rule: less_induct)
  case less
  show ?case
  proof (cases "length arr \<le> 1")
    case True
    then show ?thesis by (cases arr) (auto simp: qsort_array.simps)
  next
    case False
    then have ne: "arr \<noteq> []" by auto
    obtain p arr' where pa: "partition_array compar arr = (p, arr')" by (cases "partition_array compar arr")
    note ps = partition_array_spec [OF ne pa]
    define left where "left = take p arr'"
    define right where "right = drop (p + 1) arr'"
    define ql where "ql = (if 1 < p then qsort_array compar left else left)"
    define qr where "qr = (if 1 < length arr - 1 - p then qsort_array compar right else right)"
    have arr': "arr' = left @ arr' ! p # right"
      using ps(2,3) by (simp add: left_def right_def id_take_nth_drop)
    have set': "set arr' \<subseteq> dom" using less.prems ps(1) by (metis set_mset_mset)
    have sub: "set left \<subseteq> dom" "set right \<subseteq> dom" "length left < length arr" "length right < length arr"
      using set' ps(2,3) by (auto simp: left_def right_def dest: in_set_takeD in_set_dropD)
    have small: "sorted_wrt (\<lambda>x y. \<not> compar y x < 0) xs" if "length xs \<le> 1" for xs
      using that by (cases xs) auto
    have l: "mset ql = mset left" "sorted_wrt (\<lambda>x y. \<not> compar y x < 0) ql"
      using less.hyps [OF sub(3,1)] small [of left] by (auto simp: ql_def left_def)
    have r: "mset qr = mset right" "sorted_wrt (\<lambda>x y. \<not> compar y x < 0) qr"
      using less.hyps [OF sub(4,2)] small [of right] ps(3) by (auto simp: qr_def right_def)
    have sets: "set ql = set left" "set qr = set right" using l(1) r(1) by (metis set_mset_mset)+
    have q: "qsort_array compar arr = ql @ arr' ! p # qr"
      using False pa by (subst qsort_array.simps) (simp add: ql_def qr_def left_def right_def Let_def)
    have "arr' ! p \<in> dom" using set' ps(2,3) by auto
    then have "sorted_wrt (\<lambda>x y. \<not> compar y x < 0) (ql @ arr' ! p # qr)"
      using sub sets l r ps(4,5) by (intro join_sorted) (auto simp: left_def right_def)
    moreover have "mset (ql @ arr' ! p # qr) = mset arr'"
      using l(1) r(1) by (subst arr') simp
    ultimately show ?thesis using q ps(1) by simp
  qed
qed

end

text \<open>The order of \<^verbatim>\<open>strcmp\<close> on NUL-free strings is a comparator.\<close>

lemma bytes_less:
  assumes "0 \<notin> set xs" and "0 \<notin> set ys"
  shows "bytes_diff xs ys < 0 \<longleftrightarrow> (xs, ys) \<in> lexord {(x, y). x < y}"
  using bytes_diff_sign [OF assms] by simp

lemma lexord_bytes_linear:
  fixes xs ys :: bytes
  shows "(xs, ys) \<in> lexord {(x, y). x < y} \<or> xs = ys \<or> (ys, xs) \<in> lexord {(x, y). x < y}"
  by (rule lexord_linear) auto

lemma lexord_bytes_trans:
  fixes xs ys zs :: bytes
  assumes "(xs, ys) \<in> lexord {(x, y). x < y}" and "(ys, zs) \<in> lexord {(x, y). x < y}"
  shows "(xs, zs) \<in> lexord {(x, y). x < y}"
  using assms by (rule lexord_trans) (auto simp: trans_def)

lemma lexord_bytes_irrefl: "(xs :: bytes, xs) \<notin> lexord {(x, y). x < y}"
  by (rule lexord_irreflexive) auto

interpretation string_order: comparator bytes_diff "{xs. 0 \<notin> set xs}"
proof
  fix x y z :: bytes
  assume xy: "x \<in> {xs. 0 \<notin> set xs}" "y \<in> {xs. 0 \<notin> set xs}"
  show "\<not> bytes_diff y x < 0" if "bytes_diff x y < 0"
    using that xy lexord_bytes_trans [of x y x] lexord_bytes_irrefl [of x] by (auto simp: bytes_less)
  show "\<not> bytes_diff x z < 0" if "z \<in> {xs. 0 \<notin> set xs}" "\<not> bytes_diff x y < 0" "\<not> bytes_diff y z < 0"
    using that xy lexord_bytes_linear [of x y] lexord_bytes_linear [of y z]
      lexord_bytes_trans [of z y x] lexord_bytes_trans [of x z x] lexord_bytes_trans [of y x z]
      lexord_bytes_irrefl [of x] lexord_bytes_trans [of x z y] lexord_bytes_irrefl
    by (auto simp: bytes_less)
qed

text \<open>
  C17 (functional): for a comparison function that orders the elements, \<^verbatim>\<open>qsort\<close> terminates with a
  permutation of the array in which no element is below an earlier one.
\<close>

theorem qsort_sorts:
  assumes "comparator compar D" and "set arr \<subseteq> D"
  shows "mset (qsort_array compar arr) = mset arr \<and>
         sorted_wrt (\<lambda>x y. \<not> compar y x < 0) (qsort_array compar arr)"
  using assms by (rule comparator.qsort_array_sorts)

theorem qsort_sorts_witness:
  "mset (qsort_array bytes_diff [[3], [1, 2], [1 :: u8]]) = mset [[3], [1, 2], [1]] \<and>
   sorted_wrt (\<lambda>x y. \<not> bytes_diff y x < 0) (qsort_array bytes_diff [[3], [1, 2], [1 :: u8]])"
  by (rule qsort_sorts [OF string_order.comparator_axioms]) simp

section \<open>Number parsing is correct\<close>

definition digits_value :: "int \<Rightarrow> int \<Rightarrow> int list \<Rightarrow> int" where
  "digits_value base v ds = fold (\<lambda>d v. v * base + d) ds v"

lemma digits_value_simps [simp]:
  "digits_value base v [] = v" "digits_value base v (d # ds) = digits_value base (v * base + d) ds"
  by (simp_all add: digits_value_def)

lemma digits_value_ge:
  assumes "1 \<le> base" and "0 \<le> v" and "\<forall>d \<in> set ds. 0 \<le> d"
  shows "v \<le> digits_value base v ds"
  using assms
proof (induction ds arbitrary: v)
  case (Cons d ds)
  have "v * 1 \<le> v * base" using Cons.prems by (intro mult_left_mono) auto
  then have "v \<le> v * base + d" using Cons.prems by simp
  also have "\<dots> \<le> digits_value base (v * base + d) ds" using Cons.prems \<open>v \<le> v * base + d\<close> by (intro Cons.IH) auto
  finally show ?case by simp
qed simp

text \<open>The digit characters \<open>cs\<close> stand at \<open>p\<close>, have the values \<open>ds\<close> below the base, and end there.\<close>

definition digits_at :: "mem8 \<Rightarrow> int \<Rightarrow> u64 \<Rightarrow> int list \<Rightarrow> bool" where
  "digits_at m base p ds \<longleftrightarrow>
     (\<forall>i < length ds. digit_of (m (p + of_nat i)) = Some (ds ! i) \<and> 0 \<le> ds ! i \<and> ds ! i < base) \<and>
     (case digit_of (m (p + of_nat (length ds))) of None \<Rightarrow> True | Some d \<Rightarrow> base \<le> d)"

lemma digits_at_Nil: "digits_at m base p [] \<longleftrightarrow> (case digit_of (m p) of None \<Rightarrow> True | Some d \<Rightarrow> base \<le> d)"
  by (simp add: digits_at_def)

lemma digits_at_Cons:
  "digits_at m base p (d # ds) \<longleftrightarrow>
     digit_of (m p) = Some d \<and> 0 \<le> d \<and> d < base \<and> digits_at m base (p + 1) ds"
  by (auto simp: digits_at_def less_Suc_eq_0_disj algebra_simps)

lemma overflow_iff:
  assumes "1 \<le> (base :: int)"
  shows "(M - d) div base < v \<longleftrightarrow> M < v * base + d"
proof -
  have "v \<le> (M - d) div base" if "v * base \<le> M - d"
    using zdiv_mono1 [OF that, of base] assms by simp
  moreover have "v * base \<le> M - d" if "v \<le> (M - d) div base"
  proof -
    have "v * base \<le> (M - d) div base * base" using that assms by (intro mult_right_mono) auto
    also have "\<dots> \<le> M - d"
      using assms pos_mod_sign [of base "M - d"] by (simp add: minus_mod_eq_div_mult [symmetric])
    finally show ?thesis .
  qed
  ultimately show ?thesis by linarith
qed

lemma strtol_loop_overflowed:
  "digits_at m base p ds \<Longrightarrow> strtol_loop m base p val (- 1) = Some (p + of_nat (length ds), val, - 1)"
proof (induction ds arbitrary: p)
  case Nil
  then show ?case by (subst strtol_loop.simps) (auto simp: digits_at_Nil split: option.splits)
next
  case (Cons d ds)
  then have "strtol_loop m base (p + 1) val (- 1) = Some (p + 1 + of_nat (length ds), val, - 1)"
    by (simp add: digits_at_Cons)
  with Cons.prems show ?case by (subst strtol_loop.simps) (simp add: digits_at_Cons algebra_simps)
qed

lemma strtol_loop_value:
  assumes "digits_at m base p ds" and "1 \<le> base" and "0 \<le> val" and "0 \<le> any" and "val \<le> LONG_MAX"
  shows "\<exists>val' any'. strtol_loop m base p val any = Some (p + of_nat (length ds), val', any') \<and>
     (if digits_value base val ds \<le> LONG_MAX
      then val' = digits_value base val ds \<and> any' = (if ds = [] then any else 1)
      else any' = - 1)"
  using assms
proof (induction ds arbitrary: p val any)
  case Nil
  then show ?case by (subst strtol_loop.simps) (auto simp: digits_at_Nil split: option.splits)
next
  case (Cons d ds)
  have d: "digit_of (m p) = Some d" "0 \<le> d" "d < base" "digits_at m base (p + 1) ds"
    using Cons.prems(1) by (auto simp: digits_at_Cons)
  note ov = overflow_iff [OF Cons.prems(2), of LONG_MAX d val]
  show ?case
  proof (cases "LONG_MAX < val * base + d")
    case True
    have "\<forall>x \<in> set ds. 0 \<le> x" using d(4) by (auto simp: digits_at_def in_set_conv_nth)
    then have "val * base + d \<le> digits_value base val (d # ds)"
      using Cons.prems d(2) by (auto intro!: digits_value_ge)
    with True have "\<not> digits_value base val (d # ds) \<le> LONG_MAX" by simp
    moreover have "strtol_loop m base p val any = Some (p + 1 + of_nat (length ds), val, - 1)"
      using d True ov strtol_loop_overflowed [OF d(4), of val] by (subst strtol_loop.simps) simp
    ultimately show ?thesis by (simp add: algebra_simps)
  next
    case False
    have "0 \<le> val * base + d" using Cons.prems d by simp
    with Cons.IH [OF d(4) Cons.prems(2), of "val * base + d" 1] False
    obtain val' any' where ih: "strtol_loop m base (p + 1) (val * base + d) 1 = Some (p + 1 + of_nat (length ds), val', any')"
      "if digits_value base (val * base + d) ds \<le> LONG_MAX
       then val' = digits_value base (val * base + d) ds \<and> any' = (if ds = [] then 1 else 1)
       else any' = - 1" by auto
    have "strtol_loop m base p val any = Some (p + 1 + of_nat (length ds), val', any')"
      using d False ov Cons.prems(4) ih(1) by (subst strtol_loop.simps) simp
    with ih(2) show ?thesis by (auto simp: algebra_simps)
  qed
qed

lemma skip_spaces_at:
  "(\<forall>i < k. isspace (m (s + of_nat i))) \<Longrightarrow> \<not> isspace (m (s + of_nat k)) \<Longrightarrow>
     skip_spaces m s = Some (s + of_nat k)"
proof (induction k arbitrary: s)
  case 0
  then show ?case by (subst skip_spaces.simps) simp
next
  case (Suc k)
  have "isspace (m s)" using Suc.prems(1) [rule_format, of 0] by simp
  moreover have "isspace (m (s + 1 + of_nat i))" if "i < k" for i
    using Suc.prems(1) [rule_format, of "Suc i"] that by (simp add: algebra_simps)
  moreover have "\<not> isspace (m (s + 1 + of_nat k))" using Suc.prems(2) by (simp add: algebra_simps)
  ultimately show ?case using Suc.IH [of "s + 1"] by (subst skip_spaces.simps) (simp add: algebra_simps)
qed

text \<open>
  For a base from 2 to 36 other than 16 and a string of white space, an optional
  sign and at least one digit, \<^verbatim>\<open>strtol\<close> returns the number with \<^verbatim>\<open>*endptr\<close> after the last digit when
  its magnitude is at most \<^verbatim>\<open>LONG_MAX\<close>; otherwise it returns \<^verbatim>\<open>LONG_MAX\<close> or \<^verbatim>\<open>LONG_MIN\<close> and sets
  \<^verbatim>\<open>errno\<close> to \<^verbatim>\<open>ERANGE\<close>.  No digit is skipped whatever their number.
\<close>

lemma strtol_value:
  assumes "\<forall>i < k. isspace (m (s + of_nat i))" and "\<not> isspace (m (s + of_nat k))"
    and "take_sign m (s + of_nat k) = (neg, p)" and "digits_at m base p ds" and "ds \<noteq> []"
    and "2 \<le> base" and "base \<le> 36" and "base \<noteq> 16"
  shows "strtol m s base =
     (let n = digits_value base 0 ds in
      if n \<le> LONG_MAX then Some (if neg then - n else n, p + of_nat (length ds), False)
      else Some (if neg then LONG_MIN else LONG_MAX, p + of_nat (length ds), True))"
proof -
  have "take_prefix m p base = (base, p)" using assms(6-8) by (simp add: take_prefix_def)
  with strtol_loop_value [OF assms(4), of 0 0] assms(5,6) skip_spaces_at [OF assms(1,2)] assms(3)
  show ?thesis by (auto simp: strtol_def Let_def LONG_MAX_def split: if_splits)
qed

definition mem_num :: mem8 where
  "mem_num = (\<lambda>_. 0)(0x1000 := 0x20, 0x1001 := 0x2D, 0x1002 := 0x34, 0x1003 := 0x32)"

text \<open>What the loop of \<^verbatim>\<open>strtoul\<close> computes from the values of the digits.\<close>

fun strtoul_digits :: "int \<Rightarrow> int list \<Rightarrow> int \<Rightarrow> int \<Rightarrow> int \<times> int" where
  "strtoul_digits base [] val any = (val, any)"
| "strtoul_digits base (d # ds) val any =
     (if (ULONG_MAX - d) div base < val then strtoul_digits base ds val (- 1)
      else strtoul_digits base ds (val * base + d) 1)"

lemma strtoul_loop_digits:
  "digits_at m base p ds \<Longrightarrow> strtoul_loop m base p val any =
     Some (p + of_nat (length ds), strtoul_digits base ds val any)"
proof (induction ds arbitrary: p val any)
  case Nil
  then show ?case by (subst strtoul_loop.simps) (auto simp: digits_at_Nil split: option.splits)
next
  case (Cons d ds)
  have "strtoul_loop m base (p + 1) v a = Some (p + 1 + of_nat (length ds), strtoul_digits base ds v a)" for v a
    using Cons by (simp add: digits_at_Cons)
  with Cons.prems show ?case by (subst strtoul_loop.simps) (simp add: digits_at_Cons algebra_simps)
qed

text \<open>
  \<^verbatim>\<open>strtoul\<close> has no test for an earlier overflow in its loop: a digit that does not
  overflow after one that did resets the mark.  On the digits \<open>184467440737095516165\<close>, ten times
  the range of the type, it returns \<^verbatim>\<open>ULONG_MAX\<close> without setting \<^verbatim>\<open>errno\<close>, having dropped the digit 6.
\<close>

lemma strtoul_forgets_overflow:
  assumes "digits_at m 10 s [1,8,4,4,6,7,4,4,0,7,3,7,0,9,5,5,1,6,1,6,5]"
  shows "strtoul m s 10 = Some (ULONG_MAX, s + 21, False)"
proof -
  have "digit_of (m s) = Some 1" using assms by (simp add: digits_at_Cons)
  then have "\<not> isspace (m s)" "take_sign m s = (False, s)"
    by (auto simp: digit_of_def isspace_def take_sign_def split: if_splits)
  then have "skip_spaces m s = Some s" by (subst skip_spaces.simps) simp
  with strtoul_loop_digits [OF assms, of 0 0] \<open>take_sign m s = (False, s)\<close> show ?thesis
    by (simp add: strtoul_def take_prefix_def ULONG_MAX_def)
qed

definition mem_big :: mem8 where
  "mem_big = (\<lambda>_. 0)(0x1000 := 0x31, 0x1001 := 0x38, 0x1002 := 0x34, 0x1003 := 0x34, 0x1004 := 0x36,
     0x1005 := 0x37, 0x1006 := 0x34, 0x1007 := 0x34, 0x1008 := 0x30, 0x1009 := 0x37, 0x100A := 0x33,
     0x100B := 0x37, 0x100C := 0x30, 0x100D := 0x39, 0x100E := 0x35, 0x100F := 0x35, 0x1010 := 0x31,
     0x1011 := 0x36, 0x1012 := 0x31, 0x1013 := 0x36, 0x1014 := 0x35)"

theorem strtoul_forgets_overflow_witness: "strtoul mem_big 0x1000 10 = Some (ULONG_MAX, 0x1000 + 21, False)"
  by (rule strtoul_forgets_overflow) (simp add: digits_at_Cons digits_at_Nil digit_of_def mem_big_def)

text \<open>
  With base 0 the leading \<open>0\<close> is taken for an octal prefix and not counted as a digit:
  on the string \<open>0\<close>, \<^verbatim>\<open>strtol\<close> reports that nothing was converted (\<^verbatim>\<open>*endptr\<close> is the start).
\<close>

lemma strtol_zero_base0:
  assumes "m s = 0x30" and "m (s + 1) = 0"
  shows "strtol m s 0 = Some (0, s, False)"
proof -
  have "skip_spaces m s = Some s" using assms by (subst skip_spaces.simps) (simp add: isspace_def)
  moreover have "strtol_loop m 8 (s + 1) 0 0 = Some (s + 1, 0, 0)"
    using assms by (subst strtol_loop.simps) (simp add: digit_of_def)
  ultimately show ?thesis using assms by (simp add: strtol_def take_sign_def take_prefix_def)
qed

end
