(* ===== verification/Format.thy ===== *)
theory Format
  imports Libc_Stdlib
begin

text \<open>
  Formatted output: the kernel's \<^verbatim>\<open>kernel/kprintf.c\<close> and the C library's \<^verbatim>\<open>libc/src/stdio/printf.c\<close>.  Both
  walk over the format and hand the characters one by one to a function; here that function changes a
  context, and the text of a conversion is a list of bytes.  A format is the bytes before its NUL.
  \<open>None\<close> is behaviour C leaves undefined: reading behind the end of the format, writing behind the end of
  a local buffer, or an argument of the wrong type.
\<close>

section \<open>Arguments and digits\<close>

text \<open>What \<^verbatim>\<open>va_arg\<close> finds: an integer or pointer in a 64-bit slot, or a string that may be NULL.\<close>

datatype varg = Word u64 | Str "bytes option"

fun arg_word :: "varg list \<Rightarrow> (u64 \<times> varg list) option" where
  "arg_word (Word w # args) = Some (w, args)"
| "arg_word _ = None"

fun arg_string :: "varg list \<Rightarrow> (bytes \<times> varg list) option" where
  "arg_string (Str s # args) = Some (case s of Some t \<Rightarrow> takeWhile (\<lambda>c. c \<noteq> 0) t | None \<Rightarrow> [0x28, 0x6E, 0x75, 0x6C, 0x6C, 0x29], args)"
| "arg_string _ = None"

text \<open>\<^verbatim>\<open>va_arg(ap, int)\<close> and \<^verbatim>\<open>va_arg(ap, unsigned int)\<close>, widened to 64 bits.\<close>

definition as_int :: "u64 \<Rightarrow> u64" where "as_int w = scast (ucast w :: u32)"
definition as_uint :: "u64 \<Rightarrow> u64" where "as_uint w = ucast (ucast w :: u32)"

text \<open>\<^verbatim>\<open>while (n > 0) { buf[i++] = n % b; n /= b; }\<close>\<close>

function while_digits :: "nat \<Rightarrow> nat \<Rightarrow> nat list" where
  "while_digits b n = (if n = 0 \<or> b < 2 then [] else n mod b # while_digits b (n div b))"
  by pat_completeness auto
termination by (relation "measure snd") auto

declare while_digits.simps [simp del]

definition hex_digits :: "bool \<Rightarrow> bytes" where
  "hex_digits upper = map of_char (if upper then ''0123456789ABCDEF'' else ''0123456789abcdef'')"

definition hex_char :: "bool \<Rightarrow> nat \<Rightarrow> u8" where
  "hex_char upper d = hex_digits upper ! d"

definition dec_char :: "nat \<Rightarrow> u8" where "dec_char d = 0x30 + of_nat d"

definition is_digit :: "u8 \<Rightarrow> bool" where "is_digit c \<longleftrightarrow> 0x30 \<le> c \<and> c \<le> 0x39"

text \<open>\<^verbatim>\<open>width = width * 10 + (*fmt++ - '0')\<close> on an \<^verbatim>\<open>int\<close>, then the letters \<^verbatim>\<open>l\<close>.\<close>

fun take_width :: "int \<Rightarrow> bytes \<Rightarrow> int \<times> bytes" where
  "take_width w (c # cs) = (if is_digit c then take_width (wrap_int (w * 10 + (uint c - 0x30))) cs else (w, c # cs))"
| "take_width w [] = (w, [])"

fun take_longs :: "bytes \<Rightarrow> bool \<times> bytes" where
  "take_longs (c # cs) = (if c = 0x6C then (True, snd (take_longs cs)) else (False, c # cs))"
| "take_longs [] = (False, [])"

definition take_char :: "u8 \<Rightarrow> bytes \<Rightarrow> bool \<times> bytes" where
  "take_char c cs = (if cs \<noteq> [] \<and> hd cs = c then (True, tl cs) else (False, cs))"

section \<open>The kernel's formatter\<close>

text \<open>The digits in \<^verbatim>\<open>buf\<close>, least significant first, padded and printed backwards; \<open>sz\<close> is the size of \<^verbatim>\<open>buf\<close>.\<close>

definition padded :: "nat \<Rightarrow> int \<Rightarrow> bool \<Rightarrow> bytes \<Rightarrow> bytes option" where
  "padded sz width pad ds =
     (let buf = ds @ replicate (nat width - length ds) (if pad then 0x30 else 0x20)
      in if sz < length buf then None else Some (rev buf))"

definition kdigits :: "nat \<Rightarrow> u64 \<Rightarrow> nat list" where
  "kdigits b n = (if n = 0 then [0] else while_digits b (unat n))"

definition print_dec :: "u64 \<Rightarrow> bool \<Rightarrow> int \<Rightarrow> bool \<Rightarrow> bytes option" where
  "print_dec n sign width pad =
     (if sign \<and> sint n < 0
      then map_option (Cons 0x2D) (padded 21 (max (width - 1) 0) pad (map dec_char (kdigits 10 (- n))))
      else padded 21 width pad (map dec_char (kdigits 10 n)))"

definition print_hex :: "u64 \<Rightarrow> int \<Rightarrow> bool \<Rightarrow> bool \<Rightarrow> bytes option" where
  "print_hex n width pad upper = padded 17 width pad (map (hex_char upper) (kdigits 16 n))"

text \<open>The loop of \<^verbatim>\<open>%p\<close>; \<open>i\<close> counts the digits to come.\<close>

fun pointer_digits :: "u64 \<Rightarrow> bool \<Rightarrow> nat \<Rightarrow> bytes" where
  "pointer_digits v started 0 = []"
| "pointer_digits v started (Suc i) =
     (let d = unat (drop_bit (i * 4) v AND 0xF) in
      if d \<noteq> 0 \<or> started \<or> i = 0 then hex_char False d # pointer_digits v True i
      else pointer_digits v started i)"

definition kconversion :: "u8 \<Rightarrow> bool \<Rightarrow> int \<Rightarrow> bool \<Rightarrow> varg list \<Rightarrow> (bytes \<times> varg list) option" where
  "kconversion conv longlong width pad args =
     (if conv = 0x73 then arg_string args
      else if conv = 0x64
      then do { (w, args) \<leftarrow> arg_word args;
                t \<leftarrow> print_dec (if longlong then w else as_int w) True width pad; Some (t, args) }
      else if conv = 0x75
      then do { (w, args) \<leftarrow> arg_word args;
                t \<leftarrow> print_dec (if longlong then w else as_uint w) False width pad; Some (t, args) }
      else if conv = 0x78 \<or> conv = 0x58
      then do { (w, args) \<leftarrow> arg_word args;
                t \<leftarrow> print_hex (if longlong then w else as_uint w) width pad (conv = 0x58); Some (t, args) }
      else if conv = 0x70
      then do { (w, args) \<leftarrow> arg_word args; Some ([0x30, 0x78] @ pointer_digits w False 16, args) }
      else if conv = 0x63 then do { (w, args) \<leftarrow> arg_word args; Some ([ucast w], args) }
      else if conv = 0x25 then Some ([0x25], args)
      else Some ([], args))"

lemma take_width_length: "length (snd (take_width w cs)) \<le> length cs"
  by (induction w cs rule: take_width.induct) (auto simp: le_SucI)

lemma take_longs_length: "length (snd (take_longs cs)) \<le> length cs"
  by (induction cs rule: take_longs.induct) (auto simp: le_SucI)

lemma take_char_length: "length (snd (take_char c cs)) \<le> length cs"
  by (simp add: take_char_def)

text \<open>After a \<^verbatim>\<open>%\<close>: the zero flag, the width, the letters \<^verbatim>\<open>l\<close>, and what follows.\<close>

definition kspec :: "bytes \<Rightarrow> bool \<times> int \<times> bool \<times> bytes" where
  "kspec fmt =
     (let (pad, fmt) = take_char 0x30 fmt;
          (width, fmt) = take_width 0 fmt;
          (longlong, fmt) = take_longs fmt
      in (pad, width, longlong, fmt))"

lemma kspec_length: "kspec fmt = (pad, width, ll, rest) \<Longrightarrow> length rest \<le> length fmt"
  using take_char_length [of "0x30" fmt] take_width_length [of 0 "snd (take_char 0x30 fmt)"]
    take_longs_length [of "snd (take_width 0 (snd (take_char 0x30 fmt)))"]
  by (auto simp: kspec_def Let_def split: prod.splits)

function kvformat :: "(u8 \<Rightarrow> 'c \<Rightarrow> 'c) \<Rightarrow> bytes \<Rightarrow> varg list \<Rightarrow> 'c \<Rightarrow> 'c option" where
  "kvformat putch [] args ctx = Some ctx"
| "kvformat putch (c # fmt) args ctx =
     (if c = 0 then Some ctx
      else if c \<noteq> 0x25 then kvformat putch fmt args (putch c ctx)
      else (case kspec fmt of
              (pad, width, longlong, []) \<Rightarrow> None
            | (pad, width, longlong, conv # rest) \<Rightarrow>
                if conv = 0 then None
                else do { (t, args) \<leftarrow> kconversion conv longlong width pad args;
                          kvformat putch rest args (fold putch t ctx) }))"
  by pat_completeness auto
termination
  by (relation "measure (\<lambda>(putch, fmt, args, ctx). length fmt)") (auto dest: kspec_length [OF sym])

declare kvformat.simps [simp del]

text \<open>\<^verbatim>\<open>struct sbuf\<close>: the buffer and the position; its size is an argument.\<close>

definition sbuf_putch :: "nat \<Rightarrow> u8 \<Rightarrow> bytes \<times> nat \<Rightarrow> bytes \<times> nat" where
  "sbuf_putch sz c s = (case s of (buf, pos) \<Rightarrow> if pos + 1 < sz then (buf[pos := c], pos + 1) else (buf, pos))"

definition ksnprintf :: "bytes option \<Rightarrow> nat \<Rightarrow> bytes \<Rightarrow> varg list \<Rightarrow> (int \<times> bytes option) option" where
  "ksnprintf buf sz fmt args =
     (case buf of
        None \<Rightarrow> Some (0, None)
      | Some b \<Rightarrow>
          if sz = 0 then Some (0, Some b)
          else do { (b, pos) \<leftarrow> kvformat (sbuf_putch sz) fmt args (b, 0);
                    Some (wrap_int (int pos), Some (b[pos := 0])) })"

section \<open>The C library's formatter\<close>

text \<open>Text with \<open>n\<close> characters of padding before or behind it.\<close>

definition justify :: "bool \<Rightarrow> int \<Rightarrow> int \<Rightarrow> u8 \<Rightarrow> bytes \<Rightarrow> int \<Rightarrow> bytes" where
  "justify left width len pad_char t len' =
     (if \<not> left \<and> len < width then replicate (nat (width - len)) pad_char else []) @ t @
     (if left \<and> len' < width then replicate (nat (width - len')) 0x20 else [])"

definition print_num :: "u64 \<Rightarrow> nat \<Rightarrow> bool \<Rightarrow> bytes" where
  "print_num n base upper = map (hex_char upper) (rev (kdigits base n))"

text \<open>\<^verbatim>\<open>do { tmp[tlen++] = v % b; v /= b; } while (v)\<close>\<close>

definition do_digits :: "nat \<Rightarrow> u64 \<Rightarrow> nat list" where
  "do_digits b v = unat v mod b # while_digits b (unat v div b)"

text \<open>
  The conversions; \<open>junk\<close> is the uninitialised first byte of \<^verbatim>\<open>tmp\<close>, which \<^verbatim>\<open>%d\<close> prints behind the digits of a
  negative number.  When the text has been printed \<^verbatim>\<open>tlen\<close> is 0, which is what the padding behind
  a number compares the width with.
\<close>

definition print_signed :: "u8 \<Rightarrow> u64 \<Rightarrow> bool \<Rightarrow> int \<Rightarrow> u8 \<Rightarrow> bytes" where
  "print_signed junk v left width pad_char =
     (let neg = sint v < 0;
          ds = map dec_char (do_digits 10 (if neg then - v else v));
          tmp = (if neg then junk # ds else ds)
      in justify left width (int (length tmp)) pad_char ((if neg then [0x2D] else []) @ rev tmp) 0)"

definition print_unsigned :: "bytes \<Rightarrow> bool \<Rightarrow> int \<Rightarrow> u8 \<Rightarrow> bytes" where
  "print_unsigned tmp left width pad_char = justify left width (int (length tmp)) pad_char (rev tmp) 0"

definition conversion :: "u8 \<Rightarrow> u8 \<Rightarrow> bool \<Rightarrow> int \<Rightarrow> bool \<Rightarrow> u8 \<Rightarrow> varg list \<Rightarrow> (bytes \<times> varg list) option" where
  "conversion junk conv is_long width left pad_char args =
     (if conv = 0x73
      then do { (s, args) \<leftarrow> arg_string args;
                let len = int (length s);
                Some (justify left width len 0x20 s len, args) }
      else if conv = 0x64 \<or> conv = 0x69
      then do { (w, args) \<leftarrow> arg_word args;
                Some (print_signed junk (if is_long then w else as_int w) left width pad_char, args) }
      else if conv = 0x75
      then do { (w, args) \<leftarrow> arg_word args;
                let v = (if is_long then w else as_uint w);
                Some (print_unsigned (map dec_char (do_digits 10 v)) left width pad_char, args) }
      else if conv = 0x78 \<or> conv = 0x58
      then do { (w, args) \<leftarrow> arg_word args;
                let v = (if is_long then w else as_uint w);
                Some (print_unsigned (map (hex_char (conv = 0x58)) (do_digits 16 v)) left width pad_char, args) }
      else if conv = 0x70
      then do { (w, args) \<leftarrow> arg_word args;
                Some ([0x30, 0x78] @ (if w = 0 then [0x30] else print_num w 16 False), args) }
      else if conv = 0x63 then do { (w, args) \<leftarrow> arg_word args; Some ([ucast w], args) }
      else if conv = 0x25 then Some ([0x25], args)
      else Some ([0x25, conv], args))"

definition spec_width :: "bytes \<Rightarrow> int \<times> bytes" where
  "spec_width fmt =
     (if fmt \<noteq> [] \<and> 0x31 \<le> hd fmt \<and> hd fmt \<le> 0x39 then take_width 0 fmt else (0, fmt))"

definition spec :: "bytes \<Rightarrow> bool \<times> u8 \<times> int \<times> bool \<times> bytes" where
  "spec fmt =
     (let (left, fmt) = take_char 0x2D fmt;
          (zero, fmt) = take_char 0x30 fmt;
          (width, fmt) = spec_width fmt;
          (is_long, fmt) = take_longs fmt
      in (left, if zero then 0x30 else 0x20, width, is_long, fmt))"

lemma spec_length: "spec fmt = (left, pc, width, ll, rest) \<Longrightarrow> length rest \<le> length fmt"
  using take_char_length [of "0x2D" fmt] take_char_length [of "0x30" "snd (take_char 0x2D fmt)"]
    take_width_length [of 0 "snd (take_char 0x30 (snd (take_char 0x2D fmt)))"]
    take_longs_length [of "snd (spec_width (snd (take_char 0x30 (snd (take_char 0x2D fmt)))))"]
  by (auto simp: spec_def spec_width_def Let_def split: prod.splits if_splits)

function vcb_printf :: "u8 \<Rightarrow> bytes \<Rightarrow> varg list \<Rightarrow> (u8 \<Rightarrow> 'c \<Rightarrow> 'c) \<Rightarrow> 'c \<Rightarrow> 'c option" where
  "vcb_printf junk [] args out ctx = Some ctx"
| "vcb_printf junk (c # fmt) args out ctx =
     (if c = 0 then Some ctx
      else if c \<noteq> 0x25 then vcb_printf junk fmt args out (out c ctx)
      else (case spec fmt of
              (left, pad_char, width, is_long, []) \<Rightarrow> None
            | (left, pad_char, width, is_long, conv # rest) \<Rightarrow>
                if conv = 0 then None
                else do { (t, args) \<leftarrow> conversion junk conv is_long width left pad_char args;
                          vcb_printf junk rest args out (fold out t ctx) }))"
  by pat_completeness auto
termination
  by (relation "measure (\<lambda>(junk, fmt, args, out, ctx). length fmt)") (auto dest: spec_length [OF sym])

declare vcb_printf.simps [simp del]

definition strbuf_out :: "u64 \<Rightarrow> u8 \<Rightarrow> bytes \<times> u64 \<Rightarrow> bytes \<times> u64" where
  "strbuf_out mx c s = (case s of (buf, pos) \<Rightarrow> (if pos < mx then buf[unat pos := c] else buf, pos + 1))"

definition vsnprintf :: "u8 \<Rightarrow> bytes \<Rightarrow> u64 \<Rightarrow> bytes \<Rightarrow> varg list \<Rightarrow> (int \<times> bytes) option" where
  "vsnprintf junk buf n fmt args =
     do { (buf, pos) \<leftarrow> vcb_printf junk fmt args (strbuf_out (if 0 < n then n - 1 else 0)) (buf, 0);
          Some (sint (ucast pos :: u32), if 0 < n then buf[unat (if pos < n then pos else n - 1) := 0] else buf) }"

definition vsprintf :: "u8 \<Rightarrow> bytes \<Rightarrow> bytes \<Rightarrow> varg list \<Rightarrow> (int \<times> bytes) option" where
  "vsprintf junk buf fmt args = vsnprintf junk buf (- 1) fmt args"

text \<open>The bytes that go to the system call for standard output.\<close>

definition stdout_putchar :: "u8 \<Rightarrow> bytes \<Rightarrow> bytes" where
  "stdout_putchar c out = out @ [c]"

definition putchar :: "int \<Rightarrow> bytes \<Rightarrow> int \<times> bytes" where
  "putchar c out = (uint (word_of_int c :: u8), out @ [word_of_int c])"

definition puts :: "bytes \<Rightarrow> bytes \<Rightarrow> int \<times> bytes" where
  "puts s out = (1, stdout_putchar 0x0A (fold stdout_putchar (takeWhile (\<lambda>c. c \<noteq> 0) s) out))"

definition printf :: "u8 \<Rightarrow> bytes \<Rightarrow> varg list \<Rightarrow> bytes \<Rightarrow> (int \<times> bytes) option" where
  "printf junk fmt args out = map_option (Pair 0) (vcb_printf junk fmt args stdout_putchar out)"

section \<open>Both formatters print a text\<close>

definition snoc :: "u8 \<Rightarrow> bytes \<Rightarrow> bytes" where "snoc c t = t @ [c]"

lemma fold_snoc: "fold snoc t u = u @ t"
  by (induction t arbitrary: u) (simp_all add: snoc_def)

text \<open>The text, which does not depend on what the characters are handed to.\<close>

definition ktext :: "bytes \<Rightarrow> varg list \<Rightarrow> bytes option" where
  "ktext fmt args = kvformat snoc fmt args []"

definition ctext :: "u8 \<Rightarrow> bytes \<Rightarrow> varg list \<Rightarrow> bytes option" where
  "ctext junk fmt args = vcb_printf junk fmt args snoc []"

text \<open>
  What the two loops have in common: at every point of the format they stop, meet undefined behaviour
  or print a piece of text and go on with a shorter format.
\<close>

datatype fstep = Stop | Undefined | Emit bytes bytes "varg list"

locale formatter =
  fixes putch :: "u8 \<Rightarrow> 'c \<Rightarrow> 'c"
    and run :: "bytes \<Rightarrow> varg list \<Rightarrow> 'c \<Rightarrow> 'c option"
    and collect :: "bytes \<Rightarrow> varg list \<Rightarrow> bytes \<Rightarrow> bytes option"
    and step :: "bytes \<Rightarrow> varg list \<Rightarrow> fstep"
  assumes run: "run fmt args ctx =
      (case step fmt args of Stop \<Rightarrow> Some ctx | Undefined \<Rightarrow> None | Emit t f as \<Rightarrow> run f as (fold putch t ctx))"
    and collect: "collect fmt args u =
      (case step fmt args of Stop \<Rightarrow> Some u | Undefined \<Rightarrow> None | Emit t f as \<Rightarrow> collect f as (fold snoc t u))"
    and shorter: "step fmt args = Emit t f as \<Longrightarrow> length f < length fmt"
begin

lemma prints:
  "\<exists>r. (\<forall>ctx. run fmt args ctx = map_option (\<lambda>t. fold putch t ctx) r) \<and>
       (\<forall>u. collect fmt args u = map_option (\<lambda>t. u @ t) r)"
proof (induction fmt arbitrary: args rule: length_induct)
  case (1 fmt)
  show ?case
  proof (cases "step fmt args")
    case Stop
    then show ?thesis by (intro exI [of _ "Some []"]) (simp add: run [of fmt] collect [of fmt])
  next
    case Undefined
    then show ?thesis by (intro exI [of _ None]) (simp add: run [of fmt] collect [of fmt])
  next
    case (Emit t f as)
    then obtain r where "\<forall>ctx. run f as ctx = map_option (\<lambda>t. fold putch t ctx) r"
      "\<forall>u. collect f as u = map_option (\<lambda>t. u @ t) r" using 1 shorter by blast
    then show ?thesis using Emit
      by (intro exI [of _ "map_option ((@) t) r"])
        (simp add: run [of fmt] collect [of fmt] option.map_comp comp_def fold_snoc)
  qed
qed

lemma run_collect: "run fmt args ctx = map_option (\<lambda>t. fold putch t ctx) (collect fmt args [])"
proof -
  obtain r where "\<forall>ctx. run fmt args ctx = map_option (\<lambda>t. fold putch t ctx) r"
    "\<forall>u. collect fmt args u = map_option (\<lambda>t. u @ t) r" using prints by blast
  then show ?thesis by (simp add: option.map_ident)
qed

end

text \<open>The pieces of the two loops.\<close>

definition kstep :: "bytes \<Rightarrow> varg list \<Rightarrow> fstep" where
  "kstep fmt args =
     (case fmt of [] \<Rightarrow> Stop
      | c # fmt \<Rightarrow>
          if c = 0 then Stop
          else if c \<noteq> 0x25 then Emit [c] fmt args
          else (case kspec fmt of (pad, width, longlong, rest) \<Rightarrow>
            if rest = [] \<or> hd rest = 0 then Undefined
            else (case kconversion (hd rest) longlong width pad args of
                    None \<Rightarrow> Undefined | Some (t, args) \<Rightarrow> Emit t (tl rest) args)))"

definition cstep :: "u8 \<Rightarrow> bytes \<Rightarrow> varg list \<Rightarrow> fstep" where
  "cstep junk fmt args =
     (case fmt of [] \<Rightarrow> Stop
      | c # fmt \<Rightarrow>
          if c = 0 then Stop
          else if c \<noteq> 0x25 then Emit [c] fmt args
          else (case spec fmt of (left, pad_char, width, is_long, rest) \<Rightarrow>
            if rest = [] \<or> hd rest = 0 then Undefined
            else (case conversion junk (hd rest) is_long width left pad_char args of
                    None \<Rightarrow> Undefined | Some (t, args) \<Rightarrow> Emit t (tl rest) args)))"

lemma kvformat_step:
  "kvformat putch fmt args ctx =
     (case kstep fmt args of Stop \<Rightarrow> Some ctx | Undefined \<Rightarrow> None | Emit t f as \<Rightarrow> kvformat putch f as (fold putch t ctx))"
proof (cases fmt)
  case (Cons c f)
  obtain pad width ll rest where "kspec f = (pad, width, ll, rest)" by (cases "kspec f")
  then show ?thesis using Cons
    by (cases rest; cases "kconversion (hd rest) ll width pad args") (auto simp: kvformat.simps kstep_def)
qed (simp add: kvformat.simps kstep_def)

lemma vcb_printf_step:
  "vcb_printf junk fmt args out ctx =
     (case cstep junk fmt args of Stop \<Rightarrow> Some ctx | Undefined \<Rightarrow> None
      | Emit t f as \<Rightarrow> vcb_printf junk f as out (fold out t ctx))"
proof (cases fmt)
  case (Cons c f)
  obtain left pc width ll rest where "spec f = (left, pc, width, ll, rest)" by (cases "spec f")
  then show ?thesis using Cons
    by (cases rest; cases "conversion junk (hd rest) ll width left pc args") (auto simp: vcb_printf.simps cstep_def)
qed (simp add: vcb_printf.simps cstep_def)

lemma kstep_shorter: "kstep fmt args = Emit t f as \<Longrightarrow> length f < length fmt"
  by (cases fmt) (auto simp: kstep_def less_Suc_eq_le split: if_splits prod.splits option.splits dest!: kspec_length)

lemma cstep_shorter: "cstep junk fmt args = Emit t f as \<Longrightarrow> length f < length fmt"
  by (cases fmt) (auto simp: cstep_def less_Suc_eq_le split: if_splits prod.splits option.splits dest!: spec_length)

interpretation kf: formatter putch "kvformat putch" "kvformat snoc" kstep for putch :: "u8 \<Rightarrow> 'c \<Rightarrow> 'c"
  by unfold_locales (fact kvformat_step kstep_shorter)+

interpretation cf: formatter out "\<lambda>fmt args. vcb_printf junk fmt args out" "\<lambda>fmt args. vcb_printf junk fmt args snoc"
    "cstep junk" for junk and out :: "u8 \<Rightarrow> 'c \<Rightarrow> 'c"
  by unfold_locales (fact vcb_printf_step cstep_shorter)+

lemma kvformat_text: "kvformat putch fmt args ctx = map_option (\<lambda>t. fold putch t ctx) (ktext fmt args)"
  unfolding ktext_def by (rule kf.run_collect)

lemma vcb_printf_text: "vcb_printf junk fmt args out ctx = map_option (\<lambda>t. fold out t ctx) (ctext junk fmt args)"
  unfolding ctext_def by (rule cf.run_collect)

section \<open>Digits\<close>

lemma while_digits_less: "d \<in> set (while_digits b n) \<Longrightarrow> d < b"
proof (induction b n rule: while_digits.induct)
  case (1 b n)
  then show ?case by (subst (asm) (2) while_digits.simps) (auto split: if_splits)
qed

lemma while_digits_value: "2 \<le> b \<Longrightarrow> digits_value (int b) 0 (map int (rev (while_digits b n))) = int n"
proof (induction b n rule: while_digits.induct)
  case (1 b n)
  have app: "digits_value c v (xs @ [d]) = digits_value c v xs * c + d" for c v d and xs :: "int list"
    by (simp add: digits_value_def)
  show ?case
  proof (cases "n = 0")
    case True
    then show ?thesis by (simp add: while_digits.simps)
  next
    case False
    then have "while_digits b n = n mod b # while_digits b (n div b)" using 1(2) by (subst while_digits.simps) simp
    then show ?thesis using 1 False by (simp add: app flip: of_nat_mult of_nat_add)
  qed
qed

lemma while_digits_length: "2 \<le> b \<Longrightarrow> n < b ^ k \<Longrightarrow> length (while_digits b n) \<le> k"
proof (induction k arbitrary: n)
  case 0
  then show ?case by (simp add: while_digits.simps)
next
  case (Suc k)
  have "n div b < b ^ k" using Suc.prems by (simp add: less_mult_imp_div_less mult.commute)
  then show ?case using Suc.IH [of "n div b"] Suc.prems by (subst while_digits.simps) simp
qed

lemma kdigits_do: "2 \<le> b \<Longrightarrow> kdigits b n = do_digits b n"
  unfolding kdigits_def do_digits_def
  by (cases "n = 0") (simp_all add: while_digits.simps [of b "unat n"] unat_eq_0, simp add: while_digits.simps)

lemma kdigits_spec:
  assumes "2 \<le> b"
  shows "kdigits b n \<noteq> []" and "\<forall>d \<in> set (kdigits b n). d < b"
    and "digits_value (int b) 0 (map int (rev (kdigits b n))) = uint n"
proof -
  have "while_digits b (unat n) \<noteq> []" if "n \<noteq> 0"
    using that assms by (subst while_digits.simps) (simp add: unat_eq_0)
  then show "kdigits b n \<noteq> []" by (simp add: kdigits_def)
  show "\<forall>d \<in> set (kdigits b n). d < b" using assms while_digits_less by (auto simp: kdigits_def)
  show "digits_value (int b) 0 (map int (rev (kdigits b n))) = uint n"
    using assms while_digits_value [of b "unat n"] by (simp add: kdigits_def)
qed

lemma kdigits_dec_length: "length (kdigits 10 n) \<le> 20"
proof -
  have "unat n < 10 ^ 20" using unat_less_pow64 [of n] by (rule less_trans) simp
  then show ?thesis using while_digits_length [of 10 "unat n" 20] by (simp add: kdigits_def)
qed

section \<open>Buffers\<close>

text \<open>\<open>t\<close> written into \<open>b\<close> from \<open>pos\<close> on.\<close>

definition put_at :: "nat \<Rightarrow> bytes \<Rightarrow> bytes \<Rightarrow> bytes" where
  "put_at pos t b = take pos b @ t @ drop (pos + length t) b"

lemma put_at_Cons: "pos < length b \<Longrightarrow> put_at (Suc pos) t (b[pos := c]) = put_at pos (c # t) b"
  by (simp add: put_at_def take_Suc_conv_app_nth)

lemma put_at_Nil [simp]: "put_at pos [] b = b"
  by (simp add: put_at_def)

lemma put_at_length: "pos + length t \<le> length b \<Longrightarrow> length (put_at pos t b) = length b"
  by (simp add: put_at_def)

lemma put_at_end: "length t < length b \<Longrightarrow> (put_at 0 t b)[length t := c] = t @ [c] @ drop (Suc (length t)) b"
  by (simp add: put_at_def list_update_append Cons_nth_drop_Suc [symmetric])

lemma fold_sbuf:
  assumes "length b = sz" and "pos < sz"
  shows "fold (sbuf_putch sz) t (b, pos) = (put_at pos (take (sz - 1 - pos) t) b, min (pos + length t) (sz - 1))"
  using assms
proof (induction t arbitrary: b pos)
  case (Cons c t)
  show ?case
  proof (cases "pos + 1 < sz")
    case True
    then have "sz - 1 - pos = Suc (sz - 1 - Suc pos)" by simp
    then show ?thesis using Cons.IH [of "b[pos := c]" "Suc pos"] True Cons.prems
      by (simp add: sbuf_putch_def put_at_Cons)
  next
    case False
    then show ?thesis using Cons.IH [of b pos] Cons.prems by (simp add: sbuf_putch_def)
  qed
qed simp

lemma ksnprintf_text:
  assumes "length b = sz" and "0 < sz" and "ktext fmt args = Some t"
  shows "ksnprintf (Some b) sz fmt args =
    Some (wrap_int (int (min (length t) (sz - 1))), Some (take (sz - 1) t @ [0] @ drop (Suc (min (length t) (sz - 1))) b))"
proof -
  let ?t = "take (sz - 1) t"
  have len: "length ?t = min (length t) (sz - 1)" by simp
  have "(put_at 0 ?t b)[length ?t := 0] = ?t @ [0] @ drop (Suc (length ?t)) b"
    using assms(1,2) by (intro put_at_end) simp
  then show ?thesis using assms fold_sbuf [OF assms(1,2), of t] unfolding len
    by (simp add: ksnprintf_def kvformat_text)
qed

lemma fold_strbuf:
  assumes "length b = unat mx + 1" and "unat pos + length t < 2 ^ 64"
  shows "fold (strbuf_out mx) t (b, pos) =
    (put_at (min (unat pos) (length b)) (take (unat mx - unat pos) t) b, pos + of_nat (length t))"
  using assms
proof (induction t arbitrary: b pos)
  case (Cons c t)
  have up: "unat (pos + 1) = Suc (unat pos)" using Cons.prems(2) by (subst unat_add_nowrap) simp_all
  show ?case
  proof (cases "pos < mx")
    case True
    then have lt: "unat pos < unat mx" by (simp add: word_less_nat_alt)
    then have "unat mx - unat pos = Suc (unat mx - Suc (unat pos))" by simp
    moreover have "min (unat pos) (length b) = unat pos" "min (Suc (unat pos)) (length b) = Suc (unat pos)"
      using lt Cons.prems(1) by simp_all
    ultimately show ?thesis using Cons.IH [of "b[unat pos := c]" "pos + 1"] True Cons.prems up lt
      by (simp add: strbuf_out_def put_at_Cons algebra_simps)
  next
    case False
    then have "unat mx \<le> unat pos" by (simp add: word_less_nat_alt)
    then show ?thesis using Cons.IH [of b "pos + 1"] False Cons.prems up
      by (simp add: strbuf_out_def algebra_simps)
  qed
qed simp

text \<open>
  C15 (bounds): \<^verbatim>\<open>vsnprintf\<close> of a text of \<open>length t\<close> bytes, below \<open>2 ^ 31\<close>, into a buffer of \<open>n\<close> bytes returns
  the length of the whole text; the buffer holds the text cut to \<open>n - 1\<close> bytes and a NUL, the bytes
  behind them are unchanged, and with \<open>n = 0\<close> nothing is written.
\<close>

theorem vsnprintf_truncates:
  assumes "ctext junk fmt args = Some t" and "length b = unat n" and "length t < 2 ^ 31"
  shows "vsnprintf junk b n fmt args = Some (int (length t),
    if n = 0 then b else take (unat n - 1) t @ [0] @ drop (Suc (min (length t) (unat n - 1))) b)"
proof -
  have un: "unat (of_nat (length t) :: u64) = length t" using assms(3) by (intro unat_of_nat64) simp
  have uw: "uint (of_nat (length t) :: u64) = int (length t)" unfolding uint_nat un ..
  have "uint (ucast (of_nat (length t) :: u64) :: u32) = int (length t)"
    using assms(3) by (simp add: unsigned_ucast_eq uw take_bit_int_eq_self)
  then have r: "sint (ucast (of_nat (length t) :: u64) :: u32) = int (length t)"
    using assms(3) by (simp add: sint_uint signed_take_bit_int_eq_self)
  show ?thesis
  proof (cases "n = 0")
    case True
    have "fold (strbuf_out 0) t (b, p) = (b, p + of_nat (length t))" for p
      by (induction t arbitrary: p) (simp_all add: strbuf_out_def algebra_simps)
    then show ?thesis using assms True r by (simp add: vsnprintf_def vcb_printf_text)
  next
    case False
    have n1: "unat (n - 1) = unat n - 1" "0 < unat n" "0 < n"
      using False by (simp_all add: unat_minus_one unat_gt_0 word_gt_0)
    let ?t = "take (unat n - 1) t"
    have f: "fold (strbuf_out (n - 1)) t (b, 0) = (put_at 0 ?t b, of_nat (length t))"
      using fold_strbuf [of b "n - 1" 0 t] assms(2,3) n1 by simp
    have i: "unat (if of_nat (length t) < n then of_nat (length t) else n - 1) = length ?t"
      using un n1 by (auto simp: word_less_nat_alt)
    have "(put_at 0 ?t b)[length ?t := 0] = ?t @ [0] @ drop (Suc (length ?t)) b"
      using assms(2) n1 by (intro put_at_end) simp
    then show ?thesis using assms(1) False n1 f i r by (simp add: vsnprintf_def vcb_printf_text)
  qed
qed

definition fmt_hello :: bytes where "fmt_hello = [0x68, 0x69, 0x20, 0x25, 0x75]"

theorem vsnprintf_truncates_witness:
  "vsnprintf 0 (replicate 5 0xFF) 5 fmt_hello [Word 427] = Some (6, [0x68, 0x69, 0x20, 0x34, 0])"
proof -
  have "ctext 0 fmt_hello [Word 427] = Some [0x68, 0x69, 0x20, 0x34, 0x32, 0x37]"
    by (simp add: ctext_def fmt_hello_def vcb_printf.simps spec_def take_char_def spec_width_def take_width.simps
        conversion_def as_uint_def do_digits_def while_digits.simps print_unsigned_def justify_def dec_char_def snoc_def
        is_digit_def)
  from vsnprintf_truncates [OF this, of "replicate 5 0xFF" 5] show ?thesis by simp
qed

section \<open>Printing and parsing a number\<close>

lemma dec_char_digit:
  assumes "d < 10"
  shows "digit_of (dec_char d) = Some (int d)" and "dec_char d \<noteq> 0" and "\<not> isspace (dec_char d)"
    and "dec_char d \<noteq> 0x2D" and "dec_char d \<noteq> 0x2B"
proof -
  have "d \<in> {0, 1, 2, 3, 4, 5, 6, 7, 8, 9}" using assms by auto
  then show "digit_of (dec_char d) = Some (int d)" "dec_char d \<noteq> 0" "\<not> isspace (dec_char d)"
    "dec_char d \<noteq> 0x2D" "dec_char d \<noteq> 0x2B"
    by (auto simp: digit_of_def dec_char_def isspace_def)
qed

lemma cstr_digits_at:
  assumes "cstr m p (map dec_char ds)" and "\<forall>d \<in> set ds. d < 10"
  shows "digits_at m 10 p (map int ds)"
  using assms
proof (induction ds arbitrary: p)
  case Nil
  then show ?case by (simp add: digits_at_Nil digit_of_def)
next
  case (Cons d ds)
  then show ?case by (simp add: digits_at_Cons dec_char_digit)
qed

lemma strtol_decimal:
  assumes "cstr m p ((if neg then [0x2D] else []) @ map dec_char ds)" and "\<forall>d \<in> set ds. d < 10" and "ds \<noteq> []"
    and "digits_value 10 0 (map int ds) \<le> LONG_MAX"
  shows "strtol m p 10 = Some ((if neg then - 1 else 1) * digits_value 10 0 (map int ds),
     p + of_nat ((if neg then 1 else 0) + length ds), False)"
proof -
  define q where "q = (if neg then p + 1 else p)"
  have q: "cstr m q (map dec_char ds)" using assms(1) by (auto simp: q_def split: if_splits)
  obtain d es where ds: "ds = d # es" using assms(3) by (cases ds) auto
  have d: "m q = dec_char d" "d < 10" using q ds assms(2) by auto
  have "\<not> isspace (m p)" using assms(1) d dec_char_digit(3) by (auto simp: q_def isspace_def split: if_splits)
  then have sp: "skip_spaces m p = Some p" by (subst skip_spaces.simps) simp
  have sg: "take_sign m p = (neg, q)"
    using assms(1) d dec_char_digit(4,5) by (auto simp: take_sign_def q_def split: if_splits)
  have px: "take_prefix m q 10 = (10, q)" by (simp add: take_prefix_def)
  have "strtol m p 10 = Some ((if neg then - 1 else 1) * digits_value 10 0 (map int ds), q + of_nat (length ds), False)"
    using strtol_loop_value [OF cstr_digits_at [OF q assms(2)], of 0 0] assms(3,4)
    by (auto simp: strtol_def sp sg px LONG_MAX_def)
  then show ?thesis by (simp add: q_def)
qed

lemma padded_none: "length ds \<le> sz \<Longrightarrow> padded sz 0 pad ds = Some (rev ds)"
  by (simp add: padded_def Let_def)

text \<open>\<^verbatim>\<open>"%lld"\<close>\<close>

definition fmt_lld :: bytes where "fmt_lld = [0x25, 0x6C, 0x6C, 0x64]"

lemma ktext_lld:
  "ktext fmt_lld [Word n] =
     Some ((if sint n < 0 then [0x2D] else []) @ map dec_char (rev (kdigits 10 (if sint n < 0 then - n else n))))"
proof -
  have "kspec [0x6C, 0x6C, 0x64] = (False, 0, True, [0x64])"
    by (simp add: kspec_def take_char_def is_digit_def)
  then have "ktext fmt_lld [Word n] = do { t \<leftarrow> print_dec n True 0 False; Some t }"
    unfolding ktext_def fmt_lld_def
    by (simp add: kvformat.simps kconversion_def fold_snoc split: bind_split)
  moreover have "padded 21 0 False (map dec_char (kdigits 10 k)) = Some (map dec_char (rev (kdigits 10 k)))" for k
    using kdigits_dec_length [of k] by (simp add: padded_none rev_map)
  ultimately show ?thesis by (simp add: print_dec_def)
qed

lemma uint_neg_sint: "sint (n :: u64) < 0 \<Longrightarrow> sint n \<noteq> - (2 ^ 63) \<Longrightarrow> uint (- n) = - sint n"
proof -
  assume neg: "sint n < 0" "sint n \<noteq> - (2 ^ 63)"
  have "- (2 ^ 63) \<le> sint n" using sint_ge [of n] by simp
  then have "- sint n < 2 ^ 64" "0 \<le> - sint n" using neg by simp_all
  then have "uint (word_of_int (- sint n) :: u64) = - sint n" unfolding uint_word_of_int_eq by (simp add: take_bit_int_eq_self)
  then show "uint (- n) = - sint n" by simp
qed

lemma uint_pos_sint: "0 \<le> sint (n :: u64) \<Longrightarrow> uint n = sint n"
proof -
  assume pos: "0 \<le> sint n"
  have "sint n < 2 ^ 63" using sint_lt [of n] by simp
  then have "sint n < 2 ^ 64" by simp
  then have "uint (word_of_int (sint n) :: u64) = sint n"
    using pos unfolding uint_word_of_int_eq by (simp add: take_bit_int_eq_self)
  then show "uint n = sint n" by simp
qed

text \<open>
  C27 (roundtrip): the kernel's \<^verbatim>\<open>%lld\<close> and the C library's \<^verbatim>\<open>strtol\<close> are inverse.  \<^verbatim>\<open>ksnprintf\<close> of a 64-bit
  number other than \<open>-2^63\<close> into a buffer of at least 22 bytes returns the length of a string, and
  wherever that string is in memory \<^verbatim>\<open>strtol\<close> reads the number back, up to its NUL and without error.
\<close>

theorem print_parse_number:
  assumes "length b = sz" and "22 \<le> sz" and "sint n \<noteq> - (2 ^ 63)"
  shows "\<exists>t. ksnprintf (Some b) sz fmt_lld [Word n] = Some (int (length t), Some (t @ [0] @ drop (length t + 1) b)) \<and>
    (\<forall>m p. cstr m p t \<longrightarrow> strtol m p 10 = Some (sint n, p + of_nat (length t), False))"
proof -
  define k where "k = (if sint n < 0 then - n else n)"
  define t where "t = (if sint n < 0 then [0x2D] else []) @ map dec_char (rev (kdigits 10 k))"
  have len: "length t \<le> 21" using kdigits_dec_length [of k] by (simp add: t_def)
  have "ktext fmt_lld [Word n] = Some t" by (simp add: ktext_lld t_def k_def)
  then have "ksnprintf (Some b) sz fmt_lld [Word n] = Some (int (length t), Some (t @ [0] @ drop (length t + 1) b))"
    using ksnprintf_text [OF assms(1)] assms(2) len by (simp add: wrap_int_id)
  moreover have "strtol m p 10 = Some (sint n, p + of_nat (length t), False)" if "cstr m p t" for m p
  proof -
    have v: "(if sint n < 0 then - 1 else 1) * uint k = sint n" "uint k \<le> LONG_MAX"
      using assms(3) uint_neg_sint [of n] uint_pos_sint [of n] sint_lt [of n] sint_ge [of n]
      by (auto simp: k_def LONG_MAX_def)
    show ?thesis
      using strtol_decimal [of m p "sint n < 0" "rev (kdigits 10 k)"] that kdigits_spec [of 10 k] v
      by (auto simp: t_def)
  qed
  ultimately show ?thesis by blast
qed

theorem print_parse_number_witness:
  "\<exists>t. ksnprintf (Some (replicate 32 0)) 32 fmt_lld [Word (- 42)] =
      Some (int (length t), Some (t @ [0] @ drop (length t + 1) (replicate 32 0))) \<and>
    (\<forall>m p. cstr m p t \<longrightarrow> strtol m p 10 = Some (sint (- 42 :: u64), p + of_nat (length t), False))"
  by (rule print_parse_number) simp_all

section \<open>Where the formatters go wrong\<close>

text \<open>
  The library's \<^verbatim>\<open>%d\<close> counts the sign as a character of \<^verbatim>\<open>tmp\<close> but does not store it there: a negative number
  is followed by the uninitialised byte.
\<close>

lemma print_signed_negative:
  assumes "sint v < 0"
  shows "print_signed junk v False 0 pad_char = 0x2D # map dec_char (rev (do_digits 10 (- v))) @ [junk]"
  using assms by (simp add: print_signed_def justify_def Let_def rev_map)

text \<open>A number printed to the left of its field is followed by the whole width in blanks.\<close>

lemma print_unsigned_left:
  "print_unsigned tmp True (int w) pad_char = rev tmp @ replicate w 0x20"
  by (simp add: print_unsigned_def justify_def)

text \<open>The kernel's \<^verbatim>\<open>%d\<close> prints the sign before the blanks, and a width above 21 overruns its buffer.\<close>

lemma print_dec_sign_first: "print_dec (- 3) True 5 False = Some [0x2D, 0x20, 0x20, 0x20, 0x33]"
proof -
  have "while_digits 10 3 = [3]" by (simp add: while_digits.simps [of 10 3] while_digits.simps [of 10 0])
  then have "kdigits 10 3 = [3]" by (simp add: kdigits_def)
  then show ?thesis by (simp add: print_dec_def padded_def dec_char_def Let_def numeral_3_eq_3)
qed

lemma print_dec_overrun:
  assumes "21 < width"
  shows "print_dec n False width pad = None"
proof -
  have "21 < nat width" using assms by simp
  then show ?thesis using kdigits_dec_length [of n] by (simp add: print_dec_def padded_def Let_def)
qed

text \<open>A format that ends with \<^verbatim>\<open>%\<close> is read beyond its end.\<close>

lemma kvformat_trailing_percent: "kvformat putch [0x25] args ctx = None"
  by (simp add: kvformat.simps kspec_def take_char_def)

end
