(* ===== verification/Block.thy ===== *)
theory Block
  imports Prelude
begin

text \<open>
  The block layer, \<^verbatim>\<open>kernel/block/block.c\<close> and \<^verbatim>\<open>block.h\<close>: the table of registered devices, reads
  and writes with their bounds checks, the MBR parser and the partition devices it creates.

  A \<^verbatim>\<open>struct block_device *\<close> is NULL, one of the drivers' own device structures, or the \<^verbatim>\<open>dev\<close> field
  of a slot of \<^verbatim>\<open>stored_parts\<close>.  The operations of the drivers, reached through function pointers,
  are parameters (\<open>blkdrv\<close>) that act on a disk state of any type; a status of 0 is success, and the
  bytes returned by a read are the contents of the caller's buffer afterwards.
\<close>

section \<open>State\<close>

definition BLOCK_NAME_MAX :: nat where "BLOCK_NAME_MAX = 16"
definition BLOCK_MAX_DEVS :: nat where "BLOCK_MAX_DEVS = 16"
definition BLOCK_MAX_PARTS :: nat where "BLOCK_MAX_PARTS = 16"

datatype devptr = DNull | Drv nat | Part nat
datatype partptr = PNull | PLocal nat | PStored nat
datatype block_ops = NoOps | DrvOps (has_rd: bool) (has_wr: bool) | PartOps

record block_device =
  bd_name :: string
  bd_sector_count :: u64
  bd_sector_size :: u32
  bd_ops :: block_ops
  bd_private :: partptr
  bd_registered :: bool

record partition =
  pt_index :: int
  pt_type :: u8
  pt_bootable :: bool
  pt_start_lba :: u64
  pt_sector_count :: u64
  pt_parent :: devptr
  pt_dev :: block_device

record 'd blkdrv =
  drv_read :: "nat \<Rightarrow> u64 \<Rightarrow> u8 \<Rightarrow> 'd \<Rightarrow> int \<times> bytes"
  drv_write :: "nat \<Rightarrow> u64 \<Rightarrow> u8 \<Rightarrow> bytes \<Rightarrow> 'd \<Rightarrow> int \<times> 'd"

record blkst =
  drv_devs :: "nat \<Rightarrow> block_device"
  devices :: "devptr list"
  device_count :: nat
  stored_parts :: "partition list"
  stored_part_count :: nat

definition dev_at :: "blkst \<Rightarrow> devptr \<Rightarrow> block_device" where
  "dev_at s d = (case d of Drv n \<Rightarrow> drv_devs s n | Part i \<Rightarrow> pt_dev (stored_parts s ! i)
                         | DNull \<Rightarrow> drv_devs s 0)"

definition set_dev :: "devptr \<Rightarrow> (block_device \<Rightarrow> block_device) \<Rightarrow> blkst \<Rightarrow> blkst" where
  "set_dev d f s =
     (case d of
        Drv n \<Rightarrow> s\<lparr>drv_devs := (drv_devs s)(n := f (drv_devs s n))\<rparr>
      | Part i \<Rightarrow> s\<lparr>stored_parts := (stored_parts s)
                     [i := (stored_parts s ! i)\<lparr>pt_dev := f (pt_dev (stored_parts s ! i))\<rparr>]\<rparr>
      | DNull \<Rightarrow> s)"

fun ops_read :: "block_ops \<Rightarrow> bool" where
  "ops_read NoOps = False"
| "ops_read (DrvOps r w) = r"
| "ops_read PartOps = True"

fun ops_write :: "block_ops \<Rightarrow> bool" where
  "ops_write NoOps = False"
| "ops_write (DrvOps r w) = w"
| "ops_write PartOps = True"

section \<open>Registration\<close>

definition block_init :: "blkst \<Rightarrow> int \<times> blkst" where
  "block_init s = (0, s\<lparr>device_count := 0, devices := replicate BLOCK_MAX_DEVS DNull\<rparr>)"

definition block_register :: "devptr \<Rightarrow> blkst \<Rightarrow> int \<times> blkst" where
  "block_register d s =
     (if d = DNull \<or> BLOCK_MAX_DEVS \<le> device_count s then (-1, s)
      else if bd_registered (dev_at s d) then (-1, s)
      else if \<not> ops_read (bd_ops (dev_at s d)) then (-1, s)
      else if bd_sector_size (dev_at s d) = 0 then (-1, s)
      else (0, (set_dev d (bd_registered_update (\<lambda>_. True)) s)
                 \<lparr>devices := (devices s)[device_count s := d], device_count := device_count s + 1\<rparr>))"

text \<open>\<^verbatim>\<open>for (j = i; j < device_count - 1; j++) devices[j] = devices[j + 1];\<close>\<close>

definition shift_down :: "nat \<Rightarrow> nat \<Rightarrow> devptr list \<Rightarrow> devptr list" where
  "shift_down i n ds = fold (\<lambda>j ds. ds[j := ds ! Suc j]) [i..<n - 1] ds"

fun unregister_from :: "nat \<Rightarrow> nat \<Rightarrow> devptr \<Rightarrow> blkst \<Rightarrow> int \<times> blkst" where
  "unregister_from i 0 d s = (-1, s)"
| "unregister_from i (Suc k) d s =
     (if devices s ! i = d then
        (0, (set_dev d (bd_registered_update (\<lambda>_. False)) s)
              \<lparr>devices := (shift_down i (device_count s) (devices s))[device_count s - 1 := DNull],
               device_count := device_count s - 1\<rparr>)
      else unregister_from (Suc i) k d s)"

definition block_unregister :: "devptr \<Rightarrow> blkst \<Rightarrow> int \<times> blkst" where
  "block_unregister d s =
     (if d = DNull \<or> \<not> bd_registered (dev_at s d) then (-1, s)
      else unregister_from 0 (device_count s) d s)"

definition block_get :: "int \<Rightarrow> blkst \<Rightarrow> devptr" where
  "block_get i s = (if i < 0 \<or> int (device_count s) \<le> i then DNull else devices s ! nat i)"

definition block_count :: "blkst \<Rightarrow> int" where
  "block_count s = int (device_count s)"

definition block_partition_count :: "blkst \<Rightarrow> int" where
  "block_partition_count s = int (stored_part_count s)"

definition block_partition_get :: "int \<Rightarrow> blkst \<Rightarrow> devptr" where
  "block_partition_get i s = (if i < 0 \<or> int (stored_part_count s) \<le> i then DNull else Part (nat i))"

section \<open>Reading and writing\<close>

text \<open>
  \<^verbatim>\<open>block_read\<close> calls the device's \<^verbatim>\<open>read\<close>; for a partition that is \<^verbatim>\<open>part_read\<close>, which calls
  \<^verbatim>\<open>block_read\<close> on the parent.  The second component is what the buffer receives on success.
\<close>

definition part_of :: "blkst \<Rightarrow> partptr \<Rightarrow> partition option" where
  "part_of s p = (case p of PStored i \<Rightarrow> Some (stored_parts s ! i) | _ \<Rightarrow> None)"

definition part_target :: "blkst \<Rightarrow> devptr \<Rightarrow> u64 \<Rightarrow> u8 \<Rightarrow> (devptr \<times> u64) option" where
  "part_target s d sector count =
     (case part_of s (bd_private (dev_at s d)) of
        None \<Rightarrow> None
      | Some part \<Rightarrow>
          if pt_parent part = DNull then None
          else if pt_sector_count part < sector + ucast count then None
          else Some (pt_parent part, pt_start_lba part + sector))"

definition io_allowed :: "(block_ops \<Rightarrow> bool) \<Rightarrow> blkst \<Rightarrow> devptr \<Rightarrow> u64 \<Rightarrow> u8 \<Rightarrow> bool" where
  "io_allowed has_op s d sector count \<longleftrightarrow>
     d \<noteq> DNull \<and> bd_registered (dev_at s d) \<and> has_op (bd_ops (dev_at s d)) \<and>
     sector + ucast count \<le> bd_sector_count (dev_at s d)"

partial_function (option) block_read ::
  "'d blkdrv \<Rightarrow> blkst \<Rightarrow> 'd \<Rightarrow> devptr \<Rightarrow> u64 \<Rightarrow> u8 \<Rightarrow> (int \<times> bytes) option" where
  "block_read V s disk d sector count =
     (if \<not> io_allowed ops_read s d sector count then Some (-1, [])
      else (case (bd_ops (dev_at s d), d) of
              (PartOps, _) \<Rightarrow>
                (case part_target s d sector count of
                   None \<Rightarrow> Some (-1, [])
                 | Some (parent, lba) \<Rightarrow> block_read V s disk parent lba count)
            | (_, Drv n) \<Rightarrow> Some (drv_read V n sector count disk)
            | _ \<Rightarrow> Some (-1, [])))"

partial_function (option) block_write ::
  "'d blkdrv \<Rightarrow> blkst \<Rightarrow> 'd \<Rightarrow> devptr \<Rightarrow> u64 \<Rightarrow> u8 \<Rightarrow> bytes \<Rightarrow> (int \<times> 'd) option" where
  "block_write V s disk d sector count buf =
     (if \<not> io_allowed ops_write s d sector count then Some (-1, disk)
      else (case (bd_ops (dev_at s d), d) of
              (PartOps, _) \<Rightarrow>
                (case part_target s d sector count of
                   None \<Rightarrow> Some (-1, disk)
                 | Some (parent, lba) \<Rightarrow> block_write V s disk parent lba count buf)
            | (_, Drv n) \<Rightarrow> Some (drv_write V n sector count buf disk)
            | _ \<Rightarrow> Some (-1, disk)))"

definition part_read ::
  "'d blkdrv \<Rightarrow> blkst \<Rightarrow> 'd \<Rightarrow> devptr \<Rightarrow> u64 \<Rightarrow> u8 \<Rightarrow> (int \<times> bytes) option" where
  "part_read V s disk d sector count =
     (case part_target s d sector count of
        None \<Rightarrow> Some (-1, [])
      | Some (parent, lba) \<Rightarrow> block_read V s disk parent lba count)"

definition part_write ::
  "'d blkdrv \<Rightarrow> blkst \<Rightarrow> 'd \<Rightarrow> devptr \<Rightarrow> u64 \<Rightarrow> u8 \<Rightarrow> bytes \<Rightarrow> (int \<times> 'd) option" where
  "part_write V s disk d sector count buf =
     (case part_target s d sector count of
        None \<Rightarrow> Some (-1, disk)
      | Some (parent, lba) \<Rightarrow> block_write V s disk parent lba count buf)"

section \<open>Partitions\<close>

text \<open>Entry \<open>i\<close> of the partition table, at byte \<open>446 + 16 * i\<close> of the packed \<^verbatim>\<open>struct mbr\<close>.\<close>

record mbr_part_entry =
  mpe_status :: u8
  mpe_type :: u8
  mpe_lba_first :: u32
  mpe_sector_count :: u32

definition mbr_entry :: "bytes \<Rightarrow> nat \<Rightarrow> mbr_part_entry" where
  "mbr_entry b i = (let k = 446 + 16 * i in
     \<lparr>mpe_status = b ! k, mpe_type = b ! (k + 4), mpe_lba_first = le32 b (k + 8),
      mpe_sector_count = le32 b (k + 12)\<rparr>)"

definition mbr_sig :: "bytes \<Rightarrow> u16" where
  "mbr_sig b = le16 b 510"

definition mbr_skip :: "u64 \<Rightarrow> mbr_part_entry \<Rightarrow> bool" where
  "mbr_skip sectors e \<longleftrightarrow>
     mpe_type e = 0 \<or> mpe_lba_first e = 0 \<or> mpe_sector_count e = 0 \<or>
     sectors < ucast (mpe_lba_first e) + ucast (mpe_sector_count e)"

fun mbr_loop ::
  "bytes \<Rightarrow> devptr \<Rightarrow> u64 \<Rightarrow> nat \<Rightarrow> nat list \<Rightarrow> nat \<Rightarrow> partition list \<Rightarrow> nat \<times> partition list" where
  "mbr_loop b d sectors max_parts [] count parts = (count, parts)"
| "mbr_loop b d sectors max_parts (i # is) count parts =
     (if max_parts \<le> count then (count, parts)
      else let e = mbr_entry b i in
        if mbr_skip sectors e then mbr_loop b d sectors max_parts is count parts
        else mbr_loop b d sectors max_parts is (count + 1)
          (parts[count := (parts ! count)
             \<lparr>pt_index := int i + 1, pt_type := mpe_type e,
              pt_bootable := (mpe_status e AND 0x80 \<noteq> 0),
              pt_start_lba := ucast (mpe_lba_first e),
              pt_sector_count := ucast (mpe_sector_count e), pt_parent := d,
              pt_dev := (pt_dev (parts ! count))\<lparr>bd_private := PLocal count, bd_ops := PartOps\<rparr>\<rparr>]))"

definition block_parse_mbr ::
  "'d blkdrv \<Rightarrow> blkst \<Rightarrow> 'd \<Rightarrow> devptr \<Rightarrow> partition list \<Rightarrow> int \<Rightarrow> (int \<times> partition list) option" where
  "block_parse_mbr V s disk d parts max_parts =
     (if d = DNull \<or> max_parts < 1 then Some (-1, parts)
      else do { (st, b) \<leftarrow> block_read V s disk d 0 1;
                if st \<noteq> 0 then Some (-1, parts)
                else if mbr_sig b \<noteq> 0xAA55 then Some (-1, parts)
                else let (n, ps) = mbr_loop b d (bd_sector_count (dev_at s d)) (nat max_parts) [0..<4] 0 parts
                     in Some (int n, ps) })"

text \<open>
  \<^verbatim>\<open>name[nlen]\<close> is copied up to its NUL or to \<^verbatim>\<open>BLOCK_NAME_MAX - 3\<close> characters, then \<^verbatim>\<open>p\<close> and the
  partition's digit follow.
\<close>

definition part_name :: "string \<Rightarrow> int \<Rightarrow> string" where
  "part_name parent i = take (BLOCK_NAME_MAX - 3) parent @ [CHR ''p'', char_of (48 + nat i)]"

definition store_part :: "partition \<Rightarrow> blkst \<Rightarrow> blkst" where
  "store_part p s =
     (let k = stored_part_count s;
          p = p\<lparr>pt_dev := (pt_dev p)
                  \<lparr>bd_private := PStored k,
                   bd_name := part_name (bd_name (dev_at s (pt_parent p))) (pt_index p),
                   bd_sector_count := pt_sector_count p,
                   bd_sector_size := bd_sector_size (dev_at s (pt_parent p)),
                   bd_registered := False\<rparr>\<rparr>;
          s = snd (block_register (Part k) (s\<lparr>stored_parts := (stored_parts s)[k := p]\<rparr>))
      in s\<lparr>stored_part_count := k + 1\<rparr>)"

fun register_parts_loop :: "partition list \<Rightarrow> blkst \<Rightarrow> blkst" where
  "register_parts_loop [] s = s"
| "register_parts_loop (p # ps) s =
     (if stored_part_count s < BLOCK_MAX_PARTS then register_parts_loop ps (store_part p s) else s)"

definition block_register_partitions ::
  "'d blkdrv \<Rightarrow> partition list \<Rightarrow> blkst \<Rightarrow> 'd \<Rightarrow> devptr \<Rightarrow> (int \<times> blkst) option" where
  "block_register_partitions V locals s disk d =
     do { (n, ps) \<leftarrow> block_parse_mbr V s disk d locals (int BLOCK_MAX_PARTS);
          if n \<le> 0 then Some (0, s)
          else let s = register_parts_loop (take (nat n) ps) s
               in Some (int (stored_part_count s), s) }"

section \<open>The table as a list of devices\<close>

lemmas block_limits = BLOCK_NAME_MAX_def BLOCK_MAX_DEVS_def BLOCK_MAX_PARTS_def

definition registry :: "blkst \<Rightarrow> devptr list" where
  "registry s = take (device_count s) (devices s)"

definition ptr_ok :: "devptr \<Rightarrow> bool" where
  "ptr_ok d \<longleftrightarrow> (case d of DNull \<Rightarrow> False | Drv n \<Rightarrow> True | Part i \<Rightarrow> i < BLOCK_MAX_PARTS)"

definition blk_inv :: "blkst \<Rightarrow> bool" where
  "blk_inv s \<longleftrightarrow>
     length (devices s) = BLOCK_MAX_DEVS \<and> length (stored_parts s) = BLOCK_MAX_PARTS \<and>
     device_count s \<le> BLOCK_MAX_DEVS \<and> stored_part_count s \<le> BLOCK_MAX_PARTS \<and>
     distinct (registry s) \<and> (\<forall>d \<in> set (registry s). ptr_ok d) \<and>
     (\<forall>j < BLOCK_MAX_DEVS. device_count s \<le> j \<longrightarrow> devices s ! j = DNull) \<and>
     (\<forall>d. ptr_ok d \<longrightarrow> (bd_registered (dev_at s d) \<longleftrightarrow> d \<in> set (registry s)))"

lemma ptr_ok_simps [simp]:
  "\<not> ptr_ok DNull" "ptr_ok (Drv n)" "ptr_ok (Part i) \<longleftrightarrow> i < BLOCK_MAX_PARTS"
  by (simp_all add: ptr_ok_def)

lemma dev_at_simps [simp]:
  "dev_at s (Drv n) = drv_devs s n" "dev_at s (Part i) = pt_dev (stored_parts s ! i)"
  by (simp_all add: dev_at_def)

lemma set_dev_frame [simp]:
  "devices (set_dev d f s) = devices s" "device_count (set_dev d f s) = device_count s"
  "stored_part_count (set_dev d f s) = stored_part_count s"
  "length (stored_parts (set_dev d f s)) = length (stored_parts s)"
  by (simp_all add: set_dev_def split: devptr.split)

lemma dev_at_cong:
  "drv_devs s' = drv_devs s \<Longrightarrow> stored_parts s' = stored_parts s \<Longrightarrow> dev_at s' d = dev_at s d"
  by (simp add: dev_at_def split: devptr.split)

lemma dev_at_frame [simp]:
  "dev_at (s\<lparr>devices := ds, device_count := n\<rparr>) d = dev_at s d"
  "dev_at (s\<lparr>stored_part_count := n\<rparr>) d = dev_at s d"
  by (rule dev_at_cong; simp)+

lemma dev_at_set_dev:
  assumes "ptr_ok d" and "ptr_ok e" and "length (stored_parts s) = BLOCK_MAX_PARTS"
  shows "dev_at (set_dev d f s) e = (if e = d then f (dev_at s d) else dev_at s e)"
  using assms by (cases d; cases e) (auto simp: set_dev_def nth_list_update)

lemma nth_shift:
  assumes "i \<le> j" and "j < length ds" and "k < length ds"
  shows "fold (\<lambda>j ds. ds[j := ds ! Suc j]) [i..<j] ds ! k =
         (if i \<le> k \<and> k < j then ds ! Suc k else ds ! k)"
  using assms
proof (induction j arbitrary: k)
  case (Suc j)
  have len: "length (fold (\<lambda>j ds. ds[j := ds ! Suc j]) [i..<m] ds) = length ds" for m
    by (induction m) (auto)
  show ?case
  proof (cases "i \<le> j")
    case True
    with Suc show ?thesis by (auto simp: nth_list_update len)
  next
    case False
    with Suc.prems show ?thesis by auto
  qed
qed simp

lemma length_shift_down [simp]: "length (shift_down i n ds) = length ds"
proof -
  have "length (fold (\<lambda>j ds. ds[j := ds ! Suc j]) is ds) = length ds" for "is"
    by (induction "is" arbitrary: ds) auto
  then show ?thesis by (simp add: shift_down_def)
qed

lemma take_shift_down:
  assumes "i < n" and "n \<le> length ds"
  shows "take (n - 1) (shift_down i n ds) = take i ds @ drop (Suc i) (take n ds)"
proof (rule nth_equalityI)
  show "length (take (n - 1) (shift_down i n ds)) = length (take i ds @ drop (Suc i) (take n ds))"
    using assms by simp
  fix k assume "k < length (take (n - 1) (shift_down i n ds))"
  then have k: "k < n - 1" by simp
  have "shift_down i n ds ! k = (if i \<le> k \<and> k < n - 1 then ds ! Suc k else ds ! k)"
    unfolding shift_down_def using assms k by (intro nth_shift) auto
  with k assms show "take (n - 1) (shift_down i n ds) ! k = (take i ds @ drop (Suc i) (take n ds)) ! k"
    by (auto simp: nth_append min_def)
qed

lemma drop_shift_down:
  assumes "i < n" and "n \<le> j" and "j < length ds"
  shows "shift_down i n ds ! j = ds ! j"
  unfolding shift_down_def using assms by (subst nth_shift) auto

lemma remove1_first:
  assumes "i < length xs" and "xs ! i = d" and "distinct xs"
  shows "remove1 d xs = take i xs @ drop (Suc i) xs"
  using assms
proof (induction xs arbitrary: i)
  case (Cons x xs)
  then show ?case by (cases i) auto
qed simp

lemma unregister_from_found:
  assumes "d \<in> set (take k (drop i (devices s)))" and "i + k \<le> length (devices s)"
  shows "\<exists>j. i \<le> j \<and> j < i + k \<and> devices s ! j = d \<and>
     unregister_from i k d s =
       (0, (set_dev d (bd_registered_update (\<lambda>_. False)) s)
              \<lparr>devices := (shift_down j (device_count s) (devices s))[device_count s - 1 := DNull],
               device_count := device_count s - 1\<rparr>)"
  using assms
proof (induction k arbitrary: i)
  case (Suc k)
  show ?case
  proof (cases "devices s ! i = d")
    case True
    then show ?thesis by (intro exI [of _ i]) simp
  next
    case False
    have "drop i (devices s) = devices s ! i # drop (Suc i) (devices s)"
      using Suc.prems(2) by (intro Cons_nth_drop_Suc [symmetric]) simp
    with Suc.prems False have "d \<in> set (take k (drop (Suc i) (devices s)))" by auto
    from Suc.IH [OF this] Suc.prems obtain j where "Suc i \<le> j" "j < Suc i + k" "devices s ! j = d"
      "unregister_from (Suc i) k d s =
         (0, (set_dev d (bd_registered_update (\<lambda>_. False)) s)
                \<lparr>devices := (shift_down j (device_count s) (devices s))[device_count s - 1 := DNull],
                 device_count := device_count s - 1\<rparr>)" by auto
    with False show ?thesis by (intro exI [of _ j]) simp
  qed
qed simp

lemma block_register_spec:
  assumes inv: "blk_inv s" and d: "ptr_ok d"
  shows "if length (registry s) < BLOCK_MAX_DEVS \<and> d \<notin> set (registry s) \<and>
            ops_read (bd_ops (dev_at s d)) \<and> bd_sector_size (dev_at s d) \<noteq> 0
         then \<exists>s'. block_register d s = (0, s') \<and> blk_inv s' \<and> registry s' = registry s @ [d]
         else block_register d s = (-1, s)"
proof (cases "length (registry s) < BLOCK_MAX_DEVS \<and> d \<notin> set (registry s) \<and>
            ops_read (bd_ops (dev_at s d)) \<and> bd_sector_size (dev_at s d) \<noteq> 0")
  case True
  have n: "length (registry s) = device_count s" "length (devices s) = BLOCK_MAX_DEVS"
    using inv by (auto simp: blk_inv_def registry_def)
  define s' where "s' = (set_dev d (bd_registered_update (\<lambda>_. True)) s)
                 \<lparr>devices := (devices s)[device_count s := d], device_count := device_count s + 1\<rparr>"
  have "\<not> bd_registered (dev_at s d)" "d \<noteq> DNull" using True inv d by (auto simp: blk_inv_def)
  then have "block_register d s = (0, s')" using True n by (simp add: block_register_def s'_def)
  moreover have reg: "registry s' = registry s @ [d]"
    using True n by (simp add: s'_def registry_def take_Suc_conv_app_nth)
  moreover have "bd_registered (dev_at s' e) \<longleftrightarrow> e \<in> set (registry s')" if "ptr_ok e" for e
    using that inv unfolding reg by (auto simp: s'_def dev_at_set_dev [OF d] blk_inv_def)
  then have "blk_inv s'" using inv d True n
    by (auto simp: blk_inv_def reg) (auto simp: s'_def)
  ultimately show ?thesis using True by simp
next
  case False
  have "length (registry s) = device_count s" using inv by (auto simp: blk_inv_def registry_def)
  with False inv d show ?thesis by (auto simp: block_register_def blk_inv_def)
qed

lemma block_unregister_spec:
  assumes inv: "blk_inv s" and d: "ptr_ok d"
  shows "if d \<in> set (registry s)
         then \<exists>s'. block_unregister d s = (0, s') \<and> blk_inv s' \<and> registry s' = remove1 d (registry s)
         else block_unregister d s = (-1, s)"
proof (cases "d \<in> set (registry s)")
  case True
  define n where "n = device_count s"
  have len: "length (devices s) = BLOCK_MAX_DEVS" "n \<le> BLOCK_MAX_DEVS"
    using inv by (auto simp: blk_inv_def n_def)
  obtain i where i: "i < n" "devices s ! i = d" and u: "unregister_from 0 n d s =
      (0, (set_dev d (bd_registered_update (\<lambda>_. False)) s)
            \<lparr>devices := (shift_down i n (devices s))[n - 1 := DNull], device_count := n - 1\<rparr>)"
    using unregister_from_found [of d n 0 s] True len by (auto simp: registry_def n_def)
  define s' where "s' = (set_dev d (bd_registered_update (\<lambda>_. False)) s)
      \<lparr>devices := (shift_down i n (devices s))[n - 1 := DNull], device_count := n - 1\<rparr>"
  have "bd_registered (dev_at s d)" "d \<noteq> DNull" using True inv d by (auto simp: blk_inv_def)
  then have res: "block_unregister d s = (0, s')"
    using u by (simp add: block_unregister_def n_def [symmetric] s'_def)
  have dis: "distinct (registry s)" using inv by (simp add: blk_inv_def)
  have "registry s' = take (n - 1) (shift_down i n (devices s))" by (simp add: registry_def s'_def)
  also have "\<dots> = take i (registry s) @ drop (Suc i) (registry s)"
    using take_shift_down [OF i(1), of "devices s"] i len by (simp add: registry_def n_def min_def)
  also have "\<dots> = remove1 d (registry s)"
    using i len dis by (intro remove1_first [symmetric]) (auto simp: registry_def n_def)
  finally have reg: "registry s' = remove1 d (registry s)" .
  have "bd_registered (dev_at s' e) \<longleftrightarrow> e \<in> set (registry s')" if "ptr_ok e" for e
    using that inv dis unfolding reg by (auto simp: s'_def dev_at_set_dev [OF d] blk_inv_def)
  moreover have "devices s' ! j = DNull" if "j < BLOCK_MAX_DEVS" "device_count s' \<le> j" for j
  proof (cases "j = n - 1")
    case True
    then show ?thesis using that len by (simp add: s'_def)
  next
    case False
    then have "shift_down i n (devices s) ! j = devices s ! j"
      using that i len by (intro drop_shift_down) (auto simp: s'_def)
    then show ?thesis using that False inv by (simp add: s'_def blk_inv_def n_def)
  qed
  ultimately have "blk_inv s'"
    using inv dis len by (auto simp: blk_inv_def reg) (auto simp: s'_def)
  with True res reg show ?thesis by simp
next
  case False
  with inv d show ?thesis by (auto simp: block_unregister_def blk_inv_def)
qed

section \<open>Registration refines a list of devices\<close>

text \<open>
  C22 (refinement): the device table with its shifting loop implements a list of distinct devices.
  On a consistent state, \<^verbatim>\<open>block_register\<close> appends a device exactly when there is room, it is not
  registered, it can be read and has a sector size; \<^verbatim>\<open>block_unregister\<close> removes a device exactly
  when it is in the list; a call that fails changes nothing, and the state stays consistent.
\<close>

theorem block_registry_refines:
  assumes "blk_inv s" and "ptr_ok d"
  shows "(if length (registry s) < BLOCK_MAX_DEVS \<and> d \<notin> set (registry s) \<and>
             ops_read (bd_ops (dev_at s d)) \<and> bd_sector_size (dev_at s d) \<noteq> 0
          then \<exists>s'. block_register d s = (0, s') \<and> blk_inv s' \<and> registry s' = registry s @ [d]
          else block_register d s = (-1, s)) \<and>
         (if d \<in> set (registry s)
          then \<exists>s'. block_unregister d s = (0, s') \<and> blk_inv s' \<and> registry s' = remove1 d (registry s)
          else block_unregister d s = (-1, s))"
  using block_register_spec [OF assms] block_unregister_spec [OF assms] by (rule conjI)

definition blank_dev :: block_device where
  "blank_dev = \<lparr>bd_name = [], bd_sector_count = 0, bd_sector_size = 0, bd_ops = NoOps,
                bd_private = PNull, bd_registered = False\<rparr>"

definition blank_part :: partition where
  "blank_part = \<lparr>pt_index = 0, pt_type = 0, pt_bootable = False, pt_start_lba = 0,
                 pt_sector_count = 0, pt_parent = DNull, pt_dev = blank_dev\<rparr>"

definition disk_dev :: block_device where
  "disk_dev = \<lparr>bd_name = ''hda'', bd_sector_count = 1000, bd_sector_size = 512,
               bd_ops = DrvOps True True, bd_private = PNull, bd_registered = False\<rparr>"

definition blk_boot :: blkst where
  "blk_boot = \<lparr>drv_devs = (\<lambda>_. disk_dev), devices = replicate 16 DNull, device_count = 0,
               stored_parts = replicate 16 blank_part, stored_part_count = 0\<rparr>"

lemma blk_boot_inv: "blk_inv blk_boot"
proof -
  have "\<not> bd_registered (dev_at blk_boot d)" if "ptr_ok d" for d
    using that by (cases d) (auto simp: blk_boot_def blank_part_def blank_dev_def disk_dev_def block_limits)
  then show ?thesis by (simp add: blk_inv_def) (simp add: blk_boot_def registry_def block_limits)
qed

theorem block_registry_refines_witness:
  "(\<exists>s'. block_register (Drv 0) blk_boot = (0, s') \<and> registry s' = [Drv 0]) \<and>
   block_unregister (Drv 0) blk_boot = (-1, blk_boot)"
  using block_registry_refines [OF blk_boot_inv, of "Drv 0"]
  by (auto simp: registry_def blk_boot_def disk_dev_def block_limits)

section \<open>Reads and writes\<close>

text \<open>The partitions form no cycle: a partition's parent is a driver's device or an earlier slot.\<close>

definition part_ok :: "blkst \<Rightarrow> nat \<Rightarrow> bool" where
  "part_ok s i \<longleftrightarrow>
     bd_private (pt_dev (stored_parts s ! i)) = PStored i \<and>
     bd_sector_count (pt_dev (stored_parts s ! i)) = pt_sector_count (stored_parts s ! i) \<and>
     (case pt_parent (stored_parts s ! i) of
        DNull \<Rightarrow> False
      | Drv n \<Rightarrow> True
      | Part j \<Rightarrow> j < i) \<and>
     unat (pt_start_lba (stored_parts s ! i)) + unat (pt_sector_count (stored_parts s ! i)) \<le>
       unat (bd_sector_count (dev_at s (pt_parent (stored_parts s ! i))))"

text \<open>The devices from \<open>d\<close> down to the driver's, and the sector of the latter where \<open>d\<close> starts.\<close>

function chain :: "blkst \<Rightarrow> devptr \<Rightarrow> devptr list" where
  "chain s DNull = [DNull]"
| "chain s (Drv n) = [Drv n]"
| "chain s (Part i) = Part i #
     (case pt_parent (stored_parts s ! i) of
        Part j \<Rightarrow> if j < i then chain s (Part j) else [DNull]
      | p \<Rightarrow> [p])"
  by pat_completeness auto
termination
  by (relation "measure (\<lambda>(s, d). case d of Part i \<Rightarrow> Suc i | _ \<Rightarrow> 0)") auto

definition chain_start :: "blkst \<Rightarrow> devptr \<Rightarrow> nat" where
  "chain_start s d =
     (\<Sum>e \<leftarrow> chain s d. case e of Part i \<Rightarrow> unat (pt_start_lba (stored_parts s ! i)) | _ \<Rightarrow> 0)"

definition dev_ready :: "(block_ops \<Rightarrow> bool) \<Rightarrow> blkst \<Rightarrow> devptr \<Rightarrow> bool" where
  "dev_ready has_op s e \<longleftrightarrow>
     bd_registered (dev_at s e) \<and> has_op (bd_ops (dev_at s e)) \<and>
     (case e of DNull \<Rightarrow> False
              | Drv n \<Rightarrow> bd_ops (drv_devs s n) \<noteq> PartOps
              | Part i \<Rightarrow> bd_ops (dev_at s e) = PartOps \<and> part_ok s i)"

lemma fits_iff:
  assumes "unat (sector :: u64) + unat (count :: u8) < 2 ^ 64"
  shows "sector + ucast count \<le> n \<longleftrightarrow> unat sector + unat count \<le> unat n"
  using assms by (simp add: word_le_nat_alt unat_add_nowrap unat_ucast_8_64)

lemma part_target_ready:
  assumes r: "dev_ready has_op s (Part i)"
    and fit: "unat sector + unat count \<le> unat (bd_sector_count (dev_at s (Part i)))"
  defines "p \<equiv> stored_parts s ! i"
  shows "io_allowed has_op s (Part i) sector count"
    and "part_target s (Part i) sector count = Some (pt_parent p, pt_start_lba p + sector)"
    and "unat (pt_start_lba p + sector) = unat (pt_start_lba p) + unat sector"
    and "unat (pt_start_lba p + sector) + unat count \<le> unat (bd_sector_count (dev_at s (pt_parent p)))"
proof -
  have ok: "part_ok s i" "bd_ops (pt_dev p) = PartOps" using r by (auto simp: dev_ready_def p_def)
  then have par: "pt_parent p \<noteq> DNull" "bd_private (pt_dev p) = PStored i"
    "bd_sector_count (pt_dev p) = pt_sector_count p"
    "unat (pt_start_lba p) + unat (pt_sector_count p) \<le> unat (bd_sector_count (dev_at s (pt_parent p)))"
    by (auto simp: part_ok_def p_def [symmetric] split: devptr.splits)
  have nw: "unat sector + unat count < 2 ^ 64"
    using fit unat_less_pow64 [of "bd_sector_count (dev_at s (Part i))"] by simp
  show "io_allowed has_op s (Part i) sector count"
    using r fit nw by (auto simp: io_allowed_def dev_ready_def fits_iff)
  have f: "unat sector + unat count \<le> unat (pt_sector_count p)" using fit par by (simp add: p_def)
  then have "\<not> pt_sector_count p < sector + ucast count" using fits_iff [OF nw] by (simp add: not_less)
  then show "part_target s (Part i) sector count = Some (pt_parent p, pt_start_lba p + sector)"
    using par by (simp add: part_target_def part_of_def p_def)
  show u: "unat (pt_start_lba p + sector) = unat (pt_start_lba p) + unat sector"
    using f par(4) unat_less_pow64 [of "bd_sector_count (dev_at s (pt_parent p))"]
    by (intro unat_add_nowrap) simp
  show "unat (pt_start_lba p + sector) + unat count \<le> unat (bd_sector_count (dev_at s (pt_parent p)))"
    using u f par(4) by simp
qed

lemma chain_parent:
  "part_ok s i \<Longrightarrow> chain s (Part i) = Part i # chain s (pt_parent (stored_parts s ! i))"
  by (auto simp: part_ok_def split: devptr.splits)

lemma ready_induct [consumes 1, case_names Drv Part]:
  assumes "\<forall>e \<in> set (chain s d). dev_ready has_op s e"
    and "\<And>n. dev_ready has_op s (Drv n) \<Longrightarrow> P (Drv n)"
    and "\<And>i. dev_ready has_op s (Part i) \<Longrightarrow> part_ok s i \<Longrightarrow>
           P (pt_parent (stored_parts s ! i)) \<Longrightarrow> P (Part i)"
  shows "P d"
  using assms
proof (induction s d rule: chain.induct)
  case (3 s i)
  have r: "dev_ready has_op s (Part i)" using 3(2) by simp
  then have ok: "part_ok s i" by (simp add: dev_ready_def)
  have "P (pt_parent (stored_parts s ! i))"
  proof (cases "pt_parent (stored_parts s ! i)")
    case (Part j)
    with ok have "j < i" by (simp add: part_ok_def)
    with 3 Part show ?thesis by simp
  qed (use ok 3(2,3) in \<open>auto simp: part_ok_def\<close>)
  with r ok show ?case by (rule 3(4))
qed (auto simp: dev_ready_def)

lemma chain_start_part:
  "part_ok s i \<Longrightarrow> chain_start s (Part i) =
     unat (pt_start_lba (stored_parts s ! i)) + chain_start s (pt_parent (stored_parts s ! i))"
  "part_ok s i \<Longrightarrow> last (chain s (Part i)) = last (chain s (pt_parent (stored_parts s ! i)))"
proof -
  have "chain s d \<noteq> []" for d by (cases d) auto
  then show "part_ok s i \<Longrightarrow> chain_start s (Part i) =
     unat (pt_start_lba (stored_parts s ! i)) + chain_start s (pt_parent (stored_parts s ! i))"
    "part_ok s i \<Longrightarrow> last (chain s (Part i)) = last (chain s (pt_parent (stored_parts s ! i)))"
    by (simp_all only: chain_start_def chain_parent) simp_all
qed

text \<open>An access within the device reaches the driver once, inside the driver's device.\<close>

definition at_driver :: "blkst \<Rightarrow> devptr \<Rightarrow> u64 \<Rightarrow> u8 \<Rightarrow> nat \<Rightarrow> u64 \<Rightarrow> bool" where
  "at_driver s d sector count n lba \<longleftrightarrow>
     last (chain s d) = Drv n \<and> unat lba = chain_start s d + unat sector \<and>
     unat lba + unat count \<le> unat (bd_sector_count (drv_devs s n))"

lemma drv_allowed:
  assumes "dev_ready has_op s (Drv n)"
    and "unat sector + unat count \<le> unat (bd_sector_count (dev_at s (Drv n)))"
  shows "io_allowed has_op s (Drv n) sector count" and "at_driver s (Drv n) sector count n sector"
proof -
  have "unat sector + unat count < 2 ^ 64"
    using assms(2) unat_less_pow64 [of "bd_sector_count (dev_at s (Drv n))"] by simp
  with assms show "io_allowed has_op s (Drv n) sector count"
    by (auto simp: io_allowed_def dev_ready_def fits_iff)
  show "at_driver s (Drv n) sector count n sector" using assms by (simp add: at_driver_def chain_start_def)
qed

lemma at_driver_parent:
  assumes "part_ok s i"
    and "unat (pt_start_lba (stored_parts s ! i) + sector) = unat (pt_start_lba (stored_parts s ! i)) + unat sector"
    and "at_driver s (pt_parent (stored_parts s ! i)) (pt_start_lba (stored_parts s ! i) + sector) count n lba"
  shows "at_driver s (Part i) sector count n lba"
  using assms by (simp only: at_driver_def chain_start_part) simp

lemma block_read_spec:
  assumes "\<forall>e \<in> set (chain s d). dev_ready ops_read s e"
    and "unat sector + unat count \<le> unat (bd_sector_count (dev_at s d))"
  shows "\<exists>n lba. at_driver s d sector count n lba \<and>
     block_read V s disk d sector count = Some (drv_read V n lba count disk)"
  using assms
proof (induction arbitrary: sector rule: ready_induct)
  case (Drv n)
  have "bd_ops (drv_devs s n) \<noteq> PartOps" using Drv(1) by (simp add: dev_ready_def)
  with drv_allowed [OF Drv] show ?case
    by (subst block_read.simps) (auto split: block_ops.splits)
next
  case (Part i)
  note t = part_target_ready [OF Part(1,4)]
  obtain n lba where n: "at_driver s (pt_parent (stored_parts s ! i)) (pt_start_lba (stored_parts s ! i) + sector) count n lba"
    "block_read V s disk (pt_parent (stored_parts s ! i)) (pt_start_lba (stored_parts s ! i) + sector) count =
       Some (drv_read V n lba count disk)" using Part(3) [OF t(4)] by blast
  have "bd_ops (pt_dev (stored_parts s ! i)) = PartOps" using Part(1) by (simp add: dev_ready_def)
  with t(1,2) n(2) have "block_read V s disk (Part i) sector count = Some (drv_read V n lba count disk)"
    by (subst block_read.simps) simp
  with at_driver_parent [OF Part(2) t(3) n(1)] show ?case by blast
qed

lemma block_write_spec:
  assumes "\<forall>e \<in> set (chain s d). dev_ready ops_write s e"
    and "unat sector + unat count \<le> unat (bd_sector_count (dev_at s d))"
  shows "\<exists>n lba. at_driver s d sector count n lba \<and>
     block_write V s disk d sector count buf = Some (drv_write V n lba count buf disk)"
  using assms
proof (induction arbitrary: sector rule: ready_induct)
  case (Drv n)
  have "bd_ops (drv_devs s n) \<noteq> PartOps" using Drv(1) by (simp add: dev_ready_def)
  with drv_allowed [OF Drv] show ?case
    by (subst block_write.simps) (auto split: block_ops.splits)
next
  case (Part i)
  note t = part_target_ready [OF Part(1,4)]
  obtain n lba where n: "at_driver s (pt_parent (stored_parts s ! i)) (pt_start_lba (stored_parts s ! i) + sector) count n lba"
    "block_write V s disk (pt_parent (stored_parts s ! i)) (pt_start_lba (stored_parts s ! i) + sector) count buf =
       Some (drv_write V n lba count buf disk)" using Part(3) [OF t(4)] by blast
  have "bd_ops (pt_dev (stored_parts s ! i)) = PartOps" using Part(1) by (simp add: dev_ready_def)
  with t(1,2) n(2) have "block_write V s disk (Part i) sector count buf = Some (drv_write V n lba count buf disk)"
    by (subst block_write.simps) simp
  with at_driver_parent [OF Part(2) t(3) n(1)] show ?case by blast
qed

text \<open>
  C8 (safety): an access that lies within a device of a well-formed tree of partitions, all of
  them registered, returns; it reaches the driver exactly once, at the sector the partition
  offsets add up to, and stays within the driver's device.
\<close>

theorem block_io_reaches_driver:
  assumes "\<forall>e \<in> set (chain s d). dev_ready ops_read s e \<and> dev_ready ops_write s e"
    and "unat sector + unat count \<le> unat (bd_sector_count (dev_at s d))"
  shows "\<exists>n lba. last (chain s d) = Drv n \<and> unat lba = chain_start s d + unat sector \<and>
     unat lba + unat count \<le> unat (bd_sector_count (drv_devs s n)) \<and>
     block_read V s disk d sector count = Some (drv_read V n lba count disk) \<and>
     block_write V s disk d sector count buf = Some (drv_write V n lba count buf disk)"
proof -
  obtain n lba where r: "at_driver s d sector count n lba"
    "block_read V s disk d sector count = Some (drv_read V n lba count disk)"
    using block_read_spec [of s d sector count V disk] assms by blast
  obtain n' lba' where w: "at_driver s d sector count n' lba'"
    "block_write V s disk d sector count buf = Some (drv_write V n' lba' count buf disk)"
    using block_write_spec [of s d sector count V disk buf] assms by blast
  have "n' = n" "lba' = lba" using r(1) w(1) by (auto simp: at_driver_def word_unat_eq_iff)
  with r w show ?thesis by (auto simp: at_driver_def)
qed

definition one_part :: blkst where
  "one_part = blk_boot
     \<lparr>drv_devs := (\<lambda>_. disk_dev\<lparr>bd_registered := True\<rparr>),
      stored_parts := replicate 16 \<lparr>pt_index = 1, pt_type = 0x0C, pt_bootable = False,
        pt_start_lba = 100, pt_sector_count = 50, pt_parent = Drv 0,
        pt_dev = \<lparr>bd_name = ''hdap1'', bd_sector_count = 50, bd_sector_size = 512, bd_ops = PartOps,
                  bd_private = PStored 0, bd_registered = True\<rparr>\<rparr>\<rparr>"

lemma one_part_ready:
  "\<forall>e \<in> set (chain one_part (Part 0)). dev_ready ops_read one_part e \<and> dev_ready ops_write one_part e"
  by (simp add: one_part_def dev_ready_def part_ok_def disk_dev_def)

definition ram_driver :: "(u64 \<Rightarrow> u8) blkdrv" where
  "ram_driver = \<lparr>drv_read = (\<lambda>n sector count d. (0, replicate (512 * unat count) (d sector))),
                 drv_write = (\<lambda>n sector count buf d. (0, d(sector := hd buf)))\<rparr>"

theorem block_io_reaches_driver_witness:
  "\<exists>n lba. unat lba = 107 \<and>
     block_read ram_driver one_part (\<lambda>_. 0) (Part 0) 7 2 = Some (drv_read ram_driver n lba 2 (\<lambda>_. 0))"
proof -
  have "unat (7 :: u64) + unat (2 :: u8) \<le> unat (bd_sector_count (dev_at one_part (Part 0)))"
    by (simp add: one_part_def)
  from block_io_reaches_driver [OF one_part_ready this, of ram_driver "\<lambda>_. 0" "[]"]
  show ?thesis by (auto simp: chain_start_def one_part_def)
qed

text \<open>
  The check \<^verbatim>\<open>sector + count > sector_count\<close> is in 64-bit arithmetic that wraps.
  Reading sector \<open>2 ^ 64 - 1\<close> of a partition passes it, and the driver is asked for the sector
  just before the partition, which belongs to another one or to the partition table.
\<close>

lemma part_read_before_start:
  assumes "dev_ready ops_read s (Part i)" and "pt_parent (stored_parts s ! i) = Drv n"
    and "dev_ready ops_read s (Drv n)" and "pt_start_lba (stored_parts s ! i) \<noteq> 0"
  shows "block_read V s disk (Part i) (-1) 1 =
         Some (drv_read V n (pt_start_lba (stored_parts s ! i) - 1) 1 disk)"
proof -
  define p where "p = stored_parts s ! i"
  have ok: "part_ok s i" "bd_ops (pt_dev p) = PartOps" using assms(1) by (auto simp: dev_ready_def p_def)
  have al: "io_allowed ops_read s (Part i) (-1) 1" using assms(1) by (simp add: io_allowed_def dev_ready_def)
  have tg: "part_target s (Part i) (-1) 1 = Some (Drv n, pt_start_lba p - 1)"
    using ok(1) assms(2) by (simp add: part_target_def part_of_def part_ok_def p_def)
  have "unat (pt_start_lba p - 1) + unat (1 :: u8) \<le> unat (bd_sector_count (dev_at s (Drv n)))"
    using ok(1) assms(2,4) unat_gt_0 [of "pt_start_lba p"]
    by (simp add: part_ok_def p_def unat_minus_one)
  note d = drv_allowed(1) [OF assms(3) this]
  have "block_read V s disk (Part i) (-1) 1 = block_read V s disk (Drv n) (pt_start_lba p - 1) 1"
    using al tg ok(2) by (subst block_read.simps) (simp add: p_def)
  also have "\<dots> = Some (drv_read V n (pt_start_lba p - 1) 1 disk)"
    using d assms(3) by (subst block_read.simps) (auto simp: dev_ready_def split: block_ops.splits)
  finally show ?thesis by (simp add: p_def)
qed

theorem part_read_before_start_witness:
  "block_read ram_driver one_part (\<lambda>_. 0) (Part 0) (-1) 1 = Some (drv_read ram_driver 0 99 1 (\<lambda>_. 0))"
proof -
  have "dev_ready ops_read one_part (Part 0)" "dev_ready ops_read one_part (Drv 0)"
    using one_part_ready by (simp_all add: one_part_def)
  moreover have "pt_parent (stored_parts one_part ! 0) = Drv 0" "pt_start_lba (stored_parts one_part ! 0) = 100"
    by (simp_all add: one_part_def)
  ultimately show ?thesis using part_read_before_start [of one_part 0 0 ram_driver "\<lambda>_. 0"] by simp
qed

section \<open>The partition table\<close>

definition mbr_kept :: "bytes \<Rightarrow> u64 \<Rightarrow> nat list \<Rightarrow> nat list" where
  "mbr_kept b sectors = filter (\<lambda>i. \<not> mbr_skip sectors (mbr_entry b i))"

definition from_entry :: "bytes \<Rightarrow> devptr \<Rightarrow> nat \<Rightarrow> partition \<Rightarrow> bool" where
  "from_entry b d i p \<longleftrightarrow>
     pt_index p = int i + 1 \<and> pt_type p = mpe_type (mbr_entry b i) \<and> pt_parent p = d \<and>
     pt_bootable p = (mpe_status (mbr_entry b i) AND 0x80 \<noteq> 0) \<and>
     pt_start_lba p = ucast (mpe_lba_first (mbr_entry b i)) \<and>
     pt_sector_count p = ucast (mpe_sector_count (mbr_entry b i)) \<and> bd_ops (pt_dev p) = PartOps"

lemma mbr_loop_spec:
  assumes "max_parts \<le> length parts" and "count \<le> max_parts"
  shows "\<exists>ps. mbr_loop b d sectors max_parts is count parts =
       (min max_parts (count + length (mbr_kept b sectors is)), ps) \<and> length ps = length parts \<and>
     take count ps = take count parts \<and>
     (\<forall>k. count + k < max_parts \<and> k < length (mbr_kept b sectors is) \<longrightarrow>
        from_entry b d (mbr_kept b sectors is ! k) (ps ! (count + k)))"
  using assms
proof (induction "is" arbitrary: count parts)
  case Nil
  then show ?case by (simp add: mbr_kept_def)
next
  case (Cons i "is")
  show ?case
  proof (cases "max_parts \<le> count")
    case True
    then show ?thesis using Cons.prems by simp
  next
    case False
    note lt = False
    show ?thesis
    proof (cases "mbr_skip sectors (mbr_entry b i)")
      case True
      with lt Cons.IH [OF Cons.prems] show ?thesis by (simp add: mbr_kept_def Let_def)
    next
      case False
      define q where "q = (parts ! count)
             \<lparr>pt_index := int i + 1, pt_type := mpe_type (mbr_entry b i),
              pt_bootable := (mpe_status (mbr_entry b i) AND 0x80 \<noteq> 0),
              pt_start_lba := ucast (mpe_lba_first (mbr_entry b i)),
              pt_sector_count := ucast (mpe_sector_count (mbr_entry b i)), pt_parent := d,
              pt_dev := (pt_dev (parts ! count))\<lparr>bd_private := PLocal count, bd_ops := PartOps\<rparr>\<rparr>"
      have "max_parts \<le> length (parts[count := q])" "count + 1 \<le> max_parts" using Cons.prems lt by auto
      from Cons.IH [OF this] obtain ps where ps:
        "mbr_loop b d sectors max_parts is (count + 1) (parts[count := q]) =
           (min max_parts (count + 1 + length (mbr_kept b sectors is)), ps)" "length ps = length parts"
        "take (count + 1) ps = take (count + 1) (parts[count := q])"
        "\<forall>k. count + 1 + k < max_parts \<and> k < length (mbr_kept b sectors is) \<longrightarrow>
          from_entry b d (mbr_kept b sectors is ! k) (ps ! (count + 1 + k))" by auto
      have len: "count < length parts" "count < length ps" using Cons.prems lt ps(2) by auto
      have "ps ! count = q"
        using ps(3) len by (metis less_add_one nth_list_update_eq nth_take)
      moreover have "take count ps = take count parts"
        using ps(3) len by (metis take_update_cancel le_add1 min.absorb1 order_refl take_take)
      moreover have "mbr_kept b sectors (i # is) = i # mbr_kept b sectors is"
        using False by (simp add: mbr_kept_def)
      moreover have "from_entry b d i q" by (simp add: from_entry_def q_def)
      ultimately show ?thesis using ps lt False
        by (auto simp: q_def [symmetric] Let_def nth_Cons split: nat.splits)
    qed
  qed
qed

lemma mbr_kept_in_range:
  assumes "i \<in> set (mbr_kept b sectors is)" and "from_entry b d i p"
  shows "pt_start_lba p \<noteq> 0 \<and> unat (pt_start_lba p) + unat (pt_sector_count p) \<le> unat sectors"
proof -
  define e where "e = mbr_entry b i"
  have "\<not> mbr_skip sectors e" using assms(1) by (simp add: mbr_kept_def e_def)
  then have e: "mpe_lba_first e \<noteq> 0" "ucast (mpe_lba_first e) + ucast (mpe_sector_count e) \<le> sectors"
    by (auto simp: mbr_skip_def not_less)
  have p: "pt_start_lba p = ucast (mpe_lba_first e)" "pt_sector_count p = ucast (mpe_sector_count e)"
    using assms(2) by (simp_all add: from_entry_def e_def)
  have "unat (ucast (mpe_lba_first e) + ucast (mpe_sector_count e) :: u64) =
      unat (mpe_lba_first e) + unat (mpe_sector_count e)"
    using unat_less_pow32 [of "mpe_lba_first e"] unat_less_pow32 [of "mpe_sector_count e"]
    by (subst unat_add_nowrap) (simp_all add: unat_ucast_32_64)
  moreover have "unat (pt_start_lba p) \<noteq> 0"
    using e(1) by (simp add: p unat_ucast_32_64 unat_eq_0)
  ultimately show ?thesis using e(2) by (auto simp: p word_le_nat_alt unat_ucast_32_64)
qed

text \<open>The entries kept, with what the code read from them, when the signature is there.\<close>

lemma block_parse_mbr_kept:
  assumes "block_read V s disk d 0 1 = Some (0, b)" and "mbr_sig b = 0xAA55" and "d \<noteq> DNull"
    and "1 \<le> max_parts" and "nat max_parts \<le> length parts"
  defines "kept \<equiv> mbr_kept b (bd_sector_count (dev_at s d)) [0..<4]"
  defines "n \<equiv> min (nat max_parts) (length kept)"
  shows "\<exists>ps. block_parse_mbr V s disk d parts max_parts = Some (int n, ps) \<and>
     (\<forall>k < n. from_entry b d (kept ! k) (ps ! k) \<and> pt_start_lba (ps ! k) \<noteq> 0 \<and>
        unat (pt_start_lba (ps ! k)) + unat (pt_sector_count (ps ! k)) \<le> unat (bd_sector_count (dev_at s d)))"
proof -
  obtain ps where ps: "mbr_loop b d (bd_sector_count (dev_at s d)) (nat max_parts) [0..<4] 0 parts = (n, ps)"
    and fe: "\<forall>k. k < nat max_parts \<and> k < length kept \<longrightarrow> from_entry b d (kept ! k) (ps ! k)"
    using mbr_loop_spec [OF assms(5), of 0 b d "bd_sector_count (dev_at s d)" "[0..<4]"]
    by (auto simp: kept_def n_def)
  have "from_entry b d (kept ! k) (ps ! k) \<and> pt_start_lba (ps ! k) \<noteq> 0 \<and>
        unat (pt_start_lba (ps ! k)) + unat (pt_sector_count (ps ! k)) \<le> unat (bd_sector_count (dev_at s d))"
    if "k < n" for k
  proof -
    have k: "k < length kept" "from_entry b d (kept ! k) (ps ! k)" using that fe by (auto simp: n_def)
    then have "kept ! k \<in> set (mbr_kept b (bd_sector_count (dev_at s d)) [0..<4])"
      using nth_mem by (simp add: kept_def)
    from mbr_kept_in_range [OF this k(2)] k(2) show ?thesis by simp
  qed
  moreover have "block_parse_mbr V s disk d parts max_parts = Some (int n, ps)"
    using assms(1-4) ps by (simp add: block_parse_mbr_def)
  ultimately show ?thesis by blast
qed

text \<open>
  The first sector of a disk as the partitioning tools write it: boot code, the four slots of 16 bytes and two bytes of
  signature.  A slot is a status byte, whose highest bit marks the slot to boot from, the first and the last sector in the old form of three
  bytes around the type, then the number of the first sector and the number of sectors, least significant byte first.
\<close>

record mbr_slot =
  sl_status :: u8
  sl_chs_first :: "u8 \<times> u8 \<times> u8"
  sl_type :: u8
  sl_chs_last :: "u8 \<times> u8 \<times> u8"
  sl_first :: u32
  sl_sectors :: u32

definition le4 :: "u32 \<Rightarrow> bytes" where
  "le4 v = [ucast v, ucast (drop_bit 8 v), ucast (drop_bit 16 v), ucast (drop_bit 24 v)]"

definition slot_bytes :: "mbr_slot \<Rightarrow> bytes" where
  "slot_bytes sl =
     (case (sl_chs_first sl, sl_chs_last sl) of ((a, b, c), (d, e, f)) \<Rightarrow>
        [sl_status sl, a, b, c, sl_type sl, d, e, f] @ le4 (sl_first sl) @ le4 (sl_sectors sl))"

definition mbr_image :: "bytes \<Rightarrow> mbr_slot list \<Rightarrow> u8 \<times> u8 \<Rightarrow> bytes" where
  "mbr_image code slots sig = code @ concat (map slot_bytes slots) @ [fst sig, snd sig]"

text \<open>A slot that describes a partition of a disk with \<open>n\<close> sectors, and the structure filled in for it.\<close>

definition slot_used :: "nat \<Rightarrow> mbr_slot \<Rightarrow> bool" where
  "slot_used n sl \<longleftrightarrow>
     sl_type sl \<noteq> 0 \<and> 0 < unat (sl_first sl) \<and> 0 < unat (sl_sectors sl) \<and> unat (sl_first sl) + unat (sl_sectors sl) \<le> n"

definition holds_slot :: "devptr \<Rightarrow> nat \<Rightarrow> mbr_slot \<Rightarrow> partition \<Rightarrow> bool" where
  "holds_slot d i sl p \<longleftrightarrow>
     pt_index p = int i + 1 \<and> pt_type p = sl_type sl \<and> (pt_bootable p \<longleftrightarrow> bit (sl_status sl) 7) \<and> pt_parent p = d \<and>
     unat (pt_start_lba p) = unat (sl_first sl) \<and> unat (pt_sector_count p) = unat (sl_sectors sl) \<and> bd_ops (pt_dev p) = PartOps"

lemma length_slot_bytes [simp]: "length (slot_bytes sl) = 16"
  by (simp add: slot_bytes_def le4_def split: prod.split)

lemma concat_nth16:
  "i < length xs \<Longrightarrow> j < 16 \<Longrightarrow> concat (map slot_bytes xs) ! (16 * i + j) = slot_bytes (xs ! i) ! j"
proof (induction xs arbitrary: i)
  case (Cons x xs)
  then show ?case by (cases i) (auto simp: nth_append)
qed simp

lemma le32_le4:
  assumes "b ! k = le4 v ! 0" "b ! (k + 1) = le4 v ! 1" "b ! (k + 2) = le4 v ! 2" "b ! (k + 3) = le4 v ! 3"
  shows "le32 b k = v"
proof (rule bit_word_eqI)
  fix n assume "n < LENGTH(32)"
  then show "bit (le32 b k) n = bit v n" unfolding le32_def assms
    by (cases "24 \<le> n"; cases "16 \<le> n"; cases "8 \<le> n") (auto simp: le4_def bit_simps)
qed

lemma mbr_image_entry:
  assumes "length code = 446" and "length slots = 4" and "i < 4"
  shows "mbr_entry (mbr_image code slots sig) i = \<lparr>mpe_status = sl_status (slots ! i), mpe_type = sl_type (slots ! i),
    mpe_lba_first = sl_first (slots ! i), mpe_sector_count = sl_sectors (slots ! i)\<rparr>"
proof -
  have "length (concat (map slot_bytes slots)) = 64" using assms(2) by (simp add: length_concat comp_def sum_list_triv)
  then have b: "mbr_image code slots sig ! (446 + 16 * i + j) = slot_bytes (slots ! i) ! j" if "j < 16" for j
    using that assms concat_nth16 [of i slots j] by (simp add: mbr_image_def nth_append)
  obtain a1 a2 a3 d1 d2 d3 where c: "sl_chs_first (slots ! i) = (a1, a2, a3)" "sl_chs_last (slots ! i) = (d1, d2, d3)"
    by (metis prod_cases3)
  note sb = slot_bytes_def c le4_def
  have "le32 (mbr_image code slots sig) (446 + 16 * i + 8) = sl_first (slots ! i)"
    using b [of 8] b [of 9] b [of 10] b [of 11] by (intro le32_le4) (simp_all add: sb add.assoc)
  moreover have "le32 (mbr_image code slots sig) (446 + 16 * i + 12) = sl_sectors (slots ! i)"
    using b [of 12] b [of 13] b [of 14] b [of 15] by (intro le32_le4) (simp_all add: sb add.assoc)
  ultimately show ?thesis using b [of 0] b [of 4] by (simp add: mbr_entry_def Let_def sb)
qed

lemma mbr_image_sig:
  assumes "length code = 446" and "length slots = 4"
  shows "mbr_sig (mbr_image code slots (s0, s1)) = 0xAA55 \<longleftrightarrow> (s0, s1) = (0x55, 0xAA)"
proof -
  have "length (concat (map slot_bytes slots)) = 64" using assms(2) by (simp add: length_concat comp_def sum_list_triv)
  then have "mbr_sig (mbr_image code slots (s0, s1)) = ucast s0 OR push_bit 8 (ucast s1)"
    using assms by (simp add: mbr_sig_def le16_def mbr_image_def nth_append)
  moreover have "(ucast s0 OR push_bit 8 (ucast s1) :: u16) = 0xAA55 \<longleftrightarrow> (s0, s1) = (0x55, 0xAA)"
  proof
    assume e: "(ucast s0 OR push_bit 8 (ucast s1) :: u16) = 0xAA55"
    have "s0 = ucast (ucast s0 OR push_bit 8 (ucast s1) :: u16)" "s1 = ucast (drop_bit 8 (ucast s0 OR push_bit 8 (ucast s1) :: u16))"
      by (rule bit_word_eqI; auto simp: bit_simps dest: bit_imp_le_length)+
    then show "(s0, s1) = (0x55, 0xAA)" unfolding e by simp
  qed simp
  ultimately show ?thesis by simp
qed

text \<open>
  C23 (functional): on a disk whose first sector has been written with a partition table, \<^verbatim>\<open>block_parse_mbr\<close> returns
  -1 when the two signature bytes are not 55 and AA.  With the signature it returns the number of slots that have a type and
  describe a non-empty range of sectors behind sector 0 and within the disk, up to \<^verbatim>\<open>max_parts\<close> of them, and fills in one structure
  for each of them in the order of the table, with the number of the slot, its type, its boot flag and its range.
\<close>

theorem block_parse_mbr_partitions:
  assumes "block_read V s disk d 0 1 = Some (0, mbr_image code slots (s0, s1))" and "length code = 446" and "length slots = 4"
    and "d \<noteq> DNull" and "1 \<le> max_parts" and "nat max_parts \<le> length parts"
    and "kept = filter (\<lambda>i. slot_used (unat (bd_sector_count (dev_at s d))) (slots ! i)) [0..<4]"
  shows "if (s0, s1) = (0x55, 0xAA)
    then \<exists>ps. block_parse_mbr V s disk d parts max_parts = Some (int (min (nat max_parts) (length kept)), ps) \<and>
      (\<forall>k < min (nat max_parts) (length kept). holds_slot d (kept ! k) (slots ! (kept ! k)) (ps ! k))
    else block_parse_mbr V s disk d parts max_parts = Some (-1, parts)"
proof (cases "(s0, s1) = (0x55, 0xAA)")
  case False
  then have "mbr_sig (mbr_image code slots (s0, s1)) \<noteq> 0xAA55" using mbr_image_sig [OF assms(2,3)] by blast
  then show ?thesis using assms(1,4,5) False by (auto simp: block_parse_mbr_def)
next
  case True
  define b where "b = mbr_image code slots (s0, s1)"
  define n where "n = bd_sector_count (dev_at s d)"
  note entry = mbr_image_entry [OF assms(2,3), of _ "(s0, s1)", folded b_def]
  have use: "\<not> mbr_skip n (mbr_entry b i) \<longleftrightarrow> slot_used (unat n) (slots ! i)" if "i < 4" for i
  proof -
    let ?f = "sl_first (slots ! i)" and ?c = "sl_sectors (slots ! i)"
    have "unat (ucast ?f + ucast ?c :: u64) = unat ?f + unat ?c"
      using unat_less_pow32 [of ?f] unat_less_pow32 [of ?c] by (subst unat_add_nowrap) (simp_all add: unat_ucast_32_64)
    then show ?thesis using that
      by (auto simp: mbr_skip_def entry slot_used_def word_less_nat_alt not_less unat_gt_0)
  qed
  then have kept: "mbr_kept b n [0..<4] = kept"
    unfolding mbr_kept_def assms(7) n_def [symmetric] by (intro filter_cong) auto
  have sig: "mbr_sig b = 0xAA55" unfolding b_def using mbr_image_sig [OF assms(2,3)] True by blast
  obtain ps where ps: "block_parse_mbr V s disk d parts max_parts = Some (int (min (nat max_parts) (length kept)), ps)"
    and fe: "\<And>k. k < min (nat max_parts) (length kept) \<Longrightarrow> from_entry b d (kept ! k) (ps ! k)"
    using block_parse_mbr_kept [OF assms(1) [folded b_def] sig assms(4-6), folded n_def, unfolded kept] by auto
  have "holds_slot d (kept ! k) (slots ! (kept ! k)) (ps ! k)" if "k < min (nat max_parts) (length kept)" for k
  proof -
    have "kept ! k < 4" using that nth_mem [of k kept] by (auto simp: assms(7))
    then show ?thesis using fe [OF that]
      by (auto simp: from_entry_def holds_slot_def entry unat_ucast_32_64 and_bit7)
  qed
  then show ?thesis using ps True by auto
qed

text \<open>Two used slots around an empty one and one that reaches behind the end of a disk of 1000 sectors.\<close>

definition sample_slots :: "mbr_slot list" where
  "sample_slots =
     [\<lparr>sl_status = 0x80, sl_chs_first = (1, 2, 3), sl_type = 0x0C, sl_chs_last = (4, 5, 6), sl_first = 100, sl_sectors = 50\<rparr>,
      \<lparr>sl_status = 0, sl_chs_first = (0, 0, 0), sl_type = 0, sl_chs_last = (0, 0, 0), sl_first = 1, sl_sectors = 1\<rparr>,
      \<lparr>sl_status = 0, sl_chs_first = (0, 0, 0), sl_type = 0x83, sl_chs_last = (0, 0, 0), sl_first = 900, sl_sectors = 200\<rparr>,
      \<lparr>sl_status = 0, sl_chs_first = (0, 0, 0), sl_type = 0x83, sl_chs_last = (0, 0, 0), sl_first = 500, sl_sectors = 500\<rparr>]"

lemma sample_slots_length: "length sample_slots = 4"
  by (simp add: sample_slots_def)

definition mbr_sample :: bytes where
  "mbr_sample = mbr_image (replicate 446 0x90) sample_slots (0x55, 0xAA)"

definition mbr_driver :: "unit blkdrv" where
  "mbr_driver = \<lparr>drv_read = (\<lambda>n sector count d. (0, mbr_sample)), drv_write = (\<lambda>n sector count buf d. (0, d))\<rparr>"

lemma mbr_sample_read: "block_read mbr_driver one_part () (Drv 0) 0 1 = Some (0, mbr_sample)"
  by (subst block_read.simps) (simp add: io_allowed_def one_part_def disk_dev_def mbr_driver_def)

theorem block_parse_mbr_partitions_witness:
  "\<exists>ps. block_parse_mbr mbr_driver one_part () (Drv 0) (replicate 16 blank_part) 16 = Some (2, ps) \<and>
     holds_slot (Drv 0) 0 (sample_slots ! 0) (ps ! 0) \<and> holds_slot (Drv 0) 3 (sample_slots ! 3) (ps ! 1)"
proof -
  have kept: "[0, 3] = filter (\<lambda>i. slot_used (unat (bd_sector_count (dev_at one_part (Drv 0)))) (sample_slots ! i)) [0..<4]"
    by (simp add: upt_rec slot_used_def sample_slots_def one_part_def disk_dev_def)
  have "\<exists>ps. block_parse_mbr mbr_driver one_part () (Drv 0) (replicate 16 blank_part) 16 = Some (2, ps) \<and>
      (\<forall>k < 2. holds_slot (Drv 0) ([0, 3] ! k) (sample_slots ! ([0, 3] ! k)) (ps ! k))"
    using block_parse_mbr_partitions [OF mbr_sample_read [unfolded mbr_sample_def] _ _ _ _ _ kept, of 16 "replicate 16 blank_part"]
      sample_slots_length by (simp add: numeral_2_eq_2)
  then show ?thesis by (auto simp: numeral_2_eq_2 less_Suc_eq)
qed

text \<open>The partition slots in use are well formed, and only they are registered.\<close>

definition parts_inv :: "blkst \<Rightarrow> bool" where
  "parts_inv s \<longleftrightarrow>
     blk_inv s \<and> (\<forall>i < stored_part_count s. part_ok s i \<and> bd_ops (dev_at s (Part i)) = PartOps) \<and>
     (\<forall>i. Part i \<in> set (registry s) \<longrightarrow> i < stored_part_count s)"

definition parent_ok :: "blkst \<Rightarrow> devptr \<Rightarrow> bool" where
  "parent_ok s d \<longleftrightarrow> (case d of DNull \<Rightarrow> False | Drv n \<Rightarrow> True | Part j \<Rightarrow> j < stored_part_count s)"

lemma part_ok_cong:
  assumes "part_ok s i"
    and "stored_parts s' ! i = (stored_parts s ! i)\<lparr>pt_dev := (pt_dev (stored_parts s ! i))\<lparr>bd_registered := r\<rparr>\<rparr>"
    and "\<And>e. e = pt_parent (stored_parts s ! i) \<Longrightarrow>
           bd_sector_count (dev_at s' e) = bd_sector_count (dev_at s e)"
  shows "part_ok s' i"
  using assms by (auto simp: part_ok_def split: devptr.splits)

lemma bd_registered_id: "d\<lparr>bd_registered := bd_registered d\<rparr> = d" "p\<lparr>pt_dev := pt_dev p\<rparr> = p"
  for d :: block_device and p :: partition
  by simp_all

lemma block_register_parts:
  "stored_parts (snd (block_register (Part k) s)) =
     (if fst (block_register (Part k) s) = 0
      then (stored_parts s)[k := (stored_parts s ! k)\<lparr>pt_dev := (pt_dev (stored_parts s ! k))\<lparr>bd_registered := True\<rparr>\<rparr>]
      else stored_parts s)"
  "drv_devs (snd (block_register (Part k) s)) = drv_devs s"
  "stored_part_count (snd (block_register (Part k) s)) = stored_part_count s"
  by (simp_all add: block_register_def set_dev_def)

lemma store_part_inv:
  assumes inv: "parts_inv s" and k: "stored_part_count s < BLOCK_MAX_PARTS"
    and p: "parent_ok s (pt_parent p)" "bd_ops (pt_dev p) = PartOps"
      "unat (pt_start_lba p) + unat (pt_sector_count p) \<le> unat (bd_sector_count (dev_at s (pt_parent p)))"
  shows "parts_inv (store_part p s)" and "stored_part_count (store_part p s) = stored_part_count s + 1"
    and "\<And>d. parent_ok s d \<Longrightarrow> bd_sector_count (dev_at (store_part p s) d) = bd_sector_count (dev_at s d)"
proof -
  define n where "n = stored_part_count s"
  define q where "q = p\<lparr>pt_dev := (pt_dev p)
                  \<lparr>bd_private := PStored n,
                   bd_name := part_name (bd_name (dev_at s (pt_parent p))) (pt_index p),
                   bd_sector_count := pt_sector_count p,
                   bd_sector_size := bd_sector_size (dev_at s (pt_parent p)),
                   bd_registered := False\<rparr>\<rparr>"
  define s1 where "s1 = s\<lparr>stored_parts := (stored_parts s)[n := q]\<rparr>"
  define s2 where "s2 = snd (block_register (Part n) s1)"
  have res: "store_part p s = s2\<lparr>stored_part_count := n + 1\<rparr>"
    by (simp add: store_part_def q_def n_def s1_def s2_def Let_def)
  then show "stored_part_count (store_part p s) = stored_part_count s + 1" by (simp add: n_def)
  have b: "blk_inv s" "length (stored_parts s) = BLOCK_MAX_PARTS" "Part n \<notin> set (registry s)"
    using inv by (auto simp: parts_inv_def blk_inv_def n_def)
  have r1: "registry s1 = registry s" by (simp add: registry_def s1_def)
  have dv: "dev_at s1 e = (if e = Part n then pt_dev q else dev_at s e)" if "ptr_ok e" for e
    using that k b(2) by (cases e) (auto simp: s1_def n_def)
  have "blk_inv s1" using b k
    by (auto simp: blk_inv_def r1 dv) (auto simp: s1_def q_def n_def)
  moreover have "ptr_ok (Part n)" using k by (simp add: n_def)
  ultimately have spec: "blk_inv s2 \<and> (registry s2 = registry s \<or> registry s2 = registry s @ [Part n])"
    using block_register_spec [of s1 "Part n"] by (auto simp: s2_def r1 split: if_splits)
  have sp: "stored_parts s2 ! i = (if i = n then q\<lparr>pt_dev := (pt_dev q)\<lparr>bd_registered := bd_registered (pt_dev (stored_parts s2 ! n))\<rparr>\<rparr>
      else stored_parts s ! i)" for i
    using block_register_parts(1) [of n s1] k b(2)
    by (simp add: s2_def s1_def n_def nth_list_update q_def)
  have dd: "drv_devs s2 = drv_devs s" by (simp add: s2_def block_register_parts s1_def)
  have cnt: "bd_sector_count (dev_at s2 d) = bd_sector_count (dev_at s d)" if "parent_ok s d" for d
    using that sp dd by (auto simp: parent_ok_def n_def split: devptr.splits)
  then show "\<And>d. parent_ok s d \<Longrightarrow> bd_sector_count (dev_at (store_part p s) d) = bd_sector_count (dev_at s d)"
    by (simp add: res)
  have "part_ok s2 i \<and> bd_ops (dev_at s2 (Part i)) = PartOps" if "i < n + 1" for i
  proof (cases "i = n")
    case True
    obtain r where "stored_parts s2 ! n = q\<lparr>pt_dev := (pt_dev q)\<lparr>bd_registered := r\<rparr>\<rparr>"
      using sp [of n] by auto
    with True p cnt [OF p(1)] show ?thesis
      by (cases "pt_parent p") (auto simp: part_ok_def parent_ok_def q_def n_def)
  next
    case False
    then have i: "i < n" "part_ok s i" "bd_ops (dev_at s (Part i)) = PartOps"
      using that inv by (auto simp: parts_inv_def n_def)
    then have "parent_ok s (pt_parent (stored_parts s ! i))"
      by (auto simp: part_ok_def parent_ok_def n_def split: devptr.splits)
    from cnt [OF this] i sp [of i] False show ?thesis
      by (auto simp: part_ok_def split: devptr.splits)
  qed
  moreover have "part_ok (s2\<lparr>stored_part_count := n + 1\<rparr>) i = part_ok s2 i" for i by (simp add: part_ok_def)
  moreover have "registry (s2\<lparr>stored_part_count := n + 1\<rparr>) = registry s2" by (simp add: registry_def)
  ultimately show "parts_inv (store_part p s)" using spec inv k
    unfolding res parts_inv_def
    by (auto simp: n_def) (auto simp: blk_inv_def)
qed

lemma register_parts_loop_inv:
  assumes "parts_inv s" and "parent_ok s d" and "bd_sector_count (dev_at s d) = sectors"
    and "\<forall>p \<in> set ps. pt_parent p = d \<and> bd_ops (pt_dev p) = PartOps \<and>
           unat (pt_start_lba p) + unat (pt_sector_count p) \<le> unat sectors"
  shows "parts_inv (register_parts_loop ps s) \<and>
         stored_part_count (register_parts_loop ps s) = min BLOCK_MAX_PARTS (stored_part_count s + length ps)"
  using assms
proof (induction ps arbitrary: s)
  case Nil
  then show ?case by (simp add: parts_inv_def blk_inv_def)
next
  case (Cons p ps)
  show ?case
  proof (cases "stored_part_count s < BLOCK_MAX_PARTS")
    case True
    have p: "pt_parent p = d" "bd_ops (pt_dev p) = PartOps"
      "unat (pt_start_lba p) + unat (pt_sector_count p) \<le> unat (bd_sector_count (dev_at s (pt_parent p)))"
      using Cons.prems by auto
    note st = store_part_inv [OF Cons.prems(1) True _ p(2,3)]
    have "parent_ok (store_part p s) d"
      using Cons.prems(2) st(2) p(1) by (auto simp: parent_ok_def split: devptr.splits)
    with Cons.IH [of "store_part p s"] Cons.prems st p(1) True show ?thesis by simp
  next
    case False
    with Cons.prems show ?thesis by (auto simp: parts_inv_def blk_inv_def)
  qed
qed

text \<open>
  \<^verbatim>\<open>block_register_partitions\<close> on a device of the tree keeps the block layer
  consistent: the table still lists exactly the registered devices, every stored partition lies
  within its parent and points back to its own slot, and at most 16 partitions are stored.
\<close>

lemma block_register_partitions_inv:
  assumes "parts_inv s" and "parent_ok s d" and "length locals = BLOCK_MAX_PARTS"
    and "block_register_partitions V locals s disk d = Some (r, s')"
  shows "parts_inv s' \<and> stored_part_count s \<le> stored_part_count s' \<and> stored_part_count s' \<le> BLOCK_MAX_PARTS"
proof -
  define sectors where "sectors = bd_sector_count (dev_at s d)"
  obtain n ps where n: "block_parse_mbr V s disk d locals (int BLOCK_MAX_PARTS) = Some (n, ps)"
    and s': "s' = (if n \<le> 0 then s else register_parts_loop (take (nat n) ps) s)"
    using assms(4) by (auto simp: block_register_partitions_def Let_def split: bind_splits if_splits)
  have ok: "\<forall>p \<in> set (take (nat n) ps). pt_parent p = d \<and> bd_ops (pt_dev p) = PartOps \<and>
           unat (pt_start_lba p) + unat (pt_sector_count p) \<le> unat sectors" if pos: "\<not> n \<le> 0"
  proof -
    obtain b where b: "mbr_loop b d sectors BLOCK_MAX_PARTS [0..<4] 0 locals = (nat n, ps)"
      using n pos by (auto simp: block_parse_mbr_def sectors_def split: bind_splits if_splits prod.splits)
    define kept where "kept = mbr_kept b sectors [0..<4]"
    have lp: "nat n = min BLOCK_MAX_PARTS (length kept)"
      "\<forall>k. k < BLOCK_MAX_PARTS \<and> k < length kept \<longrightarrow> from_entry b d (kept ! k) (ps ! k)"
      using mbr_loop_spec [of BLOCK_MAX_PARTS locals 0 b d sectors "[0..<4]"] assms(3) b
      by (auto simp: kept_def)
    have "from_entry b d (kept ! k) (ps ! k) \<and> kept ! k \<in> set kept" if "k < nat n" for k
      using lp that by (auto intro: nth_mem)
    then have "pt_parent (ps ! k) = d \<and> bd_ops (pt_dev (ps ! k)) = PartOps \<and>
        unat (pt_start_lba (ps ! k)) + unat (pt_sector_count (ps ! k)) \<le> unat sectors" if "k < nat n" for k
      using that mbr_kept_in_range [of "kept ! k" b sectors "[0..<4]" d "ps ! k"]
      by (auto simp: kept_def from_entry_def)
    then show ?thesis by (auto simp: in_set_conv_nth)
  qed
  show ?thesis
  proof (cases "n \<le> 0")
    case True
    with s' assms(1) show ?thesis by (simp add: parts_inv_def blk_inv_def)
  next
    case False
    have "stored_part_count s \<le> BLOCK_MAX_PARTS" using assms(1) by (simp add: parts_inv_def blk_inv_def)
    with register_parts_loop_inv [OF assms(1,2) sectors_def [symmetric] ok [OF False]] False s'
    show ?thesis by simp
  qed
qed

definition one_disk :: blkst where
  "one_disk = blk_boot\<lparr>drv_devs := (\<lambda>_. disk_dev)(0 := disk_dev\<lparr>bd_registered := True\<rparr>),
                        devices := Drv 0 # replicate 15 DNull, device_count := 1\<rparr>"

lemma one_disk_inv: "parts_inv one_disk"
proof -
  have "bd_registered (dev_at one_disk d) \<longleftrightarrow> d = Drv 0" if "ptr_ok d" for d
    using that by (cases d) (auto simp: one_disk_def blk_boot_def blank_part_def blank_dev_def
        disk_dev_def block_limits)
  moreover have "registry one_disk = [Drv 0]" by (simp add: registry_def one_disk_def)
  ultimately show ?thesis
    by (simp add: parts_inv_def blk_inv_def) (auto simp: one_disk_def blk_boot_def block_limits nth_Cons')
qed

end
