(* ===== verification/Vfs.thy ===== *)
theory Vfs
  imports Block
begin

text \<open>
  The virtual file system, \<^verbatim>\<open>kernel/fs/vfs.c\<close> and \<^verbatim>\<open>vfs.h\<close>: the file table, the mount table, path
  resolution, reference counts, and the device file system (devfs) that is part of the same file.

  Inodes are a store from addresses to \<^verbatim>\<open>struct vfs_inode\<close> values, 0 is NULL.  An operations
  structure a file system registers is named by a constructor of \<open>inode_ops\<close>; what its function
  pointers do is looked up in an environment of type \<open>env\<close>, in which \<open>None\<close> is a NULL pointer, so the
  dispatch code is modelled for any set of file systems.  The environment also carries the kernel
  heap (\<open>k_malloc\<close>, \<open>k_free\<close>) and the block drivers.  The outer option of an operation is \<open>None\<close> when
  it does not return.  Strings are lists of characters without their NUL.
\<close>

section \<open>State\<close>

definition VFS_NAME_MAX :: nat where "VFS_NAME_MAX = 256"
definition VFS_MOUNT_MAX :: nat where "VFS_MOUNT_MAX = 16"
definition VFS_FILE_MAX :: nat where "VFS_FILE_MAX = 64"
definition VFS_PATH_MAX :: nat where "VFS_PATH_MAX = 512"
definition DEVFS_MAX_ENTRIES :: nat where "DEVFS_MAX_ENTRIES = 32"

lemmas vfs_limits = VFS_NAME_MAX_def VFS_MOUNT_MAX_def VFS_FILE_MAX_def VFS_PATH_MAX_def
  DEVFS_MAX_ENTRIES_def

datatype vfs_inode_type = VFS_FILE | VFS_DIR | VFS_BLKDEV | VFS_CHRDEV

datatype inode_ops =
    devfs_dir_ops | devfs_blk_ops | devfs_chr_ops | tmpfs_file_ops | tmpfs_dir_ops | pipe_inode_ops
  | fat32_inode_ops
  | other_ops nat

datatype sb_ops = devfs_sb_ops | tmpfs_sb_ops | fat32_sb_ops | other_sb_ops nat

datatype sbptr = SbNull | devfs_sb | devfs_dev_sb | tmpfs_sb | SbAddr u64

text \<open>The \<^verbatim>\<open>void *private\<close> of an inode: what it points to depends on the file system.\<close>

datatype devfs_dir = devfs_root_data | devfs_dev_data
datatype privptr = PrivNull | PrivAddr u64 | PrivBlk devptr | PrivDir devfs_dir | PrivOps inode_ops

record vfs_inode =
  vi_ino :: u64
  vi_type :: vfs_inode_type
  vi_size :: u64
  vi_sb :: sbptr
  vi_ops :: "inode_ops option"
  vi_private :: privptr
  vi_refcount :: u32

record vfs_dentry =
  de_name :: string
  de_ino :: u64
  de_type :: vfs_inode_type
  de_size :: u64

record vfs_superblock =
  sb_mounted :: bool
  sb_sb_ops :: "sb_ops option"
  sb_root :: u64
  sb_private :: privptr

record vfs_file =
  vf_inode :: u64
  vf_offset :: u64
  vf_flags :: u32

record vfs_mount_entry =
  mnt_path :: string
  mnt_sb :: vfs_superblock

record devfs_entry =
  dv_name :: string
  dv_ino :: u64
  dv_type :: vfs_inode_type
  dv_size :: u64
  dv_private :: privptr

record devfs_data =
  dd_entries :: "devfs_entry list"
  dd_next_ino :: nat

definition VFS_O_READ :: u32 where "VFS_O_READ = 1"
definition VFS_O_WRITE :: u32 where "VFS_O_WRITE = 2"
definition VFS_O_CREAT :: u32 where "VFS_O_CREAT = 4"

record ('d, 'x) vfs =
  inodes :: "u64 \<Rightarrow> vfs_inode"
  superblocks :: "sbptr \<Rightarrow> vfs_superblock"
  file_table :: "vfs_file list"
  file_count :: nat
  mounts :: "vfs_mount_entry list"
  mount_count :: nat
  devfs_dirs :: "devfs_dir \<Rightarrow> devfs_data"
  blk :: blkst
  disk :: 'd
  fsx :: 'x

text \<open>
  The function pointers of a \<^verbatim>\<open>struct vfs_inode_ops\<close>.  A read returns the status and the bytes it put
  into the buffer; a lookup returns the child.
\<close>

record 's fsops =
  op_read :: "(u64 \<Rightarrow> u64 \<Rightarrow> u64 \<Rightarrow> 's \<Rightarrow> (int \<times> bytes \<times> 's) option) option"
  op_write :: "(u64 \<Rightarrow> u64 \<Rightarrow> bytes \<Rightarrow> 's \<Rightarrow> (int \<times> 's) option) option"
  op_truncate :: "(u64 \<Rightarrow> u64 \<Rightarrow> 's \<Rightarrow> (int \<times> 's) option) option"
  op_readdir :: "(u64 \<Rightarrow> u32 \<Rightarrow> 's \<Rightarrow> (int \<times> vfs_dentry \<times> 's) option) option"
  op_lookup :: "(u64 \<Rightarrow> string \<Rightarrow> 's \<Rightarrow> (int \<times> u64 \<times> 's) option) option"
  op_create :: "(u64 \<Rightarrow> string \<Rightarrow> 's \<Rightarrow> (int \<times> 's) option) option"
  op_unlink :: "(u64 \<Rightarrow> string \<Rightarrow> 's \<Rightarrow> (int \<times> 's) option) option"
  op_mkdir :: "(u64 \<Rightarrow> string \<Rightarrow> 's \<Rightarrow> (int \<times> 's) option) option"

record ('d, 'x) env =
  e_ops :: "inode_ops \<Rightarrow> ('d, 'x) vfs fsops"
  e_destroy :: "sb_ops \<Rightarrow> (u64 \<Rightarrow> ('d, 'x) vfs \<Rightarrow> ('d, 'x) vfs option) option"
  k_malloc :: "u64 \<Rightarrow> ('d, 'x) vfs \<Rightarrow> (u64 \<times> ('d, 'x) vfs) option"
  k_free :: "u64 \<Rightarrow> ('d, 'x) vfs \<Rightarrow> ('d, 'x) vfs option"
  e_drv :: "'d blkdrv"

definition set_inode :: "u64 \<Rightarrow> (vfs_inode \<Rightarrow> vfs_inode) \<Rightarrow> ('d, 'x) vfs \<Rightarrow> ('d, 'x) vfs" where
  "set_inode p f s = s\<lparr>inodes := (inodes s)(p := f (inodes s p))\<rparr>"

text \<open>The function pointer \<^verbatim>\<open>inode->ops->f\<close>, \<open>None\<close> when \<^verbatim>\<open>ops\<close> or the pointer is NULL.\<close>

definition ops_of :: "('d, 'x) env \<Rightarrow> (('d, 'x) vfs fsops \<Rightarrow> 'f option) \<Rightarrow> u64 \<Rightarrow> ('d, 'x) vfs \<Rightarrow> 'f option" where
  "ops_of E f p s = (case vi_ops (inodes s p) of None \<Rightarrow> None | Some k \<Rightarrow> f (e_ops E k))"

section \<open>Reference counts\<close>

definition vfs_inode_ref :: "u64 \<Rightarrow> ('d, 'x) vfs \<Rightarrow> ('d, 'x) vfs" where
  "vfs_inode_ref p s = (if p \<noteq> 0 then set_inode p (vi_refcount_update (\<lambda>n. n + 1)) s else s)"

definition vfs_inode_unref :: "('d, 'x) env \<Rightarrow> u64 \<Rightarrow> ('d, 'x) vfs \<Rightarrow> ('d, 'x) vfs option" where
  "vfs_inode_unref E p s =
     (if p = 0 \<or> vi_refcount (inodes s p) = 0 then Some s
      else let s = set_inode p (vi_refcount_update (\<lambda>n. n - 1)) s;
               i = inodes s p
           in if vi_refcount i = 0 \<and> vi_sb i \<noteq> SbNull
              then (case sb_sb_ops (superblocks s (vi_sb i)) of
                      None \<Rightarrow> Some s
                    | Some k \<Rightarrow> (case e_destroy E k of None \<Rightarrow> Some s | Some f \<Rightarrow> f p s))
              else Some s)"

section \<open>Path resolution\<close>

fun path_match :: "string \<Rightarrow> string \<Rightarrow> bool" where
  "path_match (a # as) (b # bs) = (if a = b then path_match as bs else False)"
| "path_match [] [] = True"
| "path_match _ _ = False"

text \<open>Appending to the \<^verbatim>\<open>fullpath\<close> buffer, which keeps one byte for the NUL.\<close>

definition push_path :: "string \<Rightarrow> string \<Rightarrow> string" where
  "push_path fullpath cs = fullpath @ take (VFS_PATH_MAX - 1 - length fullpath) cs"

definition find_mount :: "nat list \<Rightarrow> string \<Rightarrow> ('d, 'x) vfs \<Rightarrow> nat option" where
  "find_mount is p s = find (\<lambda>mi. path_match (mnt_path (mounts s ! mi)) p) is"

definition is_slash :: "char \<Rightarrow> bool" where "is_slash c \<longleftrightarrow> c = CHR ''/''"

text \<open>
  One component of the path: cross into a mounted file system or look the name up in the current
  directory.  \<open>Inl\<close> is the early return of -1, after the reference has been dropped.
\<close>

definition resolve_step ::
  "('d, 'x) env \<Rightarrow> string \<Rightarrow> string \<Rightarrow> u64 \<Rightarrow> ('d, 'x) vfs \<Rightarrow> (('d, 'x) vfs + u64 \<times> ('d, 'x) vfs) option" where
  "resolve_step E fullpath buf cur s =
     (let mnt_root = (case find_mount [1..<mount_count s] fullpath s of
                        None \<Rightarrow> 0 | Some mi \<Rightarrow> sb_root (mnt_sb (mounts s ! mi)))
      in if mnt_root \<noteq> 0
         then do { s \<leftarrow> vfs_inode_unref E cur s; Some (Inr (mnt_root, vfs_inode_ref mnt_root s)) }
         else (case (vi_type (inodes s cur), ops_of E op_lookup cur s) of
                 (VFS_DIR, Some lookup) \<Rightarrow>
                   do { (r, child, s) \<leftarrow> lookup cur buf s;
                        s \<leftarrow> vfs_inode_unref E cur s;
                        Some (if r \<noteq> 0 \<or> child = 0 then Inl s else Inr (child, s)) }
               | _ \<Rightarrow> do { s \<leftarrow> vfs_inode_unref E cur s; Some (Inl s) }))"

text \<open>The next component, as much of it as fits into the \<^verbatim>\<open>buf\<close> array.\<close>

definition path_component :: "string \<Rightarrow> string" where
  "path_component path = take (VFS_NAME_MAX - 1) (takeWhile (\<lambda>c. \<not> is_slash c) path)"

lemma component_shorter:
  assumes "x \<in> set path" and "\<not> is_slash x"
  shows "length (dropWhile is_slash path) - length (path_component (dropWhile is_slash path)) < length path"
proof -
  define p where "p = dropWhile is_slash path"
  have ne: "p \<noteq> []" using assms by (auto simp: p_def)
  then have "\<not> is_slash (hd p)" using hd_dropWhile [of is_slash path] by (simp add: p_def)
  then have "path_component p \<noteq> []" using ne by (cases p) (auto simp: path_component_def vfs_limits)
  then have "length p - length (path_component p) < length p" using ne by simp
  also have "\<dots> \<le> length path" by (simp add: p_def length_dropWhile_le)
  finally show ?thesis by (simp add: p_def)
qed

text \<open>The loop of \<^verbatim>\<open>resolve_full\<close>: the rest of the path, the path so far and the current inode.\<close>

function resolve_loop ::
  "('d, 'x) env \<Rightarrow> string \<Rightarrow> string \<Rightarrow> u64 \<Rightarrow> ('d, 'x) vfs \<Rightarrow>
     (('d, 'x) vfs + string \<times> u64 \<times> ('d, 'x) vfs) option" where
  "resolve_loop E path fullpath cur s =
     (let fullpath = push_path fullpath (takeWhile is_slash path);
          path = dropWhile is_slash path
      in if path = [] then Some (Inr (fullpath, cur, s))
         else let buf = path_component path;
                  rest = drop (length buf) path;
                  fullpath = push_path fullpath buf
              in do { r \<leftarrow> resolve_step E fullpath buf cur s;
                      (case r of Inl s \<Rightarrow> Some (Inl s)
                               | Inr (cur, s) \<Rightarrow> resolve_loop E rest fullpath cur s) })"
  by pat_completeness auto
termination
  by (relation "measure (\<lambda>(E, path, fullpath, cur, s). length path)") (auto intro: component_shorter)

declare resolve_loop.simps [simp del]

definition resolve_full :: "('d, 'x) env \<Rightarrow> string \<Rightarrow> ('d, 'x) vfs \<Rightarrow> (int \<times> u64 \<times> ('d, 'x) vfs) option" where
  "resolve_full E path s =
     (if path = [] then Some (-1, 0, s)
      else if mount_count s = 0 then Some (-1, 0, s)
      else let cur = sb_root (mnt_sb (mounts s ! 0)) in
        if cur = 0 then Some (-1, 0, s)
        else do {
          r \<leftarrow> resolve_loop E path (if is_slash (hd path) then [] else [CHR ''/'']) cur (vfs_inode_ref cur s);
          (case r of
             Inl s \<Rightarrow> Some (-1, 0, s)
           | Inr (fullpath, cur, s) \<Rightarrow>
               (case find_mount (rev [0..<mount_count s]) fullpath s of
                  None \<Rightarrow> Some (0, cur, s)
                | Some mi \<Rightarrow>
                    let root = sb_root (mnt_sb (mounts s ! mi)) in
                    if root \<noteq> 0 \<and> root \<noteq> cur
                    then do { s \<leftarrow> vfs_inode_unref E cur s; Some (0, root, vfs_inode_ref root s) }
                    else Some (0, cur, s))) })"

text \<open>
  \<^verbatim>\<open>resolve_parent\<close> scans back from the end of the path: over trailing slashes, then over the last
  component.  \<open>slash_pos\<close> is the index of \<^verbatim>\<open>slash\<close> in \<^verbatim>\<open>buf\<close>.
\<close>

fun scan_back :: "(char \<Rightarrow> bool) \<Rightarrow> string \<Rightarrow> nat \<Rightarrow> nat" where
  "scan_back P buf 0 = 0"
| "scan_back P buf (Suc k) = (if P (buf ! Suc k) then scan_back P buf k else Suc k)"

definition slash_pos :: "string \<Rightarrow> nat" where
  "slash_pos path = scan_back (\<lambda>c. \<not> is_slash c) path (scan_back is_slash path (length path - 1))"

definition parent_path :: "string \<Rightarrow> string" where
  "parent_path path = take (slash_pos path + 1) path"

definition child_name :: "string \<Rightarrow> string" where
  "child_name path =
     (let cp = drop (if is_slash (path ! slash_pos path) then slash_pos path + 1 else slash_pos path) path
      in path_component (dropWhile is_slash cp))"

definition resolve_parent ::
  "('d, 'x) env \<Rightarrow> string \<Rightarrow> ('d, 'x) vfs \<Rightarrow> (int \<times> u64 \<times> string \<times> ('d, 'x) vfs) option" where
  "resolve_parent E path s =
     (if path = [] \<or> \<not> is_slash (hd path) then Some (-1, 0, [], s)
      else do { (r, parent, s) \<leftarrow> resolve_full E (parent_path path) s;
                if r \<noteq> 0 then Some (-1, 0, [], s) else Some (0, parent, child_name path, s) })"

section \<open>Mounting\<close>

definition vfs_init :: "('d, 'x) vfs \<Rightarrow> int \<times> ('d, 'x) vfs" where
  "vfs_init s =
     (0, s\<lparr>file_count := 0, mount_count := 0,
           file_table := map (vf_inode_update (\<lambda>_. 0)) (file_table s),
           mounts := (mounts s)[0 := (mounts s ! 0)\<lparr>mnt_path := ''/''\<rparr>]\<rparr>)"

definition vfs_mount :: "string \<Rightarrow> sbptr \<Rightarrow> ('d, 'x) vfs \<Rightarrow> int \<times> ('d, 'x) vfs" where
  "vfs_mount path sb s =
     (if sb = SbNull \<or> VFS_MOUNT_MAX \<le> mount_count s then (-1, s)
      else if sb_root (superblocks s sb) = 0 \<or> sb_sb_ops (superblocks s sb) = None then (-1, s)
      else let v = (superblocks s sb)\<lparr>sb_mounted := True\<rparr>
           in (0, s\<lparr>superblocks := (superblocks s)(sb := v),
                    mounts := (mounts s)[mount_count s := \<lparr>mnt_path = take (VFS_PATH_MAX - 1) path, mnt_sb = v\<rparr>],
                    mount_count := mount_count s + 1\<rparr>))"

definition vfs_umount :: "string \<Rightarrow> ('d, 'x) vfs \<Rightarrow> int \<times> ('d, 'x) vfs" where
  "vfs_umount path s =
     (case find_mount [1..<mount_count s] path s of
        None \<Rightarrow> (-1, s)
      | Some i \<Rightarrow>
          (0, s\<lparr>mounts := fold (\<lambda>j ms. ms[j := ms ! Suc j]) [i..<mount_count s - 1] (mounts s),
                mount_count := mount_count s - 1\<rparr>))"

section \<open>Files\<close>

text \<open>A \<^verbatim>\<open>struct vfs_file *\<close> is the index of a slot of the file table, or \<open>None\<close> for NULL.\<close>

definition free_slot :: "('d, 'x) vfs \<Rightarrow> nat option" where
  "free_slot s = find (\<lambda>i. vf_inode (file_table s ! i) = 0) [0..<VFS_FILE_MAX]"

definition claim_slot :: "nat \<Rightarrow> vfs_file \<Rightarrow> ('d, 'x) vfs \<Rightarrow> ('d, 'x) vfs" where
  "claim_slot i f s =
     s\<lparr>file_count := (if file_count s \<le> i then i + 1 else file_count s),
       file_table := (file_table s)[i := f]\<rparr>"

definition vfs_create :: "('d, 'x) env \<Rightarrow> string \<Rightarrow> ('d, 'x) vfs \<Rightarrow> (int \<times> ('d, 'x) vfs) option" where
  "vfs_create E path s =
     do { (r, parent, name, s) \<leftarrow> resolve_parent E path s;
          if r \<noteq> 0 then Some (-1, s)
          else (case (vi_type (inodes s parent), ops_of E op_create parent s) of
                  (VFS_DIR, Some f) \<Rightarrow>
                    do { (r, s) \<leftarrow> f parent name s; s \<leftarrow> vfs_inode_unref E parent s; Some (r, s) }
                | _ \<Rightarrow> do { s \<leftarrow> vfs_inode_unref E parent s; Some (-1, s) }) }"

definition vfs_unlink :: "('d, 'x) env \<Rightarrow> string \<Rightarrow> ('d, 'x) vfs \<Rightarrow> (int \<times> ('d, 'x) vfs) option" where
  "vfs_unlink E path s =
     do { (r, parent, name, s) \<leftarrow> resolve_parent E path s;
          if r \<noteq> 0 then Some (-1, s)
          else (case (vi_type (inodes s parent), ops_of E op_unlink parent s) of
                  (VFS_DIR, Some f) \<Rightarrow>
                    do { (r, s) \<leftarrow> f parent name s; s \<leftarrow> vfs_inode_unref E parent s; Some (r, s) }
                | _ \<Rightarrow> do { s \<leftarrow> vfs_inode_unref E parent s; Some (-1, s) }) }"

definition vfs_mkdir :: "('d, 'x) env \<Rightarrow> string \<Rightarrow> ('d, 'x) vfs \<Rightarrow> (int \<times> ('d, 'x) vfs) option" where
  "vfs_mkdir E path s =
     do { (r, parent, name, s) \<leftarrow> resolve_parent E path s;
          if r \<noteq> 0 then Some (-1, s)
          else (case (vi_type (inodes s parent), ops_of E op_mkdir parent s) of
                  (VFS_DIR, Some f) \<Rightarrow>
                    do { (r, s) \<leftarrow> f parent name s; s \<leftarrow> vfs_inode_unref E parent s; Some (r, s) }
                | _ \<Rightarrow> do { s \<leftarrow> vfs_inode_unref E parent s; Some (-1, s) }) }"

definition vfs_truncate :: "('d, 'x) env \<Rightarrow> string \<Rightarrow> u64 \<Rightarrow> ('d, 'x) vfs \<Rightarrow> (int \<times> ('d, 'x) vfs) option" where
  "vfs_truncate E path sz s =
     do { (r, p, s) \<leftarrow> resolve_full E path s;
          if r \<noteq> 0 then Some (-1, s)
          else (case ops_of E op_truncate p s of
                  None \<Rightarrow> do { s \<leftarrow> vfs_inode_unref E p s; Some (-1, s) }
                | Some f \<Rightarrow> do { (r, s) \<leftarrow> f p sz s; s \<leftarrow> vfs_inode_unref E p s; Some (r, s) }) }"

definition vfs_stat :: "('d, 'x) env \<Rightarrow> string \<Rightarrow> vfs_dentry \<Rightarrow> ('d, 'x) vfs \<Rightarrow> (int \<times> vfs_dentry \<times> ('d, 'x) vfs) option" where
  "vfs_stat E path entry s =
     do { (r, p, s) \<leftarrow> resolve_full E path s;
          if r \<noteq> 0 then Some (-1, entry, s)
          else let i = inodes s p;
                   entry = entry\<lparr>de_ino := vi_ino i, de_type := vi_type i, de_size := vi_size i\<rparr>
               in do { s \<leftarrow> vfs_inode_unref E p s; Some (0, entry, s) } }"

definition open_inode :: "('d, 'x) env \<Rightarrow> u64 \<Rightarrow> u32 \<Rightarrow> ('d, 'x) vfs \<Rightarrow> (nat option \<times> ('d, 'x) vfs) option" where
  "open_inode E p flags s =
     (case free_slot s of
        None \<Rightarrow> do { s \<leftarrow> vfs_inode_unref E p s; Some (None, s) }
      | Some i \<Rightarrow> Some (Some i, claim_slot i \<lparr>vf_inode = p, vf_offset = 0, vf_flags = flags\<rparr> s))"

definition vfs_open :: "('d, 'x) env \<Rightarrow> string \<Rightarrow> u32 \<Rightarrow> ('d, 'x) vfs \<Rightarrow> (nat option \<times> ('d, 'x) vfs) option" where
  "vfs_open E path flags s =
     do { (r, p, s) \<leftarrow> resolve_full E path s;
          if r = 0 then open_inode E p flags s
          else if flags AND VFS_O_CREAT = 0 then Some (None, s)
          else do { (r, s) \<leftarrow> vfs_create E path s;
                    if r \<noteq> 0 then Some (None, s)
                    else do { (r, p, s) \<leftarrow> resolve_full E path s;
                              if r \<noteq> 0 then Some (None, s) else open_inode E p flags s } } }"

definition advance :: "nat \<Rightarrow> int \<Rightarrow> ('d, 'x) vfs \<Rightarrow> ('d, 'x) vfs" where
  "advance i r s =
     (if 0 < r then s\<lparr>file_table := (file_table s)
                         [i := (file_table s ! i)\<lparr>vf_offset := vf_offset (file_table s ! i) + word_of_int r\<rparr>]\<rparr>
      else s)"

text \<open>The caller's buffer is \<open>None\<close> for NULL; a read returns the bytes that it receives.\<close>

definition vfs_read ::
  "('d, 'x) env \<Rightarrow> nat option \<Rightarrow> u64 \<Rightarrow> bool \<Rightarrow> ('d, 'x) vfs \<Rightarrow> (int \<times> bytes \<times> ('d, 'x) vfs) option" where
  "vfs_read E file sz has_buf s =
     (case file of
        None \<Rightarrow> Some (-1, [], s)
      | Some i \<Rightarrow>
          let f = file_table s ! i in
          if vf_inode f = 0 \<or> \<not> has_buf then Some (-1, [], s)
          else if vf_flags f AND VFS_O_READ = 0 then Some (-1, [], s)
          else (case ops_of E op_read (vf_inode f) s of
                  None \<Rightarrow> Some (-1, [], s)
                | Some rd \<Rightarrow> do { (r, bs, s) \<leftarrow> rd (vf_inode f) (vf_offset f) sz s;
                                  Some (r, bs, advance i r s) }))"

definition vfs_write ::
  "('d, 'x) env \<Rightarrow> nat option \<Rightarrow> bytes option \<Rightarrow> ('d, 'x) vfs \<Rightarrow> (int \<times> ('d, 'x) vfs) option" where
  "vfs_write E file buf s =
     (case (file, buf) of
        (Some i, Some bs) \<Rightarrow>
          let f = file_table s ! i in
          if vf_inode f = 0 then Some (-1, s)
          else if vf_flags f AND VFS_O_WRITE = 0 then Some (-1, s)
          else (case ops_of E op_write (vf_inode f) s of
                  None \<Rightarrow> Some (-1, s)
                | Some wr \<Rightarrow> do { (r, s) \<leftarrow> wr (vf_inode f) (vf_offset f) bs s; Some (r, advance i r s) })
      | _ \<Rightarrow> Some (-1, s))"

definition vfs_dup :: "nat option \<Rightarrow> ('d, 'x) vfs \<Rightarrow> nat option \<times> ('d, 'x) vfs" where
  "vfs_dup file s =
     (case file of
        None \<Rightarrow> (None, s)
      | Some i \<Rightarrow>
          let f = file_table s ! i in
          if vf_inode f = 0 then (None, s)
          else (case free_slot s of
                  None \<Rightarrow> (None, s)
                | Some k \<Rightarrow> (Some k, claim_slot k f (vfs_inode_ref (vf_inode f) s))))"

definition vfs_close :: "('d, 'x) env \<Rightarrow> nat option \<Rightarrow> ('d, 'x) vfs \<Rightarrow> (int \<times> ('d, 'x) vfs) option" where
  "vfs_close E file s =
     (case file of
        None \<Rightarrow> Some (-1, s)
      | Some i \<Rightarrow>
          if vf_inode (file_table s ! i) = 0 then Some (-1, s)
          else do { s \<leftarrow> vfs_inode_unref E (vf_inode (file_table s ! i)) s;
                    Some (0, s\<lparr>file_table := (file_table s)[i := \<lparr>vf_inode = 0, vf_offset = 0, vf_flags = 0\<rparr>]\<rparr>) })"

definition vfs_alloc_file :: "('d, 'x) vfs \<Rightarrow> nat option \<times> ('d, 'x) vfs" where
  "vfs_alloc_file s =
     (case free_slot s of
        None \<Rightarrow> (None, s)
      | Some i \<Rightarrow> (Some i, claim_slot i \<lparr>vf_inode = 0, vf_offset = 0, vf_flags = 0\<rparr> s))"

definition vfs_free_file :: "nat option \<Rightarrow> ('d, 'x) vfs \<Rightarrow> ('d, 'x) vfs" where
  "vfs_free_file file s =
     (case file of
        None \<Rightarrow> s
      | Some i \<Rightarrow> s\<lparr>file_table := (file_table s)[i := \<lparr>vf_inode = 0, vf_offset = 0, vf_flags = 0\<rparr>]\<rparr>)"

section \<open>Directories\<close>

text \<open>\<^verbatim>\<open>while (inode->ops->readdir(inode, fs_count, &tmp) == 0) fs_count++;\<close>\<close>

partial_function (option) count_entries ::
  "(u64 \<Rightarrow> u32 \<Rightarrow> ('d, 'x) vfs \<Rightarrow> (int \<times> vfs_dentry \<times> ('d, 'x) vfs) option) \<Rightarrow> u64 \<Rightarrow> u32 \<Rightarrow> ('d, 'x) vfs \<Rightarrow>
     (u32 \<times> ('d, 'x) vfs) option" where
  "count_entries readdir p n s =
     do { (r, _, s) \<leftarrow> readdir p n s;
          if r = 0 then count_entries readdir p (n + 1) s else Some (n, s) }"

text \<open>The name of a mount point directly below \<open>path\<close>.\<close>

definition direct_mount :: "string \<Rightarrow> string \<Rightarrow> string option" where
  "direct_mount path mp =
     (if take (length path) mp \<noteq> path then None
      else let child = dropWhile is_slash (drop (length path) mp) in
        if child = [] \<or> list_ex is_slash child then None else Some child)"

definition vfs_readdir ::
  "('d, 'x) env \<Rightarrow> string \<Rightarrow> u32 \<Rightarrow> vfs_dentry \<Rightarrow> ('d, 'x) vfs \<Rightarrow> (int \<times> vfs_dentry \<times> ('d, 'x) vfs) option" where
  "vfs_readdir E path index entry s =
     do { (r, p, s) \<leftarrow> resolve_full E path s;
          if r \<noteq> 0 then Some (-1, entry, s)
          else (case (vi_type (inodes s p), ops_of E op_readdir p s) of
                  (VFS_DIR, Some readdir) \<Rightarrow>
                    do { (fs_count, s) \<leftarrow> count_entries readdir p 0 s;
                         if index < fs_count
                         then do { (r, entry, s) \<leftarrow> readdir p index s;
                                   s \<leftarrow> vfs_inode_unref E p s;
                                   Some (r, entry, s) }
                         else do { s \<leftarrow> vfs_inode_unref E p s;
                                   let names = List.map_filter (\<lambda>mi. direct_mount path (mnt_path (mounts s ! mi)))
                                                 [1..<mount_count s];
                                   let k = unat (index - fs_count);
                                   if k < length names
                                   then Some (0, \<lparr>de_name = take (VFS_NAME_MAX - 1) (names ! k), de_ino = 0,
                                                  de_type = VFS_DIR, de_size = 0\<rparr>, s)
                                   else Some (-1, entry, s) } }
                | _ \<Rightarrow> do { s \<leftarrow> vfs_inode_unref E p s; Some (-1, entry, s) }) }"

section \<open>The device file system\<close>

definition devfs_destroy_inode :: "('d, 'x) env \<Rightarrow> u64 \<Rightarrow> u64 \<Rightarrow> u64 \<Rightarrow> ('d, 'x) vfs \<Rightarrow> ('d, 'x) vfs option" where
  "devfs_destroy_inode E root_inode dev_inode p s =
     (if p = 0 \<or> p = root_inode \<or> p = dev_inode then Some s else k_free E p s)"

definition devfs_of :: "u64 \<Rightarrow> ('d, 'x) vfs \<Rightarrow> devfs_data option" where
  "devfs_of dir s = (case vi_private (inodes s dir) of PrivDir d \<Rightarrow> Some (devfs_dirs s d) | _ \<Rightarrow> None)"

definition devfs_dir_readdir :: "u64 \<Rightarrow> u32 \<Rightarrow> vfs_dentry \<Rightarrow> ('d, 'x) vfs \<Rightarrow> int \<times> vfs_dentry" where
  "devfs_dir_readdir dir index entry s =
     (case devfs_of dir s of
        None \<Rightarrow> (-1, entry)
      | Some d \<Rightarrow>
          if length (dd_entries d) \<le> unat index then (-1, entry)
          else let e = dd_entries d ! unat index
               in (0, \<lparr>de_name = take (VFS_NAME_MAX - 1) (dv_name e), de_ino = dv_ino e,
                       de_type = dv_type e, de_size = dv_size e\<rparr>))"

definition devfs_chr_read ::
  "('d, 'x) env \<Rightarrow> u64 \<Rightarrow> u64 \<Rightarrow> u64 \<Rightarrow> ('d, 'x) vfs \<Rightarrow> (int \<times> bytes \<times> ('d, 'x) vfs) option" where
  "devfs_chr_read E p offset sz s =
     (case vi_private (inodes s p) of
        PrivOps k \<Rightarrow> (case op_read (e_ops E k) of None \<Rightarrow> Some (-1, [], s) | Some f \<Rightarrow> f p 0 sz s)
      | _ \<Rightarrow> Some (-1, [], s))"

definition devfs_chr_write ::
  "('d, 'x) env \<Rightarrow> u64 \<Rightarrow> u64 \<Rightarrow> bytes \<Rightarrow> ('d, 'x) vfs \<Rightarrow> (int \<times> ('d, 'x) vfs) option" where
  "devfs_chr_write E p offset bs s =
     (case vi_private (inodes s p) of
        PrivOps k \<Rightarrow> (case op_write (e_ops E k) of None \<Rightarrow> Some (-1, s) | Some f \<Rightarrow> f p 0 bs s)
      | _ \<Rightarrow> Some (-1, s))"

text \<open>\<^verbatim>\<open>sizeof(struct vfs_inode)\<close>\<close>

definition INODE_SIZE :: u64 where "INODE_SIZE = 56"

definition devfs_alloc_inode :: "('d, 'x) env \<Rightarrow> ('d, 'x) vfs \<Rightarrow> (u64 \<times> ('d, 'x) vfs) option" where
  "devfs_alloc_inode E s =
     do { (p, s) \<leftarrow> k_malloc E INODE_SIZE s;
          if p = 0 then Some (0, s)
          else Some (p, set_inode p (\<lambda>_. \<lparr>vi_ino = 0, vi_type = VFS_FILE, vi_size = 0, vi_sb = SbNull,
                                        vi_ops = None, vi_private = PrivNull, vi_refcount = 1\<rparr>) s) }"

definition vfs_alloc_inode :: "('d, 'x) env \<Rightarrow> ('d, 'x) vfs \<Rightarrow> (u64 \<times> ('d, 'x) vfs) option" where
  "vfs_alloc_inode E s = devfs_alloc_inode E s"

definition devfs_register_chrdev :: "string \<Rightarrow> inode_ops \<Rightarrow> ('d, 'x) vfs \<Rightarrow> int \<times> ('d, 'x) vfs" where
  "devfs_register_chrdev name ops s =
     (let dev = devfs_dirs s devfs_dev_data in
      if DEVFS_MAX_ENTRIES \<le> length (dd_entries dev) then (-1, s)
      else (0, s\<lparr>devfs_dirs := (devfs_dirs s)(devfs_dev_data :=
                   \<lparr>dd_entries = dd_entries dev @
                      [\<lparr>dv_name = take (VFS_NAME_MAX - 1) name, dv_ino = of_nat (dd_next_ino dev),
                        dv_type = VFS_CHRDEV, dv_size = 0, dv_private = PrivOps ops\<rparr>],
                    dd_next_ino = dd_next_ino dev + 1\<rparr>)\<rparr>))"

definition devfs_dir_lookup ::
  "('d, 'x) env \<Rightarrow> u64 \<Rightarrow> string \<Rightarrow> ('d, 'x) vfs \<Rightarrow> (int \<times> u64 \<times> ('d, 'x) vfs) option" where
  "devfs_dir_lookup E dir name s =
     (case vi_private (inodes s dir) of
        PrivDir dd \<Rightarrow>
          (case find (\<lambda>e. path_match (dv_name e) name) (dd_entries (devfs_dirs s dd)) of
             None \<Rightarrow> Some (-1, 0, s)
           | Some e \<Rightarrow>
               do { (p, s) \<leftarrow> devfs_alloc_inode E s;
                    if p = 0 then Some (-1, 0, s)
                    else let ops = (case dv_type e of
                                      VFS_DIR \<Rightarrow> vi_ops (inodes s dir)
                                    | VFS_BLKDEV \<Rightarrow> Some devfs_blk_ops
                                    | VFS_CHRDEV \<Rightarrow> Some devfs_chr_ops
                                    | VFS_FILE \<Rightarrow> None);
                             priv = (if dv_type e = VFS_DIR \<and> dv_private e = PrivNull
                                     then PrivDir dd else dv_private e)
                         in Some (0, p, set_inode p (\<lambda>_. \<lparr>vi_ino = dv_ino e, vi_type = dv_type e,
                                     vi_size = dv_size e, vi_sb = vi_sb (inodes s dir), vi_ops = ops,
                                     vi_private = priv, vi_refcount = 1\<rparr>) s) })
      | _ \<Rightarrow> Some (-1, 0, s))"

section \<open>Block device files\<close>

text \<open>The C cast \<^verbatim>\<open>(int)\<close> of a 64-bit value.\<close>

definition to_int :: "u64 \<Rightarrow> int" where
  "to_int x = sint (ucast x :: u32)"

text \<open>
  The loop over whole sectors; the accumulator is what has been read so far.  \<open>Inl\<close> is the early
  return with a short count.
\<close>

partial_function (option) blk_read_loop ::
  "(u64 \<Rightarrow> (int \<times> bytes) option) \<Rightarrow> u64 \<Rightarrow> u64 \<Rightarrow> u64 \<Rightarrow> bytes \<Rightarrow> (bytes + u64 \<times> u64 \<times> bytes) option" where
  "blk_read_loop rd ss sector to_read out =
     (if ss \<le> to_read
      then do { (r, b) \<leftarrow> rd sector;
                if r \<noteq> 0 then Some (Inl out)
                else blk_read_loop rd ss (sector + 1) (to_read - ss) (out @ take (unat ss) b) }
      else Some (Inr (sector, to_read, out)))"

text \<open>The part of \<^verbatim>\<open>devfs_blk_read\<close> after the first, partial sector.\<close>

definition blk_read_rest ::
  "(u64 \<Rightarrow> (int \<times> bytes) option) \<Rightarrow> u64 \<Rightarrow> u64 \<Rightarrow> u64 \<Rightarrow> bytes \<Rightarrow> (int \<times> bytes) option" where
  "blk_read_rest rd ss sector to_read out =
     do { r \<leftarrow> blk_read_loop rd ss sector to_read out;
          (case r of
             Inl out \<Rightarrow> Some (to_int (of_nat (length out)), out)
           | Inr (sector, to_read, out) \<Rightarrow>
               if to_read = 0 then Some (to_int (of_nat (length out)), out)
               else do { (r, tmp) \<leftarrow> rd sector;
                         if r \<noteq> 0 then Some (to_int (of_nat (length out)), out)
                         else let out = out @ take (unat to_read) tmp
                              in Some (to_int (of_nat (length out)), out) }) }"

definition devfs_blk_read ::
  "('d, 'x) env \<Rightarrow> u64 \<Rightarrow> u64 \<Rightarrow> u64 \<Rightarrow> ('d, 'x) vfs \<Rightarrow> (int \<times> bytes) option" where
  "devfs_blk_read E p offset sz s =
     (case vi_private (inodes s p) of
        PrivBlk d \<Rightarrow>
          (let b = dev_at (blk s) d;
               rd = (\<lambda>sector. block_read (e_drv E) (blk s) (disk s) d sector 1);
               ss = ucast (bd_sector_size b);
               sector = offset div ss;
               byte_off = offset mod ss;
               total = bd_sector_count b * ss
           in if d = DNull then Some (-1, [])
              else if bd_sector_count b \<le> sector then Some (-1, [])
              else let to_read = (if total - offset < sz then total - offset else sz)
                   in if byte_off \<noteq> 0
                      then do { (r, tmp) \<leftarrow> rd sector;
                                if r \<noteq> 0 then Some (-1, [])
                                else let chunk = (if to_read < ss - byte_off then to_read else ss - byte_off)
                                     in blk_read_rest rd ss (sector + 1) (to_read - chunk)
                                          (take (unat chunk) (drop (unat byte_off) tmp)) }
                      else blk_read_rest rd ss sector to_read [])
      | _ \<Rightarrow> Some (-1, []))"

partial_function (option) blk_write_loop ::
  "(u64 \<Rightarrow> bytes \<Rightarrow> 'd \<Rightarrow> (int \<times> 'd) option) \<Rightarrow> u64 \<Rightarrow> u64 \<Rightarrow> u64 \<Rightarrow> u64 \<Rightarrow> bytes \<Rightarrow> 'd \<Rightarrow>
     ((u64 \<times> 'd) + u64 \<times> u64 \<times> u64 \<times> 'd) option" where
  "blk_write_loop wr ss sector to_write done buf dk =
     (if ss \<le> to_write
      then do { (r, dk) \<leftarrow> wr sector (take (unat ss) (drop (unat done) buf)) dk;
                if r \<noteq> 0 then Some (Inl (done, dk))
                else blk_write_loop wr ss (sector + 1) (to_write - ss) (done + ss) buf dk }
      else Some (Inr (sector, to_write, done, dk)))"

text \<open>\<^verbatim>\<open>tmp[off + i] = buf[done + i]\<close> for the \<open>n\<close> bytes of a partial sector.\<close>

definition patch :: "bytes \<Rightarrow> nat \<Rightarrow> bytes \<Rightarrow> bytes" where
  "patch tmp off bs = take off tmp @ bs @ drop (off + length bs) tmp"

definition blk_write_rest ::
  "('d \<Rightarrow> u64 \<Rightarrow> (int \<times> bytes) option) \<Rightarrow> (u64 \<Rightarrow> bytes \<Rightarrow> 'd \<Rightarrow> (int \<times> 'd) option) \<Rightarrow>
     u64 \<Rightarrow> u64 \<Rightarrow> u64 \<Rightarrow> u64 \<Rightarrow> bytes \<Rightarrow> 'd \<Rightarrow> (int \<times> 'd) option" where
  "blk_write_rest rd wr ss sector to_write done buf dk =
     do { r \<leftarrow> blk_write_loop wr ss sector to_write done buf dk;
          (case r of
             Inl (done, dk) \<Rightarrow> Some (to_int done, dk)
           | Inr (sector, to_write, done, dk) \<Rightarrow>
               if to_write = 0 then Some (to_int done, dk)
               else do { (r, tmp) \<leftarrow> rd dk sector;
                         if r \<noteq> 0 then Some (to_int done, dk)
                         else do { (r, dk) \<leftarrow> wr sector (patch tmp 0 (take (unat to_write) (drop (unat done) buf))) dk;
                                   Some (to_int (done + to_write), dk) } }) }"

definition devfs_blk_write ::
  "('d, 'x) env \<Rightarrow> u64 \<Rightarrow> u64 \<Rightarrow> bytes \<Rightarrow> ('d, 'x) vfs \<Rightarrow> (int \<times> ('d, 'x) vfs) option" where
  "devfs_blk_write E p offset buf s =
     (case vi_private (inodes s p) of
        PrivBlk d \<Rightarrow>
          (let b = dev_at (blk s) d;
               rd = (\<lambda>dk sector. block_read (e_drv E) (blk s) dk d sector 1);
               wr = (\<lambda>sector bs dk. block_write (e_drv E) (blk s) dk d sector 1 bs);
               ss = ucast (bd_sector_size b);
               sector = offset div ss;
               byte_off = offset mod ss;
               total = bd_sector_count b * ss;
               sz = of_nat (length buf);
               put = (\<lambda>(r, dk). (r, s\<lparr>disk := dk\<rparr>))
           in if d = DNull then Some (-1, s)
              else if bd_sector_count b \<le> sector then Some (-1, s)
              else let to_write = (if total - offset < sz then total - offset else sz)
                   in if byte_off \<noteq> 0
                      then do { (r, tmp) \<leftarrow> rd (disk s) sector;
                                if r \<noteq> 0 then Some (-1, s)
                                else let chunk = (if to_write < ss - byte_off then to_write else ss - byte_off)
                                     in do { (r, dk) \<leftarrow> wr sector (patch tmp (unat byte_off) (take (unat chunk) buf)) (disk s);
                                             if r \<noteq> 0 then Some (to_int chunk, s\<lparr>disk := dk\<rparr>)
                                             else map_option put
                                               (blk_write_rest rd wr ss (sector + 1) (to_write - chunk) chunk buf dk) } }
                      else map_option put (blk_write_rest rd wr ss sector to_write 0 buf (disk s)))
      | _ \<Rightarrow> Some (-1, s))"

section \<open>Mounting the device file system\<close>

text \<open>\<^verbatim>\<open>devfs_root_inode\<close> and \<^verbatim>\<open>devfs_dev_inode\<close> are static; their addresses are arguments.\<close>

definition dot_entry :: "string \<Rightarrow> devfs_dir \<Rightarrow> devfs_entry" where
  "dot_entry name d = \<lparr>dv_name = name, dv_ino = 0, dv_type = VFS_DIR, dv_size = 0, dv_private = PrivDir d\<rparr>"

fun add_block_entries :: "blkst \<Rightarrow> devptr list \<Rightarrow> devfs_data \<Rightarrow> devfs_data" where
  "add_block_entries b [] dev = dev"
| "add_block_entries b (d # ds) dev =
     (if DEVFS_MAX_ENTRIES \<le> length (dd_entries dev) then dev
      else if d = DNull then add_block_entries b ds dev
      else add_block_entries b ds
             \<lparr>dd_entries = dd_entries dev @
                [\<lparr>dv_name = take (VFS_NAME_MAX - 1) (bd_name (dev_at b d)), dv_ino = of_nat (dd_next_ino dev),
                  dv_type = VFS_BLKDEV,
                  dv_size = bd_sector_count (dev_at b d) * ucast (bd_sector_size (dev_at b d)),
                  dv_private = PrivBlk d\<rparr>],
              dd_next_ino = dd_next_ino dev + 1\<rparr>)"

definition vfs_mount_devfs :: "u64 \<Rightarrow> u64 \<Rightarrow> string \<Rightarrow> ('d, 'x) vfs \<Rightarrow> int \<times> ('d, 'x) vfs" where
  "vfs_mount_devfs root_inode dev_inode path s =
     (let root = \<lparr>dd_entries = [dot_entry ''.'' devfs_root_data], dd_next_ino = 1\<rparr>;
          dev = add_block_entries (blk s) (map (\<lambda>i. block_get (int i) (blk s)) [0..<device_count (blk s)])
                  \<lparr>dd_entries = [dot_entry ''.'' devfs_dev_data, dot_entry ''..'' devfs_root_data], dd_next_ino = 1\<rparr>;
          dir = (\<lambda>sb d. \<lparr>vi_ino = 0, vi_type = VFS_DIR, vi_size = 0, vi_sb = sb, vi_ops = Some devfs_dir_ops,
                         vi_private = PrivDir d, vi_refcount = 1\<rparr>);
          super = (\<lambda>i d. \<lparr>sb_mounted = True, sb_sb_ops = Some devfs_sb_ops, sb_root = i, sb_private = PrivDir d\<rparr>)
      in if path = ''/''
         then let root = root\<lparr>dd_entries := dd_entries root @
                               [(dot_entry ''dev'' devfs_dev_data)\<lparr>dv_ino := of_nat (dd_next_ino root)\<rparr>],
                              dd_next_ino := dd_next_ino root + 1\<rparr>
              in vfs_mount ''/'' devfs_sb
                   (s\<lparr>devfs_dirs := (\<lambda>d. case d of devfs_root_data \<Rightarrow> root | devfs_dev_data \<Rightarrow> dev),
                      inodes := (inodes s)(root_inode := dir devfs_sb devfs_root_data),
                      superblocks := (superblocks s)(devfs_sb := super root_inode devfs_root_data)\<rparr>)
         else vfs_mount path devfs_dev_sb
                (s\<lparr>devfs_dirs := (\<lambda>d. case d of devfs_root_data \<Rightarrow> root | devfs_dev_data \<Rightarrow> dev),
                   inodes := (inodes s)(dev_inode := dir devfs_dev_sb devfs_dev_data),
                   superblocks := (superblocks s)(devfs_dev_sb := super dev_inode devfs_dev_data)\<rparr>))"

definition vfs_get_block_device :: "('d, 'x) env \<Rightarrow> string \<Rightarrow> ('d, 'x) vfs \<Rightarrow> (devptr \<times> ('d, 'x) vfs) option" where
  "vfs_get_block_device E path s =
     do { (r, p, s) \<leftarrow> resolve_full E path s;
          if r \<noteq> 0 then Some (DNull, s)
          else let i = inodes s p
               in do { s \<leftarrow> vfs_inode_unref E p s;
                       Some (if vi_type i \<noteq> VFS_BLKDEV then DNull
                             else (case vi_private i of PrivBlk d \<Rightarrow> d | _ \<Rightarrow> DNull), s) } }"

section \<open>Reading a block device file\<close>

text \<open>The bytes of the sectors from \<open>a\<close> to \<open>b\<close>, of 512 bytes each.\<close>

definition sectors :: "(nat \<Rightarrow> bytes) \<Rightarrow> nat \<Rightarrow> nat \<Rightarrow> bytes" where
  "sectors content a b = concat (map content [a..<b])"

lemma length_sectors:
  "\<forall>k. length (content k) = 512 \<Longrightarrow> length (sectors content a b) = 512 * (b - a)"
  by (simp add: sectors_def length_concat comp_def sum_list_triv)

lemma sectors_Cons: "a < b \<Longrightarrow> sectors content a b = content a @ sectors content (Suc a) b"
  by (simp add: sectors_def upt_conv_Cons)

lemma drop_sectors:
  assumes "\<forall>k. length (content k) = 512" and "a + q \<le> b"
  shows "drop (512 * q) (sectors content a b) = sectors content (a + q) b"
  using assms(2)
proof (induction q)
  case (Suc q)
  have "drop (512 * Suc q) (sectors content a b) = drop 512 (drop (512 * q) (sectors content a b))"
    by (simp add: add.commute)
  also have "\<dots> = drop 512 (sectors content (a + q) b)" using Suc by simp
  also have "\<dots> = sectors content (a + Suc q) b"
    using Suc.prems assms(1) by (simp add: sectors_Cons)
  finally show ?case .
qed simp

definition reads :: "(u64 \<Rightarrow> (int \<times> bytes) option) \<Rightarrow> (nat \<Rightarrow> bytes) \<Rightarrow> nat \<Rightarrow> bool" where
  "reads rd content n \<longleftrightarrow>
     (\<forall>k. length (content k) = 512) \<and> (\<forall>sector. unat sector < n \<longrightarrow> rd sector = Some (0, content (unat sector)))"

lemma blk_read_loop_spec:
  assumes rd: "reads rd content n" and "unat sector + unat to_read div 512 \<le> n" and "n < 2 ^ 55"
  shows "\<exists>sector' rest. blk_read_loop rd 512 sector to_read out = Some (Inr (sector', rest,
       out @ take (unat to_read div 512 * 512) (sectors content (unat sector) n))) \<and>
     unat sector' = unat sector + unat to_read div 512 \<and> unat rest = unat to_read mod 512"
  using assms(2)
proof (induction "unat to_read div 512" arbitrary: sector to_read out)
  case 0
  then have "\<not> 512 \<le> to_read" by (simp add: word_le_nat_alt div_eq_0_iff)
  with 0 show ?case by (subst blk_read_loop.simps) (auto simp: div_eq_0_iff)
next
  case (Suc q)
  have le: "512 \<le> unat to_read" using Suc.hyps(2) by (metis div_less nat.distinct(1) not_le)
  then have w: "512 \<le> to_read" by (simp add: word_le_nat_alt)
  have r: "unat (to_read - 512) = unat to_read - 512" using w by (simp add: unat_sub)
  have q: "q = unat (to_read - 512) div 512" using Suc.hyps(2) le r by (simp add: le_div_geq)
  have s1: "unat (sector + 1) = unat sector + 1"
    using Suc.prems assms(3) by (subst unat_add_nowrap) auto
  have lt: "unat sector < n" using Suc.hyps(2) Suc.prems by simp
  then have s0: "rd sector = Some (0, content (unat sector))" "length (content (unat sector)) = 512"
    using rd by (auto simp: reads_def)
  have "unat (sector + 1) + unat (to_read - 512) div 512 \<le> n"
    using Suc.prems Suc.hyps(2) q s1 by simp
  from Suc.hyps(1) [OF q this, of "out @ content (unat sector)"] obtain sector' rest where ih:
    "blk_read_loop rd 512 (sector + 1) (to_read - 512) (out @ content (unat sector)) =
       Some (Inr (sector', rest, (out @ content (unat sector)) @
         take (unat (to_read - 512) div 512 * 512) (sectors content (unat (sector + 1)) n)))"
    "unat sector' = unat (sector + 1) + unat (to_read - 512) div 512"
    "unat rest = unat (to_read - 512) mod 512" by blast
  have k: "unat to_read div 512 * 512 = 512 + unat (to_read - 512) div 512 * 512"
    using Suc.hyps(2) q by simp
  have "take (unat to_read div 512 * 512) (sectors content (unat sector) n) =
      content (unat sector) @ take (unat (to_read - 512) div 512 * 512) (sectors content (unat (sector + 1)) n)"
    unfolding k using lt s0(2) s1 by (simp add: sectors_Cons)
  moreover have "blk_read_loop rd 512 sector to_read out =
      blk_read_loop rd 512 (sector + 1) (to_read - 512) (out @ content (unat sector))"
    using w s0 by (subst blk_read_loop.simps) simp
  moreover have "unat (to_read - 512) mod 512 = unat to_read mod 512"
    using le r by (simp add: le_mod_geq)
  ultimately show ?case using ih s1 q Suc.hyps(2) by auto
qed

lemma to_int_small:
  assumes "n < 2 ^ 31"
  shows "to_int (of_nat n) = int n"
proof -
  have "unat (of_nat n :: u64) = n" using assms by (intro unat_of_nat64) simp
  then have "unat (ucast (of_nat n :: u64) :: u32) = n"
    using assms by (simp add: unsigned_ucast_eq take_bit_nat_eq_self)
  then have u: "uint (ucast (of_nat n :: u64) :: u32) = int n"
    by (metis uint_nat)
  show ?thesis
    unfolding to_int_def sint_uint u using assms by (simp add: signed_take_bit_int_eq_self)
qed

lemma blk_read_rest_spec:
  assumes rd: "reads rd content n" and fit: "unat sector * 512 + unat to_read \<le> n * 512" and "n < 2 ^ 55"
    and small: "length out + unat to_read < 2 ^ 31"
  shows "blk_read_rest rd 512 sector to_read out =
     (let res = out @ take (unat to_read) (sectors content (unat sector) n) in Some (int (length res), res))"
proof -
  define q where "q = unat to_read div 512"
  define r where "r = unat to_read mod 512"
  have qr: "unat to_read = q * 512 + r" "r < 512" by (simp_all add: q_def r_def)
  have len: "\<forall>k. length (content k) = 512" using rd by (simp add: reads_def)
  have sq: "unat sector + q \<le> n" using fit qr by simp
  then have "unat sector + unat to_read div 512 \<le> n" by (simp add: q_def)
  from blk_read_loop_spec [OF rd this assms(3), of out] obtain sector' rest where l:
    "blk_read_loop rd 512 sector to_read out =
       Some (Inr (sector', rest, out @ take (q * 512) (sectors content (unat sector) n)))"
    "unat sector' = unat sector + q" "unat rest = r" by (auto simp: q_def r_def)
  have S: "length (sectors content (unat sector) n) = 512 * (n - unat sector)"
    by (rule length_sectors [OF len])
  define res where "res = out @ take (unat to_read) (sectors content (unat sector) n)"
  have "length res < 2 ^ 31" using small by (simp add: res_def)
  then have ti: "to_int (of_nat (length res)) = int (length res)" by (rule to_int_small)
  show ?thesis
  proof (cases "r = 0")
    case True
    then have "rest = 0" using l(3) by (simp add: unat_eq_0)
    moreover have "out @ take (q * 512) (sectors content (unat sector) n) = res"
      using True qr by (simp add: res_def)
    ultimately show ?thesis using l(1) ti by (simp add: blk_read_rest_def res_def [symmetric])
  next
    case False
    then have lt: "unat sector + q < n" using fit qr by simp
    then have tmp: "rd sector' = Some (0, content (unat sector + q))"
      using rd l(2) by (auto simp: reads_def)
    have "take (unat to_read) (sectors content (unat sector) n) =
        take (q * 512) (sectors content (unat sector) n) @ take r (drop (q * 512) (sectors content (unat sector) n))"
      unfolding qr(1) by (rule take_add)
    also have "drop (q * 512) (sectors content (unat sector) n) = content (unat sector + q) @ sectors content (Suc (unat sector + q)) n"
      using drop_sectors [OF len sq] sectors_Cons [OF lt] by (simp add: mult.commute)
    also have "take r (content (unat sector + q) @ sectors content (Suc (unat sector + q)) n) =
        take r (content (unat sector + q))" using qr(2) len by simp
    finally have e: "take (unat to_read) (sectors content (unat sector) n) =
        take (q * 512) (sectors content (unat sector) n) @ take r (content (unat sector + q))" .
    have "rest \<noteq> 0" using False l(3) by auto
    moreover have "(out @ take (q * 512) (sectors content (unat sector) n)) @ take r (content (unat sector + q)) = res"
      by (simp add: res_def e)
    ultimately show ?thesis using l tmp ti
      by (simp add: blk_read_rest_def res_def [symmetric] Let_def del: append_assoc length_append of_nat_add)
  qed
qed

lemma reads_block:
  assumes "\<forall>sector. unat sector < n \<longrightarrow> block_read V b dk d sector 1 = Some (0, content (unat sector))"
    and "\<forall>k. length (content k) = 512"
  shows "reads (\<lambda>sector. block_read V b dk d sector 1) content n"
  using assms by (simp add: reads_def)

text \<open>
  C16 (functional): reading a block device file at any offset and length gives the corresponding
  bytes of the device, cut at its end: the partial first sector, the loop over whole sectors and
  the partial last sector join without gap or overlap.  (Devices of 512-byte sectors whose driver
  does not fail.)
\<close>

theorem devfs_blk_read_slice:
  fixes E :: "('d, 'x) env" and s :: "('d, 'x) vfs" and content :: "nat \<Rightarrow> bytes"
  assumes priv: "vi_private (inodes s p) = PrivBlk d" "d \<noteq> DNull"
    and dev: "bd_sector_size (dev_at (blk s) d) = 512" "unat (bd_sector_count (dev_at (blk s) d)) = n" "n < 2 ^ 55"
    and rd: "\<forall>sector. unat sector < n \<longrightarrow> block_read (e_drv E) (blk s) (disk s) d sector 1 = Some (0, content (unat sector))"
    and len: "\<forall>k. length (content k) = 512"
    and off: "unat offset < n * 512" "unat sz < 2 ^ 31"
  shows "devfs_blk_read E p offset sz s =
     (let res = take (unat sz) (drop (unat offset) (sectors content 0 n)) in Some (int (length res), res))"
proof -
  define rdf where "rdf = (\<lambda>sector. block_read (e_drv E) (blk s) (disk s) d sector 1)"
  have R: "reads rdf content n" unfolding rdf_def by (rule reads_block [OF rd len])
  define c where "c = bd_sector_count (dev_at (blk s) d)"
  define sector where "sector = offset div 512"
  define byte_off where "byte_off = offset mod 512"
  define total where "total = c * 512"
  define to_read where "to_read = (if total - offset < sz then total - offset else sz)"
  have us: "unat sector = unat offset div 512" "unat byte_off = unat offset mod 512"
    by (simp_all add: sector_def byte_off_def unat_div unat_mod)
  have ut: "unat total = n * 512" using dev by (simp add: total_def c_def unat_word_ariths)
  have "offset \<le> total" using off(1) ut by (simp add: word_le_nat_alt)
  then have utr: "unat to_read = min (unat sz) (n * 512 - unat offset)"
    using ut by (auto simp: to_read_def word_less_nat_alt unat_sub)
  have lt: "unat sector < n" using off(1) us by (simp add: less_mult_imp_div_less)
  then have nle: "\<not> c \<le> sector" using dev(2) by (simp add: c_def word_le_nat_alt)
  define S where "S = sectors content (unat sector) n"
  have S: "drop (512 * unat sector) (sectors content 0 n) = S"
    using drop_sectors [OF len, of 0 "unat sector" n] lt by (simp add: S_def)
  have o: "unat offset = 512 * unat sector + unat byte_off" "unat byte_off < 512" using us by simp_all
  have dr: "drop (unat offset) (sectors content 0 n) = drop (unat byte_off) S"
    unfolding o(1) using S by (metis add.commute drop_drop)
  have Sl: "length (drop (unat byte_off) S) = n * 512 - unat offset"
    using length_sectors [OF len, of "unat sector" n] o by (simp add: S_def algebra_simps)
  have res: "take (unat sz) (drop (unat offset) (sectors content 0 n)) = take (unat to_read) (drop (unat byte_off) S)"
    unfolding dr utr using Sl by (simp add: min_def)
  have body: "devfs_blk_read E p offset sz s =
      (if byte_off \<noteq> 0
       then do { (r, tmp) \<leftarrow> rdf sector;
                 if r \<noteq> 0 then Some (-1, [])
                 else let chunk = (if to_read < 512 - byte_off then to_read else 512 - byte_off)
                      in blk_read_rest rdf 512 (sector + 1) (to_read - chunk)
                           (take (unat chunk) (drop (unat byte_off) tmp)) }
       else blk_read_rest rdf 512 sector to_read [])"
  proof -
    have ss: "(ucast (bd_sector_size (dev_at (blk s) d)) :: u64) = 512" using dev(1) by simp
    show ?thesis
      unfolding devfs_blk_read_def priv(1) privptr.case Let_def ss rdf_def
      unfolding sector_def [symmetric] byte_off_def [symmetric] c_def [symmetric]
        total_def [symmetric] to_read_def [symmetric]
      using nle priv(2) by simp
  qed
  have fit: "unat sector * 512 + unat byte_off + unat to_read \<le> n * 512"
    using utr o off(1) by simp
  have small: "unat to_read < 2 ^ 31" using utr off(2) by simp
  show ?thesis
  proof (cases "byte_off = 0")
    case True
    have "unat sector * 512 + unat to_read \<le> n * 512" using fit by simp
    from blk_read_rest_spec [OF R this dev(3), of "[]"] True body small res
    show ?thesis by (simp add: S_def)
  next
    case False
    define chunk where "chunk = (if to_read < 512 - byte_off then to_read else 512 - byte_off)"
    have ub: "unat (512 - byte_off) = 512 - unat byte_off"
      using o(2) by (simp add: unat_sub word_le_nat_alt)
    have uc: "unat chunk = min (unat to_read) (512 - unat byte_off)"
      using ub by (simp add: chunk_def word_less_nat_alt min_def)
    have ud: "unat (to_read - chunk) = unat to_read - unat chunk"
      using uc by (intro unat_sub) (simp add: word_le_nat_alt)
    have s1: "unat (sector + 1) = unat sector + 1" using lt dev(3) by (subst unat_add_nowrap) auto
    have tmp: "rdf sector = Some (0, content (unat sector))" using R lt by (simp add: reads_def)
    have f2: "unat (sector + 1) * 512 + unat (to_read - chunk) \<le> n * 512"
      using fit lt s1 ud uc by auto
    define out where "out = take (unat chunk) (drop (unat byte_off) (content (unat sector)))"
    have "length out = unat chunk" using len uc by (simp add: out_def)
    then have "length out + unat (to_read - chunk) < 2 ^ 31" using ud uc small by simp
    note rest = blk_read_rest_spec [OF R f2 dev(3) this]
    have "S = content (unat sector) @ sectors content (unat (sector + 1)) n"
      using sectors_Cons [OF lt] s1 by (simp add: S_def)
    then have e: "take (unat to_read) (drop (unat byte_off) S) =
        out @ take (unat (to_read - chunk)) (sectors content (unat (sector + 1)) n)"
      using len o(2) ud uc by (auto simp: out_def min_def)
    have "devfs_blk_read E p offset sz s = blk_read_rest rdf 512 (sector + 1) (to_read - chunk) out"
      using False tmp unfolding body chunk_def out_def Let_def by simp
    then show ?thesis unfolding rest res e by simp
  qed
qed

definition no_ops :: "'s fsops" where
  "no_ops = \<lparr>op_read = None, op_write = None, op_truncate = None, op_readdir = None, op_lookup = None,
             op_create = None, op_unlink = None, op_mkdir = None\<rparr>"

definition ram_env :: "(u64 \<Rightarrow> u8, unit) env" where
  "ram_env = \<lparr>e_ops = (\<lambda>_. no_ops), e_destroy = (\<lambda>_. None), k_malloc = (\<lambda>n s. Some (0, s)),
              k_free = (\<lambda>p s. Some s), e_drv = ram_driver\<rparr>"

definition blank_inode :: vfs_inode where
  "blank_inode = \<lparr>vi_ino = 0, vi_type = VFS_FILE, vi_size = 0, vi_sb = SbNull, vi_ops = None,
                  vi_private = PrivNull, vi_refcount = 1\<rparr>"

definition blank_sb :: vfs_superblock where
  "blank_sb = \<lparr>sb_mounted = False, sb_sb_ops = None, sb_root = 0, sb_private = PrivNull\<rparr>"

definition ram_vfs :: "(u64 \<Rightarrow> u8, unit) vfs" where
  "ram_vfs = \<lparr>inodes = (\<lambda>_. blank_inode)(0x2000 := blank_inode\<lparr>vi_type := VFS_BLKDEV, vi_private := PrivBlk (Drv 0)\<rparr>),
              superblocks = (\<lambda>_. blank_sb),
              file_table = replicate 64 \<lparr>vf_inode = 0, vf_offset = 0, vf_flags = 0\<rparr>, file_count = 0,
              mounts = replicate 16 \<lparr>mnt_path = [], mnt_sb = blank_sb\<rparr>, mount_count = 0,
              devfs_dirs = (\<lambda>_. \<lparr>dd_entries = [], dd_next_ino = 1\<rparr>), blk = one_part,
              disk = (\<lambda>_. 7), fsx = ()\<rparr>"

lemma ram_vfs_file_table: "length (file_table ram_vfs) = 64"
  by (simp add: ram_vfs_def)

lemma ram_sector:
  assumes "unat sector < 1000"
  shows "block_read (e_drv ram_env) (blk ram_vfs) (disk ram_vfs) (Drv 0) sector 1 = Some (0, replicate 512 7)"
proof -
  have "unat (sector + 1) = unat sector + 1" using assms by (subst unat_add_nowrap) auto
  then have "sector + 1 \<le> 1000" using assms by (simp add: word_le_nat_alt)
  then show ?thesis
    by (subst block_read.simps)
       (simp add: io_allowed_def ram_vfs_def one_part_def disk_dev_def ram_env_def ram_driver_def)
qed

theorem devfs_blk_read_slice_witness:
  "devfs_blk_read ram_env 0x2000 1000 600 ram_vfs =
     (let res = take 600 (drop 1000 (sectors (\<lambda>_. replicate 512 7) 0 1000)) in Some (int (length res), res))"
proof -
  have p: "vi_private (inodes ram_vfs 0x2000) = PrivBlk (Drv 0)"
    "bd_sector_size (dev_at (blk ram_vfs) (Drv 0)) = 512"
    "unat (bd_sector_count (dev_at (blk ram_vfs) (Drv 0))) = 1000"
    by (simp_all add: ram_vfs_def one_part_def disk_dev_def)
  show ?thesis
    using devfs_blk_read_slice [of ram_vfs "0x2000" "Drv 0" 1000 ram_env "\<lambda>_. replicate 512 7" 1000 600] p ram_sector
    by simp
qed

section \<open>The file table\<close>

lemma free_slot_Some:
  "free_slot s = Some i \<Longrightarrow> i < VFS_FILE_MAX \<and> vf_inode (file_table s ! i) = 0 \<and>
     (\<forall>j < i. vf_inode (file_table s ! j) \<noteq> 0)"
  unfolding free_slot_def
  by (auto simp: find_Some_iff)

lemma refcount_inc_dec: "vi_refcount_update ((\<lambda>n. n - 1) \<circ> (\<lambda>n. n + 1)) i = i"
  by (cases i) simp

text \<open>
  Duplicating an open file takes the lowest free slot, which is not the file's own,
  and gives it the same inode, offset and flags; closing the duplicate gives the slot back, leaves
  every other slot as it was, and returns the inode to its reference count without destroying it.
\<close>

lemma vfs_dup_close:
  assumes "length (file_table s) = VFS_FILE_MAX" and "i < VFS_FILE_MAX"
    and "vf_inode (file_table s ! i) = p" and "p \<noteq> 0"
    and "free_slot s = Some k" and "vi_refcount (inodes s p) \<noteq> 0" and "vi_refcount (inodes s p) + 1 \<noteq> 0"
  shows "\<exists>s1 s2. vfs_dup (Some i) s = (Some k, s1) \<and> k \<noteq> i \<and> file_table s1 ! k = file_table s ! i \<and>
     vfs_close E (Some k) s1 = Some (0, s2) \<and> inodes s2 = inodes s \<and>
     (\<forall>j < VFS_FILE_MAX. j \<noteq> k \<longrightarrow> file_table s2 ! j = file_table s ! j) \<and> vf_inode (file_table s2 ! k) = 0"
proof -
  have k: "k < VFS_FILE_MAX" "vf_inode (file_table s ! k) = 0" using free_slot_Some [OF assms(5)] by auto
  define s1 where "s1 = claim_slot k (file_table s ! i) (vfs_inode_ref p s)"
  define s2 where "s2 = s1\<lparr>inodes := inodes s, file_table := (file_table s1)[k := \<lparr>vf_inode = 0, vf_offset = 0, vf_flags = 0\<rparr>]\<rparr>"
  have d: "vfs_dup (Some i) s = (Some k, s1)"
    using assms by (simp add: vfs_dup_def s1_def)
  have ft: "file_table s1 = (file_table s)[k := file_table s ! i]"
    by (simp add: s1_def claim_slot_def vfs_inode_ref_def set_inode_def)
  have u: "vfs_inode_unref E p s1 = Some (s1\<lparr>inodes := inodes s\<rparr>)"
    using assms by (simp add: vfs_inode_unref_def s1_def claim_slot_def vfs_inode_ref_def set_inode_def Let_def
        refcount_inc_dec)
  have "vfs_close E (Some k) s1 = Some (0, s2)"
    using k assms(1,3,4) u by (simp add: vfs_close_def ft s2_def)
  moreover have "k \<noteq> i" using k assms(3,4) by auto
  ultimately show ?thesis using d k assms(1) by (auto simp: ft s2_def)
qed

definition open_vfs :: "(u64 \<Rightarrow> u8, unit) vfs" where
  "open_vfs = ram_vfs\<lparr>file_table := (file_table ram_vfs)[0 := \<lparr>vf_inode = 0x2000, vf_offset = 9, vf_flags = 1\<rparr>]\<rparr>"

section \<open>Splitting a path\<close>

lemma scan_back_stop:
  assumes "\<not> P (buf ! k) \<or> k = 0"
  shows "scan_back P buf k = k"
  using assms by (cases k) auto

lemma scan_back_over:
  assumes "\<And>j. k < j \<Longrightarrow> j \<le> k + n \<Longrightarrow> P (buf ! j)"
  shows "scan_back P buf (k + n) = scan_back P buf k"
  using assms
proof (induction n)
  case (Suc n)
  have "P (buf ! Suc (k + n))" using Suc.prems [of "Suc (k + n)"] by simp
  moreover have "scan_back P buf (k + n) = scan_back P buf k" using Suc by simp
  ultimately show ?case by simp
qed simp

lemma slash_pos_split:
  assumes "name \<noteq> []" and "\<forall>c \<in> set name. \<not> is_slash c"
  shows "slash_pos (dir @ CHR ''/'' # name @ replicate n (CHR ''/'')) = length dir"
proof -
  define path where "path = dir @ CHR ''/'' # name @ replicate n (CHR ''/'')"
  define k where "k = length dir + length name"
  have len: "length path - Suc 0 = k + n" using assms(1) by (simp add: path_def k_def)
  have nth: "path ! (length dir + Suc j) = (name @ replicate n (CHR ''/'')) ! j" for j
    by (simp add: path_def nth_append)
  have "is_slash (path ! j)" if "k < j" "j \<le> k + n" for j
  proof -
    have "j = length dir + Suc (j - length dir - 1)" using that assms(1) by (simp add: k_def)
    then have "path ! j = (name @ replicate n (CHR ''/'')) ! (j - length dir - 1)" using nth by metis
    moreover have "\<not> j - length dir - 1 < length name" "j - length dir - 1 - length name < n"
      using that by (auto simp: k_def)
    ultimately show ?thesis by (simp add: nth_append is_slash_def)
  qed
  then have "scan_back is_slash path (k + n) = scan_back is_slash path k" by (rule scan_back_over)
  moreover have nm: "\<not> is_slash (path ! j)" if "length dir < j" "j \<le> k" for j
  proof -
    have "j = length dir + Suc (j - length dir - 1)" using that by simp
    then have "path ! j = (name @ replicate n (CHR ''/'')) ! (j - length dir - 1)" using nth by metis
    moreover have "j - length dir - 1 < length name" using that by (auto simp: k_def)
    ultimately show ?thesis using assms(2) by (simp add: nth_append)
  qed
  then have "\<not> is_slash (path ! k)" using assms(1) by (simp add: k_def)
  then have "scan_back is_slash path k = k" by (simp add: scan_back_stop)
  moreover have "scan_back (\<lambda>c. \<not> is_slash c) path (length dir + length name) =
      scan_back (\<lambda>c. \<not> is_slash c) path (length dir)"
    by (rule scan_back_over) (use nm in \<open>simp add: k_def\<close>)
  moreover have "is_slash (path ! length dir)" by (simp add: path_def nth_append is_slash_def)
  then have "scan_back (\<lambda>c. \<not> is_slash c) path (length dir) = length dir" by (simp add: scan_back_stop)
  ultimately show ?thesis by (simp add: slash_pos_def path_def [symmetric] len k_def)
qed

text \<open>
  For a path that ends in a component, with any number of slashes after it,
  \<^verbatim>\<open>resolve_parent\<close> resolves everything up to the slash before the component and returns the
  component, cut to 255 characters.
\<close>

lemma resolve_parent_splits:
  assumes "name \<noteq> []" and "\<forall>c \<in> set name. \<not> is_slash c"
    and "path = dir @ CHR ''/'' # name @ replicate n (CHR ''/'')" and "is_slash (hd path)"
  shows "resolve_parent E path s =
     do { (r, parent, s) \<leftarrow> resolve_full E (dir @ ''/'') s;
          if r \<noteq> 0 then Some (-1, 0, [], s)
          else Some (0, parent, take 255 name, s) }"
proof -
  have sp: "slash_pos path = length dir" unfolding assms(3) by (rule slash_pos_split [OF assms(1,2)])
  have pp: "parent_path path = dir @ ''/''" unfolding parent_path_def sp by (simp add: assms(3))
  have sl: "is_slash (path ! slash_pos path)" unfolding sp by (simp add: assms(3) nth_append is_slash_def)
  have dr: "drop (slash_pos path + 1) path = name @ replicate n (CHR ''/'')"
    unfolding sp by (simp add: assms(3))
  have "takeWhile (\<lambda>c. \<not> is_slash c) (name @ replicate n (CHR ''/'')) = name"
    using assms(2) by (cases n) (auto simp: takeWhile_append2 is_slash_def takeWhile_tail)
  moreover have "dropWhile is_slash (name @ replicate n (CHR ''/'')) = name @ replicate n (CHR ''/'')"
    using assms(1,2) by (cases name) auto
  ultimately have cn: "child_name path = take 255 name"
    using sl dr by (simp add: child_name_def Let_def path_component_def VFS_NAME_MAX_def)
  have "path \<noteq> []" by (simp add: assms(3))
  with assms(4) show ?thesis unfolding resolve_parent_def pp cn by simp
qed

end
