(* ===== verification/Pipefs.thy ===== *)
theory Pipefs
  imports Vfs
begin

text \<open>
  Pipes, \<^verbatim>\<open>kernel/fs/pipefs.c\<close> and \<^verbatim>\<open>pipefs.h\<close>.  The reader and the writer loop over a ring buffer
  and give up the processor with \<^verbatim>\<open>sti; hlt; cli\<close> when they cannot go on, so each is modelled by one
  iteration of its loop, and what they do together is a step relation in which iterations of the
  two interleave in any way.  The positions are 32-bit signed integers; the buffer is indexed by
  the C remainder, which is negative for a negative position.
\<close>

section \<open>State and operations\<close>

definition PIPE_BUF_SIZE :: int where "PIPE_BUF_SIZE = 4096"

record pipe_inode =
  pbuf :: "int \<Rightarrow> u8"
  read_pos :: int
  write_pos :: int
  readers :: int
  writers :: int
  pipe_refcount :: int

text \<open>The C remainder.\<close>

definition c_rem :: "int \<Rightarrow> int \<Rightarrow> int" where
  "c_rem a b = (if a < 0 then - ((- a) mod b) else a mod b)"

datatype 'a iteration = Again 'a | Wait | Return int

text \<open>One iteration of \<^verbatim>\<open>pipe_read\<close>: the bytes read so far are \<open>out\<close>.\<close>

definition pipe_read_iter :: "nat \<Rightarrow> bytes \<times> pipe_inode \<Rightarrow> (bytes \<times> pipe_inode) iteration" where
  "pipe_read_iter count st =
     (case st of (out, pipe) \<Rightarrow>
        if length out < count then
          if read_pos pipe \<noteq> write_pos pipe
          then Again (out @ [pbuf pipe (c_rem (read_pos pipe) PIPE_BUF_SIZE)],
                      pipe\<lparr>read_pos := wrap_int (read_pos pipe + 1)\<rparr>)
          else if writers pipe = 0 \<and> 0 < length out then Return (int (length out))
          else if writers pipe = 0 then Return 0
          else Wait
        else Return (int (length out)))"

text \<open>One iteration of \<^verbatim>\<open>pipe_write\<close>: \<open>tot\<close> bytes of \<open>buf\<close> are written.\<close>

definition pipe_write_iter :: "bytes \<Rightarrow> nat \<times> pipe_inode \<Rightarrow> (nat \<times> pipe_inode) iteration" where
  "pipe_write_iter buf st =
     (case st of (tot, pipe) \<Rightarrow>
        if tot < length buf then
          let next_pos = c_rem (write_pos pipe) PIPE_BUF_SIZE;
              used = wrap_int (write_pos pipe - read_pos pipe)
          in if used < PIPE_BUF_SIZE
             then Again (tot + 1, pipe\<lparr>pbuf := (pbuf pipe)(next_pos := buf ! tot),
                                         write_pos := wrap_int (write_pos pipe + 1)\<rparr>)
             else if readers pipe = 0 then Return (-1)
             else Wait
        else Return (int tot))"

definition pipe_truncate :: "u64 \<Rightarrow> u64 \<Rightarrow> int" where
  "pipe_truncate inode sz = 0"

text \<open>A reader of \<open>count\<close> bytes and a writer of \<open>buf\<close> on the same pipe; a result is \<open>None\<close> while it runs.\<close>

record pipe_run =
  pr_pipe :: pipe_inode
  pr_out :: bytes
  pr_total :: nat
  pr_rret :: "int option"
  pr_wret :: "int option"

inductive pipe_step :: "nat \<Rightarrow> bytes \<Rightarrow> pipe_run \<Rightarrow> pipe_run \<Rightarrow> bool" for count buf where
  read_again: "pr_rret s = None \<Longrightarrow> pipe_read_iter count (pr_out s, pr_pipe s) = Again (out, pipe) \<Longrightarrow>
     pipe_step count buf s (s\<lparr>pr_out := out, pr_pipe := pipe\<rparr>)"
| read_return: "pr_rret s = None \<Longrightarrow> pipe_read_iter count (pr_out s, pr_pipe s) = Return r \<Longrightarrow>
     pipe_step count buf s (s\<lparr>pr_rret := Some r\<rparr>)"
| write_again: "pr_wret s = None \<Longrightarrow> pipe_write_iter buf (pr_total s, pr_pipe s) = Again (tot, pipe) \<Longrightarrow>
     pipe_step count buf s (s\<lparr>pr_total := tot, pr_pipe := pipe\<rparr>)"
| write_return: "pr_wret s = None \<Longrightarrow> pipe_write_iter buf (pr_total s, pr_pipe s) = Return r \<Longrightarrow>
     pipe_step count buf s (s\<lparr>pr_wret := Some r\<rparr>)"

inductive_cases pipe_stepE: "pipe_step count buf s t"

definition new_pipe :: pipe_inode where
  "new_pipe = \<lparr>pbuf = (\<lambda>_. 0), read_pos = 0, write_pos = 0, readers = 1, writers = 1, pipe_refcount = 2\<rparr>"

definition pipe_start :: pipe_run where
  "pipe_start = \<lparr>pr_pipe = new_pipe, pr_out = [], pr_total = 0, pr_rret = None, pr_wret = None\<rparr>"

section \<open>The pipe is a queue\<close>

lemma c_rem_nonneg: "0 \<le> a \<Longrightarrow> c_rem a PIPE_BUF_SIZE = a mod 4096"
  by (simp add: c_rem_def PIPE_BUF_SIZE_def)

definition pipe_inv :: "bytes \<Rightarrow> pipe_run \<Rightarrow> bool" where
  "pipe_inv buf s \<longleftrightarrow>
     read_pos (pr_pipe s) = int (length (pr_out s)) \<and> write_pos (pr_pipe s) = int (pr_total s) \<and>
     pr_total s \<le> length buf \<and> length (pr_out s) \<le> pr_total s \<and> pr_total s \<le> length (pr_out s) + 4096 \<and>
     take (length (pr_out s)) buf = pr_out s \<and>
     (\<forall>k. length (pr_out s) \<le> k \<and> k < pr_total s \<longrightarrow> pbuf (pr_pipe s) (int k mod 4096) = buf ! k) \<and>
     readers (pr_pipe s) = 1 \<and> writers (pr_pipe s) = 1"

lemma ring_distinct:
  assumes "int k mod 4096 = int n mod 4096" and "k \<le> n" and "n < k + 4096"
  shows "k = (n :: nat)"
proof (rule ccontr)
  assume "k \<noteq> n"
  then have "0 < int n - int k" "int n - int k < 4096" using assms(2,3) by simp_all
  moreover have "4096 dvd int n - int k" using assms(1) by (simp add: mod_eq_dvd_iff [symmetric])
  ultimately show False using zdvd_imp_le by fastforce
qed

lemma pipe_step_inv:
  assumes "pipe_step count buf s t" and inv: "pipe_inv buf s" and len: "length buf < 2 ^ 31"
  shows "pipe_inv buf t"
  using assms(1)
proof (cases rule: pipe_step.cases)
  case (read_again out pipe)
  define n where "n = length (pr_out s)"
  have lt: "n < pr_total s"
    using read_again(3) inv by (auto simp: pipe_read_iter_def pipe_inv_def n_def split: if_splits)
  have i: "pr_total s \<le> length buf" "take n buf = pr_out s" "pbuf (pr_pipe s) (int n mod 4096) = buf ! n"
    using inv lt by (auto simp: pipe_inv_def n_def)
  have r: "out = pr_out s @ [buf ! n]" "pipe = (pr_pipe s)\<lparr>read_pos := int (Suc n)\<rparr>"
    using read_again(3) inv i lt len
    by (auto simp: pipe_read_iter_def pipe_inv_def n_def c_rem_nonneg wrap_int_id split: if_splits)
  have "take (Suc n) buf = out" using r(1) i lt by (simp add: take_Suc_conv_app_nth)
  moreover have "length out = Suc n" using r(1) by (simp add: n_def)
  ultimately show ?thesis using inv r(2) lt unfolding read_again(1)
    by (auto simp: pipe_inv_def n_def)
next
  case (write_again tot pipe)
  define n where "n = pr_total s"
  have i: "length (pr_out s) \<le> n" "n \<le> length (pr_out s) + 4096" "write_pos (pr_pipe s) = int n"
    "read_pos (pr_pipe s) = int (length (pr_out s))" "n \<le> length buf"
    using inv by (auto simp: pipe_inv_def n_def)
  have "wrap_int (write_pos (pr_pipe s) - read_pos (pr_pipe s)) = int n - int (length (pr_out s))"
    using i len by (simp add: wrap_int_id)
  then have r: "n < length buf" "n < length (pr_out s) + 4096" "tot = Suc n"
    "pipe = (pr_pipe s)\<lparr>pbuf := (pbuf (pr_pipe s))(int n mod 4096 := buf ! n), write_pos := int (Suc n)\<rparr>"
    using write_again(3) i len
    by (auto simp: pipe_write_iter_def n_def c_rem_def wrap_int_id PIPE_BUF_SIZE_def Let_def
        add.commute split: if_splits)
  have "int k mod 4096 \<noteq> int n mod 4096" if "length (pr_out s) \<le> k" "k < n" for k
    using ring_distinct [of k n] that r(2) by auto
  then show ?thesis using inv r unfolding write_again(1)
    by (auto simp: pipe_inv_def n_def less_Suc_eq)
qed (use inv in \<open>auto simp: pipe_inv_def\<close>)

lemma pipe_reachable_inv:
  assumes "(pipe_step count buf)\<^sup>*\<^sup>* pipe_start s" and "length buf < 2 ^ 31"
  shows "pipe_inv buf s"
  using assms(1)
proof (induction rule: rtranclp_induct)
  case base
  then show ?case by (simp add: pipe_inv_def pipe_start_def new_pipe_def)
next
  case (step s t)
  then show ?case using pipe_step_inv assms(2) by blast
qed

text \<open>
  C10 (safety): whatever way the iterations of a reader and of a writer of less than 2 GiB
  interleave, the bytes read are a prefix of the bytes written, in order, at most 4096 bytes are in
  the buffer, and a reader that returns has got exactly the number of bytes it asked for.
\<close>

theorem pipe_fifo:
  assumes "(pipe_step count buf)\<^sup>*\<^sup>* pipe_start s" and "length buf < 2 ^ 31"
  shows "pr_out s = take (length (pr_out s)) buf \<and> length (pr_out s) \<le> pr_total s \<and>
         pr_total s \<le> length (pr_out s) + 4096 \<and>
         (\<forall>r. pr_rret s = Some r \<longrightarrow> r = int (length (pr_out s)) \<and> length (pr_out s) \<ge> count)"
proof -
  have "\<forall>r. pr_rret s = Some r \<longrightarrow> r = int (length (pr_out s)) \<and> length (pr_out s) \<ge> count"
    using assms(1)
  proof (induction rule: rtranclp_induct)
    case base
    then show ?case by (simp add: pipe_start_def)
  next
    case (step s t)
    have inv: "pipe_inv buf s" using pipe_reachable_inv [OF step.hyps(1) assms(2)] .
    from step.hyps(2) show ?case
    proof (cases rule: pipe_step.cases)
      case (read_return r)
      then show ?thesis using inv by (auto simp: pipe_read_iter_def pipe_inv_def split: if_splits)
    qed (use step.IH in auto)
  qed
  moreover have "take (length (pr_out s)) buf = pr_out s" "length (pr_out s) \<le> pr_total s"
    "pr_total s \<le> length (pr_out s) + 4096"
    using pipe_reachable_inv [OF assms] by (simp_all add: pipe_inv_def)
  ultimately show ?thesis by metis
qed

text \<open>
  C20 (liveness): the two sides never wait for each other: as long as neither has returned, one of
  them can go on.
\<close>

theorem pipe_no_deadlock:
  assumes "(pipe_step count buf)\<^sup>*\<^sup>* pipe_start s" and "length buf < 2 ^ 31"
    and "pr_rret s = None" and "pr_wret s = None"
  shows "\<exists>t. pipe_step count buf s t"
proof (cases "read_pos (pr_pipe s) = write_pos (pr_pipe s)")
  case True
  have "wrap_int 0 = 0" by (simp add: wrap_int_id)
  then obtain r where "pipe_write_iter buf (pr_total s, pr_pipe s) = r" "r \<noteq> Wait"
    using True by (auto simp: pipe_write_iter_def PIPE_BUF_SIZE_def Let_def)
  then show ?thesis using assms(4) by (cases r) (auto intro: pipe_step.intros)
next
  case False
  then obtain r where "pipe_read_iter count (pr_out s, pr_pipe s) = r" "r \<noteq> Wait"
    by (auto simp: pipe_read_iter_def)
  then show ?thesis using assms(3) by (cases r) (auto intro: pipe_step.intros)
qed

definition pipe_sample :: pipe_run where
  "pipe_sample = \<lparr>pr_pipe = new_pipe\<lparr>pbuf := (\<lambda>_. 0)(0 := 9), write_pos := 1\<rparr>, pr_out = [], pr_total = 1,
                  pr_rret = None, pr_wret = None\<rparr>"

lemma pipe_sample_reached: "(pipe_step 1 [9])\<^sup>*\<^sup>* pipe_start pipe_sample"
proof -
  have "pipe_write_iter [9] (pr_total pipe_start, pr_pipe pipe_start) = Again (1, pr_pipe pipe_sample)"
    by (simp add: pipe_write_iter_def pipe_start_def pipe_sample_def new_pipe_def wrap_int_id c_rem_def
        PIPE_BUF_SIZE_def)
  then have "pipe_step 1 [9] pipe_start (pipe_start\<lparr>pr_total := 1, pr_pipe := pr_pipe pipe_sample\<rparr>)"
    by (intro write_again) (simp_all add: pipe_start_def)
  moreover have "pipe_start\<lparr>pr_total := 1, pr_pipe := pr_pipe pipe_sample\<rparr> = pipe_sample"
    by (simp add: pipe_start_def pipe_sample_def)
  ultimately show ?thesis by auto
qed

theorem pipe_fifo_witness: "pr_out pipe_sample = take 0 [9] \<and> pr_total pipe_sample \<le> 4096"
  using pipe_fifo [OF pipe_sample_reached] by (simp add: pipe_sample_def)

theorem pipe_no_deadlock_witness: "\<exists>t. pipe_step 1 [9] pipe_sample t"
  by (rule pipe_no_deadlock [OF pipe_sample_reached]) (simp_all add: pipe_sample_def)

text \<open>
  After 2 GiB the position wraps to a negative number, the remainder is negative and the byte goes
  before the buffer.
\<close>

lemma pipe_write_negative_index:
  assumes "tot < length buf" and "write_pos pipe = 1 - 2 ^ 31" and "read_pos pipe = 1 - 2 ^ 31"
  shows "\<exists>pipe'. pipe_write_iter buf (tot, pipe) = Again (tot + 1, pipe') \<and>
                 pbuf pipe' = (pbuf pipe)(- 4095 := buf ! tot)"
  using assms by (simp add: pipe_write_iter_def c_rem_def wrap_int_id PIPE_BUF_SIZE_def Let_def)

section \<open>Creating a pipe\<close>

definition MAX_FDS :: nat where "MAX_FDS = 16"

text \<open>The loop that looks for two free descriptors of the current task.\<close>

fun find_fds ::
  "nat list \<Rightarrow> nat option \<Rightarrow> nat option \<Rightarrow> nat option \<times> nat option \<times> nat option list \<Rightarrow>
     nat option \<times> nat option \<times> nat option list" where
  "find_fds [] f0 f1 (a, b, fds) = (a, b, fds)"
| "find_fds (i # is) f0 f1 (a, b, fds) =
     (if fds ! i = None
      then (case a of
              None \<Rightarrow> find_fds is f0 f1 (Some i, b, fds[i := f0])
            | Some _ \<Rightarrow> (case b of
                           None \<Rightarrow> (a, Some i, fds[i := f1])
                         | Some _ \<Rightarrow> find_fds is f0 f1 (a, b, fds)))
      else find_fds is f0 f1 (a, b, fds))"

text \<open>
  \<^verbatim>\<open>vfs_pipe_create\<close>: the page allocator is passed as two functions on a state of its own, the pipes are
  a store from pages to pipe structures, the descriptors of \<^verbatim>\<open>current_task\<close> are a list of file table slots.
  The result has the status and the two descriptors.
\<close>

definition vfs_pipe_create ::
  "('d, 'x) env \<Rightarrow> ('m \<Rightarrow> (u64 \<times> 'm) option) \<Rightarrow> (u64 \<Rightarrow> 'm \<Rightarrow> 'm option) \<Rightarrow>
     (u64 \<Rightarrow> pipe_inode) \<Rightarrow> nat option list \<Rightarrow> 'm \<Rightarrow> ('d, 'x) vfs \<Rightarrow>
     (int \<times> (nat \<times> nat) option \<times> (u64 \<Rightarrow> pipe_inode) \<times> nat option list \<times> 'm \<times> ('d, 'x) vfs) option" where
  "vfs_pipe_create E palloc pfree pipes fds m s =
     do { (pg, m) \<leftarrow> palloc m;
          if pg = 0 then Some (-1, None, pipes, fds, m, s)
          else do {
            let pipes = pipes(pg := (pipes pg)\<lparr>pbuf := (\<lambda>i. if 0 \<le> i \<and> i < PIPE_BUF_SIZE then 0 else pbuf (pipes pg) i),
                                              read_pos := 0, write_pos := 0, readers := 1, writers := 1,
                                              pipe_refcount := 2\<rparr>);
            (p, s) \<leftarrow> vfs_alloc_inode E s;
            if p = 0 then do { m \<leftarrow> pfree pg m; Some (-1, None, pipes, fds, m, s) }
            else do {
              let s = set_inode p (\<lambda>i. i\<lparr>vi_type := VFS_FILE, vi_size := 4096, vi_ops := Some pipe_inode_ops,
                                        vi_private := PrivAddr pg, vi_refcount := 2\<rparr>) s;
              let (f0, s) = vfs_alloc_file s;
              let (f1, s) = vfs_alloc_file s;
              (case (f0, f1) of
                 (Some i0, Some i1) \<Rightarrow>
                   do { let s = s\<lparr>file_table := (file_table s)
                                    [i0 := \<lparr>vf_inode = p, vf_offset = 0, vf_flags = VFS_O_READ\<rparr>]\<rparr>;
                        let s = s\<lparr>file_table := (file_table s)
                                    [i1 := \<lparr>vf_inode = p, vf_offset = 0, vf_flags = VFS_O_WRITE\<rparr>]\<rparr>;
                        let (a, b, fds) = find_fds [0..<MAX_FDS] f0 f1 (None, None, fds);
                        (case (a, b) of
                           (Some fd0, Some fd1) \<Rightarrow> Some (0, Some (fd0, fd1), pipes, fds, m, s)
                         | _ \<Rightarrow> do { (_, s) \<leftarrow> vfs_close E f0 s;
                                     (_, s) \<leftarrow> vfs_close E f1 s;
                                     Some (-1, None, pipes, fds, m, s) }) }
               | _ \<Rightarrow> do { let s = set_inode p (vi_refcount_update (\<lambda>_. 0)) s;
                           m \<leftarrow> pfree pg m;
                           Some (-1, None, pipes, fds, m, vfs_free_file f1 (vfs_free_file f0 s)) }) } } }"

text \<open>\<^verbatim>\<open>vfs_alloc_file\<close> does not mark the slot it returns as used, so the next call returns it again.\<close>

lemma vfs_alloc_file_twice:
  assumes "vfs_alloc_file s = (Some i, s1)" and "length (file_table s) = VFS_FILE_MAX"
  shows "fst (vfs_alloc_file s1) = Some i"
proof -
  have i: "free_slot s = Some i" "s1 = claim_slot i \<lparr>vf_inode = 0, vf_offset = 0, vf_flags = 0\<rparr> s"
    using assms(1) by (auto simp: vfs_alloc_file_def split: option.splits)
  note f = free_slot_Some [OF i(1)]
  have "(vf_inode (file_table s1 ! j) = 0) = (vf_inode (file_table s ! j) = 0)" for j
    using f assms(2) by (cases "j = i") (auto simp: i(2) claim_slot_def)
  then have "free_slot s1 = free_slot s" by (simp add: free_slot_def)
  then show ?thesis using i by (simp add: vfs_alloc_file_def)
qed

lemma find_fds_second:
  assumes "find_fds is f0 f1 (Some k, None, fds) = (a, Some b, fds')" and "fds ! k = f0" and "k \<notin> set is"
    and "\<forall>i \<in> set is. i < length fds"
  shows "a = Some k \<and> fds' ! k = f0 \<and> fds' ! b = f1"
  using assms
proof (induction "is")
  case (Cons i "is")
  then show ?case by (cases "fds ! i = None") auto
qed simp

lemma find_fds_both:
  assumes "find_fds is f0 f1 (None, None, fds) = (Some a, Some b, fds')" and "distinct is"
    and "\<forall>i \<in> set is. i < length fds"
  shows "fds' ! a = f0 \<and> fds' ! b = f1"
  using assms
proof (induction "is")
  case (Cons i "is")
  show ?case
  proof (cases "fds ! i = None")
    case True
    then have "find_fds is f0 f1 (Some i, None, fds[i := f0]) = (Some a, Some b, fds')"
      using Cons.prems(1) by simp
    from find_fds_second [OF this] Cons.prems show ?thesis by simp
  next
    case False
    with Cons show ?thesis by simp
  qed
qed simp

text \<open>
  A successful \<^verbatim>\<open>vfs_pipe_create\<close> gives both descriptors the same file table slot,
  because \<^verbatim>\<open>vfs_alloc_file\<close> returns a slot without marking it; the slot ends up write-only, so every
  read from the read end of a new pipe fails.  (For any kernel heap that leaves the file table
  alone.)
\<close>

lemma pipe_ends_share_file:
  assumes "\<And>n s p t. k_malloc E n s = Some (p, t) \<Longrightarrow> file_table t = file_table s"
    and "length (file_table s) = VFS_FILE_MAX" and "length fds = MAX_FDS"
    and "vfs_pipe_create E palloc pfree pipes fds m s = Some (0, Some (fd0, fd1), pipes', fds', m', s')"
  shows "fds' ! fd0 = fds' ! fd1 \<and> vfs_read E (fds' ! fd0) sz has_buf s' = Some (-1, [], s')"
proof -
  obtain pg m0 where pg: "palloc m = Some (pg, m0)" "pg \<noteq> 0"
    using assms(4) by (auto simp: vfs_pipe_create_def split: bind_splits if_splits)
  obtain p s1 where p: "vfs_alloc_inode E s = Some (p, s1)" "p \<noteq> 0"
    using assms(4) pg by (auto simp: vfs_pipe_create_def Let_def split: bind_splits if_splits)
  have ft1: "length (file_table s1) = VFS_FILE_MAX"
    using p(1) assms(1,2)
    by (auto simp: vfs_alloc_inode_def devfs_alloc_inode_def set_inode_def split: bind_splits if_splits)
  define s2 where "s2 = set_inode p (\<lambda>i. i\<lparr>vi_type := VFS_FILE, vi_size := 4096, vi_ops := Some pipe_inode_ops,
                                        vi_private := PrivAddr pg, vi_refcount := 2\<rparr>) s1"
  obtain f0 s3 where f0: "vfs_alloc_file s2 = (f0, s3)" by (cases "vfs_alloc_file s2")
  obtain f1 s4 where f1: "vfs_alloc_file s3 = (f1, s4)" by (cases "vfs_alloc_file s3")
  show ?thesis
  proof (cases f0)
    case None
    with assms(4) pg p f0 f1 show ?thesis
      by (auto simp: vfs_pipe_create_def Let_def s2_def [symmetric] split: bind_splits if_splits prod.splits)
  next
    case (Some i)
    have ft2: "length (file_table s2) = VFS_FILE_MAX" using ft1 by (simp add: s2_def set_inode_def)
    have "f1 = Some i" using vfs_alloc_file_twice [of s2 i s3] f0 f1 Some ft2 by simp
    have il: "i < VFS_FILE_MAX" using f0 Some by (auto simp: vfs_alloc_file_def dest: free_slot_Some split: option.splits)
    have ft4: "length (file_table s4) = VFS_FILE_MAX"
      using f0 f1 ft2 by (auto simp: vfs_alloc_file_def claim_slot_def split: option.splits)
    obtain a b fdsx where fd: "find_fds [0..<MAX_FDS] (Some i) (Some i) (None, None, fds) = (a, b, fdsx)"
      by (cases "find_fds [0..<MAX_FDS] (Some i) (Some i) (None, None, fds)")
    define s5 where "s5 = s4\<lparr>file_table := (file_table s4)
        [i := \<lparr>vf_inode = p, vf_offset = 0, vf_flags = VFS_O_WRITE\<rparr>]\<rparr>"
    have "a = Some fd0 \<and> b = Some fd1 \<and> fds' = fdsx \<and> s' = s5"
      using assms(4) pg p f0 f1 Some \<open>f1 = Some i\<close> fd
      by (auto simp: vfs_pipe_create_def Let_def s2_def [symmetric] s5_def
          split: bind_splits if_splits prod.splits option.splits)
    then have fds': "fds' ! fd0 = Some i" "fds' ! fd1 = Some i" and s': "s' = s5"
      using find_fds_both [of "[0..<MAX_FDS]" "Some i" "Some i" fds fd0 fd1 fdsx] fd assms(3) by auto
    have "file_table s5 ! i = \<lparr>vf_inode = p, vf_offset = 0, vf_flags = VFS_O_WRITE\<rparr>"
      using ft4 il by (simp add: s5_def)
    then show ?thesis using fds' s' p(2) by (simp add: vfs_read_def Let_def VFS_O_READ_def VFS_O_WRITE_def)
  qed
qed

end
