(* ===== verification/Tmpfs.thy ===== *)
theory Tmpfs
  imports Vfs Kmalloc Libc_Mem
begin

text \<open>
  The memory file system, \<^verbatim>\<open>kernel/fs/tmpfs.c\<close>.  Files and directories are structures on the kernel
  heap: two stores from addresses to \<^verbatim>\<open>struct tmpfs_file\<close> and \<^verbatim>\<open>struct tmpfs_dir\<close> values, and a byte
  memory for the contents of files.  The array of children of a directory is the list of its first
  \<^verbatim>\<open>child_count\<close> elements, the only ones the code reads.  The heap itself is reached through the
  environment of \<^verbatim>\<open>vfs.c\<close>; \<open>tmpfs_env\<close> puts the allocator of \<^verbatim>\<open>kmalloc.c\<close> there.
\<close>

section \<open>State\<close>

definition TMPFS_MAX_ENTRIES :: nat where "TMPFS_MAX_ENTRIES = 64"
definition TMPFS_MAX_FILE_SIZE :: u64 where "TMPFS_MAX_FILE_SIZE = 65536"

record tmpfs_child =
  tc_name :: string
  tc_inode :: u64

record tmpfs_dir =
  td_children :: "tmpfs_child list"

record tmpfs_file =
  tf_data :: u64
  tf_size :: u64
  tf_capacity :: u64

record tmpfs_store =
  tm_files :: "u64 \<Rightarrow> tmpfs_file"
  tm_dirs :: "u64 \<Rightarrow> tmpfs_dir"
  tm_mem :: mem8
  tm_heap :: kheap

type_synonym 'd tvfs = "('d, tmpfs_store) vfs"
type_synonym 'd tenv = "('d, tmpfs_store) env"

definition set_file :: "u64 \<Rightarrow> (tmpfs_file \<Rightarrow> tmpfs_file) \<Rightarrow> 'd tvfs \<Rightarrow> 'd tvfs" where
  "set_file f g s = s\<lparr>fsx := (fsx s)\<lparr>tm_files := (tm_files (fsx s))(f := g (tm_files (fsx s) f))\<rparr>\<rparr>"

definition set_dir :: "u64 \<Rightarrow> (tmpfs_dir \<Rightarrow> tmpfs_dir) \<Rightarrow> 'd tvfs \<Rightarrow> 'd tvfs" where
  "set_dir d g s = s\<lparr>fsx := (fsx s)\<lparr>tm_dirs := (tm_dirs (fsx s))(d := g (tm_dirs (fsx s) d))\<rparr>\<rparr>"

definition set_mem :: "(mem8 \<Rightarrow> mem8) \<Rightarrow> 'd tvfs \<Rightarrow> 'd tvfs" where
  "set_mem g s = s\<lparr>fsx := (fsx s)\<lparr>tm_mem := g (tm_mem (fsx s))\<rparr>\<rparr>"

text \<open>\<^verbatim>\<open>inode->private\<close> as an address, 0 for NULL.\<close>

definition priv_addr :: "u64 \<Rightarrow> 'd tvfs \<Rightarrow> u64" where
  "priv_addr p s = (case vi_private (inodes s p) of PrivAddr a \<Rightarrow> a | _ \<Rightarrow> 0)"

text \<open>\<^verbatim>\<open>sizeof(struct tmpfs_dir)\<close> and \<^verbatim>\<open>sizeof(struct tmpfs_file)\<close>\<close>

definition DIR_SIZE :: u64 where "DIR_SIZE = 16904"
definition FILE_SIZE :: u64 where "FILE_SIZE = 24"

section \<open>Operations\<close>

definition tmpfs_alloc_dir :: "'d tenv \<Rightarrow> 'd tvfs \<Rightarrow> (u64 \<times> 'd tvfs) option" where
  "tmpfs_alloc_dir E s =
     do { (d, s) \<leftarrow> k_malloc E DIR_SIZE s;
          if d = 0 then Some (0, s) else Some (d, set_dir d (td_children_update (\<lambda>_. [])) s) }"

definition tmpfs_alloc_file :: "'d tenv \<Rightarrow> 'd tvfs \<Rightarrow> (u64 \<times> 'd tvfs) option" where
  "tmpfs_alloc_file E s =
     do { (f, s) \<leftarrow> k_malloc E FILE_SIZE s;
          if f = 0 then Some (0, s)
          else Some (f, set_file f (\<lambda>_. \<lparr>tf_data = 0, tf_size = 0, tf_capacity = 0\<rparr>) s) }"

definition tmpfs_free_file :: "'d tenv \<Rightarrow> u64 \<Rightarrow> 'd tvfs \<Rightarrow> (int \<times> 'd tvfs) option" where
  "tmpfs_free_file E f s =
     (if f = 0 then Some (-1, s)
      else do { s \<leftarrow> (if tf_data (tm_files (fsx s) f) \<noteq> 0 then k_free E (tf_data (tm_files (fsx s) f)) s else Some s);
                s \<leftarrow> k_free E f s;
                Some (0, s) })"

definition tmpfs_read :: "u64 \<Rightarrow> u64 \<Rightarrow> u64 \<Rightarrow> 'd tvfs \<Rightarrow> int \<times> bytes" where
  "tmpfs_read p offset sz s =
     (if p = 0 \<or> vi_type (inodes s p) \<noteq> VFS_FILE then (-1, [])
      else let f = priv_addr p s; fl = tm_files (fsx s) f in
        if f = 0 \<or> tf_data fl = 0 then (-1, [])
        else if tf_size fl \<le> offset then (0, [])
        else let avail = tf_size fl - offset;
                 avail = (if sz < avail then sz else avail)
             in (to_int avail, map (\<lambda>i. tm_mem (fsx s) (tf_data fl + (offset + of_nat i))) [0..<unat avail]))"

text \<open>\<^verbatim>\<open>while (new_cap < needed && new_cap < TMPFS_MAX_FILE_SIZE) new_cap *= 2;\<close>\<close>

partial_function (option) grow_cap :: "u64 \<Rightarrow> u64 \<Rightarrow> u64 option" where
  "grow_cap needed new_cap =
     (if new_cap < needed \<and> new_cap < TMPFS_MAX_FILE_SIZE then grow_cap needed (new_cap * 2) else Some new_cap)"

text \<open>
  Replacing the buffer by one for \<open>needed\<close> bytes that starts with \<open>keep\<close> bytes of the old one;
  the result tells whether there is one.
\<close>

definition enlarge :: "'d tenv \<Rightarrow> u64 \<Rightarrow> u64 \<Rightarrow> u64 \<Rightarrow> 'd tvfs \<Rightarrow> (bool \<times> 'd tvfs) option" where
  "enlarge E f needed keep s =
     (let fl = tm_files (fsx s) f in
      if needed \<le> tf_capacity fl then Some (True, s)
      else do {
        new_cap \<leftarrow> grow_cap needed (if tf_capacity fl \<noteq> 0 then tf_capacity fl else 64);
        let new_cap = (if TMPFS_MAX_FILE_SIZE < new_cap then TMPFS_MAX_FILE_SIZE else new_cap);
        if new_cap < needed then Some (False, s)
        else do {
          (new_data, s) \<leftarrow> k_malloc E new_cap s;
          if new_data = 0 then Some (False, s)
          else do {
            s \<leftarrow> (if tf_data fl \<noteq> 0 then k_free E (tf_data fl) (set_mem (copy_up new_data (tf_data fl) keep) s)
                  else Some s);
            Some (True, set_file f (\<lambda>fl. fl\<lparr>tf_data := new_data, tf_capacity := new_cap\<rparr>) s) } } })"

text \<open>\<^verbatim>\<open>for (i = 0; i < size; i++) f->data[offset + i] = buf[i];\<close>\<close>

fun put_bytes :: "u64 \<Rightarrow> bytes \<Rightarrow> mem8 \<Rightarrow> mem8" where
  "put_bytes a [] m = m"
| "put_bytes a (b # bs) m = put_bytes (a + 1) bs (m(a := b))"

definition tmpfs_write :: "'d tenv \<Rightarrow> u64 \<Rightarrow> u64 \<Rightarrow> bytes \<Rightarrow> 'd tvfs \<Rightarrow> (int \<times> 'd tvfs) option" where
  "tmpfs_write E p offset buf s =
     (if p = 0 \<or> vi_type (inodes s p) \<noteq> VFS_FILE then Some (-1, s)
      else let f = priv_addr p s; sz = of_nat (length buf) in
        if f = 0 then Some (-1, s)
        else let needed = offset + sz in
          do { (ok, s) \<leftarrow> enlarge E f needed (tf_size (tm_files (fsx s) f)) s;
               if \<not> ok then Some (-1, s)
               else do {
                 let s = set_mem (put_bytes (tf_data (tm_files (fsx s) f) + offset) buf) s;
                 let s = (if tf_size (tm_files (fsx s) f) < needed then set_file f (tf_size_update (\<lambda>_. needed)) s else s);
                 let s = (if vi_size (inodes s p) < offset + sz
                          then set_inode p (vi_size_update (\<lambda>_. offset + sz)) s else s);
                 Some (to_int sz, s) } })"

definition tmpfs_truncate :: "'d tenv \<Rightarrow> u64 \<Rightarrow> u64 \<Rightarrow> 'd tvfs \<Rightarrow> (int \<times> 'd tvfs) option" where
  "tmpfs_truncate E p sz s =
     (if p = 0 \<or> vi_type (inodes s p) \<noteq> VFS_FILE then Some (-1, s)
      else let f = priv_addr p s in
        if f = 0 then Some (-1, s)
        else let fl = tm_files (fsx s) f in
          do { (ok, s) \<leftarrow> enlarge E f sz (if tf_size fl < sz then tf_size fl else sz) s;
               if \<not> ok then Some (-1, s)
               else Some (0, set_inode p (vi_size_update (\<lambda>_. sz)) (set_file f (tf_size_update (\<lambda>_. sz)) s)) })"

definition tmpfs_readdir :: "u64 \<Rightarrow> u32 \<Rightarrow> vfs_dentry \<Rightarrow> 'd tvfs \<Rightarrow> int \<times> vfs_dentry" where
  "tmpfs_readdir dir index entry s =
     (if dir = 0 \<or> vi_type (inodes s dir) \<noteq> VFS_DIR then (-1, entry)
      else let d = priv_addr dir s; cs = td_children (tm_dirs (fsx s) d) in
        if d = 0 \<or> length cs \<le> unat index then (-1, entry)
        else let c = cs ! unat index; i = inodes s (tc_inode c) in
          (0, \<lparr>de_name = take (VFS_NAME_MAX - 1) (tc_name c),
               de_ino = (if tc_inode c \<noteq> 0 then vi_ino i else 0),
               de_type = (if tc_inode c \<noteq> 0 then vi_type i else VFS_FILE),
               de_size = (if tc_inode c \<noteq> 0 then vi_size i else 0)\<rparr>))"

text \<open>The first child with the name; the comparison of the strings is the one of \<^verbatim>\<open>path_match\<close>.\<close>

definition find_child :: "string \<Rightarrow> tmpfs_child list \<Rightarrow> nat option" where
  "find_child name cs = find (\<lambda>i. path_match (tc_name (cs ! i)) name) [0..<length cs]"

definition tmpfs_lookup :: "u64 \<Rightarrow> string \<Rightarrow> 'd tvfs \<Rightarrow> int \<times> u64 \<times> 'd tvfs" where
  "tmpfs_lookup dir name s =
     (if dir = 0 \<or> vi_type (inodes s dir) \<noteq> VFS_DIR then (-1, 0, s)
      else let d = priv_addr dir s; cs = td_children (tm_dirs (fsx s) d) in
        if d = 0 then (-1, 0, s)
        else (case find_child name cs of
                None \<Rightarrow> (-1, 0, s)
              | Some i \<Rightarrow> let c = tc_inode (cs ! i)
                          in (0, c, if c \<noteq> 0 then set_inode c (vi_refcount_update (\<lambda>n. n + 1)) s else s)))"

text \<open>Appending a child: the name is cut to the size of its array.\<close>

definition add_child :: "u64 \<Rightarrow> string \<Rightarrow> u64 \<Rightarrow> 'd tvfs \<Rightarrow> 'd tvfs" where
  "add_child d name p =
     set_dir d (td_children_update (\<lambda>cs. cs @ [\<lparr>tc_name = take (VFS_NAME_MAX - 1) name, tc_inode = p\<rparr>]))"

text \<open>The fields \<^verbatim>\<open>tmpfs_create\<close> and \<^verbatim>\<open>tmpfs_mkdir\<close> set; \<^verbatim>\<open>ops\<close> is not one of them.\<close>

definition fill_inode :: "u64 \<Rightarrow> vfs_inode_type \<Rightarrow> sbptr \<Rightarrow> u64 \<Rightarrow> vfs_inode \<Rightarrow> vfs_inode" where
  "fill_inode p ty sb a i =
     i\<lparr>vi_ino := p, vi_type := ty, vi_size := 0, vi_sb := sb, vi_private := PrivAddr a, vi_refcount := 1\<rparr>"

definition tmpfs_create :: "'d tenv \<Rightarrow> u64 \<Rightarrow> string \<Rightarrow> 'd tvfs \<Rightarrow> (int \<times> u64 \<times> 'd tvfs) option" where
  "tmpfs_create E dir name s =
     (if dir = 0 \<or> vi_type (inodes s dir) \<noteq> VFS_DIR then Some (-1, 0, s)
      else let d = priv_addr dir s in
        if d = 0 \<or> TMPFS_MAX_ENTRIES \<le> length (td_children (tm_dirs (fsx s) d)) then Some (-1, 0, s)
        else do {
          (p, s) \<leftarrow> k_malloc E INODE_SIZE s;
          if p = 0 then Some (-1, 0, s)
          else do {
            (f, s) \<leftarrow> tmpfs_alloc_file E s;
            if f = 0 then do { s \<leftarrow> k_free E p s; Some (-1, 0, s) }
            else Some (0, p, add_child d name p (set_inode p (fill_inode p VFS_FILE (vi_sb (inodes s dir)) f) s)) } })"

definition tmpfs_unlink :: "'d tenv \<Rightarrow> u64 \<Rightarrow> string \<Rightarrow> 'd tvfs \<Rightarrow> (int \<times> 'd tvfs) option" where
  "tmpfs_unlink E dir name s =
     (if dir = 0 \<or> vi_type (inodes s dir) \<noteq> VFS_DIR then Some (-1, s)
      else let d = priv_addr dir s; cs = td_children (tm_dirs (fsx s) d) in
        if d = 0 then Some (-1, s)
        else (case find_child name cs of
                None \<Rightarrow> Some (-1, s)
              | Some i \<Rightarrow>
                  let p = tc_inode (cs ! i) in
                  do { s \<leftarrow> (if p \<noteq> 0 \<and> priv_addr p s \<noteq> 0 \<and> vi_type (inodes s p) = VFS_FILE
                             then map_option snd (tmpfs_free_file E (priv_addr p s) s) else Some s);
                       s \<leftarrow> (if p \<noteq> 0 then k_free E p s else Some s);
                       Some (0, set_dir d (td_children_update
                         (\<lambda>cs. take (length cs - 1) (fold (\<lambda>j cs. cs[j := cs ! Suc j]) [i..<length cs - 1] cs))) s) }))"

definition tmpfs_mkdir :: "'d tenv \<Rightarrow> u64 \<Rightarrow> string \<Rightarrow> 'd tvfs \<Rightarrow> (int \<times> 'd tvfs) option" where
  "tmpfs_mkdir E dir name s =
     (if dir = 0 \<or> vi_type (inodes s dir) \<noteq> VFS_DIR then Some (-1, s)
      else let d = priv_addr dir s in
        if d = 0 \<or> TMPFS_MAX_ENTRIES \<le> length (td_children (tm_dirs (fsx s) d)) then Some (-1, s)
        else do {
          (c, s) \<leftarrow> tmpfs_alloc_dir E s;
          if c = 0 then Some (-1, s)
          else do {
            (p, s) \<leftarrow> k_malloc E INODE_SIZE s;
            if p = 0 then do { s \<leftarrow> k_free E c s; Some (-1, s) }
            else Some (0, add_child d name p (set_inode p (fill_inode p VFS_DIR (vi_sb (inodes s dir)) c) s)) } })"

definition tmpfs_destroy_inode :: "'d tenv \<Rightarrow> u64 \<Rightarrow> u64 \<Rightarrow> 'd tvfs \<Rightarrow> 'd tvfs option" where
  "tmpfs_destroy_inode E root_inode p s =
     (if p = 0 \<or> p = root_inode then Some s
      else do { s \<leftarrow> (if priv_addr p s \<noteq> 0
                      then (case vi_type (inodes s p) of
                              VFS_FILE \<Rightarrow> map_option snd (tmpfs_free_file E (priv_addr p s) s)
                            | VFS_DIR \<Rightarrow> k_free E (priv_addr p s) s
                            | _ \<Rightarrow> Some s)
                      else Some s);
                k_free E p s })"

definition tmpfs_alloc_inode :: "'d tenv \<Rightarrow> 'd tvfs \<Rightarrow> (u64 \<times> 'd tvfs) option" where
  "tmpfs_alloc_inode E s =
     do { (p, s) \<leftarrow> k_malloc E INODE_SIZE s;
          if p = 0 then Some (0, s)
          else Some (p, set_inode p (\<lambda>_. \<lparr>vi_ino = 0, vi_type = VFS_FILE, vi_size = 0, vi_sb = SbNull,
                                        vi_ops = None, vi_private = PrivNull, vi_refcount = 1\<rparr>) s) }"

text \<open>\<^verbatim>\<open>tmpfs_root_inode\<close> is static; its address is an argument.\<close>

definition vfs_mount_tmpfs :: "'d tenv \<Rightarrow> u64 \<Rightarrow> string \<Rightarrow> 'd tvfs \<Rightarrow> (int \<times> 'd tvfs) option" where
  "vfs_mount_tmpfs E root_inode path s =
     do { (d, s) \<leftarrow> tmpfs_alloc_dir E s;
          if d = 0 then Some (-1, s)
          else Some (vfs_mount path tmpfs_sb
            (s\<lparr>inodes := (inodes s)(root_inode := \<lparr>vi_ino = 1, vi_type = VFS_DIR, vi_size = 0, vi_sb = tmpfs_sb,
                                   vi_ops = Some tmpfs_dir_ops, vi_private = PrivAddr d, vi_refcount = 1\<rparr>),
               superblocks := (superblocks s)(tmpfs_sb := \<lparr>sb_mounted = True, sb_sb_ops = Some tmpfs_sb_ops,
                                   sb_root = root_inode, sb_private = PrivAddr d\<rparr>)\<rparr>)) }"

text \<open>The tables \<^verbatim>\<open>tmpfs_file_ops\<close>, \<^verbatim>\<open>tmpfs_dir_ops\<close> and \<^verbatim>\<open>tmpfs_sb_ops\<close>, added to an environment.\<close>

definition tmpfs_file_table :: "'d tenv \<Rightarrow> 'd tvfs fsops" where
  "tmpfs_file_table E =
     \<lparr>op_read = Some (\<lambda>p off sz s. let (r, bs) = tmpfs_read p off sz s in Some (r, bs, s)),
      op_write = Some (tmpfs_write E), op_truncate = Some (tmpfs_truncate E),
      op_readdir = None, op_lookup = None, op_create = None, op_unlink = None, op_mkdir = None\<rparr>"

definition tmpfs_dir_table :: "vfs_dentry \<Rightarrow> 'd tenv \<Rightarrow> 'd tvfs fsops" where
  "tmpfs_dir_table entry E =
     \<lparr>op_read = None, op_write = None, op_truncate = None,
      op_readdir = Some (\<lambda>dir i s. let (r, e) = tmpfs_readdir dir i entry s in Some (r, e, s)),
      op_lookup = Some (\<lambda>dir name s. Some (tmpfs_lookup dir name s)),
      op_create = Some (\<lambda>dir name s. map_option (\<lambda>(r, _, s). (r, s)) (tmpfs_create E dir name s)),
      op_unlink = Some (tmpfs_unlink E), op_mkdir = Some (tmpfs_mkdir E)\<rparr>"

definition add_tmpfs :: "u64 \<Rightarrow> vfs_dentry \<Rightarrow> 'd tenv \<Rightarrow> 'd tenv" where
  "add_tmpfs root_inode entry E =
     E\<lparr>e_ops := (e_ops E)(tmpfs_file_ops := tmpfs_file_table E, tmpfs_dir_ops := tmpfs_dir_table entry E),
       e_destroy := (e_destroy E)(tmpfs_sb_ops := Some (tmpfs_destroy_inode E root_inode))\<rparr>"

text \<open>The kernel heap of \<^verbatim>\<open>kmalloc.c\<close> behind the environment.\<close>

definition tmpfs_env :: "'d tenv \<Rightarrow> 'd tenv" where
  "tmpfs_env E =
     E\<lparr>k_malloc := (\<lambda>n s. map_option (\<lambda>(p, h). (p, s\<lparr>fsx := (fsx s)\<lparr>tm_heap := h\<rparr>\<rparr>)) (kmalloc n (tm_heap (fsx s)))),
       k_free := (\<lambda>p s. map_option (\<lambda>h. s\<lparr>fsx := (fsx s)\<lparr>tm_heap := h\<rparr>\<rparr>) (kfree p (tm_heap (fsx s))))\<rparr>"

section \<open>Files as byte lists\<close>

definition file_wf :: "tmpfs_file \<Rightarrow> bool" where
  "file_wf fl \<longleftrightarrow> tf_size fl \<le> tf_capacity fl \<and> tf_capacity fl \<le> TMPFS_MAX_FILE_SIZE \<and>
                 (tf_data fl = 0 \<longleftrightarrow> tf_capacity fl = 0)"

text \<open>The contents of the file behind an inode.\<close>

definition file_bytes :: "mem8 \<Rightarrow> tmpfs_file \<Rightarrow> bytes" where
  "file_bytes m fl = map (\<lambda>i. m (tf_data fl + of_nat i)) [0..<unat (tf_size fl)]"

definition tmpfs_contents :: "u64 \<Rightarrow> 'd tvfs \<Rightarrow> bytes" where
  "tmpfs_contents p s = file_bytes (tm_mem (fsx s)) (tm_files (fsx s) (priv_addr p s))"

lemma length_file_bytes [simp]: "length (file_bytes m fl) = unat (tf_size fl)"
  by (simp add: file_bytes_def)

lemma nth_file_bytes: "i < unat (tf_size fl) \<Longrightarrow> file_bytes m fl ! i = m (tf_data fl + of_nat i)"
  by (simp add: file_bytes_def)

lemma put_bytes_nth:
  assumes "length bs < 2 ^ 64"
  shows "put_bytes a bs m x = (if unat (x - a) < length bs then bs ! unat (x - a) else m x)"
  using assms
proof (induction bs arbitrary: a m)
  case (Cons b bs)
  have u: "unat (x - a) = Suc (unat (x - (a + 1)))" if "x \<noteq> a"
  proof -
    have "x - a \<noteq> 0" using that by simp
    then have "unat (x - a - 1) = unat (x - a) - 1" by (rule unat_minus_one)
    moreover have "unat (x - a) \<noteq> 0" using \<open>x - a \<noteq> 0\<close> by (simp add: unat_eq_0)
    ultimately show ?thesis by (simp add: diff_diff_eq)
  qed
  show ?case
  proof (cases "x = a")
    case True
    have "unat (- 1 :: u64) = 2 ^ 64 - 1" by (simp add: unsigned_minus_1_eq_mask mask_eq_exp_minus_1)
    then show ?thesis using Cons True by simp
  next
    case False
    with Cons u show ?thesis by simp
  qed
qed simp

lemma to_int_max: "unat n \<le> 65536 \<Longrightarrow> to_int n = int (unat n)"
  using to_int_small [of "unat n"] by simp


section \<open>The capacity\<close>

lemma grow_cap_returns:
  assumes "new_cap \<noteq> 0"
  shows "\<exists>c. grow_cap needed new_cap = Some c \<and> new_cap \<le> c \<and> (needed \<le> c \<or> TMPFS_MAX_FILE_SIZE \<le> c)"
  using assms
proof (induction "65536 - unat new_cap" arbitrary: new_cap rule: less_induct)
  case less
  show ?case
  proof (cases "new_cap < needed \<and> new_cap < TMPFS_MAX_FILE_SIZE")
    case True
    then have c: "unat new_cap < 65536" by (simp add: TMPFS_MAX_FILE_SIZE_def word_less_nat_alt)
    have p: "0 < unat new_cap" using less.prems by (simp add: unat_gt_0)
    have u: "unat (new_cap * 2) = unat new_cap * 2" using c by (simp add: unat_word_ariths)
    then have "new_cap * 2 \<noteq> 0" using p by (metis mult_is_0 unat_0 zero_neq_numeral less_irrefl)
    moreover have "65536 - unat (new_cap * 2) < 65536 - unat new_cap" using c p u by simp
    ultimately obtain c' where "grow_cap needed (new_cap * 2) = Some c'" "new_cap * 2 \<le> c'"
      "needed \<le> c' \<or> TMPFS_MAX_FILE_SIZE \<le> c'" using less.hyps by blast
    moreover have "new_cap \<le> new_cap * 2" using u by (simp add: word_le_nat_alt)
    ultimately show ?thesis using True by (subst grow_cap.simps) auto
  next
    case False
    then show ?thesis by (subst grow_cap.simps) auto
  qed
qed

text \<open>The capacity the code settles on, after the cut to the maximum.\<close>

definition new_capacity :: "u64 \<Rightarrow> tmpfs_file \<Rightarrow> u64" where
  "new_capacity needed fl =
     min TMPFS_MAX_FILE_SIZE (the (grow_cap needed (if tf_capacity fl \<noteq> 0 then tf_capacity fl else 64)))"

lemma new_capacity_fits:
  "new_capacity needed fl < needed \<longleftrightarrow> TMPFS_MAX_FILE_SIZE < needed"
  "new_capacity needed fl \<le> TMPFS_MAX_FILE_SIZE"
  "tf_capacity fl \<le> TMPFS_MAX_FILE_SIZE \<Longrightarrow> tf_capacity fl \<le> new_capacity needed fl"
  "new_capacity needed fl \<noteq> 0"
proof -
  define c0 where "c0 = (if tf_capacity fl \<noteq> 0 then tf_capacity fl else 64)"
  have "c0 \<noteq> 0" by (simp add: c0_def)
  then obtain c where c: "grow_cap needed c0 = Some c" "c0 \<le> c" "needed \<le> c \<or> TMPFS_MAX_FILE_SIZE \<le> c"
    using grow_cap_returns by blast
  have n: "new_capacity needed fl = min TMPFS_MAX_FILE_SIZE c" by (simp add: new_capacity_def c c0_def [symmetric])
  show "new_capacity needed fl < needed \<longleftrightarrow> TMPFS_MAX_FILE_SIZE < needed"
    using c(3) by (auto simp: n min_def)
  show "new_capacity needed fl \<le> TMPFS_MAX_FILE_SIZE" by (simp add: n)
  have "tf_capacity fl \<le> c0" by (simp add: c0_def)
  then show "tf_capacity fl \<le> TMPFS_MAX_FILE_SIZE \<Longrightarrow> tf_capacity fl \<le> new_capacity needed fl"
    using c(2) by (simp add: n)
  have "c \<noteq> 0" using c(2) \<open>c0 \<noteq> 0\<close> by auto
  then show "new_capacity needed fl \<noteq> 0" by (simp add: n min_def TMPFS_MAX_FILE_SIZE_def)
qed

lemma enlarge_grows:
  assumes "\<not> needed \<le> tf_capacity (tm_files (fsx s) f)"
  shows "enlarge E f needed keep s =
     (let fl = tm_files (fsx s) f; new_cap = new_capacity needed fl in
      if TMPFS_MAX_FILE_SIZE < needed then Some (False, s)
      else do {
        (new_data, s) \<leftarrow> k_malloc E new_cap s;
        if new_data = 0 then Some (False, s)
        else do {
          s \<leftarrow> (if tf_data fl \<noteq> 0 then k_free E (tf_data fl) (set_mem (copy_up new_data (tf_data fl) keep) s)
                else Some s);
          Some (True, set_file f (\<lambda>fl. fl\<lparr>tf_data := new_data, tf_capacity := new_cap\<rparr>) s) } })"
proof -
  define fl where "fl = tm_files (fsx s) f"
  define c0 where "c0 = (if tf_capacity fl \<noteq> 0 then tf_capacity fl else 64)"
  have "c0 \<noteq> 0" by (simp add: c0_def)
  then obtain c where c: "grow_cap needed c0 = Some c" using grow_cap_returns by blast
  have n: "new_capacity needed fl = (if TMPFS_MAX_FILE_SIZE < c then TMPFS_MAX_FILE_SIZE else c)"
    by (auto simp: new_capacity_def c c0_def [symmetric] min_def)
  show ?thesis
    unfolding enlarge_def Let_def fl_def [symmetric] c0_def [symmetric] c bind.bind_lunit n [symmetric]
      new_capacity_fits(1) [of needed fl]
    using assms by (simp only: fl_def [symmetric] if_False)
qed

section \<open>Writing\<close>

text \<open>
  What the file system relies on of the kernel heap: allocating and freeing touch nothing of the
  file system's own state.
\<close>

definition put_heap :: "kheap \<Rightarrow> 'd tvfs \<Rightarrow> 'd tvfs" where
  "put_heap h s = s\<lparr>fsx := (fsx s)\<lparr>tm_heap := h\<rparr>\<rparr>"

text \<open>A block of the size of a file that the heap hands out lies apart from the buffer of the file.\<close>

definition heap_apart :: "'d tenv \<Rightarrow> tmpfs_file \<Rightarrow> 'd tvfs \<Rightarrow> bool" where
  "heap_apart E fl s \<longleftrightarrow>
     (\<forall>n p t i j. n \<noteq> 0 \<longrightarrow> n \<le> TMPFS_MAX_FILE_SIZE \<longrightarrow> k_malloc E n s = Some (p, t) \<longrightarrow> p \<noteq> 0 \<longrightarrow> i < unat n \<longrightarrow> j < unat (tf_size fl) \<longrightarrow>
        p + of_nat i \<noteq> tf_data fl + of_nat j)"

locale fs_heap =
  fixes E :: "'d tenv"
  assumes malloc_frame: "k_malloc E n s = Some (p, s') \<Longrightarrow> \<exists>h. s' = put_heap h s"
    and free_frame: "k_free E p s = Some s' \<Longrightarrow> \<exists>h. s' = put_heap h s"
begin

text \<open>The state after \<^verbatim>\<open>f\<close> got the buffer \<open>d\<close> of capacity \<open>c\<close>, with memory \<open>m\<close> and heap \<open>h\<close>.\<close>

definition rebuffered :: "u64 \<Rightarrow> kheap \<Rightarrow> mem8 \<Rightarrow> u64 \<Rightarrow> u64 \<Rightarrow> 'd tvfs \<Rightarrow> 'd tvfs" where
  "rebuffered f h m d c s =
     s\<lparr>fsx := (fsx s)\<lparr>tm_heap := h, tm_mem := m,
        tm_files := (tm_files (fsx s))(f := (tm_files (fsx s) f)\<lparr>tf_data := d, tf_capacity := c\<rparr>)\<rparr>\<rparr>"

lemma rebuffered_same:
  "rebuffered f (tm_heap (fsx s)) (tm_mem (fsx s)) (tf_data (tm_files (fsx s) f)) (tf_capacity (tm_files (fsx s) f)) s = s"
  by (simp add: rebuffered_def)

lemma enlarge_result:
  assumes e: "enlarge E f needed keep s = Some (ok, s')" and fl: "fl = tm_files (fsx s) f"
    and wf: "file_wf fl" and keep: "keep \<le> tf_size fl"
    and apart: "heap_apart E fl s"
  shows "if ok
         then \<exists>h m d c. s' = rebuffered f h m d c s \<and> needed \<le> c \<and> c \<le> TMPFS_MAX_FILE_SIZE \<and>
                tf_capacity fl \<le> c \<and> (d = 0 \<longleftrightarrow> c = 0) \<and>
                (\<forall>i < unat keep. m (d + of_nat i) = tm_mem (fsx s) (tf_data fl + of_nat i))
         else \<exists>h. s' = put_heap h s"
proof (cases "needed \<le> tf_capacity fl")
  case True
  then have "ok \<and> s' = s" using e by (simp add: enlarge_def fl [symmetric])
  moreover have "s = rebuffered f (tm_heap (fsx s)) (tm_mem (fsx s)) (tf_data fl) (tf_capacity fl) s \<and>
      needed \<le> tf_capacity fl \<and> tf_capacity fl \<le> TMPFS_MAX_FILE_SIZE \<and> tf_capacity fl \<le> tf_capacity fl \<and>
      (tf_data fl = 0 \<longleftrightarrow> tf_capacity fl = 0) \<and>
      (\<forall>i < unat keep. tm_mem (fsx s) (tf_data fl + of_nat i) = tm_mem (fsx s) (tf_data fl + of_nat i))"
    using True wf rebuffered_same [of f s] by (simp add: file_wf_def fl)
  ultimately show ?thesis by simp blast
next
  case False
  define c where "c = new_capacity needed fl"
  note cap = new_capacity_fits [where needed = needed and fl = fl, folded c_def]
  show ?thesis
  proof (cases "TMPFS_MAX_FILE_SIZE < needed")
    case True
    then show ?thesis using e False
      by (auto simp: enlarge_grows fl [symmetric] Let_def put_heap_def intro!: exI [of _ "tm_heap (fsx s)"])
  next
    case small: False
    obtain d s1 where d: "k_malloc E c s = Some (d, s1)"
      using e False small by (auto simp: enlarge_grows fl [symmetric] Let_def c_def split: bind_splits)
    then obtain h1 where s1: "s1 = put_heap h1 s" using malloc_frame by blast
    show ?thesis
    proof (cases "d = 0")
      case True
      then show ?thesis using e False small d s1
        by (auto simp: enlarge_grows fl [symmetric] Let_def c_def [symmetric])
    next
      case d0: False
      have kc: "unat keep \<le> unat c" "unat keep \<le> unat (tf_size fl)"
        using keep wf cap(3) by (auto simp: file_wf_def word_le_nat_alt)
      have "d + of_nat i \<noteq> tf_data fl + of_nat j" if "j < unat keep" "i < unat keep" for i j
        using apart d d0 that kc cap(2,4) unfolding heap_apart_def by fastforce
      then have cp: "copy_up d (tf_data fl) keep m = copied d (tf_data fl) keep m" for m
        by (intro copy_up_copies) (metis order.strict_trans)
      have cpi: "copied d (tf_data fl) keep m (d + of_nat i) = m (tf_data fl + of_nat i)" if "i < unat keep" for i m
      proof -
        have "unat (of_nat i :: u64) = i" using that unat_less_pow64 [of keep] by (intro unat_of_nat64) simp
        then show ?thesis using that by (simp add: copied_def in_range_def word_less_nat_alt)
      qed
      obtain h2 m where r: "ok" "s' = rebuffered f h2 m d c s"
        and m: "m = (if tf_data fl \<noteq> 0 then copied d (tf_data fl) keep (tm_mem (fsx s)) else tm_mem (fsx s))"
      proof (cases "tf_data fl = 0")
        case True
        then have "ok \<and> s' = rebuffered f h1 (tm_mem (fsx s)) d c s"
          using e False small d s1 d0
          by (simp add: enlarge_grows fl [symmetric] Let_def c_def [symmetric] rebuffered_def put_heap_def set_file_def)
        then show thesis using that True by simp
      next
        case dd: False
        obtain s2 where s2: "k_free E (tf_data fl) (set_mem (copy_up d (tf_data fl) keep) s1) = Some s2"
          "ok" "s' = set_file f (\<lambda>fl. fl\<lparr>tf_data := d, tf_capacity := c\<rparr>) s2"
          using e False small d s1 d0 dd
          by (auto simp: enlarge_grows fl [symmetric] Let_def c_def [symmetric] split: bind_splits)
        obtain h where "s2 = put_heap h (set_mem (copy_up d (tf_data fl) keep) s1)" using free_frame [OF s2(1)] by blast
        then have "s' = rebuffered f h (copied d (tf_data fl) keep (tm_mem (fsx s))) d c s"
          using s2 s1 cp by (simp add: put_heap_def set_mem_def set_file_def rebuffered_def fl [symmetric])
        then show thesis using that s2 dd by simp
      qed
      have "needed \<le> c" using cap(1) small by simp
      moreover have "keep = 0" if "tf_data fl = 0" using that wf keep by (auto simp: file_wf_def)
      moreover have "tf_capacity fl \<le> c" using wf by (intro cap(3)) (simp add: file_wf_def)
      ultimately have "s' = rebuffered f h2 m d c s \<and> needed \<le> c \<and> c \<le> TMPFS_MAX_FILE_SIZE \<and>
          tf_capacity fl \<le> c \<and> (d = 0 \<longleftrightarrow> c = 0) \<and>
          (\<forall>i < unat keep. m (d + of_nat i) = tm_mem (fsx s) (tf_data fl + of_nat i))"
        using r m d0 cap(2,4) cpi by auto
      then show ?thesis using r(1) by simp blast
    qed
  qed
qed

end

context fs_heap
begin

lemma tmpfs_write_result:
  assumes w: "tmpfs_write E p offset buf s = Some (r, s')" and f: "f = priv_addr p s" and fl: "fl = tm_files (fsx s) f"
    and p: "p \<noteq> 0" "vi_type (inodes s p) = VFS_FILE" "f \<noteq> 0" and wf: "file_wf fl"
    and nw: "unat offset + length buf < 2 ^ 64" and off: "offset \<le> tf_size fl" and ne: "buf \<noteq> []"
    and apart: "heap_apart E fl s"
  shows "if r = -1 then \<exists>h. s' = put_heap h s
         else r = int (length buf) \<and> priv_addr p s' = f \<and> vi_type (inodes s' p) = VFS_FILE \<and>
              file_wf (tm_files (fsx s') f) \<and> tf_data (tm_files (fsx s') f) \<noteq> 0 \<and>
              tmpfs_contents p s' = patch (tmpfs_contents p s) (unat offset) buf"
proof -
  define sz :: u64 where "sz = of_nat (length buf)"
  have usz: "unat sz = length buf" using nw by (simp add: sz_def unat_of_nat64)
  then have un: "unat (offset + sz) = unat offset + length buf" using nw by (subst unat_add_nowrap) auto
  obtain ok s1 where e: "enlarge E f (offset + sz) (tf_size fl) s = Some (ok, s1)"
    using w p by (auto simp: tmpfs_write_def Let_def f [symmetric] fl sz_def split: bind_splits)
  note res = enlarge_result [OF e fl wf order.refl apart]
  show ?thesis
  proof (cases ok)
    case False
    then show ?thesis using w p e res
      by (auto simp: tmpfs_write_def Let_def f [symmetric] fl [symmetric] sz_def [symmetric])
  next
    case True
    then obtain h m d c where s1: "s1 = rebuffered f h m d c s"
      and c: "offset + sz \<le> c" "c \<le> TMPFS_MAX_FILE_SIZE" "tf_capacity fl \<le> c" "d = 0 \<longleftrightarrow> c = 0"
      and m: "\<And>i. i < unat (tf_size fl) \<Longrightarrow> m (d + of_nat i) = tm_mem (fsx s) (tf_data fl + of_nat i)"
      using res by (simp only: if_True) blast
    define m' where "m' = put_bytes (d + offset) buf m"
    define n where "n = (if tf_size fl < offset + sz then offset + sz else tf_size fl)"
    have s': "tm_files (fsx s') f = fl\<lparr>tf_data := d, tf_capacity := c, tf_size := n\<rparr>" "tm_mem (fsx s') = m'"
      "priv_addr p s' = f" "vi_type (inodes s' p) = VFS_FILE" and r: "r = to_int sz"
    proof -
      define s2 where "s2 = set_mem (put_bytes (tf_data (tm_files (fsx s1) f) + offset) buf) s1"
      define s3 where "s3 = (if tf_size (tm_files (fsx s2) f) < offset + sz
        then set_file f (tf_size_update (\<lambda>_. offset + sz)) s2 else s2)"
      define s4 where "s4 = (if vi_size (inodes s3 p) < offset + sz
        then set_inode p (vi_size_update (\<lambda>_. offset + sz)) s3 else s3)"
      have "tmpfs_write E p offset buf s = Some (to_int sz, s4)" using p e True
        by (simp add: tmpfs_write_def Let_def f [symmetric] fl [symmetric] sz_def [symmetric] s4_def s3_def s2_def)
      then have "s' = s4" "r = to_int sz" using w by simp_all
      moreover have s2: "tm_files (fsx s2) f = fl\<lparr>tf_data := d, tf_capacity := c\<rparr>" "tm_mem (fsx s2) = m'"
        "inodes s2 = inodes s"
        by (simp_all add: s2_def s1 rebuffered_def set_mem_def m'_def fl)
      moreover have "tm_files (fsx s3) f = fl\<lparr>tf_data := d, tf_capacity := c, tf_size := n\<rparr>" "tm_mem (fsx s3) = m'"
        "inodes s3 = inodes s"
        using s2 by (auto simp: s3_def set_file_def n_def)
      ultimately show "tm_files (fsx s') f = fl\<lparr>tf_data := d, tf_capacity := c, tf_size := n\<rparr>" "tm_mem (fsx s') = m'"
        "priv_addr p s' = f" "vi_type (inodes s' p) = VFS_FILE" "r = to_int sz"
        using p f by (auto simp: s4_def set_inode_def priv_addr_def)
    qed
    have cap: "unat offset + length buf \<le> 65536"
      using c(1,2) un by (simp add: word_le_nat_alt TMPFS_MAX_FILE_SIZE_def)
    then have r': "r = int (length buf)" using r usz by (simp add: to_int_max)
    have "0 < length buf" using ne by simp
    then have c0: "c \<noteq> 0" using c(1) un by (auto simp: word_le_nat_alt)
    have "n \<le> c" using c wf by (auto simp: n_def file_wf_def)
    then have wf': "file_wf (fl\<lparr>tf_data := d, tf_capacity := c, tf_size := n\<rparr>)" using c by (simp add: file_wf_def)
    have un': "unat n = max (unat (tf_size fl)) (unat offset + length buf)"
      using un by (auto simp: n_def word_less_nat_alt)
    have uo: "unat offset \<le> unat (tf_size fl)" using off by (simp add: word_le_nat_alt)
    have nb: "unat n \<le> 65536" using \<open>n \<le> c\<close> c(2) by (simp add: word_le_nat_alt TMPFS_MAX_FILE_SIZE_def)
    have "file_bytes m' (fl\<lparr>tf_data := d, tf_capacity := c, tf_size := n\<rparr>) =
        patch (file_bytes (tm_mem (fsx s)) fl) (unat offset) buf"
    proof (rule nth_equalityI)
      show "length (file_bytes m' (fl\<lparr>tf_data := d, tf_capacity := c, tf_size := n\<rparr>)) =
          length (patch (file_bytes (tm_mem (fsx s)) fl) (unat offset) buf)"
        using un' uo by (simp add: patch_def)
      fix i assume "i < length (file_bytes m' (fl\<lparr>tf_data := d, tf_capacity := c, tf_size := n\<rparr>))"
      then have i: "i < unat n" by simp
      have "unat (of_nat i :: u64) = i" using i nb by (intro unat_of_nat64) simp
      then have "unat (of_nat i - offset :: u64) =
          (if unat offset \<le> i then i - unat offset else i + 2 ^ 64 - unat offset)"
        by (simp add: unat_sub_if')
      then have "m' (d + of_nat i) =
          (if unat offset \<le> i \<and> i < unat offset + length buf then buf ! (i - unat offset) else m (d + of_nat i))"
        using cap nw put_bytes_nth [of buf "d + offset" m "d + of_nat i"] by (auto simp: m'_def)
      then show "file_bytes m' (fl\<lparr>tf_data := d, tf_capacity := c, tf_size := n\<rparr>) ! i =
          patch (file_bytes (tm_mem (fsx s)) fl) (unat offset) buf ! i"
        using i un' uo m by (auto simp: nth_file_bytes patch_def nth_append)
    qed
    then show ?thesis using s' r' wf' c c0 by (simp add: tmpfs_contents_def f [symmetric] fl [symmetric])
  qed
qed

end

interpretation kernel_heap: fs_heap "tmpfs_env E"
  by unfold_locales (auto simp: tmpfs_env_def put_heap_def)








text \<open>A file with the contents 1, 2 in a buffer of 64 bytes, on an exhausted heap.\<close>

definition full_heap :: kheap where
  "full_heap = \<lparr>pmem = (\<lambda>_. 0), dma_free_list = 0, dma32_free_list = 0, normal_free_list = 0,
                free_pages_total = 0, pmm_lock = False,
                hblk = (\<lambda>_. \<lparr>hb_magic = 0, hb_size = 0, hb_next = 0, hb_free = 0\<rparr>), heap_root = 0\<rparr>"










section \<open>Directories as name lists\<close>

lemma path_match_eq [simp]: "path_match a b \<longleftrightarrow> a = b"
  by (induction a b rule: path_match.induct) auto

lemma fold_shift:
  assumes "i < length cs"
  shows "take (length cs - 1) (fold (\<lambda>j cs. cs[j := cs ! Suc j]) [i..<length cs - 1] cs) =
         take i cs @ drop (Suc i) cs"
proof -
  have "fold (\<lambda>j cs. cs[j := cs ! Suc j]) [i..<i + k] cs =
        take i cs @ take k (drop (Suc i) cs) @ drop (i + k) cs" if "i + k < length cs" for k
    using that
  proof (induction k)
    case (Suc k)
    then have "fold (\<lambda>j cs. cs[j := cs ! Suc j]) [i..<i + Suc k] cs =
        (take i cs @ take k (drop (Suc i) cs) @ drop (i + k) cs)[i + k := cs ! Suc (i + k)]"
      by (simp add: nth_append)
    also have "\<dots> = take i cs @ take (Suc k) (drop (Suc i) cs) @ drop (i + Suc k) cs"
      using Suc.prems
      by (intro nth_equalityI) (auto simp: nth_append nth_list_update min_def less_Suc_eq not_less
          Suc_diff_le intro: arg_cong [of _ _ "\<lambda>i. cs ! i"])
    finally show ?case .
  qed (simp add: id_take_nth_drop [symmetric])
  from this [of "length cs - 1 - i"] assms show ?thesis by simp
qed

lemma find_snoc: "(\<forall>x \<in> set xs. \<not> P x) \<Longrightarrow> find P (xs @ [y]) = (if P y then Some y else None)"
  by (induction xs) auto

lemma find_child_Some:
  "find_child name cs = Some i \<Longrightarrow> i < length cs \<and> tc_name (cs ! i) = name \<and> (\<forall>j < i. tc_name (cs ! j) \<noteq> name)"
  by (auto simp: find_child_def find_Some_iff)

definition dir_children :: "u64 \<Rightarrow> 'd tvfs \<Rightarrow> tmpfs_child list" where
  "dir_children dir s = td_children (tm_dirs (fsx s) (priv_addr dir s))"

lemma put_heap_simps [simp]:
  "inodes (put_heap h s) = inodes s" "tm_dirs (fsx (put_heap h s)) = tm_dirs (fsx s)"
  "tm_files (fsx (put_heap h s)) = tm_files (fsx s)" "priv_addr p (put_heap h s) = priv_addr p s"
  "file_table (put_heap h s) = file_table s"
  by (simp_all add: put_heap_def priv_addr_def)

lemma set_file_simps [simp]:
  "inodes (set_file f g s) = inodes s" "tm_dirs (fsx (set_file f g s)) = tm_dirs (fsx s)"
  "priv_addr p (set_file f g s) = priv_addr p s" "file_table (set_file f g s) = file_table s"
  by (simp_all add: set_file_def priv_addr_def)

lemma set_dir_simps [simp]:
  "inodes (set_dir d g s) = inodes s" "priv_addr p (set_dir d g s) = priv_addr p s"
  "tm_dirs (fsx (set_dir d g s)) = (tm_dirs (fsx s))(d := g (tm_dirs (fsx s) d))"
  by (simp_all add: set_dir_def priv_addr_def)

lemma set_inode_dirs [simp]: "fsx (set_inode p g s) = fsx s"
  by (simp add: set_inode_def)

context fs_heap
begin

text \<open>What a successful \<^verbatim>\<open>tmpfs_create\<close> does: \<open>ops\<close> stays what the memory of the new inode held.\<close>

lemma tmpfs_create_result:
  assumes "tmpfs_create E dir name s = Some (0, p, s')"
  shows "p \<noteq> 0 \<and> dir \<noteq> 0 \<and> vi_type (inodes s dir) = VFS_DIR \<and> priv_addr dir s \<noteq> 0 \<and>
    length (dir_children dir s) < TMPFS_MAX_ENTRIES \<and>
    (\<exists>f. f \<noteq> 0 \<and> inodes s' = (inodes s)(p := fill_inode p VFS_FILE (vi_sb (inodes s dir)) f (inodes s p))) \<and>
    tm_dirs (fsx s') = (tm_dirs (fsx s))
      (priv_addr dir s := \<lparr>td_children = dir_children dir s @ [\<lparr>tc_name = take (VFS_NAME_MAX - 1) name, tc_inode = p\<rparr>]\<rparr>)"
proof -
  have d: "dir \<noteq> 0" "vi_type (inodes s dir) = VFS_DIR" "priv_addr dir s \<noteq> 0"
    "length (dir_children dir s) < TMPFS_MAX_ENTRIES"
    using assms by (auto simp: tmpfs_create_def dir_children_def Let_def split: if_splits)
  obtain q s1 where q: "k_malloc E INODE_SIZE s = Some (q, s1)" "q \<noteq> 0"
    using assms d by (auto simp: tmpfs_create_def dir_children_def Let_def split: bind_splits if_splits)
  obtain h1 where s1: "s1 = put_heap h1 s" using malloc_frame [OF q(1)] by blast
  obtain f s2 where f: "k_malloc E FILE_SIZE s1 = Some (f, s2)" "f \<noteq> 0"
    using assms d q by (auto simp: tmpfs_create_def tmpfs_alloc_file_def dir_children_def Let_def split: bind_splits if_splits)
  obtain h2 where s2: "s2 = put_heap h2 s1" using malloc_frame [OF f(1)] by blast
  have "p = q \<and> s' = add_child (priv_addr dir s) name q (set_inode q (fill_inode q VFS_FILE (vi_sb (inodes s dir)) f)
      (set_file f (\<lambda>_. \<lparr>tf_data = 0, tf_size = 0, tf_capacity = 0\<rparr>) s2))"
    using assms d q f s1 s2
    by (auto simp: tmpfs_create_def tmpfs_alloc_file_def dir_children_def Let_def)
  then show ?thesis using d q f s1 s2
    by (auto simp: add_child_def dir_children_def set_inode_def)
qed

lemma tmpfs_free_file_frame:
  assumes "tmpfs_free_file E f s = Some (r, s')"
  shows "\<exists>h. s' = put_heap h s"
proof -
  have pp: "put_heap h (put_heap h' s) = put_heap h s" for h h' by (simp add: put_heap_def)
  have "put_heap (tm_heap (fsx s)) s = s" by (simp add: put_heap_def)
  with assms pp show ?thesis
    by (auto simp: tmpfs_free_file_def split: bind_splits if_splits dest!: free_frame) metis+
qed

lemma tmpfs_unlink_result:
  assumes "tmpfs_unlink E dir name s = Some (r, s')" and "dir \<noteq> 0" and "vi_type (inodes s dir) = VFS_DIR"
    and "priv_addr dir s \<noteq> 0"
  shows "case find_child name (dir_children dir s) of
           None \<Rightarrow> r = -1 \<and> s' = s
         | Some i \<Rightarrow> r = 0 \<and> inodes s' = inodes s \<and>
             dir_children dir s' = take i (dir_children dir s) @ drop (Suc i) (dir_children dir s)"
proof (cases "find_child name (dir_children dir s)")
  case None
  then show ?thesis using assms by (simp add: tmpfs_unlink_def dir_children_def Let_def)
next
  case (Some i)
  define p where "p = tc_inode (dir_children dir s ! i)"
  define a where "a = (if p \<noteq> 0 \<and> priv_addr p s \<noteq> 0 \<and> vi_type (inodes s p) = VFS_FILE
      then map_option snd (tmpfs_free_file E (priv_addr p s) s) else Some s)"
  define b where "b t = (if p \<noteq> 0 then k_free E p t else Some t)" for t :: "'d tvfs"
  define g :: "'d tvfs \<Rightarrow> 'd tvfs" where "g = set_dir (priv_addr dir s) (td_children_update
      (\<lambda>cs. take (length cs - 1) (fold (\<lambda>j cs. cs[j := cs ! Suc j]) [i..<length cs - 1] cs)))"
  have eq: "tmpfs_unlink E dir name s = a \<bind> (\<lambda>t. b t \<bind> (\<lambda>t. Some (0, g t)))"
    using assms(2-4) Some by (simp add: tmpfs_unlink_def dir_children_def Let_def p_def a_def b_def g_def)
  obtain s1 s2 where s1: "a = Some s1" and s2: "b s1 = Some s2" and r: "r = 0" "s' = g s2"
    using assms(1) unfolding eq by (auto split: bind_splits)
  have "\<exists>h. s1 = put_heap h s"
    using s1 by (auto simp: a_def put_heap_def split: if_splits dest: tmpfs_free_file_frame [unfolded put_heap_def]
        intro: exI [of _ "tm_heap (fsx s)"])
  then obtain h1 where h1: "s1 = put_heap h1 s" by blast
  have "\<exists>h. s2 = put_heap h s1"
    using s2 by (auto simp: b_def put_heap_def split: if_splits dest: free_frame [unfolded put_heap_def]
        intro: exI [of _ "tm_heap (fsx s1)"])
  then obtain h2 where h2: "s2 = put_heap h2 s1" by blast
  have "r = 0 \<and> s' = set_dir (priv_addr dir s) (td_children_update
      (\<lambda>cs. take (length cs - 1) (fold (\<lambda>j cs. cs[j := cs ! Suc j]) [i..<length cs - 1] cs))) s2"
    using r by (simp add: g_def)
  then show ?thesis using Some h1 h2 fold_shift [of i "dir_children dir s"] find_child_Some [OF Some]
    by (simp add: dir_children_def)
qed

end

text \<open>
  A successful \<^verbatim>\<open>tmpfs_create\<close> in a directory without the name, of a name that
  fits its array, appends one child; \<^verbatim>\<open>tmpfs_lookup\<close> then finds the new inode and counts the
  reference, and a \<^verbatim>\<open>tmpfs_unlink\<close> that returns removes it again, shifting nothing else.
\<close>

lemma tmpfs_create_lookup_unlink:
  assumes "tmpfs_create (tmpfs_env E) dir name s = Some (0, p, s')" and "p \<noteq> dir"
    and "\<forall>c \<in> set (dir_children dir s). tc_name c \<noteq> name" and "length name < VFS_NAME_MAX"
  shows "dir_children dir s' = dir_children dir s @ [\<lparr>tc_name = name, tc_inode = p\<rparr>] \<and>
         tmpfs_lookup dir name s' = (0, p, set_inode p (vi_refcount_update (\<lambda>n. n + 1)) s') \<and>
         (\<forall>r t. tmpfs_unlink (tmpfs_env E) dir name s' = Some (r, t) \<longrightarrow>
                r = 0 \<and> dir_children dir t = dir_children dir s)"
proof -
  note c = kernel_heap.tmpfs_create_result [OF assms(1)]
  have pd: "priv_addr dir s' = priv_addr dir s" "vi_type (inodes s' dir) = VFS_DIR"
    using c assms(2) by (auto simp: priv_addr_def)
  have ch: "dir_children dir s' = dir_children dir s @ [\<lparr>tc_name = name, tc_inode = p\<rparr>]"
    using c pd assms(4) by (auto simp: dir_children_def)
  have "tc_name (dir_children dir s ! j) \<noteq> name" if "j < length (dir_children dir s)" for j
    using assms(3) that nth_mem by blast
  then have fc: "find_child name (dir_children dir s') = Some (length (dir_children dir s))"
    by (simp add: ch find_child_def find_snoc nth_append)
  have "tmpfs_lookup dir name s' = (0, p, set_inode p (vi_refcount_update (\<lambda>n. n + 1)) s')"
    using c pd fc ch by (auto simp: tmpfs_lookup_def dir_children_def Let_def)
  moreover have "r = 0 \<and> dir_children dir t = dir_children dir s"
    if "tmpfs_unlink (tmpfs_env E) dir name s' = Some (r, t)" for r t
    using kernel_heap.tmpfs_unlink_result [OF that] c pd fc ch by simp
  ultimately show ?thesis using ch by blast
qed

text \<open>A heap with one free page, and what the two allocations of \<^verbatim>\<open>tmpfs_create\<close> get from it.\<close>

definition page_heap :: kheap where
  "page_heap = full_heap\<lparr>hblk := (hblk full_heap)(0x500000 := \<lparr>hb_magic = HEAP_MAGIC, hb_size = 4096, hb_next = 0, hb_free = 1\<rparr>),
                        heap_root := 0x500000\<rparr>"

lemma kmalloc_page_heap:
  "\<exists>h h'. kmalloc INODE_SIZE page_heap = Some (0x500018, h) \<and> kmalloc FILE_SIZE h = Some (0x500068, h')"
proof -
  have n: "block_needed INODE_SIZE = 80" "block_needed FILE_SIZE = 48"
    by (simp_all add: block_needed_def INODE_SIZE_def FILE_SIZE_def HDR_def HEAP_ALIGN_def)
  define h1 where "h1 = take_block (hblk page_heap) 0x500000 80"
  have h1: "h1 0x500000 = \<lparr>hb_magic = HEAP_MAGIC, hb_size = 80, hb_next = 0x500050, hb_free = 0\<rparr>"
    "h1 0x500050 = \<lparr>hb_magic = HEAP_MAGIC, hb_size = 4016, hb_next = 0, hb_free = 1\<rparr>"
    by (simp_all add: h1_def take_block_def page_heap_def HDR_def)
  have "coalesce_loop (hblk page_heap) 0x500000 = Some (hblk page_heap)"
    by (subst coalesce_loop.simps) (simp add: page_heap_def)
  moreover have "alloc_scan (hblk page_heap) 0x500000 80 = Some (0x500018, h1)"
    by (subst alloc_scan.simps) (simp add: page_heap_def h1_def HDR_def)
  ultimately have k1: "kmalloc INODE_SIZE page_heap = Some (0x500018, page_heap\<lparr>hblk := h1\<rparr>)"
    by (simp add: kmalloc_def heap_coalesce_def n) (simp add: page_heap_def INODE_SIZE_def)
  have "coalesce_loop h1 0x500000 = Some h1"
    by (subst coalesce_loop.simps, simp add: h1, subst coalesce_loop.simps, simp add: h1)
  moreover have "alloc_scan h1 0x500000 48 = Some (0x500068, take_block h1 0x500050 48)"
    by (subst alloc_scan.simps, simp add: h1, subst alloc_scan.simps, simp add: h1 HDR_def)
  moreover have "heap_root page_heap = 0x500000" by (simp add: page_heap_def)
  ultimately have "\<exists>h'. kmalloc FILE_SIZE (page_heap\<lparr>hblk := h1\<rparr>) = Some (0x500068, h')"
    by (simp add: kmalloc_def heap_coalesce_def n) (simp add: FILE_SIZE_def)
  with k1 show ?thesis by blast
qed

text \<open>
  \<^verbatim>\<open>tmpfs_create\<close> does not set \<^verbatim>\<open>inode->ops\<close>: with zeroed heap memory every read and write of the new
  file is refused by \<^verbatim>\<open>vfs_read\<close> and \<^verbatim>\<open>vfs_write\<close>.
\<close>

lemma tmpfs_created_file_unusable:
  assumes "tmpfs_create (tmpfs_env E) dir name s = Some (0, p, s')" and "vi_ops (inodes s p) = None"
    and "vf_inode (file_table s' ! i) = p"
  shows "vfs_read E' (Some i) n has_buf s' = Some (-1, [], s') \<and> vfs_write E' (Some i) buf s' = Some (-1, s')"
proof -
  have "vi_ops (inodes s' p) = None"
    using kernel_heap.tmpfs_create_result [OF assms(1)] assms(2) by (auto simp: fill_inode_def)
  then show ?thesis using assms(3)
    by (cases buf) (auto simp: vfs_read_def vfs_write_def ops_of_def Let_def)
qed

text \<open>
  \<^verbatim>\<open>offset + size\<close> is computed modulo $2^{64}$: a write at an offset just below $2^{64}$ passes the
  capacity check and stores bytes in front of the buffer.
\<close>

lemma tmpfs_write_before_buffer:
  assumes "p \<noteq> 0" and "vi_type (inodes s p) = VFS_FILE" and "priv_addr p s = f" and "f \<noteq> 0"
  shows "\<exists>s'. tmpfs_write E p (- 1) [b] s = Some (1, s') \<and>
              tm_mem (fsx s') (tf_data (tm_files (fsx s) f) - 1) = b"
proof -
  have "to_int 1 = 1" using to_int_small [of 1] by simp
  then show ?thesis using assms
    by (auto simp: tmpfs_write_def Let_def enlarge_def set_mem_def set_inode_def set_file_def)
qed

end
