(* ===== verification/Fat32.thy ===== *)
theory Fat32
  imports Block
begin

text \<open>
  The FAT32 file system, first part of \<^verbatim>\<open>kernel/fs/fat32.c\<close>: the structures of \<^verbatim>\<open>fat32.h\<close>, the file
  allocation table, the FSInfo sector and mounting.

  The block layer is reached through \<open>'d bio\<close>, the two functions \<^verbatim>\<open>block_read\<close> and \<^verbatim>\<open>block_write\<close> on a
  disk state; \<open>block_io\<close> fills them with the definitions of \<^verbatim>\<open>block.c\<close>.  The outer option of an operation
  is \<open>None\<close> when it does not return (a cyclic cluster chain).  A sector buffer is a list of 512
  bytes, the packed structures are read from and written to it at the offsets of \<^verbatim>\<open>fat32.h\<close>.
\<close>

section \<open>Structures\<close>

definition FAT32_EOC :: u32 where "FAT32_EOC = 0x0FFFFFF8"
definition FAT32_FREE :: u32 where "FAT32_FREE = 0"
definition FAT_MASK :: u32 where "FAT_MASK = 0x0FFFFFFF"

record fat32_bpb =
  bytes_per_sector :: u16
  sectors_per_cluster :: u8
  reserved_sectors :: u16
  num_fats :: u8
  total_sectors_16 :: u16
  total_sectors_32 :: u32
  sectors_per_fat_32 :: u32
  root_cluster :: u32
  fs_info_sector :: u16

text \<open>The fields the code uses, at their offsets in the boot sector.\<close>

definition bpb_of :: "bytes \<Rightarrow> fat32_bpb" where
  "bpb_of b =
     \<lparr>bytes_per_sector = le16 b 11, sectors_per_cluster = b ! 13, reserved_sectors = le16 b 14, num_fats = b ! 16,
      total_sectors_16 = le16 b 19, total_sectors_32 = le32 b 32, sectors_per_fat_32 = le32 b 36,
      root_cluster = le32 b 44, fs_info_sector = le16 b 48\<rparr>"

record fat32_fs =
  fs_bdev :: devptr
  fs_bpb :: fat32_bpb
  fat_start :: u32
  data_start :: u32
  sectors_per_fat :: u32
  total_clusters :: u32

record 'd bio =
  b_rd :: "devptr \<Rightarrow> u64 \<Rightarrow> u8 \<Rightarrow> 'd \<Rightarrow> (int \<times> bytes) option"
  b_wr :: "devptr \<Rightarrow> u64 \<Rightarrow> u8 \<Rightarrow> bytes \<Rightarrow> 'd \<Rightarrow> (int \<times> 'd) option"

definition block_io :: "'d blkdrv \<Rightarrow> blkst \<Rightarrow> 'd bio" where
  "block_io V b = \<lparr>b_rd = (\<lambda>d sector count dk. block_read V b dk d sector count),
                   b_wr = (\<lambda>d sector count buf dk. block_write V b dk d sector count buf)\<rparr>"

text \<open>One sector of the device of the file system; the sector number is a \<^verbatim>\<open>uint32_t\<close>.\<close>

definition rd1 :: "'d bio \<Rightarrow> fat32_fs \<Rightarrow> u32 \<Rightarrow> 'd \<Rightarrow> (int \<times> bytes) option" where
  "rd1 B fs sector dk = b_rd B (fs_bdev fs) (ucast sector) 1 dk"

definition wr1 :: "'d bio \<Rightarrow> fat32_fs \<Rightarrow> u32 \<Rightarrow> bytes \<Rightarrow> 'd \<Rightarrow> (int \<times> 'd) option" where
  "wr1 B fs sector buf dk = b_wr B (fs_bdev fs) (ucast sector) 1 buf dk"

abbreviation bps :: "fat32_fs \<Rightarrow> u32" where "bps fs \<equiv> ucast (bytes_per_sector (fs_bpb fs))"
abbreviation spc :: "fat32_fs \<Rightarrow> u32" where "spc fs \<equiv> ucast (sectors_per_cluster (fs_bpb fs))"

text \<open>\<^verbatim>\<open>cluster >= 2 && cluster < FAT32_EOC\<close>\<close>

definition in_chain :: "u32 \<Rightarrow> bool" where
  "in_chain cl \<longleftrightarrow> 2 \<le> cl \<and> cl < FAT32_EOC"

definition first_sector :: "fat32_fs \<Rightarrow> u32 \<Rightarrow> u32" where
  "first_sector fs cl = data_start fs + (cl - 2) * spc fs"

section \<open>The file allocation table\<close>

definition fat_sector :: "fat32_fs \<Rightarrow> u32 \<Rightarrow> u32" where
  "fat_sector fs cluster = fat_start fs + (cluster * 4) div bps fs"

definition fat_byte_off :: "fat32_fs \<Rightarrow> u32 \<Rightarrow> nat" where
  "fat_byte_off fs cluster = unat ((cluster * 4) mod bps fs)"

definition fat_next_cluster :: "'d bio \<Rightarrow> fat32_fs \<Rightarrow> u32 \<Rightarrow> 'd \<Rightarrow> u32 option" where
  "fat_next_cluster B fs cluster dk =
     do { (r, buf) \<leftarrow> rd1 B fs (fat_sector fs cluster) dk;
          Some (if r \<noteq> 0 then FAT32_EOC else le32 buf (fat_byte_off fs cluster) AND FAT_MASK) }"

definition fat32_read_cluster :: "'d bio \<Rightarrow> fat32_fs \<Rightarrow> u32 \<Rightarrow> 'd \<Rightarrow> (int \<times> bytes) option" where
  "fat32_read_cluster B fs cluster dk =
     b_rd B (fs_bdev fs) (ucast (first_sector fs cluster)) (sectors_per_cluster (fs_bpb fs)) dk"

definition fat_set_cluster :: "'d bio \<Rightarrow> fat32_fs \<Rightarrow> u32 \<Rightarrow> u32 \<Rightarrow> 'd \<Rightarrow> (int \<times> 'd) option" where
  "fat_set_cluster B fs cluster v dk =
     do { (r, buf) \<leftarrow> rd1 B fs (fat_sector fs cluster) dk;
          if r \<noteq> 0 then Some (-1, dk)
          else let off = fat_byte_off fs cluster;
                   old = le32 buf off
               in wr1 B fs (fat_sector fs cluster)
                    (put32 buf off ((old AND NOT FAT_MASK) OR (v AND FAT_MASK))) dk }"

text \<open>
  The search of \<^verbatim>\<open>fat_alloc_cluster\<close> in one sector of the table, entries \<open>is\<close>: the index of a free
  entry, the early return at the end of the volume, or on to the next sector.
\<close>

datatype alloc_scan_result = Found nat | OutOfRange | NextSector

fun alloc_entries :: "bytes \<Rightarrow> u32 \<Rightarrow> u32 \<Rightarrow> nat list \<Rightarrow> alloc_scan_result" where
  "alloc_entries buf tot base [] = NextSector"
| "alloc_entries buf tot base (i # is) =
     (let cluster = base + of_nat i in
      if cluster < 2 then alloc_entries buf tot base is
      else if tot \<le> cluster then OutOfRange
      else if le32 buf (4 * i) AND FAT_MASK = FAT32_FREE then Found i
      else alloc_entries buf tot base is)"

fun alloc_sectors :: "'d bio \<Rightarrow> fat32_fs \<Rightarrow> nat list \<Rightarrow> 'd \<Rightarrow> (u32 \<times> 'd) option" where
  "alloc_sectors B fs [] dk = Some (FAT32_EOC, dk)"
| "alloc_sectors B fs (s # ss) dk =
     do { (r, buf) \<leftarrow> rd1 B fs (fat_start fs + of_nat s) dk;
          if r \<noteq> 0 then Some (FAT32_EOC, dk)
          else let base = of_nat s * (bps fs div 4) in
            (case alloc_entries buf (total_clusters fs + 2) base [0..<unat (bps fs div 4)] of
               NextSector \<Rightarrow> alloc_sectors B fs ss dk
             | OutOfRange \<Rightarrow> Some (FAT32_EOC, dk)
             | Found i \<Rightarrow>
                 do { (r, dk) \<leftarrow> wr1 B fs (fat_start fs + of_nat s) (put32 buf (4 * i) FAT32_EOC) dk;
                      Some (if r \<noteq> 0 then FAT32_EOC else base + of_nat i, dk) }) }"

definition fat_alloc_cluster :: "'d bio \<Rightarrow> fat32_fs \<Rightarrow> 'd \<Rightarrow> (u32 \<times> 'd) option" where
  "fat_alloc_cluster B fs dk = alloc_sectors B fs [0..<unat (sectors_per_fat fs)] dk"

partial_function (option) fat_free_chain :: "'d bio \<Rightarrow> fat32_fs \<Rightarrow> u32 \<Rightarrow> 'd \<Rightarrow> 'd option" where
  "fat_free_chain B fs cluster dk =
     (if in_chain cluster
      then do { next \<leftarrow> fat_next_cluster B fs cluster dk;
                (_, dk) \<leftarrow> fat_set_cluster B fs cluster FAT32_FREE dk;
                fat_free_chain B fs next dk }
      else Some dk)"

partial_function (option) chain_last_loop :: "'d bio \<Rightarrow> fat32_fs \<Rightarrow> u32 \<Rightarrow> 'd \<Rightarrow> u32 option" where
  "chain_last_loop B fs cluster dk =
     do { next \<leftarrow> fat_next_cluster B fs cluster dk;
          if in_chain next then chain_last_loop B fs next dk else Some cluster }"

definition fat_chain_last :: "'d bio \<Rightarrow> fat32_fs \<Rightarrow> u32 \<Rightarrow> 'd \<Rightarrow> u32 option" where
  "fat_chain_last B fs cluster dk =
     (if \<not> in_chain cluster then Some 0 else chain_last_loop B fs cluster dk)"

definition fat_extend_chain :: "'d bio \<Rightarrow> fat32_fs \<Rightarrow> u32 \<Rightarrow> 'd \<Rightarrow> (u32 \<times> 'd) option" where
  "fat_extend_chain B fs cluster dk =
     do { cl \<leftarrow> fat_chain_last B fs cluster dk;
          (new_cl, dk) \<leftarrow> fat_alloc_cluster B fs dk;
          if FAT32_EOC \<le> new_cl then Some (FAT32_EOC, dk)
          else if in_chain cl
               then do { (_, dk) \<leftarrow> fat_set_cluster B fs cl new_cl dk; Some (new_cl, dk) }
               else Some (new_cl, dk) }"

section \<open>The FSInfo sector\<close>

definition fsinfo_sector :: "fat32_fs \<Rightarrow> u32" where
  "fsinfo_sector fs =
     (if fs_info_sector (fs_bpb fs) = 0 then 1 else ucast (fs_info_sector (fs_bpb fs)))"

definition fsinfo_signed :: "bytes \<Rightarrow> bool" where
  "fsinfo_signed buf \<longleftrightarrow> le32 buf 0 = 0x41615252 \<and> le32 buf 484 = 0x61417272"

definition fat_write_fsinfo :: "'d bio \<Rightarrow> fat32_fs \<Rightarrow> u32 \<Rightarrow> u32 \<Rightarrow> 'd \<Rightarrow> (int \<times> 'd) option" where
  "fat_write_fsinfo B fs free_clusters next_free dk =
     do { (r, buf) \<leftarrow> rd1 B fs (fsinfo_sector fs) dk;
          if r \<noteq> 0 then Some (-1, dk)
          else if \<not> fsinfo_signed buf then Some (0, dk)
          else let buf = (if free_clusters \<noteq> 0xFFFFFFFF then put32 buf 488 free_clusters else buf);
                   buf = (if next_free \<noteq> 0xFFFFFFFF then put32 buf 492 next_free else buf)
               in wr1 B fs (fsinfo_sector fs) buf dk }"

definition fat32_read_fsinfo :: "'d bio \<Rightarrow> fat32_fs \<Rightarrow> 'd \<Rightarrow> (int \<times> u32 \<times> u32) option" where
  "fat32_read_fsinfo B fs dk =
     do { (r, buf) \<leftarrow> rd1 B fs (fsinfo_sector fs) dk;
          Some (if r \<noteq> 0 \<or> \<not> fsinfo_signed buf then (-1, 0, 0) else (0, le32 buf 488, le32 buf 492)) }"

section \<open>Mounting\<close>

definition is_pow2 :: "u32 \<Rightarrow> bool" where
  "is_pow2 v \<longleftrightarrow> v \<noteq> 0 \<and> v AND (v - 1) = 0"

text \<open>The checks of \<^verbatim>\<open>fat32_mount\<close> on the boot sector, and the layout it computes.\<close>

definition bpb_total :: "fat32_bpb \<Rightarrow> u32" where
  "bpb_total p = (if total_sectors_32 p \<noteq> 0 then total_sectors_32 p else ucast (total_sectors_16 p))"

definition bpb_fat_end :: "fat32_bpb \<Rightarrow> u32" where
  "bpb_fat_end p = ucast (reserved_sectors p) + ucast (num_fats p) * sectors_per_fat_32 p"

definition bpb_valid :: "bytes \<Rightarrow> bool" where
  "bpb_valid buf \<longleftrightarrow>
     (let p = bpb_of buf in
      buf ! 510 = 0x55 \<and> buf ! 511 = 0xAA \<and> sectors_per_fat_32 p \<noteq> 0 \<and> bytes_per_sector p = 512 \<and>
      is_pow2 (ucast (sectors_per_cluster p)) \<and> sectors_per_cluster p \<le> 128 \<and>
      reserved_sectors p \<noteq> 0 \<and> reserved_sectors p \<le> 1024 \<and> (num_fats p = 1 \<or> num_fats p = 2) \<and>
      2 \<le> root_cluster p \<and> bpb_total p \<noteq> 0 \<and> bpb_fat_end p < bpb_total p)"

definition fat32_mount :: "'d bio \<Rightarrow> devptr \<Rightarrow> fat32_fs \<Rightarrow> 'd \<Rightarrow> (int \<times> fat32_fs) option" where
  "fat32_mount B bdev fs dk =
     (if bdev = DNull then Some (-1, fs)
      else do { (r, buf) \<leftarrow> b_rd B bdev 0 1 dk;
                if r \<noteq> 0 \<or> \<not> bpb_valid buf then Some (-1, fs)
                else let p = bpb_of buf in
                  Some (0, \<lparr>fs_bdev = bdev, fs_bpb = p, fat_start = ucast (reserved_sectors p),
                            data_start = bpb_fat_end p, sectors_per_fat = sectors_per_fat_32 p,
                            total_clusters = (bpb_total p - bpb_fat_end p) div ucast (sectors_per_cluster p)\<rparr>) })"

end
