(* ===== verification/Fat32_Name.thy ===== *)
theory Fat32_Name
  imports Fat32
begin

text \<open>
  Names in FAT32 directories, \<^verbatim>\<open>kernel/fs/fat32.c\<close>: directory entries and long-name parts as packed
  structures, the checksum, short names, long names cut into parts of 13 characters, and the
  search for an unused short name.  Names are byte lists without their NUL.
\<close>

section \<open>Directory entries\<close>

definition ATTR_VOLUME_ID :: u8 where "ATTR_VOLUME_ID = 0x08"
definition ATTR_DIRECTORY :: u8 where "ATTR_DIRECTORY = 0x10"
definition ATTR_ARCHIVE :: u8 where "ATTR_ARCHIVE = 0x20"
definition ATTR_LFN :: u8 where "ATTR_LFN = 0x0F"
definition FAT32_MAX_LFN_ENTRIES :: int where "FAT32_MAX_LFN_ENTRIES = 20"

record fat32_dent =
  d_name :: bytes
  d_attr :: u8
  d_nt_res :: u8
  d_ctime_tenth :: u8
  d_ctime :: u16
  d_cdate :: u16
  d_adate :: u16
  d_cluster_hi :: u16
  d_wtime :: u16
  d_wdate :: u16
  d_cluster_lo :: u16
  d_size :: u32

record fat32_lfn_part =
  l_seq :: u8
  l_name1 :: "u16 list"
  l_attr :: u8
  l_type :: u8
  l_checksum :: u8
  l_name2 :: "u16 list"
  l_reserved :: u16
  l_name3 :: "u16 list"

definition dent_at :: "bytes \<Rightarrow> nat \<Rightarrow> fat32_dent" where
  "dent_at b k =
     \<lparr>d_name = take 11 (drop k b), d_attr = b ! (k + 11), d_nt_res = b ! (k + 12), d_ctime_tenth = b ! (k + 13),
      d_ctime = le16 b (k + 14), d_cdate = le16 b (k + 16), d_adate = le16 b (k + 18), d_cluster_hi = le16 b (k + 20),
      d_wtime = le16 b (k + 22), d_wdate = le16 b (k + 24), d_cluster_lo = le16 b (k + 26), d_size = le32 b (k + 28)\<rparr>"

definition lfn_at :: "bytes \<Rightarrow> nat \<Rightarrow> fat32_lfn_part" where
  "lfn_at b k =
     \<lparr>l_seq = b ! k, l_name1 = map (\<lambda>j. le16 b (k + 1 + 2 * j)) [0..<5], l_attr = b ! (k + 11),
      l_type = b ! (k + 12), l_checksum = b ! (k + 13), l_name2 = map (\<lambda>j. le16 b (k + 14 + 2 * j)) [0..<6],
      l_reserved = le16 b (k + 26), l_name3 = map (\<lambda>j. le16 b (k + 28 + 2 * j)) [0..<2]\<rparr>"

definition bytes16 :: "u16 \<Rightarrow> bytes" where
  "bytes16 v = [ucast v, ucast (drop_bit 8 v)]"

definition bytes32 :: "u32 \<Rightarrow> bytes" where
  "bytes32 v = [ucast v, ucast (drop_bit 8 v), ucast (drop_bit 16 v), ucast (drop_bit 24 v)]"

definition dent_bytes :: "fat32_dent \<Rightarrow> bytes" where
  "dent_bytes e =
     d_name e @ [d_attr e, d_nt_res e, d_ctime_tenth e] @ bytes16 (d_ctime e) @ bytes16 (d_cdate e) @
     bytes16 (d_adate e) @ bytes16 (d_cluster_hi e) @ bytes16 (d_wtime e) @ bytes16 (d_wdate e) @
     bytes16 (d_cluster_lo e) @ bytes32 (d_size e)"

definition lfn_bytes :: "fat32_lfn_part \<Rightarrow> bytes" where
  "lfn_bytes l =
     [l_seq l] @ concat (map bytes16 (l_name1 l)) @ [l_attr l, l_type l, l_checksum l] @
     concat (map bytes16 (l_name2 l)) @ bytes16 (l_reserved l) @ concat (map bytes16 (l_name3 l))"

text \<open>\<^verbatim>\<open>((uint32_t)de->cluster_hi << 16) | de->cluster_lo\<close>\<close>

definition dent_cluster :: "fat32_dent \<Rightarrow> u32" where
  "dent_cluster e = push_bit 16 (ucast (d_cluster_hi e)) OR ucast (d_cluster_lo e)"

section \<open>Short and long names\<close>

definition fat_checksum :: "bytes \<Rightarrow> u8" where
  "fat_checksum shortname = foldl (\<lambda>s c. drop_bit 1 s + push_bit 7 s + c) 0 (take 11 shortname)"

text \<open>\<open>room\<close> is what is left of the output buffer, the NUL not counted.\<close>

fun lfn_chars :: "u16 list \<Rightarrow> nat \<Rightarrow> bytes" where
  "lfn_chars [] room = []"
| "lfn_chars (c # cs) room =
     (if room = 0 \<or> c = 0xFFFF \<or> c = 0xFFFE then []
      else if 0x20 \<le> c \<and> c \<le> 0x7E then ucast c # lfn_chars cs (room - 1)
      else if c = 0 then []
      else 0x3F # lfn_chars cs (room - 1))"

definition lfn_to_ascii :: "u16 list \<Rightarrow> nat \<Rightarrow> bytes" where
  "lfn_to_ascii utf16 out_max = lfn_chars utf16 (out_max - 1)"

definition ascii_to_utf16 :: "bytes \<Rightarrow> nat \<Rightarrow> u16 list" where
  "ascii_to_utf16 inp out_len = map ucast (take out_len inp) @ replicate (out_len - length inp) 0xFFFF"

definition lower :: "u8 \<Rightarrow> u8" where
  "lower c = (if 0x41 \<le> c \<and> c \<le> 0x5A then c + 0x20 else c)"

definition name_char :: "u8 \<Rightarrow> bool" where
  "name_char c \<longleftrightarrow> c \<noteq> 0 \<and> c \<noteq> 0x20"

definition parse_short_name :: "bytes \<Rightarrow> nat \<Rightarrow> bytes" where
  "parse_short_name name11 out_max =
     (let base = takeWhile name_char (take 8 name11);
          ext = takeWhile name_char (take 3 (drop 8 name11))
      in take (out_max - 1) (map lower base @ (if ext \<noteq> [] then 0x2E # map lower ext else [])))"

fun strcmp_ci :: "bytes \<Rightarrow> bytes \<Rightarrow> int" where
  "strcmp_ci (a # as) (b # bs) = (if lower a \<noteq> lower b then -1 else strcmp_ci as bs)"
| "strcmp_ci [] [] = 0"
| "strcmp_ci _ _ = -1"

definition lfn_name :: "fat32_lfn_part \<Rightarrow> u16 list" where
  "lfn_name l = l_name1 l @ l_name2 l @ l_name3 l"

fun collect_lfn :: "fat32_lfn_part list \<Rightarrow> nat \<Rightarrow> bytes" where
  "collect_lfn [] out_max = []"
| "collect_lfn (l # ls) out_max =
     (let s = lfn_to_ascii (lfn_name l) out_max in s @ collect_lfn ls (out_max - length s))"

section \<open>Collecting long-name parts\<close>

text \<open>
  The array \<^verbatim>\<open>lfn_buf\<close> is a function of the index.  It is not initialised in the source; an element is
  read only after it was stored.
\<close>

record fat_scan_state =
  lfn_buf :: "nat \<Rightarrow> fat32_lfn_part"
  lfn_count :: int
  lfn_seq :: int
  lfn_checksum :: u8
  visible_count :: int
  found :: bool

definition reset_lfn :: "fat_scan_state \<Rightarrow> fat_scan_state" where
  "reset_lfn st = st\<lparr>lfn_count := 0, lfn_seq := 0, lfn_checksum := 0\<rparr>"

definition add_lfn_entry :: "fat_scan_state \<Rightarrow> fat32_lfn_part \<Rightarrow> int \<times> fat_scan_state" where
  "add_lfn_entry st lfn =
     (let seq = uint (l_seq lfn AND 0x1F);
          is_last = (l_seq lfn AND 0x40 \<noteq> 0)
      in if seq = 0 \<or> FAT32_MAX_LFN_ENTRIES < seq then (-1, reset_lfn st)
         else if \<not> is_last \<and> seq \<noteq> lfn_seq st - 1 then (-1, reset_lfn st)
         else let st = (if is_last then st\<lparr>lfn_count := seq, lfn_seq := seq, lfn_checksum := l_checksum lfn\<rparr>
                        else st\<lparr>lfn_seq := seq\<rparr>)
              in (0, st\<lparr>lfn_buf := (lfn_buf st)(nat (seq - 1) := lfn)\<rparr>))"

definition lfn_parts :: "fat_scan_state \<Rightarrow> fat32_lfn_part list" where
  "lfn_parts st = map (lfn_buf st) [0..<nat (lfn_count st)]"

section \<open>Making a short name\<close>

definition short_entry :: "bytes \<Rightarrow> bytes \<Rightarrow> nat \<Rightarrow> bool" where
  "short_entry name11 buf k \<longleftrightarrow>
     (let de = dent_at buf k in
      hd (d_name de) \<noteq> 0 \<and> hd (d_name de) \<noteq> 0xE5 \<and> d_attr de \<noteq> ATTR_LFN \<and>
      d_attr de AND ATTR_VOLUME_ID = 0 \<and> d_name de = name11)"

fun short_in_sectors :: "'d bio \<Rightarrow> fat32_fs \<Rightarrow> bytes \<Rightarrow> u32 \<Rightarrow> nat list \<Rightarrow> 'd \<Rightarrow> bool option" where
  "short_in_sectors B fs name11 first [] dk = Some False"
| "short_in_sectors B fs name11 first (s # ss) dk =
     do { (r, buf) \<leftarrow> rd1 B fs (first + of_nat s) dk;
          if r = 0 \<and> list_ex (\<lambda>ei. short_entry name11 buf (ei * 32)) [0..<16] then Some True
          else short_in_sectors B fs name11 first ss dk }"

partial_function (option) short_name_exists :: "'d bio \<Rightarrow> fat32_fs \<Rightarrow> u32 \<Rightarrow> bytes \<Rightarrow> 'd \<Rightarrow> bool option" where
  "short_name_exists B fs cl name11 dk =
     (if in_chain cl
      then do { r \<leftarrow> short_in_sectors B fs name11 (first_sector fs cl) [0..<unat (spc fs)] dk;
                if r then Some True
                else do { next \<leftarrow> fat_next_cluster B fs cl dk; short_name_exists B fs next name11 dk } }
      else Some False)"

text \<open>Upper case letters and digits, everything else as \<^verbatim>\<open>_\<close>.\<close>

definition short_char :: "u8 \<Rightarrow> u8" where
  "short_char c =
     (let c = (if 0x61 \<le> c \<and> c \<le> 0x7A then c - 0x20 else c)
      in if (0x41 \<le> c \<and> c \<le> 0x5A) \<or> (0x30 \<le> c \<and> c \<le> 0x39) then c else 0x5F)"

fun last_dot :: "bytes \<Rightarrow> nat \<Rightarrow> nat option" where
  "last_dot name 0 = None"
| "last_dot name (Suc i) = (if name ! i = 0x2E then Some i else last_dot name i)"

definition short_base :: "bytes \<Rightarrow> bytes" where
  "short_base name =
     (let base_len = (case last_dot name (length name) of Some i \<Rightarrow> i | None \<Rightarrow> length name)
      in map short_char (take (min base_len 6) name))"

definition short_ext :: "bytes \<Rightarrow> bytes" where
  "short_ext name =
     (case last_dot name (length name) of
        None \<Rightarrow> [] | Some i \<Rightarrow> map short_char (take 3 (drop (i + 1) name)))"

definition pad :: "nat \<Rightarrow> bytes \<Rightarrow> bytes" where
  "pad n bs = bs @ replicate (n - length bs) 0x20"

definition short_tail :: "nat \<Rightarrow> bytes" where
  "short_tail num =
     (if num < 10 then [0x7E, 0x30 + of_nat num]
      else if num < 100 then [0x30 + of_nat (num div 10), 0x30 + of_nat (num mod 10)]
      else [0x30 + of_nat (num div 10 mod 10), 0x30 + of_nat (num mod 10)])"

definition short_candidate :: "bytes \<Rightarrow> nat \<Rightarrow> bytes" where
  "short_candidate name num = pad 6 (short_base name) @ short_tail num @ pad 3 (short_ext name)"

fun try_short :: "'d bio \<Rightarrow> fat32_fs \<Rightarrow> u32 \<Rightarrow> bytes \<Rightarrow> nat list \<Rightarrow> 'd \<Rightarrow> bytes option" where
  "try_short B fs dir_cluster name [] dk = Some (short_candidate name 1)"
| "try_short B fs dir_cluster name (num # nums) dk =
     do { r \<leftarrow> short_name_exists B fs dir_cluster (short_candidate name num) dk;
          if \<not> r then Some (short_candidate name num) else try_short B fs dir_cluster name nums dk }"

definition make_short_name :: "'d bio \<Rightarrow> fat32_fs \<Rightarrow> u32 \<Rightarrow> bytes \<Rightarrow> 'd \<Rightarrow> bytes option" where
  "make_short_name B fs dir_cluster name dk = try_short B fs dir_cluster name [1..<100000] dk"

section \<open>Long-name parts of a name\<close>

definition lfn_entry :: "bytes \<Rightarrow> nat \<Rightarrow> nat \<Rightarrow> fat32_lfn_part" where
  "lfn_entry name needed i =
     (let buf = ascii_to_utf16 (take 13 (drop (i * 13) name)) 13
      in \<lparr>l_seq = (if i = 0 then of_nat needed OR 0x40 else of_nat (needed - i)),
          l_name1 = take 5 buf, l_attr = ATTR_LFN, l_type = 0, l_checksum = 0,
          l_name2 = take 6 (drop 5 buf), l_reserved = 0, l_name3 = take 2 (drop 11 buf)\<rparr>)"

definition build_lfn_entries :: "bytes \<Rightarrow> fat32_lfn_part list" where
  "build_lfn_entries name =
     (let needed = min ((length name + 12) div 13) 20 in map (lfn_entry name needed) [0..<needed])"

end
