(* ===== verification/Fat32_Dir.thy ===== *)
theory Fat32_Dir
  imports Fat32_Name Vfs
begin

text \<open>
  Directories and files of FAT32, \<^verbatim>\<open>kernel/fs/fat32.c\<close>: listing, lookup, reading, writing, truncating,
  creating, removing.  A loop with a return inside yields a sum, \<open>Inl\<close> the value returned, \<open>Inr\<close> the
  state after the loop.  Output parameters are components of the result.
\<close>

definition bytes_str :: "bytes \<Rightarrow> string" where
  "bytes_str bs = map (\<lambda>b. char_of (unat b)) bs"

definition str_bytes :: "string \<Rightarrow> bytes" where
  "str_bytes cs = map of_char cs"

section \<open>Listing a directory\<close>

definition scan_start :: fat_scan_state where
  "scan_start = \<lparr>lfn_buf = (\<lambda>_. lfn_at (replicate 32 0) 0), lfn_count = 0, lfn_seq = 0, lfn_checksum = 0,
                 visible_count = 0, found = False\<rparr>"

definition use_lfn :: "fat_scan_state \<Rightarrow> fat32_dent \<Rightarrow> bool" where
  "use_lfn st de \<longleftrightarrow> 0 < lfn_count st \<and> lfn_seq st = 1 \<and> fat_checksum (d_name de) = lfn_checksum st"

definition fill_entry :: "fat_scan_state \<Rightarrow> fat32_dent \<Rightarrow> vfs_dentry" where
  "fill_entry st de =
     \<lparr>de_name = bytes_str (if use_lfn st de then collect_lfn (lfn_parts st) VFS_NAME_MAX
                           else parse_short_name (d_name de) VFS_NAME_MAX),
      de_ino = ucast (dent_cluster de),
      de_type = (if d_attr de AND ATTR_DIRECTORY \<noteq> 0 then VFS_DIR else VFS_FILE),
      de_size = ucast (d_size de)\<rparr>"

fun scan_entries :: "bytes \<Rightarrow> u32 \<Rightarrow> nat list \<Rightarrow> vfs_dentry \<Rightarrow> fat_scan_state \<Rightarrow> int \<times> vfs_dentry \<times> fat_scan_state" where
  "scan_entries buf target [] entry st = (1, entry, st)"
| "scan_entries buf target (i # is) entry st =
     (let de = dent_at buf (i * 32); first = hd (d_name de) in
      if first = 0 then (-1, entry, st)
      else if first = 0xE5 then scan_entries buf target is entry (reset_lfn st)
      else if d_attr de = ATTR_LFN then scan_entries buf target is entry (snd (add_lfn_entry st (lfn_at buf (i * 32))))
      else if d_attr de AND ATTR_VOLUME_ID \<noteq> 0 then scan_entries buf target is entry (reset_lfn st)
      else if visible_count st = sint target then (0, fill_entry st de, st\<lparr>found := True\<rparr>)
      else scan_entries buf target is entry (reset_lfn (st\<lparr>visible_count := visible_count st + 1\<rparr>)))"

definition scan_sector ::
  "'d bio \<Rightarrow> fat32_fs \<Rightarrow> u32 \<Rightarrow> u32 \<Rightarrow> vfs_dentry \<Rightarrow> fat_scan_state \<Rightarrow> 'd \<Rightarrow> (int \<times> vfs_dentry \<times> fat_scan_state) option" where
  "scan_sector B fs sector target entry st dk =
     do { (r, buf) \<leftarrow> rd1 B fs sector dk;
          Some (if r \<noteq> 0 then (-1, entry, st) else scan_entries buf target [0..<16] entry st) }"

fun scan_cluster ::
  "'d bio \<Rightarrow> fat32_fs \<Rightarrow> u32 \<Rightarrow> nat list \<Rightarrow> u32 \<Rightarrow> vfs_dentry \<Rightarrow> fat_scan_state \<Rightarrow> 'd \<Rightarrow>
     (int \<times> vfs_dentry + vfs_dentry \<times> fat_scan_state) option" where
  "scan_cluster B fs first [] target entry st dk = Some (Inr (entry, st))"
| "scan_cluster B fs first (s # ss) target entry st dk =
     do { (r, entry, st) \<leftarrow> scan_sector B fs (first + of_nat s) target entry st dk;
          if r = 0 then Some (Inl (0, entry))
          else if r < 0 then Some (Inl (if found st then 0 else -1, entry))
          else scan_cluster B fs first ss target entry st dk }"

partial_function (option) read_dir_loop ::
  "'d bio \<Rightarrow> fat32_fs \<Rightarrow> u32 \<Rightarrow> u32 \<Rightarrow> vfs_dentry \<Rightarrow> fat_scan_state \<Rightarrow> 'd \<Rightarrow> (int \<times> vfs_dentry) option" where
  "read_dir_loop B fs cl index entry st dk =
     (if in_chain cl
      then do { r \<leftarrow> scan_cluster B fs (first_sector fs cl) [0..<unat (spc fs)] index entry st dk;
                (case r of
                   Inl res \<Rightarrow> Some res
                 | Inr (entry, st) \<Rightarrow>
                     do { next \<leftarrow> fat_next_cluster B fs cl dk; read_dir_loop B fs next index entry st dk }) }
      else Some (-1, entry))"

definition fat32_read_dir ::
  "'d bio \<Rightarrow> fat32_fs \<Rightarrow> u32 \<Rightarrow> u32 \<Rightarrow> vfs_dentry \<Rightarrow> 'd \<Rightarrow> (int \<times> vfs_dentry) option" where
  "fat32_read_dir B fs cluster index entry dk = read_dir_loop B fs cluster index entry scan_start dk"

section \<open>Looking up a name\<close>

record lookup_result =
  lr_cluster :: u32
  lr_size :: u32
  lr_dir :: bool
  lr_sector :: u32
  lr_offset :: nat

definition name_matches :: "bytes \<Rightarrow> fat_scan_state \<Rightarrow> fat32_dent \<Rightarrow> bool" where
  "name_matches name st de \<longleftrightarrow>
     (use_lfn st de \<and> lfn_seq st \<le> lfn_count st \<and> strcmp_ci name (collect_lfn (lfn_parts st) VFS_NAME_MAX) = 0) \<or>
     strcmp_ci name (parse_short_name (d_name de) 13) = 0"

fun lookup_entries ::
  "bytes \<Rightarrow> bytes \<Rightarrow> u32 \<Rightarrow> nat list \<Rightarrow> fat_scan_state \<Rightarrow> lookup_result option + fat_scan_state" where
  "lookup_entries name buf sector [] st = Inr st"
| "lookup_entries name buf sector (ei # eis) st =
     (let de = dent_at buf (ei * 32); first = hd (d_name de) in
      if first = 0 then Inl None
      else if first = 0xE5 then lookup_entries name buf sector eis (reset_lfn st)
      else if d_attr de = ATTR_LFN then lookup_entries name buf sector eis (snd (add_lfn_entry st (lfn_at buf (ei * 32))))
      else if d_attr de AND ATTR_VOLUME_ID \<noteq> 0 then lookup_entries name buf sector eis (reset_lfn st)
      else if name_matches name st de
           then Inl (Some \<lparr>lr_cluster = dent_cluster de, lr_size = d_size de,
                           lr_dir = (d_attr de AND ATTR_DIRECTORY \<noteq> 0), lr_sector = sector, lr_offset = ei * 32\<rparr>)
      else lookup_entries name buf sector eis (reset_lfn st))"

fun lookup_cluster ::
  "'d bio \<Rightarrow> fat32_fs \<Rightarrow> bytes \<Rightarrow> u32 \<Rightarrow> nat list \<Rightarrow> fat_scan_state \<Rightarrow> 'd \<Rightarrow>
     (lookup_result option + fat_scan_state) option" where
  "lookup_cluster B fs name first [] st dk = Some (Inr st)"
| "lookup_cluster B fs name first (s # ss) st dk =
     do { (r, buf) \<leftarrow> rd1 B fs (first + of_nat s) dk;
          if r \<noteq> 0 then Some (Inl None)
          else (case lookup_entries name buf (first + of_nat s) [0..<16] st of
                  Inl res \<Rightarrow> Some (Inl res)
                | Inr st \<Rightarrow> lookup_cluster B fs name first ss st dk) }"

partial_function (option) lookup_loop ::
  "'d bio \<Rightarrow> fat32_fs \<Rightarrow> u32 \<Rightarrow> bytes \<Rightarrow> fat_scan_state \<Rightarrow> 'd \<Rightarrow> lookup_result option option" where
  "lookup_loop B fs cl name st dk =
     (if in_chain cl
      then do { r \<leftarrow> lookup_cluster B fs name (first_sector fs cl) [0..<unat (spc fs)] st dk;
                (case r of
                   Inl res \<Rightarrow> Some res
                 | Inr st \<Rightarrow> do { next \<leftarrow> fat_next_cluster B fs cl dk; lookup_loop B fs next name st dk }) }
      else Some None)"

text \<open>\<^verbatim>\<open>fat32_lookup\<close>: the inner option is \<open>None\<close> for the return value -1.\<close>

definition fat32_lookup :: "'d bio \<Rightarrow> fat32_fs \<Rightarrow> u32 \<Rightarrow> bytes \<Rightarrow> 'd \<Rightarrow> lookup_result option option" where
  "fat32_lookup B fs cluster name dk =
     (if name = [] then Some None else lookup_loop B fs cluster name scan_start dk)"

section \<open>Reading a file\<close>

definition cluster_size :: "fat32_fs \<Rightarrow> u32" where
  "cluster_size fs = bps fs * spc fs"

fun skip_clusters :: "'d bio \<Rightarrow> fat32_fs \<Rightarrow> nat \<Rightarrow> u32 \<Rightarrow> 'd \<Rightarrow> u32 option option" where
  "skip_clusters B fs 0 cl dk = Some (Some cl)"
| "skip_clusters B fs (Suc n) cl dk =
     do { cl \<leftarrow> fat_next_cluster B fs cl dk;
          if \<not> in_chain cl then Some None else skip_clusters B fs n cl dk }"

partial_function (option) read_in_cluster ::
  "'d bio \<Rightarrow> fat32_fs \<Rightarrow> u32 \<Rightarrow> u32 \<Rightarrow> u64 \<Rightarrow> bytes \<Rightarrow> 'd \<Rightarrow> (bytes + u64 \<times> bytes) option" where
  "read_in_cluster B fs first start remaining out dk =
     (if start < cluster_size fs \<and> 0 < remaining
      then do { (r, tmp) \<leftarrow> rd1 B fs (first + start div bps fs) dk;
                if r \<noteq> 0 then Some (Inl out)
                else let byte_in = start mod bps fs;
                         chunk = (if remaining < ucast (bps fs - byte_in) then ucast remaining else bps fs - byte_in)
                     in read_in_cluster B fs first (start + chunk) (remaining - ucast chunk)
                          (out @ take (unat chunk) (drop (unat byte_in) tmp)) dk }
      else Some (Inr (remaining, out)))"

partial_function (option) read_clusters ::
  "'d bio \<Rightarrow> fat32_fs \<Rightarrow> u32 \<Rightarrow> u32 \<Rightarrow> u64 \<Rightarrow> bytes \<Rightarrow> 'd \<Rightarrow> bytes option" where
  "read_clusters B fs cl start remaining out dk =
     (if in_chain cl \<and> 0 < remaining
      then do { r \<leftarrow> read_in_cluster B fs (first_sector fs cl) start remaining out dk;
                (case r of
                   Inl out \<Rightarrow> Some out
                 | Inr (remaining, out) \<Rightarrow>
                     do { next \<leftarrow> fat_next_cluster B fs cl dk; read_clusters B fs next 0 remaining out dk }) }
      else Some out)"

definition fat32_read_file ::
  "'d bio \<Rightarrow> fat32_fs \<Rightarrow> u32 \<Rightarrow> u32 \<Rightarrow> u64 \<Rightarrow> u64 \<Rightarrow> 'd \<Rightarrow> (int \<times> bytes) option" where
  "fat32_read_file B fs cluster sz offset count dk =
     (if count = 0 \<or> ucast sz \<le> offset then Some (0, [])
      else let count = (if ucast sz < offset + count then ucast sz - offset else count) in
        do { r \<leftarrow> skip_clusters B fs (unat (ucast (offset div ucast (cluster_size fs)) :: u32)) cluster dk;
             (case r of
                None \<Rightarrow> Some (-1, [])
              | Some cl \<Rightarrow>
                  do { out \<leftarrow> read_clusters B fs cl (ucast (offset mod ucast (cluster_size fs))) count [] dk;
                       Some (to_int (of_nat (length out)), out) }) })"

section \<open>Writing a file\<close>

partial_function (option) count_chain :: "'d bio \<Rightarrow> fat32_fs \<Rightarrow> u32 \<Rightarrow> u32 \<Rightarrow> 'd \<Rightarrow> u32 option" where
  "count_chain B fs cur n dk =
     do { next \<leftarrow> fat_next_cluster B fs cur dk;
          if in_chain next then count_chain B fs next (n + 1) dk else Some n }"

text \<open>
  Allocating until the chain has \<open>needed\<close> clusters; the first component tells whether it succeeded,
  the second is \<^verbatim>\<open>*cluster\<close>.
\<close>

partial_function (option) grow_chain ::
  "'d bio \<Rightarrow> fat32_fs \<Rightarrow> u64 \<Rightarrow> u32 \<Rightarrow> u32 \<Rightarrow> 'd \<Rightarrow> (bool \<times> u32 \<times> 'd) option" where
  "grow_chain B fs needed cur_count cluster dk =
     (if ucast cur_count < needed
      then if cluster = 0 \<or> FAT32_EOC \<le> cluster
           then do { (cluster, dk) \<leftarrow> fat_alloc_cluster B fs dk;
                     if FAT32_EOC \<le> cluster then Some (False, cluster, dk)
                     else grow_chain B fs needed (cur_count + 1) cluster dk }
           else do { (new_cl, dk) \<leftarrow> fat_extend_chain B fs cluster dk;
                     if FAT32_EOC \<le> new_cl then Some (False, cluster, dk)
                     else grow_chain B fs needed (cur_count + 1) cluster dk }
      else Some (True, cluster, dk))"

fun seek_clusters :: "'d bio \<Rightarrow> fat32_fs \<Rightarrow> nat \<Rightarrow> u32 \<Rightarrow> 'd \<Rightarrow> u32 option option" where
  "seek_clusters B fs 0 cl dk = Some (Some cl)"
| "seek_clusters B fs (Suc n) cl dk =
     (if \<not> in_chain cl then Some None
      else do { cl \<leftarrow> fat_next_cluster B fs cl dk; seek_clusters B fs n cl dk })"

partial_function (option) write_in_cluster ::
  "'d bio \<Rightarrow> fat32_fs \<Rightarrow> u32 \<Rightarrow> u32 \<Rightarrow> u64 \<Rightarrow> u64 \<Rightarrow> bytes \<Rightarrow> 'd \<Rightarrow> (u64 \<times> 'd + u64 \<times> u64 \<times> 'd) option" where
  "write_in_cluster B fs first start remaining done buf dk =
     (if start < cluster_size fs \<and> 0 < remaining
      then let sector = first + start div bps fs; byte_in = start mod bps fs in
        if byte_in \<noteq> 0 \<or> remaining < ucast (bps fs)
        then do { (r, tmp) \<leftarrow> rd1 B fs sector dk;
                  if r \<noteq> 0 then Some (Inl (done, dk))
                  else let chunk = (if remaining < ucast (bps fs - byte_in) then ucast remaining else bps fs - byte_in)
                       in do { (r, dk) \<leftarrow> wr1 B fs sector
                                 (patch tmp (unat byte_in) (take (unat chunk) (drop (unat done) buf))) dk;
                               if r \<noteq> 0 then Some (Inl (done, dk))
                               else write_in_cluster B fs first (start + chunk) (remaining - ucast chunk)
                                      (done + ucast chunk) buf dk } }
        else let cnt = (ucast (remaining div ucast (bps fs)) :: u8);
                 cnt = (if 1 < cnt then 1 else cnt);
                 cnt = (if cnt = 0 then 1 else cnt);
                 wsize = ucast cnt * bps fs;
                 wsize = (if remaining < ucast wsize then ucast remaining else wsize)
             in do { (r, dk) \<leftarrow> b_wr B (fs_bdev fs) (ucast sector) cnt (take (512 * unat cnt) (drop (unat done) buf)) dk;
                     if r \<noteq> 0 then Some (Inl (done, dk))
                     else write_in_cluster B fs first (start + wsize) (remaining - ucast wsize)
                            (done + ucast wsize) buf dk }
      else Some (Inr (remaining, done, dk)))"

partial_function (option) write_clusters ::
  "'d bio \<Rightarrow> fat32_fs \<Rightarrow> u32 \<Rightarrow> u32 \<Rightarrow> u64 \<Rightarrow> u64 \<Rightarrow> bytes \<Rightarrow> 'd \<Rightarrow> (u64 \<times> 'd) option" where
  "write_clusters B fs cl start remaining done buf dk =
     (if in_chain cl \<and> 0 < remaining
      then do { r \<leftarrow> write_in_cluster B fs (first_sector fs cl) start remaining done buf dk;
                (case r of
                   Inl res \<Rightarrow> Some res
                 | Inr (remaining, done, dk) \<Rightarrow>
                     do { next \<leftarrow> fat_next_cluster B fs cl dk; write_clusters B fs next 0 remaining done buf dk }) }
      else Some (done, dk))"

text \<open>Extending the chain of a file to hold \<open>end\<close> bytes; the result has the new \<^verbatim>\<open>*cluster\<close> and \<^verbatim>\<open>*size\<close>.\<close>

definition extend_file ::
  "'d bio \<Rightarrow> fat32_fs \<Rightarrow> u32 \<Rightarrow> u32 \<Rightarrow> u64 \<Rightarrow> 'd \<Rightarrow> (bool \<times> u32 \<times> u32 \<times> 'd) option" where
  "extend_file B fs cluster sz end dk =
     (if ucast sz < end
      then do { cur_count \<leftarrow> (if in_chain cluster then count_chain B fs cluster 1 dk else Some 0);
                (ok, cluster, dk) \<leftarrow>
                  grow_chain B fs ((end + ucast (cluster_size fs) - 1) div ucast (cluster_size fs)) cur_count cluster dk;
                Some (ok, cluster, if ok then ucast end else sz, dk) }
      else Some (True, cluster, sz, dk))"

definition fat32_write_file ::
  "'d bio \<Rightarrow> fat32_fs \<Rightarrow> u32 \<Rightarrow> u32 \<Rightarrow> u64 \<Rightarrow> bytes \<Rightarrow> 'd \<Rightarrow> (int \<times> u32 \<times> u32 \<times> 'd) option" where
  "fat32_write_file B fs cluster sz offset buf dk =
     (let count = of_nat (length buf) in
      if count = 0 then Some (0, cluster, sz, dk)
      else do {
        (ok, cluster, sz, dk) \<leftarrow> extend_file B fs cluster sz (offset + count) dk;
        if \<not> ok then Some (-1, cluster, sz, dk)
        else do {
          r \<leftarrow> seek_clusters B fs (unat (ucast (offset div ucast (cluster_size fs)) :: u32)) cluster dk;
          (case r of
             None \<Rightarrow> Some (-1, cluster, sz, dk)
           | Some cl \<Rightarrow>
               do { (done, dk) \<leftarrow> write_clusters B fs cl (ucast (offset mod ucast (cluster_size fs))) count 0 buf dk;
                    Some (to_int done, cluster, sz, dk) }) } })"

fun keep_clusters :: "'d bio \<Rightarrow> fat32_fs \<Rightarrow> nat \<Rightarrow> u32 \<Rightarrow> u32 \<Rightarrow> 'd \<Rightarrow> (u32 \<times> u32) option option" where
  "keep_clusters B fs 0 prev cl dk = Some (Some (prev, cl))"
| "keep_clusters B fs (Suc n) prev cl dk =
     (if \<not> in_chain cl then Some None
      else do { next \<leftarrow> fat_next_cluster B fs cl dk; keep_clusters B fs n cl next dk })"

definition fat32_truncate ::
  "'d bio \<Rightarrow> fat32_fs \<Rightarrow> u32 \<Rightarrow> u32 \<Rightarrow> u64 \<Rightarrow> 'd \<Rightarrow> (int \<times> u32 \<times> u32 \<times> 'd) option" where
  "fat32_truncate B fs cluster sz new_size dk =
     (if ucast sz \<le> new_size then Some (0, cluster, sz, dk)
      else if new_size = 0 then do { dk \<leftarrow> fat_free_chain B fs cluster dk; Some (0, 0, 0, dk) }
      else do {
        let keep = (ucast ((new_size + ucast (cluster_size fs) - 1) div ucast (cluster_size fs)) :: u32);
        r \<leftarrow> keep_clusters B fs (unat keep) 0 cluster dk;
        (case r of
           None \<Rightarrow> Some (-1, cluster, sz, dk)
         | Some (prev, cl) \<Rightarrow>
             do { dk \<leftarrow> fat_free_chain B fs cl dk;
                  (_, dk) \<leftarrow> (if in_chain prev then fat_set_cluster B fs prev FAT32_EOC dk else Some (0, dk));
                  Some (0, cluster, ucast new_size, dk) }) })"

section \<open>Changing a directory\<close>

definition update_entry_size_at :: "'d bio \<Rightarrow> fat32_fs \<Rightarrow> u32 \<Rightarrow> nat \<Rightarrow> u32 \<Rightarrow> 'd \<Rightarrow> (int \<times> 'd) option" where
  "update_entry_size_at B fs sector offset new_size dk =
     do { (r, buf) \<leftarrow> rd1 B fs sector dk;
          if r \<noteq> 0 then Some (-1, dk) else wr1 B fs sector (put32 buf (offset + 28) new_size) dk }"

definition update_entry_cluster_at :: "'d bio \<Rightarrow> fat32_fs \<Rightarrow> u32 \<Rightarrow> nat \<Rightarrow> u32 \<Rightarrow> 'd \<Rightarrow> (int \<times> 'd) option" where
  "update_entry_cluster_at B fs sector offset new_cluster dk =
     do { (r, buf) \<leftarrow> rd1 B fs sector dk;
          if r \<noteq> 0 then Some (-1, dk)
          else wr1 B fs sector (put16 (put16 buf (offset + 26) (ucast new_cluster)) (offset + 20)
                 (ucast (drop_bit 16 new_cluster))) dk }"

text \<open>Storing 32 bytes in slot \<open>slot\<close> of the run that starts at entry \<open>run_start\<close> of sector \<open>base\<close>.\<close>

definition put_slot :: "'d bio \<Rightarrow> fat32_fs \<Rightarrow> nat \<Rightarrow> u32 \<Rightarrow> nat \<Rightarrow> bytes \<Rightarrow> 'd \<Rightarrow> (int \<times> 'd) option" where
  "put_slot B fs run_start base slot e dk =
     (let ws = base + of_nat ((run_start mod 16 + slot) div 16);
          ent_off = (run_start + slot) mod 16
      in do { (r, wbuf) \<leftarrow> rd1 B fs ws dk;
              if r \<noteq> 0 then Some (-1, dk)
              else do { (r, dk) \<leftarrow> wr1 B fs ws (patch wbuf (ent_off * 32) e) dk;
                        Some (if r \<noteq> 0 then -1 else 0, dk) } })"

fun put_slots :: "'d bio \<Rightarrow> fat32_fs \<Rightarrow> nat \<Rightarrow> u32 \<Rightarrow> nat \<Rightarrow> bytes list \<Rightarrow> 'd \<Rightarrow> (int \<times> 'd) option" where
  "put_slots B fs run_start base slot [] dk = Some (0, dk)"
| "put_slots B fs run_start base slot (e # es) dk =
     do { (r, dk) \<leftarrow> put_slot B fs run_start base slot e dk;
          if r \<noteq> 0 then Some (-1, dk) else put_slots B fs run_start base (slot + 1) es dk }"

text \<open>The result has the sector and the offset of the directory entry.\<close>

definition do_write_at_position ::
  "'d bio \<Rightarrow> fat32_fs \<Rightarrow> fat32_lfn_part list \<Rightarrow> fat32_dent \<Rightarrow> u8 \<Rightarrow> nat \<Rightarrow> u32 \<Rightarrow> 'd \<Rightarrow>
     (int \<times> u32 \<times> nat \<times> 'd) option" where
  "do_write_at_position B fs lfns entry checksum run_start base dk =
     do { (r, dk) \<leftarrow> put_slots B fs run_start base 0
            (map (\<lambda>l. lfn_bytes (l\<lparr>l_checksum := checksum\<rparr>)) lfns @ [dent_bytes entry]) dk;
          Some (r, base + of_nat ((run_start mod 16 + length lfns) div 16),
                (run_start + length lfns) mod 16 * 32, dk) }"

text \<open>The search for a run of free entries: slots found so far, first entry and first sector of the run.\<close>

record free_run =
  slots_found :: nat
  run_start :: nat
  run_base_sector :: u32

fun run_entries :: "bytes \<Rightarrow> u32 \<Rightarrow> nat \<Rightarrow> nat list \<Rightarrow> nat \<Rightarrow> free_run \<Rightarrow> free_run + nat \<times> free_run" where
  "run_entries buf sector slots [] abs_entry fr = Inr (abs_entry, fr)"
| "run_entries buf sector slots (ei # eis) abs_entry fr =
     (let first = buf ! (ei * 32) in
      if first = 0 \<or> first = 0xE5
      then let fr = (if slots_found fr = 0 then fr\<lparr>run_start := abs_entry, run_base_sector := sector\<rparr> else fr);
               fr = fr\<lparr>slots_found := slots_found fr + 1\<rparr>
           in if slots \<le> slots_found fr then Inl fr
              else run_entries buf sector slots eis (abs_entry + 1) fr
      else run_entries buf sector slots eis (abs_entry + 1) (fr\<lparr>slots_found := 0\<rparr>))"

fun run_sectors ::
  "'d bio \<Rightarrow> fat32_fs \<Rightarrow> u32 \<Rightarrow> nat \<Rightarrow> nat list \<Rightarrow> nat \<Rightarrow> free_run \<Rightarrow> 'd \<Rightarrow>
     (free_run option + nat \<times> free_run) option" where
  "run_sectors B fs first slots [] abs_entry fr dk = Some (Inr (abs_entry, fr))"
| "run_sectors B fs first slots (s # ss) abs_entry fr dk =
     do { (r, buf) \<leftarrow> rd1 B fs (first + of_nat s) dk;
          if r \<noteq> 0 then Some (Inl None)
          else (case run_entries buf (first + of_nat s) slots [0..<16] abs_entry fr of
                  Inl fr \<Rightarrow> Some (Inl (Some fr))
                | Inr (abs_entry, fr) \<Rightarrow> run_sectors B fs first slots ss abs_entry fr dk) }"

partial_function (option) run_clusters ::
  "'d bio \<Rightarrow> fat32_fs \<Rightarrow> u32 \<Rightarrow> nat \<Rightarrow> nat \<Rightarrow> free_run \<Rightarrow> 'd \<Rightarrow> (free_run option + unit) option" where
  "run_clusters B fs cl slots abs_entry fr dk =
     (if in_chain cl
      then do { r \<leftarrow> run_sectors B fs (first_sector fs cl) slots [0..<unat (spc fs)] abs_entry fr dk;
                (case r of
                   Inl res \<Rightarrow> Some (Inl res)
                 | Inr (abs_entry, fr) \<Rightarrow>
                     do { next \<leftarrow> fat_next_cluster B fs cl dk; run_clusters B fs next slots abs_entry fr dk }) }
      else Some (Inr ()))"

text \<open>\<^verbatim>\<open>for (s = 0; s < spc; s++) block_write(fs->bdev, first_sec + s, 1, zero);\<close> with the status ignored.\<close>

fun zero_sectors :: "'d bio \<Rightarrow> fat32_fs \<Rightarrow> u32 \<Rightarrow> nat list \<Rightarrow> 'd \<Rightarrow> 'd option" where
  "zero_sectors B fs first [] dk = Some dk"
| "zero_sectors B fs first (s # ss) dk =
     do { (_, dk) \<leftarrow> wr1 B fs (first + of_nat s) (replicate 512 0) dk; zero_sectors B fs first ss dk }"

definition dir_write_entries_ext ::
  "'d bio \<Rightarrow> fat32_fs \<Rightarrow> u32 \<Rightarrow> fat32_lfn_part list \<Rightarrow> fat32_dent \<Rightarrow> u8 \<Rightarrow> 'd \<Rightarrow> (int \<times> u32 \<times> nat \<times> 'd) option" where
  "dir_write_entries_ext B fs dir_cluster lfns entry checksum dk =
     do { (new_cl, dk) \<leftarrow> fat_alloc_cluster B fs dk;
          if FAT32_EOC \<le> new_cl then Some (-1, 0, 0, dk)
          else do {
            dk \<leftarrow> (if in_chain dir_cluster
                   then do { cl \<leftarrow> fat_chain_last B fs dir_cluster dk;
                             if in_chain cl then map_option snd (fat_set_cluster B fs cl new_cl dk) else Some dk }
                   else Some dk);
            dk \<leftarrow> zero_sectors B fs (first_sector fs new_cl) [0..<unat (spc fs)] dk;
            do_write_at_position B fs lfns entry checksum 0 (first_sector fs new_cl) dk } }"

definition dir_write_entries ::
  "'d bio \<Rightarrow> fat32_fs \<Rightarrow> u32 \<Rightarrow> fat32_lfn_part list \<Rightarrow> fat32_dent \<Rightarrow> u8 \<Rightarrow> 'd \<Rightarrow> (int \<times> u32 \<times> nat \<times> 'd) option" where
  "dir_write_entries B fs dir_cluster lfns entry checksum dk =
     do { r \<leftarrow> run_clusters B fs dir_cluster (length lfns + 1) 0
                \<lparr>slots_found = 0, run_start = 0, run_base_sector = 0\<rparr> dk;
          (case r of
             Inl None \<Rightarrow> Some (-1, 0, 0, dk)
           | Inl (Some fr) \<Rightarrow>
               do_write_at_position B fs lfns entry checksum (free_run.run_start fr) (run_base_sector fr) dk
           | Inr () \<Rightarrow> dir_write_entries_ext B fs dir_cluster lfns entry checksum dk) }"

section \<open>Creating and removing\<close>

definition new_dent :: "bytes \<Rightarrow> u8 \<Rightarrow> u32 \<Rightarrow> fat32_dent" where
  "new_dent name11 attr cl =
     \<lparr>d_name = name11, d_attr = attr, d_nt_res = 0, d_ctime_tenth = 0, d_ctime = 0, d_cdate = 0, d_adate = 0,
      d_cluster_hi = ucast (drop_bit 16 cl), d_wtime = 0, d_wdate = 0, d_cluster_lo = ucast cl, d_size = 0\<rparr>"

definition fat32_create_file ::
  "'d bio \<Rightarrow> fat32_fs \<Rightarrow> u32 \<Rightarrow> bytes \<Rightarrow> 'd \<Rightarrow> (int \<times> u32 \<times> u32 \<times> nat \<times> 'd) option" where
  "fat32_create_file B fs dir_cluster name dk =
     (if name = [] then Some (-1, 0, 0, 0, dk)
      else do {
        l \<leftarrow> fat32_lookup B fs dir_cluster name dk;
        if l \<noteq> None then Some (-1, 0, 0, 0, dk)
        else do {
          name11 \<leftarrow> make_short_name B fs dir_cluster name dk;
          (r, sec, off, dk) \<leftarrow> dir_write_entries B fs dir_cluster (build_lfn_entries name)
            (new_dent name11 ATTR_ARCHIVE 0) (fat_checksum name11) dk;
          Some (if r \<noteq> 0 then -1 else 0, 0, sec, off, dk) } })"

text \<open>The entries of a directory that are not \<^verbatim>\<open>.\<close> or \<^verbatim>\<open>..\<close>, counted with \<^verbatim>\<open>fat32_read_dir\<close>.\<close>

partial_function (option) count_dir :: "'d bio \<Rightarrow> fat32_fs \<Rightarrow> u32 \<Rightarrow> u32 \<Rightarrow> nat \<Rightarrow> vfs_dentry \<Rightarrow> 'd \<Rightarrow> nat option" where
  "count_dir B fs cl i n de dk =
     do { (r, de) \<leftarrow> fat32_read_dir B fs cl i de dk;
          if r \<noteq> 0 then Some n
          else count_dir B fs cl (i + 1) (if de_name de = ''.'' \<or> de_name de = ''..'' then n else n + 1) de dk }"

text \<open>
  The loop of \<^verbatim>\<open>fat32_unlink_file\<close> over the entries of one sector: it marks every long-name entry in
  front of the target as deleted, then the target; \<open>Inl\<close> is the return.
\<close>

fun delete_entries ::
  "'d bio \<Rightarrow> fat32_fs \<Rightarrow> u32 \<Rightarrow> nat \<Rightarrow> u32 \<Rightarrow> nat list \<Rightarrow> bytes \<Rightarrow> 'd \<Rightarrow> ('d + 'd) option" where
  "delete_entries B fs target_sector target_offset sec [] buf dk = Some (Inr dk)"
| "delete_entries B fs target_sector target_offset sec (ei # eis) buf dk =
     (if sec = target_sector \<and> ei * 32 = target_offset
      then do { (_, dk) \<leftarrow> wr1 B fs sec (buf[ei * 32 := 0xE5]) dk; Some (Inl dk) }
      else if sec < target_sector \<or> (sec = target_sector \<and> ei * 32 < target_offset)
      then if buf ! (ei * 32) = 0 then Some (Inr dk)
           else if buf ! (ei * 32) = 0xE5 then delete_entries B fs target_sector target_offset sec eis buf dk
           else if buf ! (ei * 32 + 11) = ATTR_LFN
           then do { let buf = buf[ei * 32 := 0xE5];
                     (_, dk) \<leftarrow> wr1 B fs sec buf dk;
                     delete_entries B fs target_sector target_offset sec eis buf dk }
           else delete_entries B fs target_sector target_offset sec eis buf dk
      else delete_entries B fs target_sector target_offset sec eis buf dk)"

fun delete_sectors ::
  "'d bio \<Rightarrow> fat32_fs \<Rightarrow> u32 \<Rightarrow> nat \<Rightarrow> u32 \<Rightarrow> nat list \<Rightarrow> 'd \<Rightarrow> ('d + 'd) option" where
  "delete_sectors B fs ts to first [] dk = Some (Inr dk)"
| "delete_sectors B fs ts to first (s # ss) dk =
     do { (r, buf) \<leftarrow> rd1 B fs (first + of_nat s) dk;
          if r \<noteq> 0 then delete_sectors B fs ts to first ss dk
          else do { r \<leftarrow> delete_entries B fs ts to (first + of_nat s) [0..<16] buf dk;
                    (case r of Inl dk \<Rightarrow> Some (Inl dk) | Inr dk \<Rightarrow> delete_sectors B fs ts to first ss dk) } }"

partial_function (option) delete_loop ::
  "'d bio \<Rightarrow> fat32_fs \<Rightarrow> u32 \<Rightarrow> nat \<Rightarrow> u32 \<Rightarrow> 'd \<Rightarrow> (int \<times> 'd) option" where
  "delete_loop B fs ts to cl dk =
     (if in_chain cl
      then do { r \<leftarrow> delete_sectors B fs ts to (first_sector fs cl) [0..<unat (spc fs)] dk;
                (case r of
                   Inl dk \<Rightarrow> Some (0, dk)
                 | Inr dk \<Rightarrow> do { next \<leftarrow> fat_next_cluster B fs cl dk; delete_loop B fs ts to next dk }) }
      else Some (-1, dk))"

definition fat32_unlink_file ::
  "'d bio \<Rightarrow> fat32_fs \<Rightarrow> u32 \<Rightarrow> bytes \<Rightarrow> vfs_dentry \<Rightarrow> 'd \<Rightarrow> (int \<times> 'd) option" where
  "fat32_unlink_file B fs dir_cluster name de dk =
     do { l \<leftarrow> fat32_lookup B fs dir_cluster name dk;
          (case l of
             None \<Rightarrow> Some (-1, dk)
           | Some f \<Rightarrow>
               do { n \<leftarrow> (if lr_dir f then count_dir B fs (lr_cluster f) 0 0 de dk else Some 0);
                    if 0 < n then Some (-1, dk)
                    else do { dk \<leftarrow> (if in_chain (lr_cluster f) then fat_free_chain B fs (lr_cluster f) dk else Some dk);
                              delete_loop B fs (lr_sector f) (lr_offset f) dir_cluster dk } }) }"

text \<open>
  Storing the \<^verbatim>\<open>.\<close> and \<^verbatim>\<open>..\<close> entries of a new directory.  The status of the read is ignored, \<open>junk\<close> is what
  the local buffer holds when it fails.
\<close>

definition put_dot :: "'d bio \<Rightarrow> fat32_fs \<Rightarrow> u32 \<Rightarrow> nat \<Rightarrow> bytes \<Rightarrow> u32 \<Rightarrow> bytes \<Rightarrow> 'd \<Rightarrow> 'd option" where
  "put_dot B fs sector k name11 cl junk dk =
     do { (r, buf) \<leftarrow> rd1 B fs sector dk;
          let buf = (if r \<noteq> 0 then junk else buf);
          let buf = (patch buf k name11)[k + 11 := ATTR_DIRECTORY];
          let buf = put16 (put16 buf (k + 26) (ucast cl)) (k + 20) (ucast (drop_bit 16 cl));
          (_, dk) \<leftarrow> wr1 B fs sector (put32 buf (k + 28) 0) dk;
          Some dk }"

definition fat32_mkdir ::
  "'d bio \<Rightarrow> fat32_fs \<Rightarrow> u32 \<Rightarrow> bytes \<Rightarrow> bytes \<Rightarrow> 'd \<Rightarrow> (int \<times> u32 \<times> u32 \<times> nat \<times> 'd) option" where
  "fat32_mkdir B fs dir_cluster name junk dk =
     (if name = [] then Some (-1, 0, 0, 0, dk)
      else do {
        l \<leftarrow> fat32_lookup B fs dir_cluster name dk;
        if l \<noteq> None then Some (-1, 0, 0, 0, dk)
        else do {
          (cl, dk) \<leftarrow> fat_alloc_cluster B fs dk;
          if FAT32_EOC \<le> cl then Some (-1, 0, 0, 0, dk)
          else do {
            dk \<leftarrow> zero_sectors B fs (first_sector fs cl) [0..<unat (spc fs)] dk;
            dk \<leftarrow> put_dot B fs (first_sector fs cl) 0 (0x2E # replicate 10 0x20) cl junk dk;
            dk \<leftarrow> put_dot B fs (first_sector fs cl) 32 (0x2E # 0x2E # replicate 9 0x20) dir_cluster junk dk;
            name11 \<leftarrow> make_short_name B fs dir_cluster name dk;
            (r, sec, off, dk) \<leftarrow> dir_write_entries B fs dir_cluster (build_lfn_entries name)
              (new_dent name11 ATTR_DIRECTORY cl) (fat_checksum name11) dk;
            if r \<noteq> 0 then do { dk \<leftarrow> fat_free_chain B fs cl dk; Some (-1, 0, 0, 0, dk) }
            else Some (0, cl, sec, off, dk) } } })"

end
