(* ===== verification/Fat32_Vfs.thy ===== *)
theory Fat32_Vfs
  imports Fat32_Dir
begin

text \<open>
  The operations FAT32 registers with the VFS, \<^verbatim>\<open>kernel/fs/fat32.c\<close> from \<^verbatim>\<open>struct fat32_inode_private\<close> on.
  Two stores from addresses hold the \<^verbatim>\<open>struct fat32_fs\<close> and \<^verbatim>\<open>struct fat32_inode_private\<close> objects on the
  kernel heap; a superblock on the heap is \<open>SbAddr\<close> of its address.  The block layer under the file
  system is the one of the VFS state.
\<close>

section \<open>State\<close>

record fat32_inode_private =
  fp_cluster :: u32
  fp_size :: u32
  fp_is_dir :: bool
  fp_parent_cluster :: u32
  fp_dir_sector :: u32
  fp_dir_offset :: nat

record fat_store =
  ft_fs :: "u64 \<Rightarrow> fat32_fs"
  ft_priv :: "u64 \<Rightarrow> fat32_inode_private"

type_synonym 'd fvfs = "('d, fat_store) vfs"
type_synonym 'd fenv = "('d, fat_store) env"

definition set_priv :: "u64 \<Rightarrow> (fat32_inode_private \<Rightarrow> fat32_inode_private) \<Rightarrow> 'd fvfs \<Rightarrow> 'd fvfs" where
  "set_priv a g s = s\<lparr>fsx := (fsx s)\<lparr>ft_priv := (ft_priv (fsx s))(a := g (ft_priv (fsx s) a))\<rparr>\<rparr>"

definition addr_of :: "privptr \<Rightarrow> u64" where
  "addr_of p = (case p of PrivAddr a \<Rightarrow> a | _ \<Rightarrow> 0)"

definition fat32_sb_to_fs :: "sbptr \<Rightarrow> 'd fvfs \<Rightarrow> u64" where
  "fat32_sb_to_fs sb s = addr_of (sb_private (superblocks s sb))"

text \<open>The private data and the file system of an inode, \<open>None\<close> when one of the pointers is NULL.\<close>

definition fat_parts :: "u64 \<Rightarrow> 'd fvfs \<Rightarrow> (u64 \<times> fat32_inode_private \<times> fat32_fs) option" where
  "fat_parts p s =
     (let a = addr_of (vi_private (inodes s p)); f = fat32_sb_to_fs (vi_sb (inodes s p)) s
      in if a = 0 \<or> f = 0 then None else Some (a, ft_priv (fsx s) a, ft_fs (fsx s) f))"

abbreviation fat_io :: "'d fenv \<Rightarrow> 'd fvfs \<Rightarrow> 'd bio" where
  "fat_io E s \<equiv> block_io (e_drv E) (blk s)"

text \<open>\<^verbatim>\<open>sizeof(struct fat32_inode_private)\<close>, \<^verbatim>\<open>sizeof(struct fat32_fs)\<close> and \<^verbatim>\<open>sizeof(struct vfs_superblock)\<close>\<close>

definition PRIV_SIZE :: u64 where "PRIV_SIZE = 24"
definition FS_SIZE :: u64 where "FS_SIZE = 120"
definition SB_SIZE :: u64 where "SB_SIZE = 32"

section \<open>Operations\<close>

definition fat32_vfs_readdir ::
  "'d fenv \<Rightarrow> u64 \<Rightarrow> u32 \<Rightarrow> vfs_dentry \<Rightarrow> 'd fvfs \<Rightarrow> (int \<times> vfs_dentry \<times> 'd fvfs) option" where
  "fat32_vfs_readdir E dir index entry s =
     (case fat_parts dir s of
        None \<Rightarrow> Some (-1, entry, s)
      | Some (a, pr, fs) \<Rightarrow>
          if \<not> fp_is_dir pr then Some (-1, entry, s)
          else do { (r, entry) \<leftarrow> fat32_read_dir (fat_io E s) fs (fp_cluster pr) index entry (disk s);
                    Some (r, entry, s) })"

definition fat32_alloc_inode :: "'d fenv \<Rightarrow> 'd fvfs \<Rightarrow> (u64 \<times> 'd fvfs) option" where
  "fat32_alloc_inode E s = k_malloc E INODE_SIZE s"

definition fat32_destroy_inode :: "'d fenv \<Rightarrow> u64 \<Rightarrow> 'd fvfs \<Rightarrow> 'd fvfs option" where
  "fat32_destroy_inode E p s =
     (if p = 0 then Some s
      else do { s \<leftarrow> (if vi_private (inodes s p) \<noteq> PrivNull then k_free E (addr_of (vi_private (inodes s p))) s else Some s);
                k_free E p s })"

definition fat32_get_root :: "sbptr \<Rightarrow> 'd fvfs \<Rightarrow> u64" where
  "fat32_get_root sb s = sb_root (superblocks s sb)"

text \<open>
  A new inode below the directory \<open>dir\<close>.  \<^verbatim>\<open>dir->sb->sb_ops\<close> of a FAT32 directory is \<^verbatim>\<open>fat32_sb_ops\<close>.  The
  result is 0 when the heap is exhausted.
\<close>

definition fat_child ::
  "'d fenv \<Rightarrow> u64 \<Rightarrow> fat32_inode_private \<Rightarrow> lookup_result \<Rightarrow> 'd fvfs \<Rightarrow> (u64 \<times> 'd fvfs) option" where
  "fat_child E dir pr l s =
     do { (p, s) \<leftarrow> fat32_alloc_inode E s;
          if p = 0 then Some (0, s)
          else do {
            (c, s) \<leftarrow> k_malloc E PRIV_SIZE s;
            if c = 0 then do { s \<leftarrow> fat32_destroy_inode E p s; Some (0, s) }
            else do {
              let s = set_priv c (\<lambda>_. \<lparr>fp_cluster = lr_cluster l, fp_size = lr_size l, fp_is_dir = lr_dir l,
                                      fp_parent_cluster = fp_cluster pr, fp_dir_sector = lr_sector l,
                                      fp_dir_offset = lr_offset l\<rparr>) s;
              let d = inodes s dir;
              Some (p, set_inode p (\<lambda>_. \<lparr>vi_ino = ucast (lr_cluster l), vi_type = (if lr_dir l then VFS_DIR else VFS_FILE),
                                       vi_size = ucast (lr_size l), vi_sb = vi_sb d, vi_ops = vi_ops d,
                                       vi_private = PrivAddr c, vi_refcount = 1\<rparr>) s) } } }"

definition fat32_vfs_lookup :: "'d fenv \<Rightarrow> u64 \<Rightarrow> string \<Rightarrow> 'd fvfs \<Rightarrow> (int \<times> u64 \<times> 'd fvfs) option" where
  "fat32_vfs_lookup E dir name s =
     (case fat_parts dir s of
        None \<Rightarrow> Some (-1, 0, s)
      | Some (a, pr, fs) \<Rightarrow>
          if \<not> fp_is_dir pr then Some (-1, 0, s)
          else do { l \<leftarrow> fat32_lookup (fat_io E s) fs (fp_cluster pr) (str_bytes name) (disk s);
                    (case l of
                       None \<Rightarrow> Some (-1, 0, s)
                     | Some l \<Rightarrow> do { (p, s) \<leftarrow> fat_child E dir pr l s; Some (if p = 0 then -1 else 0, p, s) }) })"

definition fat32_vfs_read :: "'d fenv \<Rightarrow> u64 \<Rightarrow> u64 \<Rightarrow> u64 \<Rightarrow> 'd fvfs \<Rightarrow> (int \<times> bytes \<times> 'd fvfs) option" where
  "fat32_vfs_read E p offset sz s =
     (case fat_parts p s of
        None \<Rightarrow> Some (-1, [], s)
      | Some (a, pr, fs) \<Rightarrow>
          if fp_is_dir pr then Some (-1, [], s)
          else do { (r, bs) \<leftarrow> fat32_read_file (fat_io E s) fs (fp_cluster pr) (fp_size pr) offset sz (disk s);
                    Some (r, bs, s) })"

text \<open>Updating the directory entry after the cluster or the size of a file changed.\<close>

definition sync_entry :: "'d fenv \<Rightarrow> fat32_fs \<Rightarrow> fat32_inode_private \<Rightarrow> bool \<Rightarrow> 'd fvfs \<Rightarrow> 'd fvfs option" where
  "sync_entry E fs pr new_cluster s =
     (if fp_dir_sector pr = 0 then Some s
      else do { (_, dk) \<leftarrow> (if new_cluster
                  then update_entry_cluster_at (fat_io E s) fs (fp_dir_sector pr) (fp_dir_offset pr) (fp_cluster pr) (disk s)
                  else Some (0, disk s));
                (_, dk) \<leftarrow> update_entry_size_at (fat_io E s) fs (fp_dir_sector pr) (fp_dir_offset pr) (fp_size pr) dk;
                Some (s\<lparr>disk := dk\<rparr>) })"

definition fat32_vfs_write :: "'d fenv \<Rightarrow> u64 \<Rightarrow> u64 \<Rightarrow> bytes \<Rightarrow> 'd fvfs \<Rightarrow> (int \<times> 'd fvfs) option" where
  "fat32_vfs_write E p offset buf s =
     (case fat_parts p s of
        None \<Rightarrow> Some (-1, s)
      | Some (a, pr, fs) \<Rightarrow>
          if fp_is_dir pr then Some (-1, s)
          else do {
            (r, cl, sz, dk) \<leftarrow> fat32_write_file (fat_io E s) fs (fp_cluster pr) (fp_size pr) offset buf (disk s);
            let pr' = pr\<lparr>fp_cluster := cl, fp_size := sz\<rparr>;
            let s = set_priv a (\<lambda>_. pr') (s\<lparr>disk := dk\<rparr>);
            if r < 0 then Some (r, s)
            else do {
              let s = set_inode p (vi_size_update (\<lambda>_. ucast sz)) s;
              let new_cluster = (ucast cl \<noteq> vi_ino (inodes s p));
              if sz \<noteq> fp_size pr \<or> new_cluster
              then do { let s = (if new_cluster then set_inode p (vi_ino_update (\<lambda>_. ucast cl)) s else s);
                        s \<leftarrow> sync_entry E fs pr' new_cluster s;
                        Some (r, s) }
              else Some (r, s) } })"

definition fat32_vfs_truncate :: "'d fenv \<Rightarrow> u64 \<Rightarrow> u64 \<Rightarrow> 'd fvfs \<Rightarrow> (int \<times> 'd fvfs) option" where
  "fat32_vfs_truncate E p sz s =
     (case fat_parts p s of
        None \<Rightarrow> Some (-1, s)
      | Some (a, pr, fs) \<Rightarrow>
          do { (r, cl, n, dk) \<leftarrow> fat32_truncate (fat_io E s) fs (fp_cluster pr) (fp_size pr) sz (disk s);
               let pr' = pr\<lparr>fp_cluster := cl, fp_size := n\<rparr>;
               let s = set_priv a (\<lambda>_. pr') (s\<lparr>disk := dk\<rparr>);
               if r \<noteq> 0 then Some (-1, s)
               else do { let s = set_inode p (\<lambda>i. i\<lparr>vi_size := ucast n, vi_ino := ucast cl\<rparr>) s;
                         s \<leftarrow> sync_entry E fs pr' False s;
                         Some (0, s) } })"

text \<open>\<^verbatim>\<open>fat32_vfs_create\<close>; \<open>want_child\<close> tells whether the caller passed a place for the child (\<^verbatim>\<open>vfs_create\<close> does not).\<close>

definition fat32_vfs_create :: "'d fenv \<Rightarrow> u64 \<Rightarrow> string \<Rightarrow> bool \<Rightarrow> 'd fvfs \<Rightarrow> (int \<times> u64 \<times> 'd fvfs) option" where
  "fat32_vfs_create E dir name want_child s =
     (case fat_parts dir s of
        None \<Rightarrow> Some (-1, 0, s)
      | Some (a, pr, fs) \<Rightarrow>
          if \<not> fp_is_dir pr then Some (-1, 0, s)
          else do {
            (r, cl, sec, off, dk) \<leftarrow> fat32_create_file (fat_io E s) fs (fp_cluster pr) (str_bytes name) (disk s);
            let s = s\<lparr>disk := dk\<rparr>;
            if r \<noteq> 0 then Some (-1, 0, s)
            else if \<not> want_child then Some (0, 0, s)
            else do { (p, s) \<leftarrow> fat_child E dir pr \<lparr>lr_cluster = cl, lr_size = 0, lr_dir = False, lr_sector = sec,
                                                 lr_offset = off\<rparr> s;
                      Some (0, p, s) } })"

definition fat32_vfs_unlink :: "'d fenv \<Rightarrow> u64 \<Rightarrow> string \<Rightarrow> vfs_dentry \<Rightarrow> 'd fvfs \<Rightarrow> (int \<times> 'd fvfs) option" where
  "fat32_vfs_unlink E dir name de s =
     (case fat_parts dir s of
        None \<Rightarrow> Some (-1, s)
      | Some (a, pr, fs) \<Rightarrow>
          if \<not> fp_is_dir pr then Some (-1, s)
          else do { (r, dk) \<leftarrow> fat32_unlink_file (fat_io E s) fs (fp_cluster pr) (str_bytes name) de (disk s);
                    Some (r, s\<lparr>disk := dk\<rparr>) })"

definition fat32_vfs_mkdir :: "'d fenv \<Rightarrow> u64 \<Rightarrow> string \<Rightarrow> bytes \<Rightarrow> 'd fvfs \<Rightarrow> (int \<times> 'd fvfs) option" where
  "fat32_vfs_mkdir E dir name junk s =
     (case fat_parts dir s of
        None \<Rightarrow> Some (-1, s)
      | Some (a, pr, fs) \<Rightarrow>
          if \<not> fp_is_dir pr then Some (-1, s)
          else do { (r, _, _, _, dk) \<leftarrow> fat32_mkdir (fat_io E s) fs (fp_cluster pr) (str_bytes name) junk (disk s);
                    Some (r, s\<lparr>disk := dk\<rparr>) })"

text \<open>The table \<^verbatim>\<open>fat32_inode_ops\<close>; \<open>de\<close> and \<open>junk\<close> are the uninitialised locals of the operations.\<close>

definition fat32_table :: "vfs_dentry \<Rightarrow> bytes \<Rightarrow> 'd fenv \<Rightarrow> 'd fvfs fsops" where
  "fat32_table de junk E =
     \<lparr>op_read = Some (fat32_vfs_read E), op_write = Some (fat32_vfs_write E),
      op_truncate = Some (fat32_vfs_truncate E),
      op_readdir = Some (\<lambda>dir i s. fat32_vfs_readdir E dir i de s),
      op_lookup = Some (fat32_vfs_lookup E),
      op_create = Some (\<lambda>dir name s. map_option (\<lambda>(r, _, s). (r, s)) (fat32_vfs_create E dir name False s)),
      op_unlink = Some (\<lambda>dir name s. fat32_vfs_unlink E dir name de s),
      op_mkdir = Some (\<lambda>dir name s. fat32_vfs_mkdir E dir name junk s)\<rparr>"

section \<open>Mounting\<close>

definition set_fs :: "u64 \<Rightarrow> fat32_fs \<Rightarrow> 'd fvfs \<Rightarrow> 'd fvfs" where
  "set_fs f fs s = s\<lparr>fsx := (fsx s)\<lparr>ft_fs := (ft_fs (fsx s))(f := fs)\<rparr>\<rparr>"

definition vfs_mount_fat32 :: "'d fenv \<Rightarrow> string \<Rightarrow> devptr \<Rightarrow> 'd fvfs \<Rightarrow> (int \<times> 'd fvfs) option" where
  "vfs_mount_fat32 E path bdev s =
     (if bdev = DNull then Some (-1, s)
      else do {
        (f, s) \<leftarrow> k_malloc E FS_SIZE s;
        if f = 0 then Some (-1, s)
        else do {
          (r, fs) \<leftarrow> fat32_mount (fat_io E s) bdev (ft_fs (fsx s) f) (disk s);
          let s = set_fs f fs s;
          if r \<noteq> 0 then do { s \<leftarrow> k_free E f s; Some (-1, s) }
          else do {
            _ \<leftarrow> fat32_read_fsinfo (fat_io E s) fs (disk s);
            (a, s) \<leftarrow> k_malloc E PRIV_SIZE s;
            if a = 0 then do { s \<leftarrow> k_free E f s; Some (-1, s) }
            else do {
              let rc = root_cluster (fs_bpb fs);
              let s = set_priv a (\<lambda>pr. pr\<lparr>fp_cluster := rc, fp_size := 0, fp_is_dir := True, fp_parent_cluster := rc\<rparr>) s;
              (p, s) \<leftarrow> fat32_alloc_inode E s;
              if p = 0 then do { s \<leftarrow> k_free E a s; s \<leftarrow> k_free E f s; Some (-1, s) }
              else do {
                let s = set_inode p (\<lambda>i. i\<lparr>vi_ino := ucast rc, vi_type := VFS_DIR, vi_size := 0,
                          vi_ops := Some fat32_inode_ops, vi_private := PrivAddr a, vi_refcount := 1\<rparr>) s;
                (sb, s) \<leftarrow> k_malloc E SB_SIZE s;
                if sb = 0 then do { s \<leftarrow> k_free E a s; s \<leftarrow> k_free E p s; s \<leftarrow> k_free E f s; Some (-1, s) }
                else do {
                  let s = set_inode p (vi_sb_update (\<lambda>_. SbAddr sb)) s;
                  let s = s\<lparr>superblocks := (superblocks s)(SbAddr sb :=
                            \<lparr>sb_mounted = True, sb_sb_ops = Some fat32_sb_ops, sb_root = p, sb_private = PrivAddr f\<rparr>)\<rparr>;
                  Some (vfs_mount path (SbAddr sb) s) } } } } } })"

end
