(* ===== verification/Fat32_Table.thy ===== *)
theory Fat32_Table
  imports Fat32
begin

text \<open>
  What the file allocation table operations of \<^verbatim>\<open>fat32.c\<close> do to the table as a function from cluster
  numbers to entries.  The locale \<open>fat_disk\<close> states what they rely on of the block layer: a sector
  read returns the stored sector, a sector write changes that sector only.
\<close>

section \<open>The contract of the block layer\<close>

locale fat_disk =
  fixes B :: "'d bio" and fs :: fat32_fs and sect :: "'d \<Rightarrow> nat \<Rightarrow> bytes" and nsec :: nat
  assumes rd: "unat sec < nsec \<Longrightarrow> rd1 B fs sec dk = Some (0, sect dk (unat sec))"
    and len [simp]: "length (sect dk i) = 512"
    and wr: "unat sec < nsec \<Longrightarrow> length buf = 512 \<Longrightarrow>
          \<exists>dk'. wr1 B fs sec buf dk = Some (0, dk') \<and> sect dk' = (sect dk)(unat sec := buf)"

text \<open>The layout \<^verbatim>\<open>fat32_mount\<close> computes, when no sum wraps and the table is large enough for the volume.\<close>

definition layout_ok :: "fat32_fs \<Rightarrow> nat \<Rightarrow> bool" where
  "layout_ok fs nsec \<longleftrightarrow>
     bytes_per_sector (fs_bpb fs) = 512 \<and> 0 < sectors_per_cluster (fs_bpb fs) \<and> sectors_per_cluster (fs_bpb fs) \<le> 128 \<and>
     unat (fat_start fs) + unat (sectors_per_fat fs) \<le> unat (data_start fs) \<and>
     unat (data_start fs) + unat (total_clusters fs) * unat (sectors_per_cluster (fs_bpb fs)) \<le> nsec \<and>
     nsec < 2 ^ 32 \<and> unat (total_clusters fs) + 2 \<le> 128 * unat (sectors_per_fat fs) \<and>
     unat (total_clusters fs) + 2 \<le> 0x0FFFFFF7"

text \<open>Entry \<open>n\<close> of the table.\<close>

definition fat_of :: "fat32_fs \<Rightarrow> (nat \<Rightarrow> bytes) \<Rightarrow> nat \<Rightarrow> u32" where
  "fat_of fs sec n = le32 (sec (unat (fat_start fs) + n div 128)) (4 * (n mod 128)) AND FAT_MASK"

definition valid_cluster :: "fat32_fs \<Rightarrow> u32 \<Rightarrow> bool" where
  "valid_cluster fs c \<longleftrightarrow> 2 \<le> c \<and> unat c < unat (total_clusters fs) + 2"

lemma bps_512: "layout_ok fs n \<Longrightarrow> bps fs = 512"
  by (simp add: layout_ok_def)

lemma unat_spc: "unat (spc fs) = unat (sectors_per_cluster (fs_bpb fs))"
  by (rule unat_ucast_8_32)

lemma valid_in_chain:
  assumes "layout_ok fs n" and "valid_cluster fs c"
  shows "in_chain c"
  using assms by (auto simp: valid_cluster_def layout_ok_def in_chain_def FAT32_EOC_def word_less_nat_alt)

lemma fat_position:
  assumes "layout_ok fs n" and "unat c < unat (total_clusters fs) + 2"
  shows "unat (fat_sector fs c) = unat (fat_start fs) + unat c div 128" and "fat_byte_off fs c = 4 * (unat c mod 128)"
    and "unat (fat_sector fs c) < n" and "unat (fat_sector fs c) < unat (fat_start fs) + unat (sectors_per_fat fs)"
proof -
  have c: "unat c < 0x0FFFFFF7" and s: "unat (fat_start fs) + unat (sectors_per_fat fs) \<le> n" "n < 2 ^ 32"
    and d: "unat c < 128 * unat (sectors_per_fat fs)"
    using assms by (auto simp: layout_ok_def)
  have u4: "unat (c * 4) = unat c * 4" using c by (simp add: unat_word_ariths)
  have dv: "unat c div 128 < unat (sectors_per_fat fs)" using d by (simp add: less_mult_imp_div_less mult.commute)
  have "unat (c * 4 div 512) = unat c div 128" by (simp add: unat_div u4)
  moreover have "unat (c * 4 mod 512) = 4 * (unat c mod 128)"
    using mult_mod_right [of 4 "unat c" 128] by (simp add: unat_mod u4 mult.commute)
  ultimately show a: "unat (fat_sector fs c) = unat (fat_start fs) + unat c div 128"
    and "fat_byte_off fs c = 4 * (unat c mod 128)"
    using dv s by (simp_all add: fat_sector_def fat_byte_off_def bps_512 [OF assms(1)] unat_word_ariths)
  show "unat (fat_sector fs c) < n" "unat (fat_sector fs c) < unat (fat_start fs) + unat (sectors_per_fat fs)"
    using a dv s by simp_all
qed

text \<open>Storing one entry of the table changes that entry only.\<close>

lemma fat_of_put:
  assumes "\<And>i. length (sec i) = 512"
  shows "fat_of fs (sec(unat (fat_start fs) + n div 128 := put32 (sec (unat (fat_start fs) + n div 128)) (4 * (n mod 128)) v)) =
         (fat_of fs sec)(n := v AND FAT_MASK)"
proof
  fix k
  have off: "4 * (n mod 128) + 3 < 512" using mod_less_divisor [of 128 n] by linarith
  show "fat_of fs (sec(unat (fat_start fs) + n div 128 := put32 (sec (unat (fat_start fs) + n div 128)) (4 * (n mod 128)) v)) k =
      ((fat_of fs sec)(n := v AND FAT_MASK)) k"
  proof (cases "k div 128 = n div 128 \<and> k \<noteq> n")
    case True
    then have "k mod 128 \<noteq> n mod 128" by (metis div_mult_mod_eq)
    then have "4 * (k mod 128) + 4 \<le> 4 * (n mod 128) \<or> 4 * (n mod 128) + 4 \<le> 4 * (k mod 128)" by linarith
    then show ?thesis using True by (simp add: fat_of_def le32_put32_other)
  next
    case False
    then show ?thesis using le32_put32 [of "4 * (n mod 128)" "sec (unat (fat_start fs) + n div 128)" v] off assms
      by (auto simp: fat_of_def)
  qed
qed

section \<open>Single entries\<close>

text \<open>The disk outside the table is the same.\<close>

definition same_data :: "fat32_fs \<Rightarrow> (nat \<Rightarrow> bytes) \<Rightarrow> (nat \<Rightarrow> bytes) \<Rightarrow> bool" where
  "same_data fs sec sec' \<longleftrightarrow>
     (\<forall>i. i < unat (fat_start fs) \<or> unat (fat_start fs) + unat (sectors_per_fat fs) \<le> i \<longrightarrow> sec' i = sec i)"

lemma same_data_refl [simp]: "same_data fs sec sec"
  by (simp add: same_data_def)

lemma same_data_trans: "same_data fs a b \<Longrightarrow> same_data fs b c \<Longrightarrow> same_data fs a c"
  by (simp add: same_data_def)

context fat_disk
begin

abbreviation fat :: "'d \<Rightarrow> nat \<Rightarrow> u32" where
  "fat dk \<equiv> fat_of fs (sect dk)"

lemma fat_next_value:
  assumes "layout_ok fs nsec" and "unat c < unat (total_clusters fs) + 2"
  shows "fat_next_cluster B fs c dk = Some (fat dk (unat c))"
  using rd [OF fat_position(3) [OF assms]] fat_position(1,2) [OF assms]
  by (simp add: fat_next_cluster_def fat_of_def)

lemma fat_set_value:
  assumes "layout_ok fs nsec" and "unat c < unat (total_clusters fs) + 2"
  shows "\<exists>dk'. fat_set_cluster B fs c v dk = Some (0, dk') \<and> fat dk' = (fat dk)(unat c := v AND FAT_MASK) \<and>
               same_data fs (sect dk) (sect dk')"
proof -
  note pos = fat_position [OF assms]
  define i where "i = unat (fat_sector fs c)"
  define w where "w = (le32 (sect dk i) (fat_byte_off fs c) AND NOT FAT_MASK) OR (v AND FAT_MASK)"
  obtain dk' where dk': "wr1 B fs (fat_sector fs c) (put32 (sect dk i) (fat_byte_off fs c) w) dk = Some (0, dk')"
    "sect dk' = (sect dk)(i := put32 (sect dk i) (fat_byte_off fs c) w)"
    using wr [OF pos(3), of "put32 (sect dk i) (fat_byte_off fs c) w" dk] by (auto simp: i_def)
  have "w AND FAT_MASK = v AND FAT_MASK" by (rule bit_word_eqI) (auto simp: w_def bit_simps)
  moreover have "fat dk' = (fat dk)(unat c := w AND FAT_MASK)"
    using fat_of_put [of "sect dk" fs "unat c" w] by (simp add: dk'(2) pos(1,2) i_def)
  moreover have "same_data fs (sect dk) (sect dk')" using pos(1,4) by (simp add: same_data_def dk'(2) i_def)
  ultimately show ?thesis using dk'(1) rd [OF pos(3)]
    by (simp add: fat_set_cluster_def i_def [symmetric] w_def [symmetric] Let_def)
qed

end

section \<open>Cluster chains\<close>

text \<open>The clusters from \<open>c\<close> to the end of its chain in the table \<open>f\<close>.\<close>

fun chain_from :: "fat32_fs \<Rightarrow> (nat \<Rightarrow> u32) \<Rightarrow> u32 \<Rightarrow> u32 list \<Rightarrow> bool" where
  "chain_from fs f c [] \<longleftrightarrow> \<not> in_chain c"
| "chain_from fs f c (x # xs) \<longleftrightarrow> c = x \<and> in_chain c \<and> unat c < unat (total_clusters fs) + 2 \<and> chain_from fs f (f (unat c)) xs"

lemma chain_from_unique: "chain_from fs f c xs \<Longrightarrow> chain_from fs f c ys \<Longrightarrow> xs = ys"
proof (induction xs arbitrary: c ys)
  case Nil
  then show ?case by (cases ys) auto
next
  case (Cons x xs)
  then show ?case by (cases ys) auto
qed

lemma chain_from_suffix: "chain_from fs f c (xs @ y # ys) \<Longrightarrow> chain_from fs f y (y # ys)"
  by (induction xs arbitrary: c) auto

lemma chain_from_distinct: "chain_from fs f c xs \<Longrightarrow> distinct xs"
proof (induction xs arbitrary: c)
  case (Cons x xs)
  have "x \<notin> set xs"
  proof
    assume "x \<in> set xs"
    then obtain us vs where xs: "xs = us @ x # vs" by (auto simp: in_set_conv_decomp)
    then have "chain_from fs f x (x # vs)" using Cons.prems chain_from_suffix [of fs f c "x # us" x vs] by auto
    moreover have "chain_from fs f x (x # xs)" using Cons.prems by auto
    ultimately have "x # vs = x # xs" by (rule chain_from_unique)
    then show False using xs by simp
  qed
  with Cons show ?case by auto
qed simp

lemma chain_from_cong:
  assumes "chain_from fs f c xs" and "\<And>x. x \<in> set xs \<Longrightarrow> g (unat x) = f (unat x)"
  shows "chain_from fs g c xs"
  using assms by (induction xs arbitrary: c) auto

definition free_entries :: "u32 list \<Rightarrow> (nat \<Rightarrow> u32) \<Rightarrow> nat \<Rightarrow> u32" where
  "free_entries cs f = (\<lambda>n. if n \<in> unat ` set cs then 0 else f n)"

context fat_disk
begin

lemma free_chain_entries:
  assumes "layout_ok fs nsec" and "chain_from fs (fat dk) c cs"
  shows "\<exists>dk'. fat_free_chain B fs c dk = Some dk' \<and> fat dk' = free_entries cs (fat dk) \<and>
               same_data fs (sect dk) (sect dk')"
  using assms(2)
proof (induction cs arbitrary: c dk)
  case Nil
  then show ?case by (subst fat_free_chain.simps) (simp add: free_entries_def)
next
  case (Cons x xs)
  then have x: "c = x" "in_chain x" "unat x < unat (total_clusters fs) + 2" "chain_from fs (fat dk) (fat dk (unat x)) xs"
    by auto
  obtain dk1 where dk1: "fat_set_cluster B fs x FAT32_FREE dk = Some (0, dk1)"
    "fat dk1 = (fat dk)(unat x := 0)" "same_data fs (sect dk) (sect dk1)"
    using fat_set_value [OF assms(1) x(3), of FAT32_FREE dk] by (auto simp: FAT32_FREE_def)
  have "x \<notin> set xs" using chain_from_distinct [OF Cons.prems] by simp
  then have "chain_from fs (fat dk1) (fat dk (unat x)) xs"
    by (intro chain_from_cong [OF x(4)]) (auto simp: dk1(2) dest: word_unat_eq_iff [THEN iffD2])
  from Cons.IH [OF this] obtain dk' where
    "fat_free_chain B fs (fat dk (unat x)) dk1 = Some dk'" "fat dk' = free_entries xs (fat dk1)"
    "same_data fs (sect dk1) (sect dk')" by blast
  then show ?case using x dk1 fat_next_value [OF assms(1) x(3), of dk]
    by (subst fat_free_chain.simps) (auto simp: free_entries_def intro: same_data_trans)
qed

lemma chain_last_is_last:
  assumes "layout_ok fs nsec" and "chain_from fs (fat dk) c cs" and "cs \<noteq> []"
  shows "fat_chain_last B fs c dk = Some (last cs)"
proof -
  have "chain_last_loop B fs c dk = Some (last cs)"
    using assms(2,3)
  proof (induction cs arbitrary: c)
    case (Cons x xs)
    then have "fat_next_cluster B fs x dk = Some (fat dk (unat x))" using fat_next_value [OF assms(1)] by auto
    with Cons show ?case by (subst chain_last_loop.simps) (cases xs; auto)
  qed simp
  then show ?thesis using assms(2,3) by (cases cs) (auto simp: fat_chain_last_def)
qed

end

section \<open>Allocating a cluster\<close>

text \<open>The first free entry among the clusters of the volume.\<close>

definition first_free :: "fat32_fs \<Rightarrow> (nat \<Rightarrow> u32) \<Rightarrow> nat \<Rightarrow> bool" where
  "first_free fs f n \<longleftrightarrow> 2 \<le> n \<and> n < unat (total_clusters fs) + 2 \<and> f n = 0 \<and> (\<forall>k. 2 \<le> k \<longrightarrow> k < n \<longrightarrow> f k \<noteq> 0)"

lemma alloc_entries_spec:
  assumes "base + m < 2 ^ 32" and "tot < 2 ^ 32" and "is = [j..<m]" and "j \<le> m"
  shows "case alloc_entries buf (of_nat tot) (of_nat base) is of
           Found i \<Rightarrow> j \<le> i \<and> i < m \<and> 2 \<le> base + i \<and> base + i < tot \<and> le32 buf (4 * i) AND FAT_MASK = 0 \<and>
                      (\<forall>k. j \<le> k \<longrightarrow> k < i \<longrightarrow> 2 \<le> base + k \<longrightarrow> le32 buf (4 * k) AND FAT_MASK \<noteq> 0)
         | OutOfRange \<Rightarrow> tot \<le> base + m \<and>
                      (\<forall>k. j \<le> k \<longrightarrow> base + k < tot \<longrightarrow> 2 \<le> base + k \<longrightarrow> le32 buf (4 * k) AND FAT_MASK \<noteq> 0)
         | NextSector \<Rightarrow> (\<forall>k. j \<le> k \<longrightarrow> k < m \<longrightarrow> 2 \<le> base + k \<longrightarrow> base + k < tot \<and> le32 buf (4 * k) AND FAT_MASK \<noteq> 0)"
  using assms(3,4)
proof (induction "is" arbitrary: j)
  case Nil
  then have "j = m" by (auto simp: eq_commute [of "[]"])
  then show ?case by simp
next
  case (Cons i "is")
  then have j: "i = j" "j < m" "is = [Suc j..<m]" using Cons.prems(1) [symmetric] by (auto simp: upt_eq_Cons_conv)
  have u: "unat (of_nat base + of_nat j :: u32) = base + j"
    using assms(1) j(2) unat_of_nat [of "base + j", where 'a = 32] by simp
  have ut: "unat (of_nat tot :: u32) = tot" using assms(2) by (simp add: unat_of_nat)
  have jle: "j \<le> k \<longleftrightarrow> k = j \<or> Suc j \<le> k" for k by auto
  have IH: "Suc j \<le> m \<Longrightarrow> ?case" if "alloc_entries buf (of_nat tot) (of_nat base) (i # is) = alloc_entries buf (of_nat tot) (of_nat base) is"
    "2 \<le> base + j \<Longrightarrow> base + j < tot \<and> le32 buf (4 * j) AND FAT_MASK \<noteq> 0"
    using Cons.IH [OF j(3)] that by (auto simp: jle split: alloc_scan_result.splits)
  consider "base + j < 2" | "2 \<le> base + j" "tot \<le> base + j"
    | "2 \<le> base + j" "base + j < tot" "le32 buf (4 * j) AND FAT_MASK = 0"
    | "2 \<le> base + j" "base + j < tot" "le32 buf (4 * j) AND FAT_MASK \<noteq> 0" by linarith
  then show ?case
  proof cases
    case 1
    then show ?thesis using j by (intro IH) (simp_all add: Let_def word_less_nat_alt u)
  next
    case 2
    then show ?thesis using j by (simp add: Let_def word_less_nat_alt word_le_nat_alt u ut)
  next
    case 3
    then show ?thesis using j by (simp add: Let_def word_less_nat_alt word_le_nat_alt u ut FAT32_FREE_def)
  next
    case 4
    then show ?thesis using j by (intro IH) (simp_all add: Let_def word_less_nat_alt word_le_nat_alt u ut FAT32_FREE_def)
  qed
qed

context fat_disk
begin

lemma alloc_sectors_spec:
  assumes lay: "layout_ok fs nsec" and "ss = [j..<unat (sectors_per_fat fs)]" and "j \<le> unat (sectors_per_fat fs)"
    and "\<forall>k. 2 \<le> k \<longrightarrow> k < 128 * j \<longrightarrow> k < unat (total_clusters fs) + 2 \<and> fat dk k \<noteq> 0"
  shows "\<exists>c dk'. alloc_sectors B fs ss dk = Some (c, dk') \<and>
     ((c = FAT32_EOC \<and> dk' = dk \<and> (\<forall>n. \<not> first_free fs (fat dk) n)) \<or>
      (first_free fs (fat dk) (unat c) \<and> fat dk' = (fat dk)(unat c := FAT32_EOC) \<and> same_data fs (sect dk) (sect dk')))"
  using assms(2-4)
proof (induction ss arbitrary: j)
  case Nil
  then have "j = unat (sectors_per_fat fs)" by (auto simp: eq_commute [of "[]"])
  then have "\<not> first_free fs (fat dk) n" for n
    using Nil.prems(3) lay by (auto simp: first_free_def layout_ok_def)
  then show ?case by simp
next
  case (Cons s ss)
  define tot where "tot = unat (total_clusters fs) + 2"
  have j: "s = j" "j < unat (sectors_per_fat fs)" "ss = [Suc j..<unat (sectors_per_fat fs)]"
    using Cons.prems(1) [symmetric] by (auto simp: upt_eq_Cons_conv)
  have lt: "unat (fat_start fs) + unat (sectors_per_fat fs) \<le> nsec" "nsec < 2 ^ 32" "tot \<le> 0x0FFFFFF7"
    using lay by (auto simp: layout_ok_def tot_def)
  have us: "unat (fat_start fs + of_nat j) = unat (fat_start fs) + j"
    using lt j(2) by (simp add: unat_word_ariths unat_of_nat)
  have sn: "unat (fat_start fs + of_nat j) < nsec" using lt j(2) us by simp
  have jt: "128 * j \<le> tot"
  proof (rule ccontr)
    assume "\<not> 128 * j \<le> tot"
    then show False using Cons.prems(3) by (auto simp: tot_def dest!: spec [of _ "unat (total_clusters fs) + 2"])
  qed
  define i0 where "i0 = unat (fat_start fs) + j"
  have ent: "le32 (sect dk i0) (4 * i) AND FAT_MASK = fat dk (128 * j + i)" if "i < 128" for i
    using that by (simp add: fat_of_def i0_def)
  have t32: "total_clusters fs + 2 = of_nat tot" by (simp add: tot_def)
  have ub: "unat (of_nat j * 128 :: u32) = 128 * j" "of_nat j * 128 = (of_nat (128 * j) :: u32)"
    using jt lt by (simp_all add: unat_word_ariths unat_of_nat)
  note scan = alloc_entries_spec [of "128 * j" 128 tot "[0..<128]" 0 "sect dk i0"]
  show ?case
  proof (cases "alloc_entries (sect dk i0) (total_clusters fs + 2) (of_nat j * 128) [0..<128]")
    case (Found i)
    then have i: "i < 128" "2 \<le> 128 * j + i" "128 * j + i < tot" "fat dk (128 * j + i) = 0"
      "\<And>k. k < i \<Longrightarrow> 2 \<le> 128 * j + k \<Longrightarrow> fat dk (128 * j + k) \<noteq> 0"
      using scan jt lt ent by (auto simp: t32 ub)
    have "fat dk k \<noteq> 0" if "2 \<le> k" "k < 128 * j + i" for k
      using that Cons.prems(3) i(5) [of "k - 128 * j"] by (cases "k < 128 * j") auto
    then have ff: "first_free fs (fat dk) (128 * j + i)" using i by (simp add: first_free_def tot_def)
    obtain dk' where dk': "wr1 B fs (fat_start fs + of_nat j) (put32 (sect dk i0) (4 * i) FAT32_EOC) dk = Some (0, dk')"
      "sect dk' = (sect dk)(i0 := put32 (sect dk i0) (4 * i) FAT32_EOC)"
      using wr [OF sn, of "put32 (sect dk i0) (4 * i) FAT32_EOC" dk] by (auto simp: us i0_def)
    have uc: "unat (of_nat j * 128 + of_nat i :: u32) = 128 * j + i"
      using i lt jt by (simp add: unat_word_ariths unat_of_nat)
    have "fat dk' = (fat dk)(128 * j + i := FAT32_EOC)"
      using fat_of_put [of "sect dk" fs "128 * j + i" FAT32_EOC] i(1)
      by (simp add: dk'(2) i0_def FAT32_EOC_def FAT_MASK_def)
    moreover have "same_data fs (sect dk) (sect dk')" using j(2) by (simp add: same_data_def dk'(2) i0_def)
    ultimately show ?thesis using Found dk'(1) rd [OF sn] ff uc
      by (auto simp: fun_eq_iff j(1) us i0_def [symmetric] bps_512 [OF lay] Let_def)
  next
    case OutOfRange
    then have o: "tot \<le> 128 * j + 128" "\<And>k. 128 * j + k < tot \<Longrightarrow> 2 \<le> 128 * j + k \<Longrightarrow> k < 128 \<Longrightarrow> fat dk (128 * j + k) \<noteq> 0"
      using scan jt lt ent by (auto simp: t32 ub)
    have "fat dk k \<noteq> 0" if "2 \<le> k" "k < tot" for k
      using that Cons.prems(3) o(1) o(2) [of "k - 128 * j"] by (cases "k < 128 * j") auto
    then have "\<not> first_free fs (fat dk) n" for n by (auto simp: first_free_def tot_def)
    then show ?thesis using OutOfRange rd [OF sn]
      by (simp add: j(1) us i0_def [symmetric] bps_512 [OF lay] Let_def)
  next
    case NextSector
    then have o: "\<And>k. k < 128 \<Longrightarrow> 2 \<le> 128 * j + k \<Longrightarrow> 128 * j + k < tot \<and> fat dk (128 * j + k) \<noteq> 0"
      using scan jt lt ent by (auto simp: t32 ub)
    have "k < unat (total_clusters fs) + 2 \<and> fat dk k \<noteq> 0" if "2 \<le> k" "k < 128 * Suc j" for k
      using that Cons.prems(3) o [of "k - 128 * j"] by (cases "k < 128 * j") (auto simp: tot_def)
    then show ?thesis using Cons.IH [OF j(3)] j NextSector rd [OF sn]
      by (simp add: us i0_def [symmetric] bps_512 [OF lay] Let_def)
  qed
qed

end

context fat_disk
begin

lemma alloc_first_free:
  assumes "layout_ok fs nsec"
  shows "\<exists>c dk'. fat_alloc_cluster B fs dk = Some (c, dk') \<and>
     ((c = FAT32_EOC \<and> dk' = dk \<and> (\<forall>n. \<not> first_free fs (fat dk) n)) \<or>
      (first_free fs (fat dk) (unat c) \<and> fat dk' = (fat dk)(unat c := FAT32_EOC) \<and> same_data fs (sect dk) (sect dk')))"
  unfolding fat_alloc_cluster_def by (rule alloc_sectors_spec [OF assms]) auto

text \<open>Extending a chain appends one free cluster to it.\<close>

lemma chain_from_append:
  assumes "chain_from fs f c cs" and "cs \<noteq> []" and "c' \<notin> set cs" and "in_chain c'"
    and "unat c' < unat (total_clusters fs) + 2" and "\<not> in_chain e"
  shows "chain_from fs (f(unat c' := e, unat (last cs) := c')) c (cs @ [c'])"
  using assms
proof (induction cs arbitrary: c)
  case (Cons x xs)
  have ne: "unat x \<noteq> unat c'" using Cons.prems(3) by (auto simp: word_unat_eq_iff)
  show ?case
  proof (cases xs)
    case Nil
    then show ?thesis using Cons.prems ne by auto
  next
    case (Cons y ys)
    have "unat x \<noteq> unat (last xs)"
      using chain_from_distinct [OF Cons.prems(1)] Cons by (auto simp: word_unat_eq_iff [symmetric])
    then show ?thesis using Cons.prems Cons.IH [of "f (unat x)"] ne Cons by auto
  qed
qed simp

lemma extend_chain_appends:
  assumes lay: "layout_ok fs nsec" and ch: "chain_from fs (fat dk) c cs" "cs \<noteq> []"
    and used: "\<forall>x \<in> set cs. fat dk (unat x) \<noteq> 0"
  shows "\<exists>c' dk'. fat_extend_chain B fs c dk = Some (c', dk') \<and>
     (if \<exists>n. first_free fs (fat dk) n
      then first_free fs (fat dk) (unat c') \<and> chain_from fs (fat dk') c (cs @ [c']) \<and> same_data fs (sect dk) (sect dk') \<and>
           (\<forall>n. n \<noteq> unat c' \<longrightarrow> n \<noteq> unat (last cs) \<longrightarrow> fat dk' n = fat dk n)
      else c' = FAT32_EOC \<and> dk' = dk)"
proof -
  obtain a dk1 where a: "fat_alloc_cluster B fs dk = Some (a, dk1)"
    "(a = FAT32_EOC \<and> dk1 = dk \<and> (\<forall>n. \<not> first_free fs (fat dk) n)) \<or>
      (first_free fs (fat dk) (unat a) \<and> fat dk1 = (fat dk)(unat a := FAT32_EOC) \<and> same_data fs (sect dk) (sect dk1))"
    using alloc_first_free [OF lay, of dk] by blast
  have lst: "in_chain (last cs)" "unat (last cs) < unat (total_clusters fs) + 2"
    using chain_from_suffix [of fs "fat dk" c "butlast cs" "last cs" "[]"] ch by auto
  show ?thesis
  proof (cases "first_free fs (fat dk) (unat a)")
    case False
    then show ?thesis using a chain_last_is_last [OF lay ch] by (auto simp: fat_extend_chain_def)
  next
    case True
    have av: "unat a < unat (total_clusters fs) + 2" "2 \<le> unat a" using True by (auto simp: first_free_def)
    then have ai: "in_chain a"
      using valid_in_chain [OF lay, of a] by (simp add: valid_cluster_def word_le_nat_alt)
    have eoc: "\<not> FAT32_EOC \<le> a" using ai by (auto simp: in_chain_def not_le)
    with a(2) have a1: "fat dk1 = (fat dk)(unat a := FAT32_EOC)" "same_data fs (sect dk) (sect dk1)" by auto
    obtain dk2 where d2: "fat_set_cluster B fs (last cs) a dk1 = Some (0, dk2)"
      "fat dk2 = (fat dk1)(unat (last cs) := a AND FAT_MASK)" "same_data fs (sect dk1) (sect dk2)"
      using fat_set_value [OF lay lst(2)] by blast
    have "a AND FAT_MASK = a"
    proof -
      have "unat a < 2 ^ 28" using lay av by (simp add: layout_ok_def)
      then have "take_bit 28 a = a" by (simp add: word_unat_eq_iff unsigned_take_bit_eq take_bit_nat_eq_self)
      moreover have "FAT_MASK = mask 28" by (simp add: FAT_MASK_def mask_eq_exp_minus_1)
      ultimately show ?thesis by (simp add: take_bit_eq_mask)
    qed
    then have f2: "fat dk2 = (fat dk)(unat a := FAT32_EOC, unat (last cs) := a)" using d2(2) a1(1) by simp
    have na: "a \<notin> set cs" using used True by (auto simp: first_free_def)
    have "\<not> in_chain FAT32_EOC" by (simp add: in_chain_def)
    then have "chain_from fs (fat dk2) c (cs @ [a])"
      using chain_from_append [OF ch na ai av(1)] f2 by simp
    moreover have "fat_extend_chain B fs c dk = Some (a, dk2)"
      using chain_last_is_last [OF lay ch] a(1) eoc lst(1) d2(1) by (simp add: fat_extend_chain_def)
    ultimately show ?thesis using True f2 same_data_trans [OF a1(2) d2(3)] by auto
  qed
qed

end

section \<open>The block layer under the file system\<close>

text \<open>A driver that stores sectors of 512 bytes: device \<open>n\<close> has \<open>cnt\<close> sectors with contents \<open>cont\<close>.\<close>

definition driver_stores :: "'d blkdrv \<Rightarrow> nat \<Rightarrow> ('d \<Rightarrow> nat \<Rightarrow> bytes) \<Rightarrow> nat \<Rightarrow> bool" where
  "driver_stores V n cont cnt \<longleftrightarrow>
     (\<forall>dk i. length (cont dk i) = 512) \<and>
     (\<forall>lba dk. unat lba < cnt \<longrightarrow> drv_read V n lba 1 dk = (0, cont dk (unat lba))) \<and>
     (\<forall>lba dk buf. unat lba < cnt \<longrightarrow> length buf = 512 \<longrightarrow>
        (\<exists>dk'. drv_write V n lba 1 buf dk = (0, dk') \<and> cont dk' = (cont dk)(unat lba := buf)))"

text \<open>\<^verbatim>\<open>block.c\<close> meets the contract on every device of a well-formed tree of partitions.\<close>

lemma block_layer_fat_disk:
  assumes ready: "\<forall>e \<in> set (chain b (fs_bdev fs)). dev_ready ops_read b e \<and> dev_ready ops_write b e"
    and drv: "last (chain b (fs_bdev fs)) = Drv n" "driver_stores V n cont (unat (bd_sector_count (drv_devs b n)))"
  shows "fat_disk (block_io V b) fs (\<lambda>dk i. cont dk (chain_start b (fs_bdev fs) + i))
           (unat (bd_sector_count (dev_at b (fs_bdev fs))))"
proof
  fix sec :: u32 and dk
  assume lt: "unat sec < unat (bd_sector_count (dev_at b (fs_bdev fs)))"
  have fit: "unat (ucast sec :: u64) + unat (1 :: u8) \<le> unat (bd_sector_count (dev_at b (fs_bdev fs)))"
    using lt by (simp add: unat_ucast_32_64)
  obtain m lba where r: "at_driver b (fs_bdev fs) (ucast sec) 1 m lba"
    "block_read V b dk (fs_bdev fs) (ucast sec) 1 = Some (drv_read V m lba 1 dk)"
    using block_read_spec [OF _ fit, of V dk] ready by blast
  then have m: "m = n" "unat lba = chain_start b (fs_bdev fs) + unat sec" "unat lba < unat (bd_sector_count (drv_devs b n))"
    using drv(1) by (auto simp: at_driver_def unat_ucast_32_64)
  show "rd1 (block_io V b) fs sec dk = Some (0, cont dk (chain_start b (fs_bdev fs) + unat sec))"
    using r(2) drv(2) m by (simp add: rd1_def block_io_def driver_stores_def)
  fix buf :: bytes
  assume len: "length buf = 512"
  obtain m' lba' where w: "at_driver b (fs_bdev fs) (ucast sec) 1 m' lba'"
    "block_write V b dk (fs_bdev fs) (ucast sec) 1 buf = Some (drv_write V m' lba' 1 buf dk)"
    using block_write_spec [OF _ fit, of V dk buf] ready by blast
  then have m': "m' = n" "unat lba' = chain_start b (fs_bdev fs) + unat sec" "unat lba' < unat (bd_sector_count (drv_devs b n))"
    using drv(1) by (auto simp: at_driver_def unat_ucast_32_64)
  obtain dk' where "drv_write V n lba' 1 buf dk = (0, dk')" "cont dk' = (cont dk)(unat lba' := buf)"
    using drv(2) m'(3) len unfolding driver_stores_def by blast
  then show "\<exists>dk'. wr1 (block_io V b) fs sec buf dk = Some (0, dk') \<and>
      (\<lambda>i. cont dk' (chain_start b (fs_bdev fs) + i)) =
      (\<lambda>i. cont dk (chain_start b (fs_bdev fs) + i))(unat sec := buf)"
    using w(2) m' by (auto simp: wr1_def block_io_def fun_eq_iff)
qed (use drv(2) in \<open>simp add: driver_stores_def\<close>)

text \<open>A disk in memory, and a small FAT32 volume on the partition of \<open>one_part\<close>.\<close>

definition sector512 :: "bytes \<Rightarrow> bytes" where
  "sector512 bs = take 512 (bs @ replicate 512 0)"

definition sector_driver :: "(nat \<Rightarrow> bytes) blkdrv" where
  "sector_driver =
     \<lparr>drv_read = (\<lambda>n lba count d. (0, concat (map (\<lambda>i. sector512 (d (unat lba + i))) [0..<unat count]))),
      drv_write = (\<lambda>n lba count buf d. (0, fold (\<lambda>i d. d(unat lba + i := take 512 (drop (512 * i) buf))) [0..<unat count] d))\<rparr>"

lemma sector512_id: "length buf = 512 \<Longrightarrow> sector512 buf = buf"
  by (simp add: sector512_def)

lemma sector_driver_stores: "driver_stores sector_driver n (\<lambda>d i. sector512 (d i)) cnt"
  unfolding driver_stores_def
proof (intro conjI allI impI)
  show "length (sector512 (dk i)) = 512" for dk :: "nat \<Rightarrow> bytes" and i by (simp add: sector512_def)
  show "drv_read sector_driver n lba 1 dk = (0, sector512 (dk (unat lba)))" for dk lba
    by (simp add: sector_driver_def)
  show "\<exists>dk'. drv_write sector_driver n lba 1 buf dk = (0, dk') \<and>
      (\<lambda>i. sector512 (dk' i)) = (\<lambda>i. sector512 (dk i))(unat lba := buf)"
    if "length buf = 512" for dk buf lba
    using that by (auto simp: sector_driver_def sector512_id intro!: exI [of _ "dk(unat lba := buf)"])
qed

definition small_bpb :: fat32_bpb where
  "small_bpb = \<lparr>bytes_per_sector = 512, sectors_per_cluster = 1, reserved_sectors = 1, num_fats = 1,
                total_sectors_16 = 50, total_sectors_32 = 0, sectors_per_fat_32 = 1, root_cluster = 2, fs_info_sector = 0\<rparr>"

definition small_fs :: fat32_fs where
  "small_fs = \<lparr>fs_bdev = Part 0, fs_bpb = small_bpb, fat_start = 1, data_start = 2, sectors_per_fat = 1,
               total_clusters = 48\<rparr>"

lemma small_fs_layout: "layout_ok small_fs 50"
  by (simp add: layout_ok_def small_fs_def small_bpb_def)

lemma small_fs_chain:
  "chain one_part (fs_bdev small_fs) = [Part 0, Drv 0]" "chain_start one_part (fs_bdev small_fs) = 100"
  "unat (bd_sector_count (dev_at one_part (fs_bdev small_fs))) = 50"
  by (simp_all add: small_fs_def one_part_def chain_start_def)

lemma small_fs_ready:
  "\<forall>e \<in> set (chain one_part (fs_bdev small_fs)). dev_ready ops_read one_part e \<and> dev_ready ops_write one_part e"
  using one_part_ready by (simp add: small_fs_def)

interpretation small: fat_disk "block_io sector_driver one_part" small_fs "\<lambda>d i. sector512 (d (100 + i))" 50
  using block_layer_fat_disk [OF small_fs_ready, of 0 sector_driver "\<lambda>d i. sector512 (d i)"]
    sector_driver_stores small_fs_chain by simp

text \<open>
  C7 (functional): on any driver that stores sectors, through any well-formed tree of partitions,
  \<^verbatim>\<open>fat_alloc_cluster\<close> returns the first free cluster of the volume and marks it as the end of a chain,
  changing no other entry of the table and nothing outside it; it returns \<^verbatim>\<open>FAT32_EOC\<close>, and writes
  nothing, exactly when the volume is full.
\<close>

theorem fat_alloc_cluster_first_free:
  assumes "\<forall>e \<in> set (chain b (fs_bdev fs)). dev_ready ops_read b e \<and> dev_ready ops_write b e"
    and "last (chain b (fs_bdev fs)) = Drv n" and "driver_stores V n cont (unat (bd_sector_count (drv_devs b n)))"
    and "layout_ok fs (unat (bd_sector_count (dev_at b (fs_bdev fs))))"
  defines "sec \<equiv> \<lambda>dk i. cont dk (chain_start b (fs_bdev fs) + i)"
  shows "\<exists>c dk'. fat_alloc_cluster (block_io V b) fs dk = Some (c, dk') \<and>
     ((c = FAT32_EOC \<and> dk' = dk \<and> (\<forall>n. \<not> first_free fs (fat_of fs (sec dk)) n)) \<or>
      (first_free fs (fat_of fs (sec dk)) (unat c) \<and>
       fat_of fs (sec dk') = (fat_of fs (sec dk))(unat c := FAT32_EOC) \<and> same_data fs (sec dk) (sec dk')))"
  unfolding sec_def by (rule fat_disk.alloc_first_free [OF block_layer_fat_disk [OF assms(1-3)] assms(4)])

text \<open>The table of the sample volume: a chain 2, 3 and free clusters from 4 on.\<close>

definition small_disk :: "nat \<Rightarrow> bytes" where
  "small_disk = (\<lambda>_. [])(101 := [0, 0, 0, 0, 0, 0, 0, 0, 3, 0, 0, 0, 0xF8, 0xFF, 0xFF, 0x0F])"

lemma small_disk_fat:
  "fat_of small_fs (\<lambda>i. sector512 (small_disk (100 + i))) 2 = 3"
  "fat_of small_fs (\<lambda>i. sector512 (small_disk (100 + i))) 3 = FAT32_EOC"
  "fat_of small_fs (\<lambda>i. sector512 (small_disk (100 + i))) 4 = 0"
  by code_simp+

lemma small_disk_first_free:
  "first_free small_fs (fat_of small_fs (\<lambda>i. sector512 (small_disk (100 + i)))) n \<longleftrightarrow> n = 4"
proof -
  define f where "f = fat_of small_fs (\<lambda>i. sector512 (small_disk (100 + i)))"
  have f: "f 2 \<noteq> 0" "f 3 \<noteq> 0" "f 4 = 0" using small_disk_fat by (simp_all add: f_def FAT32_EOC_def)
  have k: "f k \<noteq> 0" if "2 \<le> k" "k < 4" for k
  proof -
    have "k = 2 \<or> k = 3" using that by arith
    then show ?thesis using f by auto
  qed
  have "first_free small_fs f n \<longleftrightarrow> n = 4"
  proof (cases n "4 :: nat" rule: linorder_cases)
    case less
    then show ?thesis using k by (auto simp: first_free_def)
  next
    case greater
    then have "\<not> first_free small_fs f n" using f(3) by (auto simp: first_free_def intro!: exI [of _ 4])
    then show ?thesis using greater by simp
  qed (use k f in \<open>simp add: first_free_def small_fs_def\<close>)
  then show ?thesis by (simp add: f_def)
qed

theorem fat_alloc_cluster_first_free_witness:
  "\<exists>dk'. fat_alloc_cluster (block_io sector_driver one_part) small_fs small_disk = Some (4, dk')"
proof -
  have l: "layout_ok small_fs (unat (bd_sector_count (dev_at one_part (fs_bdev small_fs))))"
    using small_fs_layout small_fs_chain by simp
  obtain c dk' where c: "fat_alloc_cluster (block_io sector_driver one_part) small_fs small_disk = Some (c, dk')"
    "(\<forall>n. n \<noteq> 4) \<or> unat c = 4"
    using fat_alloc_cluster_first_free [OF small_fs_ready _ sector_driver_stores l, of 0 small_disk] small_fs_chain
    by (auto simp: small_disk_first_free)
  then have "c = 4" by (auto simp: word_unat_eq_iff)
  with c show ?thesis by blast
qed

text \<open>
  C25 (termination): \<^verbatim>\<open>fat_free_chain\<close> returns on every chain that ends, frees exactly its clusters and
  changes nothing outside the table.
\<close>

theorem fat_free_chain_frees:
  assumes "\<forall>e \<in> set (chain b (fs_bdev fs)). dev_ready ops_read b e \<and> dev_ready ops_write b e"
    and "last (chain b (fs_bdev fs)) = Drv n" and "driver_stores V n cont (unat (bd_sector_count (drv_devs b n)))"
    and "layout_ok fs (unat (bd_sector_count (dev_at b (fs_bdev fs))))"
    and "chain_from fs (fat_of fs (\<lambda>i. cont dk (chain_start b (fs_bdev fs) + i))) c cs"
  defines "sec \<equiv> \<lambda>dk i. cont dk (chain_start b (fs_bdev fs) + i)"
  shows "\<exists>dk'. fat_free_chain (block_io V b) fs c dk = Some dk' \<and>
     fat_of fs (sec dk') = (\<lambda>n. if n \<in> unat ` set cs then 0 else fat_of fs (sec dk) n) \<and>
     same_data fs (sec dk) (sec dk')"
  using fat_disk.free_chain_entries [OF block_layer_fat_disk [OF assms(1-3)] assms(4,5)]
  unfolding sec_def free_entries_def .

theorem fat_free_chain_frees_witness:
  "\<exists>dk'. fat_free_chain (block_io sector_driver one_part) small_fs 2 small_disk = Some dk' \<and>
     fat_of small_fs (\<lambda>i. sector512 (dk' (100 + i))) 3 = 0"
proof -
  have l: "layout_ok small_fs (unat (bd_sector_count (dev_at one_part (fs_bdev small_fs))))"
    using small_fs_layout small_fs_chain by simp
  have "chain_from small_fs (fat_of small_fs (\<lambda>i. sector512 (small_disk (100 + i)))) 2 [2, 3]"
    using small_disk_fat by (simp add: in_chain_def FAT32_EOC_def) (simp add: small_fs_def)
  then show ?thesis
    using fat_free_chain_frees [OF small_fs_ready _ sector_driver_stores l, of 0 small_disk 2 "[2, 3]"] small_fs_chain
    by auto
qed

section \<open>Mounting\<close>

lemma is_pow2_pos: "is_pow2 v \<Longrightarrow> v \<noteq> 0"
  by (simp add: is_pow2_def)

text \<open>
  C26 (invariant): a volume \<^verbatim>\<open>fat32_mount\<close> accepts has the layout every other operation relies on (512
  byte sectors, 1 to 128 sectors per cluster, the table before the data, all clusters on the
  device), as far as the boot sector tells the truth: the sum of its regions does not wrap, the
  volume is no larger than the device and the table has an entry for every cluster.  The source
  does not check these three.
\<close>

theorem fat32_mount_layout:
  assumes "fat32_mount B d fs0 dk = Some (0, fs)"
    and "unat (reserved_sectors (fs_bpb fs)) + unat (num_fats (fs_bpb fs)) * unat (sectors_per_fat_32 (fs_bpb fs)) < 2 ^ 32"
    and "unat (bpb_total (fs_bpb fs)) \<le> nsec" and "nsec < 0x0FFFFFF0"
    and "unat (total_clusters fs) + 2 \<le> 128 * unat (sectors_per_fat fs)"
  shows "layout_ok fs nsec \<and> fs_bdev fs = d \<and> unat (fat_start fs) = unat (reserved_sectors (fs_bpb fs)) \<and>
         2 \<le> root_cluster (fs_bpb fs)"
proof -
  obtain buf where buf: "b_rd B d 0 1 dk = Some (0, buf)" "bpb_valid buf" and
    fs: "fs = \<lparr>fs_bdev = d, fs_bpb = bpb_of buf, fat_start = ucast (reserved_sectors (bpb_of buf)),
               data_start = bpb_fat_end (bpb_of buf), sectors_per_fat = sectors_per_fat_32 (bpb_of buf),
               total_clusters = (bpb_total (bpb_of buf) - bpb_fat_end (bpb_of buf)) div
                                ucast (sectors_per_cluster (bpb_of buf))\<rparr>"
    using assms(1) by (auto simp: fat32_mount_def Let_def split: bind_splits if_splits)
  define p where "p = bpb_of buf"
  have v: "bytes_per_sector p = 512" "is_pow2 (ucast (sectors_per_cluster p))" "sectors_per_cluster p \<le> 128"
    "num_fats p = 1 \<or> num_fats p = 2" "2 \<le> root_cluster p" "bpb_fat_end p < bpb_total p"
    using buf(2) by (auto simp: bpb_valid_def p_def Let_def)
  have s0: "0 < unat (sectors_per_cluster p)" using is_pow2_pos [OF v(2)] by (auto simp: unat_gt_0)
  have ur: "unat (ucast (reserved_sectors p) :: u32) = unat (reserved_sectors p)"
    "unat (ucast (num_fats p) :: u32) = unat (num_fats p)" "unat (ucast (sectors_per_cluster p) :: u32) = unat (sectors_per_cluster p)"
    by (rule unat_ucast_16_32, rule unat_ucast_8_32, rule unat_ucast_8_32)
  have pp: "fs_bpb fs = p" "sectors_per_fat fs = sectors_per_fat_32 p" using fs by (simp_all add: p_def)
  have fe: "unat (bpb_fat_end p) = unat (reserved_sectors p) + unat (num_fats p) * unat (sectors_per_fat_32 p)"
    using assms(2) by (simp add: pp bpb_fat_end_def unat_word_ariths ur)
  have nf: "unat (sectors_per_fat_32 p) \<le> unat (num_fats p) * unat (sectors_per_fat_32 p)" using v(4) by auto
  have tc: "unat (total_clusters fs) = (unat (bpb_total p) - unat (bpb_fat_end p)) div unat (sectors_per_cluster p)"
    using v(6) by (simp add: fs p_def [symmetric] unat_div unat_sub ur)
  then have "unat (total_clusters fs) * unat (sectors_per_cluster p) \<le> unat (bpb_total p) - unat (bpb_fat_end p)"
    by simp
  moreover have "unat (bpb_fat_end p) < unat (bpb_total p)" using v(6) by (simp add: word_less_nat_alt)
  ultimately have fit: "unat (bpb_fat_end p) + unat (total_clusters fs) * unat (sectors_per_cluster p) \<le> nsec"
    using assms(3) pp by simp
  have "unat (total_clusters fs) \<le> unat (total_clusters fs) * unat (sectors_per_cluster p)" using s0 by simp
  then have "unat (total_clusters fs) + 2 \<le> 0x0FFFFFF7" using fit assms(4) by linarith
  then show ?thesis
    using v s0 fe nf fit assms(4,5) ur
    by (simp add: layout_ok_def pp word_less_nat_alt) (simp add: fs p_def)
qed

definition small_boot :: bytes where
  "small_boot = (replicate 512 0)[12 := 2, 13 := 1, 14 := 1, 16 := 1, 19 := 50, 36 := 1, 44 := 2, 510 := 0x55, 511 := 0xAA]"

lemma small_boot_valid: "bpb_valid small_boot" "bpb_of small_boot = small_bpb" "length small_boot = 512"
  by code_simp+

theorem fat32_mount_layout_witness:
  "fat32_mount (block_io sector_driver one_part) (Part 0) small_fs (small_disk(100 := small_boot)) = Some (0, small_fs) \<and>
   layout_ok small_fs 50"
proof -
  have "rd1 (block_io sector_driver one_part) small_fs 0 (small_disk(100 := small_boot)) = Some (0, small_boot)"
    using small.rd [of 0 "small_disk(100 := small_boot)"] small_boot_valid(3) by (simp add: sector512_id)
  then have "b_rd (block_io sector_driver one_part) (Part 0) 0 1 (small_disk(100 := small_boot)) = Some (0, small_boot)"
    by (simp add: rd1_def small_fs_def)
  moreover have "bpb_total small_bpb = 50" "bpb_fat_end small_bpb = 2"
    by (simp_all add: bpb_total_def bpb_fat_end_def small_bpb_def)
  ultimately have m: "fat32_mount (block_io sector_driver one_part) (Part 0) small_fs (small_disk(100 := small_boot)) = Some (0, small_fs)"
    using small_boot_valid(1,2) by (simp add: fat32_mount_def Let_def) (simp add: small_fs_def small_bpb_def)
  from fat32_mount_layout [OF m, of 50] \<open>bpb_total small_bpb = 50\<close> show ?thesis
    by (simp add: m) (simp add: small_fs_def small_bpb_def)
qed

text \<open>
  The end of the tables is computed modulo $2^{32}$: a boot sector with two tables of
  \<open>0x80000001\<close> sectors each on a volume of 50 sectors passes the checks.
\<close>

lemma fat32_mount_accepts_wrap:
  "bpb_valid (small_boot[16 := 2, 39 := 0x80]) \<and> sectors_per_fat_32 (bpb_of (small_boot[16 := 2, 39 := 0x80])) = 0x80000001"
  by code_simp

end
