(* ===== verification/Fat32_File.thy ===== *)
theory Fat32_File
  imports Fat32_Dir Fat32_Table
begin

text \<open>
  The contents of FAT32 files: \<^verbatim>\<open>fat32_read_file\<close> against the concatenation of the clusters of a chain,
  and what the directory code does with long names.
\<close>

section \<open>The data of a chain\<close>

definition cluster_first :: "fat32_fs \<Rightarrow> u32 \<Rightarrow> nat" where
  "cluster_first fs c = unat (data_start fs) + (unat c - 2) * unat (sectors_per_cluster (fs_bpb fs))"

definition cluster_data :: "fat32_fs \<Rightarrow> (nat \<Rightarrow> bytes) \<Rightarrow> u32 \<Rightarrow> bytes" where
  "cluster_data fs sec c = sectors sec (cluster_first fs c) (cluster_first fs c + unat (sectors_per_cluster (fs_bpb fs)))"

definition chain_data :: "fat32_fs \<Rightarrow> (nat \<Rightarrow> bytes) \<Rightarrow> u32 list \<Rightarrow> bytes" where
  "chain_data fs sec cs = concat (map (cluster_data fs sec) cs)"

abbreviation csize :: "fat32_fs \<Rightarrow> nat" where
  "csize fs \<equiv> 512 * unat (sectors_per_cluster (fs_bpb fs))"

lemma cluster_size_nat:
  assumes "layout_ok fs n"
  shows "unat (cluster_size fs) = csize fs" and "0 < csize fs" and "csize fs \<le> 65536"
    and "unat (ucast (cluster_size fs) :: u64) = csize fs"
proof -
  have s: "0 < unat (sectors_per_cluster (fs_bpb fs))" "unat (sectors_per_cluster (fs_bpb fs)) \<le> 128"
    using assms by (auto simp: layout_ok_def word_less_nat_alt word_le_nat_alt)
  then show c: "unat (cluster_size fs) = csize fs"
    by (simp add: cluster_size_def bps_512 [OF assms] unat_word_ariths unat_spc)
  show "0 < csize fs" "csize fs \<le> 65536" using s by simp_all
  show "unat (ucast (cluster_size fs) :: u64) = csize fs" using c by (simp add: unat_ucast_32_64)
qed

lemma first_sector_nat:
  assumes "layout_ok fs n" and "in_chain c" and "unat c < unat (total_clusters fs) + 2"
  shows "unat (first_sector fs c) = cluster_first fs c"
    and "cluster_first fs c + unat (sectors_per_cluster (fs_bpb fs)) \<le> n"
proof -
  define m where "m = unat (sectors_per_cluster (fs_bpb fs))"
  have c2: "2 \<le> c" "2 \<le> unat c" using assms(2) by (auto simp: in_chain_def word_le_nat_alt)
  have lay: "unat (data_start fs) + unat (total_clusters fs) * m \<le> n" "n < 2 ^ 32"
    using assms(1) by (auto simp: layout_ok_def m_def)
  have "unat c - 2 + 1 \<le> unat (total_clusters fs)" using assms(3) c2 by simp
  then have "(unat c - 2 + 1) * m \<le> unat (total_clusters fs) * m" by (rule mult_le_mono1)
  then have b: "unat (data_start fs) + ((unat c - 2) * m + m) \<le> n" using lay by simp
  have "unat (c - 2) = unat c - 2" using c2(1) by (simp add: unat_sub)
  then have "unat ((c - 2) * spc fs) = (unat c - 2) * m"
    using b lay by (simp add: unat_word_ariths unat_spc m_def)
  then show "unat (first_sector fs c) = cluster_first fs c"
    using b lay by (simp add: first_sector_def cluster_first_def unat_word_ariths m_def)
  show "cluster_first fs c + unat (sectors_per_cluster (fs_bpb fs)) \<le> n"
    using b by (simp add: cluster_first_def m_def)
qed

lemma length_cluster_data:
  assumes "\<And>i. length (sec i) = 512"
  shows "length (cluster_data fs sec c) = csize fs"
  using assms by (simp add: cluster_data_def length_sectors)

lemma drop_concat_equal:
  assumes "\<forall>x \<in> set xs. length x = L"
  shows "drop (n * L) (concat xs) = concat (drop n xs)"
  using assms
proof (induction n arbitrary: xs)
  case (Suc n)
  show ?case
  proof (cases xs)
    case (Cons x ys)
    then have "drop (Suc n * L) (concat xs) = drop (n * L) (concat ys)" using Suc.prems by simp
    with Suc Cons show ?thesis by simp
  qed simp
qed simp

section \<open>Reading\<close>

context fat_disk
begin

abbreviation cdata :: "'d \<Rightarrow> u32 \<Rightarrow> bytes" where
  "cdata dk \<equiv> cluster_data fs (sect dk)"

text \<open>One sector of a cluster, from a byte position on.\<close>

lemma cluster_sector:
  assumes "start < csize fs"
  shows "k \<le> 512 - start mod 512 \<Longrightarrow>
    take k (drop (start mod 512) (sect dk (cluster_first fs c + start div 512))) = take k (drop start (cdata dk c))"
proof -
  assume k: "k \<le> 512 - start mod 512"
  define q where "q = start div 512"
  have q: "q < unat (sectors_per_cluster (fs_bpb fs))" using assms by (simp add: q_def less_mult_imp_div_less mult.commute)
  have "drop (512 * q) (cdata dk c) = sect dk (cluster_first fs c + q) @
      sectors (sect dk) (Suc (cluster_first fs c + q)) (cluster_first fs c + unat (sectors_per_cluster (fs_bpb fs)))"
    using q drop_sectors [of "sect dk" "cluster_first fs c" q]
      sectors_Cons [of "cluster_first fs c + q" "cluster_first fs c + unat (sectors_per_cluster (fs_bpb fs))" "sect dk"]
    by (simp add: cluster_data_def)
  then have "drop start (cdata dk c) = drop (start mod 512) (sect dk (cluster_first fs c + q)) @
      sectors (sect dk) (Suc (cluster_first fs c + q)) (cluster_first fs c + unat (sectors_per_cluster (fs_bpb fs)))"
    using drop_drop [of "start mod 512" "512 * q" "cdata dk c"] by (simp add: q_def)
  then show ?thesis using k by (simp add: q_def)
qed

lemma read_in_cluster_spec:
  assumes lay: "layout_ok fs nsec" and c: "in_chain c" "unat c < unat (total_clusters fs) + 2"
    and "unat start \<le> csize fs"
  shows "read_in_cluster B fs (first_sector fs c) start r out dk =
     (let k = min (unat r) (csize fs - unat start)
      in Some (Inr (r - of_nat k, out @ take k (drop (unat start) (cdata dk c)))))"
  using assms(4)
proof (induction "csize fs - unat start" arbitrary: start r out rule: less_induct)
  case less
  note cs = cluster_size_nat [OF lay]
  show ?case
  proof (cases "start < cluster_size fs \<and> 0 < r")
    case False
    then have "min (unat r) (csize fs - unat start) = 0"
      using less.prems cs(1) by (auto simp: word_less_nat_alt)
    then show ?thesis using False by (subst read_in_cluster.simps) auto
  next
    case True
    then have st: "unat start < csize fs" and r0: "0 < unat r" using cs(1) by (auto simp: word_less_nat_alt)
    have s32: "unat start < 65536" using st cs(3) by simp
    have div: "unat (start div 512) = unat start div 512" "unat (start mod 512) = unat start mod 512"
      by (simp_all add: unat_div unat_mod)
    have q: "unat start div 512 < unat (sectors_per_cluster (fs_bpb fs))"
      using st by (simp add: less_mult_imp_div_less mult.commute)
    have sn: "unat (first_sector fs c + start div 512) = cluster_first fs c + unat start div 512"
      "unat (first_sector fs c + start div 512) < nsec"
      using first_sector_nat [OF lay c] q lay by (simp_all add: unat_word_ariths div layout_ok_def)
    define bi where "bi = start mod 512"
    define chunk :: u32 where "chunk = (if r < ucast (512 - bi) then ucast r else 512 - bi)"
    have ubi: "unat (512 - bi) = 512 - unat start mod 512"
    proof -
      have "bi \<le> 512" by (simp add: bi_def word_le_nat_alt div)
      then show ?thesis by (simp add: unat_sub bi_def div)
    qed
    then have u64: "unat (ucast (512 - bi) :: u64) = 512 - unat start mod 512" by (simp add: unat_ucast_32_64)
    have uchunk: "unat chunk = min (unat r) (512 - unat start mod 512)"
    proof (cases "r < ucast (512 - bi)")
      case True
      then have "unat r < 512 - unat start mod 512" using u64 by (simp add: word_less_nat_alt)
      then show ?thesis using True by (simp add: chunk_def unsigned_ucast_eq take_bit_nat_eq_self)
    next
      case False
      then show ?thesis using ubi u64 by (simp add: chunk_def word_less_nat_alt)
    qed
    have le: "unat start + unat chunk \<le> csize fs"
    proof -
      have "unat start div 512 * 512 + 512 \<le> csize fs" using q by simp
      then show ?thesis using uchunk div_mult_mod_eq [of "unat start" 512] by linarith
    qed
    have us: "unat (start + chunk) = unat start + unat chunk" using le cs(3) by (simp add: unat_word_ariths)
    have chunk0: "0 < unat chunk" using r0 uchunk by simp
    have ur: "unat (r - ucast chunk) = unat r - unat chunk"
      using uchunk by (subst unat_sub) (simp_all add: word_le_nat_alt unat_ucast_32_64)
    define k where "k = min (unat r) (csize fs - unat start)"
    define k' where "k' = min (unat r - unat chunk) (csize fs - (unat start + unat chunk))"
    have "unat chunk \<le> unat r" using uchunk by simp
    then have kk: "k = unat chunk + k'" using le unfolding k_def k'_def by linarith
    have "take (unat chunk) (drop (unat bi) (sect dk (cluster_first fs c + unat start div 512))) =
        take (unat chunk) (drop (unat start) (cdata dk c))"
      using cluster_sector [OF st, of "unat chunk"] uchunk by (simp add: bi_def div)
    then have step: "read_in_cluster B fs (first_sector fs c) start r out dk =
        read_in_cluster B fs (first_sector fs c) (start + chunk) (r - ucast chunk)
          (out @ take (unat chunk) (drop (unat start) (cdata dk c))) dk"
      using True rd [OF sn(2)] sn(1)
      by (subst read_in_cluster.simps, cases "r < ucast (512 - bi)")
         (simp_all add: bps_512 [OF lay] Let_def bi_def [symmetric] chunk_def)
    have "r - ucast chunk - of_nat k' = r - of_nat k" by (simp add: kk)
    moreover have "take (unat chunk) (drop (unat start) (cdata dk c)) @ take k' (drop (unat start + unat chunk) (cdata dk c)) =
        take k (drop (unat start) (cdata dk c))"
      unfolding kk take_add by (simp add: add.commute)
    ultimately show ?thesis
      using less.hyps [of "start + chunk" "r - ucast chunk" "out @ take (unat chunk) (drop (unat start) (cdata dk c))"]
        le us chunk0 st step ur
      by (simp add: k_def [symmetric] k'_def [symmetric] Let_def)
  qed
qed

end

context fat_disk
begin

lemma read_clusters_spec:
  assumes lay: "layout_ok fs nsec" and "chain_from fs (fat dk) c cs" and "unat start \<le> csize fs"
  shows "read_clusters B fs c start r out dk =
     Some (out @ take (unat r) (drop (unat start) (chain_data fs (sect dk) cs)))"
  using assms(2,3)
proof (induction cs arbitrary: c start r out)
  case Nil
  then show ?case by (subst read_clusters.simps) (simp add: chain_data_def)
next
  case (Cons x xs)
  then have x: "c = x" "in_chain x" "unat x < unat (total_clusters fs) + 2" "chain_from fs (fat dk) (fat dk (unat x)) xs"
    by auto
  show ?case
  proof (cases "r = 0")
    case True
    then show ?thesis by (subst read_clusters.simps) simp
  next
    case False
    define k where "k = min (unat r) (csize fs - unat start)"
    have lc: "length (cdata dk x) = csize fs" by (simp add: length_cluster_data)
    have in1: "read_in_cluster B fs (first_sector fs x) start r out dk =
        Some (Inr (r - of_nat k, out @ take k (drop (unat start) (cdata dk x))))"
      using read_in_cluster_spec [OF lay x(2,3) Cons.prems(2)] by (simp add: k_def Let_def)
    have "unat (of_nat k :: u64) = k" using unat_less_pow64 [of r] by (intro unat_of_nat64) (simp add: k_def)
    then have ur: "unat (r - of_nat k) = unat r - k"
      by (subst unat_sub) (simp_all add: word_le_nat_alt k_def)
    have "take (unat r) (drop (unat start) (chain_data fs (sect dk) (x # xs))) =
        take k (drop (unat start) (cdata dk x)) @ take (unat r - k) (chain_data fs (sect dk) xs)"
      using Cons.prems(2) lc by (simp add: chain_data_def k_def min_def)
    then show ?thesis
      using x False in1 fat_next_value [OF lay x(3)] Cons.IH [OF x(4), of 0 "r - of_nat k"] ur
      by (subst read_clusters.simps) (auto simp: word_gt_0)
  qed
qed

lemma skip_clusters_spec:
  assumes lay: "layout_ok fs nsec" and "chain_from fs (fat dk) c cs" and "n < length cs"
  shows "skip_clusters B fs n c dk = Some (Some (cs ! n)) \<and> chain_from fs (fat dk) (cs ! n) (drop n cs)"
  using assms(2,3)
proof (induction n arbitrary: c cs)
  case 0
  then show ?case by (cases cs) auto
next
  case (Suc n)
  then obtain x y zs where cs: "cs = x # y # zs" by (cases cs; cases "tl cs") auto
  then have "c = x" "unat x < unat (total_clusters fs) + 2" "chain_from fs (fat dk) (fat dk (unat x)) (y # zs)"
    "in_chain (fat dk (unat x))"
    using Suc.prems(1) by auto
  then show ?case using Suc.IH [of "fat dk (unat x)" "y # zs"] Suc.prems(2) fat_next_value [OF lay] cs by auto
qed

lemma length_chain_data: "length (chain_data fs (sect dk) cs) = csize fs * length cs"
  by (induction cs) (simp_all add: chain_data_def length_cluster_data)

lemma drop_chain_data: "drop (n * csize fs) (chain_data fs (sect dk) cs) = chain_data fs (sect dk) (drop n cs)"
  using drop_concat_equal [of "map (cdata dk) cs" "csize fs" n]
  by (simp add: chain_data_def length_cluster_data drop_map)

lemma read_file_slice:
  assumes lay: "layout_ok fs nsec" and ch: "chain_from fs (fat dk) c cs"
    and sz: "unat sz \<le> csize fs * length cs" and nw: "unat offset + unat count < 2 ^ 64" and small: "unat count < 2 ^ 31"
  shows "fat32_read_file B fs c sz offset count dk =
     (let bs = take (unat count) (drop (unat offset) (take (unat sz) (chain_data fs (sect dk) cs)))
      in Some (int (length bs), bs))"
proof (cases "count = 0 \<or> ucast sz \<le> offset")
  case True
  then have "unat count = 0 \<or> unat sz \<le> unat offset" by (auto simp: word_le_nat_alt unat_ucast_32_64)
  then show ?thesis using True by (auto simp: fat32_read_file_def)
next
  case False
  define data where "data = chain_data fs (sect dk) cs"
  note cs = cluster_size_nat [OF lay]
  have os: "unat offset < unat sz" using False by (simp add: word_le_nat_alt unat_ucast_32_64)
  define n where "n = unat offset div csize fs"
  define st where "st = unat offset mod csize fs"
  have on: "unat offset = n * csize fs + st"
    unfolding n_def st_def by (rule div_mult_mod_eq [symmetric])
  have nl: "n < length cs"
    using os sz cs(2) by (simp add: n_def less_mult_imp_div_less mult.commute)
  have stl: "st < csize fs" using cs(2) by (simp add: st_def)
  have un: "unat (ucast (offset div ucast (cluster_size fs)) :: u32) = n"
  proof -
    have "unat (offset div ucast (cluster_size fs)) = n" by (simp add: unat_div cs(4) n_def)
    moreover have "n < 2 ^ 32" using os unat_less_pow32 [of sz] by (simp add: n_def) (meson div_le_dividend le_less_trans order.strict_trans)
    ultimately show ?thesis by (simp add: unsigned_ucast_eq take_bit_nat_eq_self)
  qed
  have ust: "unat (ucast (offset mod ucast (cluster_size fs)) :: u32) = st"
  proof -
    have "unat (offset mod ucast (cluster_size fs)) = st" by (simp add: unat_mod cs(4) st_def)
    moreover have "st < 2 ^ 32" using stl cs(3) by simp
    ultimately show ?thesis by (simp add: unsigned_ucast_eq take_bit_nat_eq_self)
  qed
  define cnt where "cnt = (if ucast sz < offset + count then ucast sz - offset else count)"
  have uc: "unat cnt = min (unat count) (unat sz - unat offset)"
    using nw os by (auto simp: cnt_def word_less_nat_alt unat_add_nowrap unat_ucast_32_64 unat_sub word_le_nat_alt)
  note sk = skip_clusters_spec [OF lay ch nl]
  have "read_clusters B fs (cs ! n) (ucast (offset mod ucast (cluster_size fs))) cnt [] dk =
      Some (take (unat cnt) (drop st (chain_data fs (sect dk) (drop n cs))))"
    using read_clusters_spec [OF lay, of dk "cs ! n" "drop n cs" "ucast (offset mod ucast (cluster_size fs))" cnt "[]"] sk ust stl
    by simp
  also have "drop st (chain_data fs (sect dk) (drop n cs)) = drop (unat offset) data"
    by (simp add: data_def drop_chain_data [symmetric] on add.commute)
  finally have rc: "read_clusters B fs (cs ! n) (ucast (offset mod ucast (cluster_size fs))) cnt [] dk =
      Some (take (unat cnt) (drop (unat offset) data))" .
  have bs: "take (unat count) (drop (unat offset) (take (unat sz) data)) = take (unat cnt) (drop (unat offset) data)"
    by (simp add: uc drop_take min.commute)
  have ll: "length (take (unat cnt) (drop (unat offset) data)) < 2 ^ 31" using small uc by simp
  show ?thesis
    using False sk un rc to_int_small [OF ll] bs
    by (simp add: fat32_read_file_def data_def [symmetric] cnt_def [symmetric] Let_def)
qed

end

text \<open>
  C6 (equivalence): \<^verbatim>\<open>fat32_read_file\<close> on a file whose cluster chain ends and holds its size, over any
  driver that stores sectors and any well-formed tree of partitions, returns the requested slice of
  the first \<open>size\<close> bytes of the concatenated clusters, and its length.  (Requests below 2 GiB whose
  end does not wrap.)
\<close>

theorem fat32_read_file_slice:
  assumes "\<forall>e \<in> set (chain b (fs_bdev fs)). dev_ready ops_read b e \<and> dev_ready ops_write b e"
    and "last (chain b (fs_bdev fs)) = Drv n" and "driver_stores V n cont (unat (bd_sector_count (drv_devs b n)))"
    and "layout_ok fs (unat (bd_sector_count (dev_at b (fs_bdev fs))))"
    and "chain_from fs (fat_of fs (\<lambda>i. cont dk (chain_start b (fs_bdev fs) + i))) c cs"
    and "unat sz \<le> csize fs * length cs" and "unat offset + unat count < 2 ^ 64" and "unat count < 2 ^ 31"
  shows "fat32_read_file (block_io V b) fs c sz offset count dk =
     (let bs = take (unat count) (drop (unat offset) (take (unat sz)
                 (chain_data fs (\<lambda>i. cont dk (chain_start b (fs_bdev fs) + i)) cs)))
      in Some (int (length bs), bs))"
  by (rule fat_disk.read_file_slice [OF block_layer_fat_disk [OF assms(1-3)] assms(4-8)])

text \<open>A file of 600 bytes in the clusters 2 and 3 of the sample volume.\<close>

definition file_disk :: "nat \<Rightarrow> bytes" where
  "file_disk = small_disk(102 := replicate 512 7, 103 := replicate 512 9)"

theorem fat32_read_file_slice_witness:
  "fat32_read_file (block_io sector_driver one_part) small_fs 2 600 510 4 file_disk = Some (4, [7, 7, 9, 9])"
proof -
  have l: "layout_ok small_fs (unat (bd_sector_count (dev_at one_part (fs_bdev small_fs))))"
    using small_fs_layout small_fs_chain by simp
  have "fat_of small_fs (\<lambda>i. sector512 (file_disk (100 + i))) m = fat_of small_fs (\<lambda>i. sector512 (small_disk (100 + i))) m"
    if "m < 128" for m
    using that by (simp add: fat_of_def small_fs_def file_disk_def)
  then have c: "chain_from small_fs (fat_of small_fs (\<lambda>i. sector512 (file_disk (100 + i)))) 2 [2, 3]"
    using small_disk_fat by (simp add: in_chain_def FAT32_EOC_def) (simp add: small_fs_def)
  have d: "take 4 (drop 510 (take 600 (chain_data small_fs (\<lambda>i. sector512 (file_disk (100 + i))) [2, 3]))) = [7, 7, 9, 9]"
    by code_simp
  have cs: "csize small_fs = 512" by (simp add: small_fs_def small_bpb_def)
  show ?thesis
    using fat32_read_file_slice [OF small_fs_ready _ sector_driver_stores l, of 0 file_disk 2 "[2, 3]" 600 510 4]
      small_fs_chain c d by (simp add: cs del: chain_from.simps)
qed

text \<open>
  \<^verbatim>\<open>offset + count > size\<close> is computed modulo $2^{64}$: with a count that makes the sum wrap, the
  request is not cut to the size of the file and the whole rest of the chain is copied.
\<close>

lemma fat32_read_file_past_end:
  "\<exists>bs. fat32_read_file (block_io sector_driver one_part) small_fs 2 600 1 (- 1) file_disk = Some (1023, bs)"
proof -
  have "fat_of small_fs (\<lambda>i. sector512 (file_disk (100 + i))) m = fat_of small_fs (\<lambda>i. sector512 (small_disk (100 + i))) m"
    if "m < 128" for m
    using that by (simp add: fat_of_def small_fs_def file_disk_def)
  then have c: "chain_from small_fs (fat_of small_fs (\<lambda>i. sector512 (file_disk (100 + i)))) 2 [2, 3]"
    using small_disk_fat by (simp add: in_chain_def FAT32_EOC_def) (simp add: small_fs_def)
  have m1: "unat (- 1 :: u64) = 2 ^ 64 - 1" by (simp add: unsigned_minus_1_eq_mask mask_eq_exp_minus_1)
  have cs: "cluster_size small_fs = 512" "csize small_fs = 512"
    by (simp_all add: cluster_size_def small_fs_def small_bpb_def)
  have l: "length (chain_data small_fs (\<lambda>i. sector512 (file_disk (100 + i))) [2, 3]) = 1024"
    using small.length_chain_data [of file_disk "[2, 3]"] cs by simp
  have "read_clusters (block_io sector_driver one_part) small_fs 2 1 (- 1) [] file_disk =
      Some (drop 1 (chain_data small_fs (\<lambda>i. sector512 (file_disk (100 + i))) [2, 3]))"
    using small.read_clusters_spec [OF small_fs_layout c, of 1 "- 1" "[]"] l by (simp add: cs m1)
  moreover have "to_int (of_nat 1023) = 1023" using to_int_small [of 1023] by simp
  ultimately show ?thesis using l by (simp add: fat32_read_file_def cs word_le_nat_alt)
qed

section \<open>Long names\<close>

text \<open>A name the short form cannot lose: printable characters and no NUL.\<close>

definition printable :: "u8 \<Rightarrow> bool" where
  "printable c \<longleftrightarrow> 0x20 \<le> c \<and> c \<le> 0x7E"

lemma lfn_chars_printable:
  assumes "list_all printable cs" and "length cs \<le> room"
  shows "lfn_chars (map ucast cs @ replicate k 0xFFFF) room = cs"
  using assms
proof (induction cs arbitrary: room)
  case Nil
  then show ?case by (cases k) auto
next
  case (Cons c cs)
  have c: "0x20 \<le> unat c" "unat c \<le> 0x7E" using Cons.prems(1) by (simp_all add: printable_def word_le_nat_alt)
  have "unat c < 2 ^ 16" using unat_less_pow8 [of c] by simp
  then have u: "unat (ucast c :: u16) = unat c" by (simp add: unsigned_ucast_eq take_bit_nat_eq_self)
  have "unat (ucast (ucast c :: u16) :: u8) = unat (ucast c :: u16) mod 256"
    by (subst unsigned_ucast_eq) (simp add: take_bit_eq_mod)
  then have "unat (ucast (ucast c :: u16) :: u8) = unat c" using u unat_less_pow8 [of c] by simp
  then have "ucast (ucast c :: u16) = c" by (simp add: word_unat_eq_iff)
  moreover have "(ucast c :: u16) \<noteq> 0xFFFF" "(ucast c :: u16) \<noteq> 0xFFFE"
    using c u by (auto simp: word_unat_eq_iff)
  moreover have "0x20 \<le> (ucast c :: u16)" "(ucast c :: u16) \<le> 0x7E" using c u by (simp_all add: word_le_nat_alt)
  ultimately show ?case using Cons by simp
qed

lemma lfn_name_entry:
  assumes "length (take 13 (drop (i * 13) name)) = m"
  shows "lfn_name (lfn_entry name needed i) = map ucast (take 13 (drop (i * 13) name)) @ replicate (13 - m) 0xFFFF"
proof -
  define buf where "buf = ascii_to_utf16 (take 13 (drop (i * 13) name)) 13"
  have "length buf = 13" by (simp add: buf_def ascii_to_utf16_def)
  then have "take 5 buf @ take 6 (drop 5 buf) @ take 2 (drop 11 buf) = buf"
    by (intro nth_equalityI) (auto simp: nth_append)
  moreover have "buf = map ucast (take 13 (drop (i * 13) name)) @ replicate (13 - m) 0xFFFF"
    using assms by (simp add: buf_def ascii_to_utf16_def)
  ultimately show ?thesis by (simp add: lfn_name_def lfn_entry_def Let_def buf_def [symmetric])
qed

text \<open>
  The parts \<^verbatim>\<open>build_lfn_entries\<close> makes are stored in the order of the array, part \<open>i\<close> with sequence
  number \<open>needed - i\<close>; \<^verbatim>\<open>add_lfn_entry\<close> puts a part with number \<open>q\<close> at index \<open>q - 1\<close>.  The name read back is
  therefore made of the pieces of 13 characters in reverse order.
\<close>

fun read_back :: "fat_scan_state \<Rightarrow> fat32_lfn_part list \<Rightarrow> fat_scan_state" where
  "read_back st [] = st"
| "read_back st (l # ls) = read_back (snd (add_lfn_entry st l)) ls"

lemma seq_numbers:
  assumes "n \<le> 20"
  shows "uint ((of_nat n OR 0x40 :: u8) AND 0x1F) = int n" "(of_nat n OR 0x40 :: u8) AND 0x40 \<noteq> 0"
    "uint ((of_nat n :: u8) AND 0x1F) = int n" "(of_nat n :: u8) AND 0x40 = 0"
proof -
  have "list_all (\<lambda>n. uint ((of_nat n OR 0x40 :: u8) AND 0x1F) = int n \<and> (of_nat n OR 0x40 :: u8) AND 0x40 \<noteq> 0 \<and>
      uint ((of_nat n :: u8) AND 0x1F) = int n \<and> (of_nat n :: u8) AND 0x40 = 0) [0..<21]"
    by code_simp
  moreover have "n \<in> set [0..<21]" using assms by simp
  ultimately show "uint ((of_nat n OR 0x40 :: u8) AND 0x1F) = int n" "(of_nat n OR 0x40 :: u8) AND 0x40 \<noteq> 0"
    "uint ((of_nat n :: u8) AND 0x1F) = int n" "(of_nat n :: u8) AND 0x40 = 0"
    unfolding list_all_iff by blast+
qed

lemma read_back_prefix:
  fixes name :: bytes and st :: fat_scan_state
  assumes "k \<le> m" and "1 \<le> k" and "m \<le> 20"
  defines "st' \<equiv> read_back st (map (lfn_entry name m) [0..<k])"
  shows "lfn_count st' = int m \<and> lfn_seq st' = int (m - k + 1) \<and> (\<forall>j < k. lfn_buf st' (m - 1 - j) = lfn_entry name m j)"
  using assms(1,2) unfolding st'_def
proof (induction k)
  case (Suc k)
  have app: "read_back st (xs @ ys) = read_back (read_back st xs) ys" for st xs ys
    by (induction st xs rule: read_back.induct) auto
  show ?case
  proof (cases "k = 0")
    case True
    have "l_seq (lfn_entry name m 0) = of_nat m OR 0x40" by (simp add: lfn_entry_def Let_def)
    then show ?thesis using True Suc.prems assms(3) seq_numbers [OF assms(3)]
      by (simp add: add_lfn_entry_def Let_def FAT32_MAX_LFN_ENTRIES_def nat_diff_distrib)
  next
    case False
    define s where "s = read_back st (map (lfn_entry name m) [0..<k])"
    have s: "lfn_count s = int m" "lfn_seq s = int (m - k + 1)" "\<And>j. j < k \<Longrightarrow> lfn_buf s (m - 1 - j) = lfn_entry name m j"
      using Suc False by (auto simp: s_def)
    have q: "l_seq (lfn_entry name m k) = of_nat (m - k)" using False by (simp add: lfn_entry_def Let_def)
    have mk: "m - k \<le> 20" "1 \<le> m - k" using Suc.prems assms(3) by auto
    have "snd (add_lfn_entry s (lfn_entry name m k)) =
        s\<lparr>lfn_seq := int (m - k), lfn_buf := (lfn_buf s)(m - 1 - k := lfn_entry name m k)\<rparr>"
      using seq_numbers(3,4) [OF mk(1)] mk s(2)
      by (simp add: add_lfn_entry_def q Let_def FAT32_MAX_LFN_ENTRIES_def nat_diff_distrib)
    moreover have "m - 1 - j \<noteq> m - 1 - k" if "j < k" for j using that Suc.prems by arith
    ultimately show ?thesis using s Suc.prems
      by (auto simp: app s_def [symmetric] less_Suc_eq)
  qed
qed simp

lemma collect_lfn_pieces:
  assumes "\<And>i. i \<in> set is \<Longrightarrow> list_all printable (take 13 (drop (i * 13) name))"
    and "(\<Sum>i \<leftarrow> is. length (take 13 (drop (i * 13) name))) < room"
  shows "collect_lfn (map (lfn_entry name m) is) room = concat (map (\<lambda>i. take 13 (drop (i * 13) name)) is)"
  using assms
proof (induction "is" arbitrary: room)
  case (Cons i "is")
  define p where "p = take 13 (drop (i * 13) name)"
  have "list_all printable p" "length p \<le> room - 1" using Cons.prems(1) [of i] Cons.prems(2) by (simp_all add: p_def)
  then have "lfn_to_ascii (lfn_name (lfn_entry name m i)) room = p"
    using lfn_chars_printable [of p "room - 1" "13 - length p"]
    by (simp add: lfn_to_ascii_def lfn_name_entry [OF refl] p_def [symmetric])
  moreover have "collect_lfn (map (lfn_entry name m) is) (room - length p) =
      concat (map (\<lambda>i. take 13 (drop (i * 13) name)) is)"
    using Cons.prems by (intro Cons.IH) (simp_all add: p_def less_diff_conv add.commute)
  ultimately show ?case by (simp add: p_def)
qed simp

text \<open>
  The long name that listing and lookup collect from the entries a file was created
  with, for a name of 1 to 255 printable characters, is the sequence of its pieces of 13 characters
  in reverse order.  A name of at most 13 characters therefore reads back as it was given; a longer
  one does not, unless the reversal happens to be the name itself.
\<close>

lemma long_name_read_back:
  assumes "list_all printable name" and "1 \<le> length name" and "length name \<le> 255"
  shows "collect_lfn (lfn_parts (read_back st (build_lfn_entries name))) VFS_NAME_MAX =
           concat (rev (map (\<lambda>i. take 13 (drop (i * 13) name)) [0..<(length name + 12) div 13])) \<and>
         (length name \<le> 13 \<longrightarrow> collect_lfn (lfn_parts (read_back st (build_lfn_entries name))) VFS_NAME_MAX = name)"
proof -
  define m where "m = (length name + 12) div 13"
  have m: "1 \<le> m" "m \<le> 20" using assms(2,3) by (simp_all add: m_def)
  have len: "(\<Sum>i \<leftarrow> [0..<k]. length (take 13 (drop (i * 13) name))) = min (13 * k) (length name)" for k
    by (induction k) auto
  note rb = read_back_prefix [of m m st name]
  define s where "s = read_back st (map (lfn_entry name m) [0..<m])"
  have s: "lfn_count s = int m" "\<And>j. j < m \<Longrightarrow> lfn_buf s (m - 1 - j) = lfn_entry name m j"
    using rb m by (simp_all add: s_def)
  have "lfn_buf s i = lfn_entry name m (m - 1 - i)" if "i < m" for i using s(2) [of "m - 1 - i"] that by simp
  then have "map (lfn_buf s) [0..<m] = map (lfn_entry name m) (rev [0..<m])"
    by (intro nth_equalityI) (auto simp: rev_nth)
  moreover have "read_back st (build_lfn_entries name) = s"
    using m by (simp add: s_def build_lfn_entries_def m_def [symmetric] min_def Let_def)
  ultimately have "lfn_parts (read_back st (build_lfn_entries name)) = map (lfn_entry name m) (rev [0..<m])"
    by (simp add: lfn_parts_def s(1))
  moreover have "list_all printable (take 13 (drop (i * 13) name))" for i
    using assms(1) by (auto simp: list_all_iff dest: in_set_takeD in_set_dropD)
  ultimately have eq: "collect_lfn (lfn_parts (read_back st (build_lfn_entries name))) VFS_NAME_MAX =
      concat (map (\<lambda>i. take 13 (drop (i * 13) name)) (rev [0..<m]))"
    using collect_lfn_pieces [of "rev [0..<m]" name VFS_NAME_MAX m] len [of m] assms(3)
    by (simp add: VFS_NAME_MAX_def rev_map [symmetric])
  moreover have "concat (map (\<lambda>i. take 13 (drop (i * 13) name)) (rev [0..<m])) = name" if "length name \<le> 13"
  proof -
    have "m = 1" using that assms(2) by (simp add: m_def)
    then show ?thesis using that by simp
  qed
  ultimately show ?thesis by (simp add: m_def rev_map)
qed

end
