(* ===== verification/Vmm.thy ===== *)
theory Vmm
  imports Pmm
begin

text \<open>
  Page tables, \<^verbatim>\<open>kernel/mm/vmm.c\<close>.  The tables are 512-entry arrays in the physical memory of
  theory Pmm, reached through addresses: entry \<open>i\<close> of the table at \<open>t\<close> is the memory word at
  \<open>t + 8 * i\<close>.  The walk that the processor makes, \<open>pt_walk\<close>, is the reference: the theorems say
  how each operation changes what every virtual address is mapped to.
\<close>

section \<open>Definitions\<close>

definition PAGE_PRESENT :: u64 where "PAGE_PRESENT = 1"
definition PAGE_WRITE :: u64 where "PAGE_WRITE = 2"
definition PAGE_USER :: u64 where "PAGE_USER = 4"
definition PAGE_HUGE :: u64 where "PAGE_HUGE = 0x80"
definition PAGE_SIZE :: u64 where "PAGE_SIZE = 0x1000"
definition PAGE_TABLE_FLAGS :: u64 where "PAGE_TABLE_FLAGS = PAGE_PRESENT OR PAGE_WRITE"

lemmas page_flags = PAGE_PRESENT_def PAGE_WRITE_def PAGE_USER_def PAGE_HUGE_def PAGE_TABLE_FLAGS_def

record cpu = phys +
  cr3 :: u64

definition vmm_read_cr3 :: "'a cpu_scheme \<Rightarrow> u64" where
  "vmm_read_cr3 s = cr3 s"

definition vmm_write_cr3 :: "u64 \<Rightarrow> 'a cpu_scheme \<Rightarrow> 'a cpu_scheme" where
  "vmm_write_cr3 v s = s\<lparr>cr3 := v\<rparr>"

text \<open>The address of \<^verbatim>\<open>table[idx]\<close>, and the index a level takes from a virtual address.\<close>

definition entry_addr :: "u64 \<Rightarrow> nat \<Rightarrow> u64" where
  "entry_addr table idx = table + of_nat (8 * idx)"

definition pt_idx :: "nat \<Rightarrow> u64 \<Rightarrow> nat" where
  "pt_idx level virt = unat (drop_bit (39 - level * 9) virt AND 0x1FF)"

definition zero_page :: "u64 \<Rightarrow> mem64 \<Rightarrow> mem64" where
  "zero_page page m = fold (\<lambda>i m. m(entry_addr page i := 0)) [0..<512] m"

definition vmm_create_pml4 :: "'a cpu_scheme \<Rightarrow> (u64 \<times> 'a cpu_scheme) option" where
  "vmm_create_pml4 s =
     do { let kernel_pml4 = vmm_read_cr3 s;
          (page, s) \<leftarrow> pmm_alloc s;
          if page = 0 then Some (0, s)
          else let m1 = fold (\<lambda>i m. m(entry_addr page i := m (entry_addr kernel_pml4 i))) [0..<512] (pmem s);
                   m2 = fold (\<lambda>i m. m(entry_addr page i := 0)) [1..<256] m1
               in Some (page, s\<lparr>pmem := m2\<rparr>) }"

definition walk_or_create ::
  "u64 \<Rightarrow> nat \<Rightarrow> u64 \<Rightarrow> u64 \<Rightarrow> 'a phys_scheme \<Rightarrow> (u64 \<times> 'a phys_scheme) option" where
  "walk_or_create table level virt entry_flags s =
     (let e = entry_addr table (pt_idx level virt) in
      if pmem s e AND PAGE_PRESENT \<noteq> 0 then
        if pmem s e AND PAGE_HUGE \<noteq> 0 \<and> level < 3 then Some (0, s)
        else Some (page_base (pmem s e), s)
      else do { (page, s) \<leftarrow> pmm_alloc s;
                if page = 0 then Some (0, s)
                else let m = zero_page page (pmem s)
                     in Some (page, s\<lparr>pmem := m(e := page OR entry_flags OR PAGE_PRESENT)\<rparr>) })"

text \<open>Result 0 or -1 as the source returns it.\<close>

definition vmm_map_page ::
  "u64 \<Rightarrow> u64 \<Rightarrow> u64 \<Rightarrow> u64 \<Rightarrow> 'a phys_scheme \<Rightarrow> (int \<times> 'a phys_scheme) option" where
  "vmm_map_page pml4 virt phys leaf_flags s =
     do { let table_flags = (if leaf_flags AND PAGE_USER \<noteq> 0 then PAGE_TABLE_FLAGS OR PAGE_USER
                             else PAGE_TABLE_FLAGS);
          (pdpt, s) \<leftarrow> walk_or_create pml4 0 virt table_flags s;
          if pdpt = 0 then Some (-1, s) else do {
          (pd, s) \<leftarrow> walk_or_create pdpt 1 virt table_flags s;
          if pd = 0 then Some (-1, s) else do {
          (pt, s) \<leftarrow> walk_or_create pd 2 virt table_flags s;
          if pt = 0 then Some (-1, s)
          else let e = entry_addr pt (pt_idx 3 virt) in
            if pmem s e AND PAGE_PRESENT \<noteq> 0 then Some (-1, s)
            else Some (0, s\<lparr>pmem := (pmem s)(e := phys OR leaf_flags OR PAGE_PRESENT)\<rparr>) }}}"

function vmm_map_range_loop ::
  "u64 \<Rightarrow> u64 \<Rightarrow> u64 \<Rightarrow> u64 \<Rightarrow> u64 \<Rightarrow> u64 \<Rightarrow> 'a phys_scheme \<Rightarrow> (int \<times> 'a phys_scheme) option" where
  "vmm_map_range_loop pml4 virt phys pages flags i s =
     (if i < pages then
        do { (r, s) \<leftarrow> vmm_map_page pml4 (virt + i * PAGE_SIZE) (phys + i * PAGE_SIZE) flags s;
             if r \<noteq> 0 then Some (-1, s)
             else vmm_map_range_loop pml4 virt phys pages flags (i + 1) s }
      else Some (0, s))"
  by pat_completeness auto
termination
proof (relation "measure (\<lambda>(_, _, _, pages, _, i, _). unat pages - unat i)", simp)
  fix pml4 virt phys pages flags i :: u64 and s t :: "'a phys_scheme" and x y r
  assume "i < pages"
  then show "((pml4, virt, phys, pages, flags, i + 1, t), pml4, virt, phys, pages, flags, i, s)
      \<in> measure (\<lambda>(_, _, _, pages, _, i, _). unat pages - unat i)"
    by (simp add: unat_Suc_lt word_less_nat_alt)
qed

declare vmm_map_range_loop.simps [simp del]

definition vmm_map_range ::
  "u64 \<Rightarrow> u64 \<Rightarrow> u64 \<Rightarrow> u64 \<Rightarrow> u64 \<Rightarrow> 'a phys_scheme \<Rightarrow> (int \<times> 'a phys_scheme) option" where
  "vmm_map_range pml4 virt phys pages flags s = vmm_map_range_loop pml4 virt phys pages flags 0 s"

definition vmm_load_pml4 :: "u64 \<Rightarrow> 'a cpu_scheme \<Rightarrow> 'a cpu_scheme" where
  "vmm_load_pml4 pml4 s = vmm_write_cr3 pml4 s"

section \<open>The processor's walk\<close>

definition present :: "u64 \<Rightarrow> bool" where "present e \<longleftrightarrow> e AND PAGE_PRESENT \<noteq> 0"
definition huge :: "u64 \<Rightarrow> bool" where "huge e \<longleftrightarrow> e AND PAGE_HUGE \<noteq> 0"

text \<open>
  \<open>pt_walk_from m t k v\<close> follows \<open>k\<close> more levels from the table \<open>t\<close> and returns the entry of the
  last level, \<open>None\<close> when an entry on the way is absent or maps a huge page.
\<close>

fun pt_walk_from :: "mem64 \<Rightarrow> u64 \<Rightarrow> nat \<Rightarrow> u64 \<Rightarrow> u64 option" where
  "pt_walk_from m t 0 v =
     (let e = m (entry_addr t (pt_idx 3 v)) in if present e then Some e else None)"
| "pt_walk_from m t (Suc k) v =
     (let e = m (entry_addr t (pt_idx (2 - k) v)) in
      if present e \<and> \<not> huge e then pt_walk_from m (page_base e) k v else None)"

definition pt_walk :: "mem64 \<Rightarrow> u64 \<Rightarrow> u64 \<Rightarrow> u64 option" where
  "pt_walk m pml4 v = pt_walk_from m pml4 3 v"

definition same_page :: "u64 \<Rightarrow> u64 \<Rightarrow> bool" where
  "same_page v w \<longleftrightarrow> (\<forall>l < 4. pt_idx l v = pt_idx l w)"

text \<open>
  A tree of tables: \<open>T t\<close> is the number of levels below the table \<open>t\<close>.  The root has three, the
  tables are pages in use, every present entry of an inner table leads to a table one level down,
  and no two entries lead to the same table.
\<close>

definition pt_tree :: "(u64 \<rightharpoonup> nat) \<Rightarrow> u64 \<Rightarrow> 'a phys_scheme \<Rightarrow> bool" where
  "pt_tree T pml4 s \<longleftrightarrow>
     T pml4 = Some 3 \<and>
     (\<forall>t \<in> dom T. page_aligned t \<and> t \<noteq> 0 \<and> t \<notin> pmm_avail s) \<and>
     (\<forall>t k i. T t = Some (Suc k) \<longrightarrow> i < 512 \<longrightarrow> present (pmem s (entry_addr t i)) \<longrightarrow>
        \<not> huge (pmem s (entry_addr t i)) \<longrightarrow> T (page_base (pmem s (entry_addr t i))) = Some k) \<and>
     (\<forall>t t' k i i'. T t = Some (Suc k) \<longrightarrow> T t' = Some (Suc k) \<longrightarrow> i < 512 \<longrightarrow> i' < 512 \<longrightarrow>
        present (pmem s (entry_addr t i)) \<longrightarrow> \<not> huge (pmem s (entry_addr t i)) \<longrightarrow>
        present (pmem s (entry_addr t' i')) \<longrightarrow> \<not> huge (pmem s (entry_addr t' i')) \<longrightarrow>
        page_base (pmem s (entry_addr t i)) = page_base (pmem s (entry_addr t' i')) \<longrightarrow>
        t = t' \<and> i = i')"

definition pt_wf :: "u64 \<Rightarrow> 'a phys_scheme \<Rightarrow> bool" where
  "pt_wf pml4 s \<longleftrightarrow> pmm_inv s \<and> (\<exists>T. pt_tree T pml4 s)"

section \<open>Entry addresses\<close>

lemma pt_idx_bound [simp]: "pt_idx l v < 512"
proof -
  have "drop_bit (39 - l * 9) v AND 0x1FF = take_bit 9 (drop_bit (39 - l * 9) v)"
    by (simp add: take_bit_eq_mask mask_eq_exp_minus_1)
  then have "pt_idx l v = unat (take_bit 9 (drop_bit (39 - l * 9) v))" by (simp add: pt_idx_def)
  also have "\<dots> < 2 ^ 9" by (simp only: unsigned_take_bit_eq take_bit_nat_less_exp)
  finally show ?thesis by simp
qed

lemma unat_entry_addr:
  assumes "page_aligned t" and "i < 512"
  shows "unat (entry_addr t i) = unat t + 8 * i"
proof -
  have "unat (of_nat (8 * i) :: u64) = 8 * i"
    by (rule unat_of_nat64) (use assms(2) in simp)
  moreover have "unat t + 8 * i < 2 ^ 64" using page_aligned_max [OF assms(1)] assms(2) by simp
  ultimately show ?thesis by (simp only: entry_addr_def unat_add_nowrap)
qed

lemma entry_addr_inj:
  assumes "page_aligned t" "page_aligned t'" "i < 512" "i' < 512"
  shows "entry_addr t i = entry_addr t' i' \<longleftrightarrow> t = t' \<and> i = i'"
proof
  assume "entry_addr t i = entry_addr t' i'"
  then have eq: "unat t + 8 * i = unat t' + 8 * i'"
    using assms by (metis unat_entry_addr)
  obtain a b where ab: "unat t = 4096 * a" "unat t' = 4096 * b"
    using assms(1,2) unfolding page_aligned_unat dvd_def by blast
  have "a = b" using eq ab assms(3,4) by linarith
  then show "t = t' \<and> i = i'" using eq ab by (simp add: word_unat_eq_iff)
qed simp

lemma entry_addr_page: "entry_addr t 0 = t"
  by (simp add: entry_addr_def)

lemma fold_zero:
  "fold (\<lambda>i m. m(entry_addr p i := 0)) is m a =
     (if \<exists>i \<in> set is. a = entry_addr p i then 0 else m a)"
  by (induction "is" arbitrary: m) auto

lemma zero_page_entry:
  assumes "page_aligned p" "page_aligned t" "i < 512"
  shows "zero_page p m (entry_addr t i) = (if t = p then 0 else m (entry_addr t i))"
  using assms by (auto simp: zero_page_def fold_zero entry_addr_inj)

lemma present_0 [simp]: "\<not> present 0" by (simp add: present_def)

lemma present_odd: "present e \<longleftrightarrow> odd e"
  by (simp add: present_def PAGE_PRESENT_def and_one_eq odd_iff_mod_2_eq_one)

lemma page_base_or: "page_base (a OR b) = page_base a OR page_base b"
  by (rule bit_word_eqI) (auto simp: page_base_def bit_simps)

lemma page_base_small: "f < 0x1000 \<Longrightarrow> page_base f = 0"
  by (simp add: word_unat_eq_iff unat_page_base word_less_nat_alt)

lemma table_entry:
  assumes "page_aligned p" and "f < 0x1000"
  shows "present (p OR f OR PAGE_PRESENT)" and "page_base (p OR f OR PAGE_PRESENT) = p"
  using assms by (simp_all add: present_odd PAGE_PRESENT_def page_base_or page_base_small
      page_base_id even_or_iff)

section \<open>The last-level table of an address\<close>

fun pt_leaf :: "mem64 \<Rightarrow> u64 \<Rightarrow> nat \<Rightarrow> u64 \<Rightarrow> u64 option" where
  "pt_leaf m t 0 v = Some t"
| "pt_leaf m t (Suc k) v =
     (let e = m (entry_addr t (pt_idx (2 - k) v)) in
      if present e \<and> \<not> huge e then pt_leaf m (page_base e) k v else None)"

lemma pt_walk_leaf:
  "pt_walk_from m t k v =
     (case pt_leaf m t k v of None \<Rightarrow> None
      | Some p \<Rightarrow> if present (m (entry_addr p (pt_idx 3 v))) then Some (m (entry_addr p (pt_idx 3 v)))
                  else None)"
  by (induction k arbitrary: t) (auto simp: Let_def)

lemma pt_treeD:
  assumes "pt_tree T r s"
  shows "T r = Some 3"
    and "T t = Some k \<Longrightarrow> page_aligned t \<and> t \<noteq> 0 \<and> t \<notin> pmm_avail s"
    and "T t = Some (Suc k) \<Longrightarrow> i < 512 \<Longrightarrow> present (pmem s (entry_addr t i)) \<Longrightarrow>
         \<not> huge (pmem s (entry_addr t i)) \<Longrightarrow> T (page_base (pmem s (entry_addr t i))) = Some k"
  using assms by (auto simp: pt_tree_def)

lemma pt_tree_parent:
  assumes "pt_tree T r s" "T t = Some (Suc k)" "T t' = Some (Suc k)" "i < 512" "i' < 512"
    and "present (pmem s (entry_addr t i))" "\<not> huge (pmem s (entry_addr t i))"
    and "present (pmem s (entry_addr t' i'))" "\<not> huge (pmem s (entry_addr t' i'))"
    and "page_base (pmem s (entry_addr t i)) = page_base (pmem s (entry_addr t' i'))"
  shows "t = t' \<and> i = i'"
  using assms unfolding pt_tree_def by metis

lemma pt_leaf_level:
  assumes "pt_tree T r s" and "T t = Some k" and "pt_leaf (pmem s) t k v = Some p"
  shows "T p = Some 0"
  using assms(2,3)
proof (induction k arbitrary: t)
  case (Suc k)
  then show ?case using pt_treeD(3) [OF assms(1) Suc.prems(1), of "pt_idx (2 - k) v"]
    by (auto simp: Let_def split: if_splits)
qed simp

lemma pt_leaf_unique:
  assumes "pt_tree T r s"
  shows "T t = Some k \<Longrightarrow> T t' = Some k \<Longrightarrow> k \<le> 3 \<Longrightarrow> pt_leaf (pmem s) t k v = Some p \<Longrightarrow>
     pt_leaf (pmem s) t' k w = Some p \<Longrightarrow> t = t' \<and> (\<forall>l. 3 - k \<le> l \<longrightarrow> l < 3 \<longrightarrow> pt_idx l v = pt_idx l w)"
proof (induction k arbitrary: t t')
  case (Suc k)
  let ?e = "pmem s (entry_addr t (pt_idx (2 - k) v))"
  let ?e' = "pmem s (entry_addr t' (pt_idx (2 - k) w))"
  have e: "present ?e" "\<not> huge ?e" "present ?e'" "\<not> huge ?e'"
    "pt_leaf (pmem s) (page_base ?e) k v = Some p" "pt_leaf (pmem s) (page_base ?e') k w = Some p"
    using Suc.prems(4,5) by (auto simp: Let_def split: if_splits)
  have "T (page_base ?e) = Some k" "T (page_base ?e') = Some k"
    using pt_treeD(3) [OF assms Suc.prems(1) pt_idx_bound e(1,2)]
      pt_treeD(3) [OF assms Suc.prems(2) pt_idx_bound e(3,4)] by auto
  from Suc.IH [OF this _ e(5,6)] Suc.prems(3) have ih: "page_base ?e = page_base ?e'"
    "\<forall>l. 3 - k \<le> l \<longrightarrow> l < 3 \<longrightarrow> pt_idx l v = pt_idx l w" by auto
  have tt: "t = t' \<and> pt_idx (2 - k) v = pt_idx (2 - k) w"
    by (rule pt_tree_parent [OF assms Suc.prems(1,2) pt_idx_bound pt_idx_bound e(1-4) ih(1)])
  have "pt_idx l v = pt_idx l w" if "3 - Suc k \<le> l" "l < 3" for l
    using that tt ih(2) Suc.prems(3) by (cases "l = 2 - k") auto
  with tt show ?case by blast
qed simp

text \<open>Changing entries of last-level tables only does not change which table a walk ends in.\<close>

lemma pt_leaf_cong:
  assumes "pt_tree T r s" and "T t = Some k"
    and "\<And>t j i. T t = Some (Suc j) \<Longrightarrow> i < 512 \<Longrightarrow> m (entry_addr t i) = pmem s (entry_addr t i)"
  shows "pt_leaf m t k v = pt_leaf (pmem s) t k v"
  using assms(2)
proof (induction k arbitrary: t)
  case (Suc k)
  have "m (entry_addr t (pt_idx (2 - k) v)) = pmem s (entry_addr t (pt_idx (2 - k) v))"
    by (rule assms(3) [OF Suc.prems pt_idx_bound])
  then show ?case using Suc.IH pt_treeD(3) [OF assms(1) Suc.prems pt_idx_bound]
    by (auto simp: Let_def)
qed simp

lemma leaf_write_walk:
  assumes tree: "pt_tree T r s" and pt: "T pt = Some 0" "i < 512" and x: "present x"
  shows "pt_walk ((pmem s)(entry_addr pt i := x)) r v =
     (if pt_leaf (pmem s) r 3 v = Some pt \<and> pt_idx 3 v = i then Some x else pt_walk (pmem s) r v)"
proof -
  let ?m = "(pmem s)(entry_addr pt i := x)"
  note al = pt_treeD(2) [OF tree]
  have entry: "?m (entry_addr t j) = (if t = pt \<and> j = i then x else pmem s (entry_addr t j))"
    if "T t = Some k" "j < 512" for t k j
    using entry_addr_inj [of t pt j i] al [OF that(1)] al [OF pt(1)] that pt(2) by auto
  have "pt_leaf ?m r 3 v = pt_leaf (pmem s) r 3 v"
    by (rule pt_leaf_cong [OF tree pt_treeD(1) [OF tree]]) (use entry pt in auto)
  then show ?thesis
    using entry [OF pt_leaf_level [OF tree pt_treeD(1) [OF tree]] pt_idx_bound, of v _ 3 v] x
    unfolding pt_walk_def pt_walk_leaf by (auto split: option.splits)
qed

lemma leaf_write_tree:
  fixes x :: u64
  assumes tree: "pt_tree T r s" and inv: "pmm_inv s" and pt: "T pt = Some 0" "i < 512"
  defines "s' \<equiv> s\<lparr>pmem := (pmem s)(entry_addr pt i := x)\<rparr>"
  shows "pmm_inv s'" and "pt_tree T r s'"
proof -
  obtain f where f: "pmm_rep s f" using inv by (auto simp: pmm_inv_def)
  note al = pt_treeD(2) [OF tree]
  have av: "pmm_avail s = pool_pages f" using f by (rule pmm_avail_rep)
  have "entry_addr pt i \<noteq> q" if "q \<in> pool_pages f" for q
    using entry_addr_inj [of pt q i 0] al [OF pt(1)] pt(2) that av pmm_rep_aligned [OF f that]
    by (auto simp: entry_addr_page)
  then have rep: "pmm_rep s' f" unfolding s'_def by (intro pmm_rep_frame [OF f]) auto
  then show "pmm_inv s'" using inv by (auto simp: pmm_inv_def s'_def)
  have "pmem s' (entry_addr t j) = pmem s (entry_addr t j)" if "T t = Some (Suc k)" "j < 512" for t k j
    using entry_addr_inj [of t pt j i] al [OF that(1)] al [OF pt(1)] that pt
    by (auto simp: s'_def)
  then show "pt_tree T r s'" using tree av pmm_avail_rep [OF rep]
    unfolding pt_tree_def by (simp cong: imp_cong conj_cong)
qed

section \<open>Following or creating a table\<close>

text \<open>
  What a call of \<open>walk_or_create\<close> guarantees on a tree: the walk of no address changes, the tree
  only grows, entries other than the visited one keep their value, and a table that is returned
  is one level down and is reached through the visited entry.
\<close>

definition walk_step ::
  "(u64 \<rightharpoonup> nat) \<Rightarrow> u64 \<Rightarrow> u64 \<Rightarrow> nat \<Rightarrow> u64 \<Rightarrow> 'a phys_scheme \<Rightarrow> u64 \<Rightarrow> 'a phys_scheme \<Rightarrow> (u64 \<rightharpoonup> nat) \<Rightarrow> bool" where
  "walk_step T r table k virt s p s' T' \<longleftrightarrow>
     pmm_inv s' \<and> pt_tree T' r s' \<and> T \<subseteq>\<^sub>m T' \<and>
     (\<forall>v. pt_walk (pmem s') r v = pt_walk (pmem s) r v) \<and>
     (\<forall>t i. t \<in> dom T \<longrightarrow> i < 512 \<longrightarrow> (t, i) \<noteq> (table, pt_idx (2 - k) virt) \<longrightarrow>
        pmem s' (entry_addr t i) = pmem s (entry_addr t i)) \<and>
     (p \<noteq> 0 \<longrightarrow> T' p = Some k \<and>
        (let e = pmem s' (entry_addr table (pt_idx (2 - k) virt))
         in present e \<and> \<not> huge e \<and> page_base e = p))"

lemma create_memory:
  fixes x :: u64
  assumes tree: "pt_tree T r s" and tab: "T table = Some (Suc k)" and ix: "ix < 512"
    and p: "page_aligned p" "p \<noteq> table"
  defines "m \<equiv> (zero_page p (pmem s))(entry_addr table ix := x)"
  shows "m (entry_addr table ix) = x"
    and "i < 512 \<Longrightarrow> m (entry_addr p i) = 0"
    and "page_aligned t \<Longrightarrow> t \<noteq> p \<Longrightarrow> i < 512 \<Longrightarrow> (t, i) \<noteq> (table, ix) \<Longrightarrow>
         m (entry_addr t i) = pmem s (entry_addr t i)"
  using pt_treeD(2) [OF tree tab] ix p
  by (auto simp: m_def zero_page_entry entry_addr_inj)

lemma create_leaf:
  fixes x :: u64
  assumes tree: "pt_tree T r s" and tab: "T table = Some (Suc k)" and ix: "ix < 512"
    and np: "\<not> present (pmem s (entry_addr table ix))"
    and p: "page_aligned p" "T p = None" and x: "page_base x = p"
    and t: "T t = Some n"
  defines "m \<equiv> (zero_page p (pmem s))(entry_addr table ix := x)"
  shows "pt_walk_from m t n v = pt_walk_from (pmem s) t n v"
proof -
  have pt: "p \<noteq> table" using tab p(2) by auto
  note mem = create_memory [OF tree tab ix p(1) pt, where x = x, folded m_def]
  have empty: "pt_walk_from m p j v = None" for j
    by (cases j) (simp_all add: mem(2))
  have entry: "m (entry_addr t i) = pmem s (entry_addr t i)"
    if "T t = Some j" "i < 512" "(t, i) \<noteq> (table, ix)" for t j i
    using mem(3) [of t i] pt_treeD(2) [OF tree that(1)] that p(2) by force
  show ?thesis using t
  proof (induction n arbitrary: t)
    case 0
    then have "t \<noteq> table" using tab by auto
    then show ?case using entry [OF 0 pt_idx_bound [of 3 v]] by simp
  next
    case (Suc n)
    let ?i = "pt_idx (2 - n) v"
    show ?case
    proof (cases "(t, ?i) = (table, ix)")
      case True
      then show ?thesis using mem(1) np empty x by (simp add: Let_def)
    next
      case False
      from entry [OF Suc.prems pt_idx_bound False]
      show ?thesis using Suc.IH pt_treeD(3) [OF tree Suc.prems pt_idx_bound] by (simp add: Let_def)
    qed
  qed
qed

lemma create_tree:
  assumes tree: "pt_tree T r s" and tab: "T table = Some (Suc k)" and ix: "ix < 512"
    and np: "\<not> present (pmem s (entry_addr table ix))"
    and p: "page_aligned p" "p \<noteq> 0" "T p = None" and x: "page_base x = p"
    and m: "pmem s' = (zero_page p (pmem s))(entry_addr table ix := x)"
    and av: "pmm_avail s' \<subseteq> pmm_avail s" "p \<notin> pmm_avail s'"
  shows "pt_tree (T(p \<mapsto> k)) r s'"
proof -
  have pt: "p \<noteq> table" using tab p(3) by auto
  note mem = create_memory [OF tree tab ix p(1) pt, where x = x, folded m]
  note al = pt_treeD(2) [OF tree]
  have entry: "pmem s' (entry_addr t i) = (if (t, i) = (table, ix) then x else pmem s (entry_addr t i))"
    if "T t = Some j" "i < 512" for t j i
    using mem(1) mem(3) [of t i] al [OF that(1)] that p(3) by force
  have child: "(T(p \<mapsto> k)) (page_base (pmem s' (entry_addr t i))) = Some j"
    if "(T(p \<mapsto> k)) t = Some (Suc j)" "i < 512" "present (pmem s' (entry_addr t i))"
      "\<not> huge (pmem s' (entry_addr t i))" for t i j
  proof (cases "t = p")
    case False
    then have t: "T t = Some (Suc j)" using that(1) by simp
    show ?thesis
    proof (cases "(t, i) = (table, ix)")
      case True
      then show ?thesis using t tab x entry [OF t that(2)] by simp
    next
      case not: False
      then have "pmem s' (entry_addr t i) = pmem s (entry_addr t i)" using entry [OF t that(2)] by auto
      then show ?thesis using pt_treeD(3) [OF tree t that(2)] that(3,4) p(3) by auto
    qed
  qed (use mem(2) that in simp)
  have uniq: "t = t' \<and> i = i'"
    if h: "(T(p \<mapsto> k)) t = Some (Suc j)" "(T(p \<mapsto> k)) t' = Some (Suc j)" "i < 512" "i' < 512"
      "present (pmem s' (entry_addr t i))" "\<not> huge (pmem s' (entry_addr t i))"
      "present (pmem s' (entry_addr t' i'))" "\<not> huge (pmem s' (entry_addr t' i'))"
      "page_base (pmem s' (entry_addr t i)) = page_base (pmem s' (entry_addr t' i'))" for t t' i i' j
  proof -
    have "t \<noteq> p" "t' \<noteq> p" using mem(2) h by auto
    then have t: "T t = Some (Suc j)" "T t' = Some (Suc j)" using h(1,2) by auto
    note e = entry [OF t(1) h(3)] entry [OF t(2) h(4)]
    have old: "page_base (pmem s (entry_addr u l)) \<noteq> p" if "T u = Some (Suc j)" "l < 512"
      "present (pmem s (entry_addr u l))" "\<not> huge (pmem s (entry_addr u l))" for u l
      using pt_treeD(3) [OF tree that] p(3) by auto
    consider "(t, i) = (table, ix)" "(t', i') = (table, ix)"
      | "(t, i) = (table, ix)" "(t', i') \<noteq> (table, ix)"
      | "(t, i) \<noteq> (table, ix)" "(t', i') = (table, ix)"
      | "(t, i) \<noteq> (table, ix)" "(t', i') \<noteq> (table, ix)" by blast
    then show ?thesis
    proof cases
      case 2 then show ?thesis using h e x old [OF t(2) h(4)] by auto
    next
      case 3 then show ?thesis using h e x old [OF t(1) h(3)] by auto
    next
      case 4
      then show ?thesis using pt_tree_parent [OF tree t h(3,4)] h e by auto
    qed auto
  qed
  have "page_aligned t \<and> t \<noteq> 0 \<and> t \<notin> pmm_avail s'" if "t \<in> dom (T(p \<mapsto> k))" for t
    using that al [of t] p av by (cases "t = p") auto
  moreover have "(T(p \<mapsto> k)) r = Some 3" using pt_treeD(1) [OF tree] p(3) by auto
  ultimately show ?thesis using child uniq unfolding pt_tree_def by blast
qed

lemma huge_bit: "huge e \<longleftrightarrow> bit e 7"
proof -
  have "e AND 2 ^ 7 = 0 \<longleftrightarrow> \<not> bit e 7" by (rule and_exp_eq_0_iff_not_bit)
  then show ?thesis by (simp add: huge_def PAGE_HUGE_def)
qed

lemma page_aligned_not_bit:
  assumes "page_aligned p" shows "\<not> bit p 7"
proof -
  have "bit (page_base p) 7 = False" by (simp add: page_base_def bit_simps)
  then show ?thesis using page_base_id [OF assms] by simp
qed

lemma table_entry_not_huge:
  assumes "page_aligned p" and "\<not> bit f 7"
  shows "\<not> huge (p OR f OR PAGE_PRESENT)"
  using assms page_aligned_not_bit [of p] by (simp add: huge_bit bit_or_iff PAGE_PRESENT_def)

lemma walk_or_create_create:
  assumes tree: "pt_tree T r s" and inv: "pmm_inv s" and tab: "T table = Some (Suc k)"
    and f: "f < 0x1000" "\<not> bit f 7"
    and np: "\<not> present (pmem s (entry_addr table (pt_idx (2 - k) virt)))"
  shows "\<exists>p s' T'. walk_or_create table (2 - k) virt f s = Some (p, s') \<and>
                   walk_step T r table k virt s p s' T'"
proof -
  obtain p s1 where a: "pmm_alloc s = Some (p, s1)" using pmm.alloc_returns [OF inv] by blast
  have inv1: "pmm_inv s1" using inv a by (rule pmm.alloc_inv)
  have m1: "pmem s1 = pmem s" using pmm_alloc_frame [OF a] by simp
  show ?thesis
  proof (cases "p = 0")
    case True
    have "walk_or_create table (2 - k) virt f s = Some (0, s1)"
      using np a True by (simp add: walk_or_create_def present_def Let_def)
    moreover have "pmm_avail s1 = pmm_avail s" using pmm.alloc_null [OF inv] a True by simp
    ultimately show ?thesis using inv1 tree m1
      by (auto simp: walk_step_def pt_tree_def intro!: exI [of _ T])
  next
    case False
    let ?ix = "pt_idx (2 - k) virt"
    let ?x = "p OR f OR PAGE_PRESENT"
    let ?s' = "s1\<lparr>pmem := (zero_page p (pmem s1))(entry_addr table ?ix := ?x)\<rparr>"
    have p: "p \<in> pmm_avail s" "pmm_avail s1 = pmm_avail s - {p}"
      using pmm.alloc_page [OF inv a False] by auto
    have al: "page_aligned p" using pmm.avail_page [OF inv p(1)] by simp
    have Tp: "T p = None" using pt_treeD(2) [OF tree, of p] p(1) by (cases "T p") auto
    note x = table_entry [OF al f(1)] table_entry_not_huge [OF al f(2)]
    have pt: "p \<noteq> table" using tab Tp by auto
    note mem = create_memory [OF tree tab pt_idx_bound [of "2 - k" virt] al pt, where x = ?x]
    obtain g where g: "pmm_rep s1 g" using inv1 by (auto simp: pmm_inv_def)
    have av: "pool_pages g = pmm_avail s - {p}" using pmm_avail_rep [OF g] p(2) by simp
    have rep: "pmm_rep ?s' g"
    proof (rule pmm_rep_frame [OF g])
      fix q assume q: "q \<in> pool_pages g"
      have "q \<noteq> p" "q \<noteq> table" "page_aligned q"
        using q av pt_treeD(2) [OF tree tab] pmm_rep_aligned [OF g q] by auto
      then show "((zero_page p (pmem s1))(entry_addr table ?ix := ?x)) q = pmem s1 q"
        using mem(3) [of q 0] m1 by (simp add: entry_addr_page)
    qed
    have avs': "pmm_avail ?s' = pmm_avail s - {p}" using pmm_avail_rep [OF rep] av by simp
    have tree': "pt_tree (T(p \<mapsto> k)) r ?s'"
      by (rule create_tree [OF tree tab pt_idx_bound np al False Tp x(2)]) (use avs' in \<open>auto simp: m1\<close>)
    have walk: "pt_walk (pmem ?s') r v = pt_walk (pmem s) r v" for v
      using create_leaf [OF tree tab pt_idx_bound np al Tp x(2) pt_treeD(1) [OF tree]]
      by (simp add: pt_walk_def m1)
    have "walk_or_create table (2 - k) virt f s = Some (p, ?s')"
      using np a False by (simp add: walk_or_create_def present_def Let_def)
    moreover have "walk_step T r table k virt s p ?s' (T(p \<mapsto> k))"
      unfolding walk_step_def
    proof (intro conjI allI impI)
      show "pmm_inv ?s'" using rep inv1 by (auto simp: pmm_inv_def)
      show "T \<subseteq>\<^sub>m T(p \<mapsto> k)" using Tp by (auto simp: map_le_def)
      show "pmem ?s' (entry_addr t i) = pmem s (entry_addr t i)"
        if "t \<in> dom T" "i < 512" "(t, i) \<noteq> (table, ?ix)" for t i
      proof -
        have "page_aligned t" "t \<noteq> p" using that(1) pt_treeD(2) [OF tree] Tp by auto
        then show ?thesis using mem(3) [of t i] that(2,3) m1 by simp
      qed
      show "let e = pmem ?s' (entry_addr table ?ix) in present e \<and> \<not> huge e \<and> page_base e = p"
        using mem(1) x m1 by (simp add: Let_def)
      show "pt_tree (T(p \<mapsto> k)) r ?s'" by (rule tree')
      show "pt_walk (pmem ?s') r v = pt_walk (pmem s) r v" for v by (rule walk)
      show "(T(p \<mapsto> k)) p = Some k" by simp
    qed
    ultimately show ?thesis by blast
  qed
qed

lemma walk_or_create_step:
  assumes tree: "pt_tree T r s" and inv: "pmm_inv s" and tab: "T table = Some (Suc k)"
    and f: "f < 0x1000" "\<not> bit f 7"
  shows "\<exists>p s' T'. walk_or_create table (2 - k) virt f s = Some (p, s') \<and>
                   walk_step T r table k virt s p s' T'"
proof (cases "present (pmem s (entry_addr table (pt_idx (2 - k) virt)))")
  case True
  let ?e = "pmem s (entry_addr table (pt_idx (2 - k) virt))"
  have "walk_or_create table (2 - k) virt f s = Some (if huge ?e then 0 else page_base ?e, s)"
    using True by (auto simp: walk_or_create_def present_def huge_def Let_def)
  moreover have "walk_step T r table k virt s (if huge ?e then 0 else page_base ?e) s T"
    using True tree inv pt_treeD(3) [OF tree tab pt_idx_bound True]
    by (simp add: walk_step_def Let_def)
  ultimately show ?thesis by blast
qed (use walk_or_create_create [OF assms] in blast)

lemma walk_stepD:
  assumes "walk_step T r table k virt s p s' T'"
  shows "pmm_inv s'" "pt_tree T' r s'" "T \<subseteq>\<^sub>m T'" "pt_walk (pmem s') r v = pt_walk (pmem s) r v"
    and "t \<in> dom T \<Longrightarrow> i < 512 \<Longrightarrow> (t, i) \<noteq> (table, pt_idx (2 - k) virt) \<Longrightarrow>
         pmem s' (entry_addr t i) = pmem s (entry_addr t i)"
    and "p \<noteq> 0 \<Longrightarrow> T' p = Some k"
    and "p \<noteq> 0 \<Longrightarrow> let e = pmem s' (entry_addr table (pt_idx (2 - k) virt))
                   in present e \<and> \<not> huge e \<and> page_base e = p"
  using assms by (auto simp: walk_step_def)

lemma map_leD: "T \<subseteq>\<^sub>m T' \<Longrightarrow> T a = Some b \<Longrightarrow> T' a = Some b"
  by (auto simp: map_le_def dom_def)

text \<open>The three descents of \<open>vmm_map_page\<close>: afterwards the address ends in the table returned.\<close>

lemma descend_leaf:
  assumes w0: "walk_step T0 r r 2 v s0 p1 s1 T1" and w1: "walk_step T1 r p1 1 v s1 p2 s2 T2"
    and w2: "walk_step T2 r p2 0 v s2 p3 s3 T3" and tree: "pt_tree T0 r s0"
    and nz: "p1 \<noteq> 0" "p2 \<noteq> 0" "p3 \<noteq> 0"
  shows "pt_leaf (pmem s3) r 3 v = Some p3"
proof -
  note lev = walk_stepD(6) [OF w0 nz(1)] walk_stepD(6) [OF w1 nz(2)] walk_stepD(6) [OF w2 nz(3)]
  note le = walk_stepD(3) [OF w0] walk_stepD(3) [OF w1] walk_stepD(3) [OF w2]
  have T0: "T0 r = Some 3" by (rule pt_treeD(1) [OF tree])
  have T1: "T1 r = Some 3" using map_leD [OF le(1) T0] .
  have T2: "T2 r = Some 3" "T2 p1 = Some 2"
    using map_leD [OF le(2) T1] map_leD [OF le(2) lev(1)] by auto
  have ne: "r \<noteq> p1" "r \<noteq> p2" "p1 \<noteq> p2" using T1 T2 lev(1,2) by auto
  have e0: "pmem s3 (entry_addr r (pt_idx 0 v)) = pmem s1 (entry_addr r (pt_idx 0 v))"
    using walk_stepD(5) [OF w1, of r "pt_idx 0 v"] walk_stepD(5) [OF w2, of r "pt_idx 0 v"] T1 T2 ne
    by (auto simp: dom_def)
  have e1: "pmem s3 (entry_addr p1 (pt_idx 1 v)) = pmem s2 (entry_addr p1 (pt_idx 1 v))"
    using walk_stepD(5) [OF w2, of p1 "pt_idx 1 v"] T2 ne by (auto simp: dom_def)
  show ?thesis
    using walk_stepD(7) [OF w0 nz(1)] walk_stepD(7) [OF w1 nz(2)] walk_stepD(7) [OF w2 nz(3)] e0 e1
    by (simp add: numeral_3_eq_3 Let_def)
qed

lemma final_leaf_write:
  assumes tree: "pt_tree T r s" and inv: "pmm_inv s" and leaf: "pt_leaf (pmem s) r 3 v = Some p"
    and np: "\<not> present (pmem s (entry_addr p (pt_idx 3 v)))" and x: "present x"
  defines "s' \<equiv> s\<lparr>pmem := (pmem s)(entry_addr p (pt_idx 3 v) := x)\<rparr>"
  shows "pt_wf r s'" and "pt_walk (pmem s) r v = None"
    and "pt_walk (pmem s') r w = (if same_page w v then Some x else pt_walk (pmem s) r w)"
proof -
  note r3 = pt_treeD(1) [OF tree]
  have p0: "T p = Some 0" by (rule pt_leaf_level [OF tree r3 leaf])
  show "pt_wf r s'" using leaf_write_tree [OF tree inv p0 pt_idx_bound, of 3 v x]
    by (auto simp: pt_wf_def s'_def)
  show "pt_walk (pmem s) r v = None" using leaf np by (simp add: pt_walk_def pt_walk_leaf)
  have "pt_leaf (pmem s) r 3 w = Some p \<and> pt_idx 3 w = pt_idx 3 v \<longleftrightarrow> same_page w v"
  proof
    assume h: "pt_leaf (pmem s) r 3 w = Some p \<and> pt_idx 3 w = pt_idx 3 v"
    with pt_leaf_unique [OF tree r3 r3 _ conjunct1 leaf] show "same_page w v"
      by (auto simp: same_page_def less_Suc_eq numeral_3_eq_3 eval_nat_numeral)
  next
    assume "same_page w v"
    then have "pt_idx 0 w = pt_idx 0 v" "pt_idx 1 w = pt_idx 1 v" "pt_idx 2 w = pt_idx 2 v"
      "pt_idx 3 w = pt_idx 3 v" by (simp_all add: same_page_def)
    then show "pt_leaf (pmem s) r 3 w = Some p \<and> pt_idx 3 w = pt_idx 3 v"
      using leaf by (simp add: numeral_3_eq_3 Let_def numeral_2_eq_2 split: if_splits)
  qed
  then show "pt_walk (pmem s') r w = (if same_page w v then Some x else pt_walk (pmem s) r w)"
    using leaf_write_walk [OF tree p0 pt_idx_bound x, of 3 v w] by (auto simp: s'_def)
qed

definition table_flags_of :: "u64 \<Rightarrow> u64" where
  "table_flags_of fl = (if fl AND PAGE_USER \<noteq> 0 then PAGE_TABLE_FLAGS OR PAGE_USER else PAGE_TABLE_FLAGS)"

lemma table_flags_ok: "table_flags_of fl < 0x1000" "\<not> bit (table_flags_of fl) 7"
  by (simp_all add: table_flags_of_def page_flags)

text \<open>One descent, or the early return -1 with nothing remapped.\<close>

definition map_fails :: "u64 \<Rightarrow> 'a phys_scheme \<Rightarrow> 'a phys_scheme \<Rightarrow> bool" where
  "map_fails r s s' \<longleftrightarrow> pt_wf r s' \<and> (\<forall>v. pt_walk (pmem s') r v = pt_walk (pmem s) r v)"

lemma walk_step_fails: "walk_step T r t k v s p s' T' \<Longrightarrow> map_fails r s s'"
  by (auto simp: map_fails_def pt_wf_def walk_step_def)

lemma map_fails_trans: "map_fails r s s1 \<Longrightarrow> map_fails r s1 s2 \<Longrightarrow> map_fails r s s2"
  by (auto simp: map_fails_def)

lemma vmm_map_page_cases:
  assumes wf: "pt_wf r s"
  obtains (fail) s' where "vmm_map_page r v ph fl s = Some (-1, s')" "map_fails r s s'"
  | (ok) s3 p3 T3 where "map_fails r s s3" "pt_tree T3 r s3" "pmm_inv s3"
      "pt_leaf (pmem s3) r 3 v = Some p3" "\<not> present (pmem s3 (entry_addr p3 (pt_idx 3 v)))"
      "vmm_map_page r v ph fl s =
         Some (0, s3\<lparr>pmem := (pmem s3)(entry_addr p3 (pt_idx 3 v) := ph OR fl OR PAGE_PRESENT)\<rparr>)"
proof -
  let ?f = "table_flags_of fl"
  obtain T where T: "pt_tree T r s" and inv: "pmm_inv s" using wf by (auto simp: pt_wf_def)
  have r: "T r = Some (Suc 2)" using pt_treeD(1) [OF T] by simp
  obtain p1 s1 T1 where c1: "walk_or_create r 0 v ?f s = Some (p1, s1)"
    and w1: "walk_step T r r 2 v s p1 s1 T1"
    using walk_or_create_step [where virt = v and f = ?f, OF T inv r table_flags_ok] by auto
  note m = vmm_map_page_def table_flags_of_def [of fl, symmetric] present_def [symmetric]
  note f1 = walk_step_fails [OF w1]
  show thesis
  proof (cases "p1 = 0")
    case True
    then show ?thesis using fail [OF _ f1] c1 by (simp add: m)
  next
    case n1: False
    have "T1 p1 = Some (Suc 1)" using walk_stepD(6) [OF w1 n1] by simp
    then obtain p2 s2 T2 where c2: "walk_or_create p1 1 v ?f s1 = Some (p2, s2)"
      and w2: "walk_step T1 r p1 1 v s1 p2 s2 T2"
      using walk_or_create_step [where virt = v and f = ?f and table = p1 and k = 1, OF walk_stepD(2,1) [OF w1] _ table_flags_ok] by auto
    note f2 = map_fails_trans [OF f1 walk_step_fails [OF w2]]
    show ?thesis
    proof (cases "p2 = 0")
      case True
      then show ?thesis using fail [OF _ f2] c1 c2 n1 by (simp add: m)
    next
      case n2: False
      have "T2 p2 = Some (Suc 0)" using walk_stepD(6) [OF w2 n2] by simp
      then obtain p3 s3 T3 where c3: "walk_or_create p2 2 v ?f s2 = Some (p3, s3)"
        and w3: "walk_step T2 r p2 0 v s2 p3 s3 T3"
        using walk_or_create_step [where virt = v and f = ?f and table = p2 and k = 0, OF walk_stepD(2,1) [OF w2] _ table_flags_ok] by auto
      note f3 = map_fails_trans [OF f2 walk_step_fails [OF w3]]
      show ?thesis
      proof (cases "p3 = 0 \<or> present (pmem s3 (entry_addr p3 (pt_idx 3 v)))")
        case True
        then show ?thesis using fail [OF _ f3] c1 c2 c3 n1 n2 by (auto simp: m Let_def)
      next
        case False
        then show ?thesis
          using ok [OF f3 walk_stepD(2,1) [OF w3] descend_leaf [OF w1 w2 w3 T n1 n2]] c1 c2 c3 n1 n2
          by (auto simp: m Let_def)
      qed
    qed
  qed
qed

lemma vmm_map_page_spec:
  assumes "pt_wf pml4 s"
  shows "\<exists>r s'. vmm_map_page pml4 virt phys flags s = Some (r, s') \<and> pt_wf pml4 s' \<and>
     (r = 0 \<and> pt_walk (pmem s) pml4 virt = None \<and>
        (\<forall>v. pt_walk (pmem s') pml4 v =
           (if same_page v virt then Some (phys OR flags OR PAGE_PRESENT) else pt_walk (pmem s) pml4 v)) \<or>
      r = -1 \<and> (\<forall>v. pt_walk (pmem s') pml4 v = pt_walk (pmem s) pml4 v))"
  using assms
proof (cases rule: vmm_map_page_cases [of pml4 s virt phys flags])
  case (fail s')
  then show ?thesis by (auto simp: map_fails_def)
next
  case (ok s3 p3 T3)
  have "present (phys OR flags OR PAGE_PRESENT)"
    by (simp add: present_odd PAGE_PRESENT_def even_or_iff)
  note l = final_leaf_write [OF ok(2,3,4,5) this]
  show ?thesis using ok(1,6) l by (auto simp: map_fails_def)
qed

lemma map_range_loop_maps:
  assumes "pt_wf r s" and "i \<le> n"
  shows "\<exists>c s'. vmm_map_range_loop r v ph n fl i s = Some (c, s') \<and> pt_wf r s' \<and>
     (\<forall>w e. pt_walk (pmem s) r w = Some e \<longrightarrow> pt_walk (pmem s') r w = Some e) \<and>
     (c = 0 \<longrightarrow> (\<forall>j. i \<le> j \<longrightarrow> j < n \<longrightarrow> pt_walk (pmem s') r (v + j * PAGE_SIZE) =
        Some ((ph + j * PAGE_SIZE) OR fl OR PAGE_PRESENT)))"
  using assms
proof (induction "unat n - unat i" arbitrary: i s)
  case 0
  then have "i = n" by (simp add: word_le_nat_alt word_unat_eq_iff)
  then have "vmm_map_range_loop r v ph n fl i s = Some (0, s)"
    by (subst vmm_map_range_loop.simps) simp
  then show ?case using 0 \<open>i = n\<close> by auto
next
  case (Suc k)
  then have lt: "i < n" by (simp add: word_less_nat_alt)
  let ?v = "v + i * PAGE_SIZE" and ?x = "(ph + i * PAGE_SIZE) OR fl OR PAGE_PRESENT"
  from vmm_map_page_spec [OF Suc.prems(1), of ?v "ph + i * PAGE_SIZE" fl]
  obtain c s1 where c: "vmm_map_page r ?v (ph + i * PAGE_SIZE) fl s = Some (c, s1)" "pt_wf r s1"
    and res: "c = 0 \<and> pt_walk (pmem s) r ?v = None \<and>
        (\<forall>w. pt_walk (pmem s1) r w = (if same_page w ?v then Some ?x else pt_walk (pmem s) r w)) \<or>
      c = -1 \<and> (\<forall>w. pt_walk (pmem s1) r w = pt_walk (pmem s) r w)" by blast
  have same: "pt_walk (pmem s) r w = pt_walk (pmem s) r ?v" if "same_page w ?v" for w
    using that by (simp add: pt_walk_def numeral_3_eq_3 same_page_def Let_def)
  show ?case
  proof (cases "c = 0")
    case False
    with c res lt show ?thesis by (auto simp: vmm_map_range_loop.simps [of r v ph n fl i])
  next
    case True
    have keep: "pt_walk (pmem s) r w = Some e \<Longrightarrow> pt_walk (pmem s1) r w = Some e" for w e
      using res True same by auto
    have new: "pt_walk (pmem s1) r ?v = Some ?x" using res True by (simp add: same_page_def)
    have "k = unat n - unat (i + 1)" using Suc.hyps(2) lt by (simp add: unat_Suc_lt)
    from Suc.hyps(1) [OF this c(2) word_add_one_le [OF lt]]
    obtain d s2 where d: "vmm_map_range_loop r v ph n fl (i + 1) s1 = Some (d, s2)" "pt_wf r s2"
      and mono: "\<forall>w e. pt_walk (pmem s1) r w = Some e \<longrightarrow> pt_walk (pmem s2) r w = Some e"
      and all: "d = 0 \<longrightarrow> (\<forall>j. i + 1 \<le> j \<longrightarrow> j < n \<longrightarrow> pt_walk (pmem s2) r (v + j * PAGE_SIZE) =
        Some ((ph + j * PAGE_SIZE) OR fl OR PAGE_PRESENT))" by blast
    have "i + 1 \<le> j" if "i \<le> j" "j \<noteq> i" for j
      using that by (intro word_add_one_le) simp
    with all mono new have "d = 0 \<longrightarrow> (\<forall>j. i \<le> j \<longrightarrow> j < n \<longrightarrow>
        pt_walk (pmem s2) r (v + j * PAGE_SIZE) = Some ((ph + j * PAGE_SIZE) OR fl OR PAGE_PRESENT))"
      by (metis (no_types))
    then show ?thesis using d mono keep True c lt
      by (auto simp: vmm_map_range_loop.simps [of r v ph n fl i])
  qed
qed

section \<open>Properties\<close>

text \<open>
  C3 (functional): on a well-formed tree of page tables \<^verbatim>\<open>vmm_map_page\<close> returns.  Either it
  returns 0, the page of the address had no mapping, and afterwards that page maps to the frame
  and flags given while the walk of every other address is what it was; or it returns -1 and no
  address is remapped.  In both cases the tables are well formed again.
\<close>

theorem vmm_map_page_updates_walk:
  assumes "pt_wf pml4 s"
  shows "\<exists>r s'. vmm_map_page pml4 virt phys flags s = Some (r, s') \<and> pt_wf pml4 s' \<and>
     (r = 0 \<and> pt_walk (pmem s) pml4 virt = None \<and>
        (\<forall>v. pt_walk (pmem s') pml4 v =
           (if same_page v virt then Some (phys OR flags OR PAGE_PRESENT) else pt_walk (pmem s) pml4 v)) \<or>
      r = -1 \<and> (\<forall>v. pt_walk (pmem s') pml4 v = pt_walk (pmem s) pml4 v))"
  using assms by (rule vmm_map_page_spec)

text \<open>A root table with no entries at \<open>0x1000\<close>, in a machine with four free pages.\<close>

definition empty_root :: phys where
  "empty_root = fold page_free_internal [0x300000, 0x301000, 0x302000, 0x303000] pmm_boot"

lemma empty_root_rep:
  "pmm_rep empty_root (\<lambda>z. if z = DMA then [0x303000, 0x302000, 0x301000, 0x300000] else [])"
  by (auto simp: pmm_rep_def all_zones empty_root_def page_free_internal_def pmm_boot_def
      pool_size_def zone_limits zone_of_def page_aligned_def page_off_def)

lemma empty_root_entry: "i < 512 \<Longrightarrow> pmem empty_root (entry_addr 0x1000 i) = 0"
  using entry_addr_inj [of "0x1000" "0x300000" i 0] entry_addr_inj [of "0x1000" "0x301000" i 0]
    entry_addr_inj [of "0x1000" "0x302000" i 0] entry_addr_inj [of "0x1000" "0x303000" i 0]
  by (auto simp: empty_root_def page_free_internal_def pmm_boot_def zone_limits entry_addr_page
      page_aligned_def page_off_def Let_def)

lemma empty_root_wf: "pt_wf 0x1000 empty_root"
proof -
  have "pmm_inv empty_root" using empty_root_rep
    by (auto simp: pmm_inv_def empty_root_def page_free_internal_frame pmm_boot_def)
  moreover have "0x1000 \<notin> pmm_avail empty_root"
    using pmm_avail_rep [OF empty_root_rep] by (simp add: pool_pages_def)
  moreover have "page_aligned 0x1000" by (simp add: page_aligned_def page_off_def)
  ultimately show ?thesis
    by (auto simp: pt_wf_def pt_tree_def empty_root_entry
        split: if_splits intro!: exI [of _ "[0x1000 \<mapsto> 3]"])
qed

theorem vmm_map_page_updates_walk_witness:
  "\<exists>r s'. vmm_map_page 0x1000 0x8000000000 0x5000 PAGE_USER empty_root = Some (r, s') \<and>
     pt_wf 0x1000 s' \<and>
     (r = 0 \<and> pt_walk (pmem empty_root) 0x1000 0x8000000000 = None \<and>
        (\<forall>v. pt_walk (pmem s') 0x1000 v =
           (if same_page v 0x8000000000 then Some (0x5000 OR PAGE_USER OR PAGE_PRESENT)
            else pt_walk (pmem empty_root) 0x1000 v)) \<or>
      r = -1 \<and> (\<forall>v. pt_walk (pmem s') 0x1000 v = pt_walk (pmem empty_root) 0x1000 v))"
  by (rule vmm_map_page_updates_walk [OF empty_root_wf])

text \<open>
  \<^verbatim>\<open>vmm_map_range\<close> returns; no mapping that existed is changed, and when it
  returns 0 every page \<open>i\<close> of the range maps to frame \<open>phys + i * 0x1000\<close> with the given flags.
\<close>

lemma vmm_map_range_maps:
  assumes "pt_wf pml4 s"
  shows "\<exists>c s'. vmm_map_range pml4 virt phys pages flags s = Some (c, s') \<and> pt_wf pml4 s' \<and>
     (\<forall>w e. pt_walk (pmem s) pml4 w = Some e \<longrightarrow> pt_walk (pmem s') pml4 w = Some e) \<and>
     (c = 0 \<longrightarrow> (\<forall>i < pages. pt_walk (pmem s') pml4 (virt + i * PAGE_SIZE) =
        Some ((phys + i * PAGE_SIZE) OR flags OR PAGE_PRESENT)))"
  using map_range_loop_maps [OF assms, of 0 pages virt phys flags] by (simp add: vmm_map_range_def)

end
