(* ===== verification/Elf.thy ===== *)
theory Elf
  imports Vmm Vfs
begin

text \<open>
  The program loader, \<^verbatim>\<open>kernel/proc/elf.c\<close> and \<^verbatim>\<open>elf.h\<close>.  It runs on the physical memory and page tables
  of theories Pmm and Vmm together with the VFS; the list nodes it keeps on the kernel heap are
  allocated through the environment of the VFS.  The list of loaded pages is an Isabelle list of
  nodes, its first element the head.
\<close>

section \<open>State\<close>

record ('d, 'x) machine = cpu +
  fsys :: "('d, 'x) vfs"

definition ELF_MAX_PAGES :: int where "ELF_MAX_PAGES = 1024"
definition ELF_MAGIC :: u32 where "ELF_MAGIC = 0x464C457F"
definition PT_LOAD :: u32 where "PT_LOAD = 1"
definition PF_W :: u32 where "PF_W = 2"

record elf_page =
  ep_node :: u64
  ep_vaddr :: u64
  ep_phys :: u64

definition le64 :: "bytes \<Rightarrow> nat \<Rightarrow> u64" where
  "le64 b i = ucast (le32 b i) OR push_bit 32 (ucast (le32 b (i + 4)))"

text \<open>The fields of the headers the loader reads, at their offsets.\<close>

record elf64_hdr =
  e_ident :: bytes
  e_type :: u16
  e_entry :: u64
  e_phoff :: u64
  e_phentsize :: u16
  e_phnum :: u16

definition hdr_of :: "bytes \<Rightarrow> elf64_hdr" where
  "hdr_of b = \<lparr>e_ident = take 16 b, e_type = le16 b 16, e_entry = le64 b 24, e_phoff = le64 b 32,
               e_phentsize = le16 b 54, e_phnum = le16 b 56\<rparr>"

record elf64_phdr =
  p_type :: u32
  p_flags :: u32
  p_offset :: u64
  p_vaddr :: u64
  p_filesz :: u64
  p_memsz :: u64

definition phdr_of :: "bytes \<Rightarrow> elf64_phdr" where
  "phdr_of b = \<lparr>p_type = le32 b 0, p_flags = le32 b 4, p_offset = le64 b 8, p_vaddr = le64 b 16,
                p_filesz = le64 b 32, p_memsz = le64 b 40\<rparr>"

text \<open>A byte store into the memory of 64-bit cells.\<close>

definition store8 :: "u64 \<Rightarrow> u8 \<Rightarrow> mem64 \<Rightarrow> mem64" where
  "store8 a b m =
     (let c = a AND NOT 7; k = 8 * unat (a AND 7)
      in m(c := (m c AND NOT (push_bit k 0xFF)) OR push_bit k (ucast b)))"

fun store_bytes :: "u64 \<Rightarrow> bytes \<Rightarrow> mem64 \<Rightarrow> mem64" where
  "store_bytes a [] m = m"
| "store_bytes a (b # bs) m = store_bytes (a + 1) bs (store8 a b m)"

definition load8 :: "u64 \<Rightarrow> mem64 \<Rightarrow> u8" where
  "load8 a m = ucast (drop_bit (8 * unat (a AND 7)) (m (a AND NOT 7)))"

section \<open>Releasing what was loaded\<close>

fun elf_free_nodes :: "('d, 'x) env \<Rightarrow> elf_page list \<Rightarrow> ('d, 'x, 'm) machine_scheme \<Rightarrow> ('d, 'x, 'm) machine_scheme option" where
  "elf_free_nodes E [] s = Some s"
| "elf_free_nodes E (ep # eps) s =
     do { v \<leftarrow> k_free E (ep_node ep) (fsys s); elf_free_nodes E eps (s\<lparr>fsys := v\<rparr>) }"

text \<open>Clearing the entry of a page, as far as the tables above it are present.\<close>

definition clear_entry :: "u64 \<Rightarrow> u64 \<Rightarrow> mem64 \<Rightarrow> mem64" where
  "clear_entry pml4 vaddr m =
     (let pml4e = m (entry_addr pml4 (pt_idx 0 vaddr));
          pdpte = m (entry_addr (page_base pml4e) (pt_idx 1 vaddr));
          pde = m (entry_addr (page_base pdpte) (pt_idx 2 vaddr));
          a = entry_addr (page_base pde) (pt_idx 3 vaddr)
      in if pml4e AND PAGE_PRESENT \<noteq> 0 \<and> pdpte AND PAGE_PRESENT \<noteq> 0 \<and> pde AND PAGE_PRESENT \<noteq> 0 \<and>
            m a AND PAGE_PRESENT \<noteq> 0
         then m(a := 0) else m)"

fun elf_cleanup ::
  "('d, 'x) env \<Rightarrow> elf_page list \<Rightarrow> u64 \<Rightarrow> ('d, 'x, 'm) machine_scheme \<Rightarrow> ('d, 'x, 'm) machine_scheme option" where
  "elf_cleanup E [] pml4 s = Some s"
| "elf_cleanup E (ep # eps) pml4 s =
     do { s \<leftarrow> (if ep_phys ep \<noteq> 0
                then pmm_free (ep_phys ep)
                       (if ep_vaddr ep \<noteq> 0 then s\<lparr>pmem := clear_entry pml4 (ep_vaddr ep) (pmem s)\<rparr> else s)
                else Some s);
          v \<leftarrow> k_free E (ep_node ep) (fsys s);
          elf_cleanup E eps pml4 (s\<lparr>fsys := v\<rparr>) }"

section \<open>Loading\<close>

text \<open>\<^verbatim>\<open>file->offset = off; vfs_read(file, n, buf)\<close>; the file is a slot of the file table.\<close>

definition read_at ::
  "('d, 'x) env \<Rightarrow> nat \<Rightarrow> u64 \<Rightarrow> u64 \<Rightarrow> ('d, 'x, 'm) machine_scheme \<Rightarrow> (int \<times> bytes \<times> ('d, 'x, 'm) machine_scheme) option" where
  "read_at E file off n s =
     (let v = fsys s;
          v = v\<lparr>file_table := (file_table v)[file := (file_table v ! file)\<lparr>vf_offset := off\<rparr>]\<rparr>
      in do { (r, bs, v) \<leftarrow> vfs_read E (Some file) n True v; Some (r, bs, s\<lparr>fsys := v\<rparr>) })"

text \<open>The range of the file that goes into the page at \<open>page_vaddr\<close>: its offset and length.\<close>

definition page_source :: "elf64_phdr \<Rightarrow> u64 \<Rightarrow> (u64 \<times> u64) option" where
  "page_source ph page_vaddr =
     (let vaddr = p_vaddr ph in
      if vaddr \<le> page_vaddr \<and> page_vaddr < vaddr + p_filesz ph
      then let copy_size = (if vaddr + p_filesz ph < page_vaddr + PAGE_SIZE
                            then vaddr + p_filesz ph - page_vaddr else PAGE_SIZE)
           in if 0 < copy_size then Some (p_offset ph + (page_vaddr - vaddr), copy_size) else None
      else None)"

text \<open>\<^verbatim>\<open>sizeof(struct elf_page)\<close>\<close>

definition NODE_SIZE :: u64 where "NODE_SIZE = 24"

text \<open>The error return of \<^verbatim>\<open>elf_load\<close>: everything loaded so far is released.\<close>

definition abandon ::
  "('d, 'x) env \<Rightarrow> elf_page list \<Rightarrow> u64 \<Rightarrow> ('d, 'x, 'm) machine_scheme \<Rightarrow>
     (bool \<times> elf_page list \<times> ('d, 'x, 'm) machine_scheme) option" where
  "abandon E plist pml4 s = do { s \<leftarrow> elf_cleanup E plist pml4 s; Some (False, [], s) }"

text \<open>Clearing a new page and reading its part of the file into it.\<close>

definition fill_page ::
  "('d, 'x) env \<Rightarrow> nat \<Rightarrow> elf64_phdr \<Rightarrow> u64 \<Rightarrow> u64 \<Rightarrow> ('d, 'x, 'm) machine_scheme \<Rightarrow>
     ('d, 'x, 'm) machine_scheme option" where
  "fill_page E file ph page_vaddr phys s =
     (let s = s\<lparr>pmem := zero_page phys (pmem s)\<rparr> in
      case page_source ph page_vaddr of
        None \<Rightarrow> Some s
      | Some (off, n) \<Rightarrow>
          do { (_, bs, s) \<leftarrow> read_at E file off n s;
               Some (s\<lparr>pmem := store_bytes phys bs (pmem s)\<rparr>) })"

text \<open>
  One page of a segment.  The first component of the result tells whether the loader goes on.
\<close>

definition load_page ::
  "('d, 'x) env \<Rightarrow> nat \<Rightarrow> u64 \<Rightarrow> elf64_phdr \<Rightarrow> u64 \<Rightarrow> u64 \<Rightarrow> elf_page list \<Rightarrow> ('d, 'x, 'm) machine_scheme \<Rightarrow>
     (bool \<times> elf_page list \<times> ('d, 'x, 'm) machine_scheme) option" where
  "load_page E file pml4 ph flags page_vaddr plist s =
     do { (node, v) \<leftarrow> k_malloc E NODE_SIZE (fsys s);
          let s = s\<lparr>fsys := v\<rparr>;
          if node = 0 then abandon E plist pml4 s
          else do {
            (phys, s) \<leftarrow> pmm_alloc s;
            if phys = 0 then do { v \<leftarrow> k_free E node (fsys s); abandon E plist pml4 (s\<lparr>fsys := v\<rparr>) }
            else do {
              s \<leftarrow> fill_page E file ph page_vaddr phys s;
              let plist = \<lparr>ep_node = node, ep_vaddr = page_vaddr, ep_phys = phys\<rparr> # plist;
              (r, s) \<leftarrow> vmm_map_page pml4 page_vaddr phys flags s;
              if r \<noteq> 0 then abandon E plist pml4 s else Some (True, plist, s) } } }"

fun load_pages ::
  "('d, 'x) env \<Rightarrow> nat \<Rightarrow> u64 \<Rightarrow> elf64_phdr \<Rightarrow> u64 \<Rightarrow> u64 \<Rightarrow> nat list \<Rightarrow> elf_page list \<Rightarrow> ('d, 'x, 'm) machine_scheme \<Rightarrow>
     (bool \<times> elf_page list \<times> ('d, 'x, 'm) machine_scheme) option" where
  "load_pages E file pml4 ph flags page_start [] plist s = Some (True, plist, s)"
| "load_pages E file pml4 ph flags page_start (p # ps) plist s =
     do { (ok, plist, s) \<leftarrow> load_page E file pml4 ph flags (page_start + of_nat p * PAGE_SIZE) plist s;
          if \<not> ok then Some (False, [], s)
          else load_pages E file pml4 ph flags page_start ps plist s }"

definition pages_needed :: "elf64_phdr \<Rightarrow> u64" where
  "pages_needed ph = (page_base (p_vaddr ph + p_memsz ph + 0xFFF) - page_base (p_vaddr ph)) div PAGE_SIZE"

fun load_segments ::
  "('d, 'x) env \<Rightarrow> nat \<Rightarrow> u64 \<Rightarrow> elf64_hdr \<Rightarrow> nat list \<Rightarrow> elf_page list \<Rightarrow> ('d, 'x, 'm) machine_scheme \<Rightarrow>
     (bool \<times> elf_page list \<times> ('d, 'x, 'm) machine_scheme) option" where
  "load_segments E file pml4 hdr [] plist s = Some (True, plist, s)"
| "load_segments E file pml4 hdr (i # is) plist s =
     do { (r, bs, s) \<leftarrow> read_at E file (e_phoff hdr + of_nat i * 56) 56 s;
          if r \<noteq> 56 then abandon E plist pml4 s
          else let ph = phdr_of bs in
            if p_type ph \<noteq> PT_LOAD then load_segments E file pml4 hdr is plist s
            else if ELF_MAX_PAGES < int (length plist) + to_int (pages_needed ph)
            then abandon E plist pml4 s
            else do {
              let flags = (if p_flags ph AND PF_W \<noteq> 0 then PAGE_USER OR PAGE_WRITE else PAGE_USER);
              (ok, plist, s) \<leftarrow>
                load_pages E file pml4 ph flags (page_base (p_vaddr ph)) [0..<unat (pages_needed ph)] plist s;
              if \<not> ok then Some (False, [], s)
              else load_segments E file pml4 hdr is plist s } }"

definition hdr_ok :: "elf64_hdr \<Rightarrow> bool" where
  "hdr_ok h \<longleftrightarrow> le32 (e_ident h) 0 = ELF_MAGIC \<and> e_ident h ! 4 = 2 \<and> e_ident h ! 5 = 1 \<and> e_type h = 2 \<and>
               e_phentsize h = 56"

text \<open>The entry point, 0 when the program cannot be loaded.\<close>

definition elf_load ::
  "('d, 'x) env \<Rightarrow> nat option \<Rightarrow> u64 \<Rightarrow> ('d, 'x, 'm) machine_scheme \<Rightarrow> (u64 \<times> ('d, 'x, 'm) machine_scheme) option" where
  "elf_load E file pml4 s =
     (case file of
        None \<Rightarrow> Some (0, s)
      | Some f \<Rightarrow>
          if pml4 = 0 then Some (0, s)
          else do {
            (r, bs, s) \<leftarrow> read_at E f 0 64 s;
            if r \<noteq> 64 \<or> \<not> hdr_ok (hdr_of bs) then Some (0, s)
            else do {
              let hdr = hdr_of bs;
              (ok, plist, s) \<leftarrow> load_segments E f pml4 hdr [0..<unat (e_phnum hdr)] [] s;
              if \<not> ok then Some (0, s)
              else do { s \<leftarrow> elf_free_nodes E plist s; Some (e_entry hdr, s) } } })"

section \<open>Byte stores\<close>

text \<open>The byte at an address, and what a byte store changes.\<close>

lemma mask_ff: "(0xFF :: u64) = mask 8" by (simp add: mask_eq_exp_minus_1)

lemma byte_same:
  assumes "k \<le> 56"
  shows "ucast (drop_bit k ((w AND NOT (push_bit k 0xFF)) OR push_bit k (ucast (b :: u8) :: u64))) = b"
  unfolding mask_ff by (rule bit_word_eqI) (use assms in \<open>auto simp: bit_simps\<close>)

lemma byte_other:
  assumes "i < 8" "j < 8" "i \<noteq> j"
  shows "ucast (drop_bit (8 * i) ((w AND NOT (push_bit (8 * j) 0xFF)) OR push_bit (8 * j) (ucast (b :: u8) :: u64))) =
         (ucast (drop_bit (8 * i) w) :: u8)"
proof (rule bit_word_eqI)
  fix n assume n: "n < LENGTH(8)"
  have "\<not> (8 * j \<le> 8 * i + n \<and> 8 * i + n - 8 * j < 8)" using assms n by auto
  then show "bit (ucast (drop_bit (8 * i) ((w AND NOT (push_bit (8 * j) 0xFF)) OR push_bit (8 * j) (ucast b))) :: u8) n =
      bit (ucast (drop_bit (8 * i) w) :: u8) n"
    unfolding mask_ff using n assms(1) by (auto simp: bit_simps dest: bit_imp_le_length)
qed

lemma and_split: "(a AND NOT 7) OR (a AND 7) = (a :: u64)"
  by (rule bit_word_eqI) (auto simp: bit_simps)

lemma and7: "unat ((a :: u64) AND 7) < 8"
proof -
  have "a AND 7 = take_bit 3 a" by (simp add: take_bit_eq_mask mask_eq_exp_minus_1)
  then have "unat (a AND 7) = take_bit 3 (unat a)" by (simp add: unsigned_take_bit_eq)
  then show ?thesis using take_bit_nat_less_exp [of 3 "unat a"] by simp
qed

lemma load8_store8: "load8 a (store8 b v m) = (if a = b then v else load8 a m)"
proof (cases "a AND NOT 7 = b AND NOT 7 \<and> a \<noteq> b")
  case True
  then have "a AND 7 \<noteq> b AND 7" using and_split [of a] and_split [of b] by metis
  then have "unat (a AND 7) \<noteq> unat (b AND 7)" by (simp add: word_unat_eq_iff)
  then show ?thesis
    using True byte_other [OF and7 and7, of a b] unfolding load8_def store8_def Let_def by simp
next
  case False
  have "8 * unat (b AND 7) \<le> 56" using and7 [of b] by simp
  then show ?thesis using False using byte_same unfolding load8_def store8_def Let_def by (auto simp del: drop_bit_or drop_bit_and)
qed

lemma load8_store_bytes:
  assumes "length bs \<le> 2 ^ 64"
  shows "load8 x (store_bytes a bs m) = (if unat (x - a) < length bs then bs ! unat (x - a) else load8 x m)"
  using assms
proof (induction bs arbitrary: a m)
  case (Cons b bs)
  show ?case
  proof (cases "x = a")
    case True
    then have "unat (x - (a + 1)) = 2 ^ 64 - 1" by (simp add: unsigned_minus_1_eq_mask mask_eq_exp_minus_1)
    then have "\<not> unat (x - (a + 1)) < length bs" using Cons.prems by (simp del: diff_diff_add)
    then show ?thesis using Cons True by (simp add: load8_store8 del: diff_diff_add)
  next
    case False
    then have "x - a \<noteq> 0" by simp
    then have u: "unat (x - a) = Suc (unat (x - (a + 1)))"
      using unat_minus_one [of "x - a"] unat_gt_0 [of "x - a"] by (simp add: diff_diff_add)
    then show ?thesis using Cons False by (simp add: load8_store8)
  qed
qed simp

text \<open>A cleared page, byte by byte.\<close>

lemma unat_round8: "unat (a AND NOT 7 :: u64) = 8 * (unat a div 8)"
proof -
  have off: "unat (a AND 7) = unat a mod 8"
  proof -
    have "a AND 7 = take_bit 3 a" by (simp add: take_bit_eq_mask mask_eq_exp_minus_1)
    then show ?thesis by (simp add: unat_mod take_bit_eq_mod)
  qed
  have "(a AND NOT 7) + (a AND 7) = a" by (subst disjunctive_add) (auto simp: bit_simps intro: bit_word_eqI)
  then have "a AND NOT 7 = a - (a AND 7)" by (simp add: eq_diff_eq)
  moreover have "a AND 7 \<le> a" by (simp add: word_le_nat_alt off)
  ultimately have "unat (a AND NOT 7) = unat a - unat a mod 8" by (simp only: unat_sub off)
  then show ?thesis by (simp add: minus_mod_eq_mult_div)
qed

lemma in_page_entry:
  assumes "page_aligned q"
  shows "unat (a - q) < 4096 \<longleftrightarrow> (\<exists>i \<in> set [0..<512]. a AND NOT 7 = entry_addr q i)"
proof -
  obtain P where P: "unat q = 4096 * P" using assms unfolding page_aligned_unat dvd_def by blast
  have mx: "4096 * P + 4096 \<le> 2 ^ 64" using page_aligned_max [OF assms] P by simp
  have d: "unat (a - q) = (if 4096 * P \<le> unat a then unat a - 4096 * P else unat a + 2 ^ 64 - 4096 * P)"
    by (simp add: unat_sub_if' P)
  have e: "a AND NOT 7 = entry_addr q i \<longleftrightarrow> 8 * (unat a div 8) = 4096 * P + 8 * i" if "i < 512" for i
    unfolding word_unat_eq_iff unat_round8 unat_entry_addr [OF assms that] P ..
  show ?thesis
  proof
    assume l: "unat (a - q) < 4096"
    then have "4096 * P \<le> unat a" "unat a < 4096 * P + 4096" using d mx by (auto split: if_splits)
    then have "unat a div 8 - 512 * P < 512" "8 * (unat a div 8) = 4096 * P + 8 * (unat a div 8 - 512 * P)" by linarith+
    then show "\<exists>i \<in> set [0..<512]. a AND NOT 7 = entry_addr q i"
      using e by (intro bexI [of _ "unat a div 8 - 512 * P"]) (blast, simp)
  next
    assume "\<exists>i \<in> set [0..<512]. a AND NOT 7 = entry_addr q i"
    then obtain i where "i < 512" "8 * (unat a div 8) = 4096 * P + 8 * i" using e by auto
    then have "4096 * P \<le> unat a" "unat a < 4096 * P + 4096" by linarith+
    then show "unat (a - q) < 4096" using d by simp
  qed
qed

lemma load8_zero_page:
  assumes "page_aligned q"
  shows "load8 a (zero_page q m) = (if unat (a - q) < 4096 then 0 else load8 a m)"
  unfolding in_page_entry [OF assms] by (simp add: load8_def zero_page_def fold_zero)

section \<open>What the pages of a segment hold\<close>

text \<open>A segment whose addresses do not wrap around.\<close>

definition seg_ok :: "elf64_phdr \<Rightarrow> bool" where
  "seg_ok ph \<longleftrightarrow> unat (p_vaddr ph) + unat (p_filesz ph) + 4096 \<le> 2 ^ 64"

lemma page_source_aligned:
  assumes "seg_ok ph" and "page_aligned (p_vaddr ph)" and "4096 * p < unat (p_filesz ph)"
  shows "page_source ph (p_vaddr ph + of_nat (4096 * p)) =
    Some (p_offset ph + of_nat (4096 * p), of_nat (min 4096 (unat (p_filesz ph) - 4096 * p)))"
proof -
  define k where "k = (of_nat (4096 * p) :: u64)"
  define f where "f = p_filesz ph"
  define v where "v = p_vaddr ph"
  have b: "unat v + unat f + 4096 \<le> 2 ^ 64" using assms(1) by (simp add: seg_ok_def v_def f_def)
  have lt: "4096 * p < unat f" using assms(3) by (simp add: f_def)
  have uk: "unat k = 4096 * p" unfolding k_def by (rule unat_of_nat64) (use lt b in linarith)
  have uvk: "unat (v + k) = unat v + 4096 * p" using unat_add_nowrap [of v k] uk lt b by simp
  have uvf: "unat (v + f) = unat v + unat f" using unat_add_nowrap [of v f] b by simp
  have uve: "unat (v + k + PAGE_SIZE) = unat v + 4096 * p + 4096"
    using unat_add_nowrap [of "v + k" PAGE_SIZE] uvk lt b by (simp add: PAGE_SIZE_def)
  have g1: "v \<le> v + k" by (simp add: word_le_nat_alt uvk)
  have g2: "v + k < v + f" using lt by (simp add: word_less_nat_alt uvk uvf)
  have g3: "v + f < v + k + PAGE_SIZE \<longleftrightarrow> unat f < 4096 * p + 4096"
    by (simp only: word_less_nat_alt uvf uve) simp
  have sub: "v + f - (v + k) = of_nat (unat f - 4096 * p)"
  proof -
    have "f - k = of_nat (unat f - 4096 * p)" using lt by (simp add: k_def of_nat_diff)
    then show ?thesis by simp
  qed
  have csz: "(if v + f < v + k + PAGE_SIZE then v + f - (v + k) else PAGE_SIZE) =
        of_nat (min 4096 (unat f - 4096 * p))"
    unfolding g3 sub using lt by (auto simp: PAGE_SIZE_def min_def)
  have pos: "(0 :: u64) < of_nat (min 4096 (unat f - 4096 * p))"
    using lt b by (subst word_less_nat_alt, subst unat_of_nat64) (simp_all add: min_def)
  have "page_source ph (v + k) = Some (p_offset ph + (v + k - v), of_nat (min 4096 (unat f - 4096 * p)))"
    by (simp only: page_source_def Let_def f_def [symmetric] v_def [symmetric] g1 g2 csz pos simp_thms if_True)
  then show ?thesis by (simp only: add_diff_cancel_left' v_def f_def k_def)
qed

lemma page_source_past:
  assumes "seg_ok ph" and "unat (p_filesz ph) \<le> 4096 * p" and "unat (p_vaddr ph) + 4096 * p < 2 ^ 64"
  shows "page_source ph (p_vaddr ph + of_nat (4096 * p)) = None"
proof -
  define k where "k = (of_nat (4096 * p) :: u64)"
  have "unat k = 4096 * p" unfolding k_def by (rule unat_of_nat64) (use assms(3) in linarith)
  then have uvk: "unat (p_vaddr ph + k) = unat (p_vaddr ph) + 4096 * p"
    using unat_add_nowrap [of "p_vaddr ph" k] assms(3) by simp
  have uvf: "unat (p_vaddr ph + p_filesz ph) = unat (p_vaddr ph) + unat (p_filesz ph)"
    using unat_add_nowrap [of "p_vaddr ph" "p_filesz ph"] assms(1) by (simp add: seg_ok_def)
  have "\<not> p_vaddr ph + k < p_vaddr ph + p_filesz ph"
    using assms(2) by (simp add: word_less_nat_alt uvk uvf)
  then show ?thesis by (simp add: page_source_def Let_def k_def del: of_nat_mult)
qed

text \<open>
  The byte a program finds at offset \<open>k\<close> of a segment: a byte of the file up to the file size, zero from there on.  \<open>cont\<close> are the
  contents of the file, which reading it at any position gives back.
\<close>

definition segment_byte :: "elf64_phdr \<Rightarrow> bytes \<Rightarrow> nat \<Rightarrow> u8" where
  "segment_byte ph cont k =
     (if k < unat (p_filesz ph) \<and> unat (p_offset ph) + k < length cont then cont ! (unat (p_offset ph) + k) else 0)"

definition file_gives :: "('d, 'x) env \<Rightarrow> nat \<Rightarrow> bytes \<Rightarrow> ('d, 'x) vfs \<Rightarrow> bool" where
  "file_gives E file cont v \<longleftrightarrow>
     (\<forall>off n. \<exists>r v'. vfs_read E (Some file) n True (v\<lparr>file_table := (file_table v)[file := (file_table v ! file)\<lparr>vf_offset := off\<rparr>]\<rparr>) =
        Some (r, take (unat n) (drop (unat off) cont), v'))"

text \<open>
  C18 (functional): in a segment that starts on a page boundary and does not wrap, the loader fills the memory of page \<open>p\<close> as
  follows.  Byte \<open>i\<close> of the page is the byte of the file at \<^verbatim>\<open>p_offset + 4096 * p + i\<close> while
  \<^verbatim>\<open>4096 * p + i\<close> is below the file size of the segment (and the file is that long), and zero from there on, whatever the page held before;
  no byte outside the page changes.
\<close>

theorem elf_segment_bytes:
  assumes "seg_ok ph" and "page_aligned (p_vaddr ph)" and "unat (p_offset ph) + unat (p_filesz ph) < 2 ^ 64"
    and "unat (p_vaddr ph) + 4096 * p < 2 ^ 64" and "page_aligned phys" and "file_gives E file cont (fsys s)"
  shows "\<exists>s'. fill_page E file ph (p_vaddr ph + of_nat (4096 * p)) phys s = Some s' \<and>
    (\<forall>a. load8 a (pmem s') =
       (if unat (a - phys) < 4096 then segment_byte ph cont (4096 * p + unat (a - phys)) else load8 a (pmem s)))"
proof (cases "4096 * p < unat (p_filesz ph)")
  case True
  define n where "n = min 4096 (unat (p_filesz ph) - 4096 * p)"
  define off where "off = p_offset ph + of_nat (4096 * p)"
  have un: "unat (of_nat n :: u64) = n" by (rule unat_of_nat64) (simp add: n_def min_def)
  have "unat (of_nat (4096 * p) :: u64) = 4096 * p" using True assms(3) by (intro unat_of_nat64) simp
  then have uo: "unat off = unat (p_offset ph) + 4096 * p"
    unfolding off_def using True assms(3) by (subst unat_add_nowrap) simp_all
  have src: "page_source ph (p_vaddr ph + of_nat (4096 * p)) = Some (off, of_nat n)"
    using page_source_aligned [OF assms(1,2) True] by (simp only: n_def off_def)
  define bs where "bs = take n (drop (unat off) cont)"
  obtain r v where v: "vfs_read E (Some file) (of_nat n) True ((fsys s)\<lparr>file_table := (file_table (fsys s))
      [file := (file_table (fsys s) ! file)\<lparr>vf_offset := off\<rparr>]\<rparr>) = Some (r, bs, v)"
    using assms(6) un unfolding file_gives_def bs_def by metis
  let ?s = "s\<lparr>fsys := v, pmem := store_bytes phys bs (zero_page phys (pmem s))\<rparr>"
  have "fill_page E file ph (p_vaddr ph + of_nat (4096 * p)) phys s = Some ?s"
    using v by (simp add: fill_page_def src read_at_def Let_def del: of_nat_mult)
  moreover have "load8 a (pmem ?s) =
      (if unat (a - phys) < 4096 then segment_byte ph cont (4096 * p + unat (a - phys)) else load8 a (pmem s))" for a
  proof -
    have lb: "length bs = min n (length cont - unat off)" "length bs \<le> 4096" by (simp_all add: bs_def n_def)
    then have "load8 a (pmem ?s) = (if unat (a - phys) < length bs then bs ! unat (a - phys)
        else if unat (a - phys) < 4096 then 0 else load8 a (pmem s))"
      by (simp add: load8_store_bytes load8_zero_page [OF assms(5)])
    moreover have "bs ! i = segment_byte ph cont (4096 * p + i)" if "i < length bs" for i
      using that lb(1) by (auto simp: bs_def segment_byte_def uo n_def add.assoc)
    moreover have "segment_byte ph cont (4096 * p + i) = 0" if "\<not> i < length bs" "i < 4096" for i
      using that lb(1) by (auto simp: segment_byte_def uo n_def)
    ultimately show ?thesis using lb(2) by auto
  qed
  ultimately show ?thesis by blast
next
  case False
  then have "fill_page E file ph (p_vaddr ph + of_nat (4096 * p)) phys s = Some (s\<lparr>pmem := zero_page phys (pmem s)\<rparr>)"
    using page_source_past [OF assms(1) _ assms(4)] by (simp add: fill_page_def Let_def del: of_nat_mult)
  moreover have "segment_byte ph cont (4096 * p + i) = 0" for i using False by (simp add: segment_byte_def)
  ultimately show ?thesis by (simp add: load8_zero_page [OF assms(5)])
qed

definition demo_phdr :: elf64_phdr where
  "demo_phdr = \<lparr>p_type = PT_LOAD, p_flags = 5, p_offset = 0x200, p_vaddr = 0x8000000000, p_filesz = 5000,
                p_memsz = 9000\<rparr>"

text \<open>An environment whose files hold the given contents, and a machine in which file 0 is open.\<close>

definition text_env :: "bytes \<Rightarrow> (u64 \<Rightarrow> u8, unit) env" where
  "text_env cont = ram_env\<lparr>e_ops := (\<lambda>_. no_ops\<lparr>op_read := Some (\<lambda>p off n s.
     let bs = take (unat n) (drop (unat off) cont) in Some (int (length bs), bs, s))\<rparr>)\<rparr>"

definition text_vfs :: "(u64 \<Rightarrow> u8, unit) vfs" where
  "text_vfs = ram_vfs\<lparr>inodes := (\<lambda>_. blank_inode\<lparr>vi_ops := Some (other_ops 0)\<rparr>),
     file_table := [\<lparr>vf_inode = 0x2000, vf_offset = 0, vf_flags = VFS_O_READ\<rparr>]\<rparr>"

definition dirty_machine :: "(u64 \<Rightarrow> u8, unit) machine" where
  "dirty_machine = \<lparr>pmem = (\<lambda>_. 0xFFFFFFFFFFFFFFFF), dma_free_list = 0, dma32_free_list = 0, normal_free_list = 0, free_pages_total = 0,
     pmm_lock = False, cr3 = 0x1000, fsys = text_vfs\<rparr>"

lemma text_file_gives: "file_gives (text_env cont) 0 cont text_vfs"
  by (simp add: file_gives_def vfs_read_def text_vfs_def ops_of_def text_env_def Let_def VFS_O_READ_def)

theorem elf_segment_bytes_witness:
  "\<exists>s'. fill_page (text_env (replicate 6000 9)) 0 demo_phdr (0x8000000000 + of_nat (4096 * 1)) 0x300000 dirty_machine = Some s' \<and>
     load8 0x300000 (pmem s') = 9 \<and> load8 0x300388 (pmem s') = 0 \<and> load8 0x301000 (pmem s') = 0xFF"
proof -
  have e: "load8 0x301000 (pmem dirty_machine) = 0xFF" by (simp add: load8_def dirty_machine_def)
  have "\<exists>s'. fill_page (text_env (replicate 6000 9)) 0 demo_phdr (p_vaddr demo_phdr + of_nat (4096 * 1)) 0x300000 dirty_machine = Some s' \<and>
    (\<forall>a. load8 a (pmem s') = (if unat (a - 0x300000) < 4096
       then segment_byte demo_phdr (replicate 6000 9) (4096 * 1 + unat (a - 0x300000)) else load8 a (pmem dirty_machine)))"
    by (rule elf_segment_bytes)
       (simp_all add: demo_phdr_def seg_ok_def page_aligned_unat text_file_gives dirty_machine_def)
  then obtain s' where s: "fill_page (text_env (replicate 6000 9)) 0 demo_phdr (p_vaddr demo_phdr + of_nat (4096 * 1)) 0x300000 dirty_machine = Some s'"
    and l: "\<And>a. load8 a (pmem s') = (if unat (a - 0x300000) < 4096
       then segment_byte demo_phdr (replicate 6000 9) (4096 * 1 + unat (a - 0x300000)) else load8 a (pmem dirty_machine))" by blast
  have "load8 0x300000 (pmem s') = 9" "load8 0x300388 (pmem s') = 0" "load8 0x301000 (pmem s') = 0xFF"
    by (simp_all add: l e segment_byte_def demo_phdr_def)
  then show ?thesis using s by (auto simp: demo_phdr_def)
qed

text \<open>
  In a segment that does not start on a page boundary the first page is left empty: the bytes of the
  segment on it are never read from the file.
\<close>

lemma page_source_unaligned:
  assumes "\<not> page_aligned (p_vaddr ph)"
  shows "page_source ph (page_base (p_vaddr ph)) = None"
proof -
  have "unat (p_vaddr ph) mod 4096 \<noteq> 0" using assms by (auto simp: page_aligned_unat dvd_eq_mod_eq_0)
  moreover have "unat (p_vaddr ph) mod 4096 \<le> unat (p_vaddr ph)" by simp
  ultimately have "page_base (p_vaddr ph) < p_vaddr ph" by (simp add: word_less_nat_alt unat_page_base)
  then have "\<not> p_vaddr ph \<le> page_base (p_vaddr ph)" by simp
  then show ?thesis by (simp add: page_source_def Let_def del: not_le)
qed

end
