(* ===== verification/Task.thy ===== *)
theory Task
  imports Elf Pipefs
begin

text \<open>
  Processes and the scheduler, \<^verbatim>\<open>kernel/proc/task.c\<close> and \<^verbatim>\<open>task.h\<close>.  The static variables of the file
  extend the machine of theory Elf: the task table (a pointer into it is an index), the pid
  counter and bitmap, the current task, and the stack pointer \<^verbatim>\<open>gdt_set_kstack\<close> stores in the task
  state segment.  A call that leaves the running thread (\<^verbatim>\<open>task_exit\<close>, and \<^verbatim>\<open>schedule\<close> at the level of
  the interrupt return) is a value of the type \<open>outcome\<close>.
\<close>

section \<open>State\<close>

definition MAX_TASKS :: nat where "MAX_TASKS = 32"
definition KSTACK_SIZE :: u64 where "KSTACK_SIZE = 0x4000"
definition KSTACK_PAGES :: u64 where "KSTACK_PAGES = KSTACK_SIZE div 0x1000"
definition USER_BASE_VADDR :: u64 where "USER_BASE_VADDR = 0x8000000000"
definition USER_HEAP_START :: u64 where "USER_HEAP_START = USER_BASE_VADDR + 0x100000000"
definition GDT_UCODE :: u64 where "GDT_UCODE = 0x18"
definition GDT_UDATA :: u64 where "GDT_UDATA = 0x20"

definition SIGINT :: int where "SIGINT = 2"
definition SIGQUIT :: int where "SIGQUIT = 3"
definition SIGILL :: int where "SIGILL = 4"
definition SIGTRAP :: int where "SIGTRAP = 5"
definition SIGABRT :: int where "SIGABRT = 6"
definition SIGBUS :: int where "SIGBUS = 7"
definition SIGFPE :: int where "SIGFPE = 8"
definition SIGKILL :: int where "SIGKILL = 9"
definition SIGSEGV :: int where "SIGSEGV = 11"
definition SIGTERM :: int where "SIGTERM = 15"
definition SIGSTOP :: int where "SIGSTOP = 19"
definition SIG_DFL :: u64 where "SIG_DFL = 0"
definition SIG_IGN :: u64 where "SIG_IGN = 1"

lemmas signal_numbers = SIGINT_def SIGQUIT_def SIGILL_def SIGTRAP_def SIGABRT_def SIGBUS_def SIGFPE_def
  SIGKILL_def SIGSEGV_def SIGTERM_def SIGSTOP_def SIG_DFL_def SIG_IGN_def

datatype task_state = TASK_FREE | TASK_READY | TASK_RUNNING | TASK_BLOCKED | TASK_ZOMBIE

record sigaction =
  sa_handler :: u64
  sa_mask :: u64
  sa_flags :: int

record task =
  t_pid :: int
  t_state :: task_state
  t_kernel_rsp :: u64
  t_kernel_cr3 :: u64
  t_pml4 :: u64
  t_brk :: u64
  t_kstack_page :: u64
  t_ustack_page :: u64
  t_exit_code :: int
  t_parent_pid :: int
  t_fds :: "nat option list"
  t_cwd :: string
  t_sig_pending :: u64
  t_sig_blocked :: u64
  t_sig_actions :: "sigaction list"

record ('d, 'x) sys = "('d, 'x) machine" +
  tasks :: "task list"
  next_pid :: int
  task_count :: int
  current_idx :: nat
  pid_bitmap :: u32
  current_task :: "nat option"
  tss_rsp0 :: u64

record pushaq_frame =
  fr_r15 :: u64
  fr_r14 :: u64
  fr_r13 :: u64
  fr_r12 :: u64
  fr_r11 :: u64
  fr_r10 :: u64
  fr_r9 :: u64
  fr_r8 :: u64
  fr_rbp :: u64
  fr_rdi :: u64
  fr_rsi :: u64
  fr_rdx :: u64
  fr_rcx :: u64
  fr_rbx :: u64
  fr_rax :: u64
  fr_rip :: u64
  fr_cs :: u64
  fr_rflags :: u64
  fr_rsp :: u64
  fr_ss :: u64

text \<open>How a call ends: it returns, it halts the processor, or it resumes another thread at a stack.\<close>

datatype 'a outcome = Return 'a | Halted | Switched u64

definition task_at :: "nat \<Rightarrow> ('d, 'x) sys \<Rightarrow> task" where
  "task_at i s = tasks s ! i"

definition set_task :: "nat \<Rightarrow> (task \<Rightarrow> task) \<Rightarrow> ('d, 'x) sys \<Rightarrow> ('d, 'x) sys" where
  "set_task i f s = s\<lparr>tasks := (tasks s)[i := f (tasks s ! i)]\<rparr>"

text \<open>A call into the VFS.\<close>

definition on_fs :: "(('d, 'x) vfs \<Rightarrow> ('a \<times> ('d, 'x) vfs) option) \<Rightarrow> ('d, 'x) sys \<Rightarrow> ('a \<times> ('d, 'x) sys) option" where
  "on_fs f s = do { (r, v) \<leftarrow> f (fsys s); Some (r, s\<lparr>fsys := v\<rparr>) }"

definition gdt_set_kstack :: "u64 \<Rightarrow> ('d, 'x) sys \<Rightarrow> ('d, 'x) sys" where
  "gdt_set_kstack rsp0 s = s\<lparr>tss_rsp0 := rsp0\<rparr>"

section \<open>Process identifiers\<close>

text \<open>
  The bitmap \<^verbatim>\<open>pid_bitmap[(MAX_TASKS + 31) / 32]\<close> has one word, so the index check is \<open>pid < 32\<close>.  The
  first argument counts the attempts left.
\<close>

fun alloc_pid_loop :: "nat \<Rightarrow> ('d, 'x) sys \<Rightarrow> int \<times> ('d, 'x) sys" where
  "alloc_pid_loop 0 s = (-1, s)"
| "alloc_pid_loop (Suc n) s =
     (let pid = (if 1000000 \<le> next_pid s then 1 else next_pid s);
          s = s\<lparr>next_pid := pid + 1\<rparr>
      in if 1 \<le> pid div 32 then alloc_pid_loop n s
         else if \<not> bit (pid_bitmap s) (nat (pid mod 32))
         then (pid, s\<lparr>pid_bitmap := pid_bitmap s OR push_bit (nat (pid mod 32)) 1\<rparr>)
         else alloc_pid_loop n s)"

definition alloc_pid :: "('d, 'x) sys \<Rightarrow> int \<times> ('d, 'x) sys" where
  "alloc_pid s = alloc_pid_loop (MAX_TASKS * 2) s"

definition free_pid :: "int \<Rightarrow> ('d, 'x) sys \<Rightarrow> ('d, 'x) sys" where
  "free_pid pid s =
     (if pid div 32 < 1 then s\<lparr>pid_bitmap := pid_bitmap s AND NOT (push_bit (nat (pid mod 32)) 1)\<rparr> else s)"

section \<open>Releasing the memory of a task\<close>

text \<open>
  The nested loops over the page tables: the entries \<open>is\<close> of the table \<open>t\<close>, which has \<open>k\<close> levels of
  tables below it.  A huge page is an entry of one of the two middle levels.
\<close>

fun free_entries :: "nat \<Rightarrow> u64 \<Rightarrow> nat list \<Rightarrow> 'a phys_scheme \<Rightarrow> 'a phys_scheme option" where
  "free_entries k t [] s = Some s"
| "free_entries k t (i # is) s =
     (let e = pmem s (entry_addr t i) in
      do { s \<leftarrow> (if e AND PAGE_PRESENT = 0 then Some s
                 else case k of
                        0 \<Rightarrow> pmm_free (page_base e) s
                      | Suc j \<Rightarrow>
                          if k < 3 \<and> e AND PAGE_HUGE \<noteq> 0 then pmm_free (page_base e) s
                          else do { s \<leftarrow> free_entries j (page_base e) [0..<512] s;
                                    pmm_free (page_base e) s });
           free_entries k t is s })"

fun close_fds :: "('d, 'x) env \<Rightarrow> nat \<Rightarrow> nat list \<Rightarrow> ('d, 'x) sys \<Rightarrow> ('d, 'x) sys option" where
  "close_fds E i [] s = Some s"
| "close_fds E i (j # js) s =
     (case t_fds (task_at i s) ! j of
        None \<Rightarrow> close_fds E i js s
      | Some f \<Rightarrow> do { (_, s) \<leftarrow> on_fs (vfs_close E (Some f)) s;
                       close_fds E i js (set_task i (t_fds_update (\<lambda>fds. fds[j := None])) s) })"

definition free_task_resources :: "('d, 'x) env \<Rightarrow> nat \<Rightarrow> ('d, 'x) sys \<Rightarrow> ('d, 'x) sys option" where
  "free_task_resources E i s =
     do { s \<leftarrow> close_fds E i [0..<MAX_FDS] s;
          s \<leftarrow> (if t_ustack_page (task_at i s) \<noteq> 0
                then do { s \<leftarrow> pmm_free (t_ustack_page (task_at i s)) s;
                          Some (set_task i (t_ustack_page_update (\<lambda>_. 0)) s) }
                else Some s);
          s \<leftarrow> (let pml4 = t_pml4 (task_at i s) in
                if pml4 \<noteq> 0
                then do { s \<leftarrow> free_entries 3 pml4 [1..<256] s;
                          s \<leftarrow> pmm_free pml4 s;
                          Some (set_task i (t_pml4_update (\<lambda>_. 0)) s) }
                else Some s);
          (if t_kstack_page (task_at i s) \<noteq> 0
           then do { s \<leftarrow> pmm_free_pages (t_kstack_page (task_at i s)) KSTACK_PAGES s;
                     Some (set_task i (t_kstack_page_update (\<lambda>_. 0)) s) }
           else Some s) }"

definition free_user_pages :: "nat \<Rightarrow> ('d, 'x) sys \<Rightarrow> ('d, 'x) sys option" where
  "free_user_pages i s =
     (let pml4 = t_pml4 (task_at i s) in
      if pml4 = 0 then Some s else free_entries 3 pml4 [0..<256] s)"

section \<open>The task table\<close>

definition alloc_task :: "('d, 'x) env \<Rightarrow> ('d, 'x) sys \<Rightarrow> (nat option \<times> ('d, 'x) sys) option" where
  "alloc_task E s =
     (case find (\<lambda>i. t_state (task_at i s) = TASK_FREE) [0..<MAX_TASKS] of
        None \<Rightarrow> Some (None, s)
      | Some i \<Rightarrow>
          let t = task_at i s in
          if t_kstack_page t \<noteq> 0 \<or> t_ustack_page t \<noteq> 0 \<or> t_pml4 t \<noteq> 0
          then do { s \<leftarrow> free_task_resources E i s; Some (Some i, s) }
          else Some (Some i, s))"

definition find_task_by_pid :: "int \<Rightarrow> ('d, 'x) sys \<Rightarrow> nat option" where
  "find_task_by_pid pid s =
     find (\<lambda>i. t_pid (task_at i s) = pid \<and> t_state (task_at i s) \<noteq> TASK_FREE) [0..<MAX_TASKS]"

text \<open>\<open>rsp_now\<close> is the stack pointer at the call.\<close>

definition task_init :: "u64 \<Rightarrow> ('d, 'x) sys \<Rightarrow> int \<times> ('d, 'x) sys" where
  "task_init rsp_now s =
     (let s = s\<lparr>tasks := map (t_state_update (\<lambda>_. TASK_FREE)) (tasks s), pid_bitmap := 0\<rparr>;
          s = set_task 0 (\<lambda>t. t\<lparr>t_pid := 0, t_state := TASK_RUNNING, t_pml4 := 0, t_kstack_page := 0,
                               t_ustack_page := 0, t_brk := 0, t_parent_pid := -1,
                               t_kernel_rsp := rsp_now, t_kernel_cr3 := vmm_read_cr3 s\<rparr>) s
      in (0, s\<lparr>current_task := Some 0, current_idx := 0, task_count := 1, next_pid := 1, pid_bitmap := 1\<rparr>))"

section \<open>The user stack\<close>

definition str_bytes8 :: "string \<Rightarrow> bytes" where
  "str_bytes8 cs = map of_char cs @ [0]"

fun le_bytes :: "nat \<Rightarrow> u64 \<Rightarrow> bytes" where
  "le_bytes 0 w = []"
| "le_bytes (Suc n) w = ucast w # le_bytes n (drop_bit 8 w)"

text \<open>A 64-bit store at an address that need not be aligned.\<close>

definition store64 :: "u64 \<Rightarrow> u64 \<Rightarrow> mem64 \<Rightarrow> mem64" where
  "store64 a w m = store_bytes a (le_bytes 8 w) m"

text \<open>\<^verbatim>\<open>argv && argv[i] ? argv[i] : ""\<close>\<close>

definition arg_str :: "string option list option \<Rightarrow> nat \<Rightarrow> string" where
  "arg_str argv i = (case argv of None \<Rightarrow> [] | Some v \<Rightarrow> (case v ! i of None \<Rightarrow> [] | Some s \<Rightarrow> s))"

text \<open>
  The loop that copies the strings, from the last argument down to the first; the list in the
  result is \<^verbatim>\<open>arg_string_offsets\<close>.
\<close>

fun put_args ::
  "u64 \<Rightarrow> u64 \<Rightarrow> string option list option \<Rightarrow> nat \<Rightarrow> u64 \<Rightarrow> mem64 \<Rightarrow> u64 \<times> u64 list \<times> mem64" where
  "put_args phys us argv 0 off m = (off, [], m)"
| "put_args phys us argv (Suc i) off m =
     (let s = arg_str argv i;
          off = off - of_nat (length s + 1);
          m = store_bytes (phys + off) (str_bytes8 s) m;
          (off', offs, m') = put_args phys us argv i off m
      in (off', offs @ [us - 0x1000 + off], m'))"

fun push_words :: "u64 \<Rightarrow> u64 list \<Rightarrow> u64 \<Rightarrow> mem64 \<Rightarrow> u64 \<times> mem64" where
  "push_words phys [] off m = (off, m)"
| "push_words phys (w # ws) off m = push_words phys ws (off - 8) (store64 (phys + (off - 8)) w m)"

text \<open>After the strings: the null pointer, the pointers from the last to the first, the count.\<close>

definition setup_user_stack ::
  "u64 \<Rightarrow> u64 \<Rightarrow> int \<Rightarrow> string option list option \<Rightarrow> mem64 \<Rightarrow> u64 \<times> mem64" where
  "setup_user_stack phys_stack us_vaddr argc argv m =
     (let argc = (if 64 < argc then 64 else argc);
          (off, offs, m) = put_args phys_stack us_vaddr argv (nat argc) 0x1000 m;
          (off, m) = push_words phys_stack (0 # rev offs @ [word_of_int argc]) off m
      in (us_vaddr - 0x1000 + off, m))"

definition US_VADDR :: u64 where "US_VADDR = USER_BASE_VADDR + 0x1000000000"

section \<open>Creating a task from a program\<close>

text \<open>\<^verbatim>\<open>sp[i] = w\<close> for a list of words, in a page of the kernel.\<close>

definition store_words :: "u64 \<Rightarrow> u64 list \<Rightarrow> mem64 \<Rightarrow> mem64" where
  "store_words a ws m = fold (\<lambda>i m. m(entry_addr a i := ws ! i)) [0..<length ws] m"

definition user_frame :: "u64 \<Rightarrow> u64 \<Rightarrow> u64 list" where
  "user_frame entry user_rsp = [entry, GDT_UCODE OR 3, 0x202, user_rsp, GDT_UDATA OR 3]"

definition start_task ::
  "nat \<Rightarrow> u64 \<Rightarrow> u64 \<Rightarrow> u64 \<Rightarrow> u64 \<Rightarrow> ('d, 'x) sys \<Rightarrow> int \<times> ('d, 'x) sys" where
  "start_task i sp pml4 kstack ustack s =
     (let (pid, s) = alloc_pid s;
          cur = current_task s;
          s = set_task i (\<lambda>t. t\<lparr>t_pid := pid, t_state := TASK_READY, t_kernel_rsp := sp,
                t_kernel_cr3 := t_kernel_cr3 (task_at 0 s), t_pml4 := pml4, t_brk := USER_HEAP_START,
                t_kstack_page := kstack, t_ustack_page := ustack, t_exit_code := 0\<rparr>) s;
          s = set_task i (\<lambda>t. t\<lparr>t_parent_pid := (case cur of Some c \<Rightarrow> t_pid (task_at c s) | None \<Rightarrow> 0),
                t_fds := map (\<lambda>_. None) (t_fds t),
                t_cwd := (case cur of
                            Some c \<Rightarrow> if t_pid (task_at c s) \<noteq> 0 then take 511 (t_cwd (task_at c s)) else ''/''
                          | None \<Rightarrow> ''/'')\<rparr>) s
      in (pid, s\<lparr>task_count := task_count s + 1\<rparr>))"

definition task_create_user ::
  "('d, 'x) env \<Rightarrow> string option \<Rightarrow> int \<Rightarrow> string option list option \<Rightarrow> ('d, 'x) sys \<Rightarrow> (int \<times> ('d, 'x) sys) option" where
  "task_create_user E path argc argv s =
     (case path of
        None \<Rightarrow> Some (-1, s)
      | Some path \<Rightarrow>
          do { (f, s) \<leftarrow> on_fs (vfs_open E path VFS_O_READ) s;
               if f = None then Some (-1, s)
               else do {
                 (pml4, s) \<leftarrow> vmm_create_pml4 s;
                 if pml4 = 0 then do { (_, s) \<leftarrow> on_fs (vfs_close E f) s; Some (-1, s) }
                 else do {
                   (entry, s) \<leftarrow> elf_load E f pml4 s;
                   (_, s) \<leftarrow> on_fs (vfs_close E f) s;
                   if entry = 0 then Some (-1, s)
                   else do {
                     (t, s) \<leftarrow> alloc_task E s;
                     (case t of
                        None \<Rightarrow> Some (-1, s)
                      | Some i \<Rightarrow>
                          do { (kstack, s) \<leftarrow> pmm_alloc_pages KSTACK_PAGES s;
                               (ustack, s) \<leftarrow> pmm_alloc s;
                               if kstack = 0 \<or> ustack = 0
                               then do { s \<leftarrow> (if kstack \<noteq> 0 then pmm_free_pages kstack KSTACK_PAGES s else Some s);
                                         s \<leftarrow> (if ustack \<noteq> 0 then pmm_free ustack s else Some s);
                                         Some (-1, s) }
                               else do {
                                 let (user_rsp, m) = setup_user_stack ustack US_VADDR argc argv (pmem s);
                                 (r, s) \<leftarrow> vmm_map_page pml4 (US_VADDR - 0x1000) ustack (PAGE_USER OR PAGE_WRITE)
                                            (s\<lparr>pmem := m\<rparr>);
                                 if r \<noteq> 0
                                 then do { s \<leftarrow> pmm_free_pages kstack KSTACK_PAGES s;
                                           s \<leftarrow> pmm_free ustack s;
                                           Some (-1, s) }
                                 else do {
                                   let sp = kstack + KSTACK_SIZE - 5 * 8;
                                   let m = store_words sp (user_frame entry user_rsp) (pmem s);
                                   let sp = sp - 15 * 8;
                                   let s = s\<lparr>pmem := store_words sp (replicate 15 0) m\<rparr>;
                                   Some (start_task i sp pml4 kstack ustack s) } } }) } } } })"

section \<open>Exit\<close>

definition task_exit :: "int \<Rightarrow> ('d, 'x) sys \<Rightarrow> int outcome \<times> ('d, 'x) sys" where
  "task_exit code s =
     (case current_task s of
        None \<Rightarrow> (Halted, s)
      | Some c \<Rightarrow>
          if t_pid (task_at c s) = 0 then (Halted, s)
          else let s = free_pid (t_pid (task_at c s)) s;
                   s = set_task c (\<lambda>t. t\<lparr>t_state := TASK_FREE, t_exit_code := code\<rparr>) s;
                   kernel_cr3 = t_kernel_cr3 (task_at 0 s);
                   kernel_rsp = t_kernel_rsp (task_at 0 s);
                   s = set_task 0 (t_state_update (\<lambda>_. TASK_RUNNING)) s
               in (Switched kernel_rsp,
                   vmm_write_cr3 kernel_cr3 (s\<lparr>current_task := Some 0, current_idx := 0\<rparr>)))"

section \<open>Fork\<close>

definition copy_words :: "u64 \<Rightarrow> u64 \<Rightarrow> nat \<Rightarrow> mem64 \<Rightarrow> mem64" where
  "copy_words dst src n m = fold (\<lambda>i m. m(entry_addr dst i := m (entry_addr src i))) [0..<n] m"

text \<open>A copy of what the entry \<open>e\<close> maps at \<open>vaddr\<close>: one page is allocated, \<open>n\<close> words are copied.\<close>

definition copy_mapping ::
  "u64 \<Rightarrow> u64 \<Rightarrow> u64 \<Rightarrow> nat \<Rightarrow> 'a phys_scheme \<Rightarrow> (bool \<times> 'a phys_scheme) option" where
  "copy_mapping pml4 vaddr e n s =
     do { (phys, s) \<leftarrow> pmm_alloc s;
          if phys = 0 then Some (False, s)
          else do { (_, s) \<leftarrow> vmm_map_page pml4 vaddr phys (e AND 0xFFF) s;
                    Some (True, s\<lparr>pmem := copy_words phys (page_base e) n (pmem s)\<rparr>) } }"

text \<open>
  The nested loops over the parent's tables, with \<open>k\<close> levels below the table \<open>t\<close>; \<open>base\<close> is the part of
  the virtual address the levels above have contributed.  The result is \<open>False\<close> for the early
  return when no page is left.
\<close>

fun fork_entries ::
  "u64 \<Rightarrow> nat \<Rightarrow> u64 \<Rightarrow> u64 \<Rightarrow> nat list \<Rightarrow> 'a phys_scheme \<Rightarrow> (bool \<times> 'a phys_scheme) option" where
  "fork_entries pml4 k t base [] s = Some (True, s)"
| "fork_entries pml4 k t base (i # is) s =
     (let e = pmem s (entry_addr t i);
          vaddr = base OR push_bit (12 + 9 * k) (of_nat i) in
      do { (ok, s) \<leftarrow> (if e AND PAGE_PRESENT = 0 then Some (True, s)
                 else case k of
                        0 \<Rightarrow> copy_mapping pml4 vaddr e 512 s
                      | Suc j \<Rightarrow>
                          if k < 3 \<and> e AND PAGE_HUGE \<noteq> 0 then copy_mapping pml4 vaddr e (512 * 512 ^ k) s
                          else fork_entries pml4 j (page_base e) vaddr [0..<512] s);
           if ok then fork_entries pml4 k t base is s else Some (False, s) })"

fun dup_fds :: "nat option list \<Rightarrow> ('d, 'x) vfs \<Rightarrow> nat option list \<times> ('d, 'x) vfs" where
  "dup_fds [] v = ([], v)"
| "dup_fds (f # fs) v =
     (let (g, v) = (case f of None \<Rightarrow> (None, v) | Some _ \<Rightarrow> vfs_dup f v);
          (gs, v) = dup_fds fs v
      in (g # gs, v))"

definition fork_child ::
  "nat \<Rightarrow> nat \<Rightarrow> u64 \<Rightarrow> u64 \<Rightarrow> u64 \<Rightarrow> u64 \<Rightarrow> ('d, 'x) sys \<Rightarrow> int \<times> ('d, 'x) sys" where
  "fork_child c i sp pml4 kstack ustack s =
     (let (pid, s) = alloc_pid s;
          s = set_task i (\<lambda>t. t\<lparr>t_pid := pid, t_state := TASK_READY, t_kernel_rsp := sp\<rparr>) s;
          s = set_task i (\<lambda>t. t\<lparr>t_kernel_cr3 := t_kernel_cr3 (task_at c s), t_pml4 := pml4,
                t_brk := t_brk (task_at c s), t_kstack_page := kstack, t_ustack_page := ustack,
                t_exit_code := 0, t_parent_pid := t_pid (task_at c s)\<rparr>) s;
          (fds, v) = dup_fds (t_fds (task_at c s)) (fsys s);
          s = set_task i (t_fds_update (\<lambda>_. fds)) (s\<lparr>fsys := v\<rparr>)
      in (pid, s\<lparr>task_count := task_count s + 1\<rparr>))"

definition task_fork :: "('d, 'x) env \<Rightarrow> ('d, 'x) sys \<Rightarrow> (int \<times> ('d, 'x) sys) option" where
  "task_fork E s =
     (case current_task s of
        None \<Rightarrow> Some (-1, s)
      | Some c \<Rightarrow>
          do { (t, s) \<leftarrow> alloc_task E s;
               (case t of
                  None \<Rightarrow> Some (-1, s)
                | Some i \<Rightarrow>
                    do { (pml4, s) \<leftarrow> vmm_create_pml4 s;
                         if pml4 = 0 then Some (-1, s)
                         else do {
                           (kstack, s) \<leftarrow> pmm_alloc_pages KSTACK_PAGES s;
                           (ustack, s) \<leftarrow> pmm_alloc s;
                           if kstack = 0 \<or> ustack = 0
                           then do { s \<leftarrow> (if kstack \<noteq> 0 then pmm_free_pages kstack KSTACK_PAGES s else Some s);
                                     s \<leftarrow> (if ustack \<noteq> 0 then pmm_free ustack s else Some s);
                                     Some (-1, s) }
                           else do {
                             let parent = t_kernel_rsp (task_at c s);
                             let words = (if pmem s (entry_addr parent 16) AND 3 = 3 then 20 else 15);
                             let sp = kstack + KSTACK_SIZE - of_nat words * 8;
                             let m = copy_words sp parent words (pmem s);
                             let s = s\<lparr>pmem := m(entry_addr sp 14 := 0)\<rparr>;
                             (ok, s) \<leftarrow> fork_entries pml4 3 (vmm_read_cr3 s) 0 [0..<256] s;
                             if \<not> ok then Some (-1, s)
                             else do {
                               (_, s) \<leftarrow> vmm_map_page pml4 (US_VADDR - 0x1000) ustack (PAGE_USER OR PAGE_WRITE) s;
                               Some (fork_child c i sp pml4 kstack ustack s) } } } }) })"

section \<open>Waiting and signals\<close>

definition task_waitpid_nb :: "int \<Rightarrow> ('d, 'x) sys \<Rightarrow> int" where
  "task_waitpid_nb pid s =
     (case current_task s of
        None \<Rightarrow> -1
      | Some c \<Rightarrow>
          (case find (\<lambda>i. t_parent_pid (task_at i s) = t_pid (task_at c s) \<and>
                          (pid = -1 \<or> t_pid (task_at i s) = pid)) [0..<MAX_TASKS] of
             None \<Rightarrow> -1
           | Some i \<Rightarrow> if t_state (task_at i s) = TASK_FREE then t_exit_code (task_at i s) else -2))"

definition drop_task :: "nat \<Rightarrow> ('d, 'x) sys \<Rightarrow> ('d, 'x) sys" where
  "drop_task i s =
     (let s = set_task i (t_state_update (\<lambda>_. TASK_FREE)) s;
          s = free_pid (t_pid (task_at i s)) s
      in s\<lparr>task_count := task_count s - 1\<rparr>)"

definition sig_bit :: "int \<Rightarrow> u64" where "sig_bit sig = push_bit (nat sig) 1"

definition task_kill :: "int \<Rightarrow> int \<Rightarrow> ('d, 'x) sys \<Rightarrow> int outcome \<times> ('d, 'x) sys" where
  "task_kill pid sig s =
     (if sig < 1 \<or> 31 < sig then (Return (-1), s)
      else if pid \<le> 0 then (Return (-1), s)
      else (case find_task_by_pid pid s of
              None \<Rightarrow> (Return (-1), s)
            | Some i \<Rightarrow>
                if sig = SIGKILL then
                  if current_task s = Some i then task_exit 9 s
                  else (Return 0, drop_task i (set_task i (t_sig_pending_update (\<lambda>_. 0)) s))
                else let s = set_task i (t_sig_pending_update (\<lambda>p. p OR sig_bit sig)) s in
                  if sig = SIGTERM \<and> sa_handler (t_sig_actions (task_at i s) ! nat sig) = SIG_DFL
                  then (Return 0, drop_task i s)
                  else (Return 0, s)))"

definition task_sigaction ::
  "int \<Rightarrow> sigaction option \<Rightarrow> ('d, 'x) sys \<Rightarrow> int \<times> sigaction option \<times> ('d, 'x) sys" where
  "task_sigaction sig act s =
     (case current_task s of
        None \<Rightarrow> (-1, None, s)
      | Some c \<Rightarrow>
          if sig < 1 \<or> 31 < sig then (-1, None, s)
          else if sig = SIGKILL \<or> sig = SIGSTOP then (-1, None, s)
          else (0, Some (t_sig_actions (task_at c s) ! nat sig),
                case act of None \<Rightarrow> s
                | Some a \<Rightarrow> set_task c (t_sig_actions_update (\<lambda>as. as[nat sig := a])) s))"

definition fatal_signal :: "int \<Rightarrow> bool" where
  "fatal_signal sig \<longleftrightarrow> sig = SIGTERM \<or> sig = SIGINT \<or> sig = SIGQUIT \<or> sig = SIGILL \<or> sig = SIGSEGV \<or>
     sig = SIGFPE \<or> sig = SIGBUS \<or> sig = SIGABRT \<or> sig = SIGTRAP"

definition task_deliver_signal :: "int \<Rightarrow> ('d, 'x) sys \<Rightarrow> int outcome \<times> ('d, 'x) sys" where
  "task_deliver_signal sig s =
     (case current_task s of
        None \<Rightarrow> (Return (-1), s)
      | Some c \<Rightarrow>
          let s = set_task c (t_sig_pending_update (\<lambda>p. p AND NOT (sig_bit sig))) s in
          if sig = SIGKILL then task_exit 9 s
          else let handler = sa_handler (t_sig_actions (task_at c s) ! nat sig) in
            if handler = SIG_IGN then (Return 0, s)
            else if handler = SIG_DFL \<and> fatal_signal sig then task_exit (128 + sig) s
            else (Return 0, s))"

definition task_check_signals :: "('d, 'x) sys \<Rightarrow> int outcome \<times> ('d, 'x) sys" where
  "task_check_signals s =
     (case current_task s of
        None \<Rightarrow> (Return 0, s)
      | Some c \<Rightarrow>
          let pending = t_sig_pending (task_at c s) AND NOT (t_sig_blocked (task_at c s)) in
          if pending = 0 then (Return 0, s)
          else (case find (\<lambda>sig. pending AND sig_bit sig \<noteq> 0) [1..31] of
                  None \<Rightarrow> (Return 0, s)
                | Some sig \<Rightarrow> task_deliver_signal sig s))"

definition task_getpid :: "('d, 'x) sys \<Rightarrow> int" where
  "task_getpid s = (case current_task s of None \<Rightarrow> -1 | Some c \<Rightarrow> t_pid (task_at c s))"

section \<open>The scheduler\<close>

definition load_kernel_cr3 :: "('d, 'x) sys \<Rightarrow> ('d, 'x) sys" where
  "load_kernel_cr3 s =
     (if vmm_read_cr3 s \<noteq> t_kernel_cr3 (task_at 0 s) then vmm_write_cr3 (t_kernel_cr3 (task_at 0 s)) s else s)"

definition next_ready :: "('d, 'x) sys \<Rightarrow> nat option" where
  "next_ready s =
     map_option (\<lambda>i. (current_idx s + i) mod MAX_TASKS)
       (find (\<lambda>i. t_state (task_at ((current_idx s + i) mod MAX_TASKS) s) = TASK_READY) [1..<MAX_TASKS])"

definition switch_to :: "nat \<Rightarrow> ('d, 'x) sys \<Rightarrow> u64 \<times> ('d, 'x) sys" where
  "switch_to idx s =
     (let s = set_task idx (t_state_update (\<lambda>_. TASK_RUNNING)) (s\<lparr>current_idx := idx, current_task := Some idx\<rparr>);
          t = task_at idx s;
          s = (if t_pml4 t \<noteq> 0 then vmm_load_pml4 (t_pml4 t) s else load_kernel_cr3 s);
          s = (if t_kstack_page t \<noteq> 0 then gdt_set_kstack (t_kstack_page t + KSTACK_SIZE) s else s)
      in (t_kernel_rsp t, s))"

definition schedule :: "u64 \<Rightarrow> ('d, 'x) sys \<Rightarrow> u64 \<times> ('d, 'x) sys" where
  "schedule current_rsp s =
     (if task_count s \<le> 1
      then (current_rsp,
            case current_task s of None \<Rightarrow> s
            | Some c \<Rightarrow> set_task c (t_kernel_rsp_update (\<lambda>_. current_rsp)) s)
      else let s = (case current_task s of
                      None \<Rightarrow> s
                    | Some c \<Rightarrow>
                        if t_state (task_at c s) = TASK_RUNNING
                        then set_task c (\<lambda>t. t\<lparr>t_kernel_rsp := current_rsp, t_state := TASK_READY\<rparr>) s
                        else s)
           in case next_ready s of
                Some idx \<Rightarrow> switch_to idx s
              | None \<Rightarrow>
                  let s = set_task 0 (t_state_update (\<lambda>_. TASK_RUNNING)) (s\<lparr>current_task := Some 0, current_idx := 0\<rparr>)
                  in (t_kernel_rsp (task_at 0 s), load_kernel_cr3 s))"

section \<open>Replacing the program of a task\<close>

definition task_exec ::
  "('d, 'x) env \<Rightarrow> string \<Rightarrow> int \<Rightarrow> string option list option \<Rightarrow> pushaq_frame \<Rightarrow> ('d, 'x) sys \<Rightarrow>
     (int \<times> pushaq_frame \<times> ('d, 'x) sys) option" where
  "task_exec E path argc argv frame s =
     (case current_task s of
        None \<Rightarrow> Some (-1, frame, s)
      | Some c \<Rightarrow>
          if t_pid (task_at c s) = 0 then Some (-1, frame, s)
          else do {
            (f, s) \<leftarrow> on_fs (vfs_open E path VFS_O_READ) s;
            if f = None then Some (-1, frame, s)
            else do {
              (new_pml4, s) \<leftarrow> vmm_create_pml4 s;
              if new_pml4 = 0 then do { (_, s) \<leftarrow> on_fs (vfs_close E f) s; Some (-1, frame, s) }
              else do {
                (entry, s) \<leftarrow> elf_load E f new_pml4 s;
                (_, s) \<leftarrow> on_fs (vfs_close E f) s;
                if entry = 0 then Some (-1, frame, s)
                else do {
                  (ustack, s) \<leftarrow> pmm_alloc s;
                  if ustack = 0 then Some (-1, frame, s)
                  else do {
                    let (user_rsp, m) = setup_user_stack ustack US_VADDR argc argv (pmem s);
                    (r, s) \<leftarrow> vmm_map_page new_pml4 (US_VADDR - 0x1000) ustack (PAGE_USER OR PAGE_WRITE)
                               (s\<lparr>pmem := m\<rparr>);
                    if r \<noteq> 0 then do { s \<leftarrow> pmm_free ustack s; Some (-1, frame, s) }
                    else do {
                      s \<leftarrow> free_user_pages c s;
                      s \<leftarrow> (if t_ustack_page (task_at c s) \<noteq> 0
                            then do { s \<leftarrow> pmm_free (t_ustack_page (task_at c s)) s;
                                      Some (set_task c (t_ustack_page_update (\<lambda>_. 0)) s) }
                            else Some s);
                      s \<leftarrow> (if t_pml4 (task_at c s) \<noteq> 0 then pmm_free (t_pml4 (task_at c s)) s else Some s);
                      let s = set_task c (\<lambda>t. t\<lparr>t_pml4 := new_pml4, t_ustack_page := ustack,
                                               t_brk := USER_HEAP_START\<rparr>) s;
                      let s = vmm_load_pml4 new_pml4 s;
                      Some (0, frame\<lparr>fr_rax := 0, fr_rip := entry, fr_rsp := user_rsp, fr_cs := GDT_UCODE OR 3,
                                      fr_ss := GDT_UDATA OR 3, fr_rflags := 0x202\<rparr>, s) } } } } } })"

section \<open>Process identifiers: what alloc_pid returns\<close>

lemma alloc_pid_loop_stalls:
  assumes "32 \<le> next_pid s" and "next_pid s + int n \<le> 1000000"
  shows "alloc_pid_loop n s = (-1, s\<lparr>next_pid := next_pid s + int n\<rparr>)"
  using assms
proof (induction n arbitrary: s)
  case (Suc n)
  have "\<not> 1000000 \<le> next_pid s" and "1 \<le> next_pid s div 32" using Suc.prems by linarith+
  then have "alloc_pid_loop (Suc n) s = alloc_pid_loop n (s\<lparr>next_pid := next_pid s + 1\<rparr>)"
    by (simp add: Let_def)
  also have "\<dots> = (-1, s\<lparr>next_pid := next_pid s + int (Suc n)\<rparr>)"
    using Suc.IH [of "s\<lparr>next_pid := next_pid s + 1\<rparr>"] Suc.prems by (simp add: algebra_simps)
  finally show ?case .
qed simp

lemma alloc_pid_loop_fresh:
  assumes "1 \<le> next_pid s" and "alloc_pid_loop n s = (r, t)"
  shows "(\<exists>q \<ge> 1. t = s\<lparr>next_pid := q, pid_bitmap := pid_bitmap t\<rparr>) \<and>
    (r = -1 \<and> pid_bitmap t = pid_bitmap s \<or>
     1 \<le> r \<and> r < 32 \<and> \<not> bit (pid_bitmap s) (nat r) \<and> pid_bitmap t = pid_bitmap s OR push_bit (nat r) 1)"
  using assms
proof (induction n arbitrary: s)
  case (Suc n)
  define pid where "pid = (if 1000000 \<le> next_pid s then 1 else next_pid s)"
  define s1 where "s1 = s\<lparr>next_pid := pid + 1\<rparr>"
  have pid: "1 \<le> pid" using Suc.prems(1) by (simp add: pid_def)
  have eq: "alloc_pid_loop (Suc n) s =
      (if 1 \<le> pid div 32 then alloc_pid_loop n s1
       else if \<not> bit (pid_bitmap s) (nat (pid mod 32))
       then (pid, s1\<lparr>pid_bitmap := pid_bitmap s OR push_bit (nat (pid mod 32)) 1\<rparr>) else alloc_pid_loop n s1)"
    by (simp add: pid_def s1_def Let_def)
  consider "alloc_pid_loop n s1 = (r, t)"
    | "\<not> 1 \<le> pid div 32" "\<not> bit (pid_bitmap s) (nat (pid mod 32))" "r = pid"
      "t = s1\<lparr>pid_bitmap := pid_bitmap s OR push_bit (nat (pid mod 32)) 1\<rparr>"
    using Suc.prems(2) unfolding eq by (auto split: if_splits)
  then show ?case
  proof cases
    case 1
    then show ?thesis using Suc.IH [of s1] pid by (auto simp: s1_def)
  next
    case 2
    have "pid < 32" using 2(1) by linarith
    then have "pid mod 32 = pid" using pid by simp
    then have bm: "pid_bitmap t = pid_bitmap s OR push_bit (nat r) 1" and nb: "\<not> bit (pid_bitmap s) (nat r)"
      using 2(2-4) by simp_all
    have "t = s\<lparr>next_pid := pid + 1, pid_bitmap := pid_bitmap t\<rparr>" unfolding 2(4) s1_def by simp
    then have "\<exists>q \<ge> 1. t = s\<lparr>next_pid := q, pid_bitmap := pid_bitmap t\<rparr>"
      using pid by (intro exI [of _ "pid + 1"] conjI) simp_all
    then show ?thesis using bm nb pid \<open>pid < 32\<close> 2(3) by blast
  qed
qed auto

lemma alloc_pid_fresh:
  assumes "1 \<le> next_pid s" and "alloc_pid s = (r, t)"
  shows "(\<exists>q \<ge> 1. t = s\<lparr>next_pid := q, pid_bitmap := pid_bitmap t\<rparr>) \<and>
    (r = -1 \<and> pid_bitmap t = pid_bitmap s \<or>
     1 \<le> r \<and> r < 32 \<and> \<not> bit (pid_bitmap s) (nat r) \<and> pid_bitmap t = pid_bitmap s OR push_bit (nat r) 1)"
  using assms alloc_pid_loop_fresh unfolding alloc_pid_def by blast

lemma alloc_pid_iterate:
  assumes "32 \<le> next_pid s" and "next_pid s + 64 * int k \<le> 1000000"
  shows "((\<lambda>s. snd (alloc_pid s)) ^^ k) s = s\<lparr>next_pid := next_pid s + 64 * int k\<rparr>"
  using assms
proof (induction k)
  case (Suc k)
  have "alloc_pid (s\<lparr>next_pid := next_pid s + 64 * int k\<rparr>) =
        (-1, s\<lparr>next_pid := next_pid s + 64 * int (Suc k)\<rparr>)"
    using Suc.prems by (simp add: alloc_pid_def MAX_TASKS_def alloc_pid_loop_stalls)
  then show ?case using Suc by simp
qed simp

text \<open>
  Once the counter has passed the 31 identifiers the bitmap has room for, \<^verbatim>\<open>alloc_pid\<close>
  fails, whatever identifiers are free: from a counter value \<open>n\<close> in the range 32 to 1000000, every
  call fails until the calls have moved the counter, 64 steps each, beyond 1000000.
\<close>

lemma alloc_pid_stalls:
  assumes "32 \<le> next_pid s" and "next_pid s + 64 * (int k + 1) \<le> 1000000"
  shows "fst (alloc_pid (((\<lambda>s. snd (alloc_pid s)) ^^ k) s)) = -1"
proof -
  have "((\<lambda>s. snd (alloc_pid s)) ^^ k) s = s\<lparr>next_pid := next_pid s + 64 * int k\<rparr>"
    using assms by (intro alloc_pid_iterate) simp_all
  then show ?thesis using assms by (simp add: alloc_pid_def MAX_TASKS_def alloc_pid_loop_stalls)
qed

definition demo_task :: "int \<Rightarrow> task_state \<Rightarrow> task" where
  "demo_task pid st =
     \<lparr>t_pid = pid, t_state = st, t_kernel_rsp = 0x9000, t_kernel_cr3 = 0x1000, t_pml4 = 0, t_brk = 0, t_kstack_page = 0,
      t_ustack_page = 0, t_exit_code = 0, t_parent_pid = 0, t_fds = replicate MAX_FDS None, t_cwd = ''/'',
      t_sig_pending = 0, t_sig_blocked = 0,
      t_sig_actions = replicate 32 \<lparr>sa_handler = 0, sa_mask = 0, sa_flags = 0\<rparr>\<rparr>"

definition demo_sys :: "(u64 \<Rightarrow> u8, unit) sys" where
  "demo_sys =
     \<lparr>pmem = (\<lambda>_. 0), dma_free_list = 0, dma32_free_list = 0, normal_free_list = 0, free_pages_total = 0,
      pmm_lock = False, cr3 = 0x1000, fsys = ram_vfs,
      tasks = [demo_task 0 TASK_RUNNING, demo_task 1 TASK_READY, demo_task 2 TASK_READY] @
              replicate 29 (demo_task 0 TASK_FREE),
      next_pid = 32, task_count = 3, current_idx = 0, pid_bitmap = 7, current_task = Some 0, tss_rsp0 = 0\<rparr>"

section \<open>Round robin\<close>

lemma length_tasks_set_task [simp]: "length (tasks (set_task i f s)) = length (tasks s)"
  by (simp add: set_task_def)

lemma task_at_set_task:
  "i < length (tasks s) \<Longrightarrow> task_at j (set_task i f s) = (if j = i then f (task_at i s) else task_at j s)"
  by (simp add: set_task_def task_at_def)

lemma set_task_fields [simp]:
  "current_idx (set_task i f s) = current_idx s" "current_task (set_task i f s) = current_task s"
  "task_count (set_task i f s) = task_count s" "next_pid (set_task i f s) = next_pid s"
  "pid_bitmap (set_task i f s) = pid_bitmap s" "cr3 (set_task i f s) = cr3 s"
  "pmem (set_task i f s) = pmem s" "fsys (set_task i f s) = fsys s"
  by (simp_all add: set_task_def)

lemma task_at_fields [simp]:
  "task_at j (s\<lparr>current_idx := x\<rparr>) = task_at j s" "task_at j (s\<lparr>current_task := y\<rparr>) = task_at j s"
  "task_at j (s\<lparr>cr3 := z\<rparr>) = task_at j s" "task_at j (s\<lparr>tss_rsp0 := w\<rparr>) = task_at j s"
  "task_at j (s\<lparr>task_count := n\<rparr>) = task_at j s" "task_at j (s\<lparr>pid_bitmap := b\<rparr>) = task_at j s"
  "task_at j (s\<lparr>fsys := v\<rparr>) = task_at j s" "task_at j (s\<lparr>next_pid := q\<rparr>) = task_at j s"
  by (simp_all add: task_at_def)

text \<open>What the scheduler relies on: the table has its 32 slots and the two variables agree.\<close>

definition sched_ok :: "('d, 'x) sys \<Rightarrow> bool" where
  "sched_ok s \<longleftrightarrow> length (tasks s) = MAX_TASKS \<and> current_idx s < MAX_TASKS \<and> current_task s = Some (current_idx s)"

definition preempted :: "u64 \<Rightarrow> ('d, 'x) sys \<Rightarrow> ('d, 'x) sys" where
  "preempted r s =
     (if t_state (task_at (current_idx s) s) = TASK_RUNNING
      then set_task (current_idx s) (\<lambda>t. t\<lparr>t_kernel_rsp := r, t_state := TASK_READY\<rparr>) s else s)"

lemma load_kernel_cr3_frame [simp]:
  "tasks (load_kernel_cr3 s) = tasks s" "current_idx (load_kernel_cr3 s) = current_idx s"
  "current_task (load_kernel_cr3 s) = current_task s" "task_count (load_kernel_cr3 s) = task_count s"
  "next_pid (load_kernel_cr3 s) = next_pid s" "pid_bitmap (load_kernel_cr3 s) = pid_bitmap s"
  by (simp_all add: load_kernel_cr3_def vmm_write_cr3_def)

lemma switch_to_frame:
  "tasks (snd (switch_to i s)) = (tasks s)[i := (tasks s ! i)\<lparr>t_state := TASK_RUNNING\<rparr>]"
  "current_idx (snd (switch_to i s)) = i" "current_task (snd (switch_to i s)) = Some i"
  "task_count (snd (switch_to i s)) = task_count s"
  "next_pid (snd (switch_to i s)) = next_pid s" "pid_bitmap (snd (switch_to i s)) = pid_bitmap s"
  by (simp_all add: switch_to_def Let_def set_task_def gdt_set_kstack_def vmm_load_pml4_def vmm_write_cr3_def
      load_kernel_cr3_def)

lemma preempted_frame [simp]:
  "length (tasks (preempted r s)) = length (tasks s)" "current_idx (preempted r s) = current_idx s"
  "current_task (preempted r s) = current_task s" "task_count (preempted r s) = task_count s"
  "next_pid (preempted r s) = next_pid s" "pid_bitmap (preempted r s) = pid_bitmap s"
  by (simp_all add: preempted_def)

lemma schedule_eq:
  assumes "sched_ok s" and "1 < task_count s"
  shows "tasks (snd (schedule r s)) =
           (let s1 = preempted r s; i = (case next_ready s1 of Some i \<Rightarrow> i | None \<Rightarrow> 0)
            in (tasks s1)[i := (tasks s1 ! i)\<lparr>t_state := TASK_RUNNING\<rparr>])"
    and "current_idx (snd (schedule r s)) = (case next_ready (preempted r s) of Some i \<Rightarrow> i | None \<Rightarrow> 0)"
    and "current_task (snd (schedule r s)) = Some (current_idx (snd (schedule r s)))"
    and "task_count (snd (schedule r s)) = task_count s"
    and "next_pid (snd (schedule r s)) = next_pid s"
    and "pid_bitmap (snd (schedule r s)) = pid_bitmap s"
proof -
  have "current_task s = Some (current_idx s)" using assms(1) by (simp add: sched_ok_def)
  then have pre: "(case current_task s of None \<Rightarrow> s
      | Some c \<Rightarrow> if t_state (task_at c s) = TASK_RUNNING
                 then set_task c (\<lambda>t. t\<lparr>t_kernel_rsp := r, t_state := TASK_READY\<rparr>) s else s) = preempted r s"
    by (simp add: preempted_def)
  have eq: "schedule r s = (case next_ready (preempted r s) of
      Some i \<Rightarrow> switch_to i (preempted r s)
    | None \<Rightarrow> let s = set_task 0 (t_state_update (\<lambda>_. TASK_RUNNING))
                       ((preempted r s)\<lparr>current_task := Some 0, current_idx := 0\<rparr>)
              in (t_kernel_rsp (task_at 0 s), load_kernel_cr3 s))"
    using assms(2) by (simp add: schedule_def pre Let_def del: case_prod_conv cong: option.case_cong)
  define s1 where "s1 = preempted r s"
  note eq1 = eq [folded s1_def]
  show "tasks (snd (schedule r s)) =
           (let s1 = preempted r s; i = (case next_ready s1 of Some i \<Rightarrow> i | None \<Rightarrow> 0)
            in (tasks s1)[i := (tasks s1 ! i)\<lparr>t_state := TASK_RUNNING\<rparr>])"
    unfolding eq1 Let_def s1_def [symmetric]
    by (cases "next_ready s1") (simp_all add: switch_to_frame set_task_def)
  show "current_idx (snd (schedule r s)) = (case next_ready (preempted r s) of Some i \<Rightarrow> i | None \<Rightarrow> 0)"
    unfolding eq1 s1_def [symmetric] by (cases "next_ready s1") (simp_all add: switch_to_frame Let_def)
  show "current_task (snd (schedule r s)) = Some (current_idx (snd (schedule r s)))"
    unfolding eq1 by (cases "next_ready s1") (simp_all add: switch_to_frame Let_def)
  have f: "task_count s1 = task_count s" "next_pid s1 = next_pid s" "pid_bitmap s1 = pid_bitmap s"
    by (simp_all add: s1_def)
  show "task_count (snd (schedule r s)) = task_count s"
    unfolding eq1 f(1) [symmetric] by (cases "next_ready s1") (simp_all add: switch_to_frame Let_def)
  show "next_pid (snd (schedule r s)) = next_pid s"
    unfolding eq1 f(2) [symmetric] by (cases "next_ready s1") (simp_all add: switch_to_frame Let_def)
  show "pid_bitmap (snd (schedule r s)) = pid_bitmap s"
    unfolding eq1 f(3) [symmetric] by (cases "next_ready s1") (simp_all add: switch_to_frame Let_def)
qed

lemma find_upt_near:
  assumes "P d" and "a \<le> d" and "d < b"
  shows "\<exists>i. find P [a..<b] = Some i \<and> a \<le> i \<and> i \<le> d \<and> P i"
proof (cases "find P [a..<b]")
  case None
  then show ?thesis using assms by (auto simp: find_None_iff)
next
  case (Some x)
  then obtain k where k: "k < b - a" "P x" "x = a + k" "\<forall>j<k. \<not> P (a + j)"
    by (auto simp: find_Some_iff)
  have "\<not> d < x"
  proof
    assume "d < x"
    then have "d - a < k" using k(3) assms(2) by simp
    then have "\<not> P (a + (d - a))" using k(4) by blast
    then show False using assms by simp
  qed
  then show ?thesis using Some k by auto
qed

lemma preempted_ready:
  assumes "sched_ok s" and "t_state (task_at j s) = TASK_READY"
  shows "t_state (task_at j (preempted r s)) = TASK_READY"
  using assms by (auto simp: preempted_def task_at_set_task sched_ok_def)

lemma next_ready_near:
  assumes "1 \<le> d" "d < MAX_TASKS" and "t_state (task_at ((current_idx s + d) mod MAX_TASKS) s) = TASK_READY"
  shows "\<exists>i. 1 \<le> i \<and> i \<le> d \<and> next_ready s = Some ((current_idx s + i) mod MAX_TASKS)"
  using find_upt_near [of "\<lambda>i. t_state (task_at ((current_idx s + i) mod MAX_TASKS) s) = TASK_READY" d 1 MAX_TASKS] assms
  unfolding next_ready_def by fastforce

text \<open>
  One call of the scheduler when the task \<open>d\<close> slots ahead is ready: it moves \<open>i\<close> slots ahead, at most
  to that task, and leaves it ready when it stops short of it.
\<close>

lemma schedule_step:
  fixes r :: u64
  assumes ok: "sched_ok s" and n: "1 < task_count s" and d: "1 \<le> d" "d < MAX_TASKS"
    and rd: "t_state (task_at ((current_idx s + d) mod MAX_TASKS) s) = TASK_READY"
  defines "t \<equiv> snd (schedule r s)"
  shows "\<exists>i. 1 \<le> i \<and> i \<le> d \<and> current_idx t = (current_idx s + i) mod MAX_TASKS \<and> sched_ok t \<and>
    task_count t = task_count s \<and> t_state (task_at (current_idx t) t) = TASK_RUNNING \<and>
    (i < d \<longrightarrow> t_state (task_at ((current_idx s + d) mod MAX_TASKS) t) = TASK_READY)"
proof -
  let ?j = "(current_idx s + d) mod MAX_TASKS"
  define s1 where "s1 = preempted r s"
  have s1: "current_idx s1 = current_idx s" "length (tasks s1) = MAX_TASKS" "t_state (task_at ?j s1) = TASK_READY"
    using ok rd preempted_ready [OF ok rd] by (simp_all add: s1_def sched_ok_def)
  obtain i where i: "1 \<le> i" "i \<le> d" "next_ready s1 = Some ((current_idx s + i) mod MAX_TASKS)"
    using next_ready_near [of d s1] d s1 by auto
  have bound: "(current_idx s + i) mod MAX_TASKS < MAX_TASKS" by (simp add: MAX_TASKS_def)
  note eq = schedule_eq [OF ok n, of r, folded t_def s1_def, unfolded Let_def i(3) option.case]
  have "i < d \<Longrightarrow> ?j \<noteq> (current_idx s + i) mod MAX_TASKS"
    using d by (simp add: MAX_TASKS_def mod_eq_dvd_iff_nat) (auto dest: dvd_imp_le)
  then show ?thesis
    using i eq s1 bound by (intro exI [of _ i]) (auto simp: sched_ok_def task_at_def)
qed

definition run_sched :: "u64 list \<Rightarrow> ('d, 'x) sys \<Rightarrow> ('d, 'x) sys" where
  "run_sched rs s = fold (\<lambda>r s. snd (schedule r s)) rs s"

lemma run_sched_reaches:
  assumes "sched_ok s" "1 < task_count s" "1 \<le> d" "d < MAX_TASKS" "d \<le> length rs"
    and "t_state (task_at ((current_idx s + d) mod MAX_TASKS) s) = TASK_READY"
  shows "\<exists>k. 1 \<le> k \<and> k \<le> d \<and> current_task (run_sched (take k rs) s) = Some ((current_idx s + d) mod MAX_TASKS) \<and>
    t_state (task_at ((current_idx s + d) mod MAX_TASKS) (run_sched (take k rs) s)) = TASK_RUNNING"
  using assms
proof (induction d arbitrary: s rs rule: less_induct)
  case (less d)
  let ?j = "(current_idx s + d) mod MAX_TASKS"
  obtain r rs' where rs: "rs = r # rs'" using less.prems(3,5) by (cases rs) auto
  define t where "t = snd (schedule r s)"
  obtain i where i: "1 \<le> i" "i \<le> d" and cur: "current_idx t = (current_idx s + i) mod MAX_TASKS"
    and t: "sched_ok t" "task_count t = task_count s" "t_state (task_at (current_idx t) t) = TASK_RUNNING"
    and rd: "i < d \<Longrightarrow> t_state (task_at ?j t) = TASK_READY"
    using schedule_step [OF less.prems(1,2,3,4,6), of r] unfolding t_def [symmetric] by blast
  have run: "run_sched (take (Suc k) rs) s = run_sched (take k rs') t" for k
    by (simp add: run_sched_def rs t_def)
  show ?case
  proof (cases "i = d")
    case True
    then show ?thesis using t cur run [of 0] less.prems(3)
      by (intro exI [of _ 1]) (simp add: sched_ok_def run_sched_def)
  next
    case False
    have j: "(current_idx t + (d - i)) mod MAX_TASKS = ?j"
      unfolding cur using i(2) by (simp only: mod_add_left_eq add.assoc le_add_diff_inverse)
    have "\<exists>k. 1 \<le> k \<and> k \<le> d - i \<and> current_task (run_sched (take k rs') t) = Some ?j \<and>
        t_state (task_at ?j (run_sched (take k rs') t)) = TASK_RUNNING"
      using less.IH [of "d - i" t rs'] False i t rd less.prems rs unfolding j by simp
    then obtain k where "1 \<le> k" "k \<le> d - i" "current_task (run_sched (take k rs') t) = Some ?j"
      "t_state (task_at ?j (run_sched (take k rs') t)) = TASK_RUNNING" by blast
    then show ?thesis using i run [of k] by (intro exI [of _ "Suc k"]) simp
  qed
qed

lemma schedule_reaches:
  assumes "sched_ok s" and "1 < task_count s" and "j < MAX_TASKS" and "t_state (task_at j s) = TASK_READY"
    and "j \<noteq> current_idx s" and "length rs = (j + MAX_TASKS - current_idx s) mod MAX_TASKS"
  shows "\<exists>k \<le> length rs. current_task (run_sched (take k rs) s) = Some j \<and>
    t_state (task_at j (run_sched (take k rs) s)) = TASK_RUNNING"
proof -
  let ?d = "(j + MAX_TASKS - current_idx s) mod MAX_TASKS"
  have c: "current_idx s < 32" using assms(1) by (simp add: sched_ok_def MAX_TASKS_def)
  have "(current_idx s + ?d) mod MAX_TASKS = (current_idx s + (j + MAX_TASKS - current_idx s)) mod MAX_TASKS"
    by (simp add: mod_add_right_eq)
  also have "current_idx s + (j + MAX_TASKS - current_idx s) = j + MAX_TASKS" using c by (simp add: MAX_TASKS_def)
  finally have j: "(current_idx s + ?d) mod MAX_TASKS = j" using assms(3) by simp
  have "?d \<noteq> 0"
  proof
    assume "?d = 0"
    then have "j = current_idx s mod MAX_TASKS" using j by simp
    then show False using assms(5) c by (simp add: MAX_TASKS_def)
  qed
  moreover have "?d < MAX_TASKS" by (simp add: MAX_TASKS_def)
  ultimately show ?thesis
    using run_sched_reaches [of s ?d rs, unfolded j] assms by auto
qed

end
