(* ===== verification/Task_Stack.thy ===== *)
theory Task_Stack
  imports Task
begin

text \<open>
  The initial stack of a program, built by \<^verbatim>\<open>setup_user_stack\<close> of \<^verbatim>\<open>kernel/proc/task.c\<close>: the page is
  filled from its end downwards, and what it holds is given as one list of bytes.
\<close>

text \<open>
  The page at \<open>phys\<close> holds the bytes \<open>L\<close> at its end and the memory is otherwise that of \<open>m0\<close>.
\<close>

definition stack_holds :: "u64 \<Rightarrow> mem64 \<Rightarrow> bytes \<Rightarrow> mem64 \<Rightarrow> bool" where
  "stack_holds phys m0 L m \<longleftrightarrow> length L \<le> 4096 \<and>
     (\<forall>i < 4096. load8 (phys + of_nat i) m =
        (if i < 4096 - length L then load8 (phys + of_nat i) m0 else L ! (i - (4096 - length L)))) \<and>
     (\<forall>a. 4096 \<le> unat (a - phys) \<longrightarrow> load8 a m = load8 a m0)"

lemma unat_of_nat_diff:
  assumes "i < 4096" "k \<le> 4096"
  shows "unat (of_nat i - of_nat k :: u64) = (if k \<le> i then i - k else 2 ^ 64 + i - k)"
proof (cases "k \<le> i")
  case True
  then have "(of_nat i - of_nat k :: u64) = of_nat (i - k)" by (simp add: of_nat_diff)
  then show ?thesis using True assms by (simp only: if_True) (rule unat_of_nat64, simp)
next
  case False
  have "(of_nat i - of_nat k :: u64) = of_nat (2 ^ 64 + i - k)"
    using assms False by (simp add: of_nat_diff)
  then show ?thesis using False assms by (simp only: if_False) (rule unat_of_nat64, simp)
qed

lemma stack_push:
  assumes "stack_holds phys m0 L m" and "length bs + length L \<le> 4096"
  shows "stack_holds phys m0 (bs @ L) (store_bytes (phys + of_nat (4096 - length L - length bs)) bs m)"
proof -
  let ?k = "4096 - length L - length bs"
  let ?m = "store_bytes (phys + of_nat ?k) bs m"
  have ld: "load8 x ?m = (if unat (x - (phys + of_nat ?k)) < length bs then bs ! unat (x - (phys + of_nat ?k)) else load8 x m)" for x
    using assms(2) by (intro load8_store_bytes) simp
  have "load8 (phys + of_nat i) ?m =
     (if i < 4096 - length (bs @ L) then load8 (phys + of_nat i) m0 else (bs @ L) ! (i - (4096 - length (bs @ L))))"
    if i: "i < 4096" for i
  proof -
    have u: "unat (phys + of_nat i - (phys + of_nat ?k)) = (if ?k \<le> i then i - ?k else 2 ^ 64 + i - ?k)"
      using unat_of_nat_diff [of i ?k] i by simp
    have "load8 (phys + of_nat i) m =
        (if i < 4096 - length L then load8 (phys + of_nat i) m0 else L ! (i - (4096 - length L)))"
      using assms(1) i by (simp add: stack_holds_def)
    then show ?thesis unfolding ld u using assms(2) i by (auto simp: nth_append add.commute)
  qed
  moreover have "load8 a ?m = load8 a m0" if a: "4096 \<le> unat (a - phys)" for a
  proof -
    have "unat (a - phys - of_nat ?k) = unat (a - phys) - ?k"
      using a by (subst unat_sub) (simp_all add: unat_of_nat64 word_le_nat_alt)
    then have "\<not> unat (a - (phys + of_nat ?k)) < length bs"
      using a assms(2) by (simp add: diff_diff_add)
    then show ?thesis unfolding ld using assms(1) a by (simp add: stack_holds_def)
  qed
  ultimately show ?thesis using assms(2) by (simp add: stack_holds_def)
qed

lemma length_le_bytes [simp]: "length (le_bytes n w) = n"
  by (induction n arbitrary: w) auto

lemma length_str_bytes8 [simp]: "length (str_bytes8 s) = length s + 1"
  by (simp add: str_bytes8_def)

definition strings_of :: "string list \<Rightarrow> bytes" where
  "strings_of args = concat (map str_bytes8 args)"

text \<open>The address of each string, where the strings end at \<open>us\<close>.\<close>

definition arg_ptrs :: "u64 \<Rightarrow> string list \<Rightarrow> u64 list" where
  "arg_ptrs us args = map (\<lambda>i. us - of_nat (length (strings_of (drop i args)))) [0..<length args]"

definition stack_image :: "u64 \<Rightarrow> string list \<Rightarrow> bytes" where
  "stack_image us args =
     le_bytes 8 (of_nat (length args)) @ concat (map (le_bytes 8) (arg_ptrs us args)) @ le_bytes 8 0 @ strings_of args"

lemma put_args_holds:
  assumes "n \<le> length args" and "stack_holds phys m0 (strings_of (drop n args)) m"
    and "length (strings_of args) \<le> 4096"
  shows "\<exists>m'. put_args phys us (Some (map Some args)) n (of_nat (4096 - length (strings_of (drop n args)))) m =
      (of_nat (4096 - length (strings_of args)), take n (arg_ptrs us args), m') \<and>
      stack_holds phys m0 (strings_of args) m'"
  using assms(1,2)
proof (induction n arbitrary: m)
  case (Suc n)
  let ?L = "strings_of (drop (Suc n) args)"
  let ?s = "args ! n"
  have dr: "drop n args = ?s # drop (Suc n) args" using Suc.prems(1) by (simp add: Cons_nth_drop_Suc)
  have str: "strings_of (drop n args) = str_bytes8 ?s @ ?L" by (simp add: dr strings_of_def)
  have "strings_of args = strings_of (take n args) @ strings_of (drop n args)"
    unfolding strings_of_def by (metis append_take_drop_id concat_append map_append)
  then have le: "length (strings_of (drop n args)) \<le> 4096" using assms(3) by simp
  have off: "of_nat (4096 - length ?L) - of_nat (length ?s + 1) =
      (of_nat (4096 - length (strings_of (drop n args))) :: u64)"
    using le by (simp add: str of_nat_diff)
  define m1 where "m1 = store_bytes (phys + of_nat (4096 - length (strings_of (drop n args)))) (str_bytes8 ?s) m"
  have "stack_holds phys m0 (strings_of (drop n args)) m1"
    using stack_push [OF Suc.prems(2), of "str_bytes8 ?s"] le by (simp add: str m1_def add.commute)
  then obtain m' where m': "put_args phys us (Some (map Some args)) n
        (of_nat (4096 - length (strings_of (drop n args)))) m1 =
      (of_nat (4096 - length (strings_of args)), take n (arg_ptrs us args), m')"
      "stack_holds phys m0 (strings_of args) m'"
    using Suc.IH Suc.prems(1) by (metis Suc_leD)
  have ptr: "us - 0x1000 + of_nat (4096 - length (strings_of (drop n args))) = arg_ptrs us args ! n"
    using Suc.prems(1) le by (simp add: arg_ptrs_def of_nat_diff)
  have "arg_str (Some (map Some args)) n = ?s" using Suc.prems(1) by (simp add: arg_str_def)
  then have "put_args phys us (Some (map Some args)) (Suc n) (of_nat (4096 - length ?L)) m =
      (of_nat (4096 - length (strings_of args)), take n (arg_ptrs us args) @ [arg_ptrs us args ! n], m')"
    unfolding put_args.simps Let_def
    by (simp only: off ptr m1_def [symmetric] m'(1) case_prod_conv)
  moreover have "take n (arg_ptrs us args) @ [arg_ptrs us args ! n] = take (Suc n) (arg_ptrs us args)"
    using Suc.prems(1) by (simp add: arg_ptrs_def take_Suc_conv_app_nth)
  ultimately show ?case using m'(2) by auto
qed (simp add: exI)

lemma push_words_holds:
  assumes "stack_holds phys m0 L m" and "8 * length ws + length L \<le> 4096"
  shows "\<exists>m'. push_words phys ws (of_nat (4096 - length L)) m = (of_nat (4096 - length L - 8 * length ws), m') \<and>
    stack_holds phys m0 (concat (map (le_bytes 8) (rev ws)) @ L) m'"
  using assms
proof (induction ws arbitrary: L m)
  case (Cons w ws)
  have off: "of_nat (4096 - length L) - 8 = (of_nat (4096 - length L - 8) :: u64)"
    using Cons.prems(2) by (simp add: of_nat_diff)
  have "stack_holds phys m0 (le_bytes 8 w @ L) (store64 (phys + of_nat (4096 - length L - 8)) w m)"
    using stack_push [OF Cons.prems(1), of "le_bytes 8 w"] Cons.prems(2) by (simp add: store64_def)
  from Cons.IH [OF this] show ?case
    using Cons.prems(2) unfolding push_words.simps off by (simp add: diff_diff_add add.commute)
qed simp

lemma length_stack_image: "length (stack_image us args) = 8 * (length args + 2) + length (strings_of args)"
proof -
  have "length (concat (map (le_bytes 8) ws)) = 8 * length ws" for ws by (induction ws) simp_all
  moreover have "length (arg_ptrs us args) = length args" by (simp add: arg_ptrs_def)
  ultimately show ?thesis by (simp add: stack_image_def)
qed

lemma stack_holds_nil: "stack_holds phys m [] m"
  by (simp add: stack_holds_def)

text \<open>
  C19 (functional): for at most 64 arguments that fit on the page, \<^verbatim>\<open>setup_user_stack\<close> puts the initial
  stack of the new program at the end of the page \<open>phys\<close>: the argument count, the pointers to the
  arguments, a null pointer and the strings themselves, each pointer being the user address of the
  string it stands for.  The returned stack pointer is the user address of the count, and no other
  byte of memory changes.
\<close>

theorem setup_user_stack_image:
  assumes "length args \<le> 64" and "length (stack_image us args) \<le> 4096"
  shows "\<exists>m'. setup_user_stack phys us (int (length args)) (Some (map Some args)) m =
      (us - of_nat (length (stack_image us args)), m') \<and> stack_holds phys m (stack_image us args) m'"
proof -
  let ?n = "length args"
  let ?S = "strings_of args"
  have le: "8 * (?n + 2) + length ?S \<le> 4096" using assms(2) by (simp add: length_stack_image)
  have nil: "stack_holds phys m (strings_of (drop ?n args)) m" by (simp add: strings_of_def stack_holds_nil)
  obtain m1 where m1: "put_args phys us (Some (map Some args)) ?n 0x1000 m =
      (of_nat (4096 - length ?S), arg_ptrs us args, m1)" "stack_holds phys m ?S m1"
    using put_args_holds [OF _ nil, of us] le by (auto simp: strings_of_def arg_ptrs_def)
  let ?ws = "0 # rev (arg_ptrs us args) @ [word_of_int (int ?n)]"
  have len: "length ?ws = ?n + 2" by (simp add: arg_ptrs_def)
  obtain m2 where m2: "push_words phys ?ws (of_nat (4096 - length ?S)) m1 =
      (of_nat (4096 - length ?S - 8 * (?n + 2)), m2)"
      "stack_holds phys m (concat (map (le_bytes 8) (rev ?ws)) @ ?S) m2"
    using push_words_holds [OF m1(2), of ?ws] le len by auto
  have img: "concat (map (le_bytes 8) (rev ?ws)) @ ?S = stack_image us args"
    by (simp add: stack_image_def)
  have rsp: "us - 0x1000 + of_nat (4096 - length ?S - 8 * (?n + 2)) = us - of_nat (length (stack_image us args))"
    using le by (simp add: length_stack_image of_nat_diff)
  have "setup_user_stack phys us (int ?n) (Some (map Some args)) m =
      (us - of_nat (length (stack_image us args)), m2)"
    using assms(1) m2(1) rsp by (simp add: setup_user_stack_def m1(1) del: push_words.simps)
  then show ?thesis using m2(2) unfolding img by blast
qed

theorem setup_user_stack_image_witness:
  "\<exists>m'. setup_user_stack 0x5000 US_VADDR 2 (Some [Some ''ls'', Some ''-l'']) (\<lambda>_. 0) =
      (US_VADDR - 38, m') \<and> stack_holds 0x5000 (\<lambda>_. 0) (stack_image US_VADDR [''ls'', ''-l'']) m'"
  using setup_user_stack_image [of "[''ls'', ''-l'']" US_VADDR "0x5000" "\<lambda>_. 0"]
  by (simp add: length_stack_image strings_of_def)

text \<open>A pointer of the image leads to its string.\<close>

lemma arg_ptr_string:
  assumes "i < length args" "length (stack_image us args) \<le> 4096" "stack_holds phys m0 (stack_image us args) m"
    and "j < length (str_bytes8 (args ! i))"
  shows "load8 (phys + 4096 + (arg_ptrs us args ! i - us) + of_nat j) m = str_bytes8 (args ! i) ! j"
proof -
  let ?D = "strings_of (drop i args)" and ?L = "stack_image us args"
  have dr: "?D = str_bytes8 (args ! i) @ strings_of (drop (Suc i) args)"
    using assms(1) by (simp add: strings_of_def Cons_nth_drop_Suc [symmetric])
  have "strings_of args = strings_of (take i args) @ ?D"
    unfolding strings_of_def by (metis append_take_drop_id concat_append map_append)
  then obtain P where L: "?L = P @ ?D" unfolding stack_image_def by (metis append.assoc)
  have ge: "length ?D \<le> 4096" and j: "j < length ?D" using assms(2,4) L dr by simp_all
  define q where "q = 4096 - length ?D + j"
  have q: "q < 4096" "\<not> q < 4096 - length ?L" using ge j L by (simp_all add: q_def)
  have addr: "phys + 4096 + (arg_ptrs us args ! i - us) + of_nat j = phys + of_nat q"
    using assms(1) ge by (simp add: arg_ptrs_def q_def of_nat_diff)
  have val: "load8 (phys + of_nat q) m = ?L ! (q - (4096 - length ?L))"
    using assms(3) q unfolding stack_holds_def by simp
  have idx: "q - (4096 - length ?L) = length P + j" using assms(2) L by (simp add: q_def)
  show ?thesis unfolding addr val idx using L dr assms(4) by (simp add: nth_append)
qed

end
