(* ===== verification/Console.thy ===== *)
theory Console
  imports Prelude
begin

text \<open>
  The text console, \<^verbatim>\<open>kernel/drivers/vga/vga.c\<close> and \<^verbatim>\<open>vga.h\<close>.  The text buffer at \<^verbatim>\<open>VGA_ADDRESS\<close> is a function
  from the index of a cell to its contents, defined for every integer so that a store outside the
  screen shows.  \<open>crt_pos\<close> is the cursor position the display controller was last sent.
\<close>

section \<open>State and operations\<close>

definition VGA_WIDTH :: int where "VGA_WIDTH = 80"
definition VGA_HEIGHT :: int where "VGA_HEIGHT = 25"

lemmas vga_size = VGA_WIDTH_def VGA_HEIGHT_def

datatype vga_color = VGA_BLACK | VGA_BLUE | VGA_GREEN | VGA_CYAN | VGA_RED | VGA_MAGENTA | VGA_BROWN | VGA_LIGHT_GREY
  | VGA_DARK_GREY | VGA_LIGHT_BLUE | VGA_LIGHT_GREEN | VGA_LIGHT_CYAN | VGA_LIGHT_RED | VGA_LIGHT_MAGENTA
  | VGA_LIGHT_BROWN | VGA_WHITE

fun color_code :: "vga_color \<Rightarrow> u8" where
  "color_code VGA_BLACK = 0"
| "color_code VGA_BLUE = 1"
| "color_code VGA_GREEN = 2"
| "color_code VGA_CYAN = 3"
| "color_code VGA_RED = 4"
| "color_code VGA_MAGENTA = 5"
| "color_code VGA_BROWN = 6"
| "color_code VGA_LIGHT_GREY = 7"
| "color_code VGA_DARK_GREY = 8"
| "color_code VGA_LIGHT_BLUE = 9"
| "color_code VGA_LIGHT_GREEN = 10"
| "color_code VGA_LIGHT_CYAN = 11"
| "color_code VGA_LIGHT_RED = 12"
| "color_code VGA_LIGHT_MAGENTA = 13"
| "color_code VGA_LIGHT_BROWN = 14"
| "color_code VGA_WHITE = 15"

definition vga_entry_color :: "vga_color \<Rightarrow> vga_color \<Rightarrow> u8" where
  "vga_entry_color fg bg = color_code fg OR push_bit 4 (color_code bg)"

definition vga_entry :: "u8 \<Rightarrow> u8 \<Rightarrow> u16" where
  "vga_entry c color = ucast c OR push_bit 8 (ucast color)"

record vga =
  vbuf :: "int \<Rightarrow> u16"
  vga_row :: int
  vga_col :: int
  crt_pos :: u16
  vga_default_color :: u8

definition blank :: u16 where
  "blank = vga_entry 0x20 (vga_entry_color VGA_LIGHT_GREY VGA_BLACK)"

text \<open>The two loops of \<^verbatim>\<open>vga_scroll\<close>, cell by cell in the order of the source.\<close>

definition vga_scroll :: "vga \<Rightarrow> vga" where
  "vga_scroll s =
     (let b1 = fold (\<lambda>y b. fold (\<lambda>x b. b((y - 1) * VGA_WIDTH + x := b (y * VGA_WIDTH + x)))
                              [0..VGA_WIDTH - 1] b) [1..VGA_HEIGHT - 1] (vbuf s);
          b2 = fold (\<lambda>x b. b((VGA_HEIGHT - 1) * VGA_WIDTH + x := blank)) [0..VGA_WIDTH - 1] b1
      in s\<lparr>vbuf := b2, vga_row := VGA_HEIGHT - 1\<rparr>)"

definition vga_sync_cursor :: "vga \<Rightarrow> vga" where
  "vga_sync_cursor s = s\<lparr>crt_pos := word_of_int (vga_row s * VGA_WIDTH + vga_col s)\<rparr>"

definition vga_init :: "vga \<Rightarrow> vga" where
  "vga_init s = vga_sync_cursor (s\<lparr>vga_row := 0, vga_col := 0\<rparr>)"

definition vga_clear :: "u8 \<Rightarrow> vga \<Rightarrow> vga" where
  "vga_clear color s =
     vga_sync_cursor
       (s\<lparr>vbuf := fold (\<lambda>i b. b(i := vga_entry 0x20 color)) [0..VGA_WIDTH * VGA_HEIGHT - 1] (vbuf s),
          vga_row := 0, vga_col := 0\<rparr>)"

text \<open>\<^verbatim>\<open>vga_col = 0; if (++vga_row == VGA_HEIGHT) vga_scroll();\<close>\<close>

definition new_line :: "vga \<Rightarrow> vga" where
  "new_line s =
     (let s = s\<lparr>vga_col := 0, vga_row := vga_row s + 1\<rparr>
      in if vga_row s = VGA_HEIGHT then vga_scroll s else s)"

text \<open>\<^verbatim>\<open>buf[vga_row * VGA_WIDTH + vga_col++] = e\<close>\<close>

definition put_cell :: "u16 \<Rightarrow> vga \<Rightarrow> vga" where
  "put_cell e s = s\<lparr>vbuf := (vbuf s)(vga_row s * VGA_WIDTH + vga_col s := e), vga_col := vga_col s + 1\<rparr>"

function tab_fill :: "u8 \<Rightarrow> int \<Rightarrow> vga \<Rightarrow> vga" where
  "tab_fill color stop s =
     (if vga_col s < stop \<and> vga_col s < VGA_WIDTH
      then tab_fill color stop (put_cell (vga_entry 0x20 color) s) else s)"
  by pat_completeness auto
termination
  by (relation "measure (\<lambda>(color, stop, s). nat (VGA_WIDTH - vga_col s))") (simp_all add: put_cell_def)

declare tab_fill.simps [simp del]

definition vga_putchar :: "u8 \<Rightarrow> u8 \<Rightarrow> vga \<Rightarrow> vga" where
  "vga_putchar c color s =
     (if c = 0x0D then vga_sync_cursor (s\<lparr>vga_col := 0\<rparr>)
      else if c = 0x08 then vga_sync_cursor (if 0 < vga_col s then s\<lparr>vga_col := vga_col s - 1\<rparr> else s)
      else if c = 0x0A then vga_sync_cursor (new_line s)
      else if c = 0x09
      then let s = tab_fill color ((vga_col s + 4) AND NOT 3) s
           in vga_sync_cursor (if vga_col s = VGA_WIDTH then new_line s else s)
      else let s = put_cell (vga_entry c color) s
           in vga_sync_cursor (if vga_col s = VGA_WIDTH then new_line s else s))"

fun vga_write :: "bytes \<Rightarrow> u8 \<Rightarrow> vga \<Rightarrow> vga" where
  "vga_write [] color s = s"
| "vga_write (c # cs) color s = vga_write cs color (vga_putchar c color s)"

definition vga_backspace :: "vga \<Rightarrow> vga" where
  "vga_backspace s =
     (if 0 < vga_col s
      then let s = s\<lparr>vga_col := vga_col s - 1\<rparr>
           in vga_sync_cursor
                (s\<lparr>vbuf := (vbuf s)(vga_row s * VGA_WIDTH + vga_col s := vga_entry 0x20 (vga_default_color s))\<rparr>)
      else s)"

definition vga_get_cursor :: "vga \<Rightarrow> int \<times> int" where
  "vga_get_cursor s = (vga_row s, vga_col s)"

definition vga_set_cursor :: "int \<Rightarrow> int \<Rightarrow> vga \<Rightarrow> vga" where
  "vga_set_cursor row col s =
     (if 0 \<le> row \<and> row < VGA_HEIGHT \<and> 0 \<le> col \<and> col < VGA_WIDTH
      then vga_sync_cursor (s\<lparr>vga_row := row, vga_col := col\<rparr>) else s)"

section \<open>Scrolling\<close>

lemma vga_write_append: "vga_write (a @ b) color v = vga_write b color (vga_write a color v)"
  by (induction a arbitrary: v) simp_all

lemma upto_snoc: "i \<le> int n \<Longrightarrow> [i..int n] = [i..int n - 1] @ [int n]"
  by (rule upto_rec2)

lemma copy_row:
  assumes "n \<le> 80"
  shows "fold (\<lambda>x b. b(d + x := b (d + 80 + x))) [0..int n - 1] b =
    (\<lambda>i. if d \<le> i \<and> i < d + int n then b (i + 80) else b i)"
  using assms
proof (induction n)
  case (Suc n)
  have "[0..int (Suc n) - 1] = [0..int n - 1] @ [int n]" using upto_snoc [of 0 n] by simp
  then show ?case using Suc by (auto simp: fun_eq_iff algebra_simps)
qed (auto simp: fun_eq_iff)

lemma move_rows:
  "fold (\<lambda>y b. fold (\<lambda>x b. b((y - 1) * 80 + x := b (y * 80 + x))) [0..79] b) [1..int n] b =
    (\<lambda>i. if 0 \<le> i \<and> i < int n * 80 then b (i + 80) else b i)"
proof (induction n)
  case (Suc n)
  have up: "[1..int (Suc n)] = [1..int n] @ [int (Suc n)]" using upto_snoc [of 1 "Suc n"] by simp
  have row: "fold (\<lambda>x b. b((y - 1) * 80 + x := b (y * 80 + x))) [0..79] b =
      (\<lambda>i. if (y - 1) * 80 \<le> i \<and> i < y * 80 then b (i + 80) else b i)" for y and b :: "int \<Rightarrow> 'a"
    using copy_row [of 80 "(y - 1) * 80" b] by (simp add: algebra_simps)
  have "fold (\<lambda>y b. fold (\<lambda>x b. b((y - 1) * 80 + x := b (y * 80 + x))) [0..79] b) [1..int (Suc n)] b =
      fold (\<lambda>x b. b((int (Suc n) - 1) * 80 + x := b (int (Suc n) * 80 + x))) [0..79]
        (\<lambda>i. if 0 \<le> i \<and> i < int n * 80 then b (i + 80) else b i)"
    unfolding up fold_append comp_def Suc.IH by simp
  then show ?case unfolding row by (auto simp: fun_eq_iff)
qed (auto simp: fun_eq_iff)

lemma clear_row:
  "fold (\<lambda>x b. b(d + x := e)) [0..int n - 1] b = (\<lambda>i. if d \<le> i \<and> i < d + int n then e else b i)"
proof (induction n)
  case (Suc n)
  have "[0..int (Suc n) - 1] = [0..int n - 1] @ [int n]" using upto_snoc [of 0 n] by simp
  then show ?case using Suc by (auto simp: fun_eq_iff)
qed (auto simp: fun_eq_iff)

definition scroll_up :: "(int \<Rightarrow> u16) \<Rightarrow> int \<Rightarrow> u16" where
  "scroll_up b i = (if 0 \<le> i \<and> i < 1920 then b (i + 80) else if 1920 \<le> i \<and> i < 2000 then blank else b i)"

lemma vga_scroll_eq: "vga_scroll s = s\<lparr>vbuf := scroll_up (vbuf s), vga_row := 24\<rparr>"
  using move_rows [of 24 "vbuf s"] clear_row [of 1920 blank 80]
  by (simp add: vga_scroll_def vga_size) (auto simp: scroll_up_def fun_eq_iff)

section \<open>The console as a linear screen\<close>

text \<open>
  The reference: 2000 cells and a position in them.  Reaching the end moves everything up one row.
\<close>

type_synonym screen = "(int \<Rightarrow> u16) \<times> int"

definition wrap :: "screen \<Rightarrow> screen" where
  "wrap S = (if snd S = 2000 then (scroll_up (fst S), 1920) else S)"

definition fill :: "u16 \<Rightarrow> int \<Rightarrow> screen \<Rightarrow> screen" where
  "fill e n S = ((\<lambda>i. if snd S \<le> i \<and> i < snd S + n then e else fst S i), snd S + n)"

definition show_char :: "u8 \<Rightarrow> u8 \<Rightarrow> screen \<Rightarrow> screen" where
  "show_char c color S =
     (if c = 0x0D then (fst S, snd S - snd S mod 80)
      else if c = 0x08 then (fst S, if snd S mod 80 = 0 then snd S else snd S - 1)
      else if c = 0x0A then wrap (fst S, snd S - snd S mod 80 + 80)
      else if c = 0x09 then wrap (fill (vga_entry 0x20 color) (4 - snd S mod 4) S)
      else wrap (fill (vga_entry c color) 1 S))"

definition screen_of :: "vga \<Rightarrow> screen" where
  "screen_of s = (vbuf s, vga_row s * 80 + vga_col s)"

text \<open>The cursor is on the screen and the display controller knows where.\<close>

definition on_screen :: "vga \<Rightarrow> bool" where
  "on_screen s \<longleftrightarrow> 0 \<le> vga_row s \<and> vga_row s < 25 \<and> 0 \<le> vga_col s \<and> vga_col s < 80 \<and>
     uint (crt_pos s) = vga_row s * 80 + vga_col s"

lemma sync_on_screen:
  assumes "0 \<le> vga_row s" "vga_row s < 25" "0 \<le> vga_col s" "vga_col s < 80"
  shows "on_screen (vga_sync_cursor s)" and "screen_of (vga_sync_cursor s) = screen_of s"
proof -
  have "take_bit 16 (vga_row s * 80 + vga_col s) = vga_row s * 80 + vga_col s"
    using assms by (intro take_bit_int_eq_self) simp_all
  then have "uint (word_of_int (vga_row s * 80 + vga_col s) :: u16) = vga_row s * 80 + vga_col s"
    by (simp only: uint_word_of_int_eq) simp
  then show "on_screen (vga_sync_cursor s)"
    using assms by (simp only: on_screen_def vga_sync_cursor_def vga_size) simp
qed (simp add: screen_of_def vga_sync_cursor_def)

lemma new_line_spec:
  assumes "0 \<le> vga_row s" "vga_row s < 25" "0 \<le> vga_col s" "vga_col s \<le> 80"
  defines "t \<equiv> vga_sync_cursor (new_line s)"
  shows "on_screen t \<and> screen_of t = wrap (vbuf s, vga_row s * 80 + 80)"
proof -
  have "0 \<le> vga_row (new_line s)" "vga_row (new_line s) < 25" "vga_col (new_line s) = 0"
    using assms by (auto simp: new_line_def vga_scroll_eq vga_size Let_def)
  moreover have "screen_of (new_line s) = wrap (vbuf s, vga_row s * 80 + 80)"
    using assms by (auto simp: new_line_def vga_scroll_eq vga_size Let_def screen_of_def wrap_def)
  ultimately show ?thesis unfolding t_def using sync_on_screen [of "new_line s"] by simp
qed

lemma tab_fill_spec:
  assumes "vga_col s \<le> stop" "stop \<le> 80"
  shows "tab_fill color stop s =
    s\<lparr>vbuf := fst (fill (vga_entry 0x20 color) (stop - vga_col s) (screen_of s)), vga_col := stop\<rparr>"
  using assms
proof (induction color stop s rule: tab_fill.induct)
  case (1 color stop s)
  show ?case
  proof (cases "vga_col s < stop")
    case True
    let ?t = "put_cell (vga_entry 0x20 color) s"
    have "tab_fill color stop s = tab_fill color stop ?t"
      using True 1(3) by (subst tab_fill.simps) (simp add: vga_size)
    also have "\<dots> = ?t\<lparr>vbuf := fst (fill (vga_entry 0x20 color) (stop - vga_col ?t) (screen_of ?t)), vga_col := stop\<rparr>"
      using 1 True by (simp add: vga_size put_cell_def)
    also have "\<dots> = s\<lparr>vbuf := fst (fill (vga_entry 0x20 color) (stop - vga_col s) (screen_of s)), vga_col := stop\<rparr>"
      using True by (auto simp: put_cell_def fill_def screen_of_def vga_size fun_eq_iff)
    finally show ?thesis .
  next
    case False
    then have eq: "vga_col s = stop" using 1(2) by simp
    have "tab_fill color stop s = s" using False by (subst tab_fill.simps) simp
    moreover have "fst (fill e 0 (screen_of s)) = vbuf s" for e by (auto simp: fill_def screen_of_def fun_eq_iff)
    ultimately show ?thesis using eq by simp
  qed
qed

lemma end_of_line:
  assumes "0 \<le> vga_row t" "vga_row t < 25" "0 \<le> vga_col t" "vga_col t \<le> 80"
  defines "u \<equiv> vga_sync_cursor (if vga_col t = 80 then new_line t else t)"
  shows "on_screen u \<and> screen_of u = wrap (screen_of t)"
proof (cases "vga_col t = 80")
  case True
  then show ?thesis using new_line_spec [of t] assms by (simp add: screen_of_def)
next
  case False
  then have "screen_of t = wrap (screen_of t)" using assms by (auto simp: wrap_def screen_of_def)
  then show ?thesis using False sync_on_screen [of t] assms by simp
qed

lemma tab_stop: "(c + 4) AND NOT 3 = c + 4 - c mod (4 :: int)"
proof -
  have "((c + 4) AND NOT 3) + ((c + 4) AND 3) = ((c + 4) AND NOT 3) OR ((c + 4) AND 3)"
    by (rule disjunctive_add) (auto simp: bit_simps)
  also have "\<dots> = c + 4" by (rule bit_eqI) (auto simp: bit_simps)
  finally have "((c + 4) AND NOT 3) = c + 4 - ((c + 4) AND 3)" by linarith
  also have "(c + 4) AND 3 = take_bit 2 (c + 4)" by (simp add: take_bit_eq_mask mask_eq_exp_minus_1)
  finally show ?thesis by (simp add: take_bit_eq_mod)
qed

lemma vga_putchar_spec:
  assumes "on_screen s"
  shows "on_screen (vga_putchar c color s) \<and> screen_of (vga_putchar c color s) = show_char c color (screen_of s)"
proof -
  have b: "0 \<le> vga_row s" "vga_row s < 25" "0 \<le> vga_col s" "vga_col s < 80"
    using assms by (simp_all add: on_screen_def)
  have col: "(vga_row s * 80 + vga_col s) mod 80 = vga_col s" using b by simp
  have col4: "(vga_row s * 80 + vga_col s) mod 4 = vga_col s mod 4" by presburger
  consider "c = 0x0D" | "c = 0x08" | "c = 0x0A" | "c = 0x09" | "c \<notin> {0x0D, 0x08, 0x0A, 0x09}" by blast
  then show ?thesis
  proof cases
    case 1
    then show ?thesis using sync_on_screen [of "s\<lparr>vga_col := 0\<rparr>"] b col
      by (simp add: vga_putchar_def show_char_def screen_of_def)
  next
    case 2
    then show ?thesis using sync_on_screen [of "if 0 < vga_col s then s\<lparr>vga_col := vga_col s - 1\<rparr> else s"] b col
      by (auto simp: vga_putchar_def show_char_def screen_of_def)
  next
    case 3
    then show ?thesis using new_line_spec [of s] b col by (simp add: vga_putchar_def show_char_def screen_of_def)
  next
    case 4
    define stop where "stop = vga_col s + 4 - vga_col s mod 4"
    have stop: "vga_col s \<le> stop" "stop \<le> 80" using b unfolding stop_def by presburger+
    define t where "t = tab_fill color stop s"
    have t: "t = s\<lparr>vbuf := fst (fill (vga_entry 0x20 color) (stop - vga_col s) (screen_of s)), vga_col := stop\<rparr>"
      unfolding t_def using stop by (rule tab_fill_spec)
    have "screen_of t = fill (vga_entry 0x20 color) (4 - (vga_row s * 80 + vga_col s) mod 4) (screen_of s)"
      unfolding col4 by (simp add: t fill_def screen_of_def stop_def)
    moreover have "vga_putchar c color s = vga_sync_cursor (if vga_col t = 80 then new_line t else t)"
      using 4 unfolding vga_putchar_def tab_stop by (simp add: t_def stop_def Let_def vga_size)
    ultimately show ?thesis
      using end_of_line [of t] b stop 4 by (simp add: show_char_def screen_of_def t)
  next
    case 5
    define t where "t = put_cell (vga_entry c color) s"
    have t: "vga_row t = vga_row s" "vga_col t = vga_col s + 1" by (simp_all add: t_def put_cell_def)
    have "screen_of t = fill (vga_entry c color) 1 (screen_of s)"
      by (auto simp: t_def put_cell_def fill_def screen_of_def vga_size fun_eq_iff)
    moreover have "vga_putchar c color s = vga_sync_cursor (if vga_col t = 80 then new_line t else t)"
      using 5 by (simp add: vga_putchar_def t_def Let_def vga_size)
    ultimately show ?thesis using end_of_line [of t] b 5 t by (simp add: show_char_def)
  qed
qed

lemma show_char_outside:
  assumes "0 \<le> snd S" "snd S < 2000" "i < 0 \<or> 2000 \<le> i"
  shows "fst (show_char c color S) i = fst S i"
proof -
  have "snd S + (4 - snd S mod 4) \<le> 2000" using assms(2) by presburger
  then show ?thesis using assms by (auto simp: show_char_def wrap_def fill_def scroll_up_def)
qed

text \<open>
  C14 (refinement): writing a string to the console does what the linear screen of 2000 cells does
  character by character, with carriage return, backspace, line feed and tab handled and the rows
  moved up at the end of the screen.  The cursor stays on the screen, the display controller is told
  its position, and no cell outside the screen is written.
\<close>

theorem vga_write_refines:
  assumes "on_screen s"
  shows "on_screen (vga_write cs color s) \<and>
    screen_of (vga_write cs color s) = fold (\<lambda>c. show_char c color) cs (screen_of s) \<and>
    (\<forall>i. i < 0 \<or> 2000 \<le> i \<longrightarrow> vbuf (vga_write cs color s) i = vbuf s i)"
  using assms
proof (induction cs arbitrary: s)
  case (Cons c cs)
  note P = vga_putchar_spec [OF Cons.prems, of c color]
  have vb: "vbuf t = fst (screen_of t)" for t by (simp add: screen_of_def)
  have "0 \<le> snd (screen_of s)" "snd (screen_of s) < 2000"
    using Cons.prems by (auto simp: on_screen_def screen_of_def)
  then have "vbuf (vga_putchar c color s) i = vbuf s i" if "i < 0 \<or> 2000 \<le> i" for i
    using that show_char_outside [of "screen_of s" i c color] P unfolding vb by simp
  then show ?case using Cons.IH [of "vga_putchar c color s"] P by simp
qed simp

definition last_line :: vga where
  "last_line = \<lparr>vbuf = (\<lambda>i. word_of_int i), vga_row = 24, vga_col = 78, crt_pos = 1998, vga_default_color = 7\<rparr>"

theorem vga_write_refines_witness:
  "screen_of (vga_write [0x48, 0x69, 0x21] 7 last_line) =
     fold (\<lambda>c. show_char c 7) [0x48, 0x69, 0x21] (screen_of last_line) \<and>
   vbuf (vga_write [0x48, 0x69, 0x21] 7 last_line) 2000 = vbuf last_line 2000"
  using vga_write_refines [of last_line "[0x48, 0x69, 0x21]" 7]
  by (simp add: on_screen_def last_line_def)

lemma vga_clear_spec:
  "on_screen (vga_clear color s) \<and> screen_of (vga_clear color s) =
     ((\<lambda>i. if 0 \<le> i \<and> i < 2000 then vga_entry 0x20 color else vbuf s i), 0)"
proof -
  have "fold (\<lambda>i b. b(i := vga_entry 0x20 color)) [0..1999] (vbuf s) =
      (\<lambda>i. if 0 \<le> i \<and> i < 2000 then vga_entry 0x20 color else vbuf s i)"
    using clear_row [of 0 "vga_entry 0x20 color" 2000 "vbuf s"] by simp
  then show ?thesis
    by (simp add: vga_clear_def vga_size on_screen_def screen_of_def vga_sync_cursor_def)
qed

end
