(* ===== verification/Keyboard.thy ===== *)
theory Keyboard
  imports Console
begin

text \<open>
  The keyboard driver and the line editor, \<^verbatim>\<open>os/keyboard.c\<close> and \<^verbatim>\<open>keyboard.h\<close>.  The interrupt handler turns
  the scan codes of the keyboard controller into characters and puts them into a ring buffer; readers
  take them out.  Characters are bytes; the serial port is the bytes it has received and sent.
\<close>

section \<open>State\<close>

definition KEYBUF_SIZE :: nat where "KEYBUF_SIZE = 256"
definition HISTORY_MAX :: nat where "HISTORY_MAX = 16"
definition KEY_UP :: u8 where "KEY_UP = 0x80"
definition KEY_DOWN :: u8 where "KEY_DOWN = 0x81"
definition KEY_LEFT :: u8 where "KEY_LEFT = 0x82"
definition KEY_RIGHT :: u8 where "KEY_RIGHT = 0x83"
definition KEY_HOME :: u8 where "KEY_HOME = 0x84"
definition KEY_END :: u8 where "KEY_END = 0x85"
definition KEY_DEL :: u8 where "KEY_DEL = 0x86"

lemmas key_codes = KEY_UP_def KEY_DOWN_def KEY_LEFT_def KEY_RIGHT_def KEY_HOME_def KEY_END_def KEY_DEL_def

record kbd =
  shift_pressed :: bool
  ctrl_pressed :: bool
  caps_locked :: bool
  extended :: bool
  keybuf :: bytes
  keybuf_head :: nat
  keybuf_tail :: nat

text \<open>The tables list the scan codes with a character; the other entries are 0.\<close>

definition key_table :: "(u8 \<times> u8) list \<Rightarrow> u8 \<Rightarrow> u8" where
  "key_table tab sc = (case map_of tab sc of Some c \<Rightarrow> c | None \<Rightarrow> 0)"

definition keymap :: "u8 \<Rightarrow> u8" where
  "keymap = key_table [
      (0x02, 0x31), (0x03, 0x32), (0x04, 0x33), (0x05, 0x34), (0x06, 0x35), (0x07, 0x36), (0x08, 0x37), (0x09, 0x38), (0x0A, 0x39),
      (0x0B, 0x30), (0x0C, 0x2D), (0x0D, 0x3D), (0x10, 0x71), (0x11, 0x77), (0x12, 0x65), (0x13, 0x72), (0x14, 0x74), (0x15, 0x79),
      (0x16, 0x75), (0x17, 0x69), (0x18, 0x6F), (0x19, 0x70), (0x1A, 0x5B), (0x1B, 0x5D), (0x1C, 0x0A), (0x1E, 0x61), (0x1F, 0x73),
      (0x20, 0x64), (0x21, 0x66), (0x22, 0x67), (0x23, 0x68), (0x24, 0x6A), (0x25, 0x6B), (0x26, 0x6C), (0x27, 0x3B), (0x28, 0x27),
      (0x29, 0x60), (0x2B, 0x5C), (0x2C, 0x7A), (0x2D, 0x78), (0x2E, 0x63), (0x2F, 0x76), (0x30, 0x62), (0x31, 0x6E), (0x32, 0x6D),
      (0x33, 0x2C), (0x34, 0x2E), (0x35, 0x2F), (0x37, 0x2A), (0x39, 0x20)]"

definition keymap_shift :: "u8 \<Rightarrow> u8" where
  "keymap_shift = key_table [
      (0x02, 0x21), (0x03, 0x40), (0x04, 0x23), (0x05, 0x24), (0x06, 0x25), (0x07, 0x5E), (0x08, 0x26), (0x09, 0x2A), (0x0A, 0x28),
      (0x0B, 0x29), (0x0C, 0x5F), (0x0D, 0x2B), (0x10, 0x51), (0x11, 0x57), (0x12, 0x45), (0x13, 0x52), (0x14, 0x54), (0x15, 0x59),
      (0x16, 0x55), (0x17, 0x49), (0x18, 0x4F), (0x19, 0x50), (0x1A, 0x7B), (0x1B, 0x7D), (0x1E, 0x41), (0x1F, 0x53), (0x20, 0x44),
      (0x21, 0x46), (0x22, 0x47), (0x23, 0x48), (0x24, 0x4A), (0x25, 0x4B), (0x26, 0x4C), (0x27, 0x3A), (0x28, 0x22), (0x29, 0x7E),
      (0x2B, 0x7C), (0x2C, 0x5A), (0x2D, 0x58), (0x2E, 0x43), (0x2F, 0x56), (0x30, 0x42), (0x31, 0x4E), (0x32, 0x4D), (0x33, 0x3C),
      (0x34, 0x3E), (0x35, 0x3F)]"

section \<open>The ring buffer\<close>

definition keyboard_init :: "kbd \<Rightarrow> kbd" where
  "keyboard_init s = s\<lparr>keybuf_head := 0, keybuf_tail := 0\<rparr>"

text \<open>The code that stores a character when the ring is not full.\<close>

definition keybuf_put :: "u8 \<Rightarrow> kbd \<Rightarrow> kbd" where
  "keybuf_put c s =
     (let next = (keybuf_head s + 1) AND (KEYBUF_SIZE - 1) in
      if next \<noteq> keybuf_tail s
      then s\<lparr>keybuf := (keybuf s)[keybuf_head s := c], keybuf_head := next\<rparr> else s)"

definition keyboard_avail :: "kbd \<Rightarrow> bool" where
  "keyboard_avail s \<longleftrightarrow> keybuf_tail s \<noteq> keybuf_head s"

definition keyboard_dequeue :: "kbd \<Rightarrow> int \<times> kbd" where
  "keyboard_dequeue s =
     (if keybuf_tail s = keybuf_head s then (-1, s)
      else (uint (keybuf s ! keybuf_tail s), s\<lparr>keybuf_tail := (keybuf_tail s + 1) AND (KEYBUF_SIZE - 1)\<rparr>))"

section \<open>The interrupt handler\<close>

fun special_key :: "u8 \<Rightarrow> u8" where
  "special_key sc =
     (if sc = 0x48 then KEY_UP else if sc = 0x50 then KEY_DOWN else if sc = 0x4B then KEY_LEFT
      else if sc = 0x4D then KEY_RIGHT else if sc = 0x47 then KEY_HOME else if sc = 0x4F then KEY_END
      else if sc = 0x53 then KEY_DEL else 0)"

definition caps_key :: "u8 \<Rightarrow> bool" where
  "caps_key sc \<longleftrightarrow> 0x10 \<le> sc \<and> sc \<le> 0x32 \<and>
     (0x10 \<le> sc \<and> sc \<le> 0x19 \<or> 0x1E \<le> sc \<and> sc \<le> 0x26 \<or> 0x2C \<le> sc \<and> sc \<le> 0x32)"

text \<open>The character of a key press, 0 for none.\<close>

definition key_char :: "u8 \<Rightarrow> kbd \<Rightarrow> u8" where
  "key_char sc s =
     (let upper = (if caps_locked s \<and> caps_key sc then \<not> shift_pressed s else shift_pressed s);
          c = (if upper then keymap_shift sc else keymap sc);
          c = (if ctrl_pressed s \<and> 0x61 \<le> c \<and> c \<le> 0x7A then c AND 0x1F else c);
          c = (if ctrl_pressed s \<and> 0x41 \<le> c \<and> c \<le> 0x5A then c AND 0x1F else c)
      in if sc = 0x0E then 0x08 else c)"

definition keyboard_handler :: "u8 \<Rightarrow> kbd \<Rightarrow> kbd" where
  "keyboard_handler sc s =
     (if sc = 0x2A \<or> sc = 0x36 then s\<lparr>shift_pressed := True\<rparr>
      else if sc = 0xAA \<or> sc = 0xB6 then s\<lparr>shift_pressed := False\<rparr>
      else if sc = 0x1D then s\<lparr>ctrl_pressed := True\<rparr>
      else if sc = 0x9D then s\<lparr>ctrl_pressed := False\<rparr>
      else if sc = 0x3A then s\<lparr>caps_locked := \<not> caps_locked s\<rparr>
      else if sc = 0xE0 then s\<lparr>extended := True\<rparr>
      else if extended s
      then let s = s\<lparr>extended := False\<rparr> in
        if sc AND 0x80 \<noteq> 0 \<or> special_key sc = 0 then s else keybuf_put (special_key sc) s
      else if sc AND 0x80 \<noteq> 0 then s
      else if key_char sc s = 0 then s
      else keybuf_put (key_char sc s) s)"

text \<open>
  Reading \<open>n\<close> characters through the character device.  While the ring is empty the processor is
  halted and interrupts arrive: \<open>irqs\<close> are the scan codes to come, and \<open>None\<close> a wait that no
  interrupt ends.
\<close>

function keyboard_chr_read :: "nat \<Rightarrow> bytes \<Rightarrow> kbd \<Rightarrow> (bytes \<times> bytes \<times> kbd) option" where
  "keyboard_chr_read 0 irqs s = Some ([], irqs, s)"
| "keyboard_chr_read (Suc n) irqs s =
     (if keyboard_avail s
      then let (c, s) = keyboard_dequeue s in
        if c < 0 then keyboard_chr_read (Suc n) irqs s
        else do { (cs, irqs, s) \<leftarrow> keyboard_chr_read n irqs s; Some (word_of_int c # cs, irqs, s) }
      else (case irqs of [] \<Rightarrow> None | sc # irqs \<Rightarrow> keyboard_chr_read (Suc n) irqs (keyboard_handler sc s)))"
  by pat_completeness auto
termination
  by (relation "measures [\<lambda>(n, irqs, s). n, \<lambda>(n, irqs, s). length irqs]")
    (auto simp: keyboard_avail_def keyboard_dequeue_def)

declare keyboard_chr_read.simps [simp del]

section \<open>The line editor\<close>

text \<open>
  The variables of \<^verbatim>\<open>keyboard_readline\<close>: the caller's buffer of \<^verbatim>\<open>max\<close> bytes, the length of the line and the
  cursor, the history (the entries that are in use) and the entry shown, \<open>None\<close> for \<^verbatim>\<open>browsing == -1\<close>.
  \<^verbatim>\<open>saved\<close> is indexed beyond its 256 bytes by the source, so it is a function.
\<close>

record editor =
  ed_buf :: bytes
  ed_idx :: nat
  ed_cursor :: nat
  ed_browsing :: "nat option"
  ed_saved :: "nat \<Rightarrow> u8"
  ed_history :: "bytes list"
  ed_vga :: vga
  ed_serial :: bytes
  start_row :: int
  start_col :: int
  keyboard_color :: u8

definition serial_putchar :: "u8 \<Rightarrow> editor \<Rightarrow> editor" where
  "serial_putchar c s = s\<lparr>ed_serial := ed_serial s @ [c]\<rparr>"

definition serial_write :: "bytes \<Rightarrow> editor \<Rightarrow> editor" where
  "serial_write cs s = fold serial_putchar cs s"

definition serial_echo_line :: "bytes \<Rightarrow> nat \<Rightarrow> editor \<Rightarrow> editor" where
  "serial_echo_line buf idx s = fold (\<lambda>i. serial_putchar (buf ! i)) [0..<idx] s"

text \<open>\<^verbatim>\<open>if (++c == VGA_WIDTH) { c = 0; r++; }\<close>\<close>

definition next_cell :: "int \<times> int \<Rightarrow> int \<times> int" where
  "next_cell rc = (if snd rc + 1 = VGA_WIDTH then (fst rc + 1, 0) else (fst rc, snd rc + 1))"

definition cell_no :: "int \<times> int \<Rightarrow> int" where
  "cell_no rc = fst rc * VGA_WIDTH + snd rc"

fun draw_chars :: "bytes \<Rightarrow> u8 \<Rightarrow> int \<times> int \<Rightarrow> (int \<Rightarrow> u16) \<Rightarrow> (int \<times> int) \<times> (int \<Rightarrow> u16)" where
  "draw_chars [] color rc b = (rc, b)"
| "draw_chars (c # cs) color rc b = draw_chars cs color (next_cell rc) (b(cell_no rc := vga_entry c color))"

text \<open>Blanks behind the line, up to \<open>stop\<close> or two rows after the start, \<open>start\<close> being the first cell of the line.\<close>

function draw_blanks :: "u8 \<Rightarrow> int \<Rightarrow> int \<Rightarrow> int \<times> int \<Rightarrow> (int \<Rightarrow> u16) \<Rightarrow> int \<Rightarrow> u16" where
  "draw_blanks color start stop rc b =
     (if cell_no rc < stop \<and> fst rc < VGA_HEIGHT
      then let b = b(cell_no rc := vga_entry 0x20 color);
               rc = next_cell rc
           in if start + VGA_WIDTH * 2 \<le> cell_no rc then b else draw_blanks color start stop rc b
      else b)"
  by pat_completeness auto
termination
  by (relation "measure (\<lambda>(color, start, stop, rc, b). nat (stop - cell_no rc))")
    (auto simp: cell_no_def next_cell_def vga_size split: if_splits)

declare draw_blanks.simps [simp del]

text \<open>The cell of the cursor.\<close>

definition cursor_cell :: "nat \<Rightarrow> editor \<Rightarrow> int \<times> int" where
  "cursor_cell cursor s =
     (start_row s + (start_col s + int cursor) div VGA_WIDTH, (start_col s + int cursor) mod VGA_WIDTH)"

definition vga_redraw_line :: "editor \<Rightarrow> editor" where
  "vga_redraw_line s =
     (let color = keyboard_color s;
          start = start_row s * VGA_WIDTH + start_col s;
          (rc, b) = draw_chars (take (ed_idx s) (ed_buf s)) color (start_row s, start_col s) (vbuf (ed_vga s));
          b = draw_blanks color start (start + int (ed_idx s) + 256) rc b;
          (cr, cc) = cursor_cell (ed_cursor s) s;
          (cr, cc) = (if VGA_HEIGHT \<le> cr then (VGA_HEIGHT - 1, VGA_WIDTH - 1) else (cr, cc))
      in s\<lparr>ed_vga := vga_set_cursor cr cc ((ed_vga s)\<lparr>vbuf := b\<rparr>)\<rparr>)"

definition move_cursor :: "nat \<Rightarrow> editor \<Rightarrow> editor" where
  "move_cursor cursor s =
     (let (r, col) = cursor_cell cursor s
      in s\<lparr>ed_cursor := cursor, ed_vga := vga_set_cursor r col (ed_vga s)\<rparr>)"

text \<open>The lists are strings without their NUL, or hold a NUL earlier.\<close>

fun hist_strcmp :: "bytes \<Rightarrow> bytes \<Rightarrow> int" where
  "hist_strcmp (a # as) (b # bs) = (if a \<noteq> 0 \<and> b \<noteq> 0 \<and> a = b then hist_strcmp as bs else uint a - uint b)"
| "hist_strcmp (a # as) [] = uint a"
| "hist_strcmp [] (b # bs) = - uint b"
| "hist_strcmp [] [] = 0"

text \<open>\<^verbatim>\<open>while (h[idx] && idx < max - 1) { buf[idx] = h[idx]; idx++; }\<close> from \<open>idx\<close> on, with \<open>n = max - 1 - idx\<close>.\<close>

fun copy_line :: "(nat \<Rightarrow> u8) \<Rightarrow> nat \<Rightarrow> nat \<Rightarrow> bytes \<Rightarrow> nat \<times> bytes" where
  "copy_line h 0 idx buf = (idx, buf)"
| "copy_line h (Suc n) idx buf =
     (if h idx = 0 then (idx, buf) else copy_line h n (Suc idx) (buf[idx := h idx]))"

definition byte_at :: "bytes \<Rightarrow> nat \<Rightarrow> u8" where
  "byte_at xs i = (if i < length xs then xs ! i else 0)"

text \<open>Showing an entry of the history or the saved line.\<close>

definition show_line :: "nat \<Rightarrow> (nat \<Rightarrow> u8) \<Rightarrow> editor \<Rightarrow> editor" where
  "show_line mx h s =
     (let (idx, buf) = copy_line h (mx - 1) 0 (ed_buf s);
          s = vga_redraw_line (s\<lparr>ed_buf := buf, ed_idx := idx, ed_cursor := idx\<rparr>)
      in serial_echo_line buf idx (serial_write [0x0D] s))"

text \<open>Enter: the line is terminated and, unless it is empty or repeats the last entry, added to the history.\<close>

definition accept_line :: "editor \<Rightarrow> editor" where
  "accept_line s =
     (let buf = (ed_buf s)[ed_idx s := 0];
          s = serial_putchar 0x0A (s\<lparr>ed_buf := buf, ed_vga := vga_putchar 0x0A (keyboard_color s) (ed_vga s)\<rparr>);
          h = ed_history s
      in if 0 < ed_idx s \<and> (h = [] \<or> hist_strcmp (last h) (take (ed_idx s) buf) \<noteq> 0)
         then s\<lparr>ed_history := (if length h = HISTORY_MAX then tl h else h) @ [take (min (ed_idx s) 255) buf]\<rparr>
         else s)"

text \<open>
  What one character does; \<open>Inl\<close> is the return from \<^verbatim>\<open>keyboard_readline\<close>.  \<open>hook\<close> is \<^verbatim>\<open>tab_complete_hook\<close>: from
  the buffer, the cursor, the length and \<^verbatim>\<open>max\<close> it computes a result, a new buffer and a new cursor.
\<close>

type_synonym tab_hook = "bytes \<Rightarrow> nat \<Rightarrow> nat \<Rightarrow> nat \<Rightarrow> int \<times> bytes \<times> nat"

definition readline_key :: "tab_hook option \<Rightarrow> nat \<Rightarrow> u8 \<Rightarrow> editor \<Rightarrow> nat \<times> editor + editor" where
  "readline_key hook mx c s =
     (let buf = ed_buf s; idx = ed_idx s; cursor = ed_cursor s in
      if c = 0x0A then Inl (idx, accept_line s)
      else if c = 0x08
      then Inr (if 0 < cursor
                then let buf = fold (\<lambda>i b. b[cursor - 1 + i := b ! (cursor + i)]) [0..<idx - cursor] buf
                     in serial_write [0x08, 0x20, 0x08]
                          (vga_redraw_line (s\<lparr>ed_buf := buf, ed_idx := idx - 1, ed_cursor := cursor - 1\<rparr>))
                else s)
      else if c = KEY_DEL
      then Inr (if cursor < idx
                then let buf = fold (\<lambda>i b. b[cursor + i := b ! (cursor + 1 + i)]) [0..<idx - cursor - 1] buf
                     in vga_redraw_line (s\<lparr>ed_buf := buf, ed_idx := idx - 1\<rparr>)
                else s)
      else if c = 0x15
      then Inr (if 0 < idx
                then serial_write [0x08, 0x20, 0x08] (vga_redraw_line (s\<lparr>ed_idx := 0, ed_cursor := 0\<rparr>)) else s)
      else if c = KEY_LEFT then Inr (if 0 < cursor then move_cursor (cursor - 1) s else s)
      else if c = KEY_RIGHT then Inr (if cursor < idx then move_cursor (cursor + 1) s else s)
      else if c = KEY_HOME
      then Inr (s\<lparr>ed_cursor := 0, ed_vga := vga_set_cursor (start_row s) (start_col s) (ed_vga s)\<rparr>)
      else if c = KEY_END then Inr (move_cursor idx s)
      else if c = 0x09
      then Inr (case hook of
                  None \<Rightarrow> s
                | Some f \<Rightarrow>
                    let (result, buf, cursor) = f buf cursor idx mx;
                        s = s\<lparr>ed_buf := buf, ed_cursor := cursor\<rparr>
                    in if 0 < result then vga_redraw_line (s\<lparr>ed_idx := cursor\<rparr>) else s)
      else if c = KEY_UP
      then Inr (if ed_history s = [] then s
                else (case ed_browsing s of
                        None \<Rightarrow>
                          let saved = fold (\<lambda>i m. m(i := buf ! i)) [0..<min idx 255] (ed_saved s);
                              k = length (ed_history s) - 1
                          in show_line mx (byte_at (ed_history s ! k))
                               (s\<lparr>ed_saved := saved(idx := 0), ed_browsing := Some k\<rparr>)
                      | Some 0 \<Rightarrow> s
                      | Some (Suc k) \<Rightarrow> show_line mx (byte_at (ed_history s ! k)) (s\<lparr>ed_browsing := Some k\<rparr>)))
      else if c = KEY_DOWN
      then Inr (case ed_browsing s of
                  None \<Rightarrow> s
                | Some k \<Rightarrow>
                    if k + 1 < length (ed_history s)
                    then show_line mx (byte_at (ed_history s ! (k + 1))) (s\<lparr>ed_browsing := Some (k + 1)\<rparr>)
                    else show_line mx (ed_saved s) (s\<lparr>ed_browsing := None\<rparr>))
      else Inr (if idx < mx - 1
                then let buf = fold (\<lambda>i b. b[i := b ! (i - 1)]) (rev [cursor + 1..<idx + 1]) buf
                     in serial_putchar c
                          (vga_redraw_line (s\<lparr>ed_buf := buf[cursor := c], ed_idx := idx + 1, ed_cursor := cursor + 1\<rparr>))
                else s))"

lemma ring_next: "n AND (KEYBUF_SIZE - 1) = n mod 256"
proof -
  have "n AND (KEYBUF_SIZE - 1) = take_bit 8 n" by (simp add: KEYBUF_SIZE_def take_bit_eq_mask mask_eq_exp_minus_1)
  then show ?thesis by (simp add: take_bit_eq_mod)
qed

lemmas ring_next_Suc [simp] = ring_next [unfolded One_nat_def]

lemma ring_count:
  assumes "h < 256" "t < 256" "t \<noteq> h"
  shows "(h + 256 - (t + 1) mod 256) mod 256 + 1 = (h + 256 - t) mod (256 :: nat)"
proof (cases "t = 255")
  case True
  then show ?thesis using assms by simp
next
  case False
  then have "(h + 256 - (t + 1) mod 256) mod 256 = (h + 255 - t) mod 256" using assms(2) by (simp add: add.commute)
  moreover have "(h + 255 - t) mod 256 + 1 = (h + 256 - t) mod 256"
    using assms by (auto simp: mod_if)
  ultimately show ?thesis by simp
qed

text \<open>
  Taking the characters out of the ring until it is empty or the line is complete.  The two indices
  are always below the size of the ring.
\<close>

function readline_drain ::
  "tab_hook option \<Rightarrow> nat \<Rightarrow> kbd \<Rightarrow> editor \<Rightarrow> nat option \<times> kbd \<times> editor" where
  "readline_drain hook mx k s =
     (if keybuf_tail k \<noteq> keybuf_head k \<and> keybuf_tail k < KEYBUF_SIZE \<and> keybuf_head k < KEYBUF_SIZE
      then let c = keybuf k ! keybuf_tail k;
               k = k\<lparr>keybuf_tail := (keybuf_tail k + 1) AND (KEYBUF_SIZE - 1)\<rparr>
           in (case readline_key hook mx c s of
                 Inl (idx, s) \<Rightarrow> (Some idx, k, s)
               | Inr s \<Rightarrow> readline_drain hook mx k s)
      else (None, k, s))"
  by pat_completeness auto
termination
proof (relation "measure (\<lambda>(hook, mx, k, s). (keybuf_head k + 256 - keybuf_tail k) mod 256)", simp)
  fix hook mx c and k k' :: kbd and s s' :: editor
  assume "keybuf_tail k \<noteq> keybuf_head k \<and> keybuf_tail k < KEYBUF_SIZE \<and> keybuf_head k < KEYBUF_SIZE"
    and "k' = k\<lparr>keybuf_tail := (keybuf_tail k + 1) AND (KEYBUF_SIZE - 1)\<rparr>"
  then show "((hook, mx, k', s'), hook, mx, k, s)
      \<in> measure (\<lambda>(hook, mx, k, s). (keybuf_head k + 256 - keybuf_tail k) mod 256)"
    using ring_count [of "keybuf_head k" "keybuf_tail k"] unfolding ring_next by (simp add: KEYBUF_SIZE_def)
qed

declare readline_drain.simps [simp del]

text \<open>
  The outer loop.  Every round first moves what the serial port has received into the ring; then the
  processor is halted until interrupts have come.  The list gives for each round the serial bytes
  and the scan codes; \<open>None\<close> is a wait for a line that never comes.
\<close>

fun readline_loop ::
  "tab_hook option \<Rightarrow> nat \<Rightarrow> (bytes \<times> bytes) list \<Rightarrow> kbd \<Rightarrow> editor \<Rightarrow> (nat \<times> kbd \<times> editor) option" where
  "readline_loop hook mx [] k s = None"
| "readline_loop hook mx ((ser, irqs) # rounds) k s =
     (let k = fold keyboard_handler irqs (fold keybuf_put ser k) in
      case readline_drain hook mx k s of
        (Some idx, k, s) \<Rightarrow> Some (idx, k, s)
      | (None, k, s) \<Rightarrow> readline_loop hook mx rounds k s)"

definition keyboard_readline ::
  "tab_hook option \<Rightarrow> nat \<Rightarrow> (bytes \<times> bytes) list \<Rightarrow> kbd \<Rightarrow> editor \<Rightarrow> (nat \<times> kbd \<times> editor) option" where
  "keyboard_readline hook mx rounds k s =
     (let (row, col) = vga_get_cursor (ed_vga s)
      in readline_loop hook mx rounds k
           (s\<lparr>ed_browsing := None, ed_idx := 0, ed_cursor := 0, start_row := row, start_col := col\<rparr>))"

section \<open>A bounded queue\<close>

text \<open>
  What the readers of the ring rely on: a queue of at most \<open>cap\<close> elements that drops what does not
  fit.  The state may carry more than the queue.
\<close>

locale bounded_queue =
  fixes put :: "'a \<Rightarrow> 'q \<Rightarrow> 'q"
    and take :: "'q \<Rightarrow> 'a option \<times> 'q"
    and contents :: "'q \<Rightarrow> 'a list"
    and ok :: "'q \<Rightarrow> bool"
    and cap :: nat
  assumes put: "ok q \<Longrightarrow> ok (put x q) \<and> contents (put x q) = (if length (contents q) < cap then contents q @ [x] else contents q)"
    and take_empty: "ok q \<Longrightarrow> contents q = [] \<Longrightarrow> take q = (None, q)"
    and take_head: "ok q \<Longrightarrow> contents q = x # xs \<Longrightarrow> \<exists>r. take q = (Some x, r) \<and> ok r \<and> contents r = xs"
begin

lemma fold_put:
  assumes "ok q" and "length (contents q) + length xs \<le> cap"
  shows "ok (fold put xs q) \<and> contents (fold put xs q) = contents q @ xs"
  using assms
proof (induction xs arbitrary: q)
  case (Cons x xs)
  then show ?case using put [of q x] Cons.IH [of "put x q"] by simp
qed simp

lemma take_cases:
  assumes "ok q" and "take q = (r, q')"
  shows "ok q' \<and> (case r of None \<Rightarrow> contents q = [] \<and> q' = q | Some x \<Rightarrow> contents q = x # contents q')"
proof (cases "contents q")
  case Nil
  then show ?thesis using assms take_empty by simp
next
  case (Cons x xs)
  then show ?thesis using assms take_head by fastforce
qed

end

definition kb_ok :: "kbd \<Rightarrow> bool" where
  "kb_ok k \<longleftrightarrow> length (keybuf k) = 256 \<and> keybuf_head k < 256 \<and> keybuf_tail k < 256"

text \<open>The characters in the ring, the oldest first.\<close>

definition kb_list :: "kbd \<Rightarrow> bytes" where
  "kb_list k = map (\<lambda>i. keybuf k ! ((keybuf_tail k + i) mod 256)) [0..<(keybuf_head k + 256 - keybuf_tail k) mod 256]"

definition kb_take :: "kbd \<Rightarrow> u8 option \<times> kbd" where
  "kb_take k = (let (c, k) = keyboard_dequeue k in (if c < 0 then None else Some (word_of_int c), k))"

lemma length_kb_list: "length (kb_list k) = (keybuf_head k + 256 - keybuf_tail k) mod 256"
  by (simp add: kb_list_def)

lemma ring_full:
  assumes "h < 256" "t < 256"
  shows "(h + 1) mod 256 = t \<longleftrightarrow> (h + 256 - t) mod 256 = (255 :: nat)"
proof -
  consider "t \<le> h" | "h < t" by linarith
  then show ?thesis
  proof cases
    case 1
    then have "(h + 256 - t) mod 256 = h - t" using assms by (simp add: mod_if)
    then show ?thesis using 1 assms by (auto simp: mod_if)
  next
    case 2
    then have "(h + 256 - t) mod 256 = h + 256 - t" using assms by simp
    then show ?thesis using 2 assms by (auto simp: mod_if)
  qed
qed

lemma keybuf_put_spec:
  assumes "kb_ok k"
  shows "kb_ok (keybuf_put c k)"
    and "kb_list (keybuf_put c k) = (if length (kb_list k) < 255 then kb_list k @ [c] else kb_list k)"
proof -
  let ?h = "keybuf_head k" and ?t = "keybuf_tail k"
  have b: "?h < 256" "?t < 256" "length (keybuf k) = 256" using assms by (simp_all add: kb_ok_def)
  show "kb_ok (keybuf_put c k)" using assms by (simp add: keybuf_put_def kb_ok_def ring_next Let_def)
  show "kb_list (keybuf_put c k) = (if length (kb_list k) < 255 then kb_list k @ [c] else kb_list k)"
  proof (cases "(?h + 1) mod 256 = ?t")
    case True
    then show ?thesis using ring_full [OF b(1,2)] by (simp add: keybuf_put_def ring_next length_kb_list)
  next
    case False
    define n where "n = (?h + 256 - ?t) mod 256"
    have n: "n < 255" using False ring_full [OF b(1,2)] mod_less_divisor [of 256 "?h + 256 - ?t"] by (simp add: n_def)
    have h: "(?t + n) mod 256 = ?h" unfolding n_def using b by (simp add: mod_add_right_eq)
    have new: "((?h + 1) mod 256 + 256 - ?t) mod 256 = Suc n"
    proof (cases "?h = 255")
      case True
      then show ?thesis using b n False unfolding n_def by (auto simp: mod_if)
    next
      case False
      then show ?thesis using b n unfolding n_def by (auto simp: mod_if)
    qed
    have old: "(keybuf k)[?h := c] ! ((?t + i) mod 256) = keybuf k ! ((?t + i) mod 256)" if "i < n" for i
    proof -
      have "(?t + i) mod 256 \<noteq> ?h" using that n b h
        by (auto simp: mod_if split: if_splits)
      then show ?thesis by simp
    qed
    have "kb_list (keybuf_put c k) = map (\<lambda>i. (keybuf k)[?h := c] ! ((?t + i) mod 256)) [0..<Suc n]"
      using False new by (simp add: keybuf_put_def kb_list_def ring_next)
    also have "\<dots> = kb_list k @ [c]" using old h b(3,1) by (simp add: kb_list_def n_def [symmetric])
    finally show ?thesis using n by (simp add: length_kb_list n_def [symmetric])
  qed
qed

lemma kb_take_empty: "kb_ok k \<Longrightarrow> kb_list k = [] \<Longrightarrow> kb_take k = (None, k)"
proof -
  assume ok: "kb_ok k" and nil: "kb_list k = []"
  have "(keybuf_head k + 256 - keybuf_tail k) mod 256 = 0" using nil length_kb_list [of k] by simp
  then have "keybuf_tail k = keybuf_head k" using ok by (auto simp: kb_ok_def mod_if split: if_splits)
  then show "kb_take k = (None, k)" by (simp add: kb_take_def keyboard_dequeue_def)
qed

lemma kb_take_head:
  assumes "kb_ok k" and "kb_list k = c # cs"
  shows "\<exists>r. kb_take k = (Some c, r) \<and> kb_ok r \<and> kb_list r = cs"
proof -
  let ?h = "keybuf_head k" and ?t = "keybuf_tail k"
  define n where "n = (?h + 256 - ?t) mod 256"
  have b: "?h < 256" "?t < 256" using assms(1) by (simp_all add: kb_ok_def)
  have n0: "n \<noteq> 0" using assms(2) length_kb_list [of k] by (auto simp: n_def)
  have ne: "?t \<noteq> ?h" using n0 by (auto simp: n_def)
  define r where "r = k\<lparr>keybuf_tail := (?t + 1) mod 256\<rparr>"
  have len: "(?h + 256 - (?t + 1) mod 256) mod 256 = n - 1" using ring_count [OF b ne] unfolding n_def by linarith
  have list: "kb_list k = keybuf k ! ?t # map (\<lambda>i. keybuf k ! ((?t + i) mod 256)) [1..<n]"
    using n0 b by (simp add: kb_list_def n_def [symmetric] upt_conv_Cons)
  have "kb_list r = map (\<lambda>i. keybuf k ! ((?t + i) mod 256)) [1..<n]"
  proof (rule nth_equalityI)
    show "length (kb_list r) = length (map (\<lambda>i. keybuf k ! ((?t + i) mod 256)) [1..<n])"
      using len by (simp add: length_kb_list r_def)
    fix i assume "i < length (kb_list r)"
    then have i: "i < n - 1" using len by (simp add: length_kb_list r_def)
    have "((?t + 1) mod 256 + i) mod 256 = (?t + (1 + i)) mod 256" by (simp add: mod_add_left_eq)
    then show "kb_list r ! i = map (\<lambda>i. keybuf k ! ((?t + i) mod 256)) [1..<n] ! i"
      using i len by (simp add: kb_list_def r_def)
  qed
  moreover have "kb_take k = (Some (keybuf k ! ?t), r)"
    using ne by (simp add: kb_take_def keyboard_dequeue_def r_def)
  moreover have "kb_ok r" using assms(1) by (simp add: kb_ok_def r_def)
  ultimately show ?thesis using list assms(2) by auto
qed

interpretation kb: bounded_queue keybuf_put kb_take kb_list kb_ok 255
  by unfold_locales (simp_all add: keybuf_put_spec kb_take_empty kb_take_head)

section \<open>What is typed is what is read\<close>

text \<open>The reference decoder: the modifier keys and the character a scan code gives, if any.\<close>

definition decode :: "u8 \<Rightarrow> kbd \<Rightarrow> u8 option" where
  "decode sc s =
     (if sc \<in> {0x2A, 0x36, 0xAA, 0xB6, 0x1D, 0x9D, 0x3A, 0xE0} \<or> sc AND 0x80 \<noteq> 0 then None
      else let c = (if extended s then special_key sc else key_char sc s) in if c = 0 then None else Some c)"

definition modifiers :: "u8 \<Rightarrow> kbd \<Rightarrow> kbd" where
  "modifiers sc s =
     (if sc \<in> {0x2A, 0x36} then s\<lparr>shift_pressed := True\<rparr>
      else if sc \<in> {0xAA, 0xB6} then s\<lparr>shift_pressed := False\<rparr>
      else if sc \<in> {0x1D, 0x9D} then s\<lparr>ctrl_pressed := sc = 0x1D\<rparr>
      else if sc = 0x3A then s\<lparr>caps_locked := \<not> caps_locked s\<rparr>
      else s\<lparr>extended := sc = 0xE0\<rparr>)"

definition put_opt :: "u8 option \<Rightarrow> kbd \<Rightarrow> kbd" where
  "put_opt x s = (case x of None \<Rightarrow> s | Some c \<Rightarrow> keybuf_put c s)"

lemma keyboard_handler_eq: "keyboard_handler sc s = put_opt (decode sc s) (modifiers sc s)"
proof (cases "sc \<in> {0x2A, 0x36, 0xAA, 0xB6, 0x1D, 0x9D, 0x3A, 0xE0}")
  case True
  then show ?thesis by (auto simp: keyboard_handler_def decode_def modifiers_def put_opt_def)
next
  case False
  then have m: "modifiers sc s = s\<lparr>extended := False\<rparr>" by (simp add: modifiers_def)
  show ?thesis
  proof (cases "extended s")
    case True
    then show ?thesis using False m by (auto simp: keyboard_handler_def decode_def put_opt_def Let_def)
  next
    case nx: False
    then have "s\<lparr>extended := False\<rparr> = s" by (cases s) simp
    then have "modifiers sc s = s" using m by simp
    then show ?thesis using False nx by (auto simp: keyboard_handler_def decode_def put_opt_def Let_def)
  qed
qed

text \<open>
  The two sides of the ring: \<open>Some sc\<close> is an interrupt with a scan code, \<open>None\<close> a reader that calls
  \<^verbatim>\<open>keyboard_dequeue\<close>.  The result is what the reader has received.
\<close>

fun kb_run :: "u8 option list \<Rightarrow> kbd \<Rightarrow> bytes \<times> kbd" where
  "kb_run [] s = ([], s)"
| "kb_run (Some sc # es) s = kb_run es (keyboard_handler sc s)"
| "kb_run (None # es) s =
     (let (c, s) = keyboard_dequeue s; (cs, s) = kb_run es s in (if c < 0 then cs else word_of_int c # cs, s))"

text \<open>The characters typed, by the reference decoder alone.\<close>

fun typed :: "u8 list \<Rightarrow> kbd \<Rightarrow> bytes" where
  "typed [] s = []"
| "typed (sc # scs) s =
     (case decode sc s of None \<Rightarrow> typed scs (modifiers sc s) | Some c \<Rightarrow> c # typed scs (modifiers sc s))"

definition mods :: "kbd \<Rightarrow> bool \<times> bool \<times> bool \<times> bool" where
  "mods s = (shift_pressed s, ctrl_pressed s, caps_locked s, extended s)"

lemma mods_cong:
  assumes "mods s = mods t"
  shows "decode sc s = decode sc t" "mods (modifiers sc s) = mods (modifiers sc t)"
proof -
  have f: "shift_pressed s = shift_pressed t" "ctrl_pressed s = ctrl_pressed t" "caps_locked s = caps_locked t"
    "extended s = extended t" using assms by (simp_all add: mods_def)
  have "key_char sc s = key_char sc t" by (simp only: key_char_def f)
  then show "decode sc s = decode sc t" by (simp only: decode_def f)
  show "mods (modifiers sc s) = mods (modifiers sc t)" by (simp add: mods_def modifiers_def f)
qed

lemma typed_cong: "mods s = mods t \<Longrightarrow> typed scs s = typed scs t"
proof (induction scs arbitrary: s t)
  case (Cons sc scs)
  note c = mods_cong [OF Cons.prems, of sc]
  show ?case using Cons.IH [OF c(2)] c(1) by (simp split: option.split)
qed simp

lemma keybuf_put_mods [simp]: "mods (keybuf_put c s) = mods s"
  by (simp add: mods_def keybuf_put_def Let_def)

lemma put_opt_mods [simp]: "mods (put_opt x s) = mods s"
  by (simp add: put_opt_def split: option.split)

lemma dequeue_mods [simp]: "mods (snd (keyboard_dequeue s)) = mods s"
  by (simp add: mods_def keyboard_dequeue_def)

lemma modifiers_ring [simp]: "kb_ok (modifiers sc s) = kb_ok s" "kb_list (modifiers sc s) = kb_list s"
  by (simp_all add: modifiers_def kb_ok_def kb_list_def)

definition codes :: "u8 option list \<Rightarrow> u8 list" where
  "codes es = concat (map (case_option [] (\<lambda>x. [x])) es)"

lemma codes_simps [simp]: "codes [] = []" "codes (Some x # es) = x # codes es" "codes (None # es) = codes es"
  by (simp_all add: codes_def)

text \<open>
  The interrupt handler and the readers share the ring as a first-in first-out
  queue.  In every interleaving of interrupts and reads in which at most 255 characters are pending or
  typed, the characters the readers receive, followed by those still in the ring, are those that were
  in the ring followed by the characters typed, decoded with the state of the modifier keys: none is
  lost, repeated or reordered.
\<close>

lemma keyboard_fifo:
  assumes "kb_ok s" and "length (kb_list s) + length (typed (codes es) s) \<le> 255" and "kb_run es s = (cs, t)"
  shows "kb_ok t \<and> cs @ kb_list t = kb_list s @ typed (codes es) s"
  using assms
proof (induction es arbitrary: s cs)
  case (Cons e es)
  show ?case
  proof (cases e)
    case (Some sc)
    let ?s = "put_opt (decode sc s) (modifiers sc s)"
    have tc: "typed (codes es) ?s = typed (codes es) (modifiers sc s)" by (rule typed_cong) simp
    have "kb_ok ?s" and "kb_list ?s @ typed (codes es) ?s = kb_list s @ typed (sc # codes es) s"
      using Cons.prems(1,2) Some kb.put [of "modifiers sc s"] tc
      by (auto simp: put_opt_def split: option.splits)
    moreover have "length (kb_list ?s) + length (typed (codes es) ?s) \<le> 255"
      using calculation(2) Cons.prems(2) Some by (metis codes_simps(2) length_append)
    ultimately show ?thesis using Cons.IH [of ?s cs] Cons.prems(3) Some by (simp add: keyboard_handler_eq)
  next
    case None
    obtain c u where u: "keyboard_dequeue s = (c, u)" by (cases "keyboard_dequeue s")
    then have kt: "kb_take s = (if c < 0 then None else Some (word_of_int c), u)" by (simp add: kb_take_def)
    have tc: "typed (codes es) u = typed (codes es) s"
      using typed_cong dequeue_mods [of s] by (metis u snd_conv)
    obtain ds where ds: "kb_run es u = (ds, t)" "cs = (if c < 0 then ds else word_of_int c # ds)"
      using Cons.prems(3) None u by (auto split: prod.splits)
    have kc: "kb_ok u \<and> (if c < 0 then kb_list s = [] \<and> u = s else kb_list s = word_of_int c # kb_list u)"
      using kb.take_cases [OF Cons.prems(1) kt] by (auto split: if_splits)
    show ?thesis using Cons.IH [of u ds] Cons.prems ds None kc tc by (auto split: if_splits)
  qed
qed simp

definition kbd_boot :: kbd where
  "kbd_boot = keyboard_init \<lparr>shift_pressed = False, ctrl_pressed = False, caps_locked = False, extended = False,
     keybuf = replicate 256 0, keybuf_head = 0, keybuf_tail = 0\<rparr>"

text \<open>Shift with the space bar or Enter, and the tab key, give no character at all.\<close>

lemma shift_space_ignored:
  "decode 0x39 (s\<lparr>shift_pressed := True, extended := False\<rparr>) = None"
  "decode 0x1C (s\<lparr>shift_pressed := True, extended := False\<rparr>) = None"
  "decode 0x0F (s\<lparr>extended := False\<rparr>) = None"
  by (simp_all add: decode_def key_char_def caps_key_def keymap_def keymap_shift_def key_table_def Let_def)

section \<open>Line editing\<close>

lemma shift_left_nth:
  "d + n < length b \<Longrightarrow> j < length b \<Longrightarrow>
     fold (\<lambda>i b. b[d + i := b ! (d + 1 + i)]) [0..<n] b ! j = (if d \<le> j \<and> j < d + n then b ! (j + 1) else b ! j)
     \<and> length (fold (\<lambda>i b. b[d + i := b ! (d + 1 + i)]) [0..<n] b) = length b"
proof (induction n arbitrary: j)
  case (Suc n)
  let ?f = "fold (\<lambda>i b. b[d + i := b ! (d + 1 + i)]) [0..<n] b"
  have "?f ! (d + 1 + n) = b ! (d + 1 + n)" "length ?f = length b"
    using Suc.IH [of "d + 1 + n"] Suc.prems by simp_all
  then show ?case using Suc.IH [of j] Suc.prems by (auto simp: nth_list_update)
qed auto

lemma shift_right_nth:
  "c \<le> n \<Longrightarrow> n < length b \<Longrightarrow> j < length b \<Longrightarrow>
     fold (\<lambda>i b. b[i := b ! (i - 1)]) (rev [c + 1..<n + 1]) b ! j = (if c < j \<and> j \<le> n then b ! (j - 1) else b ! j)
     \<and> length (fold (\<lambda>i b. b[i := b ! (i - 1)]) (rev [c + 1..<n + 1]) b) = length b"
proof (induction n arbitrary: b)
  case (Suc n)
  show ?case
  proof (cases "c \<le> n")
    case True
    then have "rev [c + 1..<Suc n + 1] = Suc n # rev [c + 1..<n + 1]" by simp
    then show ?thesis using Suc.IH [of "b[Suc n := b ! n]"] Suc.prems True by (auto simp: nth_list_update)
  next
    case False
    then have "c = Suc n" using Suc.prems by simp
    then show ?thesis by auto
  qed
qed simp

text \<open>
  A buffer \<open>b\<close> with a line of length \<open>i\<close> and the cursor at \<open>c\<close>, and the line as the text before the
  cursor and the text behind it.
\<close>

definition line_ok :: "nat \<Rightarrow> bytes \<Rightarrow> nat \<Rightarrow> nat \<Rightarrow> bool" where
  "line_ok mx b i c \<longleftrightarrow> length b = mx \<and> c \<le> i \<and> i < mx"

definition line_at :: "bytes \<Rightarrow> nat \<Rightarrow> nat \<Rightarrow> bytes \<times> bytes" where
  "line_at b i c = (take c b, take (i - c) (drop c b))"

definition ed_ok :: "nat \<Rightarrow> editor \<Rightarrow> bool" where
  "ed_ok mx s \<longleftrightarrow> line_ok mx (ed_buf s) (ed_idx s) (ed_cursor s)"

definition ed_line :: "editor \<Rightarrow> bytes \<times> bytes" where
  "ed_line s = line_at (ed_buf s) (ed_idx s) (ed_cursor s)"

text \<open>The reference editor.\<close>

definition edit :: "nat \<Rightarrow> u8 \<Rightarrow> bytes \<times> bytes \<Rightarrow> bytes \<times> bytes" where
  "edit mx c z =
     (case z of (l, r) \<Rightarrow>
        if c = 0x08 then (butlast l, r)
        else if c = KEY_DEL then (l, tl r)
        else if c = 0x15 then ([], [])
        else if c = KEY_LEFT then (if l = [] then (l, r) else (butlast l, last l # r))
        else if c = KEY_RIGHT then (if r = [] then (l, r) else (l @ [hd r], tl r))
        else if c = KEY_HOME then ([], l @ r)
        else if c = KEY_END then (l @ r, [])
        else if length l + length r < mx - 1 then (l @ [c], r) else (l, r))"

lemma redraw_frame [simp]:
  "ed_buf (vga_redraw_line s) = ed_buf s" "ed_idx (vga_redraw_line s) = ed_idx s"
  "ed_cursor (vga_redraw_line s) = ed_cursor s" "ed_history (vga_redraw_line s) = ed_history s"
  "ed_browsing (vga_redraw_line s) = ed_browsing s" "ed_saved (vga_redraw_line s) = ed_saved s"
  by (simp_all add: vga_redraw_line_def Let_def split: prod.split)

lemma fold_putchar: "fold serial_putchar cs s = s\<lparr>ed_serial := ed_serial s @ cs\<rparr>"
  by (induction cs arbitrary: s) (simp_all add: serial_putchar_def)

lemma serial_frame [simp]:
  "ed_buf (serial_write cs s) = ed_buf s" "ed_idx (serial_write cs s) = ed_idx s"
  "ed_cursor (serial_write cs s) = ed_cursor s" "ed_history (serial_write cs s) = ed_history s"
  "ed_buf (serial_putchar c s) = ed_buf s" "ed_idx (serial_putchar c s) = ed_idx s"
  "ed_cursor (serial_putchar c s) = ed_cursor s" "ed_history (serial_putchar c s) = ed_history s"
  by (simp_all add: serial_write_def fold_putchar serial_putchar_def)

lemma move_frame [simp]:
  "ed_buf (move_cursor c s) = ed_buf s" "ed_idx (move_cursor c s) = ed_idx s" "ed_cursor (move_cursor c s) = c"
  by (simp_all add: move_cursor_def split: prod.split)

lemma shift_left_eq:
  assumes "d + n < length b"
  shows "fold (\<lambda>i b. b[d + i := b ! (d + 1 + i)]) [0..<n] b = take d b @ take n (drop (d + 1) b) @ drop (d + n) b"
    (is "?f = ?g")
proof (rule nth_equalityI)
  have len: "length ?f = length b" by (rule conjunct2 [OF shift_left_nth [OF assms, of 0]]) (use assms in linarith)
  have n: "n \<le> length b - (d + 1)" using assms by simp
  then show "length ?f = length ?g" using len assms by simp
  fix j assume "j < length ?f"
  then have j: "j < length b" using len by simp
  have "?g ! j = (if d \<le> j \<and> j < d + n then b ! (j + 1) else b ! j)"
    using n j assms by (auto simp: nth_append min_absorb1 min_absorb2 add.commute)
  then show "?f ! j = ?g ! j" using shift_left_nth [OF assms j] by simp
qed

lemma shift_right_eq:
  assumes "c \<le> n" "n < length b"
  shows "(fold (\<lambda>i b. b[i := b ! (i - 1)]) (rev [c + 1..<n + 1]) b)[c := x] =
    take c b @ x # take (n - c) (drop c b) @ drop (n + 1) b" (is "?f[c := x] = ?g")
proof (rule nth_equalityI)
  have len: "length ?f = length b" by (rule conjunct2 [OF shift_right_nth [OF assms, of 0]]) (use assms in linarith)
  have n: "n - c \<le> length b - c" using assms by simp
  then show "length (?f[c := x]) = length ?g" using len assms by simp
  fix j assume "j < length (?f[c := x])"
  then have j: "j < length b" using len by simp
  have "?g ! j = (if j = c then x else if c < j \<and> j \<le> n then b ! (j - 1) else b ! j)"
    using n j assms by (auto simp: nth_append nth_Cons' min_absorb1 min_absorb2)
  then show "?f[c := x] ! j = ?g ! j" using shift_right_nth [OF assms j] j len by (simp add: nth_list_update)
qed

lemma edit_backspace:
  assumes "line_ok mx b i c" "0 < c"
  defines "b' \<equiv> fold (\<lambda>i b. b[c - 1 + i := b ! (c + i)]) [0..<i - c] b"
  shows "line_ok mx b' (i - 1) (c - 1)" and "line_at b' (i - 1) (c - 1) = (butlast (take c b), take (i - c) (drop c b))"
proof -
  obtain d where c: "c = d + 1" using assms(2) by (metis Suc_eq_plus1 gr0_implies_Suc)
  have l: "d + (i - c) < length b" using assms(1) c unfolding line_ok_def by linarith
  have eq: "b' = take d b @ take (i - c) (drop (d + 1) b) @ drop (d + (i - c)) b"
    unfolding b'_def using shift_left_eq [OF l] by (simp add: c)
  show "line_ok mx b' (i - 1) (c - 1)" using assms(1) l c unfolding eq line_ok_def by (auto intro: less_imp_diff_less)
  show "line_at b' (i - 1) (c - 1) = (butlast (take c b), take (i - c) (drop c b))"
    using assms(1) l unfolding eq by (simp add: line_ok_def line_at_def c butlast_take min_absorb1 min_absorb2)
qed

lemma edit_delete:
  assumes "line_ok mx b i c" "c < i"
  defines "b' \<equiv> fold (\<lambda>i b. b[c + i := b ! (c + 1 + i)]) [0..<i - c - 1] b"
  shows "line_ok mx b' (i - 1) c" and "line_at b' (i - 1) c = (take c b, tl (take (i - c) (drop c b)))"
proof -
  have l: "c + (i - c - 1) < length b" using assms(1,2) unfolding line_ok_def by linarith
  have eq: "b' = take c b @ take (i - c - 1) (drop (c + 1) b) @ drop (c + (i - c - 1)) b"
    unfolding b'_def by (rule shift_left_eq [OF l])
  show "line_ok mx b' (i - 1) c" using assms(1,2) l unfolding eq line_ok_def by (auto intro: less_imp_diff_less)
  show "line_at b' (i - 1) c = (take c b, tl (take (i - c) (drop c b)))"
    using assms(1,2) l unfolding eq by (auto simp: line_ok_def line_at_def min_absorb1 min_absorb2 tl_take tl_drop drop_Suc)
qed

lemma edit_insert:
  assumes "line_ok mx b i c" "i < mx - 1"
  shows "line_ok mx ((fold (\<lambda>i b. b[i := b ! (i - 1)]) (rev [c + 1..<i + 1]) b)[c := x]) (i + 1) (c + 1)"
    and "line_at ((fold (\<lambda>i b. b[i := b ! (i - 1)]) (rev [c + 1..<i + 1]) b)[c := x]) (i + 1) (c + 1) =
      (take c b @ [x], take (i - c) (drop c b))"
proof -
  have l: "c \<le> i" "i < length b" using assms(1,2) by (simp_all add: line_ok_def)
  show "line_ok mx ((fold (\<lambda>i b. b[i := b ! (i - 1)]) (rev [c + 1..<i + 1]) b)[c := x]) (i + 1) (c + 1)"
    unfolding shift_right_eq [OF l] using assms l by (auto simp: line_ok_def)
  show "line_at ((fold (\<lambda>i b. b[i := b ! (i - 1)]) (rev [c + 1..<i + 1]) b)[c := x]) (i + 1) (c + 1) =
      (take c b @ [x], take (i - c) (drop c b))"
    unfolding shift_right_eq [OF l] using assms l by (simp add: line_at_def min_absorb1 min_absorb2)
qed

lemma edit_left:
  assumes "line_ok mx b i c" "0 < c"
  shows "line_at b i (c - 1) = (butlast (take c b), last (take c b) # take (i - c) (drop c b))"
proof -
  obtain d where d: "c = Suc d" using assms(2) by (cases c) auto
  have l: "d < length b" using assms(1) d by (simp add: line_ok_def)
  have "take (Suc d) b = take d b @ [b ! d]" by (rule take_Suc_conv_app_nth [OF l])
  moreover have "drop d b = b ! d # drop (Suc d) b" by (rule Cons_nth_drop_Suc [OF l, symmetric])
  moreover have "i - d = Suc (i - Suc d)" using assms(1) d unfolding line_ok_def by (intro Suc_diff_Suc [symmetric]) simp
  ultimately show ?thesis using d by (simp add: line_at_def)
qed

lemma edit_right:
  assumes "line_ok mx b i c" "c < i"
  shows "line_at b i (c + 1) = (take c b @ [hd (take (i - c) (drop c b))], tl (take (i - c) (drop c b)))"
proof -
  have l: "c < length b" using assms by (simp add: line_ok_def)
  have dr: "drop c b = b ! c # drop (Suc c) b" by (rule Cons_nth_drop_Suc [OF l, symmetric])
  have "i - c = Suc (i - Suc c)" using assms(2) by simp
  then show ?thesis using l dr by (simp add: line_at_def take_Suc_conv_app_nth)
qed

text \<open>
  Every editing key does to the line what it does to the pair of the text before and
  behind the cursor: characters are inserted at the cursor as long as the buffer has room for them and
  the NUL, backspace and delete remove the character before or behind it, \<^verbatim>\<open>^U\<close> empties the line, and the
  arrows, Home and End move.  The cursor never leaves the line nor the line the buffer.
\<close>

lemma readline_key_step:
  assumes "ed_ok mx s" and "c \<notin> {0x0A, 0x09, KEY_UP, KEY_DOWN}"
  shows "\<exists>t. readline_key hook mx c s = Inr t \<and> ed_ok mx t \<and> ed_line t = edit mx c (ed_line s)"
proof -
  define b i k where "b = ed_buf s" and "i = ed_idx s" and "k = ed_cursor s"
  note defs = b_def [symmetric] i_def [symmetric] k_def [symmetric]
  have ok: "line_ok mx b i k" using assms(1) by (simp add: ed_ok_def defs)
  have l: "ed_line s = (take k b, take (i - k) (drop k b))" by (simp add: ed_line_def line_at_def defs)
  have len: "k \<le> i" "i < length b" "length b = mx" using ok by (simp_all add: line_ok_def)
  note S = readline_key_def Let_def ed_ok_def ed_line_def edit_def l defs
  have nk: "c \<noteq> 0x0A" "c \<noteq> 0x09" "c \<noteq> KEY_UP" "c \<noteq> KEY_DOWN" using assms(2) by auto
  consider "c = 0x08" | "c = KEY_DEL" | "c = 0x15" | "c = KEY_LEFT" | "c = KEY_RIGHT" | "c = KEY_HOME" | "c = KEY_END"
    | "c \<notin> {0x08, KEY_DEL, 0x15, KEY_LEFT, KEY_RIGHT, KEY_HOME, KEY_END}" by blast
  then show ?thesis
  proof cases
    case 1
    then show ?thesis using edit_backspace [OF ok] ok len by (cases "0 < k") (simp_all add: S line_at_def)
  next
    case 2
    then show ?thesis using edit_delete [OF ok] ok len by (cases "k < i") (simp_all add: S line_at_def key_codes)
  next
    case 3
    then show ?thesis using ok len by (cases "0 < i") (simp_all add: S line_at_def line_ok_def key_codes)
  next
    case 4
    then show ?thesis using edit_left [OF ok] ok len by (cases "0 < k") (auto simp: S line_ok_def line_at_def key_codes)
  next
    case 5
    then show ?thesis using edit_right [OF ok] ok len by (cases "k < i") (auto simp: S line_ok_def line_at_def key_codes)
  next
    case 6
    then show ?thesis using ok len by (simp add: S line_at_def line_ok_def key_codes take_add [symmetric])
  next
    case 7
    then show ?thesis using ok len by (simp add: S line_at_def line_ok_def key_codes take_add [symmetric])
  next
    case 8
    then show ?thesis using edit_insert [OF ok] ok len nk
      by (cases "i < mx - 1") (auto simp: S line_at_def)
  qed
qed

definition ed_boot :: editor where
  "ed_boot = \<lparr>ed_buf = replicate 8 0, ed_idx = 0, ed_cursor = 0, ed_browsing = None, ed_saved = (\<lambda>_. 0), ed_history = [],
     ed_vga = \<lparr>vbuf = (\<lambda>_. 0), vga_row = 0, vga_col = 0, crt_pos = 0, vga_default_color = 7\<rparr>, ed_serial = [],
     start_row = 0, start_col = 0, keyboard_color = 7\<rparr>"

text \<open>Up and down show an entry of the history, cut to the buffer, with the cursor behind it.\<close>

lemma copy_line_spec:
  assumes "idx + n < length b" and "copy_line h n idx b = (i, b')"
  shows "length b' = length b \<and> idx \<le> i \<and> i \<le> idx + n \<and> take idx b' = take idx b \<and>
    (\<forall>j. idx \<le> j \<longrightarrow> j < i \<longrightarrow> b' ! j = h j \<and> h j \<noteq> 0) \<and> (i < idx + n \<longrightarrow> h i = 0)"
  using assms
proof (induction n arbitrary: idx b)
  case (Suc n)
  show ?case
  proof (cases "h idx = 0")
    case True
    then show ?thesis using Suc.prems by auto
  next
    case False
    let ?b = "b[idx := h idx]"
    have IH: "length b' = length ?b \<and> Suc idx \<le> i \<and> i \<le> Suc idx + n \<and> take (Suc idx) b' = take (Suc idx) ?b \<and>
        (\<forall>j. Suc idx \<le> j \<longrightarrow> j < i \<longrightarrow> b' ! j = h j \<and> h j \<noteq> 0) \<and> (i < Suc idx + n \<longrightarrow> h i = 0)"
      using Suc.prems False by (intro Suc.IH) simp_all
    have "b' ! idx = take (Suc idx) b' ! idx" by simp
    also have "\<dots> = h idx" using IH Suc.prems(1) by simp
    finally have "b' ! idx = h idx" .
    moreover have "take idx b' = take idx b"
      using arg_cong [OF conjunct1 [OF conjunct2 [OF conjunct2 [OF conjunct2 [OF IH]]]], of "take idx"] by (simp add: min_def)
    ultimately show ?thesis using IH False by (auto simp: le_less_Suc_eq Suc_le_eq nat_less_le)
  qed
qed auto

lemma serial_echo_frame [simp]:
  "ed_buf (serial_echo_line b n s) = ed_buf s" "ed_idx (serial_echo_line b n s) = ed_idx s"
  "ed_cursor (serial_echo_line b n s) = ed_cursor s" "ed_history (serial_echo_line b n s) = ed_history s"
proof -
  have "fold (\<lambda>i. serial_putchar (b ! i)) is s = s\<lparr>ed_serial := ed_serial s @ map ((!) b) is\<rparr>" for "is"
    by (induction "is" arbitrary: s) (simp_all add: serial_putchar_def)
  then show "ed_buf (serial_echo_line b n s) = ed_buf s" "ed_idx (serial_echo_line b n s) = ed_idx s"
    "ed_cursor (serial_echo_line b n s) = ed_cursor s" "ed_history (serial_echo_line b n s) = ed_history s"
    by (simp_all add: serial_echo_line_def)
qed

lemma show_line_ok:
  assumes "length (ed_buf s) = mx" "0 < mx"
  shows "ed_ok mx (show_line mx h s)"
proof -
  obtain i b where ib: "copy_line h (mx - 1) 0 (ed_buf s) = (i, b)" by (cases "copy_line h (mx - 1) 0 (ed_buf s)")
  have "length b = mx \<and> i \<le> mx - 1" using copy_line_spec [OF _ ib] assms by auto
  then have "length b = mx" "i < mx" using assms(2) by linarith+
  then show ?thesis unfolding show_line_def ib by (simp add: ed_ok_def line_ok_def Let_def)
qed

text \<open>
  The bounds hold for every key, provided the completion function keeps its buffer and cursor in
  bounds.
\<close>

definition hook_ok :: "tab_hook option \<Rightarrow> bool" where
  "hook_ok hook \<longleftrightarrow> (\<forall>f b c i m r b' c'. hook = Some f \<longrightarrow> line_ok m b i c \<longrightarrow> f b c i m = (r, b', c') \<longrightarrow>
     length b' = m \<and> (if 0 < r then c' < m else c' \<le> i))"

lemma readline_key_ok:
  assumes "ed_ok mx s" "hook_ok hook" "readline_key hook mx c s = Inr t"
  shows "ed_ok mx t"
proof (cases "c \<in> {0x0A, 0x09, KEY_UP, KEY_DOWN}")
  case False
  then show ?thesis using readline_key_step [OF assms(1), of c hook] assms(3) by auto
next
  case True
  have l: "length (ed_buf s) = mx" "0 < mx" "line_ok mx (ed_buf s) (ed_idx s) (ed_cursor s)"
    using assms(1) by (auto simp: ed_ok_def line_ok_def)
  consider "c = 0x0A" | "c = 0x09" | "c = KEY_UP" | "c = KEY_DOWN" using True by blast
  then show ?thesis
  proof cases
    case 1
    then show ?thesis using assms(3) by (simp add: readline_key_def Let_def)
  next
    case 2
    show ?thesis
    proof (cases hook)
      case None
      then show ?thesis using 2 assms(1,3) by (simp add: readline_key_def Let_def key_codes)
    next
      case (Some f)
      obtain r b' c' where f: "f (ed_buf s) (ed_cursor s) (ed_idx s) mx = (r, b', c')" by (cases "f (ed_buf s) (ed_cursor s) (ed_idx s) mx")
      then have "length b' = mx \<and> (if 0 < r then c' < mx else c' \<le> ed_idx s)"
        using assms(2) Some l(3) unfolding hook_ok_def by blast
      then show ?thesis using 2 Some f assms(3) l(3)
        by (auto simp: readline_key_def Let_def key_codes ed_ok_def line_ok_def split: if_splits)
    qed
  next
    case 3
    then show ?thesis using assms(1,3) show_line_ok l
      by (auto simp: readline_key_def Let_def key_codes split: if_splits option.splits nat.splits)
  next
    case 4
    then show ?thesis using assms(1,3) show_line_ok l
      by (auto simp: readline_key_def Let_def key_codes split: if_splits option.splits)
  qed
qed

section \<open>A line is read as it was sent\<close>

fun readline_keys :: "tab_hook option \<Rightarrow> nat \<Rightarrow> bytes \<Rightarrow> editor \<Rightarrow> nat option \<times> editor" where
  "readline_keys hook mx [] s = (None, s)"
| "readline_keys hook mx (c # cs) s =
     (case readline_key hook mx c s of Inl (idx, s) \<Rightarrow> (Some idx, s) | Inr s \<Rightarrow> readline_keys hook mx cs s)"

lemma readline_drain_keys:
  assumes "kb_ok k" and "kb_list k = cs"
  shows "\<exists>k'. readline_drain hook mx k s = (fst (readline_keys hook mx cs s), k', snd (readline_keys hook mx cs s)) \<and>
    (fst (readline_keys hook mx cs s) = None \<longrightarrow> kb_ok k' \<and> kb_list k' = [] \<and> mods k' = mods k)"
  using assms
proof (induction cs arbitrary: k s)
  case Nil
  have "keybuf_tail k = keybuf_head k"
    using kb_take_empty [OF Nil] by (auto simp: kb_take_def keyboard_dequeue_def split: if_splits)
  then show ?case using Nil by (subst readline_drain.simps) simp
next
  case (Cons c cs)
  obtain r where r: "kb_take k = (Some c, r)" "kb_ok r" "kb_list r = cs"
    using kb.take_head [OF Cons.prems] by blast
  have ne: "keybuf_tail k \<noteq> keybuf_head k" and c: "keybuf k ! keybuf_tail k = c"
    and k': "k\<lparr>keybuf_tail := (keybuf_tail k + 1) AND (KEYBUF_SIZE - 1)\<rparr> = r"
    using r(1) by (auto simp: kb_take_def keyboard_dequeue_def split: if_splits)
  have m: "mods r = mods k" using k' by (auto simp: mods_def)
  have b: "keybuf_tail k < KEYBUF_SIZE" "keybuf_head k < KEYBUF_SIZE"
    using Cons.prems(1) by (simp_all add: kb_ok_def KEYBUF_SIZE_def)
  have "readline_drain hook mx k s = (case readline_key hook mx c s of
      Inl (idx, s) \<Rightarrow> (Some idx, r, s) | Inr s \<Rightarrow> readline_drain hook mx r s)"
    using ne b by (subst readline_drain.simps) (simp only: Let_def c k' simp_thms if_True)
  then show ?case using Cons.IH [OF r(2,3)] m by (auto split: sum.split)
qed

text \<open>The characters that arrive in each round, on the serial port and then from the keyboard.\<close>

fun arrivals :: "(bytes \<times> bytes) list \<Rightarrow> kbd \<Rightarrow> bytes list" where
  "arrivals [] k = []"
| "arrivals ((ser, irqs) # rounds) k = (ser @ typed irqs k) # arrivals rounds (fold modifiers irqs k)"

lemma fold_modifiers_cong: "mods s = mods t \<Longrightarrow> mods (fold modifiers irqs s) = mods (fold modifiers irqs t)"
proof (induction irqs arbitrary: s t)
  case (Cons sc irqs)
  show ?case using Cons.IH [OF mods_cong(2) [OF Cons.prems, of sc]] by simp
qed simp

lemma arrivals_cong: "mods s = mods t \<Longrightarrow> arrivals rounds s = arrivals rounds t"
proof (induction rounds arbitrary: s t)
  case (Cons r rounds)
  obtain ser irqs where "r = (ser, irqs)" by (cases r)
  then show ?case
    by (simp only: arrivals.simps Cons.IH [OF fold_modifiers_cong [OF Cons.prems]] typed_cong [OF Cons.prems])
qed simp

lemma fold_handler_mods: "mods (fold keyboard_handler irqs s) = mods (fold modifiers irqs s)"
proof (induction irqs arbitrary: s)
  case (Cons sc irqs)
  have "mods (fold modifiers irqs (put_opt (decode sc s) (modifiers sc s))) = mods (fold modifiers irqs (modifiers sc s))"
    by (rule fold_modifiers_cong) simp
  then show ?case using Cons.IH [of "keyboard_handler sc s"] by (simp add: keyboard_handler_eq)
qed simp

lemma round_fills:
  assumes "kb_ok k" and "kb_list k = []" and "length (ser @ typed irqs k) \<le> 255"
    and "k1 = fold keyboard_handler irqs (fold keybuf_put ser k)"
  shows "kb_ok k1" "kb_list k1 = ser @ typed irqs k" "mods k1 = mods (fold modifiers irqs k)"
proof -
  let ?k = "fold keybuf_put ser k"
  have f: "kb_ok ?k" "kb_list ?k = ser" using kb.fold_put [of k ser] assms by simp_all
  have m: "mods (fold keybuf_put ser s) = mods s" for s by (induction ser arbitrary: s) simp_all
  have "kb_run (map Some irqs) s = ([], fold keyboard_handler irqs s)" for s by (induction irqs arbitrary: s) simp_all
  moreover have "codes (map Some irqs) = irqs" by (induction irqs) simp_all
  ultimately have "kb_ok k1 \<and> [] @ kb_list k1 = kb_list ?k @ typed irqs ?k"
    using keyboard_fifo [OF f(1), of "map Some irqs"] assms(3,4) f(2) typed_cong [OF m] by simp
  then show "kb_ok k1" "kb_list k1 = ser @ typed irqs k" using f(2) typed_cong [OF m] by simp_all
  show "mods k1 = mods (fold modifiers irqs k)"
    unfolding assms(4) using fold_handler_mods [of irqs ?k] fold_modifiers_cong [OF m] by simp
qed

definition plain :: "u8 \<Rightarrow> bool" where
  "plain c \<longleftrightarrow> 0x20 \<le> c \<and> c < 0x7F"

lemma plain_step:
  assumes "plain c" "ed_ok mx s" "ed_line s = (l, [])" "length l < mx - 1"
  shows "\<exists>t. readline_key hook mx c s = Inr t \<and> ed_ok mx t \<and> ed_line t = (l @ [c], [])"
proof -
  have "c \<notin> {0x0A, 0x09, 0x08, 0x15, KEY_UP, KEY_DOWN, KEY_LEFT, KEY_RIGHT, KEY_HOME, KEY_END, KEY_DEL}"
    using assms(1) by (auto simp: plain_def key_codes)
  then show ?thesis using readline_key_step [OF assms(2), of c hook] assms(3,4) by (auto simp: edit_def)
qed

lemma plain_keys:
  assumes "\<forall>c \<in> set cs. plain c" "ed_ok mx s" "ed_line s = (l, [])" "length l + length cs < mx"
  shows "\<exists>t. readline_keys hook mx (cs @ ds) s = readline_keys hook mx ds t \<and> ed_ok mx t \<and> ed_line t = (l @ cs, [])"
  using assms
proof (induction cs arbitrary: s l)
  case (Cons c cs)
  obtain t where t: "readline_key hook mx c s = Inr t" "ed_ok mx t" "ed_line t = (l @ [c], [])"
    using plain_step [of c mx s l hook, OF _ Cons.prems(2,3)] Cons.prems(1,4) by force
  then show ?case using Cons.IH [of t "l @ [c]"] Cons.prems by auto
qed auto

lemma accept_line_frame:
  "ed_buf (accept_line s) = (ed_buf s)[ed_idx s := 0]"
  by (simp add: accept_line_def Let_def)

lemma accept_returns:
  assumes "ed_ok mx t" and "ed_line t = (l, [])"
  shows "readline_keys hook mx (0x0A # ds) t = (Some (length l), accept_line t)" "take (length l + 1) (ed_buf (accept_line t)) = l @ [0]"
proof -
  have c: "take (ed_cursor t) (ed_buf t) = l" "ed_idx t - ed_cursor t = 0" and tl: "ed_cursor t \<le> ed_idx t" "ed_idx t < length (ed_buf t)"
    using assms by (auto simp: ed_line_def line_at_def ed_ok_def line_ok_def)
  then have i: "ed_idx t = length l" by auto
  then have "take (length l) (ed_buf t) = l" using c tl by simp
  then show "take (length l + 1) (ed_buf (accept_line t)) = l @ [0]" using tl i by (simp add: accept_line_frame take_Suc_conv_app_nth)
  show "readline_keys hook mx (0x0A # ds) t = (Some (length l), accept_line t)" by (simp add: readline_key_def Let_def i)
qed

lemma readline_loop_line:
  assumes "kb_ok k" "kb_list k = []" "\<forall>r \<in> set (arrivals rounds k). length r \<le> 255"
    and "concat (arrivals rounds k) = cs @ 0x0A # ds" "\<forall>c \<in> set cs. plain c"
    and "ed_ok mx s" "ed_line s = (l, [])" "length l + length cs < mx"
  shows "\<exists>k' t. readline_loop hook mx rounds k s = Some (length (l @ cs), k', t) \<and> take (length (l @ cs) + 1) (ed_buf t) = l @ cs @ [0]"
  using assms
proof (induction rounds arbitrary: k s l cs)
  case (Cons round rounds)
  obtain ser irqs where r: "round = (ser, irqs)" by (cases round)
  define a where "a = ser @ typed irqs k"
  define k1 where "k1 = fold keyboard_handler irqs (fold keybuf_put ser k)"
  have k1: "kb_ok k1" "kb_list k1 = a" "mods k1 = mods (fold modifiers irqs k)"
    using round_fills [OF Cons.prems(1,2) _ k1_def] Cons.prems(3) r by (simp_all add: a_def)
  obtain k2 where k2: "readline_drain hook mx k1 s = (fst (readline_keys hook mx a s), k2, snd (readline_keys hook mx a s))"
    "fst (readline_keys hook mx a s) = None \<longrightarrow> kb_ok k2 \<and> kb_list k2 = [] \<and> mods k2 = mods k1"
    using readline_drain_keys [OF k1(1,2)] by blast
  have cat: "a @ concat (arrivals rounds k1) = cs @ 0x0A # ds"
    using Cons.prems(4) r arrivals_cong [OF k1(3)] by (simp add: a_def)
  then consider b where "cs = a @ b" "concat (arrivals rounds k1) = b @ 0x0A # ds" | b where "a = cs @ 0x0A # b"
    by (auto simp: append_eq_append_conv2 append_eq_Cons_conv)
  then show ?case
  proof cases
    case 1
    obtain t where t: "readline_keys hook mx (a @ []) s = readline_keys hook mx [] t" "ed_ok mx t" "ed_line t = (l @ a, [])"
      using plain_keys [of a mx s l hook "[]"] Cons.prems(5-8) 1(1) by auto
    have n: "fst (readline_keys hook mx a s) = None" "snd (readline_keys hook mx a s) = t" using t(1) by simp_all
    then have m: "kb_ok k2" "kb_list k2 = []" "mods k2 = mods k1" using k2(2) by simp_all
    have "\<forall>r \<in> set (arrivals rounds k2). length r \<le> 255"
      using Cons.prems(3) r arrivals_cong [OF k1(3)] arrivals_cong [OF m(3)] by simp
    from Cons.IH [OF m(1,2) this _ _ t(2,3), of b] 1 Cons.prems(5,8) arrivals_cong [OF m(3)]
    have "\<exists>k' t'. readline_loop hook mx rounds k2 t = Some (length (l @ cs), k', t') \<and> take (length (l @ cs) + 1) (ed_buf t') = l @ cs @ [0]"
      by simp
    then show ?thesis using r k2(1) n by (simp add: k1_def [symmetric])
  next
    case 2
    obtain t where t: "readline_keys hook mx (cs @ 0x0A # b) s = readline_keys hook mx (0x0A # b) t" "ed_ok mx t" "ed_line t = (l @ cs, [])"
      using plain_keys [of cs mx s l hook "0x0A # b"] Cons.prems(5-8) by auto
    note ac = accept_returns [OF t(2,3)]
    have "readline_keys hook mx a s = (Some (length (l @ cs)), accept_line t)" using t(1) ac(1) 2 by simp
    then have "readline_drain hook mx k1 s = (Some (length (l @ cs)), k2, accept_line t)" using k2(1) by simp
    then show ?thesis using r ac(2) by (simp add: k1_def [symmetric])
  qed
qed simp

text \<open>
  C13 (roundtrip): a line of printable characters that fits into the buffer, received on the serial port, typed on the keyboard
  or both, in one round of the loop or spread over any number of them, and followed by a line feed, is what
  \<^verbatim>\<open>keyboard_readline\<close> returns as long as no round brings more than the 255 characters the ring can hold: the call ends, its
  result is the length of the line, and the buffer holds the line and a NUL.
\<close>

theorem readline_returns_line:
  assumes "kb_ok k" "kb_list k = []" "length (ed_buf s) = mx" "\<forall>r \<in> set (arrivals rounds k). length r \<le> 255"
    and "concat (arrivals rounds k) = cs @ 0x0A # ds" "\<forall>c \<in> set cs. plain c" "length cs < mx"
  shows "\<exists>k' t. keyboard_readline hook mx rounds k s = Some (length cs, k', t) \<and>
    take (length cs + 1) (ed_buf t) = cs @ [0]"
proof -
  define s1 where "s1 = s\<lparr>ed_browsing := None, ed_idx := 0, ed_cursor := 0, start_row := vga_row (ed_vga s),
      start_col := vga_col (ed_vga s)\<rparr>"
  have "ed_ok mx s1" "ed_line s1 = ([], [])"
    using assms(3,7) by (simp_all add: s1_def ed_ok_def line_ok_def ed_line_def line_at_def)
  from readline_loop_line [OF assms(1,2,4-6) this] assms(7) show ?thesis
    by (simp add: keyboard_readline_def vga_get_cursor_def s1_def [symmetric] Let_def)
qed

text \<open>The letter \<open>h\<close> on the serial port, a round without input, then the keys \<open>i\<close> and Enter.\<close>

theorem readline_returns_line_witness:
  "\<exists>k' t. keyboard_readline None 8 [([0x68], []), ([], []), ([], [0x17, 0x97]), ([], [0x1C])] kbd_boot ed_boot =
      Some (length [0x68, 0x69 :: u8], k', t) \<and>
    take (length [0x68, 0x69 :: u8] + 1) (ed_buf t) = [0x68, 0x69] @ [0]"
proof (rule readline_returns_line)
  have "arrivals [([0x68], []), ([], []), ([], [0x17, 0x97]), ([], [0x1C])] kbd_boot = [[0x68], [], [0x69], [0x0A]]"
    by (simp add: decode_def modifiers_def key_char_def caps_key_def keymap_def key_table_def kbd_boot_def keyboard_init_def Let_def)
  then show "\<forall>r \<in> set (arrivals [([0x68], []), ([], []), ([], [0x17, 0x97]), ([], [0x1C])] kbd_boot). length r \<le> 255"
    "concat (arrivals [([0x68], []), ([], []), ([], [0x17, 0x97]), ([], [0x1C])] kbd_boot) = [0x68, 0x69] @ 0x0A # []" by simp_all
qed (simp_all add: plain_def kb_ok_def kb_list_def kbd_boot_def keyboard_init_def ed_boot_def)

end
