(* ===== verification/Framebuffer.thy ===== *)
theory Framebuffer
  imports Vmm Console
begin

text \<open>
  The framebuffer console, \<^verbatim>\<open>kernel/drivers/fb/fb.c\<close>.  The pixels are a memory of 32-bit cells, indexed by
  the address of the first byte of a cell; the lines are \<^verbatim>\<open>fb_pitch\<close> bytes apart.  The glyphs of
  \<^verbatim>\<open>fb_font.h\<close> are an argument.  \<open>None\<close> is a call that never returns.
\<close>

section \<open>State\<close>

definition FB_VADDR :: u64 where "FB_VADDR = 0xFFFF8000FC000000"
definition FB_CHAR_W :: nat where "FB_CHAR_W = 8"
definition FB_CHAR_H :: nat where "FB_CHAR_H = 16"
definition FB_DEFAULT_FG :: u32 where "FB_DEFAULT_FG = 0x00C0C0C0"
definition FB_DEFAULT_BG :: u32 where "FB_DEFAULT_BG = 0"

type_synonym font = "u8 \<Rightarrow> nat \<Rightarrow> u8"

record fb =
  fb_available :: bool
  fb_width :: int
  fb_height :: int
  fb_vaddr :: u64
  fb_pitch :: int
  fb_row :: int
  fb_col :: int
  fb_fg :: u32
  fb_bg :: u32
  fb_cursor_save :: "nat \<Rightarrow> nat \<Rightarrow> u32"
  fb_cursor_row :: int
  fb_cursor_col :: int
  fb_cursor_on :: bool
  fb_mem :: "u64 \<Rightarrow> u32"

definition FB_COLS :: "fb \<Rightarrow> int" where "FB_COLS s = fb_width s div 8"
definition FB_ROWS :: "fb \<Rightarrow> int" where "FB_ROWS s = fb_height s div 16"

text \<open>The address of \<^verbatim>\<open>line[x]\<close> for the line \<open>y\<close>; both are 32-bit numbers.\<close>

definition px :: "fb \<Rightarrow> u32 \<Rightarrow> u32 \<Rightarrow> u64" where
  "px s x y = fb_vaddr s + ucast (y * word_of_int (fb_pitch s)) + 4 * ucast x"

text \<open>Pixel \<open>c\<close> of line \<open>r\<close> of the character cell at \<open>row\<close> and \<open>col\<close>.\<close>

definition cell_px :: "fb \<Rightarrow> int \<Rightarrow> int \<Rightarrow> nat \<Rightarrow> nat \<Rightarrow> u64" where
  "cell_px s row col r c = px s (word_of_int (col * 8) + of_nat c) (word_of_int (row * 16) + of_nat r)"

definition cells :: "nat list \<Rightarrow> (nat \<times> nat) list" where
  "cells rs = concat (map (\<lambda>r. map (Pair r) [0..<FB_CHAR_W]) rs)"

definition draw_lines ::
  "fb \<Rightarrow> int \<Rightarrow> int \<Rightarrow> nat list \<Rightarrow> (nat \<Rightarrow> nat \<Rightarrow> u32) \<Rightarrow> (u64 \<Rightarrow> u32) \<Rightarrow> (u64 \<Rightarrow> u32)" where
  "draw_lines s row col rs f m = fold (\<lambda>(r, c) m. m(cell_px s row col r c := f r c)) (cells rs) m"

section \<open>The cursor\<close>

definition fb_cursor_erase :: "fb \<Rightarrow> fb" where
  "fb_cursor_erase s =
     (if \<not> fb_cursor_on s then s
      else s\<lparr>fb_mem := draw_lines s (fb_cursor_row s) (fb_cursor_col s) [0..<FB_CHAR_H] (fb_cursor_save s) (fb_mem s),
             fb_cursor_on := False\<rparr>)"

definition fb_cursor_draw :: "fb \<Rightarrow> fb" where
  "fb_cursor_draw s =
     (let s = fb_cursor_erase s;
          s = s\<lparr>fb_cursor_row := fb_row s, fb_cursor_col := fb_col s,
                fb_cursor_save := (\<lambda>r c. if r < FB_CHAR_H \<and> c < FB_CHAR_W
                                         then fb_mem s (cell_px s (fb_row s) (fb_col s) r c) else fb_cursor_save s r c)\<rparr>
      in s\<lparr>fb_mem := draw_lines s (fb_row s) (fb_col s) [FB_CHAR_H - 2..<FB_CHAR_H] (\<lambda>_ _. 0x00C0C0C0) (fb_mem s),
           fb_cursor_on := True\<rparr>)"

section \<open>Drawing\<close>

definition fb_putpixel :: "u32 \<Rightarrow> u32 \<Rightarrow> u32 \<Rightarrow> fb \<Rightarrow> fb" where
  "fb_putpixel x y color s =
     (if word_of_int (fb_width s) \<le> x \<or> word_of_int (fb_height s) \<le> y \<or> fb_vaddr s = 0 then s
      else s\<lparr>fb_mem := (fb_mem s)(fb_vaddr s + ucast (y * word_of_int (fb_pitch s)) + ucast (x * 4) := color)\<rparr>)"

definition fb_fillrect :: "u32 \<Rightarrow> u32 \<Rightarrow> u32 \<Rightarrow> u32 \<Rightarrow> u32 \<Rightarrow> fb \<Rightarrow> fb" where
  "fb_fillrect x y w h color s =
     (if fb_vaddr s = 0 then s
      else s\<lparr>fb_mem := fold (\<lambda>row m. fold (\<lambda>col m. m(px s (x + of_nat col) (y + of_nat row) := color)) [0..<unat w] m)
                           [0..<unat h] (fb_mem s)\<rparr>)"

definition fb_clear :: "u32 \<Rightarrow> fb \<Rightarrow> fb" where
  "fb_clear color s =
     (fb_fillrect 0 0 (word_of_int (fb_width s)) (word_of_int (fb_height s)) color (s\<lparr>fb_cursor_on := False\<rparr>))
       \<lparr>fb_row := 0, fb_col := 0\<rparr>"

definition fb_rgb :: "u8 \<Rightarrow> u8 \<Rightarrow> u8 \<Rightarrow> u32" where
  "fb_rgb r g b = 0xFF000000 OR push_bit 16 (ucast r) OR push_bit 8 (ucast g) OR ucast b"

text \<open>One 64-bit word copied, two cells.\<close>

definition copy8 :: "u64 \<Rightarrow> u64 \<Rightarrow> (u64 \<Rightarrow> u32) \<Rightarrow> u64 \<Rightarrow> u32" where
  "copy8 dst src m = m(dst := m src, dst + 4 := m (src + 4))"

definition fb_scroll :: "fb \<Rightarrow> fb" where
  "fb_scroll s =
     (let s = fb_cursor_erase s;
          line_bytes = word_of_int (fb_pitch s * 16) :: u32;
          rows = FB_ROWS s;
          m = fold (\<lambda>r m. fold (\<lambda>k. copy8 (fb_vaddr s + ucast ((of_nat r - 1) * line_bytes) + 8 * of_nat k)
                                           (fb_vaddr s + ucast (of_nat r * line_bytes) + 8 * of_nat k))
                             [0..<unat line_bytes div 8] m) [1..<nat rows] (fb_mem s)
      in (fb_fillrect 0 (word_of_int ((rows - 1) * 16)) (word_of_int (fb_width s)) 16 (fb_bg s) (s\<lparr>fb_mem := m\<rparr>))
           \<lparr>fb_row := rows - 1\<rparr>)"

section \<open>Characters\<close>

definition fb_next_row :: "fb \<Rightarrow> fb" where
  "fb_next_row s =
     (let s = s\<lparr>fb_row := fb_row s + 1\<rparr> in if FB_ROWS s \<le> fb_row s then fb_scroll s else s)"

text \<open>A printable character.\<close>

definition fb_glyph :: "font \<Rightarrow> u8 \<Rightarrow> fb \<Rightarrow> fb" where
  "fb_glyph font c s =
     (let s = fb_cursor_erase s;
          s = s\<lparr>fb_mem := draw_lines s (fb_row s) (fb_col s) [0..<FB_CHAR_H]
                  (\<lambda>r col. if font c r AND drop_bit col 0x80 \<noteq> 0 then fb_fg s else fb_bg s) (fb_mem s),
                fb_col := fb_col s + 1\<rparr>;
          s = (if FB_COLS s \<le> fb_col s then fb_next_row (s\<lparr>fb_col := 0\<rparr>) else s)
      in fb_cursor_draw s)"

text \<open>\<^verbatim>\<open>while (fb_col < stop && fb_col < FB_COLS) fb_putchar(' ');\<close>\<close>

partial_function (option) fb_tab :: "font \<Rightarrow> int \<Rightarrow> fb \<Rightarrow> fb option" where
  "fb_tab font stop s =
     (if fb_col s < stop \<and> fb_col s < FB_COLS s then fb_tab font stop (fb_glyph font 0x20 s) else Some s)"

definition fb_putchar :: "font \<Rightarrow> u8 \<Rightarrow> fb \<Rightarrow> fb option" where
  "fb_putchar font c s =
     (if \<not> fb_available s then Some s
      else if c = 0x0A then Some (fb_cursor_draw (fb_next_row (s\<lparr>fb_col := 0\<rparr>)))
      else if c = 0x0D then Some (fb_cursor_draw (s\<lparr>fb_col := 0\<rparr>))
      else if c = 0x09 then fb_tab font ((fb_col s + 4) AND NOT 3) s
      else if c = 0x08 then Some (fb_cursor_draw (if 0 < fb_col s then s\<lparr>fb_col := fb_col s - 1\<rparr> else s))
      else if c < 32 then Some s
      else Some (fb_glyph font c s))"

fun fb_puts :: "font \<Rightarrow> u8 list \<Rightarrow> fb \<Rightarrow> fb option" where
  "fb_puts font [] s = Some s"
| "fb_puts font (c # cs) s = (if c = 0 then Some s else do { s \<leftarrow> fb_putchar font c s; fb_puts font cs s })"

text \<open>
  The boot loader leaves \<^verbatim>\<open>struct fb_info\<close> at \<open>0x7E00\<close>: the address, then width and height, then bits per
  pixel and pitch, two 32-bit fields to a word.
\<close>

definition fb_init :: "fb \<Rightarrow> 'a cpu_scheme \<Rightarrow> (fb \<times> 'a cpu_scheme) option" where
  "fb_init s k =
     (let phys_addr = pmem k 0x7E00;
          width = ucast (pmem k 0x7E08) :: u32;
          height = ucast (drop_bit 32 (pmem k 0x7E08)) :: u32;
          pitch = ucast (drop_bit 32 (pmem k 0x7E10)) :: u32
      in if phys_addr = 0 \<or> width = 0 then Some (s\<lparr>fb_available := False\<rparr>, k)
         else let s = s\<lparr>fb_width := sint width, fb_height := sint height, fb_pitch := sint pitch\<rparr>;
                  pages = (pitch * height + 0xFFF) div 0x1000
              in do { (_, k) \<leftarrow> vmm_map_range (vmm_read_cr3 k) FB_VADDR phys_addr (ucast pages)
                                 (PAGE_PRESENT OR PAGE_WRITE) k;
                      Some (fb_clear (fb_bg s) (s\<lparr>fb_vaddr := FB_VADDR, fb_available := True\<rparr>), k) })"

section \<open>A tab at the end of a line\<close>

lemma fb_cursor_frame [simp]:
  "fb_col (fb_cursor_erase s) = fb_col s" "fb_row (fb_cursor_erase s) = fb_row s"
  "fb_width (fb_cursor_erase s) = fb_width s" "fb_height (fb_cursor_erase s) = fb_height s"
  "fb_col (fb_cursor_draw s) = fb_col s" "fb_row (fb_cursor_draw s) = fb_row s"
  "fb_width (fb_cursor_draw s) = fb_width s" "fb_height (fb_cursor_draw s) = fb_height s"
  by (simp_all add: fb_cursor_erase_def fb_cursor_draw_def Let_def)

lemma fb_fillrect_frame [simp]:
  "fb_col (fb_fillrect x y w h c s) = fb_col s" "fb_width (fb_fillrect x y w h c s) = fb_width s"
  "fb_height (fb_fillrect x y w h c s) = fb_height s" "fb_row (fb_fillrect x y w h c s) = fb_row s"
  by (simp_all add: fb_fillrect_def)

lemma fb_next_row_frame [simp]:
  "fb_col (fb_next_row s) = fb_col s" "fb_width (fb_next_row s) = fb_width s" "fb_height (fb_next_row s) = fb_height s"
  by (simp_all add: fb_next_row_def fb_scroll_def Let_def)

lemma fb_glyph_cursor:
  "fb_col (fb_glyph font c s) = (if FB_COLS s \<le> fb_col s + 1 then 0 else fb_col s + 1)"
  "fb_width (fb_glyph font c s) = fb_width s" "fb_height (fb_glyph font c s) = fb_height s"
  by (simp_all add: fb_glyph_def FB_COLS_def Let_def)

lemma fb_next_row_row:
  assumes "0 \<le> fb_row s" "fb_row s < h div 16" "fb_height s = h"
  shows "0 \<le> fb_row (fb_next_row s)" "fb_row (fb_next_row s) < h div 16"
  using assms by (auto simp: fb_next_row_def fb_scroll_def FB_ROWS_def Let_def)

text \<open>The cursor stays on the screen.\<close>

definition fb_ok :: "fb \<Rightarrow> bool" where
  "fb_ok s \<longleftrightarrow> 0 \<le> fb_col s \<and> fb_col s < FB_COLS s \<and> 0 \<le> fb_row s \<and> fb_row s < FB_ROWS s"

lemma fb_glyph_ok: "fb_ok s \<Longrightarrow> fb_ok (fb_glyph font c s)"
  by (auto simp: fb_ok_def fb_glyph_cursor) (auto simp: fb_glyph_def FB_COLS_def FB_ROWS_def Let_def intro!: fb_next_row_row)

lemma fb_tab_diverges:
  assumes "fb_tab font stop s = Some t"
  shows "fb_ok s \<longrightarrow> stop < FB_COLS s"
  using assms
proof (induction rule: fb_tab.raw_induct [rotated 1, consumes 1])
  case (1 fb_tab font stop s t)
  show ?case
  proof
    assume ok: "fb_ok s"
    show "stop < FB_COLS s"
    proof (rule ccontr)
      assume "\<not> stop < FB_COLS s"
      moreover have "fb_col s < stop \<and> fb_col s < FB_COLS s" using ok calculation by (simp add: fb_ok_def)
      moreover have "fb_ok (fb_glyph font 0x20 s)" "FB_COLS (fb_glyph font 0x20 s) = FB_COLS s"
        using fb_glyph_ok [OF ok] by (simp_all add: FB_COLS_def fb_glyph_cursor)
      ultimately show False using 1(1) [of font stop "fb_glyph font 0x20 s" t] 1(2) by simp
    qed
  qed
qed

lemma fb_tab_returns:
  assumes "fb_ok s" and "stop < FB_COLS s"
  shows "fb_tab font stop s \<noteq> None"
  using assms
proof (induction "nat (stop - fb_col s)" arbitrary: s rule: less_induct)
  case less
  show ?case
  proof (cases "fb_col s < stop")
    case True
    let ?t = "fb_glyph font 0x20 s"
    have "fb_ok ?t" "FB_COLS ?t = FB_COLS s" "fb_col ?t = fb_col s + 1"
      using fb_glyph_ok less.prems True by (simp_all add: FB_COLS_def fb_glyph_cursor)
    then have "fb_tab font stop ?t \<noteq> None" using less.prems True by (intro less.hyps) simp_all
    then show ?thesis using True less.prems by (subst fb_tab.simps) simp
  next
    case False
    then show ?thesis by (subst fb_tab.simps) simp
  qed
qed

text \<open>
  A tab printed in one of the last four columns of a framebuffer whose width is a
  multiple of four characters never returns.  Every blank of the loop moves the column, but the
  column wraps to 0 before it reaches the tab stop, so the loop goes on for ever.  A tab further left
  does return.
\<close>

lemma fb_tab_returns_iff:
  assumes "fb_available s" and "fb_ok s" and "FB_COLS s mod 4 = 0"
  shows "(fb_putchar font 0x09 s \<noteq> None) = (fb_col s + 4 < FB_COLS s)"
proof -
  define stop where "stop = (fb_col s + 4) AND NOT 3"
  have stop: "stop = fb_col s + 4 - fb_col s mod 4" unfolding stop_def by (rule tab_stop)
  have "stop < FB_COLS s \<longleftrightarrow> fb_col s + 4 < FB_COLS s" using assms(3) unfolding stop by presburger
  moreover have "fb_putchar font 0x09 s = fb_tab font stop s" using assms(1) by (simp add: fb_putchar_def stop_def)
  ultimately show ?thesis using fb_tab_diverges [of font stop s] fb_tab_returns [of s stop font] assms(2) by auto
qed

definition fb_boot :: fb where
  "fb_boot = \<lparr>fb_available = True, fb_width = 640, fb_height = 480, fb_vaddr = FB_VADDR, fb_pitch = 2560, fb_row = 0, fb_col = 77,
     fb_fg = FB_DEFAULT_FG, fb_bg = FB_DEFAULT_BG, fb_cursor_save = (\<lambda>_ _. 0), fb_cursor_row = 0, fb_cursor_col = 0,
     fb_cursor_on = False, fb_mem = (\<lambda>_. 0)\<rparr>"

section \<open>The cursor leaves no trace\<close>

text \<open>What the mode the boot loader sets gives: the lines do not overlap and the screen fits into 4 GiB.\<close>

definition fb_geometry :: "fb \<Rightarrow> bool" where
  "fb_geometry s \<longleftrightarrow> 0 < fb_width s \<and> 0 < fb_height s \<and> 4 * fb_width s \<le> fb_pitch s \<and> fb_pitch s * fb_height s < 2 ^ 32"

lemma cell_px_offset:
  assumes "fb_geometry s" "0 \<le> row" "row < FB_ROWS s" "0 \<le> col" "col < FB_COLS s" "r < 16" "c < 8"
  shows "\<exists>x y. x = nat col * 8 + c \<and> y = nat row * 16 + r \<and> 4 * x < nat (fb_pitch s) \<and>
    y * nat (fb_pitch s) + 4 * x < 2 ^ 32 \<and> cell_px s row col r c = fb_vaddr s + of_nat (y * nat (fb_pitch s) + 4 * x)"
proof -
  define x y p where "x = nat col * 8 + c" and "y = nat row * 16 + r" and "p = nat (fb_pitch s)"
  have x: "int x < fb_width s" using assms(4,5,7) unfolding x_def FB_COLS_def by simp
  have y: "int y < fb_height s" using assms(2,3,6) unfolding y_def FB_ROWS_def by simp
  have p: "int p = fb_pitch s" "4 * x < p" using assms(1) x unfolding p_def fb_geometry_def by linarith+
  have "int (Suc y * p) \<le> fb_height s * fb_pitch s" unfolding of_nat_mult p(1)
    using y p(1) by (intro mult_right_mono) linarith+
  then have "int (Suc y * p) < 2 ^ 32" using assms(1) unfolding fb_geometry_def mult.commute [of "fb_height s"] by linarith
  then have lt: "Suc y * p < 2 ^ 32" by (metis of_nat_less_iff of_nat_numeral of_nat_power)
  have sum: "y * p + 4 * x < 2 ^ 32" using lt p(2) by simp
  have xy: "word_of_int (col * 8) + of_nat c = (of_nat x :: u32)" "word_of_int (row * 16) + of_nat r = (of_nat y :: u32)"
    using assms(2,4) by (simp_all add: x_def y_def)
  have pw: "word_of_int (fb_pitch s) = (of_nat p :: u32)" using p(1) by (metis of_int_of_nat_eq)
  have of32: "unat (of_nat k :: u32) = k" if "k < 2 ^ 32" for k using that by (simp add: unat_of_nat)
  have un: "unat (of_nat (y * p) :: u32) = y * p" "unat (of_nat x :: u32) = x"
    by (rule of32, use sum in simp)+
  have "ucast (of_nat (y * p) :: u32) = (of_nat (y * p) :: u64)"
    unfolding word_unat_eq_iff unat_ucast_32_64 un(1) by (rule unat_of_nat64 [symmetric]) (use sum in simp)
  moreover have "ucast (of_nat x :: u32) = (of_nat x :: u64)"
    unfolding word_unat_eq_iff unat_ucast_32_64 un(2) by (rule unat_of_nat64 [symmetric]) (use sum in simp)
  ultimately have "cell_px s row col r c = fb_vaddr s + of_nat (y * p + 4 * x)"
    unfolding cell_px_def px_def xy pw by (simp add: add.assoc)
  then show ?thesis using p(2) sum by (intro exI [of _ x] exI [of _ y]) (simp add: x_def y_def p_def)
qed

lemma cell_px_inj:
  assumes "fb_geometry s" "0 \<le> row" "row < FB_ROWS s" "0 \<le> col" "col < FB_COLS s"
  shows "inj_on (\<lambda>(r, c). cell_px s row col r c) ({..<16} \<times> {..<8})"
proof (rule inj_onI, clarify)
  fix r c r' c' :: nat
  assume lt: "r < 16" "c < 8" "r' < 16" "c' < 8" and eq: "cell_px s row col r c = cell_px s row col r' c'"
  define p x y x' y' where "p = nat (fb_pitch s)" and "x = nat col * 8 + c" and "y = nat row * 16 + r"
    and "x' = nat col * 8 + c'" and "y' = nat row * 16 + r'"
  have 1: "4 * x < p" "y * p + 4 * x < 2 ^ 32" "cell_px s row col r c = fb_vaddr s + of_nat (y * p + 4 * x)"
    using cell_px_offset [OF assms lt(1,2)] by (auto simp: x_def y_def p_def)
  have 2: "4 * x' < p" "y' * p + 4 * x' < 2 ^ 32" "cell_px s row col r' c' = fb_vaddr s + of_nat (y' * p + 4 * x')"
    using cell_px_offset [OF assms lt(3,4)] by (auto simp: x'_def y'_def p_def)
  have "(of_nat (y * p + 4 * x) :: u64) = of_nat (y' * p + 4 * x')" using eq 1(3) 2(3) by simp
  then have e: "y * p + 4 * x = y' * p + 4 * x'"
    using unat_of_nat64 [of "y * p + 4 * x"] unat_of_nat64 [of "y' * p + 4 * x'"] 1(2) 2(2) by simp
  have "y = y'" using arg_cong [OF e, of "\<lambda>z. z div p"] 1(1) 2(1) by simp
  then show "r = r' \<and> c = c'" using e by (simp add: x_def y_def x'_def y'_def)
qed

lemma set_cells: "set (cells [i..<16]) = {i..<16} \<times> {..<8}"
  by (auto simp: cells_def FB_CHAR_W_def)

lemma fold_update:
  assumes "inj_on a (set ks)"
  shows "k \<in> set ks \<Longrightarrow> fold (\<lambda>k m. m(a k := f k)) ks m (a k) = f k"
    and "q \<notin> a ` set ks \<Longrightarrow> fold (\<lambda>k m. m(a k := f k)) ks m q = m q"
proof -
  have other: "q \<notin> a ` set ks \<Longrightarrow> fold (\<lambda>k m. m(a k := f k)) ks m q = m q" for ks and m :: "'b \<Rightarrow> 'c" and q
    by (induction ks arbitrary: m) auto
  show "q \<notin> a ` set ks \<Longrightarrow> fold (\<lambda>k m. m(a k := f k)) ks m q = m q" by (rule other)
  show "k \<in> set ks \<Longrightarrow> fold (\<lambda>k m. m(a k := f k)) ks m (a k) = f k"
    using assms
  proof (induction ks arbitrary: m)
    case (Cons j ks)
    show ?case
    proof (cases "k \<in> set ks")
      case True
      then show ?thesis using Cons by simp
    next
      case False
      then have "k = j" using Cons.prems(1) by simp
      moreover have "a k \<notin> a ` set ks" using Cons.prems(2) False \<open>k = j\<close> by (auto simp: inj_on_def)
      ultimately have "fold (\<lambda>k m. m(a k := f k)) ks (m(a j := f j)) (a k) = (m(a j := f j)) (a k)" by (intro other)
      then show ?thesis using \<open>k = j\<close> by (simp only: fold_simps comp_apply fun_upd_same)
    qed
  qed simp
qed

lemma draw_lines_apply:
  assumes "inj_on (\<lambda>(r, c). cell_px s row col r c) ({..<16} \<times> {..<8})"
  shows "r \<in> {i..<16} \<Longrightarrow> c < 8 \<Longrightarrow> draw_lines s row col [i..<16] f m (cell_px s row col r c) = f r c"
    and "(\<And>r c. i \<le> r \<Longrightarrow> r < 16 \<Longrightarrow> c < 8 \<Longrightarrow> q \<noteq> cell_px s row col r c) \<Longrightarrow> draw_lines s row col [i..<16] f m q = m q"
proof -
  have inj: "inj_on (\<lambda>(r, c). cell_px s row col r c) (set (cells [i..<16]))"
    by (rule inj_on_subset [OF assms]) (auto simp: set_cells)
  have eq: "draw_lines s row col [i..<16] f m =
      fold (\<lambda>k m. m((case k of (r, c) \<Rightarrow> cell_px s row col r c) := (case k of (r, c) \<Rightarrow> f r c))) (cells [i..<16]) m"
    unfolding draw_lines_def by (rule fold_cong) auto
  show "r \<in> {i..<16} \<Longrightarrow> c < 8 \<Longrightarrow> draw_lines s row col [i..<16] f m (cell_px s row col r c) = f r c"
    using fold_update(1) [OF inj, of "(r, c)" "\<lambda>(r, c). f r c" m] unfolding eq by (simp add: set_cells)
  show "(\<And>r c. i \<le> r \<Longrightarrow> r < 16 \<Longrightarrow> c < 8 \<Longrightarrow> q \<noteq> cell_px s row col r c) \<Longrightarrow> draw_lines s row col [i..<16] f m q = m q"
    unfolding eq by (rule fold_update(2) [OF inj]) (force simp: set_cells)
qed

text \<open>
  Drawing the cursor and erasing it restores every pixel, wherever on the screen it
  is, and erasing without a cursor changes nothing.
\<close>

lemma fb_cursor_restores:
  assumes "fb_geometry s" and "fb_ok s" and "\<not> fb_cursor_on s"
  shows "fb_mem (fb_cursor_erase (fb_cursor_draw s)) = fb_mem s \<and> fb_cursor_erase s = s"
proof -
  have er: "fb_cursor_erase s = s" using assms(3) by (simp add: fb_cursor_erase_def)
  define a where "a = (\<lambda>r c. cell_px s (fb_row s) (fb_col s) r c)"
  have inj: "inj_on (\<lambda>(r, c). a r c) ({..<16} \<times> {..<8})"
    unfolding a_def using assms(1,2) by (intro cell_px_inj) (simp_all add: fb_ok_def)
  have dl: "draw_lines (s\<lparr>fb_cursor_row := x, fb_cursor_col := y, fb_cursor_save := z, fb_mem := m, fb_cursor_on := b\<rparr>) = draw_lines s"
    "draw_lines (s\<lparr>fb_cursor_row := x, fb_cursor_col := y, fb_cursor_save := z\<rparr>) = draw_lines s"
    "cell_px (s\<lparr>fb_cursor_row := x, fb_cursor_col := y\<rparr>) = cell_px s" for x y z m b
    by (intro ext, simp add: draw_lines_def cell_px_def px_def)+
  define m' where "m' = draw_lines s (fb_row s) (fb_col s) [14..<16] (\<lambda>_ _. 0xC0C0C0) (fb_mem s)"
  define sv where "sv = (\<lambda>r c. if r < 16 \<and> c < 8 then fb_mem s (a r c) else fb_cursor_save s r c)"
  have d: "fb_cursor_draw s = s\<lparr>fb_cursor_row := fb_row s, fb_cursor_col := fb_col s, fb_cursor_save := sv, fb_mem := m',
      fb_cursor_on := True\<rparr>"
    unfolding fb_cursor_draw_def er Let_def sv_def m'_def a_def FB_CHAR_H_def FB_CHAR_W_def
    by (simp only: dl fb.simps diff_numeral_special) simp
  have "fb_mem (fb_cursor_erase (fb_cursor_draw s)) = draw_lines s (fb_row s) (fb_col s) [0..<16] sv m'"
    unfolding d fb_cursor_erase_def dl FB_CHAR_H_def by (simp del: upt_Suc)
  moreover have "draw_lines s (fb_row s) (fb_col s) [0..<16] sv m' q = fb_mem s q" for q
  proof (cases "\<exists>r c. r < 16 \<and> c < 8 \<and> q = a r c")
    case True
    then show ?thesis using draw_lines_apply(1) [OF inj [unfolded a_def]] by (auto simp: sv_def a_def)
  next
    case False
    then have "draw_lines s (fb_row s) (fb_col s) [i..<16] f m q = m q" for i f m
      by (intro draw_lines_apply(2) [OF inj [unfolded a_def]]) (auto simp: a_def)
    then show ?thesis by (simp only: m'_def)
  qed
  ultimately show ?thesis using er by auto
qed

end
