(* ===== verification/Clock.thy ===== *)
theory Clock
  imports Prelude
begin

text \<open>
  The real-time clock, \<^verbatim>\<open>kernel/drivers/rtc/rtc.c\<close>, and the tick counter of \<^verbatim>\<open>kernel/drivers/timer/timer.c\<close>.
  The clock runs while it is read: \<open>dev k reg\<close> is what the \<open>k\<close>-th read of a CMOS register returns if it
  reads \<open>reg\<close>.
\<close>

section \<open>The real-time clock\<close>

type_synonym cmos = "nat \<Rightarrow> u8 \<Rightarrow> u8"

record rtc_time =
  rt_second :: u8
  rt_minute :: u8
  rt_hour :: u8
  rt_day :: u8
  rt_month :: u8
  rt_year :: u16

definition cmos_read :: "cmos \<Rightarrow> u8 \<Rightarrow> nat \<Rightarrow> int \<times> nat" where
  "cmos_read dev reg k = (uint (dev k reg), k + 1)"

definition bcd_to_bin :: "int \<Rightarrow> int" where
  "bcd_to_bin bcd = (bcd AND 0x0F) + drop_bit 4 bcd * 10"

text \<open>\<^verbatim>\<open>while (cmos_read(0x0A) & 0x80);\<close>\<close>

partial_function (option) rtc_wait :: "cmos \<Rightarrow> nat \<Rightarrow> nat option" where
  "rtc_wait dev k = (case cmos_read dev 0x0A k of (a, k) \<Rightarrow> if a AND 0x80 \<noteq> 0 then rtc_wait dev k else Some k)"

record rtc_fields =
  rf_second :: int
  rf_minute :: int
  rf_hour :: int
  rf_day :: int
  rf_month :: int
  rf_year :: int
  rf_century :: int

definition rtc_fields_read :: "cmos \<Rightarrow> nat \<Rightarrow> rtc_fields \<times> nat" where
  "rtc_fields_read dev k =
     (let (second, k) = cmos_read dev 0x00 k;
          (minute, k) = cmos_read dev 0x02 k;
          (hour, k) = cmos_read dev 0x04 k;
          (day, k) = cmos_read dev 0x07 k;
          (month, k) = cmos_read dev 0x08 k;
          (year, k) = cmos_read dev 0x09 k;
          (century, k) = cmos_read dev 0x32 k
      in (\<lparr>rf_second = second, rf_minute = minute, rf_hour = hour, rf_day = day, rf_month = month, rf_year = year,
           rf_century = century\<rparr>, k))"

text \<open>One attempt: whether it succeeded, and the fields; then at most \<open>n\<close> attempts, the last fields being \<open>f\<close>.\<close>

definition rtc_try :: "cmos \<Rightarrow> nat \<Rightarrow> (bool \<times> rtc_fields \<times> nat) option" where
  "rtc_try dev k =
     do { k \<leftarrow> rtc_wait dev k;
          let (f, k) = rtc_fields_read dev k;
          let (a, k) = cmos_read dev 0x0A k;
          if a AND 0x80 = 0
          then let (s2, k) = cmos_read dev 0x00 k;
                   (m2, k) = cmos_read dev 0x02 k
               in Some (s2 = rf_second f \<and> m2 = rf_minute f, f, k)
          else Some (False, f, k) }"

fun rtc_attempts :: "nat \<Rightarrow> cmos \<Rightarrow> rtc_fields \<Rightarrow> nat \<Rightarrow> (rtc_fields \<times> nat) option" where
  "rtc_attempts 0 dev f k = Some (f, k)"
| "rtc_attempts (Suc n) dev f k =
     do { (ok, f, k) \<leftarrow> rtc_try dev k; if ok then Some (f, k) else rtc_attempts n dev f k }"

definition rtc_decode :: "bool \<Rightarrow> rtc_fields \<Rightarrow> rtc_time" where
  "rtc_decode binary f =
     (let conv = (\<lambda>v. if binary then v else bcd_to_bin v);
          year = conv (rf_year f);
          century = conv (rf_century f);
          full_year = (if century \<noteq> 0 then century * 100 + year else 2000 + year)
      in \<lparr>rt_second = word_of_int (conv (rf_second f)), rt_minute = word_of_int (conv (rf_minute f)),
          rt_hour = word_of_int (conv (rf_hour f)), rt_day = word_of_int (conv (rf_day f)),
          rt_month = word_of_int (conv (rf_month f)), rt_year = word_of_int full_year\<rparr>)"

text \<open>\<open>f\<close> is what the uninitialised variables hold.\<close>

definition rtc_read :: "cmos \<Rightarrow> rtc_fields \<Rightarrow> nat \<Rightarrow> (int \<times> rtc_time \<times> nat) option" where
  "rtc_read dev f k =
     (let (statusB, k) = cmos_read dev 0x0B k
      in do { (f, k) \<leftarrow> rtc_attempts 3 dev f k; Some (0, rtc_decode (statusB AND 0x04 \<noteq> 0) f, k) })"

text \<open>The seven bytes and the padding byte of a \<^verbatim>\<open>struct rtc_time\<close> in memory.\<close>

definition rtc_bytes :: "u8 \<Rightarrow> rtc_time \<Rightarrow> bytes" where
  "rtc_bytes pad tm =
     [rt_second tm, rt_minute tm, rt_hour tm, rt_day tm, rt_month tm, pad, ucast (rt_year tm), ucast (drop_bit 8 (rt_year tm))]"

definition rtc_chr_read :: "u8 \<Rightarrow> cmos \<Rightarrow> rtc_fields \<Rightarrow> nat \<Rightarrow> nat \<Rightarrow> (int \<times> bytes \<times> nat) option" where
  "rtc_chr_read pad dev f count k =
     do { (r, tm, k) \<leftarrow> rtc_read dev f k;
          if r \<noteq> 0 then Some (-1, [], k)
          else let sz = min count 8 in Some (int sz, take sz (rtc_bytes pad tm), k) }"

section \<open>The tick counter\<close>

datatype timer_type = TIMER_NONE | TIMER_PIT | TIMER_HPET | TIMER_LAPIC

record timer =
  ticks :: u64
  tm_active :: timer_type
  freq_hz :: u32

definition timer_get_ticks :: "timer \<Rightarrow> u64" where "timer_get_ticks s = ticks s"

definition timer_get_type :: "timer \<Rightarrow> timer_type" where "timer_get_type s = tm_active s"

definition timer_tick_handler :: "timer \<Rightarrow> timer" where
  "timer_tick_handler s = s\<lparr>ticks := ticks s + 1\<rparr>"

text \<open>
  \<^verbatim>\<open>while (ticks < target) hlt\<close>.  The list has the interrupts that end a halt, \<open>True\<close> for the timer's.  With
  interrupts disabled nothing ends a halt.
\<close>

fun wait_ticks :: "bool \<Rightarrow> u64 \<Rightarrow> bool list \<Rightarrow> timer \<Rightarrow> (bool list \<times> timer) option" where
  "wait_ticks enabled target irqs s =
     (if ticks s < target
      then if enabled
           then (case irqs of [] \<Rightarrow> None
                 | b # irqs \<Rightarrow> wait_ticks enabled target irqs (if b then timer_tick_handler s else s))
           else None
      else Some (irqs, s))"

declare wait_ticks.simps [simp del]

definition timer_sleep :: "bool \<Rightarrow> u32 \<Rightarrow> bool list \<Rightarrow> timer \<Rightarrow> (bool list \<times> timer) option" where
  "timer_sleep enabled ms irqs s =
     (if freq_hz s = 0 then Some (irqs, s)
      else wait_ticks enabled (ticks s + ucast (freq_hz s) * ucast ms div 1000) irqs s)"

section \<open>Facts\<close>

lemma and_low: "(x :: int) AND 0x0F = x mod 16"
proof -
  have "x AND 0x0F = take_bit 4 x" by (simp add: take_bit_eq_mask mask_eq_exp_minus_1)
  then show ?thesis by (simp add: take_bit_eq_mod)
qed

lemma bcd_roundtrip:
  assumes "0 \<le> v" and "v < 100"
  shows "bcd_to_bin (v div 10 * 16 + v mod 10) = v"
proof -
  have "(v div 10 * 16 + v mod 10) AND 0x0F = v mod 10"
    by (subst and_low) presburger
  moreover have "drop_bit 4 (v div 10 * 16 + v mod 10) = v div 10"
    by (simp add: drop_bit_eq_div)
  ultimately show ?thesis unfolding bcd_to_bin_def by simp
qed

text \<open>A clock that does not change while it is read is reported as it is.\<close>

lemma rtc_read_steady:
  assumes "\<And>k reg. dev k reg = clock reg" and "clock 0x0A AND 0x80 = 0"
  shows "\<exists>k'. rtc_read dev f k = Some (0, rtc_decode (uint (clock 0x0B) AND 0x04 \<noteq> 0)
    \<lparr>rf_second = uint (clock 0x00), rf_minute = uint (clock 0x02), rf_hour = uint (clock 0x04), rf_day = uint (clock 0x07),
     rf_month = uint (clock 0x08), rf_year = uint (clock 0x09), rf_century = uint (clock 0x32)\<rparr>, k')"
proof -
  have "uint (clock 0x0A) AND 0x80 = uint (clock 0x0A AND 0x80)" by (simp add: uint_and)
  then have a: "uint (clock 0x0A) AND 0x80 = 0" using assms(2) by simp
  have "rtc_wait dev k = Some (k + 1)" for k
    by (subst rtc_wait.simps) (simp add: cmos_read_def assms(1) a)
  then show ?thesis
    by (simp add: rtc_read_def rtc_try_def rtc_fields_read_def cmos_read_def assms(1) a numeral_3_eq_3)
qed

text \<open>With interrupts disabled a wait for a later tick never ends; with them enabled it ends with the last tick it needs.\<close>

lemma timer_sleep_disabled:
  assumes "freq_hz s \<noteq> 0" and "ticks s < ticks s + ucast (freq_hz s) * ucast ms div 1000"
  shows "timer_sleep False ms irqs s = None"
  using assms by (simp add: timer_sleep_def wait_ticks.simps)

lemma wait_ticks_enabled:
  assumes "unat (ticks s) + n < 2 ^ 64"
  shows "wait_ticks True (ticks s + of_nat n) (replicate n True @ irqs) s = Some (irqs, s\<lparr>ticks := ticks s + of_nat n\<rparr>)"
  using assms
proof (induction n arbitrary: s)
  case 0
  then show ?case by (simp add: wait_ticks.simps)
next
  case (Suc n)
  have un: "unat (of_nat (Suc n) :: u64) = Suc n" using Suc.prems by (intro unat_of_nat64) simp
  have "unat (ticks s + of_nat (Suc n)) = unat (ticks s) + Suc n"
    using Suc.prems un unat_add_nowrap [of "ticks s" "of_nat (Suc n)"] by simp
  then have "ticks s < ticks s + of_nat (Suc n)" by (simp add: word_less_nat_alt)
  moreover have "unat (ticks s + 1) = Suc (unat (ticks s))"
    using Suc.prems unat_add_nowrap [of "ticks s" 1] by simp
  ultimately show ?case using Suc.IH [of "timer_tick_handler s"] Suc.prems
    by (subst wait_ticks.simps) (simp add: timer_tick_handler_def add.assoc)
qed

end
