(* ===== verification/Path.thy ===== *)
theory Path
  imports Prelude
begin

text \<open>
  The paths of the system calls, \<^verbatim>\<open>normalize_path\<close> of \<^verbatim>\<open>kernel/proc/syscall.c\<close>: a path is made absolute with
  the current directory and its components \<^verbatim>\<open>.\<close> and \<^verbatim>\<open>..\<close> are resolved.
\<close>

section \<open>Definitions\<close>

text \<open>
  \<^verbatim>\<open>temp\<close> is the list of its characters below \<^verbatim>\<open>t_idx\<close>; the character at \<^verbatim>\<open>t_idx\<close> is the NUL.  (With a
  current directory of 255 characters or more and no slash at its end the NUL is one byte behind the
  array; the working directory is never empty.)
\<close>

definition norm_start :: "string \<Rightarrow> string \<Rightarrow> string \<times> string" where
  "norm_start cwd input =
     (if input \<noteq> [] \<and> hd input = CHR ''/'' then (''/'', tl input)
      else let t = take 255 cwd in (if t \<noteq> [] \<and> last t = CHR ''/'' then t else t @ ''/'', input))"

fun scan_up :: "string \<Rightarrow> nat \<Rightarrow> nat" where
  "scan_up t i = (if 0 < i \<and> t ! i \<noteq> CHR ''/'' then scan_up t (i - 1) else i)"

declare scan_up.simps [simp del]

definition norm_segment :: "string \<Rightarrow> string \<Rightarrow> string" where
  "norm_segment seg t =
     (if seg = ''.'' then t
      else if seg = ''..''
      then if 1 < length t then take (max 1 (scan_up t (length t - 1))) t else t
      else let t = (if 1 < length t \<and> last t \<noteq> CHR ''/'' \<and> length t < 255 then t @ ''/'' else t)
           in t @ take (255 - length t) seg)"

function norm_loop :: "string \<Rightarrow> string \<Rightarrow> string" where
  "norm_loop t [] = t"
| "norm_loop t (c # cs) =
     (if c = CHR ''/'' then norm_loop t cs
      else let seg = take 63 (takeWhile (\<lambda>c. c \<noteq> CHR ''/'') (c # cs))
           in norm_loop (norm_segment seg t) (drop (length seg) (c # cs)))"
  by pat_completeness auto
termination
  by (relation "measure (\<lambda>(t, cs). length cs)") auto

declare norm_loop.simps [simp del]

definition normalize_path :: "string \<Rightarrow> string \<Rightarrow> nat \<Rightarrow> string" where
  "normalize_path cwd input max_len =
     (case norm_start cwd input of (t, input) \<Rightarrow> take (max_len - 1) (norm_loop t input))"

section \<open>Components\<close>

text \<open>The components of a path: the pieces between slashes that are not empty.\<close>

function components :: "string \<Rightarrow> string list" where
  "components [] = []"
| "components (c # cs) =
     (if c = CHR ''/'' then components cs
      else takeWhile (\<lambda>c. c \<noteq> CHR ''/'') (c # cs) # components (dropWhile (\<lambda>c. c \<noteq> CHR ''/'') (c # cs)))"
  by pat_completeness auto
termination
  by (relation "measure length") (auto simp: less_Suc_eq_le length_dropWhile_le)

declare components.simps [simp del]

text \<open>
  What the loop computes: a list of components, and whether \<^verbatim>\<open>temp\<close> ends with a slash behind them.  A \<^verbatim>\<open>..\<close> that
  finds the slash removes only it.
\<close>

fun enter :: "string \<Rightarrow> string list \<times> bool \<Rightarrow> string list \<times> bool" where
  "enter seg (ss, slash) =
     (if seg = ''.'' then (ss, slash)
      else if seg = ''..'' then (if slash then (ss, False) else (butlast ss, False))
      else (ss @ [seg], False))"

definition joined :: "string list \<Rightarrow> string" where
  "joined ss = concat (map (Cons (CHR ''/'')) ss)"

definition render :: "string list \<times> bool \<Rightarrow> string" where
  "render p = (case p of (ss, slash) \<Rightarrow> if ss = [] then ''/'' else joined ss @ (if slash then ''/'' else []))"

definition proper :: "string \<Rightarrow> bool" where
  "proper seg \<longleftrightarrow> seg \<noteq> [] \<and> CHR ''/'' \<notin> set seg"

lemma components_proper: "seg \<in> set (components cs) \<Longrightarrow> proper seg"
proof (induction cs rule: components.induct)
  case (2 c cs)
  show ?case
  proof (cases "c = CHR ''/''")
    case True
    then show ?thesis using 2 by (simp add: components.simps)
  next
    case False
    then have "components (c # cs) =
        takeWhile (\<lambda>c. c \<noteq> CHR ''/'') (c # cs) # components (dropWhile (\<lambda>c. c \<noteq> CHR ''/'') (c # cs))"
      by (subst components.simps) (simp only: if_False)
    then show ?thesis using 2 False by (auto simp: proper_def dest: set_takeWhileD)
  qed
qed (simp add: components.simps)

lemma joined_simps [simp]: "joined [] = []" "joined (ss @ ts) = joined ss @ joined ts" "joined (s # ss) = CHR ''/'' # s @ joined ss"
  by (simp_all add: joined_def)

lemma joined_Nil_iff [simp]: "joined ss = [] \<longleftrightarrow> ss = []"
  by (cases ss) simp_all

lemma joined_last:
  assumes "\<forall>s \<in> set ss. proper s" and "ss \<noteq> []"
  shows "last (joined ss) \<noteq> CHR ''/''" and "1 < length (joined ss)"
proof -
  obtain rs s where ss: "ss = rs @ [s]" using assms(2) by (cases ss rule: rev_cases) auto
  then have "s \<noteq> []" "CHR ''/'' \<notin> set s" using assms(1) by (simp_all add: proper_def)
  moreover from this have "last s \<noteq> CHR ''/''" using last_in_set by metis
  ultimately show "last (joined ss) \<noteq> CHR ''/''" "1 < length (joined ss)" by (cases s; simp add: ss)+
qed

lemma scan_up_seg:
  assumes "CHR ''/'' \<notin> set seg" and "i < length seg"
  shows "scan_up (u @ CHR ''/'' # seg) (length u + 1 + i) = length u"
  using assms(2)
proof (induction i)
  case 0
  have "(u @ CHR ''/'' # seg) ! (length u + 1) = seg ! 0" by (simp add: nth_append)
  moreover have "seg ! 0 \<noteq> CHR ''/''" using assms(1) 0 nth_mem by fastforce
  moreover have "(u @ CHR ''/'' # seg) ! length u = CHR ''/''" by simp
  ultimately show ?case by (subst scan_up.simps, subst scan_up.simps) simp
next
  case (Suc i)
  have "(u @ CHR ''/'' # seg) ! (length u + 1 + Suc i) = seg ! Suc i" by (simp add: nth_append)
  moreover have "seg ! Suc i \<noteq> CHR ''/''" using assms(1) Suc.prems nth_mem by fastforce
  ultimately show ?case using Suc by (subst scan_up.simps) simp
qed

text \<open>One component, as long as the array has room.\<close>

lemma norm_segment_enter:
  assumes "\<forall>s \<in> set ss. proper s" and "proper seg" and "length (render (ss, slash)) + length seg < 255"
  shows "norm_segment seg (render (ss, slash)) = render (enter seg (ss, slash))"
proof -
  consider "seg = ''.''" | "seg = ''..''" "ss = []" | "seg = ''..''" "ss \<noteq> []" "slash"
    | "seg = ''..''" "ss \<noteq> []" "\<not> slash" | "seg \<noteq> ''.''" "seg \<noteq> ''..''" by blast
  then show ?thesis
  proof cases
    case 1
    then show ?thesis by (simp add: norm_segment_def)
  next
    case 2
    then show ?thesis by (simp add: norm_segment_def render_def)
  next
    case 3
    let ?t = "joined ss @ ''/''"
    have "scan_up ?t (length (joined ss)) = length (joined ss)" by (subst scan_up.simps) simp
    moreover have "0 < length (joined ss)" using 3 by simp
    ultimately show ?thesis using 3 by (simp add: norm_segment_def render_def max_def Suc_le_eq)
  next
    case 4
    obtain rs s where ss: "ss = rs @ [s]" using 4(2) by (cases ss rule: rev_cases) auto
    have s: "s \<noteq> []" "CHR ''/'' \<notin> set s" using assms(1) ss by (simp_all add: proper_def)
    have "length (joined rs) + 1 + (length s - 1) = length (joined ss) - 1" using s by (cases s) (simp_all add: ss)
    moreover have "scan_up (joined rs @ CHR ''/'' # s) (length (joined rs) + 1 + (length s - 1)) = length (joined rs)"
      using s by (intro scan_up_seg) simp_all
    ultimately have "scan_up (joined ss) (length (joined ss) - 1) = length (joined rs)" by (simp only:) (simp add: ss)
    moreover have "1 < length (joined ss)" using s by (cases s) (simp_all add: ss)
    moreover have "take (max 1 (length (joined rs))) (joined ss) = render (rs, False)"
      by (cases "rs = []") (simp_all add: ss render_def max_def Suc_le_eq)
    ultimately show ?thesis using 4 ss by (simp add: norm_segment_def render_def)
  next
    case 5
    show ?thesis
    proof (cases "ss = []")
      case True
      then show ?thesis using 5 assms(3) by (simp add: norm_segment_def render_def)
    next
      case False
      then show ?thesis using joined_last [OF assms(1)] 5 assms(3) by (cases slash) (simp_all add: norm_segment_def render_def)
    qed
  qed
qed

lemma enter_proper:
  "\<forall>s \<in> set (fst p). proper s \<Longrightarrow> proper seg \<Longrightarrow> \<forall>s \<in> set (fst (enter seg p)). proper s"
  by (cases p) (auto dest: in_set_butlastD)

lemma render_length:
  "length (render p) \<le> length (joined (fst p)) + 1"
  by (cases p) (auto simp: render_def)

lemma joined_butlast: "length (joined (butlast ss)) \<le> length (joined ss)"
  by (cases ss rule: rev_cases) simp_all

lemma enter_length: "length (joined (fst (enter seg p))) \<le> length (joined (fst p)) + 1 + length seg"
  using joined_butlast [of "fst p"] by (cases p) auto

text \<open>The whole loop.\<close>

lemma norm_loop_enter:
  assumes "\<forall>s \<in> set (fst p). proper s" and "\<forall>seg \<in> set (components cs). length seg < 64"
    and "length (joined (fst p)) + length (joined (components cs)) < 254"
  shows "norm_loop (render p) cs = render (fold enter (components cs) p)"
  using assms
proof (induction cs arbitrary: p rule: components.induct)
  case 1
  then show ?case by (simp add: components.simps norm_loop.simps)
next
  case (2 c cs)
  show ?case
  proof (cases "c = CHR ''/''")
    case True
    then show ?thesis using 2 by (simp add: components.simps norm_loop.simps)
  next
    case False
    define seg rest where "seg = takeWhile (\<lambda>c. c \<noteq> CHR ''/'') (c # cs)"
      and "rest = dropWhile (\<lambda>c. c \<noteq> CHR ''/'') (c # cs)"
    have comp: "components (c # cs) = seg # components rest"
      using False by (subst components.simps) (simp only: if_False seg_def rest_def)
    have seg: "proper seg" using components_proper [of seg "c # cs"] comp by simp
    have rest: "drop (length seg) (c # cs) = rest" unfolding seg_def rest_def by (rule dropWhile_eq_drop [symmetric])
    have "take 63 seg = seg" using 2(4) comp by simp
    then have nl: "norm_loop (render p) (c # cs) = norm_loop (norm_segment seg (render p)) rest"
      using False rest by (subst norm_loop.simps) (simp only: if_False Let_def seg_def [symmetric])
    have len: "length (joined (fst p)) + 1 + length seg + length (joined (components rest)) < 254"
      using 2(5) comp by simp
    have "norm_segment seg (render p) = render (enter seg p)"
      using norm_segment_enter [of "fst p" seg "snd p"] 2(3) seg render_length [of p] len by simp
    moreover have "norm_loop (render (enter seg p)) rest = render (fold enter (components rest) (enter seg p))"
      using 2(2) [OF False, folded rest_def] enter_proper [OF 2(3) seg] 2(4) comp enter_length [of seg p] len by simp
    ultimately show ?thesis using nl comp by simp
  qed
qed

lemma normalize_path_enter:
  assumes "\<forall>d \<in> set ds. proper d" and "\<forall>seg \<in> set (components input). length seg < 64"
    and "length (joined ds) + length (joined (components input)) < 254"
  shows "normalize_path (render (ds, False)) input 256 =
    render (fold enter (components input) (if input \<noteq> [] \<and> hd input = CHR ''/'' then ([], False) else (ds, True)))"
proof -
  define p where "p = (if input \<noteq> [] \<and> hd input = CHR ''/'' then ([] :: string list, False) else (ds, True))"
  define cs where "cs = (if input \<noteq> [] \<and> hd input = CHR ''/'' then tl input else input)"
  have comp: "components cs = components input"
    by (cases input) (auto simp: cs_def components.simps)
  have rd: "length (render (ds, False)) < 255" using assms(3) render_length [of "(ds, False)"] by simp
  have start: "norm_start (render (ds, False)) input = (render p, cs)"
  proof (cases "input \<noteq> [] \<and> hd input = CHR ''/''")
    case True
    then show ?thesis by (simp add: norm_start_def p_def cs_def render_def)
  next
    case False
    then show ?thesis using joined_last [OF assms(1)] rd by (auto simp: norm_start_def p_def cs_def render_def Let_def)
  qed
  have fp: "\<forall>s \<in> set (fst p). proper s" "length (joined (fst p)) \<le> length (joined ds)" using assms(1) by (simp_all add: p_def)
  have nl: "norm_loop (render p) cs = render (fold enter (components input) p)"
    using norm_loop_enter [of p cs] fp assms(2,3) comp by simp
  have "length (joined (fst (fold enter xs q))) \<le> length (joined (fst q)) + length (joined xs)" for xs q
  proof (induction xs arbitrary: q)
    case (Cons x xs)
    show ?case using Cons.IH [of "enter x q"] enter_length [of x q] by simp
  qed simp
  from this [of "components input" p] have "length (render (fold enter (components input) p)) \<le> 255"
    using render_length [of "fold enter (components input) p"] fp(2) assms(3) by simp
  then show ?thesis by (simp add: normalize_path_def start nl p_def [symmetric])
qed

text \<open>
  C12 (equivalence): \<^verbatim>\<open>normalize_path\<close> computes the components of its result: from the root or, for a
  relative path, from the components \<open>ds\<close> of the current directory, every component of the input is
  entered in turn, where \<^verbatim>\<open>.\<close> stays and \<^verbatim>\<open>..\<close> goes up.  For an absolute path that is the usual normal form.
  For a relative path the first \<^verbatim>\<open>..\<close> before any other name only removes the slash behind the current
  directory, so \<^verbatim>\<open>..\<close> alone stays where it is.  (The components have fewer than 64 characters and
  everything fits into the buffers.)
\<close>

theorem normalize_path_components:
  assumes "\<forall>d \<in> set ds. proper d" and "\<forall>seg \<in> set (components input). length seg < 64"
    and "length (joined ds) + length (joined (components input)) < 254"
  shows "normalize_path (render (ds, False)) input 256 =
    render (fold enter (components input) (if input \<noteq> [] \<and> hd input = CHR ''/'' then ([], False) else (ds, True)))"
  using assms by (rule normalize_path_enter)

theorem normalize_path_components_witness:
  "normalize_path (render ([''home''], False)) ''../etc/./x'' 256 =
    render (fold enter (components ''../etc/./x'') ([''home''], True))"
  using normalize_path_components [of "[''home'']" "''../etc/./x''"] by (simp add: components.simps proper_def)

text \<open>So \<^verbatim>\<open>..\<close> from a directory below the root is that directory, and \<^verbatim>\<open>.\<close> adds a slash.\<close>

lemma normalize_dotdot_stays:
  assumes "\<forall>d \<in> set ds. proper d" and "ds \<noteq> []" and "length (joined ds) < 250"
  shows "normalize_path (render (ds, False)) ''..'' 256 = render (ds, False)"
    and "normalize_path (render (ds, False)) ''.'' 256 = render (ds, False) @ ''/''"
  using normalize_path_enter [of ds "''..''"] normalize_path_enter [of ds "''.''"] assms
  by (simp_all add: components.simps, simp_all add: render_def)

end
