(* ===== verification/Syscall.thy ===== *)
theory Syscall
  imports Task Keyboard Framebuffer Clock Format Path
begin

text \<open>
  System calls, \<^verbatim>\<open>kernel/proc/syscall.c\<close>.  The kernel is the machine of theory Task together with the
  keyboard, the consoles, the pipes, the clock and the ports.  The handlers use the user's pointers
  directly, so they read and write memory through the page tables \<^verbatim>\<open>cr3\<close> points to; an address that is
  not mapped is a page fault in the kernel, whose handler panics.
\<close>

section \<open>The kernel\<close>

record ('d, 'x) kernel =
  k_sys :: "('d, 'x) sys"
  k_kbd :: kbd
  k_irqs :: bytes
  k_vga :: vga
  k_fb :: fb
  k_serial :: bytes
  k_pipes :: "u64 \<Rightarrow> pipe_inode"
  k_timer :: timer
  k_cmos :: nat
  k_ports :: "(u16 \<times> u16) list"

text \<open>Data the kernel is built with or finds: the font, the clock chip, and what local variables hold before they are set.\<close>

record hardware =
  hw_font :: font
  hw_cmos :: cmos
  hw_junk :: rtc_fields

text \<open>
  How a handler ends: with a value for \<^verbatim>\<open>rax\<close>, with a new frame, with another stack to return to, or not at
  all: the machine stops, or the thread is left for the stack of another one.
\<close>

datatype sysres = Value u64 | Frame pushaq_frame | Stack u64 | Stopped | Left u64

abbreviation fails :: "('d, 'x) kernel \<Rightarrow> (sysres \<times> ('d, 'x) kernel) option" where
  "fails k \<equiv> Some (Value (- 1), k)"

abbreviation crash :: "('d, 'x) kernel \<Rightarrow> (sysres \<times> ('d, 'x) kernel) option" where
  "crash k \<equiv> Some (Stopped, k)"

text \<open>The casts \<^verbatim>\<open>(int)frame->rdi\<close> and \<^verbatim>\<open>(uint64_t)r\<close>.\<close>

definition int_arg :: "u64 \<Rightarrow> int" where "int_arg w = sint (ucast w :: u32)"

definition ret_int :: "int \<Rightarrow> sysres" where "ret_int r = Value (word_of_int r)"

section \<open>User memory\<close>

text \<open>The processor's translation with \<open>n\<close> levels below the table \<open>t\<close>; a huge page ends it one or two levels early.\<close>

fun vtrans :: "mem64 \<Rightarrow> nat \<Rightarrow> u64 \<Rightarrow> u64 \<Rightarrow> u64 option" where
  "vtrans m n t v =
     (let e = m (entry_addr t (pt_idx (3 - n) v)) in
      if \<not> present e then None
      else (case n of
              0 \<Rightarrow> Some (page_base e + page_off v)
            | Suc j \<Rightarrow>
                if n < 3 \<and> huge e
                then Some ((e AND NOT (mask (12 + 9 * n))) + (v AND mask (12 + 9 * n)))
                else vtrans m j (page_base e) v))"

declare vtrans.simps [simp del]

definition user_get :: "u64 \<Rightarrow> ('d, 'x) sys \<Rightarrow> u8 option" where
  "user_get p s = map_option (\<lambda>a. load8 a (pmem s)) (vtrans (pmem s) 3 (cr3 s) p)"

definition user_put :: "u64 \<Rightarrow> u8 \<Rightarrow> ('d, 'x) sys \<Rightarrow> ('d, 'x) sys option" where
  "user_put p b s = map_option (\<lambda>a. s\<lparr>pmem := store8 a b (pmem s)\<rparr>) (vtrans (pmem s) 3 (cr3 s) p)"

fun user_load :: "u64 \<Rightarrow> nat \<Rightarrow> ('d, 'x) sys \<Rightarrow> bytes option" where
  "user_load p 0 s = Some []"
| "user_load p (Suc n) s = do { b \<leftarrow> user_get p s; bs \<leftarrow> user_load (p + 1) n s; Some (b # bs) }"

fun user_store :: "u64 \<Rightarrow> bytes \<Rightarrow> ('d, 'x) sys \<Rightarrow> ('d, 'x) sys option" where
  "user_store p [] s = Some s"
| "user_store p (b # bs) s = do { s \<leftarrow> user_put p b s; user_store (p + 1) bs s }"

definition user_load64 :: "u64 \<Rightarrow> ('d, 'x) sys \<Rightarrow> u64 option" where
  "user_load64 p s = map_option (\<lambda>bs. le64 bs 0) (user_load p 8 s)"

text \<open>
  The outer option of \<^verbatim>\<open>strncpy_from_user\<close> is \<open>None\<close> for a page fault, the inner one for the result -1.  When
  no NUL is found in \<open>n\<close> bytes the last of them is replaced by one.
\<close>

fun copy_str :: "nat \<Rightarrow> u64 \<Rightarrow> ('d, 'x) sys \<Rightarrow> string option" where
  "copy_str 0 p s = Some []"
| "copy_str (Suc n) p s =
     do { b \<leftarrow> user_get p s;
          if b = 0 then Some [] else do { cs \<leftarrow> copy_str n (p + 1) s; Some (char_of (unat b) # cs) } }"

definition strncpy_from_user :: "u64 \<Rightarrow> nat \<Rightarrow> ('d, 'x) sys \<Rightarrow> string option option" where
  "strncpy_from_user src mx s =
     (if src = 0 \<or> mx = 0 then Some None else map_option (\<lambda>cs. Some (take (mx - 1) cs)) (copy_str mx src s))"

text \<open>
  A string of the argument vector, without a bound; \<open>None\<close> when it never ends, \<open>Some None\<close> for a page
  fault.  The vector itself is read before the call that uses it.
\<close>

partial_function (option) user_str :: "u64 \<Rightarrow> ('d, 'x) sys \<Rightarrow> string option option" where
  "user_str p s =
     (case user_get p s of
        None \<Rightarrow> Some None
      | Some b \<Rightarrow>
          if b = 0 then Some (Some [])
          else do { r \<leftarrow> user_str (p + 1) s; Some (map_option (Cons (char_of (unat b))) r) })"

fun user_args :: "nat \<Rightarrow> u64 \<Rightarrow> ('d, 'x) sys \<Rightarrow> string option list option option" where
  "user_args 0 p s = Some (Some [])"
| "user_args (Suc n) p s =
     (case user_load64 p s of
        None \<Rightarrow> Some None
      | Some a \<Rightarrow>
          do { r \<leftarrow> (if a = 0 then Some (Some None) else do { t \<leftarrow> user_str a s; Some (map_option Some t) });
               rs \<leftarrow> user_args n (p + 8) s;
               Some (case (r, rs) of (Some x, Some xs) \<Rightarrow> Some (x # xs) | _ \<Rightarrow> None) })"

definition with_argv ::
  "int \<Rightarrow> u64 \<Rightarrow> ('d, 'x) kernel \<Rightarrow> (string option list option \<Rightarrow> (sysres \<times> ('d, 'x) kernel) option) \<Rightarrow>
     (sysres \<times> ('d, 'x) kernel) option" where
  "with_argv argc argv k f =
     (if argv = 0 then f None
      else do { r \<leftarrow> user_args (nat (min argc 64)) argv (k_sys k);
                (case r of None \<Rightarrow> crash k | Some v \<Rightarrow> f (Some v)) })"

section \<open>Helpers\<close>

definition fs_call ::
  "(('d, 'x) vfs \<Rightarrow> ('a \<times> ('d, 'x) vfs) option) \<Rightarrow> ('d, 'x) kernel \<Rightarrow> ('a \<times> ('d, 'x) kernel) option" where
  "fs_call f k = do { (r, s) \<leftarrow> on_fs f (k_sys k); Some (r, k\<lparr>k_sys := s\<rparr>) }"

definition fs_call3 ::
  "(('d, 'x) vfs \<Rightarrow> ('a \<times> 'b \<times> ('d, 'x) vfs) option) \<Rightarrow> ('d, 'x) kernel \<Rightarrow> ('a \<times> 'b \<times> ('d, 'x) kernel) option" where
  "fs_call3 f k = do { (a, b, v) \<leftarrow> f (fsys (k_sys k)); Some (a, b, k\<lparr>k_sys := (k_sys k)\<lparr>fsys := v\<rparr>\<rparr>) }"

definition with_path ::
  "u64 \<Rightarrow> ('d, 'x) kernel \<Rightarrow> (string \<Rightarrow> (sysres \<times> ('d, 'x) kernel) option) \<Rightarrow> (sysres \<times> ('d, 'x) kernel) option" where
  "with_path p k f =
     (case strncpy_from_user p 256 (k_sys k) of
        None \<Rightarrow> crash k
      | Some None \<Rightarrow> fails k
      | Some (Some path) \<Rightarrow> f path)"

text \<open>\<^verbatim>\<open>!current_task || current_task->pid == 0\<close>\<close>

definition with_task ::
  "('d, 'x) kernel \<Rightarrow> (nat \<Rightarrow> (sysres \<times> ('d, 'x) kernel) option) \<Rightarrow> (sysres \<times> ('d, 'x) kernel) option" where
  "with_task k f =
     (case current_task (k_sys k) of
        None \<Rightarrow> fails k
      | Some c \<Rightarrow> if t_pid (task_at c (k_sys k)) = 0 then fails k else f c)"

text \<open>\<^verbatim>\<open>!current_task || fd < 0 || fd >= MAX_FDS || !current_task->fds[fd]\<close>\<close>

definition with_fd ::
  "int \<Rightarrow> ('d, 'x) kernel \<Rightarrow> (nat \<Rightarrow> nat \<Rightarrow> (sysres \<times> ('d, 'x) kernel) option) \<Rightarrow> (sysres \<times> ('d, 'x) kernel) option" where
  "with_fd fd k f =
     (case current_task (k_sys k) of
        None \<Rightarrow> fails k
      | Some c \<Rightarrow>
          if fd < 0 \<or> int MAX_FDS \<le> fd then fails k
          else (case t_fds (task_at c (k_sys k)) ! nat fd of None \<Rightarrow> fails k | Some file \<Rightarrow> f c file))"

definition set_fd :: "nat \<Rightarrow> nat \<Rightarrow> nat option \<Rightarrow> ('d, 'x) kernel \<Rightarrow> ('d, 'x) kernel" where
  "set_fd c fd file k = k\<lparr>k_sys := set_task c (t_fds_update (\<lambda>fds. fds[fd := file])) (k_sys k)\<rparr>"

definition free_fd :: "nat \<Rightarrow> ('d, 'x) kernel \<Rightarrow> nat option" where
  "free_fd c k = find (\<lambda>i. t_fds (task_at c (k_sys k)) ! i = None) [0..<MAX_FDS]"

definition serial_out :: "bytes \<Rightarrow> ('d, 'x) kernel \<Rightarrow> ('d, 'x) kernel" where
  "serial_out cs k = k\<lparr>k_serial := k_serial k @ cs\<rparr>"

definition serial_printf :: "bytes \<Rightarrow> varg list \<Rightarrow> ('d, 'x) kernel \<Rightarrow> ('d, 'x) kernel option" where
  "serial_printf fmt args k = kvformat (\<lambda>c. serial_out [c]) fmt args k"

definition port_out :: "u16 \<Rightarrow> u16 \<Rightarrow> ('d, 'x) kernel \<Rightarrow> ('d, 'x) kernel" where
  "port_out port v k = k\<lparr>k_ports := k_ports k @ [(port, v)]\<rparr>"

definition user_out :: "u64 \<Rightarrow> bytes \<Rightarrow> sysres \<Rightarrow> ('d, 'x) kernel \<Rightarrow> (sysres \<times> ('d, 'x) kernel) option" where
  "user_out p bs r k =
     (case user_store p bs (k_sys k) of None \<Rightarrow> crash k | Some s \<Rightarrow> Some (r, k\<lparr>k_sys := s\<rparr>))"

section \<open>Reading and writing\<close>

text \<open>One character on the serial port, the text console and the framebuffer.\<close>

definition console_putc :: "hardware \<Rightarrow> u8 \<Rightarrow> ('d, 'x) kernel \<Rightarrow> ('d, 'x) kernel option" where
  "console_putc H c k =
     (let k = serial_out [c] k;
          k = k\<lparr>k_vga := vga_putchar c (vga_default_color (k_vga k)) (k_vga k)\<rparr>
      in if fb_available (k_fb k)
         then do { b \<leftarrow> fb_putchar (hw_font H) c (k_fb k); Some (k\<lparr>k_fb := b\<rparr>) }
         else Some k)"

fun write_chars :: "hardware \<Rightarrow> nat \<Rightarrow> u64 \<Rightarrow> ('d, 'x) kernel \<Rightarrow> (bool \<times> ('d, 'x) kernel) option" where
  "write_chars H 0 p k = Some (True, k)"
| "write_chars H (Suc n) p k =
     (case user_get p (k_sys k) of
        None \<Rightarrow> Some (False, k)
      | Some c \<Rightarrow> do { k \<leftarrow> console_putc H c k; write_chars H n (p + 1) k })"

definition sys_write :: "hardware \<Rightarrow> int \<Rightarrow> u64 \<Rightarrow> u64 \<Rightarrow> ('d, 'x) kernel \<Rightarrow> (sysres \<times> ('d, 'x) kernel) option" where
  "sys_write H fd buf cnt k =
     (if fd = 1 \<or> fd = 2
      then do { (ok, k) \<leftarrow> write_chars H (unat cnt) buf k; Some (if ok then Value cnt else Stopped, k) }
      else Some (Value cnt, k))"

text \<open>The keyboard, one character at a time; the inner loop is the one of the character device.\<close>

fun read_keys :: "nat \<Rightarrow> u64 \<Rightarrow> ('d, 'x) kernel \<Rightarrow> (bool \<times> ('d, 'x) kernel) option" where
  "read_keys 0 p k = Some (True, k)"
| "read_keys (Suc n) p k =
     do { (cs, irqs, kb) \<leftarrow> keyboard_chr_read 1 (k_irqs k) (k_kbd k);
          let k = k\<lparr>k_irqs := irqs, k_kbd := kb\<rparr>;
          (case user_store p cs (k_sys k) of
             None \<Rightarrow> Some (False, k)
           | Some s \<Rightarrow> read_keys n (p + 1) (k\<lparr>k_sys := s\<rparr>)) }"

definition sys_read :: "('d, 'x) env \<Rightarrow> int \<Rightarrow> u64 \<Rightarrow> u64 \<Rightarrow> ('d, 'x) kernel \<Rightarrow> (sysres \<times> ('d, 'x) kernel) option" where
  "sys_read E fd buf cnt k =
     (if fd = 0
      then do { (ok, k) \<leftarrow> read_keys (unat cnt) buf k; Some (if ok then Value cnt else Stopped, k) }
      else with_fd fd k (\<lambda>c file.
        do { (r, bs, k) \<leftarrow> fs_call3 (vfs_read E (Some file) cnt (buf \<noteq> 0)) k;
             user_out buf bs (ret_int r) k }))"

definition sys_lseek :: "int \<Rightarrow> u64 \<Rightarrow> int \<Rightarrow> ('d, 'x) kernel \<Rightarrow> (sysres \<times> ('d, 'x) kernel) option" where
  "sys_lseek fd offset whence k =
     with_fd fd k (\<lambda>c file.
       let v = fsys (k_sys k);
           f = file_table v ! file;
           f = (if whence = 0 then f\<lparr>vf_offset := offset\<rparr>
                else if whence = 1 then f\<lparr>vf_offset := vf_offset f + offset\<rparr>
                else if whence = 2 \<and> vf_inode f \<noteq> 0 then f\<lparr>vf_offset := vi_size (inodes v (vf_inode f)) + offset\<rparr>
                else f)
       in Some (Value 0, k\<lparr>k_sys := (k_sys k)\<lparr>fsys := v\<lparr>file_table := (file_table v)[file := f]\<rparr>\<rparr>\<rparr>))"

section \<open>Files\<close>

definition open_flags :: "u64 \<Rightarrow> u32" where
  "open_flags user_flags =
     (let u = ucast user_flags :: u32;
          f = (if u AND 3 = 0 then VFS_O_READ else if u AND 3 = 1 then VFS_O_WRITE
               else if u AND 3 = 2 then VFS_O_READ OR VFS_O_WRITE else 0)
      in if u AND 0x40 \<noteq> 0 then f OR VFS_O_CREAT else f)"

definition sys_open :: "('d, 'x) env \<Rightarrow> u64 \<Rightarrow> u64 \<Rightarrow> ('d, 'x) kernel \<Rightarrow> (sysres \<times> ('d, 'x) kernel) option" where
  "sys_open E path flags k =
     with_path path k (\<lambda>path. with_task k (\<lambda>c.
       do { (f, k) \<leftarrow> fs_call (vfs_open E path (open_flags flags)) k;
            if f = None then fails k
            else (case free_fd c k of
                    None \<Rightarrow> do { (_, k) \<leftarrow> fs_call (vfs_close E f) k; fails k }
                  | Some fd \<Rightarrow> Some (Value (of_nat fd), set_fd c fd f k)) }))"

definition sys_close :: "('d, 'x) env \<Rightarrow> int \<Rightarrow> ('d, 'x) kernel \<Rightarrow> (sysres \<times> ('d, 'x) kernel) option" where
  "sys_close E fd k =
     with_fd fd k (\<lambda>c file.
       do { (_, k) \<leftarrow> fs_call (vfs_close E (Some file)) k; Some (Value 0, set_fd c (nat fd) None k) })"

definition type_code :: "vfs_inode_type \<Rightarrow> u64" where
  "type_code t = (case t of VFS_FILE \<Rightarrow> 0 | VFS_DIR \<Rightarrow> 1 | VFS_BLKDEV \<Rightarrow> 2 | VFS_CHRDEV \<Rightarrow> 3)"

text \<open>What the calls store for the user: a \<^verbatim>\<open>struct vfs_dentry\<close> and a \<^verbatim>\<open>struct stat\<close> (the padding is not written).\<close>

definition put_dentry :: "u64 \<Rightarrow> vfs_dentry \<Rightarrow> ('d, 'x) sys \<Rightarrow> ('d, 'x) sys option" where
  "put_dentry p e s =
     do { s \<leftarrow> user_store p (str_bytes8 (de_name e)) s;
          s \<leftarrow> user_store (p + 256) (le_bytes 8 (de_ino e)) s;
          s \<leftarrow> user_store (p + 264) (le_bytes 4 (type_code (de_type e))) s;
          user_store (p + 272) (le_bytes 8 (de_size e)) s }"

definition put_stat :: "u64 \<Rightarrow> vfs_dentry \<Rightarrow> ('d, 'x) sys \<Rightarrow> ('d, 'x) sys option" where
  "put_stat p e s =
     do { s \<leftarrow> user_store p (le_bytes 8 0) s;
          s \<leftarrow> user_store (p + 8) (le_bytes 8 (de_ino e)) s;
          s \<leftarrow> user_store (p + 16) (le_bytes 8 1) s;
          s \<leftarrow> user_store (p + 24) (le_bytes 4 ((if de_type e = VFS_DIR then 0x4000 else 0x8000) OR 0x1FF)) s;
          s \<leftarrow> user_store (p + 32) (le_bytes 8 0) s;
          s \<leftarrow> user_store (p + 40) (le_bytes 8 0) s;
          s \<leftarrow> user_store (p + 48) (le_bytes 8 0) s;
          s \<leftarrow> user_store (p + 56) (le_bytes 8 (de_size e)) s;
          s \<leftarrow> user_store (p + 64) (le_bytes 8 512) s;
          user_store (p + 72) (le_bytes 8 ((de_size e + 511) div 512)) s }"

text \<open>The result \<^verbatim>\<open>struct vfs_dentry\<close> starts out as \<open>empty_dentry\<close>: it is used only when it has been filled.\<close>

definition empty_dentry :: vfs_dentry where
  "empty_dentry = \<lparr>de_name = [], de_ino = 0, de_type = VFS_FILE, de_size = 0\<rparr>"

definition sys_readdir ::
  "('d, 'x) env \<Rightarrow> u64 \<Rightarrow> u64 \<Rightarrow> u64 \<Rightarrow> ('d, 'x) kernel \<Rightarrow> (sysres \<times> ('d, 'x) kernel) option" where
  "sys_readdir E path index entry k =
     with_path path k (\<lambda>path.
       if entry = 0 then fails k
       else do { (r, e, k) \<leftarrow> fs_call3 (vfs_readdir E path (ucast index) empty_dentry) k;
                 if r \<noteq> 0 then Some (ret_int r, k)
                 else (case put_dentry entry e (k_sys k) of
                         None \<Rightarrow> crash k
                       | Some s \<Rightarrow> Some (Value 0, k\<lparr>k_sys := s\<rparr>)) })"

definition sys_stat :: "('d, 'x) env \<Rightarrow> u64 \<Rightarrow> u64 \<Rightarrow> ('d, 'x) kernel \<Rightarrow> (sysres \<times> ('d, 'x) kernel) option" where
  "sys_stat E path st k =
     with_path path k (\<lambda>path.
       do { (r, e, k) \<leftarrow> fs_call3 (vfs_stat E path empty_dentry) k;
            if r \<noteq> 0 then fails k
            else (case put_stat st e (k_sys k) of None \<Rightarrow> crash k | Some s \<Rightarrow> Some (Value 0, k\<lparr>k_sys := s\<rparr>)) })"

text \<open>The calls that first make the path absolute.\<close>

definition full_path :: "nat \<Rightarrow> string \<Rightarrow> ('d, 'x) kernel \<Rightarrow> string" where
  "full_path c path k = normalize_path (t_cwd (task_at c (k_sys k))) path 256"

definition sys_unlink :: "('d, 'x) env \<Rightarrow> u64 \<Rightarrow> ('d, 'x) kernel \<Rightarrow> (sysres \<times> ('d, 'x) kernel) option" where
  "sys_unlink E path k =
     with_path path k (\<lambda>path. with_task k (\<lambda>c.
       do { (r, k) \<leftarrow> fs_call (vfs_unlink E (full_path c path k)) k; if r \<noteq> 0 then fails k else Some (Value 0, k) }))"

definition sys_mkdir :: "('d, 'x) env \<Rightarrow> u64 \<Rightarrow> ('d, 'x) kernel \<Rightarrow> (sysres \<times> ('d, 'x) kernel) option" where
  "sys_mkdir E path k =
     with_path path k (\<lambda>path. with_task k (\<lambda>c.
       do { (r, k) \<leftarrow> fs_call (vfs_mkdir E (full_path c path k)) k; if r \<noteq> 0 then fails k else Some (Value 0, k) }))"

definition sys_rmdir :: "('d, 'x) env \<Rightarrow> u64 \<Rightarrow> ('d, 'x) kernel \<Rightarrow> (sysres \<times> ('d, 'x) kernel) option" where
  "sys_rmdir E path k =
     with_path path k (\<lambda>path. with_task k (\<lambda>c.
       let full = full_path c path k in
       do { (r, e, k) \<leftarrow> fs_call3 (vfs_stat E full empty_dentry) k;
            if r \<noteq> 0 \<or> de_type e \<noteq> VFS_DIR then fails k
            else do { (r, k) \<leftarrow> fs_call (vfs_unlink E full) k; if r \<noteq> 0 then fails k else Some (Value 0, k) } }))"

definition sys_getcwd :: "u64 \<Rightarrow> u64 \<Rightarrow> ('d, 'x) kernel \<Rightarrow> (sysres \<times> ('d, 'x) kernel) option" where
  "sys_getcwd buf sz k =
     with_task k (\<lambda>c.
       let cwd = t_cwd (task_at c (k_sys k)) in
       if buf = 0 \<or> sz = 0 then fails k
       else if unat sz \<le> length cwd then fails k
       else user_out buf (str_bytes8 cwd) (Value 0) k)"

definition sys_chdir :: "('d, 'x) env \<Rightarrow> u64 \<Rightarrow> ('d, 'x) kernel \<Rightarrow> (sysres \<times> ('d, 'x) kernel) option" where
  "sys_chdir E path k =
     with_path path k (\<lambda>path. with_task k (\<lambda>c.
       let target = full_path c path k in
       do { (r, e, k) \<leftarrow> fs_call3 (vfs_stat E target empty_dentry) k;
            if r \<noteq> 0 then fails k
            else Some (Value 0, k\<lparr>k_sys := set_task c (t_cwd_update (\<lambda>_. take 511 target)) (k_sys k)\<rparr>) }))"

text \<open>The page allocator works on the memory of the machine, the rest on its file systems.\<close>

definition sys_pipe :: "('d, 'x) env \<Rightarrow> u64 \<Rightarrow> ('d, 'x) kernel \<Rightarrow> (sysres \<times> ('d, 'x) kernel) option" where
  "sys_pipe E pipefd k =
     (case current_task (k_sys k) of
        None \<Rightarrow> crash k
      | Some c \<Rightarrow>
          do { (r, ends, pipes, fds, s, v) \<leftarrow>
                 vfs_pipe_create E pmm_alloc pmm_free (k_pipes k) (t_fds (task_at c (k_sys k))) (k_sys k) (fsys (k_sys k));
               let k = k\<lparr>k_pipes := pipes, k_sys := set_task c (t_fds_update (\<lambda>_. fds)) (s\<lparr>fsys := v\<rparr>)\<rparr>;
               (case ends of
                  None \<Rightarrow> fails k
                | Some (fd0, fd1) \<Rightarrow>
                    user_out pipefd (le_bytes 4 (of_nat fd0) @ le_bytes 4 (of_nat fd1)) (Value 0) k) })"

definition dup_to :: "nat \<Rightarrow> nat \<Rightarrow> nat \<Rightarrow> ('d, 'x) kernel \<Rightarrow> ('d, 'x) kernel" where
  "dup_to c oldfd newfd k =
     (let (f, v) = vfs_dup (t_fds (task_at c (k_sys k)) ! oldfd) (fsys (k_sys k))
      in set_fd c newfd f (k\<lparr>k_sys := (k_sys k)\<lparr>fsys := v\<rparr>\<rparr>))"

definition sys_dup :: "int \<Rightarrow> ('d, 'x) kernel \<Rightarrow> (sysres \<times> ('d, 'x) kernel) option" where
  "sys_dup oldfd k =
     with_fd oldfd k (\<lambda>c file.
       (case free_fd c k of
          None \<Rightarrow> fails k
        | Some newfd \<Rightarrow> Some (Value (of_nat newfd), dup_to c (nat oldfd) newfd k)))"

definition sys_dup2 :: "('d, 'x) env \<Rightarrow> int \<Rightarrow> int \<Rightarrow> ('d, 'x) kernel \<Rightarrow> (sysres \<times> ('d, 'x) kernel) option" where
  "sys_dup2 E oldfd newfd k =
     (if newfd < 0 \<or> int MAX_FDS \<le> newfd then fails k
      else with_fd oldfd k (\<lambda>c file.
        do { k \<leftarrow> (case t_fds (task_at c (k_sys k)) ! nat newfd of
                     None \<Rightarrow> Some k
                   | Some f \<Rightarrow> do { (_, k) \<leftarrow> fs_call (vfs_close E (Some f)) k; Some (set_fd c (nat newfd) None k) });
             Some (ret_int newfd, dup_to c (nat oldfd) (nat newfd) k) }))"

section \<open>Memory and time\<close>

text \<open>
  The pages from \<open>virt\<close> up to \<open>stop\<close>; the result is whether all could be mapped.  Both are page aligned, so
  the address does not wrap.
\<close>

function brk_pages :: "u64 \<Rightarrow> u64 \<Rightarrow> u64 \<Rightarrow> ('d, 'x) sys \<Rightarrow> (bool \<times> ('d, 'x) sys) option" where
  "brk_pages pml4 virt stop s =
     (if virt < stop
      then do { (phys, s) \<leftarrow> pmm_alloc s;
                if phys = 0 then Some (False, s)
                else do { (r, s) \<leftarrow> vmm_map_page pml4 virt phys (PAGE_USER OR PAGE_WRITE) s;
                          if r \<noteq> 0 then do { s \<leftarrow> pmm_free phys s; Some (False, s) }
                          else if virt + PAGE_SIZE < virt then None
                          else brk_pages pml4 (virt + PAGE_SIZE) stop s } }
      else Some (True, s))"
  by pat_completeness auto
termination
proof (relation "measure (\<lambda>(pml4, virt, stop, s). 2 ^ 64 - unat virt)", simp)
  fix pml4 virt stop :: u64 and s t :: "('d, 'x) sys"
  assume "\<not> virt + PAGE_SIZE < virt"
  then have "unat virt \<le> unat (virt + PAGE_SIZE)" by (simp add: word_less_nat_alt)
  moreover have "virt + PAGE_SIZE \<noteq> virt" by (simp add: PAGE_SIZE_def)
  then have "unat (virt + PAGE_SIZE) \<noteq> unat virt" by (simp only: word_unat_eq_iff not_False_eq_True)
  ultimately have "unat virt < unat (virt + PAGE_SIZE)" by linarith
  then show "((pml4, virt + PAGE_SIZE, stop, t), pml4, virt, stop, s) \<in> measure (\<lambda>(pml4, virt, stop, s). 2 ^ 64 - unat virt)"
    using unat_less_pow64 [of "virt + PAGE_SIZE"] by simp
qed

declare brk_pages.simps [simp del]

definition page_up :: "u64 \<Rightarrow> u64" where
  "page_up a = (a + PAGE_SIZE - 1) AND NOT (PAGE_SIZE - 1)"

definition sys_brk :: "u64 \<Rightarrow> ('d, 'x) kernel \<Rightarrow> (sysres \<times> ('d, 'x) kernel) option" where
  "sys_brk new_brk k =
     with_task k (\<lambda>c.
       let t = task_at c (k_sys k);
           set_brk = (\<lambda>s. k\<lparr>k_sys := set_task c (t_brk_update (\<lambda>_. new_brk)) s\<rparr>)
       in if new_brk = 0 then Some (Value (t_brk t), k)
          else if new_brk < USER_HEAP_START then fails k
          else if new_brk < t_brk t then Some (Value new_brk, set_brk (k_sys k))
          else do { (ok, s) \<leftarrow> brk_pages (t_pml4 t) (page_up (t_brk t)) (page_up new_brk) (k_sys k);
                    if ok then Some (Value new_brk, set_brk s) else fails (k\<lparr>k_sys := s\<rparr>) })"

text \<open>The gate of the system call disables interrupts.\<close>

definition sys_nanosleep :: "u64 \<Rightarrow> ('d, 'x) kernel \<Rightarrow> (sysres \<times> ('d, 'x) kernel) option" where
  "sys_nanosleep ts k =
     (if ts = 0 then fails k
      else (case (user_load64 ts (k_sys k), user_load64 (ts + 8) (k_sys k)) of
              (Some tv_sec, Some tv_nsec) \<Rightarrow>
                let total_ms = tv_sec * 1000 + tv_nsec div 1000000;
                    total_ms = (if 0 < tv_nsec mod 1000000 \<and> total_ms = 0 then 1 else total_ms)
                in do { (_, t) \<leftarrow> timer_sleep False (ucast total_ms) [] (k_timer k);
                        Some (Value 0, k\<lparr>k_timer := t\<rparr>) }
            | _ \<Rightarrow> crash k))"

definition rtc_seconds :: "rtc_time \<Rightarrow> u64" where
  "rtc_seconds tm = ucast (rt_year tm) * 31536000 + ucast (rt_month tm) * 2592000 + ucast (rt_day tm) * 86400 +
     ucast (rt_hour tm) * 3600 + ucast (rt_minute tm) * 60 + ucast (rt_second tm)"

definition sys_clock_gettime :: "hardware \<Rightarrow> u64 \<Rightarrow> ('d, 'x) kernel \<Rightarrow> (sysres \<times> ('d, 'x) kernel) option" where
  "sys_clock_gettime H tp k =
     (if tp = 0 then fails k
      else do { (_, tm, n) \<leftarrow> rtc_read (hw_cmos H) (hw_junk H) (k_cmos k);
                user_out tp (le_bytes 8 (rtc_seconds tm) @ le_bytes 8 0) (Value 0) (k\<lparr>k_cmos := n\<rparr>) })"

section \<open>Processes\<close>

definition of_outcome :: "int outcome \<Rightarrow> sysres" where
  "of_outcome r = (case r of Return v \<Rightarrow> ret_int v | Halted \<Rightarrow> Stopped | Switched p \<Rightarrow> Left p)"

definition sys_exec ::
  "('d, 'x) env \<Rightarrow> pushaq_frame \<Rightarrow> ('d, 'x) kernel \<Rightarrow> (sysres \<times> ('d, 'x) kernel) option" where
  "sys_exec E frame k =
     with_path (fr_rdi frame) k (\<lambda>path. with_task k (\<lambda>c.
       let argc = int_arg (fr_rsi frame) in
       with_argv argc (fr_rdx frame) k (\<lambda>argv.
         do { (r, frame, s) \<leftarrow> task_exec E (full_path c path k) argc argv frame (k_sys k);
              let k = k\<lparr>k_sys := s\<rparr>;
              if r \<noteq> 0 then fails k else Some (Frame frame, k) })))"

definition sys_spawn ::
  "('d, 'x) env \<Rightarrow> u64 \<Rightarrow> int \<Rightarrow> u64 \<Rightarrow> ('d, 'x) kernel \<Rightarrow> (sysres \<times> ('d, 'x) kernel) option" where
  "sys_spawn E path argc argv k =
     with_path path k (\<lambda>path. with_argv argc argv k (\<lambda>argv.
       do { (r, s) \<leftarrow> task_create_user E (Some path) argc argv (k_sys k); Some (ret_int r, k\<lparr>k_sys := s\<rparr>) }))"

definition sys_fork :: "('d, 'x) env \<Rightarrow> ('d, 'x) kernel \<Rightarrow> (sysres \<times> ('d, 'x) kernel) option" where
  "sys_fork E k = do { (r, s) \<leftarrow> task_fork E (k_sys k); Some (ret_int r, k\<lparr>k_sys := s\<rparr>) }"

text \<open>\<open>fp\<close> is the address of the frame on the kernel stack.\<close>

definition sys_yield :: "u64 \<Rightarrow> ('d, 'x) kernel \<Rightarrow> (sysres \<times> ('d, 'x) kernel) option" where
  "sys_yield fp k =
     (let s = k_sys k;
          s = (case current_task s of
                 None \<Rightarrow> s
               | Some c \<Rightarrow> if t_pid (task_at c s) \<noteq> 0 then set_task c (t_state_update (\<lambda>_. TASK_READY)) s else s);
          (rsp, s) = schedule fp s
      in Some (Stack rsp, k\<lparr>k_sys := s\<rparr>))"

definition sys_exit :: "int \<Rightarrow> ('d, 'x) kernel \<Rightarrow> (sysres \<times> ('d, 'x) kernel) option" where
  "sys_exit code k = (case task_exit code (k_sys k) of (r, s) \<Rightarrow> Some (of_outcome r, k\<lparr>k_sys := s\<rparr>))"

definition sys_kill :: "int \<Rightarrow> int \<Rightarrow> ('d, 'x) kernel \<Rightarrow> (sysres \<times> ('d, 'x) kernel) option" where
  "sys_kill pid sig k = (case task_kill pid sig (k_sys k) of (r, s) \<Rightarrow> Some (of_outcome r, k\<lparr>k_sys := s\<rparr>))"

text \<open>A \<^verbatim>\<open>struct sigaction\<close> in memory: two words and an \<^verbatim>\<open>int\<close>.  The old action is stored before the new one is read.\<close>

definition sigaction_of :: "bytes \<Rightarrow> sigaction" where
  "sigaction_of bs = \<lparr>sa_handler = le64 bs 0, sa_mask = le64 bs 8, sa_flags = sint (le32 bs 16)\<rparr>"

definition sigaction_bytes :: "sigaction \<Rightarrow> bytes" where
  "sigaction_bytes a = le_bytes 8 (sa_handler a) @ le_bytes 8 (sa_mask a) @ le_bytes 4 (word_of_int (sa_flags a))"

definition sys_sigaction :: "int \<Rightarrow> u64 \<Rightarrow> u64 \<Rightarrow> ('d, 'x) kernel \<Rightarrow> (sysres \<times> ('d, 'x) kernel) option" where
  "sys_sigaction sig act oldact k =
     (case task_sigaction sig None (k_sys k) of
        (r, None, s) \<Rightarrow> Some (ret_int r, k)
      | (r, Some old, s) \<Rightarrow>
          (case (if oldact = 0 then Some s else user_store oldact (sigaction_bytes old) s) of
             None \<Rightarrow> crash k
           | Some s \<Rightarrow>
               if act = 0 then Some (ret_int r, k\<lparr>k_sys := s\<rparr>)
               else (case user_load act 20 s of
                       None \<Rightarrow> crash k
                     | Some bs \<Rightarrow>
                         (case task_sigaction sig (Some (sigaction_of bs)) s of
                            (r, _, s) \<Rightarrow> Some (ret_int r, k\<lparr>k_sys := s\<rparr>)))))"

section \<open>The machine\<close>

definition text8 :: "string \<Rightarrow> bytes" where "text8 cs = map of_char cs"

definition sys_clear :: "('d, 'x) kernel \<Rightarrow> (sysres \<times> ('d, 'x) kernel) option" where
  "sys_clear k =
     (let k = k\<lparr>k_vga := vga_clear (vga_default_color (k_vga k)) (k_vga k)\<rparr>
      in Some (Value 0, if fb_available (k_fb k) then k\<lparr>k_fb := fb_clear (fb_rgb 0 0 0) (k_fb k)\<rparr> else k))"

definition sys_reboot :: "('d, 'x) kernel \<Rightarrow> (sysres \<times> ('d, 'x) kernel) option" where
  "sys_reboot k = Some (Value 0, port_out 0x64 0xFE (serial_out (text8 ''REBOOT'' @ [0x0A]) k))"

definition sys_shutdown :: "('d, 'x) kernel \<Rightarrow> (sysres \<times> ('d, 'x) kernel) option" where
  "sys_shutdown k =
     (let k = serial_out (text8 ''SHUTDOWN'' @ [0x0A]) k;
          k = port_out 0x4004 0x3400 (port_out 0xB004 0x2000 (port_out 0x604 0x2000 k))
      in crash k)"

definition sys_unknown :: "u64 \<Rightarrow> ('d, 'x) kernel \<Rightarrow> (sysres \<times> ('d, 'x) kernel) option" where
  "sys_unknown nr k =
     do { k \<leftarrow> serial_printf (text8 ''syscall: unknown nr %llu from pid=%d'' @ [0x0A])
                 [Word nr, Word (word_of_int (task_getpid (k_sys k)))] k;
          fails k }"

section \<open>The entry\<close>

definition SYS_READ :: u64 where "SYS_READ = 0"
definition SYS_WRITE :: u64 where "SYS_WRITE = 1"
definition SYS_OPEN :: u64 where "SYS_OPEN = 2"
definition SYS_CLOSE :: u64 where "SYS_CLOSE = 3"
definition SYS_PIPE :: u64 where "SYS_PIPE = 4"
definition SYS_READDIR :: u64 where "SYS_READDIR = 5"
definition SYS_STAT :: u64 where "SYS_STAT = 6"
definition SYS_CLEAR :: u64 where "SYS_CLEAR = 7"
definition SYS_REBOOT :: u64 where "SYS_REBOOT = 8"
definition SYS_DUP :: u64 where "SYS_DUP = 9"
definition SYS_DUP2 :: u64 where "SYS_DUP2 = 10"
definition SYS_KILL :: u64 where "SYS_KILL = 11"
definition SYS_SIGACTION :: u64 where "SYS_SIGACTION = 12"
definition SYS_SIGRETURN :: u64 where "SYS_SIGRETURN = 13"
definition SYS_LSEEK :: u64 where "SYS_LSEEK = 14"
definition SYS_UNLINK :: u64 where "SYS_UNLINK = 15"
definition SYS_MKDIR :: u64 where "SYS_MKDIR = 16"
definition SYS_RMDIR :: u64 where "SYS_RMDIR = 17"
definition SYS_EXEC :: u64 where "SYS_EXEC = 18"
definition SYS_YIELD :: u64 where "SYS_YIELD = 24"
definition SYS_NANOSLEEP :: u64 where "SYS_NANOSLEEP = 35"
definition SYS_GETPID :: u64 where "SYS_GETPID = 39"
definition SYS_BRK :: u64 where "SYS_BRK = 45"
definition SYS_FORK :: u64 where "SYS_FORK = 57"
definition SYS_SPAWN :: u64 where "SYS_SPAWN = 59"
definition SYS_EXIT :: u64 where "SYS_EXIT = 60"
definition SYS_WAITPID :: u64 where "SYS_WAITPID = 61"
definition SYS_GETCWD :: u64 where "SYS_GETCWD = 79"
definition SYS_CHDIR :: u64 where "SYS_CHDIR = 80"
definition SYS_SHUTDOWN :: u64 where "SYS_SHUTDOWN = 0x7F"
definition SYS_CLOCK_GETTIME :: u64 where "SYS_CLOCK_GETTIME = 0x80"

lemmas syscall_numbers = SYS_READ_def SYS_WRITE_def SYS_OPEN_def SYS_CLOSE_def SYS_PIPE_def SYS_READDIR_def SYS_STAT_def
  SYS_CLEAR_def SYS_REBOOT_def SYS_DUP_def SYS_DUP2_def SYS_KILL_def SYS_SIGACTION_def SYS_SIGRETURN_def SYS_LSEEK_def
  SYS_UNLINK_def SYS_MKDIR_def SYS_RMDIR_def SYS_EXEC_def SYS_YIELD_def SYS_NANOSLEEP_def SYS_GETPID_def SYS_BRK_def
  SYS_FORK_def SYS_SPAWN_def SYS_EXIT_def SYS_WAITPID_def SYS_GETCWD_def SYS_CHDIR_def SYS_SHUTDOWN_def SYS_CLOCK_GETTIME_def

definition dispatch ::
  "('d, 'x) env \<Rightarrow> hardware \<Rightarrow> u64 \<Rightarrow> pushaq_frame \<Rightarrow> ('d, 'x) kernel \<Rightarrow> (sysres \<times> ('d, 'x) kernel) option" where
  "dispatch E H fp f k =
     (let nr = fr_rax f; a = fr_rdi f; b = fr_rsi f; c = fr_rdx f in
      if nr = SYS_WRITE then sys_write H (int_arg a) b c k
      else if nr = SYS_READ then sys_read E (int_arg a) b c k
      else if nr = SYS_OPEN then sys_open E a b k
      else if nr = SYS_CLOSE then sys_close E (int_arg a) k
      else if nr = SYS_READDIR then sys_readdir E a b c k
      else if nr = SYS_STAT then sys_stat E a b k
      else if nr = SYS_CLEAR then sys_clear k
      else if nr = SYS_REBOOT then sys_reboot k
      else if nr = SYS_LSEEK then sys_lseek (int_arg a) b (int_arg c) k
      else if nr = SYS_UNLINK then sys_unlink E a k
      else if nr = SYS_MKDIR then sys_mkdir E a k
      else if nr = SYS_RMDIR then sys_rmdir E a k
      else if nr = SYS_EXEC then sys_exec E f k
      else if nr = SYS_NANOSLEEP then sys_nanosleep a k
      else if nr = SYS_BRK then sys_brk a k
      else if nr = SYS_GETPID then Some (ret_int (task_getpid (k_sys k)), k)
      else if nr = SYS_YIELD then sys_yield fp k
      else if nr = SYS_FORK then sys_fork E k
      else if nr = SYS_SPAWN then sys_spawn E a (int_arg b) c k
      else if nr = SYS_WAITPID then Some (ret_int (task_waitpid_nb (int_arg a) (k_sys k)), k)
      else if nr = SYS_EXIT then sys_exit (int_arg a) k
      else if nr = SYS_GETCWD then sys_getcwd a b k
      else if nr = SYS_CHDIR then sys_chdir E a k
      else if nr = SYS_PIPE then sys_pipe E a k
      else if nr = SYS_DUP then sys_dup (int_arg a) k
      else if nr = SYS_DUP2 then sys_dup2 E (int_arg a) (int_arg b) k
      else if nr = SYS_KILL then sys_kill (int_arg a) (int_arg b) k
      else if nr = SYS_SIGACTION then sys_sigaction (int_arg a) b c k
      else if nr = SYS_SIGRETURN then Some (Value 0, k)
      else if nr = SYS_SHUTDOWN then sys_shutdown k
      else if nr = SYS_CLOCK_GETTIME then sys_clock_gettime H a k
      else sys_unknown nr k)"

text \<open>The stack to return to, and the frame as the call leaves it.\<close>

definition syscall_entry ::
  "('d, 'x) env \<Rightarrow> hardware \<Rightarrow> u64 \<Rightarrow> pushaq_frame \<Rightarrow> ('d, 'x) kernel \<Rightarrow>
     (u64 outcome \<times> pushaq_frame \<times> ('d, 'x) kernel) option" where
  "syscall_entry E H fp f k =
     do { (r, k) \<leftarrow> dispatch E H fp f k;
          (case r of
             Frame f \<Rightarrow> Some (Return fp, f, k)
           | Stack rsp \<Rightarrow> Some (Return rsp, f, k)
           | Stopped \<Rightarrow> Some (Halted, f, k)
           | Left rsp \<Rightarrow> Some (Switched rsp, f, k)
           | Value v \<Rightarrow>
               (let f = f\<lparr>fr_rax := v\<rparr>;
                    (r, s) = task_check_signals (k_sys k);
                    k = k\<lparr>k_sys := s\<rparr>
                in Some (case r of Return _ \<Rightarrow> Return fp | Halted \<Rightarrow> Halted | Switched rsp \<Rightarrow> Switched rsp, f, k))) }"

end
