(* ===== verification/Task_Inv.thy ===== *)
theory Task_Inv
  imports Task
begin

text \<open>
  The invariant of the task table.  What the scheduler sees of the state is its \<open>view\<close>; the memory
  operations, the program loader and the VFS leave it alone, which is shown once for every operation
  with the postcondition rules of theory Prelude.  The operations on tasks are the transitions of a
  step relation, and every reachable state satisfies the invariant.
\<close>

section \<open>What the memory operations leave alone\<close>

named_theorems keeps \<open>operations that keep the fields of the extensions of a record\<close>

lemma fold_page_free_more:
  "phys.more (fold (\<lambda>i. page_free_internal (f i)) is s) = phys.more s"
  by (induction "is" arbitrary: s) (simp_all add: page_free_internal_frame)

lemma pmm_free_more [keeps]: "phys.more s = c \<Longrightarrow> ensures (pmm_free p s) (\<lambda>t. phys.more t = c)"
  by (auto simp: ensures_def pmm_free_def spin_lock_irqsave_def spin_unlock_irqrestore_def page_free_internal_frame
      split: if_splits)

lemma pmm_free_pages_more [keeps]: "phys.more s = c \<Longrightarrow> ensures (pmm_free_pages p n s) (\<lambda>t. phys.more t = c)"
  by (auto simp: ensures_def pmm_free_pages_def spin_lock_irqsave_def spin_unlock_irqrestore_def
      fold_page_free_more split: if_splits)

lemma pmm_alloc_more [keeps]: "phys.more s = c \<Longrightarrow> ensures (pmm_alloc s) (\<lambda>(p, t). phys.more t = c)"
  using pmm_alloc_frame by (fastforce simp: ensures_def)

lemma alloc_any_more: "alloc_any s = (p, t) \<Longrightarrow> phys.more t = phys.more s"
  using alloc_any_frame by blast

lemma alloc_pages_loop_more:
  "alloc_pages_loop h n i s = Inl t \<or> alloc_pages_loop h n i s = Inr t \<Longrightarrow> phys.more t = phys.more s"
proof (induction h n i s arbitrary: t rule: alloc_pages_loop.induct)
  case (1 h n i s)
  obtain p u where pu: "alloc_any s = (p, u)" by (cases "alloc_any s")
  show ?case
  proof (cases "i < n \<and> p \<noteq> 0")
    case True
    then have "alloc_pages_loop h n i s = alloc_pages_loop h n (i + 1) u"
      using pu by (subst alloc_pages_loop.simps) simp
    then show ?thesis using 1 True pu alloc_any_more [OF pu] by metis
  next
    case False
    then show ?thesis using 1(2) pu alloc_any_more [OF pu]
      by (subst (asm) (1 2) alloc_pages_loop.simps) (auto simp: fold_page_free_more Let_def split: if_splits)
  qed
qed

lemma pmm_alloc_pages_more [keeps]:
  assumes "phys.more s = c"
  shows "ensures (pmm_alloc_pages n s) (\<lambda>(p, t). phys.more t = c)"
proof -
  have "phys.more t = phys.more s" if "pmm_alloc_pages n s = Some (p, t)" for p t
  proof -
    obtain h u where hu: "alloc_any (s\<lparr>pmm_lock := True\<rparr>) = (h, u)" by (cases "alloc_any (s\<lparr>pmm_lock := True\<rparr>)")
    have u: "phys.more u = phys.more s" using alloc_any_more [OF hu] by simp
    define v where "v = u\<lparr>free_pages_total := free_pages_total u - (n - 1)\<rparr>"
    have v: "phys.more v = phys.more s" using u by (simp add: v_def)
    show ?thesis
      using that u v alloc_pages_loop_more [of h n 1 v]
      unfolding pmm_alloc_pages_def spin_lock_irqsave_def
      by (cases "alloc_pages_loop h n 1 v")
        (auto simp: hu v_def [symmetric] spin_unlock_irqrestore_def split: if_splits)
  qed
  then show ?thesis using assms by (auto simp: ensures_def)
qed

lemma walk_or_create_more [keeps]:
  "phys.more s = c \<Longrightarrow> ensures (walk_or_create t l v f s) (\<lambda>(p, s'). phys.more s' = c)"
  unfolding walk_or_create_def by (rule wp keeps | simp)+

lemma vmm_map_page_more [keeps]:
  "phys.more s = c \<Longrightarrow> ensures (vmm_map_page r v p f s) (\<lambda>(x, s'). phys.more s' = c)"
  unfolding vmm_map_page_def by (rule wp keeps | simp)+

lemma vmm_create_pml4_more [keeps]:
  "phys.more s = c \<Longrightarrow> ensures (vmm_create_pml4 s) (\<lambda>(x, s'). phys.more s' = c)"
  unfolding vmm_create_pml4_def by (rule wp keeps | simp)+

lemma free_entries_more [keeps]:
  "phys.more s = c \<Longrightarrow> ensures (free_entries k t is s) (\<lambda>s'. phys.more s' = c)"
proof (induction k arbitrary: t "is" s)
  case 0
  then show ?case
  proof (induction "is" arbitrary: s)
    case (Cons i "is")
    show ?case unfolding free_entries.simps nat.case
      by (rule ensures_bind [where R = "\<lambda>s'. phys.more s' = c"] ensures_if ensures_let ensures_Some keeps Cons.IH Cons.prems | assumption | simp only: prod.case)+
  qed (simp add: wp)
next
  case (Suc j)
  from Suc.prems show ?case
  proof (induction "is" arbitrary: s)
    case (Cons i "is")
    show ?case unfolding free_entries.simps nat.case
      by (rule ensures_bind [where R = "\<lambda>s'. phys.more s' = c"] ensures_if ensures_let ensures_Some keeps Cons.IH Suc.IH Cons.prems | assumption | simp only: prod.case)+
  qed (simp add: wp)
qed

lemma copy_mapping_more [keeps]:
  "phys.more s = c \<Longrightarrow> ensures (copy_mapping r v e n s) (\<lambda>(x, s'). phys.more s' = c)"
  unfolding copy_mapping_def by (rule wp keeps | simp)+

lemma fork_entries_more [keeps]:
  "phys.more s = c \<Longrightarrow> ensures (fork_entries r k t b is s) (\<lambda>(x, s'). phys.more s' = c)"
proof (induction k arbitrary: t b "is" s)
  case 0
  then show ?case
  proof (induction "is" arbitrary: s)
    case (Cons i "is")
    show ?case unfolding fork_entries.simps nat.case
      by (rule ensures_bind2 [where R = "\<lambda>_ s'. phys.more s' = c"] ensures_if ensures_let ensures_Some keeps Cons.IH Cons.prems | assumption | simp only: prod.case)+
  qed (simp add: wp)
next
  case (Suc j)
  from Suc.prems show ?case
  proof (induction "is" arbitrary: s)
    case (Cons i "is")
    show ?case unfolding fork_entries.simps nat.case
      by (rule ensures_bind2 [where R = "\<lambda>_ s'. phys.more s' = c"] ensures_if ensures_let ensures_Some keeps Cons.IH Suc.IH Cons.prems | assumption | simp only: prod.case)+
  qed (simp add: wp)
qed

text \<open>The same one level up: what keeps the fields of the machine keeps those of the tasks.\<close>

lemma machine_more_phys:
  fixes s :: "('d, 'x, 'm) machine_scheme"
  assumes "phys.more t = phys.more s"
  shows "machine.more t = machine.more s"
  using assms by (cases s; cases t) simp

lemma lift1:
  fixes s :: "('d, 'x, 'm) machine_scheme"
  assumes "ensures x (\<lambda>t. phys.more t = phys.more s)" and "machine.more s = c"
  shows "ensures x (\<lambda>t. machine.more t = c)"
  using assms machine_more_phys unfolding ensures_def by blast

lemma lift2:
  fixes s :: "('d, 'x, 'm) machine_scheme"
  assumes "ensures x (\<lambda>(a, t). phys.more t = phys.more s)" and "machine.more s = c"
  shows "ensures x (\<lambda>(a, t). machine.more t = c)"
  using assms machine_more_phys unfolding ensures_def by fastforce

named_theorems mkeeps \<open>operations that keep the fields of the extensions of the machine\<close>

lemmas pmm_free_mkeep [mkeeps] = pmm_free_more [OF refl, THEN lift1]
lemmas pmm_free_pages_mkeep [mkeeps] = pmm_free_pages_more [OF refl, THEN lift1]
lemmas pmm_alloc_mkeep [mkeeps] = pmm_alloc_more [OF refl, THEN lift2]
lemmas pmm_alloc_pages_mkeep [mkeeps] = pmm_alloc_pages_more [OF refl, THEN lift2]
lemmas vmm_map_page_mkeep [mkeeps] = vmm_map_page_more [OF refl, THEN lift2]
lemmas vmm_create_pml4_mkeep [mkeeps] = vmm_create_pml4_more [OF refl, THEN lift2]
lemmas free_entries_mkeep [mkeeps] = free_entries_more [OF refl, THEN lift1]
lemmas fork_entries_mkeep [mkeeps] = fork_entries_more [OF refl, THEN lift2]

lemma elf_free_nodes_more [mkeeps]:
  "machine.more s = c \<Longrightarrow> ensures (elf_free_nodes E eps s) (\<lambda>t. machine.more t = c)"
proof (induction eps arbitrary: s)
  case (Cons ep eps)
  show ?case unfolding elf_free_nodes.simps
    by (rule ensures_bind [OF ensures_any], rule Cons.IH) (simp add: Cons.prems)
qed (simp add: wp)

lemma elf_cleanup_more [mkeeps]:
  fixes s :: "('d, 'x, 'm) machine_scheme"
  shows "machine.more s = c \<Longrightarrow> ensures (elf_cleanup E eps r s) (\<lambda>t. machine.more t = c)"
proof (induction eps arbitrary: s)
  case (Cons ep eps)
  show ?case unfolding elf_cleanup.simps
  proof (rule ensures_bind [where R = "\<lambda>t. machine.more t = c"])
    show "ensures (if ep_phys ep \<noteq> 0
          then pmm_free (ep_phys ep) (if ep_vaddr ep \<noteq> 0 then s\<lparr>pmem := clear_entry r (ep_vaddr ep) (pmem s)\<rparr> else s)
          else Some s) (\<lambda>t. machine.more t = c)"
      by (rule wp mkeeps | simp add: Cons.prems)+
  next
    fix t :: "('d, 'x, 'm) machine_scheme" assume "machine.more t = c"
    then show "ensures (k_free E (ep_node ep) (fsys t) \<bind> (\<lambda>v. elf_cleanup E eps r (t\<lparr>fsys := v\<rparr>)))
        (\<lambda>t. machine.more t = c)"
      by (intro ensures_bind [OF ensures_any] Cons.IH) simp
  qed
qed (simp add: wp)

lemma read_at_more [mkeeps]:
  "machine.more s = c \<Longrightarrow> ensures (read_at E f off n s) (\<lambda>(r, bs, t). machine.more t = c)"
  unfolding read_at_def Let_def by (rule ensures_bind3 [OF ensures_any3] wp | simp)+

lemma abandon_more [mkeeps]:
  "machine.more s = c \<Longrightarrow> ensures (abandon E eps r s) (\<lambda>(ok, eps', t). machine.more t = c)"
  unfolding abandon_def by (rule wp mkeeps | simp)+

lemma fill_page_more [mkeeps]:
  "machine.more s = c \<Longrightarrow> ensures (fill_page E f ph v p s) (\<lambda>t. machine.more t = c)"
  unfolding fill_page_def by (cases "page_source ph v") (rule wp mkeeps | simp add: split_beta)+

lemma load_page_more [mkeeps]:
  "machine.more s = c \<Longrightarrow> ensures (load_page E f r ph fl v eps s) (\<lambda>(ok, eps', t). machine.more t = c)"
  unfolding load_page_def
  by (rule ensures_bind2 [OF ensures_any2], (rule ensures_if ensures_let ensures_Some mkeeps
      ensures_bind2 [OF pmm_alloc_mkeep] ensures_bind2 [OF vmm_map_page_mkeep]
      ensures_bind [OF fill_page_more] ensures_bind [OF ensures_any] | simp)+)

lemma load_pages_more [mkeeps]:
  "machine.more s = c \<Longrightarrow> ensures (load_pages E f r ph fl st ps eps s) (\<lambda>(ok, eps', t). machine.more t = c)"
proof (induction ps arbitrary: eps s)
  case (Cons p ps)
  show ?case unfolding load_pages.simps
    by (rule ensures_bind3 [OF load_page_more [OF Cons.prems]], (rule ensures_if ensures_Some Cons.IH | simp only: prod.case | assumption)+)
qed (simp add: wp)

lemma load_segments_more [mkeeps]:
  "machine.more s = c \<Longrightarrow> ensures (load_segments E f r hdr is eps s) (\<lambda>(ok, eps', t). machine.more t = c)"
proof (induction "is" arbitrary: eps s)
  case (Cons i "is")
  show ?case unfolding load_segments.simps
    by (rule ensures_bind3 [OF read_at_more [OF Cons.prems]],
        (rule ensures_if ensures_let ensures_Some ensures_bind3 [OF load_pages_more] abandon_more Cons.IH | simp only: prod.case | assumption)+)
qed (simp add: wp)

lemma elf_load_more [mkeeps]:
  "machine.more s = c \<Longrightarrow> ensures (elf_load E f r s) (\<lambda>(e, t). machine.more t = c)"
  unfolding elf_load_def
  by (rule ensures_option ensures_if ensures_let ensures_Some ensures_bind3 [OF read_at_more]
      ensures_bind3 [OF load_segments_more] ensures_bind [OF elf_free_nodes_more] | simp only: prod.case | assumption)+

section \<open>What the scheduler sees of the state\<close>

record task_view =
  v_tasks :: "(int \<times> task_state) list"
  v_next_pid :: int
  v_count :: int
  v_idx :: nat
  v_cur :: "nat option"

definition view :: "('d, 'x) sys \<Rightarrow> task_view" where
  "view s = \<lparr>v_tasks = map (\<lambda>t. (t_pid t, t_state t)) (tasks s), v_next_pid = next_pid s, v_count = task_count s,
             v_idx = current_idx s, v_cur = current_task s\<rparr>"

lemma view_more:
  fixes s :: "('d, 'x) sys"
  assumes "machine.more t = machine.more s"
  shows "view t = view s"
  using assms by (cases s; cases t) (simp add: view_def)

lemma vlift1:
  fixes s :: "('d, 'x) sys"
  assumes "ensures x (\<lambda>t. machine.more t = machine.more s)" and "view s = c"
  shows "ensures x (\<lambda>t. view t = c)"
  using assms view_more unfolding ensures_def by blast

lemma vlift2:
  fixes s :: "('d, 'x) sys"
  assumes "ensures x (\<lambda>(a, t). machine.more t = machine.more s)" and "view s = c"
  shows "ensures x (\<lambda>(a, t). view t = c)"
  using assms view_more unfolding ensures_def by fastforce

lemma view_fields [simp]:
  "view (s\<lparr>fsys := v\<rparr>) = view s" "view (s\<lparr>pmem := m\<rparr>) = view s" "view (s\<lparr>cr3 := x\<rparr>) = view s"
  "view (s\<lparr>tss_rsp0 := y\<rparr>) = view s" "view (s\<lparr>pid_bitmap := b\<rparr>) = view s"
  by (simp_all add: view_def)

lemma view_set_task:
  assumes "\<And>t. t_pid (f t) = t_pid t \<and> t_state (f t) = t_state t"
  shows "view (set_task i f s) = view s"
proof (cases "i < length (tasks s)")
  case True
  then have "map (\<lambda>t. (t_pid t, t_state t)) ((tasks s)[i := f (tasks s ! i)]) =
        map (\<lambda>t. (t_pid t, t_state t)) (tasks s)"
    using assms by (simp add: map_update list_update_same_conv)
  then show ?thesis by (simp add: view_def set_task_def)
qed (simp add: view_def set_task_def list_update_beyond)

named_theorems vkeeps \<open>operations that keep the view of the scheduler\<close>

lemmas pmm_free_vkeep [vkeeps] = pmm_free_mkeep [OF refl, THEN vlift1]
lemmas pmm_free_pages_vkeep [vkeeps] = pmm_free_pages_mkeep [OF refl, THEN vlift1]
lemmas pmm_alloc_vkeep [vkeeps] = pmm_alloc_mkeep [OF refl, THEN vlift2]
lemmas pmm_alloc_pages_vkeep [vkeeps] = pmm_alloc_pages_mkeep [OF refl, THEN vlift2]
lemmas vmm_map_page_vkeep [vkeeps] = vmm_map_page_mkeep [OF refl, THEN vlift2]
lemmas vmm_create_pml4_vkeep [vkeeps] = vmm_create_pml4_mkeep [OF refl, THEN vlift2]
lemmas free_entries_vkeep [vkeeps] = free_entries_mkeep [OF refl, THEN vlift1]
lemmas fork_entries_vkeep [vkeeps] = fork_entries_mkeep [OF refl, THEN vlift2]
lemmas elf_load_vkeep [vkeeps] = elf_load_more [OF refl, THEN vlift2]

lemma on_fs_vkeep [vkeeps]: "view s = c \<Longrightarrow> ensures (on_fs f s) (\<lambda>(r, t). view t = c)"
  unfolding on_fs_def by (rule ensures_bind2 [OF ensures_any2]) (simp add: wp)

lemma close_fds_vkeep [vkeeps]: "view s = c \<Longrightarrow> ensures (close_fds E i js s) (\<lambda>t. view t = c)"
proof (induction js arbitrary: s)
  case (Cons j js)
  show ?case unfolding close_fds.simps
    by (rule ensures_option ensures_bind2 [OF on_fs_vkeep] Cons.IH | simp add: Cons.prems view_set_task)+
qed (simp add: wp)

lemma free_task_resources_vkeep [vkeeps]:
  fixes s :: "('d, 'x) sys"
  assumes "view s = c"
  shows "ensures (free_task_resources E i s) (\<lambda>t. view t = c)"
  unfolding free_task_resources_def
  by (rule ensures_bind [OF close_fds_vkeep]
      ensures_bind [where R = "\<lambda>t :: ('d, 'x) sys. view t = c"] ensures_if ensures_let ensures_Some vkeeps
      | simp add: assms view_set_task)+

section \<open>The invariant\<close>

definition live :: "int \<times> task_state \<Rightarrow> bool" where
  "live t \<longleftrightarrow> snd t \<noteq> TASK_FREE"

text \<open>
  The table has its slots and the two variables for the current task agree; slot 0 is the kernel
  task, which is never released; at most the current task is running; the other live tasks do not
  have the kernel's identifier.  When \<open>cn\<close> is set there are also at most \<^verbatim>\<open>task_count\<close> live tasks, so the
  short cut of the scheduler for a single task never starves another one; one system call, a yield of a task
  that has been released, keeps the rest of the invariant but not this part.
\<close>

definition view_ok :: "bool \<Rightarrow> task_view \<Rightarrow> bool" where
  "view_ok cn v \<longleftrightarrow>
     length (v_tasks v) = MAX_TASKS \<and> v_idx v < MAX_TASKS \<and> v_cur v = Some (v_idx v) \<and> 1 \<le> v_next_pid v \<and>
     fst (v_tasks v ! 0) = 0 \<and> snd (v_tasks v ! 0) \<in> {TASK_READY, TASK_RUNNING} \<and>
     (\<forall>i < MAX_TASKS. i \<noteq> v_idx v \<longrightarrow> snd (v_tasks v ! i) \<noteq> TASK_RUNNING) \<and>
     (\<forall>i < MAX_TASKS. 0 < i \<longrightarrow> live (v_tasks v ! i) \<longrightarrow> fst (v_tasks v ! i) \<noteq> 0) \<and>
     (cn \<longrightarrow> int (length (filter live (v_tasks v))) \<le> v_count v)"

definition task_ok :: "bool \<Rightarrow> ('d, 'x) sys \<Rightarrow> bool" where
  "task_ok cn s \<longleftrightarrow> view_ok cn (view s)"

abbreviation task_inv :: "('d, 'x) sys \<Rightarrow> bool" where
  "task_inv s \<equiv> task_ok True s"

lemma view_sel [simp]:
  "v_next_pid (view s) = next_pid s" "v_count (view s) = task_count s" "v_idx (view s) = current_idx s"
  "v_cur (view s) = current_task s" "length (v_tasks (view s)) = length (tasks s)"
  by (simp_all add: view_def)

lemma view_nth: "i < length (tasks s) \<Longrightarrow> v_tasks (view s) ! i = (t_pid (task_at i s), t_state (task_at i s))"
  by (simp add: view_def task_at_def)

lemma task_invD:
  assumes "task_ok cn s"
  shows "length (tasks s) = MAX_TASKS" "current_idx s < MAX_TASKS" "current_task s = Some (current_idx s)"
    and "1 \<le> next_pid s" "t_pid (task_at 0 s) = 0" "t_state (task_at 0 s) \<in> {TASK_READY, TASK_RUNNING}"
    and "\<And>i. i < MAX_TASKS \<Longrightarrow> i \<noteq> current_idx s \<Longrightarrow> t_state (task_at i s) \<noteq> TASK_RUNNING"
    and "\<And>i. i < MAX_TASKS \<Longrightarrow> 0 < i \<Longrightarrow> t_state (task_at i s) \<noteq> TASK_FREE \<Longrightarrow> t_pid (task_at i s) \<noteq> 0"
proof -
  note inv = assms [unfolded task_ok_def view_ok_def]
  show len: "length (tasks s) = MAX_TASKS" and "current_idx s < MAX_TASKS" and "current_task s = Some (current_idx s)"
    and "1 \<le> next_pid s" using inv by simp_all
  have nth: "v_tasks (view s) ! i = (t_pid (task_at i s), t_state (task_at i s))" if "i < MAX_TASKS" for i
    using that len by (simp add: view_nth)
  have "(0 :: nat) < MAX_TASKS" by (simp add: MAX_TASKS_def)
  then show "t_pid (task_at 0 s) = 0" "t_state (task_at 0 s) \<in> {TASK_READY, TASK_RUNNING}"
    using inv nth [of 0] by simp_all
  show "t_state (task_at i s) \<noteq> TASK_RUNNING" if "i < MAX_TASKS" "i \<noteq> current_idx s" for i
    using inv that nth [of i] by auto
  show "t_pid (task_at i s) \<noteq> 0" if "i < MAX_TASKS" "0 < i" "t_state (task_at i s) \<noteq> TASK_FREE" for i
    using inv that nth [of i] by (auto simp: live_def)
qed

lemma length_filter_update:
  assumes "i < length xs"
  shows "length (filter P (xs[i := y])) + (if P (xs ! i) then 1 else 0) = length (filter P xs) + (if P y then 1 else 0)"
proof -
  have "length (filter P xs) = length (filter P (take i xs)) + (if P (xs ! i) then 1 else 0) + length (filter P (drop (Suc i) xs))"
    by (subst id_take_nth_drop [OF assms]) simp
  then show ?thesis using assms by (simp add: upd_conv_take_nth_drop)
qed

lemma view_inv_add:
  assumes "view_ok cn v" "i < MAX_TASKS" "snd (v_tasks v ! i) = TASK_FREE" "p \<noteq> 0" "1 \<le> q"
  shows "view_ok cn (v\<lparr>v_tasks := (v_tasks v)[i := (p, TASK_READY)], v_next_pid := q, v_count := v_count v + 1\<rparr>)"
proof -
  have len: "length (v_tasks v) = MAX_TASKS" using assms(1) by (simp add: view_ok_def)
  have "i \<noteq> 0" using assms(1,3) by (intro notI) (auto simp: view_ok_def)
  moreover have "length (filter live ((v_tasks v)[i := (p, TASK_READY)])) = length (filter live (v_tasks v)) + 1"
    using length_filter_update [of i "v_tasks v" live "(p, TASK_READY)"] assms(2,3) len by (simp add: live_def)
  ultimately show ?thesis using assms len by (auto simp: view_ok_def nth_list_update live_def)
qed

lemma view_inv_drop:
  assumes "view_ok cn v" "0 < i" "i < MAX_TASKS" "live (v_tasks v ! i)"
  shows "view_ok cn (v\<lparr>v_tasks := (v_tasks v)[i := (p, TASK_FREE)], v_count := v_count v - 1\<rparr>)"
proof -
  have len: "length (v_tasks v) = MAX_TASKS" using assms(1) by (simp add: view_ok_def)
  have "length (filter live ((v_tasks v)[i := (p, TASK_FREE)])) + 1 = length (filter live (v_tasks v))"
    using length_filter_update [of i "v_tasks v" live "(p, TASK_FREE)"] assms(3,4) len by (simp add: live_def)
  then show ?thesis using assms len by (auto simp: view_ok_def nth_list_update live_def)
qed

lemma view_inv_exit:
  assumes "view_ok cn v" "fst (v_tasks v ! v_idx v) \<noteq> 0"
  shows "view_ok cn (v\<lparr>v_tasks := (v_tasks v)[v_idx v := (p, TASK_FREE), 0 := (0, TASK_RUNNING)], v_idx := 0,
                    v_cur := Some 0\<rparr>)"
proof -
  have len: "length (v_tasks v) = MAX_TASKS" and idx: "v_idx v < MAX_TASKS" "v_idx v \<noteq> 0"
    using assms by (auto simp: view_ok_def intro: gr0I)
  have l0: "live ((v_tasks v)[v_idx v := (p, TASK_FREE)] ! 0)"
    using assms idx by (auto simp: view_ok_def live_def)
  have "length (filter live ((v_tasks v)[v_idx v := (p, TASK_FREE), 0 := (0, TASK_RUNNING)])) =
        length (filter live ((v_tasks v)[v_idx v := (p, TASK_FREE)]))"
    using length_filter_update [of 0 "(v_tasks v)[v_idx v := (p, TASK_FREE)]" live "(0, TASK_RUNNING)"] l0 len
    by (simp add: live_def MAX_TASKS_def)
  also have "\<dots> \<le> length (filter live (v_tasks v))"
    using length_filter_update [of "v_idx v" "v_tasks v" live "(p, TASK_FREE)"] len idx
    by (simp add: live_def split: if_splits)
  finally have "cn \<longrightarrow> int (length (filter live ((v_tasks v)[v_idx v := (p, TASK_FREE), 0 := (0, TASK_RUNNING)]))) \<le> v_count v"
    using assms(1) by (auto simp: view_ok_def)
  then show ?thesis using assms len idx by (auto simp: view_ok_def nth_list_update live_def MAX_TASKS_def)
qed

section \<open>Every operation keeps the invariant\<close>

lemma alloc_task_view:
  fixes s :: "('d, 'x) sys"
  assumes "view s = c" and "length (tasks s) = MAX_TASKS"
  shows "ensures (alloc_task E s)
    (\<lambda>(r, t). view t = c \<and> (\<forall>i. r = Some i \<longrightarrow> i < MAX_TASKS \<and> snd (v_tasks c ! i) = TASK_FREE))"
proof -
  have free: "i < MAX_TASKS \<and> snd (v_tasks c ! i) = TASK_FREE"
    if "find (\<lambda>i. t_state (task_at i s) = TASK_FREE) [0..<MAX_TASKS] = Some i" for i
    using that assms by (auto simp: find_Some_iff view_nth)
  show ?thesis unfolding alloc_task_def
    by (rule ensures_option ensures_let ensures_if ensures_bind [OF free_task_resources_vkeep [OF assms(1)]] ensures_Some
        | use assms free in simp)+
qed

lemma view_set_task_ps:
  assumes "i < length (tasks s)" and "t_pid (f (task_at i s)) = p" "t_state (f (task_at i s)) = st"
  shows "view (set_task i f s) = (view s)\<lparr>v_tasks := (v_tasks (view s))[i := (p, st)]\<rparr>"
  using assms by (simp add: view_def set_task_def task_at_def map_update)

lemma view_count: "view (s\<lparr>task_count := n\<rparr>) = (view s)\<lparr>v_count := n\<rparr>"
  by (simp add: view_def)

lemma start_task_inv:
  assumes "task_ok cn s" "i < MAX_TASKS" "snd (v_tasks (view s) ! i) = TASK_FREE" "start_task i sp r k u s = (x, t)"
  shows "task_ok cn t"
proof -
  note D = task_invD [OF assms(1)]
  obtain pid s1 where a: "alloc_pid s = (pid, s1)" by (cases "alloc_pid s")
  obtain q where q: "1 \<le> q" "s1 = s\<lparr>next_pid := q, pid_bitmap := pid_bitmap s1\<rparr>" and pid: "pid \<noteq> 0"
    using alloc_pid_fresh [OF D(4) a] by auto
  have v1: "view s1 = (view s)\<lparr>v_next_pid := q\<rparr>" and l1: "length (tasks s1) = MAX_TASKS"
    using D(1) by (subst q(2); simp add: view_def)+
  define f where "f = (\<lambda>t :: task. t\<lparr>t_pid := pid, t_state := TASK_READY, t_kernel_rsp := sp,
                t_kernel_cr3 := t_kernel_cr3 (task_at 0 s1), t_pml4 := r, t_brk := USER_HEAP_START,
                t_kstack_page := k, t_ustack_page := u, t_exit_code := 0\<rparr>)"
  define s2 where "s2 = set_task i f s1"
  have v2: "view s2 = (view s)\<lparr>v_next_pid := q, v_tasks := (v_tasks (view s))[i := (pid, TASK_READY)]\<rparr>"
    using view_set_task_ps [of i s1 f pid TASK_READY] l1 assms(2) by (simp add: s2_def f_def v1)
  have cnt: "task_count s2 = task_count s" using v2 by (simp flip: view_sel)
  have "view t = (view s2)\<lparr>v_count := task_count s2 + 1\<rparr>"
    using assms(4) unfolding start_task_def Let_def a case_prod_conv f_def [symmetric] s2_def [symmetric]
    by (auto simp: view_set_task view_count)
  also have "\<dots> = (view s)\<lparr>v_tasks := (v_tasks (view s))[i := (pid, TASK_READY)], v_next_pid := q,
      v_count := v_count (view s) + 1\<rparr>"
    by (simp add: v2 cnt)
  finally show ?thesis using view_inv_add [of cn "view s" i pid q] assms pid q(1) by (simp add: task_ok_def)
qed

lemma fork_child_inv:
  assumes "task_ok cn s" "i < MAX_TASKS" "snd (v_tasks (view s) ! i) = TASK_FREE" "fork_child c i sp r k u s = (x, t)"
  shows "task_ok cn t"
proof -
  note D = task_invD [OF assms(1)]
  obtain pid s1 where a: "alloc_pid s = (pid, s1)" by (cases "alloc_pid s")
  obtain q where q: "1 \<le> q" "s1 = s\<lparr>next_pid := q, pid_bitmap := pid_bitmap s1\<rparr>" and pid: "pid \<noteq> 0"
    using alloc_pid_fresh [OF D(4) a] by auto
  have v1: "view s1 = (view s)\<lparr>v_next_pid := q\<rparr>" and l1: "length (tasks s1) = MAX_TASKS"
    using D(1) by (subst q(2); simp add: view_def)+
  define f where "f = (\<lambda>t :: task. t\<lparr>t_pid := pid, t_state := TASK_READY, t_kernel_rsp := sp\<rparr>)"
  define s2 where "s2 = set_task i f s1"
  have v2: "view s2 = (view s)\<lparr>v_next_pid := q, v_tasks := (v_tasks (view s))[i := (pid, TASK_READY)]\<rparr>"
    using view_set_task_ps [of i s1 f pid TASK_READY] l1 assms(2) by (simp add: s2_def f_def v1)
  have cnt: "task_count s2 = task_count s" using v2 by (simp flip: view_sel)
  have "view t = (view s2)\<lparr>v_count := task_count s2 + 1\<rparr>"
    using assms(4) unfolding fork_child_def Let_def a case_prod_conv f_def [symmetric] s2_def [symmetric]
    by (auto simp: view_set_task view_count split_beta)
  also have "\<dots> = (view s)\<lparr>v_tasks := (v_tasks (view s))[i := (pid, TASK_READY)], v_next_pid := q,
      v_count := v_count (view s) + 1\<rparr>"
    by (simp add: v2 cnt)
  finally show ?thesis using view_inv_add [of cn "view s" i pid q] assms pid q(1) by (simp add: task_ok_def)
qed

lemma inv_view: "task_ok cn s \<Longrightarrow> view t = view s \<Longrightarrow> task_ok cn t"
  by (simp add: task_ok_def)

lemma view_tasks_length: "view t = view s \<Longrightarrow> length (tasks t) = length (tasks s)"
  by (metis view_sel(5))

lemmas task_wp = ensures_option ensures_if ensures_let2 ensures_let ensures_Some
  ensures_bind2 [OF on_fs_vkeep] ensures_bind2 [OF vmm_create_pml4_vkeep] ensures_bind2 [OF elf_load_vkeep]
  ensures_bind2 [OF pmm_alloc_pages_vkeep] ensures_bind2 [OF pmm_alloc_vkeep] ensures_bind2 [OF vmm_map_page_vkeep]
  ensures_bind2 [OF fork_entries_vkeep] ensures_bind [OF pmm_free_pages_vkeep] ensures_bind [OF pmm_free_vkeep]

text \<open>What a call of \<^verbatim>\<open>alloc_task\<close> from a state with the view of \<open>s\<close> gives.\<close>

lemma alloc_task_inv:
  fixes s t :: "('d, 'x) sys"
  assumes "task_ok cn s" and "view t = view s"
  shows "ensures (alloc_task E t)
      (\<lambda>(r, u). view u = view s \<and> (\<forall>i. r = Some i \<longrightarrow> i < MAX_TASKS \<and> snd (v_tasks (view s) ! i) = TASK_FREE))"
  using assms(2) task_invD(1) [OF assms(1)] view_tasks_length [OF assms(2)] by (intro alloc_task_view) simp_all

lemma task_create_user_inv:
  fixes s :: "('d, 'x) sys"
  assumes inv: "task_ok cn s"
  shows "ensures (task_create_user E path argc argv s) (\<lambda>(r, t). task_ok cn t)"
proof -
  have keep: "task_ok cn t" if "view t = view s" for t :: "('d, 'x) sys" using inv_view [OF inv that] .
  note al = alloc_task_inv [OF inv]
  have st: "ensures (Some (start_task i sp r k u t)) (\<lambda>(r, t). task_ok cn t)"
    if "view t = view s" "i < MAX_TASKS" "snd (v_tasks (view s) ! i) = TASK_FREE"
    for t :: "('d, 'x) sys" and i sp r k u
    using start_task_inv [of cn t i sp r k u] that keep by (auto simp: ensures_def)
  show ?thesis unfolding task_create_user_def
    by (rule ensures_bind2 [OF al] task_wp
        ensures_bind [where R = "\<lambda>t :: ('d, 'x) sys. view t = view s"] vkeeps st | simp add: keep)+
qed

lemma task_fork_inv:
  fixes s :: "('d, 'x) sys"
  assumes inv: "task_ok cn s"
  shows "ensures (task_fork E s) (\<lambda>(r, t). task_ok cn t)"
proof -
  have keep: "task_ok cn t" if "view t = view s" for t :: "('d, 'x) sys" using inv_view [OF inv that] .
  note al = alloc_task_inv [OF inv]
  have st: "ensures (Some (fork_child c i sp r k u t)) (\<lambda>(r, t). task_ok cn t)"
    if "view t = view s" "i < MAX_TASKS" "snd (v_tasks (view s) ! i) = TASK_FREE"
    for t :: "('d, 'x) sys" and c i sp r k u
    using fork_child_inv [of cn t i c sp r k u] that keep by (auto simp: ensures_def)
  show ?thesis unfolding task_fork_def
    by (rule ensures_bind2 [OF al] task_wp
        ensures_bind [where R = "\<lambda>t :: ('d, 'x) sys. view t = view s"] vkeeps st | simp add: keep)+
qed

lemma free_user_pages_vkeep [vkeeps]: "view s = c \<Longrightarrow> ensures (free_user_pages i s) (\<lambda>t. view t = c)"
  unfolding free_user_pages_def by (rule ensures_if ensures_let ensures_Some vkeeps | assumption)+

lemma task_exec_inv:
  fixes s :: "('d, 'x) sys"
  assumes inv: "task_ok cn s"
  shows "ensures (task_exec E path argc argv frame s) (\<lambda>(r, f, t). task_ok cn t)"
proof -
  have keep: "task_ok cn t" if "view t = view s" for t :: "('d, 'x) sys" using inv_view [OF inv that] .
  show ?thesis unfolding task_exec_def
    by (rule task_wp ensures_bind [OF free_user_pages_vkeep]
        ensures_bind [where R = "\<lambda>t :: ('d, 'x) sys. view t = view s"] vkeeps keep
        | simp add: keep view_set_task vmm_load_pml4_def vmm_write_cr3_def)+
qed

lemma task_exit_inv:
  fixes s :: "('d, 'x) sys"
  assumes "task_ok cn s"
  shows "task_ok cn (snd (task_exit code s))"
proof (cases "t_pid (task_at (current_idx s) s) = 0")
  case True
  then show ?thesis using assms task_invD(3) [OF assms] by (simp add: task_exit_def)
next
  case False
  note D = task_invD [OF assms]
  let ?c = "current_idx s"
  have c0: "?c \<noteq> 0" using False D(5) by (intro notI) simp
  have "view (snd (task_exit code s)) =
      (view s)\<lparr>v_tasks := (v_tasks (view s))[?c := (t_pid (task_at ?c s), TASK_FREE), 0 := (0, TASK_RUNNING)],
              v_idx := 0, v_cur := Some 0\<rparr>"
    using False D(1,2,3,5) c0
    by (simp add: task_exit_def Let_def view_def set_task_def task_at_def free_pid_def vmm_write_cr3_def map_update
        MAX_TASKS_def)
  then show ?thesis
    using view_inv_exit [of cn "view s" "t_pid (task_at ?c s)"] assms D(1,2) False by (simp add: task_ok_def view_nth)
qed

lemma drop_task_inv:
  assumes "task_ok cn s" "0 < i" "i < MAX_TASKS" "t_state (task_at i s) \<noteq> TASK_FREE"
  shows "task_ok cn (drop_task i s)"
proof -
  note D = task_invD [OF assms(1)]
  have "view (drop_task i s) =
      (view s)\<lparr>v_tasks := (v_tasks (view s))[i := (t_pid (task_at i s), TASK_FREE)], v_count := v_count (view s) - 1\<rparr>"
    using D(1) assms(3)
    by (simp add: drop_task_def Let_def view_def set_task_def task_at_def free_pid_def map_update)
  then show ?thesis
    using view_inv_drop [of cn "view s" i "t_pid (task_at i s)"] assms D(1) by (simp add: task_ok_def view_nth live_def)
qed

lemma set_task_inv:
  "task_ok cn s \<Longrightarrow> (\<And>t. t_pid (f t) = t_pid t \<and> t_state (f t) = t_state t) \<Longrightarrow> task_ok cn (set_task i f s)"
  by (simp add: task_ok_def view_set_task)

lemma task_kill_inv:
  assumes "task_ok cn s"
  shows "task_ok cn (snd (task_kill pid sig s))"
proof (cases "sig < 1 \<or> 31 < sig \<or> pid \<le> 0 \<or> find_task_by_pid pid s = None")
  case True
  then show ?thesis using assms by (auto simp: task_kill_def)
next
  case False
  note D = task_invD [OF assms]
  obtain i where i: "find_task_by_pid pid s = Some i" using False by auto
  then have il: "i < MAX_TASKS" "t_pid (task_at i s) = pid" "t_state (task_at i s) \<noteq> TASK_FREE"
    by (auto simp: find_task_by_pid_def find_Some_iff)
  have i0: "0 < i" using il(2) D(5) False by (intro gr0I) auto
  have drop: "task_ok cn (drop_task i (set_task i (t_sig_pending_update f) s))" for f
    using i0 il assms D(1) by (intro drop_task_inv set_task_inv) (simp_all add: task_at_set_task)
  show ?thesis
    using False i drop task_exit_inv [OF assms, of 9] set_task_inv [OF assms, of "t_sig_pending_update f" i for f]
    by (auto simp: task_kill_def Let_def)
qed

lemma task_sigaction_inv: "task_ok cn s \<Longrightarrow> task_ok cn (snd (snd (task_sigaction sig act s)))"
  by (auto simp: task_sigaction_def set_task_inv split: option.splits)

lemma task_deliver_signal_inv: "task_ok cn s \<Longrightarrow> task_ok cn (snd (task_deliver_signal sig s))"
  by (auto simp: task_deliver_signal_def Let_def intro!: task_exit_inv set_task_inv split: option.split)

lemma task_check_signals_inv: "task_ok cn s \<Longrightarrow> task_ok cn (snd (task_check_signals s))"
  by (auto simp: task_check_signals_def Let_def intro!: task_deliver_signal_inv split: option.split)

lemma next_ready_SomeD:
  assumes "next_ready s = Some i"
  shows "i < MAX_TASKS" "t_state (task_at i s) = TASK_READY"
  using assms by (auto simp: next_ready_def find_Some_iff MAX_TASKS_def)

lemma view_inv_switch:
  assumes "view_ok cn v" "i < MAX_TASKS" "live (v_tasks v ! i)" "\<forall>j < MAX_TASKS. snd (v_tasks v ! j) \<noteq> TASK_RUNNING"
  shows "view_ok cn (v\<lparr>v_tasks := (v_tasks v)[i := (fst (v_tasks v ! i), TASK_RUNNING)], v_idx := i, v_cur := Some i\<rparr>)"
proof -
  have len: "length (v_tasks v) = MAX_TASKS" using assms(1) by (simp add: view_ok_def)
  have "length (filter live ((v_tasks v)[i := (fst (v_tasks v ! i), TASK_RUNNING)])) = length (filter live (v_tasks v))"
    using length_filter_update [of i "v_tasks v" live "(fst (v_tasks v ! i), TASK_RUNNING)"] assms(2,3) len
    by (simp add: live_def)
  then show ?thesis using assms len by (auto simp: view_ok_def nth_list_update live_def)
qed

lemma view_inv_preempt:
  assumes "view_ok cn v" "snd (v_tasks v ! v_idx v) = TASK_RUNNING"
  shows "view_ok cn (v\<lparr>v_tasks := (v_tasks v)[v_idx v := (fst (v_tasks v ! v_idx v), TASK_READY)]\<rparr>)"
proof -
  have len: "length (v_tasks v) = MAX_TASKS" "v_idx v < MAX_TASKS" using assms(1) by (simp_all add: view_ok_def)
  have "length (filter live ((v_tasks v)[v_idx v := (fst (v_tasks v ! v_idx v), TASK_READY)])) =
        length (filter live (v_tasks v))"
    using length_filter_update [of "v_idx v" "v_tasks v" live "(fst (v_tasks v ! v_idx v), TASK_READY)"] assms(2) len
    by (simp add: live_def)
  then show ?thesis using assms len by (auto simp: view_ok_def nth_list_update live_def)
qed

lemma preempted_view:
  assumes "task_ok cn s"
  shows "task_ok cn (preempted r s)"
    and "\<forall>j < MAX_TASKS. snd (v_tasks (view (preempted r s)) ! j) \<noteq> TASK_RUNNING"
proof -
  note D = task_invD [OF assms]
  let ?c = "current_idx s"
  have v: "view (preempted r s) = (if t_state (task_at ?c s) = TASK_RUNNING
      then (view s)\<lparr>v_tasks := (v_tasks (view s))[?c := (t_pid (task_at ?c s), TASK_READY)]\<rparr> else view s)"
    using D(1,2) by (auto simp: preempted_def intro: view_set_task_ps)
  show "\<forall>j < MAX_TASKS. snd (v_tasks (view (preempted r s)) ! j) \<noteq> TASK_RUNNING"
    unfolding v using D(1,2,7) by (auto simp: nth_list_update view_nth)
  have inv: "view_ok cn (view s)" using assms by (simp add: task_ok_def)
  show "task_ok cn (preempted r s)"
    unfolding task_ok_def v using view_inv_preempt [OF inv] inv D(1,2) by (simp add: view_nth)
qed

lemma schedule_inv:
  assumes "task_ok cn s"
  shows "task_ok cn (snd (schedule r s))"
proof (cases "1 < task_count s")
  case False
  then show ?thesis using assms task_invD(3) [OF assms] by (simp add: schedule_def set_task_inv)
next
  case True
  note D = task_invD [OF assms]
  have ok: "sched_ok s" using D by (simp add: sched_ok_def)
  define s1 where "s1 = preempted r s"
  define i where "i = (case next_ready s1 of Some i \<Rightarrow> i | None \<Rightarrow> 0)"
  note P = preempted_view [OF assms, of r, folded s1_def]
  note D1 = task_invD [OF P(1)]
  have i: "i < MAX_TASKS" "live (v_tasks (view s1) ! i)"
    using next_ready_SomeD [of s1] D1(1,6) by (auto simp: i_def view_nth live_def MAX_TASKS_def split: option.split)
  note eq = schedule_eq [OF ok True, of r, folded s1_def i_def, unfolded Let_def, folded i_def]
  have "view (snd (schedule r s)) =
      (view s1)\<lparr>v_tasks := (v_tasks (view s1))[i := (fst (v_tasks (view s1) ! i), TASK_RUNNING)], v_idx := i, v_cur := Some i\<rparr>"
    using eq i(1) D1(1) by (simp add: view_def map_update s1_def)
  then show ?thesis using view_inv_switch [OF P(1) [unfolded task_ok_def] i P(2)] by (simp add: task_ok_def)
qed

section \<open>Reachable states\<close>

lemma task_init_inv:
  assumes "length (tasks s) = MAX_TASKS"
  shows "task_ok cn (snd (task_init r s))"
proof -
  let ?ts = "(map (\<lambda>t. (t_pid t, TASK_FREE)) (tasks s))[0 := (0, TASK_RUNNING)]"
  have v: "view (snd (task_init r s)) = \<lparr>v_tasks = ?ts, v_next_pid = 1, v_count = 1, v_idx = 0, v_cur = Some 0\<rparr>"
    using assms by (simp add: task_init_def view_def set_task_def Let_def map_update MAX_TASKS_def comp_def)
  have "filter live (map (\<lambda>t. (t_pid t, TASK_FREE)) (tasks s)) = []" by (simp add: filter_empty_conv live_def)
  then have "length (filter live ?ts) = 1"
    using length_filter_update [of 0 "map (\<lambda>t. (t_pid t, TASK_FREE)) (tasks s)" live "(0, TASK_RUNNING)"] assms
    by (simp add: live_def MAX_TASKS_def)
  then show ?thesis
    unfolding task_ok_def v using assms by (simp add: view_ok_def MAX_TASKS_def nth_list_update live_def)
qed

inductive task_step :: "('d, 'x) env \<Rightarrow> ('d, 'x) sys \<Rightarrow> ('d, 'x) sys \<Rightarrow> bool" for E where
  create: "task_create_user E path argc argv s = Some (r, t) \<Longrightarrow> task_step E s t"
| fork: "task_fork E s = Some (r, t) \<Longrightarrow> task_step E s t"
| exec: "task_exec E path argc argv frame s = Some (r, frame', t) \<Longrightarrow> task_step E s t"
| exit: "task_exit code s = (res, t) \<Longrightarrow> task_step E s t"
| kill: "task_kill pid sig s = (res, t) \<Longrightarrow> task_step E s t"
| sigaction: "task_sigaction sig act s = (r, old, t) \<Longrightarrow> task_step E s t"
| signals: "task_check_signals s = (res, t) \<Longrightarrow> task_step E s t"
| sched: "schedule rsp s = (rsp', t) \<Longrightarrow> task_step E s t"

inductive task_reach :: "('d, 'x) env \<Rightarrow> ('d, 'x) sys \<Rightarrow> bool" for E where
  init: "length (tasks s) = MAX_TASKS \<Longrightarrow> task_init r s = (x, t) \<Longrightarrow> task_reach E t"
| step: "task_reach E s \<Longrightarrow> task_step E s t \<Longrightarrow> task_reach E t"

inductive_cases task_stepE: "task_step E s t"

lemma task_step_inv:
  assumes "task_ok cn s" and "task_step E s t"
  shows "task_ok cn t"
  using assms(2)
proof cases
  case (create path argc argv r)
  then show ?thesis using ensuresD [OF task_create_user_inv [OF assms(1)]] by fastforce
next
  case (fork r)
  then show ?thesis using ensuresD [OF task_fork_inv [OF assms(1)]] by fastforce
next
  case (exec path argc argv frame r frame')
  then show ?thesis using ensuresD [OF task_exec_inv [OF assms(1)]] by fastforce
next
  case (exit code res)
  then show ?thesis using task_exit_inv [OF assms(1), of code] by simp
next
  case (kill pid sig res)
  then show ?thesis using task_kill_inv [OF assms(1), of pid sig] by simp
next
  case (sigaction sig act r old)
  then show ?thesis using task_sigaction_inv [OF assms(1), of sig act] by simp
next
  case (signals res)
  then show ?thesis using task_check_signals_inv [OF assms(1)] by simp
next
  case (sched rsp rsp')
  then show ?thesis using schedule_inv [OF assms(1), of rsp] by simp
qed

lemma task_reach_inv: "task_reach E s \<Longrightarrow> task_ok cn s"
proof (induction rule: task_reach.induct)
  case (init s r x t)
  then show ?case using task_init_inv [of s cn r] by simp
qed (rule task_step_inv)

text \<open>
  In every state the task operations can reach from \<^verbatim>\<open>task_init\<close> (creating, forking,
  replacing, killing and scheduling tasks, delivering signals, and exiting, in any order and with any
  arguments, failing calls included) the task table is consistent: the current task is the one at
  \<^verbatim>\<open>current_idx\<close>, no other task is running, the kernel task keeps slot 0, identifier 0 and a state in
  which it can run, no other live task has identifier 0, and \<^verbatim>\<open>task_count\<close> is at least the number of
  live tasks.
\<close>

lemma task_table_invariant:
  assumes "task_reach E s"
  shows "task_ok cn s"
  using assms by (rule task_reach_inv)

lemma live_pair_count:
  assumes "i < length ts" "j < length ts" "i \<noteq> j" "live (ts ! i)" "live (ts ! j)"
  shows "2 \<le> length (filter live ts)"
proof -
  have "{i, j} \<subseteq> {k. k < length ts \<and> live (ts ! k)}" using assms by auto
  then have "card {i, j} \<le> card {k. k < length ts \<and> live (ts ! k)}" by (intro card_mono) auto
  then show ?thesis using assms(3) by (simp add: length_filter_conv_card)
qed

text \<open>
  C11 (liveness): the scheduler is fair.  When task \<open>j\<close> is ready in a state that satisfies the invariant of the
  task table, the current task has not been released and from then on only the scheduler runs, task \<open>j\<close> is the running task after
  at most as many calls as there are slots from the current one to \<open>j\<close>, going round the table,
  whatever the stack pointers of the interrupted tasks are.
\<close>

theorem schedule_fair:
  assumes "task_inv s" and "j < MAX_TASKS" and "t_state (task_at j s) = TASK_READY"
    and "j \<noteq> current_idx s" and "t_state (task_at (current_idx s) s) \<noteq> TASK_FREE"
    and "length rs = (j + MAX_TASKS - current_idx s) mod MAX_TASKS"
  shows "\<exists>k \<le> length rs. current_task (run_sched (take k rs) s) = Some j \<and>
    t_state (task_at j (run_sched (take k rs) s)) = TASK_RUNNING"
proof -
  note inv = assms(1)
  note D = task_invD [OF inv]
  have "2 \<le> length (filter live (v_tasks (view s)))"
    using assms D(1,2) by (intro live_pair_count [of j _ "current_idx s"]) (simp_all add: view_nth live_def)
  moreover have "int (length (filter live (v_tasks (view s)))) \<le> task_count s"
    using inv by (simp add: task_ok_def view_ok_def)
  ultimately have "1 < task_count s" by linarith
  then show ?thesis using schedule_reaches [of s j rs] assms D by (simp add: sched_ok_def)
qed

theorem schedule_fair_witness:
  "\<exists>k \<le> length [0xA000, 0xB000 :: u64]. current_task (run_sched (take k [0xA000, 0xB000]) demo_sys) = Some 2 \<and>
    t_state (task_at 2 (run_sched (take k [0xA000, 0xB000]) demo_sys)) = TASK_RUNNING"
proof (rule schedule_fair)
  have "v_tasks (view demo_sys) = [(0, TASK_RUNNING), (1, TASK_READY), (2, TASK_READY)] @ replicate 29 (0, TASK_FREE)"
    by (simp add: view_def demo_sys_def demo_task_def)
  then show "task_inv demo_sys"
    by (simp add: task_ok_def view_ok_def live_def) (auto simp: demo_sys_def MAX_TASKS_def nth_Cons' live_def)
qed (simp_all add: demo_sys_def MAX_TASKS_def task_at_def demo_task_def)

text \<open>
  A task that sends itself SIGTERM is released and goes on running: its slot can be given to a new
  task while it is still the current one.
\<close>

lemma task_kill_self:
  assumes "task_ok cn s" "0 < pid" "find_task_by_pid pid s = Some (current_idx s)"
    and "sa_handler (t_sig_actions (task_at (current_idx s) s) ! 15) = SIG_DFL"
  shows "\<exists>t. task_kill pid SIGTERM s = (Return 0, t) \<and> current_task t = Some (current_idx s) \<and>
    t_state (task_at (current_idx s) t) = TASK_FREE"
  using assms task_invD(1,2,3) [OF assms(1)]
  by (simp add: task_kill_def signal_numbers Let_def drop_task_def task_at_set_task free_pid_def)

end
