(* ===== verification/Syscall_Inv.thy ===== *)
theory Syscall_Inv
  imports Syscall Task_Inv
begin

text \<open>
  The task table under system calls and interrupts.  Interrupts are dispatched by \<^verbatim>\<open>irq_handler\<close> of
  \<^verbatim>\<open>kernel/idt.c\<close>.  System calls and interrupts are the steps of the running kernel; every one of them
  keeps the invariant of theory Task_Inv.
\<close>

section \<open>Interrupts\<close>

text \<open>The end of interrupt goes to the local controller, which has no state here, or to the first controller's port.\<close>

definition timer_eoi :: "('d, 'x) kernel \<Rightarrow> ('d, 'x) kernel" where
  "timer_eoi k = (if tm_active (k_timer k) = TIMER_LAPIC then k else port_out 0x20 0x20 k)"

text \<open>\<open>scancode\<close> is what the keyboard controller's port holds; \<open>fp\<close> the interrupted stack.\<close>

definition irq_handler :: "int \<Rightarrow> u8 \<Rightarrow> u64 \<Rightarrow> ('d, 'x) kernel \<Rightarrow> u64 \<times> ('d, 'x) kernel" where
  "irq_handler int_no scancode fp k =
     (if int_no = 32
      then let k = timer_eoi (k\<lparr>k_timer := timer_tick_handler (k_timer k)\<rparr>);
               (rsp, s) = schedule fp (k_sys k)
           in (rsp, k\<lparr>k_sys := s\<rparr>)
      else if int_no = 33
      then (fp, port_out 0x20 0x20 (k\<lparr>k_kbd := keyboard_handler scancode (k_kbd k)\<rparr>))
      else if int_no = 34
      then let k = k\<lparr>k_timer := timer_tick_handler (k_timer k)\<rparr>;
               (rsp, s) = schedule fp (k_sys k)
           in (rsp, k\<lparr>k_sys := s\<rparr>)
      else let k = (if 40 \<le> int_no then port_out 0xA0 0x20 k else k) in (fp, port_out 0x20 0x20 k))"

section \<open>System calls that leave the scheduler's view alone\<close>

abbreviation kview :: "('d, 'x) kernel \<Rightarrow> task_view" where "kview k \<equiv> view (k_sys k)"

named_theorems hkeeps \<open>handlers that keep the view of the scheduler\<close>

lemma user_put_view: "user_put p b s = Some t \<Longrightarrow> view t = view s"
  by (auto simp: user_put_def)

lemma user_store_view: "user_store p bs s = Some t \<Longrightarrow> view t = view s"
proof (induction bs arbitrary: p s)
  case (Cons b bs)
  then obtain u where "user_put p b s = Some u" "user_store (p + 1) bs u = Some t"
    by (auto split: bind_splits)
  then show ?case using Cons.IH user_put_view by metis
qed simp

lemma with_path_keep [hkeeps]:
  assumes "kview k = c" and "\<And>path. ensures (f path) (\<lambda>(r, k'). kview k' = c)"
  shows "ensures (with_path p k f) (\<lambda>(r, k'). kview k' = c)"
  using assms by (auto simp: with_path_def split: option.split intro!: ensures_Some)

lemma with_task_keep [hkeeps]:
  assumes "kview k = c" and "\<And>t. ensures (f t) (\<lambda>(r, k'). kview k' = c)"
  shows "ensures (with_task k f) (\<lambda>(r, k'). kview k' = c)"
  using assms by (auto simp: with_task_def split: option.split intro!: ensures_Some)

lemma with_fd_keep [hkeeps]:
  assumes "kview k = c" and "\<And>t file. ensures (f t file) (\<lambda>(r, k'). kview k' = c)"
  shows "ensures (with_fd fd k f) (\<lambda>(r, k'). kview k' = c)"
  using assms by (auto simp: with_fd_def split: option.split intro!: ensures_Some)

lemma fs_call_keep: "kview k = c \<Longrightarrow> ensures (fs_call f k) (\<lambda>(r, k'). kview k' = c)"
  unfolding fs_call_def by (rule ensures_bind2 [OF on_fs_vkeep]) (auto intro: ensures_Some)

lemma fs_call3_keep: "kview k = c \<Longrightarrow> ensures (fs_call3 f k) (\<lambda>(a, b, k'). kview k' = c)"
  unfolding fs_call3_def by (rule ensures_bind3 [OF ensures_any3]) (auto intro: ensures_Some)

lemma user_out_keep [hkeeps]: "kview k = c \<Longrightarrow> ensures (user_out p bs r k) (\<lambda>(r, k'). kview k' = c)"
  unfolding user_out_def by (auto simp: user_store_view split: option.split intro!: ensures_Some)

lemma set_fd_view [simp]: "kview (set_fd t fd f k) = kview k"
  by (simp add: set_fd_def view_set_task)

lemma console_putc_keep: "kview k = c \<Longrightarrow> ensures (console_putc H ch k) (\<lambda>k'. kview k' = c)"
  unfolding console_putc_def Let_def serial_out_def
  by (rule ensures_if ensures_bind [OF ensures_any] ensures_Some | simp)+

lemma write_chars_keep: "kview k = c \<Longrightarrow> ensures (write_chars H n p k) (\<lambda>(ok, k'). kview k' = c)"
proof (induction n arbitrary: p k)
  case (Suc n)
  show ?case unfolding write_chars.simps
    by (rule ensures_option ensures_Some ensures_bind [OF console_putc_keep] Suc.IH | simp add: Suc.prems)+
qed (simp add: ensures_Some)

lemma read_keys_keep: "kview k = c \<Longrightarrow> ensures (read_keys n p k) (\<lambda>(ok, k'). kview k' = c)"
proof (induction n arbitrary: p k)
  case (Suc n)
  show ?case unfolding read_keys.simps Let_def
    by (rule ensures_bind3 [OF ensures_any3] ensures_option ensures_Some Suc.IH
        | simp add: Suc.prems user_store_view)+
qed (simp add: ensures_Some)

lemmas handler_wp = ensures_if ensures_let ensures_Some ensures_option ensures_bind2 [OF fs_call_keep]
  ensures_bind3 [OF fs_call3_keep] hkeeps

lemma sys_write_keep [hkeeps]: "kview k = c \<Longrightarrow> ensures (sys_write H fd b n k) (\<lambda>(r, k'). kview k' = c)"
  unfolding sys_write_def by (rule ensures_bind2 [OF write_chars_keep] handler_wp | simp)+

lemma sys_read_keep [hkeeps]: "kview k = c \<Longrightarrow> ensures (sys_read E fd b n k) (\<lambda>(r, k'). kview k' = c)"
  unfolding sys_read_def by (rule ensures_bind2 [OF read_keys_keep] handler_wp | simp)+

lemma sys_lseek_keep [hkeeps]: "kview k = c \<Longrightarrow> ensures (sys_lseek fd off w k) (\<lambda>(r, k'). kview k' = c)"
  unfolding sys_lseek_def Let_def by (rule handler_wp | simp)+

lemma sys_open_keep [hkeeps]: "kview k = c \<Longrightarrow> ensures (sys_open E p fl k) (\<lambda>(r, k'). kview k' = c)"
  unfolding sys_open_def by (rule handler_wp | simp)+

lemma sys_close_keep [hkeeps]: "kview k = c \<Longrightarrow> ensures (sys_close E fd k) (\<lambda>(r, k'). kview k' = c)"
  unfolding sys_close_def by (rule handler_wp | simp)+

lemma put_dentry_view: "put_dentry p e s = Some t \<Longrightarrow> view t = view s"
  unfolding put_dentry_def by (auto split: bind_splits dest!: user_store_view)

lemma put_stat_view: "put_stat p e s = Some t \<Longrightarrow> view t = view s"
  unfolding put_stat_def by (auto split: bind_splits dest!: user_store_view)

lemma sys_readdir_keep [hkeeps]: "kview k = c \<Longrightarrow> ensures (sys_readdir E p i e k) (\<lambda>(r, k'). kview k' = c)"
  unfolding sys_readdir_def by (rule handler_wp | simp add: put_dentry_view)+

lemma sys_stat_keep [hkeeps]: "kview k = c \<Longrightarrow> ensures (sys_stat E p st k) (\<lambda>(r, k'). kview k' = c)"
  unfolding sys_stat_def by (rule handler_wp | simp add: put_stat_view)+

lemma sys_unlink_keep [hkeeps]: "kview k = c \<Longrightarrow> ensures (sys_unlink E p k) (\<lambda>(r, k'). kview k' = c)"
  unfolding sys_unlink_def by (rule handler_wp | simp)+

lemma sys_mkdir_keep [hkeeps]: "kview k = c \<Longrightarrow> ensures (sys_mkdir E p k) (\<lambda>(r, k'). kview k' = c)"
  unfolding sys_mkdir_def by (rule handler_wp | simp)+

lemma sys_rmdir_keep [hkeeps]: "kview k = c \<Longrightarrow> ensures (sys_rmdir E p k) (\<lambda>(r, k'). kview k' = c)"
  unfolding sys_rmdir_def Let_def by (rule handler_wp | simp)+

lemma sys_getcwd_keep [hkeeps]: "kview k = c \<Longrightarrow> ensures (sys_getcwd b n k) (\<lambda>(r, k'). kview k' = c)"
  unfolding sys_getcwd_def Let_def by (rule handler_wp | simp)+

lemma sys_chdir_keep [hkeeps]: "kview k = c \<Longrightarrow> ensures (sys_chdir E p k) (\<lambda>(r, k'). kview k' = c)"
  unfolding sys_chdir_def Let_def by (rule handler_wp | simp add: view_set_task)+

lemma vfs_pipe_create_keep:
  fixes m :: "('e, 'y) sys"
  assumes "view m = c"
  shows "ensures (vfs_pipe_create E pmm_alloc pmm_free pipes fds m v) (\<lambda>(r, ends, pipes', fds', m', v'). view m' = c)"
  using assms unfolding vfs_pipe_create_def Let_def
  by (auto simp: ensures_def split: bind_splits if_splits option.splits prod.splits
      dest!: ensuresD [OF pmm_alloc_vkeep [OF refl]] ensuresD [OF pmm_free_vkeep [OF refl]])

lemma sys_pipe_keep [hkeeps]:
  assumes "kview k = c"
  shows "ensures (sys_pipe E p k) (\<lambda>(r, k'). kview k' = c)"
proof (cases "current_task (k_sys k)")
  case None
  then show ?thesis using assms by (simp add: sys_pipe_def ensures_Some)
next
  case (Some t)
  have "kview k' = c" if a: "vfs_pipe_create E pmm_alloc pmm_free (k_pipes k) (t_fds (task_at t (k_sys k))) (k_sys k)
      (fsys (k_sys k)) = Some (r, ends, pipes, fds, s, v)"
    and b: "(case ends of None \<Rightarrow> fails (k\<lparr>k_pipes := pipes, k_sys := set_task t (t_fds_update (\<lambda>_. fds)) (s\<lparr>fsys := v\<rparr>)\<rparr>)
      | Some (fd0, fd1) \<Rightarrow> user_out p (le_bytes 4 (of_nat fd0) @ le_bytes 4 (of_nat fd1)) (Value 0)
          (k\<lparr>k_pipes := pipes, k_sys := set_task t (t_fds_update (\<lambda>_. fds)) (s\<lparr>fsys := v\<rparr>)\<rparr>)) = Some (x, k')"
    for r ends pipes fds s v x k'
  proof -
    have "view s = c" using ensuresD [OF vfs_pipe_create_keep [OF assms] a] by simp
    then have "kview (k\<lparr>k_pipes := pipes, k_sys := set_task t (t_fds_update (\<lambda>_. fds)) (s\<lparr>fsys := v\<rparr>)\<rparr>) = c"
      by (simp add: view_set_task)
    from ensuresD [OF user_out_keep [OF this]] b this show ?thesis
      by (auto split: option.splits prod.splits)
  qed
  then show ?thesis using Some unfolding sys_pipe_def ensures_def Let_def
    by (auto split: bind_splits prod.splits)
qed

lemma dup_to_view [simp]: "kview (dup_to t a n k) = kview k"
  by (simp add: dup_to_def split_beta)

lemma sys_dup_keep [hkeeps]: "kview k = c \<Longrightarrow> ensures (sys_dup fd k) (\<lambda>(r, k'). kview k' = c)"
  unfolding sys_dup_def by (rule handler_wp | simp)+

lemma sys_dup2_keep [hkeeps]:
  fixes k :: "('d, 'x) kernel"
  assumes "kview k = c"
  shows "ensures (sys_dup2 E a b k) (\<lambda>(r, k'). kview k' = c)"
  unfolding sys_dup2_def
  by (rule ensures_bind [where R = "\<lambda>k' :: ('d, 'x) kernel. kview k' = c"] handler_wp | simp add: assms)+

lemma brk_pages_keep:
  fixes s :: "('d, 'x) sys"
  shows "view s = c \<Longrightarrow> ensures (brk_pages r v stop s) (\<lambda>(ok, t). view t = c)"
proof (induction r v stop s rule: brk_pages.induct)
  case (1 r v stop s)
  have step: "ensures (brk_pages r (v + PAGE_SIZE) stop t) (\<lambda>(ok, t). view t = c)"
    if "v < stop" "pmm_alloc s = Some (p, s1)" "p \<noteq> 0" "vmm_map_page r v p (PAGE_USER OR PAGE_WRITE) s1 = Some (x, t)"
      "x = 0" "\<not> v + PAGE_SIZE < v" "view t = c" for p s1 x t
    using "1.IH" that by simp
  have v1: "view s1 = c" if "pmm_alloc s = Some (p, s1)" for p s1
    using ensuresD [OF pmm_alloc_vkeep [OF "1.prems"] that] by simp
  have v2: "view t = c" if "pmm_alloc s = Some (p, s1)" "vmm_map_page r v q f s1 = Some (x, t)" for p q s1 x f t
    using ensuresD [OF vmm_map_page_vkeep [OF v1 [OF that(1)]] that(2)] by simp
  show ?case
    using "1.prems" step v1 v2 ensuresD [OF pmm_free_vkeep [OF v2]]
    by (subst brk_pages.simps) (auto simp: ensures_def split: bind_splits if_splits prod.splits)
qed

lemma sys_brk_keep [hkeeps]: "kview k = c \<Longrightarrow> ensures (sys_brk b k) (\<lambda>(r, k'). kview k' = c)"
  unfolding sys_brk_def Let_def by (rule ensures_bind2 [OF brk_pages_keep] handler_wp | simp add: view_set_task)+

lemma sys_nanosleep_keep [hkeeps]: "kview k = c \<Longrightarrow> ensures (sys_nanosleep p k) (\<lambda>(r, k'). kview k' = c)"
  unfolding sys_nanosleep_def Let_def
  by (auto simp: ensures_def split: option.splits bind_splits prod.splits)

lemma sys_clock_gettime_keep [hkeeps]: "kview k = c \<Longrightarrow> ensures (sys_clock_gettime H p k) (\<lambda>(r, k'). kview k' = c)"
  unfolding sys_clock_gettime_def by (rule ensures_bind3 [OF ensures_any3] handler_wp | simp)+

lemma sys_clear_keep [hkeeps]: "kview k = c \<Longrightarrow> ensures (sys_clear k) (\<lambda>(r, k'). kview k' = c)"
  by (simp add: sys_clear_def Let_def ensures_Some)

lemma sys_reboot_keep [hkeeps]: "kview k = c \<Longrightarrow> ensures (sys_reboot k) (\<lambda>(r, k'). kview k' = c)"
  by (simp add: sys_reboot_def port_out_def serial_out_def ensures_Some)

lemma sys_shutdown_keep [hkeeps]: "kview k = c \<Longrightarrow> ensures (sys_shutdown k) (\<lambda>(r, k'). kview k' = c)"
  by (simp add: sys_shutdown_def Let_def port_out_def serial_out_def ensures_Some)

lemma serial_printf_keep: "kview k = c \<Longrightarrow> ensures (serial_printf fmt args k) (\<lambda>k'. kview k' = c)"
proof -
  assume c: "kview k = c"
  have "kview (fold (\<lambda>c. serial_out [c]) t k) = kview k" for t
    by (induction t arbitrary: k) (simp_all add: serial_out_def)
  then show ?thesis using c by (auto simp: serial_printf_def kvformat_text ensures_def)
qed

lemma sys_unknown_keep [hkeeps]: "kview k = c \<Longrightarrow> ensures (sys_unknown nr k) (\<lambda>(r, k'). kview k' = c)"
  unfolding sys_unknown_def by (rule ensures_bind [OF serial_printf_keep] handler_wp | simp)+

section \<open>System calls that change the task table\<close>

abbreviation kinv :: "bool \<Rightarrow> ('d, 'x) kernel \<Rightarrow> bool" where "kinv cn k \<equiv> task_ok cn (k_sys k)"














definition released :: "('d, 'x) kernel \<Rightarrow> bool" where
  "released k \<longleftrightarrow> t_state (task_at (current_idx (k_sys k)) (k_sys k)) = TASK_FREE"


section \<open>The running kernel\<close>

text \<open>The system call that makes a released slot live again.\<close>

definition revives :: "pushaq_frame \<Rightarrow> ('d, 'x) kernel \<Rightarrow> bool" where
  "revives f k \<longleftrightarrow> fr_rax f = SYS_YIELD \<and> released k"


text \<open>What \<^verbatim>\<open>syscall_entry\<close> does behind the switch: the result goes into the frame and signals are delivered.\<close>

definition syscall_return :: "u64 \<Rightarrow> u64 \<Rightarrow> pushaq_frame \<Rightarrow> ('d, 'x) kernel \<Rightarrow> u64 outcome \<times> pushaq_frame \<times> ('d, 'x) kernel" where
  "syscall_return v fp f k =
     (case task_check_signals (k_sys k) of
        (r, s) \<Rightarrow> (case r of Return _ \<Rightarrow> Return fp | Halted \<Rightarrow> Halted | Switched rsp \<Rightarrow> Switched rsp, f\<lparr>fr_rax := v\<rparr>, k\<lparr>k_sys := s\<rparr>))"




text \<open>
  The steps of the running kernel: a system call that runs to its end, and an interrupt.  Reading from the keyboard and
  from a pipe waits with interrupts enabled (\<^verbatim>\<open>sti; hlt; cli\<close>), so that the scheduler may run other tasks in the middle of the call;
  such a call is a sequence of steps, with any other steps in between: \<open>keys\<close> are the characters it takes before it waits again,
  \<open>pipe\<close> is one byte taken from a pipe, and \<open>leave\<close> is its end.  These steps are allowed
  in every state, also when no call waits.  The label tells whether the step keeps the number of live tasks within
  \<^verbatim>\<open>task_count\<close>.
\<close>

inductive kernel_step :: "('d, 'x) env \<Rightarrow> hardware \<Rightarrow> bool \<Rightarrow> ('d, 'x) kernel \<Rightarrow> ('d, 'x) kernel \<Rightarrow> bool" for E H where
  syscall: "syscall_entry E H fp f k = Some (r, f', k') \<Longrightarrow> kernel_step E H (\<not> revives f k) k k'"
| irq: "irq_handler n sc fp k = (rsp, k') \<Longrightarrow> kernel_step E H True k k'"
| keys: "read_keys n p k = Some (x, k') \<Longrightarrow> kernel_step E H True k k'"
| pipe: "pipe_read_iter n (out, k_pipes k i) = Again (out @ [b], pn) \<Longrightarrow> user_put p b (k_sys k) = Some s \<Longrightarrow>
     kernel_step E H True k (k\<lparr>k_pipes := (k_pipes k)(i := pn), k_sys := s\<rparr>)"
| leave: "syscall_return v fp f k = (r, f', k') \<Longrightarrow> kernel_step E H True k k'"


inductive_cases kernel_stepE: "kernel_step E H b k k'"



text \<open>
  A task that has sent itself SIGTERM and yields becomes ready again, with its slot, although its identifier
  has been given back and \<^verbatim>\<open>task_count\<close> no longer counts it.
\<close>

lemma yield_revives_released:
  assumes "kinv cn k" and "released k" and "t_pid (task_at (current_idx (k_sys k)) (k_sys k)) \<noteq> 0"
  shows "\<exists>r k'. sys_yield fp k = Some (r, k') \<and> t_state (task_at (current_idx (k_sys k)) (k_sys k')) \<noteq> TASK_FREE \<and>
    task_count (k_sys k') = task_count (k_sys k)"
proof -
  let ?c = "current_idx (k_sys k)"
  define s where "s = set_task ?c (t_state_update (\<lambda>_. TASK_READY)) (k_sys k)"
  note D = task_invD [OF assms(1)]
  have s: "current_task s = Some ?c" "length (tasks s) = MAX_TASKS" "t_state (task_at ?c s) = TASK_READY"
      "task_count s = task_count (k_sys k)"
    using D by (simp_all add: s_def task_at_set_task)
  have "sys_yield fp k = Some (Stack (fst (schedule fp s)), k\<lparr>k_sys := snd (schedule fp s)\<rparr>)"
    using D(3) assms(3) by (simp add: sys_yield_def Let_def s_def split_beta)
  moreover have "t_state (task_at ?c (snd (schedule fp s))) \<noteq> TASK_FREE \<and> task_count (snd (schedule fp s)) = task_count s"
    using s D(2) next_ready_SomeD [of s]
    by (auto simp: schedule_def Let_def switch_to_def load_kernel_cr3_def vmm_load_pml4_def vmm_write_cr3_def gdt_set_kstack_def
        task_at_set_task MAX_TASKS_def split: option.splits)
  ultimately show ?thesis using s(4) by simp
qed


definition demo_kernel :: "(u64 \<Rightarrow> u8, unit) kernel" where
  "demo_kernel = \<lparr>k_sys = snd (task_init 0x9000 demo_sys), k_kbd = kbd_boot, k_irqs = [], k_vga = ed_vga ed_boot, k_fb = fb_boot,
     k_serial = [], k_pipes = (\<lambda>_. new_pipe), k_timer = \<lparr>ticks = 0, tm_active = TIMER_PIT, freq_hz = 100\<rparr>, k_cmos = 0,
     k_ports = []\<rparr>"



section \<open>Sleeping and yielding\<close>

text \<open>
  \<^verbatim>\<open>nanosleep\<close> returns exactly when it has no timer tick to wait for: the gate of the system call
  disables interrupts and the handler halts the processor without enabling them, so every longer
  sleep stops the machine for good.
\<close>

lemma nanosleep_returns_iff:
  assumes "ts \<noteq> 0" and "user_load64 ts (k_sys k) = Some sec" and "user_load64 (ts + 8) (k_sys k) = Some nsec"
    and "freq_hz (k_timer k) \<noteq> 0"
    and "ms = ucast (if 0 < nsec mod 1000000 \<and> sec * 1000 + nsec div 1000000 = 0 then 1 else sec * 1000 + nsec div 1000000)"
  shows "(sys_nanosleep ts k \<noteq> None) =
    (ticks (k_timer k) + ucast (freq_hz (k_timer k)) * ucast (ms :: u32) div 1000 \<le> ticks (k_timer k))"
  using assms by (auto simp: sys_nanosleep_def Let_def timer_sleep_def wait_ticks.simps not_less)

text \<open>Page tables that map the first gigabyte to itself, and two seconds at \<open>0x5000\<close>.\<close>

definition sleep_mem :: mem64 where
  "sleep_mem = (\<lambda>_. 0)(0x1000 := 0x2003, 0x2000 := 0x83, 0x5000 := 2)"

definition sleep_kernel :: "(u64 \<Rightarrow> u8, unit) kernel" where
  "sleep_kernel = demo_kernel\<lparr>k_sys := (k_sys demo_kernel)\<lparr>pmem := sleep_mem, cr3 := 0x1000\<rparr>\<rparr>"

lemma vtrans_Suc:
  "vtrans m (Suc j) t v =
     (let e = m (entry_addr t (pt_idx (2 - j) v)) in
      if \<not> present e then None
      else if Suc j < 3 \<and> huge e then Some ((e AND NOT (mask (12 + 9 * Suc j))) + (v AND mask (12 + 9 * Suc j)))
      else vtrans m j (page_base e) v)"
  by (subst vtrans.simps) (simp add: Let_def)

lemma sleep_get:
  assumes "a < 0x40000000"
  shows "user_get a (k_sys sleep_kernel) = Some (load8 a sleep_mem)"
proof -
  have "unat a < 2 ^ 30" using assms by (simp add: word_less_nat_alt)
  then have "unat (drop_bit 30 a) = 0" "unat (drop_bit 39 a) = 0"
    unfolding unat_drop_bit_eq by (simp_all add: drop_bit_eq_div)
  then have idx: "pt_idx 0 a = 0" "pt_idx 1 a = 0" by (simp_all add: pt_idx_def unat_eq_0)
  have "take_bit 30 a = a" using \<open>unat a < 2 ^ 30\<close> unfolding word_unat_eq_iff by (simp only: unsigned_take_bit_eq take_bit_nat_eq_self)
  then have off: "a AND mask 30 = a" by (simp add: take_bit_eq_mask)
  have "((0x83 :: u64) AND NOT (mask 30)) = 0" by (simp add: mask_eq_exp_minus_1)
  then have "vtrans sleep_mem (Suc (Suc 0)) 0x2000 a = Some a"
    using vtrans_Suc [of sleep_mem 1 "0x2000" a] idx off
    by (simp add: entry_addr_def sleep_mem_def present_def huge_def page_flags)
  then have "vtrans sleep_mem 2 0x2000 a = Some a" by (simp only: numeral_2_eq_2)
  moreover have "vtrans sleep_mem 3 0x1000 a = vtrans sleep_mem 2 0x2000 a"
    using vtrans_Suc [of sleep_mem 2 "0x1000" a] idx
    by (simp add: entry_addr_def sleep_mem_def present_def page_flags page_base_def)
  ultimately show ?thesis by (simp add: user_get_def sleep_kernel_def)
qed

lemma sleep_bytes:
  "map (\<lambda>a. load8 a sleep_mem) [0x5000, 0x5001, 0x5002, 0x5003, 0x5004, 0x5005, 0x5006, 0x5007] = [2, 0, 0, 0, 0, 0, 0, 0]"
  "map (\<lambda>a. load8 a sleep_mem) [0x5008, 0x5009, 0x500A, 0x500B, 0x500C, 0x500D, 0x500E, 0x500F] = [0, 0, 0, 0, 0, 0, 0, 0]"
  by (simp_all add: load8_def sleep_mem_def)

lemma sys_yield_keeps_rsp:
  assumes "current_task (k_sys k) = Some c" and "length (tasks (k_sys k)) = MAX_TASKS" and "c < MAX_TASKS"
    and "t_pid (task_at c (k_sys k)) \<noteq> 0" and "1 < task_count (k_sys k)" and "sys_yield fp k = Some (r, k')"
  shows "t_kernel_rsp (task_at c (k_sys k')) = t_kernel_rsp (task_at c (k_sys k))"
proof -
  define s where "s = set_task c (t_state_update (\<lambda>_. TASK_READY)) (k_sys k)"
  have s: "current_task s = Some c" "length (tasks s) = MAX_TASKS" "t_state (task_at c s) = TASK_READY"
    "task_count s = task_count (k_sys k)" "t_kernel_rsp (task_at c s) = t_kernel_rsp (task_at c (k_sys k))"
    using assms by (simp_all add: s_def task_at_set_task)
  have k': "k_sys k' = snd (schedule fp s)"
    using assms(1,4,6) by (auto simp: sys_yield_def Let_def s_def split: prod.splits)
  have st: "t_kernel_rsp (task_at c (set_task j (t_state_update f) u)) = t_kernel_rsp (task_at c u)"
    if "j < length (tasks u)" for j f and u :: "('a, 'b) sys"
    using that by (simp add: task_at_set_task)
  show ?thesis
    using s assms(3,5) next_ready_SomeD [of s] unfolding k'
    by (auto simp: schedule_def Let_def switch_to_def load_kernel_cr3_def vmm_load_pml4_def vmm_write_cr3_def gdt_set_kstack_def
        st MAX_TASKS_def split: option.splits)
qed

end
