(* ===== verification/Stdio.thy ===== *)
theory Stdio
  imports Format Console
begin

text \<open>
  Streams of the C library: \<^verbatim>\<open>libc/src/stdio/file.c\<close>, \<^verbatim>\<open>fget.c\<close> and \<^verbatim>\<open>fput.c\<close>.  A stream is the value of its
  \<^verbatim>\<open>struct _FILE\<close>; \<open>f_buf\<close> is the memory behind the address in \<^verbatim>\<open>buf\<close>, so that a store at an index past the
  buffer is visible.  The system calls and the heap are a record of functions on the state \<open>'w\<close> of the world.
  A stream passed to a function exists, except where the code checks the pointer and the argument is an option.
\<close>

section \<open>Streams\<close>

record FILE =
  f_fd :: int
  f_buf :: mem8
  f_bufsiz :: u64
  f_pos :: u64
  f_len :: u64
  f_flags :: u32
  f_last_ungetc :: int
  f_has_ungetc :: bool

definition BUFSIZ :: u64 where "BUFSIZ = 1024"
definition EOF :: int where "EOF = - 1"

definition IO_READING :: u32 where "IO_READING = 1"
definition IO_WRITING :: u32 where "IO_WRITING = 2"
definition IO_EOF :: u32 where "IO_EOF = 4"
definition IO_ERROR :: u32 where "IO_ERROR = 8"
definition IO_UNBUFFERED :: u32 where "IO_UNBUFFERED = 16"
definition IO_LINEBUF :: u32 where "IO_LINEBUF = 32"

definition IONBF :: int where "IONBF = 0"
definition IOLBF :: int where "IOLBF = 1"

definition O_WRONLY :: u32 where "O_WRONLY = 1"
definition O_RDONLY :: u32 where "O_RDONLY = 0"
definition O_RDWR :: u32 where "O_RDWR = 2"
definition O_CREAT :: u32 where "O_CREAT = 0x40"
definition O_TRUNC :: u32 where "O_TRUNC = 0x200"
definition O_APPEND :: u32 where "O_APPEND = 0x400"

lemmas io_flags = IO_READING_def IO_WRITING_def IO_EOF_def IO_ERROR_def IO_UNBUFFERED_def IO_LINEBUF_def

record 'w os =
  os_read :: "int \<Rightarrow> u64 \<Rightarrow> 'w \<Rightarrow> int \<times> bytes \<times> 'w"
  os_write :: "int \<Rightarrow> bytes \<Rightarrow> 'w \<Rightarrow> int \<times> 'w"
  os_open :: "bytes \<Rightarrow> u32 \<Rightarrow> 'w \<Rightarrow> int \<times> 'w"
  os_close :: "int \<Rightarrow> 'w \<Rightarrow> 'w"
  os_malloc :: "u64 \<Rightarrow> 'w \<Rightarrow> u64 \<times> 'w"
  os_free :: "u64 \<Rightarrow> 'w \<Rightarrow> 'w"

definition has_flag :: "u32 \<Rightarrow> FILE \<Rightarrow> bool" where
  "has_flag b f \<longleftrightarrow> f_flags f AND b \<noteq> 0"

definition set_flag :: "u32 \<Rightarrow> FILE \<Rightarrow> FILE" where
  "set_flag b f = f\<lparr>f_flags := f_flags f OR b\<rparr>"

lemma has_flag_set: "has_flag b (set_flag c f) \<longleftrightarrow> has_flag b f \<or> c AND b \<noteq> 0"
  by (auto simp: has_flag_def set_flag_def bit_eq_iff bit_simps)

section \<open>The standard streams\<close>

record stdio =
  io_stdin :: FILE
  io_stdout :: FILE
  io_stderr :: FILE
  io_inited :: bool

definition zero_file :: FILE where
  "zero_file = \<lparr>f_fd = 0, f_buf = (\<lambda>_. 0), f_bufsiz = 0, f_pos = 0, f_len = 0, f_flags = 0,
                f_last_ungetc = 0, f_has_ungetc = False\<rparr>"

text \<open>The static variables before the program runs.\<close>

definition stdio_boot :: stdio where
  "stdio_boot = \<lparr>io_stdin = zero_file, io_stdout = zero_file, io_stderr = zero_file, io_inited = False\<rparr>"

definition std_stream :: "int \<Rightarrow> u32 \<Rightarrow> FILE \<Rightarrow> FILE" where
  "std_stream fd flags f =
     f\<lparr>f_fd := fd, f_buf := (\<lambda>_. 0), f_bufsiz := BUFSIZ, f_len := 0, f_pos := 0, f_flags := flags, f_has_ungetc := False\<rparr>"

definition stdio_init :: "stdio \<Rightarrow> stdio" where
  "stdio_init s =
     (if io_inited s then s
      else s\<lparr>io_inited := True, io_stdin := std_stream 0 IO_READING (io_stdin s),
             io_stdout := std_stream 1 IO_WRITING (io_stdout s),
             io_stderr := std_stream 2 (IO_WRITING OR IO_UNBUFFERED) (io_stderr s)\<rparr>)"

section \<open>Output\<close>

partial_function (option) flush_loop :: "'w os \<Rightarrow> int \<Rightarrow> mem8 \<Rightarrow> u64 \<Rightarrow> u64 \<Rightarrow> 'w \<Rightarrow> (bool \<times> 'w) option" where
  "flush_loop E fd buf p tot w =
     (if 0 < tot
      then (case os_write E fd (map (\<lambda>i. buf (p + of_nat i)) [0..<unat tot]) w of (n, w) \<Rightarrow>
              if n \<le> 0 then Some (False, w)
              else flush_loop E fd buf (p + of_int n) (tot - of_int n) w)
      else Some (True, w))"

definition fflush :: "'w os \<Rightarrow> FILE \<Rightarrow> 'w \<Rightarrow> (int \<times> FILE \<times> 'w) option" where
  "fflush E f w =
     (if \<not> has_flag IO_WRITING f \<or> f_pos f = 0 then Some (0, f, w)
      else do { (ok, w) \<leftarrow> flush_loop E (f_fd f) (f_buf f) 0 (f_pos f) w;
                Some (if ok then (0, f\<lparr>f_pos := 0\<rparr>, w) else (EOF, set_flag IO_ERROR f, w)) })"

definition fputc :: "'w os \<Rightarrow> int \<Rightarrow> FILE \<Rightarrow> 'w \<Rightarrow> (int \<times> FILE \<times> 'w) option" where
  "fputc E c f w =
     (let ch = word_of_int c :: u8 in
      if \<not> has_flag IO_WRITING f then Some (EOF, f, w)
      else if has_flag IO_UNBUFFERED f
      then (case os_write E (f_fd f) [ch] w of (n, w) \<Rightarrow>
              Some (if n \<noteq> 1 then (EOF, set_flag IO_ERROR f, w) else (uint ch, f, w)))
      else let f = f\<lparr>f_buf := (f_buf f)(f_pos f := ch), f_pos := f_pos f + 1\<rparr> in
        if f_bufsiz f \<le> f_pos f \<or> has_flag IO_LINEBUF f \<and> c = 0x0A
        then do { (r, f, w) \<leftarrow> fflush E f w; Some (if r \<noteq> 0 then EOF else uint ch, f, w) }
        else Some (uint ch, f, w))"

fun fputs :: "'w os \<Rightarrow> bytes \<Rightarrow> FILE \<Rightarrow> 'w \<Rightarrow> (int \<times> FILE \<times> 'w) option" where
  "fputs E [] f w = Some (1, f, w)"
| "fputs E (c # s) f w =
     (if c = 0 then Some (1, f, w)
      else do { (r, f, w) \<leftarrow> fputc E (uint c) f w;
                if r = EOF then Some (EOF, f, w) else fputs E s f w })"

text \<open>\<^verbatim>\<open>fputc\<close> is the character function of the formatter; its result is dropped.\<close>

definition vfprintf :: "'w os \<Rightarrow> u8 \<Rightarrow> FILE \<Rightarrow> bytes \<Rightarrow> varg list \<Rightarrow> 'w \<Rightarrow> (int \<times> FILE \<times> 'w) option" where
  "vfprintf E junk f fmt args w =
     do { ctx \<leftarrow> vcb_printf junk fmt args (\<lambda>c ctx. do { (f, w) \<leftarrow> ctx; (_, f, w) \<leftarrow> fputc E (sint c) f w; Some (f, w) })
                  (Some (f, w));
          (f, w) \<leftarrow> ctx;
          Some (0, f, w) }"

definition fprintf :: "'w os \<Rightarrow> u8 \<Rightarrow> FILE \<Rightarrow> bytes \<Rightarrow> varg list \<Rightarrow> 'w \<Rightarrow> (int \<times> FILE \<times> 'w) option" where
  "fprintf E junk f fmt args w = do { (_, f, w) \<leftarrow> vfprintf E junk f fmt args w; Some (0, f, w) }"

definition copy_in :: "mem8 \<Rightarrow> u64 \<Rightarrow> mem8 \<Rightarrow> u64 \<Rightarrow> nat \<Rightarrow> mem8" where
  "copy_in buf pos src off n = fold (\<lambda>i b. b(pos + of_nat i := src (off + of_nat i))) [0..<n] buf"

text \<open>\<open>src\<close> is the memory behind \<^verbatim>\<open>ptr\<close>; \<open>Inl\<close> is the return after a failed flush.\<close>

partial_function (option) fwrite_loop ::
  "'w os \<Rightarrow> mem8 \<Rightarrow> u64 \<Rightarrow> u64 \<Rightarrow> FILE \<Rightarrow> 'w \<Rightarrow> ((u64 + unit) \<times> FILE \<times> 'w) option" where
  "fwrite_loop E src tot written f w =
     (if written < tot
      then let remaining = tot - written;
               space = f_bufsiz f - f_pos f;
               chunk = (if remaining < space then remaining else space);
               f = f\<lparr>f_buf := copy_in (f_buf f) (f_pos f) src written (unat chunk), f_pos := f_pos f + chunk\<rparr>;
               written = written + chunk
           in if f_bufsiz f \<le> f_pos f
              then do { (r, f, w) \<leftarrow> fflush E f w;
                        if r \<noteq> 0 then Some (Inl written, f, w) else fwrite_loop E src tot written f w }
              else fwrite_loop E src tot written f w
      else Some (Inr (), f, w))"

definition fwrite :: "'w os \<Rightarrow> mem8 \<Rightarrow> u64 \<Rightarrow> u64 \<Rightarrow> FILE \<Rightarrow> 'w \<Rightarrow> (u64 \<times> FILE \<times> 'w) option" where
  "fwrite E src sz nmemb f w =
     (if \<not> has_flag IO_WRITING f then Some (0, f, w)
      else do { (r, f, w) \<leftarrow> fwrite_loop E src (sz * nmemb) 0 f w;
                Some (case r of Inl written \<Rightarrow> if 0 < sz then written div sz else 0 | Inr _ \<Rightarrow> nmemb, f, w) })"

section \<open>Input\<close>

definition filled :: "bytes \<Rightarrow> mem8 \<Rightarrow> mem8" where
  "filled bs buf = (\<lambda>i. if unat i < length bs then bs ! unat i else buf i)"

text \<open>What \<^verbatim>\<open>fread\<close> and \<^verbatim>\<open>fgetc\<close> do when the buffer is used up; the result says whether there are bytes.\<close>

definition refill :: "'w os \<Rightarrow> FILE \<Rightarrow> 'w \<Rightarrow> bool \<times> FILE \<times> 'w" where
  "refill E f w =
     (if has_flag IO_EOF f then (False, f, w)
      else case os_read E (f_fd f) (f_bufsiz f) w of (n, bs, w) \<Rightarrow>
        let f = f\<lparr>f_pos := 0\<rparr> in
        if n \<le> 0 then (False, set_flag (if n = 0 then IO_EOF else IO_ERROR) f, w)
        else (True, f\<lparr>f_buf := filled bs (f_buf f), f_len := of_int n\<rparr>, w))"

definition next_byte :: "FILE \<Rightarrow> 'w \<Rightarrow> int \<times> FILE \<times> 'w" where
  "next_byte f w = (uint (f_buf f (f_pos f)), f\<lparr>f_pos := f_pos f + 1\<rparr>, w)"

definition fgetc :: "'w os \<Rightarrow> FILE \<Rightarrow> 'w \<Rightarrow> int \<times> FILE \<times> 'w" where
  "fgetc E f w =
     (if \<not> has_flag IO_READING f then (EOF, f, w)
      else if f_has_ungetc f then (f_last_ungetc f, f\<lparr>f_has_ungetc := False\<rparr>, w)
      else if f_len f \<le> f_pos f
      then (case refill E f w of (ok, f, w) \<Rightarrow> if ok then next_byte f w else (EOF, f, w))
      else next_byte f w)"

text \<open>The loop of \<^verbatim>\<open>fgets\<close> for at most \<open>k\<close> further characters behind the \<open>s\<close> it has; \<open>None\<close> is \<^verbatim>\<open>NULL\<close>.\<close>

fun fgets_loop :: "'w os \<Rightarrow> nat \<Rightarrow> bytes \<Rightarrow> FILE \<Rightarrow> 'w \<Rightarrow> bytes option \<times> FILE \<times> 'w" where
  "fgets_loop E 0 s f w = (Some s, f, w)"
| "fgets_loop E (Suc k) s f w =
     (case fgetc E f w of (c, f, w) \<Rightarrow>
        if c = EOF then (if s = [] then None else Some s, f, w)
        else if c = 0x0A then (Some (s @ [word_of_int c]), f, w)
        else fgets_loop E k (s @ [word_of_int c]) f w)"

definition fgets :: "'w os \<Rightarrow> int \<Rightarrow> FILE \<Rightarrow> 'w \<Rightarrow> bytes option \<times> FILE \<times> 'w" where
  "fgets E n f w =
     (if n \<le> 0 then (None, f, w)
      else case fgets_loop E (nat (n - 1)) [] f w of (s, f, w) \<Rightarrow> (map_option (\<lambda>s. s @ [0]) s, f, w))"

definition ungetc :: "int \<Rightarrow> FILE \<Rightarrow> int \<times> FILE" where
  "ungetc c f =
     (if c = EOF then (EOF, f)
      else (uint (word_of_int c :: u8), f\<lparr>f_has_ungetc := True, f_last_ungetc := uint (word_of_int c :: u8)\<rparr>))"

definition feof :: "FILE \<Rightarrow> bool" where "feof f \<longleftrightarrow> has_flag IO_EOF f"

definition ferror :: "FILE \<Rightarrow> bool" where "ferror f \<longleftrightarrow> has_flag IO_ERROR f"

definition clearerr :: "FILE \<Rightarrow> FILE" where
  "clearerr f = f\<lparr>f_flags := f_flags f AND NOT (IO_EOF OR IO_ERROR)\<rparr>"

text \<open>The bytes stored at \<^verbatim>\<open>ptr\<close> are a list.\<close>

partial_function (option) fread_loop ::
  "'w os \<Rightarrow> u64 \<Rightarrow> bytes \<Rightarrow> u64 \<Rightarrow> FILE \<Rightarrow> 'w \<Rightarrow> (bytes \<times> u64 \<times> FILE \<times> 'w) option" where
  "fread_loop E tot p got f w =
     (if got < tot
      then (case (if f_len f \<le> f_pos f then refill E f w else (True, f, w)) of (ok, f, w) \<Rightarrow>
              if \<not> ok then Some (p, got, f, w)
              else let avail = f_len f - f_pos f;
                       chunk = (if avail < tot - got then avail else tot - got)
                   in fread_loop E tot (p @ map (\<lambda>i. f_buf f (f_pos f + of_nat i)) [0..<unat chunk]) (got + chunk)
                        (f\<lparr>f_pos := f_pos f + chunk\<rparr>) w)
      else Some (p, got, f, w))"

definition fread :: "'w os \<Rightarrow> u64 \<Rightarrow> u64 \<Rightarrow> FILE \<Rightarrow> 'w \<Rightarrow> (u64 \<times> bytes \<times> FILE \<times> 'w) option" where
  "fread E sz nmemb f w =
     (if \<not> has_flag IO_READING f then Some (0, [], f, w)
      else do { (p, got, f, w) \<leftarrow> fread_loop E (sz * nmemb) [] 0 f w;
                Some (if 0 < sz then got div sz else 0, p, f, w) })"

section \<open>Opening and closing\<close>

text \<open>The mode string gives the access mode and the other flags.\<close>

fun mode_flags :: "bytes \<Rightarrow> u32 \<Rightarrow> u32 \<Rightarrow> u32 \<times> u32" where
  "mode_flags [] rw flags = (rw, flags)"
| "mode_flags (c # mode) rw flags =
     (if c = 0 then (rw, flags)
      else if c = 0x72 then mode_flags mode (if rw = 0 then O_RDONLY else rw) flags
      else if c = 0x77 then mode_flags mode (if rw = 0 then O_WRONLY else rw) (flags OR (O_CREAT OR O_TRUNC))
      else if c = 0x61 then mode_flags mode (if rw = 0 then O_WRONLY else rw) (flags OR (O_CREAT OR O_APPEND))
      else if c = 0x2B then mode_flags mode O_RDWR flags
      else mode_flags mode rw flags)"

definition sizeof_FILE :: u64 where "sizeof_FILE = 56"

text \<open>
  \<open>raw\<close> is what the allocated memory holds.  The result is the stream with the addresses of its structure and
  of its buffer.
\<close>

definition fopen :: "'w os \<Rightarrow> FILE \<Rightarrow> bytes \<Rightarrow> bytes \<Rightarrow> 'w \<Rightarrow> (u64 \<times> u64 \<times> FILE) option \<times> 'w" where
  "fopen E raw path mode w =
     (case mode_flags mode 0 0 of (rw, flags) \<Rightarrow>
        if rw = 0 then (None, w)
        else case os_open E path (flags OR rw) w of (fd, w) \<Rightarrow>
          if fd < 0 then (None, w)
          else case os_malloc E sizeof_FILE w of (f, w) \<Rightarrow>
            if f = 0 then (None, os_close E fd w)
            else case os_malloc E BUFSIZ w of (buf, w) \<Rightarrow>
              if buf = 0 then (None, os_close E fd (os_free E f w))
              else (Some (f, buf, raw\<lparr>f_fd := fd, f_bufsiz := BUFSIZ, f_pos := 0, f_len := 0,
                     f_flags := (if rw = O_RDONLY then IO_READING else IO_WRITING), f_has_ungetc := False\<rparr>), w))"

text \<open>\<open>std\<close> says that the pointer is one of the three standard streams; the stream comes with its addresses.\<close>

definition fclose :: "'w os \<Rightarrow> bool \<Rightarrow> (u64 \<times> u64 \<times> FILE) option \<Rightarrow> 'w \<Rightarrow> (int \<times> 'w) option" where
  "fclose E std fp w =
     (case fp of
        None \<Rightarrow> Some (EOF, w)
      | Some (p, buf, f) \<Rightarrow>
          do { (r, f, w) \<leftarrow> fflush E f w;
               Some (r, if std then w else os_free E p (os_free E buf (os_close E (f_fd f) w))) })"

definition setvbuf :: "FILE \<Rightarrow> mem8 option \<Rightarrow> int \<Rightarrow> u64 \<Rightarrow> int \<times> FILE" where
  "setvbuf f buf mode sz =
     (if mode = IONBF then (0, set_flag IO_UNBUFFERED f)
      else let f = (if mode = IOLBF then set_flag IO_LINEBUF f else f) in
        (0, case buf of Some b \<Rightarrow> if 0 < sz then f\<lparr>f_buf := b, f_bufsiz := sz\<rparr> else f | None \<Rightarrow> f))"

section \<open>Buffered output\<close>

text \<open>
  A world that takes bytes: a write of some bytes takes a non-empty prefix of them, and \<open>put\<close> is the effect
  of bytes on the world.
\<close>

locale byte_sink =
  fixes E :: "'w os" and fd :: int and put :: "bytes \<Rightarrow> 'w \<Rightarrow> 'w"
  assumes takes: "bs \<noteq> [] \<Longrightarrow> \<exists>n. 0 < n \<and> n \<le> length bs \<and> os_write E fd bs w = (int n, put (take n bs) w)"
    and put_Nil: "put [] w = w"
    and put_append: "put (bs @ cs) w = put cs (put bs w)"

text \<open>The bytes that wait in the buffer, and those of an array.\<close>

definition bytes_at :: "mem8 \<Rightarrow> u64 \<Rightarrow> nat \<Rightarrow> bytes" where
  "bytes_at m p n = map (\<lambda>i. m (p + of_nat i)) [0..<n]"

definition pending :: "FILE \<Rightarrow> bytes" where
  "pending f = bytes_at (f_buf f) 0 (unat (f_pos f))"

lemma length_bytes_at [simp]: "length (bytes_at m p n) = n"
  by (simp add: bytes_at_def)

lemma bytes_at_0 [simp]: "bytes_at m p 0 = []"
  by (simp add: bytes_at_def)

lemma bytes_at_add: "bytes_at m p (a + b) = bytes_at m p a @ bytes_at m (p + of_nat a) b"
proof -
  have "[0..<a + b] = [0..<a] @ map (\<lambda>i. i + a) [0..<b]"
    using upt_add_eq_append [of 0 a b] map_add_upt [of a b] by (simp add: add.commute)
  then show ?thesis by (simp add: bytes_at_def algebra_simps)
qed

lemma take_bytes_at: "k \<le> n \<Longrightarrow> take k (bytes_at m p n) = bytes_at m p k"
  by (simp add: bytes_at_def take_map)

lemma bytes_at_cong: "(\<And>i. i < n \<Longrightarrow> m (p + of_nat i) = m' (q + of_nat i)) \<Longrightarrow> bytes_at m p n = bytes_at m' q n"
  by (simp add: bytes_at_def)

lemma of_nat64_inj: "i < 2 ^ 64 \<Longrightarrow> j < 2 ^ 64 \<Longrightarrow> (of_nat i :: u64) = of_nat j \<Longrightarrow> i = j"
  by (metis unat_of_nat64)

lemma copy_in_at:
  assumes "n \<le> 2 ^ 64"
  shows "copy_in buf pos src off n (pos + d) = (if unat d < n then src (off + d) else buf (pos + d))"
  using assms
proof (induction n)
  case 0
  then show ?case by (simp add: copy_in_def)
next
  case (Suc n)
  have "unat d = n \<longleftrightarrow> d = of_nat n" using Suc.prems by (auto simp: unat_of_nat64)
  with Suc show ?case by (auto simp: copy_in_def less_Suc_eq)
qed

lemma pending_copy_in:
  assumes "unat pos + n < 2 ^ 64"
  shows "bytes_at (copy_in buf pos src off n) 0 (unat pos + n) = bytes_at buf 0 (unat pos) @ bytes_at src off n"
proof -
  have "bytes_at (copy_in buf pos src off n) 0 (unat pos) = bytes_at buf 0 (unat pos)"
  proof (rule bytes_at_cong)
    fix i assume i: "i < unat pos"
    define d where "d = of_nat i - pos"
    have "unat (pos + d) = i" using i unat_less_pow64 [of pos] by (simp add: d_def unat_of_nat64)
    moreover have "unat d < n \<Longrightarrow> unat (pos + d) = unat pos + unat d" using assms by (intro unat_add_nowrap) simp
    ultimately have "\<not> unat d < n" using i by auto
    then show "copy_in buf pos src off n (0 + of_nat i) = buf (0 + of_nat i)"
      using copy_in_at [of n buf pos src off d] assms by (simp add: d_def)
  qed
  moreover have "bytes_at (copy_in buf pos src off n) (of_nat (unat pos)) n = bytes_at src off n"
    using assms by (intro bytes_at_cong) (simp add: copy_in_at unat_of_nat64)
  ultimately show ?thesis by (simp add: bytes_at_add)
qed

lemma flag_frames [simp]:
  "has_flag b (f\<lparr>f_buf := x\<rparr>) = has_flag b f" "has_flag b (f\<lparr>f_pos := p\<rparr>) = has_flag b f"
  "has_flag b (f\<lparr>f_len := p\<rparr>) = has_flag b f" "has_flag b (f\<lparr>f_has_ungetc := u\<rparr>) = has_flag b f"
  by (simp_all add: has_flag_def)

context byte_sink
begin

lemma flush_loop_puts:
  "\<exists>w'. flush_loop E fd buf p tot w = Some (True, w') \<and> w' = put (bytes_at buf p (unat tot)) w"
proof (induction "unat tot" arbitrary: p tot w rule: less_induct)
  case less
  show ?case
  proof (cases "tot = 0")
    case True
    then show ?thesis by (simp add: flush_loop.simps put_Nil)
  next
    case False
    then have t: "0 < unat tot" by (simp add: unat_gt_0)
    then obtain n where n: "0 < n" "n \<le> unat tot"
      "os_write E fd (bytes_at buf p (unat tot)) w = (int n, put (bytes_at buf p n) w)"
      using takes [of "bytes_at buf p (unat tot)" w] by (auto simp: take_bytes_at simp flip: length_0_conv)
    have u: "unat (of_nat n :: u64) = n" using n(2) unat_less_pow64 [of tot] by (simp add: unat_of_nat64)
    have d: "unat (tot - of_nat n) = unat tot - n" using n(2) u by (simp add: unat_sub word_le_nat_alt)
    have "flush_loop E fd buf p tot w = flush_loop E fd buf (p + of_nat n) (tot - of_nat n) (put (bytes_at buf p n) w)"
      using n t False by (subst flush_loop.simps) (simp add: bytes_at_def word_gt_0)
    also have "\<dots> = Some (True, put (bytes_at buf (p + of_nat n) (unat tot - n)) (put (bytes_at buf p n) w))"
      using less [of "tot - of_nat n" "p + of_nat n" "put (bytes_at buf p n) w"] d n(1) t by auto
    finally show ?thesis using n(2) bytes_at_add [of buf p n "unat tot - n"] by (simp add: put_append)
  qed
qed

lemma fflush_puts:
  assumes "has_flag IO_WRITING f" and "f_fd f = fd"
  shows "fflush E f w = Some (0, f\<lparr>f_pos := 0\<rparr>, put (pending f) w)"
  using assms flush_loop_puts [of "f_buf f" 0 "f_pos f" w]
  by (cases "f_pos f = 0") (auto simp: fflush_def pending_def put_Nil)

lemma fputc_puts:
  assumes "has_flag IO_WRITING f" "\<not> has_flag IO_UNBUFFERED f" "f_fd f = fd" "f_pos f < f_bufsiz f"
  shows "\<exists>f' w'. fputc E c f w = Some (uint (word_of_int c :: u8), f', w') \<and> f_flags f' = f_flags f \<and> f_fd f' = fd \<and>
           f_bufsiz f' = f_bufsiz f \<and> f_pos f' < f_bufsiz f' \<and>
           put (pending f') w' = put [word_of_int c] (put (pending f) w)"
proof -
  let ?f = "f\<lparr>f_buf := (f_buf f)(f_pos f := word_of_int c), f_pos := f_pos f + 1\<rparr>"
  have u: "unat (f_pos f + 1) = unat (f_pos f) + 1" using unat_Suc_lt [OF assms(4)] by simp
  have "pending ?f = pending f @ [word_of_int c]"
    using pending_copy_in [of "f_pos f" 1 "f_buf f" "\<lambda>_. word_of_int c" 0] u unat_less_pow64 [of "f_pos f + 1"]
    by (simp add: pending_def copy_in_def) (simp add: bytes_at_def)
  then have p: "put (pending ?f) w = put [word_of_int c] (put (pending f) w)" by (simp add: put_append)
  have r: "fputc E c f w =
      (if f_bufsiz f \<le> f_pos f + 1 \<or> has_flag IO_LINEBUF f \<and> c = 0x0A
       then Some (uint (word_of_int c :: u8), ?f\<lparr>f_pos := 0\<rparr>, put (pending ?f) w)
       else Some (uint (word_of_int c :: u8), ?f, w))"
    using assms fflush_puts [of ?f w] by (simp add: fputc_def Let_def)
  have "0 < f_bufsiz f" using assms(4) by (simp add: word_less_nat_alt)
  then show ?thesis unfolding r using p assms(3) by (auto simp: pending_def put_Nil not_le)
qed

lemma fputs_puts:
  assumes "has_flag IO_WRITING f" "\<not> has_flag IO_UNBUFFERED f" "f_fd f = fd" "f_pos f < f_bufsiz f"
  shows "\<exists>f' w'. fputs E s f w = Some (1, f', w') \<and> f_flags f' = f_flags f \<and> f_fd f' = fd \<and> f_pos f' < f_bufsiz f' \<and>
           put (pending f') w' = put (takeWhile (\<lambda>c. c \<noteq> 0) s) (put (pending f) w)"
  using assms
proof (induction s arbitrary: f w)
  case Nil
  then show ?case by (simp add: put_Nil)
next
  case (Cons c s)
  show ?case
  proof (cases "c = 0")
    case True
    with Cons.prems show ?thesis by (simp add: put_Nil)
  next
    case False
    obtain f1 w1 where 1: "fputc E (uint c) f w = Some (uint c, f1, w1)" "f_flags f1 = f_flags f" "f_fd f1 = fd"
      "f_pos f1 < f_bufsiz f1" "put (pending f1) w1 = put [c] (put (pending f) w)"
      using fputc_puts [OF Cons.prems, of "uint c" w] by auto
    have "uint c \<noteq> EOF" unfolding EOF_def using uint_ge_0 [of c] by linarith
    moreover have "\<And>b. has_flag b f1 = has_flag b f" using 1(2) by (simp add: has_flag_def)
    ultimately obtain f' w' where 2: "fputs E s f1 w1 = Some (1, f', w')" "f_flags f' = f_flags f" "f_fd f' = fd"
      "f_pos f' < f_bufsiz f'" "put (pending f') w' = put (takeWhile (\<lambda>c. c \<noteq> 0) s) (put [c] (put (pending f) w))"
      using Cons.IH [of f1 w1] 1 Cons.prems(1,2) by auto
    have "fputs E (c # s) f w = Some (1, f', w')" using False 1(1) 2(1) \<open>uint c \<noteq> EOF\<close> by simp
    then show ?thesis using 2 False put_append [of "[c]" "takeWhile (\<lambda>c. c \<noteq> 0) s" "put (pending f) w"] by auto
  qed
qed

lemma fwrite_loop_puts:
  assumes "has_flag IO_WRITING f" "f_fd f = fd" "f_pos f < f_bufsiz f" "written \<le> tot"
  shows "\<exists>f' w'. fwrite_loop E src tot written f w = Some (Inr (), f', w') \<and>
           has_flag IO_WRITING f' \<and> f_fd f' = fd \<and> f_pos f' < f_bufsiz f' \<and>
           put (pending f') w' = put (bytes_at src written (unat tot - unat written)) (put (pending f) w)"
  using assms
proof (induction "unat tot - unat written" arbitrary: written f w rule: less_induct)
  case less
  show ?case
  proof (cases "written = tot")
    case True
    then show ?thesis using less.prems by (simp add: fwrite_loop.simps put_Nil)
  next
    case False
    with less.prems(4) have lt: "written < tot" by simp
    define k where "k = (if tot - written < f_bufsiz f - f_pos f then tot - written else f_bufsiz f - f_pos f)"
    let ?f = "f\<lparr>f_buf := copy_in (f_buf f) (f_pos f) src written (unat k), f_pos := f_pos f + k\<rparr>"
    have d: "unat (tot - written) = unat tot - unat written" "unat (f_bufsiz f - f_pos f) = unat (f_bufsiz f) - unat (f_pos f)"
      using lt less.prems(3) by (simp_all add: unat_sub)
    have k: "unat k \<le> unat tot - unat written" "unat k \<le> unat (f_bufsiz f) - unat (f_pos f)" "0 < unat k"
      using lt less.prems(3) d by (auto simp: k_def word_less_nat_alt)
    have u: "unat (f_pos f + k) = unat (f_pos f) + unat k" "unat (written + k) = unat written + unat k"
      using k less.prems(3) lt unat_less_pow64 [of tot] unat_less_pow64 [of "f_bufsiz f"]
      by (auto intro!: unat_add_nowrap simp: word_less_nat_alt)
    have p: "pending ?f = pending f @ bytes_at src written (unat k)"
      using pending_copy_in [of "f_pos f" "unat k" "f_buf f" src written] u unat_less_pow64 [of "f_pos f + k"]
      by (simp add: pending_def)
    have step: "fwrite_loop E src tot written f w =
        (if f_bufsiz f \<le> f_pos f + k then fwrite_loop E src tot (written + k) (?f\<lparr>f_pos := 0\<rparr>) (put (pending ?f) w)
         else fwrite_loop E src tot (written + k) ?f w)"
      using lt less.prems(1,2) fflush_puts [of ?f w] by (subst fwrite_loop.simps) (simp add: k_def Let_def)
    have m: "unat tot - unat (written + k) < unat tot - unat written" "written + k \<le> tot"
      using u(2) k by (auto simp: word_le_nat_alt)
    have rest: "unat tot - unat written = unat k + (unat tot - unat (written + k))" using u(2) k(1) by simp
    have b: "0 < f_bufsiz f" using less.prems(3) by (simp add: word_less_nat_alt)
    show ?thesis
    proof (cases "f_bufsiz f \<le> f_pos f + k")
      case True
      then show ?thesis
        using less.hyps [OF m(1), of "?f\<lparr>f_pos := 0\<rparr>" "put (pending ?f) w"] less.prems m(2) b
        unfolding step rest bytes_at_add p by (auto simp: pending_def put_append put_Nil)
    next
      case False
      then show ?thesis
        using less.hyps [OF m(1), of ?f w] less.prems m(2) p
        unfolding step rest bytes_at_add by (auto simp: put_append)
    qed
  qed
qed

lemma fwrite_puts:
  assumes "has_flag IO_WRITING f" "f_fd f = fd" "f_pos f < f_bufsiz f"
  shows "\<exists>f' w'. fwrite E src sz nmemb f w = Some (nmemb, f', w') \<and>
           fflush E f' w' = Some (0, f'\<lparr>f_pos := 0\<rparr>, put (bytes_at src 0 (unat (sz * nmemb))) (put (pending f) w))"
proof -
  obtain f' w' where "fwrite_loop E src (sz * nmemb) 0 f w = Some (Inr (), f', w')" "has_flag IO_WRITING f'" "f_fd f' = fd"
    "put (pending f') w' = put (bytes_at src 0 (unat (sz * nmemb))) (put (pending f) w)"
    using fwrite_loop_puts [OF assms, of 0 "sz * nmemb" src w] by auto
  with assms(1) fflush_puts [of f' w'] show ?thesis by (simp add: fwrite_def)
qed

end

section \<open>Buffered input\<close>

text \<open>
  A world that gives bytes: a read takes a prefix of the input \<open>inp\<close> that remains, and not an empty one before
  the end.
\<close>

locale byte_source =
  fixes E :: "'w os" and fd :: int and inp :: "'w \<Rightarrow> bytes"
  assumes gives: "0 < n \<Longrightarrow> \<exists>k w'. os_read E fd n w = (int k, take k (inp w), w') \<and> inp w' = drop k (inp w) \<and>
            k \<le> unat n \<and> k \<le> length (inp w) \<and> (inp w \<noteq> [] \<longrightarrow> 0 < k)"

definition unread :: "('w \<Rightarrow> bytes) \<Rightarrow> FILE \<Rightarrow> 'w \<Rightarrow> bytes" where
  "unread inp f w = bytes_at (f_buf f) (f_pos f) (unat (f_len f) - unat (f_pos f)) @ inp w"

definition reading :: "int \<Rightarrow> FILE \<Rightarrow> bool" where
  "reading fd f \<longleftrightarrow> has_flag IO_READING f \<and> \<not> has_flag IO_EOF f \<and> f_fd f = fd \<and> 0 < f_bufsiz f \<and> f_pos f \<le> f_len f"

lemma reading_pos [simp]: "p \<le> f_len f \<Longrightarrow> reading fd f \<Longrightarrow> reading fd (f\<lparr>f_pos := p\<rparr>)"
  by (simp add: reading_def)

lemma bytes_at_filled: "length bs < 2 ^ 64 \<Longrightarrow> bytes_at (filled bs buf) 0 (length bs) = bs"
  by (rule nth_equalityI) (simp_all add: bytes_at_def filled_def unat_of_nat64)

context byte_source
begin

lemma refill_cases:
  assumes "reading fd f" and "f_len f \<le> f_pos f"
  obtains f' w' where "inp w = []" "refill E f w = (False, f', w')" "f' = set_flag IO_EOF (f\<lparr>f_pos := 0\<rparr>)" "inp w' = []"
  | f' w' where "inp w \<noteq> []" "refill E f w = (True, f', w')" "reading fd f'" "f_pos f' < f_len f'"
      "unread inp f' w' = unread inp f w"
proof -
  obtain k w' where k: "os_read E fd (f_bufsiz f) w = (int k, take k (inp w), w')" "inp w' = drop k (inp w)"
    "k \<le> unat (f_bufsiz f)" "k \<le> length (inp w)" "inp w \<noteq> [] \<longrightarrow> 0 < k"
    using gives [of "f_bufsiz f" w] assms(1) by (auto simp: reading_def)
  have e: "unread inp f w = inp w" using assms(2) by (simp add: unread_def word_le_nat_alt)
  show thesis
  proof (cases "inp w = []")
    case True
    with k assms(1) show thesis by (intro that(1)) (auto simp: refill_def reading_def)
  next
    case False
    let ?f = "f\<lparr>f_pos := 0, f_buf := filled (take k (inp w)) (f_buf f), f_len := of_int (int k)\<rparr>"
    have u: "k < 2 ^ 64" using k(3) unat_less_pow64 [of "f_bufsiz f"] by simp
    have len: "length (take k (inp w)) = k" using k(4) by simp
    have "bytes_at (filled (take k (inp w)) (f_buf f)) 0 k = take k (inp w)"
      using bytes_at_filled [of "take k (inp w)" "f_buf f"] u unfolding len .
    then have "unread inp ?f w' = unread inp f w" using k(2) u e by (simp add: unread_def unat_of_nat64)
    moreover have "reading fd ?f" "0 < f_len ?f"
      using assms(1) False k(5) u by (auto simp: reading_def has_flag_def word_less_nat_alt unat_of_nat64)
    ultimately show thesis
      using False k(1,5) assms(1) by (intro that(2) [of ?f w']) (auto simp: refill_def reading_def)
  qed
qed

text \<open>A character read is the next one of the stream; at the end the stream keeps nothing but its stale buffer.\<close>

lemma fgetc_reads:
  assumes "reading fd f" and "\<not> f_has_ungetc f" and "unread inp f w = c # cs"
  shows "\<exists>f' w'. fgetc E f w = (uint c, f', w') \<and> reading fd f' \<and> unread inp f' w' = cs"
proof -
  have step: "\<exists>f' w'. next_byte f w = (uint c, f', w') \<and> reading fd f' \<and> unread inp f' w' = cs"
    if r: "reading fd f" "f_pos f < f_len f" "unread inp f w = c # cs" for f w
  proof -
    have "unat (f_len f) - unat (f_pos f) = 1 + (unat (f_len f) - unat (f_pos f + 1))"
      using r(2) unat_Suc_lt [OF r(2)] by (simp add: word_less_nat_alt)
    then have "unread inp f w = f_buf f (f_pos f) # unread inp (f\<lparr>f_pos := f_pos f + 1\<rparr>) w"
      by (simp only: unread_def bytes_at_add) (simp add: bytes_at_def)
    with r word_add_one_le [OF r(2)] show ?thesis by (simp add: next_byte_def)
  qed
  show ?thesis
  proof (cases "f_len f \<le> f_pos f")
    case True
    from assms(1) True show ?thesis
    proof (cases rule: refill_cases [where w = w])
      case (1 f' w')
      then have "unread inp f w = []" using True by (simp add: unread_def word_le_nat_alt)
      with assms(3) show ?thesis by simp
    next
      case (2 f' w')
      with step [of f' w'] assms True show ?thesis by (simp add: fgetc_def reading_def)
    qed
  next
    case False
    moreover from False have "f_pos f < f_len f" by simp
    with step [of f w] assms obtain f' w' where "next_byte f w = (uint c, f', w')" "reading fd f'" "unread inp f' w' = cs"
      by blast
    ultimately show ?thesis using assms(1,2) by (auto simp: fgetc_def reading_def)
  qed
qed

lemma fread_loop_reads:
  assumes "reading fd f" and "got \<le> tot"
  shows "\<exists>f' w'. fread_loop E tot p got f w =
     (let bs = take (unat tot - unat got) (unread inp f w) in Some (p @ bs, got + of_nat (length bs), f', w'))"
  using assms
proof (induction "unat tot - unat got" arbitrary: got p f w rule: less_induct)
  case less
  show ?case
  proof (cases "got = tot")
    case True
    then show ?thesis by (simp add: fread_loop.simps)
  next
    case False
    with less.prems(2) have lt: "got < tot" by simp
    have full: "\<exists>f' w'. fread_loop E tot p got f w =
        (let bs = take (unat tot - unat got) (unread inp f w) in Some (p @ bs, got + of_nat (length bs), f', w'))"
      if r: "reading fd f" "f_pos f < f_len f" for f w
    proof -
      define k where "k = (if f_len f - f_pos f < tot - got then f_len f - f_pos f else tot - got)"
      have d: "unat (tot - got) = unat tot - unat got" "unat (f_len f - f_pos f) = unat (f_len f) - unat (f_pos f)"
        using lt r(2) by (simp_all add: unat_sub)
      have k: "unat k \<le> unat tot - unat got" "unat k \<le> unat (f_len f) - unat (f_pos f)" "0 < unat k"
        using lt r(2) d by (auto simp: k_def word_less_nat_alt)
      have u: "unat (f_pos f + k) = unat (f_pos f) + unat k" "unat (got + k) = unat got + unat k"
        using k r(2) lt unat_less_pow64 [of tot] unat_less_pow64 [of "f_len f"]
        by (auto intro!: unat_add_nowrap simp: word_less_nat_alt)
      let ?f = "f\<lparr>f_pos := f_pos f + k\<rparr>" and ?b = "bytes_at (f_buf f) (f_pos f) (unat k)"
      have "unat (f_len f) - unat (f_pos f) = unat k + (unat (f_len f) - unat (f_pos f + k))" using u(1) k(2) by simp
      then have s: "unread inp f w = ?b @ unread inp ?f w" by (simp only: unread_def bytes_at_add) simp
      have "\<not> f_len f \<le> f_pos f" using r(2) by simp
      then have step: "fread_loop E tot p got f w = fread_loop E tot (p @ ?b) (got + k) ?f w"
        using lt unfolding k_def by (subst fread_loop.simps) (simp only: bytes_at_def Let_def if_True if_False split not_True_eq_False)
      have m: "unat tot - unat (got + k) < unat tot - unat got" "got + k \<le> tot" "f_pos f + k \<le> f_len f"
        using u k r(2) by (auto simp: word_le_nat_alt word_less_nat_alt)
      have "unat tot - unat got = unat k + (unat tot - unat (got + k))" using u(2) k(1) by simp
      then show ?thesis
        using less.hyps [OF m(1) reading_pos [OF m(3) r(1)] m(2), of "p @ ?b" w] u(2)
        unfolding step s by (auto simp: Let_def algebra_simps)
    qed
    show ?thesis
    proof (cases "f_len f \<le> f_pos f")
      case True
      with less.prems(1) show ?thesis
      proof (cases rule: refill_cases [where w = w])
        case (1 f' w')
        then have "unread inp f w = []" using True by (simp add: unread_def word_le_nat_alt)
        then show ?thesis using 1 True lt by (subst fread_loop.simps) simp
      next
        case (2 f' w')
        have "\<not> f_len f' \<le> f_pos f'" using 2(4) by simp
        then have "fread_loop E tot p got f w = fread_loop E tot p got f' w'"
          using 2(2) True lt by (subst (1 2) fread_loop.simps) (simp only: if_True if_False split)
        then show ?thesis using full [OF 2(3,4), of w'] 2(5) by simp
      qed
    next
      case False
      then show ?thesis using full [OF less.prems(1), of w] by (simp add: not_le)
    qed
  qed
qed

end

text \<open>
  The console of the kernel is a world that takes bytes: the loop of the \<^verbatim>\<open>write\<close> system call on descriptor 1
  hands them to \<^verbatim>\<open>vga_putchar\<close> one after the other.  The input is a list, of which a read takes as much as fits.
\<close>

definition console_os :: "u8 \<Rightarrow> (vga \<times> bytes) os" where
  "console_os color =
     \<lparr>os_read = (\<lambda>fd n (v, inp). (int (min (unat n) (length inp)), take (unat n) inp, (v, drop (unat n) inp))),
      os_write = (\<lambda>fd bs (v, inp). (int (length bs), (vga_write bs color v, inp))),
      os_open = (\<lambda>path flags w. (3, w)), os_close = (\<lambda>fd w. w), os_malloc = (\<lambda>n w. (0x1000, w)), os_free = (\<lambda>p w. w)\<rparr>"

interpretation console_sink: byte_sink "console_os color" fd "\<lambda>bs (v, inp). (vga_write bs color v, inp)"
  by unfold_locales (auto simp: console_os_def vga_write_append split: prod.splits)

interpretation console_source: byte_source "console_os color" fd snd
proof (unfold_locales, goal_cases)
  case (1 n w)
  then show ?case
    by (cases w) (auto simp: console_os_def min_def word_gt_0 unat_gt_0 intro!: exI [of _ "min (unat n) (length (snd w))"])
qed

section \<open>What streams do\<close>

text \<open>
  C28 (safety): on a writable stream with room in its buffer, over any world that takes bytes (if need be in several
  pieces), \<^verbatim>\<open>fwrite\<close> returns \<^verbatim>\<open>nmemb\<close>, and after \<^verbatim>\<open>fflush\<close> the world has received first what waited in the
  buffer and then exactly the \<^verbatim>\<open>size * nmemb\<close> bytes, in order, with nothing left in the buffer.
\<close>

theorem fwrite_delivers:
  assumes "byte_sink E (f_fd f) put" and "has_flag IO_WRITING f" and "f_pos f < f_bufsiz f"
  shows "\<exists>f' w'. fwrite E src sz nmemb f w = Some (nmemb, f', w') \<and>
     fflush E f' w' = Some (0, f'\<lparr>f_pos := 0\<rparr>, put (bytes_at src 0 (unat (sz * nmemb))) (put (pending f) w))"
  using byte_sink.fwrite_puts [OF assms(1,2) refl assms(3)] .

definition blank_screen :: vga where
  "blank_screen = \<lparr>vbuf = (\<lambda>_. 0), vga_row = 0, vga_col = 0, crt_pos = 0, vga_default_color = 7\<rparr>"

definition sample_out :: FILE where
  "sample_out = std_stream 1 IO_WRITING zero_file"

lemma sample_out_flags: "has_flag IO_WRITING sample_out" "f_pos sample_out < f_bufsiz sample_out" "f_fd sample_out = 1"
  "pending sample_out = []"
  by (simp_all add: sample_out_def std_stream_def has_flag_def io_flags BUFSIZ_def pending_def)

theorem fwrite_delivers_witness:
  "\<exists>f' w'. fwrite (console_os 7) (\<lambda>_. 0x41) 1 3 sample_out (blank_screen, []) = Some (3, f', w') \<and>
     fflush (console_os 7) f' w' = Some (0, f'\<lparr>f_pos := 0\<rparr>, (vga_write [0x41, 0x41, 0x41] 7 blank_screen, []))"
proof -
  have "bytes_at (\<lambda>_. 0x41) 0 (unat (1 * 3 :: u64)) = [0x41, 0x41, 0x41]" by (simp add: bytes_at_def upt_rec)
  with fwrite_delivers [of "console_os 7" sample_out "\<lambda>bs (v, inp). (vga_write bs 7 v, inp)" "\<lambda>_. 0x41" 1 3 "(blank_screen, [])"]
    console_sink.byte_sink_axioms sample_out_flags show ?thesis by simp
qed

text \<open>
  C29 (equivalence): on a readable stream that has not reached its end, over any world that gives bytes (in pieces of
  any size), \<^verbatim>\<open>fread\<close> returns and stores the first \<^verbatim>\<open>size * nmemb\<close> bytes of the stream, or all of them when there
  are fewer, and counts the whole elements.  The stream is what the buffer still holds followed by the input.
\<close>

theorem fread_reads_stream:
  assumes "byte_source E fd inp" and "reading fd f"
  shows "\<exists>f' w'. fread E sz nmemb f w =
     (let bs = take (unat (sz * nmemb)) (unread inp f w)
      in Some (if 0 < sz then of_nat (length bs) div sz else 0, bs, f', w'))"
proof -
  obtain f' w' where "fread_loop E (sz * nmemb) [] 0 f w =
      (let bs = take (unat (sz * nmemb)) (unread inp f w) in Some (bs, of_nat (length bs), f', w'))"
    using byte_source.fread_loop_reads [OF assms, of 0 "sz * nmemb" "[]" w] by auto
  then show ?thesis using assms(2) by (simp add: fread_def reading_def Let_def)
qed

definition sample_in :: FILE where
  "sample_in = std_stream 0 IO_READING zero_file"

lemma sample_in_reading: "reading 0 sample_in" "unread snd sample_in (v, bs) = bs"
  by (simp_all add: sample_in_def std_stream_def reading_def has_flag_def io_flags BUFSIZ_def unread_def)

theorem fread_reads_stream_witness:
  "\<exists>f' w'. fread (console_os 7) 2 2 sample_in (blank_screen, [1, 2, 3]) = Some (1, [1, 2, 3], f', w')"
  using fread_reads_stream [OF console_source.byte_source_axioms sample_in_reading(1), of 7 2 2 "(blank_screen, [1, 2, 3])"]
  by (simp add: sample_in_reading)

text \<open>
  C30 (error): no mode makes \<^verbatim>\<open>fopen\<close> return a stream that can be read.  The access mode of \<^verbatim>\<open>r\<close> is
  \<^verbatim>\<open>O_RDONLY\<close>, which is 0 and taken for a missing mode, so that \<^verbatim>\<open>fopen\<close> returns \<^verbatim>\<open>NULL\<close> without opening the file;
  every stream it does return is marked as writable only, \<^verbatim>\<open>fgetc\<close> returns \<^verbatim>\<open>EOF\<close> on it and \<^verbatim>\<open>fread\<close> reads nothing.
\<close>

theorem fopen_never_readable:
  assumes "fopen E raw path mode w = (r, w')"
  shows "(r = None \<or> (\<exists>p b f. r = Some (p, b, f) \<and> (\<forall>v. fgetc E f v = (EOF, f, v) \<and> fread E sz n f v = Some (0, [], f, v)))) \<and>
         fopen E raw path [0x72, 0] w = (None, w)"
proof -
  have "\<not> has_flag IO_READING f" if "r = Some (p, b, f)" for p b f
    using assms that by (auto simp: fopen_def has_flag_def io_flags O_RDONLY_def split: prod.splits if_splits)
  then have "r = None \<or> (\<exists>p b f. r = Some (p, b, f) \<and> (\<forall>v. fgetc E f v = (EOF, f, v) \<and> fread E sz n f v = Some (0, [], f, v)))"
    by (cases r) (auto simp: fgetc_def fread_def)
  then show ?thesis by (simp add: fopen_def O_RDONLY_def)
qed

theorem fopen_never_readable_witness:
  "\<exists>p b f. fst (fopen (console_os 7) zero_file [0x61, 0] [0x72, 0x2B, 0] (blank_screen, [])) = Some (p, b, f) \<and>
     fgetc (console_os 7) f (blank_screen, [5]) = (EOF, f, (blank_screen, [5]))"
proof -
  obtain r w' where r: "fopen (console_os 7) zero_file [0x61, 0] [0x72, 0x2B, 0] (blank_screen, []) = (r, w')"
    by (metis surj_pair)
  then have "r \<noteq> None" by (auto simp: fopen_def O_RDONLY_def O_RDWR_def console_os_def)
  with fopen_never_readable [OF r] r show ?thesis by auto
qed

text \<open>
  The first failed read at the end of the input sets the position back to 0 and leaves the length of the last
  buffer: the next \<^verbatim>\<open>fgetc\<close> returns the first byte of that buffer again.
\<close>

lemma fgetc_after_eof:
  assumes "byte_source E fd inp" and "reading fd f" and "\<not> f_has_ungetc f" and "f_pos f = f_len f" and "f_len f \<noteq> 0" and "inp w = []"
  shows "\<exists>f' w'. fgetc E f w = (EOF, f', w') \<and> feof f' \<and> fst (fgetc E f' w') = uint (f_buf f 0)"
proof -
  from assms(2,4) have "f_len f \<le> f_pos f" by simp
  with byte_source.refill_cases [OF assms(1,2)] assms(6)
  obtain f' w' where r: "refill E f w = (False, f', w')" "f' = set_flag IO_EOF (f\<lparr>f_pos := 0\<rparr>)" by metis
  then have "fgetc E f w = (EOF, f', w')" using assms(2-4) by (simp add: fgetc_def reading_def)
  moreover have "feof f'" "has_flag IO_READING f'" "\<not> f_has_ungetc f'" "f_pos f' = 0" "f_len f' = f_len f" "f_buf f' = f_buf f"
    using assms(2,3) r(2) has_flag_set [of _ IO_EOF "f\<lparr>f_pos := 0\<rparr>"]
    by (simp_all add: feof_def reading_def) (simp_all add: set_flag_def io_flags)
  ultimately show ?thesis using assms(5) by (auto simp: fgetc_def next_byte_def word_gt_0)
qed

text \<open>
  Nothing calls \<^verbatim>\<open>stdio_init\<close>: the standard streams keep the flags of zero and neither take nor give a character.
\<close>

lemma std_streams_unusable:
  "fputc E c (io_stdout stdio_boot) w = Some (EOF, io_stdout stdio_boot, w)"
  "fgetc E (io_stdin stdio_boot) w = (EOF, io_stdin stdio_boot, w)"
  by (simp_all add: fputc_def fgetc_def stdio_boot_def zero_file_def has_flag_def Let_def)

text \<open>After a failed flush the position stays at the end of the buffer, and the next \<^verbatim>\<open>fputc\<close> stores behind it.\<close>

lemma fputc_overflow:
  assumes "has_flag IO_WRITING f" "\<not> has_flag IO_UNBUFFERED f" "f_pos f = f_bufsiz f" "f_bufsiz f < - 1"
    and "\<And>bs. os_write E (f_fd f) bs w = (- 1, w)"
  shows "\<exists>f'. fputc E c f w = Some (EOF, f', w) \<and> f_buf f' (f_bufsiz f) = word_of_int c \<and> f_pos f' = f_bufsiz f + 1"
proof -
  have "f_bufsiz f + 1 \<noteq> 0" "f_bufsiz f \<le> f_bufsiz f + 1"
    using assms(4) by (auto simp: eq_neg_iff_add_eq_0 [symmetric] inc_le word_le_nat_alt unat_Suc_lt)
  with assms show ?thesis
    by (auto simp: fputc_def fflush_def Let_def flush_loop.simps word_gt_0 set_flag_def EOF_def)
qed

end
