(* ===== verification/Scanf.thy ===== *)
theory Scanf
  imports Stdio
begin

text \<open>
  Formatted input of the C library, \<^verbatim>\<open>libc/src/stdio/scanf.c\<close>.  A source of characters has a state \<open>'s\<close> and may
  read the memory \<open>m\<close>, in which the results are stored; a format is the list of the characters before its NUL
  and the arguments are addresses.
\<close>

record 's scan_source =
  sc_get :: "mem8 \<Rightarrow> 's \<Rightarrow> int \<times> 's"
  sc_unget :: "int \<Rightarrow> 's \<Rightarrow> 's"

definition isspace_int :: "int \<Rightarrow> bool" where
  "isspace_int c \<longleftrightarrow> c = 0x20 \<or> c = 0x09 \<or> c = 0x0A \<or> c = 0x0D \<or> c = 0x0C \<or> c = 0x0B"

partial_function (option) skip_ws :: "'s scan_source \<Rightarrow> mem8 \<Rightarrow> 's \<Rightarrow> (int \<times> 's) option" where
  "skip_ws S m s =
     (case sc_get S m s of (c, s) \<Rightarrow>
        if c \<noteq> EOF \<and> isspace_int c then skip_ws S m s
        else Some (c, if c \<noteq> EOF then sc_unget S c s else s))"

section \<open>Conversions\<close>

text \<open>The sign of a number: whether it is a minus, the characters counted, the next character.\<close>

definition scan_sign :: "'s scan_source \<Rightarrow> mem8 \<Rightarrow> int \<Rightarrow> int \<Rightarrow> 's \<Rightarrow> bool \<times> int \<times> int \<times> 's" where
  "scan_sign S m width c s =
     (if c = 0x2D \<or> c = 0x2B
      then if 0 < width \<and> 1 \<ge> width then (c = 0x2D, 1, EOF, s)
           else case sc_get S m s of (c', s) \<Rightarrow> (c = 0x2D, 1, c', s)
      else (False, 0, c, s))"

definition scan_base :: "'s scan_source \<Rightarrow> mem8 \<Rightarrow> int \<Rightarrow> int \<Rightarrow> int \<Rightarrow> int \<Rightarrow> 's \<Rightarrow> int \<times> int \<times> int \<times> 's" where
  "scan_base S m base width cnt c s =
     (if base = 0
      then if c = 0x30
           then let cnt = cnt + 1 in
                if 0 < width \<and> cnt \<ge> width then (8, cnt, c, s)
                else case sc_get S m s of (c, s) \<Rightarrow>
                  if c = 0x78 \<or> c = 0x58
                  then case sc_get S m s of (c, s) \<Rightarrow> (16, cnt + 1, c, s)
                  else (8, cnt, c, sc_unget S c s)
           else (10, cnt, c, s)
      else (base, cnt, c, s))"

definition scan_digit :: "int \<Rightarrow> int" where
  "scan_digit c =
     (if 0x30 \<le> c \<and> c \<le> 0x39 then c - 0x30
      else if 0x61 \<le> c \<and> c \<le> 0x66 then c - 0x61 + 10
      else if 0x41 \<le> c \<and> c \<le> 0x46 then c - 0x41 + 10
      else - 1)"

partial_function (option) scan_digits ::
  "'s scan_source \<Rightarrow> mem8 \<Rightarrow> int \<Rightarrow> int \<Rightarrow> int \<Rightarrow> u64 \<Rightarrow> nat \<Rightarrow> int \<Rightarrow> 's \<Rightarrow> (u64 \<times> nat \<times> int \<times> 's) option" where
  "scan_digits S m base width cnt val ndigits c s =
     (if (width = 0 \<or> cnt < width) \<and> c \<noteq> EOF \<and> 0 \<le> scan_digit c \<and> scan_digit c < base
      then (case sc_get S m s of (c', s) \<Rightarrow>
              scan_digits S m base width (wrap_int (cnt + 1)) (val * of_int base + of_int (scan_digit c)) (ndigits + 1) c' s)
      else Some (val, ndigits, c, s))"

definition put_val :: "mem8 \<Rightarrow> u64 \<Rightarrow> nat \<Rightarrow> u64 \<Rightarrow> mem8" where
  "put_val m p k v = fold (\<lambda>i m. m(p + of_nat i := byte_of v i)) [0..<k] m"

definition scan_int ::
  "'s scan_source \<Rightarrow> int \<Rightarrow> int \<Rightarrow> u64 \<Rightarrow> int \<Rightarrow> mem8 \<Rightarrow> 's \<Rightarrow> (bool \<times> mem8 \<times> 's) option" where
  "scan_int S base width result sz m s =
     do { (c, s) \<leftarrow> skip_ws S m s;
          if c = EOF then Some (False, m, s)
          else case scan_sign S m width c s of (neg, cnt, c, s) \<Rightarrow>
            if c = EOF then Some (False, m, sc_unget S (if neg then 0x2D else 0x2B) s)
            else case scan_base S m base width cnt c s of (base, cnt, c, s) \<Rightarrow>
              do { (val, ndigits, c, s) \<leftarrow> scan_digits S m base width cnt 0 0 c s;
                   let s = (if c \<noteq> EOF then sc_unget S c s else s);
                   if ndigits = 0 then Some (False, m, s)
                   else let val = (if neg then - val else val)
                        in Some (True, put_val m result (if sz \<ge> 8 then 8 else if sz \<ge> 4 then 4 else if sz \<ge> 2 then 2 else 1) val, s) } }"

text \<open>Whether a scan list, the characters from \<^verbatim>\<open>scanlist\<close> to the end of the format, lets a character pass.\<close>

definition in_scanlist :: "bytes \<Rightarrow> int \<Rightarrow> bool" where
  "in_scanlist sl c =
     (case sl of
        x # xs \<Rightarrow> if x = 0x5E then \<not> (\<exists>y \<in> set xs. sint y = c) else (\<exists>y \<in> set sl. sint y = c)
      | [] \<Rightarrow> False)"

partial_function (option) string_loop ::
  "'s scan_source \<Rightarrow> (int \<Rightarrow> bool) \<Rightarrow> int \<Rightarrow> int \<Rightarrow> u64 \<Rightarrow> int \<Rightarrow> mem8 \<Rightarrow> 's \<Rightarrow> (int \<times> u64 \<times> int \<times> mem8 \<times> 's) option" where
  "string_loop S passes width cnt p c m s =
     (if c \<noteq> EOF \<and> (width = 0 \<or> cnt < width) \<and> passes c
      then let m = m(p := word_of_int c) in
           (case sc_get S m s of (c, s) \<Rightarrow> string_loop S passes width (wrap_int (cnt + 1)) (p + 1) c m s)
      else Some (c, p, cnt, m, s))"

definition scan_string ::
  "'s scan_source \<Rightarrow> int \<Rightarrow> u64 \<Rightarrow> bytes option \<Rightarrow> mem8 \<Rightarrow> 's \<Rightarrow> (bool \<times> mem8 \<times> 's) option" where
  "scan_string S width result scanlist m s =
     do { (c, s) \<leftarrow> skip_ws S m s;
          if c = EOF then Some (False, m, s)
          else do {
            (c, p, cnt, m, s) \<leftarrow>
              string_loop S (case scanlist of Some sl \<Rightarrow> in_scanlist sl | None \<Rightarrow> (\<lambda>c. \<not> isspace_int c)) width 0 result c m s;
            let s = (if c \<noteq> EOF then sc_unget S c s else s);
            Some (cnt > 0, m(p := 0), s) } }"

partial_function (option) chars_loop ::
  "'s scan_source \<Rightarrow> int \<Rightarrow> int \<Rightarrow> u64 \<Rightarrow> mem8 \<Rightarrow> 's \<Rightarrow> (int \<times> mem8 \<times> 's) option" where
  "chars_loop S width cnt p m s =
     (if width = 0 \<or> cnt < width
      then (case sc_get S m s of (c, s) \<Rightarrow>
              if c = EOF then Some (cnt, m, s)
              else chars_loop S width (wrap_int (cnt + 1)) (p + 1) (m(p := word_of_int c)) s)
      else Some (cnt, m, s))"

definition scan_chars :: "'s scan_source \<Rightarrow> int \<Rightarrow> u64 \<Rightarrow> mem8 \<Rightarrow> 's \<Rightarrow> (bool \<times> mem8 \<times> 's) option" where
  "scan_chars S width result m s =
     do { (cnt, m, s) \<leftarrow> chars_loop S width 0 result m s; Some (cnt > 0, m, s) }"

section \<open>The format\<close>

definition is_dec :: "u8 \<Rightarrow> bool" where
  "is_dec c \<longleftrightarrow> 0x30 \<le> c \<and> c \<le> 0x39"

text \<open>What stands between the percent sign and the conversion: width, length modifiers and a scan list.\<close>

definition scan_width :: "bytes \<Rightarrow> int \<times> bytes" where
  "scan_width fmt =
     (case fmt of
        c # _ \<Rightarrow> if 0x31 \<le> c \<and> c \<le> 0x39
                 then (foldl (\<lambda>w d. wrap_int (w * 10 + (uint d - 0x30))) 0 (takeWhile is_dec fmt), dropWhile is_dec fmt)
                 else (0, fmt)
      | [] \<Rightarrow> (0, fmt))"

definition scan_list :: "bytes \<Rightarrow> bytes option \<times> bytes" where
  "scan_list fmt =
     (case fmt of
        c # fmt' \<Rightarrow>
          if c = 0x5B
          then let rest = (if fmt' \<noteq> [] \<and> hd fmt' = 0x5E then tl fmt' else fmt');
                   rest = (if rest \<noteq> [] \<and> hd rest = 0x5D then tl rest else rest)
               in (Some fmt', dropWhile (\<lambda>c. c \<noteq> 0x5D) rest)
          else (None, fmt)
      | [] \<Rightarrow> (None, fmt))"

definition scan_spec :: "bytes \<Rightarrow> int \<times> nat \<times> bytes option \<times> bytes" where
  "scan_spec fmt =
     (case scan_width fmt of (width, fmt) \<Rightarrow>
        let is_long = length (takeWhile (\<lambda>c. c = 0x6C) fmt);
            fmt = dropWhile (\<lambda>c. c = 0x68) (dropWhile (\<lambda>c. c = 0x6C) fmt)
        in case scan_list fmt of (scanlist, fmt) \<Rightarrow> (width, is_long, scanlist, fmt))"

text \<open>
  One conversion; \<open>Inl\<close> is the return from the function.  An argument that is missing is not modelled.  The case of \<^verbatim>\<open>[\<close> is kept although \<^verbatim>\<open>fmt\<close> has moved behind it.
\<close>

type_synonym 's scan_state = "int \<times> u64 list \<times> mem8 \<times> 's"

definition with_arg :: "u64 list \<Rightarrow> (u64 \<Rightarrow> (bool \<times> mem8 \<times> 's) option) \<Rightarrow> int \<Rightarrow> 's scan_state option" where
  "with_arg args scan items =
     (case args of
        [] \<Rightarrow> None
      | p # args \<Rightarrow> do { (ok, m, s) \<leftarrow> scan p; Some (if ok then items + 1 else items, args, m, s) })"

definition scan_one ::
  "'s scan_source \<Rightarrow> u8 \<Rightarrow> int \<Rightarrow> nat \<Rightarrow> bytes option \<Rightarrow> 's scan_state \<Rightarrow> ('s scan_state + 's scan_state) option" where
  "scan_one S conv width is_long scanlist st =
     (case st of (items, args, m, s) \<Rightarrow>
        let sz = (if is_long \<ge> 1 then 8 else 4);
            go = map_option Inr
        in
        if conv = 0x64 \<or> conv = 0x69
        then go (with_arg args (\<lambda>p. scan_int S (if conv = 0x69 then 0 else 10) width p sz m s) items)
        else if conv = 0x75 \<or> conv = 0x78 \<or> conv = 0x58
        then go (with_arg args (\<lambda>p. scan_int S (if conv = 0x75 then 10 else 16) width p sz m s) items)
        else if conv = 0x73 then go (with_arg args (\<lambda>p. scan_string S width p None m s) items)
        else if conv = 0x63 then go (with_arg args (\<lambda>p. scan_chars S (if width \<noteq> 0 then width else 1) p m s) items)
        else if conv = 0x5B then go (with_arg args (\<lambda>p. scan_string S width p scanlist m s) items)
        else if conv = 0x6E
        then go (with_arg args (\<lambda>p. Some (False, put_val m p 4 (of_int items), s)) items)
        else if conv = 0x25
        then (case sc_get S m s of (c, s) \<Rightarrow>
                Some (if c \<noteq> 0x25 then Inl (items, args, m, if c \<noteq> EOF then sc_unget S c s else s)
                      else Inr (items, args, m, s)))
        else Some (Inr st))"

lemma scan_spec_length: "scan_spec fmt = (width, is_long, scanlist, rest) \<Longrightarrow> length rest \<le> length fmt"
proof -
  have w: "length (snd (scan_width fmt)) \<le> length fmt" for fmt
    by (auto simp: scan_width_def split: list.splits intro!: le_SucI length_dropWhile_le)
  have l: "length (snd (scan_list fmt)) \<le> length fmt" for fmt
    by (auto simp: scan_list_def Let_def split: list.splits intro!: order_trans [OF length_dropWhile_le])
  show "scan_spec fmt = (width, is_long, scanlist, rest) \<Longrightarrow> length rest \<le> length fmt"
    using w [of fmt] l [of "dropWhile (\<lambda>c. c = 0x68) (dropWhile (\<lambda>c. c = 0x6C) (snd (scan_width fmt)))"]
      length_dropWhile_le [of "\<lambda>c. c = 0x68" "dropWhile (\<lambda>c. c = 0x6C) (snd (scan_width fmt))"]
      length_dropWhile_le [of "\<lambda>c. c = 0x6C" "snd (scan_width fmt)"]
    by (auto simp: scan_spec_def Let_def split: prod.splits)
qed

function vcb_scanf :: "'s scan_source \<Rightarrow> bytes \<Rightarrow> 's scan_state \<Rightarrow> 's scan_state option" where
  "vcb_scanf S [] st = Some st"
| "vcb_scanf S (f # fmt) st =
     (case st of (items, args, m, s) \<Rightarrow>
        if isspace f then vcb_scanf S fmt st
        else if f \<noteq> 0x25
        then (case sc_get S m s of (c, s) \<Rightarrow>
                if c \<noteq> uint f then Some (items, args, m, if c \<noteq> EOF then sc_unget S c s else s)
                else vcb_scanf S fmt (items, args, m, s))
        else (case scan_spec fmt of
                (width, is_long, scanlist, []) \<Rightarrow> Some st
              | (width, is_long, scanlist, conv # rest) \<Rightarrow>
                  do { r \<leftarrow> scan_one S conv width is_long scanlist st;
                       (case r of Inl st \<Rightarrow> Some st | Inr st \<Rightarrow> vcb_scanf S rest st) }))"
  by pat_completeness auto
termination
  by (relation "measure (\<lambda>(S, fmt, st). length fmt)") (auto dest: scan_spec_length [OF sym])

declare vcb_scanf.simps [simp del]

section \<open>Sources\<close>

definition str_get :: "mem8 \<Rightarrow> u64 \<Rightarrow> int \<times> u64" where
  "str_get m p = (if m p = 0 then (EOF, p) else (uint (m p), p + 1))"

definition str_unget :: "int \<Rightarrow> u64 \<Rightarrow> u64" where
  "str_unget c p = (if c \<noteq> EOF \<and> 0 < p then p - 1 else p)"

definition str_source :: "u64 scan_source" where
  "str_source = \<lparr>sc_get = str_get, sc_unget = str_unget\<rparr>"

definition file_get :: "'w os \<Rightarrow> FILE \<times> 'w \<Rightarrow> int \<times> FILE \<times> 'w" where
  "file_get E ctx = (case ctx of (f, w) \<Rightarrow> fgetc E f w)"

definition file_unget :: "int \<Rightarrow> FILE \<times> 'w \<Rightarrow> FILE \<times> 'w" where
  "file_unget c ctx = (case ctx of (f, w) \<Rightarrow> if c \<noteq> EOF then (snd (ungetc c f), w) else (f, w))"

definition file_source :: "'w os \<Rightarrow> (FILE \<times> 'w) scan_source" where
  "file_source E = \<lparr>sc_get = (\<lambda>_. file_get E), sc_unget = file_unget\<rparr>"

definition sscanf :: "u64 \<Rightarrow> bytes \<Rightarrow> u64 list \<Rightarrow> mem8 \<Rightarrow> (int \<times> mem8) option" where
  "sscanf buf fmt args m = do { (items, _, m, _) \<leftarrow> vcb_scanf str_source fmt (0, args, m, buf); Some (items, m) }"

definition fscanf :: "'w os \<Rightarrow> FILE \<Rightarrow> bytes \<Rightarrow> u64 list \<Rightarrow> mem8 \<Rightarrow> 'w \<Rightarrow> (int \<times> mem8 \<times> FILE \<times> 'w) option" where
  "fscanf E f fmt args m w = do { (items, _, m, f, w) \<leftarrow> vcb_scanf (file_source E) fmt (0, args, m, f, w); Some (items, m, f, w) }"

definition scanf :: "'w os \<Rightarrow> stdio \<Rightarrow> bytes \<Rightarrow> u64 list \<Rightarrow> mem8 \<Rightarrow> 'w \<Rightarrow> (int \<times> mem8 \<times> stdio \<times> 'w) option" where
  "scanf E io fmt args m w =
     do { (items, _, m, f, w) \<leftarrow> vcb_scanf (file_source E) fmt (0, args, m, io_stdin io, w);
          Some (items, m, io\<lparr>io_stdin := f\<rparr>, w) }"

section \<open>Numbers in strings\<close>

definition dec_val :: "u64 \<Rightarrow> bytes \<Rightarrow> u64" where
  "dec_val v ds = foldl (\<lambda>v d. v * 10 + (ucast d - 0x30)) v ds"

lemma get_str [simp]: "sc_get str_source = str_get" "sc_unget str_source = str_unget"
  by (simp_all add: str_source_def)

lemma uint_not_EOF [simp]: "uint (c :: u8) \<noteq> EOF" "EOF \<noteq> uint (c :: u8)"
  unfolding EOF_def using uint_ge_0 [of c] by linarith+

lemma isspace_uint: "isspace_int (uint c) \<longleftrightarrow> isspace c"
  by (simp add: isspace_int_def isspace_def word_uint_eq_iff)

lemma scan_digit_dec: "is_dec c \<Longrightarrow> scan_digit (uint c) = uint c - 0x30"
  by (simp add: is_dec_def scan_digit_def word_le_def)

lemma scan_digit_not_dec: "\<not> is_dec c \<Longrightarrow> scan_digit (uint c) < 0 \<or> 10 \<le> scan_digit (uint c)"
  by (auto simp: is_dec_def scan_digit_def word_le_def)

lemma run_Suc: "(\<forall>i < Suc n. P (m (p + of_nat i))) \<longleftrightarrow> P (m p) \<and> (\<forall>i < n. P (m (p + 1 + of_nat i)))" for p :: u64
  by (simp add: All_less_Suc2 add.assoc)

lemma skip_ws_str:
  assumes "\<forall>i < k. isspace (m (p + of_nat i))" and "\<not> isspace (m (p + of_nat k))" and "m (p + of_nat k) \<noteq> 0"
    and "p + of_nat k + 1 \<noteq> 0"
  shows "skip_ws str_source m p = Some (uint (m (p + of_nat k)), p + of_nat k)"
  using assms
proof (induction k arbitrary: p)
  case 0
  then show ?case by (subst skip_ws.simps) (simp add: str_get_def str_unget_def isspace_uint word_gt_0)
next
  case (Suc k)
  have sp: "isspace (m p)" and "\<forall>i < k. isspace (m (p + 1 + of_nat i))" using Suc.prems(1) unfolding run_Suc by simp_all
  moreover from sp have nz: "m p \<noteq> 0" by (auto simp: isspace_def)
  moreover have e: "p + 1 + of_nat k = p + of_nat (Suc k)" by simp
  ultimately have "skip_ws str_source m (p + 1) = Some (uint (m (p + of_nat (Suc k))), p + of_nat (Suc k))"
    using Suc.prems(2-4) Suc.IH [of "p + 1"] unfolding e by blast
  then show ?case using sp nz by (subst skip_ws.simps) (simp add: str_get_def isspace_uint)
qed

text \<open>The digits from the character \<open>d\<close> on, which has been taken already, and those of the string at \<open>p\<close>.\<close>

lemma scan_digits_str:
  assumes "is_dec d" and "\<forall>i < n. is_dec (m (p + of_nat i))" and "\<not> is_dec (m (p + of_nat n))"
  shows "\<exists>c s. scan_digits str_source m 10 0 cnt val nd (uint d) p =
           Some (dec_val val (d # bytes_at m p n), nd + 1 + n, c, s)"
  using assms
proof (induction n arbitrary: d p cnt val nd)
  case 0
  obtain c s where g: "str_get m p = (c, s)" by fastforce
  have "c = EOF \<or> scan_digit c < 0 \<or> 10 \<le> scan_digit c"
    using g 0(3) scan_digit_not_dec [of "m p"] by (auto simp: str_get_def split: if_splits)
  then have stop: "scan_digits str_source m 10 0 (wrap_int (cnt + 1)) v nd' c s = Some (v, nd', c, s)" for v nd'
    by (subst scan_digits.simps) auto
  have "scan_digit (uint d) < 10" "0 \<le> scan_digit (uint d)" "of_int (scan_digit (uint d)) = (ucast d - 0x30 :: u64)"
    using 0(1) scan_digit_dec [OF 0(1)] by (auto simp: is_dec_def word_le_def)
  then show ?case using g stop by (subst scan_digits.simps) (simp add: dec_val_def)
next
  case (Suc n)
  have p: "is_dec (m p)" and r: "\<forall>i < n. is_dec (m (p + 1 + of_nat i))" using Suc.prems(2) unfolding run_Suc by simp_all
  then have g: "str_get m p = (uint (m p), p + 1)" by (auto simp: str_get_def is_dec_def)
  have "\<not> is_dec (m (p + 1 + of_nat n))" using Suc.prems(3) by (simp add: algebra_simps)
  from Suc.IH [OF p r this, of "wrap_int (cnt + 1)" "val * 10 + (ucast d - 0x30)" "nd + 1"]
  obtain c s where i: "scan_digits str_source m 10 0 (wrap_int (cnt + 1)) (val * 10 + (ucast d - 0x30)) (nd + 1) (uint (m p)) (p + 1) =
      Some (dec_val (val * 10 + (ucast d - 0x30)) (m p # bytes_at m (p + 1) n), nd + 1 + 1 + n, c, s)" by blast
  have "scan_digit (uint d) < 10" "0 \<le> scan_digit (uint d)" "of_int (scan_digit (uint d)) = (ucast d - 0x30 :: u64)"
    using Suc.prems(1) scan_digit_dec [OF Suc.prems(1)] by (auto simp: is_dec_def word_le_def)
  moreover have "bytes_at m p (Suc n) = m p # bytes_at m (p + 1) n"
    using bytes_at_add [of m p 1 n] by (simp add: bytes_at_def)
  ultimately show ?case using g i by (subst scan_digits.simps) (simp add: dec_val_def)
qed

lemma fmt_one:
  assumes "isspace conv = False" and "scan_spec [conv] = (0, 0, None, [conv])"
  shows "sscanf buf [0x25, conv] args m =
    do { r \<leftarrow> scan_one str_source conv 0 0 None (0, args, m, buf);
         Some (case r of Inl (i, _, m, _) \<Rightarrow> (i, m) | Inr (i, _, m, _) \<Rightarrow> (i, m)) }"
proof -
  have e: "vcb_scanf str_source [] = Some" by (rule ext) (simp add: vcb_scanf.simps)
  have "vcb_scanf str_source [0x25, conv] (0, args, m, buf) =
      do { r \<leftarrow> scan_one str_source conv 0 0 None (0, args, m, buf);
           (case r of Inl st \<Rightarrow> Some st | Inr st \<Rightarrow> Some st) }"
    using assms by (simp add: vcb_scanf.simps isspace_def e)
  then show ?thesis
    by (cases "scan_one str_source conv 0 0 None (0, args, m, buf)") (auto simp: sscanf_def split: sum.splits prod.splits)
qed

text \<open>
  C31 (functional): \<^verbatim>\<open>sscanf\<close> of a decimal number with \<^verbatim>\<open>%d\<close> converts one item and stores the value, modulo
  \<open>2 ^ 32\<close>, of the number with its first digit written twice: \<^verbatim>\<open>skip_ws\<close> returns the first character and puts it back,
  and the loop over the digits gets it a second time.
\<close>

theorem sscanf_first_digit_twice:
  assumes "\<forall>i < k. isspace (m (buf + of_nat i))" and "0 < n"
    and "\<forall>i < n. is_dec (m (buf + of_nat k + of_nat i))" and "\<not> is_dec (m (buf + of_nat k + of_nat n))"
    and "unat buf + k + 1 < 2 ^ 64"
  shows "sscanf buf [0x25, 0x64] [result] m =
     Some (1, put_val m result 4 (dec_val 0 (m (buf + of_nat k) # bytes_at m (buf + of_nat k) n)))"
proof -
  let ?p = "buf + of_nat k"
  obtain n' where n: "n = Suc n'" using assms(2) by (cases n) auto
  have d: "is_dec (m ?p)" using assms(3) unfolding n run_Suc by simp
  then have c: "\<not> isspace (m ?p)" "m ?p \<noteq> 0" "uint (m ?p) \<noteq> 0x2D" "uint (m ?p) \<noteq> 0x2B"
    by (auto simp: is_dec_def isspace_def word_le_def)
  have "unat (?p + 1) = unat buf + k + 1" using assms(5) by (simp add: unat_word_ariths unat_of_nat)
  then have "?p + 1 \<noteq> 0" by (metis add_eq_0_iff_both_eq_0 unat_0 zero_neq_one)
  then have w: "skip_ws str_source m buf = Some (uint (m ?p), ?p)" using skip_ws_str [OF assms(1) c(1,2)] by simp
  obtain c' s' where "scan_digits str_source m 10 0 0 0 0 (uint (m ?p)) ?p =
      Some (dec_val 0 (m ?p # bytes_at m ?p n), 0 + 1 + n, c', s')"
    using scan_digits_str [OF d assms(3,4), of 0 0 0] by blast
  with w c have "scan_int str_source 10 0 result 4 m buf =
      Some (True, put_val m result 4 (dec_val 0 (m ?p # bytes_at m ?p n)), if c' \<noteq> EOF then str_unget c' s' else s')"
    by (simp add: scan_int_def scan_sign_def scan_base_def Let_def)
  then show ?thesis
    by (subst fmt_one) (simp_all add: scan_one_def with_arg_def isspace_def scan_spec_def scan_width_def scan_list_def)
qed

text \<open>The string \<^verbatim>\<open>12\<close> gives 112.\<close>

definition twelve :: mem8 where
  "twelve = (\<lambda>_. 0)(0x1000 := 0x31, 0x1001 := 0x32)"

theorem sscanf_first_digit_twice_witness:
  "sscanf 0x1000 [0x25, 0x64] [0x2000] twelve = Some (1, put_val twelve 0x2000 4 112)"
proof -
  have "\<forall>i < 2. is_dec (twelve (0x1000 + of_nat 0 + of_nat i))" "\<not> is_dec (twelve (0x1000 + of_nat 0 + of_nat 2))"
    by (auto simp: twelve_def is_dec_def less_2_cases_iff)
  moreover have "bytes_at twelve 0x1000 2 = [0x31, 0x32]" by (simp add: bytes_at_def twelve_def upt_rec)
  ultimately show ?thesis
    using sscanf_first_digit_twice [of 0 twelve "0x1000" 2 "0x2000"] by (simp add: dec_val_def twelve_def)
qed

text \<open>A number with a sign is not converted: the sign is read again where the first digit should be.\<close>

lemma sscanf_sign_fails:
  assumes "m buf = 0x2D \<or> m buf = 0x2B" and "buf + 1 \<noteq> 0"
  shows "sscanf buf [0x25, 0x64] [result] m = Some (0, m)"
proof -
  have w: "skip_ws str_source m buf = Some (uint (m buf), buf)"
    using skip_ws_str [of 0 m buf] assms by (auto simp: isspace_def)
  have g: "str_get m buf = (uint (m buf), buf + 1)" using assms(1) by (auto simp: str_get_def)
  have "scan_digits str_source m 10 0 1 0 0 (uint (m buf)) s = Some (0, 0, uint (m buf), s)" for s
    using assms(1) by (subst scan_digits.simps) (auto simp: scan_digit_def)
  with w g assms(1) have "\<exists>s. scan_int str_source 10 0 result 4 m buf = Some (False, m, s)"
    by (auto simp: scan_int_def scan_sign_def scan_base_def Let_def)
  then show ?thesis
    by (subst fmt_one) (auto simp: scan_one_def with_arg_def isspace_def scan_spec_def scan_width_def scan_list_def)
qed

text \<open>A scan list converts nothing and takes no argument: the format has moved behind the bracket.\<close>

lemma scanf_scanlist_ignored:
  "vcb_scanf S [0x25, 0x5B, c, 0x5D] st = Some st"
  by (cases st) (auto simp: vcb_scanf.simps isspace_def scan_spec_def scan_width_def scan_list_def scan_one_def Let_def)

text \<open>White space in a format does not skip white space of the input.\<close>

lemma scanf_space_ignored: "isspace f \<Longrightarrow> vcb_scanf S (f # fmt) st = vcb_scanf S fmt st"
  by (cases st) (simp add: vcb_scanf.simps)

end
