(* ===== verification/Libc_Malloc.thy ===== *)
theory Libc_Malloc
  imports Libc_Mem
begin

text \<open>
  The heap of the C library, \<^verbatim>\<open>libc/src/stdlib/malloc.c\<close>, with \<^verbatim>\<open>sbrk\<close> of \<^verbatim>\<open>libc/src/unistd/unistd.c\<close>.  The size
  of a block, with bit 0 for free, is the word at its address, and a free block keeps the address of the next one in the word
  behind it.  Both lie in the byte memory of the program.  The system call \<^verbatim>\<open>brk\<close> is a parameter.
\<close>

record 'w uheap =
  um :: mem8
  free_list :: u64
  u_errno :: int
  u_os :: 'w

definition ALIGN8 :: "u64 \<Rightarrow> u64" where "ALIGN8 x = (x + 7) AND NOT 7"
definition HDR_SZ :: u64 where "HDR_SZ = 8"
definition MIN_BLOCK :: u64 where "MIN_BLOCK = HDR_SZ + 8 + 8"
definition ENOMEM :: int where "ENOMEM = 12"

definition blk_size :: "u64 \<Rightarrow> 'w uheap \<Rightarrow> u64" where
  "blk_size b s = load64 (um s) b"

definition set_size :: "u64 \<Rightarrow> u64 \<Rightarrow> 'w uheap \<Rightarrow> 'w uheap" where
  "set_size b v s = s\<lparr>um := store64 (um s) b v\<rparr>"

definition block_from_ptr :: "u64 \<Rightarrow> u64" where "block_from_ptr p = p - HDR_SZ"

definition is_free :: "u64 \<Rightarrow> 'w uheap \<Rightarrow> bool" where
  "is_free b s \<longleftrightarrow> blk_size b s AND 1 \<noteq> 0"

definition block_real_size :: "u64 \<Rightarrow> 'w uheap \<Rightarrow> u64" where
  "block_real_size b s = blk_size b s AND NOT 1"

definition free_next_ptr :: "u64 \<Rightarrow> u64" where "free_next_ptr b = b + HDR_SZ"

definition free_next :: "u64 \<Rightarrow> 'w uheap \<Rightarrow> u64" where
  "free_next b s = load64 (um s) (free_next_ptr b)"

definition set_next :: "u64 \<Rightarrow> u64 \<Rightarrow> 'w uheap \<Rightarrow> 'w uheap" where
  "set_next b v s = s\<lparr>um := store64 (um s) (free_next_ptr b) v\<rparr>"

text \<open>A pointer to a link: \<^verbatim>\<open>&free_list\<close> or the next word of a free block.\<close>

datatype link = Head | Next u64

fun get_link :: "link \<Rightarrow> 'w uheap \<Rightarrow> u64" where
  "get_link Head s = free_list s"
| "get_link (Next b) s = free_next b s"

fun set_link :: "link \<Rightarrow> u64 \<Rightarrow> 'w uheap \<Rightarrow> 'w uheap" where
  "set_link Head v s = s\<lparr>free_list := v\<rparr>"
| "set_link (Next b) v s = set_next b v s"

definition sbrk :: "(u64 \<Rightarrow> 'w \<Rightarrow> u64 \<times> 'w) \<Rightarrow> u64 \<Rightarrow> 'w \<Rightarrow> u64 \<times> 'w" where
  "sbrk B increment w =
     (case B 0 w of (old, w) \<Rightarrow>
        if increment = 0 then (old, w)
        else case B (old + increment) w of (new, w) \<Rightarrow> (if new = - 1 then - 1 else old, w))"

definition take_free :: "link \<Rightarrow> u64 \<Rightarrow> u64 \<Rightarrow> 'w uheap \<Rightarrow> 'w uheap" where
  "take_free pp b tot s =
     (let bsize = block_real_size b s; remainder = bsize - tot in
      if MIN_BLOCK \<le> remainder
      then let nb = b + tot;
               s = set_size nb (remainder OR 1) s;
               s = set_next nb (free_next b s) s;
               s = set_link pp nb s
           in set_size b tot s
      else set_size b bsize (set_link pp (free_next b s) s))"

partial_function (option) malloc_scan :: "link \<Rightarrow> u64 \<Rightarrow> 'w uheap \<Rightarrow> (u64 option \<times> 'w uheap) option" where
  "malloc_scan pp tot s =
     (let b = get_link pp s in
      if b = 0 then Some (None, s)
      else if tot \<le> block_real_size b s then Some (Some b, take_free pp b tot s)
      else malloc_scan (Next b) tot s)"

definition malloc :: "(u64 \<Rightarrow> 'w \<Rightarrow> u64 \<times> 'w) \<Rightarrow> u64 \<Rightarrow> 'w uheap \<Rightarrow> (u64 \<times> 'w uheap) option" where
  "malloc B sz s =
     (if sz = 0 then Some (0, s)
      else let tot = HDR_SZ + ALIGN8 sz in
        do { (r, s) \<leftarrow> malloc_scan Head tot s;
             (case r of
                Some b \<Rightarrow> Some (b + HDR_SZ, s)
              | None \<Rightarrow>
                  (case sbrk B tot (u_os s) of (b, w) \<Rightarrow>
                     let s = s\<lparr>u_os := w\<rparr> in
                     if b = - 1 then Some (0, s\<lparr>u_errno := ENOMEM\<rparr>)
                     else Some (b + HDR_SZ, set_size b tot s))) })"

definition free :: "(u64 \<Rightarrow> 'w \<Rightarrow> u64 \<times> 'w) \<Rightarrow> u64 \<Rightarrow> 'w uheap \<Rightarrow> 'w uheap" where
  "free B ptr s =
     (if ptr = 0 then s
      else let b = block_from_ptr ptr;
               bsize = block_real_size b s;
               s = set_size b (bsize OR 1) s;
               nb = b + bsize
           in case sbrk B 0 (u_os s) of (brk_end, w) \<Rightarrow>
                let s = s\<lparr>u_os := w\<rparr>;
                    s = (if nb \<le> brk_end \<and> is_free nb s \<and> nb \<noteq> b then set_next b (free_next nb s) s
                         else set_next b (free_list s) s)
                in s\<lparr>free_list := b\<rparr>)"

definition zero_bytes :: "u64 \<Rightarrow> u64 \<Rightarrow> mem8 \<Rightarrow> mem8" where
  "zero_bytes p n m = fold (\<lambda>i m. m(p + of_nat i := 0)) [0..<unat n] m"

definition calloc :: "(u64 \<Rightarrow> 'w \<Rightarrow> u64 \<times> 'w) \<Rightarrow> u64 \<Rightarrow> u64 \<Rightarrow> 'w uheap \<Rightarrow> (u64 \<times> 'w uheap) option" where
  "calloc B nmemb sz s =
     (if nmemb = 0 \<or> sz = 0 then Some (0, s)
      else if (- 1) div sz < nmemb then Some (0, s\<lparr>u_errno := ENOMEM\<rparr>)
      else do { (p, s) \<leftarrow> malloc B (nmemb * sz) s;
                Some (p, if p \<noteq> 0 then s\<lparr>um := zero_bytes p (nmemb * sz) (um s)\<rparr> else s) })"

text \<open>Taking the block \<open>nb\<close> out of the free list.\<close>

partial_function (option) unlink_loop :: "link \<Rightarrow> u64 \<Rightarrow> 'w uheap \<Rightarrow> 'w uheap option" where
  "unlink_loop pp nb s =
     (let b = get_link pp s in
      if b = 0 then Some s
      else if b = nb then Some (set_link pp (free_next nb s) s)
      else unlink_loop (Next b) nb s)"

definition copy_block :: "u64 \<Rightarrow> u64 \<Rightarrow> u64 \<Rightarrow> mem8 \<Rightarrow> mem8" where
  "copy_block dst src n m = fold (\<lambda>i m. m(dst + of_nat i := m (src + of_nat i))) [0..<unat n] m"

text \<open>Growing into the free block behind.\<close>

definition grow_in_place :: "u64 \<Rightarrow> u64 \<Rightarrow> u64 \<Rightarrow> u64 \<Rightarrow> 'w uheap \<Rightarrow> 'w uheap option" where
  "grow_in_place b nb combined sz s =
     (let remainder = combined - (HDR_SZ + sz) in
      if MIN_BLOCK \<le> remainder
      then let split = b + HDR_SZ + sz;
               s = set_size split (remainder OR 1) s;
               s = set_next split (free_next nb s) s;
               s = s\<lparr>free_list := split\<rparr>
           in Some (set_size b (HDR_SZ + sz) s)
      else unlink_loop Head nb (set_size b combined s))"

definition realloc :: "(u64 \<Rightarrow> 'w \<Rightarrow> u64 \<times> 'w) \<Rightarrow> u64 \<Rightarrow> u64 \<Rightarrow> 'w uheap \<Rightarrow> (u64 \<times> 'w uheap) option" where
  "realloc B ptr sz s =
     (if ptr = 0 then malloc B sz s
      else if sz = 0 then Some (0, free B ptr s)
      else let sz = ALIGN8 sz;
               b = block_from_ptr ptr;
               old_size = block_real_size b s - HDR_SZ
           in if sz \<le> old_size then Some (ptr, s)
              else let nb = b + block_real_size b s in
                case sbrk B 0 (u_os s) of (brk_end, w) \<Rightarrow>
                  let s = s\<lparr>u_os := w\<rparr>;
                      combined = block_real_size b s + block_real_size nb s
                  in if nb \<le> brk_end \<and> is_free nb s \<and> HDR_SZ + sz \<le> combined
                     then do { s \<leftarrow> grow_in_place b nb combined sz s; Some (ptr, s) }
                     else do { (new, s) \<leftarrow> malloc B sz s;
                               Some (new, if new \<noteq> 0 then free B ptr (s\<lparr>um := copy_block new ptr old_size (um s)\<rparr>) else s) })"

section \<open>Ranges of addresses\<close>

definition disj :: "u64 \<Rightarrow> u64 \<Rightarrow> u64 \<Rightarrow> u64 \<Rightarrow> bool" where
  "disj b n c l \<longleftrightarrow> (\<forall>x. \<not> (in_range b n x \<and> in_range c l x))"

lemma in_range_sub:
  assumes "in_range (b + d) l x" and "unat d + unat l \<le> unat n"
  shows "in_range b n x"
proof -
  let ?u = "x - (b + d)"
  have "unat ?u < unat l" using assms(1) by (simp add: in_range_def word_less_nat_alt)
  moreover have "unat (?u + d) = unat ?u + unat d"
    using calculation assms(2) unat_less_pow64 [of n] by (intro unat_add_nowrap) simp
  ultimately show ?thesis using assms(2) by (simp add: in_range_def word_less_nat_alt)
qed

lemma load64_cong: "(\<And>x. in_range a 8 x \<Longrightarrow> m' x = m x) \<Longrightarrow> load64 m' a = load64 m a"
  by (simp add: load64_def in_range_def)

lemma bit_byte_of: "k < 8 \<Longrightarrow> bit (byte_of v i) k = bit v (8 * i + k)"
  by (simp add: byte_of_def bit_simps add.commute)

lemma load64_store64 [simp]: "load64 (store64 m a v) a = v"
proof (rule bit_word_eqI)
  fix n assume n: "n < LENGTH(64)"
  have "byte_of (load64 (store64 m a v) a) (n div 8) = store64 m a v (a + of_nat (n div 8))"
    using n by (intro byte_of_load64) (simp add: div_less_mono)
  also have "\<dots> = byte_of v (n div 8)"
  proof -
    have "n div 8 < 8" using n by (simp add: div_less_mono)
    then have "unat (of_nat (n div 8) :: u64) = n div 8" by (simp add: unat_of_nat64)
    with \<open>n div 8 < 8\<close> show ?thesis by (simp add: store64_def word_less_nat_alt)
  qed
  finally have "bit (byte_of (load64 (store64 m a v) a) (n div 8)) (n mod 8) = bit (byte_of v (n div 8)) (n mod 8)" by simp
  then show "bit (load64 (store64 m a v) a) n = bit v n" by (simp add: bit_byte_of)
qed

lemma store64_other: "\<not> in_range a 8 x \<Longrightarrow> store64 m a v x = m x"
  by (simp add: store64_def in_range_def)

lemma load64_store64_other: "disj a 8 b 8 \<Longrightarrow> load64 (store64 m b v) a = load64 m a"
  by (rule load64_cong) (auto simp: disj_def store64_other)

lemma disj_parts:
  assumes "unat d + 8 \<le> unat e" and "unat e + 8 < 2 ^ 64"
  shows "disj (b + d) 8 (b + e) 8" "disj (b + e) 8 (b + d) 8"
proof -
  have "\<not> (in_range (b + d) 8 x \<and> in_range (b + e) 8 x)" for x
  proof
    assume "in_range (b + d) 8 x \<and> in_range (b + e) 8 x"
    then have u: "unat (x - (b + d)) < 8" "unat (x - (b + e)) < 8" by (simp_all add: in_range_def word_less_nat_alt)
    have "unat (x - (b + d) + d) = unat (x - (b + d)) + unat d" using u assms by (intro unat_add_nowrap) simp
    moreover have "unat (x - (b + e) + e) = unat (x - (b + e)) + unat e" using u assms by (intro unat_add_nowrap) simp
    ultimately show False using u assms by simp
  qed
  then show "disj (b + d) 8 (b + e) 8" "disj (b + e) 8 (b + d) 8" by (auto simp: disj_def)
qed

section \<open>The free list\<close>

type_synonym ublk = "u64 \<times> u64"

fun ublocks :: "mem8 \<Rightarrow> u64 \<Rightarrow> ublk list \<Rightarrow> bool" where
  "ublocks m p [] \<longleftrightarrow> p = 0"
| "ublocks m p ((b, n) # xs) \<longleftrightarrow> p = b \<and> b \<noteq> 0 \<and> load64 m b AND NOT 1 = n \<and> ublocks m (load64 m (b + 8)) xs"

fun blocks_ok :: "ublk list \<Rightarrow> bool" where
  "blocks_ok [] \<longleftrightarrow> True"
| "blocks_ok ((b, n) # xs) \<longleftrightarrow>
     16 \<le> unat n \<and> even n \<and> \<not> in_range b n 0 \<and> (\<forall>(c, l) \<in> set xs. disj b n c l) \<and> blocks_ok xs"

definition in_blocks :: "ublk list \<Rightarrow> u64 \<Rightarrow> bool" where
  "in_blocks xs x \<longleftrightarrow> (\<exists>(c, l) \<in> set xs. in_range c l x)"

fun ufit :: "u64 \<Rightarrow> ublk list \<Rightarrow> (u64 \<times> ublk list) option" where
  "ufit k [] = None"
| "ufit k ((b, n) # xs) =
     (if k \<le> n then Some (b, if MIN_BLOCK \<le> n - k then (b + k, n - k) # xs else xs)
      else map_option (\<lambda>(a, ys). (a, (b, n) # ys)) (ufit k xs))"

lemma ublocks_cong:
  assumes "\<And>x. in_blocks xs x \<Longrightarrow> m' x = m x" and "blocks_ok xs"
  shows "ublocks m' p xs = ublocks m p xs"
  using assms
proof (induction xs arbitrary: p)
  case (Cons y xs)
  obtain b n where y: "y = (b, n)" by (cases y)
  have n: "16 \<le> unat n" using Cons.prems(2) y by simp
  have "load64 m' b = load64 m b" "load64 m' (b + 8) = load64 m (b + 8)"
    using Cons.prems(1) y n in_range_sub [of b 0 8 _ n] in_range_sub [of b 8 8 _ n]
    by (auto intro!: load64_cong simp: in_blocks_def)
  with Cons y show ?case by (auto simp: in_blocks_def)
qed simp

lemma real_size_tag: "even x \<Longrightarrow> (x OR 1) AND NOT 1 = x" for x :: u64
  by (rule bit_word_eqI) (auto simp: bit_simps bit_0)

lemma get_link_cong:
  assumes "free_list s' = free_list s" and "\<And>b x. pp = Next b \<Longrightarrow> in_range (b + 8) 8 x \<Longrightarrow> um s' x = um s x"
  shows "get_link pp s' = get_link pp s"
  using assms by (cases pp) (auto simp: free_next_def free_next_ptr_def HDR_SZ_def intro!: load64_cong)

text \<open>The word a link lies in, when it lies in memory.\<close>

definition link_word :: "link \<Rightarrow> u64 \<Rightarrow> bool" where
  "link_word pp x \<longleftrightarrow> (\<exists>b. pp = Next b \<and> in_range (b + 8) 8 x)"

lemma set_link_frame:
  "\<not> link_word pp x \<Longrightarrow> um (set_link pp v s) x = um s x"
  "get_link pp (set_link pp v s) = v" "u_os (set_link pp v s) = u_os s"
  by (cases pp; simp add: link_word_def set_next_def free_next_def free_next_ptr_def HDR_SZ_def store64_other)+

lemma load_set_link: "(\<And>x. in_range a 8 x \<Longrightarrow> \<not> link_word pp x) \<Longrightarrow> load64 (um (set_link pp v s)) a = load64 (um s) a"
  by (rule load64_cong) (simp add: set_link_frame)

lemma free_list_set_link: "pp \<noteq> Head \<Longrightarrow> free_list (set_link pp v s) = free_list s"
  by (cases pp) (simp_all add: set_next_def)

lemmas heap_ops = set_size_def set_next_def free_next_def free_next_ptr_def HDR_SZ_def block_real_size_def blk_size_def

lemma disj_sub:
  assumes "disj b n c l" and "\<And>x. in_range b' n' x \<Longrightarrow> in_range b n x"
  shows "disj b' n' c l"
  using assms by (auto simp: disj_def)

text \<open>A free block that is taken as a whole.\<close>

lemma take_free_whole:
  assumes "ublocks (um s) b ((b, n) # xs)" "blocks_ok ((b, n) # xs)" "get_link pp s = b" "\<not> MIN_BLOCK \<le> n - k"
    "\<And>x. link_word pp x \<Longrightarrow> \<not> in_blocks ((b, n) # xs) x"
  shows "ublocks (um (take_free pp b k s)) (get_link pp (take_free pp b k s)) xs"
    "load64 (um (take_free pp b k s)) b = n" "\<forall>(c, l) \<in> set xs. disj b n c l"
    "\<not> in_blocks ((b, n) # xs) x \<Longrightarrow> \<not> link_word pp x \<Longrightarrow> um (take_free pp b k s) x = um s x"
proof -
  let ?s = "set_link pp (load64 (um s) (b + 8)) s"
  have n: "16 \<le> unat n" "load64 (um s) b AND NOT 1 = n" using assms(1,2) by auto
  have t: "take_free pp b k s = ?s\<lparr>um := store64 (um ?s) b n\<rparr>"
    using assms(4) n by (simp add: take_free_def heap_ops Let_def)
  have hdr: "in_range b 8 x \<Longrightarrow> in_range b n x" for x using in_range_sub [of b 0 8 x n] n by simp
  have in_b: "in_blocks ((b, n) # xs) x" if "in_range b 8 x" for x using hdr [OF that] by (auto simp: in_blocks_def)
  have link: "\<not> in_range b 8 x" if "link_word pp x" for x using assms(5) that in_b by blast
  have "get_link pp (take_free pp b k s) = load64 (um s) (b + 8)"
    unfolding t using link by (subst get_link_cong [of _ ?s]) (auto simp: set_link_frame link_word_def store64_other)
  moreover have "ublocks (um (take_free pp b k s)) p xs = ublocks (um s) p xs" for p
  proof (rule ublocks_cong)
    fix x assume x: "in_blocks xs x"
    then have "\<not> in_range b 8 x" using assms(2) hdr by (fastforce simp: in_blocks_def disj_def)
    moreover have "\<not> link_word pp x" using assms(5) [of x] x by (auto simp: in_blocks_def)
    ultimately show "um (take_free pp b k s) x = um s x" by (simp add: t store64_other set_link_frame)
  qed (use assms(2) in simp)
  ultimately show "ublocks (um (take_free pp b k s)) (get_link pp (take_free pp b k s)) xs" using assms(1) by simp
  show "load64 (um (take_free pp b k s)) b = n" by (simp add: t)
  show "\<forall>(c, l) \<in> set xs. disj b n c l" using assms(2) by simp
  show "um (take_free pp b k s) x = um s x" if "\<not> in_blocks ((b, n) # xs) x" "\<not> link_word pp x"
  proof -
    have "\<not> in_range b 8 x" using that(1) in_b by blast
    with that(2) show ?thesis by (simp add: t store64_other set_link_frame)
  qed
qed

text \<open>A free block of which the rest stays in the list.\<close>

lemma take_free_split:
  assumes "ublocks (um s) b ((b, n) # xs)" "blocks_ok ((b, n) # xs)" "get_link pp s = b" "MIN_BLOCK \<le> n - k"
    "\<And>x. link_word pp x \<Longrightarrow> \<not> in_blocks ((b, n) # xs) x" "k \<le> n" "even k" "16 \<le> unat k"
  shows "ublocks (um (take_free pp b k s)) (get_link pp (take_free pp b k s)) ((b + k, n - k) # xs)"
    "load64 (um (take_free pp b k s)) b = k" "blocks_ok ((b + k, n - k) # xs)" "\<forall>(c, l) \<in> set ((b + k, n - k) # xs). disj b k c l"
    "\<not> in_blocks ((b, n) # xs) x \<Longrightarrow> \<not> link_word pp x \<Longrightarrow> um (take_free pp b k s) x = um s x"
proof -
  let ?s1 = "s\<lparr>um := store64 (um s) (b + k) ((n - k) OR 1)\<rparr>"
  let ?s2 = "?s1\<lparr>um := store64 (um ?s1) (b + k + 8) (load64 (um s) (b + 8))\<rparr>"
  let ?s3 = "set_link pp (b + k) ?s2"
  have n: "load64 (um s) b AND NOT 1 = n" "even n" "\<not> in_range b n 0" using assms(1,2) by auto
  have r: "unat (n - k) = unat n - unat k" "24 \<le> unat n - unat k" "unat k \<le> unat n"
    using assms(4,6) by (auto simp: MIN_BLOCK_def HDR_SZ_def word_le_nat_alt unat_sub)
  have n64: "unat n < 2 ^ 64" by (rule unat_less_pow64)
  have k8: "unat (k + 8) = unat k + 8" using r n64 by (subst unat_add_nowrap) simp_all
  have d: "disj (b + 8) 8 (b + k) 8" "disj (b + k) 8 (b + (k + 8)) 8" "disj b 8 (b + k) 8" "disj b 8 (b + (k + 8)) 8"
      "disj (b + k) 8 b 8" "disj (b + (k + 8)) 8 b 8" "disj (b + (k + 8)) 8 (b + k) 8"
    using disj_parts [of 8 k b] disj_parts [of k "k + 8" b] disj_parts [of 0 k b] disj_parts [of 0 "k + 8" b] assms(8) r k8 n64
    by simp_all
  have t: "take_free pp b k s = ?s3\<lparr>um := store64 (um ?s3) b k\<rparr>"
    using assms(4) n d by (simp add: take_free_def heap_ops Let_def load64_store64_other)
  have sub: "in_range b n x" if "in_range b 8 x \<or> in_range (b + k) 8 x \<or> in_range (b + (k + 8)) 8 x" for x
    using that in_range_sub [of b 0 8 x n] in_range_sub [of b k 8 x n] in_range_sub [of b "k + 8" 8 x n] r k8 assms(8) by auto
  then have in_b: "in_blocks ((b, n) # xs) x" if "in_range b 8 x \<or> in_range (b + k) 8 x \<or> in_range (b + (k + 8)) 8 x" for x
    using that by (auto simp: in_blocks_def)
  have link: "\<not> link_word pp x" if "in_range b 8 x \<or> in_range (b + k) 8 x \<or> in_range (b + (k + 8)) 8 x" for x
    using assms(5) that in_b by blast
  have outside: "um (take_free pp b k s) x = um s x"
    if "\<not> in_range b 8 x" "\<not> in_range (b + k) 8 x" "\<not> in_range (b + (k + 8)) 8 x" "\<not> link_word pp x" for x
    using that by (simp add: t store64_other set_link_frame add.assoc)
  have nb: "b + k \<noteq> 0"
  proof
    assume "b + k = 0"
    then have "in_range (b + k) 8 0" by (simp add: in_range_def)
    with sub n(3) show False by blast
  qed
  have nl: "\<not> in_range b 8 x" if "link_word pp x" for x using link that by blast
  have "get_link pp (take_free pp b k s) = b + k"
    unfolding t using nl by (subst get_link_cong [of _ ?s3]) (auto simp: set_link_frame link_word_def store64_other)
  moreover have "load64 (um (take_free pp b k s)) (b + k) = (n - k) OR 1"
    using d link by (simp add: t load64_store64_other load_set_link add.assoc)
  moreover have "load64 (um (take_free pp b k s)) (b + k + 8) = load64 (um s) (b + 8)"
    using d link by (simp add: t load64_store64_other load_set_link add.assoc)
  moreover have "ublocks (um (take_free pp b k s)) p xs = ublocks (um s) p xs" for p
  proof (rule ublocks_cong)
    fix x assume x: "in_blocks xs x"
    then have "\<not> in_range b n x" using assms(2) by (fastforce simp: in_blocks_def disj_def)
    moreover have "\<not> link_word pp x" using assms(5) [of x] x by (auto simp: in_blocks_def)
    ultimately show "um (take_free pp b k s) x = um s x" using sub outside by blast
  qed (use assms(2) in simp)
  moreover have "((n - k) OR 1) AND NOT 1 = n - k" using n(2) assms(7) by (intro real_size_tag) simp
  ultimately show "ublocks (um (take_free pp b k s)) (get_link pp (take_free pp b k s)) ((b + k, n - k) # xs)"
    using assms(1) nb by simp
  show "load64 (um (take_free pp b k s)) b = k" by (simp add: t)
  have rest: "in_range b n x" if "in_range (b + k) (n - k) x" for x using that in_range_sub [of b k "n - k" x n] r by simp
  have first: "in_range b n x" if "in_range b k x" for x using that in_range_sub [of b 0 k x n] r by simp
  show "blocks_ok ((b + k, n - k) # xs)"
    using assms(2,7) r n(2,3) rest by (auto simp: disj_def)
  have "disj b k (b + k) (n - k)"
  proof -
    have "\<not> in_range (b + k) (n - k) x" if x: "in_range b k x" for x
    proof
      assume "in_range (b + k) (n - k) x"
      then have "unat (x - (b + k)) < unat n - unat k" using r by (simp add: in_range_def word_less_nat_alt)
      then have "unat (x - (b + k) + k) = unat (x - (b + k)) + unat k" using r n64 by (intro unat_add_nowrap) simp
      then show False using x by (simp add: in_range_def word_less_nat_alt)
    qed
    then show ?thesis by (auto simp: disj_def)
  qed
  then show "\<forall>(c, l) \<in> set ((b + k, n - k) # xs). disj b k c l" using assms(2) first by (auto simp: disj_def)
  show "um (take_free pp b k s) x = um s x" if "\<not> in_blocks ((b, n) # xs) x" "\<not> link_word pp x"
    using that in_b outside by blast
qed

lemma take_free_other: "u_os (take_free pp b k s) = u_os s" "pp \<noteq> Head \<Longrightarrow> free_list (take_free pp b k s) = free_list s"
  by (simp_all add: take_free_def Let_def set_size_def set_next_def set_link_frame free_list_set_link)

text \<open>What a search that finds a block leaves: the block taken, the list that remains, and the rest of memory.\<close>

definition served :: "link \<Rightarrow> u64 \<Rightarrow> ublk list \<Rightarrow> u64 \<Rightarrow> ublk list \<Rightarrow> 'w uheap \<Rightarrow> 'w uheap \<Rightarrow> bool" where
  "served pp k xs a ys s t \<longleftrightarrow>
     ublocks (um t) (get_link pp t) ys \<and> blocks_ok ys \<and> k \<le> blk_size a t \<and> (\<forall>x. in_range a (blk_size a t) x \<longrightarrow> in_blocks xs x) \<and>
     (\<forall>(c, l) \<in> set ys. disj a (blk_size a t) c l) \<and> (\<forall>x. in_blocks ys x \<longrightarrow> in_blocks xs x) \<and>
     (\<forall>x. \<not> in_blocks xs x \<longrightarrow> \<not> link_word pp x \<longrightarrow> um t x = um s x) \<and>
     (pp \<noteq> Head \<longrightarrow> free_list t = free_list s) \<and> u_os t = u_os s"

lemma in_blocks_Cons: "in_blocks ((b, n) # xs) x \<longleftrightarrow> in_range b n x \<or> in_blocks xs x"
  by (auto simp: in_blocks_def)

lemma take_free_served:
  assumes "ublocks (um s) (get_link pp s) ((b, n) # xs)" "blocks_ok ((b, n) # xs)"
    "\<And>x. link_word pp x \<Longrightarrow> \<not> in_blocks ((b, n) # xs) x" "k \<le> n" "even k" "16 \<le> unat k"
  shows "served pp k ((b, n) # xs) b (if MIN_BLOCK \<le> n - k then (b + k, n - k) # xs else xs) s (take_free pp b k s)"
proof -
  have 1: "ublocks (um s) b ((b, n) # xs)" "get_link pp s = b" using assms(1) by auto
  have k: "unat k \<le> unat n" "unat (n - k) = unat n - unat k" using assms(4) by (simp_all add: word_le_nat_alt unat_sub)
  have sub: "in_range (b + k) (n - k) x \<Longrightarrow> in_range b n x" "in_range b k x \<Longrightarrow> in_range b n x" for x
    using in_range_sub [of b k "n - k" x n] in_range_sub [of b 0 k x n] k by auto
  show ?thesis
  proof (cases "MIN_BLOCK \<le> n - k")
    case True
    note t = take_free_split [OF 1(1) assms(2) 1(2) True assms(3-6)]
    show ?thesis using True t sub by (simp add: served_def take_free_other blk_size_def in_blocks_Cons)
  next
    case False
    note t = take_free_whole [OF 1(1) assms(2) 1(2) False assms(3)]
    show ?thesis using False t assms(2,4) by (simp add: served_def take_free_other blk_size_def in_blocks_Cons)
  qed
qed

lemma malloc_scan_served:
  assumes "ublocks (um s) (get_link pp s) xs" "blocks_ok xs" "\<And>x. link_word pp x \<Longrightarrow> \<not> in_blocks xs x"
    "even k" "16 \<le> unat k" "ufit k xs = Some (a, ys)"
  shows "\<exists>t. malloc_scan pp k s = Some (Some a, t) \<and> served pp k xs a ys s t"
  using assms
proof (induction xs arbitrary: pp ys)
  case (Cons y xs)
  obtain b n where y: "y = (b, n)" by (cases y)
  have b: "get_link pp s = b" "b \<noteq> 0" "block_real_size b s = n" "free_next b s = load64 (um s) (b + 8)"
    using Cons.prems(1) y by (auto simp: heap_ops)
  have n: "16 \<le> unat n" using Cons.prems(2) y by simp
  show ?case
  proof (cases "k \<le> n")
    case True
    with Cons.prems y b take_free_served [of s pp b n xs k] show ?thesis by (subst malloc_scan.simps) auto
  next
    case False
    then obtain zs where f: "ufit k xs = Some (a, zs)" "ys = (b, n) # zs" using Cons.prems(6) y by auto
    have inb: "in_range b n x" if "in_range b 8 x \<or> in_range (b + 8) 8 x" for x
      using that in_range_sub [of b 0 8 x n] in_range_sub [of b 8 8 x n] n by auto
    have apart: "\<not> in_blocks xs x" if "in_range b n x" for x
      using Cons.prems(2) y that by (fastforce simp: in_blocks_def disj_def)
    have "ublocks (um s) (get_link (Next b) s) xs" using Cons.prems(1) y b by simp
    moreover have "\<not> in_blocks xs x" if "link_word (Next b) x" for x using that inb apart by (simp add: link_word_def)
    ultimately obtain t where t: "malloc_scan (Next b) k s = Some (Some a, t)" "served (Next b) k xs a zs s t"
      using Cons.IH [of "Next b" zs] Cons.prems(2,4,5) y f(1) by auto
    have same: "um t x = um s x" if "\<not> in_blocks xs x" "\<not> in_range (b + 8) 8 x" for x
      using t(2) that by (auto simp: served_def link_word_def)
    have "load64 (um t) b = load64 (um s) b"
    proof (rule load64_cong)
      fix x assume x: "in_range b 8 x"
      moreover have "\<not> in_range (b + 8) 8 x" using x disj_parts [of 0 8 b] by (auto simp: disj_def)
      ultimately show "um t x = um s x" using same inb apart by blast
    qed
    moreover have "get_link pp t = get_link pp s"
    proof (rule get_link_cong)
      fix c x assume "pp = Next c" "in_range (c + 8) 8 x"
      then have "\<not> in_blocks ((b, n) # xs) x" using Cons.prems(3) y by (auto simp: link_word_def)
      then show "um t x = um s x" using same inb by (auto simp: in_blocks_Cons)
    qed (use t(2) in \<open>simp add: served_def\<close>)
    ultimately have "ublocks (um t) (get_link pp t) ys"
      using f(2) b t(2) Cons.prems(1) y by (simp add: served_def free_next_def free_next_ptr_def HDR_SZ_def)
    moreover have "blocks_ok ys"
      using t(2) f(2) Cons.prems(2) y apart by (fastforce simp: served_def disj_def in_blocks_def)
    moreover have "um t x = um s x" if "\<not> in_blocks ((b, n) # xs) x" for x
      using that same inb by (auto simp: in_blocks_Cons)
    ultimately have "served pp k (y # xs) a ys s t"
      using t(2) f(2) y apart unfolding served_def
      by (auto simp: in_blocks_Cons disj_def)
    moreover have "malloc_scan pp k s = Some (Some a, t)" using t(1) b False by (subst malloc_scan.simps) simp
    ultimately show ?thesis by blast
  qed
qed simp

section \<open>Requests that the free list serves\<close>

lemma align8:
  assumes "unat sz + 15 < 2 ^ 64"
  shows "unat sz \<le> unat (ALIGN8 sz)" "even (ALIGN8 sz)" "unat (HDR_SZ + ALIGN8 sz) = 8 + unat (ALIGN8 sz)"
    "8 dvd unat (ALIGN8 sz)"
proof -
  have s: "unat (sz + 7) = unat sz + 7" using assms by (subst unat_add_nowrap) simp_all
  have "(sz + 7) AND 7 = take_bit 3 (sz + 7)" by (simp add: take_bit_eq_mask mask_eq_exp_minus_1)
  then have m: "unat ((sz + 7) AND 7) = (unat sz + 7) mod 8" using s by (simp add: take_bit_eq_mod unat_mod)
  have "ALIGN8 sz + ((sz + 7) AND 7) = sz + 7"
    unfolding ALIGN8_def by (subst disjunctive_add) (auto simp: bit_simps intro: bit_word_eqI)
  then have e: "ALIGN8 sz = sz + 7 - ((sz + 7) AND 7)" by (simp add: eq_diff_eq)
  have "(sz + 7) AND 7 \<le> sz + 7" using m s by (simp add: word_le_nat_alt)
  then have a: "unat (ALIGN8 sz) = unat sz + 7 - (unat sz + 7) mod 8" unfolding e by (simp add: unat_sub m s)
  have "(unat sz + 7) mod 8 < 8" by simp
  then show "unat sz \<le> unat (ALIGN8 sz)" using a by linarith
  show "even (ALIGN8 sz)" by (simp add: ALIGN8_def even_and_iff)
  show "unat (HDR_SZ + ALIGN8 sz) = 8 + unat (ALIGN8 sz)"
    using a assms by (subst unat_add_nowrap) (simp_all add: HDR_SZ_def)
  show "8 dvd unat (ALIGN8 sz)" unfolding a by (rule dvd_minus_mod)
qed

text \<open>
  C32 (functional): on a well-formed free list, \<^verbatim>\<open>malloc\<close> returns whenever a block fits and takes the first one.  The
  block it hands out was inside a free block, is at least as large as the request with its header and lies apart from every
  block that stays in the list; the list that remains is well-formed again, and memory outside the free blocks, which is
  all that is in use, does not change.
\<close>

theorem malloc_first_fit:
  assumes "ublocks (um s) (free_list s) xs" and "blocks_ok xs" and "sz \<noteq> 0" and "unat sz + 15 < 2 ^ 64"
    and "ufit (HDR_SZ + ALIGN8 sz) xs = Some (a, ys)"
  shows "\<exists>t. malloc B sz s = Some (a + HDR_SZ, t) \<and> ublocks (um t) (free_list t) ys \<and> blocks_ok ys \<and>
     unat sz + 8 \<le> unat (blk_size a t) \<and> (\<forall>x. in_range a (blk_size a t) x \<longrightarrow> in_blocks xs x) \<and>
     (\<forall>(c, l) \<in> set ys. disj a (blk_size a t) c l) \<and> (\<forall>x. \<not> in_blocks xs x \<longrightarrow> um t x = um s x)"
proof -
  note a = align8 [OF assms(4)]
  have "16 \<le> unat (HDR_SZ + ALIGN8 sz)"
  proof -
    have "unat (ALIGN8 sz) \<noteq> 0" using a(1) assms(3) by (auto simp: unat_eq_0)
    with a(3,4) show ?thesis by (auto elim!: dvdE)
  qed
  moreover have "even (HDR_SZ + ALIGN8 sz)" using a(2) by (simp add: HDR_SZ_def)
  ultimately obtain t where t: "malloc_scan Head (HDR_SZ + ALIGN8 sz) s = Some (Some a, t)"
    "served Head (HDR_SZ + ALIGN8 sz) xs a ys s t"
    using malloc_scan_served [of s Head xs "HDR_SZ + ALIGN8 sz" a ys] assms by (auto simp: link_word_def)
  moreover have "unat sz + 8 \<le> unat (blk_size a t)" using t(2) a by (simp add: served_def word_le_nat_alt)
  ultimately show ?thesis using assms(3) by (auto simp: malloc_def Let_def served_def link_word_def)
qed

text \<open>A block of 64 bytes in the list; 20 bytes are taken from it and 32 bytes stay.\<close>

definition one_block :: "unit uheap" where
  "one_block = \<lparr>um = store64 (\<lambda>_. 0) 0x1000 65, free_list = 0x1000, u_errno = 0, u_os = ()\<rparr>"

lemma load64_zero [simp]: "load64 (\<lambda>_. 0) a = 0"
  by (simp add: load64_def)

lemma load64_store64_far: "8 \<le> b - a \<Longrightarrow> 8 \<le> a - b \<Longrightarrow> load64 (store64 m b v) a = load64 m a"
proof (rule load64_store64_other, unfold disj_def, intro allI notI, elim conjE)
  fix x assume far: "8 \<le> b - a" "8 \<le> a - b" and "in_range a 8 x" "in_range b 8 x"
  then have u: "unat (x - a) < 8" "unat (x - b) < 8" by (simp_all add: in_range_def word_less_nat_alt)
  show False
  proof (cases "x - b \<le> x - a")
    case True
    then have "unat (b - a) = unat (x - a) - unat (x - b)" using unat_sub [of "x - b" "x - a"] by simp
    then show False using far(1) u by (simp add: word_le_nat_alt)
  next
    case False
    then have "unat (a - b) = unat (x - b) - unat (x - a)" using unat_sub [of "x - a" "x - b"] by simp
    then show False using far(2) u by (simp add: word_le_nat_alt)
  qed
qed

theorem malloc_first_fit_witness:
  "\<exists>t. malloc (\<lambda>x w. (0, w)) 20 one_block = Some (0x1008, t) \<and> ublocks (um t) (free_list t) [(0x1020, 32)] \<and>
     28 \<le> unat (blk_size 0x1000 t)"
proof -
  have "ublocks (um one_block) (free_list one_block) [(0x1000, 64)]" "blocks_ok [(0x1000, 64)]"
    by (simp_all add: one_block_def load64_store64_far in_range_def)
  moreover have "ufit (HDR_SZ + ALIGN8 20) [(0x1000, 64)] = Some (0x1000, [(0x1020, 32)])"
    by (simp add: HDR_SZ_def ALIGN8_def MIN_BLOCK_def)
  ultimately show ?thesis
    using malloc_first_fit [of one_block "[(0x1000, 64)]" 20 "0x1000" "[(0x1020, 32)]" "\<lambda>x w. (0, w)"] by (auto simp: HDR_SZ_def)
qed

section \<open>A block handed out twice\<close>

text \<open>
  \<^verbatim>\<open>free\<close> of a block in front of a free one takes over the next pointer of the latter but not its size; the block behind
  leaves the list, keeps its mark and its pointer, and the next time the pointer is stale.  \<open>next_break\<close> is a kernel that
  grants every request.
\<close>

definition next_break :: "u64 \<Rightarrow> u64 \<Rightarrow> u64 \<times> u64" where
  "next_break x w = (if x = 0 then (w, w) else (x, x))"

definition fresh_heap :: "u64 uheap" where
  "fresh_heap = \<lparr>um = (\<lambda>_. 0), free_list = 0, u_errno = 0, u_os = 0x1000\<rparr>"

lemma malloc_scan_stops:
  "get_link pp s = 0 \<Longrightarrow> malloc_scan pp k s = Some (None, s)"
  "get_link pp s \<noteq> 0 \<Longrightarrow> k \<le> block_real_size (get_link pp s) s \<Longrightarrow>
     malloc_scan pp k s = Some (Some (get_link pp s), take_free pp (get_link pp s) k s)"
  by (subst malloc_scan.simps; simp add: Let_def)+

lemma small_sbrk: "free_list s = 0 \<Longrightarrow> u_os s < 0x10000 \<Longrightarrow>
     malloc next_break 8 s = Some (u_os s + 8, s\<lparr>u_os := u_os s + 16, um := store64 (um s) (u_os s) 16\<rparr>)"
proof -
  assume *: "free_list s = 0" "u_os s < 0x10000"
  then have "unat (u_os s + 16) = unat (u_os s) + 16" "unat (u_os s) < 0x10000"
    by (simp_all add: unat_add_nowrap word_less_nat_alt)
  then have "u_os s + 16 \<noteq> 0" "u_os s + 16 \<noteq> - 1" "u_os s \<noteq> - 1"
    unfolding word_unat_eq_iff by (simp_all add: unsigned_minus_1_eq_mask mask_eq_exp_minus_1)
  with * show ?thesis by (simp add: malloc_def next_break_def sbrk_def malloc_scan_stops heap_ops ALIGN8_def Let_def)
qed

lemma small_reuse: "free_list s \<noteq> 0 \<Longrightarrow> load64 (um s) (free_list s) AND NOT 1 = 16 \<Longrightarrow>
     malloc next_break 8 s =
       Some (free_list s + 8, s\<lparr>free_list := load64 (um s) (free_list s + 8), um := store64 (um s) (free_list s) 16\<rparr>)"
  by (simp add: malloc_def malloc_scan_stops take_free_def heap_ops MIN_BLOCK_def ALIGN8_def Let_def)

lemma small_free:
  assumes "load64 (um s) b AND NOT 1 = 16" and "b + 8 \<noteq> 0"
  shows "free next_break (b + 8) s =
     (let m = store64 (um s) b 17
      in s\<lparr>um := store64 m (b + 8) (if b + 16 \<le> u_os s \<and> load64 m (b + 16) AND 1 \<noteq> 0 then load64 m (b + 24) else free_list s),
           free_list := b\<rparr>)"
  using assms
  by (simp add: free_def block_from_ptr_def next_break_def sbrk_def is_free_def heap_ops Let_def add.assoc)

lemma malloc_same_block_twice:
  "do { (a, s) \<leftarrow> malloc next_break 8 fresh_heap; (b, s) \<leftarrow> malloc next_break 8 s;
        (c, s) \<leftarrow> malloc next_break 8 s; (d, s) \<leftarrow> malloc next_break 8 s;
        let s = free next_break a (free next_break b (free next_break d s));
        (p, s) \<leftarrow> malloc next_break 8 s; (q, s) \<leftarrow> malloc next_break 8 s;
        let s = free next_break p s;
        (p', s) \<leftarrow> malloc next_break 8 s; (q', s) \<leftarrow> malloc next_break 8 s;
        Some (p, q, p', q') } = Some (0x1008, 0x1038, 0x1008, 0x1038)"
  using small_free [of _ "0x1000"] small_free [of _ "0x1010"] small_free [of _ "0x1030"]
  by (simp add: fresh_heap_def small_sbrk small_reuse load64_store64_far Let_def)

text \<open>A request near \<open>2 ^ 64\<close> wraps in \<^verbatim>\<open>ALIGN8\<close> and gets a block of 8 bytes.\<close>

lemma malloc_wraps: "\<exists>s. malloc next_break (- 1) fresh_heap = Some (0x1008, s) \<and> blk_size 0x1000 s = 8"
  by (simp add: malloc_def fresh_heap_def next_break_def sbrk_def malloc_scan_stops heap_ops ALIGN8_def Let_def)

end
