(* ===== verification/Pci.thy ===== *)
theory Pci
  imports Prelude
begin

text \<open>
  The PCI bus, \<^verbatim>\<open>kernel/drivers/pci/pci.c\<close> and \<^verbatim>\<open>pci.h\<close>, and the registry of buses and drivers,
  \<^verbatim>\<open>kernel/drivers/device.c\<close>.  The configuration space is a function \<open>conf\<close> from the address written to port
  \<^verbatim>\<open>0xCF8\<close> to the value read from port \<^verbatim>\<open>0xCFC\<close>.  Messages on the serial port are left out, and the probe functions
  of drivers, of which the sources have none, are a list of the calls that are made.
\<close>

section \<open>Buses and drivers\<close>

text \<open>
  Buses and drivers are numbers; \<open>match\<close> and \<open>probe\<close> of a bus and \<open>probe\<close> of a driver may be missing.
\<close>

record 'dev bus_type =
  bt_match :: "('dev \<Rightarrow> nat \<Rightarrow> bool) option"
  bt_probe :: "('dev \<Rightarrow> nat \<Rightarrow> int) option"

record 'dev device_driver =
  dd_bus :: "nat option"
  dd_probe :: "('dev \<Rightarrow> int) option"

record 'dev devmodel =
  dm_busses :: "nat list"
  dm_drivers :: "'dev device_driver list"

definition bus_register :: "nat \<Rightarrow> 'dev devmodel \<Rightarrow> int \<times> 'dev devmodel" where
  "bus_register bus s = (if 16 \<le> length (dm_busses s) then (- 1, s) else (0, s\<lparr>dm_busses := dm_busses s @ [bus]\<rparr>))"

definition driver_register :: "'dev device_driver \<Rightarrow> 'dev devmodel \<Rightarrow> int \<times> 'dev devmodel" where
  "driver_register drv s = (if 32 \<le> length (dm_drivers s) then (- 1, s) else (0, s\<lparr>dm_drivers := dm_drivers s @ [drv]\<rparr>))"

text \<open>The first driver of the bus that matches.\<close>

definition driver_find :: "(nat \<Rightarrow> 'dev bus_type) \<Rightarrow> 'dev \<Rightarrow> nat option \<Rightarrow> 'dev devmodel \<Rightarrow> nat option" where
  "driver_find busses dev bus s =
     (case bus of
        None \<Rightarrow> None
      | Some b \<Rightarrow>
          (case bt_match (busses b) of
             None \<Rightarrow> None
           | Some mat \<Rightarrow> find (\<lambda>i. dd_bus (dm_drivers s ! i) = Some b \<and> mat dev i) [0..<length (dm_drivers s)]))"

text \<open>The result and the driver that becomes the driver of the device.\<close>

definition device_register :: "(nat \<Rightarrow> 'dev bus_type) \<Rightarrow> 'dev \<Rightarrow> nat option \<Rightarrow> 'dev devmodel \<Rightarrow> int \<times> nat option" where
  "device_register busses dev bus s =
     (case driver_find busses dev bus s of
        None \<Rightarrow> (- 1, None)
      | Some i \<Rightarrow>
          (case bt_probe (busses (the bus)) of
             Some probe \<Rightarrow> (probe dev i, Some i)
           | None \<Rightarrow> (case dd_probe (dm_drivers s ! i) of Some probe \<Rightarrow> (probe dev, Some i) | None \<Rightarrow> (0, Some i))))"

section \<open>Configuration space\<close>

definition PCI_MAX_DEVICES :: nat where "PCI_MAX_DEVICES = 64"

definition pci_read32 :: "(u32 \<Rightarrow> u32) \<Rightarrow> u8 \<Rightarrow> u8 \<Rightarrow> u8 \<Rightarrow> u8 \<Rightarrow> u32" where
  "pci_read32 conf bus slot func offset =
     conf (0x80000000 OR push_bit 16 (ucast bus) OR push_bit 11 (ucast slot) OR push_bit 8 (ucast func) OR (ucast offset AND 0xFC))"

definition pci_read_vendor :: "(u32 \<Rightarrow> u32) \<Rightarrow> u8 \<Rightarrow> u8 \<Rightarrow> u8 \<Rightarrow> u16" where
  "pci_read_vendor conf bus slot func = ucast (pci_read32 conf bus slot func 0 AND 0xFFFF)"

definition pci_read_device :: "(u32 \<Rightarrow> u32) \<Rightarrow> u8 \<Rightarrow> u8 \<Rightarrow> u8 \<Rightarrow> u16" where
  "pci_read_device conf bus slot func = ucast (drop_bit 16 (pci_read32 conf bus slot func 0) AND 0xFFFF)"

definition pci_read_header_type :: "(u32 \<Rightarrow> u32) \<Rightarrow> u8 \<Rightarrow> u8 \<Rightarrow> u8 \<Rightarrow> u8" where
  "pci_read_header_type conf bus slot func = ucast (drop_bit 16 (pci_read32 conf bus slot func 0x0C) AND 0xFF)"

definition pci_read_class :: "(u32 \<Rightarrow> u32) \<Rightarrow> u8 \<Rightarrow> u8 \<Rightarrow> u8 \<Rightarrow> u8" where
  "pci_read_class conf bus slot func = ucast (drop_bit 24 (pci_read32 conf bus slot func 0x08) AND 0xFF)"

definition pci_read_subclass :: "(u32 \<Rightarrow> u32) \<Rightarrow> u8 \<Rightarrow> u8 \<Rightarrow> u8 \<Rightarrow> u8" where
  "pci_read_subclass conf bus slot func = ucast (drop_bit 16 (pci_read32 conf bus slot func 0x08) AND 0xFF)"

definition pci_read_prog_if :: "(u32 \<Rightarrow> u32) \<Rightarrow> u8 \<Rightarrow> u8 \<Rightarrow> u8 \<Rightarrow> u8" where
  "pci_read_prog_if conf bus slot func = ucast (drop_bit 8 (pci_read32 conf bus slot func 0x08) AND 0xFF)"

definition pci_read_secondary_bus :: "(u32 \<Rightarrow> u32) \<Rightarrow> u8 \<Rightarrow> u8 \<Rightarrow> u8 \<Rightarrow> u8" where
  "pci_read_secondary_bus conf bus slot func = ucast (drop_bit 8 (pci_read32 conf bus slot func 0x18) AND 0xFF)"

definition pci_read_bar :: "(u32 \<Rightarrow> u32) \<Rightarrow> u8 \<Rightarrow> u8 \<Rightarrow> u8 \<Rightarrow> nat \<Rightarrow> u32" where
  "pci_read_bar conf bus slot func bar = pci_read32 conf bus slot func (0x10 + of_nat bar * 4)"

definition pci_read_irq :: "(u32 \<Rightarrow> u32) \<Rightarrow> u8 \<Rightarrow> u8 \<Rightarrow> u8 \<Rightarrow> u8" where
  "pci_read_irq conf bus slot func = ucast (drop_bit 8 (pci_read32 conf bus slot func 0x3C) AND 0xFF)"

section \<open>Devices\<close>

record pci_device =
  pd_driver :: "nat option"
  pd_bus :: u8
  pd_slot :: u8
  pd_func :: u8
  pd_vendor :: u16
  pd_device_id :: u16
  pd_class :: u8
  pd_subclass :: u8
  pd_prog_if :: u8
  pd_bar :: "u32 list"
  pd_irq :: u8

record pci_device_id =
  id_vendor :: u16
  id_device :: u16
  id_class :: u32

record pci_driver =
  pr_ids :: "pci_device_id list option"
  pr_probe :: "(pci_device \<Rightarrow> int) option"

text \<open>The bus has number 0 in the registry.\<close>

record pci_state =
  pci_devices :: "pci_device list"
  pci_drivers :: "pci_driver list"
  pci_dm :: "pci_device devmodel"

text \<open>The device that \<^verbatim>\<open>pci_scan_bus\<close> and \<^verbatim>\<open>pci_create_device\<close> read from the configuration space.\<close>

definition pci_device_at :: "(u32 \<Rightarrow> u32) \<Rightarrow> u8 \<Rightarrow> u8 \<Rightarrow> u8 \<Rightarrow> pci_device" where
  "pci_device_at conf bus slot func =
     \<lparr>pd_driver = None, pd_bus = bus, pd_slot = slot, pd_func = func,
      pd_vendor = pci_read_vendor conf bus slot func, pd_device_id = pci_read_device conf bus slot func,
      pd_class = pci_read_class conf bus slot func, pd_subclass = pci_read_subclass conf bus slot func,
      pd_prog_if = pci_read_prog_if conf bus slot func, pd_bar = map (pci_read_bar conf bus slot func) [0..<6],
      pd_irq = pci_read_irq conf bus slot func\<rparr>"

definition pci_create_device :: "pci_device \<Rightarrow> pci_device list \<Rightarrow> pci_device list" where
  "pci_create_device d ds = (if PCI_MAX_DEVICES \<le> length ds then ds else ds @ [d])"

text \<open>
  The scan calls itself for the bus behind a bridge.  Its calls and loops are a stack of what is left to do: a slot of a
  bus, or a function of a slot in which there is a device.
\<close>

datatype scan_work = Slot u8 nat | Func u8 nat nat

definition bus_work :: "u8 \<Rightarrow> scan_work list" where
  "bus_work bus = map (Slot bus) [0..<32]"

definition slot_work :: "(u32 \<Rightarrow> u32) \<Rightarrow> u8 \<Rightarrow> nat \<Rightarrow> scan_work list" where
  "slot_work conf bus slot =
     (if pci_read_vendor conf bus (of_nat slot) 0 = 0xFFFF then []
      else map (Func bus slot) [0..<if pci_read_header_type conf bus (of_nat slot) 0 AND 0x80 \<noteq> 0 then 8 else 1])"

definition func_present :: "(u32 \<Rightarrow> u32) \<Rightarrow> u8 \<Rightarrow> nat \<Rightarrow> nat \<Rightarrow> bool" where
  "func_present conf bus slot func \<longleftrightarrow> func = 0 \<or> pci_read_vendor conf bus (of_nat slot) (of_nat func) \<noteq> 0xFFFF"

definition is_bridge :: "pci_device \<Rightarrow> bool" where
  "is_bridge d \<longleftrightarrow> pd_class d = 0x06 \<and> pd_subclass d = 0x04"

definition func_work :: "(u32 \<Rightarrow> u32) \<Rightarrow> u8 \<Rightarrow> nat \<Rightarrow> nat \<Rightarrow> scan_work list" where
  "func_work conf bus slot func =
     (if is_bridge (pci_device_at conf bus (of_nat slot) (of_nat func))
      then bus_work (pci_read_secondary_bus conf bus (of_nat slot) (of_nat func)) else [])"

partial_function (option) pci_run :: "(u32 \<Rightarrow> u32) \<Rightarrow> scan_work list \<Rightarrow> pci_device list \<Rightarrow> pci_device list option" where
  "pci_run conf ws ds =
     (case ws of
        [] \<Rightarrow> Some ds
      | Slot bus slot # ws \<Rightarrow> pci_run conf (slot_work conf bus slot @ ws) ds
      | Func bus slot func # ws \<Rightarrow>
          if func_present conf bus slot func
          then pci_run conf (func_work conf bus slot func @ ws)
                 (pci_create_device (pci_device_at conf bus (of_nat slot) (of_nat func)) ds)
          else pci_run conf ws ds)"

definition pci_scan_bus :: "(u32 \<Rightarrow> u32) \<Rightarrow> u8 \<Rightarrow> pci_device list \<Rightarrow> pci_device list option" where
  "pci_scan_bus conf bus ds = pci_run conf (bus_work bus) ds"

fun scan_buses :: "(u32 \<Rightarrow> u32) \<Rightarrow> u8 list \<Rightarrow> pci_device list \<Rightarrow> pci_device list option" where
  "scan_buses conf [] ds = Some ds"
| "scan_buses conf (b # bs) ds = do { ds \<leftarrow> pci_scan_bus conf b ds; scan_buses conf bs ds }"

definition pci_scan :: "(u32 \<Rightarrow> u32) \<Rightarrow> pci_state \<Rightarrow> pci_state option" where
  "pci_scan conf s =
     (let s = s\<lparr>pci_dm := snd (bus_register 0 (pci_dm s))\<rparr> in
      if pci_read_vendor conf 0 0 0 = 0xFFFF then Some s
      else do { ds \<leftarrow> scan_buses conf
                   (map of_nat [0..<if pci_read_header_type conf 0 0 0 AND 0x80 \<noteq> 0 then 256 else 1]) (pci_devices s);
                Some (s\<lparr>pci_devices := ds\<rparr>) })"

section \<open>Drivers\<close>

definition id_matches :: "pci_device \<Rightarrow> pci_device_id \<Rightarrow> bool" where
  "id_matches d i \<longleftrightarrow>
     (id_vendor i = pd_vendor d \<or> id_vendor i = 0xFFFF) \<and> (id_device i = pd_device_id d \<or> id_device i = 0xFFFF) \<and>
     (id_class i = push_bit 16 (ucast (pd_class d)) OR push_bit 8 (ucast (pd_subclass d)) OR ucast (pd_prog_if d) \<or> id_class i = 0)"

text \<open>The table ends at the first entry of vendor and device 0.\<close>

definition pci_match :: "pci_device \<Rightarrow> pci_driver \<Rightarrow> bool" where
  "pci_match d drv \<longleftrightarrow>
     (case pr_ids drv of
        None \<Rightarrow> False
      | Some ids \<Rightarrow> \<exists>i \<in> set (takeWhile (\<lambda>i. id_vendor i \<noteq> 0 \<or> id_device i \<noteq> 0) ids). id_matches d i)"

definition pci_bus_probe :: "pci_driver \<Rightarrow> pci_device \<Rightarrow> int" where
  "pci_bus_probe drv d = (case pr_probe drv of Some probe \<Rightarrow> probe d | None \<Rightarrow> - 1)"

text \<open>Binding the new driver \<open>n\<close> to the devices that have none; the second result lists the devices that are probed.\<close>

definition pci_register_driver :: "pci_driver \<Rightarrow> pci_state \<Rightarrow> int \<times> nat list \<times> pci_state" where
  "pci_register_driver drv s =
     (if 16 \<le> length (pci_drivers s) then (- 1, [], s)
      else let n = length (pci_drivers s);
               takes = (\<lambda>d. pd_driver d = None \<and> pci_match d drv)
           in (0, if pr_probe drv \<noteq> None then filter (\<lambda>i. takes (pci_devices s ! i)) [0..<length (pci_devices s)] else [],
               s\<lparr>pci_drivers := pci_drivers s @ [drv],
                 pci_dm := snd (driver_register \<lparr>dd_bus = Some 0, dd_probe = Some (pci_bus_probe drv)\<rparr> (pci_dm s)),
                 pci_devices := map (\<lambda>d. if takes d then d\<lparr>pd_driver := Some n\<rparr> else d) (pci_devices s)\<rparr>))"

definition pci_find_device :: "u16 \<Rightarrow> u16 \<Rightarrow> pci_state \<Rightarrow> pci_device option" where
  "pci_find_device vendor device s = find (\<lambda>d. pd_vendor d = vendor \<and> pd_device_id d = device) (pci_devices s)"

definition pci_find_device_by_class :: "u8 \<Rightarrow> u8 \<Rightarrow> pci_state \<Rightarrow> pci_device option" where
  "pci_find_device_by_class class_code subclass s =
     find (\<lambda>d. pd_class d = class_code \<and> pd_subclass d = subclass) (pci_devices s)"

definition pci_device_count :: "pci_state \<Rightarrow> nat" where
  "pci_device_count s = length (pci_devices s)"

definition pci_get_device :: "int \<Rightarrow> pci_state \<Rightarrow> pci_device option" where
  "pci_get_device index s =
     (if index < 0 \<or> int (pci_device_count s) \<le> index then None else Some (pci_devices s ! nat index))"

section \<open>What a scan finds\<close>

text \<open>
  The entries that the scan makes from the answers of a configuration space, when every bridge leads to a bus with a
  higher number.
\<close>

definition sec_bus :: "(u32 \<Rightarrow> u32) \<Rightarrow> u8 \<Rightarrow> nat \<Rightarrow> nat \<Rightarrow> u8" where
  "sec_bus conf bus slot func = pci_read_secondary_bus conf bus (of_nat slot) (of_nat func)"

definition bus_funcs :: "(u32 \<Rightarrow> u32) \<Rightarrow> u8 \<Rightarrow> (nat \<times> nat) list" where
  "bus_funcs conf bus =
     [(slot, func). slot \<leftarrow> [0..<32], pci_read_vendor conf bus (of_nat slot) 0 \<noteq> 0xFFFF,
        func \<leftarrow> [0..<if pci_read_header_type conf bus (of_nat slot) 0 AND 0x80 \<noteq> 0 then 8 else 1],
        func_present conf bus slot func]"

lemma buses_above: "b < c \<Longrightarrow> 255 - unat c < 255 - unat b" for b c :: u8
  using unat_less_pow8 [of c] by (auto simp: word_less_nat_alt)

function bus_tree :: "(u32 \<Rightarrow> u32) \<Rightarrow> u8 \<Rightarrow> pci_device list" where
  "bus_tree conf bus =
     concat (map (\<lambda>(slot, func).
        let d = pci_device_at conf bus (of_nat slot) (of_nat func)
        in d # (if is_bridge d \<and> bus < sec_bus conf bus slot func then bus_tree conf (sec_bus conf bus slot func) else []))
      (bus_funcs conf bus))"
  by pat_completeness auto
termination
  by (relation "measure (\<lambda>(conf, bus). 255 - unat bus)") (auto intro: buses_above)

declare bus_tree.simps [simp del]

definition upward :: "(u32 \<Rightarrow> u32) \<Rightarrow> bool" where
  "upward conf \<longleftrightarrow> (\<forall>bus slot func. (slot, func) \<in> set (bus_funcs conf bus) \<longrightarrow>
     is_bridge (pci_device_at conf bus (of_nat slot) (of_nat func)) \<longrightarrow> bus < sec_bus conf bus slot func)"

lemma fold_create: "length ds \<le> 64 \<Longrightarrow> fold pci_create_device xs ds = take 64 (ds @ xs)"
proof (induction xs arbitrary: ds)
  case (Cons x xs)
  then show ?case by (cases "length ds = 64") (auto simp: pci_create_device_def PCI_MAX_DEVICES_def take_Cons')
qed simp

definition below :: "(u32 \<Rightarrow> u32) \<Rightarrow> u8 \<Rightarrow> nat \<times> nat \<Rightarrow> pci_device list" where
  "below conf bus = (\<lambda>(slot, func).
     let d = pci_device_at conf bus (of_nat slot) (of_nat func)
     in d # (if is_bridge d then bus_tree conf (sec_bus conf bus slot func) else []))"

lemma bus_tree_below: "upward conf \<Longrightarrow> bus_tree conf bus = concat (map (below conf bus) (bus_funcs conf bus))"
  by (subst bus_tree.simps, intro arg_cong [where f = concat] map_cong refl)
     (auto simp: below_def upward_def Let_def)

text \<open>The work behind the bridges of a bus is known to add the trees below them.\<close>

definition bridges_run :: "(u32 \<Rightarrow> u32) \<Rightarrow> u8 \<Rightarrow> bool" where
  "bridges_run conf bus \<longleftrightarrow> (\<forall>(slot, func) \<in> set (bus_funcs conf bus).
     is_bridge (pci_device_at conf bus (of_nat slot) (of_nat func)) \<longrightarrow>
     (\<forall>ws ds. pci_run conf (bus_work (sec_bus conf bus slot func) @ ws) ds =
              pci_run conf ws (fold pci_create_device (bus_tree conf (sec_bus conf bus slot func)) ds)))"

definition slot_funcs :: "(u32 \<Rightarrow> u32) \<Rightarrow> u8 \<Rightarrow> nat \<Rightarrow> nat list" where
  "slot_funcs conf bus slot =
     (if pci_read_vendor conf bus (of_nat slot) 0 = 0xFFFF then []
      else [0..<if pci_read_header_type conf bus (of_nat slot) 0 AND 0x80 \<noteq> 0 then 8 else 1])"

lemma concat_filter: "concat (map (\<lambda>f. if P f then [(s, f)] else []) fs) = map (Pair s) (filter P fs)"
  by (induction fs) auto

lemma bus_funcs_slots:
  "bus_funcs conf bus = concat (map (\<lambda>slot. map (Pair slot) (filter (func_present conf bus slot) (slot_funcs conf bus slot))) [0..<32])"
  unfolding bus_funcs_def slot_funcs_def
  by (intro arg_cong [where f = concat] map_cong refl) (simp add: concat_filter)

lemma slot_work_funcs: "slot_work conf bus slot = map (Func bus slot) (slot_funcs conf bus slot)"
  by (simp add: slot_work_def slot_funcs_def)

lemma run_funcs:
  assumes "bridges_run conf bus" and "\<And>f. f \<in> set fs \<Longrightarrow> func_present conf bus slot f \<Longrightarrow> (slot, f) \<in> set (bus_funcs conf bus)"
  shows "pci_run conf (map (Func bus slot) fs @ ws) ds =
    pci_run conf ws (fold pci_create_device (concat (map (\<lambda>f. below conf bus (slot, f)) (filter (func_present conf bus slot) fs))) ds)"
  using assms(2)
proof (induction fs arbitrary: ds)
  case (Cons f fs)
  show ?case
  proof (cases "func_present conf bus slot f")
    case True
    let ?d = "pci_device_at conf bus (of_nat slot) (of_nat f)"
    have b: "pci_run conf (bus_work (sec_bus conf bus slot f) @ ws') ds' =
        pci_run conf ws' (fold pci_create_device (bus_tree conf (sec_bus conf bus slot f)) ds')" if "is_bridge ?d" for ws' ds'
      using assms(1) Cons.prems [of f] True that by (fastforce simp: bridges_run_def)
    have "pci_run conf (map (Func bus slot) (f # fs) @ ws) ds =
        pci_run conf (func_work conf bus slot f @ map (Func bus slot) fs @ ws) (pci_create_device ?d ds)"
      using True by (subst pci_run.simps) simp
    also have "\<dots> = pci_run conf (map (Func bus slot) fs @ ws) (fold pci_create_device (below conf bus (slot, f)) ds)"
      using b by (simp add: func_work_def below_def Let_def sec_bus_def)
    finally show ?thesis using Cons True by simp
  next
    case False
    then have "pci_run conf (map (Func bus slot) (f # fs) @ ws) ds = pci_run conf (map (Func bus slot) fs @ ws) ds"
      by (subst pci_run.simps) simp
    with False Cons show ?thesis by simp
  qed
qed simp

lemma run_slots:
  assumes "bridges_run conf bus" and "set ss \<subseteq> {0..<32}"
  shows "pci_run conf (map (Slot bus) ss @ ws) ds =
    pci_run conf ws (fold pci_create_device (concat (map (\<lambda>slot. concat (map (\<lambda>f. below conf bus (slot, f))
      (filter (func_present conf bus slot) (slot_funcs conf bus slot)))) ss)) ds)"
  using assms(2)
proof (induction ss arbitrary: ds)
  case (Cons slot ss)
  have "pci_run conf (map (Slot bus) (slot # ss) @ ws) ds =
      pci_run conf (map (Func bus slot) (slot_funcs conf bus slot) @ map (Slot bus) ss @ ws) ds"
    by (subst pci_run.simps) (simp add: slot_work_funcs)
  also have "\<dots> = pci_run conf (map (Slot bus) ss @ ws) (fold pci_create_device (concat (map (\<lambda>f. below conf bus (slot, f))
      (filter (func_present conf bus slot) (slot_funcs conf bus slot)))) ds)"
    using Cons.prems by (intro run_funcs [OF assms(1)]) (force simp: bus_funcs_slots)
  finally show ?case using Cons by simp
qed simp

lemma concat_map_concat: "concat (map g (concat (map h xs))) = concat (map (\<lambda>x. concat (map g (h x))) xs)"
  by (induction xs) auto

lemma run_bus:
  assumes "upward conf"
  shows "pci_run conf (bus_work bus @ ws) ds = pci_run conf ws (fold pci_create_device (bus_tree conf bus) ds)"
proof (induction "255 - unat bus" arbitrary: bus ws ds rule: less_induct)
  case less
  have "bridges_run conf bus"
    using less assms by (fastforce simp: bridges_run_def upward_def intro: buses_above)
  then show ?case
    by (simp add: bus_work_def run_slots bus_tree_below [OF assms] bus_funcs_slots concat_map_concat comp_def)
qed

section \<open>A machine with PCI functions\<close>

text \<open>
  The machine in the terms of the PCI specification, without the code: \<open>mach (bus, slot, func)\<close> is the function at this
  place, if there is one, by the bytes of its configuration header.  Configuration mechanism 1 answers an address with
  the four bytes of the register that its fields select, and with ones where there is no function.
\<close>

type_synonym pci_addr = "u8 \<times> nat \<times> nat"
type_synonym pci_header = "nat \<Rightarrow> u8"

definition le_word :: "u8 list \<Rightarrow> 'a::len word" where
  "le_word bs = foldr (\<lambda>b w. ucast b OR push_bit 8 w) bs 0"

definition config_space :: "(pci_addr \<Rightarrow> pci_header option) \<Rightarrow> u32 \<Rightarrow> u32" where
  "config_space mach a =
     (case mach (ucast (drop_bit 16 a), unat (take_bit 5 (drop_bit 11 a)), unat (take_bit 3 (drop_bit 8 a))) of
        Some r \<Rightarrow> if bit a 31 then let i = unat (take_bit 8 a) in le_word [r i, r (i + 1), r (i + 2), r (i + 3)] else - 1
      | None \<Rightarrow> - 1)"

text \<open>A bridge has class 6 and subclass 4, and byte \<open>0x19\<close> is the bus behind it.\<close>

definition bridge_to :: "(pci_addr \<Rightarrow> pci_header option) \<Rightarrow> pci_addr \<Rightarrow> u8 option" where
  "bridge_to mach a =
     (case mach a of Some r \<Rightarrow> if r 0x0B = 6 \<and> r 0x0A = 4 then Some (r 0x19) else None | None \<Rightarrow> None)"

text \<open>
  What the specification and the firmware promise: places are within range, the vendor of a function is not \<open>0xFFFF\<close>, a slot
  with functions has function 0, whose header type says so when there are more (bit 7 of byte \<open>0x0E\<close>), and buses are
  numbered downwards from the root, with one bridge for a bus.
\<close>

definition machine_ok :: "(pci_addr \<Rightarrow> pci_header option) \<Rightarrow> bool" where
  "machine_ok mach \<longleftrightarrow>
     (\<forall>bus slot func r. mach (bus, slot, func) = Some r \<longrightarrow>
        slot < 32 \<and> func < 8 \<and> \<not> (r 0 = 0xFF \<and> r 1 = 0xFF) \<and>
        (\<exists>r0. mach (bus, slot, 0) = Some r0 \<and> (func \<noteq> 0 \<longrightarrow> bit (r0 0x0E) 7))) \<and>
     (\<forall>a c. bridge_to mach a = Some c \<longrightarrow> fst a < c \<and> (\<forall>a'. bridge_to mach a' = Some c \<longrightarrow> a' = a))"

text \<open>The entry of a function, and the places on a bus and below it.\<close>

definition pci_entry :: "(pci_addr \<Rightarrow> pci_header option) \<Rightarrow> pci_addr \<Rightarrow> pci_device" where
  "pci_entry mach = (\<lambda>(bus, slot, func). let r = the (mach (bus, slot, func)) in
     \<lparr>pd_driver = None, pd_bus = bus, pd_slot = of_nat slot, pd_func = of_nat func,
      pd_vendor = le_word [r 0, r 1], pd_device_id = le_word [r 2, r 3],
      pd_class = r 0x0B, pd_subclass = r 0x0A, pd_prog_if = r 9,
      pd_bar = map (\<lambda>i. le_word [r i, r (i + 1), r (i + 2), r (i + 3)]) [0x10, 0x14, 0x18, 0x1C, 0x20, 0x24],
      pd_irq = r 0x3D\<rparr>)"

definition occupied :: "(pci_addr \<Rightarrow> pci_header option) \<Rightarrow> u8 \<Rightarrow> (nat \<times> nat) list" where
  "occupied mach bus = filter (\<lambda>(slot, func). mach (bus, slot, func) \<noteq> None) (List.product [0..<32] [0..<8])"

function funcs_below :: "(pci_addr \<Rightarrow> pci_header option) \<Rightarrow> u8 \<Rightarrow> pci_addr list" where
  "funcs_below mach bus =
     concat (map (\<lambda>(slot, func).
        (bus, slot, func) # (case bridge_to mach (bus, slot, func) of
                               Some c \<Rightarrow> if bus < c then funcs_below mach c else []
                             | None \<Rightarrow> []))
      (occupied mach bus))"
  by pat_completeness auto
termination
  by (relation "measure (\<lambda>(mach, bus). 255 - unat bus)") (auto intro: buses_above)

declare funcs_below.simps [simp del]

inductive under :: "(pci_addr \<Rightarrow> pci_header option) \<Rightarrow> u8 \<Rightarrow> u8 \<Rightarrow> bool" for mach bus where
  under_here: "under mach bus bus"
| under_bridge: "under mach bus c \<Longrightarrow> bridge_to mach (c, slot, func) = Some d \<Longrightarrow> under mach bus d"

text \<open>The bytes of the registers.\<close>

lemma bit_small:
  fixes n :: nat
  assumes "bit n i" "n < 2 ^ k"
  shows "i < k"
proof -
  have "bit (take_bit k n) i" using assms by (simp add: take_bit_nat_eq_self)
  then show ?thesis by (simp add: bit_take_bit_iff)
qed

definition config_address :: "u8 \<Rightarrow> u8 \<Rightarrow> u8 \<Rightarrow> u8 \<Rightarrow> u32" where
  "config_address bus slot func off =
     0x80000000 OR push_bit 16 (ucast bus) OR push_bit 11 (ucast slot) OR push_bit 8 (ucast func) OR (ucast off AND 0xFC)"

lemma bit_FC: "bit (0xFC :: u32) i \<longleftrightarrow> 2 \<le> i \<and> i < 8"
proof -
  have "(0xFC :: u32) = push_bit 2 (mask 6)" by (simp add: mask_eq_exp_minus_1)
  then show ?thesis by (simp only: bit_push_bit_iff bit_mask_iff) (auto simp: possible_bit_word)
qed

lemma bit_enable: "bit (0x80000000 :: u32) i \<longleftrightarrow> i = 31"
proof -
  have "(0x80000000 :: u32) = 2 ^ 31" by simp
  then show ?thesis by (simp only: bit_exp_iff) (auto simp: possible_bit_word)
qed

lemma u8_bit_high: "8 \<le> i \<Longrightarrow> \<not> bit b i" for b :: u8
  using bit_imp_le_length [of b i] by auto

lemma config_fields:
  assumes "slot < 32" "func < 8"
  shows "ucast (drop_bit 16 (config_address bus (of_nat slot) (of_nat func) off)) = bus"
    and "unat (take_bit 5 (drop_bit 11 (config_address bus (of_nat slot) (of_nat func) off))) = slot"
    and "unat (take_bit 3 (drop_bit 8 (config_address bus (of_nat slot) (of_nat func) off))) = func"
    and "unat (take_bit 8 (config_address bus (of_nat slot) (of_nat func) off)) = unat (off AND 0xFC)"
    and "bit (config_address bus (of_nat slot) (of_nat func) off) 31"
proof -
  let ?a = "config_address bus (of_nat slot) (of_nat func) off"
  have s: "i < 5" if "bit slot i" for i using bit_small [OF that, of 5] assms by simp
  have f: "i < 3" if "bit func i" for i using bit_small [OF that, of 3] assms by simp
  define en m :: u32 where "en = 0x80000000" and "m = 0xFC"
  have a: "?a = en OR push_bit 16 (ucast bus) OR push_bit 11 (ucast (of_nat slot :: u8)) OR
      push_bit 8 (ucast (of_nat func :: u8)) OR (ucast off AND m)"
    by (simp add: config_address_def en_def m_def)
  have em: "bit en i \<longleftrightarrow> i = 31" "bit m i \<longleftrightarrow> 2 \<le> i \<and> i < 8" for i
    by (simp_all only: en_def m_def bit_enable bit_FC)
  note bits = a em bit_simps u8_bit_high
  show "ucast (drop_bit 16 ?a) = bus"
    by (rule bit_word_eqI) (auto simp: bits dest: s f)
  have "take_bit 5 (drop_bit 11 ?a) = of_nat slot"
    by (rule bit_word_eqI) (auto simp: bits dest: s f)
  then show "unat (take_bit 5 (drop_bit 11 ?a)) = slot"
    using assms by (simp add: unat_of_nat)
  have "take_bit 3 (drop_bit 8 ?a) = of_nat func"
    by (rule bit_word_eqI) (auto simp: bits dest: s f)
  then show "unat (take_bit 3 (drop_bit 8 ?a)) = func"
    using assms by (simp add: unat_of_nat)
  have "take_bit 8 ?a = ucast off AND m"
    by (rule bit_word_eqI) (auto simp: bits dest: s f)
  also have "\<dots> = ucast (off AND 0xFC)" by (simp add: m_def unsigned_and_eq)
  finally have "take_bit 8 ?a = ucast (off AND 0xFC)" .
  then show "unat (take_bit 8 ?a) = unat (off AND 0xFC)"
    using unat_less_pow8 [of "off AND 0xFC"] by (simp add: unsigned_ucast_eq take_bit_nat_eq_self)
  show "bit ?a 31" by (simp add: bits)
qed

definition reg_word :: "pci_header \<Rightarrow> nat \<Rightarrow> u32" where
  "reg_word r i = le_word [r i, r (i + 1), r (i + 2), r (i + 3)]"

lemma pci_read32_config:
  assumes "slot < 32" "func < 8"
  shows "pci_read32 (config_space mach) bus (of_nat slot) (of_nat func) off =
    (case mach (bus, slot, func) of Some r \<Rightarrow> reg_word r (unat (off AND 0xFC)) | None \<Rightarrow> - 1)"
  using config_fields [OF assms, of bus off]
  by (simp add: pci_read32_def config_space_def reg_word_def Let_def flip: config_address_def split: option.split)

lemma and_ones: "w AND 0xFFFF = take_bit 16 w" "w AND 0xFF = take_bit 8 w" for w :: u32
  by (simp_all add: take_bit_eq_mask mask_eq_exp_minus_1)

lemma reg_word_fields:
  "ucast (reg_word r i AND 0xFF) = r i"
  "ucast (drop_bit 8 (reg_word r i) AND 0xFF) = r (i + 1)"
  "ucast (drop_bit 16 (reg_word r i) AND 0xFF) = r (i + 2)"
  "ucast (drop_bit 24 (reg_word r i) AND 0xFF) = r (i + 3)"
  "ucast (reg_word r i AND 0xFFFF) = (le_word [r i, r (i + 1)] :: u16)"
  "ucast (drop_bit 16 (reg_word r i) AND 0xFFFF) = (le_word [r (i + 2), r (i + 3)] :: u16)"
  unfolding and_ones by (rule bit_word_eqI; auto simp: reg_word_def le_word_def bit_simps u8_bit_high)+

lemma le_word_FFFF: "(le_word [a, b] :: u16) = 0xFFFF \<longleftrightarrow> a = 0xFF \<and> b = 0xFF"
proof -
  have "a = ucast (le_word [a, b] :: u16)" "b = ucast (drop_bit 8 (le_word [a, b] :: u16))"
    by (rule bit_word_eqI; auto simp: le_word_def bit_simps u8_bit_high)+
  then have "a = 0xFF \<and> b = 0xFF" if "(le_word [a, b] :: u16) = 0xFFFF" unfolding that by simp
  then show ?thesis by (auto simp: le_word_def)
qed

lemma read_vendor_config:
  "slot < 32 \<Longrightarrow> func < 8 \<Longrightarrow> pci_read_vendor (config_space mach) bus (of_nat slot) (of_nat func) =
     (case mach (bus, slot, func) of Some r \<Rightarrow> le_word [r 0, r 1] | None \<Rightarrow> 0xFFFF)"
  by (simp add: pci_read_vendor_def pci_read32_config reg_word_fields split: option.split)

lemma read_header_config:
  "slot < 32 \<Longrightarrow> mach (bus, slot, 0) = Some r \<Longrightarrow> pci_read_header_type (config_space mach) bus (of_nat slot) 0 = r 0x0E"
  using pci_read32_config [where off = "0x0C" and func = 0] by (simp add: pci_read_header_type_def reg_word_fields)

lemma device_at_config:
  assumes "slot < 32" "func < 8" "mach (bus, slot, func) = Some r"
  shows "pci_device_at (config_space mach) bus (of_nat slot) (of_nat func) = pci_entry mach (bus, slot, func)"
    and "sec_bus (config_space mach) bus slot func = r 0x19"
proof -
  note read = pci_read32_config [OF assms(1,2), where mach = mach and bus = bus, unfolded assms(3) option.case]
  have bars: "[0..<6] = [0, 1, 2, 3, 4, 5 :: nat]" by (simp add: upt_rec)
  show "pci_device_at (config_space mach) bus (of_nat slot) (of_nat func) = pci_entry mach (bus, slot, func)"
    by (simp add: pci_device_at_def pci_entry_def pci_read_vendor_def pci_read_device_def pci_read_class_def
        pci_read_subclass_def pci_read_prog_if_def pci_read_bar_def pci_read_irq_def read reg_word_fields assms(3) bars)
       (simp add: reg_word_def numeral_2_eq_2)
  show "sec_bus (config_space mach) bus slot func = r 0x19"
    by (simp add: sec_bus_def pci_read_secondary_bus_def read reg_word_fields)
qed

lemma machine_okD:
  assumes "machine_ok mach" "mach (bus, slot, func) = Some r"
  shows "slot < 32" "func < 8" "\<not> (r 0 = 0xFF \<and> r 1 = 0xFF)" "\<exists>r0. mach (bus, slot, 0) = Some r0 \<and> (func \<noteq> 0 \<longrightarrow> bit (r0 0x0E) 7)"
  using assms unfolding machine_ok_def by blast+

lemma bridge_toD:
  assumes "machine_ok mach" "bridge_to mach (bus, slot, func) = Some c"
  shows "bus < c" and "slot < 32" and "func < 8" and "mach (bus, slot, func) \<noteq> None"
    and "bridge_to mach a = Some c \<Longrightarrow> a = (bus, slot, func)"
proof -
  obtain r where r: "mach (bus, slot, func) = Some r" using assms(2) by (auto simp: bridge_to_def split: option.splits)
  then show "slot < 32" and "func < 8" and "mach (bus, slot, func) \<noteq> None" using machine_okD [OF assms(1) r] by auto
  show "bus < c" and "bridge_to mach a = Some c \<Longrightarrow> a = (bus, slot, func)"
    using assms unfolding machine_ok_def by (metis fst_conv)+
qed

lemma slot_funcs_config:
  assumes "machine_ok mach" "slot < 32"
  shows "filter (func_present (config_space mach) bus slot) (slot_funcs (config_space mach) bus slot) =
    filter (\<lambda>func. mach (bus, slot, func) \<noteq> None) [0..<8]"
proof (cases "mach (bus, slot, 0)")
  case None
  then have "mach (bus, slot, func) = None" for func
    using machine_okD(4) [OF assms(1)] by (cases "mach (bus, slot, func)") force+
  then show ?thesis using read_vendor_config [OF assms(2), of 0 mach bus] by (simp add: slot_funcs_def)
next
  case (Some r)
  have v: "pci_read_vendor (config_space mach) bus (of_nat slot) (of_nat func) = 0xFFFF \<longleftrightarrow> mach (bus, slot, func) = None"
    if "func < 8" for func
    using machine_okD(3) [OF assms(1)] by (auto simp: read_vendor_config [OF assms(2) that] le_word_FFFF split: option.split)
  have h: "pci_read_header_type (config_space mach) bus (of_nat slot) 0 AND 0x80 \<noteq> 0 \<longleftrightarrow> bit (r 0x0E) 7"
    using read_header_config [where mach = mach, OF assms(2) Some] by (simp add: and_bit7)
  have p: "func_present (config_space mach) bus slot func \<longleftrightarrow> mach (bus, slot, func) \<noteq> None" if "func < 8" for func
    using v [OF that] Some by (auto simp: func_present_def)
  have one: "mach (bus, slot, func) = None" if "\<not> bit (r 0x0E) 7" "func \<noteq> 0" for func
    using machine_okD(4) [OF assms(1)] Some that by (cases "mach (bus, slot, func)") fastforce+
  have u: "[0..<8] = 0 # [1..<8]" by (simp add: upt_rec)
  have "slot_funcs (config_space mach) bus slot = [0..<if bit (r 0x0E) 7 then 8 else 1]"
    using v [of 0] Some by (simp add: slot_funcs_def flip: h)
  then show ?thesis
    using p one Some by (cases "bit (r 0x0E) 7") (auto simp: u intro: filter_cong)
qed

lemma filter_product: "filter P (List.product xs ys) = concat (map (\<lambda>x. map (Pair x) (filter (\<lambda>y. P (x, y)) ys)) xs)"
  by (induction xs) (simp_all add: filter_map comp_def)

lemma bus_funcs_config: "machine_ok mach \<Longrightarrow> bus_funcs (config_space mach) bus = occupied mach bus"
  unfolding bus_funcs_slots occupied_def filter_product
  by (intro arg_cong [where f = concat] map_cong refl arg_cong [where f = "map _"]) (simp add: slot_funcs_config)

lemma occupied_iff: "machine_ok mach \<Longrightarrow> (slot, func) \<in> set (occupied mach bus) \<longleftrightarrow> mach (bus, slot, func) \<noteq> None"
  by (auto simp: occupied_def dest: machine_okD)

lemma is_bridge_config:
  assumes "machine_ok mach" "mach (bus, slot, func) \<noteq> None"
  shows "is_bridge (pci_device_at (config_space mach) bus (of_nat slot) (of_nat func)) \<longleftrightarrow> bridge_to mach (bus, slot, func) \<noteq> None"
    and "bridge_to mach (bus, slot, func) = Some c \<Longrightarrow> sec_bus (config_space mach) bus slot func = c"
  using assms machine_okD [OF assms(1)]
  by (auto simp: device_at_config is_bridge_def pci_entry_def bridge_to_def split: if_splits)

lemma machine_upward: "machine_ok mach \<Longrightarrow> upward (config_space mach)"
  by (auto simp: upward_def bus_funcs_config occupied_iff is_bridge_config dest: bridge_toD(1))

definition branch :: "(pci_addr \<Rightarrow> pci_header option) \<Rightarrow> u8 \<Rightarrow> nat \<times> nat \<Rightarrow> pci_addr list" where
  "branch mach bus = (\<lambda>(slot, func).
     (bus, slot, func) # (case bridge_to mach (bus, slot, func) of Some c \<Rightarrow> funcs_below mach c | None \<Rightarrow> []))"

lemma set_branch:
  "set (branch mach bus (slot, func)) =
     insert (bus, slot, func) (\<Union>c \<in> {c. bridge_to mach (bus, slot, func) = Some c}. set (funcs_below mach c))"
  by (auto simp: branch_def split: option.split)

lemma funcs_below_unfold:
  "machine_ok mach \<Longrightarrow> funcs_below mach bus = concat (map (branch mach bus) (occupied mach bus))"
  by (subst funcs_below.simps, intro arg_cong [where f = concat] map_cong refl)
     (auto simp: branch_def dest: bridge_toD(1) split: option.split)

lemma bus_tree_config:
  assumes "machine_ok mach"
  shows "bus_tree (config_space mach) bus = map (pci_entry mach) (funcs_below mach bus)"
proof (induction "255 - unat bus" arbitrary: bus rule: less_induct)
  case less
  have "below (config_space mach) bus (slot, func) = map (pci_entry mach) (branch mach bus (slot, func))"
    if "(slot, func) \<in> set (occupied mach bus)" for slot func
  proof -
    have m: "mach (bus, slot, func) \<noteq> None" using that assms by (simp add: occupied_iff)
    then obtain r where r: "mach (bus, slot, func) = Some r" by auto
    have d: "pci_device_at (config_space mach) bus (of_nat slot) (of_nat func) = pci_entry mach (bus, slot, func)"
      using machine_okD(1,2) [OF assms r] r by (rule device_at_config)
    show ?thesis
    proof (cases "bridge_to mach (bus, slot, func)")
      case None
      then show ?thesis using is_bridge_config(1) [OF assms m] by (simp add: below_def branch_def d Let_def)
    next
      case (Some c)
      have "bus_tree (config_space mach) c = map (pci_entry mach) (funcs_below mach c)"
        using bridge_toD(1) [OF assms Some] by (intro less buses_above)
      then show ?thesis using Some is_bridge_config [OF assms m] by (simp add: below_def branch_def d Let_def)
    qed
  qed
  then show ?case
    unfolding bus_tree_below [OF machine_upward [OF assms]] bus_funcs_config [OF assms] funcs_below_unfold [OF assms, of bus] map_concat map_map
    by (intro arg_cong [where f = concat] map_cong refl) (auto split: prod.split)
qed

text \<open>Every bus has one way to it, so that a function is listed once.\<close>

lemma under_ge: "under mach bus c \<Longrightarrow> machine_ok mach \<Longrightarrow> bus \<le> c"
  by (induction rule: under.induct) (auto dest: bridge_toD(1) intro: order_trans less_imp_le)

lemma under_step: "bridge_to mach (b, slot, func) = Some c \<Longrightarrow> under mach c d \<Longrightarrow> under mach b d"
  by (rotate_tac, induction rule: under.induct) (auto intro: under.intros)

lemma under_up:
  assumes "machine_ok mach" "under mach b c" "bridge_to mach (p, slot, func) = Some c" "b \<noteq> c"
  shows "under mach b p"
  using assms(2)
proof cases
  case (under_bridge c' s f)
  then show ?thesis using bridge_toD(5) [OF assms(1,3)] by auto
qed (use assms in simp)

lemma under_apart:
  assumes ok: "machine_ok mach" and b: "bridge_to mach (b, s1, f1) = Some c1" "bridge_to mach (b, s2, f2) = Some c2"
    and u: "under mach c1 d" "under mach c2 d"
  shows "c1 = c2"
  using u
proof (induction rule: under.induct)
  case under_here
  show ?case
  proof (rule ccontr)
    assume "c1 \<noteq> c2"
    then have "under mach c2 b" using under_up [OF ok under_here b(1)] by simp
    then have "c2 \<le> b" using under_ge [OF _ ok] by simp
    then show False using bridge_toD(1) [OF ok b(2)] by simp
  qed
next
  case (under_bridge c s f d)
  show ?case
  proof (cases "c2 = d")
    case True
    then have "(b, s2, f2) = (c, s, f)" using bridge_toD(5) [OF ok under_bridge.hyps(2)] b(2) by simp
    then have "c1 \<le> b" using under_ge [OF under_bridge.hyps(1) ok] by simp
    then show ?thesis using bridge_toD(1) [OF ok b(1)] by simp
  next
    case False
    then show ?thesis using under_up [OF ok under_bridge.prems under_bridge.hyps(2)] under_bridge.IH by simp
  qed
qed

lemma under_top: "under mach b d \<Longrightarrow> d = b \<or> (\<exists>slot func c. bridge_to mach (b, slot, func) = Some c \<and> under mach c d)"
  by (induction rule: under.induct) (simp, blast intro: under.intros)

lemma funcs_below_iff:
  assumes "machine_ok mach"
  shows "a \<in> set (funcs_below mach b) \<longleftrightarrow> mach a \<noteq> None \<and> under mach b (fst a)"
proof (induction "255 - unat b" arbitrary: b rule: less_induct)
  case less
  obtain bus slot func where a: "a = (bus, slot, func)" by (cases a)
  have IH: "a \<in> set (funcs_below mach c) \<longleftrightarrow> mach a \<noteq> None \<and> under mach c bus" if "bridge_to mach (b, s, f) = Some c" for s f c
    using bridge_toD(1) [OF assms that] less a by (simp add: buses_above)
  have "a \<in> set (funcs_below mach b) \<longleftrightarrow> (bus = b \<and> mach a \<noteq> None) \<or>
      (\<exists>s f c. bridge_to mach (b, s, f) = Some c \<and> a \<in> set (funcs_below mach c))"
    using occupied_iff [OF assms] bridge_toD(4) [OF assms]
    by (simp add: funcs_below_unfold [OF assms, of b] set_branch a Bex_def split_paired_Ex) blast
  also have "\<dots> \<longleftrightarrow> mach a \<noteq> None \<and> under mach b bus"
    using IH under_top [of mach b bus] under_step [of mach b _ _ _ bus] by (auto intro: under.intros)
  finally show ?case by (simp add: a)
qed

lemma distinct_concat_map:
  "distinct xs \<Longrightarrow> (\<And>x. x \<in> set xs \<Longrightarrow> distinct (g x)) \<Longrightarrow>
   (\<And>x y. x \<in> set xs \<Longrightarrow> y \<in> set xs \<Longrightarrow> x \<noteq> y \<Longrightarrow> set (g x) \<inter> set (g y) = {}) \<Longrightarrow> distinct (concat (map g xs))"
  by (induction xs) fastforce+

lemma funcs_below_distinct:
  assumes ok: "machine_ok mach"
  shows "distinct (funcs_below mach b)"
proof (induction "255 - unat b" arbitrary: b rule: less_induct)
  case less
  have above: "(b, s', f') \<notin> set (funcs_below mach c)" if "bridge_to mach (b, s, f) = Some c" for s f c s' f'
    using bridge_toD(1) [OF ok that(1)] under_ge [OF _ ok, of c b] by (auto simp: funcs_below_iff [OF ok])
  have apart: "set (funcs_below mach c) \<inter> set (funcs_below mach c') = {}"
    if "bridge_to mach (b, s, f) = Some c" "bridge_to mach (b, s', f') = Some c'" "(s, f) \<noteq> (s', f')" for s f c s' f' c'
  proof -
    have "c \<noteq> c'" using bridge_toD(5) [OF ok that(1), of "(b, s', f')"] that by auto
    then show ?thesis using under_apart [OF ok that(1,2)] by (auto simp: funcs_below_iff [OF ok])
  qed
  have d: "distinct (funcs_below mach c)" if "bridge_to mach (b, s, f) = Some c" for s f c
    using bridge_toD(1) [OF ok that] by (intro less buses_above)
  have "distinct (occupied mach b)" by (simp add: occupied_def distinct_product)
  then show ?case unfolding funcs_below_unfold [OF ok, of b]
  proof (rule distinct_concat_map, goal_cases)
    case (1 x)
    show ?case using d above by (cases x) (auto simp: branch_def split: option.split)
  next
    case (2 x y)
    obtain s f s' f' where xy: "x = (s, f)" "y = (s', f')" by (cases x, cases y)
    show ?case using 2(3) apart [of s f _ s' f'] above [of s f] above [of s' f']
      unfolding xy set_branch by auto
  qed
qed

text \<open>
  C33 (termination): on a machine as the PCI specification and the firmware promise it, the scan of a bus returns, and
  it has added to the table an entry with the contents of its configuration header for every function that is on the bus
  or behind its bridges, each of them once, in the order of slots and functions, a bridge in front of everything below
  it, up to the 64 entries of the table.
\<close>

theorem pci_scan_bus_finds:
  assumes "machine_ok mach" and "length ds \<le> 64"
  shows "pci_scan_bus (config_space mach) bus ds = Some (take 64 (ds @ map (pci_entry mach) (funcs_below mach bus)))
    \<and> distinct (funcs_below mach bus)
    \<and> set (funcs_below mach bus) = {a. mach a \<noteq> None \<and> under mach bus (fst a)}"
  using run_bus [OF machine_upward [OF assms(1)], of bus "[]" ds] fold_create [OF assms(2)]
    funcs_below_distinct [OF assms(1)] funcs_below_iff [OF assms(1)]
  by (auto simp: pci_scan_bus_def pci_run.simps [of _ "[]"] bus_tree_config [OF assms(1)])

text \<open>
  A host bridge, a device with two functions, and a bridge to bus 1 with one device behind it.
\<close>

fun small_machine :: "pci_addr \<Rightarrow> pci_header option" where
  "small_machine (bus, slot, func) =
     (if (bus, slot, func) = (0, 0, 0) then Some ((\<lambda>_. 0)(0 := 0x86, 1 := 0x80, 2 := 0x37, 3 := 0x12, 0x0B := 6))
      else if (bus, slot, func) = (0, 1, 0) then Some ((\<lambda>_. 0)(0 := 0x86, 1 := 0x80, 0x0E := 0x80, 0x0B := 6, 0x0A := 1))
      else if (bus, slot, func) = (0, 1, 1) then Some ((\<lambda>_. 0)(0 := 0x86, 1 := 0x80, 0x0B := 1, 0x0A := 1, 9 := 0x80))
      else if (bus, slot, func) = (0, 30, 0) then Some ((\<lambda>_. 0)(0 := 0x86, 1 := 0x80, 0x0B := 6, 0x0A := 4, 0x0E := 1, 0x19 := 1))
      else if (bus, slot, func) = (1, 3, 0)
      then Some ((\<lambda>_. 0)(0 := 0xEC, 1 := 0x10, 2 := 0x39, 3 := 0x81, 0x0B := 2, 0x11 := 0xC0, 0x10 := 1, 0x3C := 11, 0x3D := 1))
      else None)"

lemma small_machine_bridge: "bridge_to small_machine a = (if a = (0, 30, 0) then Some 1 else None)"
  by (cases a) (simp add: bridge_to_def)

lemma small_machine_ok: "machine_ok small_machine"
  unfolding machine_ok_def small_machine_bridge by (simp split: if_split) (auto split: if_splits)

lemma small_machine_places:
  "occupied small_machine 0 = [(0, 0), (1, 0), (1, 1), (30, 0)]" "occupied small_machine 1 = [(3, 0)]"
  by (simp_all add: occupied_def upt_rec)

lemma small_machine_below: "funcs_below small_machine 0 = [(0, 0, 0), (0, 1, 0), (0, 1, 1), (0, 30, 0), (1, 3, 0)]"
  by (simp add: funcs_below_unfold [OF small_machine_ok] small_machine_places branch_def small_machine_bridge)

theorem pci_scan_bus_finds_witness:
  "\<exists>ds. pci_scan_bus (config_space small_machine) 0 [] = Some ds
    \<and> map (\<lambda>d. (pd_bus d, pd_slot d, pd_func d)) ds = [(0, 0, 0), (0, 1, 0), (0, 1, 1), (0, 30, 0), (1, 3, 0)]
    \<and> ds ! 4 = \<lparr>pd_driver = None, pd_bus = 1, pd_slot = 3, pd_func = 0, pd_vendor = 0x10EC, pd_device_id = 0x8139,
        pd_class = 2, pd_subclass = 0, pd_prog_if = 0, pd_bar = [0xC001, 0, 0, 0, 0, 0], pd_irq = 1\<rparr>"
  using pci_scan_bus_finds [OF small_machine_ok, of "[]" 0]
  by (simp add: small_machine_below pci_entry_def le_word_def)

section \<open>A scan without end\<close>

text \<open>
  A bridge that leads to its own bus, as one that the firmware has not set up does on bus 0, makes the scan recurse
  without end.
\<close>

definition loop_at :: "(u32 \<Rightarrow> u32) \<Rightarrow> u8 \<Rightarrow> nat \<Rightarrow> bool" where
  "loop_at conf bus slot \<longleftrightarrow> slot < 32 \<and> pci_read_vendor conf bus (of_nat slot) 0 \<noteq> 0xFFFF \<and>
     is_bridge (pci_device_at conf bus (of_nat slot) 0) \<and> sec_bus conf bus slot 0 = bus"

lemma pci_run_loops:
  assumes "pci_run conf ws ds = Some r"
  shows "loop_at conf bus slot \<longrightarrow> Slot bus slot \<notin> set ws \<and> Func bus slot 0 \<notin> set ws"
  using assms
proof (induction rule: pci_run.raw_induct [rotated 1, consumes 1])
  case (1 run conf ws ds r)
  show ?case
  proof (cases ws)
    case (Cons w ws')
    show ?thesis
    proof (cases w)
      case (Slot b s)
      with 1(1,2) Cons show ?thesis by (force simp: loop_at_def slot_work_def)
    next
      case (Func b s f)
      with 1(1,2) Cons show ?thesis
        by (fastforce simp: loop_at_def func_work_def func_present_def bus_work_def sec_bus_def split: if_splits)
    qed
  qed simp
qed

lemma pci_scan_bus_never_returns: "loop_at conf bus slot \<Longrightarrow> pci_scan_bus conf bus ds = None"
  using pci_run_loops [of conf "bus_work bus" ds _ bus slot]
  by (cases "pci_scan_bus conf bus ds") (auto simp: pci_scan_bus_def bus_work_def loop_at_def)

end
