(* ===== verification/Ata.thy ===== *)
theory Ata
  imports Block Pmm Pci
begin

text \<open>
  The IDE disk driver, \<^verbatim>\<open>kernel/drivers/ata/ata.c\<close> and \<^verbatim>\<open>ata.h\<close>.  The ports and the time-stamp counter are a record
  \<open>hw\<close> of functions on a hardware state \<open>'h\<close>.  A buffer is a list of 16-bit words.  Delay loops and messages
  are left out.  \<open>None\<close> is a wait that does not end because the counter stands still.
\<close>

section \<open>Hardware\<close>

record 'h hw =
  hw_inb :: "u16 \<Rightarrow> 'h \<Rightarrow> u8 \<times> 'h"
  hw_outb :: "u16 \<Rightarrow> u8 \<Rightarrow> 'h \<Rightarrow> 'h"
  hw_inw :: "u16 \<Rightarrow> 'h \<Rightarrow> u16 \<times> 'h"
  hw_outw :: "u16 \<Rightarrow> u16 \<Rightarrow> 'h \<Rightarrow> 'h"
  hw_outl :: "u16 \<Rightarrow> u32 \<Rightarrow> 'h \<Rightarrow> 'h"
  hw_rdtsc :: "'h \<Rightarrow> u64 \<times> 'h"

definition TIMEOUT_TSC :: u64 where "TIMEOUT_TSC = 500000000"
definition MAX_DEVICES :: nat where "MAX_DEVICES = 4"

definition ATA_PRIMARY_BUS :: u16 where "ATA_PRIMARY_BUS = 0x1F0"
definition ATA_SECONDARY_BUS :: u16 where "ATA_SECONDARY_BUS = 0x170"
definition ATA_CONTROL_PRIMARY :: u16 where "ATA_CONTROL_PRIMARY = 0x3F6"
definition ATA_CONTROL_SECONDARY :: u16 where "ATA_CONTROL_SECONDARY = 0x376"

datatype ata_bus = ATA_BUS_PRIMARY | ATA_BUS_SECONDARY
datatype ata_drive = ATA_MASTER | ATA_SLAVE
datatype ata_drive_type = ATA_NONE | ATA_PATA | ATA_PATAPI | ATA_SATA | ATA_SATAPI | ATA_UNKNOWN

record ata_device =
  ad_bus :: ata_bus
  ad_drive :: ata_drive
  ad_type :: ata_drive_type
  ad_present :: bool
  ad_lba48 :: bool
  ad_sectors :: u64
  ad_ident :: "u16 list"
  ad_model :: bytes
  ad_bmdma_avail :: bool
  ad_bmdma_base :: u16
  ad_prdt_phys :: u64
  ad_prdt_entries :: int

definition reg_data :: "u16 \<Rightarrow> u16" where "reg_data bus = bus"
definition reg_sector_count :: "u16 \<Rightarrow> u16" where "reg_sector_count bus = bus + 2"
definition reg_lba_lo :: "u16 \<Rightarrow> u16" where "reg_lba_lo bus = bus + 3"
definition reg_lba_mid :: "u16 \<Rightarrow> u16" where "reg_lba_mid bus = bus + 4"
definition reg_lba_hi :: "u16 \<Rightarrow> u16" where "reg_lba_hi bus = bus + 5"
definition reg_drive :: "u16 \<Rightarrow> u16" where "reg_drive bus = bus + 6"
definition reg_status :: "u16 \<Rightarrow> u16" where "reg_status bus = bus + 7"
definition reg_cmd :: "u16 \<Rightarrow> u16" where "reg_cmd bus = bus + 7"

definition STATUS_BSY :: u8 where "STATUS_BSY = 0x80"
definition STATUS_DRQ :: u8 where "STATUS_DRQ = 0x08"
definition STATUS_ERR :: u8 where "STATUS_ERR = 0x01"

definition CMD_READ_PIO :: u8 where "CMD_READ_PIO = 0x20"
definition CMD_READ_PIO_EXT :: u8 where "CMD_READ_PIO_EXT = 0x24"
definition CMD_WRITE_PIO :: u8 where "CMD_WRITE_PIO = 0x30"
definition CMD_WRITE_PIO_EXT :: u8 where "CMD_WRITE_PIO_EXT = 0x34"
definition CMD_IDENTIFY :: u8 where "CMD_IDENTIFY = 0xEC"
definition CMD_IDENTIFY_PACKET :: u8 where "CMD_IDENTIFY_PACKET = 0xA1"
definition CMD_FLUSH_CACHE :: u8 where "CMD_FLUSH_CACHE = 0xE7"
definition CMD_FLUSH_CACHE_EXT :: u8 where "CMD_FLUSH_CACHE_EXT = 0xEA"

lemmas ata_cmds = CMD_READ_PIO_def CMD_READ_PIO_EXT_def CMD_WRITE_PIO_def CMD_WRITE_PIO_EXT_def CMD_FLUSH_CACHE_def
  CMD_FLUSH_CACHE_EXT_def
lemmas ata_regs = reg_data_def reg_sector_count_def reg_lba_lo_def reg_lba_mid_def reg_lba_hi_def reg_drive_def reg_status_def
  reg_cmd_def

text \<open>The base port and the control port of a device.\<close>

definition dev_base :: "ata_bus \<Rightarrow> u16" where
  "dev_base b = (if b = ATA_BUS_PRIMARY then ATA_PRIMARY_BUS else ATA_SECONDARY_BUS)"

definition dev_control :: "ata_bus \<Rightarrow> u16" where
  "dev_control b = (if b = ATA_BUS_PRIMARY then ATA_CONTROL_PRIMARY else ATA_CONTROL_SECONDARY)"

section \<open>Waiting\<close>

partial_function (option) poll_loop :: "'h hw \<Rightarrow> u16 \<Rightarrow> u8 \<Rightarrow> u8 \<Rightarrow> u64 \<Rightarrow> 'h \<Rightarrow> (int \<times> 'h) option" where
  "poll_loop H bus msk val deadline h =
     (case hw_rdtsc H h of (t, h) \<Rightarrow>
        if t < deadline
        then (case hw_inb H (reg_status bus) h of (s, h) \<Rightarrow>
                if s AND msk = val then Some (0, h)
                else if s AND STATUS_ERR \<noteq> 0 then Some (- 1, h)
                else poll_loop H bus msk val deadline h)
        else Some (- 1, h))"

definition poll_status :: "'h hw \<Rightarrow> u16 \<Rightarrow> u8 \<Rightarrow> u8 \<Rightarrow> 'h \<Rightarrow> (int \<times> 'h) option" where
  "poll_status H bus msk val h = (case hw_rdtsc H h of (t, h) \<Rightarrow> poll_loop H bus msk val (t + TIMEOUT_TSC) h)"

definition poll_bsy :: "'h hw \<Rightarrow> u16 \<Rightarrow> 'h \<Rightarrow> (int \<times> 'h) option" where
  "poll_bsy H bus h = poll_status H bus STATUS_BSY 0 h"

definition poll_drq :: "'h hw \<Rightarrow> u16 \<Rightarrow> 'h \<Rightarrow> (int \<times> 'h) option" where
  "poll_drq H bus h = poll_status H bus (STATUS_BSY OR STATUS_DRQ) STATUS_DRQ h"

definition ata_io_wait :: "'h hw \<Rightarrow> u16 \<Rightarrow> 'h \<Rightarrow> 'h" where
  "ata_io_wait H bus h = ((\<lambda>h. snd (hw_inb H (reg_status bus) h)) ^^ 4) h"

definition ata_wait :: "'h hw \<Rightarrow> u16 \<Rightarrow> 'h \<Rightarrow> (int \<times> 'h) option" where
  "ata_wait H bus h = poll_bsy H bus (ata_io_wait H bus h)"

definition ata_sel_device :: "'h hw \<Rightarrow> ata_device \<Rightarrow> 'h \<Rightarrow> (int \<times> 'h) option" where
  "ata_sel_device H dev h =
     (let bus = dev_base (ad_bus dev)
      in ata_wait H bus (hw_outb H (reg_drive bus) (if ad_drive dev = ATA_MASTER then 0xA0 else 0xB0) h))"

section \<open>Transfers\<close>

text \<open>A sequence of stores to registers.\<close>

definition out_all :: "'h hw \<Rightarrow> (u16 \<times> u8) list \<Rightarrow> 'h \<Rightarrow> 'h" where
  "out_all H ps h = fold (\<lambda>(p, v). hw_outb H p v) ps h"

definition slave_bit :: "ata_device \<Rightarrow> u8" where
  "slave_bit dev = (if ad_drive dev = ATA_SLAVE then 0x10 else 0)"

text \<open>The registers of a command with a 28-bit and with a 48-bit sector number.\<close>

definition regs_28 :: "ata_device \<Rightarrow> u64 \<Rightarrow> u16 \<Rightarrow> (u16 \<times> u8) list" where
  "regs_28 dev lba cnt =
     (let bus = dev_base (ad_bus dev) in
      [(reg_drive bus, 0xE0 OR slave_bit dev OR (ucast (drop_bit 24 lba) AND 0x0F)), (reg_sector_count bus, ucast cnt),
       (reg_lba_lo bus, ucast lba), (reg_lba_mid bus, ucast (drop_bit 8 lba)), (reg_lba_hi bus, ucast (drop_bit 16 lba))])"

definition regs_48 :: "ata_device \<Rightarrow> u64 \<Rightarrow> u16 \<Rightarrow> (u16 \<times> u8) list" where
  "regs_48 dev lba cnt =
     (let bus = dev_base (ad_bus dev) in
      [(reg_sector_count bus, ucast (drop_bit 8 cnt)), (reg_lba_lo bus, ucast (drop_bit 24 lba)),
       (reg_lba_mid bus, ucast (drop_bit 32 lba)), (reg_lba_hi bus, ucast (drop_bit 40 lba)),
       (reg_sector_count bus, ucast cnt), (reg_lba_lo bus, ucast lba),
       (reg_lba_mid bus, ucast (drop_bit 8 lba)), (reg_lba_hi bus, ucast (drop_bit 16 lba)),
       (reg_drive bus, 0x40 OR slave_bit dev)])"

fun in_words :: "'h hw \<Rightarrow> u16 \<Rightarrow> nat \<Rightarrow> 'h \<Rightarrow> u16 list \<times> 'h" where
  "in_words H port 0 h = ([], h)"
| "in_words H port (Suc n) h =
     (case hw_inw H port h of (w, h) \<Rightarrow> case in_words H port n h of (ws, h) \<Rightarrow> (w # ws, h))"

definition out_words :: "'h hw \<Rightarrow> u16 \<Rightarrow> u16 list \<Rightarrow> 'h \<Rightarrow> 'h" where
  "out_words H port ws h = fold (hw_outw H port) ws h"

text \<open>The loop over \<open>k\<close> more sectors behind the words read; the results are the status and the words.\<close>

fun read_loop :: "'h hw \<Rightarrow> u16 \<Rightarrow> nat \<Rightarrow> u16 list \<Rightarrow> 'h \<Rightarrow> (int \<times> u16 list \<times> 'h) option" where
  "read_loop H bus 0 acc h = Some (0, acc, h)"
| "read_loop H bus (Suc k) acc h =
     do { (r, h) \<leftarrow> poll_drq H bus h;
          if r \<noteq> 0 then Some (- 1, acc, h)
          else case in_words H (reg_data bus) 256 (ata_io_wait H bus h) of (ws, h) \<Rightarrow>
            do { (r, h) \<leftarrow> poll_bsy H bus h;
                 if r \<noteq> 0 \<and> 0 < k then Some (- 1, acc @ ws, h) else read_loop H bus k (acc @ ws) h } }"

definition read_pio :: "'h hw \<Rightarrow> ata_device \<Rightarrow> (u16 \<times> u8) list \<Rightarrow> u8 \<Rightarrow> u8 \<Rightarrow> 'h \<Rightarrow> (int \<times> u16 list \<times> 'h) option" where
  "read_pio H dev regs cmd cnt h =
     (if cnt = 0 then Some (- 1, [], h)
      else let bus = dev_base (ad_bus dev) in
        do { (r, h) \<leftarrow> poll_bsy H bus h;
             if r \<noteq> 0 then Some (- 1, [], h)
             else read_loop H bus (unat cnt) [] (ata_io_wait H bus (hw_outb H (reg_cmd bus) cmd (out_all H regs h))) })"

definition ata_read_pio_28 :: "'h hw \<Rightarrow> ata_device \<Rightarrow> u64 \<Rightarrow> u8 \<Rightarrow> 'h \<Rightarrow> (int \<times> u16 list \<times> 'h) option" where
  "ata_read_pio_28 H dev lba cnt h = read_pio H dev (regs_28 dev lba (ucast cnt)) CMD_READ_PIO cnt h"

definition ata_read_pio_48 :: "'h hw \<Rightarrow> ata_device \<Rightarrow> u64 \<Rightarrow> u8 \<Rightarrow> 'h \<Rightarrow> (int \<times> u16 list \<times> 'h) option" where
  "ata_read_pio_48 H dev lba cnt h = read_pio H dev (regs_48 dev lba (ucast cnt)) CMD_READ_PIO_EXT cnt h"

fun write_loop :: "'h hw \<Rightarrow> u16 \<Rightarrow> nat \<Rightarrow> u16 list \<Rightarrow> 'h \<Rightarrow> (int \<times> 'h) option" where
  "write_loop H bus 0 buf h = Some (0, h)"
| "write_loop H bus (Suc k) buf h =
     do { (r, h) \<leftarrow> poll_drq H bus h;
          if r \<noteq> 0 then Some (- 1, h)
          else do { (r, h) \<leftarrow> poll_bsy H bus (out_words H (reg_data bus) (take 256 buf) h);
                    if r \<noteq> 0 \<and> 0 < k then Some (- 1, h) else write_loop H bus k (drop 256 buf) h } }"

definition write_pio :: "'h hw \<Rightarrow> ata_device \<Rightarrow> (u16 \<times> u8) list \<Rightarrow> u8 \<Rightarrow> u8 \<Rightarrow> u16 list \<Rightarrow> 'h \<Rightarrow> (int \<times> 'h) option" where
  "write_pio H dev regs cmd cnt buf h =
     (if cnt = 0 then Some (- 1, h)
      else let bus = dev_base (ad_bus dev) in
        do { (r, h) \<leftarrow> poll_bsy H bus h;
             if r \<noteq> 0 then Some (- 1, h)
             else write_loop H bus (unat cnt) buf (ata_io_wait H bus (hw_outb H (reg_cmd bus) cmd (out_all H regs h))) })"

definition ata_write_pio_28 :: "'h hw \<Rightarrow> ata_device \<Rightarrow> u64 \<Rightarrow> u8 \<Rightarrow> u16 list \<Rightarrow> 'h \<Rightarrow> (int \<times> 'h) option" where
  "ata_write_pio_28 H dev lba cnt buf h = write_pio H dev (regs_28 dev lba (ucast cnt)) CMD_WRITE_PIO cnt buf h"

definition ata_write_pio_48 :: "'h hw \<Rightarrow> ata_device \<Rightarrow> u64 \<Rightarrow> u8 \<Rightarrow> u16 list \<Rightarrow> 'h \<Rightarrow> (int \<times> 'h) option" where
  "ata_write_pio_48 H dev lba cnt buf h = write_pio H dev (regs_48 dev lba (ucast cnt)) CMD_WRITE_PIO_EXT cnt buf h"

definition ata_flush :: "'h hw \<Rightarrow> ata_device \<Rightarrow> 'h \<Rightarrow> (int \<times> 'h) option" where
  "ata_flush H dev h =
     (let bus = dev_base (ad_bus dev) in
      do { (r, h) \<leftarrow> poll_bsy H bus h;
           if r \<noteq> 0 then Some (- 1, h)
           else poll_bsy H bus (hw_outb H (reg_cmd bus) (if ad_lba48 dev then CMD_FLUSH_CACHE_EXT else CMD_FLUSH_CACHE) h) })"

definition ata_soft_reset :: "'h hw \<Rightarrow> ata_device \<Rightarrow> 'h \<Rightarrow> int \<times> 'h" where
  "ata_soft_reset H dev h =
     (let control = dev_control (ad_bus dev) in (0, hw_outb H control 0x02 (hw_outb H control 0x06 h)))"

text \<open>A device and a buffer may be missing.\<close>

definition ata_read_sectors :: "'h hw \<Rightarrow> ata_device option \<Rightarrow> u64 \<Rightarrow> u16 \<Rightarrow> bool \<Rightarrow> 'h \<Rightarrow> (int \<times> u16 list \<times> 'h) option" where
  "ata_read_sectors H dv lba cnt buf h =
     (case dv of
        None \<Rightarrow> Some (- 1, [], h)
      | Some dev \<Rightarrow>
          if \<not> ad_present dev \<or> cnt = 0 \<or> \<not> buf then Some (- 1, [], h)
          else let cnt8 = ucast (if 255 < cnt then 255 else cnt) in
            if ad_lba48 dev \<or> 0x0FFFFFFF < lba then ata_read_pio_48 H dev lba cnt8 h
            else ata_read_pio_28 H dev lba cnt8 h)"

definition ata_write_sectors ::
  "'h hw \<Rightarrow> ata_device option \<Rightarrow> u64 \<Rightarrow> u16 \<Rightarrow> u16 list option \<Rightarrow> 'h \<Rightarrow> (int \<times> 'h) option" where
  "ata_write_sectors H dv lba cnt buf h =
     (case (dv, buf) of
        (Some dev, Some ws) \<Rightarrow>
          if \<not> ad_present dev \<or> cnt = 0 then Some (- 1, h)
          else let cnt8 = ucast (if 255 < cnt then 255 else cnt) in
            do { (r, h) \<leftarrow> (if ad_lba48 dev \<or> 0x0FFFFFFF < lba then ata_write_pio_48 H dev lba cnt8 ws h
                             else ata_write_pio_28 H dev lba cnt8 ws h);
                 if r = 0 then do { (_, h) \<leftarrow> ata_flush H dev h; Some (r, h) } else Some (r, h) }
      | _ \<Rightarrow> Some (- 1, h))"

definition ata_block_read :: "'h hw \<Rightarrow> ata_device \<Rightarrow> u64 \<Rightarrow> u8 \<Rightarrow> 'h \<Rightarrow> (int \<times> u16 list \<times> 'h) option" where
  "ata_block_read H dev sector cnt h = ata_read_sectors H (Some dev) sector (ucast cnt) True h"

definition ata_block_write :: "'h hw \<Rightarrow> ata_device \<Rightarrow> u64 \<Rightarrow> u8 \<Rightarrow> u16 list \<Rightarrow> 'h \<Rightarrow> (int \<times> 'h) option" where
  "ata_block_write H dev sector cnt buf h = ata_write_sectors H (Some dev) sector (ucast cnt) (Some buf) h"

section \<open>Detection\<close>

text \<open>Two words of the identification as a 32-bit number, four as a 64-bit number.\<close>

definition id32 :: "u16 list \<Rightarrow> nat \<Rightarrow> u32" where
  "id32 ws i = ucast (ws ! i) OR push_bit 16 (ucast (ws ! (i + 1)))"

definition id64 :: "u16 list \<Rightarrow> nat \<Rightarrow> u64" where
  "id64 ws i = ucast (id32 ws i) OR push_bit 32 (ucast (id32 ws (i + 2)))"

text \<open>The model name: bytes of each word swapped, blanks at the end replaced by NUL.\<close>

definition id_model :: "u16 list \<Rightarrow> bytes" where
  "id_model ws =
     (let name = concat (map (\<lambda>i. [ucast (drop_bit 8 (ws ! (27 + i))), ucast (ws ! (27 + i))]) [0..<20]);
          n = length (dropWhile (\<lambda>c. c = 0x20) (rev name))
      in take n name @ replicate (40 - n) 0 @ [0])"

definition fill_ident :: "u16 list \<Rightarrow> ata_device \<Rightarrow> ata_device" where
  "fill_ident ws dev =
     (let dev = dev\<lparr>ad_ident := ws\<rparr>;
          dev = (if ws ! 0 AND 0x8000 \<noteq> 0 then dev\<lparr>ad_type := ATA_PATAPI, ad_lba48 := False, ad_sectors := 0\<rparr>
                 else let l = ws ! 83 AND 0x0400 \<noteq> 0
                      in dev\<lparr>ad_type := ATA_PATA, ad_lba48 := l, ad_sectors := (if l then id64 ws 100 else ucast (id32 ws 60))\<rparr>)
      in dev\<lparr>ad_model := id_model ws\<rparr>)"

definition identify_packet :: "'h hw \<Rightarrow> u16 \<Rightarrow> ata_device \<Rightarrow> 'h \<Rightarrow> (int \<times> ata_device \<times> 'h) option" where
  "identify_packet H bus dev h =
     do { (r, h) \<leftarrow> poll_drq H bus (ata_io_wait H bus (hw_outb H (reg_cmd bus) CMD_IDENTIFY_PACKET h));
          if r \<noteq> 0 then Some (- 1, dev, h)
          else case in_words H (reg_data bus) 256 h of (ws, h) \<Rightarrow>
            case hw_inb H (reg_lba_mid bus) h of (mid, h) \<Rightarrow>
              if mid \<noteq> 0x14 then Some (0, dev\<lparr>ad_ident := ws, ad_type := ATA_SATAPI\<rparr>, h)
              else case hw_inb H (reg_lba_hi bus) h of (hi, h) \<Rightarrow>
                Some (0, dev\<lparr>ad_ident := ws, ad_type := (if hi = 0xEB then ATA_PATAPI else ATA_SATAPI)\<rparr>, h) }"

definition identify_ata :: "'h hw \<Rightarrow> u16 \<Rightarrow> ata_device \<Rightarrow> 'h \<Rightarrow> (int \<times> ata_device \<times> 'h) option" where
  "identify_ata H bus dev h =
     do { (r, h) \<leftarrow> poll_drq H bus h;
          if r \<noteq> 0 then Some (- 1, dev, h)
          else case in_words H (reg_data bus) 256 h of (ws, h) \<Rightarrow> Some (0, fill_ident ws dev, h) }"

definition ata_identify :: "'h hw \<Rightarrow> ata_device \<Rightarrow> 'h \<Rightarrow> (int \<times> ata_device \<times> 'h) option" where
  "ata_identify H dev h =
     (let bus = dev_base (ad_bus dev) in
      do { (r, h) \<leftarrow> ata_sel_device H dev h;
           if r \<noteq> 0 then Some (- 1, dev, h)
           else let h = out_all H [(reg_sector_count bus, 0), (reg_lba_lo bus, 0), (reg_lba_mid bus, 0), (reg_lba_hi bus, 0),
                                   (reg_cmd bus, CMD_IDENTIFY)] h;
                    h = ata_io_wait H bus h
                in case hw_inb H (reg_status bus) h of (st, h) \<Rightarrow>
                  if st = 0 then Some (- 1, dev, h)
                  else do {
                    (r, h) \<leftarrow> poll_bsy H bus h;
                    if r \<noteq> 0 then Some (- 1, dev, h)
                    else case hw_inb H (reg_lba_mid bus) h of (mid, h) \<Rightarrow>
                      if mid \<noteq> 0 then identify_packet H bus dev h
                      else case hw_inb H (reg_lba_hi bus) h of (hi, h) \<Rightarrow>
                        if hi \<noteq> 0 then identify_packet H bus dev h else identify_ata H bus dev h } })"

definition ata_detect :: "'h hw \<Rightarrow> ata_bus \<Rightarrow> ata_drive \<Rightarrow> ata_device \<Rightarrow> 'h \<Rightarrow> (int \<times> ata_device \<times> 'h) option" where
  "ata_detect H bus drv dev h =
     (let base = dev_base bus;
          dev = dev\<lparr>ad_bus := bus, ad_drive := drv, ad_present := False, ad_type := ATA_NONE, ad_lba48 := False, ad_sectors := 0\<rparr>;
          found = dev\<lparr>ad_present := True\<rparr>;
          h = hw_outb H (reg_drive base) (if drv = ATA_MASTER then 0xA0 else 0xB0) (hw_outb H (dev_control bus) 0x02 h)
      in case hw_inb H (reg_status base) h of (st, h) \<Rightarrow>
        if st = 0xFF then Some (- 1, dev, h)
        else case hw_inb H (reg_status base) (ata_io_wait H base (hw_outb H (reg_cmd base) CMD_IDENTIFY h)) of (st, h) \<Rightarrow>
          if st = 0 then Some (- 1, dev, h)
          else case hw_inb H (reg_lba_mid base) h of (lba_mid, h) \<Rightarrow>
            case hw_inb H (reg_lba_hi base) h of (lba_hi, h) \<Rightarrow>
              if lba_mid \<noteq> 0 \<or> lba_hi \<noteq> 0 then Some (0, found, h)
              else do { (r, h) \<leftarrow> poll_bsy H base h;
                        if r \<noteq> 0 then Some (- 1, dev, h)
                        else do { (r, h) \<leftarrow> poll_drq H base h;
                                  if r \<noteq> 0 then Some (- 1, dev, h) else Some (0, found, h) } })"

section \<open>Bus-master transfers\<close>

definition BMDMA_STAT_ACTIVE :: u8 where "BMDMA_STAT_ACTIVE = 1"
definition BMDMA_STAT_ERROR :: u8 where "BMDMA_STAT_ERROR = 2"

definition CMD_READ_DMA :: u8 where "CMD_READ_DMA = 0xC8"
definition CMD_READ_DMA_EXT :: u8 where "CMD_READ_DMA_EXT = 0x25"
definition CMD_WRITE_DMA :: u8 where "CMD_WRITE_DMA = 0xCA"
definition CMD_WRITE_DMA_EXT :: u8 where "CMD_WRITE_DMA_EXT = 0x35"

record prd_entry =
  prd_buf :: u32
  prd_count :: u16
  prd_flags :: u16

text \<open>An entry as the eight bytes of the table.\<close>

definition prd_word :: "prd_entry \<Rightarrow> u64" where
  "prd_word e = ucast (prd_buf e) OR push_bit 32 (ucast (prd_count e)) OR push_bit 48 (ucast (prd_flags e))"

text \<open>The controller found on the PCI bus, the physical memory and the device.\<close>

definition ata_bmdma_probe ::
  "pci_state \<Rightarrow> pci_device option \<Rightarrow> ata_device \<Rightarrow> phys \<Rightarrow> (int \<times> pci_device option \<times> ata_device \<times> phys) option" where
  "ata_bmdma_probe P ctrl dev ph =
     (case (case ctrl of Some c \<Rightarrow> Some c | None \<Rightarrow> pci_find_device_by_class 0x01 0x01 P) of
        None \<Rightarrow> Some (- 1, None, dev, ph)
      | Some c \<Rightarrow>
          let bm_base = ucast (pd_bar c ! 4 AND 0xFFFC) :: u16 in
          if bm_base = 0 \<or> pd_prog_if c AND 0x80 = 0 then Some (- 1, Some c, dev, ph)
          else do {
            (prdt, ph) \<leftarrow> pmm_alloc_below 0x100000000 ph;
            if prdt = 0 then Some (- 1, Some c, dev, ph)
            else Some (0, Some c,
              dev\<lparr>ad_bmdma_avail := True, ad_bmdma_base := bm_base + (if ad_bus dev = ATA_BUS_SECONDARY then 8 else 0),
                  ad_prdt_phys := prdt, ad_prdt_entries := 0\<rparr>,
              ph\<lparr>pmem := fold (\<lambda>i m. m(prdt + of_nat (8 * i) := 0)) [0..<64] (pmem ph)\<rparr>) })"

definition ata_bmdma_start :: "'h hw \<Rightarrow> ata_device \<Rightarrow> bool \<Rightarrow> prd_entry list \<Rightarrow> 'h \<Rightarrow> mem64 \<Rightarrow> int \<times> 'h \<times> mem64" where
  "ata_bmdma_start H dev wr prdt h m =
     (let base = ad_bmdma_base dev;
          h = hw_outl H (base + 4) (ucast (ad_prdt_phys dev)) (hw_outb H (base + 2) 0xFF (hw_outb H base 0 h));
          tab = (if prdt = [] then [] else butlast prdt @ [(last prdt)\<lparr>prd_flags := prd_flags (last prdt) OR 0x8000\<rparr>]);
          m = fold (\<lambda>i m. m(ad_prdt_phys dev + of_nat (8 * i) := prd_word (tab ! i))) [0..<length tab] m
      in (0, hw_outb H base (if wr then 9 else 1) h, m))"

partial_function (option) bmdma_loop :: "'h hw \<Rightarrow> u16 \<Rightarrow> u64 \<Rightarrow> 'h \<Rightarrow> (int \<times> 'h) option" where
  "bmdma_loop H base deadline h =
     (case hw_rdtsc H h of (t, h) \<Rightarrow>
        if t < deadline
        then (case hw_inb H (base + 2) h of (stat, h) \<Rightarrow>
                if stat AND BMDMA_STAT_ACTIVE = 0 then Some (if stat AND BMDMA_STAT_ERROR \<noteq> 0 then - 1 else 0, h)
                else bmdma_loop H base deadline h)
        else Some (- 1, hw_outb H base 0 h))"

definition ata_bmdma_poll :: "'h hw \<Rightarrow> ata_device \<Rightarrow> u64 \<Rightarrow> 'h \<Rightarrow> (int \<times> 'h) option" where
  "ata_bmdma_poll H dev timeout_us h =
     (case hw_rdtsc H h of (t, h) \<Rightarrow> bmdma_loop H (ad_bmdma_base dev) (t + timeout_us * 2000) h)"

text \<open>The loop with room for \<open>k\<close> more entries.\<close>

fun prdt_loop :: "nat \<Rightarrow> u64 \<Rightarrow> u64 \<Rightarrow> prd_entry list" where
  "prdt_loop 0 ph tot = []"
| "prdt_loop (Suc k) ph tot =
     (if 0 < tot
      then let chunk = (if 65536 \<le> tot then 65536 else ucast (tot AND 0xFFFE)) :: u32;
               chunk = (if chunk = 0 then 65536 else chunk)
           in \<lparr>prd_buf = ucast ph, prd_count = ucast chunk, prd_flags = 0\<rparr> # prdt_loop k (ph + ucast chunk) (tot - ucast chunk)
      else [])"

definition ata_bmdma_setup_prdt :: "u64 \<Rightarrow> u64 \<Rightarrow> nat \<Rightarrow> prd_entry list option" where
  "ata_bmdma_setup_prdt buf tot max_entries =
     (if 0x100000000 < buf + tot then None else Some (prdt_loop max_entries buf tot))"

text \<open>A DMA command, for reading and writing.\<close>

definition ata_dma :: "'h hw \<Rightarrow> bool \<Rightarrow> ata_device \<Rightarrow> u64 \<Rightarrow> u16 \<Rightarrow> u64 \<Rightarrow> 'h \<Rightarrow> mem64 \<Rightarrow> (int \<times> 'h \<times> mem64) option" where
  "ata_dma H wr dev lba cnt buf h m =
     (if cnt = 0 \<or> buf = 0 \<or> \<not> ad_bmdma_avail dev then Some (- 1, h, m)
      else case ata_bmdma_setup_prdt buf (ucast cnt * 512) 256 of
        None \<Rightarrow> Some (- 1, h, m)
      | Some prdt \<Rightarrow>
          if prdt = [] then Some (- 1, h, m)
          else let bus = dev_base (ad_bus dev) in
            do { (r, h) \<leftarrow> poll_bsy H bus h;
                 if r \<noteq> 0 then Some (- 1, h, m)
                 else let h = out_all H (if ad_lba48 dev then regs_48 dev lba cnt else regs_28 dev lba cnt) h
                      in case ata_bmdma_start H dev wr prdt (ata_io_wait H bus h) m of (_, h, m) \<Rightarrow>
                        do { (r, h) \<leftarrow> ata_bmdma_poll H dev 5000000 (ata_io_wait H bus (hw_outb H (reg_cmd bus)
                               (if wr then (if ad_lba48 dev then CMD_WRITE_DMA_EXT else CMD_WRITE_DMA)
                                else (if ad_lba48 dev then CMD_READ_DMA_EXT else CMD_READ_DMA)) h));
                             Some (r, h, m) } })"

definition ata_read_dma :: "'h hw \<Rightarrow> ata_device \<Rightarrow> u64 \<Rightarrow> u16 \<Rightarrow> u64 \<Rightarrow> 'h \<Rightarrow> mem64 \<Rightarrow> (int \<times> 'h \<times> mem64) option" where
  "ata_read_dma H dev lba cnt buf h m = ata_dma H False dev lba cnt buf h m"

definition ata_write_dma :: "'h hw \<Rightarrow> ata_device \<Rightarrow> u64 \<Rightarrow> u16 \<Rightarrow> u64 \<Rightarrow> 'h \<Rightarrow> mem64 \<Rightarrow> (int \<times> 'h \<times> mem64) option" where
  "ata_write_dma H dev lba cnt buf h m =
     do { (r, h, m) \<leftarrow> ata_dma H True dev lba cnt buf h m;
          if r = 0 then do { (_, h) \<leftarrow> ata_flush H dev h; Some (r, h, m) } else Some (r, h, m) }"

section \<open>Initialisation\<close>

record 'h ata_sys =
  as_hw :: 'h
  as_devs :: "ata_device list"
  as_count :: int
  as_ctrl :: "pci_device option"
  as_phys :: phys
  as_blk :: blkst
  as_sd :: nat
  as_cdrom :: nat
  as_nvme :: nat

text \<open>
  The name prefix and the counter of a type; the counters stay below 4, so that a number is one digit.
\<close>

definition ata_register :: "nat \<Rightarrow> 'h ata_sys \<Rightarrow> 'h ata_sys" where
  "ata_register idx s =
     (let dev = as_devs s ! idx;
          add = (\<lambda>name n s.
            let bdev = \<lparr>bd_name = name @ [char_of (48 + n :: nat)], bd_sector_count = ad_sectors dev, bd_sector_size = 512,
                        bd_ops = DrvOps True True, bd_private = PNull, bd_registered = False\<rparr>;
                b = (as_blk s)\<lparr>drv_devs := (drv_devs (as_blk s))(idx := bdev)\<rparr>
            in s\<lparr>as_blk := snd (block_register (Drv idx) b)\<rparr>)
      in if ad_sectors dev = 0 then s
         else (case ad_type dev of
                 ATA_PATA \<Rightarrow> (add ''sd'' (as_sd s) s)\<lparr>as_sd := as_sd s + 1\<rparr>
               | ATA_PATAPI \<Rightarrow> (add ''cdrom'' (as_cdrom s) s)\<lparr>as_cdrom := as_cdrom s + 1\<rparr>
               | ATA_SATAPI \<Rightarrow> (add ''cdrom'' (as_cdrom s) s)\<lparr>as_cdrom := as_cdrom s + 1\<rparr>
               | ATA_SATA \<Rightarrow> (add ''nvme'' (as_nvme s) s)\<lparr>as_nvme := as_nvme s + 1\<rparr>
               | _ \<Rightarrow> s))"

definition ata_init_one :: "'h hw \<Rightarrow> pci_state \<Rightarrow> nat \<Rightarrow> ata_bus \<Rightarrow> ata_drive \<Rightarrow> 'h ata_sys \<Rightarrow> 'h ata_sys option" where
  "ata_init_one H P idx bus drv s =
     do { (r, dev, h) \<leftarrow> ata_detect H bus drv (as_devs s ! idx) (as_hw s);
          if r = 0 \<and> ad_present dev
          then do {
            (_, dev, h) \<leftarrow> ata_identify H dev h;
            let dev = dev\<lparr>ad_bmdma_avail := False\<rparr>;
            (ctrl, dev, ph) \<leftarrow>
              (if ad_type dev = ATA_PATA
               then do { (_, ctrl, dev, ph) \<leftarrow> ata_bmdma_probe P (as_ctrl s) dev (as_phys s); Some (ctrl, dev, ph) }
               else Some (as_ctrl s, dev, as_phys s));
            let s = s\<lparr>as_hw := h, as_devs := (as_devs s)[idx := dev], as_ctrl := ctrl, as_phys := ph\<rparr>;
            let s = ata_register idx s;
            Some (s\<lparr>as_count := as_count s + 1\<rparr>) }
          else Some (s\<lparr>as_hw := h, as_devs := (as_devs s)[idx := dev\<lparr>ad_present := False\<rparr>]\<rparr>) }"

definition ata_init :: "'h hw \<Rightarrow> pci_state \<Rightarrow> 'h ata_sys \<Rightarrow> (int \<times> 'h ata_sys) option" where
  "ata_init H P s =
     do { let s = s\<lparr>as_count := 0, as_sd := 0, as_cdrom := 0, as_nvme := 0\<rparr>;
          s \<leftarrow> ata_init_one H P 0 ATA_BUS_PRIMARY ATA_MASTER s;
          s \<leftarrow> ata_init_one H P 1 ATA_BUS_PRIMARY ATA_SLAVE s;
          s \<leftarrow> ata_init_one H P 2 ATA_BUS_SECONDARY ATA_MASTER s;
          s \<leftarrow> ata_init_one H P 3 ATA_BUS_SECONDARY ATA_SLAVE s;
          Some (as_count s, s) }"

definition ata_device_count :: "'h ata_sys \<Rightarrow> int" where
  "ata_device_count s = as_count s"

definition ata_get_device :: "int \<Rightarrow> 'h ata_sys \<Rightarrow> ata_device option" where
  "ata_get_device i s =
     (if i < 0 \<or> int MAX_DEVICES \<le> i then None
      else if \<not> ad_present (as_devs s ! nat i) then None else Some (as_devs s ! nat i))"

section \<open>A drive\<close>

text \<open>
  What the ATA standard says of the two drives on a bus: the count and sector registers keep the value written last and the
  one before, a command with a 28-bit number uses the former and the low half of the drive register, a command with a 48-bit
  number uses both, and bit 4 of the drive register selects the drive.  A sector is 256 words; the words of all sectors
  of a command pass through the data port.
\<close>

record ide =
  id_cnt :: "u8 \<times> u8"
  id_lo :: "u8 \<times> u8"
  id_mid :: "u8 \<times> u8"
  id_hi :: "u8 \<times> u8"
  id_dr :: u8
  id_rd :: "u16 list"
  id_wr :: "(nat \<times> nat \<times> u16 list) option"
  id_media :: "bool \<Rightarrow> nat \<Rightarrow> u16 list"

definition ide_slave :: "ide \<Rightarrow> bool" where
  "ide_slave d \<longleftrightarrow> id_dr d AND 0x10 \<noteq> 0"

definition bytes3 :: "u8 \<Rightarrow> u8 \<Rightarrow> u8 \<Rightarrow> nat" where
  "bytes3 a b c = unat a + 256 * unat b + 65536 * unat c"

definition ide_lba28 :: "ide \<Rightarrow> nat" where
  "ide_lba28 d = bytes3 (fst (id_lo d)) (fst (id_mid d)) (fst (id_hi d)) + 16777216 * unat (id_dr d AND 0x0F)"

definition ide_lba48 :: "ide \<Rightarrow> nat" where
  "ide_lba48 d = bytes3 (fst (id_lo d)) (fst (id_mid d)) (fst (id_hi d)) + 16777216 * bytes3 (snd (id_lo d)) (snd (id_mid d)) (snd (id_hi d))"

definition ide_n28 :: "ide \<Rightarrow> nat" where
  "ide_n28 d = (if fst (id_cnt d) = 0 then 256 else unat (fst (id_cnt d)))"

definition ide_n48 :: "ide \<Rightarrow> nat" where
  "ide_n48 d = (let n = unat (fst (id_cnt d)) + 256 * unat (snd (id_cnt d)) in if n = 0 then 65536 else n)"

definition ide_sectors :: "ide \<Rightarrow> nat \<Rightarrow> nat \<Rightarrow> u16 list" where
  "ide_sectors d lba n = concat (map (id_media d (ide_slave d)) [lba..<lba + n])"

definition ide_cmd :: "u8 \<Rightarrow> ide \<Rightarrow> ide" where
  "ide_cmd v d =
     (if v = CMD_READ_PIO then d\<lparr>id_rd := ide_sectors d (ide_lba28 d) (ide_n28 d)\<rparr>
      else if v = CMD_READ_PIO_EXT then d\<lparr>id_rd := ide_sectors d (ide_lba48 d) (ide_n48 d)\<rparr>
      else if v = CMD_WRITE_PIO then d\<lparr>id_wr := Some (ide_lba28 d, ide_n28 d, [])\<rparr>
      else if v = CMD_WRITE_PIO_EXT then d\<lparr>id_wr := Some (ide_lba48 d, ide_n48 d, [])\<rparr>
      else d)"

definition ide_out :: "u16 \<Rightarrow> u8 \<Rightarrow> ide \<Rightarrow> ide" where
  "ide_out r v d =
     (if r = 2 then d\<lparr>id_cnt := (v, fst (id_cnt d))\<rparr>
      else if r = 3 then d\<lparr>id_lo := (v, fst (id_lo d))\<rparr>
      else if r = 4 then d\<lparr>id_mid := (v, fst (id_mid d))\<rparr>
      else if r = 5 then d\<lparr>id_hi := (v, fst (id_hi d))\<rparr>
      else if r = 6 then d\<lparr>id_dr := v\<rparr>
      else if r = 7 then ide_cmd v d else d)"

text \<open>A word written to the data port; the last word of a sector stores it.\<close>

definition ide_word :: "u16 \<Rightarrow> ide \<Rightarrow> ide" where
  "ide_word w d =
     (case id_wr d of
        None \<Rightarrow> d
      | Some (lba, n, ws) \<Rightarrow>
          if length ws < 255 then d\<lparr>id_wr := Some (lba, n, ws @ [w])\<rparr>
          else d\<lparr>id_media := (id_media d)(ide_slave d := (id_media d (ide_slave d))(lba := ws @ [w])),
                 id_wr := (if n = 1 then None else Some (lba + 1, n - 1, []))\<rparr>)"

definition ide_status :: "ide \<Rightarrow> u8" where
  "ide_status d = 0x40 OR (if id_rd d \<noteq> [] \<or> id_wr d \<noteq> None then STATUS_DRQ else 0)"

text \<open>
  Hardware that behaves as such a drive: \<open>st\<close> is the drive it implements.  A read of the status shows a busy drive
  \<open>lag\<close> times at most before it shows the status, and \<open>D\<close> bounds the ticks that pass in one access, so that the
  drive is ready before the driver gives up.
\<close>

locale ide_drive =
  fixes H :: "'h hw" and bus :: u16 and st :: "'h \<Rightarrow> ide" and clock lag :: "'h \<Rightarrow> nat" and D L :: nat
  assumes tsc: "\<exists>h'. hw_rdtsc H h = (of_nat (clock h'), h') \<and> st h' = st h \<and> lag h' = lag h \<and> clock h' \<le> clock h + D"
    and clock_small: "clock h + 500000000 < 2 ^ 64"
    and status_read: "\<exists>v h'. hw_inb H (bus + 7) h = (v, h') \<and> st h' = st h \<and> clock h' \<le> clock h + D \<and>
          (if lag h = 0 then v = ide_status (st h) \<and> lag h' = 0 else v = STATUS_BSY \<and> lag h' < lag h)"
    and outb: "2 \<le> r \<Longrightarrow> r \<le> 7 \<Longrightarrow> st (hw_outb H (bus + r) v h) = ide_out r v (st h)"
    and inw: "id_rd (st h) = w # ws \<Longrightarrow> \<exists>h'. hw_inw H bus h = (w, h') \<and> st h' = (st h)\<lparr>id_rd := ws\<rparr>"
    and outw: "st (hw_outw H bus w h) = ide_word w (st h)"
    and lag_bound: "lag h \<le> L" and ready_in_time: "(2 * L + 1) * D < 500000000"
begin

lemma poll_loop_ready:
  assumes "ide_status (st h) AND msk = val" and "STATUS_BSY AND msk \<noteq> val" and "clock h + (2 * lag h + 1) * D < unat deadline"
  shows "\<exists>h'. poll_loop H bus msk val deadline h = Some (0, h') \<and> st h' = st h"
  using assms
proof (induction "lag h" arbitrary: h rule: less_induct)
  case less
  obtain h1 where 1: "hw_rdtsc H h = (of_nat (clock h1), h1)" "st h1 = st h" "lag h1 = lag h" "clock h1 \<le> clock h + D"
    using tsc [of h] by blast
  obtain v h2 where 2: "hw_inb H (bus + 7) h1 = (v, h2)" "st h2 = st h1" "clock h2 \<le> clock h1 + D"
      "if lag h1 = 0 then v = ide_status (st h1) \<and> lag h2 = 0 else v = STATUS_BSY \<and> lag h2 < lag h1"
    using status_read [of h1] by blast
  have "clock h1 < unat deadline" using 1(4) less.prems(3) by (simp add: algebra_simps)
  then have t: "of_nat (clock h1) < deadline"
    using unat_less_pow64 [of deadline] by (simp add: word_less_nat_alt unat_of_nat64)
  have step: "poll_loop H bus msk val deadline h =
      (if v AND msk = val then Some (0, h2) else if v AND STATUS_ERR \<noteq> 0 then Some (- 1, h2)
       else poll_loop H bus msk val deadline h2)"
    using 1(1) 2(1) t by (subst poll_loop.simps) (simp add: reg_status_def)
  show ?case
  proof (cases "lag h = 0")
    case True
    then show ?thesis using step 1 2 less.prems(1) by simp
  next
    case False
    then have v: "v = STATUS_BSY" "lag h2 < lag h" using 1(3) 2(4) by auto
    have "(2 * lag h2 + 1) * D + 2 * D \<le> (2 * lag h + 1) * D"
    proof -
      have "2 * lag h2 + 3 \<le> 2 * lag h + 1" using v(2) by simp
      then have "(2 * lag h2 + 3) * D \<le> (2 * lag h + 1) * D" by (rule mult_le_mono1)
      then show ?thesis by (simp add: algebra_simps)
    qed
    then have "clock h2 + (2 * lag h2 + 1) * D < unat deadline" using 1(4) 2(3) less.prems(3) by simp
    with less.hyps [OF v(2)] less.prems(1,2) 1(2) 2(2)
    have "\<exists>h'. poll_loop H bus msk val deadline h2 = Some (0, h') \<and> st h' = st h" by simp
    moreover have "STATUS_BSY AND STATUS_ERR = 0" by (simp add: STATUS_BSY_def STATUS_ERR_def)
    ultimately show ?thesis using step v(1) less.prems(2) by simp
  qed
qed

lemma poll_ready:
  assumes "ide_status (st h) AND msk = val" and "STATUS_BSY AND msk \<noteq> val"
  shows "\<exists>h'. poll_status H bus msk val h = Some (0, h') \<and> st h' = st h"
proof -
  obtain h1 where 1: "hw_rdtsc H h = (of_nat (clock h1), h1)" "st h1 = st h" using tsc [of h] by blast
  have "unat (of_nat (clock h1) + TIMEOUT_TSC) = clock h1 + 500000000"
    using clock_small [of h1] by (subst unat_add_nowrap) (simp_all add: TIMEOUT_TSC_def unat_of_nat64)
  moreover have "(2 * lag h1 + 1) * D \<le> (2 * L + 1) * D" using lag_bound [of h1] by (intro mult_le_mono1) simp
  ultimately have "clock h1 + (2 * lag h1 + 1) * D < unat (of_nat (clock h1) + TIMEOUT_TSC)"
    using ready_in_time by linarith
  from poll_loop_ready [OF _ assms(2) this] assms(1) 1 show ?thesis by (simp add: poll_status_def)
qed

lemma poll_bsy_ready: "\<exists>h'. poll_bsy H bus h = Some (0, h') \<and> st h' = st h"
  unfolding poll_bsy_def by (rule poll_ready) (simp_all add: ide_status_def STATUS_BSY_def STATUS_DRQ_def)

lemma poll_drq_ready:
  "id_rd (st h) \<noteq> [] \<or> id_wr (st h) \<noteq> None \<Longrightarrow> \<exists>h'. poll_drq H bus h = Some (0, h') \<and> st h' = st h"
  unfolding poll_drq_def by (rule poll_ready) (auto simp: ide_status_def STATUS_BSY_def STATUS_DRQ_def)

lemma io_wait_st: "st (ata_io_wait H bus h) = st h"
proof -
  have "st (snd (hw_inb H (bus + 7) h)) = st h" for h using status_read [of h] by auto
  then show ?thesis by (simp add: ata_io_wait_def reg_status_def numeral_eq_Suc)
qed

lemma in_words_st:
  "id_rd (st h) = ws @ rest \<Longrightarrow> \<exists>h'. in_words H bus (length ws) h = (ws, h') \<and> st h' = (st h)\<lparr>id_rd := rest\<rparr>"
proof (induction ws arbitrary: h)
  case (Cons w ws)
  obtain h1 where 1: "hw_inw H bus h = (w, h1)" "st h1 = (st h)\<lparr>id_rd := ws @ rest\<rparr>" using inw [of h w "ws @ rest"] Cons.prems by auto
  with Cons.IH [of h1] show ?case by auto
qed simp

lemma out_words_st: "st (out_words H bus ws h) = fold ide_word ws (st h)"
  by (induction ws arbitrary: h) (simp_all add: out_words_def outw)

lemma read_loop_st:
  assumes "id_rd (st h) = concat secs" and "\<forall>ws \<in> set secs. length ws = 256"
  shows "\<exists>h'. read_loop H bus (length secs) acc h = Some (0, acc @ concat secs, h') \<and> st h' = (st h)\<lparr>id_rd := []\<rparr>"
  using assms
proof (induction secs arbitrary: acc h)
  case Nil
  then show ?case by (cases "st h") simp
next
  case (Cons ws secs)
  have ws: "length ws = 256" using Cons.prems(2) by simp
  then have "id_rd (st h) \<noteq> []" using Cons.prems(1) by auto
  then obtain h1 where 1: "poll_drq H bus h = Some (0, h1)" "st h1 = st h" using poll_drq_ready by blast
  obtain h2 where 2: "in_words H bus (length ws) (ata_io_wait H bus h1) = (ws, h2)" "st h2 = (st h)\<lparr>id_rd := concat secs\<rparr>"
    using in_words_st [of "ata_io_wait H bus h1" ws "concat secs"] io_wait_st [of h1] 1(2) Cons.prems(1) by auto
  obtain h3 where 3: "poll_bsy H bus h2 = Some (0, h3)" "st h3 = st h2" using poll_bsy_ready by blast
  obtain h4 where 4: "read_loop H bus (length secs) (acc @ ws) h3 = Some (0, (acc @ ws) @ concat secs, h4)"
      "st h4 = (st h3)\<lparr>id_rd := []\<rparr>"
    using Cons.IH [of h3 "acc @ ws"] 3(2) 2(2) Cons.prems(2) by auto
  show ?case using 1 2 3 4 ws by (simp add: reg_data_def)
qed

lemma out_all_st:
  "\<forall>(r, v) \<in> set rs. 2 \<le> r \<and> r \<le> 7 \<Longrightarrow> st (out_all H (map (\<lambda>(r, v). (bus + r, v)) rs) h) = fold (\<lambda>(r, v). ide_out r v) rs (st h)"
  by (induction rs arbitrary: h) (auto simp: out_all_def outb)

end

text \<open>Sector numbers from their bytes.\<close>

lemma unat_shift: "unat (drop_bit k lba) = unat lba div 2 ^ k" for lba :: u64
  by (metis drop_bit_eq_div unat_drop_bit_eq)

lemma unat_byte: "unat (ucast lba :: u8) = unat lba mod 256" for lba :: u64
  by (simp add: unsigned_ucast_eq take_bit_eq_mod)

lemma bytes_mod: "n mod 256 + 256 * (n div 256 mod 256) + 65536 * (n div 65536 mod 256) = n mod 16777216" for n :: nat
proof -
  have "n mod (256 * 65536) = 256 * (n div 256 mod 65536) + n mod 256" by (rule mod_mult2_eq)
  moreover have "n div 256 mod (256 * 256) = 256 * (n div 256 div 256 mod 256) + n div 256 mod 256" by (rule mod_mult2_eq)
  moreover have "n div 256 div 256 = n div 65536" by (simp flip: div_mult2_eq)
  ultimately show ?thesis by simp
qed

lemma bytes3_low: "bytes3 (ucast lba) (ucast (drop_bit 8 lba)) (ucast (drop_bit 16 lba)) = unat lba mod 16777216" for lba :: u64
  using bytes_mod [of "unat lba"] by (simp add: bytes3_def unat_byte unat_shift)

lemma bytes3_high:
  "bytes3 (ucast (drop_bit 24 lba)) (ucast (drop_bit 32 lba)) (ucast (drop_bit 40 lba)) = unat lba div 16777216 mod 16777216" for lba :: u64
proof -
  have "n div 16777216 div 256 = n div 4294967296" "n div 16777216 div 65536 = n div 1099511627776" for n :: nat
    by (simp_all flip: div_mult2_eq)
  then show ?thesis using bytes_mod [of "unat lba div 16777216"] by (simp add: bytes3_def unat_byte unat_shift)
qed

text \<open>The drive after the registers of a command have been written.\<close>

definition set_28 :: "ata_device \<Rightarrow> u64 \<Rightarrow> u16 \<Rightarrow> ide \<Rightarrow> ide" where
  "set_28 dev lba cnt d =
     d\<lparr>id_dr := 0xE0 OR slave_bit dev OR (ucast (drop_bit 24 lba) AND 0x0F), id_cnt := (ucast cnt, fst (id_cnt d)),
       id_lo := (ucast lba, fst (id_lo d)), id_mid := (ucast (drop_bit 8 lba), fst (id_mid d)),
       id_hi := (ucast (drop_bit 16 lba), fst (id_hi d))\<rparr>"

definition set_48 :: "ata_device \<Rightarrow> u64 \<Rightarrow> u16 \<Rightarrow> ide \<Rightarrow> ide" where
  "set_48 dev lba cnt d =
     d\<lparr>id_dr := 0x40 OR slave_bit dev, id_cnt := (ucast cnt, ucast (drop_bit 8 cnt)), id_lo := (ucast lba, ucast (drop_bit 24 lba)),
       id_mid := (ucast (drop_bit 8 lba), ucast (drop_bit 32 lba)), id_hi := (ucast (drop_bit 16 lba), ucast (drop_bit 40 lba))\<rparr>"

lemma set_28_lba:
  assumes "unat lba < 2 ^ 28"
  shows "ide_lba28 (set_28 dev lba cnt d) = unat lba"
proof -
  have "(0xE0 OR slave_bit dev OR (b AND 0x0F)) AND 0x0F = b AND (0x0F :: u8)" for b
    by (simp add: slave_bit_def bit.conj_disj_distrib2 and.assoc)
  moreover have "unat (b AND (0x0F :: u8)) = unat b mod 16" for b
  proof -
    have "b AND 0x0F = take_bit 4 b" by (simp add: take_bit_eq_mask mask_eq_exp_minus_1)
    then show ?thesis by (simp add: take_bit_eq_mod unat_mod)
  qed
  moreover have "unat lba div 16777216 < 16" using assms by (simp add: div_less_iff_less_mult)
  ultimately show ?thesis by (simp add: ide_lba28_def set_28_def bytes3_low unat_byte unat_shift)
qed

lemma set_48_lba:
  assumes "unat lba < 2 ^ 48"
  shows "ide_lba48 (set_48 dev lba cnt d) = unat lba"
proof -
  have "unat lba div 16777216 < 16777216" using assms by (simp add: div_less_iff_less_mult)
  then show ?thesis by (simp add: ide_lba48_def set_48_def bytes3_low bytes3_high)
qed

lemma set_slave: "ide_slave (set_28 dev lba cnt d) \<longleftrightarrow> ad_drive dev = ATA_SLAVE" "ide_slave (set_48 dev lba cnt d) \<longleftrightarrow> ad_drive dev = ATA_SLAVE"
proof -
  have "(b AND 0x0F) AND (0x10 :: u8) = 0" for b by (simp add: and.assoc)
  then show "ide_slave (set_28 dev lba cnt d) \<longleftrightarrow> ad_drive dev = ATA_SLAVE"
    by (auto simp: ide_slave_def set_28_def slave_bit_def bit.conj_disj_distrib2)
  show "ide_slave (set_48 dev lba cnt d) \<longleftrightarrow> ad_drive dev = ATA_SLAVE"
    by (auto simp: ide_slave_def set_48_def slave_bit_def)
qed

lemma ide_slave_wr [simp]: "ide_slave (d\<lparr>id_wr := x\<rparr>) = ide_slave d"
  by (simp add: ide_slave_def)

lemma set_count:
  assumes "c \<noteq> 0"
  shows "ide_n28 (set_28 dev lba (ucast (c :: u8)) d) = unat c" "ide_n48 (set_48 dev lba (ucast c) d) = unat c"
proof -
  have 1: "(ucast (ucast c :: u16) :: u8) = c" by (rule bit_word_eqI) (simp add: bit_simps)
  have 2: "(ucast (drop_bit 8 (ucast c :: u16)) :: u8) = 0"
    by (rule bit_word_eqI) (auto simp: bit_simps dest: bit_imp_le_length)
  show "ide_n28 (set_28 dev lba (ucast (c :: u8)) d) = unat c" using 1 assms by (simp add: ide_n28_def set_28_def)
  show "ide_n48 (set_48 dev lba (ucast c) d) = unat c"
    using 1 2 assms by (simp add: ide_n48_def set_48_def Let_def unat_eq_0)
qed

lemma set_media [simp]:
  "id_media (set_28 dev lba cnt d) = id_media d" "id_media (set_48 dev lba cnt d) = id_media d"
  "id_wr (set_28 dev lba cnt d) = id_wr d" "id_wr (set_48 dev lba cnt d) = id_wr d"
  by (simp_all add: set_28_def set_48_def)

context ide_drive
begin

lemma regs_st:
  assumes "dev_base (ad_bus dev) = bus"
  shows "st (out_all H (regs_28 dev lba cnt) h) = set_28 dev lba cnt (st h)"
    "st (out_all H (regs_48 dev lba cnt) h) = set_48 dev lba cnt (st h)"
  by (simp_all add: out_all_def regs_28_def regs_48_def ata_regs assms outb ide_out_def set_28_def set_48_def Let_def)

lemma cmd_st: "st (hw_outb H (reg_cmd bus) cmd h) = ide_cmd cmd (st h)"
  by (simp add: reg_cmd_def outb ide_out_def)

text \<open>A command that makes the drive offer the sectors from \<open>lba\<close> on.\<close>

lemma read_pio_st:
  assumes "dev_base (ad_bus dev) = bus" and "cnt \<noteq> 0" and "\<And>i. length (id_media (st h) sl i) = 256"
    and "\<And>h. id_media (ide_cmd cmd (st (out_all H regs h))) = id_media (st h)"
    and "\<And>h. id_rd (ide_cmd cmd (st (out_all H regs h))) = concat (map (id_media (st h) sl) [lba..<lba + unat cnt])"
  shows "\<exists>h'. read_pio H dev regs cmd cnt h = Some (0, concat (map (id_media (st h) sl) [lba..<lba + unat cnt]), h') \<and>
           id_media (st h') = id_media (st h)"
proof -
  obtain h1 where 1: "poll_bsy H bus h = Some (0, h1)" "st h1 = st h" using poll_bsy_ready by blast
  let ?h = "ata_io_wait H bus (hw_outb H (reg_cmd bus) cmd (out_all H regs h1))"
  have h: "st ?h = ide_cmd cmd (st (out_all H regs h1))" by (simp add: io_wait_st cmd_st)
  obtain h2 where "read_loop H bus (length [lba..<lba + unat cnt]) [] ?h =
      Some (0, [] @ concat (map (id_media (st h) sl) [lba..<lba + unat cnt]), h2)" "st h2 = (st ?h)\<lparr>id_rd := []\<rparr>"
    using read_loop_st [of ?h "map (id_media (st h) sl) [lba..<lba + unat cnt]" "[]"] h assms(3,5) 1(2) by auto
  then show ?thesis using 1 assms(1,2,4) h by (simp add: read_pio_def Let_def)
qed

lemma read_sectors_st:
  assumes "dev_base (ad_bus dev) = bus" and "ad_present dev" and "cnt \<noteq> 0" and "unat lba < 2 ^ 48"
    and "\<And>i. length (id_media (st h) (ad_drive dev = ATA_SLAVE) i) = 256"
  shows "\<exists>h'. ata_read_sectors H (Some dev) lba cnt True h =
      Some (0, concat (map (id_media (st h) (ad_drive dev = ATA_SLAVE)) [unat lba..<unat lba + min 255 (unat cnt)]), h') \<and>
      id_media (st h') = id_media (st h)"
proof -
  define c where "c = (ucast (if 255 < cnt then 255 else cnt) :: u8)"
  have u: "unat c = min 255 (unat cnt)" "c \<noteq> 0"
  proof -
    have "unat (if 255 < cnt then 255 else cnt) = min 255 (unat cnt)" by (auto simp: min_def word_less_nat_alt)
    then show "unat c = min 255 (unat cnt)" by (simp add: c_def unsigned_ucast_eq take_bit_eq_mod min_def)
    moreover have "unat cnt \<noteq> 0" using assms(3) by (simp add: unat_eq_0)
    ultimately show "c \<noteq> 0" by (auto simp: min_def split: if_splits)
  qed
  show ?thesis
  proof (cases "ad_lba48 dev \<or> 0x0FFFFFFF < lba")
    case True
    have "\<exists>h'. read_pio H dev (regs_48 dev lba (ucast c)) CMD_READ_PIO_EXT c h =
        Some (0, concat (map (id_media (st h) (ad_drive dev = ATA_SLAVE)) [unat lba..<unat lba + unat c]), h') \<and>
        id_media (st h') = id_media (st h)"
      by (rule read_pio_st [OF assms(1) u(2) assms(5)])
         (simp_all add: regs_st [OF assms(1)] ide_cmd_def ata_cmds ide_sectors_def set_48_lba [OF assms(4)] set_count [OF u(2)] set_slave)
    with True assms(2,3) u(1) show ?thesis by (simp add: ata_read_sectors_def ata_read_pio_48_def c_def Let_def)
  next
    case False
    then have "unat lba < 2 ^ 28" by (simp add: word_less_nat_alt)
    have "\<exists>h'. read_pio H dev (regs_28 dev lba (ucast c)) CMD_READ_PIO c h =
        Some (0, concat (map (id_media (st h) (ad_drive dev = ATA_SLAVE)) [unat lba..<unat lba + unat c]), h') \<and>
        id_media (st h') = id_media (st h)"
      by (rule read_pio_st [OF assms(1) u(2) assms(5)])
         (simp_all add: regs_st [OF assms(1)] ide_cmd_def ata_cmds ide_sectors_def set_28_lba [OF \<open>unat lba < 2 ^ 28\<close>]
           set_count [OF u(2)] set_slave)
    with False assms(2,3) u(1) show ?thesis by (simp add: ata_read_sectors_def ata_read_pio_28_def c_def Let_def)
  qed
qed

end

definition stored :: "nat \<Rightarrow> nat \<Rightarrow> u16 list \<Rightarrow> (nat \<Rightarrow> u16 list) \<Rightarrow> nat \<Rightarrow> u16 list" where
  "stored lba k buf m = (\<lambda>i. if lba \<le> i \<and> i < lba + k then take 256 (drop (256 * (i - lba)) buf) else m i)"

lemma sector_fits: "length (buf :: u16 list) = 256 * n \<Longrightarrow> i < n \<Longrightarrow> 256 * i + 256 \<le> length buf"
  using mult_le_mono2 [of "Suc i" n 256] by simp

lemma concat_sectors:
  "length buf = 256 * n \<Longrightarrow> concat (map (\<lambda>i. take 256 (drop (256 * (i - lba)) buf)) [lba..<lba + n]) = (buf :: u16 list)"
proof (induction n arbitrary: buf)
  case (Suc n)
  have "take 256 (drop (256 * n) buf) = drop (256 * n) buf" using Suc.prems by simp
  moreover have "concat (map (\<lambda>i. take 256 (drop (256 * (i - lba)) (take (256 * n) buf))) [lba..<lba + n]) = take (256 * n) buf"
    using Suc.prems by (intro Suc.IH) simp
  moreover have "map (\<lambda>i. take 256 (drop (256 * (i - lba)) (take (256 * n) buf))) [lba..<lba + n] =
      map (\<lambda>i. take 256 (drop (256 * (i - lba)) buf)) [lba..<lba + n]"
  proof (rule map_cong [OF refl])
    fix i assume "i \<in> set [lba..<lba + n]"
    then have "Suc (i - lba) \<le> n" by auto
    then have "256 * Suc (i - lba) \<le> 256 * n" by (rule mult_le_mono2)
    then have "256 * (i - lba) + 256 \<le> 256 * n" by simp
    then show "take 256 (drop (256 * (i - lba)) (take (256 * n) buf)) = take 256 (drop (256 * (i - lba)) buf)"
      by (simp add: drop_take min_def)
  qed
  ultimately show ?case by (simp add: append_take_drop_id)
qed simp

lemma fold_ide_word:
  assumes "id_wr d = Some (lba, n, ws)" and "length ws + length vs = 256" and "vs \<noteq> []"
  shows "fold ide_word vs d =
     d\<lparr>id_media := (id_media d)(ide_slave d := (id_media d (ide_slave d))(lba := ws @ vs)),
       id_wr := (if n = 1 then None else Some (lba + 1, n - 1, []))\<rparr>"
  using assms
proof (induction vs arbitrary: d ws)
  case (Cons v vs)
  show ?case
  proof (cases "vs = []")
    case True
    then show ?thesis using Cons.prems by (simp add: ide_word_def fun_upd_def)
  next
    case False
    then have "length ws < 255" using Cons.prems(2) by (cases vs) auto
    then have w: "ide_word v d = d\<lparr>id_wr := Some (lba, n, ws @ [v])\<rparr>" using Cons.prems(1) by (simp add: ide_word_def)
    show ?thesis using Cons.IH [of "ide_word v d" "ws @ [v]"] Cons.prems False by (simp add: w ide_slave_def)
  qed
qed simp

lemma stored_Suc:
  assumes "length buf = 256 * Suc k"
  shows "stored (lba + 1) k (drop 256 buf) (m(lba := take 256 buf)) = stored lba (Suc k) buf m"
proof
  fix i
  show "stored (lba + 1) k (drop 256 buf) (m(lba := take 256 buf)) i = stored lba (Suc k) buf m i"
  proof (cases "lba + 1 \<le> i")
    case True
    then have "256 * (i - Suc lba) + 256 = 256 * (i - lba)" by (simp add: algebra_simps)
    with True show ?thesis by (simp add: stored_def)
  qed (auto simp: stored_def)
qed

context ide_drive
begin

lemma write_loop_st:
  assumes "id_wr (st h) = (if k = 0 then None else Some (lba, k, []))" and "length buf = 256 * k"
  shows "\<exists>h'. write_loop H bus k buf h = Some (0, h') \<and> id_wr (st h') = None \<and> ide_slave (st h') = ide_slave (st h) \<and>
    id_media (st h') = (id_media (st h))(ide_slave (st h) := stored lba k buf (id_media (st h) (ide_slave (st h))))"
  using assms
proof (induction k arbitrary: lba buf h)
  case 0
  have "stored lba 0 buf m = m" for m by (rule ext) (auto simp: stored_def)
  with 0 show ?case by simp
next
  case (Suc k)
  let ?b = "take 256 buf"
  obtain h1 where 1: "poll_drq H bus h = Some (0, h1)" "st h1 = st h" using poll_drq_ready [of h] Suc.prems(1) by auto
  have b: "length ?b = 256" "?b \<noteq> []" using Suc.prems(2) by (auto simp: take_eq_Nil)
  have o: "st (out_words H bus ?b h1) =
      (st h)\<lparr>id_media := (id_media (st h))(ide_slave (st h) := (id_media (st h) (ide_slave (st h)))(lba := ?b)),
            id_wr := (if k = 0 then None else Some (lba + 1, k, []))\<rparr>"
    using fold_ide_word [of "st h1" lba "Suc k" "[]" ?b] Suc.prems(1) 1(2) b by (simp add: out_words_st)
  obtain h2 where 2: "poll_bsy H bus (out_words H bus ?b h1) = Some (0, h2)" "st h2 = st (out_words H bus ?b h1)"
    using poll_bsy_ready by blast
  have sl: "ide_slave (st h2) = ide_slave (st h)" using 2(2) o by (simp add: ide_slave_def)
  have "length (drop 256 buf) = 256 * k" "id_wr (st h2) = (if k = 0 then None else Some (lba + 1, k, []))"
    using Suc.prems(2) 2(2) o by simp_all
  from Suc.IH [OF this(2,1)] obtain h3 where 3: "write_loop H bus k (drop 256 buf) h2 = Some (0, h3)" "id_wr (st h3) = None"
      "ide_slave (st h3) = ide_slave (st h2)"
      "id_media (st h3) = (id_media (st h2))(ide_slave (st h2) := stored (lba + 1) k (drop 256 buf) (id_media (st h2) (ide_slave (st h2))))"
    by blast
  have "id_media (st h3) = (id_media (st h))(ide_slave (st h) := stored lba (Suc k) buf (id_media (st h) (ide_slave (st h))))"
    using 3(4) sl 2(2) o stored_Suc [OF Suc.prems(2), of lba "id_media (st h) (ide_slave (st h))"] by simp
  with 1 2(1) 3(1-3) sl show ?case by (simp add: reg_data_def fun_upd_def)
qed

lemma flush_st: "dev_base (ad_bus dev) = bus \<Longrightarrow> \<exists>h'. ata_flush H dev h = Some (0, h') \<and> st h' = st h"
proof -
  assume b: "dev_base (ad_bus dev) = bus"
  obtain h1 where 1: "poll_bsy H bus h = Some (0, h1)" "st h1 = st h" using poll_bsy_ready by blast
  let ?h = "hw_outb H (reg_cmd bus) (if ad_lba48 dev then CMD_FLUSH_CACHE_EXT else CMD_FLUSH_CACHE) h1"
  have "st ?h = st h" using 1(2) by (simp add: cmd_st ide_cmd_def ata_cmds)
  moreover obtain h2 where "poll_bsy H bus ?h = Some (0, h2)" "st h2 = st ?h" using poll_bsy_ready by blast
  ultimately show ?thesis using 1 b by (auto simp: ata_flush_def Let_def)
qed

lemma write_pio_st:
  assumes "dev_base (ad_bus dev) = bus" and "cnt \<noteq> 0" and "length buf = 256 * unat cnt"
    and "\<And>h. id_media (ide_cmd cmd (st (out_all H regs h))) = id_media (st h)"
    and "\<And>h. ide_slave (ide_cmd cmd (st (out_all H regs h))) = sl"
    and "\<And>h. id_wr (ide_cmd cmd (st (out_all H regs h))) = Some (lba, unat cnt, [])"
  shows "\<exists>h'. write_pio H dev regs cmd cnt buf h = Some (0, h') \<and>
           id_media (st h') = (id_media (st h))(sl := stored lba (unat cnt) buf (id_media (st h) sl))"
proof -
  obtain h1 where 1: "poll_bsy H bus h = Some (0, h1)" "st h1 = st h" using poll_bsy_ready by blast
  let ?h = "ata_io_wait H bus (hw_outb H (reg_cmd bus) cmd (out_all H regs h1))"
  have h: "st ?h = ide_cmd cmd (st (out_all H regs h1))" by (simp add: io_wait_st cmd_st)
  have "unat cnt \<noteq> 0" using assms(2) by (simp add: unat_eq_0)
  then obtain h2 where "write_loop H bus (unat cnt) buf ?h = Some (0, h2)"
      "id_media (st h2) = (id_media (st h))(sl := stored lba (unat cnt) buf (id_media (st h) sl))"
    using write_loop_st [of ?h "unat cnt" lba buf] h assms(3-6) 1(2) by auto
  then show ?thesis using 1 assms(1,2) by (simp add: write_pio_def Let_def)
qed

lemma write_sectors_st:
  assumes "dev_base (ad_bus dev) = bus" and "ad_present dev" and "cnt \<noteq> 0" and "cnt \<le> 255" and "unat lba < 2 ^ 48"
    and "length buf = 256 * unat cnt"
  defines "sl \<equiv> (ad_drive dev = ATA_SLAVE)"
  shows "\<exists>h'. ata_write_sectors H (Some dev) lba cnt (Some buf) h = Some (0, h') \<and>
      id_media (st h') = (id_media (st h))(sl := stored (unat lba) (unat cnt) buf (id_media (st h) sl))"
proof -
  define c where "c = (ucast cnt :: u8)"
  have u: "unat c = unat cnt" using assms(4) by (simp add: c_def unsigned_ucast_eq take_bit_eq_mod word_le_nat_alt)
  then have c: "c \<noteq> 0" "length buf = 256 * unat c" using assms(3,6) by (auto simp flip: unat_eq_0)
  have "\<exists>h'. (if ad_lba48 dev \<or> 0x0FFFFFFF < lba then ata_write_pio_48 H dev lba c buf h else ata_write_pio_28 H dev lba c buf h) =
      Some (0, h') \<and> id_media (st h') = (id_media (st h))(sl := stored (unat lba) (unat c) buf (id_media (st h) sl))"
  proof (cases "ad_lba48 dev \<or> 0x0FFFFFFF < lba")
    case True
    have "\<exists>h'. write_pio H dev (regs_48 dev lba (ucast c)) CMD_WRITE_PIO_EXT c buf h = Some (0, h') \<and>
        id_media (st h') = (id_media (st h))(sl := stored (unat lba) (unat c) buf (id_media (st h) sl))"
      by (rule write_pio_st [OF assms(1) c])
         (simp_all add: regs_st [OF assms(1)] ide_cmd_def ata_cmds set_48_lba [OF assms(5)] set_count [OF c(1)] set_slave sl_def
           ide_slave_wr)
    with True show ?thesis by (simp add: ata_write_pio_48_def)
  next
    case False
    then have l: "unat lba < 2 ^ 28" by (simp add: word_less_nat_alt)
    have "\<exists>h'. write_pio H dev (regs_28 dev lba (ucast c)) CMD_WRITE_PIO c buf h = Some (0, h') \<and>
        id_media (st h') = (id_media (st h))(sl := stored (unat lba) (unat c) buf (id_media (st h) sl))"
      by (rule write_pio_st [OF assms(1) c])
         (simp_all add: regs_st [OF assms(1)] ide_cmd_def ata_cmds set_28_lba [OF l] set_count [OF c(1)] set_slave sl_def ide_slave_wr)
    with False show ?thesis by (simp add: ata_write_pio_28_def)
  qed
  then obtain h1 where 1: "(if ad_lba48 dev \<or> 0x0FFFFFFF < lba then ata_write_pio_48 H dev lba c buf h
        else ata_write_pio_28 H dev lba c buf h) = Some (0, h1)"
      "id_media (st h1) = (id_media (st h))(sl := stored (unat lba) (unat cnt) buf (id_media (st h) sl))"
    using u by auto
  obtain h2 where "ata_flush H dev h1 = Some (0, h2)" "st h2 = st h1" using flush_st [OF assms(1)] by blast
  moreover have "\<not> 255 < cnt" using assms(4) by simp
  ultimately show ?thesis using 1 assms(2,3) by (auto simp: ata_write_sectors_def c_def Let_def split: if_splits)
qed

end

section \<open>Sectors are read and written\<close>

text \<open>
  The drive itself as hardware, which is busy for one read of the status after every command; the state carries the number
  of such reads that are left.
\<close>

definition ide_hw :: "u16 \<Rightarrow> (ide \<times> bool) hw" where
  "ide_hw bus =
     \<lparr>hw_inb = (\<lambda>p (d, busy). if busy then (STATUS_BSY, (d, False)) else (ide_status d, (d, False))),
      hw_outb = (\<lambda>p v (d, busy). (ide_out (p - bus) v d, p = bus + 7)),
      hw_inw = (\<lambda>p (d, busy). (hd (id_rd d), (d\<lparr>id_rd := tl (id_rd d)\<rparr>, False))),
      hw_outw = (\<lambda>p w (d, busy). (ide_word w d, busy)),
      hw_outl = (\<lambda>p v s. s),
      hw_rdtsc = (\<lambda>s. (0, s))\<rparr>"

interpretation ide_unit: ide_drive "ide_hw bus" bus fst "\<lambda>_. 0" "\<lambda>(d, busy). if busy then 1 else 0" 0 1
proof (unfold_locales, goal_cases)
  case (3 h)
  then show ?case by (cases h) (auto simp: ide_hw_def)
next
  case (4 r v h)
  then show ?case by (cases h) (simp add: ide_hw_def)
next
  case (5 h w ws)
  then show ?case by (cases h) (auto simp: ide_hw_def)
next
  case (6 w h)
  then show ?case by (cases h) (simp add: ide_hw_def)
qed (auto simp: ide_hw_def)

text \<open>
  Over any hardware that behaves as an ATA drive and is ready in time, \<^verbatim>\<open>ata_read_sectors\<close> returns 0 and
  the contents of the sectors of the selected drive from \<open>lba\<close> on, at most 255 of them, for sector numbers below \<open>2 ^ 48\<close>, with the
  28-bit and with the 48-bit command; no sector changes.
\<close>

lemma ata_read_sectors_reads:
  assumes "ide_drive H (dev_base (ad_bus dev)) st clock lag D L" and "ad_present dev" and "cnt \<noteq> 0" and "unat lba < 2 ^ 48"
    and "\<forall>i. length (id_media (st h) (ad_drive dev = ATA_SLAVE) i) = 256"
  shows "\<exists>h'. ata_read_sectors H (Some dev) lba cnt True h =
      Some (0, concat (map (id_media (st h) (ad_drive dev = ATA_SLAVE)) [unat lba..<unat lba + min 255 (unat cnt)]), h') \<and>
      id_media (st h') = id_media (st h)"
  using ide_drive.read_sectors_st [OF assms(1) refl assms(2-4)] assms(5) by blast

definition sample_drive :: ata_device where
  "sample_drive = \<lparr>ad_bus = ATA_BUS_PRIMARY, ad_drive = ATA_SLAVE, ad_type = ATA_PATA, ad_present = True, ad_lba48 = False,
     ad_sectors = 1000, ad_ident = [], ad_model = [], ad_bmdma_avail = False, ad_bmdma_base = 0, ad_prdt_phys = 0, ad_prdt_entries = 0\<rparr>"

definition sample_disk :: "ide \<times> bool" where
  "sample_disk = (\<lparr>id_cnt = (0, 0), id_lo = (0, 0), id_mid = (0, 0), id_hi = (0, 0), id_dr = 0, id_rd = [], id_wr = None,
     id_media = (\<lambda>sl i. replicate 256 (of_nat i))\<rparr>, False)"

lemma sample_base: "dev_base (ad_bus sample_drive) = 0x1F0"
  by (simp add: sample_drive_def dev_base_def ATA_PRIMARY_BUS_def)

text \<open>
  C34 (roundtrip): over such hardware, writing 1 to 255 sectors with \<^verbatim>\<open>ata_write_sectors\<close> returns 0 and changes exactly these sectors of
  the selected drive, and reading them back with \<^verbatim>\<open>ata_read_sectors\<close> returns the words written.
\<close>

theorem ata_write_read:
  assumes "ide_drive H (dev_base (ad_bus dev)) st clock lag D L" and "ad_present dev" and "cnt \<noteq> 0" and "cnt \<le> 255"
    and "unat lba < 2 ^ 48" and "length buf = 256 * unat cnt"
    and "\<forall>i. length (id_media (st h) (ad_drive dev = ATA_SLAVE) i) = 256"
  shows "\<exists>h1 h2. ata_write_sectors H (Some dev) lba cnt (Some buf) h = Some (0, h1) \<and>
     ata_read_sectors H (Some dev) lba cnt True h1 = Some (0, buf, h2) \<and>
     (\<forall>sl i. (sl, i) \<notin> {ad_drive dev = ATA_SLAVE} \<times> {unat lba..<unat lba + unat cnt} \<longrightarrow>
        id_media (st h1) sl i = id_media (st h) sl i)"
proof -
  let ?sl = "ad_drive dev = ATA_SLAVE" and ?n = "unat cnt"
  obtain h1 where 1: "ata_write_sectors H (Some dev) lba cnt (Some buf) h = Some (0, h1)"
      "id_media (st h1) = (id_media (st h))(?sl := stored (unat lba) ?n buf (id_media (st h) ?sl))"
    using ide_drive.write_sectors_st [OF assms(1) refl assms(2-6)] by blast
  have "length (id_media (st h1) ?sl i) = 256" for i
    using assms(6,7) 1(2) by (auto simp: stored_def min_def dest: sector_fits)
  from ide_drive.read_sectors_st [OF assms(1) refl assms(2,3,5) this]
  obtain h2 where 2: "ata_read_sectors H (Some dev) lba cnt True h1 =
      Some (0, concat (map (id_media (st h1) ?sl) [unat lba..<unat lba + min 255 ?n]), h2)" by blast
  have n: "min 255 ?n = ?n" using assms(4) by (simp add: word_le_nat_alt)
  have eq: "map (id_media (st h1) ?sl) [unat lba..<unat lba + ?n] = map (\<lambda>i. take 256 (drop (256 * (i - unat lba)) buf)) [unat lba..<unat lba + ?n]"
    by (rule map_cong [OF refl]) (use 1(2) in \<open>simp add: stored_def\<close>)
  have "id_media (st h1) sl i = id_media (st h) sl i" if "(sl, i) \<notin> {?sl} \<times> {unat lba..<unat lba + ?n}" for sl i
    using that unfolding 1(2) by (auto simp: stored_def)
  moreover have "concat (map (id_media (st h1) ?sl) [unat lba..<unat lba + ?n]) = buf"
    unfolding eq by (rule concat_sectors [OF assms(6)])
  ultimately show ?thesis using 1(1) 2 [unfolded n] by metis
qed

theorem ata_write_read_witness:
  "\<exists>h1 h2. ata_write_sectors (ide_hw 0x1F0) (Some sample_drive) 7 1 (Some (replicate 256 5)) sample_disk = Some (0, h1) \<and>
     ata_read_sectors (ide_hw 0x1F0) (Some sample_drive) 7 1 True h1 = Some (0, replicate 256 5, h2)"
proof -
  have "ide_drive (ide_hw 0x1F0) (dev_base (ad_bus sample_drive)) fst (\<lambda>_. 0) (\<lambda>(d, busy). if busy then 1 else 0) 0 1"
    unfolding sample_base by (rule ide_unit.ide_drive_axioms)
  from ata_write_read [OF this, of 1 7 "replicate 256 5" sample_disk] show ?thesis
    by (fastforce simp: sample_drive_def sample_disk_def)
qed

end
