(* ===== verification/Procfs.thy ===== *)
theory Procfs
  imports Vfs Format
begin

text \<open>
  The process file system, \<^verbatim>\<open>kernel/fs/procfs.c\<close>: a fixed table of entries whose files are texts made with
  \<^verbatim>\<open>ksnprintf\<close> when they are read.  The function pointer of an entry is a value of \<open>proc_fn\<close>.  The structure \<^verbatim>\<open>file_ops\<close> that
  \<^verbatim>\<open>procfs_dir_lookup\<close> hands out is static, one for all files, so what its pointer \<^verbatim>\<open>read\<close> holds is part of the state.  The
  tick counter of \<^verbatim>\<open>lapic.c\<close> is part of the state too; \<open>junk\<close> is what the arrays on the stack hold before they are written.
\<close>

section \<open>State\<close>

definition PROCFS_MAX_ENTRIES :: nat where "PROCFS_MAX_ENTRIES = 32"

datatype proc_fn = Read_stat | Read_uptime | Read_maps

record procfs_entry =
  pe_name :: string
  pe_ino :: u64
  pe_type :: vfs_inode_type
  pe_read :: "proc_fn option"

record procfs_data =
  pr_entries :: "procfs_entry list"
  pr_next_ino :: nat

record procfs_store =
  ps_data :: procfs_data
  ps_file_read :: "proc_fn option"
  ps_ticks :: u64

type_synonym 'd pvfs = "('d, procfs_store) vfs"
type_synonym 'd penv = "('d, procfs_store) env"

definition procfs_dir_ops :: inode_ops where "procfs_dir_ops = other_ops 0"
definition procfs_sub_ops :: inode_ops where "procfs_sub_ops = other_ops 1"
definition procfs_file_ops :: inode_ops where "procfs_file_ops = other_ops 2"
definition procfs_sb_ops :: sb_ops where "procfs_sb_ops = other_sb_ops 0"

section \<open>Texts\<close>

text \<open>\<^verbatim>\<open>n += ksnprintf(tmp + n, sizeof(tmp) - n, fmt, ...)\<close>\<close>

definition kappend :: "bytes \<Rightarrow> varg list \<Rightarrow> int \<times> bytes \<Rightarrow> (int \<times> bytes) option" where
  "kappend fmt args s =
     (case s of (n, tmp) \<Rightarrow>
        do { (r, b) \<leftarrow> ksnprintf (Some (drop (nat n) tmp)) (length tmp - nat n) fmt args;
             b \<leftarrow> b;
             Some (wrap_int (n + r), take (nat n) tmp @ b) })"

definition line :: "string \<Rightarrow> bytes" where "line cs = map of_char cs @ [0x0A]"

text \<open>The bytes from \<open>offset\<close> on, at most \<open>sz\<close>, of the \<open>n\<close> bytes in \<^verbatim>\<open>tmp\<close>.\<close>

definition proc_slice :: "u64 \<Rightarrow> u64 \<Rightarrow> int \<times> bytes \<Rightarrow> int \<times> bytes" where
  "proc_slice offset sz s =
     (case s of (n, tmp) \<Rightarrow>
        if of_int n \<le> offset then (0, [])
        else let avail = of_int n - offset;
                 avail = (if sz < avail then sz else avail)
             in (to_int avail, map (\<lambda>i. tmp ! unat (offset + of_nat i)) [0..<unat avail]))"

definition procfs_read_stat :: "u8 \<Rightarrow> u64 \<Rightarrow> u64 \<Rightarrow> u64 \<Rightarrow> (int \<times> bytes) option" where
  "procfs_read_stat junk ticks offset sz =
     do { let uptime_sec = ticks div 1000;
          s \<leftarrow> kappend (line ''cpu  0 0 0 0 0 0 0 0 0 0'') [] (0, replicate 256 junk);
          s \<leftarrow> kappend (line ''intr 0 0 0 0 0 0 0 0 0 0'') [] s;
          s \<leftarrow> kappend (line ''ctxt 0'') [] s;
          s \<leftarrow> kappend (line ''btime %llu'') [Word uptime_sec] s;
          s \<leftarrow> kappend (line ''processes %d'') [Word 1] s;
          s \<leftarrow> kappend (line ''procs_running 1'') [] s;
          s \<leftarrow> kappend (line ''procs_blocked 0'') [] s;
          Some (proc_slice offset sz s) }"

definition procfs_read_uptime :: "u8 \<Rightarrow> u64 \<Rightarrow> u64 \<Rightarrow> u64 \<Rightarrow> (int \<times> bytes) option" where
  "procfs_read_uptime junk ticks offset sz =
     do { let uptime_sec = ticks div 1000;
          let uptime_us = ticks mod 1000 * 1000;
          s \<leftarrow> kappend (line ''%llu.%06llu 0.00'') [Word uptime_sec, Word uptime_us] (0, replicate 64 junk);
          Some (proc_slice offset sz s) }"

definition procfs_read_maps :: "u8 \<Rightarrow> u64 \<Rightarrow> u64 \<Rightarrow> (int \<times> bytes) option" where
  "procfs_read_maps junk offset sz =
     do { s \<leftarrow> kappend (line ''ffff800000000000-ffff800000200000 r-xp 00000000 00:00 0  /kernel'') [] (0, replicate 512 junk);
          s \<leftarrow> kappend (line ''ffff800000200000-ffff800000300000 rw-p 00200000 00:00 0  /kernel'') [] s;
          s \<leftarrow> kappend (line ''ffff800000300000-ffff800000400000 rw-p 00000000 00:00 0  [heap]'') [] s;
          s \<leftarrow> kappend (line ''ffff800000800000-ffff800000900000 rw-p 00000000 00:00 0  [stack]'') [] s;
          Some (proc_slice offset sz s) }"

text \<open>The call through the pointer.\<close>

definition proc_call :: "u8 \<Rightarrow> proc_fn \<Rightarrow> u64 \<Rightarrow> u64 \<Rightarrow> u64 \<Rightarrow> (int \<times> bytes) option" where
  "proc_call junk f ticks offset sz =
     (case f of Read_stat \<Rightarrow> procfs_read_stat junk ticks offset sz
              | Read_uptime \<Rightarrow> procfs_read_uptime junk ticks offset sz
              | Read_maps \<Rightarrow> procfs_read_maps junk offset sz)"

section \<open>Directories\<close>

definition procfs_of :: "u64 \<Rightarrow> 'd pvfs \<Rightarrow> procfs_data option" where
  "procfs_of dir s = (case vi_private (inodes s dir) of PrivAddr a \<Rightarrow> if a = 0 then None else Some (ps_data (fsx s)) | _ \<Rightarrow> None)"

definition procfs_dir_readdir :: "u64 \<Rightarrow> u32 \<Rightarrow> vfs_dentry \<Rightarrow> 'd pvfs \<Rightarrow> int \<times> vfs_dentry" where
  "procfs_dir_readdir dir index entry s =
     (case procfs_of dir s of
        None \<Rightarrow> (-1, entry)
      | Some d \<Rightarrow>
          if length (pr_entries d) \<le> unat index then (-1, entry)
          else let e = pr_entries d ! unat index
               in (0, \<lparr>de_name = take (VFS_NAME_MAX - 1) (pe_name e), de_ino = pe_ino e, de_type = pe_type e, de_size = 4096\<rparr>))"

definition procfs_dir_lookup :: "'d penv \<Rightarrow> u64 \<Rightarrow> string \<Rightarrow> 'd pvfs \<Rightarrow> (int \<times> u64 \<times> 'd pvfs) option" where
  "procfs_dir_lookup E dir name s =
     (case procfs_of dir s of
        None \<Rightarrow> Some (-1, 0, s)
      | Some d \<Rightarrow>
          (case find (\<lambda>e. path_match (pe_name e) name) (pr_entries d) of
             None \<Rightarrow> Some (-1, 0, s)
           | Some e \<Rightarrow>
               do { (p, s) \<leftarrow> k_malloc E INODE_SIZE s;
                    if p = 0 then Some (-1, 0, s)
                    else let ops = (if pe_type e = VFS_DIR then procfs_sub_ops else procfs_file_ops);
                             s = set_inode p (\<lambda>_. \<lparr>vi_ino = pe_ino e, vi_type = pe_type e, vi_size = 4096,
                                   vi_sb = vi_sb (inodes s dir), vi_ops = Some ops,
                                   vi_private = vi_private (inodes s dir), vi_refcount = 1\<rparr>) s
                         in Some (0, p, if pe_type e = VFS_DIR then s
                                        else s\<lparr>fsx := (fsx s)\<lparr>ps_file_read := pe_read e\<rparr>\<rparr>) }))"

definition procfs_destroy_inode :: "'d penv \<Rightarrow> u64 \<Rightarrow> u64 \<Rightarrow> 'd pvfs \<Rightarrow> 'd pvfs option" where
  "procfs_destroy_inode E root_inode p s = (if p = 0 \<or> p = root_inode then Some s else k_free E p s)"

definition procfs_alloc_inode :: "'d penv \<Rightarrow> 'd pvfs \<Rightarrow> (u64 \<times> 'd pvfs) option" where
  "procfs_alloc_inode E s =
     do { (p, s) \<leftarrow> k_malloc E INODE_SIZE s;
          if p = 0 then Some (0, s)
          else Some (p, set_inode p (\<lambda>_. \<lparr>vi_ino = 0, vi_type = VFS_FILE, vi_size = 0, vi_sb = SbNull,
                                        vi_ops = None, vi_private = PrivNull, vi_refcount = 1\<rparr>) s) }"

section \<open>Mounting\<close>

text \<open>One block of \<^verbatim>\<open>vfs_mount_procfs\<close>: the next entry, with a number of its own or with number 0.\<close>

definition add_entry :: "string \<Rightarrow> bool \<Rightarrow> vfs_inode_type \<Rightarrow> proc_fn option \<Rightarrow> procfs_data \<Rightarrow> procfs_data" where
  "add_entry name numbered ty rd d =
     \<lparr>pr_entries = pr_entries d @ [\<lparr>pe_name = name, pe_ino = (if numbered then of_nat (pr_next_ino d) else 0), pe_type = ty, pe_read = rd\<rparr>],
      pr_next_ino = (if numbered then pr_next_ino d + 1 else pr_next_ino d)\<rparr>"

definition procfs_table :: procfs_data where
  "procfs_table =
     (let d = \<lparr>pr_entries = [], pr_next_ino = 1\<rparr>;
          d = add_entry ''.'' False VFS_DIR None d;
          d = add_entry ''..'' False VFS_DIR None d;
          d = add_entry ''stat'' True VFS_FILE (Some Read_stat) d;
          d = add_entry ''uptime'' True VFS_FILE (Some Read_uptime) d;
          d = add_entry ''self'' True VFS_DIR None d
      in add_entry ''maps'' True VFS_FILE (Some Read_maps) d)"

text \<open>\<^verbatim>\<open>procfs_root_inode\<close>, \<^verbatim>\<open>procfs_sb\<close> and \<^verbatim>\<open>procfs_data\<close> are static; their addresses are arguments.\<close>

definition vfs_mount_procfs :: "u64 \<Rightarrow> u64 \<Rightarrow> u64 \<Rightarrow> string \<Rightarrow> 'd pvfs \<Rightarrow> int \<times> 'd pvfs" where
  "vfs_mount_procfs root_inode sb data path s =
     vfs_mount path (SbAddr sb)
       (s\<lparr>fsx := (fsx s)\<lparr>ps_data := procfs_table\<rparr>,
          inodes := (inodes s)(root_inode := \<lparr>vi_ino = 0, vi_type = VFS_DIR, vi_size = 0, vi_sb = SbAddr sb,
                      vi_ops = Some procfs_dir_ops, vi_private = PrivAddr data, vi_refcount = 1\<rparr>),
          superblocks := (superblocks s)(SbAddr sb := \<lparr>sb_mounted = True, sb_sb_ops = Some procfs_sb_ops,
                      sb_root = root_inode, sb_private = PrivAddr data\<rparr>)\<rparr>)"

text \<open>The tables of functions: \<^verbatim>\<open>procfs_dir_ops\<close> and the two static structures of \<^verbatim>\<open>procfs_dir_lookup\<close>.\<close>

definition procfs_dir_table :: "vfs_dentry \<Rightarrow> 'd penv \<Rightarrow> 'd pvfs fsops" where
  "procfs_dir_table entry E =
     \<lparr>op_read = None, op_write = None, op_truncate = None,
      op_readdir = Some (\<lambda>dir i s. let (r, e) = procfs_dir_readdir dir i entry s in Some (r, e, s)),
      op_lookup = Some (procfs_dir_lookup E), op_create = None, op_unlink = None, op_mkdir = None\<rparr>"

definition procfs_file_table :: "u8 \<Rightarrow> 'd pvfs fsops" where
  "procfs_file_table junk =
     \<lparr>op_read = Some (\<lambda>p off sz s.
        do { f \<leftarrow> ps_file_read (fsx s);
             (r, bs) \<leftarrow> proc_call junk f (ps_ticks (fsx s)) off sz;
             Some (r, bs, s) }),
      op_write = None, op_truncate = None, op_readdir = None, op_lookup = None, op_create = None, op_unlink = None, op_mkdir = None\<rparr>"

definition add_procfs :: "u8 \<Rightarrow> u64 \<Rightarrow> vfs_dentry \<Rightarrow> 'd penv \<Rightarrow> 'd penv" where
  "add_procfs junk root_inode entry E =
     E\<lparr>e_ops := (e_ops E)(procfs_dir_ops := procfs_dir_table entry E, procfs_sub_ops := procfs_dir_table entry E,
                          procfs_file_ops := procfs_file_table junk),
       e_destroy := (e_destroy E)(procfs_sb_ops := Some (procfs_destroy_inode E root_inode))\<rparr>"

section \<open>What the files contain\<close>

definition dec_text :: "u64 \<Rightarrow> bytes" where "dec_text n = map dec_char (rev (kdigits 10 n))"

definition zero_padded :: "nat \<Rightarrow> bytes \<Rightarrow> bytes" where "zero_padded w t = replicate (w - length t) 0x30 @ t"

definition proc_text :: "proc_fn \<Rightarrow> u64 \<Rightarrow> bytes" where
  "proc_text f ticks =
     (case f of
        Read_stat \<Rightarrow> line ''cpu  0 0 0 0 0 0 0 0 0 0'' @ line ''intr 0 0 0 0 0 0 0 0 0 0'' @ line ''ctxt 0'' @
          map of_char ''btime '' @ dec_text (ticks div 1000) @ [0x0A] @ line ''processes 1'' @
          line ''procs_running 1'' @ line ''procs_blocked 0''
      | Read_uptime \<Rightarrow> dec_text (ticks div 1000) @ [0x2E] @ zero_padded 6 (dec_text (ticks mod 1000 * 1000)) @ line '' 0.00''
      | Read_maps \<Rightarrow> line ''ffff800000000000-ffff800000200000 r-xp 00000000 00:00 0  /kernel'' @
          line ''ffff800000200000-ffff800000300000 rw-p 00200000 00:00 0  /kernel'' @
          line ''ffff800000300000-ffff800000400000 rw-p 00000000 00:00 0  [heap]'' @
          line ''ffff800000800000-ffff800000900000 rw-p 00000000 00:00 0  [stack]'')"

lemma ktext_Nil [simp]: "ktext [] args = Some []"
  by (simp add: ktext_def kvformat.simps)

lemma ktext_from: "kvformat snoc fmt args u = map_option ((@) u) (ktext fmt args)"
  by (simp add: kvformat_text fold_snoc)

lemma ktext_char: "c \<noteq> 0 \<Longrightarrow> c \<noteq> 0x25 \<Longrightarrow> ktext (c # fmt) args = map_option (Cons c) (ktext fmt args)"
  unfolding ktext_def [of "c # fmt"] by (cases "ktext fmt args") (simp_all add: kvformat.simps ktext_from snoc_def)

lemma ktext_plain: "\<forall>c \<in> set t. c \<noteq> 0 \<and> c \<noteq> 0x25 \<Longrightarrow> ktext (t @ fmt) args = map_option ((@) t) (ktext fmt args)"
  by (induction t; cases "ktext fmt args") (simp_all add: ktext_char)

lemma ktext_llu: "ktext (0x25 # 0x6C # 0x6C # 0x75 # fmt) (Word n # args) = map_option ((@) (dec_text n)) (ktext fmt args)"
proof -
  have "kspec (0x6C # 0x6C # 0x75 # fmt) = (False, 0, True, 0x75 # fmt)" by (simp add: kspec_def take_char_def is_digit_def)
  moreover have "padded 21 0 False (map dec_char (kdigits 10 n)) = Some (dec_text n)"
    using kdigits_dec_length [of n] by (simp add: padded_none dec_text_def rev_map)
  ultimately show ?thesis unfolding ktext_def [of "_ # _"]
    by (simp add: kvformat.simps kconversion_def print_dec_def ktext_from fold_snoc)
qed

lemma ktext_06llu:
  "ktext (0x25 # 0x30 # 0x36 # 0x6C # 0x6C # 0x75 # fmt) (Word n # args) =
     map_option ((@) (zero_padded 6 (dec_text n))) (ktext fmt args)"
proof -
  have "kspec (0x30 # 0x36 # 0x6C # 0x6C # 0x75 # fmt) = (True, 6, True, 0x75 # fmt)"
    by (simp add: kspec_def take_char_def is_digit_def wrap_int_def)
  moreover have "padded 21 6 True (map dec_char (kdigits 10 n)) = Some (zero_padded 6 (dec_text n))"
    using kdigits_dec_length [of n] by (simp add: padded_def dec_text_def zero_padded_def rev_map)
  ultimately show ?thesis unfolding ktext_def [of "_ # _"]
    by (simp add: kvformat.simps kconversion_def print_dec_def ktext_from fold_snoc)
qed

lemma ktext_line:
  assumes "\<forall>c \<in> set t. of_char c \<noteq> (0 :: u8) \<and> of_char c \<noteq> (0x25 :: u8)"
  shows "ktext (line t) args = Some (line t)"
  using ktext_plain [of "line t" "[]" args] assms by (simp add: line_def)

lemma length_dec_text: "0 < length (dec_text n)" "length (dec_text n) \<le> 20"
  using kdigits_dec_length [of n] kdigits_spec(1) [of 10 n] by (simp_all add: dec_text_def)

lemma length_line [simp]: "length (line t) = Suc (length t)"
  by (simp add: line_def)

text \<open>A text that fits behind \<open>u\<close> is appended whole.\<close>

lemma kappend_fits:
  assumes "ktext fmt args = Some t" and "length u + length t < length u + length r" and "length u + length r < 2 ^ 31"
  shows "kappend fmt args (int (length u), u @ r) = Some (int (length (u @ t)), (u @ t) @ 0 # drop (Suc (length t)) r)"
proof -
  have "ksnprintf (Some r) (length r) fmt args = Some (int (length t), Some (t @ 0 # drop (Suc (length t)) r))"
    using ksnprintf_text [of r "length r" fmt args t] assms by (cases r) (simp_all add: wrap_int_id)
  then show ?thesis using assms(2,3) by (simp add: kappend_def wrap_int_id)
qed

lemma proc_slice_text:
  assumes "length t < 2 ^ 31"
  shows "proc_slice offset sz (int (length t), t @ r) =
    (int (length (take (unat sz) (drop (unat offset) t))), take (unat sz) (drop (unat offset) t))"
proof -
  let ?n = "of_nat (length t) :: u64"
  have n: "unat ?n = length t" using assms by (intro unat_of_nat64) simp
  show ?thesis
  proof (cases "?n \<le> offset")
    case True
    then show ?thesis using n by (simp add: proc_slice_def word_le_nat_alt)
  next
    case False
    then have lt: "unat offset < length t" using n by (simp add: word_le_nat_alt)
    have sub: "unat (?n - offset) = length t - unat offset" using lt n by (simp add: unat_sub word_le_nat_alt)
    define av where "av = (if sz < ?n - offset then sz else ?n - offset)"
    have av: "unat av = min (unat sz) (length t - unat offset)"
      using sub by (auto simp: av_def word_less_nat_alt min_def)
    have "(t @ r) ! unat (offset + of_nat i) = t ! (unat offset + i)" if "i < unat av" for i
    proof -
      have "unat (of_nat i :: u64) = i" using that av assms by (intro unat_of_nat64) (simp, linarith)
      then have "unat (offset + of_nat i) = unat offset + i" using that av lt assms by (subst unat_add_nowrap) (simp, linarith, simp)
      moreover have "unat offset + i < length t" using that av lt by (simp, linarith)
      ultimately show ?thesis by (simp add: nth_append)
    qed
    then have "map (\<lambda>i. (t @ r) ! unat (offset + of_nat i)) [0..<unat av] = take (unat sz) (drop (unat offset) t)"
      using av lt by (intro nth_equalityI) simp_all
    moreover have "unat av < 2 ^ 31" using av assms by linarith
    then have "to_int av = int (unat av)" using to_int_small [of "unat av"] by simp
    then have "to_int av = int (min (length t - unat offset) (unat sz))"
      by (simp only: av min.commute)
    ultimately show ?thesis using False by (simp add: proc_slice_def Let_def flip: av_def)
  qed
qed

text \<open>Appending one text after another to an empty array.\<close>

lemma kappend_step:
  assumes "ktext fmt args = Some t" and "length u + length t < k" and "k < 2 ^ 31" and "length u + length r = k"
  shows "\<exists>r'. kappend fmt args (int (length u), u @ r) = Some (int (length (u @ t)), (u @ t) @ r') \<and> length (u @ t) + length r' = k"
  using kappend_fits [OF assms(1), of u r] assms(2-4) by simp

lemma proc_text_short: "length (proc_text f ticks) < (case f of Read_stat \<Rightarrow> 256 | Read_uptime \<Rightarrow> 64 | Read_maps \<Rightarrow> 512)"
  using length_dec_text(2) [of "ticks div 1000"] length_dec_text(2) [of "ticks mod 1000 * 1000"]
  by (cases f) (simp_all add: proc_text_def zero_padded_def)

fun kappend_all :: "(bytes \<times> varg list) list \<Rightarrow> int \<times> bytes \<Rightarrow> (int \<times> bytes) option" where
  "kappend_all [] s = Some s"
| "kappend_all ((fmt, args) # fs) s = Option.bind (kappend fmt args s) (kappend_all fs)"

lemma kappend_all_text:
  assumes "list_all2 (\<lambda>(fmt, args) t. ktext fmt args = Some t) fs ts" and "length u + length (concat ts) < k" and "k < 2 ^ 31"
    and "length u + length r = k"
  shows "\<exists>r'. kappend_all fs (int (length u), u @ r) = Some (int (length (u @ concat ts)), (u @ concat ts) @ r')"
  using assms
proof (induction fs ts arbitrary: u r rule: list_all2_induct)
  case (Cons f fs t ts)
  obtain fmt args where f: "f = (fmt, args)" by (cases f)
  obtain r' where r': "kappend fmt args (int (length u), u @ r) = Some (int (length (u @ t)), (u @ t) @ r')"
      "length (u @ t) + length r' = k"
    using kappend_step [of fmt args t u k r] Cons.hyps(1) Cons.prems f by auto
  then show ?case using Cons.IH [of "u @ t" r'] Cons.prems f by auto
qed simp

lemma kappend_all_slice:
  assumes "list_all2 (\<lambda>(fmt, args) t. ktext fmt args = Some t) fs ts" and "length (concat ts) < k" and "k < 2 ^ 31"
  shows "Option.bind (kappend_all fs (0, replicate k junk)) (\<lambda>s. Some (proc_slice offset sz s)) =
    Some (int (length (take (unat sz) (drop (unat offset) (concat ts)))), take (unat sz) (drop (unat offset) (concat ts)))"
  using kappend_all_text [OF assms(1), of "[]" k "replicate k junk"] assms(2,3)
    proc_slice_text [of "concat ts"] by auto

lemma ktext_btime: "ktext (line ''btime %llu'') [Word n] = Some (map of_char ''btime '' @ dec_text n @ [0x0A])"
  by (simp add: line_def ktext_char ktext_llu)

lemma ktext_processes: "ktext (line ''processes %d'') [Word 1] = Some (line ''processes 1'')"
proof -
  have "kspec [0x64, 0x0A] = (False, 0, False, [0x64, 0x0A])" by (simp add: kspec_def take_char_def is_digit_def)
  moreover have "kdigits 10 1 = [1]" by (simp add: kdigits_def while_digits.simps)
  ultimately have "ktext [0x25, 0x64, 0x0A] [Word 1] = Some [0x31, 0x0A]"
    by (simp add: ktext_def kvformat.simps kconversion_def print_dec_def padded_def as_int_def dec_char_def snoc_def)
  then show ?thesis by (simp add: line_def ktext_char)
qed

lemma ktext_uptime:
  "ktext (line ''%llu.%06llu 0.00'') [Word n, Word k] = Some (dec_text n @ [0x2E] @ zero_padded 6 (dec_text k) @ line '' 0.00'')"
  by (simp add: line_def ktext_char ktext_llu ktext_06llu)

lemma proc_call_text:
  "proc_call junk f ticks offset sz =
     (let bs = take (unat sz) (drop (unat offset) (proc_text f ticks)) in Some (int (length bs), bs))"
proof (cases f)
    case Read_stat
    let ?fs = "[(line ''cpu  0 0 0 0 0 0 0 0 0 0'', []), (line ''intr 0 0 0 0 0 0 0 0 0 0'', []), (line ''ctxt 0'', []),
      (line ''btime %llu'', [Word (ticks div 1000)]), (line ''processes %d'', [Word 1]), (line ''procs_running 1'', []),
      (line ''procs_blocked 0'', [])]"
    let ?ts = "[line ''cpu  0 0 0 0 0 0 0 0 0 0'', line ''intr 0 0 0 0 0 0 0 0 0 0'', line ''ctxt 0'',
      map of_char ''btime '' @ dec_text (ticks div 1000) @ [0x0A], line ''processes 1'', line ''procs_running 1'',
      line ''procs_blocked 0'']"
    have "list_all2 (\<lambda>(fmt, args) t. ktext fmt args = Some t) ?fs ?ts" by (simp add: ktext_line ktext_btime ktext_processes)
    moreover have "concat ?ts = proc_text f ticks" by (simp add: Read_stat proc_text_def)
    moreover have "proc_call junk f ticks offset sz = Option.bind (kappend_all ?fs (0, replicate 256 junk)) (\<lambda>s. Some (proc_slice offset sz s))"
      by (simp add: Read_stat proc_call_def procfs_read_stat_def Let_def bind_assoc)
    ultimately show ?thesis using kappend_all_slice [of ?fs ?ts 256 junk offset sz] proc_text_short [of f ticks] Read_stat
      by (simp only: Let_def) simp
  next
    case Read_uptime
    let ?fs = "[(line ''%llu.%06llu 0.00'', [Word (ticks div 1000), Word (ticks mod 1000 * 1000)])]"
    let ?ts = "[proc_text f ticks]"
    have "list_all2 (\<lambda>(fmt, args) t. ktext fmt args = Some t) ?fs ?ts" by (simp add: ktext_uptime Read_uptime proc_text_def)
    moreover have "proc_call junk f ticks offset sz = Option.bind (kappend_all ?fs (0, replicate 64 junk)) (\<lambda>s. Some (proc_slice offset sz s))"
      by (simp add: Read_uptime proc_call_def procfs_read_uptime_def Let_def bind_assoc)
    ultimately show ?thesis using kappend_all_slice [of ?fs ?ts 64 junk offset sz] proc_text_short [of f ticks] Read_uptime
      by (simp only: Let_def) simp
  next
    case Read_maps
    let ?ts = "[line ''ffff800000000000-ffff800000200000 r-xp 00000000 00:00 0  /kernel'',
      line ''ffff800000200000-ffff800000300000 rw-p 00200000 00:00 0  /kernel'',
      line ''ffff800000300000-ffff800000400000 rw-p 00000000 00:00 0  [heap]'',
      line ''ffff800000800000-ffff800000900000 rw-p 00000000 00:00 0  [stack]'']"
    let ?fs = "map (\<lambda>t. (t, [] :: varg list)) ?ts"
    have "list_all2 (\<lambda>(fmt, args) t. ktext fmt args = Some t) ?fs ?ts" by (simp add: ktext_line)
    moreover have "concat ?ts = proc_text f ticks" by (simp add: Read_maps proc_text_def)
    moreover have "proc_call junk f ticks offset sz = Option.bind (kappend_all ?fs (0, replicate 512 junk)) (\<lambda>s. Some (proc_slice offset sz s))"
      by (simp add: Read_maps proc_call_def procfs_read_maps_def Let_def bind_assoc)
    ultimately show ?thesis using kappend_all_slice [of ?fs ?ts 512 junk offset sz] proc_text_short [of f ticks] Read_maps
      by (simp only: Let_def) simp
qed

section \<open>Looking up and reading\<close>

lemma procfs_entries:
  "map (\<lambda>e. (pe_name e, pe_type e, pe_read e)) (pr_entries procfs_table) =
     [(''.'', VFS_DIR, None), (''..'', VFS_DIR, None), (''stat'', VFS_FILE, Some Read_stat), (''uptime'', VFS_FILE, Some Read_uptime),
      (''self'', VFS_DIR, None), (''maps'', VFS_FILE, Some Read_maps)]"
  by (simp add: procfs_table_def add_entry_def)

fun proc_name :: "proc_fn \<Rightarrow> string" where
  "proc_name Read_stat = ''stat''"
| "proc_name Read_uptime = ''uptime''"
| "proc_name Read_maps = ''maps''"

lemma find_proc:
  "\<exists>e. find (\<lambda>e. path_match (pe_name e) (proc_name f)) (pr_entries procfs_table) = Some e \<and> pe_type e = VFS_FILE \<and> pe_read e = Some f"
  by (cases f) (simp_all add: procfs_table_def add_entry_def)

text \<open>
  C35 (functional): after the mount, a lookup of a file in a directory of the process file system gives an inode whose reads return
  the text of that file; but from then on the reads of every file of this file system that was opened before return the text of
  the file looked up last, because they share one table of functions.
\<close>

theorem procfs_last_lookup_wins:
  assumes "ps_data (fsx s) = procfs_table" and "vi_private (inodes s dir) = PrivAddr data" and "data \<noteq> 0"
    and "k_malloc E INODE_SIZE s = Some (p, s1)" and "p \<noteq> 0" and "fsx s1 = fsx s" and "inodes s1 = inodes s"
  shows "\<exists>s'. procfs_dir_lookup E dir (proc_name f) s = Some (0, p, s') \<and>
    (\<forall>q. q = p \<or> vi_ops (inodes s q) = Some procfs_file_ops \<longrightarrow>
      (\<exists>rd. ops_of (add_procfs junk root entry E) op_read q s' = Some rd \<and>
         (\<forall>offset sz. let bs = take (unat sz) (drop (unat offset) (proc_text f (ps_ticks (fsx s)))) in
            rd q offset sz s' = Some (int (length bs), bs, s'))))"
proof -
  obtain e where e: "find (\<lambda>e. path_match (pe_name e) (proc_name f)) (pr_entries procfs_table) = Some e"
    "pe_type e = VFS_FILE" "pe_read e = Some f" using find_proc by blast
  show ?thesis
    using assms e proc_call_text [of junk f]
    by (simp add: procfs_dir_lookup_def procfs_of_def ops_of_def add_procfs_def procfs_file_table_def set_inode_def Let_def)
qed

definition proc_env :: "(u64 \<Rightarrow> u8) penv" where
  "proc_env = \<lparr>e_ops = (\<lambda>_. no_ops), e_destroy = (\<lambda>_. None), k_malloc = (\<lambda>n s. Some (0x1000, s)), k_free = (\<lambda>p s. Some s),
     e_drv = ram_driver\<rparr>"

definition proc_vfs :: "(u64 \<Rightarrow> u8) pvfs" where
  "proc_vfs = snd (vfs_mount_procfs 0x2000 0x3000 0x4000 ''/proc''
     \<lparr>inodes = (\<lambda>_. blank_inode), superblocks = (\<lambda>_. blank_sb), file_table = [], file_count = 0,
      mounts = replicate 16 \<lparr>mnt_path = [], mnt_sb = blank_sb\<rparr>, mount_count = 1, devfs_dirs = (\<lambda>_. \<lparr>dd_entries = [], dd_next_ino = 0\<rparr>),
      blk = one_part, disk = (\<lambda>_. 0),
      fsx = \<lparr>ps_data = \<lparr>pr_entries = [], pr_next_ino = 0\<rparr>, ps_file_read = None, ps_ticks = 61500\<rparr>\<rparr>)"

lemma proc_vfs_root: "ps_data (fsx proc_vfs) = procfs_table" "vi_private (inodes proc_vfs 0x2000) = PrivAddr 0x4000"
  "ps_ticks (fsx proc_vfs) = 61500"
  by (simp_all add: proc_vfs_def vfs_mount_procfs_def vfs_mount_def vfs_limits Let_def)

theorem procfs_last_lookup_wins_witness:
  "\<exists>s' rd. procfs_dir_lookup proc_env 0x2000 ''maps'' proc_vfs = Some (0, 0x1000, s') \<and>
     ops_of (add_procfs 0 0x2000 \<lparr>de_name = [], de_ino = 0, de_type = VFS_FILE, de_size = 0\<rparr> proc_env) op_read 0x1000 s' = Some rd \<and>
     rd 0x1000 0 8 s' = Some (8, map of_char ''ffff8000'', s')"
proof -
  have "k_malloc proc_env INODE_SIZE proc_vfs = Some (0x1000, proc_vfs)" by (simp add: proc_env_def)
  from procfs_last_lookup_wins [OF proc_vfs_root(1,2) _ this _ refl refl, where f = Read_maps and junk = 0 and root = "0x2000"
      and entry = "\<lparr>de_name = [], de_ino = 0, de_type = VFS_FILE, de_size = 0\<rparr>"]
  show ?thesis by (fastforce simp: proc_text_def line_def)
qed

text \<open>\<^verbatim>\<open>/proc/self\<close> is the root again: its listing is that of the root, itself included.\<close>

lemma procfs_self_is_root:
  assumes "ps_data (fsx s) = procfs_table" and "vi_private (inodes s dir) = PrivAddr data" and "data \<noteq> 0"
    and "k_malloc E INODE_SIZE s = Some (p, s1)" and "p \<noteq> 0" and "fsx s1 = fsx s" and "inodes s1 = inodes s"
  shows "\<exists>s'. procfs_dir_lookup E dir ''self'' s = Some (0, p, s') \<and>
    procfs_dir_readdir p index entry s' = procfs_dir_readdir dir index entry s"
proof -
  obtain e where "find (\<lambda>e. path_match (pe_name e) ''self'') (pr_entries procfs_table) = Some e" "pe_type e = VFS_DIR"
    by (simp add: procfs_table_def add_entry_def)
  then show ?thesis using assms
    by (simp add: procfs_dir_lookup_def procfs_dir_readdir_def procfs_of_def set_inode_def Let_def)
qed

end
