(* ===== verification/Shell.thy ===== *)
theory Shell
  imports Keyboard
begin

text \<open>
  The shell, \<^verbatim>\<open>user/shell.c\<close>: its line editor with history, the splitting of a line into words, and the commands it runs.
  The results of \<^verbatim>\<open>read(0, &c, 1)\<close> are a list, in which \<open>None\<close> is a call that returned nothing; an operation that needs more of
  them than there are is \<open>None\<close>.  \<open>sh_out\<close> is what has been written to the terminal.  An entry of the history is its string
  without the NUL.  The two \<^verbatim>\<open>switch\<close> statements of \<^verbatim>\<open>readline\<close>, for single codes and for escape sequences, repeat each other;
  \<open>read_key\<close> is the way to a case and \<open>sh_key\<close> what is done there.
\<close>

section \<open>The line editor\<close>

definition SH_LINE_MAX :: nat where "SH_LINE_MAX = 256"
definition MAX_ARGS :: nat where "MAX_ARGS = 16"
definition SH_HISTORY_MAX :: nat where "SH_HISTORY_MAX = 64"

lemmas sh_limits = SH_LINE_MAX_def MAX_ARGS_def SH_HISTORY_MAX_def

type_synonym rd = "u8 option list"

record shell =
  sh_buf :: bytes
  sh_idx :: nat
  sh_cursor :: nat
  sh_browsing :: "nat option"
  sh_saved :: bytes
  sh_prev :: nat
  sh_hist :: "bytes list"
  sh_out :: bytes

definition sh_write :: "bytes \<Rightarrow> shell \<Rightarrow> shell" where
  "sh_write bs s = s\<lparr>sh_out := sh_out s @ bs\<rparr>"

definition sh_print :: "bytes \<Rightarrow> shell \<Rightarrow> shell" where
  "sh_print t s = sh_write (takeWhile (\<lambda>c. c \<noteq> 0) t) s"

definition sh_println :: "bytes \<Rightarrow> shell \<Rightarrow> shell" where
  "sh_println t s = sh_write [0x0A] (sh_print t s)"

text \<open>A difference that is negative makes the loops of \<^verbatim>\<open>redraw_line\<close> empty.\<close>

definition redraw_line :: "bytes \<Rightarrow> nat \<Rightarrow> nat \<Rightarrow> shell \<Rightarrow> shell" where
  "redraw_line buf idx cursor s =
     (let s = sh_write (take idx buf) (sh_write [0x0D, 0x24, 0x20] s);
          clear = sh_prev s - idx;
          s = sh_write (replicate clear 0x20) s;
          move = idx + clear - cursor;
          s = sh_write (replicate move 0x08) s
      in s\<lparr>sh_prev := idx\<rparr>)"

definition sh_hist_strcmp :: "bytes \<Rightarrow> bytes \<Rightarrow> int" where
  "sh_hist_strcmp a b = hist_strcmp a b"

datatype key = Enter | Up | Down | GoLeft | GoRight | Home | EndKey | Del | Back | Ins u8 | Ignored

definition is_alpha :: "u8 \<Rightarrow> bool" where
  "is_alpha d \<longleftrightarrow> 0x41 \<le> d \<and> d \<le> 0x5A \<or> 0x61 \<le> d \<and> d \<le> 0x7A"

text \<open>\<^verbatim>\<open>while (read(0, &d, 1) > 0 && !(letter or '~'));\<close>\<close>

fun skip_seq :: "rd \<Rightarrow> rd option" where
  "skip_seq [] = None"
| "skip_seq (None # inp) = Some inp"
| "skip_seq (Some d # inp) = (if is_alpha d \<or> d = 0x7E then Some inp else skip_seq inp)"

definition bracket_key :: "u8 \<Rightarrow> rd \<Rightarrow> (key \<times> rd) option" where
  "bracket_key b inp =
     (if b = 0x41 then Some (Up, inp)
      else if b = 0x42 then Some (Down, inp)
      else if b = 0x43 then Some (GoRight, inp)
      else if b = 0x44 then Some (GoLeft, inp)
      else if b = 0x48 then Some (Home, inp)
      else if b = 0x46 then Some (EndKey, inp)
      else if b = 0x33
      then (case inp of
              [] \<Rightarrow> None
            | t # inp \<Rightarrow> Some (if t = Some 0x7E then Del else Ignored, inp))
      else map_option (Pair Ignored) (skip_seq inp))"

fun esc_key :: "rd \<Rightarrow> (key \<times> rd) option" where
  "esc_key [] = None"
| "esc_key (None # inp) = Some (Ignored, inp)"
| "esc_key [Some a] = None"
| "esc_key (Some a # None # inp) = Some (Ignored, inp)"
| "esc_key (Some a # Some b # inp) =
     (if a = 0x5B then bracket_key b inp
      else if is_alpha b then Some (Ignored, inp) else map_option (Pair Ignored) (skip_seq inp))"

definition high_key :: "u8 \<Rightarrow> key" where
  "high_key c =
     (if c = 0x80 then Up else if c = 0x81 then Down else if c = 0x82 then GoLeft else if c = 0x83 then GoRight
      else if c = 0x84 then Home else if c = 0x85 then EndKey else if c = 0x86 then Del else Ignored)"

fun read_key :: "rd \<Rightarrow> (key \<times> rd) option" where
  "read_key [] = None"
| "read_key (None # inp) = Some (Ignored, inp)"
| "read_key (Some c # inp) =
     (if c = 0x0A then Some (Enter, inp)
      else if 0x80 \<le> c then Some (high_key c, inp)
      else if c = 0x1B then esc_key inp
      else if c = 0x08 \<or> c = 127 then Some (Back, inp)
      else if c < 32 then Some (Ignored, inp)
      else Some (Ins c, inp))"

text \<open>Showing an entry of the history or the saved line, with the cursor behind it.\<close>

definition sh_show :: "nat \<Rightarrow> bytes \<Rightarrow> shell \<Rightarrow> shell" where
  "sh_show mx h s =
     (let (idx, buf) = copy_line (byte_at h) (mx - 1) 0 (sh_buf s)
      in redraw_line buf idx idx (s\<lparr>sh_buf := buf, sh_idx := idx, sh_cursor := idx\<rparr>))"

definition hist_up :: "nat \<Rightarrow> shell \<Rightarrow> shell" where
  "hist_up mx s =
     (if sh_hist s = [] then s
      else (case sh_browsing s of
              None \<Rightarrow>
                let saved = fold (\<lambda>i m. m[i := sh_buf s ! i]) [0..<min (sh_idx s) (SH_LINE_MAX - 1)] (sh_saved s);
                    k = length (sh_hist s) - 1
                in sh_show mx (sh_hist s ! k) (s\<lparr>sh_saved := saved[sh_idx s := 0], sh_browsing := Some k\<rparr>)
            | Some 0 \<Rightarrow> s
            | Some (Suc k) \<Rightarrow> sh_show mx (sh_hist s ! k) (s\<lparr>sh_browsing := Some k\<rparr>)))"

definition hist_down :: "nat \<Rightarrow> shell \<Rightarrow> shell" where
  "hist_down mx s =
     (case sh_browsing s of
        None \<Rightarrow> s
      | Some k \<Rightarrow>
          if k + 1 < length (sh_hist s) then sh_show mx (sh_hist s ! (k + 1)) (s\<lparr>sh_browsing := Some (k + 1)\<rparr>)
          else sh_show mx (sh_saved s) (s\<lparr>sh_browsing := None\<rparr>))"

definition go_to :: "nat \<Rightarrow> shell \<Rightarrow> shell" where
  "go_to cursor s = redraw_line (sh_buf s) (sh_idx s) cursor (s\<lparr>sh_cursor := cursor\<rparr>)"

definition sh_delete :: "shell \<Rightarrow> shell" where
  "sh_delete s =
     (if sh_cursor s < sh_idx s
      then let buf = fold (\<lambda>i b. b[sh_cursor s + i := b ! (sh_cursor s + 1 + i)]) [0..<sh_idx s - sh_cursor s] (sh_buf s);
               idx = sh_idx s - 1
           in redraw_line buf idx (sh_cursor s) (s\<lparr>sh_buf := buf, sh_idx := idx\<rparr>)
      else s)"

definition sh_backspace :: "shell \<Rightarrow> shell" where
  "sh_backspace s =
     (if 0 < sh_cursor s
      then let buf = fold (\<lambda>i b. b[sh_cursor s - 1 + i := b ! (sh_cursor s + i)]) [0..<sh_idx s - sh_cursor s] (sh_buf s);
               idx = sh_idx s - 1;
               cursor = sh_cursor s - 1
           in redraw_line buf idx cursor (s\<lparr>sh_buf := buf, sh_idx := idx, sh_cursor := cursor\<rparr>)
      else s)"

definition sh_insert :: "nat \<Rightarrow> u8 \<Rightarrow> shell \<Rightarrow> shell" where
  "sh_insert mx c s =
     (if sh_idx s < mx - 1
      then let buf = (fold (\<lambda>i b. b[i := b ! (i - 1)]) (rev [sh_cursor s + 1..<sh_idx s + 1]) (sh_buf s))[sh_cursor s := c];
               idx = sh_idx s + 1;
               cursor = sh_cursor s + 1
           in redraw_line buf idx cursor (s\<lparr>sh_buf := buf, sh_idx := idx, sh_cursor := cursor\<rparr>)
      else s)"

text \<open>Enter: the line is terminated and, unless it is empty or repeats the last entry, added to the history.\<close>

definition sh_enter :: "shell \<Rightarrow> shell" where
  "sh_enter s =
     (let buf = (sh_buf s)[sh_idx s := 0];
          s = sh_write [0x0A] (s\<lparr>sh_buf := buf\<rparr>);
          h = sh_hist s
      in if 0 < sh_idx s \<and> (h = [] \<or> sh_hist_strcmp (last h) (take (sh_idx s) buf) \<noteq> 0)
         then s\<lparr>sh_hist := (if length h = SH_HISTORY_MAX then tl h else h) @ [take (min (sh_idx s) (SH_LINE_MAX - 1)) buf]\<rparr>
         else s)"

fun sh_key :: "nat \<Rightarrow> key \<Rightarrow> shell \<Rightarrow> shell" where
  "sh_key mx Enter s = sh_enter s"
| "sh_key mx Up s = hist_up mx s"
| "sh_key mx Down s = hist_down mx s"
| "sh_key mx GoLeft s = (if 0 < sh_cursor s then go_to (sh_cursor s - 1) s else s)"
| "sh_key mx GoRight s = (if sh_cursor s < sh_idx s then go_to (sh_cursor s + 1) s else s)"
| "sh_key mx Home s = go_to 0 s"
| "sh_key mx EndKey s = go_to (sh_idx s) s"
| "sh_key mx Del s = sh_delete s"
| "sh_key mx Back s = sh_backspace s"
| "sh_key mx (Ins c) s = sh_insert mx c s"
| "sh_key mx Ignored s = s"

lemma skip_seq_shorter: "skip_seq inp = Some r \<Longrightarrow> length r < length inp"
  by (induction inp rule: skip_seq.induct) (auto split: if_splits)

lemma esc_key_shorter: "esc_key inp = Some (k, r) \<Longrightarrow> length r < length inp"
  by (induction inp rule: esc_key.induct)
    (auto simp: bracket_key_def split: if_splits list.splits dest: skip_seq_shorter)

lemma read_key_shorter: "read_key inp = Some (k, r) \<Longrightarrow> length r < length inp"
  by (induction inp rule: read_key.induct) (auto split: if_splits dest: esc_key_shorter)

text \<open>The loop; the result is the length of the line and what has not been read.\<close>

function sh_loop :: "nat \<Rightarrow> rd \<Rightarrow> shell \<Rightarrow> (nat \<times> rd \<times> shell) option" where
  "sh_loop mx inp s =
     (case read_key inp of
        None \<Rightarrow> None
      | Some (k, inp') \<Rightarrow> if k = Enter then Some (sh_idx s, inp', sh_key mx k s) else sh_loop mx inp' (sh_key mx k s))"
  by pat_completeness auto
termination by (relation "measure (\<lambda>(mx, inp, s). length inp)") (auto dest: read_key_shorter)

declare sh_loop.simps [simp del]

definition sh_readline :: "nat \<Rightarrow> rd \<Rightarrow> shell \<Rightarrow> (nat \<times> rd \<times> shell) option" where
  "sh_readline mx inp s = sh_loop mx inp (s\<lparr>sh_browsing := None, sh_idx := 0, sh_cursor := 0, sh_prev := 0\<rparr>)"

section \<open>The line on the console\<close>

text \<open>
  What is written to descriptor 1 goes to the console, \<^verbatim>\<open>vga_putchar\<close> of theory Console with its 80 columns, character by
  character.  A line is shown on row \<open>r\<close> when the cells of the row are its characters with blanks behind them and the
  cursor is in column \<open>c\<close> of the row.
\<close>

definition cells :: "bytes \<Rightarrow> nat \<Rightarrow> u8" where "cells t j = (if j < length t then t ! j else 0x20)"

definition prompt :: bytes where "prompt = [0x24, 0x20]"

definition printable :: "u8 \<Rightarrow> bool" where "printable c \<longleftrightarrow> 0x20 \<le> c \<and> c < 0x7F"

definition line_shown :: "vga \<Rightarrow> u8 \<Rightarrow> int \<Rightarrow> bytes \<Rightarrow> nat \<Rightarrow> bool" where
  "line_shown v color r t c \<longleftrightarrow> on_screen v \<and> vga_get_cursor v = (r, int c) \<and>
     (\<forall>j < 80. vbuf v (r * 80 + int j) = vga_entry (cells t j) color)"

definition row_text :: "u8 \<Rightarrow> int \<Rightarrow> (nat \<Rightarrow> u8) \<Rightarrow> (int \<Rightarrow> u16) \<Rightarrow> int \<Rightarrow> u16" where
  "row_text color r f b i = (if r * 80 \<le> i \<and> i < r * 80 + 80 then vga_entry (f (nat (i - r * 80))) color else b i)"

definition console_at :: "vga \<Rightarrow> (int \<Rightarrow> u16) \<Rightarrow> int \<Rightarrow> nat \<Rightarrow> bool" where
  "console_at v b r c \<longleftrightarrow> on_screen v \<and> vbuf v = b \<and> vga_row v = r \<and> vga_col v = int c"

lemma line_shown_console:
  "line_shown v color r t c \<longleftrightarrow> console_at v (row_text color r (cells t) (vbuf v)) r c"
proof -
  have "(\<forall>j < 80. vbuf v (r * 80 + int j) = vga_entry (cells t j) color) \<longleftrightarrow> vbuf v = row_text color r (cells t) (vbuf v)"
  proof
    assume *: "\<forall>j < 80. vbuf v (r * 80 + int j) = vga_entry (cells t j) color"
    show "vbuf v = row_text color r (cells t) (vbuf v)"
    proof (rule ext)
      fix i
      show "vbuf v i = row_text color r (cells t) (vbuf v) i"
        using * [rule_format, of "nat (i - r * 80)"] by (auto simp: row_text_def)
    qed
  next
    assume *: "vbuf v = row_text color r (cells t) (vbuf v)"
    show "\<forall>j < 80. vbuf v (r * 80 + int j) = vga_entry (cells t j) color"
      by (subst *) (simp add: row_text_def)
  qed
  then show ?thesis by (auto simp: line_shown_def console_at_def vga_get_cursor_def)
qed

lemma console_put:
  assumes "console_at v (row_text color r f b) r c" "printable ch" "c + 1 < 80"
  shows "console_at (vga_putchar ch color v) (row_text color r (f(c := ch)) b) r (c + 1)"
proof -
  have ch: "ch \<notin> {0x0D, 0x08, 0x0A, 0x09}" using assms(2) by (auto simp: printable_def)
  have v: "vga_row v = r" "vga_col v = int c" "vbuf v = row_text color r f b" "0 \<le> r" "r < 25"
    using assms(1) by (simp_all add: console_at_def on_screen_def)
  have "(row_text color r f b)(r * 80 + int c := vga_entry ch color) = row_text color r (f(c := ch)) b"
    using assms(3) by (auto simp: row_text_def fun_eq_iff)
  moreover have "vga_putchar ch color v = vga_sync_cursor (put_cell (vga_entry ch color) v)"
    using ch assms(3) v by (simp add: vga_putchar_def Let_def vga_size put_cell_def)
  ultimately show ?thesis
    using sync_on_screen(1) [of "put_cell (vga_entry ch color) v"] v assms(3)
    by (simp add: console_at_def put_cell_def vga_sync_cursor_def vga_size)
qed

lemma console_text:
  assumes "console_at v (row_text color r f b) r c" "\<forall>x \<in> set u. printable x" "c + length u < 80"
  shows "console_at (vga_write u color v)
    (row_text color r (\<lambda>j. if c \<le> j \<and> j < c + length u then u ! (j - c) else f j) b) r (c + length u)"
  using assms
proof (induction u arbitrary: v f c)
  case (Cons x u)
  have put: "console_at (vga_putchar x color v) (row_text color r (f(c := x)) b) r (c + 1)"
    using Cons.prems by (intro console_put) auto
  have "\<forall>x \<in> set u. printable x" "c + 1 + length u < 80" using Cons.prems by auto
  from Cons.IH [OF put this]
  have "console_at (vga_write (x # u) color v) (row_text color r (\<lambda>j. if c + 1 \<le> j \<and> j < c + 1 + length u
      then u ! (j - (c + 1)) else (f(c := x)) j) b) r (c + 1 + length u)"
    by (simp only: vga_write.simps)
  moreover have "(\<lambda>j. if c + 1 \<le> j \<and> j < c + 1 + length u then u ! (j - (c + 1)) else (f(c := x)) j) =
      (\<lambda>j. if c \<le> j \<and> j < c + length (x # u) then (x # u) ! (j - c) else f j)"
    by (auto simp: fun_eq_iff nth_Cons')
  ultimately show ?case by simp
next
  case Nil
  have "(\<lambda>j. if c \<le> j \<and> j < c + length ([] :: bytes) then [] ! (j - c) else f j) = f" by (auto simp: fun_eq_iff)
  then show ?case using Nil by (simp only:) simp
qed

lemma console_return:
  "console_at v b r c \<Longrightarrow> console_at (vga_putchar 0x0D color v) b r 0"
  using sync_on_screen(1) [of "v\<lparr>vga_col := 0\<rparr>"]
  by (auto simp: console_at_def vga_putchar_def on_screen_def vga_sync_cursor_def)

lemma console_back: "console_at v b r c \<Longrightarrow> console_at (vga_write (replicate n 0x08) color v) b r (c - n)"
proof (induction n arbitrary: v c)
  case (Suc n)
  have "console_at (vga_putchar 0x08 color v) b r (c - 1)"
    using Suc.prems sync_on_screen(1) [of "if 0 < vga_col v then v\<lparr>vga_col := vga_col v - 1\<rparr> else v"]
    by (auto simp: console_at_def vga_putchar_def on_screen_def vga_sync_cursor_def)
  then show ?case using Suc.IH [of "vga_putchar 0x08 color v" "c - 1"] by simp
qed simp

definition redraw_bytes :: "nat \<Rightarrow> bytes \<Rightarrow> nat \<Rightarrow> bytes" where
  "redraw_bytes prev t cursor =
     [0x0D, 0x24, 0x20] @ t @ replicate (prev - length t) 0x20 @ replicate (length t + (prev - length t) - cursor) 0x08"

lemma console_prompt:
  assumes "console_at v (row_text color r f b) r c"
  shows "console_at (vga_write [0x0D, 0x24, 0x20] color v) (row_text color r (f(0 := 0x24, 1 := 0x20)) b) r 2"
proof -
  have "console_at (vga_putchar 0x24 color (vga_putchar 0x0D color v)) (row_text color r (f(0 := 0x24)) b) r (0 + 1)"
    using console_return [OF assms] by (rule console_put) (simp_all add: printable_def)
  then have "console_at (vga_putchar 0x20 color (vga_putchar 0x24 color (vga_putchar 0x0D color v)))
      (row_text color r (f(0 := 0x24, 0 + 1 := 0x20)) b) r (0 + 1 + 1)"
    by (rule console_put) (simp_all add: printable_def)
  then show ?thesis by (simp add: numeral_2_eq_2)
qed

lemma redraw_console:
  assumes "console_at v (row_text color r (cells (prompt @ t0)) b) r c0" and "\<forall>x \<in> set t. printable x"
    and "length t0 \<le> 77" and "length t \<le> 77" and "cursor \<le> length t"
  shows "console_at (vga_write (redraw_bytes (length t0) t cursor) color v) (row_text color r (cells (prompt @ t)) b) r (2 + cursor)"
proof -
  let ?n = "length t0 - length t"
  define f where "f = (\<lambda>j. if 2 \<le> j \<and> j < 2 + length t then t ! (j - 2) else ((cells (prompt @ t0))(0 := 0x24, 1 := 0x20)) j)"
  define v1 where "v1 = vga_write [0x0D, 0x24, 0x20] color v"
  define v2 where "v2 = vga_write t color v1"
  have "console_at v2 (row_text color r f b) r (2 + length t)"
    unfolding f_def v2_def v1_def using assms by (intro console_text console_prompt) auto
  then have "console_at (vga_write (replicate ?n 0x20) color v2) (row_text color r (\<lambda>j. if 2 + length t \<le> j \<and>
      j < 2 + length t + length (replicate ?n (0x20 :: u8)) then replicate ?n 0x20 ! (j - (2 + length t)) else f j) b) r
      (2 + length t + length (replicate ?n (0x20 :: u8)))"
    by (rule console_text) (use assms(3,4) in \<open>auto simp: printable_def\<close>)
  moreover have "(\<lambda>j. if 2 + length t \<le> j \<and> j < 2 + length t + length (replicate ?n (0x20 :: u8))
      then replicate ?n 0x20 ! (j - (2 + length t)) else f j) = cells (prompt @ t)"
    by (auto simp: fun_eq_iff cells_def prompt_def f_def nth_Cons' numeral_2_eq_2 less_Suc_eq_le)
  ultimately have "console_at (vga_write (replicate ?n 0x20) color v2) (row_text color r (cells (prompt @ t)) b) r (2 + length t + ?n)"
    by simp
  from console_back [OF this, of "length t + ?n - cursor" color] show ?thesis
    using assms(5) by (simp add: redraw_bytes_def vga_write_append v1_def v2_def)
qed

section \<open>The editor on strings\<close>

text \<open>The text before and behind the cursor, the line put aside while the history is shown, and the entry shown.\<close>

record aline =
  al_zip :: "bytes \<times> bytes"
  al_saved :: bytes
  al_browsing :: "nat option"

fun akey :: "bytes list \<Rightarrow> key \<Rightarrow> aline \<Rightarrow> aline" where
  "akey hist Up a =
     (if hist = [] then a
      else (case al_browsing a of
              None \<Rightarrow> \<lparr>al_zip = (last hist, []), al_saved = fst (al_zip a) @ snd (al_zip a), al_browsing = Some (length hist - 1)\<rparr>
            | Some 0 \<Rightarrow> a
            | Some (Suc k) \<Rightarrow> a\<lparr>al_zip := (hist ! k, []), al_browsing := Some k\<rparr>))"
| "akey hist Down a =
     (case al_browsing a of
        None \<Rightarrow> a
      | Some k \<Rightarrow> if k + 1 < length hist then a\<lparr>al_zip := (hist ! (k + 1), []), al_browsing := Some (k + 1)\<rparr>
                  else a\<lparr>al_zip := (al_saved a, []), al_browsing := None\<rparr>)"
| "akey hist GoLeft a =
     (let (l, r) = al_zip a in if l = [] then a else a\<lparr>al_zip := (butlast l, last l # r)\<rparr>)"
| "akey hist GoRight a =
     (let (l, r) = al_zip a in if r = [] then a else a\<lparr>al_zip := (l @ [hd r], tl r)\<rparr>)"
| "akey hist Home a = (let (l, r) = al_zip a in a\<lparr>al_zip := ([], l @ r)\<rparr>)"
| "akey hist EndKey a = (let (l, r) = al_zip a in a\<lparr>al_zip := (l @ r, [])\<rparr>)"
| "akey hist Del a = (let (l, r) = al_zip a in a\<lparr>al_zip := (l, tl r)\<rparr>)"
| "akey hist Back a = (let (l, r) = al_zip a in a\<lparr>al_zip := (butlast l, r)\<rparr>)"
| "akey hist (Ins c) a =
     (let (l, r) = al_zip a in if length l + length r < 255 then a\<lparr>al_zip := (l @ [c], r)\<rparr> else a)"
| "akey hist Ignored a = a"
| "akey hist Enter a = a"

text \<open>The line that a sequence of reads enters, and the reads left over.\<close>

function line_edit :: "bytes list \<Rightarrow> rd \<Rightarrow> aline \<Rightarrow> (bytes \<times> rd) option" where
  "line_edit hist inp a =
     (case read_key inp of
        None \<Rightarrow> None
      | Some (k, inp') \<Rightarrow> if k = Enter then Some (fst (al_zip a) @ snd (al_zip a), inp') else line_edit hist inp' (akey hist k a))"
  by pat_completeness auto
termination by (relation "measure (\<lambda>(hist, inp, a). length inp)") (auto dest: read_key_shorter)

declare line_edit.simps [simp del]

definition entered :: "bytes list \<Rightarrow> rd \<Rightarrow> (bytes \<times> rd) option" where
  "entered hist inp = line_edit hist inp \<lparr>al_zip = ([], []), al_saved = [], al_browsing = None\<rparr>"

definition remember :: "bytes \<Rightarrow> bytes list \<Rightarrow> bytes list" where
  "remember t hist =
     (if t = [] \<or> hist \<noteq> [] \<and> last hist = t then hist else (if length hist = 64 then tl hist else hist) @ [t])"

definition plain_text :: "bytes \<Rightarrow> bool" where
  "plain_text t \<longleftrightarrow> length t \<le> 255 \<and> (\<forall>c \<in> set t. printable c)"

definition shell_inv :: "shell \<Rightarrow> bool" where
  "shell_inv s \<longleftrightarrow>
     line_ok 256 (sh_buf s) (sh_idx s) (sh_cursor s) \<and> length (sh_saved s) = 256 \<and> (\<forall>h \<in> set (sh_hist s). plain_text h) \<and>
     plain_text (take (sh_idx s) (sh_buf s)) \<and> sh_prev s = sh_idx s"

definition line_rel :: "shell \<Rightarrow> aline \<Rightarrow> bool" where
  "line_rel s a \<longleftrightarrow>
     al_zip a = line_at (sh_buf s) (sh_idx s) (sh_cursor s) \<and> al_browsing a = sh_browsing s \<and>
     (sh_browsing s \<noteq> None \<longrightarrow> takeWhile (\<lambda>c. c \<noteq> 0) (sh_saved s) = al_saved a \<and> plain_text (al_saved a) \<and> the (sh_browsing s) < length (sh_hist s))"

lemma sh_redraw_frame [simp]:
  "sh_buf (redraw_line b i c s) = sh_buf s" "sh_idx (redraw_line b i c s) = sh_idx s" "sh_cursor (redraw_line b i c s) = sh_cursor s"
  "sh_browsing (redraw_line b i c s) = sh_browsing s" "sh_saved (redraw_line b i c s) = sh_saved s"
  "sh_hist (redraw_line b i c s) = sh_hist s" "sh_prev (redraw_line b i c s) = i"
  "sh_out (redraw_line b i c s) = sh_out s @ [0x0D, 0x24, 0x20] @ take i b @ replicate (sh_prev s - i) 0x20 @
     replicate (i + (sh_prev s - i) - c) 0x08"
  by (simp_all add: redraw_line_def sh_write_def Let_def)

text \<open>Writing a new line into the buffer and redrawing it keeps the invariant.\<close>

lemma redraw_inv:
  assumes "shell_inv s" and "line_ok 256 buf idx cursor" and "plain_text (take idx buf)" and "length sv = 256"
  shows "shell_inv (redraw_line buf idx cursor (s\<lparr>sh_saved := sv, sh_browsing := br, sh_buf := buf, sh_idx := idx, sh_cursor := cursor\<rparr>))"
  using assms by (simp add: shell_inv_def)

lemma copy_line_text:
  assumes "idx + n \<le> length buf" and "length t \<le> n" and "\<forall>j < length t. h (idx + j) = t ! j" and "0 \<notin> set t"
    and "length t < n \<longrightarrow> h (idx + length t) = 0"
  shows "copy_line h n idx buf = (idx + length t, take idx buf @ t @ drop (idx + length t) buf)"
  using assms
proof (induction n arbitrary: idx buf t)
  case (Suc n)
  show ?case
  proof (cases t)
    case Nil
    then show ?thesis using Suc.prems by simp
  next
    case (Cons c t')
    have "h idx = c" "c \<noteq> 0" using Suc.prems(3,4) Cons by auto
    moreover have "copy_line h n (Suc idx) (buf[idx := c]) =
        (Suc idx + length t', take (Suc idx) (buf[idx := c]) @ t' @ drop (Suc idx + length t') (buf[idx := c]))"
      using Suc.prems Cons by (intro Suc.IH) auto
    moreover have "take (Suc idx) (buf[idx := c]) = take idx buf @ [c]"
      using Suc.prems(1) by (simp add: take_Suc_conv_app_nth)
    ultimately show ?thesis using Cons by simp
  qed
qed simp

lemma show_text:
  assumes "t = takeWhile (\<lambda>c. c \<noteq> 0) h" and "length t \<le> 255" and "length buf = 256"
  shows "copy_line (byte_at h) 255 0 buf = (length t, t @ drop (length t) buf)"
proof -
  have "byte_at h j = t ! j" if "j < length t" for j
    using that length_takeWhile_le [of "\<lambda>c. c \<noteq> 0" h] by (simp add: assms(1) byte_at_def takeWhile_nth)
  moreover have "byte_at h (length t) = 0"
    using nth_length_takeWhile [of "\<lambda>c. c \<noteq> 0" h] by (simp add: assms(1) byte_at_def)
  moreover have "0 \<notin> set t" using assms(1) by (auto dest: set_takeWhileD)
  ultimately show ?thesis using copy_line_text [of 0 255 buf t "byte_at h"] assms(2,3) by simp
qed

lemma plain_text_string: "plain_text t \<Longrightarrow> takeWhile (\<lambda>c. c \<noteq> 0) t = t"
  by (auto simp: takeWhile_eq_all_conv plain_text_def printable_def)

lemma sh_show_step:
  assumes "shell_inv s" and "takeWhile (\<lambda>c. c \<noteq> 0) h = t" and "plain_text t" and "length sv = 256"
    and "s' = sh_show 256 h (s\<lparr>sh_saved := sv, sh_browsing := br\<rparr>)"
  shows "shell_inv s'" and "line_at (sh_buf s') (sh_idx s') (sh_cursor s') = (t, [])" and "sh_hist s' = sh_hist s"
    and "sh_browsing s' = br" and "sh_saved s' = sv"
proof -
  have len: "length (sh_buf s) = 256" "length t \<le> 255" using assms(1,3) by (simp_all add: shell_inv_def line_ok_def plain_text_def)
  let ?b = "t @ drop (length t) (sh_buf s)"
  have eq: "s' = redraw_line ?b (length t) (length t)
      (s\<lparr>sh_saved := sv, sh_browsing := br, sh_buf := ?b, sh_idx := length t, sh_cursor := length t\<rparr>)"
    using show_text [OF assms(2) [symmetric] len(2,1)] by (simp add: assms(5) sh_show_def)
  show "shell_inv s'" unfolding eq using assms(1,3,4) len by (intro redraw_inv) (simp_all add: line_ok_def)
  show "line_at (sh_buf s') (sh_idx s') (sh_cursor s') = (t, [])" "sh_hist s' = sh_hist s" "sh_browsing s' = br" "sh_saved s' = sv"
    by (simp_all add: eq line_at_def)
qed

lemma fold_save: "n \<le> length b \<Longrightarrow> n \<le> length m \<Longrightarrow> fold (\<lambda>i m. m[i := b ! i]) [0..<n] m = take n b @ drop n m"
proof (induction n)
  case (Suc n)
  then have "fold (\<lambda>i m. m[i := b ! i]) [0..<n] m = take n b @ drop n m" by simp
  moreover have "drop n m = m ! n # drop (Suc n) m" using Suc.prems by (simp add: Cons_nth_drop_Suc)
  ultimately show ?case using Suc.prems by (simp add: list_update_append take_Suc_conv_app_nth)
qed simp

lemma hist_entry:
  assumes "shell_inv s" and "k < length (sh_hist s)"
  shows "takeWhile (\<lambda>c. c \<noteq> 0) (sh_hist s ! k) = sh_hist s ! k" and "plain_text (sh_hist s ! k)"
proof -
  show "plain_text (sh_hist s ! k)" using assms by (simp add: shell_inv_def)
  then show "takeWhile (\<lambda>c. c \<noteq> 0) (sh_hist s ! k) = sh_hist s ! k" by (rule plain_text_string)
qed

lemma hist_up_step:
  assumes "shell_inv s" and "line_rel s a"
  shows "shell_inv (hist_up 256 s) \<and> line_rel (hist_up 256 s) (akey (sh_hist s) Up a) \<and> sh_hist (hist_up 256 s) = sh_hist s"
proof -
  note entry = hist_entry [OF assms(1)]
  have sv: "length (sh_saved s) = 256" using assms(1) by (simp add: shell_inv_def)
  consider "sh_hist s = []" | "sh_browsing s = Some 0" | k where "sh_hist s \<noteq> []" "sh_browsing s = Some (Suc k)"
    | "sh_hist s \<noteq> []" "sh_browsing s = None" by (cases "sh_browsing s") (auto, metis not0_implies_Suc)
  then show ?thesis
  proof cases
    case 3
    have k: "k < length (sh_hist s)" "sh_saved s = sh_saved s" using assms(2) 3 by (simp_all add: line_rel_def)
    have eq: "hist_up 256 s = sh_show 256 (sh_hist s ! k) (s\<lparr>sh_saved := sh_saved s, sh_browsing := Some k\<rparr>)"
      using 3 by (simp add: hist_up_def)
    show ?thesis using sh_show_step [OF assms(1) entry [OF k(1)] sv eq] assms(2) 3 k by (simp add: line_rel_def)
  next
    case 4
    let ?k = "length (sh_hist s) - 1" and ?i = "sh_idx s"
    let ?sv = "take ?i (sh_buf s) @ 0 # drop (Suc ?i) (sh_saved s)"
    have i: "?i < 256" "length (sh_buf s) = 256" "plain_text (take ?i (sh_buf s))" "sh_cursor s \<le> ?i"
      using assms(1) by (simp_all add: shell_inv_def line_ok_def)
    have dr: "drop ?i (sh_saved s) = sh_saved s ! ?i # drop (Suc ?i) (sh_saved s)" using i sv by (simp add: Cons_nth_drop_Suc)
    have m: "min ?i 255 = ?i" using i by simp
    have eq: "hist_up 256 s = sh_show 256 (sh_hist s ! ?k) (s\<lparr>sh_saved := ?sv, sh_browsing := Some ?k\<rparr>)"
      using 4 i sv dr by (simp add: hist_up_def sh_limits m fold_save list_update_append Let_def)
    have k: "?k < length (sh_hist s)" and sv': "length ?sv = 256" using 4 i sv by simp_all
    have "takeWhile (\<lambda>c. c \<noteq> 0) ?sv = take ?i (sh_buf s)"
      using i(3) by (subst takeWhile_append2) (auto simp: plain_text_def printable_def)
    moreover have "fst (al_zip a) @ snd (al_zip a) = take ?i (sh_buf s)"
      using assms(2) i by (simp add: line_rel_def line_at_def take_add [symmetric])
    moreover have "akey (sh_hist s) Up a = \<lparr>al_zip = (sh_hist s ! ?k, []), al_saved = fst (al_zip a) @ snd (al_zip a), al_browsing = Some ?k\<rparr>"
      using assms(2) 4 by (simp add: line_rel_def last_conv_nth)
    ultimately show ?thesis
      using sh_show_step [OF assms(1) entry [OF k] sv' eq] k i(3) unfolding line_rel_def by simp
  qed (use assms in \<open>auto simp: hist_up_def line_rel_def split: option.splits nat.splits\<close>)
qed

lemma hist_down_step:
  assumes "shell_inv s" and "line_rel s a"
  shows "shell_inv (hist_down 256 s) \<and> line_rel (hist_down 256 s) (akey (sh_hist s) Down a) \<and> sh_hist (hist_down 256 s) = sh_hist s"
proof (cases "sh_browsing s")
  case None
  then show ?thesis using assms by (simp add: hist_down_def line_rel_def)
next
  case (Some k)
  have sv: "length (sh_saved s) = 256" using assms(1) by (simp add: shell_inv_def)
  have a: "takeWhile (\<lambda>c. c \<noteq> 0) (sh_saved s) = al_saved a" "plain_text (al_saved a)" "al_browsing a = Some k"
    using assms(2) Some by (simp_all add: line_rel_def)
  show ?thesis
  proof (cases "k + 1 < length (sh_hist s)")
    case True
    have eq: "hist_down 256 s = sh_show 256 (sh_hist s ! (k + 1)) (s\<lparr>sh_saved := sh_saved s, sh_browsing := Some (k + 1)\<rparr>)"
      using True Some by (simp add: hist_down_def)
    show ?thesis using sh_show_step [OF assms(1) hist_entry [OF assms(1) True] sv eq] a True by (simp add: line_rel_def)
  next
    case False
    have eq: "hist_down 256 s = sh_show 256 (sh_saved s) (s\<lparr>sh_saved := sh_saved s, sh_browsing := None\<rparr>)"
      using False Some by (simp add: hist_down_def)
    show ?thesis using sh_show_step [OF assms(1) a(1,2) sv eq] a False by (simp add: line_rel_def)
  qed
qed

text \<open>A key that changes the line or moves the cursor.\<close>

lemma edit_step:
  assumes "shell_inv s" and "line_rel s a" and "line_ok 256 buf idx cursor" and "plain_text (take idx buf)"
    and "s' = redraw_line buf idx cursor (s\<lparr>sh_buf := buf, sh_idx := idx, sh_cursor := cursor\<rparr>)"
    and "a' = a\<lparr>al_zip := line_at buf idx cursor\<rparr>"
  shows "shell_inv s' \<and> line_rel s' a' \<and> sh_hist s' = sh_hist s"
proof -
  have "s\<lparr>sh_saved := sh_saved s, sh_browsing := sh_browsing s\<rparr> = s" by simp
  then have "shell_inv s'" using redraw_inv [OF assms(1,3,4), of "sh_saved s" "sh_browsing s"] assms(1,5) by (simp add: shell_inv_def)
  then show ?thesis using assms(2,5,6) by (simp add: line_rel_def)
qed

lemma line_at_text: "line_ok mx b i c \<Longrightarrow> fst (line_at b i c) @ snd (line_at b i c) = take i b"
  by (simp add: line_ok_def line_at_def take_add [symmetric])

lemma delete_line_at:
  assumes "line_ok mx b i c" "c < i"
  defines "b' \<equiv> fold (\<lambda>i b. b[c + i := b ! (c + 1 + i)]) [0..<i - c] b"
  shows "line_ok mx b' (i - 1) c" and "line_at b' (i - 1) c = (take c b, tl (take (i - c) (drop c b)))"
proof -
  have l: "c + (i - c) < length b" using assms(1,2) by (simp add: line_ok_def)
  have eq: "b' = take c b @ take (i - c) (drop (c + 1) b) @ drop (c + (i - c)) b" unfolding b'_def by (rule shift_left_eq [OF l])
  show "line_ok mx b' (i - 1) c" using assms(1,2) unfolding eq line_ok_def by auto
  show "line_at b' (i - 1) c = (take c b, tl (take (i - c) (drop c b)))"
    using assms(1,2) unfolding eq by (auto simp: line_ok_def line_at_def min_absorb1 min_absorb2 tl_take tl_drop drop_Suc)
qed

lemma in_tl: "x \<in> set (tl xs) \<Longrightarrow> x \<in> set xs"
  by (cases xs) auto

lemma plain_zip:
  assumes "line_ok 256 b i c" and "set (fst (line_at b i c)) \<union> set (snd (line_at b i c)) \<subseteq> Collect printable"
  shows "plain_text (take i b)"
proof -
  have "set (take i b) = set (fst (line_at b i c)) \<union> set (snd (line_at b i c))" using line_at_text [OF assms(1)] by (metis set_append)
  then show ?thesis using assms by (auto simp: plain_text_def line_ok_def)
qed

lemma zip_same: "al_zip a = z \<Longrightarrow> a\<lparr>al_zip := z\<rparr> = a"
  by (cases a) simp

lemma sh_key_step:
  assumes "shell_inv s" and "line_rel s a" and "k \<noteq> Enter" and "\<forall>c. k = Ins c \<longrightarrow> printable c"
  shows "shell_inv (sh_key 256 k s) \<and> line_rel (sh_key 256 k s) (akey (sh_hist s) k a) \<and> sh_hist (sh_key 256 k s) = sh_hist s"
proof -
  define b i c where "b = sh_buf s" and "i = sh_idx s" and "c = sh_cursor s"
  note defs = b_def [symmetric] i_def [symmetric] c_def [symmetric]
  have ok: "line_ok 256 b i c" and pl: "plain_text (take i b)" using assms(1) by (simp_all add: shell_inv_def defs)
  have z: "al_zip a = (take c b, take (i - c) (drop c b))" using assms(2) by (simp add: line_rel_def line_at_def defs)
  have cl: "c \<le> i" "i < length b" "length b = 256" using ok by (simp_all add: line_ok_def)
  have P: "set (take c b) \<subseteq> Collect printable" "set (take (i - c) (drop c b)) \<subseteq> Collect printable"
    using pl line_at_text [OF ok] unfolding line_at_def fst_conv snd_conv by (auto simp: plain_text_def) (metis Un_iff set_append)+
  note step = edit_step [OF assms(1,2)]
  have move: "shell_inv (go_to c' s) \<and> line_rel (go_to c' s) (a\<lparr>al_zip := line_at b i c'\<rparr>) \<and> sh_hist (go_to c' s) = sh_hist s"
    if "c' \<le> i" for c'
    using that ok pl by (intro step [of b i c']) (simp_all add: line_ok_def go_to_def b_def i_def)
  show ?thesis
  proof (cases k)
    case Up then show ?thesis using hist_up_step [OF assms(1,2)] by simp
  next
    case Down then show ?thesis using hist_down_step [OF assms(1,2)] by simp
  next
    case GoLeft then show ?thesis using move [of "c - 1"] edit_left [OF ok] z cl assms(1,2) by (cases "0 < c") (auto simp: defs)
  next
    case GoRight then show ?thesis using move [of "c + 1"] edit_right [OF ok] z cl assms(1,2) by (cases "c < i") (auto simp: defs)
  next
    case Home then show ?thesis using move [of 0] z cl by (simp add: line_at_def defs take_add [symmetric])
  next
    case EndKey then show ?thesis using move [of i] z cl by (simp add: line_at_def defs take_add [symmetric])
  next
    case Del
    show ?thesis
    proof (cases "c < i")
      case True
      let ?b = "fold (\<lambda>i b. b[c + i := b ! (c + 1 + i)]) [0..<i - c] b"
      note d = delete_line_at [OF ok True]
      have "plain_text (take (i - 1) ?b)" using P d by (intro plain_zip [OF d(1)]) (auto dest: in_tl)
      then show ?thesis
      proof (rule step [OF d(1)])
        show "sh_key 256 k s = redraw_line ?b (i - 1) c (s\<lparr>sh_buf := ?b, sh_idx := i - 1, sh_cursor := c\<rparr>)"
          using Del True by (simp add: sh_delete_def Let_def defs)
        show "akey (sh_hist s) k a = a\<lparr>al_zip := line_at ?b (i - 1) c\<rparr>" unfolding d(2) using Del z by simp
      qed
    next
      case False
      then have "akey (sh_hist s) k a = a" "sh_key 256 k s = s"
        using Del z cl zip_same [of a] by (simp_all add: sh_delete_def defs)
      then show ?thesis using assms(1,2) by simp
    qed
  next
    case Back
    show ?thesis
    proof (cases "0 < c")
      case True
      let ?b = "fold (\<lambda>i b. b[c - 1 + i := b ! (c + i)]) [0..<i - c] b"
      note d = edit_backspace [OF ok True]
      have "plain_text (take (i - 1) ?b)" using P d by (intro plain_zip [OF d(1)]) (auto dest: in_set_butlastD)
      then show ?thesis
      proof (rule step [OF d(1)])
        show "sh_key 256 k s = redraw_line ?b (i - 1) (c - 1) (s\<lparr>sh_buf := ?b, sh_idx := i - 1, sh_cursor := c - 1\<rparr>)"
          using Back True by (simp add: sh_backspace_def Let_def defs)
        show "akey (sh_hist s) k a = a\<lparr>al_zip := line_at ?b (i - 1) (c - 1)\<rparr>" unfolding d(2) using Back z by simp
      qed
    next
      case False
      then have "akey (sh_hist s) k a = a" "sh_key 256 k s = s"
        using Back z cl zip_same [of a] by (simp_all add: sh_backspace_def defs)
      then show ?thesis using assms(1,2) by simp
    qed
  next
    case (Ins x)
    show ?thesis
    proof (cases "i < 255")
      case True
      let ?b = "(fold (\<lambda>i b. b[i := b ! (i - 1)]) (rev [c + 1..<i + 1]) b)[c := x]"
      have lt: "i < 256 - 1" using True by simp
      note d = edit_insert [OF ok lt, of x]
      have "plain_text (take (i + 1) ?b)" using P d assms(4) Ins by (intro plain_zip [OF d(1)]) auto
      then show ?thesis
      proof (rule step [OF d(1)])
        show "sh_key 256 k s = redraw_line ?b (i + 1) (c + 1) (s\<lparr>sh_buf := ?b, sh_idx := i + 1, sh_cursor := c + 1\<rparr>)"
          using Ins True by (simp add: sh_insert_def Let_def defs)
        show "akey (sh_hist s) k a = a\<lparr>al_zip := line_at ?b (i + 1) (c + 1)\<rparr>" unfolding d(2) using Ins z cl True by simp
      qed
    next
      case False
      then have "akey (sh_hist s) k a = a" "sh_key 256 k s = s"
        using Ins z cl zip_same [of a] by (simp_all add: sh_insert_def defs)
      then show ?thesis using assms(1,2) by simp
    qed
  qed (use assms in simp_all)
qed

lemma esc_key_ins: "esc_key inp = Some (k, r) \<Longrightarrow> \<forall>c. k \<noteq> Ins c"
  by (induction inp rule: esc_key.induct) (auto simp: bracket_key_def split: if_splits list.splits)

lemma read_key_printable: "read_key inp = Some (k, r) \<Longrightarrow> k = Ins c \<Longrightarrow> printable c"
  by (induction inp rule: read_key.induct)
    (auto simp: high_key_def printable_def word_less_nat_alt word_le_nat_alt word_unat_eq_iff split: if_splits dest!: esc_key_ins)

lemma hist_strcmp_0: "0 \<notin> set a \<Longrightarrow> 0 \<notin> set b \<Longrightarrow> hist_strcmp a b = 0 \<longleftrightarrow> a = b"
  by (induction a b rule: hist_strcmp.induct) (auto simp: word_uint_eq_iff)

text \<open>The line is entered at the prompt.\<close>

definition at_prompt :: "shell \<Rightarrow> bool" where
  "at_prompt s \<longleftrightarrow> length (sh_buf s) = 256 \<and> length (sh_saved s) = 256 \<and> (\<forall>h \<in> set (sh_hist s). plain_text h)"

definition sh_start :: "shell \<Rightarrow> shell" where
  "sh_start s = s\<lparr>sh_browsing := None, sh_idx := 0, sh_cursor := 0, sh_prev := 0\<rparr>"

definition no_line :: aline where "no_line = \<lparr>al_zip = ([], []), al_saved = [], al_browsing = None\<rparr>"

lemma sh_start_inv: "at_prompt s \<Longrightarrow> shell_inv (sh_start s) \<and> line_rel (sh_start s) no_line"
  by (simp add: at_prompt_def sh_start_def no_line_def shell_inv_def line_rel_def line_ok_def plain_text_def line_at_def)

lemma sh_enter_remembers:
  assumes "shell_inv s"
  shows "sh_hist (sh_enter s) = remember (take (sh_idx s) (sh_buf s)) (sh_hist s)"
    and "sh_buf (sh_enter s) = (sh_buf s)[sh_idx s := 0]"
proof -
  let ?t = "take (sh_idx s) (sh_buf s)"
  have t: "plain_text ?t" "length ?t = sh_idx s" "sh_idx s < 256" "length (sh_buf s) = 256"
    using assms by (simp_all add: shell_inv_def line_ok_def)
  have z: "0 \<notin> set u" if "plain_text u" for u using that by (auto simp: plain_text_def printable_def)
  have "hist_strcmp (last (sh_hist s)) ?t = 0 \<longleftrightarrow> last (sh_hist s) = ?t" if "sh_hist s \<noteq> []"
  proof -
    have "plain_text (last (sh_hist s))" using assms that by (simp add: shell_inv_def)
    then show ?thesis using z t(1) by (intro hist_strcmp_0)
  qed
  moreover have "min (sh_idx s) 255 = sh_idx s" "0 < sh_idx s \<longleftrightarrow> ?t \<noteq> []" using t by auto
  ultimately show "sh_hist (sh_enter s) = remember ?t (sh_hist s)"
    by (auto simp: sh_enter_def sh_write_def sh_hist_strcmp_def sh_limits remember_def Let_def)
  show "sh_buf (sh_enter s) = (sh_buf s)[sh_idx s := 0]" by (simp add: sh_enter_def sh_write_def Let_def)
qed

lemma sh_loop_line:
  assumes "shell_inv s" and "line_rel s a"
  shows "case line_edit (sh_hist s) inp a of
      None \<Rightarrow> sh_loop 256 inp s = None
    | Some (t, rest) \<Rightarrow> plain_text t \<and> (\<exists>s'. sh_loop 256 inp s = Some (length t, rest, s') \<and> take (length t) (sh_buf s') = t \<and>
        sh_buf s' ! length t = 0 \<and> length (sh_buf s') = 256 \<and> sh_hist s' = remember t (sh_hist s))"
  using assms
proof (induction inp arbitrary: s a rule: length_induct)
  case (1 inp)
  show ?case
  proof (cases "read_key inp")
    case None
    then show ?thesis by (simp add: line_edit.simps [of _ inp] sh_loop.simps [of _ inp])
  next
    case (Some p)
    obtain k r where p: "p = (k, r)" by (cases p)
    show ?thesis
    proof (cases "k = Enter")
      case True
      have ok: "line_ok 256 (sh_buf s) (sh_idx s) (sh_cursor s)" "plain_text (take (sh_idx s) (sh_buf s))"
        using 1(2) by (simp_all add: shell_inv_def)
      have t: "fst (al_zip a) @ snd (al_zip a) = take (sh_idx s) (sh_buf s)"
        using 1(3) line_at_text [OF ok(1)] by (simp add: line_rel_def)
      show ?thesis using Some p True t ok sh_enter_remembers [OF 1(2)]
        by (simp add: line_edit.simps [of _ inp] sh_loop.simps [of _ inp] line_ok_def)
    next
      case False
      have k: "\<forall>c. k = Ins c \<longrightarrow> printable c" using read_key_printable Some p by blast
      note st = sh_key_step [OF 1(2,3) False k]
      have "length r < length inp" using read_key_shorter Some p by blast
      then have IH: "case line_edit (sh_hist (sh_key 256 k s)) r (akey (sh_hist s) k a) of
          None \<Rightarrow> sh_loop 256 r (sh_key 256 k s) = None
        | Some (t, rest) \<Rightarrow> plain_text t \<and> (\<exists>s'. sh_loop 256 r (sh_key 256 k s) = Some (length t, rest, s') \<and>
            take (length t) (sh_buf s') = t \<and> sh_buf s' ! length t = 0 \<and> length (sh_buf s') = 256 \<and> sh_hist s' = remember t (sh_hist (sh_key 256 k s)))"
        using 1(1) st by blast
      have "line_edit (sh_hist s) inp a = line_edit (sh_hist s) r (akey (sh_hist s) k a)"
          "sh_loop 256 inp s = sh_loop 256 r (sh_key 256 k s)" "sh_hist (sh_key 256 k s) = sh_hist s"
        using Some p False st by (simp_all add: line_edit.simps [of _ inp] sh_loop.simps [of _ inp])
      then show ?thesis using IH by (simp only:)
    qed
  qed
qed

lemma shell_readline_line:
  assumes "at_prompt s"
  shows "case entered (sh_hist s) inp of
      None \<Rightarrow> sh_readline 256 inp s = None
    | Some (t, rest) \<Rightarrow> plain_text t \<and> (\<exists>s'. sh_readline 256 inp s = Some (length t, rest, s') \<and> take (length t) (sh_buf s') = t \<and>
        sh_buf s' ! length t = 0 \<and> length (sh_buf s') = 256 \<and> sh_hist s' = remember t (sh_hist s))"
proof -
  have "sh_readline 256 inp s = sh_loop 256 inp (sh_start s)" "sh_hist (sh_start s) = sh_hist s"
    "entered (sh_hist s) inp = line_edit (sh_hist s) inp no_line"
    by (simp_all add: sh_readline_def sh_start_def entered_def no_line_def)
  then show ?thesis using sh_loop_line [of "sh_start s" no_line inp] sh_start_inv [OF assms] by (simp only:)
qed

text \<open>
  C36 (refinement): the line editor of the shell computes what an editor on strings computes.  From the prompt, for every sequence of
  reads, \<^verbatim>\<open>readline\<close> returns exactly when the string editor has a line; it returns the length of that line, leaves it in the buffer with a
  NUL behind it, leaves the rest of the input unread and enters the line into the history unless it is empty or repeats the last one.
\<close>

theorem shell_readline_refines:
  assumes "at_prompt s"
  shows "case entered (sh_hist s) inp of
      None \<Rightarrow> sh_readline 256 inp s = None
    | Some (t, rest) \<Rightarrow> plain_text t \<and> (\<exists>s'. sh_readline 256 inp s = Some (length t, rest, s') \<and> take (length t) (sh_buf s') = t \<and>
        sh_buf s' ! length t = 0 \<and> length (sh_buf s') = 256 \<and> sh_hist s' = remember t (sh_hist s))"
  using assms by (rule shell_readline_line)

lemma sh_keys_inv:
  assumes "shell_inv s" and "line_rel s a" and "\<forall>k \<in> set ks. k \<noteq> Enter \<and> (\<forall>c. k = Ins c \<longrightarrow> printable c)"
  shows "shell_inv (fold (sh_key 256) ks s) \<and> line_rel (fold (sh_key 256) ks s) (fold (akey (sh_hist s)) ks a)"
  using assms
proof (induction ks arbitrary: s a)
  case (Cons k ks)
  have st: "shell_inv (sh_key 256 k s)" "line_rel (sh_key 256 k s) (akey (sh_hist s) k a)" "sh_hist (sh_key 256 k s) = sh_hist s"
    using sh_key_step [OF Cons.prems(1,2), of k] Cons.prems(3) by auto
  show ?case using Cons.IH [OF st(1,2)] Cons.prems(3) st(3) by simp
qed simp

text \<open>A key leaves the line and the output as they are or redraws the line.\<close>

lemma redraw_out:
  "sh_idx s \<le> length (sh_buf s) \<Longrightarrow> s = redraw_line b i c t \<Longrightarrow> sh_buf t = b \<Longrightarrow> sh_idx t = i \<Longrightarrow> sh_cursor t = c \<Longrightarrow>
   sh_out s = sh_out t @ redraw_bytes (sh_prev t) (take (sh_idx s) (sh_buf s)) (sh_cursor s)"
  by (simp add: redraw_bytes_def min_absorb2)

lemma sh_key_redraws:
  assumes "k \<noteq> Enter"
  obtains "sh_key mx k s = s"
  | b i c t where "sh_key mx k s = redraw_line b i c t" "sh_buf t = b" "sh_idx t = i" "sh_cursor t = c" "sh_out t = sh_out s" "sh_prev t = sh_prev s"
proof -
  have "sh_key mx k s = s \<or> (\<exists>b i c t. sh_key mx k s = redraw_line b i c t \<and> sh_buf t = b \<and> sh_idx t = i \<and> sh_cursor t = c \<and>
      sh_out t = sh_out s \<and> sh_prev t = sh_prev s)" (is "_ \<or> ?R (sh_key mx k s)")
  proof -
    have R: "?R (redraw_line b i c t)" if "sh_buf t = b" "sh_idx t = i" "sh_cursor t = c" "sh_out t = sh_out s" "sh_prev t = sh_prev s" for b i c t
      using that by blast
    have sh: "?R (sh_show mx h t)" if "sh_out t = sh_out s" "sh_prev t = sh_prev s" for h t
      using that unfolding sh_show_def Let_def by (cases "copy_line (byte_at h) (mx - 1) 0 (sh_buf t)") (simp only: prod.case, rule R, simp_all)
    show ?thesis
      using assms sh R
      by (cases k) (auto simp: hist_up_def hist_down_def go_to_def sh_delete_def sh_backspace_def sh_insert_def Let_def
          split: option.split nat.split)
  qed
  then show ?thesis using that by blast
qed

text \<open>The line has at most 77 characters before and after every key, so that with the prompt it is shorter than a row.\<close>

definition line_fits :: "aline \<Rightarrow> bool" where
  "line_fits a \<longleftrightarrow> length (fst (al_zip a)) + length (snd (al_zip a)) \<le> 77"

fun all_fit :: "bytes list \<Rightarrow> key list \<Rightarrow> aline \<Rightarrow> bool" where
  "all_fit hist [] a = line_fits a"
| "all_fit hist (k # ks) a = (line_fits a \<and> all_fit hist ks (akey hist k a))"

lemma all_fit_first: "all_fit hist ks a \<Longrightarrow> line_fits a"
  by (cases ks) simp_all

lemma line_rel_text:
  assumes "shell_inv s" "line_rel s a"
  shows "al_zip a = (l, r) \<Longrightarrow> l @ r = take (sh_idx s) (sh_buf s) \<and> length l = sh_cursor s"
    and "line_fits a \<longleftrightarrow> sh_idx s \<le> 77"
proof -
  have ok: "line_ok 256 (sh_buf s) (sh_idx s) (sh_cursor s)" using assms(1) by (simp add: shell_inv_def)
  have z: "al_zip a = line_at (sh_buf s) (sh_idx s) (sh_cursor s)" using assms(2) by (simp add: line_rel_def)
  show "l @ r = take (sh_idx s) (sh_buf s) \<and> length l = sh_cursor s" if "al_zip a = (l, r)"
    using line_at_text [OF ok] z ok that by (auto simp: line_at_def line_ok_def)
  show "line_fits a \<longleftrightarrow> sh_idx s \<le> 77" using z ok by (auto simp: line_fits_def line_at_def line_ok_def)
qed

lemma keys_console:
  assumes "shell_inv s" and "line_rel s a" and "\<forall>k \<in> set ks. k \<noteq> Enter \<and> (\<forall>c. k = Ins c \<longrightarrow> printable c)"
    and "all_fit (sh_hist s) ks a"
    and "console_at v (row_text color r (cells (prompt @ take (sh_idx s) (sh_buf s))) b) r (2 + sh_cursor s)"
  defines "s' \<equiv> fold (sh_key 256) ks s"
  shows "\<exists>w. sh_out s' = sh_out s @ w \<and>
    console_at (vga_write w color v) (row_text color r (cells (prompt @ take (sh_idx s') (sh_buf s'))) b) r (2 + sh_cursor s')"
  using assms(1-5) unfolding s'_def
proof (induction ks arbitrary: s a v)
  case Nil
  then show ?case by (intro exI [of _ "[]"]) simp
next
  case (Cons k ks)
  let ?t = "sh_key 256 k s"
  have k: "k \<noteq> Enter" "\<forall>c. k = Ins c \<longrightarrow> printable c" "\<forall>k \<in> set ks. k \<noteq> Enter \<and> (\<forall>c. k = Ins c \<longrightarrow> printable c)"
    using Cons.prems(3) by auto
  have st: "shell_inv ?t" "line_rel ?t (akey (sh_hist s) k a)" "sh_hist ?t = sh_hist s"
    using sh_key_step [OF Cons.prems(1,2) k(1,2)] by auto
  have fit: "all_fit (sh_hist ?t) ks (akey (sh_hist s) k a)" "sh_idx s \<le> 77" "sh_idx ?t \<le> 77"
    using Cons.prems(4) st(3) all_fit_first line_rel_text(2) [OF Cons.prems(1,2)] line_rel_text(2) [OF st(1,2)] by auto
  have ok: "sh_idx ?t \<le> length (sh_buf ?t)" "sh_cursor ?t \<le> sh_idx ?t" "\<forall>x \<in> set (take (sh_idx ?t) (sh_buf ?t)). printable x"
      "sh_prev s = sh_idx s" "sh_idx s \<le> length (sh_buf s)"
    using st(1) Cons.prems(1) by (simp_all add: shell_inv_def line_ok_def plain_text_def)
  obtain w where w: "sh_out ?t = sh_out s @ w"
      "console_at (vga_write w color v) (row_text color r (cells (prompt @ take (sh_idx ?t) (sh_buf ?t))) b) r (2 + sh_cursor ?t)"
  proof (rule sh_key_redraws [OF k(1), of 256 s])
    assume "?t = s"
    then show ?thesis using that [of "[]"] Cons.prems(5) by simp
  next
    fix b' i c t
    assume t: "?t = redraw_line b' i c t" "sh_buf t = b'" "sh_idx t = i" "sh_cursor t = c" "sh_out t = sh_out s" "sh_prev t = sh_prev s"
    show ?thesis
    proof (rule that)
      show "sh_out ?t = sh_out s @ redraw_bytes (length (take (sh_idx s) (sh_buf s))) (take (sh_idx ?t) (sh_buf ?t)) (sh_cursor ?t)"
        using redraw_out [OF ok(1) t(1-4)] t(5,6) ok by (simp add: min_absorb2)
    qed (rule redraw_console [OF Cons.prems(5)], use ok fit in \<open>simp_all add: min_absorb2\<close>)
  qed
  from Cons.IH [OF st(1,2) k(3) fit(1) w(2)] obtain w' where
    "sh_out (fold (sh_key 256) ks ?t) = sh_out ?t @ w'"
    "console_at (vga_write w' color (vga_write w color v)) (row_text color r (cells (prompt @ take (sh_idx (fold (sh_key 256) ks ?t))
        (sh_buf (fold (sh_key 256) ks ?t)))) b) r (2 + sh_cursor (fold (sh_key 256) ks ?t))" by blast
  then show ?case using w(1) by (intro exI [of _ "w @ w'"]) (simp add: vga_write_append)
qed

text \<open>
  C37 (invariant): on the console of the kernel, whatever keys are pressed at the prompt, the row shows the prompt and the
  line, blanks behind it, the cursor of the console is where the cursor of the editor is, and nothing outside the row has
  changed, as long as the line has at most 77 characters and so is shorter than the row of 80 with its prompt.
\<close>

theorem shell_screen_shows_line:
  assumes "at_prompt s" and "\<forall>k \<in> set ks. k \<noteq> Enter \<and> (\<forall>c. k = Ins c \<longrightarrow> printable c)"
    and "all_fit (sh_hist s) ks no_line" and "line_shown v color row prompt 2"
  shows "\<exists>w. sh_out (fold (sh_key 256) ks (sh_start s)) = sh_out s @ w \<and>
    (case al_zip (fold (akey (sh_hist s)) ks no_line) of (l, r) \<Rightarrow>
       line_shown (vga_write w color v) color row (prompt @ l @ r) (2 + length l)) \<and>
    (\<forall>i. i < row * 80 \<or> row * 80 + 80 \<le> i \<longrightarrow> vbuf (vga_write w color v) i = vbuf v i)"
proof -
  let ?s = "sh_start s" and ?t = "fold (sh_key 256) ks (sh_start s)"
  have s: "shell_inv ?s" "line_rel ?s no_line" using sh_start_inv [OF assms(1)] by simp_all
  have start: "sh_idx ?s = 0" "sh_cursor ?s = 0" "sh_hist ?s = sh_hist s" "sh_out ?s = sh_out s" by (simp_all add: sh_start_def)
  have at: "console_at v (row_text color row (cells (prompt @ take (sh_idx ?s) (sh_buf ?s))) (vbuf v)) row (2 + sh_cursor ?s)"
    using assms(4) by (simp add: start line_shown_console)
  obtain w where w: "sh_out ?t = sh_out s @ w"
      "console_at (vga_write w color v) (row_text color row (cells (prompt @ take (sh_idx ?t) (sh_buf ?t))) (vbuf v)) row (2 + sh_cursor ?t)"
    using keys_console [OF s assms(2) _ at] assms(3) start by auto
  have t: "shell_inv ?t" "line_rel ?t (fold (akey (sh_hist s)) ks no_line)"
    using sh_keys_inv [OF s assms(2)] start by simp_all
  obtain l r where z: "al_zip (fold (akey (sh_hist s)) ks no_line) = (l, r)" by (cases "al_zip (fold (akey (sh_hist s)) ks no_line)")
  have lr: "take (sh_idx ?t) (sh_buf ?t) = l @ r" "sh_cursor ?t = length l" using line_rel_text(1) [OF t z] by simp_all
  have vb: "vbuf (vga_write w color v) = row_text color row (cells (prompt @ l @ r)) (vbuf v)"
    using w(2) by (simp add: console_at_def lr)
  have "line_shown (vga_write w color v) color row (prompt @ l @ r) (2 + length l)"
    using w(2) unfolding line_shown_console vb lr by (simp add: row_text_def fun_eq_iff console_at_def)
  moreover have "\<forall>i. i < row * 80 \<or> row * 80 + 80 \<le> i \<longrightarrow> vbuf (vga_write w color v) i = vbuf v i"
    by (auto simp: vb row_text_def)
  ultimately show ?thesis using w(1) z by auto
qed

definition fresh_shell :: shell where
  "fresh_shell = \<lparr>sh_buf = replicate 256 0, sh_idx = 0, sh_cursor = 0, sh_browsing = None, sh_saved = replicate 256 0, sh_prev = 0,
     sh_hist = [[0x70, 0x77, 0x64]], sh_out = prompt\<rparr>"

lemma fresh_at_prompt: "at_prompt fresh_shell"
  by (auto simp: at_prompt_def fresh_shell_def plain_text_def printable_def)

text \<open>Here: the letters l, x, backspace, s, and Enter.\<close>

theorem shell_readline_refines_witness:
  "\<exists>s'. sh_readline 256 (map Some [0x6C, 0x78, 0x08, 0x73, 0x0A]) fresh_shell = Some (2, [], s') \<and>
     take 2 (sh_buf s') = [0x6C, 0x73] \<and> sh_hist s' = [[0x70, 0x77, 0x64], [0x6C, 0x73]]"
proof -
  have "entered (sh_hist fresh_shell) (map Some [0x6C, 0x78, 0x08, 0x73, 0x0A]) = Some ([0x6C, 0x73], [])"
    by (simp add: entered_def fresh_shell_def line_edit.simps)
  then show ?thesis using shell_readline_refines [OF fresh_at_prompt, of "map Some [0x6C, 0x78, 0x08, 0x73, 0x0A]"]
    by (auto simp: remember_def fresh_shell_def numeral_2_eq_2)
qed

definition blank_console :: "u8 \<Rightarrow> int \<Rightarrow> vga" where
  "blank_console color r = \<lparr>vbuf = (\<lambda>i. vga_entry 0x20 color), vga_row = r, vga_col = 0, crt_pos = word_of_int (r * 80), vga_default_color = color\<rparr>"

definition prompt_console :: vga where "prompt_console = vga_write prompt 7 (blank_console 7 3)"

lemma prompt_console_shown: "line_shown prompt_console 7 3 prompt 2"
proof -
  have "console_at (blank_console 7 3) (row_text 7 3 (\<lambda>_. 0x20) (\<lambda>i. vga_entry 0x20 7)) 3 0"
    by (auto simp: console_at_def blank_console_def on_screen_def row_text_def fun_eq_iff)
  from console_text [OF this, of prompt]
  have "console_at prompt_console (row_text 7 3 (\<lambda>j. if 0 \<le> j \<and> j < 0 + length prompt then prompt ! (j - 0) else 0x20)
      (\<lambda>i. vga_entry 0x20 7)) 3 (0 + length prompt)"
    unfolding prompt_console_def by (auto simp: prompt_def printable_def)
  moreover have "(\<lambda>j. if 0 \<le> j \<and> j < 0 + length prompt then prompt ! (j - 0) else 0x20) = cells prompt" "length prompt = 2"
    by (auto simp: fun_eq_iff cells_def prompt_def)
  ultimately have c: "console_at prompt_console (row_text 7 3 (cells prompt) (\<lambda>i. vga_entry 0x20 7)) 3 2" by (simp only: add_0)
  then have "vbuf prompt_console = row_text 7 3 (cells prompt) (\<lambda>i. vga_entry 0x20 7)" by (simp add: console_at_def)
  then show ?thesis using c unfolding line_shown_console by (auto simp: row_text_def fun_eq_iff console_at_def)
qed

text \<open>The letter l, the key Up, which shows the line of the history, and the key Left.\<close>

theorem shell_screen_shows_line_witness:
  "\<exists>w. sh_out (fold (sh_key 256) [Ins 0x6C, Up, GoLeft] (sh_start fresh_shell)) = sh_out fresh_shell @ w \<and>
     line_shown (vga_write w 7 prompt_console) 7 3 [0x24, 0x20, 0x70, 0x77, 0x64] 4"
proof -
  let ?ks = "[Ins 0x6C, Up, GoLeft]"
  have "\<forall>k \<in> set ?ks. k \<noteq> Enter \<and> (\<forall>c. k = Ins c \<longrightarrow> printable c)" by (simp add: printable_def)
  moreover have "all_fit (sh_hist fresh_shell) ?ks no_line" by (simp add: fresh_shell_def no_line_def line_fits_def)
  moreover have "al_zip (fold (akey (sh_hist fresh_shell)) ?ks no_line) = ([0x70, 0x77], [0x64])" by (simp add: fresh_shell_def no_line_def)
  moreover have "prompt @ [0x70, 0x77] @ [0x64] = [0x24, 0x20, 0x70, 0x77, 0x64]" "2 + length [0x70 :: u8, 0x77] = 4"
    by (simp_all add: prompt_def)
  ultimately show ?thesis
    using shell_screen_shows_line [OF fresh_at_prompt _ _ prompt_console_shown, of ?ks] by (auto simp only: prod.case)
qed

text \<open>
  A line of 78 characters fills the row: the cursor goes to the next row, and the carriage return of the next redrawing
  starts there.
\<close>

lemma full_row_wraps:
  assumes "console_at v (row_text color r f b) r c" and "r < 24" and "\<forall>x \<in> set t. printable x" and "length t = 78" and "prev \<le> 78"
  shows "vga_get_cursor (vga_write (redraw_bytes prev t 78) color v) = (r + 1, 0)"
proof -
  obtain u x where t: "t = u @ [x]" using assms(4) by (cases t rule: rev_cases) auto
  let ?v = "vga_write u color (vga_write [0x0D, 0x24, 0x20] color v)"
  have "console_at ?v (row_text color r (\<lambda>j. if 2 \<le> j \<and> j < 2 + length u then u ! (j - 2) else (f(0 := 0x24, 1 := 0x20)) j) b) r (2 + length u)"
    using assms t by (intro console_text console_prompt) auto
  then have v: "vga_row ?v = r" "vga_col ?v = 79" using assms(4) t by (simp_all add: console_at_def)
  have "x \<notin> {0x0D, 0x08, 0x0A, 0x09}" using assms(3) t by (auto simp: printable_def)
  then have "vga_get_cursor (vga_putchar x color ?v) = (r + 1, 0)"
    using v assms(2) by (simp add: vga_putchar_def put_cell_def new_line_def vga_size vga_sync_cursor_def vga_get_cursor_def Let_def)
  moreover have "redraw_bytes prev t 78 = [0x0D, 0x24, 0x20] @ u @ [x]" using assms(4,5) t by (simp add: redraw_bytes_def)
  ultimately show ?thesis by (simp only: vga_write_append) simp
qed

text \<open>
  An escape sequence that is not known is read until a letter, but not from its own last letter on: the sequence of shift and tab
  swallows what is typed next, up to and including a letter.
\<close>

lemma unknown_sequence_swallows:
  assumes "\<not> is_alpha d" and "d \<noteq> 0x7E" and "is_alpha e"
  shows "read_key (Some 0x1B # Some 0x5B # Some 0x5A # Some d # Some e # inp) = Some (Ignored, inp)"
  using assms by (simp add: bracket_key_def)

section \<open>Words\<close>

text \<open>\<^verbatim>\<open>while (P(*line)) line++;\<close> as an index into the array.\<close>

definition scan :: "(u8 \<Rightarrow> bool) \<Rightarrow> bytes \<Rightarrow> nat \<Rightarrow> nat" where
  "scan P line pos = pos + length (takeWhile P (drop pos line))"

text \<open>The pointers in \<^verbatim>\<open>argv\<close> are indices; \<open>None\<close> is a read behind the array.\<close>

function tok_loop :: "nat \<Rightarrow> bytes \<Rightarrow> nat \<Rightarrow> nat list \<Rightarrow> (nat list \<times> bytes) option" where
  "tok_loop mx line pos argv =
     (if length line \<le> pos then None
      else if line ! pos = 0 then Some (argv, line)
      else let pos = scan (\<lambda>c. c = 0x20) line pos in
        if length line \<le> pos then None
        else if line ! pos = 0 \<or> mx \<le> length argv then Some (argv, line)
        else let quoted = line ! pos = 0x22;
                 start = (if quoted then pos + 1 else pos);
                 e = scan (\<lambda>c. c \<noteq> 0 \<and> c \<noteq> (if quoted then 0x22 else 0x20)) line start
             in if length line \<le> e then None
                else if line ! e \<noteq> 0 then tok_loop mx (line[e := 0]) (e + 1) (argv @ [start])
                else tok_loop mx line e (argv @ [start]))"
  by pat_completeness auto
termination by (relation "measure (\<lambda>(mx, line, pos, argv). mx - length argv)") auto

declare tok_loop.simps [simp del]

definition tokenize :: "bytes \<Rightarrow> nat \<Rightarrow> (nat list \<times> bytes) option" where
  "tokenize line mx = tok_loop mx line 0 []"

definition arg_text :: "bytes \<Rightarrow> nat \<Rightarrow> bytes" where
  "arg_text line p = takeWhile (\<lambda>c. c \<noteq> 0) (drop p line)"

text \<open>The words of a line: parts between blanks, or between a quotation mark at the beginning of a word and the next one.\<close>

fun shell_words :: "nat \<Rightarrow> bytes \<Rightarrow> bytes list" where
  "shell_words 0 t = []"
| "shell_words (Suc k) t =
     (case dropWhile (\<lambda>c. c = 0x20) t of
        [] \<Rightarrow> []
      | c # r \<Rightarrow>
          if c = 0x22 then takeWhile (\<lambda>c. c \<noteq> 0x22) r # shell_words k (drop 1 (dropWhile (\<lambda>c. c \<noteq> 0x22) r))
          else takeWhile (\<lambda>c. c \<noteq> 0x20) (c # r) # shell_words k (drop 1 (dropWhile (\<lambda>c. c \<noteq> 0x20) (c # r))))"

lemma scan_text:
  assumes "0 \<notin> set t" and "\<not> P 0"
  shows "scan P (d @ t @ 0 # z) (length d) = length d + length (takeWhile P t)"
  using assms by (auto simp: scan_def takeWhile_append takeWhile_eq_all_conv [THEN iffD2])

lemma scan_word:
  assumes "0 \<notin> set b"
  shows "scan (\<lambda>c. c \<noteq> 0 \<and> c \<noteq> q) (p @ b @ 0 # z) (length p) = length p + length (takeWhile (\<lambda>c. c \<noteq> q) b)"
proof -
  have "takeWhile (\<lambda>c. c \<noteq> 0 \<and> c \<noteq> q) b = takeWhile (\<lambda>c. c \<noteq> q) b" using assms by (intro takeWhile_cong) auto
  then show ?thesis using assms scan_text [of b "\<lambda>c. c \<noteq> 0 \<and> c \<noteq> q" p z] by simp
qed

text \<open>One word, from behind the blanks and the quotation mark: \<open>p\<close> is what is before it, \<open>q\<close> what ends it.\<close>

lemma word_step:
  assumes "0 \<notin> set b" and "line = p @ b @ 0 # z" and "w = takeWhile (\<lambda>c. c \<noteq> q) b" and "v = drop 1 (dropWhile (\<lambda>c. c \<noteq> q) b)"
    and "e = length p + length w"
    and IH: "\<And>d line. line = d @ v @ 0 # z \<Longrightarrow> \<exists>as line'. tok_loop mx line (length d) argv = Some (argv @ as, line') \<and>
       map (arg_text line') as = ws \<and> (\<exists>x. line' = d @ x) \<and> length line' = length line"
    and nil: "v = [] \<Longrightarrow> ws = []"
  shows "e < length line \<and> (\<exists>as line'. (if line ! e \<noteq> 0 then tok_loop mx (line[e := 0]) (e + 1) argv else tok_loop mx line e argv) =
      Some (argv @ as, line') \<and> map (arg_text line') (length p # as) = w # ws \<and> (\<exists>x. line' = p @ x) \<and> length line' = length line)"
proof -
  have b: "b = w @ dropWhile (\<lambda>c. c \<noteq> q) b" by (simp add: assms(3))
  have w0: "\<forall>c \<in> set w. c \<noteq> 0" using assms(1,3) by (auto dest: set_takeWhileD)
  have tx: "arg_text (p @ w @ 0 # x) (length p) = w" for x using w0 by (simp add: arg_text_def takeWhile_append2)
  show ?thesis
  proof (cases "dropWhile (\<lambda>c. c \<noteq> q) b")
    case Nil
    have "b = w" using b unfolding Nil by simp
    then have "line = p @ w @ 0 # z" using assms(2) by simp
    moreover have "v = []" using assms(4) unfolding Nil by simp
    moreover from calculation have "tok_loop mx line e argv = Some (argv, line)" using assms(5) by (subst tok_loop.simps) (simp add: nth_append)
    ultimately show ?thesis using assms(5) tx nil by (simp add: nth_append)
  next
    case (Cons c v')
    have "v' = v" using assms(4) unfolding Cons by simp
    moreover have "c = q" using Cons by (simp add: dropWhile_eq_Cons_conv)
    ultimately have c: "c = q" "v' = v" by simp_all
    have line: "line = p @ w @ q # v @ 0 # z" using assms(2) b Cons c by simp
    have q0: "q \<noteq> 0" using assms(1) b Cons c by (metis in_set_conv_decomp set_append Un_iff)
    have upd: "line[e := 0] = (p @ w @ [0]) @ v @ 0 # z" using line assms(5) by (simp add: list_update_append)
    obtain as line' x where r: "tok_loop mx (line[e := 0]) (length (p @ w @ [0])) argv = Some (argv @ as, line')"
        "map (arg_text line') as = ws" "line' = (p @ w @ [0]) @ x" "length line' = length line"
      using IH [OF upd] by auto
    have "length (p @ w @ [0]) = e + 1" using assms(5) by simp
    moreover have "line ! e = q" "e < length line" using line assms(5) by (simp_all add: nth_append)
    ultimately show ?thesis using r q0 tx [of x] by simp
  qed
qed

lemma shell_words_Nil [simp]: "shell_words k [] = []"
  by (cases k) simp_all

lemma shell_words_pos: "0 < k \<Longrightarrow> t \<noteq> [] \<Longrightarrow> shell_words k t =
     (case dropWhile (\<lambda>c. c = 0x20) t of
        [] \<Rightarrow> []
      | c # r \<Rightarrow>
          if c = 0x22 then takeWhile (\<lambda>c. c \<noteq> 0x22) r # shell_words (k - 1) (drop 1 (dropWhile (\<lambda>c. c \<noteq> 0x22) r))
          else takeWhile (\<lambda>c. c \<noteq> 0x20) (c # r) # shell_words (k - 1) (drop 1 (dropWhile (\<lambda>c. c \<noteq> 0x20) (c # r))))"
  by (cases k) (simp_all del: dropWhile_eq_Nil_conv split: list.split)

lemma tok_loop_unfold:
  assumes "line = d @ t @ 0 # z" and "0 \<notin> set t" and "u = dropWhile (\<lambda>c. c = 0x20) t" and "d' = d @ takeWhile (\<lambda>c. c = 0x20) t"
  shows "tok_loop mx line (length d) argv =
    (if u = [] \<or> mx \<le> length argv then Some (argv, line)
     else let quoted = hd u = 0x22;
              start = (if quoted then length d' + 1 else length d');
              e = scan (\<lambda>c. c \<noteq> 0 \<and> c \<noteq> (if quoted then 0x22 else 0x20)) line start
          in if length line \<le> e then None
             else if line ! e \<noteq> 0 then tok_loop mx (line[e := 0]) (e + 1) (argv @ [start])
             else tok_loop mx line e (argv @ [start]))"
proof (cases t)
  case Nil
  then show ?thesis using assms by (subst tok_loop.simps) (simp add: nth_append)
next
  case (Cons c t')
  have line: "line = d' @ u @ 0 # z" using assms by simp
  have "scan (\<lambda>c. c = 0x20) line (length d) = length d'"
    unfolding assms(1) using assms(2,4) by (subst scan_text) simp_all
  moreover have "line ! length d = c" "c \<noteq> 0" "length d < length line" using assms(1,2) Cons by (auto simp: nth_append)
  moreover have "line ! length d' = hd (u @ [0])" "length d' < length line" using line by (cases u; simp add: nth_append)+
  moreover have "hd u \<noteq> 0" if "u \<noteq> []" using that assms(2,3) by (metis hd_in_set set_dropWhileD)
  ultimately show ?thesis by (subst tok_loop.simps) (auto simp: Let_def)
qed

lemma tok_loop_words:
  assumes "line = d @ t @ 0 # z" and "0 \<notin> set t"
  shows "\<exists>as line'. tok_loop mx line (length d) argv = Some (argv @ as, line') \<and>
    map (arg_text line') as = shell_words (mx - length argv) t \<and> (\<exists>x. line' = d @ x) \<and> length line' = length line"
  using assms
proof (induction "mx - length argv" arbitrary: line d t argv)
  case 0
  then show ?case using tok_loop_unfold [OF 0(2,3) refl refl, of mx argv] by auto
next
  case (Suc k)
  define u d' where "u = dropWhile (\<lambda>c. c = 0x20) t" and "d' = d @ takeWhile (\<lambda>c. c = 0x20) t"
  note unf = tok_loop_unfold [OF Suc.prems u_def d'_def, of mx argv]
  have line: "line = d' @ u @ 0 # z" using Suc.prems(1) by (simp add: u_def d'_def)
  have mx: "mx - length argv = Suc k" "\<not> mx \<le> length argv" using Suc.hyps(2) by auto
  show ?case
  proof (cases u)
    case Nil
    have "shell_words (mx - length argv) t = []" unfolding mx(1) shell_words.simps u_def [symmetric] using Nil by simp
    then show ?thesis using unf Nil Suc.prems(1) by simp
  next
    case (Cons c r)
    define p b q where "p = (if c = 0x22 then d' @ [0x22] else d')" and "b = (if c = 0x22 then r else c # r)"
      and "q = (if c = 0x22 then 0x22 else 0x20 :: u8)"
    define v where "v = drop 1 (dropWhile (\<lambda>c. c \<noteq> q) b)"
    have b0: "0 \<notin> set b" using Suc.prems(2) Cons by (auto simp: b_def u_def dest!: arg_cong [where f = set] set_dropWhileD)
    have line': "line = p @ b @ 0 # z" using line Cons by (simp add: p_def b_def)
    have ws: "shell_words (mx - length argv) t = takeWhile (\<lambda>c. c \<noteq> q) b # shell_words k v"
      using Cons mx(1) by (simp add: u_def b_def q_def v_def)
    have IH: "\<exists>as l'. tok_loop mx l (length d0) (argv @ [length p]) = Some ((argv @ [length p]) @ as, l') \<and>
        map (arg_text l') as = shell_words k v \<and> (\<exists>x. l' = d0 @ x) \<and> length l' = length l" if "l = d0 @ v @ 0 # z" for d0 l
    proof -
      have "0 \<notin> set v" using b0 by (auto simp: v_def dest: in_set_dropD set_dropWhileD)
      moreover have "k = mx - length (argv @ [length p])" using mx(1) by simp
      ultimately show ?thesis using Suc.hyps(1) [of "argv @ [length p]" l d0 v] that by simp
    qed
    have "scan (\<lambda>c. c \<noteq> 0 \<and> c \<noteq> q) line (length p) = length p + length (takeWhile (\<lambda>c. c \<noteq> q) b)"
      unfolding line' by (rule scan_word [OF b0])
    moreover note word_step [OF b0 line' refl v_def refl IH]
    moreover have "tok_loop mx line (length d) argv =
      (let e = scan (\<lambda>c. c \<noteq> 0 \<and> c \<noteq> q) line (length p)
       in if length line \<le> e then None else if line ! e \<noteq> 0 then tok_loop mx (line[e := 0]) (e + 1) (argv @ [length p])
          else tok_loop mx line e (argv @ [length p]))"
      unfolding unf using Cons mx(2) by (simp add: p_def q_def Let_def)
    moreover have "\<exists>x. l = d @ x" if "\<exists>x. l = p @ x" for l using that by (auto simp: p_def d'_def split: if_splits)
    ultimately show ?thesis unfolding ws by (auto simp: Let_def)
  qed
qed

text \<open>
  \<^verbatim>\<open>tokenize\<close>, which cuts the line in place by NULs, returns pointers to the words of the line in order, at most
  \<^verbatim>\<open>max\<close>, where a word is a part between blanks or a part between quotation marks; it reads and writes no byte behind the NUL of the line.
\<close>

lemma tokenize_words:
  assumes "0 \<notin> set t"
  shows "\<exists>argv line'. tokenize (t @ 0 # z) mx = Some (argv, line') \<and> map (arg_text line') argv = shell_words mx t \<and>
    length line' = length (t @ 0 # z)"
  using tok_loop_words [of "t @ 0 # z" "[]" t z mx "[]"] assms by (auto simp: tokenize_def)

lemma tokenize_words_example:
  "\<exists>argv line'. tokenize [0x20, 0x6C, 0x73, 0x20, 0x22, 0x61, 0x20, 0x62, 0x22, 0] 16 = Some (argv, line') \<and>
     map (arg_text line') argv = [[0x6C, 0x73], [0x61, 0x20, 0x62]]"
proof -
  have "shell_words 16 [0x20, 0x6C, 0x73, 0x20, 0x22, 0x61, 0x20, 0x62, 0x22] = [[0x6C, 0x73], [0x61, 0x20, 0x62]]"
    by (simp add: shell_words_pos)
  then show ?thesis using tokenize_words [of "[0x20, 0x6C, 0x73, 0x20, 0x22, 0x61, 0x20, 0x62, 0x22]" "[]" 16] by auto
qed

section \<open>Commands\<close>

text \<open>
  The system calls, on a state \<open>'w\<close> of the system; \<open>u_fork\<close> takes what the child does.  A call of exit does not return.  The arguments
  are strings, so that \<^verbatim>\<open>strcmp\<close> is equality.
\<close>

record 'w usys =
  u_write :: "bytes \<Rightarrow> 'w \<Rightarrow> 'w"
  u_chdir :: "bytes \<Rightarrow> 'w \<Rightarrow> int \<times> 'w"
  u_getcwd :: "'w \<Rightarrow> int \<times> bytes \<times> 'w"
  u_spawn :: "bytes \<Rightarrow> bytes list \<Rightarrow> 'w \<Rightarrow> int \<times> 'w"
  u_waitpid :: "int \<Rightarrow> 'w \<Rightarrow> int \<times> 'w"
  u_pipe :: "'w \<Rightarrow> int \<times> int \<times> int \<times> 'w"
  u_fork :: "('w \<Rightarrow> 'w option) \<Rightarrow> 'w \<Rightarrow> (int \<times> 'w) option"
  u_close :: "int \<Rightarrow> 'w \<Rightarrow> 'w"
  u_dup2 :: "int \<Rightarrow> int \<Rightarrow> 'w \<Rightarrow> 'w"
  u_exit :: "int \<Rightarrow> 'w \<Rightarrow> 'w"
  u_shutdown :: "'w \<Rightarrow> 'w"

definition tx :: "string \<Rightarrow> bytes" where "tx cs = map of_char cs"

definition say :: "'w usys \<Rightarrow> string \<Rightarrow> 'w \<Rightarrow> 'w" where "say H cs w = u_write H (tx cs @ [0x0A]) w"

partial_function (option) sh_waitpid :: "'w usys \<Rightarrow> int \<Rightarrow> 'w \<Rightarrow> (int \<times> 'w) option" where
  "sh_waitpid H pid w = (case u_waitpid H pid w of (code, w) \<Rightarrow> if code = -2 then sh_waitpid H pid w else Some (code, w))"

text \<open>\<^verbatim>\<open>strcpy\<close> and \<^verbatim>\<open>strcat\<close> into an array of 256 bytes; \<open>None\<close> when it overflows.\<close>

definition bin_path :: "bytes \<Rightarrow> bytes option" where
  "bin_path name = (let t = tx ''/system/bin/'' @ name @ tx ''.elf'' in if length t < 256 then Some t else None)"

text \<open>A process of a pipeline: it has \<open>keep\<close> as its descriptor \<open>fd\<close> and runs the command; a missing name is a wild or NULL pointer.\<close>

definition pipe_child :: "'w usys \<Rightarrow> int \<Rightarrow> int \<Rightarrow> int \<Rightarrow> bytes list \<Rightarrow> 'w \<Rightarrow> 'w option" where
  "pipe_child H other keep fd argv w =
     (let w = u_close H keep (u_dup2 H keep fd (u_close H other w)) in
      if argv = [] then None
      else do { path \<leftarrow> bin_path (hd argv);
                case u_spawn H path argv w of (p, w) \<Rightarrow>
                  if p < 0 then Some (u_exit H 1 (say H ''shell: command not found'' w))
                  else do { (_, w) \<leftarrow> sh_waitpid H p w; Some (u_exit H 0 w) } })"

definition run_pipe :: "'w usys \<Rightarrow> bytes list \<Rightarrow> bytes list \<Rightarrow> 'w \<Rightarrow> (int \<times> 'w) option" where
  "run_pipe H left right w =
     (case u_pipe H w of (r, p0, p1, w) \<Rightarrow>
        if r < 0 then Some (-1, say H ''shell: pipe failed'' w)
        else do {
          (pid1, w) \<leftarrow> u_fork H (pipe_child H p0 p1 1 left) w;
          if pid1 < 0 then Some (-1, u_close H p1 (u_close H p0 (say H ''shell: fork failed'' w)))
          else do {
            (pid2, w) \<leftarrow> u_fork H (pipe_child H p1 p0 0 right) w;
            if pid2 < 0 then Some (-1, u_close H p1 (u_close H p0 (say H ''shell: fork failed'' w)))
            else do {
              (_, w) \<leftarrow> sh_waitpid H pid1 (u_close H p1 (u_close H p0 w));
              (_, w) \<leftarrow> sh_waitpid H pid2 w;
              Some (0, w) } } })"

definition run_program :: "'w usys \<Rightarrow> bytes list \<Rightarrow> 'w \<Rightarrow> (int \<times> 'w) option" where
  "run_program H argv w =
     (if 200 < length (hd argv) then Some (-1, w)
      else do { path \<leftarrow> bin_path (hd argv);
                case u_spawn H path argv w of (pid, w) \<Rightarrow>
                  if pid < 0 then Some (-1, say H ''shell: command not found'' w) else sh_waitpid H pid w })"

definition run_cmd :: "'w usys \<Rightarrow> bytes list \<Rightarrow> 'w \<Rightarrow> (int \<times> 'w) option" where
  "run_cmd H argv w =
     (if argv = [] \<or> hd argv = [] then Some (0, w)
      else if hd argv = tx ''cd''
      then (case u_chdir H (if 1 < length argv then argv ! 1 else tx ''/'') w of (r, w) \<Rightarrow>
              if r < 0 then Some (-1, say H ''cd: no such file or directory'' w) else Some (0, w))
      else if hd argv = tx ''pwd''
      then (case u_getcwd H w of (r, cwd, w) \<Rightarrow>
              Some (0, if r = 0 then u_write H [0x0A] (u_write H cwd w) else say H ''pwd: error getting current directory'' w))
      else if hd argv = tx ''exit'' then Some (0, u_exit H 0 w)
      else if hd argv = tx ''shutdown'' then Some (0, u_shutdown H (say H ''shutting down...'' w))
      else if hd argv = tx ''export''
      then Some (0, if length argv < 2 then say H ''export: usage: export VAR=VALUE'' w
                    else say H ''export: environment variables not supported yet'' w)
      else let left = takeWhile (\<lambda>a. a \<noteq> tx ''|'') argv in
        if length left < length argv then run_pipe H left (drop (length left + 1) argv) w else run_program H argv w)"

text \<open>One round of \<^verbatim>\<open>main\<close>: the prompt, a line, its words, and the command.\<close>

definition shell_round :: "'w usys \<Rightarrow> rd \<Rightarrow> shell \<Rightarrow> 'w \<Rightarrow> (rd \<times> shell \<times> 'w) option" where
  "shell_round H inp s w =
     do { (n, rest, s) \<leftarrow> sh_readline SH_LINE_MAX inp (sh_print prompt s);
          (argv, line) \<leftarrow> tokenize (sh_buf s) MAX_ARGS;
          let s = s\<lparr>sh_buf := line\<rparr>;
          if argv = [] then Some (rest, s, w)
          else do { (_, w) \<leftarrow> run_cmd H (map (arg_text line) argv) w; Some (rest, s, w) } }"

text \<open>
  C38 (functional): a round of the shell edits a line, splits it and runs it: what it does to the system is what the command made of
  the first 16 words of the entered line does, and the line is in the history afterwards.
\<close>

theorem shell_round_runs_words:
  assumes "at_prompt (sh_print prompt s)" and "entered (sh_hist s) inp = Some (t, rest)"
  shows "\<exists>s'. sh_hist s' = remember t (sh_hist s) \<and>
    shell_round H inp s w =
      (if shell_words 16 t = [] then Some (rest, s', w)
       else map_option (\<lambda>(r, w). (rest, s', w)) (run_cmd H (shell_words 16 t) w))"
proof -
  have hist: "sh_hist (sh_print prompt s) = sh_hist s" by (simp add: sh_print_def sh_write_def)
  obtain s1 where s1: "sh_readline 256 inp (sh_print prompt s) = Some (length t, rest, s1)" "take (length t) (sh_buf s1) = t"
      "sh_buf s1 ! length t = 0" "length (sh_buf s1) = 256" "sh_hist s1 = remember t (sh_hist s)" and t: "plain_text t"
    using shell_readline_line [OF assms(1), of inp] assms(2) hist by auto
  have "length t < 256" "0 \<notin> set t" using t by (auto simp: plain_text_def printable_def)
  then have buf: "sh_buf s1 = t @ 0 # drop (Suc (length t)) (sh_buf s1)"
    using s1(2-4) by (metis append_take_drop_id Cons_nth_drop_Suc)
  obtain argv line' where tok: "tokenize (sh_buf s1) 16 = Some (argv, line')" "map (arg_text line') argv = shell_words 16 t"
    using tok_loop_words [of "sh_buf s1" "[]" t "drop (Suc (length t)) (sh_buf s1)" 16 "[]"] buf \<open>0 \<notin> set t\<close>
    by (auto simp: tokenize_def)
  have "argv = [] \<longleftrightarrow> shell_words 16 t = []" using tok(2) by auto
  then show ?thesis using s1 tok
    by (intro exI [of _ "s1\<lparr>sh_buf := line'\<rparr>"]; cases "run_cmd H (shell_words 16 t) w") (auto simp: shell_round_def sh_limits)
qed

text \<open>A system that records the calls of exit, and the line \<^verbatim>\<open>exit\<close>.\<close>

definition exit_log :: "int list usys" where
  "exit_log = \<lparr>u_write = (\<lambda>_ w. w), u_chdir = (\<lambda>_ w. (0, w)), u_getcwd = (\<lambda>w. (0, [], w)), u_spawn = (\<lambda>_ _ w. (-1, w)),
     u_waitpid = (\<lambda>_ w. (0, w)), u_pipe = (\<lambda>w. (-1, 0, 0, w)), u_fork = (\<lambda>_ w. Some (-1, w)), u_close = (\<lambda>_ w. w),
     u_dup2 = (\<lambda>_ _ w. w), u_exit = (\<lambda>c w. w @ [c]), u_shutdown = (\<lambda>w. w)\<rparr>"

theorem shell_round_runs_words_witness:
  "\<exists>s'. shell_round exit_log (map Some [0x65, 0x78, 0x69, 0x74, 0x0A]) (fresh_shell\<lparr>sh_out := []\<rparr>) [] = Some ([], s', [0])"
proof -
  let ?s = "fresh_shell\<lparr>sh_out := []\<rparr>" and ?t = "[0x65, 0x78, 0x69, 0x74] :: bytes"
  have "sh_print prompt ?s = fresh_shell" by (simp add: sh_print_def sh_write_def prompt_def fresh_shell_def)
  then have "at_prompt (sh_print prompt ?s)" by (simp add: fresh_at_prompt)
  moreover have "entered (sh_hist ?s) (map Some (?t @ [0x0A])) = Some (?t, [])"
    by (simp add: entered_def fresh_shell_def line_edit.simps)
  ultimately have "\<exists>s'. sh_hist s' = remember ?t (sh_hist ?s) \<and> shell_round exit_log (map Some (?t @ [0x0A])) ?s [] =
      (if shell_words 16 ?t = [] then Some ([], s', [])
       else map_option (\<lambda>(r, w). ([], s', w)) (run_cmd exit_log (shell_words 16 ?t) []))"
    by (rule shell_round_runs_words)
  moreover have "shell_words 16 ?t = [?t]" by (simp add: shell_words_pos)
  moreover have "run_cmd exit_log [?t] [] = Some (0, [0])" by (simp add: run_cmd_def tx_def exit_log_def)
  ultimately show ?thesis by auto
qed

text \<open>
  The limit on the length of a name is not checked in a pipeline, so that a long name overflows the array of the child; a pipeline
  without a command behind the bar uses an argument that is not there.
\<close>

lemma pipe_name_overflows: "239 < length name \<Longrightarrow> pipe_child H other keep fd (name # args) w = None"
  by (simp add: pipe_child_def bin_path_def tx_def Let_def)

lemma pipe_name_missing: "pipe_child H other keep fd [] w = None"
  by (simp add: pipe_child_def Let_def)

end
