(* ===== verification/Acpi.thy ===== *)
theory Acpi
  imports Libc_Mem Pmm
begin

text \<open>
  The firmware tables, \<^verbatim>\<open>kernel/drivers/acpi/acpi.c\<close> and \<^verbatim>\<open>acpi_common.h\<close>, and the mapping of large pages in \<^verbatim>\<open>drivers/mmio.h\<close>.  The
  tables are read from a byte memory that the mapping does not change; the addresses given to \<^verbatim>\<open>mmio_map_2mb\<close> are collected in
  the order of the calls.  The results of switching off and of rebooting are the stores to ports, after which the code halts.
\<close>

section \<open>Large pages\<close>

definition PAGE_HUGE :: u64 where "PAGE_HUGE = 0x80"

definition mmio_map_2mb :: "u64 \<Rightarrow> phys \<Rightarrow> phys option" where
  "mmio_map_2mb phys_addr s =
     (let aligned = phys_addr AND NOT 0x1FFFFF;
          entry = aligned OR 1 OR 2 OR PAGE_HUGE;
          pdp = 0x2000 + 8 * (drop_bit 30 aligned AND 0x1FF);
          pd_idx = drop_bit 21 aligned AND 0x1FF
      in do {
        s \<leftarrow> (if pmem s pdp AND 1 = 0
             then do { (pd_page, s) \<leftarrow> pmm_alloc s;
                       let s = s\<lparr>pmem := fold (\<lambda>i m. m(pd_page + of_nat (8 * i) := 0)) [0..<512] (pmem s)\<rparr>;
                       Some (s\<lparr>pmem := (pmem s)(pdp := pd_page OR 1 OR 2)\<rparr>) }
             else Some s);
        let pd2 = pmem s pdp AND NOT 0xFFF;
        Some (s\<lparr>pmem := (pmem s)(pd2 + 8 * pd_idx := entry)\<rparr>) })"

section \<open>Tables\<close>

definition MAPPED_LIMIT :: u64 where "MAPPED_LIMIT = 0x200000"

definition rd32 :: "mem8 \<Rightarrow> u64 \<Rightarrow> u32" where
  "rd32 m a = ucast (m a) OR push_bit 8 (ucast (m (a + 1))) OR push_bit 16 (ucast (m (a + 2))) OR push_bit 24 (ucast (m (a + 3)))"

definition sdt_length :: "mem8 \<Rightarrow> u64 \<Rightarrow> u32" where "sdt_length m a = rd32 m (a + 4)"
definition sdt_revision :: "mem8 \<Rightarrow> u64 \<Rightarrow> u8" where "sdt_revision m a = m (a + 8)"
definition rsdp_revision :: "mem8 \<Rightarrow> u64 \<Rightarrow> u8" where "rsdp_revision m a = m (a + 15)"
definition rsdt_addr :: "mem8 \<Rightarrow> u64 \<Rightarrow> u32" where "rsdt_addr m a = rd32 m (a + 16)"
definition xsdt_addr :: "mem8 \<Rightarrow> u64 \<Rightarrow> u64" where "xsdt_addr m a = load64 m (a + 24)"
definition fadt_dsdt :: "mem8 \<Rightarrow> u64 \<Rightarrow> u32" where "fadt_dsdt m a = rd32 m (a + 40)"
definition pm1a_cnt_blk :: "mem8 \<Rightarrow> u64 \<Rightarrow> u32" where "pm1a_cnt_blk m a = rd32 m (a + 64)"
definition pm1b_cnt_blk :: "mem8 \<Rightarrow> u64 \<Rightarrow> u32" where "pm1b_cnt_blk m a = rd32 m (a + 68)"
definition reset_reg :: "mem8 \<Rightarrow> u64 \<Rightarrow> nat \<Rightarrow> u8" where "reset_reg m a i = m (a + 116 + of_nat i)"
definition reset_value :: "mem8 \<Rightarrow> u64 \<Rightarrow> u8" where "reset_value m a = m (a + 128)"

definition acpi_checksum :: "mem8 \<Rightarrow> u64 \<Rightarrow> nat \<Rightarrow> u8" where
  "acpi_checksum m p len = fold (\<lambda>i sum. sum + m (p + of_nat i)) [0..<len] 0"

definition rsdp_match :: "mem8 \<Rightarrow> u64 \<Rightarrow> bool" where
  "rsdp_match m a \<longleftrightarrow>
     list_all (\<lambda>i. m (a + of_nat i) = of_char (''RSD PTR '' ! i)) [0..<8] \<and> acpi_checksum m a 20 = 0 \<and>
     (2 \<le> rsdp_revision m a \<longrightarrow> acpi_checksum m a 36 = 0)"

text \<open>\<^verbatim>\<open>for (addr = 0xE0000; addr < 0xFFFFF; addr += 16)\<close>; 0 is NULL.\<close>

definition rsdp_find :: "mem8 \<Rightarrow> u64" where
  "rsdp_find m = (case find (rsdp_match m) (map (\<lambda>k. 0xE0000 + 16 * of_nat k) [0..<8192]) of Some a \<Rightarrow> a | None \<Rightarrow> 0)"

definition ensure_mapped :: "u64 \<Rightarrow> u64 list" where
  "ensure_mapped a = (if MAPPED_LIMIT \<le> a then [a] else [])"

fun sdt_loop :: "mem8 \<Rightarrow> (nat \<Rightarrow> u64) \<Rightarrow> string \<Rightarrow> nat list \<Rightarrow> u64 list \<Rightarrow> u64 \<times> u64 list" where
  "sdt_loop m entry sig [] maps = (0, maps)"
| "sdt_loop m entry sig (i # is) maps =
     (let tbl = entry i in
      if tbl = 0 then sdt_loop m entry sig is maps
      else let maps = maps @ ensure_mapped tbl in
        if list_all (\<lambda>j. m (tbl + of_nat j) = of_char (sig ! j)) [0..<4] then (tbl, maps)
        else sdt_loop m entry sig is maps)"

definition find_sdt :: "mem8 \<Rightarrow> u64 \<Rightarrow> string \<Rightarrow> u64 list \<Rightarrow> u64 \<times> u64 list" where
  "find_sdt m rsdp sig maps =
     (if 2 \<le> rsdp_revision m rsdp \<and> xsdt_addr m rsdp \<noteq> 0
      then let xsdt = xsdt_addr m rsdp;
               num = ucast ((ucast (sdt_length m xsdt) - 36) div 8 :: u64) :: u32
           in sdt_loop m (\<lambda>i. load64 m (xsdt + 36 + 8 * of_nat i)) sig [0..<unat num]
                (maps @ ensure_mapped xsdt @ ensure_mapped (xsdt + ucast (sdt_length m xsdt)))
      else let rsdt = rsdt_addr m rsdp in
        if rsdt = 0 then (0, maps)
        else let a = ucast rsdt :: u64;
                 num = ucast ((ucast (sdt_length m a) - 36) div 4 :: u64) :: u32
             in sdt_loop m (\<lambda>i. ucast (rd32 m (a + 36 + 4 * of_nat i))) sig [0..<unat num]
                  (maps @ ensure_mapped a @ ensure_mapped (ucast (rsdt + sdt_length m a))))"

section \<open>The sleep type\<close>

text \<open>A number of the package at \<open>pos\<close>, and the position behind it.\<close>

definition aml_elem :: "(u32 \<Rightarrow> u8) \<Rightarrow> u32 \<Rightarrow> (u16 \<times> u32) option" where
  "aml_elem d pos =
     (if d pos = 0x0A then Some (ucast (d (pos + 1)), pos + 2)
      else if d pos = 0x0B then Some (ucast (d (pos + 1)) OR push_bit 8 (ucast (d (pos + 2))), pos + 3)
      else if d pos = 0x00 then Some (0, pos + 1)
      else if d pos = 0x01 then Some (1, pos + 1)
      else None)"

definition s5_name :: bytes where "s5_name = [0x08, 0x5C, 0x5F, 0x53, 0x35, 0x5F, 0x12]"

text \<open>
  The loop of \<^verbatim>\<open>parse_s5\<close> over the positions still to be tried; the first number is stored before the second is
  looked at.
\<close>

fun s5_loop :: "(u32 \<Rightarrow> u8) \<Rightarrow> u32 list \<Rightarrow> u16 \<times> u16 \<Rightarrow> int \<times> u16 \<times> u16" where
  "s5_loop d [] typ = (-1, typ)"
| "s5_loop d (i # is) typ =
     (if \<not> list_all (\<lambda>j. d (i + of_nat j) = s5_name ! j) [0..<7] then s5_loop d is typ
      else let lead = d (i + 7);
               nbytes = drop_bit 4 lead AND 3;
               pos = i + 8 + ucast nbytes
           in if d pos < 2 then s5_loop d is typ
              else (case aml_elem d (pos + 1) of
                      None \<Rightarrow> s5_loop d is typ
                    | Some (a, pos) \<Rightarrow>
                        (case aml_elem d pos of
                           None \<Rightarrow> s5_loop d is (a, snd typ)
                         | Some (b, _) \<Rightarrow> (0, a, b))))"

definition parse_s5 :: "mem8 \<Rightarrow> u64 \<Rightarrow> u32 \<Rightarrow> u16 \<times> u16 \<Rightarrow> int \<times> u16 \<times> u16" where
  "parse_s5 m dsdt dsdt_len typ = s5_loop (\<lambda>pos. m (dsdt + ucast pos)) (map of_nat [0..<unat (dsdt_len - 6)]) typ"

section \<open>Switching off and rebooting\<close>

text \<open>\<^verbatim>\<open>(slp_typ << 10) | (1 << 13)\<close>, cut to the 16 bits of the port.\<close>

definition sleep_word :: "u16 \<Rightarrow> u16" where "sleep_word t = push_bit 10 t OR 0x2000"

definition acpi_shutdown :: "mem8 \<Rightarrow> (u16 \<times> u16) list \<times> u64 list" where
  "acpi_shutdown m =
     (let rsdp = rsdp_find m in
      if rsdp = 0 then ([], [])
      else case find_sdt m rsdp ''FACP'' [] of (fadt, maps) \<Rightarrow>
        if fadt = 0 then ([], maps)
        else let a = pm1a_cnt_blk m fadt;
                 b = pm1b_cnt_blk m fadt;
                 dsdt = ucast (fadt_dsdt m fadt) :: u64;
                 (typ, maps) =
                   (if dsdt = 0 then ((7, 7), maps)
                    else (if acpi_checksum m dsdt (unat (sdt_length m dsdt)) = 0
                          then snd (parse_s5 m dsdt (sdt_length m dsdt) (7, 7)) else (7, 7),
                          maps @ ensure_mapped dsdt))
             in ((if a \<noteq> 0 then [(ucast a, sleep_word (fst typ))] else []) @
                 (if b \<noteq> 0 then [(ucast b, sleep_word (snd typ))] else []), maps))"

datatype reset_act = Out8 u16 u8 | Store8 u64 u8

definition acpi_reboot :: "mem8 \<Rightarrow> reset_act list \<times> u64 list" where
  "acpi_reboot m =
     (let rsdp = rsdp_find m;
          (acts, maps) =
            (if rsdp = 0 then ([], [])
             else case find_sdt m rsdp ''FACP'' [] of (fadt, maps) \<Rightarrow>
               if fadt = 0 \<or> sdt_revision m fadt < 2 then ([], maps)
               else let space = reset_reg m fadt 0;
                        width = reset_reg m fadt 1;
                        addr = fold (\<lambda>b a. a OR push_bit (b * 8) (ucast (reset_reg m fadt (4 + b)))) [0..<8] 0 :: u64;
                        val = reset_value m fadt
                    in (if addr \<noteq> 0 \<and> width \<noteq> 0
                        then (if space = 1 then [Out8 (ucast addr) val] else if space = 0 then [Store8 addr val] else [])
                        else [], maps))
      in (acts @ [Out8 0x64 0xFE], maps))"

section \<open>What is proved\<close>

text \<open>
  The object \<^verbatim>\<open>Name (\_S5_, Package () {...})\<close> in the encoding of the ACPI specification: the name operator, the prefix of the root,
  the four characters of the name, the package operator, the length of the package, which counts itself, the number of elements
  and the elements.  A constant is one of the operators zero and one, or a byte or a word behind its prefix.
\<close>

datatype aml_const = ZeroOp | OneOp | ByteConst u8 | WordConst u16

fun const_bytes :: "aml_const \<Rightarrow> bytes" where
  "const_bytes ZeroOp = [0x00]"
| "const_bytes OneOp = [0x01]"
| "const_bytes (ByteConst b) = [0x0A, b]"
| "const_bytes (WordConst w) = [0x0B, ucast w, ucast (drop_bit 8 w)]"

fun const_value :: "aml_const \<Rightarrow> u16" where
  "const_value ZeroOp = 0"
| "const_value OneOp = 1"
| "const_value (ByteConst b) = ucast b"
| "const_value (WordConst w) = w"

definition s5_head :: bytes where
  "s5_head = [0x08] @ map of_char (CHR 0x5C # ''_S5_'') @ [0x12]"

definition s5_object :: "aml_const list \<Rightarrow> bytes" where
  "s5_object es =
     (let body = concat (map const_bytes es) in s5_head @ [of_nat (2 + length body), of_nat (length es)] @ body)"

definition name_at :: "bytes \<Rightarrow> nat \<Rightarrow> bool" where
  "name_at t i \<longleftrightarrow> take 7 (drop i t) = s5_head"

lemma s5_head_name: "s5_head = s5_name"
  by (simp add: s5_head_def s5_name_def of_char_def)

lemma const_bytes_read:
  assumes "\<And>k. k < length (const_bytes c) \<Longrightarrow> d (pos + of_nat k) = const_bytes c ! k"
  shows "aml_elem d pos = Some (const_value c, pos + of_nat (length (const_bytes c)))"
proof -
  have hi: "ucast (ucast v :: u8) OR push_bit 8 (ucast (ucast (drop_bit 8 v) :: u8)) = v" for v :: u16
    by (rule bit_word_eqI) (auto simp: bit_simps)
  show ?thesis using assms [of 0] assms [of 1] assms [of 2] hi
    by (cases c) (auto simp: aml_elem_def)
qed

text \<open>A table \<open>t\<close> in memory, seen through 32-bit indices.\<close>

lemma table_read:
  fixes m :: mem8
  assumes "\<forall>k < length t. m (p + of_nat k) = t ! k" and "length t < 2 ^ 32" and "i + k < length t"
  shows "m (p + ucast (of_nat i + of_nat k :: u32)) = t ! (i + k)"
proof -
  have "unat (of_nat (i + k) :: u32) = i + k"
    using unat_of_nat [where 'a = 32, of "i + k"] assms(2,3) by (simp del: of_nat_add)
  moreover have "unat (of_nat (i + k) :: u64) = i + k" using assms(2,3) by (intro unat_of_nat64) simp
  ultimately have u: "(ucast (of_nat (i + k) :: u32) :: u64) = of_nat (i + k)" by (simp only: word_unat_eq_iff unat_ucast_32_64)
  have "m (p + of_nat (i + k)) = t ! (i + k)" using assms(1,3) by blast
  then have "m (p + ucast (of_nat (i + k) :: u32)) = t ! (i + k)" unfolding u .
  then show ?thesis unfolding of_nat_add .
qed

lemma s5_loop_skip:
  "\<forall>i \<in> set is. \<not> list_all (\<lambda>j. d (i + of_nat j) = s5_name ! j) [0..<7] \<Longrightarrow> s5_loop d (is @ js) typ = s5_loop d js typ"
  by (induction "is") auto

lemma name_at_iff:
  assumes "\<And>k. k < 7 \<Longrightarrow> d (of_nat i + of_nat k) = t ! (i + k)" and "i + 7 \<le> length t"
  shows "list_all (\<lambda>j. d (of_nat i + of_nat j) = s5_name ! j) [0..<7] \<longleftrightarrow> name_at t i"
proof -
  have "list_all (\<lambda>j. d (of_nat i + of_nat j) = s5_name ! j) [0..<7] \<longleftrightarrow> (\<forall>j < 7. t ! (i + j) = s5_name ! j)"
    using assms(1) by (auto simp: list_all_iff)
  also have "\<dots> \<longleftrightarrow> name_at t i" using assms(2) by (auto simp: name_at_def list_eq_iff_nth_eq s5_head_name s5_name_def)
  finally show ?thesis .
qed

lemma short_lead: "lead < 16 \<Longrightarrow> drop_bit 4 (lead :: u8) = 0"
  by (simp add: word_unat_eq_iff drop_bit_eq_div unat_div word_less_nat_alt)

lemma s5_loop_hit:
  fixes n lead :: u8
  assumes rd: "\<And>k. i + k < length t \<Longrightarrow> d (of_nat i + of_nat k) = t ! (i + k)"
    and t: "drop i t = s5_name @ [lead, n] @ const_bytes a @ const_bytes b @ post" (is "_ = ?p") and i: "i < length t"
    and lead: "lead < 16" and n: "2 \<le> n"
  shows "s5_loop d (of_nat i # is) typ = (0, const_value a, const_value b)"
proof -
  have nth: "d (of_nat i + of_nat k) = ?p ! k" if "k < 9 + length (const_bytes a) + length (const_bytes b)" for k
  proof -
    have "i + k < length t" using that arg_cong [OF t, of length] by (simp add: s5_name_def)
    then show ?thesis using rd [of k] i unfolding t [symmetric] by simp
  qed
  have l7: "length s5_name = 7" by (simp add: s5_name_def)
  have name: "list_all (\<lambda>j. d (of_nat i + of_nat j) = s5_name ! j) [0..<7]"
    using nth by (auto simp: list_all_iff nth_append l7)
  have 7: "d (of_nat i + 7) = lead" using nth [of 7] by (simp add: l7 nth_append)
  have 8: "d (of_nat i + 8) = n" using nth [of 8] by (simp add: l7 nth_append)
  have A: "aml_elem d (of_nat i + 9) = Some (const_value a, of_nat i + 9 + of_nat (length (const_bytes a)))"
  proof (rule const_bytes_read)
    fix k assume "k < length (const_bytes a)"
    then show "d (of_nat i + 9 + of_nat k) = const_bytes a ! k"
      using nth [of "9 + k"] by (simp add: l7 nth_append algebra_simps)
  qed
  have B: "aml_elem d (of_nat i + 9 + of_nat (length (const_bytes a))) =
      Some (const_value b, of_nat i + 9 + of_nat (length (const_bytes a)) + of_nat (length (const_bytes b)))"
  proof (rule const_bytes_read)
    fix k assume "k < length (const_bytes b)"
    then show "d (of_nat i + 9 + of_nat (length (const_bytes a)) + of_nat k) = const_bytes b ! k"
      using nth [of "9 + length (const_bytes a) + k"] by (simp add: l7 nth_append algebra_simps)
  qed
  have "\<not> n < 2" using n by simp
  then show ?thesis using name 7 8 A B short_lead [OF lead] by (simp add: Let_def algebra_simps)
qed

text \<open>
  C39 (roundtrip): \<^verbatim>\<open>parse_s5\<close> finds in a table of definitions the first object \<^verbatim>\<open>Name (\_S5_, Package () {...})\<close>, written with the
  prefix of the root, and returns the values of the first two constants of its package, whichever of the four encodings each
  of them has, when the length of the package is below 16.
\<close>

theorem parse_s5_finds:
  assumes "\<forall>k < length t. m (p + of_nat k) = t ! k" and "length t < 2 ^ 32"
    and "t = pre @ s5_object (a # b # es) @ post" and "\<forall>i < length pre. \<not> name_at t i"
    and "2 + length (concat (map const_bytes (a # b # es))) < 16"
  shows "parse_s5 m p (of_nat (length t)) typ = (0, const_value a, const_value b)"
proof -
  let ?d = "\<lambda>pos :: u32. m (p + ucast pos)" and ?i = "length pre" and ?body = "concat (map const_bytes (a # b # es))"
  have rd: "?d (of_nat i + of_nat k) = t ! (i + k)" if "i + k < length t" for i k using table_read [OF assms(1,2) that] .
  have c: "0 < length (const_bytes c)" for c by (cases c) simp_all
  have es: "length es \<le> length (concat (map const_bytes es))"
  proof (induction es)
    case (Cons e es)
    then show ?case using c [of e] by (simp del: length_greater_0_conv)
  qed simp
  have t: "t = pre @ s5_name @ [of_nat (2 + length ?body), of_nat (length (a # b # es))] @ const_bytes a @ const_bytes b @
      concat (map const_bytes es) @ post" (is "_ = _ @ _ @ [?lead, ?n] @ _")
    using assms(3) by (simp add: s5_object_def s5_head_name Let_def)
  have n: "2 \<le> ?n" using es assms(5) by (simp add: word_le_nat_alt unat_of_nat del: of_nat_Suc)
  have lead: "?lead < 16" using assms(5) by (simp add: word_less_nat_alt unat_of_nat del: of_nat_Suc of_nat_add)
  have len: "?i + 10 \<le> length t" using c [of a] unfolding t by (simp add: s5_name_def del: length_greater_0_conv)
  have "unat (of_nat (length t) - 6 :: u32) = length t - 6"
    using assms(2) len by (simp add: unat_sub word_le_nat_alt unat_of_nat)
  moreover have "[0..<length t - 6] = [0..<?i] @ ?i # [Suc ?i..<length t - 6]"
    using upt_add_eq_append [of 0 ?i "length t - 6 - ?i"] upt_conv_Cons [of ?i "length t - 6"] len by simp
  moreover have "\<forall>i \<in> set (map of_nat [0..<?i]). \<not> list_all (\<lambda>j. ?d (i + of_nat j) = s5_name ! j) [0..<7]"
    using name_at_iff [of ?d _ t] rd assms(4) len by auto
  moreover have "s5_loop ?d (of_nat ?i # map of_nat [Suc ?i..<length t - 6]) typ = (0, const_value a, const_value b)"
    using t len by (intro s5_loop_hit [OF rd _ _ lead n]) auto
  ultimately show ?thesis by (simp add: parse_s5_def s5_loop_skip)
qed

definition sample_dsdt :: bytes where
  "sample_dsdt = [0x10] @ s5_object [ByteConst 5, WordConst 7, ZeroOp, ZeroOp] @ [0x00]"

lemma sample_dsdt_bytes:
  "sample_dsdt = [0x10, 0x08, 0x5C, 0x5F, 0x53, 0x35, 0x5F, 0x12, 0x09, 0x04, 0x0A, 0x05, 0x0B, 0x07, 0x00, 0x00, 0x00, 0x00]"
  by (simp add: sample_dsdt_def s5_object_def s5_head_name s5_name_def Let_def)

theorem parse_s5_finds_witness:
  "parse_s5 (\<lambda>a. if a < 18 then sample_dsdt ! unat a else 0) 0 (of_nat (length sample_dsdt)) (1, 1) = (0, 5, 7)"
proof -
  let ?m = "\<lambda>a :: u64. if a < 18 then sample_dsdt ! unat a else 0"
  have len: "length sample_dsdt = 18" by (simp add: sample_dsdt_bytes)
  then have "\<forall>k < length sample_dsdt. ?m (0 + of_nat k) = sample_dsdt ! k" by (auto simp: unat_of_nat64 word_less_nat_alt)
  then have "parse_s5 ?m 0 (of_nat (length sample_dsdt)) (1, 1) = (0, const_value (ByteConst 5), const_value (WordConst 7))"
  proof (rule parse_s5_finds [where pre = "[0x10]" and post = "[0x00]" and es = "[ZeroOp, ZeroOp]"])
    show "sample_dsdt = [0x10] @ s5_object [ByteConst 5, WordConst 7, ZeroOp, ZeroOp] @ [0x00]" by (rule sample_dsdt_def)
    show "\<forall>i < length [0x10 :: u8]. \<not> name_at sample_dsdt i" by (simp add: name_at_def sample_dsdt_bytes s5_head_name s5_name_def)
  qed (simp_all add: len)
  then show ?thesis by simp
qed

text \<open>
  The name without the prefix of the root, which is as common in tables, is not found; and when the second number is not one of the four
  encodings, the first has already been replaced.
\<close>

lemma parse_s5_needs_prefix:
  "s5_loop (\<lambda>i. ([0x08, 0x5F, 0x53, 0x35, 0x5F, 0x12, 0x06, 0x04, 0x0A, 0x05, 0x0A, 0x05] :: bytes) ! unat i) [0, 1, 2, 3, 4] typ = (-1, typ)"
  by (simp add: s5_name_def upt_rec)

lemma parse_s5_stores_half:
  assumes "\<forall>j < 7. d (i + of_nat j) = s5_name ! j" and "d (i + 7) = 6" and "2 \<le> d (i + 8)" and "aml_elem d (i + 9) = Some (a, pos)"
    and "aml_elem d pos = None"
  shows "s5_loop d [i] (7, 7) = (-1, a, 7)"
proof -
  have "\<not> d (i + 8) < 2" using assms(3) by simp
  moreover have "list_all (\<lambda>j. d (i + of_nat j) = s5_name ! j) [0..<7]" using assms(1) by (simp add: list_all_iff)
  ultimately show ?thesis using assms(2,4,5) by (simp add: Let_def add.assoc)
qed

text \<open>
  The number of bytes that follow the first byte of the length is in its two highest bits; the code takes the next two.  A package with a
  length of two bytes is therefore not found.
\<close>

lemma parse_s5_long_package:
  "s5_loop (\<lambda>i. (s5_name @ [0x40, 0x01, 0x04, 0x0A, 0x05, 0x0A, 0x05]) ! unat i) [0, 1, 2, 3, 4, 5, 6, 7] typ = (-1, typ)"
  by (simp add: s5_name_def upt_rec)

text \<open>The page directory has the entry of the large page afterwards, unless it overlaps its own table.\<close>

lemma mmio_map_2mb_entry:
  assumes "mmio_map_2mb a s = Some t" and "b = a AND NOT 0x1FFFFF" and "slot = 0x2000 + 8 * (drop_bit 30 b AND 0x1FF)"
    and "i = 8 * (drop_bit 21 b AND 0x1FF)"
  shows "\<exists>pd. pmem t (pd + i) = b OR 1 OR 2 OR PAGE_HUGE \<and> (pd + i \<noteq> slot \<longrightarrow> pmem t slot AND NOT 0xFFF = pd)"
proof -
  obtain u where u: "t = u\<lparr>pmem := (pmem u)((pmem u slot AND NOT 0xFFF) + i := b OR 1 OR 2 OR PAGE_HUGE)\<rparr>"
    using assms(1) unfolding mmio_map_2mb_def Let_def assms(2-4)
    by (auto split: if_splits bind_splits simp: Option.bind_eq_Some_conv)
  show ?thesis unfolding u by (intro exI [of _ "pmem u slot AND NOT 0xFFF"]) simp
qed

end
