(* ===== verification/Ed.thy ===== *)
theory Ed
  imports Format
begin

text \<open>
  The line editor, \<^verbatim>\<open>user/coreutils/ed.c\<close>.  The contents of the array \<^verbatim>\<open>buf\<close> are the list of its first \<^verbatim>\<open>buf_len\<close> bytes; the arrays with
  the offsets and lengths of the lines keep what they held before, as in the source.  \<open>None\<close> is behaviour C leaves undefined (a
  \<^verbatim>\<open>memmove\<close> of a negative number of bytes) or input that has not come yet.  The system calls on files are parameters;
  what goes to the terminal is collected.  \<open>junk\<close> is an uninitialised byte of the formatter.
\<close>

section \<open>State\<close>

definition BUF_SIZE :: nat where "BUF_SIZE = 65536"
definition MAX_LINES :: nat where "MAX_LINES = 1024"
definition ED_LINE_MAX :: nat where "ED_LINE_MAX = 256"

lemmas ed_limits = BUF_SIZE_def MAX_LINES_def ED_LINE_MAX_def

record ledit =
  le_buf :: bytes
  num_lines :: nat
  line_offsets :: "nat \<Rightarrow> nat"
  line_lens :: "nat \<Rightarrow> nat"
  cur_line :: int
  le_out :: bytes

definition not_nl :: "u8 \<Rightarrow> bool" where "not_nl c \<longleftrightarrow> c \<noteq> 0x0A"

text \<open>The loop of \<^verbatim>\<open>rebuild_lines\<close>.\<close>

function rebuild_loop :: "bytes \<Rightarrow> nat \<Rightarrow> nat \<Rightarrow> (nat \<Rightarrow> nat) \<Rightarrow> (nat \<Rightarrow> nat) \<Rightarrow> nat \<times> (nat \<Rightarrow> nat) \<times> (nat \<Rightarrow> nat)" where
  "rebuild_loop buf pos n offs lens =
     (if pos < length buf \<and> n < MAX_LINES
      then let e = pos + length (takeWhile not_nl (drop pos buf))
           in rebuild_loop buf (if e < length buf then e + 1 else e) (n + 1) (offs(n := pos)) (lens(n := e - pos))
      else (n, offs, lens))"
  by pat_completeness auto
termination by (relation "measure (\<lambda>(buf, pos, n, offs, lens). MAX_LINES - n)") auto

declare rebuild_loop.simps [simp del]

definition rebuild_lines :: "ledit \<Rightarrow> ledit" where
  "rebuild_lines s =
     (let (n, offs, lens) = rebuild_loop (le_buf s) 0 0 (line_offsets s) (line_lens s);
          cur = (if int n \<le> cur_line s then int n - 1 else cur_line s);
          cur = (if cur < 0 then 0 else cur)
      in s\<lparr>num_lines := n, line_offsets := offs, line_lens := lens, cur_line := cur\<rparr>)"

definition line_text :: "nat \<Rightarrow> ledit \<Rightarrow> bytes" where
  "line_text i s = take (line_lens s i) (drop (line_offsets s i) (le_buf s))"

definition le_write :: "bytes \<Rightarrow> ledit \<Rightarrow> ledit" where
  "le_write bs s = s\<lparr>le_out := le_out s @ bs\<rparr>"

text \<open>Both bounds are included; the first is not negative where it is called.\<close>

definition print_lines :: "nat \<Rightarrow> nat \<Rightarrow> ledit \<Rightarrow> ledit" where
  "print_lines start stop s = fold (\<lambda>i. le_write (line_text i s @ [0x0A])) [start..<min (stop + 1) (num_lines s)] s"

section \<open>Editing\<close>

definition insert_line :: "int \<Rightarrow> bytes \<Rightarrow> ledit \<Rightarrow> ledit option" where
  "insert_line after txt s =
     (if MAX_LINES \<le> num_lines s then Some s
      else let pos = (if after < 0 then 0 else if int (num_lines s) \<le> after then length (le_buf s)
                      else line_offsets s (nat (after + 1)))
           in if BUF_SIZE < length (le_buf s) + length txt + 1 then Some s
              else if length (le_buf s) < pos then None
              else Some (rebuild_lines (s\<lparr>le_buf := take pos (le_buf s) @ txt @ [0x0A] @ drop pos (le_buf s), cur_line := after + 1\<rparr>)))"

definition delete_line :: "int \<Rightarrow> ledit \<Rightarrow> ledit option" where
  "delete_line idx s =
     (if idx < 0 \<or> int (num_lines s) \<le> idx then Some s
      else let pos = line_offsets s (nat idx);
               remove_len = line_lens s (nat idx) + 1
           in if length (le_buf s) < pos + remove_len then None
              else Some (rebuild_lines (s\<lparr>le_buf := take pos (le_buf s) @ drop (pos + remove_len) (le_buf s)\<rparr>)))"

section \<open>Input and files\<close>

text \<open>Reading up to \<open>n\<close> more characters; \<open>None\<close> in the input is a call of read that returned nothing.\<close>

fun stdin_line :: "nat \<Rightarrow> u8 option list \<Rightarrow> (bytes \<times> u8 option list) option" where
  "stdin_line 0 inp = Some ([], inp)"
| "stdin_line (Suc n) [] = None"
| "stdin_line (Suc n) (None # inp) = Some ([], inp)"
| "stdin_line (Suc n) (Some c # inp) =
     (if c = 0x0A then Some ([], inp) else map_option (\<lambda>(t, r). (c # t, r)) (stdin_line n inp))"

definition read_stdin_line :: "nat \<Rightarrow> u8 option list \<Rightarrow> (bytes \<times> u8 option list) option" where
  "read_stdin_line mx inp = stdin_line (mx - 1) inp"

record 'w fsys =
  f_open :: "bytes \<Rightarrow> int \<Rightarrow> 'w \<Rightarrow> int \<times> 'w"
  f_read :: "int \<Rightarrow> nat \<Rightarrow> 'w \<Rightarrow> int \<times> bytes \<times> 'w"
  f_write :: "int \<Rightarrow> bytes \<Rightarrow> 'w \<Rightarrow> int \<times> 'w"
  f_close :: "int \<Rightarrow> 'w \<Rightarrow> 'w"

partial_function (option) read_all :: "'w fsys \<Rightarrow> int \<Rightarrow> bytes \<Rightarrow> 'w \<Rightarrow> (bytes \<times> 'w) option" where
  "read_all F fd buf w =
     (case f_read F fd (BUF_SIZE - length buf) w of (n, bs, w) \<Rightarrow>
        if 0 < n then read_all F fd (buf @ take (nat n) bs) w else Some (buf, w))"

definition read_file :: "'w fsys \<Rightarrow> bytes \<Rightarrow> ledit \<Rightarrow> 'w \<Rightarrow> (int \<times> ledit \<times> 'w) option" where
  "read_file F path s w =
     (case f_open F path 0 w of (fd, w) \<Rightarrow>
        if fd < 0 then Some (-1, s, w)
        else do { (buf, w) \<leftarrow> read_all F fd [] w;
                  Some (0, rebuild_lines (s\<lparr>le_buf := buf, cur_line := 0\<rparr>), f_close F fd w) })"

partial_function (option) write_all :: "'w fsys \<Rightarrow> int \<Rightarrow> bytes \<Rightarrow> 'w \<Rightarrow> (int \<times> 'w) option" where
  "write_all F fd bs w =
     (if bs = [] then Some (0, f_close F fd w)
      else (case f_write F fd bs w of (n, w) \<Rightarrow>
              if n \<le> 0 then Some (-1, f_close F fd w) else write_all F fd (drop (nat n) bs) w))"

definition write_file :: "'w fsys \<Rightarrow> bytes \<Rightarrow> ledit \<Rightarrow> 'w \<Rightarrow> (int \<times> 'w) option" where
  "write_file F path s w =
     (case f_open F path 1 w of (fd, w) \<Rightarrow> if fd < 0 then Some (-1, w) else write_all F fd (le_buf s) w)"

section \<open>Commands\<close>

definition ascii :: "string \<Rightarrow> bytes" where "ascii cs = map of_char cs"

text \<open>The number at the beginning of a line, on an \<^verbatim>\<open>int\<close>.\<close>

definition line_number :: "bytes \<Rightarrow> int" where
  "line_number line = fold (\<lambda>c n. wrap_int (n * 10 + (uint c - 0x30))) (takeWhile is_digit line) 0"

text \<open>Lines up to a single full stop, gathered in an array of 1024 bytes; a line that does not fit ends the input.\<close>

function gather :: "bytes \<Rightarrow> u8 option list \<Rightarrow> (bytes \<times> u8 option list) option" where
  "gather acc inp =
     (case read_stdin_line ED_LINE_MAX inp of
        None \<Rightarrow> None
      | Some (t, inp') \<Rightarrow>
          let t = takeWhile (\<lambda>c. c \<noteq> 0) t in
          if t = [0x2E] then Some (acc, inp')
          else if 1024 < length acc + length t + 1 then Some (acc, inp')
          else gather (acc @ t @ [0x0A]) inp')"
  by pat_completeness auto
termination by (relation "measure (\<lambda>(acc, inp). 1024 - length acc)") auto

declare gather.simps [simp del]

definition print_all :: "u8 \<Rightarrow> ledit \<Rightarrow> ledit option" where
  "print_all junk s =
     fold (\<lambda>i s. do { s \<leftarrow> s; num \<leftarrow> ctext junk (ascii ''%d: '') [Word (of_nat (i + 1))];
                      Some (le_write [0x0A] (le_write (line_text i s) (le_write num s))) }) [0..<num_lines s] (Some s)"

text \<open>One round of the loop of \<^verbatim>\<open>main\<close>; \<open>True\<close> is the return.\<close>

definition show_current :: "ledit \<Rightarrow> ledit" where
  "show_current s = (if 0 \<le> cur_line s \<and> cur_line s < int (num_lines s) then print_lines (nat (cur_line s)) (nat (cur_line s)) s else s)"

definition ed_insert :: "int \<Rightarrow> u8 option list \<Rightarrow> ledit \<Rightarrow> (u8 option list \<times> ledit) option" where
  "ed_insert after inp s =
     do { (txt, inp) \<leftarrow> gather [] inp;
          s \<leftarrow> (if txt \<noteq> [] then insert_line after txt s else Some s);
          Some (inp, s) }"

definition ed_command ::
  "'w fsys \<Rightarrow> u8 \<Rightarrow> bytes \<Rightarrow> u8 option list \<Rightarrow> ledit \<Rightarrow> 'w \<Rightarrow> (bool \<times> u8 option list \<times> ledit \<times> 'w) option" where
  "ed_command F junk path inp s w =
     do { (line, inp) \<leftarrow> read_stdin_line ED_LINE_MAX inp;
          let s = le_write (ascii ''. '') s;
          let c = (if line = [] then 0 else hd line);
          if c = 0 then Some (False, inp, show_current s, w)
          else if is_digit c
          then let n = line_number line in
            Some (False, inp, if 1 \<le> n \<and> n \<le> int (num_lines s) then print_lines (nat (n - 1)) (nat (n - 1)) (s\<lparr>cur_line := n - 1\<rparr>) else s, w)
          else if c = 0x69 then do { (inp, s) \<leftarrow> ed_insert (cur_line s - 1) inp s; Some (False, inp, s, w) }
          else if c = 0x61 then do { (inp, s) \<leftarrow> ed_insert (cur_line s) inp s; Some (False, inp, s, w) }
          else if c = 0x64 then do { s \<leftarrow> delete_line (cur_line s) s; Some (False, inp, s, w) }
          else if c = 0x70 then do { s \<leftarrow> print_all junk s; Some (False, inp, s, w) }
          else if c = 0x77
          then do { (r, w) \<leftarrow> write_file F path s w;
                    t \<leftarrow> (if r < 0 then Some (ascii ''ed: write error'' @ [0x0A])
                          else ctext junk (ascii ''wrote %ld bytes'' @ [0x0A]) [Word (of_nat (length (le_buf s)))]);
                    Some (False, inp, le_write t s, w) }
          else if c = 0x71 then Some (True, inp, s, w)
          else Some (False, inp, show_current s, w) }"

section \<open>Lines\<close>

text \<open>The lines of a text; what follows the first line.\<close>

definition behind_nl :: "bytes \<Rightarrow> bytes" where "behind_nl t = drop 1 (dropWhile not_nl t)"

lemma behind_nl_shorter: "t \<noteq> [] \<Longrightarrow> length (behind_nl t) < length t"
  by (cases t) (auto simp: behind_nl_def length_dropWhile_le less_Suc_eq_le diff_le_self intro: le_trans [OF diff_le_self])

function lines :: "bytes \<Rightarrow> bytes list" where
  "lines t = (if t = [] then [] else takeWhile not_nl t # lines (behind_nl t))"
  by pat_completeness auto
termination by (relation "measure length") (auto intro: behind_nl_shorter)

declare lines.simps [simp del]

lemma lines_Nil [simp]: "lines [] = []"
  by (simp add: lines.simps)

lemma lines_first: "t \<noteq> [] \<Longrightarrow> lines t = takeWhile not_nl t # lines (behind_nl t)"
  by (subst lines.simps) simp

text \<open>Texts that end with a line feed.\<close>

definition closed :: "bytes \<Rightarrow> bool" where "closed t \<longleftrightarrow> t = [] \<or> last t = 0x0A"

lemma closed_has_nl: "closed t \<Longrightarrow> t \<noteq> [] \<Longrightarrow> 0x0A \<in> set t"
  by (metis closed_def last_in_set)

lemma behind_closed:
  assumes "closed a" and "a \<noteq> []"
  shows "takeWhile not_nl (a @ b) = takeWhile not_nl a" and "behind_nl (a @ b) = behind_nl a @ b" and "closed (behind_nl a)"
proof -
  have ex: "\<exists>x \<in> set a. \<not> not_nl x" using closed_has_nl [OF assms] by (auto simp: not_nl_def)
  then show "takeWhile not_nl (a @ b) = takeWhile not_nl a" by (auto intro: takeWhile_append1)
  have ne: "dropWhile not_nl a \<noteq> []" using ex by simp
  have "Suc 0 \<le> length (dropWhile not_nl a)" using ne by (cases "dropWhile not_nl a") simp_all
  then show "behind_nl (a @ b) = behind_nl a @ b" using ex by (auto simp: behind_nl_def dropWhile_append1)
  have "last (dropWhile not_nl a) = last a" using ne by (metis last_appendR takeWhile_dropWhile_id)
  then show "closed (behind_nl a)" using assms
    by (cases "1 < length (dropWhile not_nl a)") (auto simp: closed_def behind_nl_def last_drop)
qed

lemma lines_append: "closed a \<Longrightarrow> lines (a @ b) = lines a @ lines b"
proof (induction a rule: lines.induct)
  case (1 a)
  show ?case
  proof (cases "a = []")
    case False
    then show ?thesis using 1 behind_closed [OF 1(2) False] by (simp add: lines_first)
  qed simp
qed

text \<open>A text split in front of its line number \<open>i\<close>.\<close>

lemma lines_split:
  assumes "i < length (lines t)"
  shows "\<exists>p r. t = p @ r \<and> (behind_nl ^^ i) t = r \<and> r \<noteq> [] \<and> closed p \<and> lines p = take i (lines t) \<and> lines r = drop i (lines t)"
  using assms
proof (induction i arbitrary: t)
  case 0
  then show ?case by (intro exI [of _ "[]"] exI [of _ t]) (auto simp: closed_def)
next
  case (Suc i)
  have t: "t \<noteq> []" using Suc.prems by auto
  then have "i < length (lines (behind_nl t))" using Suc.prems by (simp add: lines_first)
  from Suc.IH [OF this] obtain p r where pr: "behind_nl t = p @ r" "(behind_nl ^^ i) (behind_nl t) = r" "r \<noteq> []" "closed p"
    "lines p = take i (lines (behind_nl t))" "lines r = drop i (lines (behind_nl t))" by blast
  have "dropWhile not_nl t \<noteq> []"
  proof
    assume "dropWhile not_nl t = []"
    then have "behind_nl t = []" by (simp only: behind_nl_def drop_Nil)
    then show False using pr(1,3) by simp
  qed
  then obtain c where d: "dropWhile not_nl t = 0x0A # behind_nl t"
    by (cases "dropWhile not_nl t") (auto simp: behind_nl_def dropWhile_eq_Cons_conv not_nl_def)
  let ?l = "takeWhile not_nl t @ [0x0A]"
  have tl: "t = ?l @ p @ r" using takeWhile_dropWhile_id [of not_nl t] d pr(1) by simp
  have cl: "closed ?l" "closed (?l @ p)" using pr(4) by (auto simp: closed_def)
  have one: "lines ?l = [takeWhile not_nl t]"
    by (subst lines_first) (auto simp: behind_nl_def not_nl_def takeWhile_append dropWhile_append dest: set_takeWhileD)
  have "lines (?l @ p) = take (Suc i) (lines t)" using lines_append [OF cl(1), of p] one pr(5) t by (simp add: lines_first)
  moreover have "lines r = drop (Suc i) (lines t)" using pr(6) t by (simp add: lines_first)
  ultimately show ?case using tl cl(2) pr(2,3) by (intro exI [of _ "?l @ p"] exI [of _ r]) (simp add: funpow_swap1)
qed

text \<open>What the arrays say of the lines from number \<open>n\<close> on, which are those of \<open>r\<close>.\<close>

definition indexed :: "bytes \<Rightarrow> bytes \<Rightarrow> nat \<Rightarrow> nat \<Rightarrow> (nat \<Rightarrow> nat) \<Rightarrow> (nat \<Rightarrow> nat) \<Rightarrow> bool" where
  "indexed buf r n n' offs lens \<longleftrightarrow>
     (\<forall>i. n \<le> i \<and> i < n' \<longrightarrow> offs i \<le> length buf \<and> drop (offs i) buf = (behind_nl ^^ (i - n)) r \<and>
        lens i = length (takeWhile not_nl ((behind_nl ^^ (i - n)) r)))"

lemma next_line:
  fixes pos :: nat and buf :: bytes
  defines "e \<equiv> pos + length (takeWhile not_nl (drop pos buf))"
  assumes "pos \<le> length buf"
  shows "drop (if e < length buf then e + 1 else e) buf = behind_nl (drop pos buf)" and "e \<le> length buf"
proof -
  have d: "drop e buf = dropWhile not_nl (drop pos buf)"
    unfolding e_def dropWhile_eq_drop by (simp add: add.commute)
  then show "drop (if e < length buf then e + 1 else e) buf = behind_nl (drop pos buf)"
    by (simp add: behind_nl_def flip: d)
  show "e \<le> length buf" using length_takeWhile_le [of not_nl "drop pos buf"] assms(2) by (simp add: e_def)
qed

lemma rebuild_loop_spec:
  assumes "rebuild_loop buf pos n offs lens = (n', offs', lens')" and "pos \<le> length buf" and "n \<le> MAX_LINES"
  shows "n' = min MAX_LINES (n + length (lines (drop pos buf))) \<and> (\<forall>i. i < n \<or> n' \<le> i \<longrightarrow> offs' i = offs i \<and> lens' i = lens i) \<and>
    indexed buf (drop pos buf) n n' offs' lens'"
  using assms
proof (induction buf pos n offs lens rule: rebuild_loop.induct)
  case (1 buf pos n offs lens)
  show ?case
  proof (cases "pos < length buf \<and> n < MAX_LINES")
    case False
    then show ?thesis using 1(2-4) by (subst (asm) rebuild_loop.simps) (auto simp: indexed_def min_def)
  next
    case True
    let ?r = "drop pos buf"
    define e pos' where "e = pos + length (takeWhile not_nl ?r)" and "pos' = (if e < length buf then e + 1 else e)"
    have nl: "drop pos' buf = behind_nl ?r" "e \<le> length buf" using next_line [OF 1(3)] unfolding e_def pos'_def by blast+
    have eq: "rebuild_loop buf pos' (n + 1) (offs(n := pos)) (lens(n := e - pos)) = (n', offs', lens')"
      using 1(2) True unfolding e_def pos'_def by (subst (asm) rebuild_loop.simps) (simp only: Let_def if_True simp_thms)
    have p': "pos' \<le> length buf" using nl(2) by (simp add: pos'_def)
    have n1: "n + 1 \<le> MAX_LINES" using True by simp
    have IH: "n' = min MAX_LINES (n + 1 + length (lines (behind_nl ?r)))"
        "\<forall>i. i < n + 1 \<or> n' \<le> i \<longrightarrow> offs' i = (offs(n := pos)) i \<and> lens' i = (lens(n := e - pos)) i"
        "indexed buf (behind_nl ?r) (n + 1) n' offs' lens'"
      using 1(1) [OF True e_def, folded pos'_def, OF eq p' n1, unfolded nl(1)] by blast+
    have ne: "?r \<noteq> []" using True by simp
    have "n < n'" using IH(1) True by simp
    have frame: "offs' i = offs i \<and> lens' i = lens i" if "i < n \<or> n' \<le> i" for i
    proof -
      have "i \<noteq> n" "i < n + 1 \<or> n' \<le> i" using that \<open>n < n'\<close> by auto
      then show ?thesis using IH(2) [rule_format, of i] by simp
    qed
    have "n' = min MAX_LINES (n + length (lines ?r))" using IH(1) ne by (simp add: lines_first)
    moreover have "indexed buf ?r n n' offs' lens'"
      unfolding indexed_def
    proof (intro allI impI)
      fix i assume i: "n \<le> i \<and> i < n'"
      show "offs' i \<le> length buf \<and> drop (offs' i) buf = (behind_nl ^^ (i - n)) ?r \<and>
          lens' i = length (takeWhile not_nl ((behind_nl ^^ (i - n)) ?r))"
      proof (cases "i = n")
        case True
        then show ?thesis using IH(2) 1(3) by (simp add: e_def)
      next
        case False
        then have "(behind_nl ^^ (i - n)) ?r = (behind_nl ^^ (i - (n + 1))) (behind_nl ?r)" using i
          by (metis Suc_diff_Suc Suc_eq_plus1 comp_apply funpow_Suc_right le_neq_implies_less)
        then show ?thesis using IH(3) i False by (simp add: indexed_def)
      qed
    qed
    ultimately show ?thesis using frame by blast
  qed
qed

definition ed_index_ok :: "ledit \<Rightarrow> bool" where
  "ed_index_ok s \<longleftrightarrow> num_lines s = min MAX_LINES (length (lines (le_buf s))) \<and>
     indexed (le_buf s) (le_buf s) 0 (num_lines s) (line_offsets s) (line_lens s)"

lemma rebuild_lines_ok:
  shows "ed_index_ok (rebuild_lines s)" and "le_buf (rebuild_lines s) = le_buf s"
proof -
  obtain n offs lens where r: "rebuild_loop (le_buf s) 0 0 (line_offsets s) (line_lens s) = (n, offs, lens)"
    by (metis prod_cases3)
  have "n = min MAX_LINES (length (lines (le_buf s)))" "indexed (le_buf s) (le_buf s) 0 n offs lens"
    using rebuild_loop_spec [OF r] by (auto simp del: min_def)
  then show "ed_index_ok (rebuild_lines s)" by (simp add: rebuild_lines_def r ed_index_ok_def Let_def)
  show "le_buf (rebuild_lines s) = le_buf s" using r by (simp add: rebuild_lines_def Let_def)
qed

text \<open>The text in front of a line that is in the index.\<close>

lemma index_split:
  assumes "ed_index_ok s" and "i < num_lines s" and "b = le_buf s" and "off = line_offsets s i"
  shows "drop off b \<noteq> []" and "closed (take off b)" and "lines (take off b) = take i (lines b)" and "lines (drop off b) = drop i (lines b)"
    and "off \<le> length b" and "line_lens s i = length (takeWhile not_nl (drop off b))"
proof -
  have i: "i < length (lines b)" using assms by (simp add: ed_index_ok_def)
  obtain p r where pr: "b = p @ r" "(behind_nl ^^ i) b = r" "r \<noteq> []" "closed p" "lines p = take i (lines b)" "lines r = drop i (lines b)"
    using lines_split [OF i] by blast
  have idx: "off \<le> length b" "drop off b = r" "line_lens s i = length (takeWhile not_nl r)"
    using assms pr(2) by (auto simp: ed_index_ok_def indexed_def)
  then have "take off b = p" using pr(1) by (metis append_same_eq append_take_drop_id)
  then show "drop off b \<noteq> []" "closed (take off b)" "lines (take off b) = take i (lines b)" "lines (drop off b) = drop i (lines b)"
    "off \<le> length b" "line_lens s i = length (takeWhile not_nl (drop off b))" using idx pr by simp_all
qed

text \<open>
  C40 (functional): inserting a text into a file of at most 1023 lines whose arrays are up to date, in front of one of its lines, puts the
  lines of the text there, each line before and behind it staying as it was; the arrays describe the new text, and the current
  line is the first one inserted.  A text that ends with a line feed, as the commands i and a make it, brings an empty line with it.
\<close>

theorem insert_line_inserts:
  assumes "ed_index_ok s" and "num_lines s < 1024" and "-1 \<le> after" and "after + 1 < int (num_lines s)"
    and "length (le_buf s) + length txt < 65536"
  shows "\<exists>s'. insert_line after txt s = Some s' \<and> ed_index_ok s' \<and> cur_line s' = after + 1 \<and>
    lines (le_buf s') = take (nat (after + 1)) (lines (le_buf s)) @ lines (txt @ [0x0A]) @ drop (nat (after + 1)) (lines (le_buf s))"
proof -
  let ?i = "nat (after + 1)"
  define b off where "b = le_buf s" and "off = line_offsets s ?i"
  have i: "?i < num_lines s" using assms(3,4) by linarith
  note sp = index_split [OF assms(1) i b_def off_def]
  let ?b = "take off b @ txt @ [0x0A] @ drop off b"
  let ?s = "s\<lparr>le_buf := ?b, cur_line := after + 1\<rparr>"
  have "off = 0" if "after < 0"
  proof -
    have "?i = 0" using that assms(3) by simp
    then show ?thesis using sp(3) lines_first [of "take off b"] sp(1) by (cases "take off b = []") auto
  qed
  then have eq: "insert_line after txt s = Some (rebuild_lines ?s)"
    using assms(2-5) sp(5) by (auto simp: insert_line_def ed_limits Let_def b_def [symmetric] off_def [symmetric])
  have "closed (txt @ [0x0A])" by (simp add: closed_def)
  then have ls: "lines ?b = take ?i (lines b) @ lines (txt @ [0x0A]) @ drop ?i (lines b)"
    using lines_append [OF sp(2), of "txt @ [0x0A] @ drop off b"] lines_append [of "txt @ [0x0A]" "drop off b"] sp(3,4) by simp
  have "?i < length (lines b)" using i assms(1) by (simp add: ed_index_ok_def b_def)
  then have "?i < length (lines ?b)" unfolding ls by simp
  then have "?i < num_lines (rebuild_lines ?s)"
    using rebuild_lines_ok [of ?s] i assms(2) by (simp add: ed_index_ok_def ed_limits)
  then have "cur_line (rebuild_lines ?s) = after + 1"
    using assms(3) by (auto simp: rebuild_lines_def Let_def split: prod.splits)
  then show ?thesis using eq ls rebuild_lines_ok [of ?s] by (simp add: b_def)
qed

definition ed_open :: "bytes \<Rightarrow> ledit" where
  "ed_open b = rebuild_lines \<lparr>le_buf = b, num_lines = 0, line_offsets = (\<lambda>_. 0), line_lens = (\<lambda>_. 0), cur_line = 0, le_out = []\<rparr>"

lemma ed_open_ok: "ed_index_ok (ed_open b)" "le_buf (ed_open b) = b" "num_lines (ed_open b) = min 1024 (length (lines b))"
proof -
  show ok: "ed_index_ok (ed_open b)" unfolding ed_open_def by (rule rebuild_lines_ok)
  show buf: "le_buf (ed_open b) = b" unfolding ed_open_def by (simp add: rebuild_lines_ok)
  show "num_lines (ed_open b) = min 1024 (length (lines b))" using ok buf by (simp add: ed_index_ok_def ed_limits)
qed

lemmas lines_eval = lines.simps behind_nl_def not_nl_def

theorem insert_line_inserts_witness:
  "\<exists>s'. insert_line 0 [0x63] (ed_open [0x61, 0x0A, 0x62, 0x0A]) = Some s' \<and> lines (le_buf s') = [[0x61], [0x63], [0x62]] \<and> cur_line s' = 1"
proof -
  let ?s = "ed_open [0x61, 0x0A, 0x62, 0x0A]"
  have L: "lines [0x61, 0x0A, 0x62, 0x0A] = [[0x61], [0x62]]" "lines [0x63, 0x0A] = [[0x63]]" by (simp_all add: lines_eval)
  have "\<exists>s'. insert_line 0 [0x63] ?s = Some s' \<and> ed_index_ok s' \<and> cur_line s' = 0 + 1 \<and>
      lines (le_buf s') = take (nat (0 + 1)) (lines (le_buf ?s)) @ lines ([0x63] @ [0x0A]) @ drop (nat (0 + 1)) (lines (le_buf ?s))"
    by (rule insert_line_inserts) (simp_all add: ed_open_ok L)
  then show ?thesis by (auto simp: ed_open_ok L)
qed

text \<open>Deleting removes the line from the text, provided that it ends with a line feed; otherwise the size of the \<^verbatim>\<open>memmove\<close> is -1.\<close>

lemma delete_line_deletes:
  assumes "ed_index_ok s" and "i < num_lines s" and "closed (le_buf s)"
  shows "\<exists>s'. delete_line (int i) s = Some s' \<and> ed_index_ok s' \<and>
    lines (le_buf s') = take i (lines (le_buf s)) @ drop (Suc i) (lines (le_buf s))"
proof -
  define b off where "b = le_buf s" and "off = line_offsets s i"
  note sp = index_split [OF assms(1,2) b_def off_def]
  define r where "r = drop off b"
  have "closed r" using assms(3) sp(1) by (auto simp: closed_def r_def b_def [symmetric] last_drop)
  then have nl: "0x0A \<in> set r" using closed_has_nl sp(1) by (simp add: r_def)
  have "length (takeWhile not_nl r) \<noteq> length r"
    using nl takeWhile_dropWhile_id [of not_nl r] by (metis append_eq_conv_conj set_takeWhileD take_all_iff le_refl not_nl_def takeWhile_eq_take)
  then have len: "off + (line_lens s i + 1) \<le> length b"
    using sp(5,6) length_takeWhile_le [of not_nl r] by (simp add: r_def)
  have "drop (off + (line_lens s i + 1)) b = behind_nl r"
    unfolding behind_nl_def dropWhile_eq_drop using sp(6) by (simp add: r_def add.commute)
  moreover have "lines (behind_nl r) = drop (Suc i) (lines b)"
    using sp(1,4) lines_first [of r] by (simp add: r_def) (metis drop_Suc list.sel(3) tl_drop)
  ultimately have "lines (take off b @ drop (off + (line_lens s i + 1)) b) = take i (lines b) @ drop (Suc i) (lines b)"
    using lines_append [OF sp(2)] sp(3) by simp
  moreover have "delete_line (int i) s = Some (rebuild_lines (s\<lparr>le_buf := take off b @ drop (off + (line_lens s i + 1)) b\<rparr>))"
    using len assms(2) by (simp add: delete_line_def Let_def b_def [symmetric] off_def [symmetric])
  ultimately show ?thesis using rebuild_lines_ok by (simp add: b_def)
qed

lemma delete_line_unterminated:
  assumes "ed_index_ok s" and "i < num_lines s" and "0x0A \<notin> set (drop (line_offsets s i) (le_buf s))"
  shows "delete_line (int i) s = None"
proof -
  note sp = index_split [OF assms(1,2) refl refl]
  have all: "takeWhile not_nl (drop (line_offsets s i) (le_buf s)) = drop (line_offsets s i) (le_buf s)"
    using assms(3) by (auto simp: takeWhile_eq_all_conv not_nl_def)
  have "line_offsets s i + line_lens s i = length (le_buf s)" using sp(5,6) unfolding all by simp
  then show ?thesis using assms(2) by (simp add: delete_line_def Let_def)
qed

text \<open>
  Behind the last line the offset is taken from an element of the array that was not set: in a file of one line, the line appended comes
  first.
\<close>

lemma append_behind_last_line:
  "\<exists>s'. insert_line 0 [0x62] (ed_open [0x61, 0x0A]) = Some s' \<and> le_buf s' = [0x62, 0x0A, 0x61, 0x0A]"
proof -
  have "num_lines (ed_open [0x61, 0x0A]) = 1" by (simp add: ed_open_ok lines_eval)
  moreover have "line_offsets (ed_open [0x61, 0x0A]) 1 = 0"
    by (simp add: ed_open_def rebuild_lines_def rebuild_loop.simps ed_limits not_nl_def Let_def)
  ultimately show ?thesis by (simp add: insert_line_def ed_limits ed_open_ok rebuild_lines_ok Let_def)
qed

end
