(* ===== verification/Spec2Isabelle.thy ===== *)
theory Spec2Isabelle
  imports Kmalloc Format Pipefs Tmpfs Fat32_Vfs Fat32_File Task_Stack Syscall_Inv Scanf Libc_Malloc Ata Procfs Shell Acpi Ed
begin

text \<open>
  Verification of lumin, a small x86-64 operating system: its kernel, its C library and the way the two meet.

  \<^bold>\<open>The program.\<close>  The boot loader leaves a memory map; \<^verbatim>\<open>kernel/mm/pmm.c\<close> turns it into lists of free pages,
  \<^verbatim>\<open>vmm.c\<close> builds page tables out of such pages and \<^verbatim>\<open>kmalloc.c\<close> a heap.  Disk drivers register with
  \<^verbatim>\<open>kernel/block/block.c\<close>, which adds the partitions it finds.  \<^verbatim>\<open>kernel/fs/vfs.c\<close> resolves paths over a mount table
  and calls the file systems \<^verbatim>\<open>fat32.c\<close>, \<^verbatim>\<open>tmpfs.c\<close>, \<^verbatim>\<open>pipefs.c\<close> and its own device file system through tables of
  functions.  \<^verbatim>\<open>kernel/proc/task.c\<close> keeps the processes, \<^verbatim>\<open>elf.c\<close> loads their programs, \<^verbatim>\<open>syscall.c\<close> serves their
  requests, and the interrupt handler of \<^verbatim>\<open>idt.c\<close> drives the clock, the keyboard and the scheduler.  Characters go
  to the consoles \<^verbatim>\<open>vga.c\<close> and \<^verbatim>\<open>fb.c\<close> and come from the line editor of \<^verbatim>\<open>os/keyboard.c\<close>.  User programs are
  linked against \<^verbatim>\<open>libc/src\<close>, the shell \<^verbatim>\<open>user/shell.c\<close> among them.

  \<^bold>\<open>How it is modelled.\<close>  Machine integers are words of their width (\<open>u8\<close>, \<open>u16\<close>, \<open>u32\<close>, \<open>u64\<close> of theory Prelude);
  a C \<^verbatim>\<open>int\<close> that can overflow is an \<open>int\<close> with \<open>wrap_int\<close>.  A C structure is a record, the static variables of a
  file are a record of its state, and a function that changes them returns the new state.  Memory is a function:
  \<open>mem64\<close> from addresses of words for physical memory and page tables, a function from addresses of bytes for the C
  library, headers by address for the two heaps.  A loop that need not end, and a lock that is taken twice, are
  \<open>partial_function (option)\<close>, so that not returning is \<open>None\<close>; that the code returns is then part of a theorem.
  There is no fuel.  A call through a table of functions goes through a record of functions; disks, the
  contents of programs and user memory are parameters of the definitions that use them, and what a theorem needs
  of a disk (a sector that was written reads back) is a hypothesis with an instance.

  \<^bold>\<open>The theories.\<close>
  \<^item> Prelude: types, collections of rewrite rules, lemmas on words, lists and the option monad.
  \<^item> Pmm (\<^verbatim>\<open>mm/pmm.c\<close>): zones, page lists, the lock.  The lists refine a pool of pages; initialisation frees exactly
    the usable pages of the memory map; the page counter drifts in \<^verbatim>\<open>pmm_alloc_pages\<close> and \<^verbatim>\<open>pmm_alloc_below\<close> deadlocks.
  \<^item> Vmm (\<^verbatim>\<open>mm/vmm.c\<close>): the four levels of page tables.  Mapping a page changes the walk of that page only.
  \<^item> Kmalloc (\<^verbatim>\<open>mm/kmalloc.c\<close>): the heap is a list of blocks, on which allocation is first fit after merging and
    freeing merges neighbours, trims large free blocks and gives pages back; the loops end.
  \<^item> Block (\<^verbatim>\<open>block/block.c\<close>): the registry refines a list of distinct devices; a request on a partition reaches the driver
    of the disk at the right sector and inside the disk; the slots of a partition table, as written on a disk, become partitions.
  \<^item> Pci, Ata (\<^verbatim>\<open>drivers/pci/pci.c\<close>, \<^verbatim>\<open>drivers/device.c\<close>, \<^verbatim>\<open>drivers/ata/ata.c\<close>): on a machine described by the headers of its
    functions, with buses numbered as firmware does, the scan ends and lists every function once; over ports that behave as an ATA drive the transfers read and write
    exactly the sectors named.
  \<^item> Vfs (\<^verbatim>\<open>fs/vfs.c\<close>): files, mounts, path resolution, devices; the device file system reads the slice of the disk.
  \<^item> Pipefs, Tmpfs (\<^verbatim>\<open>fs/pipefs.c\<close>, \<^verbatim>\<open>fs/tmpfs.c\<close>): a pipe is a bounded queue for every interleaving of its reader
    and its writer; on a heap whose blocks do not overlap a write to a file in memory returns, and the file reads back
    what was written.
  \<^item> Procfs (\<^verbatim>\<open>fs/procfs.c\<close>): reads are slices of the texts of the files, but of the file looked up last.
  \<^item> Fat32, Fat32_Table, Fat32_Name, Fat32_Dir, Fat32_File, Fat32_Vfs (\<^verbatim>\<open>fs/fat32.c\<close>): the volume, its table as a
    function of clusters, names, directories, contents of files against the concatenation of their clusters, and the
    operations registered with the VFS.
  \<^item> Elf, Task, Task_Inv, Task_Stack (\<^verbatim>\<open>proc/elf.c\<close>, \<^verbatim>\<open>proc/task.c\<close>): loading a program into a new address space,
    processes, signals and the scheduler; the bytes of a loaded page, the invariant of the task table, round-robin
    fairness, the first stack.
  \<^item> Path, Syscall, Syscall_Inv (\<^verbatim>\<open>proc/syscall.c\<close>, \<^verbatim>\<open>irq_handler\<close> of \<^verbatim>\<open>idt.c\<close>): every system call as a step of the
    whole kernel, and the invariant over all sequences of system calls and interrupts, those during a waiting call included.  Its
    clause on the number of tasks ends where a task whose slot was released calls \<^verbatim>\<open>yield\<close>.
  \<^item> Console, Framebuffer, Keyboard, Clock (\<^verbatim>\<open>vga.c\<close>, \<^verbatim>\<open>fb.c\<close>, \<^verbatim>\<open>os/keyboard.c\<close>, \<^verbatim>\<open>rtc.c\<close>, \<^verbatim>\<open>timer.c\<close>): the
    text console refines a linear screen with a position, the line editor a pair of strings around a cursor; a line
    that arrives over any number of polling rounds is returned.
  \<^item> Format (\<^verbatim>\<open>kprintf.c\<close>, \<^verbatim>\<open>libc/src/stdio/printf.c\<close>): both formatters, instances of one interface.
  \<^item> Libc_Mem, Libc_String, Libc_Stdlib (\<^verbatim>\<open>libc/src/string\<close>, \<^verbatim>\<open>libc/src/stdlib\<close>): copying, comparing, tokens, numbers,
    sorting.
  \<^item> Stdio, Scanf, Libc_Malloc (\<^verbatim>\<open>libc/src/stdio\<close>, \<^verbatim>\<open>libc/src/stdlib/malloc.c\<close>): buffered streams deliver and return the bytes
    in order over any split of them by the system calls; the scanner and its doubled digits; the heap of a program takes
    the first block that fits.
  \<^item> Shell (\<^verbatim>\<open>user/shell.c\<close>): the line editor refines an editor on strings and keeps the row of the 80-column console in step while the
    line fits, and a round of the shell runs the words of the line.
  \<^item> Acpi (\<^verbatim>\<open>drivers/acpi/acpi.c\<close>, \<^verbatim>\<open>drivers/mmio.h\<close>): the sleep type is found in a table, encoded as the ACPI specification says,
    when its name has the root prefix and its package is short.
  \<^item> Ed (\<^verbatim>\<open>user/coreutils/ed.c\<close>): insertion and deletion in the buffer of the editor act on the list of its lines.

  \<^bold>\<open>Interfaces.\<close>  Where a component uses another through a contract the contract is a locale, interpreted on the
  definitions of the provider: page allocation (Pmm) for the page tables and the heap, a disk that stores sectors
  (Block) for FAT32, a heap for Tmpfs, a bounded queue for the keyboard, a formatter for the two printers, a
  source and a sink of bytes for the streams of the C library, and the behaviour of a drive for the ATA driver.

  \<^bold>\<open>Not modelled.\<close>  Programming of hardware that has no effect the software sees again (descriptor tables, interrupt
  controllers, PIT, HPET, local APIC, start-up of other processors), the assembler sources, the AHCI driver,
  and the order of initialisation in \<^verbatim>\<open>kernel.c\<close>.  The spin locks are modelled for one
  processor: taking a held lock does not return.  Kconfig and the build tools are not part of the system.
\<close>

end
